(* ===== verification/Prelude.thy ===== *)
theory Prelude
  imports Main "HOL-Library.Word" "HOL-Library.Monad_Syntax"
begin

text \<open>
  Shared by every component: the names of the kernel's integer types and error numbers,
  C casts, byte-addressed memory with 32-bit little-endian accesses, ring arithmetic, and
  the interface of a bounded first-in first-out channel.

  A C function that can end in \<open>BUG()\<close> or in undefined behaviour returns an option;
  \<open>None\<close> is that outcome and never an error code. Error codes are negative integers, as
  in the source.
\<close>

unbundle bit_operations_syntax

named_theorems mem_simps \<open>loads and stores of the byte memory\<close>
named_theorems err_simps \<open>values of the error numbers\<close>

subsection \<open>Integer types and error numbers\<close>

type_synonym u8 = "8 word"
type_synonym u16 = "16 word"
type_synonym u32 = "32 word"
type_synonym u64 = "64 word"

abbreviation (input) EPERM :: int where "EPERM \<equiv> 1"
abbreviation (input) ENOENT :: int where "ENOENT \<equiv> 2"
abbreviation (input) EINTR :: int where "EINTR \<equiv> 4"
abbreviation (input) EIO :: int where "EIO \<equiv> 5"
abbreviation (input) E2BIG :: int where "E2BIG \<equiv> 7"
abbreviation (input) EAGAIN :: int where "EAGAIN \<equiv> 11"
abbreviation (input) ENOMEM :: int where "ENOMEM \<equiv> 12"
abbreviation (input) EFAULT :: int where "EFAULT \<equiv> 14"
abbreviation (input) EINVAL :: int where "EINVAL \<equiv> 22"
abbreviation (input) ENOSPC :: int where "ENOSPC \<equiv> 28"
abbreviation (input) ENOMSG :: int where "ENOMSG \<equiv> 42"
abbreviation (input) EBADE :: int where "EBADE \<equiv> 52"
abbreviation (input) ECONNRESET :: int where "ECONNRESET \<equiv> 104"
abbreviation (input) ETIMEDOUT :: int where "ETIMEDOUT \<equiv> 110"

text \<open>The cast of a 64-bit size to a C \<open>int\<close>.\<close>

definition int_of_size :: "u64 \<Rightarrow> int" where
  "int_of_size n = sint (ucast n :: u32)"

lemma int_of_size_small:
  assumes "unat n < 2 ^ 31"
  shows "int_of_size n = int (unat n)"
proof -
  have "unat n < 2147483648" using assms by simp
  then have "int (unat n) < 2147483648" by linarith
  then have u: "uint n < 2147483648" by simp
  have "uint (ucast n :: u32) = take_bit 32 (uint n)" by (simp only: unsigned_ucast_eq) simp
  also have "\<dots> = uint n" by (rule take_bit_int_eq_self) (use u in auto)
  finally have e: "uint (ucast n :: u32) = uint n" .
  have "sint (ucast n :: u32) = signed_take_bit 31 (uint n)"
    by (simp only: sint_uint e) simp
  also have "\<dots> = uint n"
    by (rule signed_take_bit_int_eq_self) (use u in \<open>auto intro: order_trans [OF _ uint_ge_0]\<close>)
  finally show ?thesis by (simp add: int_of_size_def)
qed

lemma unat_less_size: "unat (x :: u32) < 4294967296"
proof -
  have "unat x < 2 ^ LENGTH(32)" by (rule unsigned_less)
  then show ?thesis by simp
qed

lemma unat_ucast_u64: "unat (ucast (x :: u32) :: u64) = unat x"
proof -
  have "unat (ucast x :: u64) = take_bit 64 (unat x)"
    by (simp only: unsigned_ucast_eq) simp
  also have "\<dots> = unat x"
    by (rule take_bit_nat_eq_self) (use unat_less_size [of x] in simp)
  finally show ?thesis .
qed

subsection \<open>Byte memory\<close>

type_synonym mem = "nat \<Rightarrow> u8"

definition readl :: "mem \<Rightarrow> nat \<Rightarrow> u32" where
  "readl m a = ucast (m a) OR push_bit 8 (ucast (m (a + 1)))
     OR push_bit 16 (ucast (m (a + 2))) OR push_bit 24 (ucast (m (a + 3)))"

definition writel :: "u32 \<Rightarrow> nat \<Rightarrow> mem \<Rightarrow> mem" where
  "writel v a m = m(a := ucast v, a + 1 := ucast (drop_bit 8 v),
     a + 2 := ucast (drop_bit 16 v), a + 3 := ucast (drop_bit 24 v))"

fun store :: "nat \<Rightarrow> u8 list \<Rightarrow> mem \<Rightarrow> mem" where
  "store a [] m = m"
| "store a (b # bs) m = store (a + 1) bs (m(a := b))"

definition load :: "nat \<Rightarrow> nat \<Rightarrow> mem \<Rightarrow> u8 list" where
  "load a n m = map (\<lambda>i. m (a + i)) [0..<n]"

lemma word_of_bytes:
  "(ucast (ucast v :: u8) :: u32) OR push_bit 8 (ucast (ucast (drop_bit 8 v) :: u8))
     OR push_bit 16 (ucast (ucast (drop_bit 16 v) :: u8))
     OR push_bit 24 (ucast (ucast (drop_bit 24 v) :: u8)) = v"
proof (rule bit_word_eqI)
  fix n assume "n < LENGTH(32)"
  then have "n < 8 \<or> 8 \<le> n \<and> n < 16 \<or> 16 \<le> n \<and> n < 24 \<or> 24 \<le> n \<and> n < 32" by auto
  then show "bit ((ucast (ucast v :: u8) :: u32) OR push_bit 8 (ucast (ucast (drop_bit 8 v) :: u8))
     OR push_bit 16 (ucast (ucast (drop_bit 16 v) :: u8))
     OR push_bit 24 (ucast (ucast (drop_bit 24 v) :: u8))) n = bit v n"
    by (elim disjE) (auto simp: bit_simps)
qed

lemma readl_writel_same [mem_simps]: "readl (writel v a m) a = v"
  by (simp add: readl_def writel_def word_of_bytes)

lemma readl_writel_other [mem_simps]:
  "a + 4 \<le> b \<or> b + 4 \<le> a \<Longrightarrow> readl (writel v a m) b = readl m b"
  by (auto simp: readl_def writel_def)

lemma writel_apply_other: "b < a \<or> a + 4 \<le> b \<Longrightarrow> writel v a m b = m b"
  by (auto simp: writel_def)

lemma store_apply:
  "store a bs m x = (if a \<le> x \<and> x < a + length bs then bs ! (x - a) else m x)"
proof (induction bs arbitrary: a m)
  case Nil
  then show ?case by auto
next
  case (Cons b bs)
  show ?case
    by (auto simp: Cons.IH nth_Cons' Suc_diff_le not_less_eq_eq)
qed

lemma length_load [simp]: "length (load a n m) = n"
  by (simp add: load_def)

lemma load_store_same [mem_simps]: "length bs = n \<Longrightarrow> load a n (store a bs m) = bs"
  by (auto simp: load_def store_apply intro: nth_equalityI)

lemma load_store_other [mem_simps]:
  "a + length bs \<le> b \<or> b + n \<le> a \<Longrightarrow> load b n (store a bs m) = load b n m"
  by (auto simp: load_def store_apply)

lemma load_append: "load a (n + k) m = load a n m @ load (a + n) k m"
  by (rule nth_equalityI) (auto simp: load_def nth_append)

lemma store_append: "store (a + length xs) ys (store a xs m) = store a (xs @ ys) m"
  by (rule ext) (auto simp: store_apply nth_append)

subsection \<open>Ring buffers\<close>

text \<open>\<open>ring_view f n s c\<close>: the \<open>c\<close> slots from \<open>s\<close> on of a ring of \<open>n\<close> slots.\<close>

definition ring_view :: "(nat \<Rightarrow> 'a) \<Rightarrow> nat \<Rightarrow> nat \<Rightarrow> nat \<Rightarrow> 'a list" where
  "ring_view f n s c = map (\<lambda>i. f ((s + i) mod n)) [0..<c]"

lemma ring_view_0 [simp]: "ring_view f n s 0 = []"
  by (simp add: ring_view_def)

lemma length_ring_view [simp]: "length (ring_view f n s c) = c"
  by (simp add: ring_view_def)

lemma ring_slot_fresh:
  assumes "i < c" "c < n"
  shows "(s + i) mod n \<noteq> (s + c) mod (n::nat)"
proof
  assume "(s + i) mod n = (s + c) mod n"
  then have "n dvd (s + c) - (s + i)"
    using assms mod_eq_dvd_iff_nat [of "s + i" "s + c" n] by simp
  moreover have "0 < (s + c) - (s + i)" "(s + c) - (s + i) < n" using assms by auto
  ultimately show False using nat_dvd_not_less by blast
qed

lemma ring_view_push:
  assumes "c < n" "\<And>k. k < n \<Longrightarrow> k \<noteq> (s + c) mod n \<Longrightarrow> g k = f k" "g ((s + c) mod n) = x"
  shows "ring_view g n s (Suc c) = ring_view f n s c @ [x]"
proof -
  have "map (\<lambda>i. g ((s + i) mod n)) [0..<c] = map (\<lambda>i. f ((s + i) mod n)) [0..<c]"
    using assms by (auto intro!: assms(2) simp: ring_slot_fresh)
  with assms(3) show ?thesis by (simp add: ring_view_def)
qed

lemma ring_view_pop:
  assumes "s < n"
  shows "ring_view f n s (Suc c) = f s # ring_view f n (Suc s mod n) c"
proof -
  have "map (\<lambda>i. f ((s + i) mod n)) [0..<Suc c]
      = f (s mod n) # map (\<lambda>i. f ((s + i) mod n)) (map Suc [0..<c])"
    by (simp add: upt_conv_Cons map_Suc_upt del: upt_Suc)
  also have "map (\<lambda>i. f ((s + i) mod n)) (map Suc [0..<c])
      = map (\<lambda>i. f ((Suc s mod n + i) mod n)) [0..<c]"
    by (simp add: mod_simps)
  finally show ?thesis using assms by (simp add: ring_view_def)
qed

text \<open>The step of a ring position, as the drivers write it.\<close>

lemma Suc_mod_ring: "s < n \<Longrightarrow> Suc s mod n = (if s = n - 1 then 0 else Suc s)"
  by (auto simp: mod_Suc)

subsection \<open>The interface of a bounded first-in first-out channel\<close>

datatype 'a fifo_op = Send 'a | Recv

text \<open>
  A run of a client over a channel: the messages accepted, the messages delivered and the
  channel at the end. A send that the channel refuses and a receive that finds nothing leave
  no trace.
\<close>

fun fifo_run :: "('a \<Rightarrow> 'q \<Rightarrow> 'q option) \<Rightarrow> ('q \<Rightarrow> ('b \<times> 'q) option) \<Rightarrow> 'a fifo_op list \<Rightarrow> 'q
    \<Rightarrow> 'a list \<times> 'b list \<times> 'q" where
  "fifo_run enq deq [] q = ([], [], q)"
| "fifo_run enq deq (Send a # ops) q =
     (case enq a q of None \<Rightarrow> fifo_run enq deq ops q
      | Some q' \<Rightarrow> (case fifo_run enq deq ops q' of (s, r, t) \<Rightarrow> (a # s, r, t)))"
| "fifo_run enq deq (Recv # ops) q =
     (case deq q of None \<Rightarrow> fifo_run enq deq ops q
      | Some (b, q') \<Rightarrow> (case fifo_run enq deq ops q' of (s, r, t) \<Rightarrow> (s, b # r, t)))"

locale bounded_fifo =
  fixes inv :: "'q \<Rightarrow> bool"
    and abs :: "'q \<Rightarrow> 'b list"
    and enc :: "'a \<Rightarrow> 'b"
    and enq :: "'a \<Rightarrow> 'q \<Rightarrow> 'q option"
    and deq :: "'q \<Rightarrow> ('b \<times> 'q) option"
  assumes enq_appends: "inv q \<Longrightarrow> enq a q = Some q' \<Longrightarrow> inv q' \<and> abs q' = abs q @ [enc a]"
    and deq_pops: "inv q \<Longrightarrow> deq q = Some (b, q') \<Longrightarrow> inv q' \<and> abs q = b # abs q'"
    and deq_none: "inv q \<Longrightarrow> deq q = None \<Longrightarrow> abs q = []"
begin

lemma run_inv_in_order:
  "inv q \<Longrightarrow> fifo_run enq deq ops q = (s, r, q') \<Longrightarrow>
   inv q' \<and> abs q @ map enc s = r @ abs q'"
proof (induction ops arbitrary: q s r)
  case Nil
  then show ?case by simp
next
  case (Cons x ops)
  show ?case
  proof (cases x)
    case (Send a)
    show ?thesis
    proof (cases "enq a q")
      case None
      with Send Cons show ?thesis by simp
    next
      case (Some q1)
      with Send Cons.prems obtain s1 where s1: "fifo_run enq deq ops q1 = (s1, r, q')" "s = a # s1"
        by (auto split: prod.splits)
      from enq_appends [OF Cons.prems(1) Some] Cons.IH [OF _ s1(1)] s1(2) show ?thesis by simp
    qed
  next
    case Recv
    show ?thesis
    proof (cases "deq q")
      case None
      with Recv Cons show ?thesis by simp
    next
      case (Some p)
      obtain b q1 where p: "p = (b, q1)" by (cases p)
      with Recv Some Cons.prems obtain r1 where r1: "fifo_run enq deq ops q1 = (s, r1, q')" "r = b # r1"
        by (auto split: prod.splits)
      from deq_pops [OF Cons.prems(1)] Some p Cons.IH [OF _ r1(1)] r1(2) show ?thesis by simp
    qed
  qed
qed

lemmas run_inv = run_inv_in_order [THEN conjunct1]
lemmas run_in_order = run_inv_in_order [THEN conjunct2]

lemma run_no_loss:
  assumes "inv q" "abs q = []" "fifo_run enq deq ops q = (s, r, q')"
  shows "r = take (length r) (map enc s) \<and> abs q' = drop (length r) (map enc s)"
proof -
  from run_in_order [OF assms(1,3)] assms(2) have "map enc s = r @ abs q'" by simp
  then show ?thesis by simp
qed

end

end
