(* ===== verification/Ivc.thy ===== *)
theory Ivc
  imports Prelude
begin

text \<open>
  Inter-VM communication channels, \<open>drivers/platform/tegra/tegra-ivc.c\<close>: the channel header,
  the checked arithmetic, the counters and positions of the frame rings, reading and writing
  of frames, and the set-up of a channel. The reset handshake is in \<open>Ivc_Protocol\<close>.

  An endpoint is the record \<open>ivc\<close>. The two headers and frame areas its pointers lead to are
  kept inside it (\<open>rx_channel\<close>, \<open>tx_channel\<close>); \<open>Ivc_Link\<close> and \<open>Ivc_Protocol\<close> let two endpoints
  share them. The peer runs concurrently: what has become visible of its stores is an
  \<open>observer\<close>, applied wherever the source synchronises the header or a frame
  (\<open>ivc_invalidate_counter\<close>, \<open>ivc_invalidate_frame\<close>). With a peer device those are the
  places where the DMA API makes the peer's stores visible, on coherent memory (no peer device)
  they are the places at which the model lets them appear. Flushes and barriers order stores that
  the model performs in program order and have no further effect here.
\<close>

named_theorems ivc_simps \<open>projections and frame conditions of the endpoint operations\<close>

subsection \<open>Channel header and endpoint\<close>

abbreviation (input) ivc_state_established :: u32 where "ivc_state_established \<equiv> 0"
abbreviation (input) ivc_state_sync :: u32 where "ivc_state_sync \<equiv> 1"
abbreviation (input) ivc_state_ack :: u32 where "ivc_state_ack \<equiv> 2"

abbreviation (input) IVC_ALIGN :: nat where "IVC_ALIGN \<equiv> 64"
abbreviation (input) header_size :: nat where "header_size \<equiv> 128"
abbreviation (input) off_w_count :: nat where "off_w_count \<equiv> 0"
abbreviation (input) off_r_count :: nat where "off_r_count \<equiv> 64"

record ivc_channel =
  w_count :: u32
  ch_state :: u32
  r_count :: u32
  frames :: mem

record dma_dev =
  dma_map_single :: "u64 \<Rightarrow> u64 \<Rightarrow> u64"
  dma_mapping_error :: "u64 \<Rightarrow> bool"

record ivc =
  rx_base :: u64
  tx_base :: u64
  rx_channel :: ivc_channel
  tx_channel :: ivc_channel
  w_pos :: u32
  r_pos :: u32
  notified :: nat
  nframes :: u32
  frame_size :: u32
  peer_device :: "dma_dev option"
  rx_handle :: u64
  tx_handle :: u64

text \<open>The \<open>notify\<close> callback, as a count of its calls.\<close>

definition notify :: "ivc \<Rightarrow> ivc" where
  "notify ivc = ivc\<lparr>notified := notified ivc + 1\<rparr>"

datatype sync_point = Sync_check | Sync_frame | Sync_notify | Sync_state

type_synonym observer = "sync_point \<Rightarrow> ivc \<Rightarrow> ivc"

definition ivc_invalidate_counter :: "observer \<Rightarrow> sync_point \<Rightarrow> ivc \<Rightarrow> ivc" where
  "ivc_invalidate_counter obs p ivc = obs p ivc"

subsection \<open>Checked arithmetic\<close>

definition is_u32_subtraction_safe :: "u32 \<Rightarrow> u32 \<Rightarrow> bool" where
  "is_u32_subtraction_safe a b \<longleftrightarrow> a \<ge> b"

definition safe_subtract_u32 :: "u32 \<Rightarrow> u32 \<Rightarrow> u32 option" where
  "safe_subtract_u32 a b = (if \<not> is_u32_subtraction_safe a b then None else Some (a - b))"

definition is_u64_addition_safe :: "u64 \<Rightarrow> u64 \<Rightarrow> bool" where
  "is_u64_addition_safe a b \<longleftrightarrow> - 1 - a \<ge> b"

definition safe_add_u64 :: "u64 \<Rightarrow> u64 \<Rightarrow> u64 option" where
  "safe_add_u64 a b = (if \<not> is_u64_addition_safe a b then None else Some (a + b))"

definition is_u32_addition_safe :: "u32 \<Rightarrow> u32 \<Rightarrow> bool" where
  "is_u32_addition_safe a b \<longleftrightarrow> - 1 - a \<ge> b"

definition safe_add_u32 :: "u32 \<Rightarrow> u32 \<Rightarrow> u32 option" where
  "safe_add_u32 a b = (if \<not> is_u32_addition_safe a b then None else Some (a + b))"

definition is_u32_u32__u32_multiplication_safe :: "u32 \<Rightarrow> u32 \<Rightarrow> bool" where
  "is_u32_u32__u32_multiplication_safe a b =
     (if a = 0 \<or> b = 0 then True else (- 1) div b \<ge> a)"

definition is_u32_u32__u64_multiplication_safe :: "u32 \<Rightarrow> u32 \<Rightarrow> bool" where
  "is_u32_u32__u64_multiplication_safe a b =
     (if a = 0 \<or> b = 0 then True else (- 1 :: u64) div ucast b \<ge> ucast a)"

definition safe_mult_u32_u32__u64 :: "u32 \<Rightarrow> u32 \<Rightarrow> u64 option" where
  "safe_mult_u32_u32__u64 a b =
     (if \<not> is_u32_u32__u64_multiplication_safe a b then None
      else Some ((ucast a :: u64) * ucast b))"

subsection \<open>Counters and positions\<close>

definition ivc_channel_empty :: "ivc \<Rightarrow> ivc_channel \<Rightarrow> bool" where
  "ivc_channel_empty ivc ch =
     (if w_count ch - r_count ch > nframes ivc then True else w_count ch = r_count ch)"

definition ivc_channel_full :: "ivc \<Rightarrow> ivc_channel \<Rightarrow> bool" where
  "ivc_channel_full ivc ch \<longleftrightarrow> w_count ch - r_count ch \<ge> nframes ivc"

definition ivc_channel_avail_count :: "ivc \<Rightarrow> ivc_channel \<Rightarrow> u32" where
  "ivc_channel_avail_count ivc ch = w_count ch - r_count ch"

text \<open>Both positions step the same way.\<close>

definition ring_next :: "u32 \<Rightarrow> u32 \<Rightarrow> u32" where
  "ring_next pos n = (if pos = n - 1 then 0 else pos + 1)"

definition ivc_advance_tx :: "ivc \<Rightarrow> ivc" where
  "ivc_advance_tx ivc = ivc\<lparr>
     tx_channel := (tx_channel ivc)\<lparr>w_count := w_count (tx_channel ivc) + 1\<rparr>,
     w_pos := ring_next (w_pos ivc) (nframes ivc)\<rparr>"

definition ivc_advance_rx :: "ivc \<Rightarrow> ivc" where
  "ivc_advance_rx ivc = ivc\<lparr>
     rx_channel := (rx_channel ivc)\<lparr>r_count := r_count (rx_channel ivc) + 1\<rparr>,
     r_pos := ring_next (r_pos ivc) (nframes ivc)\<rparr>"

definition ivc_check_read :: "observer \<Rightarrow> ivc \<Rightarrow> int \<times> ivc" where
  "ivc_check_read obs ivc =
     (if ch_state (tx_channel ivc) \<noteq> ivc_state_established then (- ECONNRESET, ivc)
      else if \<not> ivc_channel_empty ivc (rx_channel ivc) then (0, ivc)
      else let ivc = ivc_invalidate_counter obs Sync_check ivc
           in (if ivc_channel_empty ivc (rx_channel ivc) then - ENOMEM else 0, ivc))"

definition ivc_check_write :: "observer \<Rightarrow> ivc \<Rightarrow> int \<times> ivc" where
  "ivc_check_write obs ivc =
     (if ch_state (tx_channel ivc) \<noteq> ivc_state_established then (- ECONNRESET, ivc)
      else if \<not> ivc_channel_full ivc (tx_channel ivc) then (0, ivc)
      else let ivc = ivc_invalidate_counter obs Sync_check ivc
           in (if ivc_channel_full ivc (tx_channel ivc) then - ENOMEM else 0, ivc))"

definition tegra_ivc_can_read :: "observer \<Rightarrow> ivc \<Rightarrow> bool \<times> ivc" where
  "tegra_ivc_can_read obs ivc = (case ivc_check_read obs ivc of (r, ivc) \<Rightarrow> (r = 0, ivc))"

definition tegra_ivc_can_write :: "observer \<Rightarrow> ivc \<Rightarrow> bool \<times> ivc" where
  "tegra_ivc_can_write obs ivc = (case ivc_check_write obs ivc of (r, ivc) \<Rightarrow> (r = 0, ivc))"

text \<open>The 64-bit handle is narrowed to 32 bits by the parameter type of \<open>safe_add_u32\<close>.\<close>

definition tegra_ivc_tx_empty :: "observer \<Rightarrow> ivc \<Rightarrow> (bool \<times> ivc) option" where
  "tegra_ivc_tx_empty obs ivc = do {
     _ \<leftarrow> safe_add_u32 (ucast (tx_handle ivc)) (of_nat off_r_count);
     let ivc = ivc_invalidate_counter obs Sync_check ivc;
     Some (ivc_channel_empty ivc (tx_channel ivc), ivc)
   }"

definition tegra_ivc_tx_frames_available :: "observer \<Rightarrow> ivc \<Rightarrow> (u32 \<times> ivc) option" where
  "tegra_ivc_tx_frames_available obs ivc = do {
     _ \<leftarrow> safe_add_u32 (ucast (tx_handle ivc)) (of_nat off_r_count);
     let ivc = ivc_invalidate_counter obs Sync_check ivc;
     used \<leftarrow> safe_subtract_u32 (w_count (tx_channel ivc)) (r_count (tx_channel ivc));
     free \<leftarrow> safe_subtract_u32 (nframes ivc) used;
     Some (free, ivc)
   }"

subsection \<open>Frames\<close>

text \<open>
  A frame pointer is the byte offset from the end of the header; the multiplication is in 32 bits.
\<close>

definition ivc_frame_pointer :: "ivc \<Rightarrow> u32 \<Rightarrow> nat option" where
  "ivc_frame_pointer ivc frame =
     (if frame \<ge> nframes ivc then None else Some (unat (frame_size ivc * frame)))"

definition ivc_frame_handle :: "ivc \<Rightarrow> u64 \<Rightarrow> u32 \<Rightarrow> u64 option" where
  "ivc_frame_handle ivc channel_handle frame =
     (if peer_device ivc = None then None
      else if frame \<ge> nframes ivc then None
      else do {
        base \<leftarrow> safe_add_u64 channel_handle (of_nat header_size);
        off \<leftarrow> safe_mult_u32_u32__u64 (frame_size ivc) frame;
        safe_add_u64 base off
      })"

definition ivc_invalidate_frame :: "observer \<Rightarrow> ivc \<Rightarrow> u64 \<Rightarrow> u32 \<Rightarrow> u64 \<Rightarrow> ivc option" where
  "ivc_invalidate_frame obs ivc channel_handle frame offset =
     (if peer_device ivc = None then Some (obs Sync_frame ivc)
      else do {
        h \<leftarrow> ivc_frame_handle ivc channel_handle frame;
        _ \<leftarrow> safe_add_u64 h offset;
        Some (obs Sync_frame ivc)
      })"

definition ivc_flush_frame :: "ivc \<Rightarrow> u64 \<Rightarrow> u32 \<Rightarrow> u64 \<Rightarrow> unit option" where
  "ivc_flush_frame ivc channel_handle frame offset =
     (if peer_device ivc = None then Some ()
      else do {
        h \<leftarrow> ivc_frame_handle ivc channel_handle frame;
        _ \<leftarrow> safe_add_u64 h offset;
        Some ()
      })"

text \<open>
  Accesses to the frame area; an access outside it is undefined behaviour.
\<close>

definition frame_area :: "ivc \<Rightarrow> nat" where
  "frame_area ivc = unat (nframes ivc) * unat (frame_size ivc)"

definition get_frame :: "ivc \<Rightarrow> nat \<Rightarrow> nat \<Rightarrow> u8 list option" where
  "get_frame ivc p n =
     (if p + n \<le> frame_area ivc then Some (load p n (frames (rx_channel ivc))) else None)"

definition put_frame :: "nat \<Rightarrow> u8 list \<Rightarrow> ivc \<Rightarrow> ivc option" where
  "put_frame p bs ivc =
     (if p + length bs \<le> frame_area ivc
      then Some (ivc\<lparr>tx_channel := (tx_channel ivc)\<lparr>frames := store p bs (frames (tx_channel ivc))\<rparr>\<rparr>)
      else None)"

text \<open>
  The destination or source buffer: in the kernel, in user space, or in user space with a fault
  after some bytes.
\<close>

datatype iobuf = Kernel_buf | User_buf | User_fault nat

definition ivc_read_frame :: "observer \<Rightarrow> ivc \<Rightarrow> iobuf \<Rightarrow> u64 \<Rightarrow> (int \<times> u8 list \<times> ivc) option" where
  "ivc_read_frame obs ivc buf max_read =
     (if unat max_read > unat (frame_size ivc) then Some (- E2BIG, [], ivc)
      else case ivc_check_read obs ivc of (result, ivc) \<Rightarrow>
        if result \<noteq> 0 then Some (result, [], ivc)
        else do {
          ivc \<leftarrow> ivc_invalidate_frame obs ivc (rx_handle ivc) (r_pos ivc) 0;
          src \<leftarrow> ivc_frame_pointer ivc (r_pos ivc);
          bytes \<leftarrow> get_frame ivc src (unat max_read);
          case buf of
            User_fault k \<Rightarrow> Some (- EFAULT, take k bytes, ivc)
          | _ \<Rightarrow>
            let ivc = ivc_advance_rx ivc;
                ivc = ivc_invalidate_counter obs Sync_notify ivc;
                ivc = (if ivc_channel_avail_count ivc (rx_channel ivc) = nframes ivc - 1
                       then notify ivc else ivc)
            in Some (int_of_size max_read, bytes, ivc)
        })"

definition tegra_ivc_read :: "observer \<Rightarrow> ivc \<Rightarrow> u64 \<Rightarrow> (int \<times> u8 list \<times> ivc) option" where
  "tegra_ivc_read obs ivc max_read = ivc_read_frame obs ivc Kernel_buf max_read"

definition tegra_ivc_read_user ::
  "observer \<Rightarrow> ivc \<Rightarrow> nat option \<Rightarrow> u64 \<Rightarrow> (int \<times> u8 list \<times> ivc) option" where
  "tegra_ivc_read_user obs ivc fault max_read =
     ivc_read_frame obs ivc (case fault of None \<Rightarrow> User_buf | Some k \<Rightarrow> User_fault k) max_read"

definition tegra_ivc_read_peek :: "observer \<Rightarrow> ivc \<Rightarrow> u64 \<Rightarrow> u64 \<Rightarrow> (int \<times> u8 list \<times> ivc) option" where
  "tegra_ivc_read_peek obs ivc off count =
     (if \<not> is_u64_addition_safe off count then Some (- EFAULT, [], ivc)
      else if off > ucast (frame_size ivc) \<or> off + count > ucast (frame_size ivc)
      then Some (- E2BIG, [], ivc)
      else case ivc_check_read obs ivc of (result, ivc) \<Rightarrow>
        if result \<noteq> 0 then Some (result, [], ivc)
        else do {
          ivc \<leftarrow> ivc_invalidate_frame obs ivc (rx_handle ivc) (r_pos ivc) off;
          src \<leftarrow> ivc_frame_pointer ivc (r_pos ivc);
          bytes \<leftarrow> get_frame ivc (src + unat off) (unat count);
          Some (int_of_size count, bytes, ivc)
        })"

text \<open>A returned pointer is an error number or the byte offset of the frame.\<close>

definition tegra_ivc_read_get_next_frame :: "observer \<Rightarrow> ivc \<Rightarrow> ((int + nat) \<times> ivc) option" where
  "tegra_ivc_read_get_next_frame obs ivc =
     (case ivc_check_read obs ivc of (result, ivc) \<Rightarrow>
        if result \<noteq> 0 then Some (Inl result, ivc)
        else do {
          ivc \<leftarrow> ivc_invalidate_frame obs ivc (rx_handle ivc) (r_pos ivc) 0;
          src \<leftarrow> ivc_frame_pointer ivc (r_pos ivc);
          Some (Inr src, ivc)
        })"

definition tegra_ivc_read_advance :: "observer \<Rightarrow> ivc \<Rightarrow> int \<times> ivc" where
  "tegra_ivc_read_advance obs ivc =
     (case ivc_check_read obs ivc of (result, ivc) \<Rightarrow>
        if result \<noteq> 0 then (result, ivc)
        else if \<not> is_u64_addition_safe (rx_handle ivc) (of_nat off_r_count) then (- EFAULT, ivc)
        else if \<not> is_u64_addition_safe (rx_handle ivc) (of_nat off_w_count) then (- EFAULT, ivc)
        else if \<not> is_u32_subtraction_safe (nframes ivc) 1 then (- EFAULT, ivc)
        else
          let ivc = ivc_advance_rx ivc;
              ivc = ivc_invalidate_counter obs Sync_notify ivc;
              ivc = (if ivc_channel_avail_count ivc (rx_channel ivc) = nframes ivc - 1
                     then notify ivc else ivc)
          in (0, ivc))"

definition ivc_write_frame :: "observer \<Rightarrow> ivc \<Rightarrow> iobuf \<Rightarrow> u8 list \<Rightarrow> (int \<times> ivc) option" where
  "ivc_write_frame obs ivc buf data =
     (if length data > unat (frame_size ivc) then Some (- E2BIG, ivc)
      else case ivc_check_write obs ivc of (result, ivc) \<Rightarrow>
        if result \<noteq> 0 then Some (result, ivc)
        else do {
          p \<leftarrow> ivc_frame_pointer ivc (w_pos ivc);
          case buf of
            User_fault k \<Rightarrow> do { ivc \<leftarrow> put_frame p (take k data) ivc; Some (- EFAULT, ivc) }
          | _ \<Rightarrow> do {
            ivc \<leftarrow> put_frame p data ivc;
            ivc \<leftarrow> put_frame (p + length data)
                    (replicate (unat (frame_size ivc) - length data) 0) ivc;
            _ \<leftarrow> ivc_flush_frame ivc (tx_handle ivc) (w_pos ivc) 0;
            let ivc = ivc_advance_tx ivc;
            let ivc = ivc_invalidate_counter obs Sync_notify ivc;
            let ivc = (if ivc_channel_avail_count ivc (tx_channel ivc) = 1 then notify ivc else ivc);
            Some (int_of_size (of_nat (length data)), ivc)
          }
        })"

definition tegra_ivc_write :: "observer \<Rightarrow> ivc \<Rightarrow> u8 list \<Rightarrow> (int \<times> ivc) option" where
  "tegra_ivc_write obs ivc data = ivc_write_frame obs ivc Kernel_buf data"

definition tegra_ivc_write_user ::
  "observer \<Rightarrow> ivc \<Rightarrow> nat option \<Rightarrow> u8 list \<Rightarrow> (int \<times> ivc) option" where
  "tegra_ivc_write_user obs ivc fault data =
     ivc_write_frame obs ivc (case fault of None \<Rightarrow> User_buf | Some k \<Rightarrow> User_fault k) data"

definition tegra_ivc_write_poke :: "observer \<Rightarrow> ivc \<Rightarrow> u8 list \<Rightarrow> u64 \<Rightarrow> u64 \<Rightarrow> (int \<times> ivc) option" where
  "tegra_ivc_write_poke obs ivc buf off count =
     (if \<not> is_u64_addition_safe off count then Some (- EFAULT, ivc)
      else if off > 0xFFFFFFFF \<or> count > 0x7FFFFFFF \<or> off + count > 0xFFFFFFFF
      then Some (- EFAULT, ivc)
      else if off > ucast (frame_size ivc) \<or> off + count > ucast (frame_size ivc)
      then Some (- E2BIG, ivc)
      else case ivc_check_write obs ivc of (result, ivc) \<Rightarrow>
        if result \<noteq> 0 then Some (result, ivc)
        else do {
          dest \<leftarrow> ivc_frame_pointer ivc (w_pos ivc);
          ivc \<leftarrow> put_frame (dest + unat off) (take (unat count) buf) ivc;
          Some (int_of_size count, ivc)
        })"

definition tegra_ivc_write_get_next_frame :: "observer \<Rightarrow> ivc \<Rightarrow> ((int + nat) \<times> ivc) option" where
  "tegra_ivc_write_get_next_frame obs ivc =
     (case ivc_check_write obs ivc of (result, ivc) \<Rightarrow>
        if result \<noteq> 0 then Some (Inl result, ivc)
        else do {
          p \<leftarrow> ivc_frame_pointer ivc (w_pos ivc);
          Some (Inr p, ivc)
        })"

definition tegra_ivc_write_advance :: "observer \<Rightarrow> ivc \<Rightarrow> (int \<times> ivc) option" where
  "tegra_ivc_write_advance obs ivc =
     (case ivc_check_write obs ivc of (result, ivc) \<Rightarrow>
        if result \<noteq> 0 then Some (result, ivc)
        else do {
          _ \<leftarrow> ivc_flush_frame ivc (tx_handle ivc) (w_pos ivc) 0;
          let ivc = ivc_advance_tx ivc;
          if \<not> is_u32_addition_safe (ucast (tx_handle ivc)) (of_nat off_r_count)
          then Some (- EFAULT, ivc)
          else
            let ivc = ivc_invalidate_counter obs Sync_notify ivc;
                ivc = (if ivc_channel_avail_count ivc (tx_channel ivc) = 1 then notify ivc else ivc)
            in Some (0, ivc)
        })"

subsection \<open>Well-formed endpoints\<close>

text \<open>
  What \<open>tegra_ivc_init_body\<close> establishes and every operation keeps. A hostile peer may store
  anything into the shared headers and frames, at any moment, and cannot reach the private fields.
\<close>

definition ivc_wf :: "ivc \<Rightarrow> bool" where
  "ivc_wf ivc \<longleftrightarrow> r_pos ivc < nframes ivc \<and> w_pos ivc < nframes ivc \<and> frame_area ivc < 2 ^ 32
     \<and> (peer_device ivc \<noteq> None \<longrightarrow> unat (rx_handle ivc) + header_size + frame_area ivc < 2 ^ 64
          \<and> unat (tx_handle ivc) + header_size + frame_area ivc < 2 ^ 64)"

definition hostile_peer :: "observer \<Rightarrow> bool" where
  "hostile_peer obs \<longleftrightarrow> (\<forall>p i. \<exists>rx tx. obs p i = i\<lparr>rx_channel := rx, tx_channel := tx\<rparr>)"

definition quiet_peer :: observer where
  "quiet_peer p i = i"

definition same_geometry :: "ivc \<Rightarrow> ivc \<Rightarrow> bool" where
  "same_geometry i j \<longleftrightarrow> nframes j = nframes i \<and> frame_size j = frame_size i
     \<and> peer_device j = peer_device i \<and> rx_handle j = rx_handle i \<and> tx_handle j = tx_handle i"

lemma same_geometry_refl [simp, intro]: "same_geometry i i"
  by (simp add: same_geometry_def)

lemma same_geometry_trans: "same_geometry i j \<Longrightarrow> same_geometry j k \<Longrightarrow> same_geometry i k"
  by (simp add: same_geometry_def)

lemma hostile_quiet [simp]: "hostile_peer quiet_peer"
  unfolding hostile_peer_def quiet_peer_def
proof (intro allI)
  fix i show "\<exists>rx tx. i = i\<lparr>rx_channel := rx, tx_channel := tx\<rparr>"
    by (rule exI [of _ "rx_channel i"], rule exI [of _ "tx_channel i"]) simp
qed

lemma hostile_obs:
  assumes "hostile_peer obs"
  shows "same_geometry i (obs p i) \<and> ivc_wf (obs p i) = ivc_wf i
    \<and> r_pos (obs p i) = r_pos i \<and> w_pos (obs p i) = w_pos i"
proof -
  obtain rx tx where "obs p i = i\<lparr>rx_channel := rx, tx_channel := tx\<rparr>"
    using assms unfolding hostile_peer_def by blast
  then show ?thesis by (simp add: same_geometry_def ivc_wf_def frame_area_def)
qed

text \<open>The step of a position: it stays a frame index.\<close>

lemma unat_ring_step:
  assumes "p < (n :: u32)"
  shows "unat (ring_next p n) = Suc (unat p) mod unat n" and "ring_next p n < n"
proof -
  have lt: "unat p < unat n" using assms by (simp add: word_less_nat_alt)
  have "1 \<le> n" using assms by (metis word_le_less_eq word_less_1 word_not_simps(1) linorder_not_less)
  then have n1: "unat (n - 1) = unat n - 1" by (simp add: unat_sub)
  have iff: "p = n - 1 \<longleftrightarrow> unat p = unat n - 1" by (metis n1 word_unat_eq_iff)
  have suc: "p \<noteq> n - 1 \<Longrightarrow> unat (p + 1) = Suc (unat p)"
    using lt unat_less_size [of n] by (simp add: unat_word_ariths)
  show "unat (ring_next p n) = Suc (unat p) mod unat n"
    using lt iff suc by (auto simp: ring_next_def Suc_mod_ring)
  then show "ring_next p n < n"
    using lt by (auto simp: word_less_nat_alt)
qed

lemma advance_wf [ivc_simps]:
  "ivc_wf i \<Longrightarrow> ivc_wf (ivc_advance_tx i)" "ivc_wf i \<Longrightarrow> ivc_wf (ivc_advance_rx i)"
  by (simp_all add: ivc_wf_def ivc_advance_tx_def ivc_advance_rx_def frame_area_def
    unat_ring_step(2))

lemma geometry_simps [ivc_simps]:
  "same_geometry i (ivc_advance_tx i)" "same_geometry i (ivc_advance_rx i)"
  "same_geometry i (notify i)" "ivc_wf (notify i) = ivc_wf i"
  by (simp_all add: same_geometry_def ivc_advance_tx_def ivc_advance_rx_def notify_def
    ivc_wf_def frame_area_def)

lemma put_frame_inside:
  assumes "p + length bs \<le> frame_area i"
  obtains j where "put_frame p bs i = Some j" "same_geometry i j" "ivc_wf j = ivc_wf i"
    "w_pos j = w_pos i" "r_pos j = r_pos i"
  using assms by (auto simp: put_frame_def same_geometry_def ivc_wf_def frame_area_def)

lemma same_geometry_area: "same_geometry i j \<Longrightarrow> frame_area j = frame_area i"
  by (simp add: same_geometry_def frame_area_def)

text \<open>A frame index below \<open>nframes\<close> is a frame inside the frame area, and no product wraps.\<close>

lemma frame_pointer_in_area:
  assumes "ivc_wf i" "k < nframes i"
  shows "ivc_frame_pointer i k = Some (unat k * unat (frame_size i))"
    and "unat k * unat (frame_size i) + unat (frame_size i) \<le> frame_area i"
proof -
  have k: "Suc (unat k) \<le> unat (nframes i)" using assms(2) by (simp add: word_less_nat_alt)
  then have le: "Suc (unat k) * unat (frame_size i) \<le> frame_area i"
    unfolding frame_area_def by (rule mult_le_mono1)
  then show "unat k * unat (frame_size i) + unat (frame_size i) \<le> frame_area i" by simp
  then have "unat (frame_size i) * unat k < 2 ^ 32"
    using assms(1) unfolding ivc_wf_def by (simp add: mult.commute)
  then show "ivc_frame_pointer i k = Some (unat k * unat (frame_size i))"
    using assms(2) by (simp add: ivc_frame_pointer_def unat_word_ariths mult.commute)
qed

lemma u64_safe_iff: "is_u64_addition_safe a b \<longleftrightarrow> unat a + unat b < 2 ^ 64"
proof -
  have "unat (- 1 - a) = 2 ^ 64 - 1 - unat a"
    using unat_sub [of a "- 1"] by (simp add: unsigned_minus_1_eq_mask mask_eq_exp_minus_1)
  moreover have "unat a < 2 ^ LENGTH(64)" by (rule unsigned_less)
  ultimately show ?thesis by (auto simp: is_u64_addition_safe_def word_le_nat_alt)
qed

lemma u32_safe_iff: "is_u32_addition_safe a b \<longleftrightarrow> unat a + unat b < 2 ^ 32"
proof -
  have "unat (- 1 - a) = 2 ^ 32 - 1 - unat a"
    using unat_sub [of a "- 1"] by (simp add: unsigned_minus_1_eq_mask mask_eq_exp_minus_1)
  then show ?thesis using unat_less_size [of a] by (auto simp: is_u32_addition_safe_def word_le_nat_alt)
qed

lemma u64_mult_safe: "is_u32_u32__u64_multiplication_safe a b"
proof (cases "a = 0 \<or> b = 0")
  case False
  have b: "unat (ucast b :: u64) = unat b" and a: "unat (ucast a :: u64) = unat a"
    by (rule unat_ucast_u64)+
  have pos: "0 < unat b" using False by (simp add: unat_gt_0)
  have "unat a * unat b \<le> (2 ^ 32 - 1) * (2 ^ 32 - 1)"
    using unat_less_size [of a] unat_less_size [of b] by (intro mult_le_mono) auto
  then have "unat a * unat b \<le> 2 ^ 64 - 1" by simp
  then have "unat a \<le> (2 ^ 64 - 1) div unat b" using pos by (simp add: less_eq_div_iff_mult_less_eq)
  then show ?thesis using False
    by (simp add: is_u32_u32__u64_multiplication_safe_def word_le_nat_alt unat_div_distrib a b
      unsigned_minus_1_eq_mask mask_eq_exp_minus_1)
qed (simp add: is_u32_u32__u64_multiplication_safe_def)

lemma u64_mult_unat: "unat ((ucast (a :: u32) :: u64) * ucast (b :: u32)) = unat a * unat b"
proof -
  have "unat a * unat b \<le> (2 ^ 32 - 1) * (2 ^ 32 - 1)"
    using unat_less_size [of a] unat_less_size [of b] by (intro mult_le_mono) auto
  then have "unat a * unat b < 18446744073709551616" by simp
  then show ?thesis by (simp add: unat_word_ariths unat_ucast_u64)
qed

lemma safe_add_u64_Some:
  "unat a + unat b < 2 ^ 64 \<Longrightarrow> safe_add_u64 a b = Some (a + b) \<and> unat (a + b) = unat a + unat b"
  by (simp add: safe_add_u64_def u64_safe_iff unat_word_ariths)

lemma frame_handle_Some:
  assumes "peer_device i \<noteq> None" "k < nframes i" "ivc_wf i"
    and h: "unat h + header_size + frame_area i < 2 ^ 64"
  obtains a where "ivc_frame_handle i h k = Some a"
    "unat a = unat h + header_size + unat k * unat (frame_size i)"
proof -
  let ?off = "(ucast (frame_size i) :: u64) * ucast k"
  have off: "unat ?off = unat (frame_size i) * unat k" by (rule u64_mult_unat)
  have le: "unat k * unat (frame_size i) \<le> frame_area i"
    using frame_pointer_in_area(2) [OF assms(3,2)] by simp
  have hs: "unat (128 :: u64) = header_size" by simp
  have base: "safe_add_u64 h 128 = Some (h + 128)" "unat (h + 128) = unat h + header_size"
    using safe_add_u64_Some [of h 128] h by (simp_all only: hs)
  have "unat (h + 128) + unat ?off < 2 ^ 64"
    unfolding base(2) off using h le by (simp add: mult.commute [of "unat (frame_size i)"])
  from safe_add_u64_Some [OF this] have
    "safe_add_u64 (h + 128) ?off = Some (h + 128 + ?off)"
    "unat (h + 128 + ?off) = unat h + header_size + unat k * unat (frame_size i)"
    by (simp_all only: base(2) off mult.commute [of "unat (frame_size i)"])
  with assms(1,2) base(1) show ?thesis
    by (intro that [of "h + 128 + ?off"])
       (auto simp: ivc_frame_handle_def safe_mult_u32_u32__u64_def u64_mult_safe)
qed

lemma frame_sync_safe:
  assumes "peer_device i \<noteq> None" "k < nframes i" "ivc_wf i"
    and "unat h + header_size + frame_area i < 2 ^ 64" "unat off \<le> unat (frame_size i)"
  shows "\<exists>a b. ivc_frame_handle i h k = Some a \<and> safe_add_u64 a off = Some b"
proof -
  obtain a where a: "ivc_frame_handle i h k = Some a"
    "unat a = unat h + header_size + unat k * unat (frame_size i)"
    using frame_handle_Some [OF assms(1-4)] .
  have "unat a + unat off < 2 ^ 64"
    using a(2) assms(4,5) frame_pointer_in_area(2) [OF assms(3,2)] by linarith
  with a(1) safe_add_u64_Some show ?thesis by blast
qed

lemma invalidate_frame_safe:
  assumes "hostile_peer obs" "ivc_wf i" "k < nframes i" "unat off \<le> unat (frame_size i)"
  obtains j where "ivc_invalidate_frame obs i (rx_handle i) k off = Some j"
    "same_geometry i j" "ivc_wf j" "r_pos j = r_pos i" "w_pos j = w_pos i"
proof -
  have "ivc_invalidate_frame obs i (rx_handle i) k off = Some (obs Sync_frame i)"
  proof (cases "peer_device i = None")
    case True
    then show ?thesis by (simp add: ivc_invalidate_frame_def)
  next
    case False
    then have "unat (rx_handle i) + header_size + frame_area i < 2 ^ 64"
      using assms(2) by (simp add: ivc_wf_def)
    from frame_sync_safe [OF False assms(3,2) this assms(4)] obtain a b where
      "ivc_frame_handle i (rx_handle i) k = Some a" "safe_add_u64 a off = Some b" by blast
    with False show ?thesis by (simp add: ivc_invalidate_frame_def)
  qed
  with that hostile_obs [OF assms(1), of i Sync_frame] assms(2) show ?thesis by blast
qed

lemma flush_frame_safe:
  assumes "ivc_wf i" "k < nframes i"
  shows "ivc_flush_frame i (tx_handle i) k 0 = Some ()"
proof (cases "peer_device i = None")
  case True
  then show ?thesis by (simp add: ivc_flush_frame_def)
next
  case False
  then have "unat (tx_handle i) + header_size + frame_area i < 2 ^ 64"
    using assms(1) by (simp add: ivc_wf_def)
  from frame_sync_safe [OF False assms(2,1) this, of 0] obtain a b where
    "ivc_frame_handle i (tx_handle i) k = Some a" "safe_add_u64 a 0 = Some b" by auto
  with False show ?thesis by (simp add: ivc_flush_frame_def)
qed

lemma check_safe:
  assumes "hostile_peer obs"
  shows "ivc_check_read obs i = (r, j) \<Longrightarrow>
      same_geometry i j \<and> ivc_wf j = ivc_wf i \<and> r_pos j = r_pos i \<and> w_pos j = w_pos i"
    and "ivc_check_write obs i = (r, j) \<Longrightarrow>
      same_geometry i j \<and> ivc_wf j = ivc_wf i \<and> r_pos j = r_pos i \<and> w_pos j = w_pos i"
  using hostile_obs [OF assms, of i Sync_check]
  by (auto simp: ivc_check_read_def ivc_check_write_def ivc_invalidate_counter_def Let_def
    split: if_splits)

lemma notified_safe:
  assumes "hostile_peer obs" "ivc_wf i"
  shows "ivc_wf (if c then notify (obs p i) else obs p i)"
    "same_geometry i (if c then notify (obs p i) else obs p i)"
  using hostile_obs [OF assms(1), of i p] assms(2)
  by (auto simp: ivc_simps intro: same_geometry_trans)

text \<open>An endpoint for the examples, and a peer that overwrites everything it can reach.\<close>

definition demo_end :: ivc where
  "demo_end = \<lparr>rx_base = 0, tx_base = 0,
     rx_channel = \<lparr>w_count = 0, ch_state = 0, r_count = 0, frames = (\<lambda>_. 0)\<rparr>,
     tx_channel = \<lparr>w_count = 0, ch_state = 0, r_count = 0, frames = (\<lambda>_. 0)\<rparr>,
     w_pos = 1, r_pos = 1, notified = 0, nframes = 3, frame_size = 2, peer_device = None,
     rx_handle = 0, tx_handle = 0\<rparr>"

definition demo_hostile :: observer where
  "demo_hostile p i = i\<lparr>
     rx_channel := \<lparr>w_count = 0xFFFFFFFF, ch_state = 7, r_count = 3, frames = (\<lambda>_. 0xFF)\<rparr>,
     tx_channel := \<lparr>w_count = 5, ch_state = 9, r_count = 0x80000000, frames = (\<lambda>_. 0xEE)\<rparr>\<rparr>"

lemma demo_hostile_peer: "hostile_peer demo_hostile"
  unfolding hostile_peer_def demo_hostile_def by blast

lemma demo_end_wf: "ivc_wf (demo_end\<lparr>rx_channel := c, tx_channel := d\<rparr>)" "ivc_wf demo_end"
  by (simp_all add: ivc_wf_def demo_end_def frame_area_def)

subsection \<open>Memory safety against a hostile peer\<close>

text \<open>
  C2. Whatever the peer stores into the shared headers and frames, and whenever, reading a frame
  never reaches a \<open>BUG()\<close> and never touches memory outside the frame area, and it leaves a
  well-formed endpoint of the same geometry.
\<close>

theorem ivc_read_frame_safe:
  assumes "hostile_peer obs" "ivc_wf ivc"
  shows "\<exists>ret bytes ivc'. ivc_read_frame obs ivc buf n = Some (ret, bytes, ivc')
    \<and> ivc_wf ivc' \<and> same_geometry ivc ivc' \<and> length bytes \<le> unat n"
proof (cases "unat n > unat (frame_size ivc)")
  case True
  with assms show ?thesis by (simp add: ivc_read_frame_def)
next
  case False
  obtain r i where c: "ivc_check_read obs ivc = (r, i)" by fastforce
  from check_safe(1) [OF assms(1) c] assms(2)
  have i: "same_geometry ivc i" "ivc_wf i" by auto
  then have rp: "r_pos i < nframes i" and fs: "frame_size i = frame_size ivc"
    by (auto simp: ivc_wf_def same_geometry_def)
  obtain j where j: "ivc_invalidate_frame obs i (rx_handle i) (r_pos i) 0 = Some j"
    "same_geometry i j" "ivc_wf j" "r_pos j = r_pos i"
    using invalidate_frame_safe [OF assms(1) i(2) rp, of 0] by auto
  have rpj: "r_pos j < nframes j" using j(3) by (simp add: ivc_wf_def)
  note ptr = frame_pointer_in_area [OF j(3) rpj]
  have g: "get_frame j (unat (r_pos j) * unat (frame_size j)) (unat n)
      = Some (load (unat (r_pos j) * unat (frame_size j)) (unat n) (frames (rx_channel j)))"
    using ptr(2) False fs j(2) by (simp add: get_frame_def same_geometry_def)
  have geo: "same_geometry ivc j" using i(1) j(2) by (rule same_geometry_trans)
  have wfa: "ivc_wf (ivc_advance_rx j)" by (rule advance_wf(2) [OF j(3)])
  note fin = notified_safe [OF assms(1) wfa]
  have ga: "same_geometry ivc (ivc_advance_rx j)"
    by (rule same_geometry_trans [OF geo]) (simp add: ivc_simps)
  show ?thesis
    using False c i j(1,3) ptr(1) g geo fin same_geometry_trans [OF ga fin(2)]
    by (cases "r = 0"; cases buf)
       (simp_all add: ivc_read_frame_def ivc_invalidate_counter_def Let_def)
qed

theorem ivc_read_frame_safe_witness:
  "\<exists>ret bytes ivc'. ivc_read_frame demo_hostile demo_end Kernel_buf 2 = Some (ret, bytes, ivc') \<and> ivc_wf ivc'"
  using ivc_read_frame_safe [OF demo_hostile_peer demo_end_wf(2)] by blast

text \<open>
  C3. The same for writing: the frame and the zero padding behind it stay inside the frame area.
\<close>

theorem ivc_write_frame_safe:
  assumes "hostile_peer obs" "ivc_wf ivc"
  shows "\<exists>ret ivc'. ivc_write_frame obs ivc buf data = Some (ret, ivc')
    \<and> ivc_wf ivc' \<and> same_geometry ivc ivc'"
proof (cases "length data > unat (frame_size ivc)")
  case True
  with assms show ?thesis by (simp add: ivc_write_frame_def)
next
  case False
  obtain r i where c: "ivc_check_write obs ivc = (r, i)" by fastforce
  from check_safe(2) [OF assms(1) c] assms(2)
  have i: "same_geometry ivc i" "ivc_wf i" by auto
  then have wp: "w_pos i < nframes i" and fs: "frame_size i = frame_size ivc"
    by (auto simp: ivc_wf_def same_geometry_def)
  let ?p = "unat (w_pos i) * unat (frame_size i)"
  let ?pad = "replicate (unat (frame_size i) - length data) (0 :: u8)"
  note ptr = frame_pointer_in_area [OF i(2) wp]
  let ?part = "take (case buf of User_fault k \<Rightarrow> k | _ \<Rightarrow> 0) data"
  have "?p + length ?part \<le> frame_area i" "?p + length data \<le> frame_area i"
    using ptr(2) False fs by simp_all
  then obtain f j where
    f: "put_frame ?p ?part i = Some f" "same_geometry i f" "ivc_wf f = ivc_wf i" and
    j: "put_frame ?p data i = Some j" "same_geometry i j" "ivc_wf j = ivc_wf i" "w_pos j = w_pos i"
    by (metis put_frame_inside)
  have "?p + length data + length ?pad \<le> frame_area j"
    using ptr(2) False fs same_geometry_area [OF j(2)] by simp
  then obtain h where h: "put_frame (?p + length data) ?pad j = Some h" "same_geometry j h"
    "ivc_wf h = ivc_wf j" "w_pos h = w_pos j"
    by (rule put_frame_inside) auto
  have wfh: "ivc_wf h" and wph: "w_pos h < nframes h"
    using h(3) j(3) i(2) by (auto simp: ivc_wf_def)
  have flush: "ivc_flush_frame h (tx_handle h) (w_pos h) 0 = Some ()"
    by (rule flush_frame_safe [OF wfh wph])
  note fin = notified_safe [OF assms(1) advance_wf(1) [OF wfh]]
  have gh: "same_geometry ivc (ivc_advance_tx h)"
    using i(1) j(2) h(2) by (simp add: same_geometry_def ivc_advance_tx_def)
  have fsj: "frame_size j = frame_size i" using j(2) by (simp add: same_geometry_def)
  show ?thesis
    using False c i j(1) f h(1) flush fin same_geometry_trans [OF gh fin(2)] ptr(1)
      same_geometry_trans [OF i(1) f(2)] fsj
    by (cases "r = 0"; cases buf)
       (simp_all add: ivc_write_frame_def ivc_invalidate_counter_def Let_def)
qed

theorem ivc_write_frame_safe_witness:
  "\<exists>ret ivc'. ivc_write_frame demo_hostile demo_end (User_fault 1) [1, 2] = Some (ret, ivc') \<and> ivc_wf ivc'"
  using ivc_write_frame_safe [OF demo_hostile_peer demo_end_wf(2)] by blast

text \<open>
  \<open>tegra_ivc_tx_frames_available\<close> compares the counters as plain numbers: it ends in a
  \<open>BUG()\<close> whenever the write counter has wrapped around and the read counter has not, when the
  peer stores a read counter it could not have reached, and for handles whose low half is within
  64 bytes of \<open>2^32\<close>. Otherwise it returns the number of free frames.
\<close>

lemma tx_frames_available_result:
  "tegra_ivc_tx_frames_available obs ivc =
     (let seen = obs Sync_check ivc; used = w_count (tx_channel seen) - r_count (tx_channel seen)
      in if unat (ucast (tx_handle ivc) :: u32) + 64 < 2 ^ 32
            \<and> r_count (tx_channel seen) \<le> w_count (tx_channel seen) \<and> used \<le> nframes seen
         then Some (nframes seen - used, seen) else None)"
  by (simp add: tegra_ivc_tx_frames_available_def ivc_invalidate_counter_def Let_def
    safe_add_u32_def u32_safe_iff safe_subtract_u32_def is_u32_subtraction_safe_def)

end
