(* ===== verification/Ivc_Link.thy ===== *)
theory Ivc_Link
  imports Ivc
begin

text \<open>
  One direction of an IVC connection: a writing endpoint, a reading endpoint and the channel they
  share. The endpoints' \<open>tegra_ivc_write\<close> and \<open>tegra_ivc_read\<close> (\<open>tegra-ivc.c\<close>) implement a bounded
  first-in first-out queue of frames, for any number of frames and across the wrap-around of the
  32-bit counters.
\<close>

record ivc_link =
  lk_chan :: ivc_channel
  lk_wr :: ivc
  lk_rd :: ivc

text \<open>Each endpoint call works on the shared channel; a negative return value is a refusal.\<close>

definition link_send :: "u8 list \<Rightarrow> ivc_link \<Rightarrow> ivc_link option" where
  "link_send data l =
     (case tegra_ivc_write quiet_peer ((lk_wr l)\<lparr>tx_channel := lk_chan l\<rparr>) data of
        None \<Rightarrow> None
      | Some (r, i) \<Rightarrow> if r < 0 then None else Some (l\<lparr>lk_wr := i, lk_chan := tx_channel i\<rparr>))"

definition link_recv :: "ivc_link \<Rightarrow> (u8 list \<times> ivc_link) option" where
  "link_recv l =
     (case tegra_ivc_read quiet_peer ((lk_rd l)\<lparr>rx_channel := lk_chan l\<rparr>)
             (ucast (frame_size (lk_rd l))) of
        None \<Rightarrow> None
      | Some (r, bytes, i) \<Rightarrow>
          if r < 0 then None else Some (bytes, l\<lparr>lk_rd := i, lk_chan := rx_channel i\<rparr>))"

definition link_count :: "ivc_link \<Rightarrow> nat" where
  "link_count l = unat (w_count (lk_chan l) - r_count (lk_chan l))"

definition frame_at :: "nat \<Rightarrow> mem \<Rightarrow> nat \<Rightarrow> u8 list" where
  "frame_at fs m k = load (k * fs) fs m"

definition link_inv :: "nat \<Rightarrow> ivc_link \<Rightarrow> bool" where
  "link_inv fs l \<longleftrightarrow> ivc_wf (lk_wr l) \<and> ivc_wf (lk_rd l)
     \<and> nframes (lk_wr l) = nframes (lk_rd l)
     \<and> unat (frame_size (lk_wr l)) = fs \<and> unat (frame_size (lk_rd l)) = fs \<and> fs < 2 ^ 31
     \<and> ch_state (lk_chan l) = ivc_state_established
     \<and> ch_state (tx_channel (lk_rd l)) = ivc_state_established
     \<and> link_count l \<le> unat (nframes (lk_rd l))
     \<and> unat (w_pos (lk_wr l)) = (unat (r_pos (lk_rd l)) + link_count l) mod unat (nframes (lk_rd l))"

definition link_frames :: "ivc_link \<Rightarrow> u8 list list" where
  "link_frames l = ring_view (frame_at (unat (frame_size (lk_rd l))) (frames (lk_chan l)))
     (unat (nframes (lk_rd l))) (unat (r_pos (lk_rd l))) (link_count l)"

text \<open>What arrives is the data padded with zeros to the frame size.\<close>

definition padded :: "nat \<Rightarrow> u8 list \<Rightarrow> u8 list" where
  "padded fs data = data @ replicate (fs - length data) 0"

lemma link_invD:
  assumes "link_inv fs l"
  shows "unat (r_pos (lk_rd l)) < unat (nframes (lk_rd l))"
    "unat (w_pos (lk_wr l)) < unat (nframes (lk_rd l))"
    "unat (nframes (lk_rd l)) * fs < 2 ^ 32"
  using assms by (auto simp: link_inv_def ivc_wf_def frame_area_def word_less_nat_alt)

lemma count_step:
  fixes w r :: u32
  assumes "unat (w - r) < unat (n :: u32)"
  shows "unat (w + 1 - r) = Suc (unat (w - r))"
proof -
  have "unat ((w - r) + 1) = (unat (w - r) + unat (1 :: u32)) mod 2 ^ LENGTH(32)"
    by (rule unat_word_ariths)
  also have "\<dots> = Suc (unat (w - r))" using assms unat_less_size [of n] by simp
  finally show ?thesis by (simp add: algebra_simps)
qed

lemma count_back:
  fixes w r :: u32
  assumes "w \<noteq> r"
  shows "Suc (unat (w - (r + 1))) = unat (w - r)"
proof -
  have "unat ((w - r) - 1) = unat (w - r) - 1"
    using assms by (subst unat_sub) (simp_all add: word_le_nat_alt Suc_le_eq unat_gt_0)
  moreover have eq: "w - (r + 1) = (w - r) - 1" by simp
  moreover have "0 < unat (w - r)" using assms by (simp add: unat_gt_0)
  ultimately show ?thesis unfolding eq by simp
qed

text \<open>Writing slot \<open>k\<close> leaves the other slots alone.\<close>

lemma frame_at_store:
  assumes "length bs = fs"
  shows "frame_at fs (store (k * fs) bs m) j = (if j = k then bs else frame_at fs m j)"
proof (cases "j = k")
  case True
  with assms show ?thesis by (simp add: frame_at_def mem_simps)
next
  case False
  then have "Suc j \<le> k \<or> Suc k \<le> j" by linarith
  then have "Suc j * fs \<le> k * fs \<or> Suc k * fs \<le> j * fs" using mult_le_mono1 by blast
  then have "k * fs + length bs \<le> j * fs \<or> j * fs + fs \<le> k * fs" using assms by auto
  with False show ?thesis by (simp add: frame_at_def load_store_other)
qed

lemma put_two:
  assumes "p + length xs + length ys \<le> frame_area i" "put_frame p xs i = Some j"
  shows "put_frame (p + length xs) ys j
    = Some (i\<lparr>tx_channel := (tx_channel i)\<lparr>frames := store p (xs @ ys) (frames (tx_channel i))\<rparr>\<rparr>)"
  using assms by (auto simp: put_frame_def frame_area_def store_append split: if_splits)

text \<open>The write of the source on an endpoint with room, in one equation.\<close>

lemma write_room:
  assumes "ivc_wf i" "length data \<le> unat (frame_size i)" "unat (frame_size i) < 2 ^ 31"
    and "ch_state (tx_channel i) = ivc_state_established" "\<not> ivc_channel_full i (tx_channel i)"
  shows "tegra_ivc_write quiet_peer i data = Some (int (length data),
     i\<lparr>tx_channel := (tx_channel i)\<lparr>
          frames := store (unat (w_pos i) * unat (frame_size i)) (padded (unat (frame_size i)) data)
            (frames (tx_channel i)),
          w_count := w_count (tx_channel i) + 1\<rparr>,
       w_pos := ring_next (w_pos i) (nframes i),
       notified := notified i + of_bool (w_count (tx_channel i) + 1 - r_count (tx_channel i) = 1)\<rparr>)"
proof -
  let ?p = "unat (w_pos i) * unat (frame_size i)"
  let ?pad = "replicate (unat (frame_size i) - length data) (0 :: u8)"
  have wp: "w_pos i < nframes i" using assms(1) by (simp add: ivc_wf_def)
  note ptr = frame_pointer_in_area [OF assms(1) wp]
  have "?p + length data \<le> frame_area i" using ptr(2) assms(2) by simp
  then obtain j where j: "put_frame ?p data i = Some j" by (rule put_frame_inside) auto
  have "?p + length data + length ?pad \<le> frame_area i" using ptr(2) assms(2) by simp
  note two = put_two [OF this j]
  have fsj: "frame_size j = frame_size i" using j by (auto simp: put_frame_def split: if_splits)
  let ?h = "i\<lparr>tx_channel := (tx_channel i)\<lparr>frames := store ?p (data @ ?pad) (frames (tx_channel i))\<rparr>\<rparr>"
  have "ivc_wf ?h" using assms(1) by (simp add: ivc_wf_def frame_area_def)
  then have flush: "ivc_flush_frame ?h (tx_handle i) (w_pos i) 0 = Some ()"
    using flush_frame_safe [of ?h "w_pos i"] wp by simp
  have len: "int_of_size (of_nat (length data)) = int (length data)"
  proof -
    have "unat (of_nat (length data) :: u64) = length data"
      using assms(2,3) by (simp add: unat_of_nat)
    then show ?thesis using assms(2,3) by (simp add: int_of_size_small)
  qed
  show ?thesis
    using assms(2,4,5) ptr(1) j two fsj flush len
    by (simp add: tegra_ivc_write_def ivc_write_frame_def ivc_check_write_def
      ivc_invalidate_counter_def quiet_peer_def Let_def ivc_advance_tx_def notify_def padded_def
      ivc_channel_avail_count_def)
qed

lemma read_some:
  assumes "ivc_wf i" "unat (frame_size i) < 2 ^ 31"
    and "ch_state (tx_channel i) = ivc_state_established" "\<not> ivc_channel_empty i (rx_channel i)"
  shows "tegra_ivc_read quiet_peer i (ucast (frame_size i)) = Some (uint (frame_size i),
     load (unat (r_pos i) * unat (frame_size i)) (unat (frame_size i)) (frames (rx_channel i)),
     i\<lparr>rx_channel := (rx_channel i)\<lparr>r_count := r_count (rx_channel i) + 1\<rparr>,
       r_pos := ring_next (r_pos i) (nframes i),
       notified := notified i
         + of_bool (w_count (rx_channel i) - (r_count (rx_channel i) + 1) = nframes i - 1)\<rparr>)"
proof -
  let ?n = "ucast (frame_size i) :: u64"
  have n: "unat ?n = unat (frame_size i)" by (rule unat_ucast_u64)
  have rp: "r_pos i < nframes i" using assms(1) by (simp add: ivc_wf_def)
  note ptr = frame_pointer_in_area [OF assms(1) rp]
  obtain j where j: "ivc_invalidate_frame quiet_peer i (rx_handle i) (r_pos i) 0 = Some j"
    using invalidate_frame_safe [OF hostile_quiet assms(1) rp, of 0] by auto
  then have ji: "j = i"
    by (auto simp: ivc_invalidate_frame_def quiet_peer_def split: if_splits Option.bind_splits)
  have g: "get_frame i (unat (r_pos i) * unat (frame_size i)) (unat ?n)
      = Some (load (unat (r_pos i) * unat (frame_size i)) (unat (frame_size i)) (frames (rx_channel i)))"
    using ptr(2) by (simp add: get_frame_def n)
  have len: "int_of_size ?n = int (unat (frame_size i))"
    using assms(2) by (subst int_of_size_small) (simp_all add: n)
  show ?thesis
    using assms(3,4) j ji g len ptr(1) n
    by (simp add: tegra_ivc_read_def ivc_read_frame_def ivc_check_read_def
      ivc_invalidate_counter_def quiet_peer_def Let_def ivc_advance_rx_def notify_def
      ivc_channel_avail_count_def)
qed

text \<open>The refusals leave the endpoint as it was.\<close>

lemma write_refused:
  "length data > unat (frame_size i) \<Longrightarrow> tegra_ivc_write quiet_peer i data = Some (- E2BIG, i)"
  "length data \<le> unat (frame_size i) \<Longrightarrow> ch_state (tx_channel i) = ivc_state_established \<Longrightarrow>
   ivc_channel_full i (tx_channel i) \<Longrightarrow> tegra_ivc_write quiet_peer i data = Some (- ENOMEM, i)"
  "length data \<le> unat (frame_size i) \<Longrightarrow> ch_state (tx_channel i) \<noteq> ivc_state_established \<Longrightarrow>
   tegra_ivc_write quiet_peer i data = Some (- ECONNRESET, i)"
  by (simp_all add: tegra_ivc_write_def ivc_write_frame_def ivc_check_write_def
    ivc_invalidate_counter_def quiet_peer_def)

lemma read_refused:
  "unat n \<le> unat (frame_size i) \<Longrightarrow> ch_state (tx_channel i) = ivc_state_established \<Longrightarrow>
   ivc_channel_empty i (rx_channel i) \<Longrightarrow> tegra_ivc_read quiet_peer i n = Some (- ENOMEM, [], i)"
  by (simp add: tegra_ivc_read_def ivc_read_frame_def ivc_check_read_def
    ivc_invalidate_counter_def quiet_peer_def)

lemma send_refines:
  assumes inv: "link_inv fs l" and snd: "link_send data l = Some l'"
  shows "link_inv fs l' \<and> link_frames l' = link_frames l @ [padded fs data]"
proof -
  let ?i = "(lk_wr l)\<lparr>tx_channel := lk_chan l\<rparr>" and ?n = "unat (nframes (lk_rd l))"
  note d = link_invD [OF inv]
  have wf: "ivc_wf ?i" using inv by (auto simp: link_inv_def ivc_wf_def frame_area_def)
  have small: "length data \<le> fs"
  proof (rule ccontr)
    assume "\<not> length data \<le> fs"
    then show False using snd inv write_refused(1) [of ?i data] by (simp add: link_send_def link_inv_def)
  qed
  have room: "\<not> ivc_channel_full ?i (tx_channel ?i)"
  proof
    assume "ivc_channel_full ?i (tx_channel ?i)"
    then show False
      using snd inv small write_refused(2) [of data ?i] by (simp add: link_send_def link_inv_def)
  qed
  then have lt: "link_count l < ?n"
    using inv by (simp add: ivc_channel_full_def link_inv_def link_count_def word_le_nat_alt not_le)
  have w: "tegra_ivc_write quiet_peer ?i data = Some (int (length data),
      ?i\<lparr>tx_channel := (lk_chan l)\<lparr>
          frames := store (unat (w_pos (lk_wr l)) * fs) (padded fs data) (frames (lk_chan l)),
          w_count := w_count (lk_chan l) + 1\<rparr>,
        w_pos := ring_next (w_pos (lk_wr l)) (nframes (lk_wr l)),
        notified := notified (lk_wr l) + of_bool (w_count (lk_chan l) + 1 - r_count (lk_chan l) = 1)\<rparr>)"
    (is "_ = Some (_, ?j)")
    using write_room [OF wf _ _ _ room, of data] inv small by (simp add: link_inv_def)
  with snd have l': "l' = l\<lparr>lk_wr := ?j, lk_chan := tx_channel ?j\<rparr>"
    by (simp add: link_send_def)
  have cnt: "link_count l' = Suc (link_count l)"
    using count_step lt unfolding l' link_count_def by simp
  have wpos: "w_pos (lk_wr l) < nframes (lk_wr l)"
    using inv by (auto simp: link_inv_def ivc_wf_def)
  note rn = unat_ring_step [OF wpos]
  have "length (padded fs data) = fs" using small by (simp add: padded_def)
  note slot = frame_at_store [OF this]
  have inv': "link_inv fs l'"
    using inv lt rn cnt unfolding link_inv_def l'
    by (auto simp: ivc_wf_def frame_area_def mod_simps)
  moreover have "link_frames l' = link_frames l @ [padded fs data]"
    unfolding link_frames_def cnt
    using inv lt by (simp add: l' link_inv_def)
      (rule ring_view_push, auto simp: slot)
  ultimately show ?thesis ..
qed

lemma recv_refines:
  assumes inv: "link_inv fs l" and rcv: "link_recv l = Some (bytes, l')"
  shows "link_inv fs l' \<and> link_frames l = bytes # link_frames l'"
proof -
  let ?i = "(lk_rd l)\<lparr>rx_channel := lk_chan l\<rparr>" and ?n = "unat (nframes (lk_rd l))"
  note d = link_invD [OF inv]
  have wf: "ivc_wf ?i" using inv by (auto simp: link_inv_def ivc_wf_def frame_area_def)
  have some: "\<not> ivc_channel_empty ?i (rx_channel ?i)"
  proof
    assume "ivc_channel_empty ?i (rx_channel ?i)"
    then show False
      using rcv inv read_refused [of "ucast (frame_size (lk_rd l))" ?i]
      by (simp add: link_recv_def link_inv_def unat_ucast_u64)
  qed
  then have ne: "w_count (lk_chan l) \<noteq> r_count (lk_chan l)"
    by (auto simp: ivc_channel_empty_def)
  have r: "tegra_ivc_read quiet_peer ?i (ucast (frame_size (lk_rd l))) = Some (uint (frame_size (lk_rd l)),
      frame_at fs (frames (lk_chan l)) (unat (r_pos (lk_rd l))),
      ?i\<lparr>rx_channel := (lk_chan l)\<lparr>r_count := r_count (lk_chan l) + 1\<rparr>,
        r_pos := ring_next (r_pos (lk_rd l)) (nframes (lk_rd l)),
        notified := notified (lk_rd l)
          + of_bool (w_count (lk_chan l) - (r_count (lk_chan l) + 1) = nframes (lk_rd l) - 1)\<rparr>)"
    (is "_ = Some (_, _, ?j)")
    using read_some [OF wf _ _ some] inv by (simp add: link_inv_def frame_at_def)
  with rcv have l': "l' = l\<lparr>lk_rd := ?j, lk_chan := rx_channel ?j\<rparr>"
    and b: "bytes = frame_at fs (frames (lk_chan l)) (unat (r_pos (lk_rd l)))"
    by (simp_all add: link_recv_def)
  have cnt: "link_count l = Suc (link_count l')"
    using count_back [OF ne] unfolding l' link_count_def by simp
  have rpos: "r_pos (lk_rd l) < nframes (lk_rd l)"
    using inv by (auto simp: link_inv_def ivc_wf_def)
  note rn = unat_ring_step [OF rpos]
  have "link_inv fs l'"
    using inv rn cnt unfolding link_inv_def
    by (auto simp: l' ivc_wf_def frame_area_def mod_simps)
  moreover have "link_frames l = bytes # link_frames l'"
    unfolding link_frames_def cnt b
    using inv rn(1) d(1) by (simp add: l' link_inv_def ring_view_pop)
  ultimately show ?thesis ..
qed

lemma recv_none:
  assumes inv: "link_inv fs l" and rcv: "link_recv l = None"
  shows "link_frames l = []"
proof (rule ccontr)
  let ?i = "(lk_rd l)\<lparr>rx_channel := lk_chan l\<rparr>"
  assume "link_frames l \<noteq> []"
  then have "0 < link_count l" by (auto simp: link_frames_def intro: gr0I)
  then have "w_count (lk_chan l) \<noteq> r_count (lk_chan l)" by (auto simp: link_count_def)
  then have some: "\<not> ivc_channel_empty ?i (rx_channel ?i)"
    using inv by (simp add: ivc_channel_empty_def link_inv_def link_count_def word_less_nat_alt)
  have wf: "ivc_wf ?i" using inv by (auto simp: link_inv_def ivc_wf_def frame_area_def)
  show False
    using read_some [OF wf _ _ some] inv rcv by (simp add: link_recv_def link_inv_def)
qed

interpretation ivc_fifo: bounded_fifo "link_inv fs" link_frames "padded fs" link_send link_recv
  for fs
  by unfold_locales (auto dest: send_refines recv_refines intro: recv_none)

subsection \<open>Properties\<close>

text \<open>A link whose counters are one step before their wrap-around.\<close>

definition demo_link :: ivc_link where
  "demo_link = \<lparr>lk_chan = \<lparr>w_count = - 1, ch_state = 0, r_count = - 1, frames = (\<lambda>_. 9)\<rparr>,
     lk_wr = demo_end, lk_rd = demo_end\<rparr>"

lemma demo_link_inv: "link_inv 2 demo_link" and demo_link_empty: "link_frames demo_link = []"
  by (simp_all add: link_inv_def demo_link_def demo_end_def ivc_wf_def frame_area_def
    link_count_def link_frames_def)

text \<open>
  C1. Whatever sequence of writes and reads two endpoints make on a channel, the frames read are
  exactly the frames written (zero padded), in the order written and without loss or duplication,
  and the frames still in the ring are the rest; the counters may wrap around any number of times.
\<close>

theorem ivc_link_fifo:
  assumes "link_inv fs l" "link_frames l = []"
    and "fifo_run link_send link_recv ops l = (sent, received, l')"
  shows "link_inv fs l' \<and> received = take (length received) (map (padded fs) sent)
    \<and> link_frames l' = drop (length received) (map (padded fs) sent)"
  using ivc_fifo.run_no_loss [OF assms] ivc_fifo.run_inv [OF assms(1,3)] by blast

theorem ivc_link_fifo_witness:
  "\<exists>l'. fifo_run link_send link_recv [Send [7], Send [8, 9], Recv] demo_link = ([[7], [8, 9]], [[7, 0]], l')
     \<and> link_frames l' = [[8, 9]]"
proof -
  have run: "\<exists>l'. fifo_run link_send link_recv [Send [7], Send [8, 9], Recv] demo_link
      = ([[7], [8, 9]], [[7, 0]], l')"
    by (simp add: demo_link_def demo_end_def link_send_def link_recv_def tegra_ivc_write_def
      tegra_ivc_read_def ivc_write_frame_def ivc_read_frame_def ivc_check_write_def ivc_check_read_def
      ivc_channel_full_def ivc_channel_empty_def ivc_frame_pointer_def put_frame_def get_frame_def
      frame_area_def ivc_flush_frame_def ivc_invalidate_frame_def ivc_invalidate_counter_def
      quiet_peer_def ivc_advance_tx_def ivc_advance_rx_def ring_next_def ivc_channel_avail_count_def
      notify_def int_of_size_def load_def upt_rec word_le_nat_alt)
  then obtain l' where "fifo_run link_send link_recv [Send [7], Send [8, 9], Recv] demo_link
      = ([[7], [8, 9]], [[7, 0]], l')" ..
  with ivc_link_fifo [OF demo_link_inv demo_link_empty this] show ?thesis
    by (auto simp: padded_def)
qed

text \<open>
  C4. The result of a write, exactly, at the writing end of a sound link whose channel may have been
  put in any state \<open>st\<close> of the reset protocol: -E2BIG if the data is longer than a frame, else
  -ECONNRESET if the channel is not established, else -ENOMEM if the ring is full, else the number
  of bytes. Every refusal leaves the endpoint as it was, no write ends in a \<open>BUG()\<close>, and on the
  established link a send succeeds exactly when the data fits in a frame and the ring has room.
\<close>

theorem ivc_send_accepts:
  fixes data :: "u8 list"
  assumes "link_inv fs l"
  defines "i st \<equiv> (lk_wr l)\<lparr>tx_channel := (lk_chan l)\<lparr>ch_state := st\<rparr>\<rparr>"
    and "r st \<equiv> (if length data > fs then - E2BIG
      else if st \<noteq> ivc_state_established then - ECONNRESET
      else if link_count l \<ge> unat (nframes (lk_wr l)) then - ENOMEM else int (length data))"
  shows "(\<exists>j. tegra_ivc_write quiet_peer (i st) data = Some (r st, j) \<and> (r st < 0 \<longrightarrow> j = i st))
    \<and> (link_send data l \<noteq> None) = (length data \<le> fs \<and> link_count l < unat (nframes (lk_wr l)))"
proof -
  have fs: "unat (frame_size (i st')) = fs" "fs < 2 ^ 31" "ch_state (tx_channel (i st')) = st'" for st'
    using assms(1) by (simp_all add: i_def link_inv_def)
  have wf: "ivc_wf (i st')" for st'
    using assms(1) by (auto simp: i_def link_inv_def ivc_wf_def frame_area_def)
  have full: "ivc_channel_full (i st') (tx_channel (i st')) \<longleftrightarrow> link_count l \<ge> unat (nframes (lk_wr l))" for st'
    by (simp add: i_def ivc_channel_full_def link_count_def word_le_nat_alt not_less)
  have room: "\<exists>j. tegra_ivc_write quiet_peer (i ivc_state_established) data = Some (int (length data), j)"
    if "length data \<le> fs" "link_count l < unat (nframes (lk_wr l))"
    using that write_room [OF wf, of data ivc_state_established] fs full [of ivc_state_established] by simp
  have res: "\<exists>j. tegra_ivc_write quiet_peer (i st') data = Some (r st', j) \<and> (r st' < 0 \<longrightarrow> j = i st')" for st'
    using write_refused(2,3) [of data "i st'"] write_refused(1) [of "i st'" data] room fs full [of st']
    by (auto simp: r_def not_less not_le)
  have "(lk_chan l)\<lparr>ch_state := ivc_state_established\<rparr> = lk_chan l"
    using assms(1) by (simp add: link_inv_def)
  then have "i ivc_state_established = (lk_wr l)\<lparr>tx_channel := lk_chan l\<rparr>" by (simp add: i_def)
  with res [of ivc_state_established]
  have "(link_send data l \<noteq> None) = (length data \<le> fs \<and> link_count l < unat (nframes (lk_wr l)))"
    by (auto simp: link_send_def r_def split: if_splits)
  with res show ?thesis by blast
qed

theorem ivc_send_accepts_witness:
  "link_send [7] demo_link \<noteq> None \<and> link_send [1, 2, 3] demo_link = None
    \<and> map_option fst (tegra_ivc_write quiet_peer
        ((lk_wr demo_link)\<lparr>tx_channel := (lk_chan demo_link)\<lparr>ch_state := 1\<rparr>\<rparr>) [7]) = Some (- ECONNRESET)"
  using ivc_send_accepts [OF demo_link_inv, of 1 "[7]"] ivc_send_accepts [OF demo_link_inv, of 0 "[1, 2, 3]"]
  by (auto simp: demo_link_def demo_end_def link_count_def)

text \<open>
  On a sound link whose handle is not within 64 bytes of the end of the 32-bit space,
  \<open>tegra_ivc_tx_frames_available\<close> returns the number of free frames, except when the write counter
  has wrapped around and the read counter has not: then it ends in a \<open>BUG()\<close>.
\<close>

theorem ivc_tx_frames_available:
  assumes "link_inv fs l" "unat (ucast (tx_handle (lk_wr l)) :: u32) + 64 < 2 ^ 32"
  shows "map_option (unat \<circ> fst) (tegra_ivc_tx_frames_available quiet_peer ((lk_wr l)\<lparr>tx_channel := lk_chan l\<rparr>))
    = (if w_count (lk_chan l) < r_count (lk_chan l) then None
       else Some (unat (nframes (lk_wr l)) - link_count l))"
proof -
  have le: "w_count (lk_chan l) - r_count (lk_chan l) \<le> nframes (lk_wr l)"
    using assms(1) by (simp add: link_inv_def link_count_def word_le_nat_alt)
  then show ?thesis using assms(2)
    by (simp add: tx_frames_available_result quiet_peer_def Let_def link_count_def unat_sub not_less)
qed

theorem ivc_tx_frames_available_witness:
  "tegra_ivc_tx_frames_available quiet_peer (demo_end\<lparr>tx_channel :=
      (lk_chan demo_link)\<lparr>w_count := 0, r_count := - 2\<rparr>\<rparr>) = None"
proof -
  let ?l = "demo_link\<lparr>lk_chan := (lk_chan demo_link)\<lparr>w_count := 0, r_count := - 2\<rparr>,
      lk_wr := demo_end\<lparr>w_pos := 0\<rparr>\<rparr>"
  have inv: "link_inv 2 (?l\<lparr>lk_wr := demo_end\<lparr>w_pos := 0\<rparr>\<rparr>)"
    by (simp add: link_inv_def demo_link_def demo_end_def ivc_wf_def frame_area_def link_count_def)
  from ivc_tx_frames_available [OF inv] show ?thesis
    by (simp add: demo_link_def demo_end_def tx_frames_available_result quiet_peer_def Let_def)
qed

end
