(* ===== verification/Ivc_Protocol.thy ===== *)
theory Ivc_Protocol
  imports Ivc_Link
begin

text \<open>
  The reset handshake of IVC channels (\<open>tegra_ivc_channel_reset\<close>, \<open>tegra_ivc_channel_notified\<close> of
  \<open>tegra-ivc.c\<close>) and the system of two endpoints that share two channels, as a step relation: at any
  moment either end may reset, handle a notification, write or read.
\<close>

subsection \<open>Reset and notification\<close>

definition set_state :: "u32 \<Rightarrow> ivc \<Rightarrow> ivc" where
  "set_state st ivc = ivc\<lparr>tx_channel := (tx_channel ivc)\<lparr>ch_state := st\<rparr>\<rparr>"

definition clear_counters :: "ivc \<Rightarrow> ivc" where
  "clear_counters ivc = ivc\<lparr>tx_channel := (tx_channel ivc)\<lparr>w_count := 0\<rparr>,
     rx_channel := (rx_channel ivc)\<lparr>r_count := 0\<rparr>, w_pos := 0, r_pos := 0\<rparr>"

definition tegra_ivc_channel_reset :: "ivc \<Rightarrow> ivc" where
  "tegra_ivc_channel_reset ivc = notify (set_state ivc_state_sync ivc)"

definition tegra_ivc_channel_notified :: "observer \<Rightarrow> ivc \<Rightarrow> int \<times> ivc" where
  "tegra_ivc_channel_notified obs ivc =
     (let ivc = ivc_invalidate_counter obs Sync_state ivc;
          peer_state = ch_state (rx_channel ivc);
          ivc = (if peer_state = ivc_state_sync
                 then notify (set_state ivc_state_ack (clear_counters ivc))
                 else if ch_state (tx_channel ivc) = ivc_state_sync \<and> peer_state = ivc_state_ack
                 then notify (set_state ivc_state_established (clear_counters ivc))
                 else if ch_state (tx_channel ivc) = ivc_state_ack
                 then notify (set_state ivc_state_established ivc)
                 else ivc)
      in (if ch_state (tx_channel ivc) = ivc_state_established then 0 else - EAGAIN, ivc))"

text \<open>
  The table in the comment above \<open>tegra_ivc_channel_notified\<close>: local and remote state, then whether
  the counters are reset, the new local state and whether the peer is notified.
\<close>

definition ivc_state_table :: "((u32 \<times> u32) \<times> (bool \<times> u32 \<times> bool)) list" where
  "ivc_state_table =
    [((ivc_state_sync, ivc_state_established), (False, ivc_state_sync, False)),
     ((ivc_state_sync, ivc_state_ack), (True, ivc_state_established, True)),
     ((ivc_state_sync, ivc_state_sync), (True, ivc_state_ack, True)),
     ((ivc_state_ack, ivc_state_established), (False, ivc_state_established, True)),
     ((ivc_state_ack, ivc_state_ack), (False, ivc_state_established, True)),
     ((ivc_state_ack, ivc_state_sync), (True, ivc_state_ack, True)),
     ((ivc_state_established, ivc_state_established), (False, ivc_state_established, False)),
     ((ivc_state_established, ivc_state_ack), (False, ivc_state_established, False)),
     ((ivc_state_established, ivc_state_sync), (True, ivc_state_ack, True))]"

definition perform_row :: "bool \<times> u32 \<times> bool \<Rightarrow> ivc \<Rightarrow> ivc" where
  "perform_row row ivc =
     (case row of (clear, st, nfy) \<Rightarrow>
        let ivc = (if clear then clear_counters ivc else ivc); ivc = set_state st ivc
        in if nfy then notify ivc else ivc)"

lemma set_state_same [simp]: "st = ch_state (tx_channel i) \<Longrightarrow> set_state st i = i"
  by (simp add: set_state_def)

text \<open>
  C7. The code takes exactly the transitions of its documented table: for every pair of states of
  the two ends it performs the action of that pair's row and reports whether the channel is usable.
\<close>

theorem ivc_notified_table:
  assumes "map_of ivc_state_table (ch_state (tx_channel ivc), ch_state (rx_channel ivc)) = Some row"
  shows "tegra_ivc_channel_notified quiet_peer ivc = (if fst (snd row) = 0 then 0 else - EAGAIN,
    perform_row row ivc)"
  using assms
  by (auto simp: ivc_state_table_def tegra_ivc_channel_notified_def ivc_invalidate_counter_def
    quiet_peer_def Let_def perform_row_def set_state_def notify_def clear_counters_def
    split: if_splits)

theorem ivc_notified_table_witness:
  "tegra_ivc_channel_notified quiet_peer
     (demo_end\<lparr>rx_channel := (rx_channel demo_end)\<lparr>ch_state := 1\<rparr>\<rparr>)
   = (- EAGAIN, perform_row (True, 2, True) (demo_end\<lparr>rx_channel := (rx_channel demo_end)\<lparr>ch_state := 1\<rparr>\<rparr>))"
  using ivc_notified_table [of "demo_end\<lparr>rx_channel := (rx_channel demo_end)\<lparr>ch_state := 1\<rparr>\<rparr>"
    "(True, 2, True)"]
  by (simp add: demo_end_def ivc_state_table_def)

subsection \<open>Two endpoints\<close>

record ivc_pair =
  chan_ab :: ivc_channel
  chan_ba :: ivc_channel
  end_a :: ivc
  end_b :: ivc

definition view_a :: "ivc_pair \<Rightarrow> ivc" where
  "view_a s = (end_a s)\<lparr>tx_channel := chan_ab s, rx_channel := chan_ba s\<rparr>"

definition put_a :: "ivc \<Rightarrow> ivc_pair \<Rightarrow> ivc_pair" where
  "put_a i s = s\<lparr>end_a := i, chan_ab := tx_channel i, chan_ba := rx_channel i\<rparr>"

text \<open>The other end is the same endpoint of the mirrored pair.\<close>

definition mirror :: "ivc_pair \<Rightarrow> ivc_pair" where
  "mirror s = \<lparr>chan_ab = chan_ba s, chan_ba = chan_ab s, end_a = end_b s, end_b = end_a s\<rparr>"

inductive end_step :: "ivc_pair \<Rightarrow> ivc_pair \<Rightarrow> bool" where
  reset: "end_step s (put_a (tegra_ivc_channel_reset (view_a s)) s)"
| notified: "tegra_ivc_channel_notified quiet_peer (view_a s) = (r, i) \<Longrightarrow> end_step s (put_a i s)"
| wrote: "tegra_ivc_write quiet_peer (view_a s) data = Some (r, i) \<Longrightarrow> end_step s (put_a i s)"
| read: "tegra_ivc_read quiet_peer (view_a s) n = Some (r, bytes, i) \<Longrightarrow> end_step s (put_a i s)"

inductive ivc_step :: "ivc_pair \<Rightarrow> ivc_pair \<Rightarrow> bool" where
  by_a: "end_step s t \<Longrightarrow> ivc_step s t"
| by_b: "end_step (mirror s) t \<Longrightarrow> ivc_step s (mirror t)"

text \<open>
  A start: two well-formed ends of the same geometry, at least one of them resetting, none
  acknowledging; positions and counters hold anything.
\<close>

definition pair_geometry :: "nat \<Rightarrow> ivc_pair \<Rightarrow> bool" where
  "pair_geometry fs s \<longleftrightarrow> ivc_wf (end_a s) \<and> ivc_wf (end_b s) \<and> nframes (end_a s) = nframes (end_b s)
     \<and> unat (frame_size (end_a s)) = fs \<and> unat (frame_size (end_b s)) = fs \<and> fs < 2 ^ 31"

definition ivc_start :: "nat \<Rightarrow> ivc_pair \<Rightarrow> bool" where
  "ivc_start fs s \<longleftrightarrow> pair_geometry fs s
     \<and> ch_state (chan_ab s) \<in> {ivc_state_established, ivc_state_sync}
     \<and> ch_state (chan_ba s) \<in> {ivc_state_established, ivc_state_sync}
     \<and> (ch_state (chan_ab s) = ivc_state_sync \<or> ch_state (chan_ba s) = ivc_state_sync)"

inductive ivc_reachable :: "nat \<Rightarrow> ivc_pair \<Rightarrow> bool" for fs where
  start: "ivc_start fs s \<Longrightarrow> ivc_reachable fs s"
| step: "ivc_reachable fs s \<Longrightarrow> ivc_step s t \<Longrightarrow> ivc_reachable fs t"

definition link_ab :: "ivc_pair \<Rightarrow> ivc_link" where
  "link_ab s = \<lparr>lk_chan = chan_ab s, lk_wr = view_a s, lk_rd = view_a (mirror s)\<rparr>"

definition link_ba :: "ivc_pair \<Rightarrow> ivc_link" where
  "link_ba s = link_ab (mirror s)"

text \<open>
  The invariant: an acknowledging end has cleared what it owns, and when neither end is resetting
  the counters and positions of both directions agree.
\<close>

definition cleared :: "ivc_channel \<Rightarrow> ivc_channel \<Rightarrow> ivc \<Rightarrow> bool" where
  "cleared tx rx i \<longleftrightarrow> w_count tx = 0 \<and> r_count rx = 0 \<and> w_pos i = 0 \<and> r_pos i = 0"

definition direction_ok :: "ivc_channel \<Rightarrow> ivc \<Rightarrow> ivc \<Rightarrow> bool" where
  "direction_ok ch w r \<longleftrightarrow> unat (w_count ch - r_count ch) \<le> unat (nframes r)
     \<and> unat (w_pos w) = (unat (r_pos r) + unat (w_count ch - r_count ch)) mod unat (nframes r)"

definition pair_inv :: "nat \<Rightarrow> ivc_pair \<Rightarrow> bool" where
  "pair_inv fs s \<longleftrightarrow> pair_geometry fs s
     \<and> ch_state (chan_ab s) \<in> {0, 1, 2} \<and> ch_state (chan_ba s) \<in> {0, 1, 2}
     \<and> (ch_state (chan_ab s) = 2 \<longrightarrow> cleared (chan_ab s) (chan_ba s) (end_a s))
     \<and> (ch_state (chan_ba s) = 2 \<longrightarrow> cleared (chan_ba s) (chan_ab s) (end_b s))
     \<and> (ch_state (chan_ab s) \<noteq> 1 \<and> ch_state (chan_ba s) \<noteq> 1 \<longrightarrow>
          direction_ok (chan_ab s) (end_a s) (end_b s) \<and> direction_ok (chan_ba s) (end_b s) (end_a s))"

lemma mirror_mirror [simp]: "mirror (mirror s) = s"
  by (simp add: mirror_def)

lemma pair_inv_mirror: "pair_inv fs (mirror s) = pair_inv fs s"
  by (auto simp: pair_inv_def pair_geometry_def mirror_def)

lemma start_inv: "ivc_start fs s \<Longrightarrow> pair_inv fs s"
  by (auto simp: ivc_start_def pair_inv_def)

lemma wf_channels [simp]:
  "ivc_wf (i\<lparr>tx_channel := t, rx_channel := r\<rparr>) = ivc_wf i"
  "ivc_wf (i\<lparr>tx_channel := t\<rparr>) = ivc_wf i" "ivc_wf (i\<lparr>rx_channel := r\<rparr>) = ivc_wf i"
  by (simp_all add: ivc_wf_def frame_area_def)

named_theorems pair_simps \<open>projections of the two-ended system\<close>

lemma put_a_simps [pair_simps]:
  "chan_ab (put_a i s) = tx_channel i" "chan_ba (put_a i s) = rx_channel i"
  "end_a (put_a i s) = i" "end_b (put_a i s) = end_b s"
  by (simp_all add: put_a_def)

lemma view_a_simps [pair_simps]:
  "tx_channel (view_a s) = chan_ab s" "rx_channel (view_a s) = chan_ba s"
  "w_pos (view_a s) = w_pos (end_a s)" "r_pos (view_a s) = r_pos (end_a s)"
  "nframes (view_a s) = nframes (end_a s)" "frame_size (view_a s) = frame_size (end_a s)"
  "ivc_wf (view_a s) = ivc_wf (end_a s)"
  by (simp_all add: view_a_def)

lemma set_state_simps [pair_simps]:
  "ch_state (tx_channel (set_state st i)) = st" "w_count (tx_channel (set_state st i)) = w_count (tx_channel i)"
  "r_count (tx_channel (set_state st i)) = r_count (tx_channel i)"
  "rx_channel (set_state st i) = rx_channel i" "w_pos (set_state st i) = w_pos i"
  "r_pos (set_state st i) = r_pos i" "nframes (set_state st i) = nframes i"
  "frame_size (set_state st i) = frame_size i" "ivc_wf (set_state st i) = ivc_wf i"
  by (simp_all add: set_state_def)

lemma notify_simps [pair_simps]:
  "tx_channel (notify i) = tx_channel i" "rx_channel (notify i) = rx_channel i"
  "w_pos (notify i) = w_pos i" "r_pos (notify i) = r_pos i" "nframes (notify i) = nframes i"
  "frame_size (notify i) = frame_size i" "ivc_wf (notify i) = ivc_wf i"
  by (simp_all add: notify_def ivc_wf_def frame_area_def)

lemma wf_nonempty: "ivc_wf i \<Longrightarrow> 0 < nframes i"
  by (metis ivc_wf_def word_not_simps(1) word_gt_0)

lemma clear_simps [pair_simps]:
  "w_count (tx_channel (clear_counters i)) = 0" "r_count (tx_channel (clear_counters i)) = r_count (tx_channel i)"
  "w_count (rx_channel (clear_counters i)) = w_count (rx_channel i)" "r_count (rx_channel (clear_counters i)) = 0"
  "ch_state (rx_channel (clear_counters i)) = ch_state (rx_channel i)"
  "w_pos (clear_counters i) = 0" "r_pos (clear_counters i) = 0" "nframes (clear_counters i) = nframes i"
  "frame_size (clear_counters i) = frame_size i" "ivc_wf i \<Longrightarrow> ivc_wf (clear_counters i)"
  using wf_nonempty [of i] by (auto simp: clear_counters_def ivc_wf_def frame_area_def)

lemma reset_inv: "pair_inv fs s \<Longrightarrow> pair_inv fs (put_a (tegra_ivc_channel_reset (view_a s)) s)"
  by (simp add: pair_inv_def pair_geometry_def tegra_ivc_channel_reset_def pair_simps cleared_def)

lemma direction_simps [pair_simps]:
  "direction_ok c (notify i) r = direction_ok c i r" "direction_ok c w (notify i) = direction_ok c w i"
  "direction_ok c (set_state st i) r = direction_ok c i r"
  "direction_ok c w (set_state st i) = direction_ok c w i"
  "direction_ok c (view_a s) r = direction_ok c (end_a s) r"
  "direction_ok c w (view_a s) = direction_ok c w (end_a s)"
  "direction_ok (tx_channel (set_state st i)) w r = direction_ok (tx_channel i) w r"
  by (simp_all add: direction_ok_def pair_simps)

text \<open>The four branches of the notification.\<close>

lemma notified_cases:
  "snd (tegra_ivc_channel_notified quiet_peer i) =
    (if ch_state (rx_channel i) = 1 then notify (set_state 2 (clear_counters i))
     else if ch_state (tx_channel i) = 1 \<and> ch_state (rx_channel i) = 2
     then notify (set_state 0 (clear_counters i))
     else if ch_state (tx_channel i) = 2 then notify (set_state 0 i) else i)"
  by (simp add: tegra_ivc_channel_notified_def ivc_invalidate_counter_def quiet_peer_def Let_def)

lemma put_back: "pair_inv fs (put_a (view_a s) s) = pair_inv fs s"
  by (simp add: pair_inv_def pair_geometry_def pair_simps cleared_def direction_ok_def)

lemma notified_inv:
  assumes inv: "pair_inv fs s"
  shows "pair_inv fs (put_a (snd (tegra_ivc_channel_notified quiet_peer (view_a s))) s)"
proof -
  consider (sync) "ch_state (chan_ba s) = 1"
    | (ack) "ch_state (chan_ab s) = 1" "ch_state (chan_ba s) = 2"
    | (est) "ch_state (chan_ab s) = 2" "ch_state (chan_ba s) \<noteq> 1"
    | (none) "snd (tegra_ivc_channel_notified quiet_peer (view_a s)) = view_a s"
    by (metis notified_cases view_a_simps(1,2))
  then show ?thesis
  proof cases
    case sync
    with inv show ?thesis
      by (simp add: notified_cases pair_simps pair_inv_def pair_geometry_def cleared_def)
  next
    case ack
    with inv show ?thesis
      by (simp add: notified_cases pair_simps pair_inv_def pair_geometry_def cleared_def direction_ok_def)
  next
    case est
    with inv show ?thesis
      by (simp add: notified_cases pair_simps pair_inv_def pair_geometry_def cleared_def)
  next
    case none
    with inv show ?thesis by (simp add: put_back)
  qed
qed

text \<open>Reads and writes happen only at an established end, and keep the agreement of both directions.\<close>

definition moved_tx :: "ivc \<Rightarrow> ivc \<Rightarrow> bool" where
  "moved_tx v i \<longleftrightarrow> w_count (tx_channel i) = w_count (tx_channel v) + 1
     \<and> w_pos i = ring_next (w_pos v) (nframes v) \<and> r_pos i = r_pos v \<and> rx_channel i = rx_channel v
     \<and> ch_state (tx_channel i) = ch_state (tx_channel v) \<and> r_count (tx_channel i) = r_count (tx_channel v)
     \<and> nframes i = nframes v \<and> frame_size i = frame_size v \<and> (ivc_wf v \<longrightarrow> ivc_wf i)"

definition moved_rx :: "ivc \<Rightarrow> ivc \<Rightarrow> bool" where
  "moved_rx v i \<longleftrightarrow> r_count (rx_channel i) = r_count (rx_channel v) + 1
     \<and> r_pos i = ring_next (r_pos v) (nframes v) \<and> w_pos i = w_pos v \<and> tx_channel i = tx_channel v
     \<and> ch_state (rx_channel i) = ch_state (rx_channel v) \<and> w_count (rx_channel i) = w_count (rx_channel v)
     \<and> nframes i = nframes v \<and> frame_size i = frame_size v \<and> (ivc_wf v \<longrightarrow> ivc_wf i)"

lemma write_moves:
  assumes "ivc_wf v" "unat (frame_size v) < 2 ^ 31" "tegra_ivc_write quiet_peer v data = Some (r, i)"
  shows "i = v \<or> ch_state (tx_channel v) = 0 \<and> \<not> ivc_channel_full v (tx_channel v) \<and> moved_tx v i"
proof -
  consider "length data > unat (frame_size v)" | "ch_state (tx_channel v) \<noteq> 0" "length data \<le> unat (frame_size v)"
    | "ch_state (tx_channel v) = 0" "length data \<le> unat (frame_size v)" "ivc_channel_full v (tx_channel v)"
    | "ch_state (tx_channel v) = 0" "length data \<le> unat (frame_size v)" "\<not> ivc_channel_full v (tx_channel v)"
    by linarith
  then show ?thesis
  proof cases
    case 1
    with assms(3) write_refused(1) [of v data] show ?thesis by simp
  next
    case 2
    with assms(3) show ?thesis
      by (simp add: tegra_ivc_write_def ivc_write_frame_def ivc_check_write_def)
  next
    case 3
    with assms(3) write_refused(2) [of data v] show ?thesis by simp
  next
    case 4
    have "w_pos v < nframes v" using assms(1) by (simp add: ivc_wf_def)
    note nxt = unat_ring_step(2) [OF this]
    from write_room [OF assms(1) 4(2) assms(2) 4(1,3)] assms(1,3) 4 nxt show ?thesis
      by (clarsimp simp: moved_tx_def ivc_wf_def frame_area_def)
  qed
qed

lemma read_moves:
  assumes "ivc_wf v" "tegra_ivc_read quiet_peer v n = Some (r, bytes, i)"
  shows "i = v \<or> ch_state (tx_channel v) = 0 \<and> \<not> ivc_channel_empty v (rx_channel v) \<and> moved_rx v i"
proof -
  have "r_pos v < nframes v" using assms(1) by (simp add: ivc_wf_def)
  note nxt = unat_ring_step(2) [OF this]
  from assms nxt show ?thesis
    by (auto simp: tegra_ivc_read_def ivc_read_frame_def ivc_check_read_def ivc_invalidate_counter_def
      ivc_invalidate_frame_def quiet_peer_def Let_def ivc_advance_rx_def notify_def moved_rx_def
      ivc_wf_def frame_area_def split: if_splits Option.bind_splits)
qed

lemma direction_push:
  assumes "direction_ok c w r" "unat (w_count c - r_count c) < unat (nframes r)" "w_pos w < nframes r"
    and "w_count c' = w_count c + 1" "r_count c' = r_count c" "w_pos w' = ring_next (w_pos w) (nframes r)"
  shows "direction_ok c' w' r"
  using assms count_step [OF assms(2)] unat_ring_step(1) [OF assms(3)]
  by (simp add: direction_ok_def mod_simps)

lemma direction_pop:
  assumes "direction_ok c w r" "w_count c \<noteq> r_count c" "r_pos r < nframes r"
    and "r_count c' = r_count c + 1" "w_count c' = w_count c" "r_pos r' = ring_next (r_pos r) (nframes r)"
    and "nframes r' = nframes r"
  shows "direction_ok c' w r'"
  using assms count_back [OF assms(2)] unat_ring_step(1) [OF assms(3)]
  by (simp add: direction_ok_def mod_simps) (metis add_Suc add_Suc_right mod_add_left_eq)

lemma write_inv:
  assumes inv: "pair_inv fs s" and w: "tegra_ivc_write quiet_peer (view_a s) data = Some (r, i)"
  shows "pair_inv fs (put_a i s)"
proof -
  have "ivc_wf (view_a s)" "unat (frame_size (view_a s)) < 2 ^ 31"
    using inv by (simp_all add: pair_inv_def pair_geometry_def pair_simps)
  from write_moves [OF this w] consider "i = view_a s"
    | "ch_state (chan_ab s) = 0" "\<not> ivc_channel_full (view_a s) (chan_ab s)" "moved_tx (view_a s) i"
    by (auto simp: pair_simps)
  then show ?thesis
  proof cases
    case 1
    with inv show ?thesis by (simp add: put_back)
  next
    case 2
    have lt: "unat (w_count (chan_ab s) - r_count (chan_ab s)) < unat (nframes (end_b s))"
      using 2(2) inv
      by (simp add: ivc_channel_full_def pair_simps pair_inv_def pair_geometry_def word_less_nat_alt not_le)
    have wp: "w_pos (end_a s) < nframes (end_b s)"
      using inv by (auto simp: pair_inv_def pair_geometry_def ivc_wf_def)
    have "direction_ok (tx_channel i) i (end_b s)" if "direction_ok (chan_ab s) (end_a s) (end_b s)"
      using direction_push [OF that lt wp] 2(3) inv
      by (simp add: moved_tx_def pair_simps pair_inv_def pair_geometry_def)
    moreover have "direction_ok (chan_ba s) (end_b s) i" if "direction_ok (chan_ba s) (end_b s) (end_a s)"
      using that 2(3) by (simp add: direction_ok_def moved_tx_def pair_simps)
    ultimately show ?thesis
      using inv 2(1,3)
      by (simp add: pair_inv_def pair_geometry_def pair_simps moved_tx_def cleared_def)
  qed
qed

lemma read_inv:
  assumes inv: "pair_inv fs s" and r: "tegra_ivc_read quiet_peer (view_a s) n = Some (r, bytes, i)"
  shows "pair_inv fs (put_a i s)"
proof -
  have "ivc_wf (view_a s)"
    using inv by (simp add: pair_inv_def pair_geometry_def pair_simps)
  from read_moves [OF this r] consider "i = view_a s"
    | "ch_state (chan_ab s) = 0" "\<not> ivc_channel_empty (view_a s) (chan_ba s)" "moved_rx (view_a s) i"
    by (auto simp: pair_simps)
  then show ?thesis
  proof cases
    case 1
    with inv show ?thesis by (simp add: put_back)
  next
    case 2
    have ne: "w_count (chan_ba s) \<noteq> r_count (chan_ba s)"
      using 2(2) by (auto simp: ivc_channel_empty_def)
    have rp: "r_pos (end_a s) < nframes (end_a s)"
      using inv by (auto simp: pair_inv_def pair_geometry_def ivc_wf_def)
    have "direction_ok (rx_channel i) (end_b s) i" if "direction_ok (chan_ba s) (end_b s) (end_a s)"
      using direction_pop [OF that ne rp] 2(3) by (simp add: moved_rx_def pair_simps)
    moreover have "direction_ok (chan_ab s) i (end_b s)" if "direction_ok (chan_ab s) (end_a s) (end_b s)"
      using that 2(3) by (simp add: direction_ok_def moved_rx_def pair_simps)
    ultimately show ?thesis
      using inv 2(1,3)
      by (simp add: pair_inv_def pair_geometry_def pair_simps moved_rx_def cleared_def)
  qed
qed

lemma end_step_inv: "end_step s t \<Longrightarrow> pair_inv fs s \<Longrightarrow> pair_inv fs t"
proof (induction rule: end_step.induct)
  case (notified s r i)
  from notified_inv [OF notified.prems] notified.hyps show ?case by simp
qed (blast intro: reset_inv write_inv read_inv)+

lemma ivc_step_inv: "ivc_step s t \<Longrightarrow> pair_inv fs s \<Longrightarrow> pair_inv fs t"
  by (induction rule: ivc_step.induct) (auto simp: pair_inv_mirror intro: end_step_inv)

lemma reachable_inv: "ivc_reachable fs s \<Longrightarrow> pair_inv fs s"
  by (induction rule: ivc_reachable.induct) (auto intro: start_inv ivc_step_inv)

text \<open>
  The delivery of a notification to one end, and the states of both ends before and after it.
\<close>

definition deliver :: "ivc_pair \<Rightarrow> ivc_pair" where
  "deliver s = put_a (snd (tegra_ivc_channel_notified quiet_peer (view_a s))) s"

definition deliver_b :: "ivc_pair \<Rightarrow> ivc_pair" where
  "deliver_b s = mirror (deliver (mirror s))"

lemma deliver_step: "ivc_step s (deliver s)" "ivc_step s (deliver_b s)"
proof -
  have "end_step u (deliver u)" for u
    unfolding deliver_def by (rule end_step.notified [OF surjective_pairing])
  then show "ivc_step s (deliver s)" "ivc_step s (deliver_b s)"
    unfolding deliver_b_def by (auto intro: ivc_step.intros)
qed

lemma deliver_states:
  "ch_state (chan_ab (deliver s)) =
     (if ch_state (chan_ba s) = 1 then 2
      else if ch_state (chan_ab s) = 1 \<and> ch_state (chan_ba s) = 2 then 0
      else if ch_state (chan_ab s) = 2 then 0 else ch_state (chan_ab s))"
  "ch_state (chan_ba (deliver s)) = ch_state (chan_ba s)"
  by (simp_all add: deliver_def notified_cases pair_simps)

lemma mirror_simps [pair_simps]:
  "chan_ab (mirror s) = chan_ba s" "chan_ba (mirror s) = chan_ab s"
  "end_a (mirror s) = end_b s" "end_b (mirror s) = end_a s"
  by (simp_all add: mirror_def)

lemma deliver_b_states:
  "ch_state (chan_ba (deliver_b s)) =
     (if ch_state (chan_ab s) = 1 then 2
      else if ch_state (chan_ba s) = 1 \<and> ch_state (chan_ab s) = 2 then 0
      else if ch_state (chan_ba s) = 2 then 0 else ch_state (chan_ba s))"
  "ch_state (chan_ab (deliver_b s)) = ch_state (chan_ab s)"
  by (simp_all add: deliver_b_def deliver_states pair_simps)

subsection \<open>Properties\<close>

text \<open>
  C6. Once both ends of a connection are established, however they came there (any interleaving of
  resets, notifications, writes and reads, from ends that disagree on everything but the geometry),
  each direction satisfies the invariant under which it is a lossless queue.
\<close>

theorem ivc_established_links:
  assumes "ivc_reachable fs s" "ch_state (chan_ab s) = ivc_state_established"
    and "ch_state (chan_ba s) = ivc_state_established"
  shows "link_inv fs (link_ab s) \<and> link_inv fs (link_ba s)"
  using reachable_inv [OF assms(1)] assms(2,3)
  by (auto simp: pair_inv_def pair_geometry_def link_inv_def link_ab_def link_ba_def link_count_def
    direction_ok_def pair_simps)

definition demo_pair :: ivc_pair where
  "demo_pair = \<lparr>chan_ab = \<lparr>w_count = 7, ch_state = 1, r_count = 9, frames = (\<lambda>_. 5)\<rparr>,
     chan_ba = \<lparr>w_count = 3, ch_state = 0, r_count = 1, frames = (\<lambda>_. 6)\<rparr>,
     end_a = demo_end, end_b = demo_end\<lparr>w_pos := 2\<rparr>\<rparr>"

lemma demo_pair_start: "ivc_reachable 2 demo_pair"
  by (rule ivc_reachable.start)
     (simp add: ivc_start_def demo_pair_def pair_geometry_def demo_end_def ivc_wf_def frame_area_def)

theorem ivc_established_links_witness:
  "link_inv 2 (link_ab (deliver_b (deliver (deliver_b demo_pair))))"
proof -
  have "ivc_reachable 2 (deliver_b (deliver (deliver_b demo_pair)))"
    by (intro ivc_reachable.step [OF _ deliver_step(1)] ivc_reachable.step [OF _ deliver_step(2)]
      demo_pair_start)
  from ivc_established_links [OF this] show ?thesis
    by (simp add: deliver_states deliver_b_states demo_pair_def)
qed

text \<open>
  C5. The handshake completes: from every reachable state of the two ends, two notifications
  delivered to each end, alternately, establish both channels. The second handler run at either end
  returns 0, that is, reports its end ready; so does any handler run after that, at either end, and
  it leaves both established.
\<close>

theorem ivc_handshake_completes:
  assumes "ivc_reachable fs s"
  defines "t \<equiv> deliver_b (deliver (deliver_b (deliver s)))"
  shows "ch_state (chan_ab t) = ivc_state_established \<and> ch_state (chan_ba t) = ivc_state_established
    \<and> fst (tegra_ivc_channel_notified quiet_peer (view_a (deliver_b (deliver s)))) = 0
    \<and> fst (tegra_ivc_channel_notified quiet_peer (view_a (mirror (deliver (deliver_b (deliver s)))))) = 0
    \<and> fst (tegra_ivc_channel_notified quiet_peer (view_a t)) = 0
    \<and> fst (tegra_ivc_channel_notified quiet_peer (view_a (mirror t))) = 0
    \<and> ch_state (chan_ab (deliver t)) = ivc_state_established
    \<and> ch_state (chan_ba (deliver t)) = ivc_state_established
    \<and> ch_state (chan_ab (deliver_b t)) = ivc_state_established
    \<and> ch_state (chan_ba (deliver_b t)) = ivc_state_established"
proof -
  have ab: "ch_state (chan_ab s) \<in> {0, 1, 2}" and ba: "ch_state (chan_ba s) \<in> {0, 1, 2}"
    using reachable_inv [OF assms(1)] by (auto simp: pair_inv_def)
  have notified: "fst (tegra_ivc_channel_notified quiet_peer (view_a u)) = 0"
    if "ch_state (chan_ab (deliver u)) = 0" for u
    using that by (simp add: deliver_def tegra_ivc_channel_notified_def pair_simps Let_def)
  have mirrored: "fst (tegra_ivc_channel_notified quiet_peer (view_a (mirror u))) = 0"
    if "ch_state (chan_ba (deliver_b u)) = 0" for u
    using notified [of "mirror u"] that by (simp add: deliver_b_def mirror_simps)
  have t: "ch_state (chan_ab t) = 0" "ch_state (chan_ba t) = 0"
    and a: "ch_state (chan_ab (deliver (deliver_b (deliver s)))) = 0"
    using ab ba by (auto simp: t_def deliver_states deliver_b_states)
  then have later: "ch_state (chan_ab (deliver t)) = 0" "ch_state (chan_ba (deliver t)) = 0"
    "ch_state (chan_ab (deliver_b t)) = 0" "ch_state (chan_ba (deliver_b t)) = 0"
    by (simp_all add: deliver_states deliver_b_states)
  show ?thesis
    using t later notified [OF a] notified [OF later(1)] mirrored [OF later(4)]
      mirrored [of "deliver (deliver_b (deliver s))"] unfolding t_def by blast
qed

theorem ivc_handshake_completes_witness:
  "ch_state (chan_ab (deliver_b (deliver (deliver_b (deliver demo_pair))))) = 0"
  using ivc_handshake_completes [OF demo_pair_start] by blast

end
