(* ===== verification/Ivc_Setup.thy ===== *)
theory Ivc_Setup
  imports Ivc_Protocol
begin

text \<open>
  Setting up an IVC endpoint: sizes and alignment, the checks on the two queue regions,
  \<open>tegra_ivc_init_body\<close> with its DMA mappings, and the resynchronisation of the positions
  (\<open>tegra-ivc.c\<close>, from \<open>tegra_ivc_channel_sync\<close> to the end).

  \<open>chan_at\<close> gives the channel header found at an address. The DMA API is the device record; the
  handles mapped and not unmapped are returned as a list.
\<close>

definition tegra_ivc_channel_sync :: "ivc option \<Rightarrow> int \<times> ivc option" where
  "tegra_ivc_channel_sync ivc =
     (case ivc of None \<Rightarrow> (- EINVAL, None)
      | Some i \<Rightarrow>
          if nframes i = 0 then (- EINVAL, Some i)
          else (0, Some (i\<lparr>w_pos := w_count (tx_channel i) mod nframes i,
                            r_pos := r_count (rx_channel i) mod nframes i\<rparr>)))"

definition tegra_ivc_align :: "u64 \<Rightarrow> u64 option" where
  "tegra_ivc_align sz = do { s \<leftarrow> safe_add_u64 sz 63; Some (s AND NOT 63) }"

definition tegra_ivc_total_queue_size :: "u32 \<Rightarrow> u32 option" where
  "tegra_ivc_total_queue_size queue_size =
     (if queue_size AND 63 \<noteq> 0 then Some 0 else safe_add_u32 queue_size 128)"

definition check_ivc_params :: "u64 \<Rightarrow> u64 \<Rightarrow> u32 \<Rightarrow> u32 \<Rightarrow> int" where
  "check_ivc_params base1 base2 n fs =
     (if (ucast n :: u64) * ucast fs \<ge> 0x100000000 then - EINVAL
      else if base1 AND 63 \<noteq> 0 then - EINVAL
      else if base2 AND 63 \<noteq> 0 then - EINVAL
      else if fs AND 63 \<noteq> 0 then - EINVAL
      else if base1 < base2
      then (if base1 + ucast (fs * n) > base2 then - EINVAL else 0)
      else (if base2 + ucast (fs * n) > base1 then - EINVAL else 0))"

definition dma_map_channels ::
  "dma_dev \<Rightarrow> u64 \<Rightarrow> u64 \<Rightarrow> u64 \<Rightarrow> u64 \<Rightarrow> u64 \<Rightarrow> ivc \<Rightarrow> int \<times> u64 list \<times> ivc" where
  "dma_map_channels dev queue_size rxb rx_h txb tx_h ivc =
     (if rx_h \<noteq> 0 \<and> \<not> dma_mapping_error dev rx_h
      then (0, [], ivc\<lparr>rx_handle := rx_h, tx_handle := tx_h\<rparr>)
      else
        let h = dma_map_single dev rxb queue_size; ivc = ivc\<lparr>rx_handle := h\<rparr>
        in if dma_mapping_error dev h then (- ENOMEM, [], ivc)
           else
             let h' = dma_map_single dev txb queue_size; ivc = ivc\<lparr>tx_handle := h'\<rparr>
             in if dma_mapping_error dev h' then (- ENOMEM, remove1 h [h], ivc)
                else (0, [h, h'], ivc))"

definition tegra_ivc_init_body ::
  "(u64 \<Rightarrow> ivc_channel) \<Rightarrow> ivc option \<Rightarrow> u64 \<Rightarrow> u64 \<Rightarrow> u64 \<Rightarrow> u64 \<Rightarrow> u32 \<Rightarrow> u32
     \<Rightarrow> dma_dev option \<Rightarrow> bool \<Rightarrow> (int \<times> u64 list \<times> ivc option) option" where
  "tegra_ivc_init_body chan_at ivc rxb rx_h txb tx_h n fs dev has_notify =
     (let result = check_ivc_params rxb txb n fs
      in if result \<noteq> 0 then Some (result, [], ivc)
         else case ivc of None \<Rightarrow> None
         | Some i \<Rightarrow>
           if \<not> has_notify then None
           else if \<not> is_u32_u32__u32_multiplication_safe n fs then Some (- EFAULT, [], ivc)
           else do {
             queue_size \<leftarrow> tegra_ivc_total_queue_size (n * fs);
             if fs > 0x7FFFFFFF then Some (- E2BIG, [], ivc)
             else
               let i = i\<lparr>rx_base := rxb, tx_base := txb,
                          rx_channel := chan_at rxb, tx_channel := chan_at txb\<rparr>;
                   (result, maps, i) =
                     (case dev of None \<Rightarrow> (0, [], i)
                      | Some d \<Rightarrow> dma_map_channels d (ucast queue_size) rxb rx_h txb tx_h i)
               in if result \<noteq> 0 then Some (result, maps, Some i)
                  else Some (0, maps, Some (i\<lparr>frame_size := fs, nframes := n, peer_device := dev,
                                 w_pos := 0, r_pos := 0\<rparr>))
           })"

definition tegra_ivc_init ::
  "(u64 \<Rightarrow> ivc_channel) \<Rightarrow> ivc option \<Rightarrow> u64 \<Rightarrow> u64 \<Rightarrow> u32 \<Rightarrow> u32
     \<Rightarrow> dma_dev option \<Rightarrow> bool \<Rightarrow> (int \<times> u64 list \<times> ivc option) option" where
  "tegra_ivc_init chan_at ivc rxb txb n fs dev has_notify =
     tegra_ivc_init_body chan_at ivc rxb 0 txb 0 n fs dev has_notify"

definition tegra_ivc_init_with_dma_handle ::
  "(u64 \<Rightarrow> ivc_channel) \<Rightarrow> ivc option \<Rightarrow> u64 \<Rightarrow> u64 \<Rightarrow> u64 \<Rightarrow> u64 \<Rightarrow> u32 \<Rightarrow> u32
     \<Rightarrow> dma_dev option \<Rightarrow> bool \<Rightarrow> (int \<times> u64 list \<times> ivc option) option" where
  "tegra_ivc_init_with_dma_handle chan_at ivc rxb rx_h txb tx_h n fs dev has_notify =
     tegra_ivc_init_body chan_at ivc rxb rx_h txb tx_h n fs dev has_notify"

subsection \<open>Lemmas\<close>

text \<open>Masking with a power of two less one is a remainder.\<close>

lemma and_63: "unat (x AND 63 :: 'a::len word) = unat x mod 64" if "LENGTH('a) \<ge> 6"
proof -
  have "x AND 63 = take_bit 6 x"
    by (simp only: take_bit_eq_mask mask_eq_exp_minus_1) simp
  moreover have "unat (take_bit 6 x) = take_bit 6 (unat x)" by (rule unsigned_take_bit_eq)
  moreover have "take_bit 6 (unat x) = unat x mod 64" by (simp add: take_bit_eq_mod)
  ultimately show ?thesis by (simp only:)
qed

lemma aligned_iff: "(x :: 'a::len word) AND 63 = 0 \<longleftrightarrow> 64 dvd unat x" if "LENGTH('a) \<ge> 6"
  using and_63 [OF that, of x] by (metis dvd_eq_mod_eq_0 unat_0 unsigned_eq_0_iff)

lemma u64_mult_le: "(ucast (n :: u32) :: u64) * ucast (f :: u32) \<ge> 0x100000000
    \<longleftrightarrow> unat n * unat f \<ge> 2 ^ 32"
  by (simp add: word_le_nat_alt u64_mult_unat)

lemma check_params_ok:
  assumes "check_ivc_params a b n f = 0"
  shows "unat n * unat f < 2 ^ 32" "64 dvd unat f" "64 dvd unat a" "64 dvd unat b"
    "unat (f * n) = unat n * unat f" "is_u32_u32__u32_multiplication_safe n f"
proof -
  show prod: "unat n * unat f < 2 ^ 32" and f: "64 dvd unat f" and "64 dvd unat a" "64 dvd unat b"
    using assms u64_mult_le [of n f]
    by (auto simp: check_ivc_params_def aligned_iff split: if_splits)
  from prod show "unat (f * n) = unat n * unat f" by (simp add: unat_word_ariths mult.commute)
  show "is_u32_u32__u32_multiplication_safe n f"
  proof (cases "n = 0 \<or> f = 0")
    case False
    then have "0 < unat f" by (simp add: unat_gt_0)
    with prod have "unat n \<le> (2 ^ 32 - 1) div unat f" by (simp add: less_eq_div_iff_mult_less_eq)
    with False show ?thesis
      by (simp add: is_u32_u32__u32_multiplication_safe_def word_le_nat_alt unat_div_distrib
        unsigned_minus_1_eq_mask mask_eq_exp_minus_1)
  qed (simp add: is_u32_u32__u32_multiplication_safe_def)
qed

lemma total_size_None:
  "tegra_ivc_total_queue_size q = None \<longleftrightarrow> 64 dvd unat q \<and> unat q \<ge> 2 ^ 32 - 128"
  by (auto simp: tegra_ivc_total_queue_size_def aligned_iff safe_add_u32_def u32_safe_iff)

text \<open>The mapping keeps the geometry and, when it fails, unmaps what it mapped.\<close>

lemma dma_map_result:
  assumes "dma_map_channels dev q rxb rh txb th i = (r, maps, j)"
  shows "r = 0 \<or> r = - ENOMEM \<and> maps = []"
  using assms by (auto simp: dma_map_channels_def Let_def split: if_splits)

lemma init_body_cases:
  assumes "tegra_ivc_init_body chan_at iv rxb rh txb th n f dev nt = Some (r, maps, iv')" "r = 0"
  obtains i j where "check_ivc_params rxb txb n f = 0" "iv = Some i" "f \<le> 0x7FFFFFFF"
    "iv' = Some j" "nframes j = n" "frame_size j = f" "peer_device j = dev" "w_pos j = 0" "r_pos j = 0"
    "tx_channel j = chan_at txb" "rx_channel j = chan_at rxb"
proof -
  note d = assms(1) [unfolded tegra_ivc_init_body_def Let_def]
  have c: "check_ivc_params rxb txb n f = 0" using d assms(2) by (auto split: if_splits)
  then obtain i where i: "iv = Some i" using d by (cases iv) auto
  have f: "f \<le> 0x7FFFFFFF"
    using d c i assms(2) by (auto split: if_splits Option.bind_splits)
  show ?thesis
  proof (cases dev)
    case None
    with d c i f assms(2) show ?thesis
      by (auto intro!: that split: if_splits Option.bind_splits)
  next
    case (Some v)
    let ?i = "i\<lparr>rx_base := rxb, tx_base := txb, rx_channel := chan_at rxb, tx_channel := chan_at txb\<rparr>"
    obtain q where q: "tegra_ivc_total_queue_size (n * f) = Some q"
      using d c i assms(2) by (auto split: if_splits Option.bind_splits)
    obtain r1 m1 j1 where m: "dma_map_channels v (ucast q) rxb rh txb th ?i = (r1, m1, j1)"
      by (metis prod.exhaust)
    have ch: "tx_channel j1 = chan_at txb \<and> rx_channel j1 = chan_at rxb"
      using m by (auto simp: dma_map_channels_def Let_def split: if_splits)
    from d c i f assms(2) Some q m ch show ?thesis
      by (auto intro!: that split: if_splits)
  qed
qed

subsection \<open>Properties\<close>

text \<open>
  A successful initialisation gives a well-formed endpoint: the frame arithmetic cannot wrap in
  32 bits, both regions and the frames are 64-byte aligned, a frame size fits in an \<open>int\<close>, and,
  for at least one frame, both positions are frame indices.
\<close>

theorem ivc_init_well_formed:
  assumes "tegra_ivc_init_body chan_at ivc rxb rh txb th n f dev has_notify = Some (0, maps, Some i)"
    and "n \<noteq> 0"
    and "dev \<noteq> None \<longrightarrow> unat (rx_handle i) + header_size + unat n * unat f < 2 ^ 64
        \<and> unat (tx_handle i) + header_size + unat n * unat f < 2 ^ 64"
  shows "ivc_wf i \<and> unat (frame_size i) < 2 ^ 31 \<and> 64 dvd unat rxb \<and> 64 dvd unat txb
    \<and> 64 dvd unat (frame_size i) \<and> w_pos i = 0 \<and> r_pos i = 0"
  using assms(1) refl
proof (rule init_body_cases)
  fix i0 j
  assume c: "check_ivc_params rxb txb n f = 0" and "f \<le> 0x7FFFFFFF" and "Some i = Some j"
    and j: "nframes j = n" "frame_size j = f" "peer_device j = dev" "w_pos j = 0" "r_pos j = 0"
  moreover have "0 < n" using assms(2) by (simp add: word_gt_0)
  ultimately show ?thesis
    using check_params_ok [OF c] assms(3)
    by (simp add: ivc_wf_def frame_area_def word_le_nat_alt)
qed

definition null_ivc :: ivc where
  "null_ivc = demo_end\<lparr>nframes := 0, frame_size := 0, w_pos := 9, r_pos := 9\<rparr>"

definition demo_dma :: dma_dev where
  "demo_dma = \<lparr>dma_map_single = (\<lambda>a _. a + 0x80000000), dma_mapping_error = (\<lambda>h. h < 0x1000)\<rparr>"

theorem ivc_init_well_formed_witness:
  "\<exists>maps i. tegra_ivc_init_body (\<lambda>_. rx_channel demo_end) (Some null_ivc) 0x1000 0 0x2000 0 4 64
      (Some demo_dma) True = Some (0, maps, Some i) \<and> length maps = 2 \<and> ivc_wf i"
proof -
  have "\<exists>maps i. tegra_ivc_init_body (\<lambda>_. rx_channel demo_end) (Some null_ivc) 0x1000 0 0x2000 0 4 64
      (Some demo_dma) True = Some (0, maps, Some i) \<and> length maps = 2
      \<and> rx_handle i = 0x80001000 \<and> tx_handle i = 0x80002000"
    by (simp add: tegra_ivc_init_body_def check_ivc_params_def is_u32_u32__u32_multiplication_safe_def
      tegra_ivc_total_queue_size_def safe_add_u32_def is_u32_addition_safe_def dma_map_channels_def
      demo_dma_def Let_def)
  then obtain maps i where i: "tegra_ivc_init_body (\<lambda>_. rx_channel demo_end) (Some null_ivc)
      0x1000 0 0x2000 0 4 64 (Some demo_dma) True = Some (0, maps, Some i)" "length maps = 2"
      "rx_handle i = 0x80001000" "tx_handle i = 0x80002000" by blast
  from ivc_init_well_formed [OF i(1)] i(2-4) i(1) show ?thesis by auto
qed

text \<open>
  Errors of the initialisation: a failed one leaves no DMA mapping behind, and, for an endpoint
  and a callback that exist, it reaches a \<open>BUG()\<close> exactly when the parameters pass the checks and
  the frames take at least \<open>2^32 - 128\<close> bytes.
\<close>

theorem ivc_init_errors:
  "(case tegra_ivc_init_body chan_at (Some i) rxb rh txb th n f dev True of
      None \<Rightarrow> check_ivc_params rxb txb n f = 0 \<and> unat n * unat f \<ge> 2 ^ 32 - 128
    | Some (r, maps, _) \<Rightarrow> (r = 0 \<or> maps = [])
        \<and> \<not> (check_ivc_params rxb txb n f = 0 \<and> unat n * unat f \<ge> 2 ^ 32 - 128))"
proof (cases "check_ivc_params rxb txb n f = 0")
  case False
  then show ?thesis by (simp add: tegra_ivc_init_body_def)
next
  case True
  note ok = check_params_ok [OF True]
  have q: "tegra_ivc_total_queue_size (n * f) = None \<longleftrightarrow> unat n * unat f \<ge> 2 ^ 32 - 128"
    using ok(2,5) total_size_None [of "n * f"] by (simp add: mult.commute)
  let ?i = "i\<lparr>rx_base := rxb, tx_base := txb, rx_channel := chan_at rxb, tx_channel := chan_at txb\<rparr>"
  show ?thesis
  proof (cases "tegra_ivc_total_queue_size (n * f)")
    case None
    with True ok(6) q show ?thesis by (simp add: tegra_ivc_init_body_def)
  next
    case (Some qs)
    show ?thesis
    proof (cases dev)
      case None
      with True Some ok(6) q show ?thesis by (simp add: tegra_ivc_init_body_def)
    next
      case (Some v)
      obtain r m j where m: "dma_map_channels v (ucast qs) rxb rh txb th ?i = (r, m, j)"
        by (metis prod.exhaust)
      from dma_map_result [OF m] True Some \<open>tegra_ivc_total_queue_size (n * f) = Some qs\<close> m ok(6) q
      show ?thesis by (auto simp: tegra_ivc_init_body_def)
    qed
  qed
qed

text \<open>
  The regions accepted do overlap: the check compares the bases with the frames' size only, so
  two queues of any accepted geometry may be placed so that the last 128 bytes of frames of the
  first are the header of the second.
\<close>

theorem ivc_overlap_accepted:
  assumes "unat n * unat f < 2 ^ 32 - 128" "64 dvd unat f" "0 < unat n * unat f"
  shows "check_ivc_params 0x1000 (0x1000 + ucast (f * n)) n f = 0
    \<and> (\<exists>total. tegra_ivc_total_queue_size (f * n) = Some total
         \<and> 0x1000 + ucast (f * n) < (0x1000 + ucast total :: u64))"
proof -
  have p: "unat (f * n) = unat n * unat f"
  proof -
    have "unat (f * n) = (unat f * unat n) mod 2 ^ LENGTH(32)" by (rule unat_word_ariths)
    also have "unat f * unat n = unat n * unat f" by (rule mult.commute)
    also have "unat n * unat f mod 2 ^ LENGTH(32) = unat n * unat f" using assms(1) by simp
    finally show ?thesis .
  qed
  have u: "unat (0x1000 + ucast (f * n) :: u64) = 0x1000 + unat n * unat f"
    using assms(1) unat_word_ariths(1) [of "0x1000 :: u64" "ucast (f * n)"]
    by (simp add: unat_ucast_u64 p)
  have d: "64 dvd unat n * unat f" using assms(2) by simp
  have a: "64 dvd unat (0x1000 + ucast (f * n) :: u64)"
    unfolding u using d by (simp add: dvd_add)
  have t: "tegra_ivc_total_queue_size (f * n) = Some (f * n + 128)"
    using assms(1) d
    by (simp add: tegra_ivc_total_queue_size_def aligned_iff p safe_add_u32_def u32_safe_iff)
  have p': "unat (f * n + 128) = unat n * unat f + 128"
    using assms(1) unat_word_ariths(1) [of "f * n" 128] by (simp add: p)
  have ut: "unat (0x1000 + ucast (f * n + 128) :: u64) = 0x1000 + unat n * unat f + 128"
    using assms(1) unat_word_ariths(1) [of "0x1000 :: u64" "ucast (f * n + 128)"]
    by (simp add: unat_ucast_u64 p')
  have "check_ivc_params 0x1000 (0x1000 + ucast (f * n)) n f = 0"
    using u64_mult_le [of n f] assms a
    by (simp add: check_ivc_params_def aligned_iff word_less_nat_alt u not_le)
  with t u ut show ?thesis by (simp add: word_less_nat_alt)
qed

theorem ivc_overlap_accepted_witness:
  "check_ivc_params 0x1000 (0x1000 + ucast (64 * 4 :: u32)) 4 64 = 0"
  using ivc_overlap_accepted [of 4 64] by simp

text \<open>
  The positions that a resynchronisation recovers from the counters are the running ones, also
  after the next write, if the number of frames divides \<open>2^32\<close>.
\<close>

theorem ivc_sync_recovers:
  assumes "unat (nframes i) dvd 2 ^ 32" "w_pos i = w_count (tx_channel i) mod nframes i"
    and "r_pos i = r_count (rx_channel i) mod nframes i"
  shows "tegra_ivc_channel_sync (Some (ivc_advance_rx (ivc_advance_tx i)))
    = (0, Some (ivc_advance_rx (ivc_advance_tx i)))"
proof -
  have n0: "nframes i \<noteq> 0" using assms(1) by auto
  then have pos: "0 < unat (nframes i)" by (simp add: unat_gt_0)
  have step: "ring_next (c mod nframes i) (nframes i) = (c + 1) mod nframes i" for c :: u32
  proof -
    have lt: "c mod nframes i < nframes i"
      using pos by (simp add: word_less_nat_alt unat_mod_distrib)
    have "unat ((c + 1) mod nframes i) = (Suc (unat c) mod 2 ^ 32) mod unat (nframes i)"
      by (simp add: unat_mod_distrib unat_word_ariths)
    also have "\<dots> = Suc (unat c) mod unat (nframes i)"
      by (rule mod_mod_cancel [OF assms(1)])
    also have "\<dots> = Suc (unat (c mod nframes i)) mod unat (nframes i)"
      by (simp add: unat_mod_distrib mod_simps)
    finally show ?thesis using unat_ring_step(1) [OF lt] by (metis word_unat_eq_iff)
  qed
  show ?thesis
    using n0 assms(2,3) step
    by (simp add: tegra_ivc_channel_sync_def ivc_advance_tx_def ivc_advance_rx_def)
qed

theorem ivc_sync_recovers_witness:
  "tegra_ivc_channel_sync (Some (ivc_advance_rx (ivc_advance_tx (demo_end\<lparr>nframes := 4, w_pos := 3,
      r_pos := 0, tx_channel := (tx_channel demo_end)\<lparr>w_count := - 1\<rparr>\<rparr>))))
   = (0, Some (ivc_advance_rx (ivc_advance_tx (demo_end\<lparr>nframes := 4, w_pos := 3, r_pos := 0,
      tx_channel := (tx_channel demo_end)\<lparr>w_count := - 1\<rparr>\<rparr>))))"
  by (rule ivc_sync_recovers) (simp_all add: demo_end_def)

text \<open>
  Without that divisibility it does not: with three frames the write that wraps the counter
  leaves a position that a resynchronisation moves back by one.
\<close>

theorem ivc_sync_after_wrap:
  "\<exists>i. w_pos i = w_count (tx_channel i) mod nframes i \<and> nframes i = 3
    \<and> fst (tegra_ivc_channel_sync (Some (ivc_advance_tx i))) = 0
    \<and> w_pos (ivc_advance_tx i) = 1
    \<and> map_option w_pos (snd (tegra_ivc_channel_sync (Some (ivc_advance_tx i)))) = Some 0"
  by (rule exI [of _ "demo_end\<lparr>w_pos := 0, tx_channel := (tx_channel demo_end)\<lparr>w_count := - 1\<rparr>\<rparr>"])
     (simp add: demo_end_def tegra_ivc_channel_sync_def ivc_advance_tx_def ring_next_def)

end
