(* ===== verification/Chunks.thy ===== *)
theory Chunks
  imports Prelude "HOL-Library.Multiset"
begin

text \<open>
  What the two address-range allocators of the repository share (\<open>nvadsp/mem_manager.c\<close> and
  \<open>nvscic2c-pcie/iova-mngr.c\<close>): chunks on lists, the ranges of addresses they stand for, and the
  contract of an allocator as a locale. A chunk is known by the address \<open>ch_id\<close> of its structure;
  this is the pointer that clients hold.
\<close>

record chunk =
  ch_id :: nat
  ch_addr :: u64
  ch_size :: u64

definition lo :: "'a chunk_scheme \<Rightarrow> nat" where "lo c = unat (ch_addr c)"
definition hi :: "'a chunk_scheme \<Rightarrow> nat" where "hi c = unat (ch_addr c) + unat (ch_size c)"

text \<open>How many chunks of a list hold the address \<open>x\<close>.\<close>

definition covers :: "nat \<Rightarrow> 'a chunk_scheme \<Rightarrow> nat" where
  "covers x c = of_bool (lo c \<le> x \<and> x < hi c)"

definition cover :: "'a chunk_scheme list \<Rightarrow> nat \<Rightarrow> nat" where
  "cover cs x = sum_list (map (covers x) cs)"

lemma cover_simps [simp]:
  "cover [] x = 0" "cover (c # cs) x = covers x c + cover cs x" "cover (xs @ ys) x = cover xs x + cover ys x"
  by (simp_all add: cover_def)

lemma cover_ge: "c \<in> set cs \<Longrightarrow> covers x c \<le> cover cs x"
  by (induction cs) auto

lemma cover_mset: "mset xs = mset ys \<Longrightarrow> cover xs x = cover ys x"
  unfolding cover_def by (metis mset_map sum_mset_sum_list)

lemma cover_remove1: "c \<in> set cs \<Longrightarrow> cover cs x = covers x c + cover (remove1 c cs) x"
  by (induction cs) auto

lemma cover_pos: "0 < cover cs x \<Longrightarrow> \<exists>c\<in>set cs. lo c \<le> x \<and> x < hi c"
  by (induction cs) (auto simp: covers_def)

text \<open>A free list is sorted, without empty chunks, and with a gap between neighbours.\<close>

definition coalesced :: "'a chunk_scheme list \<Rightarrow> bool" where
  "coalesced cs \<longleftrightarrow> sorted_wrt (\<lambda>a b. hi a < lo b) cs \<and> (\<forall>c\<in>set cs. lo c < hi c)"

text \<open>
  A region is divided when every one of its addresses is in exactly one chunk and none other is in
  any; it does not end at the top of the 64-bit space.
\<close>

definition divided :: "nat \<Rightarrow> nat \<Rightarrow> 'a chunk_scheme list \<Rightarrow> 'b chunk_scheme list \<Rightarrow> bool" where
  "divided base len free held \<longleftrightarrow> base + len < 2 ^ 64
     \<and> (\<forall>x. cover free x + cover held x = of_bool (base \<le> x \<and> x < base + len))"

lemma dividedD:
  assumes "divided base len free held"
  shows "base + len < 2 ^ 64" "cover free x + cover held x = of_bool (base \<le> x \<and> x < base + len)"
    "cover free x + cover held x \<le> 1"
  using assms by (simp_all add: divided_def)

lemma covers_le_1: "covers x c \<le> 1" and covers_1: "covers x c = 1 \<longleftrightarrow> lo c \<le> x \<and> x < hi c"
  by (auto simp: covers_def)

text \<open>A nonempty chunk of the division lies inside the region, and two of them do not meet.\<close>

lemma member_inside:
  assumes "divided base len free held" "c \<in> set held" "lo c < hi c"
  shows "base \<le> lo c" "hi c \<le> base + len" "hi c < 2 ^ 64"
proof -
  have in_region: "base \<le> x \<and> x < base + len" if "lo c \<le> x" "x < hi c" for x
  proof -
    have "covers x c = 1" using that by (simp add: covers_def)
    then have "1 \<le> cover held x" using cover_ge [OF assms(2), of x] by simp
    with dividedD(2) [OF assms(1), of x] show ?thesis by (auto simp: of_bool_def split: if_splits)
  qed
  from in_region [of "lo c"] in_region [of "hi c - 1"] assms(3)
  show "base \<le> lo c" "hi c \<le> base + len" by (cases "lo c \<le> hi c - 1"; simp; linarith)+
  with dividedD(1) [OF assms(1)] show "hi c < 2 ^ 64" by linarith
qed

lemma divided_swap: "divided base len free held = divided base len held free"
  by (auto simp: divided_def add.commute)

lemmas free_inside = member_inside [OF divided_swap [THEN iffD1]]

lemma apart:
  assumes "covers x c + covers x d \<le> 1" "covers y c + covers y d \<le> 1"
    and "x = lo c" "y = lo d" "lo c < hi c" "lo d < hi d"
  shows "hi c \<le> lo d \<or> hi d \<le> lo c"
  using assms by (auto simp: covers_def of_bool_def split: if_splits)

lemma free_held_apart:
  assumes "divided base len free held" "c \<in> set free" "d \<in> set held" "lo c < hi c" "lo d < hi d"
  shows "hi c \<le> lo d \<or> hi d \<le> lo c"
proof -
  have "covers x c + covers x d \<le> 1" for x
    using dividedD(3) [OF assms(1), of x] cover_ge [OF assms(2), of x] cover_ge [OF assms(3), of x]
    by linarith
  then show ?thesis using apart assms(4,5) by metis
qed

lemma divided_cong:
  "divided base len f h \<Longrightarrow> (\<And>x. cover f' x + cover h' x = cover f x + cover h x) \<Longrightarrow> divided base len f' h'"
  by (simp add: divided_def)

text \<open>Taking the head of a free chunk, and the size that is left.\<close>

lemma split_chunk:
  assumes "hi c < 2 ^ 64" "unat n < unat (ch_size c)"
  shows "lo (c\<lparr>ch_addr := ch_addr c + n, ch_size := ch_size c - n\<rparr>) = lo c + unat n"
    "hi (c\<lparr>ch_addr := ch_addr c + n, ch_size := ch_size c - n\<rparr>) = hi c"
proof -
  have "unat (ch_addr c) + unat n < 2 ^ 64" using assms unfolding hi_def by linarith
  then have a: "unat (ch_addr c + n) = unat (ch_addr c) + unat n"
    by (simp add: unat_word_ariths)
  have s: "unat (ch_size c - n) = unat (ch_size c) - unat n"
    using assms(2) by (simp add: unat_sub word_le_nat_alt)
  show "lo (c\<lparr>ch_addr := ch_addr c + n, ch_size := ch_size c - n\<rparr>) = lo c + unat n"
    using a by (simp add: lo_def)
  show "hi (c\<lparr>ch_addr := ch_addr c + n, ch_size := ch_size c - n\<rparr>) = hi c"
    using a s assms(2) by (simp add: hi_def)
qed

text \<open>The end of a chunk as the code computes it, and chunks joined at a common border.\<close>

lemma end_word: "hi c < 2 ^ 64 \<Longrightarrow> ch_addr c + ch_size c = ch_addr d \<longleftrightarrow> hi c = lo d"
  by (simp add: hi_def lo_def word_unat_eq_iff unat_word_ariths)

lemma join_size:
  assumes "hi c = lo d" "hi d < 2 ^ 64"
  shows "lo (c\<lparr>ch_size := ch_size c + ch_size d\<rparr>) = lo c" "hi (c\<lparr>ch_size := ch_size c + ch_size d\<rparr>) = hi d"
proof -
  have "unat (ch_size c) + unat (ch_size d) < 2 ^ 64" using assms by (simp add: hi_def lo_def)
  then have "unat (ch_size c + ch_size d) = unat (ch_size c) + unat (ch_size d)"
    by (simp add: unat_word_ariths)
  then show "lo (c\<lparr>ch_size := ch_size c + ch_size d\<rparr>) = lo c"
    "hi (c\<lparr>ch_size := ch_size c + ch_size d\<rparr>) = hi d"
    using assms by (simp_all add: lo_def hi_def)
qed

lemma join_below:
  assumes "hi f = lo c" "hi c < 2 ^ 64"
  shows "lo (c\<lparr>ch_addr := ch_addr f, ch_size := ch_size c + ch_size f\<rparr>) = lo f"
    "hi (c\<lparr>ch_addr := ch_addr f, ch_size := ch_size c + ch_size f\<rparr>) = hi c"
  using join_size [OF assms] by (simp_all add: lo_def hi_def add.commute)

lemma covers_join: "hi c = lo d \<Longrightarrow> lo c \<le> hi c \<Longrightarrow> lo d \<le> hi d \<Longrightarrow> lo e = lo c \<Longrightarrow> hi e = hi d \<Longrightarrow>
    covers x e = covers x c + covers x d"
  by (auto simp: covers_def)

text \<open>A coalesced list that covers an interval is one chunk.\<close>

lemma coalesced_interval:
  assumes "coalesced cs" "\<And>x. cover cs x = of_bool (base \<le> x \<and> x < base + len)" "0 < len"
  shows "\<exists>c. cs = [c] \<and> lo c = base \<and> hi c = base + len"
proof (cases cs)
  case Nil
  then show ?thesis using assms(2) [of base] assms(3) by simp
next
  case (Cons c rest)
  have c: "lo c < hi c" using assms(1) Cons by (simp add: coalesced_def)
  have mem: "covers x c \<le> of_bool (base \<le> x \<and> x < base + len)" for x
    using assms(2) [of x] Cons by simp
  have in1: "base \<le> lo c" using mem [of "lo c"] c by (auto simp: covers_def of_bool_def split: if_splits)
  have in2: "hi c \<le> base + len" using mem [of "hi c - 1"] c by (auto simp: covers_def of_bool_def split: if_splits)
  have rest_above: "d \<in> set rest \<Longrightarrow> hi c < lo d" for d
    using assms(1) Cons by (auto simp: coalesced_def)
  have rest0: "cover rest x = 0" if "x \<le> hi c" for x
  proof -
    have "\<forall>d\<in>set rest. covers x d = 0" using rest_above that by (auto simp: covers_def) fastforce
    then show ?thesis by (simp add: cover_def)
  qed
  have "lo c = base"
    using assms(2) [of base] assms(3) rest0 [of base] in1 c Cons by (auto simp: covers_def of_bool_def split: if_splits)
  moreover have e: "hi c = base + len"
  proof (rule ccontr)
    assume "hi c \<noteq> base + len"
    with in2 have "hi c < base + len" by simp
    with in1 c have "base \<le> hi c \<and> hi c < base + len" by simp
    with assms(2) [of "hi c"] rest0 [of "hi c"] Cons show False by (simp add: covers_def)
  qed
  moreover have "rest = []"
  proof (rule ccontr)
    assume "rest \<noteq> []"
    then obtain d ds where r: "rest = d # ds" by (cases rest) auto
    have "lo d < hi d" using assms(1) Cons r by (simp add: coalesced_def)
    then have "1 \<le> cover cs (lo d)" using Cons r by (simp add: covers_def)
    with assms(2) [of "lo d"] rest_above [of d] r e show False by (auto simp: of_bool_def split: if_splits)
  qed
  ultimately show ?thesis using Cons by auto
qed

text \<open>
  Putting a chunk \<open>f\<close> back between two neighbours: joined with the upper one, the lower one, both or
  neither. Each allocator writes this out itself; the lemmas speak of this common form.
\<close>

definition put_between :: "'a chunk_scheme \<Rightarrow> 'a chunk_scheme list \<Rightarrow> 'a chunk_scheme \<Rightarrow>
    'a chunk_scheme list \<Rightarrow> 'a chunk_scheme list" where
  "put_between f before c after =
     (if ch_addr c = ch_addr f + ch_size f
      then let c = c\<lparr>ch_addr := ch_addr f, ch_size := ch_size c + ch_size f\<rparr>
           in if before \<noteq> [] \<and> ch_addr (last before) + ch_size (last before) = ch_addr c
              then butlast before @ (last before)\<lparr>ch_size := ch_size (last before) + ch_size c\<rparr> # after
              else before @ c # after
      else if before \<noteq> [] \<and> ch_addr (last before) + ch_size (last before) = ch_addr f
      then butlast before @ (last before)\<lparr>ch_size := ch_size (last before) + ch_size f\<rparr> # c # after
      else before @ f # c # after)"

lemma coalesced_append: "coalesced (xs @ c # ys) \<longleftrightarrow> coalesced xs \<and> coalesced ys \<and> lo c < hi c
    \<and> (\<forall>a\<in>set xs. hi a < lo c) \<and> (\<forall>b\<in>set ys. hi c < lo b) \<and> (\<forall>a\<in>set xs. \<forall>b\<in>set ys. hi a < lo b)"
  by (auto simp: coalesced_def sorted_wrt_append)

lemma coalesced_Nil [simp]: "coalesced []"
  by (simp add: coalesced_def)

lemma coalesced_Cons: "coalesced (c # ys) \<longleftrightarrow> lo c < hi c \<and> (\<forall>b\<in>set ys. hi c < lo b) \<and> coalesced ys"
  by (auto simp: coalesced_def)

lemma put_between_ok:
  assumes co: "coalesced (before @ c # after)" and f: "lo f < hi f"
    and below: "\<forall>b\<in>set before. hi b \<le> lo f" and above: "hi f \<le> lo c"
    and lim: "\<forall>d\<in>set (before @ c # after). hi d < 2 ^ 64"
  shows "coalesced (put_between f before c after)
    \<and> (\<forall>x. cover (put_between f before c after) x = covers x f + cover (before @ c # after) x)"
proof -
  have c: "lo c < hi c" "hi c < 2 ^ 64" using co lim by (auto simp: coalesced_append)
  then have flim: "hi f < 2 ^ 64" using above by linarith
  let ?c = "c\<lparr>ch_addr := ch_addr f, ch_size := ch_size c + ch_size f\<rparr>"
  have upper: "ch_addr c = ch_addr f + ch_size f \<longleftrightarrow> hi f = lo c" using end_word [OF flim] by metis
  have jc: "hi f = lo c \<Longrightarrow> lo ?c = lo f \<and> hi ?c = hi c" using join_below c(2) by metis
  have ca: "ch_addr ?c = ch_addr f" by simp
  show ?thesis
  proof (cases before rule: rev_cases)
    case Nil
    show ?thesis
    proof (cases "hi f = lo c")
      case True
      then show ?thesis using jc [OF True] co f c covers_join [OF True, of ?c] upper Nil
        by (simp add: put_between_def Let_def coalesced_Cons)
    next
      case False
      then show ?thesis using co f above c upper Nil
        by (auto simp: put_between_def coalesced_Cons)
    qed
  next
    case (snoc bs p)
    have p: "lo p < hi p" "hi p < 2 ^ 64" "hi p \<le> lo f"
      using co lim below snoc by (auto simp: coalesced_append)
    have bs: "\<forall>b\<in>set bs. hi b < lo p" using co snoc by (auto simp: coalesced_append)
    have dn: "ch_addr p + ch_size p = ch_addr f \<longleftrightarrow> hi p = lo f" by (rule end_word [OF p(2)])
    have jp: "lo (p\<lparr>ch_size := ch_size p + ch_size f\<rparr>) = lo p \<and> hi (p\<lparr>ch_size := ch_size p + ch_size f\<rparr>) = hi f"
      if "hi p = lo f" using join_size that flim by metis
    have jpc: "lo (p\<lparr>ch_size := ch_size p + ch_size ?c\<rparr>) = lo p \<and> hi (p\<lparr>ch_size := ch_size p + ch_size ?c\<rparr>) = hi c"
      if "hi p = lo f" "hi f = lo c" using join_size [of p ?c] that jc c(2) by simp
    have bs2: "\<forall>b\<in>set bs. hi b < lo f" using bs p by auto
    have strict: "\<forall>b\<in>set before. hi b < lo f" if "hi p \<noteq> lo f" using that bs2 p(3) snoc by auto
    have co_before: "coalesced before" "coalesced after" "\<forall>b\<in>set after. hi c < lo b"
      "\<forall>a\<in>set before. \<forall>b\<in>set after. hi a < lo b"
      using co by (auto simp: coalesced_append)
    have co_bs: "coalesced bs" using co_before(1) snoc by (simp add: coalesced_append)
    have far: "\<forall>a\<in>set bs. \<forall>b\<in>set (c # after). hi a < lo b" "\<forall>b\<in>set after. hi f < lo b"
      using co snoc c above co_before(3) by (auto simp: coalesced_append)
    have co_c: "coalesced (c # after)" using co_before c by (simp add: coalesced_Cons)
    consider (both) "hi f = lo c" "hi p = lo f" | (up) "hi f = lo c" "hi p \<noteq> lo f"
      | (down) "hi f \<noteq> lo c" "hi p = lo f" | (none) "hi f \<noteq> lo c" "hi p \<noteq> lo f" by blast
    then show ?thesis
    proof cases
      case both
      have "put_between f before c after = bs @ p\<lparr>ch_size := ch_size p + ch_size ?c\<rparr> # after"
        using both upper dn snoc by (simp add: put_between_def Let_def)
      moreover have "covers x (p\<lparr>ch_size := ch_size p + ch_size ?c\<rparr>) = covers x p + covers x f + covers x c" for x
        using jpc [OF both(2,1)] both p f c by (auto simp: covers_def)
      ultimately show ?thesis using co jpc [OF both(2,1)] p f c both snoc
        by (auto simp: coalesced_append coalesced_Cons)
    next
      case up
      then have "put_between f before c after = before @ ?c # after"
        using upper dn snoc by (simp add: put_between_def Let_def)
      moreover have "coalesced (before @ ?c # after)"
        using co_before strict [OF up(2)] jc [OF up(1)] f c up(1) by (simp add: coalesced_append)
      ultimately show ?thesis using covers_join [OF up(1), of ?c] jc [OF up(1)] f c by simp
    next
      case down
      then have "put_between f before c after = bs @ p\<lparr>ch_size := ch_size p + ch_size f\<rparr> # c # after"
        using upper dn snoc by (simp add: put_between_def)
      moreover have "coalesced (bs @ p\<lparr>ch_size := ch_size p + ch_size f\<rparr> # c # after)"
        unfolding coalesced_append
        using co_bs co_c bs jp [OF down(2)] f p far down(1) above c by auto
      ultimately show ?thesis
        using covers_join [OF down(2), of "p\<lparr>ch_size := ch_size p + ch_size f\<rparr>"] jp [OF down(2)] f p snoc
        by simp
    next
      case none
      then have "put_between f before c after = before @ f # c # after"
        using upper dn snoc by (simp add: put_between_def)
      moreover have "coalesced (before @ f # c # after)"
        unfolding coalesced_append
        using co_before co_c strict [OF none(2)] f far none(1) above co by (auto simp: coalesced_append)
      ultimately show ?thesis by simp
    qed
  qed
qed

text \<open>
  The same without the order of the list, which empty chunks break: every address is still held
  once, and every chunk, the empty ones too, stays between the bounds.
\<close>

lemma put_between_sound:
  assumes lim: "\<forall>d\<in>set (f # before @ c # after). base \<le> lo d \<and> hi d \<le> fin" "fin < 2 ^ 64"
  shows "(\<forall>x. cover (put_between f before c after) x = covers x f + cover (before @ c # after) x)
    \<and> (\<forall>d\<in>set (put_between f before c after). base \<le> lo d \<and> hi d \<le> fin)"
proof -
  have small: "hi d < 2 ^ 64" if "d \<in> set (f # before @ c # after)" for d
    using lim that by (meson le_less_trans)
  let ?c = "c\<lparr>ch_addr := ch_addr f, ch_size := ch_size c + ch_size f\<rparr>"
  have le: "lo d \<le> hi d" for d :: "'a chunk_scheme" by (simp add: lo_def hi_def)
  have upper: "ch_addr c = ch_addr f + ch_size f \<longleftrightarrow> hi f = lo c"
    using end_word [of f c] small by (metis list.set_intros(1))
  have jc: "hi f = lo c \<Longrightarrow> lo ?c = lo f \<and> hi ?c = hi c" using join_below [of f c] small by simp
  have cc: "hi f = lo c \<Longrightarrow> covers x ?c = covers x f + covers x c" for x
    using covers_join [of f c ?c x] jc le by blast
  show ?thesis
  proof (cases before rule: rev_cases)
    case Nil
    then show ?thesis using lim jc cc upper by (auto simp: put_between_def Let_def)
  next
    case (snoc bs p)
    have dn: "ch_addr p + ch_size p = ch_addr f \<longleftrightarrow> hi p = lo f" using small snoc by (simp add: end_word)
    let ?pf = "p\<lparr>ch_size := ch_size p + ch_size f\<rparr>" and ?pc = "p\<lparr>ch_size := ch_size p + ch_size ?c\<rparr>"
    have jf: "hi p = lo f \<Longrightarrow> lo ?pf = lo p \<and> hi ?pf = hi f" using join_size [of p f] small by simp
    have cf: "hi p = lo f \<Longrightarrow> covers x ?pf = covers x p + covers x f" for x
      using covers_join [of p f ?pf x] jf le by blast
    have jpc: "hi f = lo c \<Longrightarrow> hi p = lo f \<Longrightarrow> lo ?pc = lo p \<and> hi ?pc = hi c"
      using join_size [of p ?c] jc small by simp
    have cpc: "hi f = lo c \<Longrightarrow> hi p = lo f \<Longrightarrow> covers x ?pc = covers x p + (covers x f + covers x c)" for x
      using covers_join [of p ?c ?pc x] jc jpc cc le by metis
    show ?thesis
      using lim jc cc jf cf jpc cpc upper dn snoc
      by (cases "hi f = lo c"; cases "hi p = lo f") (simp_all add: put_between_def Let_def)
  qed
qed

lemma put_between_ids:
  assumes "distinct (map ch_id (before @ c # after))" "ch_id f \<notin> ch_id ` set (before @ c # after)"
  shows "distinct (map ch_id (put_between f before c after))
    \<and> ch_id ` set (put_between f before c after) \<subseteq> insert (ch_id f) (ch_id ` set (before @ c # after))"
  using assms by (cases before rule: rev_cases) (auto simp: put_between_def Let_def)

text \<open>Removing, updating and finding a chunk by its pointer.\<close>

definition list_del :: "nat \<Rightarrow> 'a chunk_scheme list \<Rightarrow> 'a chunk_scheme list" where
  "list_del p cs = filter (\<lambda>c. ch_id c \<noteq> p) cs"

definition update_at :: "nat \<Rightarrow> ('a chunk_scheme \<Rightarrow> 'a chunk_scheme) \<Rightarrow> 'a chunk_scheme list \<Rightarrow> 'a chunk_scheme list" where
  "update_at p f cs = map (\<lambda>c. if ch_id c = p then f c else c) cs"

definition find_chunk :: "nat \<Rightarrow> 'a chunk_scheme list \<Rightarrow> 'a chunk_scheme option" where
  "find_chunk p cs = find (\<lambda>c. ch_id c = p) cs"

lemma find_chunk_Some: "find_chunk p cs = Some c \<Longrightarrow> c \<in> set cs \<and> ch_id c = p"
  by (auto simp: find_chunk_def find_Some_iff)

lemma find_chunk_mem: "distinct (map ch_id cs) \<Longrightarrow> c \<in> set cs \<Longrightarrow> find_chunk (ch_id c) cs = Some c"
  by (induction cs) (auto simp: find_chunk_def)

lemma list_del_simps [simp]: "list_del p [] = []"
  "list_del p (c # cs) = (if ch_id c = p then list_del p cs else c # list_del p cs)"
  "list_del p (xs @ ys) = list_del p xs @ list_del p ys" "set (list_del p cs) = {c \<in> set cs. ch_id c \<noteq> p}"
  by (auto simp: list_del_def)

lemma subset_insert_disjoint: "A \<subseteq> insert h B \<Longrightarrow> h \<notin> C \<Longrightarrow> B \<inter> C = {} \<Longrightarrow> A \<inter> C = {}"
  by blast

lemma distinct_ids_append: "distinct (map ch_id xs) \<Longrightarrow> distinct (map ch_id ys) \<Longrightarrow>
    ch_id ` set xs \<inter> ch_id ` set ys = {} \<Longrightarrow> distinct (map ch_id (xs @ ys))"
  by simp

lemma list_del_other: "p \<notin> ch_id ` set cs \<Longrightarrow> list_del p cs = cs"
  by (induction cs) auto

lemma distinct_list_del: "distinct (map ch_id cs) \<Longrightarrow> distinct (map ch_id (list_del p cs))"
  by (induction cs) auto

lemma at_split:
  assumes "distinct (map ch_id cs)" "c \<in> set cs"
  obtains xs ys where "cs = xs @ c # ys" "list_del (ch_id c) cs = xs @ ys"
    "\<And>f. update_at (ch_id c) f cs = xs @ f c # ys"
proof -
  obtain xs ys where cs: "cs = xs @ c # ys" using assms(2) by (meson split_list)
  have "ch_id c \<notin> ch_id ` set xs" "ch_id c \<notin> ch_id ` set ys" using assms(1) cs by auto
  moreover from this have "\<forall>x\<in>set xs. ch_id x \<noteq> ch_id c" "\<forall>x\<in>set ys. ch_id x \<noteq> ch_id c"
    by (metis imageI)+
  ultimately show ?thesis
    by (intro that [OF cs]) (auto simp: cs list_del_other update_at_def intro!: map_idI)
qed

lemma coalesced_del: "coalesced (xs @ c # ys) \<Longrightarrow> coalesced (xs @ ys)"
  by (auto simp: coalesced_def sorted_wrt_append)

lemma coalesced_shrink:
  assumes "coalesced (xs @ c # ys)" "lo c \<le> lo d" "lo d < hi d" "hi d = hi c"
  shows "coalesced (xs @ d # ys)"
  using assms by (fastforce simp: coalesced_append)

subsection \<open>The contract of an allocator\<close>

text \<open>
  \<open>held s\<close> are the chunks clients hold, \<open>inv base len\<close> the invariant over the managed region. A
  reservation adds one chunk of the size asked for and changes no other; a release gives up exactly
  the chunk named.
\<close>

datatype 'r alloc_op = Reserve 'r | Release nat

fun alloc_run :: "('r \<Rightarrow> 's \<Rightarrow> (nat \<times> 's) option) \<Rightarrow> (nat \<Rightarrow> 's \<Rightarrow> 's option) \<Rightarrow> 'r alloc_op list \<Rightarrow> 's \<Rightarrow> 's" where
  "alloc_run reserve release [] s = s"
| "alloc_run reserve release (Reserve r # ops) s =
     alloc_run reserve release ops (case reserve r s of None \<Rightarrow> s | Some (h, t) \<Rightarrow> t)"
| "alloc_run reserve release (Release h # ops) s =
     alloc_run reserve release ops (case release h s of None \<Rightarrow> s | Some t \<Rightarrow> t)"

locale range_allocator =
  fixes inv :: "nat \<Rightarrow> nat \<Rightarrow> 's \<Rightarrow> bool"
    and held :: "'s \<Rightarrow> 'a chunk_scheme list"
    and free :: "'s \<Rightarrow> 'a chunk_scheme list"
    and reserve :: "'r \<Rightarrow> 's \<Rightarrow> (nat \<times> 's) option"
    and release :: "nat \<Rightarrow> 's \<Rightarrow> 's option"
  assumes inv_divided: "inv base len s \<Longrightarrow> divided base len (free s) (held s)"
    and inv_distinct: "inv base len s \<Longrightarrow> distinct (map ch_id (held s))"
    and reserve_inv: "inv base len s \<Longrightarrow> reserve r s = Some (h, t) \<Longrightarrow> inv base len t"
    and release_inv: "inv base len s \<Longrightarrow> release h s = Some t \<Longrightarrow> inv base len t"
begin

lemma run_inv: "inv base len s \<Longrightarrow> inv base len (alloc_run reserve release ops s)"
proof (induction ops arbitrary: s)
  case Nil
  then show ?case by simp
next
  case (Cons x ops)
  then show ?case
    by (cases x) (auto split: option.splits intro: reserve_inv release_inv)
qed

lemma held_disjoint:
  assumes "inv base len s" "c \<in> set (held s)" "d \<in> set (held s)" "ch_id c \<noteq> ch_id d"
  shows "covers x c + covers x d \<le> 1"
proof -
  have "d \<in> set (remove1 c (held s))" using assms(3,4) by (metis in_set_remove1)
  then have "covers x d \<le> cover (remove1 c (held s)) x" by (rule cover_ge)
  with cover_remove1 [OF assms(2), of x] dividedD(3) [OF inv_divided [OF assms(1)], of x]
  show ?thesis by linarith
qed

lemma run_held_disjoint:
  assumes "inv base len s" "c \<in> set (held (alloc_run reserve release ops s))"
    "d \<in> set (held (alloc_run reserve release ops s))" "ch_id c \<noteq> ch_id d"
  shows "{lo c..<hi c} \<inter> {lo d..<hi d} = {}"
proof (rule equals0I)
  fix x assume "x \<in> {lo c..<hi c} \<inter> {lo d..<hi d}"
  then show False
    using held_disjoint [OF run_inv [OF assms(1)] assms(2-4), of x] by (simp add: covers_def)
qed

end

text \<open>An allocator that hands out no empty chunk: two chunks then lie apart as ranges.\<close>

locale nonempty_allocator = range_allocator +
  assumes inv_held: "inv base len s \<Longrightarrow> c \<in> set (held s) \<Longrightarrow> lo c < hi c"
begin

lemma run_held_apart:
  assumes "inv base len s" "c \<in> set (held (alloc_run reserve release ops s))"
    "d \<in> set (held (alloc_run reserve release ops s))" "ch_id c \<noteq> ch_id d"
  shows "hi c \<le> lo d \<or> hi d \<le> lo c"
  using apart [OF _ _ refl refl] held_disjoint [OF run_inv [OF assms(1)] assms(2-4)]
    inv_held [OF run_inv [OF assms(1)]] assms(2,3) by metis

lemma run_held_inside:
  assumes "inv base len s" "c \<in> set (held (alloc_run reserve release ops s))"
  shows "base \<le> lo c \<and> hi c \<le> base + len"
  using member_inside [OF inv_divided [OF run_inv [OF assms(1)]] assms(2)]
    inv_held [OF run_inv [OF assms(1)] assms(2)] by blast

end

end
