(* ===== verification/Mem_Manager.thy ===== *)
theory Mem_Manager
  imports Chunks
begin

text \<open>
  The memory manager of the ADSP driver, \<open>drivers/platform/tegra/nvadsp/mem_manager.c\<close>: a region cut
  into allocated and free chunks, best-fit requests, and releases that join neighbours. The result
  of each \<open>kzalloc\<close> is an argument (\<open>None\<close> when it fails). The lock makes each operation one step.
  Printing is left out. A handle that is not an allocated chunk is outside the contract (\<open>None\<close>).
\<close>

abbreviation (input) NAME_SIZE :: nat where "NAME_SIZE \<equiv> 16"

record mem_chunk = chunk +
  mc_name :: string

record mem_manager_info =
  alloc_list :: "mem_chunk list"
  free_list :: "mem_chunk list"
  mm_name :: string
  start_address :: u64
  mm_size :: u64

definition strscpy :: "string \<Rightarrow> nat \<Rightarrow> string" where
  "strscpy src n = take (n - 1) src"

fun best_match :: "u64 \<Rightarrow> mem_chunk option \<Rightarrow> mem_chunk list \<Rightarrow> mem_chunk option" where
  "best_match sz best [] = best"
| "best_match sz best (mc # mcs) =
     best_match sz
       (if ch_size mc \<ge> sz
        then (case best of None \<Rightarrow> Some mc | Some b \<Rightarrow> if ch_size mc < ch_size b then Some mc else best)
        else best) mcs"

text \<open>Before the first chunk of a greater address, if there is one.\<close>

fun insert_below :: "mem_chunk \<Rightarrow> mem_chunk list \<Rightarrow> mem_chunk list option" where
  "insert_below c [] = None"
| "insert_below c (mc # mcs) =
     (if ch_addr c < ch_addr mc then Some (c # mc # mcs)
      else map_option ((#) mc) (insert_below c mcs))"

definition mem_request ::
  "nat option \<Rightarrow> string \<Rightarrow> u64 \<Rightarrow> mem_manager_info \<Rightarrow> (int + nat) \<times> mem_manager_info" where
  "mem_request kz name sz mm =
     (if free_list mm = [] then (Inl (- ENOMEM), mm)
      else case best_match sz None (free_list mm) of
        None \<Rightarrow> (Inl (- ENOMEM), mm)
      | Some best \<Rightarrow>
          if ch_size best = sz then
            let fr = list_del (ch_id best) (free_list mm);
                best = best\<lparr>mc_name := strscpy name NAME_SIZE\<rparr>;
                al = (case insert_below best (alloc_list mm) of
                        Some l \<Rightarrow> l | None \<Rightarrow> best # alloc_list mm)
            in (Inr (ch_id best), mm\<lparr>free_list := fr, alloc_list := al\<rparr>)
          else case kz of
            None \<Rightarrow> (Inl (- ENOMEM), mm)
          | Some p \<Rightarrow>
              let new = \<lparr>ch_id = p, ch_addr = ch_addr best, ch_size = sz,
                         mc_name = strscpy name NAME_SIZE\<rparr>;
                  fr = update_at (ch_id best)
                         (\<lambda>c. c\<lparr>ch_addr := ch_addr c + sz, ch_size := ch_size c - sz\<rparr>) (free_list mm);
                  al = (case insert_below new (alloc_list mm) of
                          Some l \<Rightarrow> l | None \<Rightarrow> alloc_list mm @ [new])
              in (Inr p, mm\<lparr>free_list := fr, alloc_list := al\<rparr>))"

text \<open>The walk over the free list; \<open>before\<close> are the chunks passed, the last one is \<open>mc_prev\<close>.\<close>

fun release_walk :: "mem_chunk \<Rightarrow> mem_chunk list \<Rightarrow> mem_chunk list \<Rightarrow> mem_chunk list option" where
  "release_walk f before [] = None"
| "release_walk f before (cur # after) =
     (if ch_addr f < ch_addr cur then
        let f = f\<lparr>mc_name := strscpy ''FREE'' NAME_SIZE\<rparr>
        in Some
          (if ch_addr cur = ch_addr f + ch_size f then
             let cur = cur\<lparr>ch_addr := ch_addr f, ch_size := ch_size cur + ch_size f\<rparr>
             in if before \<noteq> [] \<and> ch_addr (last before) + ch_size (last before) = ch_addr cur
                then butlast before @
                     (last before)\<lparr>ch_size := ch_size (last before) + ch_size cur\<rparr> # after
                else before @ cur # after
           else if before \<noteq> [] \<and> ch_addr (last before) + ch_size (last before) = ch_addr f
           then butlast before @
                (last before)\<lparr>ch_size := ch_size (last before) + ch_size f\<rparr> # cur # after
           else before @ f # cur # after)
      else release_walk f (before @ [cur]) after)"

definition mem_release :: "nat \<Rightarrow> mem_manager_info \<Rightarrow> (bool \<times> mem_manager_info) option" where
  "mem_release handle mm =
     (case find_chunk handle (alloc_list mm) of
        None \<Rightarrow> None
      | Some f \<Rightarrow> Some
          (case release_walk f [] (free_list mm) of
             None \<Rightarrow> (False, mm)
           | Some fr \<Rightarrow> (True, mm\<lparr>free_list := fr, alloc_list := list_del handle (alloc_list mm)\<rparr>)))"

definition mem_get_address :: "mem_chunk \<Rightarrow> u64" where
  "mem_get_address mc = ch_addr mc"

fun clear_chunks :: "mem_chunk list \<Rightarrow> mem_manager_info \<Rightarrow> mem_manager_info option" where
  "clear_chunks [] mm = Some mm"
| "clear_chunks (mc # mcs) mm =
     (case mem_release (ch_id mc) mm of None \<Rightarrow> None | Some (_, mm) \<Rightarrow> clear_chunks mcs mm)"

definition clear_alloc_list :: "mem_manager_info \<Rightarrow> mem_manager_info option" where
  "clear_alloc_list mm = clear_chunks (alloc_list mm) mm"

definition create_mem_manager ::
  "bool \<times> bool \<times> bool \<times> nat option \<Rightarrow> string \<Rightarrow> u64 \<Rightarrow> u64 \<Rightarrow> int + mem_manager_info" where
  "create_mem_manager kz name start sz =
     (case kz of (info_ok, alloc_ok, free_ok, chunk) \<Rightarrow>
        if \<not> info_ok then Inl (- ENOMEM)
        else if \<not> alloc_ok then Inl (- ENOMEM)
        else if \<not> free_ok then Inl (- ENOMEM)
        else case chunk of
          None \<Rightarrow> Inl (- ENOMEM)
        | Some p \<Rightarrow> Inr \<lparr>alloc_list = [],
            free_list = [\<lparr>ch_id = p, ch_addr = start, ch_size = sz, mc_name = strscpy ''FREE'' NAME_SIZE\<rparr>],
            mm_name = strscpy name NAME_SIZE, start_address = start, mm_size = sz\<rparr>)"

text \<open>
  The structures that are not given back to the kernel; \<open>None\<close> when the free list is empty, for then
  the list head itself is taken for a chunk and freed.
\<close>

definition destroy_mem_manager :: "mem_manager_info \<Rightarrow> mem_chunk list option" where
  "destroy_mem_manager mm =
     (case clear_alloc_list mm of
        None \<Rightarrow> None
      | Some mm \<Rightarrow>
          (case free_list mm of [] \<Rightarrow> None | mc_last # rest \<Rightarrow> Some (rest @ alloc_list mm)))"

subsection \<open>Best fit\<close>

lemma best_match_mem: "best_match sz best cs = Some b \<Longrightarrow> best = Some b \<or> b \<in> set cs \<and> ch_size b \<ge> sz"
  by (induction cs arbitrary: best) (auto split: if_splits option.splits)

lemma best_match_least:
  "best_match sz best cs = Some b \<Longrightarrow>
    (\<forall>c\<in>set cs. ch_size c \<ge> sz \<longrightarrow> ch_size b \<le> ch_size c) \<and> (\<forall>d. best = Some d \<longrightarrow> ch_size b \<le> ch_size d)"
proof (induction cs arbitrary: best)
  case (Cons c cs)
  from Cons.IH [OF Cons.prems [unfolded best_match.simps]] show ?case
    by (auto split: if_splits option.splits)
qed simp

lemma best_match_None: "best_match sz best cs = None \<longleftrightarrow> best = None \<and> (\<forall>c\<in>set cs. \<not> ch_size c \<ge> sz)"
  by (induction cs arbitrary: best) (auto split: if_splits option.splits)

subsection \<open>The invariant\<close>

definition mm_inv :: "nat \<Rightarrow> nat \<Rightarrow> mem_manager_info \<Rightarrow> bool" where
  "mm_inv base len mm \<longleftrightarrow> divided base len (free_list mm) (alloc_list mm) \<and> coalesced (free_list mm)
     \<and> (\<forall>c\<in>set (alloc_list mm). lo c < hi c)
     \<and> distinct (map ch_id (free_list mm @ alloc_list mm))"

lemma release_walk_step:
  "release_walk f before (cur # after) =
     (if ch_addr f < ch_addr cur
      then Some (put_between (f\<lparr>mc_name := strscpy ''FREE'' NAME_SIZE\<rparr>) before cur after)
      else release_walk f (before @ [cur]) after)"
  by (simp add: put_between_def Let_def)

declare release_walk.simps(2) [simp del]
declare release_walk_step [simp]

lemma lo_name [simp]: "lo (c\<lparr>mc_name := n\<rparr>) = lo c" "hi (c\<lparr>mc_name := n\<rparr>) = hi c"
  "covers x (c\<lparr>mc_name := n\<rparr>) = covers x c"
  by (simp_all add: lo_def hi_def covers_def)

lemma release_walk_ok:
  assumes "release_walk f before after = Some fr" "coalesced (before @ after)" "lo f < hi f"
    and "\<forall>c\<in>set (before @ after). hi c \<le> lo f \<or> hi f \<le> lo c"
    and "\<forall>c\<in>set (before @ after). hi c < 2 ^ 64" "\<forall>b\<in>set before. hi b \<le> lo f"
    and "distinct (map ch_id (before @ after))" "ch_id f \<notin> ch_id ` set (before @ after)"
  shows "coalesced fr \<and> (\<forall>x. cover fr x = covers x f + cover (before @ after) x)
    \<and> distinct (map ch_id fr) \<and> ch_id ` set fr \<subseteq> insert (ch_id f) (ch_id ` set (before @ after))"
  using assms
proof (induction after arbitrary: before)
  case Nil
  then show ?case by simp
next
  case (Cons c after)
  show ?case
  proof (cases "ch_addr f < ch_addr c")
    case True
    let ?f = "f\<lparr>mc_name := strscpy ''FREE'' NAME_SIZE\<rparr>"
    have fr: "fr = put_between ?f before c after" using Cons.prems(1) True by simp
    have "lo f < lo c" using True by (simp add: lo_def word_less_nat_alt)
    moreover have "hi c \<le> lo f \<or> hi f \<le> lo c" using Cons.prems(4) by simp
    moreover have "lo c < hi c" using Cons.prems(2) by (simp add: coalesced_def)
    ultimately have "hi f \<le> lo c" by linarith
    then show ?thesis
      using put_between_ok [OF Cons.prems(2), of ?f] put_between_ids [OF Cons.prems(7), of ?f] Cons.prems
      unfolding fr by simp
  next
    case False
    then have "lo c \<le> lo f" by (simp add: lo_def word_less_nat_alt)
    moreover have "hi c \<le> lo f \<or> hi f \<le> lo c" using Cons.prems(4) by simp
    ultimately have "hi c \<le> lo f" using Cons.prems(3) by linarith
    then show ?thesis using Cons.IH [of "before @ [c]"] Cons.prems False by simp
  qed
qed

lemma release_walk_None: "release_walk f before after = None \<longleftrightarrow> (\<forall>c\<in>set after. \<not> ch_addr f < ch_addr c)"
  by (induction after arbitrary: before) auto

lemma insert_below_mset: "insert_below c cs = Some l \<Longrightarrow> mset l = add_mset c (mset cs)"
  by (induction cs arbitrary: l) (auto split: if_splits)

text \<open>What a successful request does, in terms of the chunk it takes from or cuts off.\<close>

definition chunk_fresh :: "nat option \<Rightarrow> mem_manager_info \<Rightarrow> bool" where
  "chunk_fresh kz mm \<longleftrightarrow> (\<forall>p. kz = Some p \<longrightarrow> p \<notin> ch_id ` set (free_list mm @ alloc_list mm))"

lemma request_cases:
  assumes "mem_request kz name sz mm = (Inr h, mm')" "distinct (map ch_id (free_list mm))"
  obtains best new xs ys where "free_list mm = xs @ best # ys" "sz \<le> ch_size best"
    "\<forall>c\<in>set (free_list mm). sz \<le> ch_size c \<longrightarrow> ch_size best \<le> ch_size c"
    "mset (alloc_list mm') = add_mset new (mset (alloc_list mm))" "ch_id new = h"
    "ch_addr new = ch_addr best" "ch_size new = sz"
    "ch_size best = sz \<and> h = ch_id best \<and> free_list mm' = xs @ ys
     \<or> sz < ch_size best \<and> kz = Some h \<and> free_list mm' =
         xs @ best\<lparr>ch_addr := ch_addr best + sz, ch_size := ch_size best - sz\<rparr> # ys"
proof -
  from assms(1) obtain best where b: "best_match sz None (free_list mm) = Some best"
    by (auto simp: mem_request_def split: if_splits option.splits)
  from best_match_mem [OF b] have mem: "best \<in> set (free_list mm)" and le: "sz \<le> ch_size best" by auto
  from best_match_least [OF b]
  have least: "\<forall>c\<in>set (free_list mm). sz \<le> ch_size c \<longrightarrow> ch_size best \<le> ch_size c" by blast
  obtain xs ys where s: "free_list mm = xs @ best # ys" "list_del (ch_id best) (free_list mm) = xs @ ys"
    "\<And>f. update_at (ch_id best) f (free_list mm) = xs @ f best # ys"
    using at_split [OF assms(2) mem] by blast
  have ne: "free_list mm \<noteq> []" using mem by auto
  show ?thesis
  proof (cases "ch_size best = sz")
    case True
    let ?new = "best\<lparr>mc_name := strscpy name NAME_SIZE\<rparr>"
    have "mset (alloc_list mm') = add_mset ?new (mset (alloc_list mm))"
      using assms(1) b ne True
      by (auto simp: mem_request_def Let_def insert_below_mset split: option.splits)
    then show ?thesis
      using assms(1) b ne True s least le
      by (intro that [of xs best ys ?new]) (auto simp: mem_request_def Let_def)
  next
    case False
    then obtain p where p: "kz = Some p" "h = p"
      using assms(1) b ne by (auto simp: mem_request_def Let_def split: option.splits)
    let ?new = "\<lparr>ch_id = p, ch_addr = ch_addr best, ch_size = sz, mc_name = strscpy name NAME_SIZE\<rparr>"
    have "mset (alloc_list mm') = add_mset ?new (mset (alloc_list mm))"
      using assms(1) b ne False p
      by (auto simp: mem_request_def Let_def insert_below_mset split: option.splits)
    then show ?thesis
      using assms(1) b ne False s least le p
      by (intro that [of xs best ys ?new]) (auto simp: mem_request_def Let_def)
  qed
qed

lemma new_range: "ch_addr new = ch_addr best \<Longrightarrow> lo new = lo best"
  "ch_addr new = ch_addr best \<Longrightarrow> hi new = lo best + unat (ch_size new)"
  by (simp_all add: lo_def hi_def)

lemma request_inv:
  assumes inv: "mm_inv base len mm" and "chunk_fresh kz mm" "0 < sz"
    and req: "mem_request kz name sz mm = (Inr h, mm')"
  shows "mm_inv base len mm'"
proof -
  have dist: "distinct (map ch_id (free_list mm))" using inv by (simp add: mm_inv_def)
  obtain best new xs ys where r: "free_list mm = xs @ best # ys" "sz \<le> ch_size best"
    and "\<forall>c\<in>set (free_list mm). sz \<le> ch_size c \<longrightarrow> ch_size best \<le> ch_size c"
    and r3: "mset (alloc_list mm') = add_mset new (mset (alloc_list mm))" "ch_id new = h"
    "ch_addr new = ch_addr best" "ch_size new = sz"
    and alt: "ch_size best = sz \<and> h = ch_id best \<and> free_list mm' = xs @ ys
     \<or> sz < ch_size best \<and> kz = Some h \<and> free_list mm' =
         xs @ best\<lparr>ch_addr := ch_addr best + sz, ch_size := ch_size best - sz\<rparr> # ys"
    by (rule request_cases [OF req dist])
  note r = r r3
  have co: "coalesced (xs @ best # ys)" using inv r(1) by (simp add: mm_inv_def)
  have div: "divided base len (free_list mm) (alloc_list mm)" using inv by (simp add: mm_inv_def)
  have lim: "hi best < 2 ^ 64"
  proof (rule free_inside(3) [OF div])
    show "best \<in> set (free_list mm)" using r(1) by simp
    show "lo best < hi best" using co by (simp add: coalesced_append)
  qed
  have nr: "lo new = lo best" "hi new = lo best + unat sz"
    using new_range [OF r(5)] r(6) by simp_all
  have new: "lo new < hi new" using assms(3) nr by (simp add: word_less_nat_alt)
  have al: "set (alloc_list mm') = insert new (set (alloc_list mm))"
    using r(3) by (metis set_mset_add_mset_insert set_mset_mset)
  have cal: "cover (alloc_list mm') x = covers x new + cover (alloc_list mm) x" for x
    using cover_mset [of "alloc_list mm'" "new # alloc_list mm"] r(3) by simp
  have dal: "distinct (map ch_id (alloc_list mm')) \<longleftrightarrow> distinct (map ch_id (new # alloc_list mm))"
    using r(3) by (metis mset.simps(2) mset_eq_imp_distinct_iff mset_map)
  from alt show ?thesis
  proof (elim disjE conjE)
    assume e: "ch_size best = sz" "h = ch_id best" "free_list mm' = xs @ ys"
    have same: "covers x new = covers x best" for x
      using e(1) r(5,6) by (simp add: covers_def lo_def hi_def)
    have "divided base len (free_list mm') (alloc_list mm')"
      by (rule divided_cong [OF div]) (simp add: e(3) r(1) cal same)
    moreover have "coalesced (free_list mm')" using coalesced_del [OF co] e(3) by simp
    moreover have "distinct (map ch_id (free_list mm' @ alloc_list mm'))"
      using inv dal e r(1,4) al by (auto simp: mm_inv_def)
    ultimately show ?thesis using inv new al by (simp add: mm_inv_def)
  next
    assume s: "sz < ch_size best" "kz = Some h"
      "free_list mm' = xs @ best\<lparr>ch_addr := ch_addr best + sz, ch_size := ch_size best - sz\<rparr> # ys"
    let ?rest = "best\<lparr>ch_addr := ch_addr best + sz, ch_size := ch_size best - sz\<rparr>"
    have rest: "lo ?rest = lo best + unat sz" "hi ?rest = hi best"
      using split_chunk [OF lim] s(1) by (simp_all add: word_less_nat_alt)
    have lt: "lo ?rest < hi ?rest" using rest s(1) by (simp add: hi_def lo_def word_less_nat_alt)
    have hn: "hi new = lo ?rest" "lo new = lo best" using nr rest by simp_all
    have sum: "covers x best = covers x new + covers x ?rest" for x
      using hn rest new lt by (intro covers_join) auto
    have "divided base len (free_list mm') (alloc_list mm')"
      by (rule divided_cong [OF div]) (simp add: s(3) r(1) cal sum)
    moreover have "coalesced (free_list mm')"
      unfolding s(3) by (rule coalesced_shrink [OF co _ lt rest(2)]) (simp add: rest(1))
    moreover have "distinct (map ch_id (free_list mm' @ alloc_list mm'))"
      using inv dal s(2,3) r(1,4) al assms(2) by (auto simp: mm_inv_def chunk_fresh_def)
    ultimately show ?thesis using inv new al by (simp add: mm_inv_def)
  qed
qed

lemma release_inv:
  assumes inv: "mm_inv base len mm" and rel: "mem_release h mm = Some (ok, mm')"
  shows "mm_inv base len mm' \<and> (\<not> ok \<longrightarrow> mm' = mm)
    \<and> (ok \<longrightarrow> alloc_list mm' = list_del h (alloc_list mm))"
proof -
  obtain f where f: "find_chunk h (alloc_list mm) = Some f"
    using rel by (auto simp: mem_release_def split: option.splits)
  from find_chunk_Some [OF f] have mem: "f \<in> set (alloc_list mm)" and id: "ch_id f = h" by auto
  show ?thesis
  proof (cases "release_walk f [] (free_list mm)")
    case None
    with rel f inv show ?thesis by (simp add: mem_release_def)
  next
    case (Some fr)
    with rel f have mm': "mm' = mm\<lparr>free_list := fr, alloc_list := list_del h (alloc_list mm)\<rparr>" and ok
      by (simp_all add: mem_release_def)
    have div: "divided base len (free_list mm) (alloc_list mm)" and co: "coalesced (free_list mm)"
      and dist: "distinct (map ch_id (free_list mm @ alloc_list mm))" and fl: "lo f < hi f"
      using inv mem by (simp_all add: mm_inv_def)
    have ne: "\<forall>c\<in>set (free_list mm). lo c < hi c" using co by (simp add: coalesced_def)
    have ap: "\<forall>c\<in>set (free_list mm). hi c \<le> lo f \<or> hi f \<le> lo c"
      using free_held_apart [OF div _ mem _ fl] ne by blast
    have lim: "\<forall>c\<in>set (free_list mm). hi c < 2 ^ 64"
      using free_inside(3) [OF div] ne by blast
    have fresh: "ch_id f \<notin> ch_id ` set (free_list mm)"
      using dist mem by auto
    have d1: "distinct (map ch_id (free_list mm))" using dist by simp
    from release_walk_ok [OF Some, simplified, OF co fl ap lim[simplified] d1 fresh]
    have w: "coalesced fr" "\<And>x. cover fr x = covers x f + cover (free_list mm) x"
      "distinct (map ch_id fr)" "ch_id ` set fr \<subseteq> insert h (ch_id ` set (free_list mm))"
      using id by auto
    obtain xs ys where al: "alloc_list mm = xs @ f # ys" "list_del h (alloc_list mm) = xs @ ys"
      using at_split [OF _ mem] dist id by (metis distinct_append map_append)
    have "divided base len fr (xs @ ys)"
      by (rule divided_cong [OF div]) (simp add: w(2) al(1))
    moreover have "distinct (map ch_id (fr @ xs @ ys))"
    proof -
      have "h \<notin> ch_id ` set (xs @ ys)" "distinct (map ch_id (xs @ ys))"
        "ch_id ` set (free_list mm) \<inter> ch_id ` set (xs @ ys) = {}"
        using dist al(1) id by auto
      then show ?thesis
        using distinct_ids_append [OF w(3) _ subset_insert_disjoint [OF w(4)]] by blast
    qed
    ultimately show ?thesis
      using inv w(1) al mm' \<open>ok\<close> by (simp add: mm_inv_def)
  qed
qed

subsection \<open>The allocator contract, requests of size 0 included\<close>

text \<open>
  An empty chunk is put on the free list where it lies, possibly inside a free chunk, so the order
  of \<open>mm_inv\<close> is lost. What remains for all requests is that every address of the region is held by
  one chunk and that all chunks stay inside.
\<close>

definition mm_sound :: "nat \<Rightarrow> nat \<Rightarrow> mem_manager_info \<Rightarrow> bool" where
  "mm_sound base len mm \<longleftrightarrow> divided base len (free_list mm) (alloc_list mm)
     \<and> (\<forall>c\<in>set (free_list mm @ alloc_list mm). base \<le> lo c \<and> hi c \<le> base + len)
     \<and> distinct (map ch_id (free_list mm @ alloc_list mm))"

lemma release_walk_sound:
  assumes "release_walk f before after = Some fr" "fin < 2 ^ 64"
    and "\<forall>c\<in>set (f # before @ after). base \<le> lo c \<and> hi c \<le> fin"
    and "distinct (map ch_id (before @ after))" "ch_id f \<notin> ch_id ` set (before @ after)"
  shows "(\<forall>x. cover fr x = covers x f + cover (before @ after) x)
    \<and> (\<forall>c\<in>set fr. base \<le> lo c \<and> hi c \<le> fin)
    \<and> distinct (map ch_id fr) \<and> ch_id ` set fr \<subseteq> insert (ch_id f) (ch_id ` set (before @ after))"
  using assms
proof (induction after arbitrary: before)
  case Nil
  then show ?case by simp
next
  case (Cons c after)
  show ?case
  proof (cases "ch_addr f < ch_addr c")
    case True
    let ?f = "f\<lparr>mc_name := strscpy ''FREE'' NAME_SIZE\<rparr>"
    have fr: "fr = put_between ?f before c after" using Cons.prems(1) True by simp
    have "\<forall>d\<in>set (?f # before @ c # after). base \<le> lo d \<and> hi d \<le> fin" using Cons.prems(3) by simp
    from put_between_sound [OF this Cons.prems(2)] put_between_ids [OF Cons.prems(4), of ?f] Cons.prems(5)
    show ?thesis unfolding fr by simp
  next
    case False
    then show ?thesis using Cons.IH [of "before @ [c]"] Cons.prems by simp
  qed
qed

lemma request_sound:
  assumes inv: "mm_sound base len mm" and "chunk_fresh kz mm"
    and req: "mem_request kz name sz mm = (Inr h, mm')"
  shows "mm_sound base len mm'"
proof -
  have dist: "distinct (map ch_id (free_list mm))" using inv by (simp add: mm_sound_def)
  obtain best new xs ys where r: "free_list mm = xs @ best # ys" "sz \<le> ch_size best"
    and "\<forall>c\<in>set (free_list mm). sz \<le> ch_size c \<longrightarrow> ch_size best \<le> ch_size c"
    and r3: "mset (alloc_list mm') = add_mset new (mset (alloc_list mm))" "ch_id new = h"
    "ch_addr new = ch_addr best" "ch_size new = sz"
    and alt: "ch_size best = sz \<and> h = ch_id best \<and> free_list mm' = xs @ ys
     \<or> sz < ch_size best \<and> kz = Some h \<and> free_list mm' =
         xs @ best\<lparr>ch_addr := ch_addr best + sz, ch_size := ch_size best - sz\<rparr> # ys"
    by (rule request_cases [OF req dist])
  note r = r r3
  have div: "divided base len (free_list mm) (alloc_list mm)" using inv by (simp add: mm_sound_def)
  have inb: "base \<le> lo best" "hi best \<le> base + len" using inv r(1) by (simp_all add: mm_sound_def)
  then have lim: "hi best < 2 ^ 64" using dividedD(1) [OF div] by linarith
  have nr: "lo new = lo best" "hi new = lo best + unat sz"
    using new_range [OF r(5)] r(6) by simp_all
  have al: "set (alloc_list mm') = insert new (set (alloc_list mm))"
    using r(3) by (metis set_mset_add_mset_insert set_mset_mset)
  have cal: "cover (alloc_list mm') x = covers x new + cover (alloc_list mm) x" for x
    using cover_mset [of "alloc_list mm'" "new # alloc_list mm"] r(3) by simp
  have dal: "distinct (map ch_id (alloc_list mm')) \<longleftrightarrow> distinct (map ch_id (new # alloc_list mm))"
    using r(3) by (metis mset.simps(2) mset_eq_imp_distinct_iff mset_map)
  from alt show ?thesis
  proof (elim disjE conjE)
    assume e: "ch_size best = sz" "h = ch_id best" "free_list mm' = xs @ ys"
    have same: "covers x new = covers x best" "hi new = hi best" for x
      using e(1) r(5,6) by (simp_all add: covers_def lo_def hi_def)
    have "divided base len (free_list mm') (alloc_list mm')"
      by (rule divided_cong [OF div]) (simp add: e(3) r(1) cal same)
    moreover have "distinct (map ch_id (free_list mm' @ alloc_list mm'))"
      using inv dal e r(1,4) al by (auto simp: mm_sound_def)
    ultimately show ?thesis using inv r(1) e(3) al inb nr(1) same(2) by (auto simp: mm_sound_def)
  next
    assume s: "sz < ch_size best" "kz = Some h"
      "free_list mm' = xs @ best\<lparr>ch_addr := ch_addr best + sz, ch_size := ch_size best - sz\<rparr> # ys"
    let ?rest = "best\<lparr>ch_addr := ch_addr best + sz, ch_size := ch_size best - sz\<rparr>"
    have rest: "lo ?rest = lo best + unat sz" "hi ?rest = hi best"
      using split_chunk [OF lim] s(1) by (simp_all add: word_less_nat_alt)
    have lt: "lo ?rest < hi ?rest" using rest s(1) by (simp add: hi_def lo_def word_less_nat_alt)
    have hn: "hi new = lo ?rest" "lo new = lo best" using nr rest by simp_all
    have sum: "covers x best = covers x new + covers x ?rest" for x
      using hn rest lt nr by (intro covers_join) auto
    have "divided base len (free_list mm') (alloc_list mm')"
      by (rule divided_cong [OF div]) (simp add: s(3) r(1) cal sum)
    moreover have "distinct (map ch_id (free_list mm' @ alloc_list mm'))"
      using inv dal s(2,3) r(1,4) al assms(2) by (auto simp: mm_sound_def chunk_fresh_def)
    moreover have "base \<le> lo new \<and> hi new \<le> base + len" "base \<le> lo ?rest \<and> hi ?rest \<le> base + len"
      using inb hn rest lt by linarith+
    ultimately show ?thesis using inv r(1) s(3) al by (auto simp: mm_sound_def)
  qed
qed

lemma release_sound:
  assumes inv: "mm_sound base len mm" and rel: "mem_release h mm = Some (ok, mm')"
  shows "mm_sound base len mm'"
proof -
  obtain f where f: "find_chunk h (alloc_list mm) = Some f"
    using rel by (auto simp: mem_release_def split: option.splits)
  from find_chunk_Some [OF f] have mem: "f \<in> set (alloc_list mm)" and id: "ch_id f = h" by auto
  show ?thesis
  proof (cases "release_walk f [] (free_list mm)")
    case None
    with rel f inv show ?thesis by (simp add: mem_release_def)
  next
    case (Some fr)
    with rel f have mm': "mm' = mm\<lparr>free_list := fr, alloc_list := list_del h (alloc_list mm)\<rparr>"
      by (simp add: mem_release_def)
    have div: "divided base len (free_list mm) (alloc_list mm)"
      and dist: "distinct (map ch_id (free_list mm @ alloc_list mm))"
      and inb: "\<forall>c\<in>set (f # [] @ free_list mm). base \<le> lo c \<and> hi c \<le> base + len"
      using inv mem by (simp_all add: mm_sound_def)
    have "distinct (map ch_id ([] @ free_list mm))" "ch_id f \<notin> ch_id ` set ([] @ free_list mm)"
      using dist mem by auto
    from release_walk_sound [OF Some dividedD(1) [OF div] inb this]
    have w: "\<And>x. cover fr x = covers x f + cover (free_list mm) x"
      "\<forall>c\<in>set fr. base \<le> lo c \<and> hi c \<le> base + len"
      "distinct (map ch_id fr)" "ch_id ` set fr \<subseteq> insert h (ch_id ` set (free_list mm))"
      using id by auto
    obtain xs ys where al: "alloc_list mm = xs @ f # ys" "list_del h (alloc_list mm) = xs @ ys"
      using at_split [OF _ mem] dist id by (metis distinct_append map_append)
    have "divided base len fr (xs @ ys)"
      by (rule divided_cong [OF div]) (simp add: w(1) al(1))
    moreover have "distinct (map ch_id (fr @ xs @ ys))"
    proof -
      have "h \<notin> ch_id ` set (xs @ ys)" "distinct (map ch_id (xs @ ys))"
        "ch_id ` set (free_list mm) \<inter> ch_id ` set (xs @ ys) = {}"
        using dist al(1) id by auto
      then show ?thesis
        using distinct_ids_append [OF w(3) _ subset_insert_disjoint [OF w(4)]] by blast
    qed
    ultimately show ?thesis using inv w(2) al mm' by (auto simp: mm_sound_def)
  qed
qed

text \<open>What a request does, exactly.\<close>

lemma best_match_exact:
  assumes "best_match sz None cs = Some b" "c \<in> set cs" "ch_size c = sz"
  shows "ch_size b = sz"
proof -
  have "sz \<le> ch_size b" using best_match_mem [OF assms(1)] by auto
  moreover have "ch_size b \<le> ch_size c" using best_match_least [OF assms(1)] assms(2,3) by auto
  ultimately show ?thesis using assms(3) by simp
qed

lemma request_best_fit:
  assumes "mm_sound base len mm" "chunk_fresh kz mm"
  shows "(case mem_request kz name sz mm of
      (Inl e, mm') \<Rightarrow> e = - ENOMEM \<and> mm' = mm
        \<and> ((\<forall>c\<in>set (free_list mm). ch_size c < sz) \<or> kz = None \<and> (\<forall>c\<in>set (free_list mm). ch_size c \<noteq> sz))
    | (Inr h, mm') \<Rightarrow> \<exists>best\<in>set (free_list mm). sz \<le> ch_size best
        \<and> (\<forall>c\<in>set (free_list mm). sz \<le> ch_size c \<longrightarrow> ch_size best \<le> ch_size c)
        \<and> (ch_size best = sz \<or> kz \<noteq> None)
        \<and> (\<exists>new. mset (alloc_list mm') = add_mset new (mset (alloc_list mm)) \<and> ch_id new = h \<and> ch_size new = sz
             \<and> ch_addr new = ch_addr best
             \<and> (\<forall>x. cover (free_list mm') x + covers x new = cover (free_list mm) x)))"
proof (cases "mem_request kz name sz mm")
  case (Pair r mm')
  show ?thesis
  proof (cases r)
    case (Inl e)
    have "e = - ENOMEM \<and> mm' = mm \<and> (best_match sz None (free_list mm) = None \<or> free_list mm = []
        \<or> kz = None \<and> (\<exists>b. best_match sz None (free_list mm) = Some b \<and> ch_size b \<noteq> sz))"
      using Pair Inl by (auto simp: mem_request_def Let_def split: if_splits option.splits)
    then show ?thesis using Pair Inl best_match_exact [of sz "free_list mm"] by (auto simp: best_match_None not_le)
  next
    case (Inr h)
    have "distinct (map ch_id (free_list mm))" using assms(1) by (simp add: mm_sound_def)
    with Pair Inr obtain best new xs ys where r: "free_list mm = xs @ best # ys" "sz \<le> ch_size best"
      "\<forall>c\<in>set (free_list mm). sz \<le> ch_size c \<longrightarrow> ch_size best \<le> ch_size c"
      "mset (alloc_list mm') = add_mset new (mset (alloc_list mm))" "ch_id new = h"
      "ch_addr new = ch_addr best" "ch_size new = sz"
      "ch_size best = sz \<and> h = ch_id best \<and> free_list mm' = xs @ ys
       \<or> sz < ch_size best \<and> kz = Some h \<and> free_list mm' =
         xs @ best\<lparr>ch_addr := ch_addr best + sz, ch_size := ch_size best - sz\<rparr> # ys"
      by (metis request_cases)
    have dv: "divided base len (free_list mm) (alloc_list mm)" "divided base len (free_list mm') (alloc_list mm')"
      using assms(1) request_sound [OF assms, of name sz h mm'] Pair Inr by (simp_all add: mm_sound_def)
    have "cover (alloc_list mm') x = covers x new + cover (alloc_list mm) x" for x
      using cover_mset [of "alloc_list mm'" "new # alloc_list mm"] r(4) by simp
    then have "cover (free_list mm') x + covers x new = cover (free_list mm) x" for x
      using dividedD(2) [OF dv(1), of x] dividedD(2) [OF dv(2), of x] by simp
    then show ?thesis using r Pair Inr by (auto intro!: exI [of _ new])
  qed
qed

text \<open>A request as a client sees it; \<open>kzalloc\<close> returns a structure that is not in use, or none.\<close>

definition mm_reserve :: "nat option \<times> string \<times> u64 \<Rightarrow> mem_manager_info \<Rightarrow> (nat \<times> mem_manager_info) option" where
  "mm_reserve r mm =
     (case r of (kz, name, sz) \<Rightarrow>
        if chunk_fresh kz mm
        then (case mem_request kz name sz mm of (Inr h, mm') \<Rightarrow> Some (h, mm') | _ \<Rightarrow> None) else None)"

definition mm_release :: "nat \<Rightarrow> mem_manager_info \<Rightarrow> mem_manager_info option" where
  "mm_release h mm = map_option snd (mem_release h mm)"

interpretation mem_manager: range_allocator mm_sound alloc_list free_list mm_reserve mm_release
proof
  show "divided base len (free_list s) (alloc_list s)" if "mm_sound base len s" for base len s
    using that by (simp add: mm_sound_def)
  show "distinct (map ch_id (alloc_list s))" if "mm_sound base len s" for base len s
    using that by (simp add: mm_sound_def)
  show "mm_sound base len t" if "mm_sound base len s" "mm_reserve r s = Some (h, t)" for base len s r h t
    using that by (auto simp: mm_reserve_def split: prod.splits if_splits sum.splits intro: request_sound)
  show "mm_sound base len t" if "mm_sound base len s" "mm_release h s = Some t" for base len s h t
    using that release_sound by (auto simp: mm_release_def)
qed

lemma create_sound:
  assumes "create_mem_manager kz name start sz = Inr mm" "unat start + unat sz < 2 ^ 64"
  shows "mm_sound (unat start) (unat sz) mm"
  using assms
  by (auto simp: create_mem_manager_def mm_sound_def divided_def lo_def hi_def covers_def
    split: prod.splits if_splits option.splits)

lemma create_inv:
  assumes "create_mem_manager kz name start sz = Inr mm" "0 < sz" "unat start + unat sz < 2 ^ 64"
  shows "mm_inv (unat start) (unat sz) mm"
  using assms
  by (auto simp: create_mem_manager_def mm_inv_def divided_def coalesced_def lo_def hi_def covers_def
    word_less_nat_alt split: prod.splits if_splits option.splits)

lemma release_result:
  assumes "mm_inv base len mm" "f \<in> set (alloc_list mm)"
  shows "\<exists>mm'. mem_release (ch_id f) mm = Some (\<exists>c\<in>set (free_list mm). lo f < lo c, mm')
    \<and> alloc_list mm' = (if \<exists>c\<in>set (free_list mm). lo f < lo c
        then list_del (ch_id f) (alloc_list mm) else alloc_list mm)"
proof -
  have "find_chunk (ch_id f) (alloc_list mm) = Some f"
    using assms by (intro find_chunk_mem) (auto simp: mm_inv_def)
  then show ?thesis
    using release_walk_None [of f "[]" "free_list mm"]
    by (cases "release_walk f [] (free_list mm)")
       (auto simp: mem_release_def lo_def word_less_nat_alt)
qed

text \<open>As long as the top of the region is free, every chunk can be released.\<close>

lemma cover_list_del: "cover (list_del p cs) x \<le> cover cs x"
  by (induction cs) auto

lemma clear_chunks_ok:
  assumes "mm_inv base len mm" "0 < len" "cover (alloc_list mm) (base + len - 1) = 0"
  shows "\<exists>mm'. clear_chunks (alloc_list mm) mm = Some mm' \<and> mm_inv base len mm' \<and> alloc_list mm' = []"
  using assms
proof (induction "alloc_list mm" arbitrary: mm)
  case Nil
  then show ?case by (auto intro: exI [of _ mm])
next
  case (Cons f rest)
  let ?top = "base + len - 1"
  have mem: "f \<in> set (alloc_list mm)" using Cons.hyps(2) by (metis list.set_intros(1))
  note inv = Cons.prems(1) [unfolded mm_inv_def]
  then have fl: "lo f < hi f" and div: "divided base len (free_list mm) (alloc_list mm)" using mem by auto
  have "cover (free_list mm) ?top = 1"
    using dividedD(2) [OF div, of ?top] Cons.prems(2,3) by simp
  then obtain c where c: "c \<in> set (free_list mm)" "lo c \<le> ?top" "?top < hi c"
    using cover_pos [of "free_list mm" ?top] by auto
  have ne: "lo c < hi c" using c by linarith
  have "hi f \<le> base + len" by (rule member_inside(2) [OF div mem fl])
  with free_held_apart [OF div c(1) mem ne fl] c have "lo f < lo c" using fl by linarith
  with c(1) have above: "\<exists>c\<in>set (free_list mm). lo f < lo c" by blast
  from release_result [OF Cons.prems(1) mem] above obtain mm' where r:
    "mem_release (ch_id f) mm = Some (True, mm')"
    "alloc_list mm' = list_del (ch_id f) (alloc_list mm)" by (simp only: if_True simp_thms) blast
  have "distinct (map ch_id (f # rest))" using inv Cons.hyps(2) by simp
  then have al: "alloc_list mm' = rest" using r(2) Cons.hyps(2) [symmetric] by (simp add: list_del_other)
  have inv': "mm_inv base len mm'" using release_inv [OF Cons.prems(1) r(1)] by simp
  have "cover (alloc_list mm') ?top = 0" using Cons.prems(3) r(2) cover_list_del by (metis le_zero_eq)
  from Cons.hyps(1) [OF al [symmetric] inv' Cons.prems(2) this] al r(1) show ?case
    by (simp add: Cons.hyps(2) [symmetric])
qed

subsection \<open>Properties\<close>

definition adsp_mm :: mem_manager_info where
  "adsp_mm = \<lparr>alloc_list = [], free_list = [\<lparr>ch_id = 1, ch_addr = 0x1000, ch_size = 100, mc_name = ''FREE''\<rparr>],
     mm_name = ''aram'', start_address = 0x1000, mm_size = 100\<rparr>"

lemma adsp_mm_create: "create_mem_manager (True, True, True, Some 1) ''aram'' 0x1000 100 = Inr adsp_mm"
  by (simp add: create_mem_manager_def adsp_mm_def strscpy_def)

lemma adsp_mm_inv: "mm_inv 0x1000 100 adsp_mm"
  using create_inv [OF adsp_mm_create] by simp

text \<open>
  C8. Whatever requests, those of size 0 included, and releases of chunks in use follow the creation
  of a manager, no address belongs to two chunks in use, and all lie inside the managed region. The
  region does not reach the top of the 64-bit space, and \<open>kzalloc\<close> returns fresh structures or none.
\<close>

theorem mem_manager_exclusive:
  assumes "create_mem_manager kz name start sz = Inr mm" "unat start + unat sz < 2 ^ 64"
    and "c \<in> set (alloc_list (alloc_run mm_reserve mm_release ops mm))"
    and "d \<in> set (alloc_list (alloc_run mm_reserve mm_release ops mm))" "ch_id c \<noteq> ch_id d"
  shows "{lo c..<hi c} \<inter> {lo d..<hi d} = {} \<and> unat start \<le> lo c \<and> hi c \<le> unat start + unat sz"
  using mem_manager.run_held_disjoint [OF create_sound [OF assms(1,2)] assms(3-5)]
    mem_manager.run_inv [OF create_sound [OF assms(1,2)], of ops] assms(3) by (auto simp: mm_sound_def)

definition adsp_ops :: "(nat option \<times> string \<times> u64) alloc_op list" where
  "adsp_ops = [Reserve (Some 2, ''a'', 10), Reserve (Some 3, ''b'', 20), Release 2, Reserve (Some 4, ''c'', 5)]"

lemma adsp_run: "alloc_list (alloc_run mm_reserve mm_release adsp_ops adsp_mm)
   = [\<lparr>ch_id = 4, ch_addr = 0x1000, ch_size = 5, mc_name = ''c''\<rparr>,
      \<lparr>ch_id = 3, ch_addr = 0x100A, ch_size = 20, mc_name = ''b''\<rparr>]"
  by (simp add: adsp_mm_def adsp_ops_def mm_reserve_def chunk_fresh_def mem_request_def update_at_def
    strscpy_def mm_release_def mem_release_def find_chunk_def put_between_def)

theorem mem_manager_exclusive_witness:
  "{lo \<lparr>ch_id = 4, ch_addr = 0x1000, ch_size = 5, mc_name = ''c''\<rparr> ..<
    hi \<lparr>ch_id = 4, ch_addr = 0x1000, ch_size = 5, mc_name = ''c''\<rparr>}
   \<inter> {lo \<lparr>ch_id = 3, ch_addr = 0x100A, ch_size = 20, mc_name = ''b''\<rparr> ..<
    hi \<lparr>ch_id = 3, ch_addr = 0x100A, ch_size = 20, mc_name = ''b''\<rparr>} = {}"
  using mem_manager_exclusive [where ops = adsp_ops, OF adsp_mm_create,
      of "\<lparr>ch_id = 4, ch_addr = 0x1000, ch_size = 5, mc_name = ''c''\<rparr>"
      "\<lparr>ch_id = 3, ch_addr = 0x100A, ch_size = 20, mc_name = ''b''\<rparr>"]
  by (simp add: adsp_run)

text \<open>
  C37. In every state that requests and releases lead to (those of size 0 included), a request takes the smallest
  sufficient free chunk, gives a chunk of exactly the size asked for at its start, takes these bytes and no other from the free list,
  and keeps all chunks in use; it fails, and then changes nothing, exactly when no free chunk is large enough, or the chunk found is
  larger and the descriptor of the new chunk cannot be allocated. \<open>kzalloc\<close> returns a fresh structure or none.
\<close>

theorem mem_request_best_fit:
  assumes "mm_sound base len mm" "chunk_fresh kz mm"
  shows "(case mem_request kz name sz mm of
      (Inl e, mm') \<Rightarrow> e = - ENOMEM \<and> mm' = mm
        \<and> ((\<forall>c\<in>set (free_list mm). ch_size c < sz) \<or> kz = None \<and> (\<forall>c\<in>set (free_list mm). ch_size c \<noteq> sz))
    | (Inr h, mm') \<Rightarrow> \<exists>best\<in>set (free_list mm). sz \<le> ch_size best
        \<and> (\<forall>c\<in>set (free_list mm). sz \<le> ch_size c \<longrightarrow> ch_size best \<le> ch_size c)
        \<and> (ch_size best = sz \<or> kz \<noteq> None)
        \<and> (\<exists>new. mset (alloc_list mm') = add_mset new (mset (alloc_list mm)) \<and> ch_id new = h \<and> ch_size new = sz
             \<and> ch_addr new = ch_addr best
             \<and> (\<forall>x. cover (free_list mm') x + covers x new = cover (free_list mm) x)))"
  by (rule request_best_fit [OF assms])

theorem mem_request_best_fit_witness:
  "mem_request None ''x'' 200 adsp_mm = (Inl (- ENOMEM), adsp_mm)"
  using mem_request_best_fit [OF create_sound [OF adsp_mm_create], where kz = None and name = "''x''" and sz = 200]
  by (simp add: mem_request_def adsp_mm_def chunk_fresh_def)

text \<open>
  Releasing a chunk in use succeeds exactly when some free chunk lies above it; otherwise the
  manager returns false and the chunk stays allocated for ever.
\<close>

theorem mem_release_result:
  assumes "mm_inv base len mm" "f \<in> set (alloc_list mm)"
  shows "\<exists>mm'. mem_release (ch_id f) mm = Some (\<exists>c\<in>set (free_list mm). lo f < lo c, mm')
    \<and> alloc_list mm' = (if \<exists>c\<in>set (free_list mm). lo f < lo c
        then list_del (ch_id f) (alloc_list mm) else alloc_list mm)"
  by (rule release_result [OF assms])

theorem mem_release_result_witness:
  "\<exists>mm. snd (mem_request None ''x'' 100 adsp_mm) = mm \<and> (\<exists>mm'. mem_release 1 mm = Some (False, mm')
     \<and> alloc_list mm' = alloc_list mm)"
proof -
  let ?mm = "snd (mem_request None ''x'' 100 adsp_mm)"
  have req: "mem_request None ''x'' 100 adsp_mm = (Inr 1, ?mm)"
    by (simp add: mem_request_def adsp_mm_def)
  have inv: "mm_inv 0x1000 100 ?mm"
    by (rule request_inv [OF adsp_mm_inv _ _ req]) (simp_all add: chunk_fresh_def)
  have f: "\<lparr>ch_id = 1, ch_addr = 0x1000, ch_size = 100, mc_name = ''x''\<rparr> \<in> set (alloc_list ?mm)"
    "free_list ?mm = []"
    by (simp_all add: mem_request_def adsp_mm_def strscpy_def)
  from mem_release_result [OF inv f(1)] f(2) show ?thesis by auto
qed

text \<open>
  Destroying a manager gives back every chunk structure and ends with the whole region as one
  free chunk, provided the last address of the region is free.
\<close>

theorem destroy_releases_all:
  assumes "mm_inv base len mm" "0 < len" "c \<in> set (free_list mm)" "hi c = base + len"
  shows "destroy_mem_manager mm = Some []
    \<and> (\<exists>mm' whole. clear_alloc_list mm = Some mm' \<and> free_list mm' = [whole]
         \<and> lo whole = base \<and> hi whole = base + len)"
proof -
  have div: "divided base len (free_list mm) (alloc_list mm)" and "lo c < hi c"
    using assms by (auto simp: mm_inv_def coalesced_def)
  then have "covers (base + len - 1) c = 1" using assms(2,4) by (simp add: covers_def)
  then have "cover (alloc_list mm) (base + len - 1) = 0"
    using cover_ge [OF assms(3), of "base + len - 1"] dividedD(3) [OF div, of "base + len - 1"] by simp
  from clear_chunks_ok [OF assms(1,2) this] obtain mm' where mm':
    "clear_alloc_list mm = Some mm'" "mm_inv base len mm'" "alloc_list mm' = []"
    by (auto simp: clear_alloc_list_def)
  then have "coalesced (free_list mm')" "\<And>x. cover (free_list mm') x = of_bool (base \<le> x \<and> x < base + len)"
    by (auto simp: mm_inv_def divided_def)
  from coalesced_interval [OF this assms(2)] obtain whole where
    "free_list mm' = [whole]" "lo whole = base" "hi whole = base + len" by blast
  with mm' show ?thesis by (simp add: destroy_mem_manager_def)
qed

theorem destroy_releases_all_witness:
  "destroy_mem_manager (snd (mem_request (Some 2) ''x'' 40 adsp_mm)) = Some []"
proof -
  let ?mm = "snd (mem_request (Some 2) ''x'' 40 adsp_mm)"
  have req: "mem_request (Some 2) ''x'' 40 adsp_mm = (Inr 2, ?mm)"
    by (simp add: mem_request_def adsp_mm_def Let_def)
  have inv: "mm_inv 0x1000 100 ?mm"
    by (rule request_inv [OF adsp_mm_inv _ _ req]) (simp_all add: chunk_fresh_def adsp_mm_def)
  have c: "\<lparr>ch_id = 1, ch_addr = 0x1028, ch_size = 60, mc_name = ''FREE''\<rparr> \<in> set (free_list ?mm)"
    by (simp add: mem_request_def adsp_mm_def Let_def update_at_def)
  from destroy_releases_all [OF inv _ c] show ?thesis by (simp add: hi_def)
qed

text \<open>
  Without that it does not: when the whole region was requested as one chunk the release fails,
  the free list stays empty and destroying the manager frees the list head as if it were a chunk.
\<close>

theorem destroy_after_full_request:
  assumes "create_mem_manager kz name start sz = Inr mm"
  shows "\<exists>h mm'. mem_request kz2 name2 sz mm = (Inr h, mm') \<and> mem_release h mm' = Some (False, mm')
    \<and> destroy_mem_manager mm' = None"
proof -
  obtain p where mm: "mm = \<lparr>alloc_list = [],
      free_list = [\<lparr>ch_id = p, ch_addr = start, ch_size = sz, mc_name = strscpy ''FREE'' NAME_SIZE\<rparr>],
      mm_name = strscpy name NAME_SIZE, start_address = start, mm_size = sz\<rparr>"
    using assms by (cases kz) (auto simp: create_mem_manager_def split: if_splits option.splits)
  show ?thesis
    by (simp add: mm mem_request_def mem_release_def find_chunk_def destroy_mem_manager_def
      clear_alloc_list_def)
qed

theorem destroy_after_full_request_witness:
  "\<exists>h mm'. mem_request None ''all'' 100 adsp_mm = (Inr h, mm') \<and> destroy_mem_manager mm' = None"
  using destroy_after_full_request [OF adsp_mm_create] by blast

end
