(* ===== verification/Iova_Mngr.thy ===== *)
theory Iova_Mngr
  imports Chunks
begin

text \<open>
  The IOVA space manager of the chip-to-chip PCIe driver,
  \<open>drivers/misc/nvscic2c-pcie/iova-mngr.c\<close>: a region of I/O virtual addresses cut into reserved and
  free blocks. The result of each \<open>kzalloc\<close> is an argument, the mutex makes each operation one step,
  and a block handle is the pointer to its block. A handle that is not a reserved block is outside
  the contract (\<open>None\<close>). The printing of blocks is modelled only in that it walks both lists.
\<close>

abbreviation (input) NAME_MAX :: nat where "NAME_MAX \<equiv> 255"

text \<open>\<open>lists_ready\<close>: both list heads are allocated and initialised.\<close>

record mngr_ctx =
  ctx_name :: string
  iova_free :: "chunk list"
  iova_reserved :: "chunk list"
  lists_ready :: bool
  base_address :: u64

fun best_free :: "u64 \<Rightarrow> chunk option \<Rightarrow> chunk list \<Rightarrow> chunk option" where
  "best_free sz best [] = best"
| "best_free sz best (cu # rest) =
     (if ch_size cu \<ge> sz
      then (case best of
              None \<Rightarrow> best_free sz (Some cu) rest
            | Some b \<Rightarrow> if ch_size cu < ch_size b then best_free sz (Some cu) rest
                        else best_free sz best rest)
      else best_free sz best rest)"

text \<open>The result is the error number and, on success, the address, the offset and the handle.\<close>

definition iova_mngr_block_reserve ::
  "nat option \<Rightarrow> mngr_ctx option \<Rightarrow> u64 \<Rightarrow> nat option \<Rightarrow> int \<times> (u64 \<times> u64 \<times> nat) option \<times> mngr_ctx option" where
  "iova_mngr_block_reserve kz mngr sz handle =
     (case mngr of
        None \<Rightarrow> (- EINVAL, None, None)
      | Some ctx \<Rightarrow>
        if handle \<noteq> None \<or> sz = 0 then (- EINVAL, None, mngr)
        else if iova_free ctx = [] then (- ENOMEM, None, mngr)
        else case best_free sz None (iova_free ctx) of
          None \<Rightarrow> (- ENOMEM, None, mngr)
        | Some best \<Rightarrow>
            if ch_size best = sz then
              (0, Some (ch_addr best, ch_addr best - base_address ctx, ch_id best),
               Some (ctx\<lparr>iova_free := list_del (ch_id best) (iova_free ctx),
                         iova_reserved := iova_reserved ctx @ [best]\<rparr>))
            else case kz of
              None \<Rightarrow> (- ENOMEM, None, mngr)
            | Some p \<Rightarrow>
                let reserve = \<lparr>ch_id = p, ch_addr = ch_addr best, ch_size = sz\<rparr>
                in (0, Some (ch_addr reserve, ch_addr reserve - base_address ctx, p),
                    Some (ctx\<lparr>iova_free := update_at (ch_id best)
                                (\<lambda>b. b\<lparr>ch_addr := ch_addr b + sz, ch_size := ch_size b - sz\<rparr>) (iova_free ctx),
                              iova_reserved := iova_reserved ctx @ [reserve]\<rparr>)))"

fun release_scan :: "chunk \<Rightarrow> chunk list \<Rightarrow> chunk list \<Rightarrow> chunk list option" where
  "release_scan r before [] = None"
| "release_scan r before (cu # after) =
     (if ch_addr r < ch_addr cu then Some
        (if ch_addr cu = ch_addr r + ch_size r then
           let cu = cu\<lparr>ch_addr := ch_addr r, ch_size := ch_size cu + ch_size r\<rparr>
           in if before \<noteq> [] \<and> ch_addr (last before) + ch_size (last before) = ch_addr cu
              then butlast before @ (last before)\<lparr>ch_size := ch_size (last before) + ch_size cu\<rparr> # after
              else before @ cu # after
         else if before \<noteq> [] \<and> ch_addr (last before) + ch_size (last before) = ch_addr r
         then butlast before @ (last before)\<lparr>ch_size := ch_size (last before) + ch_size r\<rparr> # cu # after
         else before @ r # cu # after)
      else release_scan r (before @ [cu]) after)"

text \<open>The block above every free block, after the loop.\<close>

definition release_last :: "chunk \<Rightarrow> chunk list \<Rightarrow> chunk list" where
  "release_last r fr =
     (if fr \<noteq> [] then
        if ch_addr (last fr) + ch_size (last fr) = ch_addr r
        then butlast fr @ [(last fr)\<lparr>ch_size := ch_size (last fr) + ch_size r\<rparr>]
        else fr @ [r]
      else [r])"

definition iova_mngr_block_release ::
  "mngr_ctx option \<Rightarrow> nat option \<Rightarrow> (int \<times> nat option \<times> mngr_ctx option) option" where
  "iova_mngr_block_release mngr handle =
     (case (mngr, handle) of
        (Some ctx, Some p) \<Rightarrow>
          (case find_chunk p (iova_reserved ctx) of
             None \<Rightarrow> None
           | Some r \<Rightarrow>
               let fr = (case release_scan r [] (iova_free ctx) of
                           Some fr \<Rightarrow> fr | None \<Rightarrow> release_last r (iova_free ctx))
               in Some (0, None, Some (ctx\<lparr>iova_free := fr,
                    iova_reserved := list_del p (iova_reserved ctx)\<rparr>)))
      | _ \<Rightarrow> Some (- EINVAL, handle, mngr))"

fun release_blocks :: "chunk list \<Rightarrow> mngr_ctx \<Rightarrow> mngr_ctx option" where
  "release_blocks [] ctx = Some ctx"
| "release_blocks (b # bs) ctx =
     (case iova_mngr_block_release (Some ctx) (Some (ch_id b)) of
        Some (_, _, Some ctx) \<Rightarrow> release_blocks bs ctx
      | _ \<Rightarrow> None)"

text \<open>
  The blocks whose structures are not freed. A context whose lists are missing makes the walk over
  them dereference a null pointer.
\<close>

definition iova_mngr_deinit :: "mngr_ctx option \<Rightarrow> chunk list option" where
  "iova_mngr_deinit mngr =
     (case mngr of
        None \<Rightarrow> Some []
      | Some ctx \<Rightarrow>
          if \<not> lists_ready ctx then None
          else map_option iova_reserved (release_blocks (iova_reserved ctx) ctx))"

definition iova_mngr_init ::
  "bool \<times> bool \<times> bool \<times> nat option \<Rightarrow> string option \<Rightarrow> u64 \<Rightarrow> u64 \<Rightarrow> mngr_ctx option
     \<Rightarrow> (int \<times> mngr_ctx option) option" where
  "iova_mngr_init kz name base sz handle =
     (case name of None \<Rightarrow> Some (- EINVAL, handle)
      | Some nm \<Rightarrow>
        if base = 0 \<or> sz = 0 \<or> handle \<noteq> None then Some (- EINVAL, handle)
        else case kz of (ctx_ok, free_ok, reserved_ok, block) \<Rightarrow>
          let ctx = \<lparr>ctx_name = [], iova_free = [], iova_reserved = [], lists_ready = False,
                     base_address = 0\<rparr>;
              fail = (\<lambda>e c. map_option (\<lambda>_. (e, handle)) (iova_mngr_deinit c))
          in if \<not> ctx_ok then fail (- ENOMEM) None
             else if \<not> free_ok then fail (- ENOMEM) (Some ctx)
             else if \<not> reserved_ok then fail (- ENOMEM) (Some ctx)
             else if length nm > NAME_MAX - 1 then fail (- EINVAL) (Some ctx)
             else
               let ctx = ctx\<lparr>ctx_name := nm, lists_ready := True, base_address := base\<rparr>
               in case block of
                    None \<Rightarrow> fail (- ENOMEM) (Some ctx)
                  | Some p \<Rightarrow> Some (0, Some (ctx\<lparr>iova_free := [\<lparr>ch_id = p, ch_addr = base, ch_size = sz\<rparr>]\<rparr>)))"

subsection \<open>Reserving\<close>

lemma best_free_mem: "best_free sz best cs = Some b \<Longrightarrow> best = Some b \<or> b \<in> set cs \<and> ch_size b \<ge> sz"
  by (induction cs arbitrary: best) (auto split: if_splits option.splits)

lemma best_free_None: "best_free sz best cs = None \<longleftrightarrow> best = None \<and> (\<forall>c\<in>set cs. \<not> ch_size c \<ge> sz)"
  by (induction cs arbitrary: best) (auto split: if_splits option.splits)

definition iova_inv :: "nat \<Rightarrow> nat \<Rightarrow> mngr_ctx \<Rightarrow> bool" where
  "iova_inv base len ctx \<longleftrightarrow> divided base len (iova_free ctx) (iova_reserved ctx)
     \<and> coalesced (iova_free ctx) \<and> (\<forall>c\<in>set (iova_reserved ctx). lo c < hi c)
     \<and> distinct (map ch_id (iova_free ctx @ iova_reserved ctx))
     \<and> lists_ready ctx \<and> unat (base_address ctx) = base"

definition block_fresh :: "nat option \<Rightarrow> mngr_ctx \<Rightarrow> bool" where
  "block_fresh kz ctx \<longleftrightarrow> (\<forall>p. kz = Some p \<longrightarrow> p \<notin> ch_id ` set (iova_free ctx @ iova_reserved ctx))"

lemma reserve_cases:
  assumes "iova_mngr_block_reserve kz (Some ctx) sz None = (0, Some (a, off, h), Some ctx')"
    and "distinct (map ch_id (iova_free ctx))"
  obtains best xs ys where "iova_free ctx = xs @ best # ys" "sz \<le> ch_size best" "sz \<noteq> 0"
    "a = ch_addr best" "off = a - base_address ctx"
    "iova_reserved ctx' = iova_reserved ctx @ [\<lparr>ch_id = h, ch_addr = a, ch_size = sz\<rparr>]"
    "base_address ctx' = base_address ctx" "lists_ready ctx' = lists_ready ctx" "ctx_name ctx' = ctx_name ctx"
    "ch_size best = sz \<and> h = ch_id best \<and> iova_free ctx' = xs @ ys
     \<or> sz < ch_size best \<and> kz = Some h \<and> iova_free ctx' =
         xs @ best\<lparr>ch_addr := ch_addr best + sz, ch_size := ch_size best - sz\<rparr> # ys"
proof -
  from assms(1) have sz: "sz \<noteq> 0" and ne: "iova_free ctx \<noteq> []"
    by (auto simp: iova_mngr_block_reserve_def split: if_splits)
  with assms(1) obtain best where b: "best_free sz None (iova_free ctx) = Some best"
    by (auto simp: iova_mngr_block_reserve_def split: option.splits)
  from best_free_mem [OF b] have mem: "best \<in> set (iova_free ctx)" and le: "sz \<le> ch_size best" by auto
  obtain xs ys where s: "iova_free ctx = xs @ best # ys" "list_del (ch_id best) (iova_free ctx) = xs @ ys"
    "\<And>f. update_at (ch_id best) f (iova_free ctx) = xs @ f best # ys"
    using at_split [OF assms(2) mem] by blast
  show ?thesis
  proof (cases "ch_size best = sz")
    case True
    with assms(1) b sz ne s le show ?thesis
      by (intro that [of xs best ys]) (auto simp: iova_mngr_block_reserve_def)
  next
    case False
    then obtain p where p: "kz = Some p" "h = p"
      using assms(1) b sz ne by (auto simp: iova_mngr_block_reserve_def Let_def split: option.splits)
    with assms(1) b sz ne s le False show ?thesis
      by (intro that [of xs best ys]) (auto simp: iova_mngr_block_reserve_def Let_def)
  qed
qed

lemma reserve_inv:
  assumes inv: "iova_inv base len ctx" and fresh: "block_fresh kz ctx"
    and res: "iova_mngr_block_reserve kz (Some ctx) sz None = (0, Some (a, off, h), Some ctx')"
  shows "iova_inv base len ctx'"
proof -
  have dist: "distinct (map ch_id (iova_free ctx))" and dall: "distinct (map ch_id (iova_free ctx @ iova_reserved ctx))"
    and div: "divided base len (iova_free ctx) (iova_reserved ctx)"
    using inv by (simp_all add: iova_inv_def)
  obtain best xs ys where r: "iova_free ctx = xs @ best # ys" "sz \<le> ch_size best" "sz \<noteq> 0"
    "a = ch_addr best" "off = a - base_address ctx"
    "iova_reserved ctx' = iova_reserved ctx @ [\<lparr>ch_id = h, ch_addr = a, ch_size = sz\<rparr>]"
    "base_address ctx' = base_address ctx" "lists_ready ctx' = lists_ready ctx" "ctx_name ctx' = ctx_name ctx"
    and alt: "ch_size best = sz \<and> h = ch_id best \<and> iova_free ctx' = xs @ ys
     \<or> sz < ch_size best \<and> kz = Some h \<and> iova_free ctx' =
         xs @ best\<lparr>ch_addr := ch_addr best + sz, ch_size := ch_size best - sz\<rparr> # ys"
    by (rule reserve_cases [OF res dist])
  let ?new = "\<lparr>ch_id = h, ch_addr = a, ch_size = sz\<rparr>"
  have co: "coalesced (xs @ best # ys)" using inv r(1) by (simp add: iova_inv_def)
  have lim: "hi best < 2 ^ 64"
  proof (rule free_inside(3) [OF div])
    show "best \<in> set (iova_free ctx)" using r(1) by simp
    show "lo best < hi best" using co by (simp add: coalesced_append)
  qed
  have nr: "lo ?new = lo best" "hi ?new = lo best + unat sz" using r(4) by (simp_all add: lo_def hi_def)
  have new: "lo ?new < hi ?new" using r(3) nr by (simp add: unat_gt_0)
  have held: "\<forall>c\<in>set (iova_reserved ctx'). lo c < hi c" using inv new r(6) by (simp add: iova_inv_def)
  from alt show ?thesis
  proof (elim disjE conjE)
    assume e: "ch_size best = sz" "h = ch_id best" "iova_free ctx' = xs @ ys"
    have same: "covers x ?new = covers x best" for x
      using e(1) r(4) by (simp add: covers_def lo_def hi_def)
    have "divided base len (iova_free ctx') (iova_reserved ctx')"
      by (rule divided_cong [OF div]) (simp add: e(3) r(1,6) same)
    moreover have "distinct (map ch_id (iova_free ctx' @ iova_reserved ctx'))"
      using dall e r(1,6) by auto
    ultimately show ?thesis using inv held coalesced_del [OF co] e(3) r(7,8) by (simp add: iova_inv_def)
  next
    assume s: "sz < ch_size best" "kz = Some h"
      "iova_free ctx' = xs @ best\<lparr>ch_addr := ch_addr best + sz, ch_size := ch_size best - sz\<rparr> # ys"
    let ?rest = "best\<lparr>ch_addr := ch_addr best + sz, ch_size := ch_size best - sz\<rparr>"
    have rest: "lo ?rest = lo best + unat sz" "hi ?rest = hi best"
      using split_chunk [OF lim] s(1) by (simp_all add: word_less_nat_alt)
    have lt: "lo ?rest < hi ?rest" using rest s(1) by (simp add: hi_def lo_def word_less_nat_alt)
    have sum: "covers x best = covers x ?new + covers x ?rest" for x
      using nr rest new lt by (intro covers_join) auto
    have "divided base len (iova_free ctx') (iova_reserved ctx')"
      by (rule divided_cong [OF div]) (simp add: s(3) r(1,6) sum)
    moreover have "coalesced (iova_free ctx')"
      unfolding s(3) by (rule coalesced_shrink [OF co _ lt rest(2)]) (simp add: rest(1))
    moreover have "distinct (map ch_id (iova_free ctx' @ iova_reserved ctx'))"
      using dall s(2,3) r(1,6) fresh by (auto simp: block_fresh_def)
    ultimately show ?thesis using inv held r(7,8) by (simp add: iova_inv_def)
  qed
qed

subsection \<open>Releasing\<close>

lemma release_scan_step:
  "release_scan r before (cu # after) =
     (if ch_addr r < ch_addr cu then Some (put_between r before cu after)
      else release_scan r (before @ [cu]) after)"
  by (simp add: put_between_def Let_def)

declare release_scan.simps(2) [simp del]
declare release_scan_step [simp]

definition put_back :: "chunk \<Rightarrow> chunk list \<Rightarrow> chunk list" where
  "put_back r fr = (case release_scan r [] fr of Some fr' \<Rightarrow> fr' | None \<Rightarrow> release_last r fr)"

lemma release_last_ok:
  assumes co: "coalesced fr" and r: "lo r < hi r" "hi r < 2 ^ 64" and below: "\<forall>b\<in>set fr. hi b \<le> lo r"
    and ids: "distinct (map ch_id fr)" "ch_id r \<notin> ch_id ` set fr"
  shows "coalesced (release_last r fr) \<and> (\<forall>x. cover (release_last r fr) x = covers x r + cover fr x)
    \<and> distinct (map ch_id (release_last r fr)) \<and> ch_id ` set (release_last r fr) \<subseteq> insert (ch_id r) (ch_id ` set fr)"
proof (cases fr rule: rev_cases)
  case Nil
  with r show ?thesis by (simp add: release_last_def coalesced_Cons)
next
  case (snoc bs p)
  have p: "lo p < hi p" "hi p \<le> lo r" "\<forall>b\<in>set bs. hi b < lo p" "coalesced bs"
    using co below snoc by (auto simp: coalesced_append)
  then have plim: "hi p < 2 ^ 64" using r by linarith
  have far: "\<forall>b\<in>set bs. hi b < lo r" using p by auto
  have e: "ch_addr p + ch_size p = ch_addr r \<longleftrightarrow> hi p = lo r" by (rule end_word [OF plim])
  let ?p = "p\<lparr>ch_size := ch_size p + ch_size r\<rparr>"
  show ?thesis
  proof (cases "hi p = lo r")
    case True
    note j = join_size [OF True r(2)]
    have "covers x ?p = covers x p + covers x r" for x
      using covers_join [OF True _ _ j] p r by simp
    then show ?thesis using True e snoc j p r ids by (auto simp: release_last_def coalesced_append)
  next
    case False
    then have "hi p < lo r" using p(2) by simp
    with False e snoc p r far ids co show ?thesis
      by (auto simp: release_last_def coalesced_append coalesced_Cons)
  qed
qed

lemma release_scan_ok:
  assumes "coalesced (before @ after)" "lo f < hi f"
    and "\<forall>c\<in>set (before @ after). hi c \<le> lo f \<or> hi f \<le> lo c"
    and "\<forall>c\<in>set (before @ after). hi c < 2 ^ 64" "\<forall>b\<in>set before. hi b \<le> lo f"
    and "distinct (map ch_id (before @ after))" "ch_id f \<notin> ch_id ` set (before @ after)"
  shows "case release_scan f before after of
      None \<Rightarrow> \<forall>c\<in>set (before @ after). hi c \<le> lo f
    | Some fr \<Rightarrow> coalesced fr \<and> (\<forall>x. cover fr x = covers x f + cover (before @ after) x)
        \<and> distinct (map ch_id fr) \<and> ch_id ` set fr \<subseteq> insert (ch_id f) (ch_id ` set (before @ after))"
  using assms
proof (induction after arbitrary: before)
  case Nil
  then show ?case by simp
next
  case (Cons c after)
  have sep: "hi c \<le> lo f \<or> hi f \<le> lo c" and c: "lo c < hi c"
    using Cons.prems(1,3) by (auto simp: coalesced_def)
  show ?case
  proof (cases "ch_addr f < ch_addr c")
    case True
    then have "lo f < lo c" by (simp add: lo_def word_less_nat_alt)
    with sep c have "hi f \<le> lo c" by linarith
    then show ?thesis
      using put_between_ok [OF Cons.prems(1), of f] put_between_ids [OF Cons.prems(6), of f] Cons.prems True
      by simp
  next
    case False
    then have "lo c \<le> lo f" by (simp add: lo_def word_less_nat_alt)
    with sep Cons.prems(2) have "hi c \<le> lo f" by linarith
    moreover have "(before @ [c]) @ after = before @ c # after" by simp
    ultimately show ?thesis
      using Cons.IH [of "before @ [c]", unfolded \<open>(before @ [c]) @ after = before @ c # after\<close>] Cons.prems False
      by (simp only: release_scan_step if_False) auto
  qed
qed

lemma put_back_ok:
  assumes "coalesced fr" "lo f < hi f" "hi f < 2 ^ 64" "\<forall>c\<in>set fr. hi c \<le> lo f \<or> hi f \<le> lo c"
    and "\<forall>c\<in>set fr. hi c < 2 ^ 64" "distinct (map ch_id fr)" "ch_id f \<notin> ch_id ` set fr"
  shows "coalesced (put_back f fr) \<and> (\<forall>x. cover (put_back f fr) x = covers x f + cover fr x)
    \<and> distinct (map ch_id (put_back f fr)) \<and> ch_id ` set (put_back f fr) \<subseteq> insert (ch_id f) (ch_id ` set fr)"
  using release_scan_ok [of "[]" fr f] assms release_last_ok [OF assms(1-3) _ assms(6,7)]
  by (cases "release_scan f [] fr") (simp_all add: put_back_def)

lemma release_eq:
  assumes "iova_inv base len ctx" "f \<in> set (iova_reserved ctx)"
  shows "iova_mngr_block_release (Some ctx) (Some (ch_id f)) = Some (0, None,
    Some (ctx\<lparr>iova_free := put_back f (iova_free ctx), iova_reserved := list_del (ch_id f) (iova_reserved ctx)\<rparr>))"
proof -
  have "find_chunk (ch_id f) (iova_reserved ctx) = Some f"
    using assms by (intro find_chunk_mem) (auto simp: iova_inv_def)
  then show ?thesis by (simp add: iova_mngr_block_release_def put_back_def Let_def)
qed

lemma release_keeps_inv:
  assumes inv: "iova_inv base len ctx" and mem: "f \<in> set (iova_reserved ctx)"
  shows "iova_inv base len (ctx\<lparr>iova_free := put_back f (iova_free ctx),
    iova_reserved := list_del (ch_id f) (iova_reserved ctx)\<rparr>)"
proof -
  have div: "divided base len (iova_free ctx) (iova_reserved ctx)" and co: "coalesced (iova_free ctx)"
    and dist: "distinct (map ch_id (iova_free ctx))" "distinct (map ch_id (iova_reserved ctx))"
      "ch_id ` set (iova_free ctx) \<inter> ch_id ` set (iova_reserved ctx) = {}"
    and fl: "lo f < hi f"
    using inv mem by (simp_all add: iova_inv_def)
  have ne: "\<forall>c\<in>set (iova_free ctx). lo c < hi c" using co by (simp add: coalesced_def)
  have ap: "\<forall>c\<in>set (iova_free ctx). hi c \<le> lo f \<or> hi f \<le> lo c"
    using free_held_apart [OF div _ mem _ fl] ne by blast
  have lim: "\<forall>c\<in>set (iova_free ctx). hi c < 2 ^ 64" using free_inside(3) [OF div] ne by blast
  have fresh: "ch_id f \<notin> ch_id ` set (iova_free ctx)" using dist(3) mem by auto
  have flim: "hi f < 2 ^ 64" by (rule member_inside(3) [OF div mem fl])
  note w = put_back_ok [OF co fl flim ap lim dist(1) fresh]
  obtain xs ys where al: "iova_reserved ctx = xs @ f # ys" "list_del (ch_id f) (iova_reserved ctx) = xs @ ys"
    using at_split [OF dist(2) mem] by metis
  have "divided base len (put_back f (iova_free ctx)) (xs @ ys)"
    by (rule divided_cong [OF div]) (use w in \<open>simp add: al(1)\<close>)
  moreover have "distinct (map ch_id (put_back f (iova_free ctx) @ xs @ ys))"
  proof (rule distinct_ids_append)
    show "distinct (map ch_id (put_back f (iova_free ctx)))" using w by blast
    show "distinct (map ch_id (xs @ ys))" using dist(2) al(1) by auto
    have "ch_id f \<notin> ch_id ` set (xs @ ys)" "ch_id ` set (iova_free ctx) \<inter> ch_id ` set (xs @ ys) = {}"
      using dist al(1) by auto
    with w show "ch_id ` set (put_back f (iova_free ctx)) \<inter> ch_id ` set (xs @ ys) = {}"
      using subset_insert_disjoint by metis
  qed
  ultimately show ?thesis using inv al w by (simp add: iova_inv_def)
qed

definition iova_reserve :: "nat option \<times> u64 \<Rightarrow> mngr_ctx \<Rightarrow> (nat \<times> mngr_ctx) option" where
  "iova_reserve r ctx =
     (case r of (kz, sz) \<Rightarrow>
        if block_fresh kz ctx
        then (case iova_mngr_block_reserve kz (Some ctx) sz None of
                (_, Some (_, _, h), Some ctx') \<Rightarrow> Some (h, ctx') | _ \<Rightarrow> None) else None)"

definition iova_release :: "nat \<Rightarrow> mngr_ctx \<Rightarrow> mngr_ctx option" where
  "iova_release h ctx =
     (case iova_mngr_block_release (Some ctx) (Some h) of Some (_, _, ctx') \<Rightarrow> ctx' | None \<Rightarrow> None)"

lemma reserve_result:
  "iova_mngr_block_reserve kz (Some ctx) sz None = (r, out, ctx') \<Longrightarrow>
    (r = 0 \<longleftrightarrow> out \<noteq> None) \<and> (r \<noteq> 0 \<longrightarrow> ctx' = Some ctx)"
  by (auto simp: iova_mngr_block_reserve_def Let_def split: if_splits option.splits)

interpretation iova: nonempty_allocator iova_inv iova_reserved iova_free iova_reserve iova_release
proof
  show "divided base len (iova_free s) (iova_reserved s)" if "iova_inv base len s" for base len s
    using that by (simp add: iova_inv_def)
  show "lo c < hi c" if "iova_inv base len s" "c \<in> set (iova_reserved s)" for base len s c
    using that by (simp add: iova_inv_def)
  show "distinct (map ch_id (iova_reserved s))" if "iova_inv base len s" for base len s
    using that by (simp add: iova_inv_def)
  show "iova_inv base len t" if inv: "iova_inv base len s" and step: "iova_reserve r s = Some (h, t)"
    for base len s r h t
  proof -
    obtain kz sz a off e where "block_fresh kz s"
      "iova_mngr_block_reserve kz (Some s) sz None = (e, Some (a, off, h), Some t)"
      using step by (auto simp: iova_reserve_def split: prod.splits if_splits option.splits)
    moreover from this(2) have "e = 0" using reserve_result by blast
    ultimately show ?thesis using reserve_inv [OF inv] by blast
  qed
  show "iova_inv base len t" if inv: "iova_inv base len s" and step: "iova_release h s = Some t"
    for base len s h t
  proof -
    obtain f where "f \<in> set (iova_reserved s)" "ch_id f = h"
      using step find_chunk_Some
      by (fastforce simp: iova_release_def iova_mngr_block_release_def split: option.splits)
    then show ?thesis
      using release_keeps_inv [OF inv] release_eq [OF inv] step by (auto simp: iova_release_def)
  qed
qed

lemma init_result:
  assumes "iova_mngr_init kz name base sz handle = Some (0, Some ctx)"
  shows "\<exists>p. iova_free ctx = [\<lparr>ch_id = p, ch_addr = base, ch_size = sz\<rparr>] \<and> iova_reserved ctx = []
    \<and> lists_ready ctx \<and> base_address ctx = base \<and> sz \<noteq> 0"
  using assms
  by (cases kz) (auto simp: iova_mngr_init_def iova_mngr_deinit_def Let_def split: if_splits option.splits)

lemma init_inv:
  assumes "iova_mngr_init kz name base sz handle = Some (0, Some ctx)" "unat base + unat sz < 2 ^ 64"
  shows "iova_inv (unat base) (unat sz) ctx"
proof -
  obtain p where "iova_free ctx = [\<lparr>ch_id = p, ch_addr = base, ch_size = sz\<rparr>]" "iova_reserved ctx = []"
    "lists_ready ctx" "base_address ctx = base" "sz \<noteq> 0"
    using init_result [OF assms(1)] by blast
  then show ?thesis
    using assms(2) by (simp add: iova_inv_def divided_def coalesced_Cons lo_def hi_def covers_def unat_gt_0)
qed

lemma release_blocks_ok:
  assumes "iova_inv base len ctx"
  shows "\<exists>ctx'. release_blocks (iova_reserved ctx) ctx = Some ctx' \<and> iova_inv base len ctx' \<and> iova_reserved ctx' = []"
  using assms
proof (induction "iova_reserved ctx" arbitrary: ctx)
  case Nil
  then show ?case by (auto intro: exI [of _ ctx])
next
  case (Cons f rest)
  have mem: "f \<in> set (iova_reserved ctx)" using Cons.hyps(2) by (metis list.set_intros(1))
  let ?c = "ctx\<lparr>iova_free := put_back f (iova_free ctx), iova_reserved := list_del (ch_id f) (iova_reserved ctx)\<rparr>"
  have "distinct (map ch_id (f # rest))" using Cons.prems Cons.hyps(2) by (simp add: iova_inv_def)
  then have al: "iova_reserved ?c = rest" using Cons.hyps(2) [symmetric] by (simp add: list_del_other)
  from Cons.hyps(1) [OF al [symmetric] release_keeps_inv [OF Cons.prems mem]] al release_eq [OF Cons.prems mem]
  show ?case by (simp add: Cons.hyps(2) [symmetric])
qed

text \<open>Putting back what was just cut off or taken out gives the free list there was.\<close>

lemma scan_skip:
  "\<forall>x\<in>set xs. \<not> ch_addr r < ch_addr x \<Longrightarrow> release_scan r before (xs @ ys) = release_scan r (before @ xs) ys"
  by (induction xs arbitrary: before) auto

lemma put_back_middle:
  assumes "\<forall>x\<in>set xs. lo x < lo r" "ch_addr r < ch_addr c"
  shows "put_back r (xs @ c # ys) = put_between r xs c ys"
proof -
  have "\<forall>x\<in>set xs. \<not> ch_addr r < ch_addr x" using assms(1) by (auto simp: lo_def word_less_nat_alt)
  then show ?thesis using assms(2) by (simp add: put_back_def scan_skip)
qed

lemma put_back_taken:
  assumes co: "coalesced (xs @ best # ys)" and lim: "hi best < 2 ^ 64"
  shows "put_back best (xs @ ys) = xs @ best # ys"
proof -
  have x: "\<forall>x\<in>set xs. hi x < lo best" "\<forall>x\<in>set xs. lo x < hi x"
    using co by (auto simp: coalesced_def sorted_wrt_append)
  then have xl: "\<forall>x\<in>set xs. lo x < lo best" using less_trans by blast
  have gap: "xs \<noteq> [] \<Longrightarrow> ch_addr (last xs) + ch_size (last xs) \<noteq> ch_addr best"
  proof -
    assume "xs \<noteq> []"
    then have l: "hi (last xs) < lo best" using x by simp
    moreover have "lo best \<le> hi best" by (simp add: lo_def hi_def)
    ultimately have "hi (last xs) < 2 ^ 64" using lim by linarith
    from end_word [OF this, of best] l show ?thesis by simp
  qed
  show ?thesis
  proof (cases ys)
    case Nil
    have "\<forall>x\<in>set xs. \<not> ch_addr best < ch_addr x" using xl by (auto simp: lo_def word_less_nat_alt)
    then have "release_scan best [] (xs @ []) = None" by (subst scan_skip) simp_all
    with Nil gap show ?thesis by (simp add: put_back_def release_last_def)
  next
    case (Cons c zs)
    have c: "hi best < lo c" "lo best < hi best" using co Cons by (auto simp: coalesced_def sorted_wrt_append)
    then have "ch_addr best < ch_addr c" by (simp add: lo_def hi_def word_less_nat_alt)
    moreover have "ch_addr c \<noteq> ch_addr best + ch_size best" using end_word [OF lim, of c] c(1) by auto
    ultimately show ?thesis
      using put_back_middle [OF xl, of c zs] Cons gap by (cases "xs = []") (simp_all add: put_between_def)
  qed
qed

lemma put_back_cut:
  assumes co: "coalesced (xs @ best # ys)" and lim: "hi best < 2 ^ 64" and lt: "sz < ch_size best" "sz \<noteq> 0"
  shows "put_back \<lparr>ch_id = h, ch_addr = ch_addr best, ch_size = sz\<rparr>
    (xs @ best\<lparr>ch_addr := ch_addr best + sz, ch_size := ch_size best - sz\<rparr> # ys) = xs @ best # ys"
proof -
  let ?new = "\<lparr>ch_id = h, ch_addr = ch_addr best, ch_size = sz\<rparr>"
  let ?rest = "best\<lparr>ch_addr := ch_addr best + sz, ch_size := ch_size best - sz\<rparr>"
  have rest: "lo ?rest = lo best + unat sz"
    using split_chunk(1) [OF lim, of sz] lt(1) by (simp add: word_less_nat_alt)
  then have above: "ch_addr ?new < ch_addr ?rest"
    using lt(2) by (simp add: lo_def word_less_nat_alt unat_gt_0)
  have x: "\<forall>x\<in>set xs. hi x < lo best" "\<forall>x\<in>set xs. lo x < hi x"
    using co by (auto simp: coalesced_def sorted_wrt_append)
  then have "\<forall>x\<in>set xs. lo x < lo best" using less_trans by blast
  then have xl: "\<forall>x\<in>set xs. lo x < lo ?new" by (simp add: lo_def)
  have gap: "xs \<noteq> [] \<Longrightarrow> ch_addr (last xs) + ch_size (last xs) \<noteq> ch_addr best"
  proof -
    assume "xs \<noteq> []"
    then have l: "hi (last xs) < lo best" using x by simp
    moreover have "lo best \<le> hi best" by (simp add: lo_def hi_def)
    ultimately have "hi (last xs) < 2 ^ 64" using lim by linarith
    from end_word [OF this, of best] l show ?thesis by simp
  qed
  then show ?thesis
    using put_back_middle [OF xl above, of ys] by (cases "xs = []") (simp_all add: put_between_def)
qed

subsection \<open>Properties\<close>

definition demo_ctx :: mngr_ctx where
  "demo_ctx = \<lparr>ctx_name = ''iova'', iova_free = [\<lparr>ch_id = 1, ch_addr = 0x1000, ch_size = 64\<rparr>],
     iova_reserved = [], lists_ready = True, base_address = 0x1000\<rparr>"

lemma demo_ctx_init: "iova_mngr_init (True, True, True, Some 1) (Some ''iova'') 0x1000 64 None = Some (0, Some demo_ctx)"
  by (simp add: iova_mngr_init_def demo_ctx_def)

lemma demo_ctx_inv: "iova_inv 0x1000 64 demo_ctx"
  using init_inv [OF demo_ctx_init] by simp

text \<open>
  C9. Blocks reserved from an initialised manager, by any sequence of reservations and releases,
  are pairwise disjoint and inside the managed region.
\<close>

theorem iova_blocks_exclusive:
  assumes "iova_mngr_init kz name base sz handle = Some (0, Some ctx)" "unat base + unat sz < 2 ^ 64"
    and "c \<in> set (iova_reserved (alloc_run iova_reserve iova_release ops ctx))"
    and "d \<in> set (iova_reserved (alloc_run iova_reserve iova_release ops ctx))" "ch_id c \<noteq> ch_id d"
  shows "(hi c \<le> lo d \<or> hi d \<le> lo c) \<and> unat base \<le> lo c \<and> hi c \<le> unat base + unat sz"
  using iova.run_held_apart [OF init_inv [OF assms(1,2)] assms(3-5)]
    iova.run_held_inside [OF init_inv [OF assms(1,2)] assms(3)] by blast

definition demo_iova_ops :: "(nat option \<times> u64) alloc_op list" where
  "demo_iova_ops = [Reserve (Some 2, 16), Reserve (Some 3, 16), Reserve (Some 4, 32), Release 3]"

lemma demo_iova_run: "iova_reserved (alloc_run iova_reserve iova_release demo_iova_ops demo_ctx)
   = [\<lparr>ch_id = 2, ch_addr = 0x1000, ch_size = 16\<rparr>, \<lparr>ch_id = 1, ch_addr = 0x1020, ch_size = 32\<rparr>]"
  by (simp add: demo_ctx_def demo_iova_ops_def iova_reserve_def block_fresh_def
    iova_mngr_block_reserve_def update_at_def iova_release_def iova_mngr_block_release_def
    find_chunk_def release_last_def)

theorem iova_blocks_exclusive_witness:
  "hi \<lparr>ch_id = 2, ch_addr = 0x1000, ch_size = 16\<rparr> \<le> lo \<lparr>ch_id = 1, ch_addr = 0x1020, ch_size = 32\<rparr>"
  using iova_blocks_exclusive [where ops = demo_iova_ops, OF demo_ctx_init,
      of "\<lparr>ch_id = 2, ch_addr = 0x1000, ch_size = 16\<rparr>" "\<lparr>ch_id = 1, ch_addr = 0x1020, ch_size = 32\<rparr>"]
  by (simp add: demo_iova_run) (simp add: lo_def hi_def)

text \<open>
  Releasing a block that was just reserved restores the manager exactly: the same free blocks,
  with the same boundaries, and the same reserved blocks; and the release cannot fail.
\<close>

theorem iova_reserve_release:
  assumes inv: "iova_inv base len ctx" and fresh: "block_fresh kz ctx"
    and res: "iova_mngr_block_reserve kz (Some ctx) sz None = (0, Some (a, off, h), Some ctx')"
  shows "iova_mngr_block_release (Some ctx') (Some h) = Some (0, None, Some ctx)"
proof -
  have dist: "distinct (map ch_id (iova_free ctx))" and div: "divided base len (iova_free ctx) (iova_reserved ctx)"
    using inv by (simp_all add: iova_inv_def)
  obtain best xs ys where r: "iova_free ctx = xs @ best # ys" "sz \<le> ch_size best" "sz \<noteq> 0"
    "a = ch_addr best" "off = a - base_address ctx"
    "iova_reserved ctx' = iova_reserved ctx @ [\<lparr>ch_id = h, ch_addr = a, ch_size = sz\<rparr>]"
    "base_address ctx' = base_address ctx" "lists_ready ctx' = lists_ready ctx" "ctx_name ctx' = ctx_name ctx"
    and alt: "ch_size best = sz \<and> h = ch_id best \<and> iova_free ctx' = xs @ ys
     \<or> sz < ch_size best \<and> kz = Some h \<and> iova_free ctx' =
         xs @ best\<lparr>ch_addr := ch_addr best + sz, ch_size := ch_size best - sz\<rparr> # ys"
    by (rule reserve_cases [OF res dist])
  let ?new = "\<lparr>ch_id = h, ch_addr = a, ch_size = sz\<rparr>"
  have co: "coalesced (xs @ best # ys)" using inv r(1) by (simp add: iova_inv_def)
  have lim: "hi best < 2 ^ 64"
  proof (rule free_inside(3) [OF div])
    show "best \<in> set (iova_free ctx)" using r(1) by simp
    show "lo best < hi best" using co by (simp add: coalesced_append)
  qed
  have inv': "iova_inv base len ctx'" by (rule reserve_inv [OF inv fresh res])
  have mem: "?new \<in> set (iova_reserved ctx')" using r(6) by simp
  have "put_back ?new (iova_free ctx') = iova_free ctx"
    using alt
  proof (elim disjE conjE)
    assume e: "ch_size best = sz" "h = ch_id best" "iova_free ctx' = xs @ ys"
    then have "?new = best" using r(4) by simp
    then show ?thesis using put_back_taken [OF co lim] e(3) r(1) by simp
  qed (use put_back_cut [OF co lim _ r(3), of h] r(1,4) in simp)
  moreover have "h \<notin> ch_id ` set (iova_reserved ctx)" using inv' r(6) by (simp add: iova_inv_def)
  then have "list_del h (iova_reserved ctx') = iova_reserved ctx" using r(6) by (simp add: list_del_other)
  ultimately show ?thesis using release_eq [OF inv' mem] r(7-9) by simp
qed

theorem iova_reserve_release_witness:
  "\<exists>a off h ctx'. iova_mngr_block_reserve (Some 2) (Some demo_ctx) 16 None = (0, Some (a, off, h), Some ctx')
     \<and> iova_mngr_block_release (Some ctx') (Some h) = Some (0, None, Some demo_ctx)"
proof -
  obtain a off h ctx' where r: "iova_mngr_block_reserve (Some 2) (Some demo_ctx) 16 None = (0, Some (a, off, h), Some ctx')"
    by (simp add: iova_mngr_block_reserve_def demo_ctx_def Let_def)
  have "block_fresh (Some 2) demo_ctx" by (simp add: block_fresh_def demo_ctx_def)
  from iova_reserve_release [OF demo_ctx_inv this r] r show ?thesis by blast
qed

text \<open>
  Tearing a manager down frees every block structure, whatever is still reserved, after joining
  the region to one free block again.
\<close>

theorem iova_deinit_frees_all:
  assumes "iova_inv base len ctx" "0 < len"
  shows "iova_mngr_deinit (Some ctx) = Some []
    \<and> (\<exists>ctx' whole. release_blocks (iova_reserved ctx) ctx = Some ctx' \<and> iova_free ctx' = [whole]
         \<and> lo whole = base \<and> hi whole = base + len)"
proof -
  obtain ctx' where c: "release_blocks (iova_reserved ctx) ctx = Some ctx'" "iova_inv base len ctx'"
    "iova_reserved ctx' = []" using release_blocks_ok [OF assms(1)] by blast
  then have "coalesced (iova_free ctx')" "\<And>x. cover (iova_free ctx') x = of_bool (base \<le> x \<and> x < base + len)"
    by (auto simp: iova_inv_def divided_def)
  from coalesced_interval [OF this assms(2)] c assms(1) show ?thesis
    by (auto simp: iova_mngr_deinit_def iova_inv_def)
qed

theorem iova_deinit_frees_all_witness:
  "iova_mngr_deinit (Some (alloc_run iova_reserve iova_release demo_iova_ops demo_ctx)) = Some []"
  using iova_deinit_frees_all [OF iova.run_inv [OF demo_ctx_inv, of demo_iova_ops]] by simp

text \<open>
  The error paths of the initialisation: a failed context or block allocation returns
  \<open>-ENOMEM\<close> and leaves the handle alone, but a failed list allocation, or a name that is too long,
  goes through the tear-down of a context whose lists do not exist and dereferences a null pointer.
\<close>

theorem iova_init_error_paths:
  assumes "base \<noteq> 0" "sz \<noteq> 0"
  shows "iova_mngr_init (ctx_ok, free_ok, reserved_ok, block) (Some nm) base sz None =
    (if \<not> ctx_ok then Some (- ENOMEM, None)
     else if \<not> free_ok \<or> \<not> reserved_ok \<or> length nm > 254 then None
     else case block of None \<Rightarrow> Some (- ENOMEM, None)
       | Some p \<Rightarrow> Some (0, Some \<lparr>ctx_name = nm, iova_free = [\<lparr>ch_id = p, ch_addr = base, ch_size = sz\<rparr>],
           iova_reserved = [], lists_ready = True, base_address = base\<rparr>))"
  using assms by (simp add: iova_mngr_init_def iova_mngr_deinit_def Let_def split: option.splits)

theorem iova_init_error_paths_witness:
  "iova_mngr_init (True, False, True, Some 1) (Some ''iova'') 0x1000 64 None = None"
  using iova_init_error_paths [where base = "0x1000" and sz = "64" and free_ok = False and ctx_ok = True] by simp

end
