(* ===== verification/Msgq.thy ===== *)
theory Msgq
  imports Prelude
begin

text \<open>
  The circular message queue between the host and the audio processor,
  \<open>drivers/platform/tegra/nvadsp/msgq.c\<close> with the types of \<open>include/linux/tegra_nvadsp.h\<close>. Indices
  and sizes are 32-bit signed words counts, kept as integers with their conversions written out;
  the space behind the queue header is a list of words, and a copy that leaves it, or of a negative
  length, is undefined.
\<close>

abbreviation (input) MSGQ_MAX_QUEUE_WSIZE :: int where "MSGQ_MAX_QUEUE_WSIZE \<equiv> 8189"
abbreviation (input) MSGQ_MESSAGE_HEADER_WSIZE :: int where "MSGQ_MESSAGE_HEADER_WSIZE \<equiv> 1"

record msgq_message =
  msg_size :: int
  payload :: "u32 list"

record msgq =
  mq_size :: int
  write_index :: int
  read_index :: int
  queue :: "u32 list"

definition i32 :: "int \<Rightarrow> int" where
  "i32 x = sint (word_of_int x :: u32)"

text \<open>The words of a message structure, and word copies out of and into an array.\<close>

definition message_words :: "msgq_message \<Rightarrow> u32 list" where
  "message_words m = word_of_int (msg_size m) # payload m"

definition wget :: "u32 list \<Rightarrow> int \<Rightarrow> int \<Rightarrow> u32 list option" where
  "wget ws p n = (if 0 \<le> p \<and> 0 \<le> n \<and> p + n \<le> int (length ws) then Some (take (nat n) (drop (nat p) ws)) else None)"

definition wput :: "u32 list \<Rightarrow> int \<Rightarrow> u32 list \<Rightarrow> u32 list option" where
  "wput q p ws =
     (if 0 \<le> p \<and> p + int (length ws) \<le> int (length q)
      then Some (take (nat p) q @ ws @ drop (nat p + length ws) q) else None)"

text \<open>The maximum is of type \<open>size_t\<close>, so the comparison is unsigned.\<close>

definition msgq_init :: "msgq \<Rightarrow> int \<Rightarrow> msgq" where
  "msgq_init q sz =
     (let sz = (if MSGQ_MAX_QUEUE_WSIZE < uint (word_of_int sz :: u64) then MSGQ_MAX_QUEUE_WSIZE else sz)
      in q\<lparr>mq_size := sz, read_index := 0, write_index := 0\<rparr>)"

definition msgq_queue_message :: "msgq option \<Rightarrow> msgq_message option \<Rightarrow> (int \<times> msgq option) option" where
  "msgq_queue_message msgq message =
     (case (msgq, message) of
        (Some q, Some m) \<Rightarrow>
          let ri = read_index q; wi = write_index q;
              wrap = (ri \<le> wi);
              qremainder = i32 (if wrap then mq_size q - wi else ri - wi);
              qsize = i32 (if wrap then qremainder + ri else qremainder);
              msize = i32 (MSGQ_MESSAGE_HEADER_WSIZE + msg_size m)
          in if qsize \<le> msize then Some (- ENOSPC, msgq)
             else if msize < qremainder then do {
               ws \<leftarrow> wget (message_words m) 0 msize;
               qu \<leftarrow> wput (queue q) wi ws;
               Some (0, Some (q\<lparr>queue := qu,
                 write_index := i32 (wi + MSGQ_MESSAGE_HEADER_WSIZE + msg_size m)\<rparr>))
             } else do {
               ws \<leftarrow> wget (message_words m) 0 qremainder;
               qu \<leftarrow> wput (queue q) wi ws;
               ws' \<leftarrow> wget (message_words m) qremainder (msize - qremainder);
               qu' \<leftarrow> wput qu 0 ws';
               Some (0, Some (q\<lparr>queue := qu',
                 write_index := i32 (wi + MSGQ_MESSAGE_HEADER_WSIZE + msg_size m - mq_size q)\<rparr>))
             }
      | _ \<Rightarrow> Some (- EFAULT, msgq))"

text \<open>The words copied over a message structure give its size and the front of its payload.\<close>

definition message_put :: "msgq_message \<Rightarrow> u32 list \<Rightarrow> msgq_message option" where
  "message_put m ws = do {
     st \<leftarrow> wput (message_words m) 0 ws;
     case st of [] \<Rightarrow> None | w # p \<Rightarrow> Some \<lparr>msg_size = sint w, payload = p\<rparr>
   }"

definition msgq_dequeue_message ::
  "msgq option \<Rightarrow> msgq_message option \<Rightarrow> (int \<times> msgq option \<times> msgq_message option) option" where
  "msgq_dequeue_message msgq message =
     (case msgq of
        None \<Rightarrow> Some (- EFAULT, msgq, message)
      | Some q \<Rightarrow>
          let ri = read_index q; wi = write_index q
          in if ri = wi
             then Some (- ENOMSG, msgq, map_option (\<lambda>m. m\<lparr>msg_size := 0\<rparr>) message)
             else do {
               hd_words \<leftarrow> wget (queue q) ri 1;
               let msz = sint (hd hd_words);
               case message of
                 None \<Rightarrow>
                   let ri = i32 (ri + (MSGQ_MESSAGE_HEADER_WSIZE + msz))
                   in Some (0, Some (q\<lparr>read_index := (if ri < mq_size q then ri else ri - mq_size q)\<rparr>), None)
               | Some m \<Rightarrow>
                   if msg_size m < msz then Some (- ENOSPC, msgq, Some (m\<lparr>msg_size := msz\<rparr>))
                   else
                     let msize = i32 (MSGQ_MESSAGE_HEADER_WSIZE + msz);
                         qremainder = i32 (mq_size q - ri)
                     in if msize < qremainder then do {
                          ws \<leftarrow> wget (queue q) ri msize;
                          m \<leftarrow> message_put m ws;
                          Some (0, Some (q\<lparr>read_index := i32 (ri + MSGQ_MESSAGE_HEADER_WSIZE + msz)\<rparr>), Some m)
                        } else do {
                          ws \<leftarrow> wget (queue q) ri qremainder;
                          ws' \<leftarrow> wget (queue q) 0 (msize - qremainder);
                          m \<leftarrow> message_put m (ws @ ws');
                          Some (0, Some (q\<lparr>read_index :=
                            i32 (ri + MSGQ_MESSAGE_HEADER_WSIZE + msz - mq_size q)\<rparr>), Some m)
                        }
             })"

subsection \<open>Rings of words\<close>

lemma i32_id: "- 2147483648 \<le> x \<Longrightarrow> x < 2147483648 \<Longrightarrow> i32 x = x"
proof -
  assume "- 2147483648 \<le> x" "x < 2147483648"
  then have "signed_take_bit 31 x = x" by (intro signed_take_bit_int_eq_self) simp_all
  then show ?thesis by (simp add: i32_def signed_of_int)
qed

lemma ring_view_write:
  assumes "c + length ws \<le> n" "\<And>j. j < length ws \<Longrightarrow> g ((s + c + j) mod n) = ws ! j"
    and "\<And>i. i < c \<Longrightarrow> g ((s + i) mod n) = f ((s + i) mod n)"
  shows "ring_view g n s (c + length ws) = ring_view f n s c @ ws"
proof (rule nth_equalityI)
  fix i assume "i < length (ring_view g n s (c + length ws))"
  then have i: "i < c + length ws" by simp
  show "ring_view g n s (c + length ws) ! i = (ring_view f n s c @ ws) ! i"
  proof (cases "i < c")
    case True
    with i assms(3) show ?thesis by (simp add: ring_view_def nth_append)
  next
    case False
    with i assms(2) [of "i - c"] show ?thesis by (simp add: ring_view_def nth_append add.assoc)
  qed
qed simp

lemma ring_view_drop:
  assumes "k \<le> c"
  shows "ring_view f n ((s + k) mod n) (c - k) = drop k (ring_view f n s c)"
  by (rule nth_equalityI) (use assms in \<open>auto simp: ring_view_def mod_simps add.assoc add.commute [of k]\<close>)

text \<open>The two ways a block of words lies in the ring.\<close>

definition ring_get :: "u32 list \<Rightarrow> nat \<Rightarrow> nat \<Rightarrow> nat \<Rightarrow> u32 list" where
  "ring_get q n p k = (if p + k < n then take k (drop p q) else take (n - p) (drop p q) @ take (k - (n - p)) q)"

lemma ring_get_view:
  assumes "p < n" "k \<le> n" "n \<le> length q"
  shows "ring_get q n p k = ring_view (\<lambda>i. q ! i) n p k"
proof (rule nth_equalityI)
  show "length (ring_get q n p k) = length (ring_view (\<lambda>i. q ! i) n p k)"
    using assms by (auto simp: ring_get_def min_def)
  fix i assume "i < length (ring_get q n p k)"
  then have i: "i < k" using assms by (auto simp: ring_get_def min_def split: if_splits)
  have m: "(p + i) mod n = (if p + i < n then p + i else p + i - n)"
    using assms i by (simp add: mod_if)
  show "ring_get q n p k ! i = ring_view (\<lambda>i. q ! i) n p k ! i"
    using assms i m le_diff_iff [of p "length q" n]
    by (auto simp: ring_get_def ring_view_def nth_append min_def add.commute)
qed

definition ring_put :: "u32 list \<Rightarrow> nat \<Rightarrow> nat \<Rightarrow> u32 list \<Rightarrow> u32 list" where
  "ring_put q n p ws =
     (if p + length ws < n then take p q @ ws @ drop (p + length ws) q
      else let q' = take p q @ take (n - p) ws @ drop n q
           in drop (n - p) ws @ drop (length ws - (n - p)) q')"

lemma length_ring_put: "p < n \<Longrightarrow> length ws \<le> n \<Longrightarrow> n \<le> length q \<Longrightarrow> length (ring_put q n p ws) = length q"
  by (auto simp: ring_put_def Let_def)

lemma ring_put_nth:
  assumes "p < n" "length ws \<le> n" "n \<le> length q" "i < n"
  shows "ring_put q n p ws ! i =
    (if p \<le> i \<and> i < p + length ws then ws ! (i - p)
     else if i + n < p + length ws then ws ! (i + n - p) else q ! i)"
  using assms by (auto simp: ring_put_def Let_def nth_append min_def add.commute)

subsection \<open>Well-formed queues and their messages\<close>

definition msgq_wf :: "msgq \<Rightarrow> bool" where
  "msgq_wf q \<longleftrightarrow> 0 < mq_size q \<and> mq_size q \<le> MSGQ_MAX_QUEUE_WSIZE \<and> mq_size q \<le> int (length (queue q))
     \<and> 0 \<le> read_index q \<and> read_index q < mq_size q \<and> 0 \<le> write_index q \<and> write_index q < mq_size q"

definition mq_used :: "msgq \<Rightarrow> nat" where
  "mq_used q = nat ((write_index q - read_index q) mod mq_size q)"

definition mq_words :: "msgq \<Rightarrow> u32 list" where
  "mq_words q = ring_view (\<lambda>i. queue q ! i) (nat (mq_size q)) (nat (read_index q)) (mq_used q)"

definition encode :: "u32 list \<Rightarrow> u32 list" where
  "encode p = of_nat (length p) # p"

function decode :: "u32 list \<Rightarrow> u32 list list" where
  "decode [] = []"
| "decode (w # ws) = take (unat w) ws # decode (drop (unat w) ws)"
  by pat_completeness auto
termination by (relation "measure length") auto

lemma decode_encode: "(\<forall>p\<in>set ps. length p < 2 ^ 32) \<Longrightarrow> decode (concat (map encode ps)) = ps"
proof (induction ps)
  case (Cons p ps)
  then have "unat (of_nat (length p) :: u32) = length p" by (simp add: unat_of_nat)
  with Cons show ?case by (simp add: encode_def)
qed simp

definition mq_inv :: "msgq \<Rightarrow> bool" where
  "mq_inv q \<longleftrightarrow> msgq_wf q \<and> concat (map encode (decode (mq_words q))) = mq_words q"

lemma wf_nat:
  assumes "msgq_wf q"
  obtains n r w where "mq_size q = int n" "read_index q = int r" "write_index q = int w" "r < n" "w < n"
    "n \<le> 8189" "n \<le> length (queue q)" "mq_used q = (if r \<le> w then w - r else n + w - r)"
    "mq_words q = ring_view (\<lambda>i. queue q ! i) n r (mq_used q)"
proof -
  define n r w where d: "n = nat (mq_size q)" "r = nat (read_index q)" "w = nat (write_index q)"
  then have i: "mq_size q = int n" "read_index q = int r" "write_index q = int w" "r < n" "w < n"
    "n \<le> 8189" "n \<le> length (queue q)"
    using assms by (auto simp: msgq_wf_def)
  have "(int w - int r) mod int n = (if r \<le> w then int w - int r else int n + int w - int r)"
  proof (cases "r \<le> w")
    case True
    with i(4,5) show ?thesis by (simp add: mod_pos_pos_trivial)
  next
    case False
    have "(int w - int r) mod int n = (int w - int r + int n) mod int n" by simp
    also have "\<dots> = int w - int r + int n" using False i(4,5) by (intro mod_pos_pos_trivial) auto
    finally show ?thesis using False by simp
  qed
  then have "mq_used q = (if r \<le> w then w - r else n + w - r)"
    using i(4) by (auto simp: mq_used_def i(1-3) nat_diff_distrib nat_add_distrib)
  with i show ?thesis by (intro that) (simp_all add: mq_words_def)
qed

definition msg_of :: "u32 list \<Rightarrow> msgq_message" where
  "msg_of p = \<lparr>msg_size = int (length p), payload = p\<rparr>"

lemma wput_nat: "p + length ws \<le> length q \<Longrightarrow>
    wput q (int p) ws = Some (take p q @ ws @ drop (p + length ws) q)"
  by (simp add: wput_def)

lemma wget_nat: "p + n \<le> length q \<Longrightarrow> wget q (int p) (int n) = Some (take n (drop p q))"
  by (simp add: wget_def)

lemma enqueue_eq:
  assumes wf: "msgq_wf q" and small: "length p < 2147483647"
  shows "msgq_queue_message (Some q) (Some (msg_of p)) =
    (if nat (mq_size q) - mq_used q \<le> Suc (length p) then Some (- ENOSPC, Some q)
     else Some (0, Some (q\<lparr>
       queue := ring_put (queue q) (nat (mq_size q)) (nat (write_index q)) (encode p),
       write_index := (write_index q + 1 + int (length p)) mod mq_size q\<rparr>)))"
proof -
  obtain n r w where d: "mq_size q = int n" "read_index q = int r" "write_index q = int w" "r < n" "w < n"
    "n \<le> 8189" "n \<le> length (queue q)" "mq_used q = (if r \<le> w then w - r else n + w - r)"
    using wf_nat [OF wf] by metis
  have words: "message_words (msg_of p) = encode p"
    by (simp add: message_words_def msg_of_def encode_def)
  define k where "k = Suc (length p)"
  have ms: "i32 (1 + int (length p)) = int k" using small by (simp add: k_def i32_id)
  have len: "length (encode p) = k" by (simp add: encode_def k_def)
  define qr where "qr = (if r \<le> w then n - w else r - w)"
  define qs where "qs = n - mq_used q"
  have qr: "i32 (if int r \<le> int w then int n - int w else int r - int w) = int qr"
    using d by (auto simp: qr_def i32_id of_nat_diff)
  have qs: "i32 (if int r \<le> int w then int qr + int r else int qr) = int qs"
    using d by (auto simp: qr_def qs_def i32_id of_nat_diff)
  have unf: "msgq_queue_message (Some q) (Some (msg_of p)) =
     (if qs \<le> k then Some (- ENOSPC, Some q)
      else if k < qr then do {
        ws \<leftarrow> wget (encode p) 0 (int k);
        qu \<leftarrow> wput (queue q) (int w) ws;
        Some (0, Some (q\<lparr>queue := qu, write_index := i32 (int w + 1 + int (length p))\<rparr>))
      } else do {
        ws \<leftarrow> wget (encode p) 0 (int qr);
        qu \<leftarrow> wput (queue q) (int w) ws;
        ws' \<leftarrow> wget (encode p) (int qr) (int k - int qr);
        qu' \<leftarrow> wput qu 0 ws';
        Some (0, Some (q\<lparr>queue := qu', write_index := i32 (int w + 1 + int (length p) - int n)\<rparr>))
      })"
    using ms qr qs words d(1-3) by (cases "r \<le> w") (simp_all add: msgq_queue_message_def msg_of_def Let_def)
  consider (full) "qs \<le> k" | (plain) "\<not> qs \<le> k" "k < qr"
    | (split) "\<not> qs \<le> k" "qr \<le> k" by linarith
  then show ?thesis
  proof cases
    case full
    then show ?thesis using unf d(1) by (simp add: k_def qs_def)
  next
    case plain
    then have fit: "w + k < n" using d(4,5) by (auto simp: qr_def split: if_splits)
    have get: "wget (encode p) 0 (int k) = Some (encode p)"
      using wget_nat [of 0 k "encode p"] len by simp
    have put: "wput (queue q) (int w) (encode p) = Some (ring_put (queue q) n w (encode p))"
      using wput_nat [of w "encode p" "queue q"] fit len d(7) by (simp add: ring_put_def)
    have "i32 (int w + 1 + int (length p)) = (int w + 1 + int (length p)) mod int n"
      using fit d(6) by (simp add: i32_id k_def mod_pos_pos_trivial)
    with unf plain get put d(1-3) show ?thesis by (simp add: k_def qs_def)
  next
    case split
    then have rw: "r \<le> w" using d(4,5,8) by (auto simp: qr_def qs_def split: if_splits)
    then have kn: "n \<le> w + k" "k < n" "qr = n - w" using split d by (auto simp: qr_def qs_def)
    let ?q1 = "take w (queue q) @ take (n - w) (encode p) @ drop n (queue q)"
    have get: "wget (encode p) 0 (int qr) = Some (take (n - w) (encode p))"
      using wget_nat [of 0 "n - w" "encode p"] len kn by simp
    have put: "wput (queue q) (int w) (take (n - w) (encode p)) = Some ?q1"
    proof -
      have "length (take (n - w) (encode p)) = n - w" using len kn by simp
      with wput_nat [of w "take (n - w) (encode p)" "queue q"] d(5,7) show ?thesis
        by (simp del: length_take)
    qed
    have get2: "wget (encode p) (int qr) (int k - int qr) = Some (drop (n - w) (encode p))"
      using wget_nat [of "n - w" "k - (n - w)" "encode p"] len kn by (simp add: of_nat_diff)
    have put2: "wput ?q1 0 (drop (n - w) (encode p)) = Some (ring_put (queue q) n w (encode p))"
      using wput_nat [of 0 "drop (n - w) (encode p)" ?q1] len kn d(5,7)
      by (simp add: ring_put_def Let_def min_def)
    have "(int w + 1 + int (length p)) mod int n = int ((w + k) mod n)"
      by (simp add: k_def zmod_int algebra_simps)
    also have "(w + k) mod n = w + k - n" using kn d(5) by (simp add: mod_if)
    finally have "i32 (int w + 1 + int (length p) - int n) = (int w + 1 + int (length p)) mod int n"
      using kn d(5,6) by (simp add: i32_id k_def of_nat_diff)
    with unf split get put get2 put2 d(1-3) show ?thesis by (simp add: k_def qs_def)
  qed
qed

text \<open>Writing a block after the words in use appends it to them.\<close>

lemma words_put:
  assumes wf: "msgq_wf q" and room: "mq_used q + length ws < nat (mq_size q)"
    and q': "q' = q\<lparr>queue := ring_put (queue q) (nat (mq_size q)) (nat (write_index q)) ws,
      write_index := (write_index q + int (length ws)) mod mq_size q\<rparr>"
  shows "msgq_wf q' \<and> mq_words q' = mq_words q @ ws"
proof -
  obtain n r w where d: "mq_size q = int n" "read_index q = int r" "write_index q = int w" "r < n" "w < n"
    "n \<le> 8189" "n \<le> length (queue q)" "mq_used q = (if r \<le> w then w - r else n + w - r)"
    "mq_words q = ring_view (\<lambda>i. queue q ! i) n r (mq_used q)"
    using wf_nat [OF wf] by metis
  have wi: "write_index q' = int ((w + length ws) mod n)" using q' d by (simp add: zmod_int)
  have len: "length (queue q') = length (queue q)" using q' d room length_ring_put [of w n ws] by simp
  have wf': "msgq_wf q'" using wf wi len d q' by (auto simp: msgq_wf_def)
  obtain n' r' w' where d': "mq_size q' = int n'" "read_index q' = int r'" "write_index q' = int w'"
    "mq_used q' = (if r' \<le> w' then w' - r' else n' + w' - r')"
    "mq_words q' = ring_view (\<lambda>i. queue q' ! i) n' r' (mq_used q')"
    using wf_nat [OF wf'] by metis
  have eqs: "n' = n" "r' = r" "w' = (w + length ws) mod n" using d'(1-3) d(1-3) wi q' by simp_all
  have "w = (r + mq_used q) mod n" using d(4,5,8) by (auto simp: mod_if)
  have wmod: "(w + length ws) mod n = (if w + length ws < n then w + length ws else w + length ws - n)"
    using d(5) room by (simp add: mod_if d(1))
  have used': "mq_used q' = mq_used q + length ws"
    using d'(4) eqs d(4,5,8) room wmod by (auto simp: d(1) split: if_splits)
  have at: "(r + mq_used q + j) mod n = (w + j) mod n" for j
    using \<open>w = (r + mq_used q) mod n\<close> by (simp add: mod_simps)
  have put: "queue q' ! i = (if w \<le> i \<and> i < w + length ws then ws ! (i - w)
     else if i + n < w + length ws then ws ! (i + n - w) else queue q ! i)" if "i < n" for i
    using ring_put_nth [OF d(5) _ d(7) that, of ws] room q' d(1,3) by simp
  have "ring_view (\<lambda>i. queue q' ! i) n r (mq_used q + length ws)
      = ring_view (\<lambda>i. queue q ! i) n r (mq_used q) @ ws"
  proof (rule ring_view_write)
    show "mq_used q + length ws \<le> n" using room d(1) by simp
    fix j assume j: "j < length ws"
    then have "(w + j) mod n = (if w + j < n then w + j else w + j - n)"
      using d(5) room by (simp add: mod_if d(1))
    with j put [of "(w + j) mod n"] d(4,5) room show "queue q' ! ((r + mq_used q + j) mod n) = ws ! j"
      unfolding at by (auto simp: d(1))
  next
    fix i assume i: "i < mq_used q"
    have m: "(r + i) mod n = (if r + i < n then r + i else r + i - n)"
      using d(4) i room by (simp add: mod_if d(1))
    from i put [of "(r + i) mod n"] d(4,5,8) room show "queue q' ! ((r + i) mod n) = queue q ! ((r + i) mod n)"
      by (auto simp: d(1) m split: if_splits)
  qed
  then show ?thesis using wf' d'(5) eqs used' d(9) by simp
qed

text \<open>Reading: the words in use begin with the message at the read index.\<close>

lemma words_get:
  assumes wf: "msgq_wf q" and k: "k \<le> mq_used q"
  shows "ring_get (queue q) (nat (mq_size q)) (nat (read_index q)) k = take k (mq_words q)"
proof -
  obtain n r w where d: "mq_size q = int n" "read_index q = int r" "r < n" "w < n" "n \<le> length (queue q)"
    "mq_used q = (if r \<le> w then w - r else n + w - r)" "mq_words q = ring_view (\<lambda>i. queue q ! i) n r (mq_used q)"
    using wf_nat [OF wf] by metis
  have "k \<le> n" using k d(3,4,6) by (auto split: if_splits)
  from ring_get_view [OF d(3) this d(5)]
  have "ring_get (queue q) n r k = ring_view (\<lambda>i. queue q ! i) n r k" .
  also have "\<dots> = take k (ring_view (\<lambda>i. queue q ! i) n r (mq_used q))"
    using k by (simp add: ring_view_def take_map)
  finally show ?thesis using d by simp
qed

lemma words_skip:
  assumes wf: "msgq_wf q" and k: "k \<le> mq_used q"
    and q': "q' = q\<lparr>read_index := (read_index q + int k) mod mq_size q\<rparr>"
  shows "msgq_wf q' \<and> mq_words q' = drop k (mq_words q)"
proof -
  obtain n r w where d: "mq_size q = int n" "read_index q = int r" "write_index q = int w" "r < n" "w < n"
    "n \<le> 8189" "n \<le> length (queue q)" "mq_used q = (if r \<le> w then w - r else n + w - r)"
    "mq_words q = ring_view (\<lambda>i. queue q ! i) n r (mq_used q)"
    using wf_nat [OF wf] by metis
  have ri: "read_index q' = int ((r + k) mod n)" using q' d by (simp add: zmod_int)
  have wf': "msgq_wf q'" using wf ri d q' by (auto simp: msgq_wf_def)
  obtain n' r' w' where d': "mq_size q' = int n'" "read_index q' = int r'" "write_index q' = int w'"
    "mq_used q' = (if r' \<le> w' then w' - r' else n' + w' - r')"
    "mq_words q' = ring_view (\<lambda>i. queue q' ! i) n' r' (mq_used q')"
    using wf_nat [OF wf'] by metis
  have eqs: "n' = n" "r' = (r + k) mod n" "w' = w" using d'(1-3) d(1-3) ri q' by simp_all
  have "(r + k) mod n = (if r + k < n then r + k else r + k - n)"
  proof (cases "r + k < n")
    case False
    have "k < n" using k d(4,5,8) by (cases "r \<le> w") simp_all
    with False d(4) show ?thesis by (simp add: mod_if)
  qed simp
  moreover have "k \<le> w - r" if "r \<le> w" using that k d(8) by simp
  moreover have "k \<le> n + w - r" using k d(4,8) by (cases "r \<le> w") simp_all
  ultimately have "mq_used q' = mq_used q - k"
    using d'(4) eqs d(4,5,8) by (cases "r + k < n"; cases "r \<le> w"; simp; linarith)
  then have "mq_words q' = ring_view (\<lambda>i. queue q ! i) n ((r + k) mod n) (mq_used q - k)"
    using d'(5) eqs q' by simp
  also have "\<dots> = drop k (ring_view (\<lambda>i. queue q ! i) n r (mq_used q))" by (rule ring_view_drop [OF k])
  finally show ?thesis using wf' d(9) by simp
qed

lemma length_mq_words [simp]: "length (mq_words q) = mq_used q"
  by (simp add: mq_words_def)

lemma used_lt: "msgq_wf q \<Longrightarrow> mq_used q < nat (mq_size q)"
  by (simp add: mq_used_def msgq_wf_def nat_less_eq_zless)

lemma used_max: "msgq_wf q \<Longrightarrow> mq_used q < 8189"
  using used_lt [of q] by (simp add: msgq_wf_def zless_nat_eq_int_zless)

text \<open>A buffer for the largest message.\<close>

definition big_buffer :: msgq_message where
  "big_buffer = \<lparr>msg_size = MSGQ_MAX_QUEUE_WSIZE, payload = replicate 8189 0\<rparr>"

lemma first_message:
  assumes inv: "mq_inv q" and ne: "read_index q \<noteq> write_index q"
  obtains p rest where "mq_words q = encode p @ concat (map encode rest)" "decode (mq_words q) = p # rest"
    "length p < 8189" "Suc (length p) \<le> mq_used q" "concat (map encode (decode (concat (map encode rest)))) = concat (map encode rest)"
    "decode (concat (map encode rest)) = rest"
proof -
  have wf: "msgq_wf q" and c: "concat (map encode (decode (mq_words q))) = mq_words q"
    using inv by (simp_all add: mq_inv_def)
  have "mq_used q \<noteq> 0"
  proof (rule wf_nat [OF wf])
    fix n r w assume "read_index q = int r" "write_index q = int w" "r < n" "w < n"
      "mq_used q = (if r \<le> w then w - r else n + w - r)"
    with ne show ?thesis by (cases "r \<le> w") auto
  qed
  then have "mq_words q \<noteq> []" by (metis length_mq_words list.size(3))
  then obtain w ws where "mq_words q = w # ws" by (cases "mq_words q") auto
  then obtain p rest where pr: "decode (mq_words q) = p # rest" by simp
  with c have w: "mq_words q = encode p @ concat (map encode rest)" by simp
  have total: "length (mq_words q) < 8190" using used_max [OF wf] by simp
  then have small: "length p < 8189" "Suc (length p) \<le> mq_used q"
    using w by (simp_all add: encode_def flip: length_mq_words)
  have "\<forall>x\<in>set rest. length x < 2 ^ 32"
  proof
    fix x assume x: "x \<in> set rest"
    then have "length (encode x) \<le> sum_list (map (length \<circ> encode) rest)"
      by (intro member_le_sum_list) auto
    also have "\<dots> \<le> length (mq_words q)" using w by (simp add: length_concat comp_def)
    finally show "length x < 2 ^ 32" using total by (simp add: encode_def)
  qed
  then have "decode (concat (map encode rest)) = rest" by (rule decode_encode)
  with w pr small show ?thesis by (intro that) simp_all
qed

lemma sint_len: "n < 2147483648 \<Longrightarrow> sint (of_nat n :: u32) = int n"
proof -
  assume "n < 2147483648"
  then have "i32 (int n) = int n" by (simp add: i32_id)
  then show ?thesis by (simp add: i32_def)
qed

lemma head_word:
  assumes "msgq_wf q" "mq_words q = encode p @ others"
  shows "wget (queue q) (read_index q) 1 = Some [of_nat (length p)]"
proof -
  obtain n r where d: "read_index q = int r" "r < n" "n \<le> length (queue q)"
    "mq_words q = ring_view (\<lambda>i. queue q ! i) n r (mq_used q)"
    using wf_nat [OF assms(1)] by metis
  have "mq_used q \<noteq> 0" using assms(2) by (metis append_is_Nil_conv encode_def length_0_conv length_mq_words list.distinct(1))
  then have "mq_words q ! 0 = queue q ! r" using d(2,4) by (simp add: ring_view_def)
  then have "queue q ! r = of_nat (length p)" using assms(2) by (simp add: encode_def)
  moreover have "take (Suc 0) (drop r (queue q)) = [queue q ! r]"
    using d(2,3) by (simp add: take_Suc_conv_app_nth)
  ultimately show ?thesis using wget_nat [of r 1 "queue q"] d by simp
qed

lemma put_message:
  assumes "length p \<le> length (payload m)" "length p < 2147483648"
  shows "message_put m (encode p) = Some \<lparr>msg_size = int (length p), payload = p @ drop (length p) (payload m)\<rparr>"
  using wput_nat [of 0 "encode p" "message_words m"] assms
  by (simp add: message_put_def message_words_def encode_def sint_len)

lemma dequeue_eq:
  assumes inv: "mq_inv q" and ne: "read_index q \<noteq> write_index q" and dec: "decode (mq_words q) = p # rest"
  shows "msgq_dequeue_message (Some q) None = Some (0,
      Some (q\<lparr>read_index := (read_index q + 1 + int (length p)) mod mq_size q\<rparr>), None)"
    and "msg_size m < int (length p) \<Longrightarrow> msgq_dequeue_message (Some q) (Some m)
      = Some (- ENOSPC, Some q, Some (m\<lparr>msg_size := int (length p)\<rparr>))"
    and "int (length p) \<le> msg_size m \<Longrightarrow> length p \<le> length (payload m) \<Longrightarrow>
      msgq_dequeue_message (Some q) (Some m) = Some (0,
        Some (q\<lparr>read_index := (read_index q + 1 + int (length p)) mod mq_size q\<rparr>),
        Some \<lparr>msg_size = int (length p), payload = p @ drop (length p) (payload m)\<rparr>)"
proof -
  have wf: "msgq_wf q" using inv by (simp add: mq_inv_def)
  obtain n r w where d: "mq_size q = int n" "read_index q = int r" "write_index q = int w" "r < n" "w < n"
    "n \<le> 8189" "n \<le> length (queue q)"
    using wf_nat [OF wf] by metis
  from first_message [OF inv ne] dec obtain others where
    mw: "mq_words q = encode p @ others" and pl: "length p < 8189" "Suc (length p) \<le> mq_used q"
    by (metis list.inject)
  have hw: "wget (queue q) (int r) 1 = Some [of_nat (length p)]" using head_word [OF wf mw] d(2) by simp
  have sl: "sint (of_nat (length p) :: u32) = int (length p)" using pl by (intro sint_len) simp
  define k where "k = Suc (length p)"
  have kn: "k < n" using pl(2) used_lt [OF wf] d(1) by (simp add: k_def)
  have i1: "i32 (1 + int (length p)) = int k" "i32 (int n - int r) = int (n - r)"
    using pl(1) d(4,6) by (simp_all add: k_def i32_id of_nat_diff)
  have mi: "(int r + 1 + int (length p)) mod int n = int (if r + k < n then r + k else r + k - n)"
  proof -
    have "(int r + 1 + int (length p)) mod int n = int ((r + k) mod n)" by (simp add: k_def zmod_int algebra_simps)
    also have "(r + k) mod n = (if r + k < n then r + k else r + k - n)" using d(4) kn by (simp add: mod_if)
    finally show ?thesis .
  qed
  have i2: "i32 (int r + (1 + int (length p))) = int (r + k)" "i32 (int r + 1 + int (length p)) = int (r + k)"
    using d(4,6) kn by (simp_all add: k_def i32_id)
  have i3: "n \<le> r + k \<Longrightarrow> i32 (int r + 1 + int (length p) - int n) = int (r + k - n)"
    using d(4,6) kn by (simp add: k_def i32_id of_nat_diff)
  show "msgq_dequeue_message (Some q) None = Some (0,
      Some (q\<lparr>read_index := (read_index q + 1 + int (length p)) mod mq_size q\<rparr>), None)"
    using ne hw sl i2(1) mi d(1-3) by (auto simp: msgq_dequeue_message_def Let_def of_nat_diff)
  show "msg_size m < int (length p) \<Longrightarrow> msgq_dequeue_message (Some q) (Some m)
      = Some (- ENOSPC, Some q, Some (m\<lparr>msg_size := int (length p)\<rparr>))"
    using ne hw sl d(2,3) by (simp add: msgq_dequeue_message_def Let_def)
  assume fits: "int (length p) \<le> msg_size m" "length p \<le> length (payload m)"
  have get: "ring_get (queue q) n r k = encode p"
    using words_get [OF wf pl(2)] d(1,2) mw by (simp add: k_def encode_def)
  have put: "message_put m (encode p) = Some \<lparr>msg_size = int (length p), payload = p @ drop (length p) (payload m)\<rparr>"
    using fits(2) pl(1) by (intro put_message) simp_all
  show "msgq_dequeue_message (Some q) (Some m) = Some (0,
        Some (q\<lparr>read_index := (read_index q + 1 + int (length p)) mod mq_size q\<rparr>),
        Some \<lparr>msg_size = int (length p), payload = p @ drop (length p) (payload m)\<rparr>)"
  proof (cases "k < n - r")
    case True
    then have lt: "r + k < n" by simp
    have g: "wget (queue q) (int r) (int k) = Some (encode p)"
      using wget_nat [of r k "queue q"] get lt d(7) by (simp add: ring_get_def)
    show ?thesis
      using ne hw sl i1 i2(2) mi d(1-3) fits(1) True lt g put
      by (simp add: msgq_dequeue_message_def Let_def del: of_nat_diff)
  next
    case False
    then have ge: "n \<le> r + k" "\<not> r + k < n" by simp_all
    have g: "wget (queue q) (int r) (int (n - r)) = Some (take (n - r) (drop r (queue q)))"
      "wget (queue q) 0 (int k - int (n - r)) = Some (take (k - (n - r)) (queue q))"
    proof -
      show "wget (queue q) (int r) (int (n - r)) = Some (take (n - r) (drop r (queue q)))"
        using d(4,7) by (intro wget_nat) simp
      have eq: "int k - int (n - r) = int (k - (n - r))" using ge d(4) by simp
      have "0 + (k - (n - r)) \<le> length (queue q)" using d(7) kn by simp
      from wget_nat [OF this] show "wget (queue q) 0 (int k - int (n - r)) = Some (take (k - (n - r)) (queue q))"
        unfolding eq by (simp only: int_ops(1) drop_0)
    qed
    have whole: "take (n - r) (drop r (queue q)) @ take (k - (n - r)) (queue q) = encode p"
      using get ge by (simp add: ring_get_def)
    have ns: "\<not> int k < int (n - r)" using False by simp
    show ?thesis
      using ne hw sl i1 i3 [OF ge(1)] mi d(1-3) fits(1) ns ge g whole put
      by (simp add: msgq_dequeue_message_def Let_def)
  qed
qed

subsection \<open>The queue as a first-in first-out channel\<close>

definition mq_msgs :: "msgq \<Rightarrow> u32 list list" where
  "mq_msgs q = decode (mq_words q)"

definition mq_enq :: "u32 list \<Rightarrow> msgq \<Rightarrow> msgq option" where
  "mq_enq p q =
     (if length p < 2147483647
      then (case msgq_queue_message (Some q) (Some (msg_of p)) of
              Some (r, Some q') \<Rightarrow> if r = 0 then Some q' else None | _ \<Rightarrow> None)
      else None)"

definition mq_deq :: "msgq \<Rightarrow> (u32 list \<times> msgq) option" where
  "mq_deq q =
     (case msgq_dequeue_message (Some q) (Some big_buffer) of
        Some (r, Some q', Some m) \<Rightarrow>
          if r = 0 then Some (take (nat (msg_size m)) (payload m), q') else None
      | _ \<Rightarrow> None)"

lemma enq_result:
  assumes "msgq_wf q"
  shows "mq_enq p q = (if Suc (length p) < nat (mq_size q) - mq_used q
    then Some (q\<lparr>queue := ring_put (queue q) (nat (mq_size q)) (nat (write_index q)) (encode p),
      write_index := (write_index q + 1 + int (length p)) mod mq_size q\<rparr>) else None)"
proof -
  have "Suc (length p) < nat (mq_size q) - mq_used q \<Longrightarrow> length p < 2147483647"
  proof -
    have "nat (mq_size q) \<le> 8189" using assms by (simp add: msgq_wf_def nat_le_iff)
    then show "Suc (length p) < nat (mq_size q) - mq_used q \<Longrightarrow> length p < 2147483647" by linarith
  qed
  then show ?thesis by (auto simp: mq_enq_def enqueue_eq [OF assms])
qed

lemma enq_refines:
  assumes inv: "mq_inv q" and enq: "mq_enq p q = Some q'"
  shows "mq_inv q' \<and> mq_msgs q' = mq_msgs q @ [p]"
proof -
  have wf: "msgq_wf q" using inv by (simp add: mq_inv_def)
  have room: "Suc (length p) < nat (mq_size q) - mq_used q"
    and q': "q' = q\<lparr>queue := ring_put (queue q) (nat (mq_size q)) (nat (write_index q)) (encode p),
      write_index := (write_index q + int (length (encode p))) mod mq_size q\<rparr>"
    using enq enq_result [OF wf] by (auto split: if_splits simp: encode_def algebra_simps)
  have fits: "mq_used q + length (encode p) < nat (mq_size q)" using room by (simp add: encode_def)
  from words_put [OF wf fits q'] have w: "msgq_wf q'" "mq_words q' = mq_words q @ encode p" by auto
  let ?ps = "decode (mq_words q)"
  have cat: "concat (map encode (?ps @ [p])) = mq_words q'" using inv w(2) by (simp add: mq_inv_def)
  have "length (mq_words q') < 8189" using used_max [OF w(1)] by simp
  moreover have "length (encode x) \<le> length (mq_words q')" if "x \<in> set (?ps @ [p])" for x
  proof -
    have "length (encode x) \<le> sum_list (map (length \<circ> encode) (?ps @ [p]))"
      using that by (intro member_le_sum_list) auto
    then show ?thesis unfolding cat [symmetric] by (simp add: length_concat comp_def)
  qed
  ultimately have "\<forall>x\<in>set (?ps @ [p]). length x < 2 ^ 32" by (fastforce simp: encode_def)
  from decode_encode [OF this] have "decode (mq_words q') = ?ps @ [p]" unfolding cat .
  then show ?thesis using w(1) cat by (simp add: mq_inv_def mq_msgs_def)
qed

lemma deq_empty: "mq_inv q \<Longrightarrow> read_index q = write_index q \<Longrightarrow> mq_msgs q = []"
  by (simp add: mq_msgs_def mq_words_def mq_used_def)

lemma deq_first:
  assumes inv: "mq_inv q" and ne: "read_index q \<noteq> write_index q"
  obtains p rest where "mq_msgs q = p # rest" "length p < 8189"
    "mq_inv (q\<lparr>read_index := (read_index q + 1 + int (length p)) mod mq_size q\<rparr>)"
    "mq_msgs (q\<lparr>read_index := (read_index q + 1 + int (length p)) mod mq_size q\<rparr>) = rest"
proof -
  have wf: "msgq_wf q" using inv by (simp add: mq_inv_def)
  obtain p rest where f: "mq_words q = encode p @ concat (map encode rest)" "decode (mq_words q) = p # rest"
    "length p < 8189" "Suc (length p) \<le> mq_used q"
    "concat (map encode (decode (concat (map encode rest)))) = concat (map encode rest)"
    "decode (concat (map encode rest)) = rest"
    by (rule first_message [OF inv ne])
  let ?q = "q\<lparr>read_index := (read_index q + 1 + int (length p)) mod mq_size q\<rparr>"
  have "?q = q\<lparr>read_index := (read_index q + int (Suc (length p))) mod mq_size q\<rparr>"
    by (simp add: algebra_simps)
  from words_skip [OF wf f(4) this] f(1)
  have "msgq_wf ?q" "mq_words ?q = concat (map encode rest)" by (simp_all add: encode_def)
  with f show ?thesis by (intro that [of p rest]) (simp_all add: mq_inv_def mq_msgs_def)
qed

lemma deq_refines:
  assumes inv: "mq_inv q" and deq: "mq_deq q = Some (p, q')"
  shows "mq_inv q' \<and> mq_msgs q = p # mq_msgs q'"
proof -
  have ne: "read_index q \<noteq> write_index q"
    using deq by (auto simp: mq_deq_def msgq_dequeue_message_def big_buffer_def)
  obtain x rest where f: "mq_msgs q = x # rest" "length x < 8189"
    "mq_inv (q\<lparr>read_index := (read_index q + 1 + int (length x)) mod mq_size q\<rparr>)"
    "mq_msgs (q\<lparr>read_index := (read_index q + 1 + int (length x)) mod mq_size q\<rparr>) = rest"
    by (rule deq_first [OF inv ne])
  have "int (length x) \<le> msg_size big_buffer" "length x \<le> length (payload big_buffer)"
    using f(2) by (simp_all add: big_buffer_def)
  from dequeue_eq(3) [OF inv ne f(1) [unfolded mq_msgs_def] this] deq f show ?thesis
    by (auto simp: mq_deq_def)
qed

lemma deq_none:
  assumes inv: "mq_inv q" and deq: "mq_deq q = None"
  shows "mq_msgs q = []"
proof (rule ccontr)
  assume "mq_msgs q \<noteq> []"
  then have ne: "read_index q \<noteq> write_index q" using deq_empty [OF inv] by blast
  obtain x rest where f: "mq_msgs q = x # rest" "length x < 8189" by (rule deq_first [OF inv ne])
  have "int (length x) \<le> msg_size big_buffer" "length x \<le> length (payload big_buffer)"
    using f(2) by (simp_all add: big_buffer_def)
  from dequeue_eq(3) [OF inv ne f(1) [unfolded mq_msgs_def] this] deq show False by (simp add: mq_deq_def)
qed

interpretation msgq: bounded_fifo mq_inv mq_msgs "\<lambda>p. p" mq_enq mq_deq
  by unfold_locales (auto dest: enq_refines deq_refines intro: deq_none)

lemma init_ok:
  assumes "0 < sz" "sz \<le> MSGQ_MAX_QUEUE_WSIZE" "sz \<le> int (length (queue q))"
  shows "mq_inv (msgq_init q sz) \<and> mq_msgs (msgq_init q sz) = []"
proof -
  have "uint (word_of_int sz :: u64) = sz"
    using assms(1,2) by (simp add: uint_word_of_int_eq take_bit_int_eq_self)
  then show ?thesis
    using assms by (simp add: msgq_init_def mq_inv_def msgq_wf_def mq_msgs_def mq_words_def mq_used_def Let_def)
qed

subsection \<open>Properties\<close>

definition demo_space :: msgq where
  "demo_space = \<lparr>mq_size = 0, write_index = 9, read_index = 9, queue = [7, 7, 7, 7, 7, 7]\<rparr>"

text \<open>
  C10. From initialisation on, whatever messages of whatever sizes are queued and dequeued, the
  messages delivered are the messages accepted, whole, in order and without loss; messages may wrap
  around the end of the space.
\<close>

theorem msgq_fifo:
  assumes "0 < sz" "sz \<le> MSGQ_MAX_QUEUE_WSIZE" "sz \<le> int (length (queue q))"
    and "fifo_run mq_enq mq_deq ops (msgq_init q sz) = (sent, received, q')"
  shows "received = take (length received) sent \<and> mq_msgs q' = drop (length received) sent \<and> mq_inv q'"
  using msgq.run_no_loss [of "msgq_init q sz"] msgq.run_inv [of "msgq_init q sz"] init_ok [OF assms(1-3)] assms(4)
  by fastforce

theorem msgq_fifo_witness:
  "\<exists>q'. fifo_run mq_enq mq_deq [Send [1, 2], Send [3, 4, 5], Send [6]] (msgq_init demo_space 6)
      = ([[1, 2], [6]], [], q') \<and> mq_msgs q' = [[1, 2], [6]]"
proof -
  obtain q' where r: "fifo_run mq_enq mq_deq [Send [1, 2], Send [3, 4, 5], Send [6]] (msgq_init demo_space 6)
      = ([[1, 2], [6]], [], q')"
    by (simp add: demo_space_def msgq_init_def mq_enq_def msgq_queue_message_def msg_of_def
      message_words_def wget_def wput_def i32_id)
  show ?thesis using msgq_fifo [OF _ _ _ r] r by (auto simp: demo_space_def)
qed

text \<open>
  A message is accepted exactly when its header and payload leave at least one word of the
  space free; a refused message changes nothing.
\<close>

theorem msgq_accepts:
  assumes "msgq_wf q" "length p < 2147483647"
  shows "if mq_used q + 1 + length p < nat (mq_size q)
    then (\<exists>q'. msgq_queue_message (Some q) (Some (msg_of p)) = Some (0, Some q'))
    else msgq_queue_message (Some q) (Some (msg_of p)) = Some (- ENOSPC, Some q)"
  using enqueue_eq [OF assms] by auto

theorem msgq_accepts_witness:
  "msgq_queue_message (Some (msgq_init demo_space 6)) (Some (msg_of [1, 2, 3, 4, 5]))
    = Some (- ENOSPC, Some (msgq_init demo_space 6))"
proof -
  have "msgq_wf (msgq_init demo_space 6)" using init_ok [of 6 demo_space] by (simp add: mq_inv_def demo_space_def)
  from msgq_accepts [OF this, of "[1, 2, 3, 4, 5]"] show ?thesis
    by (simp add: msgq_init_def demo_space_def mq_used_def)
qed

text \<open>
  A buffer that is too small gets the size of the first message and the queue is unchanged, so
  that a second attempt with a buffer of the size reported delivers that message.
\<close>

theorem msgq_dequeue_retry:
  assumes "mq_inv q" "mq_msgs q = p # rest" "msg_size m < int (length p)"
  shows "msgq_dequeue_message (Some q) (Some m) = Some (- ENOSPC, Some q, Some (m\<lparr>msg_size := int (length p)\<rparr>))
    \<and> (\<forall>buf. length buf = length p \<longrightarrow> (\<exists>q'. mq_msgs q' = rest \<and> mq_inv q' \<and>
        msgq_dequeue_message (Some q) (Some \<lparr>msg_size = int (length p), payload = buf\<rparr>)
          = Some (0, Some q', Some \<lparr>msg_size = int (length p), payload = p\<rparr>)))"
proof -
  have ne: "read_index q \<noteq> write_index q" using deq_empty [OF assms(1)] assms(2) by auto
  have dec: "decode (mq_words q) = p # rest" using assms(2) by (simp add: mq_msgs_def)
  obtain x others where f: "mq_msgs q = x # others"
    "mq_inv (q\<lparr>read_index := (read_index q + 1 + int (length x)) mod mq_size q\<rparr>)"
    "mq_msgs (q\<lparr>read_index := (read_index q + 1 + int (length x)) mod mq_size q\<rparr>) = others"
    by (rule deq_first [OF assms(1) ne])
  then show ?thesis
    using dequeue_eq(2) [OF assms(1) ne dec assms(3)] assms(2)
      dequeue_eq(3) [OF assms(1) ne dec, of "\<lparr>msg_size = int (length p), payload = _\<rparr>"]
    by auto
qed

theorem msgq_dequeue_retry_witness:
  "\<exists>q. mq_enq [1, 2] (msgq_init demo_space 6) = Some q \<and>
     (\<exists>m'. msgq_dequeue_message (Some q) (Some \<lparr>msg_size = 1, payload = [0]\<rparr>) = Some (- ENOSPC, Some q, Some m')
        \<and> msg_size m' = 2)"
proof -
  have i: "mq_inv (msgq_init demo_space 6)" "mq_msgs (msgq_init demo_space 6) = []"
    using init_ok [of 6 demo_space] by (simp_all add: demo_space_def)
  obtain q where q: "mq_enq [1, 2] (msgq_init demo_space 6) = Some q"
    using enq_result [of "msgq_init demo_space 6" "[1, 2]"] i(1)
    by (simp add: mq_inv_def msgq_init_def demo_space_def mq_used_def)
  from enq_refines [OF i(1) q] i(2) have "mq_inv q" "mq_msgs q = [[1, 2]]" by simp_all
  from msgq_dequeue_retry [OF this, of "\<lparr>msg_size = 1, payload = [0]\<rparr>"] q show ?thesis by auto
qed

text \<open>
  A negative size is not refused: compared as an unsigned number it is above the maximum, and
  the queue is set up with 8189 words whatever space there is behind it.
\<close>

theorem msgq_init_negative:
  assumes "- 2147483648 \<le> sz" "sz < 0"
  shows "mq_size (msgq_init q sz) = 8189"
proof -
  have "uint (word_of_int sz :: u64) = sz mod 18446744073709551616"
    by (simp add: uint_word_of_int)
  also have "\<dots> = (sz + 18446744073709551616) mod 18446744073709551616" by simp
  also have "\<dots> = sz + 18446744073709551616" using assms by (intro mod_pos_pos_trivial) simp_all
  finally show ?thesis using assms by (simp add: msgq_init_def Let_def)
qed

theorem msgq_init_negative_witness: "mq_size (msgq_init demo_space (- 1)) = 8189"
  using msgq_init_negative [of "- 1"] by simp

end
