(* ===== verification/Dce_Fsm.thy ===== *)
theory Dce_Fsm
  imports Prelude
begin

text \<open>
  The display controller engine driver, \<open>drivers/platform/tegra/dce\<close>: its state, the hardware
  synchronisation registers (\<open>dce-hsp-smb.c\<close>, \<open>dce-hsp-ss.c\<close>), the wait conditions
  (\<open>dce-worker.c\<close>) and the state machine (\<open>dce-fsm.c\<close>).

  An operation maps the driver state to its result and the new state; \<open>None\<close> means that it does
  not return: it locks a mutex that is never released, or uses a null pointer. What other contexts
  do while a thread sleeps on a wait condition is the function \<open>while_waiting\<close> of the world
  record; the results of allocations, of the semaphore registers and of \<open>dce-ipc.c\<close> are further
  fields of it. The state machine's mutex is never held across a call, so it is not a field.
\<close>

subsection \<open>State\<close>

datatype dce_event =
    EVENT_ID_DCE_INVALID | EVENT_ID_DCE_FSM_START
  | EVENT_ID_DCE_BOOT_COMPLETE_REQUESTED | EVENT_ID_DCE_BOOT_COMPLETE_RECEIVED
  | EVENT_ID_DCE_BOOT_CMD_MSG_REQUESTED | EVENT_ID_DCE_BOOT_CMD_MSG_RECEIVED
  | EVENT_ID_DCE_ADMIN_IPC_MSG_REQUESTED | EVENT_ID_DCE_ADMIN_IPC_MSG_RECEIVED
  | EVENT_ID_DCE_SC7_ENTER_REQUESTED | EVENT_ID_DCE_SC7_ENTERED_RECEIVED
  | EVENT_ID_DCE_SC7_EXIT_RECEIVED | EVENT_ID_DCE_LOG_REQUESTED | EVENT_ID_DCE_LOG_READY_RECEIVED
  | EVENT_ID_DCE_ABORT_RECEIVED | EVENT_ID_DCE_CRASH_LOG_RECEIVED
  | EVENT_ID_DCE_LOG_OVERFLOW_RECEIVED | EVENT_ID_DCE_FSM_STOP

datatype dce_fsm_state =
    STATE_DCE_INVALID | STATE_DCE_FSM_IDLE | STATE_DCE_BOOT_WAIT | STATE_DCE_BOOTCMD_WFI
  | STATE_DCE_ADMIN_WFI | STATE_DCE_SC7_ENTER_WFI | STATE_DCE_SC7_ENTERED
  | STATE_DCE_LOG_READY_WFI | STATE_DCE_ABORT

abbreviation (input) DCE_WAIT_BOOT_COMPLETE :: nat where "DCE_WAIT_BOOT_COMPLETE \<equiv> 0"
abbreviation (input) DCE_WAIT_BOOT_CMD :: nat where "DCE_WAIT_BOOT_CMD \<equiv> 1"
abbreviation (input) DCE_WAIT_ADMIN_IPC :: nat where "DCE_WAIT_ADMIN_IPC \<equiv> 2"
abbreviation (input) DCE_WAIT_SC7_ENTER :: nat where "DCE_WAIT_SC7_ENTER \<equiv> 3"
abbreviation (input) DCE_WAIT_LOG :: nat where "DCE_WAIT_LOG \<equiv> 4"
abbreviation (input) DCE_MAX_WAIT :: nat where "DCE_MAX_WAIT \<equiv> 5"
abbreviation (input) DCE_MAX_HSP :: nat where "DCE_MAX_HSP \<equiv> 3"

definition DCE_BIT :: "nat \<Rightarrow> u32" where "DCE_BIT b = push_bit b 1"

datatype mb_wait_fn = No_wait | Wait_boot_interface
datatype mb_notify_fn = No_notify | Notify_boot | Notify_ipc

record mailbox_interface =
  s_mb :: nat
  r_mb :: nat
  mb_valid :: bool
  mb_locked :: bool
  ack_value :: u32
  mb_wait :: mb_wait_fn
  mb_notify :: mb_notify_fn

record ipc_create_args =
  ipc_type :: u32
  rd_iova :: u64
  wr_iova :: u64
  fsize :: u32
  n_frames :: u32

record ipc_message =
  tx_cmd :: u32
  tx_create :: ipc_create_args
  rx_error :: u32
  rx_version :: u32

text \<open>
  Messages on the heap are known by their pointer. \<open>fw_log\<close> is no field of the driver, which never touches it: the firmware
  of the theorems on boot commands notes there the commands that it takes out of its mailbox.
\<close>

record tegra_dce =
  initialized :: bool
  c_state :: dce_fsm_state
  requested_ipcs :: u32
  wait_complete :: "nat \<Rightarrow> bool"
  d_mb :: "nat \<Rightarrow> mailbox_interface"
  hsp_id :: nat
  smb :: "nat \<Rightarrow> u32"
  smb_full_ie :: "nat \<Rightarrow> u32"
  hsp_ie :: "nat \<Rightarrow> u32"
  hsp_ir :: u32
  ss :: "nat \<Rightarrow> u32"
  boot_status :: u32
  boot_complete :: bool
  sc7_hsp_ie :: u32
  bootstrap_works :: nat
  resume_works :: nat
  bootstrap_broadcasts :: nat
  msgs :: "nat \<Rightarrow> ipc_message option"
  alloc_count :: nat
  fw_log :: "u32 list"

record queue_info =
  q_tx_iova :: u64
  q_rx_iova :: u64
  q_nframes :: u8
  q_frame_sz :: u32

text \<open>
  What the driver of this theory calls or waits for. The functions of \<open>dce-ipc.c\<close> and \<open>dce-client-ipc.c\<close> (\<open>ipc_channel_reset\<close>,
  \<open>ipc_send_sync\<close>, \<open>ipc_send\<close>) are modelled in \<open>Dce_Ipc\<close> and \<open>Dce_Client\<close> on the larger state of the channels; here they are
  fields of the world. The first two may not return (\<open>None\<close>): they wait for the firmware without a bound.
\<close>

record dce_world =
  while_waiting :: "nat \<Rightarrow> tegra_dce \<Rightarrow> tegra_dce"
  ss_write_set :: "u32 \<Rightarrow> u32 \<Rightarrow> u32"
  ss_write_clr :: "u32 \<Rightarrow> u32 \<Rightarrow> u32"
  kzalloc_ok :: "nat \<Rightarrow> bool"
  stream_id :: u32
  ipc_region_iova :: "int \<times> u64 \<times> u32"
  ipc_channel_info :: "nat \<Rightarrow> int \<times> queue_info"
  ipc_get_type :: "nat \<Rightarrow> u32"
  ipc_channel_reset :: "nat \<Rightarrow> tegra_dce \<Rightarrow> tegra_dce option"
  ipc_send_sync :: "ipc_message \<Rightarrow> tegra_dce \<Rightarrow> (int \<times> ipc_message \<times> tegra_dce) option"
  ipc_send :: "ipc_message \<Rightarrow> tegra_dce \<Rightarrow> int \<times> tegra_dce"
  ipc_notified :: "nat \<Rightarrow> tegra_dce \<Rightarrow> tegra_dce"

subsection \<open>Shared mailboxes, interrupt enables and semaphores\<close>

text \<open>
  The register tables have eight entries for the first HSP instance and none for the other two, so
  that the entries used there are null pointers.
\<close>

definition hsp_guard :: "nat \<Rightarrow> nat \<Rightarrow> tegra_dce \<Rightarrow> 'a \<Rightarrow> 'a \<Rightarrow> 'a option" where
  "hsp_guard i n d invalid r =
     (if i \<ge> n \<or> hsp_id d \<ge> DCE_MAX_HSP then Some invalid else if hsp_id d \<noteq> 0 then None else Some r)"

definition dce_smb_set :: "u32 \<Rightarrow> nat \<Rightarrow> tegra_dce \<Rightarrow> tegra_dce option" where
  "dce_smb_set val i d = hsp_guard i 8 d d (d\<lparr>smb := (smb d)(i := val)\<rparr>)"

definition dce_smb_read :: "nat \<Rightarrow> tegra_dce \<Rightarrow> u32 option" where
  "dce_smb_read i d = hsp_guard i 8 d 0xffffffff (smb d i)"

definition dce_smb_set_full_ie :: "bool \<Rightarrow> nat \<Rightarrow> tegra_dce \<Rightarrow> tegra_dce option" where
  "dce_smb_set_full_ie en i d =
     hsp_guard i 8 d d (d\<lparr>smb_full_ie := (smb_full_ie d)(i := (if en then 1 else 0))\<rparr>)"

definition dce_smb_read_full_ie :: "nat \<Rightarrow> tegra_dce \<Rightarrow> u32 option" where
  "dce_smb_read_full_ie i d = hsp_guard i 8 d 0xffffffff (smb_full_ie d i)"

definition dce_hsp_ie_read :: "nat \<Rightarrow> tegra_dce \<Rightarrow> u32 option" where
  "dce_hsp_ie_read i d = hsp_guard i 8 d 0xffffffff (hsp_ie d i)"

definition dce_hsp_ie_write :: "u32 \<Rightarrow> nat \<Rightarrow> tegra_dce \<Rightarrow> tegra_dce option" where
  "dce_hsp_ie_write val i d =
     hsp_guard i 8 d d (d\<lparr>hsp_ie := (hsp_ie d)(i := val OR hsp_ie d i)\<rparr>)"

definition dce_hsp_ir_read :: "tegra_dce \<Rightarrow> u32 option" where
  "dce_hsp_ir_read d = hsp_guard 0 1 d 0xffffffff (hsp_ir d)"

text \<open>\<open>dce_ss_get_state\<close> has no check.\<close>

definition dce_ss_get_state :: "nat \<Rightarrow> tegra_dce \<Rightarrow> u32 option" where
  "dce_ss_get_state i d = (if hsp_id d = 0 \<and> i < 4 then Some (ss d i) else None)"

definition dce_ss_set :: "dce_world \<Rightarrow> nat \<Rightarrow> nat \<Rightarrow> tegra_dce \<Rightarrow> tegra_dce option" where
  "dce_ss_set W bpos i d =
     (if hsp_id d \<ge> DCE_MAX_HSP \<or> i \<ge> 4 then Some d
      else do {
        val \<leftarrow> dce_ss_get_state i d;
        let val = val OR DCE_BIT bpos;
        Some (d\<lparr>ss := (ss d)(i := ss_write_set W val (ss d i))\<rparr>)
      })"

definition dce_ss_clear :: "dce_world \<Rightarrow> nat \<Rightarrow> nat \<Rightarrow> tegra_dce \<Rightarrow> tegra_dce option" where
  "dce_ss_clear W bpos i d =
     (if hsp_id d \<ge> DCE_MAX_HSP \<or> i \<ge> 4 then Some d
      else do {
        val \<leftarrow> dce_ss_get_state i d;
        let val = val OR DCE_BIT bpos;
        Some (d\<lparr>ss := (ss d)(i := ss_write_clr W val (ss d i))\<rparr>)
      })"

subsection \<open>Wait conditions\<close>

definition dce_wait_interruptible :: "dce_world \<Rightarrow> nat \<Rightarrow> tegra_dce \<Rightarrow> int \<times> tegra_dce" where
  "dce_wait_interruptible W msg_id d =
     (if msg_id \<ge> DCE_MAX_WAIT then (- EINVAL, d)
      else
        let d = (if wait_complete d msg_id then d else while_waiting W msg_id d)
        in if \<not> wait_complete d msg_id then (- EINTR, d)
           else (0, d\<lparr>wait_complete := (wait_complete d)(msg_id := False)\<rparr>))"

definition dce_wakeup_interruptible :: "nat \<Rightarrow> tegra_dce \<Rightarrow> tegra_dce" where
  "dce_wakeup_interruptible msg_id d =
     (if msg_id \<ge> DCE_MAX_WAIT then d else d\<lparr>wait_complete := (wait_complete d)(msg_id := True)\<rparr>)"

definition dce_cond_wait_reset :: "nat \<Rightarrow> tegra_dce \<Rightarrow> tegra_dce" where
  "dce_cond_wait_reset msg_id d =
     (if msg_id \<ge> DCE_MAX_WAIT then d else d\<lparr>wait_complete := (wait_complete d)(msg_id := False)\<rparr>)"

text \<open>
  The set-up of the conditions: the outcomes of the initialisations, and the conditions that are
  initialised (\<open>Inl ()\<close> is \<open>dce_bootstrap_done\<close>) and destroyed, in order.
\<close>

fun cond_destroy_down :: "nat \<Rightarrow> (unit + nat) list" where
  "cond_destroy_down 0 = [Inr 0]"
| "cond_destroy_down (Suc i) = Inr (Suc i) # cond_destroy_down i"

fun cond_init_from :: "(nat \<Rightarrow> bool) \<Rightarrow> nat \<Rightarrow> nat \<Rightarrow> int \<times> (unit + nat) list \<times> (unit + nat) list" where
  "cond_init_from ok i 0 = (0, [], [])"
| "cond_init_from ok i (Suc k) =
     (if \<not> ok i then (- 1, [], cond_destroy_down i @ [Inl ()])
      else case cond_init_from ok (Suc i) k of (r, made, gone) \<Rightarrow> (r, Inr i # made, gone))"

definition dce_work_cond_sw_resource_init ::
  "int \<Rightarrow> int \<Rightarrow> bool \<Rightarrow> (nat \<Rightarrow> bool) \<Rightarrow> int \<times> (unit + nat) list \<times> (unit + nat) list" where
  "dce_work_cond_sw_resource_init boot_work resume_work done_ok ok =
     (if boot_work \<noteq> 0 then (boot_work, [], [])
      else if resume_work \<noteq> 0 then (resume_work, [], [])
      else if \<not> done_ok then (- 1, [], [])
      else case cond_init_from ok 0 DCE_MAX_WAIT of (r, made, gone) \<Rightarrow> (r, Inl () # made, gone))"

definition dce_work_cond_sw_resource_deinit :: "tegra_dce \<Rightarrow> tegra_dce \<times> (unit + nat) list" where
  "dce_work_cond_sw_resource_deinit d =
     (d\<lparr>wait_complete := (\<lambda>i. if i < DCE_MAX_WAIT then False else wait_complete d i)\<rparr>,
      map Inr [0..<DCE_MAX_WAIT] @ [Inl ()])"

subsection \<open>The state machine\<close>

definition event_num :: "dce_event \<Rightarrow> int" where
  "event_num ev = (case ev of
     EVENT_ID_DCE_INVALID \<Rightarrow> - 1 | EVENT_ID_DCE_FSM_START \<Rightarrow> 0
   | EVENT_ID_DCE_BOOT_COMPLETE_REQUESTED \<Rightarrow> 1 | EVENT_ID_DCE_BOOT_COMPLETE_RECEIVED \<Rightarrow> 2
   | EVENT_ID_DCE_BOOT_CMD_MSG_REQUESTED \<Rightarrow> 3 | EVENT_ID_DCE_BOOT_CMD_MSG_RECEIVED \<Rightarrow> 4
   | EVENT_ID_DCE_ADMIN_IPC_MSG_REQUESTED \<Rightarrow> 5 | EVENT_ID_DCE_ADMIN_IPC_MSG_RECEIVED \<Rightarrow> 6
   | EVENT_ID_DCE_SC7_ENTER_REQUESTED \<Rightarrow> 7 | EVENT_ID_DCE_SC7_ENTERED_RECEIVED \<Rightarrow> 8
   | EVENT_ID_DCE_SC7_EXIT_RECEIVED \<Rightarrow> 9 | EVENT_ID_DCE_LOG_REQUESTED \<Rightarrow> 10
   | EVENT_ID_DCE_LOG_READY_RECEIVED \<Rightarrow> 11 | EVENT_ID_DCE_ABORT_RECEIVED \<Rightarrow> 12
   | EVENT_ID_DCE_CRASH_LOG_RECEIVED \<Rightarrow> 13 | EVENT_ID_DCE_LOG_OVERFLOW_RECEIVED \<Rightarrow> 14
   | EVENT_ID_DCE_FSM_STOP \<Rightarrow> 15)"

definition dce_fsm_set_state :: "dce_event \<Rightarrow> tegra_dce \<Rightarrow> tegra_dce" where
  "dce_fsm_set_state ev d =
     (let enter = (\<lambda>s b. d\<lparr>c_state := s, requested_ipcs := requested_ipcs d OR DCE_BIT b\<rparr>);
          leave = (\<lambda>s b. d\<lparr>c_state := s, requested_ipcs := requested_ipcs d AND NOT (DCE_BIT b)\<rparr>)
      in case ev of
        EVENT_ID_DCE_FSM_START \<Rightarrow> d\<lparr>c_state := STATE_DCE_FSM_IDLE, requested_ipcs := 0\<rparr>
      | EVENT_ID_DCE_BOOT_COMPLETE_REQUESTED \<Rightarrow> enter STATE_DCE_BOOT_WAIT DCE_WAIT_BOOT_COMPLETE
      | EVENT_ID_DCE_BOOT_COMPLETE_RECEIVED \<Rightarrow> leave STATE_DCE_FSM_IDLE DCE_WAIT_BOOT_COMPLETE
      | EVENT_ID_DCE_BOOT_CMD_MSG_REQUESTED \<Rightarrow> enter STATE_DCE_BOOTCMD_WFI DCE_WAIT_BOOT_CMD
      | EVENT_ID_DCE_BOOT_CMD_MSG_RECEIVED \<Rightarrow> leave STATE_DCE_FSM_IDLE DCE_WAIT_BOOT_CMD
      | EVENT_ID_DCE_ADMIN_IPC_MSG_REQUESTED \<Rightarrow> enter STATE_DCE_ADMIN_WFI DCE_WAIT_ADMIN_IPC
      | EVENT_ID_DCE_ADMIN_IPC_MSG_RECEIVED \<Rightarrow> leave STATE_DCE_FSM_IDLE DCE_WAIT_ADMIN_IPC
      | EVENT_ID_DCE_SC7_ENTER_REQUESTED \<Rightarrow> enter STATE_DCE_SC7_ENTER_WFI DCE_WAIT_SC7_ENTER
      | EVENT_ID_DCE_SC7_ENTERED_RECEIVED \<Rightarrow> leave STATE_DCE_SC7_ENTERED DCE_WAIT_SC7_ENTER
      | EVENT_ID_DCE_SC7_EXIT_RECEIVED \<Rightarrow> d\<lparr>c_state := STATE_DCE_FSM_IDLE, requested_ipcs := 0\<rparr>
      | EVENT_ID_DCE_LOG_REQUESTED \<Rightarrow> enter STATE_DCE_LOG_READY_WFI DCE_WAIT_LOG
      | EVENT_ID_DCE_LOG_READY_RECEIVED \<Rightarrow> leave STATE_DCE_FSM_IDLE DCE_WAIT_LOG
      | EVENT_ID_DCE_FSM_STOP \<Rightarrow> d\<lparr>c_state := STATE_DCE_INVALID\<rparr>
      | EVENT_ID_DCE_ABORT_RECEIVED \<Rightarrow> d\<lparr>c_state := STATE_DCE_ABORT\<rparr>
      | EVENT_ID_DCE_CRASH_LOG_RECEIVED \<Rightarrow> d\<lparr>c_state := STATE_DCE_ABORT\<rparr>
      | EVENT_ID_DCE_LOG_OVERFLOW_RECEIVED \<Rightarrow> d\<lparr>c_state := STATE_DCE_ABORT\<rparr>
      | EVENT_ID_DCE_INVALID \<Rightarrow> d)"

definition dce_fsm_validate_event :: "tegra_dce \<Rightarrow> dce_event \<Rightarrow> int" where
  "dce_fsm_validate_event d ev =
     (if event_num ev > event_num EVENT_ID_DCE_FSM_STOP then - EINVAL
      else if \<not> initialized d then - EINVAL
      else case c_state d of
        STATE_DCE_INVALID \<Rightarrow> if ev = EVENT_ID_DCE_FSM_START then 0 else - EINVAL
      | STATE_DCE_FSM_IDLE \<Rightarrow>
          if ev \<in> {EVENT_ID_DCE_BOOT_COMPLETE_RECEIVED, EVENT_ID_DCE_BOOT_CMD_MSG_RECEIVED,
                    EVENT_ID_DCE_ADMIN_IPC_MSG_RECEIVED, EVENT_ID_DCE_SC7_ENTERED_RECEIVED,
                    EVENT_ID_DCE_LOG_READY_RECEIVED, EVENT_ID_DCE_FSM_START}
          then - EINVAL else 0
      | STATE_DCE_BOOT_WAIT \<Rightarrow>
          if ev \<in> {EVENT_ID_DCE_BOOT_COMPLETE_RECEIVED, EVENT_ID_DCE_ABORT_RECEIVED,
                    EVENT_ID_DCE_CRASH_LOG_RECEIVED, EVENT_ID_DCE_SC7_ENTER_REQUESTED,
                    EVENT_ID_DCE_LOG_OVERFLOW_RECEIVED, EVENT_ID_DCE_FSM_STOP}
          then 0 else - EINVAL
      | STATE_DCE_BOOTCMD_WFI \<Rightarrow>
          if ev \<in> {EVENT_ID_DCE_BOOT_CMD_MSG_RECEIVED, EVENT_ID_DCE_ABORT_RECEIVED,
                    EVENT_ID_DCE_CRASH_LOG_RECEIVED, EVENT_ID_DCE_SC7_ENTER_REQUESTED,
                    EVENT_ID_DCE_LOG_OVERFLOW_RECEIVED, EVENT_ID_DCE_FSM_STOP}
          then 0 else - EINVAL
      | STATE_DCE_ADMIN_WFI \<Rightarrow>
          if ev \<in> {EVENT_ID_DCE_ADMIN_IPC_MSG_RECEIVED, EVENT_ID_DCE_ABORT_RECEIVED,
                    EVENT_ID_DCE_CRASH_LOG_RECEIVED, EVENT_ID_DCE_SC7_ENTER_REQUESTED,
                    EVENT_ID_DCE_LOG_OVERFLOW_RECEIVED, EVENT_ID_DCE_FSM_STOP}
          then 0 else - EINVAL
      | STATE_DCE_SC7_ENTER_WFI \<Rightarrow>
          if ev \<in> {EVENT_ID_DCE_SC7_ENTERED_RECEIVED, EVENT_ID_DCE_ABORT_RECEIVED,
                    EVENT_ID_DCE_CRASH_LOG_RECEIVED, EVENT_ID_DCE_LOG_OVERFLOW_RECEIVED,
                    EVENT_ID_DCE_FSM_STOP}
          then 0 else - EINVAL
      | STATE_DCE_LOG_READY_WFI \<Rightarrow>
          if ev \<in> {EVENT_ID_DCE_LOG_READY_RECEIVED, EVENT_ID_DCE_ABORT_RECEIVED,
                    EVENT_ID_DCE_CRASH_LOG_RECEIVED, EVENT_ID_DCE_SC7_ENTER_REQUESTED,
                    EVENT_ID_DCE_LOG_OVERFLOW_RECEIVED, EVENT_ID_DCE_FSM_STOP}
          then 0 else - EINVAL
      | STATE_DCE_SC7_ENTERED \<Rightarrow> if ev = EVENT_ID_DCE_SC7_EXIT_RECEIVED then 0 else - EINVAL
      | STATE_DCE_ABORT \<Rightarrow> 0)"

datatype dce_params = No_params | Mbox_params u32 nat | Admin_params nat

type_synonym dce_handler = "dce_params \<Rightarrow> tegra_dce \<Rightarrow> (int \<times> tegra_dce) option"
type_synonym dce_table = "(dce_event \<times> dce_handler) list"

fun dce_fsm_get_event_index :: "dce_table \<Rightarrow> dce_event \<Rightarrow> nat" where
  "dce_fsm_get_event_index [] ev = 0"
| "dce_fsm_get_event_index (e # es) ev = (if fst e = ev then 0 else Suc (dce_fsm_get_event_index es ev))"

definition dce_fsm_post_event :: "dce_table \<Rightarrow> dce_event \<Rightarrow> dce_handler" where
  "dce_fsm_post_event table ev data d =
     (let ret = dce_fsm_validate_event d ev
      in if ret \<noteq> 0 then Some (ret, d)
         else
           let prev_state = c_state d;
               d = dce_fsm_set_state ev d;
               i = dce_fsm_get_event_index table ev
           in if i < length table then do {
                (ret, d) \<leftarrow> snd (table ! i) data d;
                Some (ret, if ret \<noteq> 0 then d\<lparr>c_state := prev_state\<rparr> else d)
              } else Some (0, d))"

definition dce_handle_fsm_start_event :: dce_handler where
  "dce_handle_fsm_start_event params d = Some (0, d)"

definition dce_handle_event_stub :: dce_handler where
  "dce_handle_event_stub params d = Some (0, d)"

definition dce_fsm_start :: "tegra_dce \<Rightarrow> tegra_dce" where
  "dce_fsm_start d = d\<lparr>bootstrap_works := bootstrap_works d + 1\<rparr>"

definition dce_fsm_stop :: "dce_table \<Rightarrow> tegra_dce \<Rightarrow> tegra_dce option" where
  "dce_fsm_stop table d = map_option snd (dce_fsm_post_event table EVENT_ID_DCE_FSM_STOP No_params d)"

definition dce_fsm_init :: "int \<Rightarrow> tegra_dce \<Rightarrow> int \<times> tegra_dce" where
  "dce_fsm_init mutex_result d =
     (let d = d\<lparr>c_state := STATE_DCE_INVALID\<rparr>
      in if mutex_result \<noteq> 0 then (mutex_result, d) else (0, d\<lparr>initialized := True\<rparr>))"

definition dce_fsm_deinit :: "tegra_dce \<Rightarrow> tegra_dce" where
  "dce_fsm_deinit d = d\<lparr>initialized := False\<rparr>"

subsection \<open>Lemmas\<close>

lemma hsp_guard_ok: "i < n \<Longrightarrow> hsp_id d = 0 \<Longrightarrow> hsp_guard i n d x r = Some r"
  by (simp add: hsp_guard_def)

lemma event_num_le: "\<not> event_num ev > event_num EVENT_ID_DCE_FSM_STOP"
  by (cases ev) (simp_all add: event_num_def)

lemma post_refused:
  "dce_fsm_validate_event d ev \<noteq> 0 \<Longrightarrow>
   dce_fsm_post_event table ev data d = Some (dce_fsm_validate_event d ev, d)"
  by (simp add: dce_fsm_post_event_def Let_def)

lemma post_accepted:
  "dce_fsm_validate_event d ev = 0 \<Longrightarrow> dce_fsm_get_event_index table ev < length table \<Longrightarrow>
   dce_fsm_post_event table ev data d = (case snd (table ! dce_fsm_get_event_index table ev) data
       (dce_fsm_set_state ev d) of None \<Rightarrow> None
     | Some (ret, d') \<Rightarrow> Some (ret, if ret \<noteq> 0 then d'\<lparr>c_state := c_state d\<rparr> else d'))"
  by (simp add: dce_fsm_post_event_def Let_def split: option.splits)

subsection \<open>Properties\<close>

text \<open>The replies of the firmware and the states that wait for them.\<close>

definition reply_states :: "(dce_event \<times> dce_fsm_state) list" where
  "reply_states =
    [(EVENT_ID_DCE_BOOT_COMPLETE_RECEIVED, STATE_DCE_BOOT_WAIT),
     (EVENT_ID_DCE_BOOT_CMD_MSG_RECEIVED, STATE_DCE_BOOTCMD_WFI),
     (EVENT_ID_DCE_ADMIN_IPC_MSG_RECEIVED, STATE_DCE_ADMIN_WFI),
     (EVENT_ID_DCE_SC7_ENTERED_RECEIVED, STATE_DCE_SC7_ENTER_WFI),
     (EVENT_ID_DCE_LOG_READY_RECEIVED, STATE_DCE_LOG_READY_WFI)]"

definition demo_mb :: mailbox_interface where
  "demo_mb = \<lparr>s_mb = 6, r_mb = 7, mb_valid = False, mb_locked = False, ack_value = 0,
     mb_wait = Wait_boot_interface, mb_notify = Notify_boot\<rparr>"

definition demo_dce :: tegra_dce where
  "demo_dce = \<lparr>initialized = True, c_state = STATE_DCE_FSM_IDLE, requested_ipcs = 0,
     wait_complete = (\<lambda>_. False), d_mb = (\<lambda>i. if i = 0 then demo_mb else demo_mb\<lparr>r_mb := 0\<rparr>),
     hsp_id = 0, smb = (\<lambda>_. 0), smb_full_ie = (\<lambda>_. 0), hsp_ie = (\<lambda>_. 0x8000), hsp_ir = 0, ss = (\<lambda>_. 1),
     boot_status = 0, boot_complete = False, sc7_hsp_ie = 0, bootstrap_works = 0, resume_works = 0,
     bootstrap_broadcasts = 0, msgs = (\<lambda>_. None), alloc_count = 0, fw_log = []\<rparr>"

text \<open>
  A reply of the firmware is accepted only in the state that waits for it, or after an abort;
  in every other state it is refused and changes nothing.
\<close>

theorem dce_reply_needs_request:
  assumes "(ev, s) \<in> set reply_states" "c_state d \<noteq> s" "c_state d \<noteq> STATE_DCE_ABORT"
  shows "dce_fsm_post_event table ev data d = Some (- EINVAL, d)"
proof -
  have "dce_fsm_validate_event d ev = - EINVAL"
    using assms event_num_le [of ev]
    by (cases "c_state d") (auto simp: reply_states_def dce_fsm_validate_event_def)
  then show ?thesis using post_refused [of d ev table data] by simp
qed

theorem dce_reply_needs_request_witness:
  "dce_fsm_post_event [] EVENT_ID_DCE_BOOT_CMD_MSG_RECEIVED No_params demo_dce = Some (- EINVAL, demo_dce)"
  using dce_reply_needs_request [of EVENT_ID_DCE_BOOT_CMD_MSG_RECEIVED STATE_DCE_BOOTCMD_WFI demo_dce]
  by (simp add: reply_states_def demo_dce_def)

text \<open>
  After an abort nothing is refused: the check of the event falls through its default branch
  without setting an error, so any event takes the state machine out of the abort state.
\<close>

theorem dce_abort_accepts_all:
  assumes "initialized d" "c_state d = STATE_DCE_ABORT"
  shows "dce_fsm_validate_event d ev = 0
    \<and> c_state (dce_fsm_set_state EVENT_ID_DCE_ADMIN_IPC_MSG_RECEIVED d) = STATE_DCE_FSM_IDLE"
  using assms event_num_le [of ev] by (simp add: dce_fsm_validate_event_def dce_fsm_set_state_def)

theorem dce_abort_accepts_all_witness:
  "dce_fsm_validate_event (demo_dce\<lparr>c_state := STATE_DCE_ABORT\<rparr>) EVENT_ID_DCE_FSM_START = 0"
  using dce_abort_accepts_all [of "demo_dce\<lparr>c_state := STATE_DCE_ABORT\<rparr>" EVENT_ID_DCE_FSM_START]
  by (simp add: demo_dce_def)

text \<open>
  Steps of the state machine in which the handlers succeed, nothing aborts, and a suspend is
  requested only while the machine is idle.
\<close>

definition abort_events :: "dce_event set" where
  "abort_events = {EVENT_ID_DCE_ABORT_RECEIVED, EVENT_ID_DCE_CRASH_LOG_RECEIVED,
     EVENT_ID_DCE_LOG_OVERFLOW_RECEIVED}"

inductive fsm_reach :: "tegra_dce \<Rightarrow> bool" where
  fsm_init: "initialized d \<Longrightarrow> c_state d = STATE_DCE_INVALID \<Longrightarrow> fsm_reach d"
| fsm_step: "fsm_reach d \<Longrightarrow> dce_fsm_validate_event d ev = 0 \<Longrightarrow> ev \<notin> abort_events \<Longrightarrow>
    (ev = EVENT_ID_DCE_SC7_ENTER_REQUESTED \<Longrightarrow> c_state d = STATE_DCE_FSM_IDLE) \<Longrightarrow>
    fsm_reach (dce_fsm_set_state ev d)"

inductive_simps fsm_reach_simps: "fsm_reach d"

definition awaited :: "dce_fsm_state \<Rightarrow> u32 option" where
  "awaited s = (case s of
     STATE_DCE_FSM_IDLE \<Rightarrow> Some 0 | STATE_DCE_SC7_ENTERED \<Rightarrow> Some 0
   | STATE_DCE_BOOT_WAIT \<Rightarrow> Some (DCE_BIT DCE_WAIT_BOOT_COMPLETE)
   | STATE_DCE_BOOTCMD_WFI \<Rightarrow> Some (DCE_BIT DCE_WAIT_BOOT_CMD)
   | STATE_DCE_ADMIN_WFI \<Rightarrow> Some (DCE_BIT DCE_WAIT_ADMIN_IPC)
   | STATE_DCE_SC7_ENTER_WFI \<Rightarrow> Some (DCE_BIT DCE_WAIT_SC7_ENTER)
   | STATE_DCE_LOG_READY_WFI \<Rightarrow> Some (DCE_BIT DCE_WAIT_LOG)
   | STATE_DCE_INVALID \<Rightarrow> None | STATE_DCE_ABORT \<Rightarrow> None)"

definition ipcs_match :: "tegra_dce \<Rightarrow> bool" where
  "ipcs_match d \<longleftrightarrow> c_state d \<noteq> STATE_DCE_ABORT
     \<and> (case awaited (c_state d) of None \<Rightarrow> True | Some b \<Rightarrow> requested_ipcs d = b)"

lemma step_ipcs_match:
  assumes "ipcs_match d" "dce_fsm_validate_event d ev = 0" "ev \<notin> abort_events"
    and "ev = EVENT_ID_DCE_SC7_ENTER_REQUESTED \<Longrightarrow> c_state d = STATE_DCE_FSM_IDLE"
  shows "ipcs_match (dce_fsm_set_state ev d)"
  using assms
  by (cases "c_state d"; cases ev)
     (auto simp: ipcs_match_def awaited_def dce_fsm_validate_event_def dce_fsm_set_state_def
       abort_events_def DCE_BIT_def split: if_splits)

text \<open>
  C38. As long as no handler fails, nothing aborts and no suspend interrupts a request, the record of
  running requests is exactly the request that the state waits for.
\<close>

theorem dce_requests_match_state:
  assumes "fsm_reach d" "awaited (c_state d) = Some b"
  shows "requested_ipcs d = b"
proof -
  have "ipcs_match d" using assms(1)
  proof induction
    case (fsm_init d)
    then show ?case by (simp add: ipcs_match_def awaited_def)
  next
    case (fsm_step d ev)
    then show ?case by (intro step_ipcs_match)
  qed
  with assms(2) show ?thesis by (simp add: ipcs_match_def)
qed

theorem dce_requests_match_state_witness:
  "requested_ipcs (dce_fsm_set_state EVENT_ID_DCE_LOG_REQUESTED
     (dce_fsm_set_state EVENT_ID_DCE_FSM_START (demo_dce\<lparr>c_state := STATE_DCE_INVALID, requested_ipcs := 9\<rparr>)))
   = DCE_BIT DCE_WAIT_LOG"
proof (rule dce_requests_match_state)
  let ?d = "demo_dce\<lparr>c_state := STATE_DCE_INVALID, requested_ipcs := 9\<rparr>"
  have "fsm_reach ?d" by (rule fsm_init) (simp_all add: demo_dce_def)
  then have "fsm_reach (dce_fsm_set_state EVENT_ID_DCE_FSM_START ?d)"
    by (rule fsm_step) (simp_all add: demo_dce_def dce_fsm_validate_event_def event_num_def abort_events_def)
  then show "fsm_reach (dce_fsm_set_state EVENT_ID_DCE_LOG_REQUESTED (dce_fsm_set_state EVENT_ID_DCE_FSM_START ?d))"
    by (rule fsm_step) (simp_all add: demo_dce_def dce_fsm_validate_event_def event_num_def abort_events_def
      dce_fsm_set_state_def)
qed (simp add: dce_fsm_set_state_def awaited_def)

text \<open>
  A suspend requested while another request is running is accepted, and the bit of the
  interrupted request is still set when the engine has entered the suspend state.
\<close>

theorem dce_suspend_leaves_request:
  assumes "initialized d" "c_state d = STATE_DCE_ADMIN_WFI" "requested_ipcs d = DCE_BIT DCE_WAIT_ADMIN_IPC"
  shows "dce_fsm_validate_event d EVENT_ID_DCE_SC7_ENTER_REQUESTED = 0
    \<and> (let e = dce_fsm_set_state EVENT_ID_DCE_SC7_ENTERED_RECEIVED
               (dce_fsm_set_state EVENT_ID_DCE_SC7_ENTER_REQUESTED d)
       in c_state e = STATE_DCE_SC7_ENTERED \<and> requested_ipcs e = DCE_BIT DCE_WAIT_ADMIN_IPC)"
  using assms
  by (simp add: dce_fsm_validate_event_def event_num_def dce_fsm_set_state_def DCE_BIT_def)

theorem dce_suspend_leaves_request_witness:
  "dce_fsm_validate_event (demo_dce\<lparr>c_state := STATE_DCE_ADMIN_WFI, requested_ipcs := DCE_BIT 2\<rparr>)
     EVENT_ID_DCE_SC7_ENTER_REQUESTED = 0"
  using dce_suspend_leaves_request [of "demo_dce\<lparr>c_state := STATE_DCE_ADMIN_WFI, requested_ipcs := DCE_BIT 2\<rparr>"]
  by (simp add: demo_dce_def)

lemma cond_destroy_down_set: "set (cond_destroy_down i) = Inr ` {0..i}"
  by (induction i) (auto simp: atLeast0_atMost_Suc)

lemma cond_init_from_fail:
  "i \<le> f \<Longrightarrow> f < i + k \<Longrightarrow> \<not> ok f \<Longrightarrow> (\<forall>j. i \<le> j \<and> j < f \<longrightarrow> ok j) \<Longrightarrow>
   cond_init_from ok i k = (- 1, map Inr [i..<f], cond_destroy_down f @ [Inl ()])"
proof (induction k arbitrary: i)
  case (Suc k)
  show ?case
  proof (cases "i = f")
    case False
    with Suc.prems have "cond_init_from ok (Suc i) k = (- 1, map Inr [Suc i..<f], cond_destroy_down f @ [Inl ()])"
      by (intro Suc.IH) auto
    with Suc.prems False show ?thesis by (simp add: upt_conv_Cons)
  qed (use Suc.prems in simp)
qed simp

text \<open>
  When the initialisation of a wait condition fails, the clean-up destroys that condition too,
  which was never initialised.
\<close>

theorem dce_cond_init_error_path:
  assumes "f < DCE_MAX_WAIT" "\<not> ok f" "\<forall>j<f. ok j"
    and "dce_work_cond_sw_resource_init 0 0 True ok = (ret, made, gone)"
  shows "ret = - 1 \<and> Inr f \<in> set gone \<and> Inr f \<notin> set made \<and> set made \<subseteq> set gone"
  using assms cond_init_from_fail [of 0 f 5 ok]
  by (auto simp: dce_work_cond_sw_resource_init_def cond_destroy_down_set)

theorem dce_cond_init_error_path_witness:
  "\<exists>made gone. dce_work_cond_sw_resource_init 0 0 True (\<lambda>i. i \<noteq> 2) = (- 1, made, gone)
     \<and> Inr 2 \<in> set gone \<and> Inr 2 \<notin> set made"
proof -
  obtain ret made gone where r: "dce_work_cond_sw_resource_init 0 0 True (\<lambda>i. i \<noteq> 2) = (ret, made, gone)"
    by (metis prod.exhaust)
  from dce_cond_init_error_path [of 2, OF _ _ _ r] r show ?thesis by simp
qed

text \<open>
  Clearing one bit of a shared semaphore clears them all: the value read, with the bit added, is
  written to a register that clears the bits written.
\<close>

theorem dce_ss_clear_clears_all:
  assumes "\<And>v s. ss_write_clr W v s = s AND NOT v" "hsp_id d = 0" "i < 4"
  shows "\<exists>d'. dce_ss_clear W bpos i d = Some d' \<and> ss d' i = 0"
proof -
  have "x AND NOT (x OR y) = 0" for x y :: u32
    by (rule bit_word_eqI) (auto simp: bit_simps)
  then show ?thesis using assms by (simp add: dce_ss_clear_def dce_ss_get_state_def)
qed

definition demo_world :: dce_world where
  "demo_world = \<lparr>while_waiting = (\<lambda>_ d. d), ss_write_set = (\<lambda>v s. s OR v), ss_write_clr = (\<lambda>v s. s AND NOT v),
     kzalloc_ok = (\<lambda>_. True), stream_id = 8, ipc_region_iova = (0, 0x8012345000, 0x100000),
     ipc_channel_info = (\<lambda>_. (0, \<lparr>q_tx_iova = 0x8012345000, q_rx_iova = 0x8012346000, q_nframes = 4,
       q_frame_sz = 1024\<rparr>)),
     ipc_get_type = of_nat, ipc_channel_reset = (\<lambda>_ d. Some d), ipc_send_sync = (\<lambda>m d. Some (0, m, d)),
     ipc_send = (\<lambda>m d. (0, d)), ipc_notified = (\<lambda>_ d. d)\<rparr>"

theorem dce_ss_clear_clears_all_witness:
  "\<exists>d'. dce_ss_clear demo_world 1 0 (demo_dce\<lparr>ss := (\<lambda>_. 7)\<rparr>) = Some d' \<and> ss d' 0 = 0"
  by (rule dce_ss_clear_clears_all) (simp_all add: demo_world_def demo_dce_def)

end
