(* ===== verification/Dce_Mailbox.thy ===== *)
theory Dce_Mailbox
  imports Dce_Fsm
begin

text \<open>
  The mailbox interfaces of the display controller engine (\<open>dce-mailbox.c\<close>), the interrupt
  handler of the boot interface and the event handlers of the state machine
  (\<open>dce-bootstrap.c\<close>, \<open>dce-pm.c\<close>, \<open>dce-admin.c\<close>). Handlers that wait post at most one nested
  event, a reply, whose handler posts none: \<open>post_reply\<close> is the level below \<open>post\<close>.
\<close>

abbreviation (input) DCE_MAILBOX_MAX_INTERFACES :: nat where "DCE_MAILBOX_MAX_INTERFACES \<equiv> 4"
abbreviation (input) DCE_MAILBOX_BOOT_INTERFACE :: nat where "DCE_MAILBOX_BOOT_INTERFACE \<equiv> 0"
abbreviation (input) DCE_MBOX_BOOT_CMD :: nat where "DCE_MBOX_BOOT_CMD \<equiv> 6"
abbreviation (input) DCE_MBOX_IRQ :: nat where "DCE_MBOX_IRQ \<equiv> 7"
abbreviation (input) CCPLEX_HSP_IE :: nat where "CCPLEX_HSP_IE \<equiv> 1"

definition set_mb :: "nat \<Rightarrow> mailbox_interface \<Rightarrow> tegra_dce \<Rightarrow> tegra_dce" where
  "set_mb i mb d = d\<lparr>d_mb := (d_mb d)(i := mb)\<rparr>"

text \<open>Locking a mutex that is held never returns.\<close>

definition mb_lock :: "nat \<Rightarrow> tegra_dce \<Rightarrow> tegra_dce option" where
  "mb_lock i d = (if mb_locked (d_mb d i) then None else Some (set_mb i ((d_mb d i)\<lparr>mb_locked := True\<rparr>) d))"

definition mb_unlock :: "nat \<Rightarrow> tegra_dce \<Rightarrow> tegra_dce" where
  "mb_unlock i d = set_mb i ((d_mb d i)\<lparr>mb_locked := False\<rparr>) d"

definition dce_mailbox_store_interface_status :: "u32 \<Rightarrow> nat \<Rightarrow> tegra_dce \<Rightarrow> tegra_dce option" where
  "dce_mailbox_store_interface_status v i d = do {
     d \<leftarrow> mb_lock i d;
     let d = set_mb i ((d_mb d i)\<lparr>ack_value := v, mb_valid := True\<rparr>) d;
     Some (mb_unlock i d)
   }"

definition dce_mailbox_get_interface_status :: "nat \<Rightarrow> tegra_dce \<Rightarrow> u32" where
  "dce_mailbox_get_interface_status i d =
     (if mb_valid (d_mb d i) then ack_value (d_mb d i) else 0xffffffff)"

definition dce_mailbox_invalidate_status :: "nat \<Rightarrow> tegra_dce \<Rightarrow> tegra_dce option" where
  "dce_mailbox_invalidate_status i d = do {
     d \<leftarrow> mb_lock i d;
     Some (mb_unlock i (set_mb i ((d_mb d i)\<lparr>mb_valid := False\<rparr>) d))
   }"

definition dce_mailbox_write_safe :: "nat \<Rightarrow> tegra_dce \<Rightarrow> bool option" where
  "dce_mailbox_write_safe i d = do { val \<leftarrow> dce_smb_read i d; Some (\<not> bit val 31) }"

definition dce_mailbox_set_full_interrupt :: "nat \<Rightarrow> tegra_dce \<Rightarrow> tegra_dce option" where
  "dce_mailbox_set_full_interrupt i d = do {
     d \<leftarrow> mb_lock i d;
     _ \<leftarrow> dce_mailbox_write_safe (s_mb (d_mb d i)) d;
     d \<leftarrow> dce_smb_set (DCE_BIT 31) (s_mb (d_mb d i)) d;
     Some (mb_unlock i d)
   }"

definition dce_mailbox_init_interface ::
  "int \<Rightarrow> nat \<Rightarrow> nat \<Rightarrow> nat \<Rightarrow> mb_wait_fn \<Rightarrow> mb_notify_fn \<Rightarrow> tegra_dce \<Rightarrow> (int \<times> tegra_dce) option" where
  "dce_mailbox_init_interface mutex_result i s r wait_fn notify_fn d =
     (if mutex_result \<noteq> 0 then Some (mutex_result, d)
      else do {
        let d = set_mb i ((d_mb d i)\<lparr>mb_locked := False, mb_valid := False\<rparr>) d;
        d \<leftarrow> dce_smb_set_full_ie True r d;
        d \<leftarrow> dce_hsp_ie_write (push_bit 8 (DCE_BIT r)) CCPLEX_HSP_IE d;
        Some (0, set_mb i ((d_mb d i)\<lparr>s_mb := s, r_mb := r, mb_notify := notify_fn,
                                       mb_wait := wait_fn\<rparr>) d)
      })"

definition dce_mailbox_deinit_interface :: "nat \<Rightarrow> tegra_dce \<Rightarrow> tegra_dce option" where
  "dce_mailbox_deinit_interface i d = (if mb_locked (d_mb d i) then None else Some d)"

subsection \<open>Handlers that do not wait\<close>

definition dce_handle_boot_cmd_received_event :: dce_handler where
  "dce_handle_boot_cmd_received_event params d = Some (0, dce_wakeup_interruptible DCE_WAIT_BOOT_CMD d)"

definition dce_handle_boot_complete_received_event :: dce_handler where
  "dce_handle_boot_complete_received_event params d =
     Some (0, dce_wakeup_interruptible DCE_WAIT_BOOT_COMPLETE d)"

definition dce_admin_handle_ipc_received_event :: dce_handler where
  "dce_admin_handle_ipc_received_event params d = Some (0, dce_wakeup_interruptible DCE_WAIT_ADMIN_IPC d)"

definition dce_pm_handle_sc7_enter_received_event :: dce_handler where
  "dce_pm_handle_sc7_enter_received_event params d =
     Some (0, dce_wakeup_interruptible DCE_WAIT_SC7_ENTER d)"

definition dce_pm_handle_sc7_exit_received_event :: dce_handler where
  "dce_pm_handle_sc7_exit_received_event params d = Some (0, d\<lparr>resume_works := resume_works d + 1\<rparr>)"

text \<open>
  The event table of \<open>dce-fsm.c\<close>; the handlers that wait are its arguments, in the order of the table.
\<close>

definition event_process_table ::
  "dce_handler \<Rightarrow> dce_handler \<Rightarrow> dce_handler \<Rightarrow> dce_handler \<Rightarrow> dce_table" where
  "event_process_table boot_complete_requested boot_cmd_requested admin_requested sc7_enter_requested =
    [(EVENT_ID_DCE_FSM_START, dce_handle_fsm_start_event),
     (EVENT_ID_DCE_BOOT_COMPLETE_REQUESTED, boot_complete_requested),
     (EVENT_ID_DCE_BOOT_COMPLETE_RECEIVED, dce_handle_boot_complete_received_event),
     (EVENT_ID_DCE_BOOT_CMD_MSG_REQUESTED, boot_cmd_requested),
     (EVENT_ID_DCE_BOOT_CMD_MSG_RECEIVED, dce_handle_boot_cmd_received_event),
     (EVENT_ID_DCE_ADMIN_IPC_MSG_REQUESTED, admin_requested),
     (EVENT_ID_DCE_ADMIN_IPC_MSG_RECEIVED, dce_admin_handle_ipc_received_event),
     (EVENT_ID_DCE_SC7_ENTER_REQUESTED, sc7_enter_requested),
     (EVENT_ID_DCE_SC7_ENTERED_RECEIVED, dce_pm_handle_sc7_enter_received_event),
     (EVENT_ID_DCE_SC7_EXIT_RECEIVED, dce_pm_handle_sc7_exit_received_event),
     (EVENT_ID_DCE_LOG_REQUESTED, dce_handle_event_stub),
     (EVENT_ID_DCE_LOG_READY_RECEIVED, dce_handle_event_stub),
     (EVENT_ID_DCE_ABORT_RECEIVED, dce_handle_event_stub),
     (EVENT_ID_DCE_CRASH_LOG_RECEIVED, dce_handle_event_stub),
     (EVENT_ID_DCE_LOG_OVERFLOW_RECEIVED, dce_handle_event_stub),
     (EVENT_ID_DCE_FSM_STOP, dce_handle_event_stub)]"

text \<open>A handler that waits is never reached from a reply.\<close>

definition no_wait_here :: dce_handler where
  "no_wait_here params d = None"

definition post_reply :: "dce_event \<Rightarrow> dce_handler" where
  "post_reply = dce_fsm_post_event (event_process_table no_wait_here no_wait_here no_wait_here no_wait_here)"

subsection \<open>The boot interface\<close>

abbreviation (input) DCE_IRQ_READY :: nat where "DCE_IRQ_READY \<equiv> 23"
abbreviation (input) DCE_IRQ_LOG_OVERFLOW :: nat where "DCE_IRQ_LOG_OVERFLOW \<equiv> 22"
abbreviation (input) DCE_IRQ_LOG_READY :: nat where "DCE_IRQ_LOG_READY \<equiv> 21"
abbreviation (input) DCE_IRQ_CRASH_LOG :: nat where "DCE_IRQ_CRASH_LOG \<equiv> 20"
abbreviation (input) DCE_IRQ_ABORT :: nat where "DCE_IRQ_ABORT \<equiv> 19"
abbreviation (input) DCE_IRQ_SC7_ENTERED :: nat where "DCE_IRQ_SC7_ENTERED \<equiv> 18"
abbreviation (input) DCE_BOOT_CMD_ERR_FLAG :: nat where "DCE_BOOT_CMD_ERR_FLAG \<equiv> 23"

definition dce_handle_irq_status :: "u32 \<Rightarrow> tegra_dce \<Rightarrow> tegra_dce option" where
  "dce_handle_irq_status status d = do {
     d \<leftarrow> (if bit status DCE_IRQ_READY
           then map_option snd (post_reply EVENT_ID_DCE_BOOT_COMPLETE_RECEIVED No_params d) else Some d);
     d \<leftarrow> (if bit status DCE_IRQ_SC7_ENTERED
           then map_option snd (post_reply EVENT_ID_DCE_SC7_ENTERED_RECEIVED No_params d) else Some d);
     let d = (if bit status DCE_IRQ_LOG_READY then dce_wakeup_interruptible DCE_WAIT_LOG d else d);
     if bit status DCE_IRQ_LOG_OVERFLOW \<or> bit status DCE_IRQ_CRASH_LOG \<or> bit status DCE_IRQ_ABORT
     then map_option snd (post_reply EVENT_ID_DCE_ABORT_RECEIVED No_params d) else Some d
   }"

definition dce_bootstrap_handle_boot_status :: "u32 \<Rightarrow> tegra_dce \<Rightarrow> tegra_dce option" where
  "dce_bootstrap_handle_boot_status status d = do {
     d \<leftarrow> dce_mailbox_store_interface_status status DCE_MAILBOX_BOOT_INTERFACE d;
     map_option snd (post_reply EVENT_ID_DCE_BOOT_CMD_MSG_RECEIVED No_params d)
   }"

definition DCE_IRQ_GET_STATUS_TYPE :: "u32 \<Rightarrow> u32" where
  "DCE_IRQ_GET_STATUS_TYPE x = drop_bit 27 x AND 15"

definition dce_boot_interface_isr :: "tegra_dce \<Rightarrow> tegra_dce option" where
  "dce_boot_interface_isr d =
     (let status = dce_mailbox_get_interface_status DCE_MAILBOX_BOOT_INTERFACE d
      in if status = 0xffffffff then Some d
         else if DCE_IRQ_GET_STATUS_TYPE status = 0 then dce_handle_irq_status status d
         else if DCE_IRQ_GET_STATUS_TYPE status = 1 then dce_bootstrap_handle_boot_status status d
         else Some d)"

definition dce_hsp_get_irq_sources :: "tegra_dce \<Rightarrow> u32 option" where
  "dce_hsp_get_irq_sources d = do {
     ie \<leftarrow> dce_hsp_ie_read CCPLEX_HSP_IE d;
     ir \<leftarrow> dce_hsp_ir_read d;
     Some (ie AND ir)
   }"

text \<open>The callback of a mailbox; one that was never set is a null pointer.\<close>

definition mailbox_notify :: "dce_world \<Rightarrow> nat \<Rightarrow> tegra_dce \<Rightarrow> tegra_dce option" where
  "mailbox_notify W i d =
     (case mb_notify (d_mb d i) of
        No_notify \<Rightarrow> None
      | Notify_boot \<Rightarrow> dce_boot_interface_isr d
      | Notify_ipc \<Rightarrow> Some (ipc_notified W i d))"

fun isr_from :: "dce_world \<Rightarrow> u32 \<Rightarrow> nat \<Rightarrow> nat \<Rightarrow> tegra_dce \<Rightarrow> tegra_dce option" where
  "isr_from W irq_sources i 0 d = Some d"
| "isr_from W irq_sources i (Suc k) d = do {
     d \<leftarrow> (if irq_sources AND push_bit 8 (DCE_BIT (r_mb (d_mb d i))) \<noteq> 0 then do {
             value \<leftarrow> dce_smb_read (r_mb (d_mb d i)) d;
             d \<leftarrow> dce_smb_set 0 (r_mb (d_mb d i)) d;
             d \<leftarrow> dce_mailbox_store_interface_status value i d;
             mailbox_notify W i d
           } else Some d);
     isr_from W irq_sources (Suc i) k d
   }"

definition dce_mailbox_isr :: "dce_world \<Rightarrow> tegra_dce \<Rightarrow> tegra_dce option" where
  "dce_mailbox_isr W d = do {
     irq_sources \<leftarrow> dce_hsp_get_irq_sources d;
     isr_from W irq_sources 0 DCE_MAILBOX_MAX_INTERFACES d
   }"

definition dce_mailbox_wait_boot_interface :: "dce_world \<Rightarrow> tegra_dce \<Rightarrow> int \<times> tegra_dce" where
  "dce_mailbox_wait_boot_interface W d =
     (let (ret, d) = dce_wait_interruptible W DCE_WAIT_BOOT_CMD d;
          status = dce_mailbox_get_interface_status DCE_MAILBOX_BOOT_INTERFACE d
      in if bit status DCE_BOOT_CMD_ERR_FLAG then (- EBADE, d) else (0, d))"

definition dce_boot_interface_init :: "int \<Rightarrow> tegra_dce \<Rightarrow> (int \<times> tegra_dce) option" where
  "dce_boot_interface_init mutex_result d =
     dce_mailbox_init_interface mutex_result DCE_MAILBOX_BOOT_INTERFACE DCE_MBOX_BOOT_CMD DCE_MBOX_IRQ
       Wait_boot_interface Notify_boot d"

definition dce_boot_interface_deinit :: "tegra_dce \<Rightarrow> tegra_dce option" where
  "dce_boot_interface_deinit d = dce_mailbox_deinit_interface DCE_MAILBOX_BOOT_INTERFACE d"

definition dce_handle_mailbox_send_cmd_sync ::
  "dce_world \<Rightarrow> u32 \<Rightarrow> nat \<Rightarrow> tegra_dce \<Rightarrow> (int \<times> tegra_dce) option" where
  "dce_handle_mailbox_send_cmd_sync W cmd iface d =
     (if iface \<ge> DCE_MAILBOX_MAX_INTERFACES then None
      else do {
        d \<leftarrow> mb_lock iface d;
        safe \<leftarrow> dce_mailbox_write_safe (s_mb (d_mb d iface)) d;
        if \<not> safe then Some (- 1, d)
        else do {
          d \<leftarrow> dce_smb_set (cmd OR DCE_BIT 31) (s_mb (d_mb d iface)) d;
          let d = set_mb iface ((d_mb d iface)\<lparr>mb_valid := False\<rparr>) d;
          let d = mb_unlock iface d;
          case mb_wait (d_mb d iface) of
            No_wait \<Rightarrow> None
          | Wait_boot_interface \<Rightarrow> Some (dce_mailbox_wait_boot_interface W d)
        }
      })"

subsection \<open>Lemmas\<close>

lemma push_bit_one_AND:
  "a \<noteq> b \<Longrightarrow> push_bit a (1 :: u32) AND push_bit b 1 = 0"
  by (rule bit_word_eqI) (auto simp: bit_simps)

lemma DCE_BIT_one: "DCE_BIT b = push_bit b 1"
  by (simp add: DCE_BIT_def)

lemma irq_bit: "push_bit 8 (DCE_BIT r) = push_bit (8 + r) 1"
  unfolding DCE_BIT_def push_bit_push_bit ..

text \<open>The boot interface as \<open>dce_boot_interface_init\<close> leaves it, with no other interface on its mailbox.\<close>

definition boot_iface :: "tegra_dce \<Rightarrow> bool" where
  "boot_iface d \<longleftrightarrow> hsp_id d = 0 \<and> s_mb (d_mb d 0) = DCE_MBOX_BOOT_CMD \<and> r_mb (d_mb d 0) = DCE_MBOX_IRQ
     \<and> mb_wait (d_mb d 0) = Wait_boot_interface \<and> mb_notify (d_mb d 0) = Notify_boot
     \<and> \<not> mb_locked (d_mb d 0)
     \<and> list_all (\<lambda>i. r_mb (d_mb d i) \<noteq> DCE_MBOX_IRQ) [1..<DCE_MAILBOX_MAX_INTERFACES]
     \<and> hsp_ie d CCPLEX_HSP_IE AND DCE_BIT 15 = DCE_BIT 15"

lemma mb_stays_unlocked: "\<not> mb_locked mb \<Longrightarrow> mb\<lparr>ack_value := v, mb_valid := b, mb_locked := False\<rparr> =
    mb\<lparr>ack_value := v, mb_valid := b\<rparr>"
  by (cases mb) simp

lemma store_status_unlocked:
  "\<not> mb_locked (d_mb d i) \<Longrightarrow> dce_mailbox_store_interface_status v i d =
     Some (set_mb i ((d_mb d i)\<lparr>ack_value := v, mb_valid := True\<rparr>) d)"
  by (simp add: dce_mailbox_store_interface_status_def mb_lock_def mb_unlock_def set_mb_def mb_stays_unlocked)

lemma isr_from_none:
  "list_all (\<lambda>j. r_mb (d_mb d j) \<noteq> 7) [i..<i + k] \<Longrightarrow> isr_from W (DCE_BIT 15) i k d = Some d"
proof (induction k arbitrary: i)
  case (Suc k)
  have e: "[i..<i + Suc k] = i # [Suc i..<Suc i + k]" by (simp add: upt_conv_Cons del: upt_Suc)
  from Suc.prems have "r_mb (d_mb d i) \<noteq> 7" "list_all (\<lambda>j. r_mb (d_mb d j) \<noteq> 7) [Suc i..<Suc i + k]"
    unfolding e by (simp_all del: upt_Suc)
  moreover from this have "DCE_BIT 15 AND push_bit 8 (DCE_BIT (r_mb (d_mb d i))) = 0"
    unfolding irq_bit unfolding DCE_BIT_one by (intro push_bit_one_AND) simp
  ultimately show ?case using Suc.IH [of "Suc i"] by simp
qed simp

lemma isr_from_ipc:
  "ipc_notified W = ipc_notified W' \<Longrightarrow> isr_from W s i k d = isr_from W' s i k d"
proof (induction k arbitrary: i d)
  case (Suc k)
  have "mailbox_notify W = mailbox_notify W'"
    using Suc.prems by (intro ext) (simp add: mailbox_notify_def split: mb_notify_fn.splits)
  moreover have "isr_from W s (Suc i) k = isr_from W' s (Suc i) k" using Suc by blast
  ultimately show ?case by simp
qed simp

lemma isr_ipc: "ipc_notified W = ipc_notified W' \<Longrightarrow> dce_mailbox_isr W = dce_mailbox_isr W'"
  by (intro ext) (simp add: dce_mailbox_isr_def isr_from_ipc [of W W'])

lemma boot_reply_posted:
  assumes "initialized d" "c_state d = STATE_DCE_BOOTCMD_WFI"
  shows "post_reply EVENT_ID_DCE_BOOT_CMD_MSG_RECEIVED No_params d =
    Some (0, d\<lparr>c_state := STATE_DCE_FSM_IDLE, requested_ipcs := requested_ipcs d AND NOT (DCE_BIT 1),
               wait_complete := (wait_complete d)(1 := True)\<rparr>)"
  using assms
  by (simp add: post_reply_def dce_fsm_post_event_def dce_fsm_validate_event_def event_num_def
      dce_fsm_set_state_def event_process_table_def dce_handle_boot_cmd_received_event_def
      dce_wakeup_interruptible_def numeral_eq_Suc)

text \<open>The interrupt of a boot command reply: the mailbox is emptied, the reply kept, the command ended.\<close>

lemma isr_boot_reply:
  assumes "boot_iface d" "hsp_ir d = DCE_BIT 15" "initialized d" "c_state d = STATE_DCE_BOOTCMD_WFI"
    and t: "DCE_IRQ_GET_STATUS_TYPE (smb d 7) = 1"
  shows "dce_mailbox_isr W d = Some (d\<lparr>smb := (smb d)(7 := 0),
    d_mb := (d_mb d)(0 := (d_mb d 0)\<lparr>ack_value := smb d 7, mb_valid := True\<rparr>),
    c_state := STATE_DCE_FSM_IDLE, requested_ipcs := requested_ipcs d AND NOT (DCE_BIT 1),
    wait_complete := (wait_complete d)(1 := True)\<rparr>)"
proof -
  let ?s = "d\<lparr>smb := (smb d)(7 := 0),
    d_mb := (d_mb d)(0 := (d_mb d 0)\<lparr>ack_value := smb d 7, mb_valid := True\<rparr>)\<rparr>"
  let ?e = "?s\<lparr>c_state := STATE_DCE_FSM_IDLE, requested_ipcs := requested_ipcs d AND NOT (DCE_BIT 1),
    wait_complete := (wait_complete d)(1 := True)\<rparr>"
  have b: "DCE_BIT 15 AND push_bit 8 (DCE_BIT 7) \<noteq> 0" by (simp add: DCE_BIT_def)
  have v: "smb d 7 \<noteq> 0xffffffff"
  proof
    assume "smb d 7 = 0xffffffff"
    then show False using t by (simp add: DCE_IRQ_GET_STATUS_TYPE_def)
  qed
  have src: "dce_hsp_get_irq_sources d = Some (DCE_BIT 15)"
    using assms by (simp add: dce_hsp_get_irq_sources_def dce_hsp_ie_read_def dce_hsp_ir_read_def
      hsp_guard_def boot_iface_def)
  have n: "dce_boot_interface_isr ?s = Some ?e"
  proof -
    have "dce_boot_interface_isr ?s = dce_bootstrap_handle_boot_status (smb d 7) ?s"
      using t v by (simp add: dce_boot_interface_isr_def dce_mailbox_get_interface_status_def Let_def)
    also have "\<dots> = map_option snd (post_reply EVENT_ID_DCE_BOOT_CMD_MSG_RECEIVED No_params ?s)"
      using assms by (simp add: dce_bootstrap_handle_boot_status_def store_status_unlocked set_mb_def
        boot_iface_def)
    also have "\<dots> = Some ?e" using assms by (subst boot_reply_posted) simp_all
    finally show ?thesis .
  qed
  have st: "dce_mailbox_store_interface_status (smb d 7) 0 (d\<lparr>smb := (smb d)(7 := 0)\<rparr>) = Some ?s"
    using assms by (simp add: store_status_unlocked set_mb_def boot_iface_def)
  have "isr_from W (DCE_BIT 15) 0 (Suc 3) d = isr_from W (DCE_BIT 15) 1 3 ?e"
    unfolding isr_from.simps
    using assms b st n by (simp add: dce_smb_read_def dce_smb_set_def hsp_guard_def mailbox_notify_def boot_iface_def)
  also have "\<dots> = Some ?e" using assms(1) by (intro isr_from_none) (simp add: boot_iface_def numeral_eq_Suc)
  finally show ?thesis by (simp add: dce_mailbox_isr_def src numeral_eq_Suc)
qed

subsection \<open>Properties\<close>

text \<open>
  A command to an interface whose mailbox is still occupied is refused with the lock of the
  interface held: after that every command to the interface, and every interrupt that has a value
  for it, waits for ever.
\<close>

theorem dce_send_busy_keeps_lock:
  assumes "iface < DCE_MAILBOX_MAX_INTERFACES" "hsp_id d = 0" "s_mb (d_mb d iface) < 8"
    and "\<not> mb_locked (d_mb d iface)" "bit (smb d (s_mb (d_mb d iface))) 31"
  shows "\<exists>d'. dce_handle_mailbox_send_cmd_sync W cmd iface d = Some (- 1, d')
    \<and> (\<forall>cmd'. dce_handle_mailbox_send_cmd_sync W cmd' iface d' = None)
    \<and> (\<forall>v. dce_mailbox_store_interface_status v iface d' = None)"
  using assms
  by (simp add: dce_handle_mailbox_send_cmd_sync_def mb_lock_def set_mb_def dce_mailbox_write_safe_def
      dce_smb_read_def hsp_guard_def dce_mailbox_store_interface_status_def)

theorem dce_send_busy_keeps_lock_witness:
  "\<exists>d'. dce_handle_mailbox_send_cmd_sync demo_world 0 0 (demo_dce\<lparr>smb := (\<lambda>_. 0x80000000)\<rparr>) = Some (- 1, d')
    \<and> (\<forall>cmd'. dce_handle_mailbox_send_cmd_sync demo_world cmd' 0 d' = None)
    \<and> (\<forall>v. dce_mailbox_store_interface_status v 0 d' = None)"
  by (rule dce_send_busy_keeps_lock) (simp_all add: demo_dce_def demo_mb_def)

text \<open>
  The interrupt of the reply to a running boot command empties the mailbox, keeps the reply as
  the status of the interface, ends the request and wakes the waiter up; nothing else changes.
\<close>

theorem dce_isr_delivers_reply:
  assumes "boot_iface d" "hsp_ir d = DCE_BIT 15" "initialized d" "c_state d = STATE_DCE_BOOTCMD_WFI"
    and "DCE_IRQ_GET_STATUS_TYPE (smb d 7) = 1"
  shows "\<exists>d'. dce_mailbox_isr W d = Some d' \<and> smb d' 7 = 0
    \<and> dce_mailbox_get_interface_status 0 d' = smb d 7 \<and> wait_complete d' 1
    \<and> c_state d' = STATE_DCE_FSM_IDLE \<and> requested_ipcs d' = requested_ipcs d AND NOT (DCE_BIT 1)
    \<and> (\<forall>i. i \<noteq> 0 \<longrightarrow> d_mb d' i = d_mb d i) \<and> (\<forall>i. i \<noteq> 7 \<longrightarrow> smb d' i = smb d i)
    \<and> boot_status d' = boot_status d \<and> msgs d' = msgs d"
  unfolding isr_boot_reply [OF assms] by (simp add: dce_mailbox_get_interface_status_def)

theorem dce_isr_delivers_reply_witness:
  "\<exists>d'. dce_mailbox_isr demo_world (demo_dce\<lparr>hsp_ir := 0x8000, c_state := STATE_DCE_BOOTCMD_WFI,
       requested_ipcs := 2, smb := (\<lambda>i. if i = 7 then 0x08000042 else 0)\<rparr>) = Some d'
     \<and> dce_mailbox_get_interface_status 0 d' = 0x08000042 \<and> requested_ipcs d' = 0"
proof -
  let ?d = "demo_dce\<lparr>hsp_ir := 0x8000, c_state := STATE_DCE_BOOTCMD_WFI,
       requested_ipcs := 2, smb := (\<lambda>i. if i = 7 then 0x08000042 else 0)\<rparr>"
  have "boot_iface ?d" by (simp add: boot_iface_def demo_dce_def demo_mb_def DCE_BIT_def upt_rec)
  moreover have "DCE_IRQ_GET_STATUS_TYPE 0x08000042 = 1"
    by (simp add: DCE_IRQ_GET_STATUS_TYPE_def drop_bit_eq_div)
  ultimately show ?thesis
    using dce_isr_delivers_reply [of ?d demo_world] by (auto simp: demo_dce_def DCE_BIT_def)
qed

end
