(* ===== verification/Dce_Boot.thy ===== *)
theory Dce_Boot
  imports Dce_Mailbox
begin

text \<open>
  The flows of the display controller engine driver on top of the state machine: the handlers that
  wait, the bootstrap commands (\<open>dce-bootstrap.c\<close>), the administration messages
  (\<open>dce-admin.c\<close>) and power management (\<open>dce-pm.c\<close>).
\<close>

subsection \<open>Handlers that wait\<close>

abbreviation (input) DCE_FW_EARLY_BOOT_START :: nat where "DCE_FW_EARLY_BOOT_START \<equiv> 16"
abbreviation (input) DCE_FW_EARLY_BOOT_FAILED :: nat where "DCE_FW_EARLY_BOOT_FAILED \<equiv> 15"
abbreviation (input) DCE_FW_EARLY_BOOT_DONE :: nat where "DCE_FW_EARLY_BOOT_DONE \<equiv> 14"
abbreviation (input) DCE_FW_BOOTSTRAP_START :: nat where "DCE_FW_BOOTSTRAP_START \<equiv> 13"
abbreviation (input) DCE_FW_BOOTSTRAP_FAILED :: nat where "DCE_FW_BOOTSTRAP_FAILED \<equiv> 12"
abbreviation (input) DCE_FW_BOOTSTRAP_DONE :: nat where "DCE_FW_BOOTSTRAP_DONE \<equiv> 11"
abbreviation (input) DCE_FW_ADMIN_SEQ_START :: nat where "DCE_FW_ADMIN_SEQ_START \<equiv> 10"
abbreviation (input) DCE_FW_ADMIN_SEQ_FAILED :: nat where "DCE_FW_ADMIN_SEQ_FAILED \<equiv> 9"
abbreviation (input) DCE_FW_ADMIN_SEQ_DONE :: nat where "DCE_FW_ADMIN_SEQ_DONE \<equiv> 8"
abbreviation (input) DCE_FW_SUSPENDED :: nat where "DCE_FW_SUSPENDED \<equiv> 2"
abbreviation (input) DCE_FW_BOOT_DONE :: nat where "DCE_FW_BOOT_DONE \<equiv> 1"
abbreviation (input) DCE_STATUS_FAILED :: nat where "DCE_STATUS_FAILED \<equiv> 0"

definition set_status :: "nat \<Rightarrow> tegra_dce \<Rightarrow> tegra_dce" where
  "set_status b d = d\<lparr>boot_status := boot_status d OR DCE_BIT b\<rparr>"

definition dce_set_boot_complete :: "bool \<Rightarrow> tegra_dce \<Rightarrow> tegra_dce" where
  "dce_set_boot_complete v d =
     (let d = d\<lparr>boot_complete := v\<rparr>
      in if \<not> v then d\<lparr>boot_status := boot_status d AND NOT (DCE_BIT DCE_FW_BOOT_DONE)\<rparr> else d)"

definition dce_is_bootcmds_done :: "tegra_dce \<Rightarrow> bool" where
  "dce_is_bootcmds_done d = bit (boot_status d) DCE_FW_BOOTSTRAP_DONE"

definition dce_is_bootstrap_done :: "tegra_dce \<Rightarrow> bool" where
  "dce_is_bootstrap_done d = bit (boot_status d) DCE_FW_BOOT_DONE"

definition dce_fw_boot_complete :: "tegra_dce \<Rightarrow> bool option" where
  "dce_fw_boot_complete d = do { v \<leftarrow> dce_ss_get_state 0 d; Some (bit v 0) }"

definition dce_request_fw_boot_complete :: "dce_world \<Rightarrow> tegra_dce \<Rightarrow> tegra_dce option" where
  "dce_request_fw_boot_complete W d = dce_ss_set W 31 0 d"

definition dce_handle_boot_complete_requested_event :: "dce_world \<Rightarrow> dce_handler" where
  "dce_handle_boot_complete_requested_event W params d = do {
     let d = set_status DCE_FW_EARLY_BOOT_START d;
     complete \<leftarrow> dce_fw_boot_complete d;
     (ret, d) \<leftarrow>
       (if complete then do {
          (ret, d) \<leftarrow> post_reply EVENT_ID_DCE_BOOT_COMPLETE_RECEIVED No_params d;
          Some (ret, dce_cond_wait_reset DCE_WAIT_BOOT_COMPLETE d)
        } else do {
          d \<leftarrow> dce_request_fw_boot_complete W d;
          Some (dce_wait_interruptible W DCE_WAIT_BOOT_COMPLETE d)
        });
     Some (ret, if ret = 0 then set_status DCE_FW_EARLY_BOOT_DONE (dce_set_boot_complete True d)
                else set_status DCE_FW_EARLY_BOOT_FAILED d)
   }"

definition dce_handle_boot_cmd_requested_event :: "dce_world \<Rightarrow> dce_handler" where
  "dce_handle_boot_cmd_requested_event W params d =
     (case params of
        Mbox_params cmd iface \<Rightarrow> dce_handle_mailbox_send_cmd_sync W cmd iface d
      | _ \<Rightarrow> None)"

definition dce_admin_handle_ipc_requested_event :: "dce_world \<Rightarrow> dce_handler" where
  "dce_admin_handle_ipc_requested_event W params d =
     (if \<not> dce_is_bootcmds_done d then Some (- EINVAL, d)
      else case params of
        Admin_params p \<Rightarrow> do {
          m \<leftarrow> msgs d p;
          (ret, m, d) \<leftarrow> ipc_send_sync W m d;
          Some (ret, d\<lparr>msgs := (msgs d)(p \<mapsto> m)\<rparr>)
        }
      | _ \<Rightarrow> None)"

subsection \<open>Messages\<close>

definition dce_admin_allocate_message :: "dce_world \<Rightarrow> tegra_dce \<Rightarrow> nat option \<times> tegra_dce" where
  "dce_admin_allocate_message W d =
     (let n = alloc_count d
      in if \<not> kzalloc_ok W n then (None, d\<lparr>alloc_count := n + 1\<rparr>)
         else if \<not> kzalloc_ok W (n + 1) then (None, d\<lparr>alloc_count := n + 2\<rparr>)
         else if \<not> kzalloc_ok W (n + 2) then (None, d\<lparr>alloc_count := n + 3\<rparr>)
         else (Some n, d\<lparr>alloc_count := n + 3, msgs := (msgs d)(n \<mapsto> \<lparr>tx_cmd = 0,
                tx_create = \<lparr>ipc_type = 0, rd_iova = 0, wr_iova = 0, fsize = 0, n_frames = 0\<rparr>,
                rx_error = 0, rx_version = 0\<rparr>)\<rparr>))"

definition dce_admin_free_message :: "nat option \<Rightarrow> tegra_dce \<Rightarrow> tegra_dce option" where
  "dce_admin_free_message msg d =
     (case msg of None \<Rightarrow> Some d
      | Some p \<Rightarrow> if msgs d p = None then None else Some (d\<lparr>msgs := (msgs d)(p := None)\<rparr>))"

definition set_cmd :: "nat \<Rightarrow> u32 \<Rightarrow> tegra_dce \<Rightarrow> tegra_dce option" where
  "set_cmd p c d = do { m \<leftarrow> msgs d p; Some (d\<lparr>msgs := (msgs d)(p \<mapsto> m\<lparr>tx_cmd := c\<rparr>)\<rparr>) }"

definition resp_error :: "nat \<Rightarrow> tegra_dce \<Rightarrow> u32 option" where
  "resp_error p d = do { m \<leftarrow> msgs d p; Some (rx_error m) }"

abbreviation (input) DCE_ADMIN_CMD_VERSION :: u32 where "DCE_ADMIN_CMD_VERSION \<equiv> 0x00"
abbreviation (input) DCE_ADMIN_CMD_ECHO :: u32 where "DCE_ADMIN_CMD_ECHO \<equiv> 0x03"
abbreviation (input) DCE_ADMIN_CMD_IPC_CREATE :: u32 where "DCE_ADMIN_CMD_IPC_CREATE \<equiv> 0x07"
abbreviation (input) DCE_ADMIN_CMD_PREPARE_SC7 :: u32 where "DCE_ADMIN_CMD_PREPARE_SC7 \<equiv> 0x08"
abbreviation (input) DCE_ADMIN_CMD_ENTER_SC7 :: u32 where "DCE_ADMIN_CMD_ENTER_SC7 \<equiv> 0x09"
abbreviation (input) DCE_ADMIN_CMD_EXT_TEST :: u32 where "DCE_ADMIN_CMD_EXT_TEST \<equiv> 0x13"
abbreviation (input) DCE_ADMIN_CMD_RM_BOOTSTRAP :: u32 where "DCE_ADMIN_CMD_RM_BOOTSTRAP \<equiv> 0x15"

definition dce_admin_send_enter_sc7 :: "dce_world \<Rightarrow> nat \<Rightarrow> tegra_dce \<Rightarrow> (int \<times> tegra_dce) option" where
  "dce_admin_send_enter_sc7 W p d = do {
     d \<leftarrow> set_cmd p DCE_ADMIN_CMD_ENTER_SC7 d;
     m \<leftarrow> msgs d p;
     let (ret, d) = ipc_send W m d;
     Some (if ret \<noteq> 0 then (ret, d) else dce_wait_interruptible W DCE_WAIT_SC7_ENTER d)
   }"

definition dce_pm_handle_sc7_enter_requested_event :: "dce_world \<Rightarrow> dce_handler" where
  "dce_pm_handle_sc7_enter_requested_event W params d =
     (let (msg, d) = dce_admin_allocate_message W d
      in do {
        (ret, d) \<leftarrow>
          (case msg of
             None \<Rightarrow> Some (0, d)
           | Some p \<Rightarrow> do {
               (ret, d) \<leftarrow> dce_admin_send_enter_sc7 W p d;
               Some (ret, if ret \<noteq> 0 then d
                          else set_status DCE_FW_SUSPENDED (dce_set_boot_complete False d))
             });
        d \<leftarrow> dce_admin_free_message msg d;
        Some (ret, d)
      })"

text \<open>Posting an event, with every handler of the table.\<close>

definition post :: "dce_world \<Rightarrow> dce_event \<Rightarrow> dce_handler" where
  "post W = dce_fsm_post_event (event_process_table
     (dce_handle_boot_complete_requested_event W) (dce_handle_boot_cmd_requested_event W)
     (dce_admin_handle_ipc_requested_event W) (dce_pm_handle_sc7_enter_requested_event W))"

definition dce_admin_wakeup_ipc :: "tegra_dce \<Rightarrow> tegra_dce option" where
  "dce_admin_wakeup_ipc d = map_option snd (post_reply EVENT_ID_DCE_ADMIN_IPC_MSG_RECEIVED No_params d)"

subsection \<open>Bootstrap commands\<close>

text \<open>The bit fields of \<open>dce-bitops.h\<close> and of a boot command.\<close>

definition dce_mask :: "nat \<Rightarrow> nat \<Rightarrow> u32" where
  "dce_mask msb lsb = ((DCE_BIT msb - 1) OR DCE_BIT msb) AND NOT (DCE_BIT lsb - 1)"

definition dce_extract :: "u32 \<Rightarrow> nat \<Rightarrow> nat \<Rightarrow> u32" where
  "dce_extract x msb lsb = drop_bit lsb (x AND dce_mask msb lsb)"

definition dce_insert :: "u32 \<Rightarrow> nat \<Rightarrow> nat \<Rightarrow> u32 \<Rightarrow> u32" where
  "dce_insert x msb lsb v = (x AND dce_mask msb lsb) OR (push_bit lsb v AND dce_mask msb lsb)"

definition DCE_BOOT_CMD_SET :: "u32 \<Rightarrow> u32 \<Rightarrow> u32" where
  "DCE_BOOT_CMD_SET x v = dce_insert x 30 27 v"
definition DCE_BOOT_CMD_GET :: "u32 \<Rightarrow> u32" where
  "DCE_BOOT_CMD_GET x = dce_extract x 30 27"
definition DCE_BOOT_CMD_SET_HILO :: "u32 \<Rightarrow> u32 \<Rightarrow> u32" where
  "DCE_BOOT_CMD_SET_HILO x v = dce_insert x 25 25 v"
definition DCE_BOOT_CMD_GET_HILO :: "u32 \<Rightarrow> u32" where
  "DCE_BOOT_CMD_GET_HILO x = dce_extract x 25 25"
definition DCE_BOOT_CMD_SET_RDWR :: "u32 \<Rightarrow> u32 \<Rightarrow> u32" where
  "DCE_BOOT_CMD_SET_RDWR x v = dce_insert x 24 24 v"
definition DCE_BOOT_CMD_GET_RDWR :: "u32 \<Rightarrow> u32" where
  "DCE_BOOT_CMD_GET_RDWR x = dce_extract x 24 24"
definition DCE_BOOT_CMD_PARM_SET :: "u32 \<Rightarrow> u32 \<Rightarrow> u32" where
  "DCE_BOOT_CMD_PARM_SET x v = dce_insert x 19 0 v"
definition DCE_BOOT_CMD_PARM_GET :: "u32 \<Rightarrow> u32" where
  "DCE_BOOT_CMD_PARM_GET x = dce_extract x 19 0"

definition dce_mailbox_send_cmd_sync ::
  "dce_world \<Rightarrow> u32 \<Rightarrow> nat \<Rightarrow> tegra_dce \<Rightarrow> (int \<times> tegra_dce) option" where
  "dce_mailbox_send_cmd_sync W cmd iface d =
     post W EVENT_ID_DCE_BOOT_CMD_MSG_REQUESTED (Mbox_params cmd iface) d"

definition send_boot :: "dce_world \<Rightarrow> u32 \<Rightarrow> tegra_dce \<Rightarrow> (int \<times> tegra_dce) option" where
  "send_boot W val d = dce_mailbox_send_cmd_sync W val DCE_MAILBOX_BOOT_INTERFACE d"

definition dce_send_version_cmd where
  "dce_send_version_cmd W = send_boot W (DCE_BOOT_CMD_SET 0 0)"

definition dce_send_set_sid_cmd where
  "dce_send_set_sid_cmd W = send_boot W (DCE_BOOT_CMD_SET 0 1 OR DCE_BOOT_CMD_PARM_SET 0 (stream_id W))"

definition dce_send_channel_int_cmd where
  "dce_send_channel_int_cmd W = send_boot W (DCE_BOOT_CMD_SET 0 2)"

definition dce_send_set_addr_cmd_hi :: "dce_world \<Rightarrow> u32 \<Rightarrow> u8 \<Rightarrow> tegra_dce \<Rightarrow> (int \<times> tegra_dce) option" where
  "dce_send_set_addr_cmd_hi W addr rd_wr = send_boot W
     (DCE_BOOT_CMD_SET_HILO 0 1 OR DCE_BOOT_CMD_SET_RDWR 0 (ucast rd_wr) OR DCE_BOOT_CMD_SET 0 3
        OR DCE_BOOT_CMD_PARM_SET 0 addr)"

definition dce_send_set_addr_cmd_lo :: "dce_world \<Rightarrow> u32 \<Rightarrow> u8 \<Rightarrow> tegra_dce \<Rightarrow> (int \<times> tegra_dce) option" where
  "dce_send_set_addr_cmd_lo W addr rd_wr = send_boot W
     (DCE_BOOT_CMD_SET_HILO 0 0 OR DCE_BOOT_CMD_SET_RDWR 0 (ucast rd_wr) OR DCE_BOOT_CMD_SET 0 3
        OR DCE_BOOT_CMD_PARM_SET 0 addr)"

text \<open>Run the second step only if the first returns 0.\<close>

definition and_then ::
  "('d \<Rightarrow> (int \<times> 'd) option) \<Rightarrow> ('d \<Rightarrow> (int \<times> 'd) option) \<Rightarrow> 'd \<Rightarrow> (int \<times> 'd) option" where
  "and_then f g d = do { (ret, d) \<leftarrow> f d; if ret \<noteq> 0 then Some (ret, d) else g d }"

definition dce_send_set_addr_read_cmd :: "dce_world \<Rightarrow> u64 \<Rightarrow> tegra_dce \<Rightarrow> (int \<times> tegra_dce) option" where
  "dce_send_set_addr_read_cmd W rd_buff =
     and_then (dce_send_set_addr_cmd_hi W (ucast (drop_bit 20 rd_buff)) 0)
       (dce_send_set_addr_cmd_lo W (ucast rd_buff) 0)"

definition dce_send_set_addr_write_cmd :: "dce_world \<Rightarrow> u64 \<Rightarrow> tegra_dce \<Rightarrow> (int \<times> tegra_dce) option" where
  "dce_send_set_addr_write_cmd W wr_buff =
     and_then (dce_send_set_addr_cmd_hi W (ucast (drop_bit 20 wr_buff)) 1)
       (dce_send_set_addr_cmd_lo W (ucast wr_buff) 1)"

definition dce_send_get_fsize_cmd where
  "dce_send_get_fsize_cmd W = send_boot W (DCE_BOOT_CMD_SET 0 4)"

definition dce_send_set_nframes_cmd :: "dce_world \<Rightarrow> u8 \<Rightarrow> tegra_dce \<Rightarrow> (int \<times> tegra_dce) option" where
  "dce_send_set_nframes_cmd W n = send_boot W (DCE_BOOT_CMD_SET 0 5 OR DCE_BOOT_CMD_PARM_SET 0 (ucast n))"

definition dce_send_set_fsize_cmd :: "dce_world \<Rightarrow> u32 \<Rightarrow> tegra_dce \<Rightarrow> (int \<times> tegra_dce) option" where
  "dce_send_set_fsize_cmd W sz = send_boot W (DCE_BOOT_CMD_SET 0 10 OR DCE_BOOT_CMD_PARM_SET 0 sz)"

definition dce_send_lock_cmd where
  "dce_send_lock_cmd W = send_boot W (DCE_BOOT_CMD_SET 0 7)"

definition dce_bootstrap_send_ast_iova_info :: "dce_world \<Rightarrow> tegra_dce \<Rightarrow> (int \<times> tegra_dce) option" where
  "dce_bootstrap_send_ast_iova_info W d =
     (case ipc_region_iova W of (ret, iova, sz) \<Rightarrow>
        if ret \<noteq> 0 then Some (ret, d)
        else and_then
          (send_boot W (DCE_BOOT_CMD_SET_HILO 0 1 OR DCE_BOOT_CMD_SET 0 8 OR DCE_BOOT_CMD_PARM_SET 0 (drop_bit 20 sz)))
          (and_then (send_boot W (DCE_BOOT_CMD_SET_HILO 0 0 OR DCE_BOOT_CMD_SET 0 8 OR DCE_BOOT_CMD_PARM_SET 0 sz))
          (and_then (send_boot W (DCE_BOOT_CMD_SET_HILO 0 1 OR DCE_BOOT_CMD_SET 0 9
                       OR DCE_BOOT_CMD_PARM_SET 0 (ucast (drop_bit 20 iova))))
             (send_boot W (DCE_BOOT_CMD_SET_HILO 0 0 OR DCE_BOOT_CMD_SET 0 9 OR DCE_BOOT_CMD_PARM_SET 0 (ucast iova))))) d)"

definition dce_bootstrap_send_admin_ivc_info :: "dce_world \<Rightarrow> tegra_dce \<Rightarrow> (int \<times> tegra_dce) option" where
  "dce_bootstrap_send_admin_ivc_info W d =
     (case ipc_channel_info W 0 of (ret, q) \<Rightarrow>
        if ret \<noteq> 0 then Some (ret, d)
        else and_then (dce_send_set_addr_read_cmd W (q_tx_iova q))
          (and_then (dce_send_set_addr_write_cmd W (q_rx_iova q))
          (and_then (dce_send_get_fsize_cmd W)
          (and_then (dce_send_set_nframes_cmd W (q_nframes q))
             (dce_send_set_fsize_cmd W (q_frame_sz q))))) d)"

definition dce_start_bootstrap_flow :: "dce_world \<Rightarrow> tegra_dce \<Rightarrow> (int \<times> tegra_dce) option" where
  "dce_start_bootstrap_flow W d = do {
     (ret, d) \<leftarrow> and_then (dce_send_version_cmd W) (and_then (dce_send_set_sid_cmd W)
        (and_then (dce_bootstrap_send_ast_iova_info W) (and_then (dce_bootstrap_send_admin_ivc_info W)
        (and_then (dce_send_channel_int_cmd W) (dce_send_lock_cmd W)))))
        (set_status DCE_FW_BOOTSTRAP_START d);
     Some (ret, set_status (if ret = 0 then DCE_FW_BOOTSTRAP_DONE else DCE_FW_BOOTSTRAP_FAILED) d)
   }"

subsection \<open>The administration sequence\<close>

definition dce_admin_send_msg :: "dce_world \<Rightarrow> nat \<Rightarrow> tegra_dce \<Rightarrow> (int \<times> tegra_dce) option" where
  "dce_admin_send_msg W p d = post W EVENT_ID_DCE_ADMIN_IPC_MSG_REQUESTED (Admin_params p) d"

text \<open>An error of the response is an unsigned number, returned as an \<open>int\<close>.\<close>

definition dce_admin_send_cmd_echo :: "dce_world \<Rightarrow> nat option \<Rightarrow> tegra_dce \<Rightarrow> (int \<times> tegra_dce) option" where
  "dce_admin_send_cmd_echo W msg d =
     (case msg of None \<Rightarrow> Some (- 1, d)
      | Some p \<Rightarrow>
        if \<not> dce_is_bootstrap_done d then Some (- 1, d)
        else do {
          d \<leftarrow> set_cmd p DCE_ADMIN_CMD_ECHO d;
          (ret, d) \<leftarrow> dce_admin_send_msg W p d;
          err \<leftarrow> resp_error p d;
          Some (if ret \<noteq> 0 then ret else sint err, d)
        })"

definition dce_admin_send_cmd_ext_test :: "dce_world \<Rightarrow> nat option \<Rightarrow> tegra_dce \<Rightarrow> (int \<times> tegra_dce) option" where
  "dce_admin_send_cmd_ext_test W msg d =
     (case msg of None \<Rightarrow> Some (- 1, d)
      | Some p \<Rightarrow>
        if \<not> dce_is_bootstrap_done d then Some (- 1, d)
        else do { d \<leftarrow> set_cmd p DCE_ADMIN_CMD_EXT_TEST d; dce_admin_send_msg W p d })"

definition dce_admin_send_cmd_ver :: "dce_world \<Rightarrow> nat \<Rightarrow> tegra_dce \<Rightarrow> (int \<times> tegra_dce) option" where
  "dce_admin_send_cmd_ver W p d = do {
     d \<leftarrow> set_cmd p DCE_ADMIN_CMD_VERSION d;
     dce_admin_send_msg W p d
   }"

definition dce_admin_send_prepare_sc7 :: "dce_world \<Rightarrow> nat \<Rightarrow> tegra_dce \<Rightarrow> (int \<times> tegra_dce) option" where
  "dce_admin_send_prepare_sc7 W p d = do {
     d \<leftarrow> set_cmd p DCE_ADMIN_CMD_PREPARE_SC7 d;
     dce_admin_send_msg W p d
   }"

text \<open>The loop over the channels other than the administration channel itself.\<close>

fun setup_clients_from :: "dce_world \<Rightarrow> nat \<Rightarrow> nat \<Rightarrow> nat \<Rightarrow> tegra_dce \<Rightarrow> (int \<times> tegra_dce) option" where
  "setup_clients_from W p i 0 d = Some (0, d)"
| "setup_clients_from W p i (Suc k) d =
     (if i = 0 then setup_clients_from W p (Suc i) k d
      else case ipc_channel_info W i of (ret, q) \<Rightarrow>
        if ret \<noteq> 0 then setup_clients_from W p (Suc i) k d
        else do {
          m \<leftarrow> msgs d p;
          let m = m\<lparr>tx_create := \<lparr>ipc_type = ipc_get_type W i, rd_iova = q_tx_iova q,
                     wr_iova = q_rx_iova q, fsize = q_frame_sz q, n_frames = ucast (q_nframes q)\<rparr>\<rparr>;
          (ret, d) \<leftarrow> dce_admin_send_msg W p (d\<lparr>msgs := (msgs d)(p \<mapsto> m)\<rparr>);
          if ret \<noteq> 0 then Some (ret, d)
          else do {
            err \<leftarrow> resp_error p d;
            if err \<noteq> 0 then Some (ret, d)
            else do { d \<leftarrow> ipc_channel_reset W i d; setup_clients_from W p (Suc i) k d }
          }
        })"

definition dce_admin_setup_clients_ipc :: "dce_world \<Rightarrow> nat \<Rightarrow> tegra_dce \<Rightarrow> (int \<times> tegra_dce) option" where
  "dce_admin_setup_clients_ipc W p d = do {
     d \<leftarrow> set_cmd p DCE_ADMIN_CMD_IPC_CREATE d;
     setup_clients_from W p 0 4 d
   }"

definition dce_admin_send_rm_bootstrap :: "dce_world \<Rightarrow> nat \<Rightarrow> tegra_dce \<Rightarrow> (int \<times> tegra_dce) option" where
  "dce_admin_send_rm_bootstrap W p d = do {
     d \<leftarrow> set_cmd p DCE_ADMIN_CMD_RM_BOOTSTRAP d;
     (ret, d) \<leftarrow> dce_admin_send_msg W p d;
     if ret \<noteq> 0 then Some (ret, d)
     else do { err \<leftarrow> resp_error p d; Some (if err \<noteq> 0 then - EINVAL else 0, d) }
   }"

definition dce_start_admin_seq :: "dce_world \<Rightarrow> tegra_dce \<Rightarrow> (int \<times> tegra_dce) option" where
  "dce_start_admin_seq W d =
     (case dce_admin_allocate_message W d of
        (None, d) \<Rightarrow> Some (- 1, d)
      | (Some p, d) \<Rightarrow> do {
          (ret, d) \<leftarrow> and_then (dce_admin_send_cmd_ver W p)
             (and_then (dce_admin_setup_clients_ipc W p) (dce_admin_send_rm_bootstrap W p))
             (set_status DCE_FW_ADMIN_SEQ_START d);
          let d = (if ret = 0 then set_status DCE_FW_ADMIN_SEQ_DONE d else d);
          d \<leftarrow> dce_admin_free_message (Some p) d;
          Some (ret, if ret \<noteq> 0 then set_status DCE_FW_ADMIN_SEQ_FAILED d else d)
        })"

subsection \<open>Boot, suspend and resume\<close>

definition dce_start_boot_flow :: "dce_world \<Rightarrow> tegra_dce \<Rightarrow> (int \<times> tegra_dce) option" where
  "dce_start_boot_flow W d = do {
     (ret, d) \<leftarrow> dce_start_bootstrap_flow W d;
     (ret, d) \<leftarrow>
       (if ret \<noteq> 0 then Some (ret, d)
        else do {
          d \<leftarrow> ipc_channel_reset W 0 d;
          (ret, d) \<leftarrow> dce_start_admin_seq W d;
          Some (ret, if ret \<noteq> 0 then d
            else (set_status DCE_FW_BOOT_DONE d)\<lparr>bootstrap_broadcasts := bootstrap_broadcasts d + 1\<rparr>)
        });
     Some (ret, if ret \<noteq> 0 then set_status DCE_STATUS_FAILED d else d)
   }"

definition dce_bootstrap_work_fn :: "dce_world \<Rightarrow> tegra_dce \<Rightarrow> tegra_dce option" where
  "dce_bootstrap_work_fn W d = map_option snd
     (and_then (post W EVENT_ID_DCE_FSM_START No_params)
       (and_then (post W EVENT_ID_DCE_BOOT_COMPLETE_REQUESTED No_params) (dce_start_boot_flow W)) d)"

definition dce_resume_work_fn :: "dce_world \<Rightarrow> tegra_dce \<Rightarrow> tegra_dce option" where
  "dce_resume_work_fn W d = map_option snd
     (and_then (post W EVENT_ID_DCE_BOOT_COMPLETE_REQUESTED No_params) (dce_start_boot_flow W) d)"

definition dce_pm_save_state :: "tegra_dce \<Rightarrow> tegra_dce option" where
  "dce_pm_save_state d = do { v \<leftarrow> dce_hsp_ie_read CCPLEX_HSP_IE d; Some (d\<lparr>sc7_hsp_ie := v\<rparr>) }"

definition dce_pm_restore_state :: "tegra_dce \<Rightarrow> tegra_dce option" where
  "dce_pm_restore_state d = dce_hsp_ie_write (sc7_hsp_ie d) CCPLEX_HSP_IE d"

definition dce_pm_enter_sc7 :: "dce_world \<Rightarrow> tegra_dce \<Rightarrow> (int \<times> tegra_dce) option" where
  "dce_pm_enter_sc7 W d =
     (if \<not> dce_is_bootstrap_done d then Some (0, d)
      else case dce_admin_allocate_message W d of
        (None, d) \<Rightarrow> Some (- 1, d)
      | (Some p, d) \<Rightarrow> do {
          d \<leftarrow> dce_pm_save_state d;
          (ret, d) \<leftarrow> and_then (dce_admin_send_prepare_sc7 W p)
             (post W EVENT_ID_DCE_SC7_ENTER_REQUESTED No_params) d;
          d \<leftarrow> dce_admin_free_message (Some p) d;
          Some (if ret \<noteq> 0 then - 1 else 0, d)
        })"

definition dce_pm_exit_sc7 :: "dce_world \<Rightarrow> tegra_dce \<Rightarrow> (int \<times> tegra_dce) option" where
  "dce_pm_exit_sc7 W d = do {
     d \<leftarrow> dce_pm_restore_state d;
     post W EVENT_ID_DCE_SC7_EXIT_RECEIVED No_params d
   }"

subsection \<open>Lemmas: boot commands against a firmware that answers\<close>

definition boot_ready :: "tegra_dce \<Rightarrow> bool" where
  "boot_ready d \<longleftrightarrow> boot_iface d \<and> initialized d \<and> c_state d = STATE_DCE_FSM_IDLE
     \<and> \<not> wait_complete d DCE_WAIT_BOOT_CMD \<and> \<not> bit (smb d DCE_MBOX_BOOT_CMD) 31"

text \<open>The firmware takes the command out of its mailbox, notes it, writes its reply and raises the interrupt.\<close>

definition fw_step :: "(u32 \<Rightarrow> u32) \<Rightarrow> dce_world \<Rightarrow> tegra_dce \<Rightarrow> tegra_dce" where
  "fw_step reply W d =
     (case dce_mailbox_isr W (d\<lparr>smb := (smb d)(DCE_MBOX_BOOT_CMD := 0,
             DCE_MBOX_IRQ := reply (smb d DCE_MBOX_BOOT_CMD)), hsp_ir := DCE_BIT 15\<rparr>) of
        None \<Rightarrow> d | Some d' \<Rightarrow> d'\<lparr>hsp_ir := 0, fw_log := fw_log d @ [smb d DCE_MBOX_BOOT_CMD]\<rparr>)"

definition firmware :: "(u32 \<Rightarrow> u32) \<Rightarrow> dce_world \<Rightarrow> bool" where
  "firmware reply W \<longleftrightarrow> (\<forall>d. while_waiting W DCE_WAIT_BOOT_CMD d = fw_step reply W d)
     \<and> (\<forall>v. DCE_IRQ_GET_STATUS_TYPE (reply v) = 1)"

definition acked :: "(u32 \<Rightarrow> u32) \<Rightarrow> u32 \<Rightarrow> bool" where
  "acked reply cmd \<longleftrightarrow> \<not> bit (reply (cmd OR DCE_BIT 31)) DCE_BOOT_CMD_ERR_FLAG"

text \<open>The state after a command and its reply.\<close>

definition sent :: "u32 \<Rightarrow> u32 \<Rightarrow> tegra_dce \<Rightarrow> tegra_dce" where
  "sent c r d = d\<lparr>smb := (smb d)(6 := 0, 7 := 0), hsp_ir := 0,
     d_mb := (d_mb d)(0 := (d_mb d 0)\<lparr>ack_value := r, mb_valid := True\<rparr>),
     requested_ipcs := requested_ipcs d AND NOT (DCE_BIT 1), fw_log := fw_log d @ [c]\<rparr>"

lemma sent_ready: "boot_ready d \<Longrightarrow> boot_ready (sent c r d)"
  by (simp add: boot_ready_def boot_iface_def sent_def list_all_iff)

lemma sent_keeps: "boot_status (sent c r d) = boot_status d" "msgs (sent c r d) = msgs d"
  "fw_log (sent c r d) = fw_log d @ [c]" "d_mb (sent c r d) 0 = (d_mb d 0)\<lparr>ack_value := r, mb_valid := True\<rparr>"
  by (simp_all add: sent_def)

lemma OR_AND_NOT: "(a OR b) AND NOT b = a AND NOT (b :: u32)"
  by (rule bit_word_eqI) (auto simp: bit_simps)

lemma mb_send_id: "\<not> mb_locked mb \<Longrightarrow>
    mb\<lparr>mb_valid := False, mb_locked := False\<rparr> = mb\<lparr>mb_valid := False\<rparr>"
  by (cases mb) simp

lemma fw_step_sent:
  assumes "boot_iface d" "initialized d" "c_state d = STATE_DCE_BOOTCMD_WFI"
    and "DCE_IRQ_GET_STATUS_TYPE (reply (smb d 6)) = 1"
  shows "fw_step reply W d = (sent (smb d 6) (reply (smb d 6)) d)\<lparr>c_state := STATE_DCE_FSM_IDLE,
     wait_complete := (wait_complete d)(1 := True)\<rparr>"
proof -
  let ?d = "d\<lparr>smb := (smb d)(6 := 0, 7 := reply (smb d 6)), hsp_ir := DCE_BIT 15\<rparr>"
  have "boot_iface ?d" using assms(1) by (simp add: boot_iface_def)
  then show ?thesis using isr_boot_reply [of ?d W] assms
    by (simp add: fw_step_def sent_def fun_upd_twist)
qed

lemma boot_cmd_posted:
  assumes "initialized d" "c_state d = STATE_DCE_FSM_IDLE"
  shows "send_boot W cmd d =
    (case dce_handle_mailbox_send_cmd_sync W cmd 0
       (d\<lparr>c_state := STATE_DCE_BOOTCMD_WFI, requested_ipcs := requested_ipcs d OR DCE_BIT 1\<rparr>) of
       None \<Rightarrow> None
     | Some (ret, d') \<Rightarrow> Some (ret, if ret \<noteq> 0 then d'\<lparr>c_state := STATE_DCE_FSM_IDLE\<rparr> else d'))"
proof -
  have "dce_fsm_validate_event d EVENT_ID_DCE_BOOT_CMD_MSG_REQUESTED = 0"
    using assms by (simp add: dce_fsm_validate_event_def event_num_def)
  then show ?thesis using assms
    unfolding send_boot_def dce_mailbox_send_cmd_sync_def post_def
    by (subst post_accepted) (simp_all add: event_process_table_def dce_fsm_set_state_def
      dce_handle_boot_cmd_requested_event_def numeral_eq_Suc split: option.splits)
qed

lemma mailbox_send_ready:
  assumes "boot_iface d" "\<not> wait_complete d 1" "\<not> bit (smb d 6) 31"
  shows "dce_handle_mailbox_send_cmd_sync W cmd 0 d = Some (dce_mailbox_wait_boot_interface W
    (d\<lparr>smb := (smb d)(6 := cmd OR DCE_BIT 31), d_mb := (d_mb d)(0 := (d_mb d 0)\<lparr>mb_valid := False\<rparr>)\<rparr>))"
  using assms
  by (simp add: dce_handle_mailbox_send_cmd_sync_def mb_lock_def mb_unlock_def set_mb_def boot_iface_def
      dce_mailbox_write_safe_def dce_smb_read_def dce_smb_set_def hsp_guard_def mb_send_id Let_def)

lemma wait_boot_answered:
  assumes "firmware reply W" "boot_iface d" "initialized d" "c_state d = STATE_DCE_BOOTCMD_WFI"
    and "\<not> wait_complete d 1"
  shows "dce_mailbox_wait_boot_interface W d =
    (if bit (reply (smb d 6)) DCE_BOOT_CMD_ERR_FLAG then - EBADE else 0,
     (sent (smb d 6) (reply (smb d 6)) d)\<lparr>c_state := STATE_DCE_FSM_IDLE\<rparr>)"
proof -
  have "while_waiting W 1 d = fw_step reply W d" "DCE_IRQ_GET_STATUS_TYPE (reply (smb d 6)) = 1"
    using assms(1) by (simp_all add: firmware_def)
  with assms have w: "while_waiting W 1 d = (sent (smb d 6) (reply (smb d 6)) d)\<lparr>c_state := STATE_DCE_FSM_IDLE,
     wait_complete := (wait_complete d)(1 := True)\<rparr>" by (simp add: fw_step_sent)
  have "(wait_complete d)(1 := False) = wait_complete d" using assms(5) by (simp add: fun_upd_idem)
  then have "(sent c r d)\<lparr>c_state := s, wait_complete := (wait_complete d)(1 := False)\<rparr> = (sent c r d)\<lparr>c_state := s\<rparr>" for c r s
    by (cases d) (simp add: sent_def)
  then show ?thesis using w assms(5)
    by (simp add: dce_mailbox_wait_boot_interface_def dce_wait_interruptible_def
      dce_mailbox_get_interface_status_def sent_def)
qed

lemma send_boot_ready:
  assumes "firmware reply W" "boot_ready d"
  shows "send_boot W cmd d =
    Some (if acked reply cmd then 0 else - EBADE, sent (cmd OR DCE_BIT 31) (reply (cmd OR DCE_BIT 31)) d)"
proof -
  let ?e = "d\<lparr>c_state := STATE_DCE_BOOTCMD_WFI, requested_ipcs := requested_ipcs d OR DCE_BIT 1,
     smb := (smb d)(6 := cmd OR DCE_BIT 31), d_mb := (d_mb d)(0 := (d_mb d 0)\<lparr>mb_valid := False\<rparr>)\<rparr>"
  have e: "boot_iface ?e" "initialized ?e" "c_state ?e = STATE_DCE_BOOTCMD_WFI" "\<not> wait_complete ?e 1"
    using assms(2) by (simp_all add: boot_ready_def boot_iface_def list_all_iff)
  have s: "(sent c r ?e)\<lparr>c_state := STATE_DCE_FSM_IDLE\<rparr> = sent c r d" for c r
    using assms(2) by (cases d) (simp add: sent_def OR_AND_NOT boot_ready_def fun_upd_twist)
  have i: "(sent c r d)\<lparr>c_state := STATE_DCE_FSM_IDLE\<rparr> = sent c r d" for c r
    using assms(2) by (cases d) (simp add: sent_def boot_ready_def)
  show ?thesis
    using assms wait_boot_answered [OF assms(1) e] s [of "cmd OR DCE_BIT 31" "reply (cmd OR DCE_BIT 31)"] i
    by (simp add: boot_cmd_posted boot_ready_def mailbox_send_ready boot_iface_def acked_def list_all_iff)
qed

text \<open>A list of commands sent one after the other, up to the first that the firmware rejects.\<close>

fun send_all :: "dce_world \<Rightarrow> u32 list \<Rightarrow> tegra_dce \<Rightarrow> (int \<times> tegra_dce) option" where
  "send_all W [] d = Some (0, d)"
| "send_all W (c # cs) d = and_then (send_boot W c) (send_all W cs) d"

lemma and_then_assoc: "and_then (and_then f g) h = and_then f (and_then g h)"
proof
  fix d show "and_then (and_then f g) h d = and_then f (and_then g h) d"
    by (cases "f d") (auto simp: and_then_def split: prod.splits)
qed

lemma and_then_right: "and_then f (\<lambda>d. Some (0, d)) = f"
proof
  fix d show "and_then f (\<lambda>d. Some (0, d)) d = f d"
    by (cases "f d") (auto simp: and_then_def split: prod.splits)
qed

lemma send_all_Cons: "send_all W (c # cs) = and_then (send_boot W c) (send_all W cs)"
  by (rule ext) simp

lemma and_then_Nil: "and_then f (send_all W []) = f"
proof -
  have "send_all W [] = (\<lambda>d. Some (0, d))" by (rule ext) simp
  then show ?thesis by (simp add: and_then_right)
qed

lemma and_then_start: "and_then (send_all W []) f = f"
  by (intro ext) (simp add: and_then_def)

lemma send_all_append: "send_all W (as @ bs) = and_then (send_all W as) (send_all W bs)"
proof (induction as)
  case Nil
  then show ?case by (intro ext) (simp add: and_then_def)
next
  case (Cons a as)
  have "send_all W ((a # as) @ bs) = and_then (send_boot W a) (and_then (send_all W as) (send_all W bs))"
    using Cons send_all_Cons by simp
  also have "\<dots> = and_then (send_all W (a # as)) (send_all W bs)"
    unfolding send_all_Cons [of W a as] and_then_assoc ..
  finally show ?case .
qed

text \<open>Of a list of commands, those that are sent: up to the first that is rejected, this one included.\<close>

definition sent_of :: "(u32 \<Rightarrow> u32) \<Rightarrow> u32 list \<Rightarrow> u32 list" where
  "sent_of reply cs = takeWhile (acked reply) cs @ take 1 (dropWhile (acked reply) cs)"

lemma sent_of_simps [simp]: "sent_of reply [] = []"
  "sent_of reply (c # cs) = c # (if acked reply c then sent_of reply cs else [])"
  by (simp_all add: sent_of_def)

lemma send_all_result:
  assumes "firmware reply W" "boot_ready d"
  shows "\<exists>d'. send_all W cs d = Some (if list_all (acked reply) cs then 0 else - EBADE, d')
    \<and> boot_ready d' \<and> boot_status d' = boot_status d \<and> msgs d' = msgs d
    \<and> fw_log d' = fw_log d @ map (\<lambda>c. c OR DCE_BIT 31) (sent_of reply cs)"
  using assms(2)
proof (induction cs arbitrary: d)
  case (Cons c cs)
  let ?d = "sent (c OR DCE_BIT 31) (reply (c OR DCE_BIT 31)) d"
  have r: "boot_ready ?d" by (rule sent_ready [OF Cons.prems])
  show ?case
  proof (cases "acked reply c")
    case True
    with Cons.IH [OF r] show ?thesis
      by (simp add: and_then_def send_boot_ready [OF assms(1) Cons.prems] sent_keeps)
  next
    case False
    with r show ?thesis
      by (simp add: and_then_def send_boot_ready [OF assms(1) Cons.prems] sent_keeps)
  qed
qed simp

text \<open>The commands of the bootstrap flow, and the fields that the firmware reads in a command.\<close>

definition boot_commands :: "dce_world \<Rightarrow> u32 list" where
  "boot_commands W =
     (case (ipc_region_iova W, ipc_channel_info W 0) of ((_, iova, sz), (_, q)) \<Rightarrow>
      let addr = (\<lambda>hilo rdwr v. DCE_BOOT_CMD_SET_HILO 0 hilo OR DCE_BOOT_CMD_SET_RDWR 0 (ucast (rdwr :: u8)) OR DCE_BOOT_CMD_SET 0 3
            OR DCE_BOOT_CMD_PARM_SET 0 v);
          ast = (\<lambda>hilo c v. DCE_BOOT_CMD_SET_HILO 0 hilo OR DCE_BOOT_CMD_SET 0 c OR DCE_BOOT_CMD_PARM_SET 0 v)
      in [DCE_BOOT_CMD_SET 0 0,
          DCE_BOOT_CMD_SET 0 1 OR DCE_BOOT_CMD_PARM_SET 0 (stream_id W),
          ast 1 8 (drop_bit 20 sz), ast 0 8 sz, ast 1 9 (ucast (drop_bit 20 iova)), ast 0 9 (ucast iova),
          addr 1 0 (ucast (drop_bit 20 (q_tx_iova q))), addr 0 0 (ucast (q_tx_iova q)),
          addr 1 1 (ucast (drop_bit 20 (q_rx_iova q))), addr 0 1 (ucast (q_rx_iova q)),
          DCE_BOOT_CMD_SET 0 4,
          DCE_BOOT_CMD_SET 0 5 OR DCE_BOOT_CMD_PARM_SET 0 (ucast (q_nframes q)),
          DCE_BOOT_CMD_SET 0 10 OR DCE_BOOT_CMD_PARM_SET 0 (q_frame_sz q),
          DCE_BOOT_CMD_SET 0 2,
          DCE_BOOT_CMD_SET 0 7])"

lemmas send_cmd_defs = dce_send_version_cmd_def dce_send_set_sid_cmd_def dce_send_channel_int_cmd_def
  dce_send_set_addr_cmd_hi_def dce_send_set_addr_cmd_lo_def dce_send_set_addr_read_cmd_def
  dce_send_set_addr_write_cmd_def dce_send_get_fsize_cmd_def dce_send_set_nframes_cmd_def
  dce_send_set_fsize_cmd_def dce_send_lock_cmd_def

lemma flow_commands:
  assumes "fst (ipc_region_iova W) = 0" "fst (ipc_channel_info W 0) = 0"
  shows "and_then (dce_send_version_cmd W) (and_then (dce_send_set_sid_cmd W)
        (and_then (dce_bootstrap_send_ast_iova_info W) (and_then (dce_bootstrap_send_admin_ivc_info W)
        (and_then (dce_send_channel_int_cmd W) (dce_send_lock_cmd W))))) = send_all W (boot_commands W)"
proof -
  obtain iova sz where r: "ipc_region_iova W = (0, iova, sz)" using assms(1) by (metis prod.collapse)
  obtain q where c: "ipc_channel_info W 0 = (0, q)" using assms(2) by (metis prod.collapse)
  have ast: "dce_bootstrap_send_ast_iova_info W = send_all W
      [DCE_BOOT_CMD_SET_HILO 0 1 OR DCE_BOOT_CMD_SET 0 8 OR DCE_BOOT_CMD_PARM_SET 0 (drop_bit 20 sz),
       DCE_BOOT_CMD_SET_HILO 0 0 OR DCE_BOOT_CMD_SET 0 8 OR DCE_BOOT_CMD_PARM_SET 0 sz,
       DCE_BOOT_CMD_SET_HILO 0 1 OR DCE_BOOT_CMD_SET 0 9 OR DCE_BOOT_CMD_PARM_SET 0 (ucast (drop_bit 20 iova)),
       DCE_BOOT_CMD_SET_HILO 0 0 OR DCE_BOOT_CMD_SET 0 9 OR DCE_BOOT_CMD_PARM_SET 0 (ucast iova)]"
    by (rule ext) (simp add: dce_bootstrap_send_ast_iova_info_def r send_all_Cons and_then_Nil
      del: send_all.simps)
  have ivc: "dce_bootstrap_send_admin_ivc_info W = and_then (dce_send_set_addr_read_cmd W (q_tx_iova q))
          (and_then (dce_send_set_addr_write_cmd W (q_rx_iova q))
          (and_then (dce_send_get_fsize_cmd W)
          (and_then (dce_send_set_nframes_cmd W (q_nframes q))
             (dce_send_set_fsize_cmd W (q_frame_sz q)))))"
    by (rule ext) (simp add: dce_bootstrap_send_admin_ivc_info_def c)
  show ?thesis unfolding ast ivc send_cmd_defs
    by (simp add: boot_commands_def r c send_all_Cons and_then_Nil and_then_assoc Let_def del: send_all.simps)
qed

text \<open>What the flow is to send, and its result when all is accepted: it stops early if a lookup of addresses fails.\<close>

definition flow_plan :: "dce_world \<Rightarrow> u32 list \<times> int" where
  "flow_plan W =
     (if fst (ipc_region_iova W) \<noteq> 0 then (take 2 (boot_commands W), fst (ipc_region_iova W))
      else if fst (ipc_channel_info W 0) \<noteq> 0 then (take 6 (boot_commands W), fst (ipc_channel_info W 0))
      else (boot_commands W, 0))"

lemma flow_planned:
  "and_then (dce_send_version_cmd W) (and_then (dce_send_set_sid_cmd W)
        (and_then (dce_bootstrap_send_ast_iova_info W) (and_then (dce_bootstrap_send_admin_ivc_info W)
        (and_then (dce_send_channel_int_cmd W) (dce_send_lock_cmd W)))))
    = and_then (send_all W (fst (flow_plan W))) (\<lambda>d. Some (snd (flow_plan W), d))"
proof -
  obtain r iova sz where r: "ipc_region_iova W = (r, iova, sz)" by (metis prod.collapse)
  obtain k q where c: "ipc_channel_info W 0 = (k, q)" by (metis prod.collapse)
  have stop: "and_then (\<lambda>d. Some (e, d)) f = (\<lambda>d. Some (e, d))" if "e \<noteq> 0" for e and f :: "tegra_dce \<Rightarrow> (int \<times> tegra_dce) option"
    using that by (intro ext) (simp add: and_then_def)
  consider "r \<noteq> 0" | "r = 0" "k \<noteq> 0" | "r = 0" "k = 0" by blast
  then show ?thesis
  proof cases
    case 1
    have "dce_bootstrap_send_ast_iova_info W = (\<lambda>d. Some (r, d))"
      using 1 by (intro ext) (simp add: dce_bootstrap_send_ast_iova_info_def r)
    then show ?thesis using 1
      by (simp add: flow_plan_def boot_commands_def r c stop send_cmd_defs send_all_Cons and_then_assoc Let_def
          and_then_start del: send_all.simps)
  next
    case 2
    have "dce_bootstrap_send_admin_ivc_info W = (\<lambda>d. Some (k, d))"
      using 2 by (intro ext) (simp add: dce_bootstrap_send_admin_ivc_info_def c)
    moreover have "dce_bootstrap_send_ast_iova_info W = send_all W (take 4 (drop 2 (boot_commands W)))"
      using 2 by (intro ext) (simp add: dce_bootstrap_send_ast_iova_info_def r c boot_commands_def Let_def send_all_Cons and_then_Nil
          del: send_all.simps)
    ultimately show ?thesis using 2
      by (simp add: flow_plan_def boot_commands_def r c stop send_cmd_defs send_all_Cons and_then_assoc Let_def
          and_then_start del: send_all.simps)
  next
    case 3
    then show ?thesis using flow_commands [of W] by (simp add: flow_plan_def r c and_then_right)
  qed
qed

lemma bit_dce_mask: "m < 32 \<Longrightarrow> bit (dce_mask m l) i \<longleftrightarrow> l \<le> i \<and> i \<le> m"
proof -
  assume "m < 32"
  have "DCE_BIT b - 1 = mask b" for b by (simp add: DCE_BIT_def mask_eq_exp_minus_1)
  then have "dce_mask m l = (mask m OR push_bit m 1) AND NOT (mask l)"
    by (simp add: dce_mask_def) (simp add: DCE_BIT_def)
  with \<open>m < 32\<close> show ?thesis by (auto simp: bit_simps)
qed

lemma bit_dce_insert: "m < 32 \<Longrightarrow> bit (dce_insert 0 m l v) i \<longleftrightarrow> l \<le> i \<and> i \<le> m \<and> bit v (i - l)"
  by (auto simp: dce_insert_def bit_simps bit_dce_mask)

lemma bit_dce_extract: "m < 32 \<Longrightarrow> bit (dce_extract x m l) i \<longleftrightarrow> l + i \<le> m \<and> bit x (l + i)"
  by (auto simp: dce_extract_def bit_simps bit_dce_mask)

lemmas boot_cmd_field_defs =
  DCE_BOOT_CMD_SET_def DCE_BOOT_CMD_GET_def DCE_BOOT_CMD_SET_HILO_def DCE_BOOT_CMD_GET_HILO_def
  DCE_BOOT_CMD_SET_RDWR_def DCE_BOOT_CMD_GET_RDWR_def DCE_BOOT_CMD_PARM_SET_def DCE_BOOT_CMD_PARM_GET_def

definition addr_cmd :: "u32 \<Rightarrow> u8 \<Rightarrow> u32 \<Rightarrow> u32" where
  "addr_cmd hilo rd_wr v = DCE_BOOT_CMD_SET_HILO 0 hilo OR DCE_BOOT_CMD_SET_RDWR 0 (ucast rd_wr)
     OR DCE_BOOT_CMD_SET 0 3 OR DCE_BOOT_CMD_PARM_SET 0 v"

lemma addr_cmd_fields:
  "DCE_BOOT_CMD_GET (addr_cmd h r v) = 3"
  "DCE_BOOT_CMD_GET_HILO (addr_cmd h r v) = take_bit 1 h"
  "DCE_BOOT_CMD_GET_RDWR (addr_cmd h r v) = take_bit 1 (ucast r)"
  "DCE_BOOT_CMD_PARM_GET (addr_cmd h r v) = take_bit 20 v"
proof -
  have three: "(3 :: u32) = mask 2" by (simp add: mask_eq_exp_minus_1)
  show "DCE_BOOT_CMD_GET (addr_cmd h r v) = 3"
    unfolding three addr_cmd_def boot_cmd_field_defs
    by (rule bit_word_eqI) (auto simp: bit_dce_extract bit_or_iff bit_dce_insert bit_mask_iff)
  show "DCE_BOOT_CMD_GET_HILO (addr_cmd h r v) = take_bit 1 h"
    by (rule bit_word_eqI) (auto simp: addr_cmd_def boot_cmd_field_defs bit_dce_extract bit_or_iff bit_dce_insert
      bit_take_bit_iff bit_0)
  show "DCE_BOOT_CMD_GET_RDWR (addr_cmd h r v) = take_bit 1 (ucast r)"
    by (rule bit_word_eqI) (auto simp: addr_cmd_def boot_cmd_field_defs bit_dce_extract bit_or_iff bit_dce_insert
      bit_take_bit_iff bit_0)
  show "DCE_BOOT_CMD_PARM_GET (addr_cmd h r v) = take_bit 20 v"
    by (rule bit_word_eqI) (auto simp: addr_cmd_def boot_cmd_field_defs bit_dce_extract bit_or_iff bit_dce_insert
      bit_take_bit_iff bit_0)
qed

lemma addr_parts:
  "push_bit 20 (ucast (take_bit 20 (ucast (drop_bit 20 a) :: u32))) OR ucast (take_bit 20 (ucast a :: u32))
    = take_bit 40 (a :: u64)"
  by (rule bit_word_eqI) (auto simp: bit_simps)

text \<open>A world whose firmware answers every boot command by \<open>reply\<close>.\<close>

definition fw_world :: "(u32 \<Rightarrow> u32) \<Rightarrow> dce_world" where
  "fw_world reply = demo_world\<lparr>while_waiting := (\<lambda>i d. if i = 1 then fw_step reply demo_world d else d)\<rparr>"

lemma fw_world_firmware:
  assumes "\<And>v. DCE_IRQ_GET_STATUS_TYPE (reply v) = 1"
  shows "firmware reply (fw_world reply)"
proof -
  have "dce_mailbox_isr (fw_world reply) = dce_mailbox_isr demo_world"
    by (rule isr_ipc) (simp add: fw_world_def)
  then show ?thesis using assms by (simp add: firmware_def fw_step_def fw_world_def)
qed

lemma demo_ready: "boot_ready demo_dce"
  by (simp add: boot_ready_def boot_iface_def demo_dce_def demo_mb_def DCE_BIT_def upt_rec)

subsection \<open>Lemmas: the message of the administration sequence\<close>

text \<open>The layer below returns, and keeps the messages of the driver, except for the response it fills in.\<close>

definition ipc_keeps_msgs :: "dce_world \<Rightarrow> bool" where
  "ipc_keeps_msgs W \<longleftrightarrow> (\<forall>m d. \<exists>ret m' d'. ipc_send_sync W m d = Some (ret, m', d') \<and> msgs d' = msgs d)
     \<and> (\<forall>i d. \<exists>d'. ipc_channel_reset W i d = Some d' \<and> msgs d' = msgs d)"

text \<open>A step that returns, and changes no message but its own.\<close>

definition own_msg :: "nat \<Rightarrow> tegra_dce \<Rightarrow> (int \<times> tegra_dce) option \<Rightarrow> bool" where
  "own_msg p d r \<longleftrightarrow> (\<exists>ret d' m'. r = Some (ret, d') \<and> msgs d' = (msgs d)(p \<mapsto> m'))"

lemma own_msg_step:
  assumes "own_msg p d r" "\<And>ret d' m'. msgs d' = (msgs d)(p \<mapsto> m') \<Longrightarrow> own_msg p d' (f (ret, d'))"
  shows "own_msg p d (Option.bind r f)"
proof -
  obtain ret d' m' where r: "r = Some (ret, d')" "msgs d' = (msgs d)(p \<mapsto> m')"
    using assms(1) by (auto simp: own_msg_def)
  with assms(2) [OF r(2)] obtain ret2 d2 m2 where "f (ret, d') = Some (ret2, d2)" "msgs d2 = (msgs d')(p \<mapsto> m2)"
    unfolding own_msg_def by metis
  with r show ?thesis by (auto simp: own_msg_def)
qed

lemma own_msg_refl: "msgs d p = Some m \<Longrightarrow> msgs d' = msgs d \<Longrightarrow> own_msg p d (Some (ret, d'))"
  unfolding own_msg_def by (metis fun_upd_triv)

lemma own_msg_eq: "own_msg p d r \<Longrightarrow> msgs e = (msgs d)(p \<mapsto> m) \<Longrightarrow> own_msg p e r"
  by (auto simp: own_msg_def)

lemma own_msg_and_then:
  assumes "own_msg p d (f d)" "\<And>d' m'. msgs d' = (msgs d)(p \<mapsto> m') \<Longrightarrow> own_msg p d' (g d')"
  shows "own_msg p d (and_then f g d)"
  unfolding and_then_def
  by (rule own_msg_step [OF assms(1)]) (auto intro: assms(2) own_msg_refl)

lemma set_state_keeps: "msgs (dce_fsm_set_state ev d) = msgs d"
  by (simp add: dce_fsm_set_state_def split: dce_event.splits)

lemma admin_handler_own:
  assumes "ipc_keeps_msgs W" "msgs d p = Some m"
  shows "own_msg p d (dce_admin_handle_ipc_requested_event W (Admin_params p) d)"
proof (cases "dce_is_bootcmds_done d")
  case True
  obtain ret m' d' where s: "ipc_send_sync W m d = Some (ret, m', d')" "msgs d' = msgs d"
    using assms(1) unfolding ipc_keeps_msgs_def by blast
  then show ?thesis using True assms(2) s
    by (auto simp: dce_admin_handle_ipc_requested_event_def own_msg_def)
next
  case False
  with assms(2) show ?thesis by (simp add: dce_admin_handle_ipc_requested_event_def own_msg_refl)
qed

lemma admin_send_own:
  assumes "ipc_keeps_msgs W" "msgs d p = Some m"
  shows "own_msg p d (dce_admin_send_msg W p d)"
proof (cases "dce_fsm_validate_event d EVENT_ID_DCE_ADMIN_IPC_MSG_REQUESTED = 0")
  case True
  let ?d = "dce_fsm_set_state EVENT_ID_DCE_ADMIN_IPC_MSG_REQUESTED d"
  have "own_msg p ?d (dce_admin_handle_ipc_requested_event W (Admin_params p) ?d)"
    using assms by (intro admin_handler_own) (simp_all add: set_state_keeps)
  then show ?thesis using True unfolding dce_admin_send_msg_def post_def
    by (subst post_accepted)
       (auto simp: event_process_table_def numeral_eq_Suc own_msg_def set_state_keeps)
next
  case False
  then show ?thesis using assms(2)
    by (simp add: dce_admin_send_msg_def post_def post_refused own_msg_refl)
qed

lemma set_cmd_own:
  assumes "msgs d p = Some m" "\<And>d' m'. msgs d' = (msgs d)(p \<mapsto> m') \<Longrightarrow> own_msg p d' (f d')"
  shows "own_msg p d (Option.bind (set_cmd p c d) f)"
proof -
  let ?d = "d\<lparr>msgs := (msgs d)(p \<mapsto> m\<lparr>tx_cmd := c\<rparr>)\<rparr>"
  have "own_msg p ?d (f ?d)" by (rule assms(2)) simp
  with assms(1) show ?thesis by (auto simp: set_cmd_def own_msg_def)
qed

lemma ver_own: "ipc_keeps_msgs W \<Longrightarrow> msgs d p = Some m \<Longrightarrow> own_msg p d (dce_admin_send_cmd_ver W p d)"
  unfolding dce_admin_send_cmd_ver_def by (rule set_cmd_own) (auto intro: admin_send_own)

lemma rm_bootstrap_own:
  assumes "ipc_keeps_msgs W" "msgs d p = Some m"
  shows "own_msg p d (dce_admin_send_rm_bootstrap W p d)"
  unfolding dce_admin_send_rm_bootstrap_def
  by (rule set_cmd_own [OF assms(2)], rule own_msg_step, rule admin_send_own [OF assms(1)])
     (auto simp: own_msg_def resp_error_def)

lemma setup_clients_own:
  assumes "ipc_keeps_msgs W"
  shows "msgs d p = Some m \<Longrightarrow> own_msg p d (setup_clients_from W p i k d)"
proof (induction k arbitrary: i d m)
  case (Suc k)
  obtain r q where q: "ipc_channel_info W i = (r, q)" by fastforce
  let ?m = "m\<lparr>tx_create := \<lparr>ipc_type = ipc_get_type W i, rd_iova = q_tx_iova q,
                     wr_iova = q_rx_iova q, fsize = q_frame_sz q, n_frames = ucast (q_nframes q)\<rparr>\<rparr>"
  let ?d = "d\<lparr>msgs := (msgs d)(p \<mapsto> ?m)\<rparr>"
  show ?case
  proof (cases "i = 0 \<or> r \<noteq> 0")
    case True
    then show ?thesis using Suc.IH [OF Suc.prems] q by auto
  next
    case False
    have "own_msg p ?d (dce_admin_send_msg W p ?d)" by (rule admin_send_own [OF assms]) simp
    then obtain ret e m' where e: "dce_admin_send_msg W p ?d = Some (ret, e)" "msgs e = (msgs d)(p \<mapsto> m')"
      by (auto simp: own_msg_def)
    obtain e' where e': "ipc_channel_reset W i e = Some e'" "msgs e' = msgs e"
      using assms unfolding ipc_keeps_msgs_def by blast
    have "own_msg p e' (setup_clients_from W p (Suc i) k e')" by (rule Suc.IH) (simp add: e' e)
    then have "own_msg p d (setup_clients_from W p (Suc i) k e')" by (auto simp: own_msg_def e' e)
    with False q e e'(1) show ?thesis by (auto simp: Suc.prems resp_error_def) (auto simp: own_msg_def)
  qed
qed (simp add: own_msg_refl)

lemma setup_own:
  "ipc_keeps_msgs W \<Longrightarrow> msgs d p = Some m \<Longrightarrow> own_msg p d (dce_admin_setup_clients_ipc W p d)"
  unfolding dce_admin_setup_clients_ipc_def by (rule set_cmd_own) (auto intro: setup_clients_own)

subsection \<open>Properties\<close>

text \<open>
  C35. Against a firmware that answers, a boot command returns 0 when the reply has no error flag and
  -EBADE otherwise; the reply is the status of the interface, and the driver is ready for the next
  command, with its boot status and its messages unchanged.
\<close>

theorem dce_boot_cmd_round_trip:
  assumes "firmware reply W" "boot_ready d"
  shows "\<exists>d'. send_boot W cmd d = Some (if acked reply cmd then 0 else - EBADE, d')
    \<and> dce_mailbox_get_interface_status 0 d' = reply (cmd OR DCE_BIT 31)
    \<and> boot_ready d' \<and> boot_status d' = boot_status d \<and> msgs d' = msgs d"
  using send_boot_ready [OF assms] sent_ready [OF assms(2)]
  by (simp add: sent_keeps dce_mailbox_get_interface_status_def)

theorem dce_boot_cmd_round_trip_witness:
  "\<exists>d'. send_boot (fw_world (\<lambda>_. 0x08800001)) 7 demo_dce = Some (- EBADE, d') \<and> boot_ready d'"
proof -
  have "firmware (\<lambda>_. 0x08800001) (fw_world (\<lambda>_. 0x08800001))"
    by (rule fw_world_firmware) (simp add: DCE_IRQ_GET_STATUS_TYPE_def drop_bit_eq_div)
  from dce_boot_cmd_round_trip [OF this demo_ready, of 7] show ?thesis
    by (auto simp: acked_def bit_numeral_rec)
qed

text \<open>
  C36. Against a firmware that answers, the bootstrap flow sends its fifteen commands in order, up to the first that the firmware
  rejects: exactly these arrive there. A lookup of the addresses of the region or of the channel that fails ends it after the second or
  the sixth command. It returns -EBADE after a rejection, else the error of the lookup, else 0; it marks the bootstrap as done when it
  returns 0 and as failed otherwise, and leaves the driver ready for the next command.
\<close>

theorem dce_bootstrap_flow_result:
  assumes "firmware reply W" "boot_ready d" "flow_plan W = (cs, err)"
  defines "ret \<equiv> (if list_all (acked reply) cs then err else - EBADE)"
  shows "\<exists>d'. dce_start_bootstrap_flow W d = Some (ret, d')
    \<and> fw_log d' = fw_log d @ map (\<lambda>c. c OR DCE_BIT 31) (takeWhile (acked reply) cs @ take 1 (dropWhile (acked reply) cs))
    \<and> length (boot_commands W) = 15
    \<and> boot_ready d' \<and> boot_status d' = boot_status d OR DCE_BIT DCE_FW_BOOTSTRAP_START OR
        DCE_BIT (if ret = 0 then DCE_FW_BOOTSTRAP_DONE else DCE_FW_BOOTSTRAP_FAILED)"
proof -
  have r: "boot_ready (set_status b e) = boot_ready e" "fw_log (set_status b e) = fw_log e" for b e
    by (simp_all add: boot_ready_def boot_iface_def set_status_def)
  have len: "length (boot_commands W) = 15"
    by (simp add: boot_commands_def Let_def split: prod.splits)
  obtain d' where d': "send_all W cs (set_status DCE_FW_BOOTSTRAP_START d) =
      Some (if list_all (acked reply) cs then 0 else - EBADE, d')"
    "boot_ready d'" "boot_status d' = boot_status (set_status DCE_FW_BOOTSTRAP_START d)"
    "fw_log d' = fw_log d @ map (\<lambda>c. c OR DCE_BIT 31) (sent_of reply cs)"
    using send_all_result [OF assms(1), of "set_status DCE_FW_BOOTSTRAP_START d" cs] assms(2) r by metis
  have "and_then (send_all W cs) (\<lambda>d. Some (err, d)) (set_status DCE_FW_BOOTSTRAP_START d) = Some (ret, d')"
    using d'(1) by (simp add: and_then_def ret_def)
  then show ?thesis using d'(2-4) len unfolding dce_start_bootstrap_flow_def flow_planned assms(3) sent_of_def
    by (simp add: r) (simp add: set_status_def or.assoc)
qed

text \<open>A firmware that rejects the command for the stream, the second one.\<close>

definition picky :: "u32 \<Rightarrow> u32" where
  "picky c = (if c = 0x88000008 then 0x08800000 else 0x08000000)"

theorem dce_bootstrap_flow_result_witness:
  "\<exists>d'. dce_start_bootstrap_flow (fw_world picky) demo_dce = Some (- EBADE, d')
     \<and> fw_log d' = [0x80000000, 0x88000008] \<and> bit (boot_status d') DCE_FW_BOOTSTRAP_FAILED"
proof -
  let ?W = "fw_world picky"
  have f: "firmware picky ?W"
    by (rule fw_world_firmware) (simp add: picky_def DCE_IRQ_GET_STATUS_TYPE_def drop_bit_eq_div)
  obtain cs err where p: "flow_plan ?W = (cs, err)" by fastforce
  have plan: "cs = boot_commands ?W"
    using p by (simp add: flow_plan_def fw_world_def demo_world_def)
  have two: "boot_commands ?W = 0 # 0x08000008 # drop 2 (boot_commands ?W)"
    by (simp add: boot_commands_def fw_world_def demo_world_def Let_def DCE_BOOT_CMD_SET_def DCE_BOOT_CMD_PARM_SET_def
        dce_insert_def dce_mask_def DCE_BIT_def)
  have ack: "acked picky 0" "\<not> acked picky 0x08000008"
    by (simp_all add: acked_def picky_def DCE_BIT_def bit_numeral_rec)
  have s: "takeWhile (acked picky) cs @ take 1 (dropWhile (acked picky) cs) = [0, 0x08000008]" "\<not> list_all (acked picky) cs"
    using ack unfolding plan by (subst two, simp)+
  from dce_bootstrap_flow_result [OF f demo_ready p] show ?thesis
    unfolding s(1) by (auto simp: s(2) demo_dce_def DCE_BIT_def bit_simps)
qed

text \<open>
  The two address commands carry the direction, the high part first, and together the low forty
  bits of the address of the queue.
\<close>

theorem dce_addr_cmds_carry_address:
  "\<exists>hi lo. dce_send_set_addr_write_cmd W a = and_then (send_boot W hi) (send_boot W lo)
     \<and> DCE_BOOT_CMD_GET hi = 3 \<and> DCE_BOOT_CMD_GET lo = 3
     \<and> DCE_BOOT_CMD_GET_HILO hi = 1 \<and> DCE_BOOT_CMD_GET_HILO lo = 0
     \<and> DCE_BOOT_CMD_GET_RDWR hi = 1 \<and> DCE_BOOT_CMD_GET_RDWR lo = 1
     \<and> push_bit 20 (ucast (DCE_BOOT_CMD_PARM_GET hi)) OR ucast (DCE_BOOT_CMD_PARM_GET lo) = take_bit 40 a"
proof (intro exI conjI)
  show "dce_send_set_addr_write_cmd W a = and_then
      (send_boot W (addr_cmd 1 1 (ucast (drop_bit 20 a)))) (send_boot W (addr_cmd 0 1 (ucast a)))"
    by (simp add: addr_cmd_def send_cmd_defs)
qed (simp_all add: addr_cmd_fields addr_parts)

text \<open>
  A boot command whose wait is interrupted before the firmware has answered returns -EBADE, as
  if the firmware had rejected it. The state machine is idle again with the request still recorded,
  and the next command returns -1 and leaves the interface locked.
\<close>

theorem dce_boot_cmd_interrupted:
  assumes "\<And>e. while_waiting W DCE_WAIT_BOOT_CMD e = e" "boot_ready d"
  shows "\<exists>d' d''. send_boot W cmd d = Some (- EBADE, d') \<and> c_state d' = STATE_DCE_FSM_IDLE
    \<and> bit (requested_ipcs d') DCE_WAIT_BOOT_CMD
    \<and> send_boot W cmd' d' = Some (- 1, d'') \<and> mb_locked (d_mb d'' 0)"
proof -
  let ?e = "d\<lparr>c_state := STATE_DCE_BOOTCMD_WFI, requested_ipcs := requested_ipcs d OR DCE_BIT 1,
     smb := (smb d)(6 := cmd OR DCE_BIT 31), d_mb := (d_mb d)(0 := (d_mb d 0)\<lparr>mb_valid := False\<rparr>)\<rparr>"
  let ?d = "?e\<lparr>c_state := STATE_DCE_FSM_IDLE\<rparr>"
  have "bit (0xffffffff :: u32) 23" by (simp add: bit_numeral_rec)
  then have w: "dce_mailbox_wait_boot_interface W ?e = (- EBADE, ?e)"
    using assms by (simp add: dce_mailbox_wait_boot_interface_def dce_wait_interruptible_def boot_ready_def
      dce_mailbox_get_interface_status_def)
  have one: "send_boot W cmd d = Some (- EBADE, ?d)"
    using assms(2) w
    by (simp add: boot_cmd_posted boot_ready_def mailbox_send_ready boot_iface_def list_all_iff)
  have "bit (smb ?d 6) 31" by (simp add: bit_or_iff DCE_BIT_def bit_simps)
  moreover have "initialized ?d" "c_state ?d = STATE_DCE_FSM_IDLE" "boot_iface ?d"
    using assms(2) by (simp_all add: boot_ready_def boot_iface_def list_all_iff)
  ultimately have "\<exists>d''. send_boot W cmd' ?d = Some (- 1, d'') \<and> mb_locked (d_mb d'' 0)"
    unfolding boot_iface_def
    by (simp add: boot_cmd_posted dce_handle_mailbox_send_cmd_sync_def mb_lock_def set_mb_def
      dce_mailbox_write_safe_def dce_smb_read_def hsp_guard_def)
  moreover have "bit (requested_ipcs ?d) 1" by (simp add: DCE_BIT_def bit_simps)
  ultimately show ?thesis using one by auto
qed

theorem dce_boot_cmd_interrupted_witness:
  "\<exists>d' d''. send_boot demo_world 5 demo_dce = Some (- EBADE, d')
     \<and> send_boot demo_world 6 d' = Some (- 1, d'') \<and> mb_locked (d_mb d'' 0)"
  using dce_boot_cmd_interrupted [OF _ demo_ready, of demo_world 5 6]
  by (auto simp: demo_world_def)

text \<open>
  When the functions of the channels return, so does the administration sequence, and whatever the firmware answers it has freed its
  message: the messages of the driver are those it had before. The status tells whether it succeeded.
\<close>

theorem dce_admin_seq_frees_message:
  assumes "ipc_keeps_msgs W" "msgs d (alloc_count d) = None"
  shows "\<exists>ret d'. dce_start_admin_seq W d = Some (ret, d') \<and> msgs d' = msgs d
    \<and> (if ret = 0 then bit (boot_status d') DCE_FW_ADMIN_SEQ_DONE
       else fst (dce_admin_allocate_message W d) = None \<or> bit (boot_status d') DCE_FW_ADMIN_SEQ_FAILED)"
proof (cases "fst (dce_admin_allocate_message W d)")
  case None
  then obtain d' where a: "dce_admin_allocate_message W d = (None, d')" by (metis prod.collapse)
  then have "msgs d' = msgs d" by (auto simp: dce_admin_allocate_message_def Let_def split: if_splits)
  with a show ?thesis by (simp add: dce_start_admin_seq_def)
next
  case (Some p)
  then obtain e where a: "dce_admin_allocate_message W d = (Some p, e)" by (metis prod.collapse)
  then obtain m where p: "p = alloc_count d" and e: "msgs e = (msgs d)(p \<mapsto> m)"
    by (auto simp: dce_admin_allocate_message_def Let_def split: if_splits)
  let ?e = "set_status DCE_FW_ADMIN_SEQ_START e"
  have m: "msgs ?e p = Some m" by (simp add: set_status_def e)
  have "own_msg p ?e (and_then (dce_admin_send_cmd_ver W p)
      (and_then (dce_admin_setup_clients_ipc W p) (dce_admin_send_rm_bootstrap W p)) ?e)"
    by (intro own_msg_and_then ver_own [OF assms(1) m] setup_own [OF assms(1)] rm_bootstrap_own [OF assms(1)])
       simp_all
  then obtain ret d' m' where r: "and_then (dce_admin_send_cmd_ver W p)
      (and_then (dce_admin_setup_clients_ipc W p) (dce_admin_send_rm_bootstrap W p)) ?e = Some (ret, d')"
    and d': "msgs d' = (msgs e)(p \<mapsto> m')" by (auto simp: own_msg_def set_status_def)
  have "(msgs d)(p := None) = msgs d" using assms(2) p by (simp add: fun_upd_idem)
  then show ?thesis using a r d' e
    by (simp add: dce_start_admin_seq_def set_status_def dce_admin_free_message_def DCE_BIT_def bit_simps)
qed

theorem dce_admin_seq_frees_message_witness:
  "\<exists>ret d'. dce_start_admin_seq demo_world demo_dce = Some (ret, d') \<and> msgs d' = (\<lambda>_. None)"
  using dce_admin_seq_frees_message [of demo_world demo_dce]
  by (auto simp: ipc_keeps_msgs_def demo_world_def demo_dce_def)

text \<open>
  When the firmware answers the creation of the first client channel with an error, the set-up
  stops there and still returns 0, so that the caller goes on as if all channels existed.
\<close>

theorem dce_setup_clients_hides_rejection:
  assumes "initialized d" "c_state d = STATE_DCE_FSM_IDLE" "dce_is_bootcmds_done d" "msgs d p = Some m"
    and "fst (ipc_channel_info W 1) = 0" "err \<noteq> 0"
    and "\<And>m e. ipc_send_sync W m e = Some (0, m\<lparr>rx_error := err\<rparr>, e\<lparr>c_state := STATE_DCE_FSM_IDLE\<rparr>)"
  shows "\<exists>d'. dce_admin_setup_clients_ipc W p d = Some (0, d') \<and> resp_error p d' = Some err"
proof -
  obtain q where q: "ipc_channel_info W 1 = (0, q)" using assms(5) by (metis prod.collapse)
  have send: "\<exists>d'. dce_admin_send_msg W p e = Some (0, d') \<and> resp_error p d' = Some err"
    if "initialized e" "c_state e = STATE_DCE_FSM_IDLE" "dce_is_bootcmds_done e" "msgs e p = Some m'" for e m'
  proof -
    have "dce_fsm_validate_event e EVENT_ID_DCE_ADMIN_IPC_MSG_REQUESTED = 0"
      using that by (simp add: dce_fsm_validate_event_def event_num_def)
    then show ?thesis using that assms(7) unfolding dce_admin_send_msg_def post_def
      by (subst post_accepted) (simp_all add: event_process_table_def dce_fsm_set_state_def numeral_eq_Suc
        dce_admin_handle_ipc_requested_event_def dce_is_bootcmds_done_def resp_error_def)
  qed
  let ?m = "m\<lparr>tx_cmd := DCE_ADMIN_CMD_IPC_CREATE, tx_create := \<lparr>ipc_type = ipc_get_type W 1,
     rd_iova = q_tx_iova q, wr_iova = q_rx_iova q, fsize = q_frame_sz q, n_frames = ucast (q_nframes q)\<rparr>\<rparr>"
  let ?e = "d\<lparr>msgs := (msgs d)(p \<mapsto> ?m)\<rparr>"
  obtain d' where "dce_admin_send_msg W p ?e = Some (0, d')" "resp_error p d' = Some err"
    using send [of ?e ?m] assms(1-3) by (auto simp: dce_is_bootcmds_done_def)
  moreover have "dce_admin_setup_clients_ipc W p d = do {
      (ret, d) \<leftarrow> dce_admin_send_msg W p ?e;
      if ret \<noteq> 0 then Some (ret, d)
      else do { err \<leftarrow> resp_error p d;
        if err \<noteq> 0 then Some (ret, d)
        else do { d \<leftarrow> ipc_channel_reset W (Suc 0) d; setup_clients_from W p (Suc (Suc 0)) (Suc (Suc 0)) d } } }"
    using q assms(4) by (simp add: dce_admin_setup_clients_ipc_def set_cmd_def numeral_eq_Suc)
  ultimately show ?thesis using assms(6) by simp
qed

definition rejecting_world :: dce_world where
  "rejecting_world = demo_world\<lparr>ipc_send_sync :=
     (\<lambda>m e. Some (0, m\<lparr>rx_error := 1\<rparr>, e\<lparr>c_state := STATE_DCE_FSM_IDLE\<rparr>))\<rparr>"

theorem dce_setup_clients_hides_rejection_witness:
  "\<exists>d'. dce_admin_setup_clients_ipc rejecting_world 0
     (snd (dce_admin_allocate_message demo_world (demo_dce\<lparr>boot_status := 0x800\<rparr>))) = Some (0, d')
     \<and> resp_error 0 d' = Some 1"
  by (rule dce_setup_clients_hides_rejection)
     (simp_all add: rejecting_world_def demo_world_def demo_dce_def dce_admin_allocate_message_def
       dce_is_bootcmds_done_def bit_numeral_rec)

text \<open>
  When no message can be allocated for the suspend request, the request reports success; the
  state machine waits for a reply that was never asked for, and refuses every further request.
\<close>

theorem dce_sc7_enter_without_memory:
  assumes "initialized d" "c_state d = STATE_DCE_FSM_IDLE" "\<not> kzalloc_ok W (alloc_count d)"
  shows "\<exists>d'. post W EVENT_ID_DCE_SC7_ENTER_REQUESTED params d = Some (0, d')
    \<and> c_state d' = STATE_DCE_SC7_ENTER_WFI
    \<and> post W EVENT_ID_DCE_BOOT_CMD_MSG_REQUESTED params d' = Some (- EINVAL, d')
    \<and> post W EVENT_ID_DCE_ADMIN_IPC_MSG_REQUESTED params d' = Some (- EINVAL, d')
    \<and> post W EVENT_ID_DCE_SC7_ENTER_REQUESTED params d' = Some (- EINVAL, d')
    \<and> post W EVENT_ID_DCE_SC7_EXIT_RECEIVED params d' = Some (- EINVAL, d')"
proof -
  have v: "dce_fsm_validate_event d EVENT_ID_DCE_SC7_ENTER_REQUESTED = 0"
    using assms by (simp add: dce_fsm_validate_event_def event_num_def)
  let ?d = "(dce_fsm_set_state EVENT_ID_DCE_SC7_ENTER_REQUESTED d)\<lparr>alloc_count := alloc_count d + 1\<rparr>"
  have "post W EVENT_ID_DCE_SC7_ENTER_REQUESTED params d = Some (0, ?d)"
    using v assms(3) unfolding post_def
    by (subst post_accepted) (simp_all add: event_process_table_def dce_fsm_set_state_def numeral_eq_Suc
      dce_pm_handle_sc7_enter_requested_event_def dce_admin_allocate_message_def dce_admin_free_message_def)
  moreover have "c_state ?d = STATE_DCE_SC7_ENTER_WFI" "initialized ?d"
    using assms(1) by (simp_all add: dce_fsm_set_state_def)
  moreover from this have "dce_fsm_validate_event ?d ev = - EINVAL"
    if "ev \<in> {EVENT_ID_DCE_BOOT_CMD_MSG_REQUESTED, EVENT_ID_DCE_ADMIN_IPC_MSG_REQUESTED,
       EVENT_ID_DCE_SC7_ENTER_REQUESTED, EVENT_ID_DCE_SC7_EXIT_RECEIVED}" for ev
    using that event_num_le [of ev] by (auto simp: dce_fsm_validate_event_def)
  then have "post W ev params ?d = Some (- EINVAL, ?d)"
    if "ev \<in> {EVENT_ID_DCE_BOOT_CMD_MSG_REQUESTED, EVENT_ID_DCE_ADMIN_IPC_MSG_REQUESTED,
       EVENT_ID_DCE_SC7_ENTER_REQUESTED, EVENT_ID_DCE_SC7_EXIT_RECEIVED}" for ev
    using that unfolding post_def by (subst post_refused) simp_all
  ultimately show ?thesis by blast
qed

theorem dce_sc7_enter_without_memory_witness:
  "\<exists>d'. post (demo_world\<lparr>kzalloc_ok := (\<lambda>_. False)\<rparr>) EVENT_ID_DCE_SC7_ENTER_REQUESTED No_params demo_dce
     = Some (0, d') \<and> c_state d' = STATE_DCE_SC7_ENTER_WFI"
  using dce_sc7_enter_without_memory [of demo_dce "demo_world\<lparr>kzalloc_ok := (\<lambda>_. False)\<rparr>" No_params]
  by (auto simp: demo_dce_def)

end
