(* ===== verification/Dce_Region.thy ===== *)
theory Dce_Region
  imports Prelude
begin

text \<open>
  The size of the memory region that the channels of the display controller engine share is rounded up
  by \<open>dce_get_nxt_pow_of_2\<close> (\<open>dce-util-common.c\<close>), which searches the set bits of a number with the kernel's
  \<open>find_next_bit\<close>.
\<close>

text \<open>The first set bit from \<open>k\<close> on and below \<open>nbits\<close>; without one the result is \<open>nbits\<close>.\<close>

definition find_next_bit :: "u64 \<Rightarrow> nat \<Rightarrow> nat \<Rightarrow> nat" where
  "find_next_bit v nbits k = hd (filter (bit v) [k..<nbits] @ [nbits])"

lemma find_next_bit_ge:
  assumes "k \<le> nbits"
  shows "k \<le> find_next_bit v nbits k"
proof (cases "filter (bit v) [k..<nbits]")
  case Nil
  then show ?thesis using assms by (simp add: find_next_bit_def)
next
  case (Cons a xs)
  have "\<forall>x \<in> set (filter (bit v) [k..<nbits]). k \<le> x" by simp
  then have "k \<le> a" unfolding Cons by simp
  then show ?thesis using Cons by (simp add: find_next_bit_def)
qed

text \<open>The loop over the set bits: it ends at a bit index of 0, or at the end.\<close>

function last_bit :: "u64 \<Rightarrow> nat \<Rightarrow> nat \<Rightarrow> nat \<Rightarrow> nat" where
  "last_bit v nbits bit_index l_bit =
     (if bit_index \<noteq> 0 \<and> bit_index < nbits
      then last_bit v nbits (find_next_bit v nbits (bit_index + 1)) bit_index else l_bit)"
  by pat_completeness auto

termination
proof (relation "measure (\<lambda>(v, n, b, l). n - b)")
  fix v :: u64 and nbits bit_index l_bit :: nat
  assume "bit_index \<noteq> 0 \<and> bit_index < nbits"
  with find_next_bit_ge [of "bit_index + 1" nbits v]
  show "((v, nbits, find_next_bit v nbits (bit_index + 1), bit_index), v, nbits, bit_index, l_bit)
      \<in> measure (\<lambda>(v, n, b, l). n - b)" by auto
qed simp

declare last_bit.simps [simp del]

definition dce_get_nxt_pow_of_2 :: "u64 \<Rightarrow> nat \<Rightarrow> u64" where
  "dce_get_nxt_pow_of_2 v nbits =
     (if v = 0 then 0
      else
        let l_bit = last_bit v nbits (find_next_bit v nbits 0) 0
        in if push_bit l_bit 1 < v then push_bit (l_bit + 1) 1 else v)"

subsection \<open>Lemmas\<close>

lemma find_next_bit_none: "\<forall>i. k \<le> i \<and> i < nbits \<longrightarrow> \<not> bit v i \<Longrightarrow> find_next_bit v nbits k = nbits"
  by (simp add: find_next_bit_def filter_empty_conv [THEN iffD2])

lemma find_next_bit_some:
  assumes "k \<le> i" "i < nbits" "bit v i"
  shows "k \<le> find_next_bit v nbits k" "find_next_bit v nbits k \<le> i" "bit v (find_next_bit v nbits k)"
proof -
  let ?xs = "filter (bit v) [k..<nbits]"
  have i: "i \<in> set ?xs" using assms by simp
  then obtain a ys where xs: "?xs = a # ys" by (cases ?xs) auto
  then have a: "find_next_bit v nbits k = a" by (simp add: find_next_bit_def)
  have "sorted ?xs" by (simp add: sorted_wrt_filter)
  then have "a \<le> i" using i xs by auto
  moreover have "a \<in> set ?xs" using xs by simp
  ultimately show "k \<le> find_next_bit v nbits k" "find_next_bit v nbits k \<le> i" "bit v (find_next_bit v nbits k)"
    using a by auto
qed

text \<open>From a bit above 0 the loop ends at the highest bit below \<open>nbits\<close>.\<close>

lemma last_bit_highest:
  assumes "bit v h" "h < nbits" "\<And>i. h < i \<Longrightarrow> i < nbits \<Longrightarrow> \<not> bit v i"
  shows "b \<noteq> 0 \<Longrightarrow> b \<le> h \<Longrightarrow> bit v b \<Longrightarrow> last_bit v nbits b l = h"
proof (induction "nbits - b" arbitrary: b l rule: less_induct)
  case less
  show ?case
  proof (cases "b = h")
    case True
    have "find_next_bit v nbits (h + 1) = nbits" using assms(3) by (intro find_next_bit_none) auto
    then show ?thesis using True less.prems assms(2) by (simp add: last_bit.simps)
  next
    case False
    then have "b + 1 \<le> h" using less.prems by simp
    note n = find_next_bit_some [OF this assms(2,1)]
    have "last_bit v nbits (find_next_bit v nbits (b + 1)) b = h"
      using n less.prems assms(2) by (intro less.hyps) auto
    then show ?thesis using less.prems assms(2) by (subst last_bit.simps) simp
  qed
qed

lemma bit_top_nat:
  assumes "n \<noteq> (0 :: nat)"
  obtains h where "bit n h" "\<And>i. h < i \<Longrightarrow> \<not> bit n i" "2 ^ h \<le> n" "n < 2 ^ Suc h"
proof -
  obtain h where h: "2 ^ h \<le> n" "n < 2 ^ Suc h"
    using ex_power_ivl1 [of 2 n] assms by auto
  have "n div 2 ^ h = 1" using h by (intro div_nat_eqI) auto
  then have "bit n h" by (simp add: bit_iff_odd)
  moreover have "\<not> bit n i" if "h < i" for i
  proof -
    have "2 ^ Suc h \<le> (2 :: nat) ^ i" using that by (intro power_increasing) auto
    then have "n div 2 ^ i = 0" using h(2) by simp
    then show ?thesis by (simp add: bit_iff_odd)
  qed
  ultimately show ?thesis using h that by blast
qed

lemma bit_unat_iff: "bit (v :: u64) i \<longleftrightarrow> bit (unat v) i"
  by (simp add: bit_unsigned_iff)

lemma unat_bit:
  assumes "i < 64"
  shows "unat (push_bit i 1 :: u64) = 2 ^ i"
proof -
  have "(2 :: nat) ^ i < 2 ^ 64" using assms by (intro power_strict_increasing) auto
  then have "take_bit 64 (2 ^ i) = (2 :: nat) ^ i" by (rule take_bit_nat_eq_self)
  then show ?thesis by (simp only: unsigned_push_bit_eq) (simp add: push_bit_eq_mult)
qed

text \<open>
  For an even number below \<open>2 ^ 31\<close> the result is the least power of two that is not below it. For an odd number above 1
  it is 2, because the loop takes the bit 0 for the end of the search.
\<close>

theorem dce_pow_of_2_least:
  assumes "v \<noteq> 0" "v < 2 ^ 31"
  shows "if bit v 0 \<and> v \<noteq> 1 then dce_get_nxt_pow_of_2 v 32 = 2
    else \<exists>k. unat (dce_get_nxt_pow_of_2 v 32) = 2 ^ k \<and> unat v \<le> 2 ^ k \<and> (\<forall>j < k. 2 ^ j < unat v)"
proof -
  have "unat v \<noteq> 0" using assms(1) by (simp add: unat_gt_0)
  then obtain h where h: "bit (unat v) h" "\<And>i. h < i \<Longrightarrow> \<not> bit (unat v) i" "2 ^ h \<le> unat v" "unat v < 2 ^ Suc h"
    using bit_top_nat [of "unat v"] by metis
  have lt: "unat v < 2 ^ 31" using assms(2) by (simp add: word_less_nat_alt)
  have "h < 31"
  proof (rule ccontr)
    assume "\<not> h < 31"
    then have "(2 :: nat) ^ 31 \<le> 2 ^ h" by (intro power_increasing) auto
    with h(3) lt show False by simp
  qed
  note b = h(1,2) [folded bit_unat_iff]
  let ?least = "\<lambda>k. unat (dce_get_nxt_pow_of_2 v 32) = 2 ^ k \<and> unat v \<le> 2 ^ k \<and> (\<forall>j < k. 2 ^ j < unat v)"
  show ?thesis
  proof (cases "bit v 0")
    case True
    then have "find_next_bit v 32 0 = 0" using find_next_bit_some [of 0 0 32 v] by simp
    then have l: "last_bit v 32 (find_next_bit v 32 0) 0 = 0" by (simp add: last_bit.simps)
    show ?thesis
    proof (cases "v = 1")
      case True
      then show ?thesis using l by (auto simp: dce_get_nxt_pow_of_2_def intro: exI [of _ 0])
    next
      case False
      have "unat v \<noteq> 1" using False by (metis unsigned_1 unsigned_word_eqI)
      then have "1 < v" using \<open>unat v \<noteq> 0\<close> by (simp add: word_less_nat_alt)
      then show ?thesis using True False l assms(1) by (simp add: dce_get_nxt_pow_of_2_def)
    qed
  next
    case False
    note n = find_next_bit_some [of 0 h 32 v, OF _ _ b(1)]
    have "find_next_bit v 32 0 \<noteq> 0" using n False \<open>h < 31\<close> by (intro notI) simp
    then have l: "last_bit v 32 (find_next_bit v 32 0) 0 = h"
      using n b \<open>h < 31\<close> by (intro last_bit_highest) auto
    have u: "unat (push_bit h 1 :: u64) = 2 ^ h" "unat (push_bit (h + 1) 1 :: u64) = 2 ^ Suc h"
      using \<open>h < 31\<close> unat_bit [of h] unat_bit [of "Suc h"] by (simp_all only: Suc_eq_plus1)
    have p: "push_bit h 1 < v \<longleftrightarrow> 2 ^ h < unat v" by (simp only: word_less_nat_alt u)
    show ?thesis
    proof (cases "2 ^ h < unat v")
      case True
      then have "unat (dce_get_nxt_pow_of_2 v 32) = 2 ^ Suc h"
        using assms(1) by (simp only: dce_get_nxt_pow_of_2_def Let_def l p u if_True if_False)
      moreover have "2 ^ j < unat v" if "j < Suc h" for j
        by (rule le_less_trans [OF _ True]) (use that in simp)
      ultimately have "?least (Suc h)" using h(4) by auto
      then show ?thesis using False by (subst if_not_P) blast+
    next
      case no: False
      then have v: "unat v = 2 ^ h" using h(3) by simp
      have "dce_get_nxt_pow_of_2 v 32 = v"
        using assms(1) by (simp only: dce_get_nxt_pow_of_2_def Let_def l p no if_True if_False simp_thms)
      then have "unat (dce_get_nxt_pow_of_2 v 32) = 2 ^ h" by (simp only: v)
      moreover have "(2 :: nat) ^ j < 2 ^ h" if "j < h" for j using that by simp
      ultimately have "?least h" using v by auto
      then show ?thesis using False by (subst if_not_P) blast+
    qed
  qed
qed

theorem dce_pow_of_2_least_witness:
  "\<exists>k. unat (dce_get_nxt_pow_of_2 6 32) = 2 ^ k \<and> 6 \<le> (2 :: nat) ^ k \<and> (\<forall>j < k. 2 ^ j < (6 :: nat))"
  using dce_pow_of_2_least [of 6] by simp

end
