(* ===== verification/Dce_Ipc.thy ===== *)
theory Dce_Ipc
  imports Dce_Boot Ivc_Setup Dce_Region
begin

text \<open>
  The channels between the CPU and the display controller engine: their memory region, set-up,
  signalling, messages and waits (\<open>dce-ipc.c\<close>, \<open>dce-ipc-signal.c\<close>, the parts of \<open>dce-admin.c\<close> and
  \<open>dce-client-ipc.c\<close> that they call).

  The queues themselves are the kernel's \<open>struct tegra_ivc\<close>, which is not part of the source: its
  operations are the record \<open>ivc_api\<close> over a state of any type \<open>'i\<close> and the shared memory. The sizes of the queues
  are computed by the functions of the same name of \<open>tegra-ivc.c\<close>. Offsets in the shared memory count
  from the base of the region. \<open>iosys\<close> tells whether the kernel accesses frames through \<open>struct iosys_map\<close>
  (the two branches of the conditional compilation). \<open>ipc_others\<close> is what other contexts and the firmware
  do while a thread waits or polls. \<open>None\<close> is undefined behaviour, a lock that is never released or a
  loop that does not end.
\<close>

subsection \<open>State\<close>

abbreviation (input) DCE_IPC_CHANNEL_VALID :: nat where "DCE_IPC_CHANNEL_VALID \<equiv> 0"
abbreviation (input) DCE_IPC_CHANNEL_INITIALIZED :: nat where "DCE_IPC_CHANNEL_INITIALIZED \<equiv> 1"
abbreviation (input) DCE_IPC_CHANNEL_SYNCED :: nat where "DCE_IPC_CHANNEL_SYNCED \<equiv> 2"
abbreviation (input) DCE_IPC_CHANNEL_MSG_HEADER :: nat where "DCE_IPC_CHANNEL_MSG_HEADER \<equiv> 15"
abbreviation (input) DCE_IPC_CH_KMD_TYPE_ADMIN :: nat where "DCE_IPC_CH_KMD_TYPE_ADMIN \<equiv> 0"
abbreviation (input) DCE_IPC_CH_KMD_TYPE_RM :: nat where "DCE_IPC_CH_KMD_TYPE_RM \<equiv> 1"
abbreviation (input) DCE_IPC_CH_KMD_TYPE_HDCP :: nat where "DCE_IPC_CH_KMD_TYPE_HDCP \<equiv> 2"
abbreviation (input) DCE_IPC_CH_KMD_TYPE_RM_NOTIFY :: nat where "DCE_IPC_CH_KMD_TYPE_RM_NOTIFY \<equiv> 3"
abbreviation (input) DCE_IPC_CH_KMD_TYPE_MAX :: nat where "DCE_IPC_CH_KMD_TYPE_MAX \<equiv> 4"
abbreviation (input) DCE_IPC_WAIT_TYPE_INVALID :: u32 where "DCE_IPC_WAIT_TYPE_INVALID \<equiv> 0"
abbreviation (input) DCE_IPC_WAIT_TYPE_RPC :: u32 where "DCE_IPC_WAIT_TYPE_RPC \<equiv> 1"
abbreviation (input) DCE_NUM_SEMA_REGS :: nat where "DCE_NUM_SEMA_REGS \<equiv> 4"
abbreviation (input) DCE_NUM_MBOX_REGS :: nat where "DCE_NUM_MBOX_REGS \<equiv> 8"
abbreviation (input) DCE_CLIENT_IPC_TYPE_RM_EVENT :: nat where "DCE_CLIENT_IPC_TYPE_RM_EVENT \<equiv> 2"
abbreviation (input) DCE_CLIENT_IPC_TYPE_MAX :: nat where "DCE_CLIENT_IPC_TYPE_MAX \<equiv> 3"
abbreviation (input) DCE_CLIENT_MAX_IPC_MSG_SIZE :: nat where "DCE_CLIENT_MAX_IPC_MSG_SIZE \<equiv> 4096"
abbreviation (input) DCE_MAX_ASYNC_WORK :: nat where "DCE_MAX_ASYNC_WORK \<equiv> 8"

text \<open>A mutex of static memory is not initialised at first.\<close>

datatype dce_mutex = Mutex_none | Mutex_free | Mutex_held

text \<open>A signal instance is part of a channel: a pointer to one is the channel and the direction.\<close>

datatype sig_id = To_d nat | From_d nat

record signal_instance =
  sig_type :: nat
  sema_num :: nat
  sema_bit :: nat
  mb_type :: nat
  mb_num :: nat
  sig_signal :: bool
  sig_next :: "sig_id option"

record 'i dce_ipc_channel =
  ch_flags :: u32
  w_type :: u32
  ch_type :: nat
  ch_ipc_type :: u32
  ibuff :: "nat option"
  obuff :: "nat option"
  d_ivc :: 'i
  ch_d :: bool
  ch_lock :: dce_mutex
  sig_ch :: bool
  sig_notify :: bool
  to_d :: signal_instance
  from_d :: signal_instance
  q_info :: queue_info

record tegra_dce_client_ipc =
  cl_valid :: bool
  cl_data :: nat
  cl_type :: nat
  cl_handle :: u32
  cl_int_type :: nat
  cl_d :: bool
  recv_wait :: bool
  cl_complete :: bool
  callback_fn :: "nat option"

text \<open>
  \<open>d_ch t\<close> tells whether \<open>d_ipc.ch[t]\<close> is set; it then points to \<open>ivc_channels[t]\<close>. \<open>region_live\<close> tells whether
  the memory of the region is allocated. \<open>d_clients\<close> holds indices of
  \<open>client_handles\<close>. \<open>delivered\<close> is the log of the client callbacks, newest first.
\<close>

record 'i dce_ipc =
  dce :: tegra_dce
  ivc_channels :: "nat \<Rightarrow> 'i dce_ipc_channel"
  d_ch :: "nat \<Rightarrow> bool"
  region_base :: bool
  region_iova :: u64
  region_size :: u64
  region_live :: bool
  s_offset :: u32
  shm :: mem
  mb_signals :: "nat \<Rightarrow> sig_id option"
  notify_data :: "nat \<Rightarrow> sig_id option"
  client_handles :: "nat \<Rightarrow> tegra_dce_client_ipc"
  d_clients :: "nat \<Rightarrow> nat option"
  work_in_use :: "nat \<Rightarrow> bool"
  work_queue :: "nat list"
  delivered :: "(nat \<times> u32 \<times> nat \<times> u32 \<times> u8 list \<times> nat) list"

text \<open>The operations of \<open>struct tegra_ivc\<close>; \<open>get_next\<close> returns the offset of the frame or an error.\<close>

record 'i ivc_api =
  ivc_init :: "nat \<Rightarrow> nat \<Rightarrow> u64 \<Rightarrow> u64 \<Rightarrow> u32 \<Rightarrow> u32 \<Rightarrow> 'i \<times> mem \<Rightarrow> int \<times> 'i \<times> mem"
  ivc_reset :: "'i \<times> mem \<Rightarrow> 'i \<times> mem"
  ivc_notified :: "'i \<times> mem \<Rightarrow> int \<times> 'i \<times> mem"
  write_get_next :: "'i \<times> mem \<Rightarrow> (int + nat) \<times> 'i \<times> mem"
  write_advance :: "'i \<times> mem \<Rightarrow> int \<times> 'i \<times> mem"
  read_get_next :: "'i \<times> mem \<Rightarrow> (int + nat) \<times> 'i \<times> mem"
  read_advance :: "'i \<times> mem \<Rightarrow> int \<times> 'i \<times> mem"

record 'i ipc_world =
  dce_w :: dce_world
  api :: "'i ivc_api"
  iosys :: bool
  ipc_others :: "'i dce_ipc \<Rightarrow> 'i dce_ipc"
  dma_alloc :: "u64 \<Rightarrow> u64 option"
  boot_wait :: "tegra_dce \<Rightarrow> int"
  msg_alloc :: bool

definition on_dce :: "(tegra_dce \<Rightarrow> tegra_dce option) \<Rightarrow> 'i dce_ipc \<Rightarrow> 'i dce_ipc option" where
  "on_dce f s = map_option (\<lambda>d. s\<lparr>dce := d\<rparr>) (f (dce s))"

definition upd_ch :: "nat \<Rightarrow> ('i dce_ipc_channel \<Rightarrow> 'i dce_ipc_channel) \<Rightarrow> 'i dce_ipc \<Rightarrow> 'i dce_ipc" where
  "upd_ch t f s = s\<lparr>ivc_channels := (ivc_channels s)(t := f (ivc_channels s t))\<rparr>"

text \<open>The channel behind \<open>d_ipc.ch[t]\<close>; using a null pointer or an index outside the array has no result.\<close>

definition the_ch :: "nat \<Rightarrow> 'i dce_ipc \<Rightarrow> 'i dce_ipc_channel option" where
  "the_ch t s = (if t < DCE_IPC_CH_KMD_TYPE_MAX \<and> d_ch s t then Some (ivc_channels s t) else None)"

definition ch_mutex_lock :: "nat \<Rightarrow> 'i dce_ipc \<Rightarrow> 'i dce_ipc option" where
  "ch_mutex_lock t s =
     (if ch_lock (ivc_channels s t) = Mutex_free then Some (upd_ch t (\<lambda>c. c\<lparr>ch_lock := Mutex_held\<rparr>) s) else None)"

definition ch_mutex_unlock :: "nat \<Rightarrow> 'i dce_ipc \<Rightarrow> 'i dce_ipc" where
  "ch_mutex_unlock t s = upd_ch t (\<lambda>c. c\<lparr>ch_lock := Mutex_free\<rparr>) s"

text \<open>Lock the channel behind \<open>d_ipc.ch[t]\<close>, as most operations begin.\<close>

definition enter_ch :: "nat \<Rightarrow> 'i dce_ipc \<Rightarrow> 'i dce_ipc option" where
  "enter_ch t s = do { _ \<leftarrow> the_ch t s; ch_mutex_lock t s }"

text \<open>A queue operation on the channel's \<open>d_ivc\<close>.\<close>

definition on_ivc :: "nat \<Rightarrow> ('i \<times> mem \<Rightarrow> 'r \<times> 'i \<times> mem) \<Rightarrow> 'i dce_ipc \<Rightarrow> 'r \<times> 'i dce_ipc" where
  "on_ivc t f s =
     (case f (d_ivc (ivc_channels s t), shm s) of (r, i, m) \<Rightarrow> (r, upd_ch t (\<lambda>c. c\<lparr>d_ivc := i\<rparr>) s\<lparr>shm := m\<rparr>))"

subsection \<open>Signalling\<close>

definition sig_of :: "sig_id \<Rightarrow> 'i dce_ipc \<Rightarrow> signal_instance" where
  "sig_of x s = (case x of To_d t \<Rightarrow> to_d (ivc_channels s t) | From_d t \<Rightarrow> from_d (ivc_channels s t))"

definition sig_chan :: "sig_id \<Rightarrow> nat" where
  "sig_chan x = (case x of To_d t \<Rightarrow> t | From_d t \<Rightarrow> t)"

definition dce_ipc_mbox_notify :: "'i ipc_world \<Rightarrow> sig_id \<Rightarrow> 'i dce_ipc \<Rightarrow> 'i dce_ipc option" where
  "dce_ipc_mbox_notify W x s = do {
     s \<leftarrow> (if sema_num (sig_of x s) < DCE_NUM_SEMA_REGS
           then on_dce (dce_ss_set (dce_w W) (sema_bit (sig_of x s)) (sema_num (sig_of x s))) s else Some s);
     on_dce (dce_mailbox_set_full_interrupt (mb_type (sig_of x s))) s
   }"

text \<open>\<open>ch->signal.notify(d, &ch->signal.to_d)\<close>.\<close>

definition signal_notify :: "'i ipc_world \<Rightarrow> nat \<Rightarrow> 'i dce_ipc \<Rightarrow> 'i dce_ipc option" where
  "signal_notify W t s =
     (if sig_notify (ivc_channels s t) then dce_ipc_mbox_notify W (To_d t) s else None)"

definition dce_ipc_init_signaling :: "'i ipc_world \<Rightarrow> nat \<Rightarrow> 'i dce_ipc \<Rightarrow> (int \<times> 'i dce_ipc) option" where
  "dce_ipc_init_signaling W t s =
     (let s = upd_ch t (\<lambda>c. c\<lparr>sig_ch := True\<rparr>) s;
          mb = mb_type (to_d (ivc_channels s t));
          to_mbox = mb_num (to_d (ivc_channels s t));
          from_mbox = mb_num (from_d (ivc_channels s t))
      in if mb \<noteq> mb_type (from_d (ivc_channels s t)) then Some (- 1, s)
         else
           let s = upd_ch t (\<lambda>c. c\<lparr>to_d := (to_d c)\<lparr>sig_signal := True\<rparr>\<rparr>) s
           in if sig_type (to_d (ivc_channels s t)) = 0 \<and> to_mbox \<ge> DCE_NUM_MBOX_REGS then None
              else
                let s = (if sig_type (to_d (ivc_channels s t)) = 0
                         then (upd_ch t (\<lambda>c. c\<lparr>sig_notify := True\<rparr>) s)\<lparr>mb_signals := (mb_signals s)(to_mbox := Some (To_d t))\<rparr>
                         else s);
                    s = upd_ch t (\<lambda>c. c\<lparr>from_d := (from_d c)\<lparr>sig_signal := True\<rparr>\<rparr>) s
                in if sig_type (from_d (ivc_channels s t)) = 0
                      \<and> (sig_next (from_d (ivc_channels s t)) \<noteq> None \<or> from_mbox \<ge> DCE_NUM_MBOX_REGS)
                   then Some (- 1, s)
                   else do {
                     let s = (if sig_type (from_d (ivc_channels s t)) = 0
                       then (if mb_signals s from_mbox \<noteq> None
                             then upd_ch t (\<lambda>c. c\<lparr>from_d := (from_d c)\<lparr>sig_next := mb_signals s from_mbox\<rparr>\<rparr>) s
                             else s)\<lparr>mb_signals := (mb_signals s)(from_mbox := Some (From_d t))\<rparr>
                       else s);
                     (ret, d) \<leftarrow> dce_mailbox_init_interface 0 mb to_mbox from_mbox No_wait Notify_ipc (dce s);
                     Some (ret, s\<lparr>dce := d, notify_data := (notify_data s)(mb := Some (From_d t))\<rparr>)
                   })"

definition dce_ipc_deinit_signaling :: "nat \<Rightarrow> 'i dce_ipc \<Rightarrow> 'i dce_ipc option" where
  "dce_ipc_deinit_signaling t s =
     (if mb_type (to_d (ivc_channels s t)) \<noteq> mb_type (from_d (ivc_channels s t)) then Some s
      else do {
        s \<leftarrow> on_dce (dce_mailbox_deinit_interface (mb_type (to_d (ivc_channels s t)))) s;
        Some (upd_ch t (\<lambda>c. c\<lparr>sig_ch := False\<rparr>) s)
      })"

subsection \<open>Regions\<close>

abbreviation (input) DCE_ADMIN_CMD_MAX_NFRAMES :: nat where "DCE_ADMIN_CMD_MAX_NFRAMES \<equiv> 4"
abbreviation (input) DCE_ADMIN_CMD_MAX_FSIZE :: u64 where "DCE_ADMIN_CMD_MAX_FSIZE \<equiv> 2048"
abbreviation (input) DCE_ADMIN_CMD_CHAN_FSIZE :: u64 where "DCE_ADMIN_CMD_CHAN_FSIZE \<equiv> 1728"
abbreviation (input) DCE_DISPRM_CMD_MAX_NFRAMES :: nat where "DCE_DISPRM_CMD_MAX_NFRAMES \<equiv> 1"
abbreviation (input) DCE_DISPRM_CMD_MAX_FSIZE :: u64 where "DCE_DISPRM_CMD_MAX_FSIZE \<equiv> 4096"
abbreviation (input) DCE_DISPRM_EVENT_NOTIFY_CMD_MAX_NFRAMES :: nat where "DCE_DISPRM_EVENT_NOTIFY_CMD_MAX_NFRAMES \<equiv> 4"
abbreviation (input) DCE_DISPRM_EVENT_NOTIFY_CMD_MAX_FSIZE :: u64 where "DCE_DISPRM_EVENT_NOTIFY_CMD_MAX_FSIZE \<equiv> 4096"

definition queue_bytes :: "nat \<Rightarrow> u64 \<Rightarrow> u64 option" where
  "queue_bytes n fsz = do { a \<leftarrow> tegra_ivc_align fsz; Some (of_nat n * a * 2) }"

definition dce_ipc_allocate_region :: "'i ipc_world \<Rightarrow> 'i dce_ipc \<Rightarrow> (int \<times> 'i dce_ipc) option" where
  "dce_ipc_allocate_region W s = do {
     q1 \<leftarrow> queue_bytes DCE_ADMIN_CMD_MAX_NFRAMES DCE_ADMIN_CMD_MAX_FSIZE;
     q2 \<leftarrow> queue_bytes DCE_DISPRM_CMD_MAX_NFRAMES DCE_DISPRM_CMD_MAX_FSIZE;
     q3 \<leftarrow> queue_bytes DCE_ADMIN_CMD_MAX_NFRAMES DCE_ADMIN_CMD_CHAN_FSIZE;
     q4 \<leftarrow> queue_bytes DCE_DISPRM_EVENT_NOTIFY_CMD_MAX_NFRAMES DCE_DISPRM_EVENT_NOTIFY_CMD_MAX_FSIZE;
     tot_ivc_q_sz \<leftarrow> tegra_ivc_total_queue_size (ucast (q1 + q2 + q3 + q4));
     let sz = dce_get_nxt_pow_of_2 (ucast tot_ivc_q_sz) 32;
     let s = s\<lparr>region_size := sz\<rparr>;
     case dma_alloc W sz of
       None \<Rightarrow> Some (- ENOMEM, s\<lparr>region_base := False\<rparr>)
     | Some iova \<Rightarrow> Some (0, s\<lparr>region_base := True, region_live := True, region_iova := iova, s_offset := 0,
         shm := (\<lambda>_. 0)\<rparr>)
   }"

text \<open>The base pointer is kept after the memory is given back.\<close>

definition dce_ipc_free_region :: "'i dce_ipc \<Rightarrow> 'i dce_ipc" where
  "dce_ipc_free_region s = s\<lparr>region_live := False, s_offset := 0\<rparr>"

definition dce_ipc_get_region_iova_info :: "'i dce_ipc \<Rightarrow> int \<times> u64 \<times> u32" where
  "dce_ipc_get_region_iova_info s =
     (if \<not> region_base s then (- ENOMEM, 0, 0) else (0, region_iova s, ucast (region_size s)))"

subsection \<open>Channels\<close>

text \<open>Leave \<open>dce_ipc_channel_init\<close>: unlock, and destroy the mutex after an error.\<close>

definition init_out :: "nat \<Rightarrow> int \<Rightarrow> 'i dce_ipc \<Rightarrow> int \<times> 'i dce_ipc" where
  "init_out t ret s =
     (ret, upd_ch t (\<lambda>c. c\<lparr>ch_lock := (if ret \<noteq> 0 then Mutex_none else Mutex_free)\<rparr>) s)"

definition dce_ipc_channel_init :: "'i ipc_world \<Rightarrow> nat \<Rightarrow> 'i dce_ipc \<Rightarrow> (int \<times> 'i dce_ipc) option" where
  "dce_ipc_channel_init W t s =
     (if t \<ge> DCE_IPC_CH_KMD_TYPE_MAX then Some (- EINVAL, s)
      else
        let s = upd_ch t (\<lambda>c. c\<lparr>ch_lock := Mutex_held\<rparr>) s
        in if \<not> bit (ch_flags (ivc_channels s t)) DCE_IPC_CHANNEL_VALID then Some (init_out t 0 s)
           else do {
             (ret, s) \<leftarrow> dce_ipc_init_signaling W t (upd_ch t (\<lambda>c. c\<lparr>ch_d := True\<rparr>) s);
             if ret \<noteq> 0 then Some (init_out t ret s)
             else do {
               let q = q_info (ivc_channels s t);
               a \<leftarrow> tegra_ivc_align (ucast (q_frame_sz q));
               q_sz \<leftarrow> tegra_ivc_total_queue_size (ucast a * ucast (q_nframes q));
               if \<not> region_base s then Some (init_out t (- ENOMEM) s)
               else
                 let rx = unat (s_offset s); tx = unat (s_offset s) + unat q_sz;
                     rx_h = region_iova s + ucast (s_offset s); tx_h = rx_h + ucast q_sz
                 in case on_ivc t (ivc_init (api W) rx tx rx_h tx_h (ucast (q_nframes q)) (ucast a)) s of (ret, s) \<Rightarrow>
                    if ret \<noteq> 0 then Some (init_out t ret s)
                    else Some (init_out t 0 ((upd_ch t (\<lambda>c. c\<lparr>
                        ch_flags := ch_flags c OR DCE_BIT DCE_IPC_CHANNEL_INITIALIZED,
                        q_info := (q_info c)\<lparr>q_rx_iova := rx_h, q_tx_iova := tx_h\<rparr>\<rparr>) s)
                      \<lparr>d_ch := (d_ch s)(t := True), s_offset := s_offset s + 2 * q_sz\<rparr>))
             }
           })"

definition dce_ipc_channel_deinit :: "nat \<Rightarrow> 'i dce_ipc \<Rightarrow> 'i dce_ipc option" where
  "dce_ipc_channel_deinit t s =
     (if t \<ge> DCE_IPC_CH_KMD_TYPE_MAX then None
      else if \<not> d_ch s t \<or> \<not> bit (ch_flags (ivc_channels s t)) DCE_IPC_CHANNEL_INITIALIZED then Some s
      else do {
        s \<leftarrow> ch_mutex_lock t s;
        s \<leftarrow> dce_ipc_deinit_signaling t s;
        let s = upd_ch t (\<lambda>c. c\<lparr>ch_flags := ch_flags c AND NOT (DCE_BIT DCE_IPC_CHANNEL_INITIALIZED)
                                  AND NOT (DCE_BIT DCE_IPC_CHANNEL_SYNCED)\<rparr>) s;
        Some ((upd_ch t (\<lambda>c. c\<lparr>ch_lock := Mutex_none\<rparr>) s)\<lparr>d_ch := (d_ch s)(t := False)\<rparr>)
      })"

text \<open>Whether the device of a channel is known; the lock is taken without a look at \<open>d_ipc.ch\<close>.\<close>

definition dce_ipc_get_dce_from_ch :: "nat \<Rightarrow> 'i dce_ipc \<Rightarrow> (bool \<times> 'i dce_ipc) option" where
  "dce_ipc_get_dce_from_ch t s =
     (if t \<ge> DCE_IPC_CH_KMD_TYPE_MAX then Some (False, s)
      else do { s \<leftarrow> ch_mutex_lock t s; Some (ch_d (ivc_channels s t), ch_mutex_unlock t s) })"

definition dce_ipc_channel_is_ready :: "'i ipc_world \<Rightarrow> nat \<Rightarrow> 'i dce_ipc \<Rightarrow> (bool \<times> 'i dce_ipc) option" where
  "dce_ipc_channel_is_ready W t s = do {
     s \<leftarrow> enter_ch t s;
     let (r, s) = on_ivc t (ivc_notified (api W)) s;
     s \<leftarrow> signal_notify W t s;
     Some (r = 0, ch_mutex_unlock t s)
   }"

definition dce_ipc_channel_is_synced :: "nat \<Rightarrow> 'i dce_ipc \<Rightarrow> (bool \<times> 'i dce_ipc) option" where
  "dce_ipc_channel_is_synced t s = do {
     s \<leftarrow> enter_ch t s;
     Some (bit (ch_flags (ivc_channels s t)) DCE_IPC_CHANNEL_SYNCED, ch_mutex_unlock t s)
   }"

text \<open>The loop that waits for the remote end; other contexts run before each turn.\<close>

partial_function (option) ready_loop :: "'i ipc_world \<Rightarrow> nat \<Rightarrow> 'i dce_ipc \<Rightarrow> 'i dce_ipc option" where
  "ready_loop W t s =
     Option.bind (dce_ipc_channel_is_ready W t (ipc_others W s))
       (\<lambda>(ready, s). if ready then Some s else ready_loop W t s)"

definition dce_ipc_channel_reset :: "'i ipc_world \<Rightarrow> nat \<Rightarrow> 'i dce_ipc \<Rightarrow> 'i dce_ipc option" where
  "dce_ipc_channel_reset W t s = do {
     s \<leftarrow> enter_ch t s;
     let (_, s) = on_ivc t (\<lambda>im. ((), ivc_reset (api W) im)) s;
     let s = upd_ch t (\<lambda>c. c\<lparr>ch_flags := ch_flags c AND NOT (DCE_BIT DCE_IPC_CHANNEL_SYNCED)\<rparr>) s;
     s \<leftarrow> signal_notify W t s;
     s \<leftarrow> ready_loop W t (ch_mutex_unlock t s);
     s \<leftarrow> ch_mutex_lock t s;
     Some (ch_mutex_unlock t (upd_ch t (\<lambda>c. c\<lparr>ch_flags := ch_flags c OR DCE_BIT DCE_IPC_CHANNEL_SYNCED\<rparr>) s))
   }"

definition dce_ipc_get_channel_info :: "nat \<Rightarrow> 'i dce_ipc \<Rightarrow> (int \<times> queue_info option \<times> 'i dce_ipc) option" where
  "dce_ipc_get_channel_info t s =
     (if t \<ge> DCE_IPC_CH_KMD_TYPE_MAX then None
      else if \<not> d_ch s t then Some (- ENOMEM, None, s)
      else do { s \<leftarrow> ch_mutex_lock t s; Some (0, Some (q_info (ivc_channels s t)), ch_mutex_unlock t s) })"

definition dce_ipc_get_ipc_type :: "nat \<Rightarrow> 'i dce_ipc \<Rightarrow> (u32 \<times> 'i dce_ipc) option" where
  "dce_ipc_get_ipc_type t s = do { s \<leftarrow> enter_ch t s; Some (ch_ipc_type (ivc_channels s t), ch_mutex_unlock t s) }"

definition dce_ipc_is_data_available :: "'i ipc_world \<Rightarrow> nat \<Rightarrow> 'i dce_ipc \<Rightarrow> (bool \<times> 'i dce_ipc) option" where
  "dce_ipc_is_data_available W t s = do {
     s \<leftarrow> enter_ch t s;
     let (r, s) = on_ivc t (read_get_next (api W)) s;
     Some (case r of Inl _ \<Rightarrow> False | Inr _ \<Rightarrow> True, ch_mutex_unlock t s)
   }"

subsection \<open>Messages\<close>

text \<open>
  A buffer passed by pointer is \<open>None\<close> for a null pointer, or the bytes it has room for. Copying more than that has
  no result.
\<close>

definition copied_out :: "u8 list option \<Rightarrow> nat \<Rightarrow> u8 list option" where
  "copied_out data n =
     (case data of None \<Rightarrow> Some [] | Some bs \<Rightarrow> if n \<le> length bs then Some (take n bs) else None)"

definition copied_in :: "u8 list option \<Rightarrow> u8 list \<Rightarrow> u8 list option option" where
  "copied_in data bs =
     (case data of None \<Rightarrow> Some None
      | Some buf \<Rightarrow> if length bs \<le> length buf then Some (Some (bs @ drop (length bs) buf)) else None)"

definition dce_ipc_get_next_write_buff :: "'i ipc_world \<Rightarrow> nat \<Rightarrow> 'i dce_ipc \<Rightarrow> int \<times> 'i dce_ipc" where
  "dce_ipc_get_next_write_buff W t s =
     (case on_ivc t (write_get_next (api W)) s of
        (Inl err, s) \<Rightarrow> (if iosys W then err else - ENOMEM, upd_ch t (\<lambda>c. c\<lparr>obuff := None\<rparr>) s)
      | (Inr frame, s) \<Rightarrow> (0, upd_ch t (\<lambda>c. c\<lparr>obuff := Some frame\<rparr>) s))"

definition dce_ipc_write_channel ::
  "'i ipc_world \<Rightarrow> nat \<Rightarrow> u8 list option \<Rightarrow> u64 \<Rightarrow> 'i dce_ipc \<Rightarrow> (int \<times> 'i dce_ipc) option" where
  "dce_ipc_write_channel W t data sz s = do {
     frame \<leftarrow> obuff (ivc_channels s t);
     let s = (if bit (ch_flags (ivc_channels s t)) DCE_IPC_CHANNEL_MSG_HEADER
              then (upd_ch t (\<lambda>c. c\<lparr>obuff := Some (frame + 4)\<rparr>) s)\<lparr>shm := writel (ucast sz) frame (shm s)\<rparr> else s);
     frame \<leftarrow> obuff (ivc_channels s t);
     bs \<leftarrow> copied_out data (unat sz);
     Some (on_ivc t (write_advance (api W)) (s\<lparr>shm := store frame bs (shm s)\<rparr>))
   }"

definition dce_ipc_send_message ::
  "'i ipc_world \<Rightarrow> nat \<Rightarrow> u8 list option \<Rightarrow> u64 \<Rightarrow> 'i dce_ipc \<Rightarrow> (int \<times> 'i dce_ipc) option" where
  "dce_ipc_send_message W t data sz s = do {
     s \<leftarrow> enter_ch t s;
     let (ret, s) = dce_ipc_get_next_write_buff W t s;
     if ret \<noteq> 0 then Some (ret, ch_mutex_unlock t s)
     else do {
       (ret, s) \<leftarrow> dce_ipc_write_channel W t data sz s;
       if ret \<noteq> 0 then Some (ret, ch_mutex_unlock t s)
       else do { s \<leftarrow> signal_notify W t s; Some (0, ch_mutex_unlock t s) }
     }
   }"

definition dce_ipc_get_next_read_buff :: "'i ipc_world \<Rightarrow> nat \<Rightarrow> 'i dce_ipc \<Rightarrow> int \<times> 'i dce_ipc" where
  "dce_ipc_get_next_read_buff W t s =
     (case on_ivc t (read_get_next (api W)) s of
        (Inl err, s) \<Rightarrow> (if iosys W then err else - ENOMEM, upd_ch t (\<lambda>c. c\<lparr>ibuff := None\<rparr>) s)
      | (Inr frame, s) \<Rightarrow> (0, upd_ch t (\<lambda>c. c\<lparr>ibuff := Some frame\<rparr>) s))"

text \<open>
  With \<open>struct iosys_map\<close> the length of the message is written into the header of the frame that was received, not read from it.
\<close>

definition dce_ipc_read_channel ::
  "'i ipc_world \<Rightarrow> nat \<Rightarrow> u8 list option \<Rightarrow> u64 \<Rightarrow> 'i dce_ipc \<Rightarrow> (int \<times> u8 list option \<times> 'i dce_ipc) option" where
  "dce_ipc_read_channel W t data sz s = do {
     frame \<leftarrow> ibuff (ivc_channels s t);
     let header = bit (ch_flags (ivc_channels s t)) DCE_IPC_CHANNEL_MSG_HEADER;
     let s = (if header then upd_ch t (\<lambda>c. c\<lparr>ibuff := Some (frame + 4)\<rparr>) s else s);
     let s = (if header \<and> iosys W then s\<lparr>shm := writel (ucast sz) frame (shm s)\<rparr> else s);
     let n = (if header \<and> \<not> iosys W then unat (readl (shm s) frame) else unat sz);
     frame \<leftarrow> ibuff (ivc_channels s t);
     data \<leftarrow> copied_in data (load frame n (shm s));
     let (ret, s) = on_ivc t (read_advance (api W)) s;
     Some (ret, data, s)
   }"

definition dce_ipc_read_message ::
  "'i ipc_world \<Rightarrow> nat \<Rightarrow> u8 list option \<Rightarrow> u64 \<Rightarrow> 'i dce_ipc \<Rightarrow> (int \<times> u8 list option \<times> 'i dce_ipc) option" where
  "dce_ipc_read_message W t data sz s = do {
     s \<leftarrow> enter_ch t s;
     let (ret, s) = dce_ipc_get_next_read_buff W t s;
     if ret \<noteq> 0 then Some (ret, data, ch_mutex_unlock t s)
     else do {
       (ret, data, s) \<leftarrow> dce_ipc_read_channel W t data sz s;
       Some (ret, data, ch_mutex_unlock t s)
     }
   }"

subsection \<open>Waits and wake-ups\<close>

text \<open>\<open>dce_interface_type_map\<close>, and the search in it.\<close>

definition dce_interface_type_map :: "nat list" where
  "dce_interface_type_map = [1, 2, 3]"

definition dce_client_get_type :: "nat \<Rightarrow> nat" where
  "dce_client_get_type int_type = length (takeWhile (\<lambda>x. x \<noteq> int_type) dce_interface_type_map)"

definition upd_client :: "nat \<Rightarrow> (tegra_dce_client_ipc \<Rightarrow> tegra_dce_client_ipc) \<Rightarrow> 'i dce_ipc \<Rightarrow> 'i dce_ipc" where
  "upd_client c f s = s\<lparr>client_handles := (client_handles s)(c := f (client_handles s c))\<rparr>"

text \<open>The retry loop: an interrupted wait starts again.\<close>

partial_function (option) client_wait_loop :: "'i ipc_world \<Rightarrow> nat \<Rightarrow> 'i dce_ipc \<Rightarrow> 'i dce_ipc option" where
  "client_wait_loop W c s =
     (if cl_complete (client_handles s c) then Some s else client_wait_loop W c (ipc_others W s))"

definition dce_client_ipc_wait :: "'i ipc_world \<Rightarrow> nat \<Rightarrow> 'i dce_ipc \<Rightarrow> (int \<times> 'i dce_ipc) option" where
  "dce_client_ipc_wait W int_type s =
     (let type = dce_client_get_type int_type
      in if type \<ge> DCE_CLIENT_IPC_TYPE_MAX then Some (- EINVAL, s)
         else case d_clients s type of
           None \<Rightarrow> Some (- EINVAL, s)
         | Some c \<Rightarrow>
             if cl_int_type (client_handles s c) \<noteq> int_type then Some (- EINVAL, s)
             else do {
               s \<leftarrow> client_wait_loop W c s;
               Some (0, upd_client c (\<lambda>cl. cl\<lparr>cl_complete := False\<rparr>) s)
             })"

text \<open>Other contexts run during the sleep only; \<open>dce_wait_interruptible\<close> then looks at the condition.\<close>

definition dce_admin_ipc_wait :: "'i ipc_world \<Rightarrow> 'i dce_ipc \<Rightarrow> int \<times> 'i dce_ipc" where
  "dce_admin_ipc_wait W s =
     (let s = (if wait_complete (dce s) DCE_WAIT_ADMIN_IPC then s else ipc_others W s);
          (ret, d) = dce_wait_interruptible ((dce_w W)\<lparr>while_waiting := (\<lambda>_ d. d)\<rparr>) DCE_WAIT_ADMIN_IPC (dce s)
      in (ret, s\<lparr>dce := d\<rparr>))"

text \<open>The channel is locked at the call and at the return.\<close>

definition dce_ipc_wait :: "'i ipc_world \<Rightarrow> u32 \<Rightarrow> nat \<Rightarrow> 'i dce_ipc \<Rightarrow> (int \<times> 'i dce_ipc) option" where
  "dce_ipc_wait W wt t s =
     (if t \<ge> DCE_IPC_CH_KMD_TYPE_MAX then Some (- EINVAL, s)
      else if \<not> d_ch s t then Some (- EINVAL, s)
      else do {
        let s = ch_mutex_unlock t (upd_ch t (\<lambda>c. c\<lparr>w_type := wt\<rparr>) s);
        (ret, s) \<leftarrow> (if t = 0 then Some (dce_admin_ipc_wait W s) else dce_client_ipc_wait W t s);
        s \<leftarrow> ch_mutex_lock t s;
        Some (ret, upd_ch t (\<lambda>c. c\<lparr>w_type := DCE_IPC_WAIT_TYPE_INVALID\<rparr>) s)
      })"

definition dce_ipc_get_cur_wait_type :: "nat \<Rightarrow> 'i dce_ipc \<Rightarrow> (u32 \<times> 'i dce_ipc) option" where
  "dce_ipc_get_cur_wait_type t s =
     (if t \<ge> DCE_IPC_CH_KMD_TYPE_MAX \<or> \<not> d_ch s t then Some (word_of_int (- EINVAL), s)
      else do { s \<leftarrow> ch_mutex_lock t s; Some (w_type (ivc_channels s t), ch_mutex_unlock t s) })"

record dce_ipc_message =
  tx_data :: "u8 list option"
  tx_size :: u64
  rx_data :: "u8 list option"
  rx_size :: u64

definition dce_ipc_send_message_sync ::
  "'i ipc_world \<Rightarrow> nat \<Rightarrow> dce_ipc_message \<Rightarrow> 'i dce_ipc \<Rightarrow> (int \<times> dce_ipc_message \<times> 'i dce_ipc) option" where
  "dce_ipc_send_message_sync W t msg s = do {
     (ret, s) \<leftarrow> dce_ipc_send_message W t (tx_data msg) (tx_size msg) s;
     if ret \<noteq> 0 then Some (ret, msg, s)
     else do {
       s \<leftarrow> enter_ch t s;
       (ret, s) \<leftarrow> dce_ipc_wait W DCE_IPC_WAIT_TYPE_RPC t s;
       let s = ch_mutex_unlock t s;
       if ret \<noteq> 0 then Some (ret, msg, s)
       else do {
         (ret, data, s) \<leftarrow> dce_ipc_read_message W t (rx_data msg) (rx_size msg) s;
         Some (ret, msg\<lparr>rx_data := data\<rparr>, s)
       }
     }
   }"

text \<open>The first free work item is queued.\<close>

definition dce_client_schedule_event_work :: "'i dce_ipc \<Rightarrow> 'i dce_ipc" where
  "dce_client_schedule_event_work s =
     (case find (\<lambda>i. \<not> work_in_use s i) [0..<DCE_MAX_ASYNC_WORK] of
        None \<Rightarrow> s
      | Some i \<Rightarrow> s\<lparr>work_in_use := (work_in_use s)(i := True), work_queue := work_queue s @ [i]\<rparr>)"

definition dce_client_ipc_wakeup :: "nat \<Rightarrow> 'i dce_ipc \<Rightarrow> 'i dce_ipc" where
  "dce_client_ipc_wakeup t s =
     (let type = dce_client_get_type t
      in if type = DCE_CLIENT_IPC_TYPE_MAX then s
         else case d_clients s type of
           None \<Rightarrow> s
         | Some c \<Rightarrow>
             if cl_int_type (client_handles s c) \<noteq> t then s
             else if type = DCE_CLIENT_IPC_TYPE_RM_EVENT then dce_client_schedule_event_work s
             else upd_client c (\<lambda>cl. cl\<lparr>cl_complete := True\<rparr>) s)"

definition dce_admin_ipc_handle_signal :: "'i ipc_world \<Rightarrow> nat \<Rightarrow> 'i dce_ipc \<Rightarrow> 'i dce_ipc option" where
  "dce_admin_ipc_handle_signal W t s = do {
     (synced, s) \<leftarrow> dce_ipc_channel_is_synced t s;
     if \<not> synced then Some s
     else do {
       (wakeup_needed, s) \<leftarrow> dce_ipc_is_data_available W t s;
       if \<not> wakeup_needed then Some s
       else if t = DCE_IPC_CH_KMD_TYPE_ADMIN then on_dce dce_admin_wakeup_ipc s
       else Some (dce_client_ipc_wakeup t s)
     }
   }"

text \<open>
  The walk over the signal instances of a mailbox. \<open>dce_ss_clear\<close> is called with the semaphore number as
  bit position and the bit mask as semaphore number.
\<close>

definition handle_one_signal :: "'i ipc_world \<Rightarrow> sig_id \<Rightarrow> 'i dce_ipc \<Rightarrow> 'i dce_ipc option" where
  "handle_one_signal W x s = do {
     skip \<leftarrow> (if sema_num (sig_of x s) < DCE_NUM_SEMA_REGS
              then do { v \<leftarrow> dce_ss_get_state (sema_num (sig_of x s)) (dce s); Some (\<not> bit v (sema_bit (sig_of x s))) }
              else Some False);
     if skip then Some s
     else do {
       s \<leftarrow> on_dce (dce_ss_clear (dce_w W) (sema_num (sig_of x s)) (unat (DCE_BIT (sema_bit (sig_of x s))))) s;
       if sig_signal (sig_of x s) \<and> sig_ch (ivc_channels s (sig_chan x))
       then dce_admin_ipc_handle_signal W (ch_type (ivc_channels s (sig_chan x))) s else None
     }
   }"

partial_function (option) signal_walk :: "'i ipc_world \<Rightarrow> sig_id option \<Rightarrow> 'i dce_ipc \<Rightarrow> 'i dce_ipc option" where
  "signal_walk W cur s =
     (case cur of
        None \<Rightarrow> Some s
      | Some x \<Rightarrow> Option.bind (handle_one_signal W x s) (\<lambda>s. signal_walk W (sig_next (sig_of x s)) s))"

definition dce_ipc_mbox_handle_signal :: "'i ipc_world \<Rightarrow> sig_id option \<Rightarrow> 'i dce_ipc \<Rightarrow> 'i dce_ipc option" where
  "dce_ipc_mbox_handle_signal W data s =
     (case data of
        None \<Rightarrow> Some s
      | Some x \<Rightarrow>
          if \<not> sig_signal (sig_of x s) \<or> \<not> sig_ch (ivc_channels s (sig_chan x))
             \<or> mb_num (sig_of x s) > DCE_NUM_MBOX_REGS
          then Some s
          else signal_walk W data s)"

subsection \<open>Set-up and tear-down of all channels\<close>

fun channels_deinit_from :: "nat \<Rightarrow> nat \<Rightarrow> 'i dce_ipc \<Rightarrow> 'i dce_ipc option" where
  "channels_deinit_from i 0 s = Some s"
| "channels_deinit_from i (Suc k) s = do { s \<leftarrow> dce_ipc_channel_deinit i s; channels_deinit_from (Suc i) k s }"

definition dce_admin_channel_deinit :: "'i dce_ipc \<Rightarrow> 'i dce_ipc option" where
  "dce_admin_channel_deinit s = channels_deinit_from 0 DCE_IPC_CH_KMD_TYPE_MAX s"

fun channels_init_from :: "'i ipc_world \<Rightarrow> nat \<Rightarrow> nat \<Rightarrow> 'i dce_ipc \<Rightarrow> (int \<times> 'i dce_ipc) option" where
  "channels_init_from W i 0 s = Some (0, s)"
| "channels_init_from W i (Suc k) s = do {
     (ret, s) \<leftarrow> dce_ipc_channel_init W i s;
     if ret \<noteq> 0 then Some (ret, s) else channels_init_from W (Suc i) k s
   }"

definition dce_admin_channel_init :: "'i ipc_world \<Rightarrow> 'i dce_ipc \<Rightarrow> (int \<times> 'i dce_ipc) option" where
  "dce_admin_channel_init W s = do {
     (ret, s) \<leftarrow> channels_init_from W 0 DCE_IPC_CH_KMD_TYPE_MAX s;
     if ret \<noteq> 0 then do { s \<leftarrow> dce_admin_channel_deinit s; Some (ret, s) } else Some (ret, s)
   }"

definition dce_admin_init :: "'i ipc_world \<Rightarrow> 'i dce_ipc \<Rightarrow> (int \<times> 'i dce_ipc) option" where
  "dce_admin_init W s = do {
     let set_st = (\<lambda>b s. s\<lparr>dce := set_status b (dce s)\<rparr>);
     (ret, s) \<leftarrow> dce_ipc_allocate_region W (set_st 31 s);
     if ret \<noteq> 0 then Some (ret, set_st 30 s)
     else do {
       (ret, s) \<leftarrow> dce_admin_channel_init W s;
       if ret \<noteq> 0 then Some (ret, set_st 30 (dce_ipc_free_region s)) else Some (0, set_st 29 s)
     }
   }"

definition dce_admin_deinit :: "'i dce_ipc \<Rightarrow> 'i dce_ipc option" where
  "dce_admin_deinit s = do {
     s \<leftarrow> dce_admin_channel_deinit s;
     on_dce (dce_mailbox_deinit_interface 1) (dce_ipc_free_region s)
   }"

definition dce_admin_ivc_channel_reset :: "'i ipc_world \<Rightarrow> 'i dce_ipc \<Rightarrow> 'i dce_ipc option" where
  "dce_admin_ivc_channel_reset W s = dce_ipc_channel_reset W DCE_IPC_CH_KMD_TYPE_ADMIN s"

text \<open>The channels as they are declared; that of HDCP is zero.\<close>

definition static_signal :: "nat \<Rightarrow> nat \<Rightarrow> signal_instance" where
  "static_signal mb n = \<lparr>sig_type = 0, sema_num = DCE_NUM_SEMA_REGS, sema_bit = 0, mb_type = mb, mb_num = n,
     sig_signal = False, sig_next = None\<rparr>"

definition static_channel :: "nat \<Rightarrow> nat \<Rightarrow> nat \<Rightarrow> nat \<Rightarrow> u8 \<Rightarrow> u32 \<Rightarrow> 'i \<Rightarrow> 'i dce_ipc_channel" where
  "static_channel t mb to_mb from_mb n fsz i =
     \<lparr>ch_flags = DCE_BIT DCE_IPC_CHANNEL_VALID OR DCE_BIT DCE_IPC_CHANNEL_MSG_HEADER, w_type = 0, ch_type = t,
      ch_ipc_type = word_of_nat t, ibuff = None, obuff = None, d_ivc = i, ch_d = False, ch_lock = Mutex_none,
      sig_ch = False, sig_notify = False, to_d = static_signal mb to_mb, from_d = static_signal mb from_mb,
      q_info = \<lparr>q_tx_iova = 0, q_rx_iova = 0, q_nframes = n, q_frame_sz = fsz\<rparr>\<rparr>"

definition static_channels :: "'i \<Rightarrow> nat \<Rightarrow> 'i dce_ipc_channel" where
  "static_channels i t =
     (if t = 0 then static_channel 0 1 5 4 4 2048 i
      else if t = 1 then static_channel 1 2 1 0 1 4096 i
      else if t = 3 then static_channel 3 3 2 3 4 4096 i
      else (static_channel 0 0 0 0 0 0 i)\<lparr>ch_flags := 0,
             to_d := (static_signal 0 0)\<lparr>sema_num := 0\<rparr>, from_d := (static_signal 0 0)\<lparr>sema_num := 0\<rparr>\<rparr>)"

end
