(* ===== verification/Dce_Channels.thy ===== *)
theory Dce_Channels
  imports Dce_Ipc
begin

text \<open>
  Properties of the channels of \<open>Dce_Ipc\<close>: where the set-up puts their queues in the region, what a second set-up does
  to the signal instances, and what sending a message does. The queue operations are those of any \<open>ivc_api\<close>; each theorem
  names what it needs of them.
\<close>

subsection \<open>Lemmas: set-up of a channel\<close>

text \<open>The size of a queue that \<open>dce_ipc_channel_init\<close> sets up.\<close>

definition queue_size :: "queue_info \<Rightarrow> u32 option" where
  "queue_size q = do {
     a \<leftarrow> tegra_ivc_align (ucast (q_frame_sz q));
     tegra_ivc_total_queue_size (ucast a * ucast (q_nframes q))
   }"

lemma upd_ch_simps [simp]:
  "ivc_channels (upd_ch t f s) = (ivc_channels s)(t := f (ivc_channels s t))" "dce (upd_ch t f s) = dce s"
  "d_ch (upd_ch t f s) = d_ch s" "region_base (upd_ch t f s) = region_base s" "region_iova (upd_ch t f s) = region_iova s"
  "region_size (upd_ch t f s) = region_size s" "s_offset (upd_ch t f s) = s_offset s" "shm (upd_ch t f s) = shm s"
  "mb_signals (upd_ch t f s) = mb_signals s" "notify_data (upd_ch t f s) = notify_data s"
  "client_handles (upd_ch t f s) = client_handles s" "d_clients (upd_ch t f s) = d_clients s"
  "region_live (upd_ch t f s) = region_live s"
  by (simp_all add: upd_ch_def)

lemma mailbox_init_ok:
  assumes "hsp_id d = 0" "r < 8"
  shows "\<exists>d'. dce_mailbox_init_interface 0 i b r w n d = Some (0, d') \<and> hsp_id d' = 0 \<and> \<not> mb_locked (d_mb d' i)"
  using assms by (simp add: dce_mailbox_init_interface_def set_mb_def dce_smb_set_full_ie_def dce_hsp_ie_write_def hsp_guard_def)

text \<open>A channel whose signal instances are those of the declaration.\<close>

definition fresh_channel :: "'i dce_ipc_channel \<Rightarrow> bool" where
  "fresh_channel c \<longleftrightarrow> bit (ch_flags c) DCE_IPC_CHANNEL_VALID
     \<and> sig_type (to_d c) = 0 \<and> sig_type (from_d c) = 0 \<and> mb_type (to_d c) = mb_type (from_d c)
     \<and> mb_num (to_d c) < DCE_NUM_MBOX_REGS \<and> mb_num (from_d c) < DCE_NUM_MBOX_REGS
     \<and> mb_num (to_d c) \<noteq> mb_num (from_d c) \<and> sig_next (from_d c) = None"

text \<open>The channel and the driver after the signalling of a channel is set up.\<close>

definition wired :: "nat \<Rightarrow> 'i dce_ipc \<Rightarrow> 'i dce_ipc_channel \<Rightarrow> 'i dce_ipc_channel" where
  "wired t s c = c\<lparr>sig_ch := True, sig_notify := True, to_d := (to_d c)\<lparr>sig_signal := True\<rparr>,
     from_d := (from_d c)\<lparr>sig_signal := True, sig_next := mb_signals s (mb_num (from_d c))\<rparr>\<rparr>"

lemma init_signaling_ok:
  fixes s :: "'i dce_ipc" and t :: nat
  defines "c \<equiv> ivc_channels s t"
  assumes c: "fresh_channel c" and h: "hsp_id (dce s) = 0"
  shows "\<exists>d'. hsp_id d' = 0 \<and> \<not> mb_locked (d_mb d' (mb_type (to_d c)))
    \<and> dce_ipc_init_signaling W t s = Some (0, s\<lparr>dce := d', ivc_channels := (ivc_channels s)(t := wired t s c),
        mb_signals := (mb_signals s)(mb_num (to_d c) := Some (To_d t), mb_num (from_d c) := Some (From_d t)),
        notify_data := (notify_data s)(mb_type (to_d c) := Some (From_d t))\<rparr>)"
proof -
  obtain d' where d: "dce_mailbox_init_interface 0 (mb_type (to_d c)) (mb_num (to_d c)) (mb_num (from_d c)) No_wait
      Notify_ipc (dce s) = Some (0, d')" "hsp_id d' = 0" "\<not> mb_locked (d_mb d' (mb_type (to_d c)))"
    using mailbox_init_ok [OF h, of "mb_num (from_d c)"] c unfolding fresh_channel_def by blast
  have n: "sig_next (from_d c) = None" "mb_num (to_d c) \<noteq> mb_num (from_d c)" using c by (simp_all add: fresh_channel_def)
  have *: "c\<lparr>sig_ch := True, to_d := to_d c\<lparr>sig_signal := True\<rparr>, sig_notify := True,
      from_d := from_d c\<lparr>sig_signal := True\<rparr>\<rparr> = wired t s c" if "mb_signals s (mb_num (from_d c)) = None"
    using n that by (intro dce_ipc_channel.equality) (simp_all add: wired_def)
  have **: "c\<lparr>sig_ch := True, to_d := to_d c\<lparr>sig_signal := True\<rparr>, sig_notify := True,
      from_d := from_d c\<lparr>sig_signal := True, sig_next := mb_signals s (mb_num (from_d c))\<rparr>\<rparr> = wired t s c"
    by (intro dce_ipc_channel.equality) (simp_all add: wired_def)
  show ?thesis
    using c d n * ** unfolding fresh_channel_def c_def
    by (intro exI [of _ d'] conjI)
       (auto simp: dce_ipc_init_signaling_def Let_def upd_ch_def intro!: dce_ipc.equality)
qed

text \<open>
  What \<open>tegra_ivc_init\<close> of the kernel accepts (\<open>drivers/firmware/tegra/ivc.c\<close>): two queues and frames aligned to 64 bytes,
  less than 4 GB of frames, and the frames of one queue before the other queue.
\<close>

definition ivc_accepts :: "nat \<Rightarrow> nat \<Rightarrow> u32 \<Rightarrow> u32 \<Rightarrow> bool" where
  "ivc_accepts rx tx n f \<longleftrightarrow> rx mod 64 = 0 \<and> tx mod 64 = 0 \<and> unat f mod 64 = 0 \<and> unat n * unat f < 2 ^ 32
     \<and> (if rx < tx then rx + unat n * unat f \<le> tx else tx + unat n * unat f \<le> rx)"

definition ivc_init_documented :: "'i ipc_world \<Rightarrow> bool" where
  "ivc_init_documented W \<longleftrightarrow>
     (\<forall>rx tx rh th n f im. ivc_accepts rx tx n f \<longrightarrow> fst (ivc_init (api W) rx tx rh th n f im) = 0)"

text \<open>The initialisation of the queues of a channel at the current offset succeeds.\<close>

definition init_succeeds :: "'i ipc_world \<Rightarrow> nat \<Rightarrow> 'i dce_ipc \<Rightarrow> u32 \<Rightarrow> bool" where
  "init_succeeds W t s q \<longleftrightarrow> (\<forall>a rh th im. tegra_ivc_align (ucast (q_frame_sz (q_info (ivc_channels s t)))) = Some a \<longrightarrow>
     fst (ivc_init (api W) (unat (s_offset s)) (unat (s_offset s) + unat q) rh th
       (ucast (q_nframes (q_info (ivc_channels s t)))) (ucast a) im) = 0)"

text \<open>The set-up of one channel: its two queues are the next two areas of the region.\<close>

lemma channel_init_eq:
  fixes s :: "'i dce_ipc" and t :: nat
  defines "c \<equiv> ivc_channels s t"
  assumes t: "t < DCE_IPC_CH_KMD_TYPE_MAX" and c: "fresh_channel c" and h: "hsp_id (dce s) = 0" and r: "region_base s"
    and q: "queue_size (q_info c) = Some q" and i: "init_succeeds W t s q"
  shows "\<exists>d' i' m'. hsp_id d' = 0 \<and> \<not> mb_locked (d_mb d' (mb_type (to_d c)))
    \<and> dce_ipc_channel_init W t s = Some (0, s\<lparr>dce := d', ivc_channels := (ivc_channels s)(t := (wired t s c)\<lparr>
          ch_flags := ch_flags c OR DCE_BIT DCE_IPC_CHANNEL_INITIALIZED, d_ivc := i', ch_d := True, ch_lock := Mutex_free,
          q_info := (q_info c)\<lparr>q_rx_iova := region_iova s + ucast (s_offset s),
            q_tx_iova := region_iova s + ucast (s_offset s) + ucast q\<rparr>\<rparr>),
        d_ch := (d_ch s)(t := True), s_offset := s_offset s + 2 * q, shm := m',
        mb_signals := (mb_signals s)(mb_num (to_d c) := Some (To_d t), mb_num (from_d c) := Some (From_d t)),
        notify_data := (notify_data s)(mb_type (to_d c) := Some (From_d t))\<rparr>)"
proof -
  define s1 where "s1 = upd_ch t (\<lambda>c. c\<lparr>ch_lock := Mutex_held, ch_d := True\<rparr>) s"
  have c1: "fresh_channel (ivc_channels s1 t)" "hsp_id (dce s1) = 0"
    using c h by (simp_all add: s1_def c_def fresh_channel_def)
  have two: "upd_ch t (\<lambda>c. c\<lparr>ch_d := True\<rparr>) (upd_ch t (\<lambda>c. c\<lparr>ch_lock := Mutex_held\<rparr>) s) = s1"
    by (simp add: s1_def upd_ch_def)
  obtain d' where d: "hsp_id d' = 0" "\<not> mb_locked (d_mb d' (mb_type (to_d c)))"
    "dce_ipc_init_signaling W t s1 = Some (0, s1\<lparr>dce := d',
        ivc_channels := (ivc_channels s1)(t := wired t s1 (ivc_channels s1 t)),
        mb_signals := (mb_signals s1)(mb_num (to_d c) := Some (To_d t), mb_num (from_d c) := Some (From_d t)),
        notify_data := (notify_data s1)(mb_type (to_d c) := Some (From_d t))\<rparr>)"
    using init_signaling_ok [OF c1, of W] by (auto simp: s1_def c_def)
  obtain a where a: "tegra_ivc_align (ucast (q_frame_sz (q_info c))) = Some a"
      "tegra_ivc_total_queue_size (ucast a * ucast (q_nframes (q_info c))) = Some q"
    using q by (auto simp: queue_size_def split: bind_splits)
  have v: "bit (ch_flags (ivc_channels s t)) 0" using c by (simp add: fresh_channel_def c_def)
  obtain i' m' where im: "ivc_init (api W) (unat (s_offset s)) (unat (s_offset s) + unat q) (region_iova s + ucast (s_offset s))
      (region_iova s + ucast (s_offset s) + ucast q) (ucast (q_nframes (q_info c))) (ucast a)
      (d_ivc c, shm s) = (0, i', m')"
    using i a(1) unfolding init_succeeds_def c_def by (metis prod.collapse)
  have p: "region_base s1" "s_offset s1 = s_offset s" "region_iova s1 = region_iova s" "shm s1 = shm s"
    "ivc_channels s1 t = c\<lparr>ch_lock := Mutex_held, ch_d := True\<rparr>"
    using r by (simp_all add: s1_def c_def)
  let ?s2 = "s1\<lparr>dce := d', ivc_channels := (ivc_channels s1)(t := wired t s1 (ivc_channels s1 t)),
        mb_signals := (mb_signals s1)(mb_num (to_d c) := Some (To_d t), mb_num (from_d c) := Some (From_d t)),
        notify_data := (notify_data s1)(mb_type (to_d c) := Some (From_d t))\<rparr>"
  have p2: "q_info (ivc_channels ?s2 t) = q_info c" "d_ivc (ivc_channels ?s2 t) = d_ivc c" "shm ?s2 = shm s"
    "region_base ?s2" "s_offset ?s2 = s_offset s" "region_iova ?s2 = region_iova s"
    using p by (simp_all add: wired_def)
  have "\<not> t \<ge> DCE_IPC_CH_KMD_TYPE_MAX" using t by simp
  then have "dce_ipc_channel_init W t s = Some (init_out t 0 ((upd_ch t (\<lambda>c. c\<lparr>
        ch_flags := ch_flags c OR DCE_BIT DCE_IPC_CHANNEL_INITIALIZED,
        q_info := (q_info c)\<lparr>q_rx_iova := region_iova s + ucast (s_offset s),
          q_tx_iova := region_iova s + ucast (s_offset s) + ucast q\<rparr>\<rparr>) (upd_ch t (\<lambda>c. c\<lparr>d_ivc := i'\<rparr>) ?s2\<lparr>shm := m'\<rparr>))
      \<lparr>d_ch := (d_ch ?s2)(t := True), s_offset := s_offset s + 2 * q\<rparr>))"
    unfolding dce_ipc_channel_init_def Let_def
    by (simp only: if_False upd_ch_simps fun_upd_same dce_ipc_channel.simps v simp_thms if_True two d(3) Option.bind.bind_lunit
        prod.case p2 a on_ivc_def im) (simp add: v p)
  also have "\<dots> = Some (0, s\<lparr>dce := d', ivc_channels := (ivc_channels s)(t := (wired t s c)\<lparr>
          ch_flags := ch_flags c OR DCE_BIT DCE_IPC_CHANNEL_INITIALIZED, d_ivc := i', ch_d := True, ch_lock := Mutex_free,
          q_info := (q_info c)\<lparr>q_rx_iova := region_iova s + ucast (s_offset s),
            q_tx_iova := region_iova s + ucast (s_offset s) + ucast q\<rparr>\<rparr>),
        d_ch := (d_ch s)(t := True), s_offset := s_offset s + 2 * q, shm := m',
        mb_signals := (mb_signals s)(mb_num (to_d c) := Some (To_d t), mb_num (from_d c) := Some (From_d t)),
        notify_data := (notify_data s)(mb_type (to_d c) := Some (From_d t))\<rparr>)"
    unfolding init_out_def s1_def wired_def upd_ch_def c_def
    by (auto intro!: dce_ipc.equality dce_ipc_channel.equality simp: fun_eq_iff)
  finally show ?thesis using d(1,2) by blast
qed




lemma size_evals:
  "tegra_ivc_align 2048 = Some 2048" "tegra_ivc_align 4096 = Some 4096" "tegra_ivc_align 1728 = Some 1728"
  "tegra_ivc_total_queue_size 71168 = Some 71296"
  by code_simp+


lemma queue_size_evals:
  "q_nframes q = 4 \<Longrightarrow> q_frame_sz q = 2048 \<Longrightarrow> queue_size q = Some 8320"
  "q_nframes q = 1 \<Longrightarrow> q_frame_sz q = 4096 \<Longrightarrow> queue_size q = Some 4224"
  "q_nframes q = 4 \<Longrightarrow> q_frame_sz q = 4096 \<Longrightarrow> queue_size q = Some 16512"
proof -
  have "tegra_ivc_total_queue_size 8192 = Some 8320" "tegra_ivc_total_queue_size 4096 = Some 4224"
    "tegra_ivc_total_queue_size 16384 = Some 16512" by code_simp+
  then show "q_nframes q = 4 \<Longrightarrow> q_frame_sz q = 2048 \<Longrightarrow> queue_size q = Some 8320"
    "q_nframes q = 1 \<Longrightarrow> q_frame_sz q = 4096 \<Longrightarrow> queue_size q = Some 4224"
    "q_nframes q = 4 \<Longrightarrow> q_frame_sz q = 4096 \<Longrightarrow> queue_size q = Some 16512"
    by (simp_all add: queue_size_def size_evals)
qed


text \<open>The driver before its first initialisation.\<close>

definition before_init :: "'i dce_ipc \<Rightarrow> bool" where
  "before_init s \<longleftrightarrow> (\<exists>i. ivc_channels s = static_channels i) \<and> mb_signals s = (\<lambda>_. None) \<and> d_ch s = (\<lambda>_. False)
     \<and> hsp_id (dce s) = 0"

lemma fresh_static: "fresh_channel (static_channel t mb n k nf fs i) \<longleftrightarrow> n < 8 \<and> k < 8 \<and> n \<noteq> k"
  by (auto simp: fresh_channel_def static_channel_def static_signal_def DCE_BIT_def bit_or_iff)

lemma static_channel_simps:
  "mb_num (to_d (static_channel t mb n k nf fs i)) = n" "mb_num (from_d (static_channel t mb n k nf fs i)) = k"
  "q_info (static_channel t mb n k nf fs i) = \<lparr>q_tx_iova = 0, q_rx_iova = 0, q_nframes = nf, q_frame_sz = fs\<rparr>"
  by (simp_all add: static_channel_def static_signal_def)




subsection \<open>Lemmas: the walk over the signal instances\<close>

text \<open>The handling of a signal does not change the signal instances.\<close>

definition same_signals :: "'i dce_ipc \<Rightarrow> 'i dce_ipc \<Rightarrow> bool" where
  "same_signals s s' \<longleftrightarrow> (\<forall>x. sig_of x s' = sig_of x s)"

lemma same_signals_upd:
  "to_d (f (ivc_channels s t)) = to_d (ivc_channels s t) \<Longrightarrow> from_d (f (ivc_channels s t)) = from_d (ivc_channels s t)
    \<Longrightarrow> same_signals s (upd_ch t f s)"
  by (auto simp: same_signals_def sig_of_def split: sig_id.split)

lemma same_signals_refl [simp]: "same_signals s s"
  by (simp add: same_signals_def)

lemma same_signals_trans: "same_signals s s1 \<Longrightarrow> same_signals s1 s2 \<Longrightarrow> same_signals s s2"
  by (simp add: same_signals_def)

lemma same_signals_on_dce: "on_dce f s = Some s' \<Longrightarrow> same_signals s s'"
  by (auto simp: on_dce_def same_signals_def sig_of_def split: sig_id.split)

lemma same_signals_lock: "ch_mutex_lock t s = Some s' \<Longrightarrow> same_signals s s'"
  by (auto simp: ch_mutex_lock_def split: if_splits intro: same_signals_upd)

lemma same_signals_unlock: "same_signals s (ch_mutex_unlock t s)"
  unfolding ch_mutex_unlock_def by (intro same_signals_upd) auto

lemma same_signals_enter: "enter_ch t s = Some s' \<Longrightarrow> same_signals s s'"
  by (auto simp: enter_ch_def bind_eq_Some_conv intro: same_signals_lock)

lemma same_signals_on_ivc: "on_ivc t f s = (r, s') \<Longrightarrow> same_signals s s'"
  by (auto simp: on_ivc_def same_signals_def sig_of_def upd_ch_def split: sig_id.split prod.splits)

lemma same_signals_synced:
  "dce_ipc_channel_is_synced t s = Some (b, s') \<Longrightarrow> same_signals s s'"
  by (auto simp: dce_ipc_channel_is_synced_def bind_eq_Some_conv
    intro: same_signals_trans [OF same_signals_enter same_signals_unlock])

lemma same_signals_available:
  assumes "dce_ipc_is_data_available W t s = Some (b, s')"
  shows "same_signals s s'"
proof -
  obtain s1 where s1: "enter_ch t s = Some s1"
    using assms by (auto simp: dce_ipc_is_data_available_def bind_eq_Some_conv)
  obtain r s2 where s2: "on_ivc t (read_get_next (api W)) s1 = (r, s2)" by fastforce
  have "s' = ch_mutex_unlock t s2" using assms s1 s2 by (simp add: dce_ipc_is_data_available_def)
  then show ?thesis
    using same_signals_trans [OF same_signals_trans [OF same_signals_enter [OF s1] same_signals_on_ivc [OF s2]] same_signals_unlock]
    by simp
qed

lemma same_signals_wakeup: "same_signals s (dce_client_ipc_wakeup t s)"
  by (auto simp: dce_client_ipc_wakeup_def dce_client_schedule_event_work_def upd_client_def Let_def same_signals_def
    sig_of_def split: option.split sig_id.split)

lemma same_signals_handle_signal:
  assumes "dce_admin_ipc_handle_signal W t s = Some s'"
  shows "same_signals s s'"
proof -
  obtain b s1 where s1: "dce_ipc_channel_is_synced t s = Some (b, s1)"
    using assms by (auto simp: dce_admin_ipc_handle_signal_def bind_eq_Some_conv)
  show ?thesis
  proof (cases b)
    case False
    then show ?thesis using assms s1 same_signals_synced [OF s1] by (simp add: dce_admin_ipc_handle_signal_def)
  next
    case True
    then obtain a s2 where s2: "dce_ipc_is_data_available W t s1 = Some (a, s2)"
      using assms s1 by (auto simp: dce_admin_ipc_handle_signal_def bind_eq_Some_conv)
    have "same_signals s s2"
      by (rule same_signals_trans [OF same_signals_synced [OF s1] same_signals_available [OF s2]])
    moreover have "same_signals s2 s'"
      using assms s1 s2 True same_signals_wakeup [of s2 t] same_signals_on_dce
      by (auto simp: dce_admin_ipc_handle_signal_def dce_admin_wakeup_ipc_def split: if_splits)
    ultimately show ?thesis by (rule same_signals_trans)
  qed
qed

lemma same_signals_one:
  assumes "handle_one_signal W x s = Some s'"
  shows "same_signals s s'"
  using assms unfolding handle_one_signal_def
  by (auto simp: bind_eq_Some_conv split: if_splits
    dest: same_signals_on_dce same_signals_handle_signal intro: same_signals_trans)

text \<open>An instance that is its own successor makes the walk endless.\<close>

lemma signal_walk_endless:
  assumes "sig_next (sig_of x s) = Some x"
  shows "signal_walk W (Some x) s = None"
proof (rule ccontr)
  assume "signal_walk W (Some x) s \<noteq> None"
  then obtain y where y: "signal_walk W (Some x) s = Some y" by blast
  have "\<not> (cur = Some x \<and> sig_next (sig_of x s) = Some x)" if "signal_walk W cur s = Some y" for cur s y
  proof (rule signal_walk.raw_induct [OF _ that])
    fix walk :: "'a ipc_world \<Rightarrow> sig_id option \<Rightarrow> 'a dce_ipc \<Rightarrow> 'a dce_ipc option" and W :: "'a ipc_world" and cur s y
    assume IH: "\<And>W cur s y. walk W cur s = Some y \<Longrightarrow> \<not> (cur = Some x \<and> sig_next (sig_of x s) = Some x)"
      and run: "(case cur of None \<Rightarrow> Some s
        | Some x \<Rightarrow> handle_one_signal W x s \<bind> (\<lambda>s. walk W (sig_next (sig_of x s)) s)) = Some y"
    show "\<not> (cur = Some x \<and> sig_next (sig_of x s) = Some x)"
    proof
      assume c: "cur = Some x \<and> sig_next (sig_of x s) = Some x"
      then obtain s1 where s1: "handle_one_signal W x s = Some s1" "walk W (sig_next (sig_of x s1)) s1 = Some y"
        using run by (auto simp: bind_eq_Some_conv)
      have "sig_next (sig_of x s1) = Some x" using same_signals_one [OF s1(1)] c by (simp add: same_signals_def)
      with IH [OF s1(2)] show False by simp
    qed
  qed
  with y assms show False by blast
qed

lemma channel_deinit_eq:
  assumes "t < DCE_IPC_CH_KMD_TYPE_MAX" "d_ch s t" "bit (ch_flags (ivc_channels s t)) DCE_IPC_CHANNEL_INITIALIZED"
    "ch_lock (ivc_channels s t) = Mutex_free" "mb_type (to_d (ivc_channels s t)) = mb_type (from_d (ivc_channels s t))"
    "\<not> mb_locked (d_mb (dce s) (mb_type (to_d (ivc_channels s t))))"
  shows "dce_ipc_channel_deinit t s = Some (s\<lparr>ivc_channels := (ivc_channels s)(t := (ivc_channels s t)\<lparr>
      sig_ch := False, ch_flags := ch_flags (ivc_channels s t)
        AND NOT (DCE_BIT DCE_IPC_CHANNEL_INITIALIZED) AND NOT (DCE_BIT DCE_IPC_CHANNEL_SYNCED), ch_lock := Mutex_none\<rparr>),
      d_ch := (d_ch s)(t := False)\<rparr>)"
  using assms
  by (auto simp: dce_ipc_channel_deinit_def ch_mutex_lock_def dce_ipc_deinit_signaling_def on_dce_def
      dce_mailbox_deinit_interface_def upd_ch_def Let_def intro!: dce_ipc.equality dce_ipc_channel.equality)

text \<open>
  A channel that is set up, torn down and set up again, as when the driver is unbound and bound, has a signal
  instance that is its own successor: \<open>mb_signals\<close> still points to it. The handling of one signal of the mailbox
  then works, but the walk over the instances never ends.
\<close>

theorem dce_reinit_signal_endless:
  assumes "t < DCE_IPC_CH_KMD_TYPE_MAX" "ivc_channels s t = static_channel t mb n k nf fs i" "n < 8" "k < 8" "n \<noteq> k"
    and "mb_signals s k = None" "hsp_id (dce s) = 0" "region_base s" "queue_size (q_info (ivc_channels s t)) = Some q"
    and "init_succeeds W t s q" "init_succeeds W t (s\<lparr>s_offset := s_offset s + 2 * q\<rparr>) q"
  shows "\<exists>s1 s2 s3. dce_ipc_channel_init W t s = Some (0, s1) \<and> dce_ipc_channel_deinit t s1 = Some s2
    \<and> dce_ipc_channel_init W t s2 = Some (0, s3) \<and> notify_data s3 mb = Some (From_d t)
    \<and> handle_one_signal W (From_d t) s3 \<noteq> None \<and> dce_ipc_mbox_handle_signal W (notify_data s3 mb) s3 = None"
proof -
  let ?c = "static_channel t mb n k nf fs i"
  have fresh: "fresh_channel ?c" using assms(3-5) by (simp add: fresh_static)
  have mt: "mb_type (to_d ?c) = mb" "mb_type (from_d ?c) = mb" by (simp_all add: static_channel_def static_signal_def)
  have fl: "\<not> bit (ch_flags ?c) 2" "bit (ch_flags ?c) 0" by (simp_all add: static_channel_def DCE_BIT_def bit_or_iff bit_push_bit_iff)
  obtain d1 i1 m1 where s1: "hsp_id d1 = 0" "\<not> mb_locked (d_mb d1 mb)"
    "dce_ipc_channel_init W t s = Some (0, s\<lparr>dce := d1, ivc_channels := (ivc_channels s)(t := (wired t s ?c)\<lparr>
          ch_flags := ch_flags ?c OR DCE_BIT DCE_IPC_CHANNEL_INITIALIZED, d_ivc := i1, ch_d := True, ch_lock := Mutex_free,
          q_info := (q_info ?c)\<lparr>q_rx_iova := region_iova s + ucast (s_offset s),
            q_tx_iova := region_iova s + ucast (s_offset s) + ucast q\<rparr>\<rparr>),
        d_ch := (d_ch s)(t := True), s_offset := s_offset s + 2 * q, shm := m1,
        mb_signals := (mb_signals s)(n := Some (To_d t), k := Some (From_d t)),
        notify_data := (notify_data s)(mb := Some (From_d t))\<rparr>)"
    (is "dce_ipc_channel_init W t s = Some (0, ?s1)")
    using channel_init_eq [OF assms(1) _ assms(7-10)] fresh by (auto simp: assms(2) mt static_channel_simps)
  define s2 where "s2 = ?s1\<lparr>ivc_channels := (ivc_channels ?s1)(t := (ivc_channels ?s1 t)\<lparr>
      sig_ch := False, ch_flags := ch_flags (ivc_channels ?s1 t)
        AND NOT (DCE_BIT DCE_IPC_CHANNEL_INITIALIZED) AND NOT (DCE_BIT DCE_IPC_CHANNEL_SYNCED), ch_lock := Mutex_none\<rparr>),
      d_ch := (d_ch ?s1)(t := False)\<rparr>"
  have deinit: "dce_ipc_channel_deinit t ?s1 = Some s2"
    unfolding s2_def using assms(1) s1(2)
    by (intro channel_deinit_eq) (simp_all add: mt wired_def bit_or_iff DCE_BIT_def)
  let ?c2 = "ivc_channels s2 t"
  have c2: "fresh_channel ?c2" "mb_type (to_d ?c2) = mb" "mb_num (to_d ?c2) = n" "mb_num (from_d ?c2) = k"
    "\<not> bit (ch_flags ?c2) 2" "sema_num (from_d ?c2) = 4" "sema_bit (from_d ?c2) = 0" "ch_type ?c2 = t"
    "mb_signals s2 k = Some (From_d t)" "hsp_id (dce s2) = 0" "region_base s2" "queue_size (q_info ?c2) = Some q"
    using fresh assms(2-9) s1(1)
    by (simp_all add: s2_def wired_def fresh_channel_def static_channel_def static_signal_def bit_simps DCE_BIT_def queue_size_def)
  have i2: "init_succeeds W t s2 q"
    using assms(2,11) by (simp add: init_succeeds_def s2_def wired_def)
  obtain d3 i3 m3 where s3: "hsp_id d3 = 0"
    "dce_ipc_channel_init W t s2 = Some (0, s2\<lparr>dce := d3, ivc_channels := (ivc_channels s2)(t := (wired t s2 ?c2)\<lparr>
          ch_flags := ch_flags ?c2 OR DCE_BIT DCE_IPC_CHANNEL_INITIALIZED, d_ivc := i3, ch_d := True, ch_lock := Mutex_free,
          q_info := (q_info ?c2)\<lparr>q_rx_iova := region_iova s2 + ucast (s_offset s2),
            q_tx_iova := region_iova s2 + ucast (s_offset s2) + ucast q\<rparr>\<rparr>),
        d_ch := (d_ch s2)(t := True), s_offset := s_offset s2 + 2 * q, shm := m3,
        mb_signals := (mb_signals s2)(n := Some (To_d t), k := Some (From_d t)),
        notify_data := (notify_data s2)(mb := Some (From_d t))\<rparr>)"
    (is "dce_ipc_channel_init W t s2 = Some (0, ?s3)")
    using channel_init_eq [OF assms(1) c2(1,10-12) i2] by (auto simp: c2(2-4))
  have l: "sig_next (sig_of (From_d t) ?s3) = Some (From_d t)" by (simp add: sig_of_def wired_def c2)
  have one: "handle_one_signal W (From_d t) ?s3 \<noteq> None"
    using s3(1) c2(5-8) assms(1)
    by (simp add: handle_one_signal_def sig_of_def sig_chan_def wired_def DCE_BIT_def dce_ss_clear_def dce_ss_get_state_def
      on_dce_def dce_admin_ipc_handle_signal_def dce_ipc_channel_is_synced_def enter_ch_def the_ch_def ch_mutex_lock_def
      ch_mutex_unlock_def upd_ch_def bit_simps)
  have "dce_ipc_mbox_handle_signal W (Some (From_d t)) ?s3 = None"
    using signal_walk_endless [OF l, of W] c2(4) assms(4)
    by (simp add: dce_ipc_mbox_handle_signal_def sig_of_def sig_chan_def wired_def)
  then show ?thesis
    using s1(3) deinit s3(2) one
    by (intro exI [of _ ?s1] exI [of _ s2] exI [of _ ?s3] conjI) simp_all
qed

subsection \<open>Messages\<close>

text \<open>A channel that can be used: set up, unlocked, with a mailbox that takes the signal.\<close>

definition ch_ready :: "nat \<Rightarrow> 'i dce_ipc \<Rightarrow> bool" where
  "ch_ready t s \<longleftrightarrow>
     (let c = ivc_channels s t; mb = mb_type (to_d c)
      in t < DCE_IPC_CH_KMD_TYPE_MAX \<and> d_ch s t \<and> ch_lock c = Mutex_free \<and> bit (ch_flags c) DCE_IPC_CHANNEL_MSG_HEADER
         \<and> sig_notify c \<and> sema_num (to_d c) \<ge> DCE_NUM_SEMA_REGS
         \<and> hsp_id (dce s) = 0 \<and> \<not> mb_locked (d_mb (dce s) mb) \<and> s_mb (d_mb (dce s) mb) < 8)"

lemma set_full_interrupt_ok:
  assumes "hsp_id d = 0" "\<not> mb_locked (d_mb d i)" "s_mb (d_mb d i) < 8"
  shows "dce_mailbox_set_full_interrupt i d = Some (d\<lparr>smb := (smb d)(s_mb (d_mb d i) := DCE_BIT 31)\<rparr>)"
  using assms
  by (auto simp: dce_mailbox_set_full_interrupt_def mb_lock_def mb_unlock_def set_mb_def dce_mailbox_write_safe_def
    dce_smb_read_def dce_smb_set_def hsp_guard_def fun_eq_iff intro!: tegra_dce.equality mailbox_interface.equality)

text \<open>The driver after a message was sent: \<open>i\<close> and \<open>m\<close> are the queue and the memory.\<close>

definition sent_state :: "nat \<Rightarrow> nat \<Rightarrow> 'i \<Rightarrow> mem \<Rightarrow> 'i dce_ipc \<Rightarrow> 'i dce_ipc" where
  "sent_state t frame i m s = (upd_ch t (\<lambda>c. c\<lparr>obuff := Some (frame + 4), d_ivc := i\<rparr>) s)\<lparr>shm := m,
     dce := (dce s)\<lparr>smb := (smb (dce s))(s_mb (d_mb (dce s) (mb_type (to_d (ivc_channels s t)))) := DCE_BIT 31)\<rparr>\<rparr>"

lemma send_message_ok:
  assumes r: "ch_ready t s"
    and w: "write_get_next (api W) (d_ivc (ivc_channels s t), shm s) = (Inr frame, i1, m1)"
    and a: "write_advance (api W) (i1, store (frame + 4) (take (unat sz) bs) (writel (ucast sz) frame m1)) = (0, i2, m2)"
    and l: "unat sz \<le> length bs"
  shows "dce_ipc_send_message W t (Some bs) sz s = Some (0, sent_state t frame i2 m2 s)"
proof -
  let ?c = "ivc_channels s t"
  have c: "t < 4" "d_ch s t" "ch_lock ?c = Mutex_free" "bit (ch_flags ?c) 15" "sig_notify ?c" "\<not> sema_num (to_d ?c) < 4"
    and d: "hsp_id (dce s) = 0" "\<not> mb_locked (d_mb (dce s) (mb_type (to_d ?c)))" "s_mb (d_mb (dce s) (mb_type (to_d ?c))) < 8"
    using r by (simp_all add: ch_ready_def Let_def)
  have e: "enter_ch t s = Some (upd_ch t (\<lambda>c. c\<lparr>ch_lock := Mutex_held\<rparr>) s)"
    using c by (simp add: enter_ch_def the_ch_def ch_mutex_lock_def)
  have "dce_ipc_send_message W t (Some bs) sz s = Some (0,
      ch_mutex_unlock t ((upd_ch t (\<lambda>c. c\<lparr>ch_lock := Mutex_held, obuff := Some (frame + 4), d_ivc := i2\<rparr>) s)\<lparr>shm := m2,
        dce := (dce s)\<lparr>smb := (smb (dce s))(s_mb (d_mb (dce s) (mb_type (to_d ?c))) := DCE_BIT 31)\<rparr>\<rparr>))"
    using c w a l
    by (auto simp: dce_ipc_send_message_def e dce_ipc_get_next_write_buff_def on_ivc_def dce_ipc_write_channel_def
      copied_out_def Let_def signal_notify_def dce_ipc_mbox_notify_def on_dce_def sig_of_def set_full_interrupt_ok [OF d]
      upd_ch_def intro!: dce_ipc.equality dce_ipc_channel.equality)
  moreover have "ch_mutex_unlock t ((upd_ch t (\<lambda>c. c\<lparr>ch_lock := Mutex_held, obuff := Some (frame + 4), d_ivc := i2\<rparr>) s)\<lparr>shm := m2,
        dce := d'\<rparr>) = (upd_ch t (\<lambda>c. c\<lparr>obuff := Some (frame + 4), d_ivc := i2\<rparr>) s)\<lparr>shm := m2, dce := d'\<rparr>" for d'
    using c(3) by (auto simp: ch_mutex_unlock_def upd_ch_def fun_eq_iff intro!: dce_ipc.equality dce_ipc_channel.equality)
  ultimately show ?thesis by (simp add: sent_state_def)
qed


text \<open>
  A message of the largest size that clients may use, \<open>DCE_CLIENT_MAX_IPC_MSG_SIZE\<close>, does not fit the frame of a
  channel that has message headers: its last four bytes are stored behind the 4096 bytes of the frame. For the resource
  manager's channel, with its single frame, this is the receive queue of the notification channel.
\<close>

theorem dce_max_message_overruns_frame:
  assumes "ch_ready t s" "write_get_next (api W) (d_ivc (ivc_channels s t), shm s) = (Inr frame, i1, m1)"
    and "\<And>m. \<exists>i2 m2. write_advance (api W) (i1, m) = (0, i2, m2) \<and> (\<forall>x \<ge> frame. m2 x = m x)"
    and "length bs = DCE_CLIENT_MAX_IPC_MSG_SIZE"
  shows "\<exists>s'. dce_ipc_send_message W t (Some bs) (of_nat DCE_CLIENT_MAX_IPC_MSG_SIZE) s = Some (0, s')
    \<and> load (frame + 4096) 4 (shm s') = drop 4092 bs"
proof -
  have sz: "unat (of_nat 4096 :: u64) = 4096" by simp
  let ?m = "store (frame + 4) (take (unat (of_nat 4096 :: u64)) bs) (writel (ucast (of_nat 4096 :: u64)) frame m1)"
  obtain i2 m2 where a: "write_advance (api W) (i1, ?m) = (0, i2, m2)" "\<forall>x \<ge> frame. m2 x = ?m x"
    using assms(3) by blast
  have "dce_ipc_send_message W t (Some bs) (of_nat 4096) s = Some (0, sent_state t frame i2 m2 s)"
    by (rule send_message_ok [OF assms(1,2) a(1)]) (use assms(4) in simp)
  moreover have "load (frame + 4096) 4 m2 = drop 4092 bs"
    using a(2) assms(4) by (intro nth_equalityI) (auto simp: load_def store_apply)
  moreover have "shm (sent_state t frame i2 m2 s) = m2" by (simp add: sent_state_def)
  ultimately show ?thesis by auto
qed

subsection \<open>A driver and its queues, for the witnesses\<close>

text \<open>
  A queue of one frame in each direction, whose state is its phase: 0 idle, 1 asked, 2 answered. The
  frames are behind the headers of the two queues of the resource manager's channel.
\<close>

definition demo_api :: "nat ivc_api" where
  "demo_api = \<lparr>ivc_init = (\<lambda>rx tx _ _ n f (i, m). (if ivc_accepts rx tx n f then 0 else - EINVAL, 0, m)), ivc_reset = (\<lambda>(i, m). (0, m)), ivc_notified = (\<lambda>im. (0, im)),
     write_get_next = (\<lambda>(i, m). (if i = 0 then Inr 20992 else Inl (- 105), i, m)), write_advance = (\<lambda>(i, m). (0, 1, m)),
     read_get_next = (\<lambda>(i, m). (if i = 2 then Inr 16768 else Inl (- 12), i, m)), read_advance = (\<lambda>(i, m). (0, 0, m))\<rparr>"

definition demo_ipc_world :: "nat ipc_world" where
  "demo_ipc_world = \<lparr>dce_w = demo_world, api = demo_api, iosys = False, ipc_others = (\<lambda>s. s),
     dma_alloc = (\<lambda>_. Some 0x80000000), boot_wait = (\<lambda>_. 0), msg_alloc = True\<rparr>"

definition demo_ipc :: "nat dce_ipc" where
  "demo_ipc = \<lparr>dce = demo_dce, ivc_channels = static_channels 0, d_ch = (\<lambda>_. False), region_base = False, region_iova = 0,
     region_size = 0, region_live = False, s_offset = 0, shm = (\<lambda>_. 0), mb_signals = (\<lambda>_. None), notify_data = (\<lambda>_. None),
     client_handles = (\<lambda>_. \<lparr>cl_valid = False, cl_data = 0, cl_type = 0, cl_handle = 0, cl_int_type = 0, cl_d = False,
       recv_wait = False, cl_complete = False, callback_fn = None\<rparr>),
     d_clients = (\<lambda>_. None), work_in_use = (\<lambda>_. False), work_queue = [], delivered = []\<rparr>"

text \<open>The resource manager's channel in use.\<close>

definition demo_open :: "nat dce_ipc" where
  "demo_open = upd_ch 1 (\<lambda>c. c\<lparr>ch_d := True, ch_lock := Mutex_free, sig_ch := True, sig_notify := True\<rparr>)
     (demo_ipc\<lparr>d_ch := (\<lambda>t. t = 1)\<rparr>)"

lemma demo_open_ready: "ch_ready 1 demo_open"
  by (simp add: ch_ready_def demo_open_def demo_ipc_def Let_def static_channels_def static_channel_def static_signal_def
    demo_dce_def demo_mb_def DCE_BIT_def bit_simps)

lemma demo_init_ok:
  "before_init demo_ipc" "dma_alloc demo_ipc_world n = Some 0x80000000"
  "ivc_init_documented demo_ipc_world"
  by (auto simp: before_init_def demo_ipc_def demo_dce_def demo_ipc_world_def demo_api_def ivc_init_documented_def)


theorem dce_reinit_signal_endless_witness:
  "\<exists>s1 s2 s3. dce_ipc_channel_init demo_ipc_world 1 (demo_ipc\<lparr>region_base := True\<rparr>) = Some (0, s1)
    \<and> dce_ipc_channel_deinit 1 s1 = Some s2 \<and> dce_ipc_channel_init demo_ipc_world 1 s2 = Some (0, s3)
    \<and> dce_ipc_mbox_handle_signal demo_ipc_world (notify_data s3 2) s3 = None"
proof -
  let ?s = "demo_ipc\<lparr>region_base := True\<rparr>"
  have c: "ivc_channels ?s 1 = static_channel 1 2 1 0 1 4096 0" by (simp add: demo_ipc_def static_channels_def)
  have "mb_signals ?s 0 = None" "hsp_id (dce ?s) = 0" "region_base ?s" by (simp_all add: demo_ipc_def demo_dce_def)
  moreover have "queue_size (q_info (ivc_channels ?s 1)) = Some 4224"
    unfolding c by (simp add: static_channel_simps queue_size_evals)
  moreover have i: "init_succeeds demo_ipc_world 1 ?s 4224" "init_succeeds demo_ipc_world 1 (?s\<lparr>s_offset := s_offset ?s + 2 * 4224\<rparr>) 4224"
    using c demo_init_ok(3) by (simp_all add: init_succeeds_def ivc_init_documented_def ivc_accepts_def static_channel_simps size_evals demo_ipc_def)
  ultimately show ?thesis
    using dce_reinit_signal_endless [OF _ c, of 4224 demo_ipc_world] i by auto
qed

theorem dce_max_message_overruns_frame_witness:
  "\<exists>s'. dce_ipc_send_message demo_ipc_world 1 (Some (replicate 4096 7)) (of_nat 4096) demo_open = Some (0, s')
    \<and> load (20992 + 4096) 4 (shm s') = [7, 7, 7, 7]"
proof -
  have r: "drop 4092 (replicate 4096 7) = [7, 7, 7, 7 :: u8]" by (simp add: numeral_eq_Suc)
  have w: "write_get_next (api demo_ipc_world) (d_ivc (ivc_channels demo_open 1), shm demo_open) = (Inr 20992, 0, \<lambda>_. 0)"
    by (simp add: demo_ipc_world_def demo_api_def demo_open_def demo_ipc_def static_channels_def static_channel_def)
  show ?thesis
    using dce_max_message_overruns_frame [OF demo_open_ready w, of "replicate 4096 7"]
    unfolding r by (auto simp: demo_ipc_world_def demo_api_def)
qed

end
