(* ===== verification/Dce_Client.thy ===== *)
theory Dce_Client
  imports Dce_Channels
begin

text \<open>
  The clients of the display controller engine driver (\<open>dce-client-ipc.c\<close>): handles, registration, calls and
  asynchronous events. A handle is the index of a slot of \<open>client_handles\<close> with bit 31 set. A callback and its data are
  known by a number; \<open>delivered\<close> is the log of the calls. \<open>boot_wait\<close> is the result of the wait for the end of the
  boot, \<open>msg_alloc\<close> that of the allocation of the event buffer.
\<close>

abbreviation (input) DCE_CLIENT_IPC_HANDLE_INVALID :: u32 where "DCE_CLIENT_IPC_HANDLE_INVALID \<equiv> 0"

subsection \<open>Handles\<close>

definition client_handle_to_index :: "u32 \<Rightarrow> nat" where
  "client_handle_to_index handle = unat (handle AND NOT (DCE_BIT 31))"

definition is_client_handle_valid :: "u32 \<Rightarrow> bool" where
  "is_client_handle_valid handle \<longleftrightarrow> bit handle 31 \<and> client_handle_to_index handle < DCE_CLIENT_IPC_TYPE_MAX"

text \<open>The slot of a handle; whether the slot is in use is not checked.\<close>

definition dce_client_ipc_lookup_handle :: "u32 \<Rightarrow> nat option" where
  "dce_client_ipc_lookup_handle handle =
     (if is_client_handle_valid handle then Some (client_handle_to_index handle) else None)"

definition dce_client_ipc_handle_alloc :: "'i dce_ipc \<Rightarrow> (int \<times> u32) \<times> 'i dce_ipc" where
  "dce_client_ipc_handle_alloc s =
     (case find (\<lambda>i. \<not> cl_valid (client_handles s i)) [0..<DCE_CLIENT_IPC_TYPE_MAX] of
        None \<Rightarrow> ((- 1, DCE_CLIENT_IPC_HANDLE_INVALID), s)
      | Some i \<Rightarrow> ((0, word_of_nat i OR DCE_BIT 31), upd_client i (\<lambda>cl. cl\<lparr>cl_valid := True\<rparr>) s))"

definition zero_client :: tegra_dce_client_ipc where
  "zero_client = \<lparr>cl_valid = False, cl_data = 0, cl_type = 0, cl_handle = 0, cl_int_type = 0, cl_d = False,
     recv_wait = False, cl_complete = False, callback_fn = None\<rparr>"

definition dce_client_ipc_handle_free :: "u32 \<Rightarrow> 'i dce_ipc \<Rightarrow> (int \<times> 'i dce_ipc) option" where
  "dce_client_ipc_handle_free handle s =
     (if \<not> is_client_handle_valid handle then Some (- EINVAL, s)
      else
        let c = client_handle_to_index handle; cl = client_handles s c
        in if \<not> cl_valid cl then Some (- EINVAL, s)
           else if \<not> cl_d cl \<or> cl_type cl \<ge> DCE_CLIENT_IPC_TYPE_MAX then None
           else Some (0, (upd_client c (\<lambda>_. zero_client) s)\<lparr>d_clients := (d_clients s)(cl_type cl := None)\<rparr>))"

text \<open>\<open>dce_cond_init\<close> cannot fail; its result is tested all the same.\<close>

definition dce_cond_init :: "nat \<Rightarrow> 'i dce_ipc \<Rightarrow> int \<times> 'i dce_ipc" where
  "dce_cond_init c s = (0, upd_client c (\<lambda>cl. cl\<lparr>recv_wait := True\<rparr>) s)"

text \<open>Leave the registration: after an error the handle is given back.\<close>

definition register_out :: "int \<Rightarrow> u32 \<Rightarrow> 'i dce_ipc \<Rightarrow> (int \<times> u32 option \<times> 'i dce_ipc) option" where
  "register_out ret handle s =
     (if ret \<noteq> 0
      then do { (_, s) \<leftarrow> dce_client_ipc_handle_free handle s; Some (ret, Some DCE_CLIENT_IPC_HANDLE_INVALID, s) }
      else Some (ret, Some handle, s))"

definition tegra_dce_register_ipc_client ::
  "'i ipc_world \<Rightarrow> nat \<Rightarrow> nat option \<Rightarrow> nat \<Rightarrow> bool \<Rightarrow> 'i dce_ipc \<Rightarrow> (int \<times> u32 option \<times> 'i dce_ipc) option" where
  "tegra_dce_register_ipc_client W type callback cdata has_handlep s =
     (if \<not> has_handlep then Some (- EINVAL, None, s)
      else if type \<ge> DCE_CLIENT_IPC_TYPE_MAX then Some (- EINVAL, None, s)
      else do {
        let int_type = dce_interface_type_map ! type;
        (d, s) \<leftarrow> dce_ipc_get_dce_from_ch int_type s;
        if \<not> d then register_out (- EINVAL) DCE_CLIENT_IPC_HANDLE_INVALID s
        else if boot_wait W (dce s) \<noteq> 0 then register_out (boot_wait W (dce s)) DCE_CLIENT_IPC_HANDLE_INVALID s
        else case dce_client_ipc_handle_alloc s of ((ret, handle), s) \<Rightarrow>
          if ret \<noteq> 0 then register_out ret handle s
          else
            let c = client_handle_to_index handle;
                s = upd_client c (\<lambda>cl. cl\<lparr>cl_d := True, cl_type := type, cl_data := cdata, cl_handle := handle,
                      cl_int_type := int_type, callback_fn := callback, cl_complete := False\<rparr>) s
            in case dce_cond_init c s of (ret, s) \<Rightarrow>
               if ret \<noteq> 0 then register_out ret handle s
               else register_out 0 handle (s\<lparr>d_clients := (d_clients s)(type := Some c)\<rparr>)
      })"

definition tegra_dce_unregister_ipc_client :: "u32 \<Rightarrow> 'i dce_ipc \<Rightarrow> (int \<times> 'i dce_ipc) option" where
  "tegra_dce_unregister_ipc_client handle s =
     (case dce_client_ipc_lookup_handle handle of
        None \<Rightarrow> Some (- EINVAL, s)
      | Some c \<Rightarrow> dce_client_ipc_handle_free handle (upd_client c (\<lambda>cl. cl\<lparr>recv_wait := False\<rparr>) s))"

definition tegra_dce_client_ipc_send_recv ::
  "'i ipc_world \<Rightarrow> u32 \<Rightarrow> dce_ipc_message option \<Rightarrow> 'i dce_ipc \<Rightarrow> (int \<times> dce_ipc_message option \<times> 'i dce_ipc) option" where
  "tegra_dce_client_ipc_send_recv W handle msg s =
     (case msg of
        None \<Rightarrow> Some (- 1, None, s)
      | Some m \<Rightarrow> case dce_client_ipc_lookup_handle handle of
          None \<Rightarrow> Some (- 1, msg, s)
        | Some c \<Rightarrow>
            if \<not> cl_d (client_handles s c) then None
            else do {
              (ret, m, s) \<leftarrow> dce_ipc_send_message_sync W (cl_int_type (client_handles s c)) m s;
              Some (ret, Some m, s)
            })"

subsection \<open>Asynchronous events\<close>

definition dce_client_init :: "'i dce_ipc \<Rightarrow> int \<times> 'i dce_ipc" where
  "dce_client_init s = (0, s\<lparr>work_queue := [],
     work_in_use := (\<lambda>i. if i < DCE_MAX_ASYNC_WORK then False else work_in_use s i)\<rparr>)"

text \<open>
  The events in the queue are read into one buffer and passed to the callback, with the size of the buffer as the
  length of each.
\<close>

partial_function (option) event_loop ::
  "'i ipc_world \<Rightarrow> tegra_dce_client_ipc \<Rightarrow> nat \<Rightarrow> u8 list option \<Rightarrow> 'i dce_ipc \<Rightarrow> 'i dce_ipc option" where
  "event_loop W cl cb buf s =
     Option.bind (dce_ipc_is_data_available W (cl_int_type cl) s)
       (\<lambda>(more, s). if \<not> more then Some s
         else Option.bind (dce_ipc_read_message W (cl_int_type cl) buf (of_nat DCE_CLIENT_MAX_IPC_MSG_SIZE) s)
           (\<lambda>(ret, buf, s). if ret \<noteq> 0 then Some s
             else event_loop W cl cb buf (s\<lparr>delivered := (cb, cl_handle cl, cl_type cl, of_nat DCE_CLIENT_MAX_IPC_MSG_SIZE,
                    case buf of None \<Rightarrow> [] | Some bs \<Rightarrow> bs, cl_data cl) # delivered s\<rparr>)))"

definition dce_client_process_event_ipc :: "'i ipc_world \<Rightarrow> nat option \<Rightarrow> 'i dce_ipc \<Rightarrow> 'i dce_ipc option" where
  "dce_client_process_event_ipc W c s =
     (case c of
        None \<Rightarrow> Some s
      | Some c \<Rightarrow>
        let cl = client_handles s c
        in case callback_fn cl of
             None \<Rightarrow> Some s
           | Some cb \<Rightarrow>
               if cl_type cl \<noteq> DCE_CLIENT_IPC_TYPE_RM_EVENT then Some s
               else if \<not> msg_alloc W then Some s
               else event_loop W cl cb (Some (replicate DCE_CLIENT_MAX_IPC_MSG_SIZE 0)) s)"

definition dce_client_async_event_work :: "'i ipc_world \<Rightarrow> nat \<Rightarrow> 'i dce_ipc \<Rightarrow> 'i dce_ipc option" where
  "dce_client_async_event_work W i s = do {
     s \<leftarrow> dce_client_process_event_ipc W (d_clients s DCE_CLIENT_IPC_TYPE_RM_EVENT) s;
     Some (s\<lparr>work_in_use := (work_in_use s)(i := False)\<rparr>)
   }"

text \<open>Flushing the queue runs the work items in order.\<close>

fun flush_work :: "'i ipc_world \<Rightarrow> nat list \<Rightarrow> 'i dce_ipc \<Rightarrow> 'i dce_ipc option" where
  "flush_work W [] s = Some s"
| "flush_work W (i # is) s = do {
     s \<leftarrow> dce_client_async_event_work W i (s\<lparr>work_queue := is\<rparr>);
     flush_work W is s
   }"

definition dce_client_deinit :: "'i ipc_world \<Rightarrow> 'i dce_ipc \<Rightarrow> 'i dce_ipc option" where
  "dce_client_deinit W s = flush_work W (work_queue s) s"

subsection \<open>Lemmas: calls\<close>

lemma enter_ready:
  "ch_ready t s \<Longrightarrow> enter_ch t s = Some (upd_ch t (\<lambda>c. c\<lparr>ch_lock := Mutex_held\<rparr>) s)"
  by (simp add: enter_ch_def the_ch_def ch_mutex_lock_def ch_ready_def Let_def)

lemma read_message_ok:
  assumes r: "ch_ready t s" and io: "\<not> iosys W"
    and g: "read_get_next (api W) (d_ivc (ivc_channels s t), shm s) = (Inr frame, i1, m1)"
    and a: "read_advance (api W) (i1, m1) = (0, i2, m2)" and l: "unat (readl m1 frame) \<le> length buf"
  shows "dce_ipc_read_message W t (Some buf) sz s = Some (0,
      Some (load (frame + 4) (unat (readl m1 frame)) m1 @ drop (unat (readl m1 frame)) buf),
      (upd_ch t (\<lambda>c. c\<lparr>ibuff := Some (frame + 4), d_ivc := i2\<rparr>) s)\<lparr>shm := m2\<rparr>)"
  using assms
  by (auto simp: dce_ipc_read_message_def enter_ready dce_ipc_get_next_read_buff_def on_ivc_def
      dce_ipc_read_channel_def copied_in_def Let_def ch_mutex_unlock_def upd_ch_def ch_ready_def fun_eq_iff
      intro!: dce_ipc.equality dce_ipc_channel.equality)

text \<open>With \<open>struct iosys_map\<close> the size that the caller gave is copied, whatever the length of the message.\<close>

lemma read_message_iosys:
  assumes r: "ch_ready t s" and io: "iosys W"
    and g: "read_get_next (api W) (d_ivc (ivc_channels s t), shm s) = (Inr frame, i1, m1)"
    and a: "read_advance (api W) (i1, writel (ucast sz) frame m1) = (0, i2, m2)" and l: "unat sz \<le> length buf"
  shows "dce_ipc_read_message W t (Some buf) sz s = Some (0,
      Some (load (frame + 4) (unat sz) (writel (ucast sz) frame m1) @ drop (unat sz) buf),
      (upd_ch t (\<lambda>c. c\<lparr>ibuff := Some (frame + 4), d_ivc := i2\<rparr>) s)\<lparr>shm := m2\<rparr>)"
  using assms
  by (auto simp: dce_ipc_read_message_def enter_ready dce_ipc_get_next_read_buff_def on_ivc_def
      dce_ipc_read_channel_def copied_in_def Let_def ch_mutex_unlock_def upd_ch_def ch_ready_def fun_eq_iff
      intro!: dce_ipc.equality dce_ipc_channel.equality)

text \<open>The length comes from the frame and is not compared with the buffer: a longer one is copied beyond its end.\<close>

lemma read_message_overruns_buffer:
  assumes "ch_ready t s" "\<not> iosys W" "read_get_next (api W) (d_ivc (ivc_channels s t), shm s) = (Inr frame, i1, m1)"
    and "length buf < unat (readl m1 frame)"
  shows "dce_ipc_read_message W t (Some buf) sz s = None"
  using assms
  by (auto simp: dce_ipc_read_message_def enter_ready dce_ipc_get_next_read_buff_def on_ivc_def
      dce_ipc_read_channel_def copied_in_def Let_def upd_ch_def ch_ready_def)

text \<open>A client of a channel that can be called.\<close>

definition client_ready :: "u32 \<Rightarrow> nat \<Rightarrow> nat \<Rightarrow> 'i dce_ipc \<Rightarrow> bool" where
  "client_ready handle c t s \<longleftrightarrow> dce_client_ipc_lookup_handle handle = Some c \<and> cl_d (client_handles s c)
     \<and> cl_int_type (client_handles s c) = t \<and> \<not> cl_complete (client_handles s c)
     \<and> 0 < t \<and> t < DCE_IPC_CH_KMD_TYPE_MAX \<and> d_clients s (dce_client_get_type t) = Some c"

text \<open>
  A queue that holds one message: idle, asked by the CPU, answered by the firmware. While the client waits the firmware
  reads the message of the frame \<open>ftx\<close>, writes its reply to the frame \<open>frx\<close> and signals.
\<close>

definition rpc_service :: "'i ipc_world \<Rightarrow> nat \<Rightarrow> nat \<Rightarrow> (u8 list \<Rightarrow> u8 list) \<Rightarrow> 'i \<Rightarrow> 'i \<Rightarrow> 'i \<Rightarrow> nat \<Rightarrow> nat \<Rightarrow> bool" where
  "rpc_service W t c reply idle asked answered ftx frx \<longleftrightarrow>
     (\<forall>m. write_get_next (api W) (idle, m) = (Inr ftx, idle, m)) \<and> (\<forall>m. write_advance (api W) (idle, m) = (0, asked, m))
     \<and> (\<forall>s. d_ivc (ivc_channels s t) = asked \<longrightarrow>
          (let r = reply (load (ftx + 4) (unat (readl (shm s) ftx)) (shm s))
           in ipc_others W s = (upd_client c (\<lambda>cl. cl\<lparr>cl_complete := True\<rparr>) (upd_ch t (\<lambda>c. c\<lparr>d_ivc := answered\<rparr>) s))
                \<lparr>shm := store (frx + 4) r (writel (word_of_nat (length r)) frx (shm s))\<rparr>))
     \<and> (\<forall>m. read_get_next (api W) (answered, m) = (Inr frx, answered, m))
     \<and> (\<forall>m. read_advance (api W) (answered, m) = (0, idle, m))"

lemma upd_client_simps [simp]:
  "ivc_channels (upd_client c f s) = ivc_channels s" "dce (upd_client c f s) = dce s" "d_ch (upd_client c f s) = d_ch s"
  "shm (upd_client c f s) = shm s" "d_clients (upd_client c f s) = d_clients s"
  "client_handles (upd_client c f s) = (client_handles s)(c := f (client_handles s c))"
  by (simp_all add: upd_client_def)

lemma readl_message: "readl (store (f + 4) q (writel v f m)) f = v"
proof -
  have "readl (store (f + 4) q (writel v f m)) f = readl (writel v f m) f" by (simp add: readl_def store_apply)
  then show ?thesis by (simp add: readl_writel_same)
qed

lemma load_prefix:
  assumes "load (f + 4) (length a) m = a"
  shows "take (length a) (load (f + 4) n (writel v f m)) = take n a"
proof (rule nth_equalityI)
  have len: "length (load p k mm) = k" for p k and mm :: mem by (simp add: load_def)
  show l: "length (take (length a) (load (f + 4) n (writel v f m))) = length (take n a)" by (simp add: len)
  fix i assume "i < length (take (length a) (load (f + 4) n (writel v f m)))"
  then have i: "i < n" "i < length a" by (simp_all add: len)
  have "a ! i = load (f + 4) (length a) m ! i" using assms by simp
  then have "a ! i = m (f + 4 + i)" using i by (simp add: load_def)
  moreover have "writel v f m (f + 4 + i) = m (f + 4 + i)" by (simp add: writel_def store_apply)
  ultimately show "take (length a) (load (f + 4) n (writel v f m)) ! i = take n a ! i"
    using i by (simp add: load_def)
qed

lemma load_message: "n = length q \<Longrightarrow> load (f + 4) n (store (f + 4) q m) = q"
  by (simp add: load_store_same)

lemma wait_client_ok:
  assumes r: "ch_ready t s" and cl: "client_ready handle c t s"
    and o: "\<And>s'. s' = upd_ch t (\<lambda>c. c\<lparr>w_type := wt\<rparr>) s \<Longrightarrow>
      ipc_others W s' = (upd_client c (\<lambda>cl. cl\<lparr>cl_complete := True\<rparr>) (upd_ch t (\<lambda>c. c\<lparr>d_ivc := i\<rparr>) s'))\<lparr>shm := m\<rparr>"
  shows "dce_ipc_wait W wt t (upd_ch t (\<lambda>c. c\<lparr>ch_lock := Mutex_held\<rparr>) s) = Some (0,
      (upd_ch t (\<lambda>c. c\<lparr>ch_lock := Mutex_held, w_type := DCE_IPC_WAIT_TYPE_INVALID, d_ivc := i\<rparr>) s)\<lparr>shm := m\<rparr>)"
proof -
  let ?s = "upd_ch t (\<lambda>c. c\<lparr>w_type := wt\<rparr>) s"
  let ?s' = "(upd_client c (\<lambda>cl. cl\<lparr>cl_complete := True\<rparr>) (upd_ch t (\<lambda>c. c\<lparr>d_ivc := i\<rparr>) ?s))\<lparr>shm := m\<rparr>"
  have c: "cl_int_type (client_handles s c) = t" "\<not> cl_complete (client_handles s c)" "0 < t" "t < 4"
      "d_clients s (dce_client_get_type t) = Some c"
    using cl by (simp_all add: client_ready_def)
  have u: "ch_mutex_unlock t (upd_ch t (\<lambda>c. c\<lparr>w_type := wt\<rparr>) (upd_ch t (\<lambda>c. c\<lparr>ch_lock := Mutex_held\<rparr>) s)) = ?s"
    using r by (auto simp: ch_mutex_unlock_def upd_ch_def ch_ready_def Let_def fun_eq_iff intro!: dce_ipc.equality dce_ipc_channel.equality)
  have "client_wait_loop W c ?s = client_wait_loop W c ?s'"
    by (subst client_wait_loop.simps) (use c o [OF refl] in simp)
  also have "\<dots> = Some ?s'" by (subst client_wait_loop.simps) simp
  finally have loop: "client_wait_loop W c ?s = Some ?s'" .
  have "dce_client_get_type t < 3"
    using c(3,4) by (auto simp: dce_client_get_type_def dce_interface_type_map_def less_Suc_eq numeral_eq_Suc)
  then have "dce_client_ipc_wait W t ?s = Some (0, upd_client c (\<lambda>cl. cl\<lparr>cl_complete := False\<rparr>) ?s')"
    using c loop by (simp add: dce_client_ipc_wait_def Let_def)
  moreover have "\<not> t \<ge> 4" "d_ch s t" using r by (simp_all add: ch_ready_def Let_def)
  ultimately show ?thesis
    using c(2,3) r unfolding dce_ipc_wait_def Let_def u
    by (auto simp: ch_mutex_lock_def upd_ch_def upd_client_def ch_ready_def Let_def fun_eq_iff
      intro!: dce_ipc.equality dce_ipc_channel.equality tegra_dce_client_ipc.equality)
qed

text \<open>A call up to the point where the reply is read: the request is sent, and the firmware has put its answer in the queue.\<close>

lemma call_reads_reply:
  fixes W :: "'i ipc_world" and s :: "'i dce_ipc"
  assumes sv: "rpc_service W t c reply idle asked answered ftx frx"
    and r: "ch_ready t s" "d_ivc (ivc_channels s t) = idle" and cl: "client_ready handle c t s"
    and tx: "tx_data msg = Some bs" "unat (tx_size msg) \<le> length bs" "unat (tx_size msg) < 2 ^ 32"
    and len: "length (reply (take (unat (tx_size msg)) bs)) < 2 ^ 32"
  defines "a \<equiv> reply (take (unat (tx_size msg)) bs)"
  shows "\<exists>s2. ch_ready t s2 \<and> d_ivc (ivc_channels s2 t) = answered \<and> client_ready handle c t s2
    \<and> unat (readl (shm s2) frx) = length a \<and> load (frx + 4) (length a) (shm s2) = a
    \<and> tegra_dce_client_ipc_send_recv W handle (Some msg) s
      = (case dce_ipc_read_message W t (rx_data msg) (rx_size msg) s2 of None \<Rightarrow> None
         | Some (ret, data, s) \<Rightarrow> Some (ret, Some (msg\<lparr>rx_data := data\<rparr>), s))"
proof -
  define q where "q = take (unat (tx_size msg)) bs"
  define m1 where "m1 = store (ftx + 4) q (writel (ucast (tx_size msg)) ftx (shm s))"
  define s1 where "s1 = sent_state t ftx asked m1 s"
  have w: "write_get_next (api W) (d_ivc (ivc_channels s t), shm s) = (Inr ftx, idle, shm s)"
    "write_advance (api W) (idle, m1) = (0, asked, m1)" using sv r(2) by (simp_all add: rpc_service_def)
  have send: "dce_ipc_send_message W t (tx_data msg) (tx_size msg) s = Some (0, s1)"
    unfolding s1_def tx(1) by (rule send_message_ok [OF r(1) w(1) _ tx(2)]) (use w(2) in \<open>simp add: m1_def q_def\<close>)
  have s1: "ch_ready t s1" "d_ivc (ivc_channels s1 t) = asked" "shm s1 = m1" "client_handles s1 = client_handles s"
    "d_clients s1 = d_clients s"
    using r(1) by (auto simp: s1_def sent_state_def ch_ready_def Let_def)
  have hdr: "unat (readl m1 ftx) = unat (tx_size msg)"
    using tx(3) by (simp add: m1_def readl_message unsigned_ucast_eq take_bit_nat_eq_self)
  have ld: "load (ftx + 4) (unat (readl m1 ftx)) m1 = q"
    unfolding hdr by (simp add: m1_def load_message q_def tx(2))
  have aq: "a = reply q" by (simp add: a_def q_def)
  define m2 where "m2 = store (frx + 4) a (writel (word_of_nat (length a)) frx m1)"
  define s2 where "s2 = (upd_ch t (\<lambda>c. c\<lparr>w_type := DCE_IPC_WAIT_TYPE_INVALID, d_ivc := answered\<rparr>) s1)\<lparr>shm := m2\<rparr>"
  have cl1: "client_ready handle c t s1" using cl s1(4,5) by (simp add: client_ready_def)
  have wait: "dce_ipc_wait W DCE_IPC_WAIT_TYPE_RPC t (upd_ch t (\<lambda>c. c\<lparr>ch_lock := Mutex_held\<rparr>) s1) = Some (0,
      (upd_ch t (\<lambda>c. c\<lparr>ch_lock := Mutex_held, w_type := DCE_IPC_WAIT_TYPE_INVALID, d_ivc := answered\<rparr>) s1)\<lparr>shm := m2\<rparr>)"
    by (rule wait_client_ok [OF s1(1) cl1])
       (use sv s1(2,3) in \<open>simp add: rpc_service_def Let_def ld aq [symmetric] m2_def\<close>)
  have unlock: "ch_mutex_unlock t ((upd_ch t (\<lambda>c. c\<lparr>ch_lock := Mutex_held, w_type := DCE_IPC_WAIT_TYPE_INVALID,
      d_ivc := answered\<rparr>) s1)\<lparr>shm := m2\<rparr>) = s2"
    using s1(1) by (auto simp: s2_def ch_mutex_unlock_def upd_ch_def ch_ready_def Let_def fun_eq_iff
      intro!: dce_ipc.equality dce_ipc_channel.equality)
  have s2: "ch_ready t s2" "d_ivc (ivc_channels s2 t) = answered" "shm s2 = m2" "client_ready handle c t s2"
    using s1(1) cl1 by (auto simp: s2_def ch_ready_def Let_def client_ready_def)
  have n: "unat (readl m2 frx) = length a" using len by (simp add: m2_def readl_message unat_of_nat take_bit_nat_eq_self a_def)
  have lda: "load (frx + 4) (length a) m2 = a" by (simp add: m2_def load_message)
  have sync: "dce_ipc_send_message_sync W t msg s = (case dce_ipc_read_message W t (rx_data msg) (rx_size msg) s2 of
      None \<Rightarrow> None | Some (ret, data, s) \<Rightarrow> Some (ret, msg\<lparr>rx_data := data\<rparr>, s))"
    by (simp add: dce_ipc_send_message_sync_def send enter_ready [OF s1(1)] wait unlock split: option.splits prod.splits)
  have "tegra_dce_client_ipc_send_recv W handle (Some msg) s = (case dce_ipc_send_message_sync W t msg s of
      None \<Rightarrow> None | Some (ret, msg, s) \<Rightarrow> Some (ret, Some msg, s))"
    using cl by (auto simp: tegra_dce_client_ipc_send_recv_def client_ready_def split: option.splits prod.splits)
  then show ?thesis
    using s2 n lda by (intro exI [of _ s2]) (auto simp: sync split: option.splits)
qed

text \<open>
  C27. What a call of a client gives, against a firmware that answers. Before Linux 6.2, where the length is taken from the
  reply, a reply that fits the buffer makes the call return 0 with exactly the bytes of the reply, the rest of the buffer as it was; a longer one
  is copied beyond the buffer (undefined, a finding). With \<open>struct iosys_map\<close> (6.2 and later) the call returns 0 with as many
  bytes as the caller asked for, of which the first are the reply. When the call returns, the channel, the queue and the client are ready
  for the next call. The size asked for is at most that of the buffer.
\<close>

theorem dce_client_call_answered:
  fixes W :: "'i ipc_world" and s :: "'i dce_ipc"
  assumes sv: "rpc_service W t c reply idle asked answered ftx frx"
    and r: "ch_ready t s" "d_ivc (ivc_channels s t) = idle" and cl: "client_ready handle c t s"
    and tx: "tx_data msg = Some bs" "unat (tx_size msg) \<le> length bs" "unat (tx_size msg) < 2 ^ 32"
    and rx: "rx_data msg = Some buf" "unat (rx_size msg) \<le> length buf"
    and len: "length (reply (take (unat (tx_size msg)) bs)) < 2 ^ 32"
  defines "a \<equiv> reply (take (unat (tx_size msg)) bs)"
  shows "if \<not> iosys W \<and> length buf < length a then tegra_dce_client_ipc_send_recv W handle (Some msg) s = None
    else \<exists>s' got. tegra_dce_client_ipc_send_recv W handle (Some msg) s
        = Some (0, Some (msg\<lparr>rx_data := Some (got @ drop (length got) buf)\<rparr>), s')
      \<and> (if iosys W then length got = unat (rx_size msg) \<and> take (length a) got = take (unat (rx_size msg)) a else got = a)
      \<and> ch_ready t s' \<and> d_ivc (ivc_channels s' t) = idle \<and> client_ready handle c t s'"
proof -
  obtain s2 where s2: "ch_ready t s2" "d_ivc (ivc_channels s2 t) = answered" "client_ready handle c t s2"
    and n: "unat (readl (shm s2) frx) = length a" and lda: "load (frx + 4) (length a) (shm s2) = a"
    and call: "tegra_dce_client_ipc_send_recv W handle (Some msg) s
      = (case dce_ipc_read_message W t (rx_data msg) (rx_size msg) s2 of None \<Rightarrow> None
         | Some (ret, data, s) \<Rightarrow> Some (ret, Some (msg\<lparr>rx_data := data\<rparr>), s))"
    using call_reads_reply [OF sv r cl tx len] unfolding a_def by blast
  define m2 where "m2 = shm s2"
  have svr: "\<And>m. read_get_next (api W) (answered, m) = (Inr frx, answered, m)" "\<And>m. read_advance (api W) (answered, m) = (0, idle, m)"
    using sv by (simp_all add: rpc_service_def)
  let ?s3 = "\<lambda>m. (upd_ch t (\<lambda>c. c\<lparr>ibuff := Some (frx + 4), d_ivc := idle\<rparr>) s2)\<lparr>shm := m\<rparr>"
  have s3: "ch_ready t (?s3 m)" "d_ivc (ivc_channels (?s3 m) t) = idle" "client_ready handle c t (?s3 m)" for m
    using s2(1,3) by (auto simp: ch_ready_def Let_def client_ready_def)
  consider (io) "iosys W" | (over) "\<not> iosys W" "length buf < length a" | (fits) "\<not> iosys W" "length a \<le> length buf"
    by linarith
  then show ?thesis
  proof cases
    case io
    let ?n = "unat (rx_size msg)" and ?m = "writel (ucast (rx_size msg)) frx m2"
    define got where "got = load (frx + 4) ?n ?m"
    have read: "dce_ipc_read_message W t (rx_data msg) (rx_size msg) s2 = Some (0, Some (got @ drop ?n buf), ?s3 ?m)"
      unfolding rx(1) got_def by (rule read_message_iosys [OF s2(1) io, of frx answered m2]) (simp_all add: s2(2) m2_def svr rx(2))
    have "take (length a) got = take ?n a"
      unfolding got_def by (rule load_prefix [OF lda [folded m2_def]])
    moreover have "length got = ?n" by (simp add: got_def load_def)
    ultimately show ?thesis
      using io s3 read by (simp add: call) (metis (no_types))
  next
    case over
    have "dce_ipc_read_message W t (rx_data msg) (rx_size msg) s2 = None"
      unfolding rx(1) by (rule read_message_overruns_buffer [OF s2(1) over(1), of frx answered m2]) (simp_all add: s2(2) m2_def svr n over(2))
    with over show ?thesis by (simp add: call)
  next
    case fits
    have "dce_ipc_read_message W t (rx_data msg) (rx_size msg) s2 = Some (0, Some (a @ drop (length a) buf), ?s3 m2)"
      unfolding rx(1) using read_message_ok [OF s2(1) fits(1), of frx answered m2 idle m2 buf] s2(2) svr n lda fits(2) m2_def by simp
    with fits s3 show ?thesis by (auto simp: call not_less)
  qed
qed

subsection \<open>Lemmas: registration\<close>

definition handle_of :: "nat \<Rightarrow> u32" where
  "handle_of c = word_of_nat c OR DCE_BIT 31"

lemma handle_of_index:
  assumes "c < 3"
  shows "client_handle_to_index (handle_of c) = c" "is_client_handle_valid (handle_of c)"
    "dce_client_ipc_lookup_handle (handle_of c) = Some c"
proof -
  have "c = 0 \<or> c = 1 \<or> c = 2" using assms by arith
  then have i: "client_handle_to_index (handle_of c) = c"
    by (elim disjE) (simp_all add: client_handle_to_index_def handle_of_def DCE_BIT_def)
  moreover have "bit (handle_of c) 31" by (simp add: handle_of_def DCE_BIT_def bit_or_iff)
  ultimately show "client_handle_to_index (handle_of c) = c" "is_client_handle_valid (handle_of c)"
    "dce_client_ipc_lookup_handle (handle_of c) = Some c"
    using assms by (simp_all add: is_client_handle_valid_def dce_client_ipc_lookup_handle_def)
qed

text \<open>The driver after a client has got the slot \<open>c\<close>.\<close>

definition new_client :: "nat \<Rightarrow> nat option \<Rightarrow> nat \<Rightarrow> nat \<Rightarrow> tegra_dce_client_ipc" where
  "new_client type callback cdata c = \<lparr>cl_valid = True, cl_data = cdata, cl_type = type, cl_handle = handle_of c,
     cl_int_type = dce_interface_type_map ! type, cl_d = True, recv_wait = True, cl_complete = False, callback_fn = callback\<rparr>"

definition registered :: "nat \<Rightarrow> nat option \<Rightarrow> nat \<Rightarrow> nat \<Rightarrow> 'i dce_ipc \<Rightarrow> 'i dce_ipc" where
  "registered type callback cdata c s = s\<lparr>client_handles := (client_handles s)(c := new_client type callback cdata c),
     d_clients := (d_clients s)(type := Some c)\<rparr>"

text \<open>The first slot that is not in use.\<close>

definition free_slot :: "'i dce_ipc \<Rightarrow> nat option" where
  "free_slot s = find (\<lambda>i. \<not> cl_valid (client_handles s i)) [0..<DCE_CLIENT_IPC_TYPE_MAX]"

lemma free_slot_Some: "free_slot s = Some c \<Longrightarrow> c < 3 \<and> \<not> cl_valid (client_handles s c)"
  unfolding free_slot_def by (auto simp: find_Some_iff)

definition channel_free :: "nat \<Rightarrow> 'i dce_ipc \<Rightarrow> bool" where
  "channel_free t s \<longleftrightarrow> ch_lock (ivc_channels s t) = Mutex_free"

lemma get_dce_from_ch_free:
  assumes "t < 4" "channel_free t s"
  shows "dce_ipc_get_dce_from_ch t s = Some (ch_d (ivc_channels s t), s)"
  using assms
  by (auto simp: dce_ipc_get_dce_from_ch_def channel_free_def ch_mutex_lock_def ch_mutex_unlock_def upd_ch_def fun_eq_iff
    intro!: dce_ipc.equality dce_ipc_channel.equality)

lemma type_map_less: "type < 3 \<Longrightarrow> dce_interface_type_map ! type < 4"
  by (auto simp: dce_interface_type_map_def less_Suc_eq numeral_eq_Suc)

lemma type_map_inverse: "type < 3 \<Longrightarrow> dce_client_get_type (dce_interface_type_map ! type) = type"
  by (auto simp: dce_client_get_type_def dce_interface_type_map_def less_Suc_eq numeral_eq_Suc)

text \<open>All outcomes of a registration of a type on a free channel.\<close>

lemma register_eq:
  fixes s :: "'i dce_ipc"
  assumes t: "type < DCE_CLIENT_IPC_TYPE_MAX" and f: "channel_free (dce_interface_type_map ! type) s"
  shows "tegra_dce_register_ipc_client W type callback cdata True s =
    (if \<not> ch_d (ivc_channels s (dce_interface_type_map ! type)) then Some (- EINVAL, Some 0, s)
     else if boot_wait W (dce s) \<noteq> 0 then Some (boot_wait W (dce s), Some 0, s)
     else case free_slot s of None \<Rightarrow> Some (- 1, Some 0, s)
       | Some c \<Rightarrow> Some (0, Some (handle_of c), registered type callback cdata c s))"
proof -
  have g: "dce_ipc_get_dce_from_ch (dce_interface_type_map ! type) s
      = Some (ch_d (ivc_channels s (dce_interface_type_map ! type)), s)"
    using get_dce_from_ch_free [OF type_map_less [OF t] f] .
  have z: "register_out ret 0 s = Some (ret, Some 0, s)" if "ret \<noteq> 0" for ret
    using that by (simp add: register_out_def dce_client_ipc_handle_free_def is_client_handle_valid_def)
  show ?thesis
  proof (cases "free_slot s")
    case None
    then show ?thesis using t g z
      by (simp add: tegra_dce_register_ipc_client_def Let_def dce_client_ipc_handle_alloc_def free_slot_def [symmetric])
  next
    case (Some c)
    note c = free_slot_Some [OF Some, THEN conjunct1]
    have "tegra_dce_register_ipc_client W type callback cdata True s = Some (0, Some (handle_of c), registered type callback cdata c s)"
      if "ch_d (ivc_channels s (dce_interface_type_map ! type))" "boot_wait W (dce s) = 0"
      using t g that Some handle_of_index [OF c]
      by (auto simp: tegra_dce_register_ipc_client_def Let_def dce_client_ipc_handle_alloc_def free_slot_def [symmetric]
        handle_of_def [symmetric] dce_cond_init_def register_out_def upd_client_def registered_def new_client_def fun_eq_iff
        intro!: dce_ipc.equality tegra_dce_client_ipc.equality)
    then show ?thesis using t g z Some
      by (simp add: tegra_dce_register_ipc_client_def Let_def)
  qed
qed

text \<open>
  The slots in use belong to the driver, to a type and to its channel, and the client of each type is a slot in use.
\<close>

definition clients_ok :: "'i dce_ipc \<Rightarrow> bool" where
  "clients_ok s \<longleftrightarrow>
     (\<forall>c < DCE_CLIENT_IPC_TYPE_MAX. cl_valid (client_handles s c) \<longrightarrow>
        cl_d (client_handles s c) \<and> cl_type (client_handles s c) < DCE_CLIENT_IPC_TYPE_MAX
        \<and> cl_handle (client_handles s c) = handle_of c
        \<and> cl_int_type (client_handles s c) = dce_interface_type_map ! cl_type (client_handles s c))
     \<and> (\<forall>type < DCE_CLIENT_IPC_TYPE_MAX. \<forall>c. d_clients s type = Some c \<longrightarrow>
        c < DCE_CLIENT_IPC_TYPE_MAX \<and> cl_valid (client_handles s c) \<and> cl_type (client_handles s c) = type)"

datatype client_op = Register nat "nat option" nat | Unregister u32

fun client_op_run :: "'i ipc_world \<Rightarrow> client_op \<Rightarrow> 'i dce_ipc \<Rightarrow> 'i dce_ipc option" where
  "client_op_run W (Register type callback cdata) s =
     map_option (\<lambda>(ret, handle, s). s) (tegra_dce_register_ipc_client W type callback cdata True s)"
| "client_op_run W (Unregister handle) s = map_option snd (tegra_dce_unregister_ipc_client handle s)"

fun client_ops_run :: "'i ipc_world \<Rightarrow> client_op list \<Rightarrow> 'i dce_ipc \<Rightarrow> 'i dce_ipc option" where
  "client_ops_run W [] s = Some s"
| "client_ops_run W (x # xs) s = Option.bind (client_op_run W x s) (client_ops_run W xs)"

lemma registered_ok:
  "clients_ok s \<Longrightarrow> c < DCE_CLIENT_IPC_TYPE_MAX \<Longrightarrow> \<not> cl_valid (client_handles s c) \<Longrightarrow> type < DCE_CLIENT_IPC_TYPE_MAX
    \<Longrightarrow> clients_ok (registered type callback cdata c s)"
  by (auto simp: clients_ok_def registered_def new_client_def)

text \<open>All outcomes of giving a handle back.\<close>

lemma unregister_eq:
  assumes "clients_ok s" "is_client_handle_valid handle" "cl_valid (client_handles s (client_handle_to_index handle))"
  shows "tegra_dce_unregister_ipc_client handle s = Some (0, s\<lparr>
      client_handles := (client_handles s)(client_handle_to_index handle := zero_client),
      d_clients := (d_clients s)(cl_type (client_handles s (client_handle_to_index handle)) := None)\<rparr>)"
proof -
  let ?c = "client_handle_to_index handle"
  have "?c < 3" using assms(2) by (simp add: is_client_handle_valid_def)
  then have "cl_d (client_handles s ?c)" "cl_type (client_handles s ?c) < 3"
    using assms(1,3) by (simp_all add: clients_ok_def)
  then show ?thesis using assms(2,3)
    by (auto simp: tegra_dce_unregister_ipc_client_def dce_client_ipc_lookup_handle_def dce_client_ipc_handle_free_def
      Let_def upd_client_def intro!: dce_ipc.equality)
qed

lemma clients_okD:
  assumes "clients_ok s" "c < DCE_CLIENT_IPC_TYPE_MAX" "cl_valid (client_handles s c)"
  shows "cl_d (client_handles s c)" "cl_type (client_handles s c) < DCE_CLIENT_IPC_TYPE_MAX"
    "cl_handle (client_handles s c) = handle_of c"
    "cl_int_type (client_handles s c) = dce_interface_type_map ! cl_type (client_handles s c)"
  using assms by (simp_all add: clients_ok_def)

lemma clients_ok_clientD:
  assumes "clients_ok s" "type < DCE_CLIENT_IPC_TYPE_MAX" "d_clients s type = Some c"
  shows "c < DCE_CLIENT_IPC_TYPE_MAX" "cl_valid (client_handles s c)" "cl_type (client_handles s c) = type"
  using assms by (simp_all add: clients_ok_def)

lemma freed_ok:
  assumes ok: "clients_ok s"
  shows "clients_ok (s\<lparr>client_handles := (client_handles s)(c := zero_client),
    d_clients := (d_clients s)(cl_type (client_handles s c) := None)\<rparr>)" (is "clients_ok ?s")
proof -
  have "c' \<noteq> c" if "cl_valid (client_handles ?s c')" for c' using that by (cases "c' = c") (simp_all add: zero_client_def)
  then have 1: "client_handles ?s c' = client_handles s c'" if "cl_valid (client_handles ?s c')" for c' using that by auto
  have 2: "c' \<noteq> c \<and> d_clients s type = Some c'" if "type < 3" "d_clients ?s type = Some c'" for type c'
    using that clients_ok_clientD(3) [OF ok, of type c'] by (auto split: if_splits)
  show ?thesis
    unfolding clients_ok_def
  proof (intro conjI allI impI)
    fix c' assume "c' < 3" and v: "cl_valid (client_handles ?s c')"
    moreover have "cl_valid (client_handles s c')" using 1 [OF v] v by simp
    ultimately show "cl_d (client_handles ?s c')" "cl_type (client_handles ?s c') < 3"
        "cl_handle (client_handles ?s c') = handle_of c'"
        "cl_int_type (client_handles ?s c') = dce_interface_type_map ! cl_type (client_handles ?s c')"
      unfolding 1 [OF v] using clients_okD [OF ok] by blast+
  next
    fix type c' assume t: "type < 3" "d_clients ?s type = Some c'"
    note d = 2 [OF t]
    then have h: "client_handles ?s c' = client_handles s c'" by simp
    show "c' < 3" "cl_valid (client_handles ?s c')" "cl_type (client_handles ?s c') = type"
      unfolding h using clients_ok_clientD [OF ok t(1)] d by blast+
  qed
qed

lemma recv_wait_ok:
  "clients_ok (upd_client c (\<lambda>cl. cl\<lparr>recv_wait := b\<rparr>) s) \<longleftrightarrow> clients_ok s"
proof -
  let ?h = "client_handles s" and ?h' = "(client_handles s)(c := (client_handles s c)\<lparr>recv_wait := b\<rparr>)"
  have "cl_valid (?h' i) = cl_valid (?h i)" "cl_d (?h' i) = cl_d (?h i)" "cl_type (?h' i) = cl_type (?h i)"
    "cl_handle (?h' i) = cl_handle (?h i)" "cl_int_type (?h' i) = cl_int_type (?h i)" for i
    by (cases "i = c"; simp)+
  then show ?thesis by (simp only: clients_ok_def upd_client_simps)
qed

lemma unregister_bad:
  assumes "\<not> (is_client_handle_valid handle \<and> cl_valid (client_handles s (client_handle_to_index handle)))"
  shows "\<exists>s'. tegra_dce_unregister_ipc_client handle s = Some (- EINVAL, s') \<and> clients_ok s' = clients_ok s
      \<and> ivc_channels s' = ivc_channels s"
proof (cases "is_client_handle_valid handle")
  case True
  then have "tegra_dce_unregister_ipc_client handle s =
      Some (- EINVAL, upd_client (client_handle_to_index handle) (\<lambda>cl. cl\<lparr>recv_wait := False\<rparr>) s)"
    using assms by (simp add: tegra_dce_unregister_ipc_client_def dce_client_ipc_lookup_handle_def
      dce_client_ipc_handle_free_def Let_def)
  then show ?thesis by (simp add: recv_wait_ok)
next
  case False
  then show ?thesis
    by (simp add: tegra_dce_unregister_ipc_client_def dce_client_ipc_lookup_handle_def)
qed

lemma client_op_ok:
  assumes ok: "clients_ok s" and f: "\<forall>t < DCE_IPC_CH_KMD_TYPE_MAX. channel_free t s"
  shows "\<exists>s'. client_op_run W x s = Some s' \<and> clients_ok s' \<and> ivc_channels s' = ivc_channels s"
proof (cases x)
  case (Register type callback cdata)
  show ?thesis
  proof (cases "type < DCE_CLIENT_IPC_TYPE_MAX")
    case True
    then have fr: "channel_free (dce_interface_type_map ! type) s" using f type_map_less by blast
    show ?thesis
    proof (cases "free_slot s")
      case None
      then show ?thesis using ok by (simp add: Register register_eq [OF True fr])
    next
      case (Some c)
      then have "clients_ok (registered type callback cdata c s)"
        using registered_ok [OF ok _ _ True] free_slot_Some [OF Some] by blast
      moreover have "ivc_channels (registered type callback cdata c s) = ivc_channels s" by (simp add: registered_def)
      ultimately show ?thesis using Some ok by (simp add: Register register_eq [OF True fr])
    qed
  next
    case False
    then show ?thesis using ok by (simp add: Register tegra_dce_register_ipc_client_def)
  qed
next
  case (Unregister h)
  show ?thesis
  proof (cases "is_client_handle_valid h \<and> cl_valid (client_handles s (client_handle_to_index h))")
    case True
    then show ?thesis
      using unregister_eq [OF ok] freed_ok [OF ok, of "client_handle_to_index h"] by (simp add: Unregister)
  next
    case False
    from unregister_bad [OF this] obtain s' where
      "tegra_dce_unregister_ipc_client h s = Some (- EINVAL, s')" "clients_ok s' = clients_ok s"
      "ivc_channels s' = ivc_channels s" by blast
    then show ?thesis using ok by (simp add: Unregister)
  qed
qed

text \<open>
  C28. Registrations and deregistrations, in any order, with any types and handles, right or wrong, all return (no
  null pointer of a slot is used), and keep the table sound: the client of each type is a slot in use that belongs to
  the driver, has this type, its channel and its own handle.
\<close>

theorem dce_clients_sound:
  assumes "clients_ok s" "\<forall>t < DCE_IPC_CH_KMD_TYPE_MAX. channel_free t s"
  shows "\<exists>s'. client_ops_run W xs s = Some s' \<and> clients_ok s'"
  using assms
proof (induction xs arbitrary: s)
  case (Cons x xs)
  obtain s' where s': "client_op_run W x s = Some s'" "clients_ok s'" "ivc_channels s' = ivc_channels s"
    using client_op_ok [OF Cons.prems] by blast
  then have "\<forall>t < DCE_IPC_CH_KMD_TYPE_MAX. channel_free t s'" using Cons.prems(2) by (simp add: channel_free_def)
  then show ?case using Cons.IH [OF s'(2)] s'(1) by simp
qed simp

text \<open>
  Two clients of one type may be registered; the second gets a handle of its own. When the first gives its handle
  back, the second is no longer the client of the type, although its handle is still in use: its calls are
  refused with \<open>-EINVAL\<close> when they come to wait for the reply.
\<close>

theorem dce_second_client_lost:
  assumes "clients_ok s" "type < DCE_CLIENT_IPC_TYPE_MAX" "\<forall>t < DCE_IPC_CH_KMD_TYPE_MAX. channel_free t s"
    and "ch_d (ivc_channels s (dce_interface_type_map ! type))" "boot_wait W (dce s) = 0"
    and "\<forall>c < DCE_CLIENT_IPC_TYPE_MAX. \<not> cl_valid (client_handles s c)"
  shows "\<exists>h1 s1 h2 s2 s3. tegra_dce_register_ipc_client W type cb1 data1 True s = Some (0, Some h1, s1)
    \<and> tegra_dce_register_ipc_client W type cb2 data2 True s1 = Some (0, Some h2, s2)
    \<and> tegra_dce_unregister_ipc_client h1 s2 = Some (0, s3)
    \<and> (\<exists>c. dce_client_ipc_lookup_handle h2 = Some c \<and> cl_valid (client_handles s3 c) \<and> cl_handle (client_handles s3 c) = h2
         \<and> dce_client_ipc_wait W (cl_int_type (client_handles s3 c)) s3 = Some (- EINVAL, s3))"
proof -
  let ?s1 = "registered type cb1 data1 0 s" and ?s2 = "registered type cb2 data2 1 (registered type cb1 data1 0 s)"
  have f: "free_slot s = Some 0" "free_slot ?s1 = Some 1"
    using assms(6) by (simp_all add: free_slot_def upt_rec registered_def new_client_def)
  have fr: "channel_free (dce_interface_type_map ! type) s" "channel_free (dce_interface_type_map ! type) ?s1"
    using assms(3) type_map_less [OF assms(2)] by (auto simp: channel_free_def registered_def)
  have r1: "tegra_dce_register_ipc_client W type cb1 data1 True s = Some (0, Some (handle_of 0), ?s1)"
    using register_eq [OF assms(2) fr(1)] assms(4,5) f(1) by simp
  have r2: "tegra_dce_register_ipc_client W type cb2 data2 True ?s1 = Some (0, Some (handle_of 1), ?s2)"
    using register_eq [OF assms(2) fr(2)] assms(4,5) f(2) by (simp add: registered_def)
  have ok: "clients_ok ?s2"
    using assms(1,2,6) by (intro registered_ok) (auto simp: registered_def new_client_def)
  let ?s3 = "?s2\<lparr>client_handles := (client_handles ?s2)(0 := zero_client), d_clients := (d_clients ?s2)(type := None)\<rparr>"
  have u: "tegra_dce_unregister_ipc_client (handle_of 0) ?s2 = Some (0, ?s3)"
    using unregister_eq [OF ok] handle_of_index [of 0] by (simp add: registered_def new_client_def)
  have "dce_client_ipc_wait W (cl_int_type (client_handles ?s3 1)) ?s3 = Some (- EINVAL, ?s3)"
    using type_map_inverse [OF assms(2)]
    by (simp add: dce_client_ipc_wait_def registered_def new_client_def Let_def)
  moreover have "dce_client_ipc_lookup_handle (handle_of 1) = Some 1" using handle_of_index(3) [of 1] by simp
  moreover have "cl_valid (client_handles ?s3 1)" "cl_handle (client_handles ?s3 1) = handle_of 1"
    by (simp_all add: registered_def new_client_def)
  ultimately show ?thesis using r1 r2 u by blast
qed

subsection \<open>Witnesses\<close>

text \<open>
  The resource manager's channel with one client, and a firmware that answers each message with its bytes in
  reverse order.
\<close>

definition demo_rm_client :: "nat dce_ipc" where
  "demo_rm_client = registered 0 None 0 0 demo_open"

definition demo_service :: "nat dce_ipc \<Rightarrow> nat dce_ipc" where
  "demo_service s =
     (if d_ivc (ivc_channels s 1) = 1
      then let r = rev (load (20992 + 4) (unat (readl (shm s) 20992)) (shm s))
           in (upd_client 0 (\<lambda>cl. cl\<lparr>cl_complete := True\<rparr>) (upd_ch 1 (\<lambda>c. c\<lparr>d_ivc := 2\<rparr>) s))
                \<lparr>shm := store (16768 + 4) r (writel (word_of_nat (length r)) 16768 (shm s))\<rparr>
      else s)"

lemma demo_service_ok: "rpc_service (demo_ipc_world\<lparr>ipc_others := demo_service\<rparr>) 1 0 rev 0 1 2 20992 16768"
  by (simp add: rpc_service_def demo_service_def Let_def demo_ipc_world_def demo_api_def)

lemma demo_client_ready: "client_ready (handle_of 0) 0 1 demo_rm_client" "ch_ready 1 demo_rm_client"
    "d_ivc (ivc_channels demo_rm_client 1) = 0"
proof -
  have "client_handles demo_rm_client 0 = new_client 0 None 0 0" "d_clients demo_rm_client 0 = Some 0"
    by (simp_all add: demo_rm_client_def registered_def)
  then show "client_ready (handle_of 0) 0 1 demo_rm_client"
    using handle_of_index(3) [of 0]
    by (simp add: client_ready_def new_client_def dce_interface_type_map_def dce_client_get_type_def)
  show "ch_ready 1 demo_rm_client"
    using demo_open_ready by (simp add: demo_rm_client_def registered_def ch_ready_def)
  show "d_ivc (ivc_channels demo_rm_client 1) = 0"
    by (simp add: demo_rm_client_def registered_def demo_open_def demo_ipc_def static_channels_def static_channel_def)
qed

theorem dce_client_call_answered_witness:
  "\<exists>s'. tegra_dce_client_ipc_send_recv (demo_ipc_world\<lparr>ipc_others := demo_service\<rparr>) (handle_of 0)
      (Some \<lparr>tx_data = Some [1, 2, 3], tx_size = 3, rx_data = Some [9, 9, 9, 9], rx_size = 4\<rparr>) demo_rm_client
    = Some (0, Some \<lparr>tx_data = Some [1, 2, 3], tx_size = 3, rx_data = Some [3, 2, 1, 9], rx_size = 4\<rparr>, s')"
  using dce_client_call_answered [OF demo_service_ok demo_client_ready(2,3,1),
    of "\<lparr>tx_data = Some [1, 2, 3], tx_size = 3, rx_data = Some [9, 9, 9, 9], rx_size = 4\<rparr>" "[1, 2, 3]" "[9, 9, 9, 9]"]
  by (auto simp: demo_ipc_world_def)

text \<open>The state after the set-up: all channels free, that of the resource manager bound to the device.\<close>

definition demo_idle :: "nat dce_ipc" where
  "demo_idle = demo_ipc\<lparr>ivc_channels := (\<lambda>t. (static_channels 0 t)\<lparr>ch_lock := Mutex_free, ch_d := True\<rparr>)\<rparr>"

lemma demo_idle_ok: "clients_ok demo_idle" "\<forall>t < DCE_IPC_CH_KMD_TYPE_MAX. channel_free t demo_idle"
  by (auto simp: demo_idle_def demo_ipc_def clients_ok_def channel_free_def)

theorem dce_clients_sound_witness:
  "\<exists>s'. client_ops_run demo_ipc_world [Register 0 None 0, Register 0 None 1, Register 7 None 2, Unregister (handle_of 0),
      Unregister (handle_of 0), Unregister 0xffffffff, Register 2 (Some 4) 3] demo_idle = Some s' \<and> clients_ok s'"
  by (rule dce_clients_sound [OF demo_idle_ok])

theorem dce_second_client_lost_witness:
  "\<exists>h1 s1 h2 s2 s3. tegra_dce_register_ipc_client demo_ipc_world 0 None 5 True demo_idle = Some (0, Some h1, s1)
    \<and> tegra_dce_register_ipc_client demo_ipc_world 0 None 6 True s1 = Some (0, Some h2, s2)
    \<and> tegra_dce_unregister_ipc_client h1 s2 = Some (0, s3)
    \<and> (\<exists>c. dce_client_ipc_lookup_handle h2 = Some c
         \<and> dce_client_ipc_wait demo_ipc_world (cl_int_type (client_handles s3 c)) s3 = Some (- EINVAL, s3))"
proof -
  have "ch_d (ivc_channels demo_idle (dce_interface_type_map ! 0))" "boot_wait demo_ipc_world (dce demo_idle) = 0"
    "\<forall>c < DCE_CLIENT_IPC_TYPE_MAX. \<not> cl_valid (client_handles demo_idle c)"
    by (simp_all add: demo_idle_def demo_ipc_def demo_ipc_world_def)
  then show ?thesis
    using dce_second_client_lost [OF demo_idle_ok(1) _ demo_idle_ok(2), of 0 demo_ipc_world None 5 None 6] by auto
qed

end
