(* ===== verification/Mttcan_Ram.thy ===== *)
theory Mttcan_Ram
  imports Prelude
begin

text \<open>
  The MTTCAN controller driver, \<open>drivers/net/can/mttcan\<close>: the controller structure
  (\<open>include/m_ttcan.h\<close>) and the message RAM (\<open>hal/m_ttcan_ram.c\<close>): its layout, the elements of
  sent and received frames, the filters and the trigger memory.

  The message RAM and the shadow copies of the filters are byte memories; the offset 0 of the RAM is
  \<open>mram_vbase\<close>. The two length tables of the kernel's CAN layer are the record \<open>can_lib\<close>.
  \<open>None\<close> is an access outside the 64 data bytes of a frame, or a loop that does not end.
\<close>

subsection \<open>Data\<close>

abbreviation (input) CAN_STD_ID_MASK :: u32 where "CAN_STD_ID_MASK \<equiv> 0x7FF"
abbreviation (input) CAN_EXT_ID_MASK :: u32 where "CAN_EXT_ID_MASK \<equiv> 0x1FFFFFFF"
abbreviation (input) CAN_FMT :: nat where "CAN_FMT \<equiv> 31"
abbreviation (input) CAN_RTR :: nat where "CAN_RTR \<equiv> 30"
abbreviation (input) CAN_BRS_FLAG :: nat where "CAN_BRS_FLAG \<equiv> 0"
abbreviation (input) CAN_ESI_FLAG :: nat where "CAN_ESI_FLAG \<equiv> 1"
abbreviation (input) CAN_FD_FLAG :: nat where "CAN_FD_FLAG \<equiv> 2"
abbreviation (input) CAN_DIR_RX :: nat where "CAN_DIR_RX \<equiv> 3"
abbreviation (input) MAX_RX_ENTRIES :: nat where "MAX_RX_ENTRIES \<equiv> 64"

text \<open>A single bit of a word, set under a condition.\<close>

definition flag :: "bool \<Rightarrow> nat \<Rightarrow> 'a::len word" where
  "flag b n = (if b then push_bit n 1 else 0)"

datatype ttcan_mram_item =
  MRAM_SIDF | MRAM_XIDF | MRAM_RXF0 | MRAM_RXF1 | MRAM_RXB | MRAM_TXE | MRAM_TXB | MRAM_TMC

record ttcan_mram_elem =
  off :: u16
  num :: u16

record ttcanfd_frame =
  can_id :: u32
  d_len :: u8
  flags :: u8
  data :: "u8 list"
  tstamp :: u32

record ttcan_bittiming =
  bitrate :: u32
  prop_seg :: u32
  phase_seg1 :: u32
  phase_seg2 :: u32
  sjw :: u32
  brp :: u32
  bt_tdc :: u32

record ttcan_controller =
  rx_fifo0_size :: u16
  rx_fifo1_size :: u16
  rx_buffer_size :: u16
  tx_buffer_size :: u16
  fifo_q_num :: u32
  ded_buff_num :: u32
  evt_q_num :: u32
  tx_dfs :: u32
  tx_flags :: u32
  rxq0_dsize :: u32
  rxq1_dsize :: u32
  rxb_dsize :: u32
  rxq0_bmsk :: u64
  rxq1_bmsk :: u64
  mram_cfg :: "ttcan_mram_item \<Rightarrow> ttcan_mram_elem"
  rx_q0 :: "ttcanfd_frame list"
  rx_q1 :: "ttcanfd_frame list"
  rx_b :: "ttcanfd_frame list"
  tx_evt :: "(u32 \<times> u32) list"
  mram_size :: u32
  tx_buf_dlc :: "nat \<Rightarrow> u8"
  tx_object :: u64
  tx_obj_cancelled :: u64
  rxq0_mem :: int
  rxq1_mem :: int
  rxb_mem :: int
  evt_mem :: int
  list_status :: u16
  bt_nominal :: ttcan_bittiming
  bt_data :: ttcan_bittiming
  fd_flags :: u32
  tdc :: u32
  has_prod_list :: bool
  proto_state :: u32
  intr_enable_reg :: u32
  intr_tt_enable_reg :: u32
  ts_prescalar :: u32
  regs :: "nat \<Rightarrow> u32"
  xregs :: "nat \<Rightarrow> u32"
  mram :: mem

record can_lib =
  can_fd_dlc2len :: "u8 \<Rightarrow> u8"
  can_fd_len2dlc :: "u8 \<Rightarrow> u8"

definition ttcan_dlc2len :: "can_lib \<Rightarrow> u8 \<Rightarrow> u8" where
  "ttcan_dlc2len L dlc = can_fd_dlc2len L dlc"

definition ttcan_len2dlc :: "can_lib \<Rightarrow> u8 \<Rightarrow> u8" where
  "ttcan_len2dlc L len = (if len > 64 then 0xF else can_fd_len2dlc L len)"

definition get_dfs :: "u32 \<Rightarrow> u32" where
  "get_dfs bytes =
     (if bytes = 8 then 0 else if bytes = 12 then 1 else if bytes = 16 then 2
      else if bytes = 20 then 3 else if bytes = 24 then 4 else if bytes = 32 then 5
      else if bytes = 48 then 6 else if bytes = 64 then 7 else 0)"

definition data_in_element :: "u32 \<Rightarrow> int" where
  "data_in_element dfs =
     (if dfs = 0 then 8 else if dfs = 1 then 12 else if dfs = 2 then 16 else if dfs = 3 then 20
      else if dfs = 4 then 24 else if dfs = 5 then 32 else if dfs = 6 then 48 else if dfs = 7 then 64 else 0)"

subsection \<open>Elements of frames\<close>

text \<open>The bytes that the \<open>switch\<close> of the read loop stores: four, or the rest of the frame.\<close>

definition word_byte :: "u32 \<Rightarrow> nat \<Rightarrow> u8" where
  "word_byte w j = ucast (drop_bit (8 * j) w)"

definition put_bytes :: "nat \<Rightarrow> u32 \<Rightarrow> nat \<Rightarrow> u8 list \<Rightarrow> u8 list option" where
  "put_bytes k w i d =
     (if i + k > length d then None
      else Some (take i d @ map (word_byte w) [0..<k] @ drop (i + k) d))"

fun read_data :: "mem \<Rightarrow> nat \<Rightarrow> nat \<Rightarrow> nat \<Rightarrow> u8 list \<Rightarrow> u8 list option" where
  "read_data m a i bytes_to_read d =
     (if bytes_to_read = 0 then Some d
      else do {
        d \<leftarrow> put_bytes (min 4 bytes_to_read) (readl m (a + i)) i d;
        read_data m a (i + 4) (bytes_to_read - 4) d
      })"

text \<open>The identifier, the flags and the length in the two words of an element.\<close>

definition rx_ident :: "u32 \<Rightarrow> u32" where
  "rx_ident w =
     (if bit w 30 then flag True CAN_FMT OR ((w AND mask 29) AND CAN_EXT_ID_MASK)
      else drop_bit 18 (w AND push_bit 18 (mask 11)) AND CAN_STD_ID_MASK)
     OR flag (bit w 29) CAN_RTR"

definition rx_flags :: "u32 \<Rightarrow> u32 \<Rightarrow> u8" where
  "rx_flags w0 w1 = flag (bit w0 31) CAN_ESI_FLAG OR flag (bit w1 21) CAN_FD_FLAG OR flag (bit w1 20) CAN_BRS_FLAG"

definition rx_len :: "can_lib \<Rightarrow> u32 \<Rightarrow> u8" where
  "rx_len L w = ttcan_dlc2len L (ucast (drop_bit 16 (w AND push_bit 16 (mask 4))))"

definition ttcan_read_rx_msg_ram ::
  "can_lib \<Rightarrow> mem \<Rightarrow> nat \<Rightarrow> ttcanfd_frame option \<Rightarrow> (int \<times> ttcanfd_frame option) option" where
  "ttcan_read_rx_msg_ram L m a ttcanfd =
     (case ttcanfd of None \<Rightarrow> Some (- 1, None)
      | Some f \<Rightarrow>
        let w0 = readl m a; w1 = readl m (a + 4); len = rx_len L w1
        in do {
          d \<leftarrow> read_data m (a + 8) 0 (unat len) (data f);
          Some (2 + int ((unat len + 3) div 4),
            Some \<lparr>can_id = rx_ident w0, d_len = len, flags = rx_flags w0 w1, data = d,
                  tstamp = w1 AND mask 16\<rparr>)
        })"

text \<open>The word of up to four bytes from index \<open>i\<close> on.\<close>

definition get_word :: "nat \<Rightarrow> nat \<Rightarrow> u8 list \<Rightarrow> u32 option" where
  "get_word k i d =
     (if i + k > length d then None
      else Some ((if k > 3 then push_bit 24 (ucast (d ! (i + 3))) else 0)
             + (if k > 2 then push_bit 16 (ucast (d ! (i + 2))) else 0)
             + (if k > 1 then push_bit 8 (ucast (d ! (i + 1))) else 0)
             + ucast (d ! i)))"

fun write_data :: "nat \<Rightarrow> nat \<Rightarrow> nat \<Rightarrow> u8 list \<Rightarrow> mem \<Rightarrow> (nat \<times> mem) option" where
  "write_data a i bytes_to_write d m =
     (if bytes_to_write = 0 then Some (i, m)
      else do {
        w \<leftarrow> get_word (min 4 bytes_to_write) i d;
        write_data a (i + 4) (bytes_to_write - 4) d (writel w (a + i) m)
      })"

declare read_data.simps [simp del] write_data.simps [simp del]

definition tx_t0 :: "ttcanfd_frame \<Rightarrow> u32" where
  "tx_t0 f =
     (if bit (can_id f) CAN_FMT then (can_id f AND CAN_EXT_ID_MASK) OR flag True 30
      else push_bit 18 (can_id f AND CAN_STD_ID_MASK))
     OR flag (bit (can_id f) CAN_RTR) 29 OR flag (bit (flags f) CAN_ESI_FLAG) 31"

definition tx_t1 :: "can_lib \<Rightarrow> bool \<Rightarrow> ttcanfd_frame \<Rightarrow> u8 \<Rightarrow> u32" where
  "tx_t1 L events f index =
     (push_bit 16 (ucast (ttcan_len2dlc L (d_len f))) AND push_bit 16 (mask 4))
     OR flag events 23 OR flag (bit (flags f) CAN_FD_FLAG) 21 OR flag (bit (flags f) CAN_BRS_FLAG) 20
     OR push_bit 24 (ucast index)"

definition ttcan_write_tx_msg_ram ::
  "can_lib \<Rightarrow> ttcan_controller \<Rightarrow> nat \<Rightarrow> ttcanfd_frame \<Rightarrow> u8 \<Rightarrow> (nat \<times> ttcan_controller) option" where
  "ttcan_write_tx_msg_ram L t a f index = do {
     let m = writel (tx_t0 f) a (mram t);
     let m = writel (tx_t1 L (evt_q_num t \<noteq> 0) f index) (a + 4) m;
     (idx, m) \<leftarrow> write_data (a + 8) 0 (unat (d_len f)) (data f) m;
     Some (idx, t\<lparr>mram := m\<rparr>)
   }"

definition ttcan_read_txevt_ram :: "mem \<Rightarrow> nat \<Rightarrow> (u32 \<times> u32) option \<Rightarrow> int \<times> (u32 \<times> u32) option" where
  "ttcan_read_txevt_ram m a txevt =
     (case txevt of None \<Rightarrow> (- 1, None) | Some _ \<Rightarrow> (0, Some (readl m a, readl m (a + 4))))"

subsection \<open>Filters and triggers\<close>

text \<open>
  A filter index and the number of a list are 32-bit numbers; the offset of an element is their
  32-bit product. The structures \<open>mttcan_xtd_id_filt_element\<close> and \<open>mttcan_trig_mem_element\<close>
  have the field \<open>f1\<close> first.
\<close>

definition mram_off :: "ttcan_controller \<Rightarrow> ttcan_mram_item \<Rightarrow> nat" where
  "mram_off t item = unat (off (mram_cfg t item))"

definition mram_num :: "ttcan_controller \<Rightarrow> ttcan_mram_item \<Rightarrow> nat" where
  "mram_num t item = unat (num (mram_cfg t item))"

definition field :: "nat \<Rightarrow> nat \<Rightarrow> u32 \<Rightarrow> u32" where
  "field width shift v = push_bit shift v AND push_bit shift (mask width)"

definition ttcan_set_std_id_filter ::
  "ttcan_controller \<Rightarrow> mem \<Rightarrow> u32 \<Rightarrow> u8 \<Rightarrow> u8 \<Rightarrow> u32 \<Rightarrow> u32 \<Rightarrow> mem \<times> ttcan_controller" where
  "ttcan_set_std_id_filter t std_shadow filter_index sft sfec sfid1 sfid2 =
     (let filter_offset = unat (filter_index * 4);
          filter_elem = field 11 0 sfid2 OR field 11 16 sfid1 OR field 3 27 (ucast sfec)
            OR field 2 30 (ucast sft)
      in (writel filter_elem filter_offset std_shadow,
          t\<lparr>mram := writel filter_elem (mram_off t MRAM_SIDF + filter_offset) (mram t)\<rparr>))"

text \<open>Copy \<open>n\<close> elements of \<open>k\<close> words from a shadow copy to the RAM, from index \<open>i\<close> on.\<close>

fun prog_std_from :: "mem \<Rightarrow> nat \<Rightarrow> nat \<Rightarrow> nat \<Rightarrow> mem \<Rightarrow> mem" where
  "prog_std_from shadow base i 0 m = m"
| "prog_std_from shadow base i (Suc n) m =
     prog_std_from shadow base (Suc i) n (writel (readl shadow (4 * i)) (base + 4 * i) m)"

definition ttcan_prog_std_id_fltrs :: "ttcan_controller \<Rightarrow> mem \<Rightarrow> ttcan_controller" where
  "ttcan_prog_std_id_fltrs t std_shadow =
     t\<lparr>mram := prog_std_from std_shadow (mram_off t MRAM_SIDF) 0 (mram_num t MRAM_SIDF) (mram t)\<rparr>"

definition ttcan_get_std_id_filter :: "ttcan_controller \<Rightarrow> u32 \<Rightarrow> u32" where
  "ttcan_get_std_id_filter t idx = readl (mram t) (mram_off t MRAM_SIDF + unat (idx * 4))"

fun prog_xtd_from :: "mem \<Rightarrow> nat \<Rightarrow> nat \<Rightarrow> nat \<Rightarrow> mem \<Rightarrow> mem" where
  "prog_xtd_from shadow base i 0 m = m"
| "prog_xtd_from shadow base i (Suc n) m =
     prog_xtd_from shadow base (Suc i) n
       (writel (readl shadow (8 * i + 4)) (base + 8 * i + 4)
         (writel (readl shadow (8 * i)) (base + 8 * i) m))"

definition ttcan_prog_xtd_id_fltrs :: "ttcan_controller \<Rightarrow> mem \<Rightarrow> ttcan_controller" where
  "ttcan_prog_xtd_id_fltrs t xtd_shadow =
     t\<lparr>mram := prog_xtd_from xtd_shadow (mram_off t MRAM_XIDF) 0 (mram_num t MRAM_XIDF) (mram t)\<rparr>"

definition ttcan_set_xtd_id_filter ::
  "ttcan_controller \<Rightarrow> mem \<Rightarrow> u32 \<Rightarrow> u8 \<Rightarrow> u8 \<Rightarrow> u32 \<Rightarrow> u32 \<Rightarrow> mem \<times> ttcan_controller" where
  "ttcan_set_xtd_id_filter t xtd_shadow filter_index eft efec efid1 efid2 =
     (let filter_offset = unat (filter_index * 8);
          f0 = field 3 29 (ucast efec) OR field 29 0 efid1;
          f1 = field 2 30 (ucast eft) OR field 29 0 efid2;
          a = mram_off t MRAM_XIDF + filter_offset
      in (writel f0 (filter_offset + 4) (writel f1 filter_offset xtd_shadow),
          t\<lparr>mram := writel f1 (a + 4) (writel f0 a (mram t))\<rparr>))"

definition ttcan_get_xtd_id_filter :: "ttcan_controller \<Rightarrow> u32 \<Rightarrow> u64" where
  "ttcan_get_xtd_id_filter t idx =
     (let a = mram_off t MRAM_XIDF + unat (idx * 8)
      in push_bit 32 (ucast (readl (mram t) (a + 4))) OR ucast (readl (mram t) a))"

definition ttcan_get_trigger_mem :: "ttcan_controller \<Rightarrow> u32 \<Rightarrow> u64" where
  "ttcan_get_trigger_mem t idx =
     (let a = mram_off t MRAM_TMC + unat (idx * 8)
      in push_bit 32 (ucast (readl (mram t) (a + 4))) OR ucast (readl (mram t) a))"

fun prog_trig_from :: "mem \<Rightarrow> nat \<Rightarrow> nat \<Rightarrow> nat \<Rightarrow> mem \<Rightarrow> mem" where
  "prog_trig_from shadow base i 0 m = m"
| "prog_trig_from shadow base i (Suc n) m =
     prog_trig_from shadow base (Suc i) n
       (writel (readl shadow i) (base + 8 * i + 4) (writel (readl shadow i) (base + 8 * i) m))"

definition ttcan_prog_trigger_mem :: "ttcan_controller \<Rightarrow> mem \<Rightarrow> ttcan_controller" where
  "ttcan_prog_trigger_mem t tmc_shadow =
     t\<lparr>mram := prog_trig_from tmc_shadow (mram_off t MRAM_TMC) 0 (mram_num t MRAM_TMC) (mram t)\<rparr>"

definition ttcan_set_trigger_mem ::
  "ttcan_controller \<Rightarrow> mem \<Rightarrow> int \<Rightarrow> u16 \<Rightarrow> u16 \<Rightarrow> u8 \<Rightarrow> u8 \<Rightarrow> u16 \<Rightarrow> u8 \<Rightarrow> u8
     \<Rightarrow> int \<times> mem \<times> ttcan_controller" where
  "ttcan_set_trigger_mem t tmc_shadow trig_index time_mark cycle_code tmin tmex trig_type filter_type mesg_num =
     (let idx = unat (word_of_int trig_index * 8 :: u32)
      in if trig_index > 63 then (- 1, tmc_shadow, t)
         else if cycle_code > 127 then (- 1, tmc_shadow, t)
         else
           let f0 = field 16 16 (ucast time_mark) OR field 7 8 (ucast cycle_code)
                 OR field 1 5 (ucast tmin) OR field 1 4 (ucast tmex) OR field 4 0 (ucast trig_type);
               f1 = field 1 23 (ucast filter_type) OR field 7 16 (ucast mesg_num);
               a = mram_off t MRAM_TMC + idx
           in (0, writel f0 (idx + 4) (writel f1 idx tmc_shadow),
               t\<lparr>mram := writel f1 (a + 4) (writel f0 a (mram t))\<rparr>))"

subsection \<open>The layout of the message RAM\<close>

text \<open>
  The offset of the next section: the sum is computed as an \<open>int\<close> and stored in 16 bits.
\<close>

definition next_off :: "ttcan_mram_elem \<Rightarrow> int \<Rightarrow> u16" where
  "next_off e elem_size = word_of_int (uint (off e) + uint (num e) * elem_size)"

definition mram_layout :: "u32 list \<Rightarrow> ttcan_mram_item \<Rightarrow> ttcan_mram_elem" where
  "mram_layout arr =
     (let sidf = \<lparr>off = ucast (arr ! 0), num = ucast (arr ! 1)\<rparr>;
          xidf = \<lparr>off = next_off sidf 4, num = ucast (arr ! 2)\<rparr>;
          rxf0 = \<lparr>off = next_off xidf 8, num = ucast (arr ! 3)\<rparr>;
          rxf1 = \<lparr>off = next_off rxf0 72, num = ucast (arr ! 4)\<rparr>;
          rxb = \<lparr>off = next_off rxf1 72, num = ucast (arr ! 5)\<rparr>;
          txe = \<lparr>off = next_off rxb 72, num = ucast (arr ! 6)\<rparr>;
          txb = \<lparr>off = next_off txe 8, num = ucast (arr ! 7)\<rparr>;
          tmc = \<lparr>off = next_off txb 72, num = ucast (arr ! 8)\<rparr>
      in (\<lambda>item. case item of
            MRAM_SIDF \<Rightarrow> sidf | MRAM_XIDF \<Rightarrow> xidf | MRAM_RXF0 \<Rightarrow> rxf0 | MRAM_RXF1 \<Rightarrow> rxf1
          | MRAM_RXB \<Rightarrow> rxb | MRAM_TXE \<Rightarrow> txe | MRAM_TXB \<Rightarrow> txb | MRAM_TMC \<Rightarrow> tmc))"

definition ttcan_mesg_ram_config ::
  "ttcan_controller \<Rightarrow> u32 list \<Rightarrow> u32 list \<Rightarrow> u32 list \<Rightarrow> int \<times> ttcan_controller" where
  "ttcan_mesg_ram_config t arr tx_conf rx_conf =
     (let cfg = mram_layout arr;
          t = t\<lparr>mram_cfg := cfg\<rparr>
      in if uint (mram_size t) \<le> uint (word_of_int (uint (off (cfg MRAM_TMC))
                + uint (num (cfg MRAM_TMC)) * 8 - uint (off (cfg MRAM_SIDF))) :: u32)
         then (- EINVAL, t)
         else if tx_conf ! 0 + tx_conf ! 1 > ucast (num (cfg MRAM_TXB)) then (- EINVAL, t)
         else if tx_conf ! 0 \<noteq> 0 \<and> tx_conf ! 1 \<noteq> 0 then (- EINVAL, t)
         else (0, t\<lparr>ded_buff_num := tx_conf ! 0, fifo_q_num := tx_conf ! 1, tx_flags := tx_conf ! 2,
                    tx_buffer_size := ucast (8 + tx_conf ! 3), tx_dfs := get_dfs (tx_conf ! 3),
                    rxb_dsize := rx_conf ! 0, rxq0_dsize := rx_conf ! 1, rxq1_dsize := rx_conf ! 2\<rparr>))"

text \<open>The zeroing loop; an offset near the end of the 32-bit range would wrap around for ever.\<close>

fun zero_words :: "nat \<Rightarrow> nat \<Rightarrow> mem \<Rightarrow> mem" where
  "zero_words a 0 m = m"
| "zero_words a (Suc n) m = zero_words (a + 4) n (writel 0 a m)"

definition ttcan_mesg_ram_init :: "ttcan_controller \<Rightarrow> ttcan_controller option" where
  "ttcan_mesg_ram_init t =
     (if mram_size t > 0xFFFFFFFC then None
      else Some (t\<lparr>mram := zero_words 0 ((unat (mram_size t) + 3) div 4) (mram t)\<rparr>))"

subsection \<open>Lemmas\<close>

lemma word_byte_readl: "j < 4 \<Longrightarrow> word_byte (readl m a) j = m (a + j)"
proof -
  assume "j < 4"
  then have "j = 0 \<or> j = 1 \<or> j = 2 \<or> j = 3" by linarith
  then show ?thesis
    by (elim disjE; intro bit_word_eqI)
       (auto simp: word_byte_def readl_def bit_simps numeral_2_eq_2 numeral_3_eq_3 dest: bit_imp_le_length)
qed

lemma writel_byte: "j < 4 \<Longrightarrow> writel w a m (a + j) = word_byte w j"
proof -
  assume "j < 4"
  then have "j = 0 \<or> j = 1 \<or> j = 2 \<or> j = 3" by linarith
  then show ?thesis by (elim disjE) (auto simp: writel_def word_byte_def)
qed

lemma get_word_byte:
  assumes "get_word k i d = Some w" "0 < k" "k \<le> 4" "j < 4"
  shows "word_byte w j = (if j < k then d ! (i + j) else 0)"
proof -
  define b where "b n = (if k > n then push_bit (8 * n) (ucast (d ! (i + n))) else (0 :: u32))" for n
  have bit_b: "bit (b n) x \<longleftrightarrow> n < k \<and> x < 32 \<and> 8 * n \<le> x \<and> x < 8 * n + 8 \<and> bit (d ! (i + n)) (x - 8 * n)" for n x
    by (auto simp: b_def bit_simps dest: bit_imp_le_length)
  have "w = b 3 + b 2 + b 1 + b 0"
    using assms(1,2) by (auto simp: get_word_def b_def split: if_splits)
  also have "b 3 + b 2 = b 3 OR b 2" by (rule disjunctive_add) (auto simp: bit_b)
  also have "(b 3 OR b 2) + b 1 = (b 3 OR b 2) OR b 1" by (rule disjunctive_add) (auto simp: bit_b bit_or_iff)
  also have "((b 3 OR b 2) OR b 1) + b 0 = ((b 3 OR b 2) OR b 1) OR b 0"
    by (rule disjunctive_add) (auto simp: bit_b bit_or_iff)
  finally have w: "w = ((b 3 OR b 2) OR b 1) OR b 0" .
  from assms(4) have "j = 0 \<or> j = 1 \<or> j = 2 \<or> j = 3" by linarith
  then show ?thesis unfolding w
    by (elim disjE; intro bit_word_eqI)
       (auto simp: word_byte_def bit_simps bit_b dest: bit_imp_le_length)
qed
lemma write_word_bytes:
  assumes "get_word k i d = Some w" "0 < k" "k \<le> 4"
  shows "writel w a m x = (if a \<le> x \<and> x < a + k then d ! (i + (x - a)) else if a + k \<le> x \<and> x < a + 4 then 0 else m x)"
proof (cases "a \<le> x \<and> x < a + 4")
  case True
  then obtain j where j: "x = a + j" "j < 4" by (metis le_Suc_ex add_less_cancel_left)
  then show ?thesis using get_word_byte [OF assms] writel_byte [OF j(2)] by auto
next
  case False
  with assms(3) show ?thesis by (auto simp: writel_apply_other)
qed

lemma get_word_Some: "i + k \<le> length d \<Longrightarrow> \<exists>w. get_word k i d = Some w"
  by (simp add: get_word_def)

lemma words_step: "0 < n \<Longrightarrow> 4 * ((n - 4 + 3) div 4) + 4 = 4 * ((n + 3) div (4 :: nat))"
proof -
  assume "0 < n"
  show ?thesis
  proof (cases "4 \<le> n")
    case True
    then show ?thesis by presburger
  next
    case False
    with \<open>0 < n\<close> have "n = 1 \<or> n = 2 \<or> n = 3" by linarith
    then show ?thesis by auto
  qed
qed

lemma write_data_bytes:
  "i + n \<le> length d \<Longrightarrow> \<exists>m'. write_data a i n d m = Some (i + 4 * ((n + 3) div 4), m')
     \<and> (\<forall>x. m' x = (if a + i \<le> x \<and> x < a + i + n then d ! (x - a)
          else if a + i + n \<le> x \<and> x < a + i + 4 * ((n + 3) div 4) then 0 else m x))"
proof (induction n arbitrary: i m rule: less_induct)
  case (less n)
  show ?case
  proof (cases "n = 0")
    case True
    then show ?thesis by (auto simp: write_data.simps)
  next
    case False
    let ?k = "min 4 n"
    obtain w where w: "get_word ?k i d = Some w" using less.prems get_word_Some by fastforce
    have wb: "writel w (a + i) m x = (if a + i \<le> x \<and> x < a + i + ?k then d ! (i + (x - (a + i)))
        else if a + i + ?k \<le> x \<and> x < a + i + 4 then 0 else m x)" for x
      by (rule write_word_bytes [OF w]) (use False in auto)
    show ?thesis
    proof (cases "4 \<le> n")
      case True
      then obtain m' where m': "write_data a (i + 4) (n - 4) d (writel w (a + i) m)
          = Some (i + 4 + 4 * ((n - 4 + 3) div 4), m')"
        "\<And>x. m' x = (if a + (i + 4) \<le> x \<and> x < a + (i + 4) + (n - 4) then d ! (x - a)
            else if a + (i + 4) + (n - 4) \<le> x \<and> x < a + (i + 4) + 4 * ((n - 4 + 3) div 4) then 0
            else writel w (a + i) m x)"
        using less.IH [of "n - 4" "i + 4" "writel w (a + i) m"] less.prems by auto
      have s: "4 * ((n - 4 + 3) div 4) + 4 = 4 * ((n + 3) div 4)" using False by (intro words_step) simp
      have e: "write_data a i n d m = Some (i + 4 * ((n + 3) div 4), m')"
        using False w m'(1) s by (simp add: write_data.simps [of a i n])
      have "m' x = (if a + i \<le> x \<and> x < a + i + n then d ! (x - a)
          else if a + i + n \<le> x \<and> x < a + i + 4 * ((n + 3) div 4) then 0 else m x)" for x
        unfolding m'(2) wb [of x] using True s by (auto simp: min_def)
      then show ?thesis using e by blast
    next
      case less4: False
      have "write_data a (i + 4) (n - 4) d (writel w (a + i) m) = Some (i + 4, writel w (a + i) m)"
        using less4 by (simp add: write_data.simps)
      then have e: "write_data a i n d m = Some (i + 4 * ((n + 3) div 4), writel w (a + i) m)"
        using False w less4 words_step [of n] by (simp add: write_data.simps [of a i n])
      have "4 * ((n + 3) div 4) = 4" using False less4 words_step [of n] by simp
      then show ?thesis using e wb less4 False by (auto simp: min_def)
    qed
  qed
qed

lemma write_data_overrun: "i \<le> length d \<Longrightarrow> length d < i + n \<Longrightarrow> write_data a i n d m = None"
proof (induction n arbitrary: i m rule: less_induct)
  case (less n)
  show ?case
  proof (cases "i + min 4 n > length d")
    case True
    then show ?thesis using less.prems by (simp add: write_data.simps [of a i n] get_word_def)
  next
    case False
    then have "4 \<le> n" "i + 4 \<le> length d" using less.prems by (auto simp: min_def split: if_splits)
    then have "write_data a (i + 4) (n - 4) d m' = None" for m' using less.prems by (intro less.IH) auto
    with \<open>4 \<le> n\<close> show ?thesis by (simp add: write_data.simps [of a i n] split: bind_split)
  qed
qed

lemma put_bytes_eq:
  "k \<le> 4 \<Longrightarrow> i + k \<le> length d \<Longrightarrow> put_bytes k (readl m a) i d = Some (take i d @ load a k m @ drop (i + k) d)"
  by (auto simp: put_bytes_def load_def word_byte_readl)

lemma read_data_bytes:
  "i + n \<le> length d \<Longrightarrow> read_data m a i n d = Some (take i d @ load (a + i) n m @ drop (i + n) d)"
proof (induction n arbitrary: i d rule: less_induct)
  case (less n)
  show ?case
  proof (cases "n = 0")
    case True
    then show ?thesis by (simp add: read_data.simps load_def)
  next
    case False
    let ?k = "min 4 n"
    let ?d = "take i d @ load (a + i) ?k m @ drop (i + ?k) d"
    have p: "put_bytes ?k (readl m (a + i)) i d = Some ?d" using less.prems by (intro put_bytes_eq) auto
    show ?thesis
    proof (cases "4 \<le> n")
      case True
      have k: "min 4 n = 4" using True by simp
      have r: "read_data m a (i + 4) (n - 4) ?d
          = Some (take (i + 4) ?d @ load (a + (i + 4)) (n - 4) m @ drop (i + 4 + (n - 4)) ?d)"
        using True less.prems by (intro less.IH) auto
      have t: "take (i + 4) ?d = take i d @ load (a + i) 4 m" using True less.prems by (simp add: min_def)
      have dr: "drop (i + 4 + (n - 4)) ?d = drop (i + n) d"
        using True less.prems by (simp add: min_def add.commute)
      have l: "load (a + i) n m = load (a + i) 4 m @ load (a + (i + 4)) (n - 4) m"
        using load_append [of "a + i" 4 "n - 4" m] True by (simp add: add.assoc)
      have "read_data m a (i + 4) (n - 4) ?d = Some (take i d @ load (a + i) n m @ drop (i + n) d)"
        unfolding r t dr l append_assoc ..
      then show ?thesis using False p k by (simp add: read_data.simps [of m a i n])
    next
      case False
      with p \<open>n \<noteq> 0\<close> show ?thesis by (simp add: read_data.simps [of m a i n] read_data.simps [of _ _ _ 0] min_def)
    qed
  qed
qed

lemma readl_cong: "(\<And>j. j < 4 \<Longrightarrow> m (a + j) = m' (a + j)) \<Longrightarrow> readl m a = readl m' a"
proof -
  assume e: "\<And>j. j < 4 \<Longrightarrow> m (a + j) = m' (a + j)"
  have "m a = m' a" "m (a + 1) = m' (a + 1)" "m (a + 2) = m' (a + 2)" "m (a + 3) = m' (a + 3)"
    using e [of 0] e [of 1] e [of 2] e [of 3] by simp_all
  then show ?thesis by (simp add: readl_def)
qed

lemma bit_flag: "bit (flag b n :: 'a::len word) i \<longleftrightarrow> b \<and> i = n \<and> n < LENGTH('a)"
  by (auto simp: flag_def bit_simps)

text \<open>What a write of a frame leaves in the RAM.\<close>

lemma write_frame:
  assumes "length (data f) = MAX_RX_ENTRIES" "unat (d_len f) \<le> MAX_RX_ENTRIES"
  shows "\<exists>m. ttcan_write_tx_msg_ram L t a f index = Some (4 * ((unat (d_len f) + 3) div 4), t\<lparr>mram := m\<rparr>)
    \<and> readl m a = tx_t0 f \<and> readl m (a + 4) = tx_t1 L (evt_q_num t \<noteq> 0) f index
    \<and> load (a + 8) (unat (d_len f)) m = take (unat (d_len f)) (data f)
    \<and> (\<forall>x. a + 8 + unat (d_len f) \<le> x \<and> x < a + 8 + 4 * ((unat (d_len f) + 3) div 4) \<longrightarrow> m x = 0)
    \<and> (\<forall>x. x < a \<or> a + 8 + 4 * ((unat (d_len f) + 3) div 4) \<le> x \<longrightarrow> m x = mram t x)"
proof -
  let ?m = "writel (tx_t1 L (evt_q_num t \<noteq> 0) f index) (a + 4) (writel (tx_t0 f) a (mram t))"
  let ?n = "unat (d_len f)"
  obtain m where w: "write_data (a + 8) 0 ?n (data f) ?m = Some (4 * ((?n + 3) div 4), m)"
    and m: "\<And>x. m x = (if a + 8 \<le> x \<and> x < a + 8 + ?n then data f ! (x - (a + 8))
      else if a + 8 + ?n \<le> x \<and> x < a + 8 + 4 * ((?n + 3) div 4) then 0 else ?m x)"
    using write_data_bytes [of 0 ?n "data f" "a + 8" ?m] assms by auto
  have "readl m a = readl ?m a" "readl m (a + 4) = readl ?m (a + 4)" by (rule readl_cong, simp add: m)+
  then have "readl m a = tx_t0 f" "readl m (a + 4) = tx_t1 L (evt_q_num t \<noteq> 0) f index"
    by (simp_all add: mem_simps)
  moreover have "load (a + 8) ?n m = take ?n (data f)"
    using assms by (intro nth_equalityI) (auto simp: load_def m)
  moreover have "m x = 0" if "a + 8 + ?n \<le> x" "x < a + 8 + 4 * ((?n + 3) div 4)" for x
    using that by (simp add: m)
  moreover have "m x = mram t x" if "x < a \<or> a + 8 + 4 * ((?n + 3) div 4) \<le> x" for x
  proof -
    define N where "N = 4 * ((?n + 3) div 4)"
    have le: "?n \<le> N" unfolding N_def by linarith
    have "m x = ?m x"
      using that le unfolding m N_def [symmetric] by (simp split: if_splits) linarith
    also have "\<dots> = mram t x"
      using that unfolding N_def [symmetric] by (elim disjE) (simp_all add: writel_apply_other)
    finally show ?thesis .
  qed
  moreover have "ttcan_write_tx_msg_ram L t a f index = Some (4 * ((?n + 3) div 4), t\<lparr>mram := m\<rparr>)"
    unfolding ttcan_write_tx_msg_ram_def Let_def w by simp
  ultimately show ?thesis by blast
qed

subsection \<open>Frames from the sender to the receiver\<close>

definition fd_lengths :: "u8 list" where
  "fd_lengths = [0, 1, 2, 3, 4, 5, 6, 7, 8, 12, 16, 20, 24, 32, 48, 64]"

text \<open>The two tables of the kernel: a data length code stands for a length, the next one up.\<close>

definition can_tables :: "can_lib \<Rightarrow> bool" where
  "can_tables L \<longleftrightarrow> (\<forall>n. n \<le> 64 \<longrightarrow> can_fd_len2dlc L n \<le> 15 \<and> n \<le> can_fd_dlc2len L (can_fd_len2dlc L n))
     \<and> (\<forall>n \<in> set fd_lengths. can_fd_dlc2len L (can_fd_len2dlc L n) = n)
     \<and> (\<forall>c. can_fd_dlc2len L c \<le> 64)"

definition linux_tables :: can_lib where
  "linux_tables =
     \<lparr>can_fd_dlc2len = (\<lambda>c. fd_lengths ! unat (c AND 15)),
      can_fd_len2dlc = (\<lambda>n. of_nat (length (filter (\<lambda>x. x < n) fd_lengths)))\<rparr>"

text \<open>A frame as the socket layer gives it to the driver.\<close>

definition frame_ok :: "ttcanfd_frame \<Rightarrow> bool" where
  "frame_ok f \<longleftrightarrow> length (data f) = MAX_RX_ENTRIES \<and> d_len f \<in> set fd_lengths
     \<and> flags f AND NOT 7 = 0
     \<and> (if bit (can_id f) CAN_FMT then \<not> bit (can_id f) 29 else can_id f AND NOT 0x400007FF = 0)"

text \<open>
  What the bus carries of an element: the identifier word, the bits 16 to 21 of the second word, and
  the data. The receiver adds its own filter index and time stamp.
\<close>

definition carried :: "mem \<Rightarrow> nat \<Rightarrow> mem \<Rightarrow> nat \<Rightarrow> nat \<Rightarrow> bool" where
  "carried m a m' b n \<longleftrightarrow> readl m' b = readl m a
     \<and> readl m' (b + 4) AND 0x3F0000 = readl m (a + 4) AND 0x3F0000
     \<and> load (b + 8) n m' = load (a + 8) n m"

lemma mask29: "(0x1FFFFFFF :: u32) = mask 29" by (simp add: mask_eq_exp_minus_1)
lemma mask11: "(0x7FF :: u32) = mask 11" by (simp add: mask_eq_exp_minus_1)
lemma mask3: "(7 :: u8) = mask 3" by (simp add: mask_eq_exp_minus_1)
lemma mask15: "(15 :: u8) = mask 4" by (simp add: mask_eq_exp_minus_1)

lemma rx_ident_tx:
  assumes "frame_ok f"
  shows "rx_ident (tx_t0 f) = can_id f"
proof (cases "bit (can_id f) 31")
  case True
  then have n29: "\<not> bit (can_id f) 29" using assms by (simp add: frame_ok_def)
  have b: "bit (tx_t0 f) n \<longleftrightarrow> n < 29 \<and> bit (can_id f) n \<or> n = 30 \<or> n = 29 \<and> bit (can_id f) 30
      \<or> n = 31 \<and> bit (flags f) 1" for n
    using True by (auto simp: tx_t0_def mask29 bit_flag bit_simps)
  show ?thesis
  proof (rule bit_word_eqI)
    fix n assume "n < LENGTH(32)"
    then have "n < 29 \<or> n = 29 \<or> n = 30 \<or> n = 31" by auto
    then show "bit (rx_ident (tx_t0 f)) n = bit (can_id f) n"
      using True n29 by (elim disjE) (auto simp: rx_ident_def b mask29 bit_flag bit_simps)
  qed
next
  case False
  then have "can_id f AND NOT 0x400007FF = 0" using assms by (simp add: frame_ok_def)
  then have z: "\<not> bit (can_id f AND NOT 0x400007FF) n" for n by simp
  have c: "(0x400007FF :: u32) = flag True 30 OR mask 11" by (simp add: flag_def mask_eq_exp_minus_1)
  have out: "bit (can_id f) n \<Longrightarrow> n < 11 \<or> n = 30" for n
    using z [of n] unfolding c by (auto simp: bit_simps bit_flag dest: bit_imp_le_length)
  have b: "bit (tx_t0 f) n \<longleftrightarrow> 18 \<le> n \<and> n < 29 \<and> bit (can_id f) (n - 18) \<or> n = 29 \<and> bit (can_id f) 30
      \<or> n = 31 \<and> bit (flags f) 1" for n
    using False by (auto simp: tx_t0_def mask11 bit_flag bit_simps)
  show ?thesis
  proof (rule bit_word_eqI)
    fix n assume "n < LENGTH(32)"
    show "bit (rx_ident (tx_t0 f)) n = bit (can_id f) n"
      using out [of n] by (auto simp: rx_ident_def b mask11 bit_flag bit_simps)
  qed
qed

lemma word1_bits:
  assumes "v AND 0x3F0000 = w AND (0x3F0000 :: u32)" "16 \<le> n" "n < 22"
  shows "bit v n = bit w n"
proof -
  have c: "(0x3F0000 :: u32) = push_bit 16 (mask 6)" by (simp add: mask_eq_exp_minus_1)
  have "bit (v AND 0x3F0000) n = bit (w AND 0x3F0000) n" using assms(1) by simp
  then show ?thesis using assms(2,3) unfolding c by (auto simp: bit_simps)
qed

lemma tx_t1_bits:
  "bit (tx_t1 L e f i) 21 \<longleftrightarrow> bit (flags f) 2" "bit (tx_t1 L e f i) 20 \<longleftrightarrow> bit (flags f) 0"
  "16 \<le> n \<Longrightarrow> n < 20 \<Longrightarrow> bit (tx_t1 L e f i) n \<longleftrightarrow> bit (ttcan_len2dlc L (d_len f)) (n - 16)"
  by (auto simp: tx_t1_def bit_flag bit_simps)

lemma rx_flags_tx:
  assumes "frame_ok f" "bit w 21 \<longleftrightarrow> bit (flags f) 2" "bit w 20 \<longleftrightarrow> bit (flags f) 0"
  shows "rx_flags (tx_t0 f) w = flags f"
proof -
  have z: "\<not> bit (flags f AND NOT 7) n" for n using assms(1) by (simp add: frame_ok_def)
  have out: "n = 0 \<or> n = 1 \<or> n = 2" if "bit (flags f) n" for n
  proof -
    have "n < 3" using z [of n] that bit_imp_le_length [OF that] unfolding mask3 by (auto simp: bit_simps)
    then show ?thesis by linarith
  qed
  have b31: "bit (tx_t0 f) 31 \<longleftrightarrow> bit (flags f) 1" by (auto simp: tx_t0_def mask29 mask11 bit_flag bit_simps)
  show ?thesis
  proof (rule bit_word_eqI)
    fix n
    show "bit (rx_flags (tx_t0 f) w) n = bit (flags f) n"
      using out [of n] by (auto simp: rx_flags_def bit_flag bit_or_iff assms(2,3) b31)
  qed
qed

lemma small_code:
  assumes "can_tables L" "d_len f \<le> 64" "bit (ttcan_len2dlc L (d_len f)) n"
  shows "n < 4"
proof (rule ccontr)
  have t: "ttcan_len2dlc L (d_len f) = can_fd_len2dlc L (d_len f)"
    using assms(2) by (auto simp: ttcan_len2dlc_def dest: leD)
  have "can_fd_len2dlc L (d_len f) \<le> 15" using assms(1,2) by (simp add: can_tables_def)
  then have u: "unat (can_fd_len2dlc L (d_len f)) < 2 ^ 4" by (simp add: word_le_nat_alt)
  assume "\<not> n < 4"
  then have "(2 :: nat) ^ 4 \<le> 2 ^ n" by (intro power_increasing) auto
  with u have "unat (can_fd_len2dlc L (d_len f)) div 2 ^ n = 0" by (intro div_less) linarith
  moreover have "bit (unat (can_fd_len2dlc L (d_len f))) n" using assms(3) t by (simp add: bit_unsigned_iff)
  ultimately show False by (simp add: bit_iff_odd)
qed

lemma rx_len_tx:
  assumes "can_tables L" "d_len f \<le> 64"
    and "\<And>n. 16 \<le> n \<Longrightarrow> n < 20 \<Longrightarrow> bit w n \<longleftrightarrow> bit (ttcan_len2dlc L (d_len f)) (n - 16)"
  shows "rx_len L w = can_fd_dlc2len L (can_fd_len2dlc L (d_len f))"
proof -
  have t: "ttcan_len2dlc L (d_len f) = can_fd_len2dlc L (d_len f)"
    using assms(2) by (auto simp: ttcan_len2dlc_def dest: leD)
  have "(ucast (drop_bit 16 (w AND push_bit 16 (mask 4))) :: u8) = can_fd_len2dlc L (d_len f)"
  proof (rule bit_word_eqI)
    fix n assume "n < LENGTH(8)"
    then show "bit (ucast (drop_bit 16 (w AND push_bit 16 (mask 4))) :: u8) n = bit (can_fd_len2dlc L (d_len f)) n"
      using small_code [OF assms(1,2), of n] assms(3) [of "16 + n"] by (cases "n < 4") (auto simp: bit_simps t)
  qed
  then show ?thesis by (simp add: rx_len_def ttcan_dlc2len_def)
qed

lemma rx_len_written:
  "can_tables L \<Longrightarrow> d_len f \<le> 64 \<Longrightarrow> rx_len L (tx_t1 L e f i) = can_fd_dlc2len L (can_fd_len2dlc L (d_len f))"
  by (rule rx_len_tx) (simp_all add: tx_t1_bits)

subsection \<open>Programming the filters from their shadow copies\<close>

lemma prog_std_read:
  "readl (prog_std_from sh base i n m) (base + 4 * j) =
     (if i \<le> j \<and> j < i + n then readl sh (4 * j) else readl m (base + 4 * j))"
proof (induction n arbitrary: i m)
  case (Suc n)
  have "readl (writel v (base + 4 * i) m) (base + 4 * j) = (if i = j then v else readl m (base + 4 * j))" for v
    by (rule linorder_cases [of i j]) (simp_all add: mem_simps)
  then show ?case by (auto simp: Suc)
qed auto

lemma prog_xtd_read:
  "readl (prog_xtd_from sh base i n m) (base + 8 * j) =
     (if i \<le> j \<and> j < i + n then readl sh (8 * j) else readl m (base + 8 * j))"
  "readl (prog_xtd_from sh base i n m) (base + 8 * j + 4) =
     (if i \<le> j \<and> j < i + n then readl sh (8 * j + 4) else readl m (base + 8 * j + 4))"
proof -
  have w: "readl (writel v (base + 8 * i + 4) (writel u (base + 8 * i) m)) (base + 8 * j)
      = (if i = j then u else readl m (base + 8 * j))"
    "readl (writel v (base + 8 * i + 4) (writel u (base + 8 * i) m)) (base + 8 * j + 4)
      = (if i = j then v else readl m (base + 8 * j + 4))" for u v i m
    by (rule linorder_cases [of i j]; simp add: mem_simps)+
  show "readl (prog_xtd_from sh base i n m) (base + 8 * j) =
     (if i \<le> j \<and> j < i + n then readl sh (8 * j) else readl m (base + 8 * j))"
    by (induction n arbitrary: i m) (auto simp: w)
  show "readl (prog_xtd_from sh base i n m) (base + 8 * j + 4) =
     (if i \<le> j \<and> j < i + n then readl sh (8 * j + 4) else readl m (base + 8 * j + 4))"
    by (induction n arbitrary: i m) (auto simp: w)
qed

lemma elem_offset:
  assumes "unat (i :: u32) < 65536"
  shows "unat (i * 4) = 4 * unat i" "unat (i * 8) = 8 * unat i"
  using assms unat_word_ariths(2) [of i 4] unat_word_ariths(2) [of i 8] by simp_all

subsection \<open>Properties\<close>

text \<open>
  C20. A frame written to the message RAM, carried over the bus and read from a receive element has
  the identifier, the length, the flags and the data of the frame sent; the bytes of the buffer
  behind the data are left as they were.
\<close>

theorem can_frame_round_trip:
  assumes "can_tables L" "frame_ok f" "length (data g) = MAX_RX_ENTRIES"
    and "ttcan_write_tx_msg_ram L t a f index = Some (i, t')"
    and "carried (mram t') a m b (unat (d_len f))"
  shows "\<exists>r. ttcan_read_rx_msg_ram L m b (Some g) = Some (2 + int ((unat (d_len f) + 3) div 4), Some r)
    \<and> can_id r = can_id f \<and> d_len r = d_len f \<and> flags r = flags f
    \<and> data r = take (unat (d_len f)) (data f) @ drop (unat (d_len f)) (data g)"
proof -
  have len: "unat (d_len f) \<le> 64" "length (data f) = 64"
    using assms(2) by (auto simp: frame_ok_def fd_lengths_def)
  obtain m' where t': "t' = t\<lparr>mram := m'\<rparr>" and m': "readl m' a = tx_t0 f"
    "readl m' (a + 4) = tx_t1 L (evt_q_num t \<noteq> 0) f index" "load (a + 8) (unat (d_len f)) m' = take (unat (d_len f)) (data f)"
    using write_frame [OF len(2,1), of L t a index] assms(4) by auto
  have c: "readl m b = tx_t0 f" "readl m (b + 4) AND 0x3F0000 = readl m' (a + 4) AND 0x3F0000"
    "load (b + 8) (unat (d_len f)) m = take (unat (d_len f)) (data f)"
    using assms(5) t' m' by (simp_all add: carried_def)
  have w1: "bit (readl m (b + 4)) n = bit (tx_t1 L (evt_q_num t \<noteq> 0) f index) n" if "16 \<le> n" "n < 22" for n
    using word1_bits [OF c(2) that] m'(2) by simp
  have "d_len f \<le> 64" using len(1) by (simp add: word_le_nat_alt)
  then have "rx_len L (readl m (b + 4)) = can_fd_dlc2len L (can_fd_len2dlc L (d_len f))"
    by (rule rx_len_tx [OF assms(1)]) (auto simp: w1 tx_t1_bits)
  then have l: "rx_len L (readl m (b + 4)) = d_len f"
    using assms(1,2) by (simp add: can_tables_def frame_ok_def)
  have fl: "rx_flags (readl m b) (readl m (b + 4)) = flags f"
    unfolding c(1) by (rule rx_flags_tx [OF assms(2)]) (simp_all add: w1 tx_t1_bits)
  have "read_data m (b + 8) 0 (unat (d_len f)) (data g)
      = Some (take (unat (d_len f)) (data f) @ drop (unat (d_len f)) (data g))"
    using read_data_bytes [of 0 "unat (d_len f)" "data g" m "b + 8"] len(1) assms(3) c(3) by simp
  then show ?thesis using rx_ident_tx [OF assms(2)] fl l c(1) by (simp add: ttcan_read_rx_msg_ram_def Let_def)
qed

lemma linux_tables_ok: "can_tables linux_tables"
proof -
  have "list_all (\<lambda>k. can_fd_len2dlc linux_tables (of_nat k) \<le> 15
      \<and> of_nat k \<le> can_fd_dlc2len linux_tables (can_fd_len2dlc linux_tables (of_nat k))) [0..<65]"
    by code_simp
  then have l: "can_fd_len2dlc linux_tables (of_nat k) \<le> 15
      \<and> of_nat k \<le> can_fd_dlc2len linux_tables (can_fd_len2dlc linux_tables (of_nat k))" if "k < 65" for k
    using that by (auto simp: list_all_iff)
  have "can_fd_len2dlc linux_tables n \<le> 15 \<and> n \<le> can_fd_dlc2len linux_tables (can_fd_len2dlc linux_tables n)"
    if "n \<le> 64" for n
    using l [of "unat n"] that by (simp add: word_le_nat_alt)
  moreover have "\<forall>n \<in> set fd_lengths. can_fd_dlc2len linux_tables (can_fd_len2dlc linux_tables n) = n"
    by code_simp
  moreover have "can_fd_dlc2len linux_tables c \<le> 64" for c
  proof -
    have "unat (c AND 15) = take_bit 4 (unat c)" by (simp add: mask15 unsigned_take_bit_eq flip: take_bit_eq_mask)
    moreover have "take_bit 4 (unat c) < 2 ^ 4" by (rule take_bit_nat_less_exp)
    ultimately have "unat (c AND 15) < 16" by simp
    then have "fd_lengths ! unat (c AND 15) \<in> set fd_lengths" by (intro nth_mem) (simp add: fd_lengths_def)
    then show ?thesis by (simp add: linux_tables_def) (auto simp: fd_lengths_def)
  qed
  ultimately show ?thesis by (simp add: can_tables_def)
qed

definition demo_frame :: ttcanfd_frame where
  "demo_frame = \<lparr>can_id = 0x80012345, d_len = 12, flags = 5, data = map of_nat [0..<64], tstamp = 0\<rparr>"

definition demo_timing :: ttcan_bittiming where
  "demo_timing = \<lparr>bitrate = 500000, prop_seg = 6, phase_seg1 = 7, phase_seg2 = 2, sjw = 1, brp = 5, bt_tdc = 0\<rparr>"

definition demo_can :: ttcan_controller where
  "demo_can = \<lparr>rx_fifo0_size = 72, rx_fifo1_size = 72, rx_buffer_size = 72, tx_buffer_size = 72, fifo_q_num = 4,
     ded_buff_num = 4, evt_q_num = 8, tx_dfs = 7, tx_flags = 0, rxq0_dsize = 64, rxq1_dsize = 64, rxb_dsize = 64,
     rxq0_bmsk = 0, rxq1_bmsk = 0,
     mram_cfg = mram_layout [0, 16, 16, 16, 0, 0, 8, 8, 0],
     rx_q0 = [], rx_q1 = [], rx_b = [], tx_evt = [], mram_size = 4096, tx_buf_dlc = (\<lambda>_. 0),
     tx_object = 0, tx_obj_cancelled = 0, rxq0_mem = 0, rxq1_mem = 0, rxb_mem = 0, evt_mem = 0,
     list_status = 0, bt_nominal = demo_timing, bt_data = demo_timing, fd_flags = 0, tdc = 0, has_prod_list = False,
     proto_state = 0, intr_enable_reg = 0, intr_tt_enable_reg = 0, ts_prescalar = 0,
     regs = (\<lambda>_. 0), xregs = (\<lambda>_. 0), mram = (\<lambda>_. 0)\<rparr>"

lemma demo_frame_ok: "frame_ok demo_frame"
proof -
  have "\<not> bit (0x80012345 :: u32) 29" "bit (0x80012345 :: u32) 31" by (simp_all add: bit_numeral_rec)
  then show ?thesis by (simp add: frame_ok_def demo_frame_def fd_lengths_def)
qed

theorem can_frame_round_trip_witness:
  "\<exists>t' r. ttcan_write_tx_msg_ram linux_tables demo_can 0x100 demo_frame 3 = Some (12, t')
    \<and> ttcan_read_rx_msg_ram linux_tables (mram t') 0x100 (Some demo_frame) = Some (5, Some r)
    \<and> can_id r = 0x80012345 \<and> d_len r = 12 \<and> flags r = 5"
proof -
  have d: "d_len demo_frame = 12" "length (data demo_frame) = 64" "can_id demo_frame = 0x80012345"
    "flags demo_frame = 5" by (simp_all add: demo_frame_def)
  then obtain t' where t': "ttcan_write_tx_msg_ram linux_tables demo_can 0x100 demo_frame 3 = Some (12, t')"
    using write_frame [of demo_frame linux_tables demo_can "0x100" 3] by auto
  have "carried (mram t') 0x100 (mram t') 0x100 (unat (d_len demo_frame))" by (simp add: carried_def)
  from can_frame_round_trip [OF linux_tables_ok demo_frame_ok d(2) t' this] t' show ?thesis by (auto simp: d)
qed

text \<open>
  A write changes only the bytes of its element. What is transmitted beyond the frame's length,
  up to the next length that CAN FD has, is zero within the last word and, behind it, what an earlier
  frame left in the RAM; a frame of a CAN FD length has no such bytes.
\<close>

theorem can_write_sends_stale_bytes:
  assumes "can_tables L" "length (data f) = MAX_RX_ENTRIES" "d_len f \<le> 64"
    and "ttcan_write_tx_msg_ram L t a f index = Some (i, t')"
    and "n = unat (d_len f)" "sent = unat (rx_len L (readl (mram t') (a + 4)))"
  shows "(\<forall>x. x < a \<or> a + 8 + 4 * ((n + 3) div 4) \<le> x \<longrightarrow> mram t' x = mram t x)
    \<and> (\<forall>j. n \<le> j \<and> j < sent \<longrightarrow> mram t' (a + 8 + j) =
          (if j < 4 * ((n + 3) div 4) then 0 else mram t (a + 8 + j)))
    \<and> n \<le> sent \<and> (d_len f \<in> set fd_lengths \<longrightarrow> sent = n)"
proof -
  have n: "n \<le> 64" using assms(3,5) by (simp add: word_le_nat_alt)
  obtain m where t': "t' = t\<lparr>mram := m\<rparr>" and w: "readl m (a + 4) = tx_t1 L (evt_q_num t \<noteq> 0) f index"
    and z: "\<And>x. a + 8 + n \<le> x \<Longrightarrow> x < a + 8 + 4 * ((n + 3) div 4) \<Longrightarrow> m x = 0"
    and k: "\<And>x. x < a \<or> a + 8 + 4 * ((n + 3) div 4) \<le> x \<Longrightarrow> m x = mram t x"
    using write_frame [of f L t a index] assms(2,4,5) n by auto
  have "n \<le> sent"
    using assms(1,3,5,6) t' w rx_len_written [OF assms(1,3), of "evt_q_num t \<noteq> 0" index]
    by (simp add: can_tables_def word_le_nat_alt)
  moreover have "sent = n" if "d_len f \<in> set fd_lengths"
    using assms(1,3,5,6) that t' w rx_len_written [OF assms(1,3), of "evt_q_num t \<noteq> 0" index] by (simp add: can_tables_def)
  ultimately show ?thesis using z k t' by auto
qed

theorem can_write_sends_stale_bytes_witness:
  "\<exists>t'. ttcan_write_tx_msg_ram linux_tables (demo_can\<lparr>mram := (\<lambda>_. 0xAA)\<rparr>) 0x100 (demo_frame\<lparr>d_len := 25\<rparr>) 3
      = Some (28, t') \<and> mram t' (0x100 + 8 + 30) = 0xAA"
proof -
  let ?t = "demo_can\<lparr>mram := (\<lambda>_. 0xAA)\<rparr>" and ?f = "demo_frame\<lparr>d_len := 25\<rparr>"
  have d: "d_len ?f = 25" "length (data ?f) = 64" by (simp_all add: demo_frame_def)
  then obtain t' where t': "ttcan_write_tx_msg_ram linux_tables ?t 0x100 ?f 3 = Some (28, t')"
    using write_frame [of ?f linux_tables ?t "0x100" 3] by auto
  from can_write_sends_stale_bytes [OF linux_tables_ok d(2) _ t' refl refl] have
    "\<forall>x. x < 0x100 \<or> 0x100 + 8 + 28 \<le> x \<longrightarrow> mram t' x = 0xAA" by (simp add: d)
  with t' show ?thesis by simp
qed

text \<open>
  A standard filter is encoded without loss, and is what the controller holds again after the
  filters are programmed from the shadow copy.
\<close>

theorem std_filter_restored:
  assumes "unat idx < mram_num t MRAM_SIDF" "ttcan_set_std_id_filter t sh idx sft sfec id1 id2 = (sh', t')"
  shows "ttcan_get_std_id_filter (ttcan_prog_std_id_fltrs t' sh') idx = ttcan_get_std_id_filter t' idx
    \<and> drop_bit 30 (ttcan_get_std_id_filter t' idx) = take_bit 2 (ucast sft)
    \<and> take_bit 3 (drop_bit 27 (ttcan_get_std_id_filter t' idx)) = take_bit 3 (ucast sfec)
    \<and> take_bit 11 (drop_bit 16 (ttcan_get_std_id_filter t' idx)) = take_bit 11 id1
    \<and> take_bit 11 (ttcan_get_std_id_filter t' idx) = take_bit 11 id2"
proof -
  have "mram_num t MRAM_SIDF < 2 ^ LENGTH(16)" unfolding mram_num_def by (rule unsigned_less)
  with assms(1) have o: "unat (idx * 4) = 4 * unat idx" by (intro elem_offset) simp
  let ?e = "field 11 0 id2 OR field 11 16 id1 OR field 3 27 (ucast sfec) OR field 2 30 (ucast sft) :: u32"
  have s: "readl sh' (4 * unat idx) = ?e" "mram t' = writel ?e (mram_off t MRAM_SIDF + 4 * unat idx) (mram t)"
    "mram_cfg t' = mram_cfg t"
    using assms(2) o by (auto simp: ttcan_set_std_id_filter_def Let_def mem_simps)
  have g: "ttcan_get_std_id_filter t' idx = ?e"
    using s by (simp add: ttcan_get_std_id_filter_def o mram_off_def mem_simps)
  have "ttcan_get_std_id_filter (ttcan_prog_std_id_fltrs t' sh') idx = ?e"
    using assms(1) s o
    by (simp add: ttcan_get_std_id_filter_def ttcan_prog_std_id_fltrs_def mram_off_def mram_num_def prog_std_read)
  moreover have "drop_bit 30 ?e = take_bit 2 (ucast sft)"
    by (rule bit_word_eqI) (auto simp: field_def bit_simps)
  moreover have "take_bit 3 (drop_bit 27 ?e) = take_bit 3 (ucast sfec)"
    by (rule bit_word_eqI) (auto simp: field_def bit_simps)
  moreover have "take_bit 11 (drop_bit 16 ?e) = take_bit 11 id1"
    by (rule bit_word_eqI) (auto simp: field_def bit_simps)
  moreover have "take_bit 11 ?e = take_bit 11 id2"
    by (rule bit_word_eqI) (auto simp: field_def bit_simps)
  ultimately show ?thesis using g by simp
qed

theorem std_filter_restored_witness:
  "\<exists>sh' t'. ttcan_set_std_id_filter demo_can (\<lambda>_. 0) 3 1 7 0x123 0x456 = (sh', t')
    \<and> take_bit 11 (drop_bit 16 (ttcan_get_std_id_filter t' 3)) = 0x123"
proof -
  obtain sh' t' where s: "ttcan_set_std_id_filter demo_can (\<lambda>_. 0) 3 1 7 0x123 0x456 = (sh', t')" by fastforce
  have "unat (3 :: u32) < mram_num demo_can MRAM_SIDF"
    by (simp add: mram_num_def demo_can_def mram_layout_def Let_def)
  from std_filter_restored [OF this s] s show ?thesis by simp
qed

text \<open>
  Programming the extended filters from their shadow copy exchanges the two words of each filter
  that was set: the shadow keeps the structure, whose second word comes first.
\<close>

theorem xtd_filter_restore_swaps:
  assumes "unat idx < mram_num t MRAM_XIDF" "ttcan_set_xtd_id_filter t sh idx eft efec id1 id2 = (sh', t')"
  shows "ttcan_get_xtd_id_filter t' idx = push_bit 32 (ucast (field 2 30 (ucast eft) OR field 29 0 id2))
      OR ucast (field 3 29 (ucast efec) OR field 29 0 id1)
    \<and> ttcan_get_xtd_id_filter (ttcan_prog_xtd_id_fltrs t' sh') idx =
      push_bit 32 (ucast (field 3 29 (ucast efec) OR field 29 0 id1))
      OR ucast (field 2 30 (ucast eft) OR field 29 0 id2)"
proof -
  have "mram_num t MRAM_XIDF < 2 ^ LENGTH(16)" unfolding mram_num_def by (rule unsigned_less)
  with assms(1) have o: "unat (idx * 8) = 8 * unat idx" by (intro elem_offset) simp
  let ?f0 = "field 3 29 (ucast efec) OR field 29 0 id1" and ?f1 = "field 2 30 (ucast eft) OR field 29 0 id2"
  let ?a = "mram_off t MRAM_XIDF + 8 * unat idx"
  have s: "readl sh' (8 * unat idx) = ?f1" "readl sh' (8 * unat idx + 4) = ?f0"
    "mram t' = writel ?f1 (?a + 4) (writel ?f0 ?a (mram t))" "mram_cfg t' = mram_cfg t"
    using assms(2) o by (auto simp: ttcan_set_xtd_id_filter_def Let_def mem_simps)
  have "readl (mram t') ?a = ?f0" "readl (mram t') (?a + 4) = ?f1" using s(3) by (simp_all add: mem_simps)
  moreover have "mram_off t' MRAM_XIDF = mram_off t MRAM_XIDF" "mram_num t' MRAM_XIDF = mram_num t MRAM_XIDF"
    using s(4) by (simp_all add: mram_off_def mram_num_def)
  ultimately show ?thesis using assms(1) s(1,2) prog_xtd_read [of sh' "mram_off t MRAM_XIDF" 0]
    by (simp add: ttcan_get_xtd_id_filter_def ttcan_prog_xtd_id_fltrs_def o Let_def mram_off_def)
qed

theorem xtd_filter_restore_swaps_witness:
  "\<exists>sh' t'. ttcan_set_xtd_id_filter demo_can (\<lambda>_. 0) 3 1 7 0x123 0x456 = (sh', t')
    \<and> ttcan_get_xtd_id_filter (ttcan_prog_xtd_id_fltrs t' sh') 3 \<noteq> ttcan_get_xtd_id_filter t' 3"
proof -
  obtain sh' t' where s: "ttcan_set_xtd_id_filter demo_can (\<lambda>_. 0) 3 1 7 0x123 0x456 = (sh', t')" by fastforce
  have "unat (3 :: u32) < mram_num demo_can MRAM_XIDF"
    by (simp add: mram_num_def demo_can_def mram_layout_def Let_def)
  from xtd_filter_restore_swaps [OF this s] s show ?thesis
    by (simp add: field_def mask_eq_exp_minus_1)
qed

subsection \<open>The layout\<close>

lemma next_off_nat:
  assumes "unat (off e) + unat (num e) * k < 65536"
  shows "unat (next_off e (int k)) = unat (off e) + unat (num e) * k"
proof -
  let ?n = "unat (off e) + unat (num e) * k"
  have "uint (off e) + uint (num e) * int k = int ?n" by simp
  then have "next_off e (int k) = of_nat ?n" unfolding next_off_def by (simp only: of_int_of_nat_eq)
  then have "unat (next_off e (int k)) = take_bit 16 ?n" by (simp only: unsigned_of_nat) simp
  also have "\<dots> = ?n" using assms by (intro take_bit_nat_eq_self) simp
  finally show ?thesis .
qed

text \<open>The end of the layout asked for, computed without the limit of 16 bits.\<close>

definition layout_total :: "u32 list \<Rightarrow> nat" where
  "layout_total arr =
     (let n = (\<lambda>i. unat (ucast (arr ! i) :: u16))
      in n 0 + n 1 * 4 + n 2 * 8 + n 3 * 72 + n 4 * 72 + n 5 * 72 + n 6 * 8 + n 7 * 72 + n 8 * 8)"

text \<open>The size of an element of a section, and the first byte behind a section.\<close>

definition elem_size :: "ttcan_mram_item \<Rightarrow> nat" where
  "elem_size item = (case item of MRAM_SIDF \<Rightarrow> 4 | MRAM_XIDF \<Rightarrow> 8 | MRAM_TXE \<Rightarrow> 8 | MRAM_TMC \<Rightarrow> 8 | _ \<Rightarrow> 72)"

definition section_end :: "ttcan_controller \<Rightarrow> ttcan_mram_item \<Rightarrow> nat" where
  "section_end t item = mram_off t item + mram_num t item * elem_size item"

lemma layout_contiguous:
  assumes "layout_total arr < 65536" "mram_cfg t = mram_layout arr"
  shows "section_end t MRAM_SIDF = mram_off t MRAM_XIDF \<and> section_end t MRAM_XIDF = mram_off t MRAM_RXF0
    \<and> section_end t MRAM_RXF0 = mram_off t MRAM_RXF1 \<and> section_end t MRAM_RXF1 = mram_off t MRAM_RXB
    \<and> section_end t MRAM_RXB = mram_off t MRAM_TXE \<and> section_end t MRAM_TXE = mram_off t MRAM_TXB
    \<and> section_end t MRAM_TXB = mram_off t MRAM_TMC \<and> section_end t MRAM_TMC = layout_total arr"
proof -
  define n where "n i = unat (ucast (arr ! i) :: u16)" for i
  let ?l = "mram_layout arr"
  have num: "unat (num (?l MRAM_SIDF)) = n 1" "unat (num (?l MRAM_XIDF)) = n 2" "unat (num (?l MRAM_RXF0)) = n 3"
    "unat (num (?l MRAM_RXF1)) = n 4" "unat (num (?l MRAM_RXB)) = n 5" "unat (num (?l MRAM_TXE)) = n 6"
    "unat (num (?l MRAM_TXB)) = n 7" "unat (num (?l MRAM_TMC)) = n 8"
    by (simp_all add: mram_layout_def Let_def n_def)
  have off: "off (?l MRAM_XIDF) = next_off (?l MRAM_SIDF) (int 4)" "off (?l MRAM_RXF0) = next_off (?l MRAM_XIDF) (int 8)"
    "off (?l MRAM_RXF1) = next_off (?l MRAM_RXF0) (int 72)" "off (?l MRAM_RXB) = next_off (?l MRAM_RXF1) (int 72)"
    "off (?l MRAM_TXE) = next_off (?l MRAM_RXB) (int 72)" "off (?l MRAM_TXB) = next_off (?l MRAM_TXE) (int 8)"
    "off (?l MRAM_TMC) = next_off (?l MRAM_TXB) (int 72)"
    by (simp_all add: mram_layout_def Let_def)
  have tot: "n 0 + n 1 * 4 + n 2 * 8 + n 3 * 72 + n 4 * 72 + n 5 * 72 + n 6 * 8 + n 7 * 72 + n 8 * 8 < 65536"
    using assms(1) by (simp add: layout_total_def Let_def n_def)
  have o0: "unat (off (?l MRAM_SIDF)) = n 0" by (simp add: mram_layout_def Let_def n_def)
  have o1: "unat (off (?l MRAM_XIDF)) = n 0 + n 1 * 4" unfolding off(1) by (subst next_off_nat) (use tot in \<open>simp_all add: num o0\<close>)
  have o2: "unat (off (?l MRAM_RXF0)) = n 0 + n 1 * 4 + n 2 * 8"
    unfolding off(2) by (subst next_off_nat) (use tot in \<open>simp_all add: num o1\<close>)
  have o3: "unat (off (?l MRAM_RXF1)) = n 0 + n 1 * 4 + n 2 * 8 + n 3 * 72"
    unfolding off(3) by (subst next_off_nat) (use tot in \<open>simp_all add: num o2\<close>)
  have o4: "unat (off (?l MRAM_RXB)) = n 0 + n 1 * 4 + n 2 * 8 + n 3 * 72 + n 4 * 72"
    unfolding off(4) by (subst next_off_nat) (use tot in \<open>simp_all add: num o3\<close>)
  have o5: "unat (off (?l MRAM_TXE)) = n 0 + n 1 * 4 + n 2 * 8 + n 3 * 72 + n 4 * 72 + n 5 * 72"
    unfolding off(5) by (subst next_off_nat) (use tot in \<open>simp_all add: num o4\<close>)
  have o6: "unat (off (?l MRAM_TXB)) = n 0 + n 1 * 4 + n 2 * 8 + n 3 * 72 + n 4 * 72 + n 5 * 72 + n 6 * 8"
    unfolding off(6) by (subst next_off_nat) (use tot in \<open>simp_all add: num o5\<close>)
  have o7: "unat (off (?l MRAM_TMC)) = n 0 + n 1 * 4 + n 2 * 8 + n 3 * 72 + n 4 * 72 + n 5 * 72 + n 6 * 8 + n 7 * 72"
    unfolding off(7) by (subst next_off_nat) (use tot in \<open>simp_all add: num o6\<close>)
  show ?thesis
    by (simp add: section_end_def mram_off_def mram_num_def elem_size_def assms(2) num o0 o1 o2 o3 o4 o5 o6 o7
      layout_total_def Let_def flip: n_def)
qed
text \<open>
  A configuration that is accepted, and whose sections end below 64 KiB, lays the sections out
  one behind the other without gaps inside the message RAM, and its transmit buffers fit their section.
\<close>

theorem mram_config_layout:
  assumes "ttcan_mesg_ram_config t arr tx_conf rx_conf = (0, t')" "layout_total arr < 65536"
  shows "section_end t' MRAM_SIDF = mram_off t' MRAM_XIDF \<and> section_end t' MRAM_XIDF = mram_off t' MRAM_RXF0
    \<and> section_end t' MRAM_RXF0 = mram_off t' MRAM_RXF1 \<and> section_end t' MRAM_RXF1 = mram_off t' MRAM_RXB
    \<and> section_end t' MRAM_RXB = mram_off t' MRAM_TXE \<and> section_end t' MRAM_TXE = mram_off t' MRAM_TXB
    \<and> section_end t' MRAM_TXB = mram_off t' MRAM_TMC
    \<and> section_end t' MRAM_TMC < mram_off t' MRAM_SIDF + unat (mram_size t)
    \<and> unat (ded_buff_num t') + unat (fifo_q_num t') \<le> mram_num t' MRAM_TXB"
proof -
  have c: "mram_cfg t' = mram_layout arr"
    and size: "\<not> uint (mram_size t) \<le> uint (word_of_int (uint (off (mram_layout arr MRAM_TMC))
        + uint (num (mram_layout arr MRAM_TMC)) * 8 - uint (off (mram_layout arr MRAM_SIDF))) :: u32)"
    and tx: "\<not> tx_conf ! 0 + tx_conf ! 1 > ucast (num (mram_layout arr MRAM_TXB))"
      "tx_conf ! 0 = 0 \<or> tx_conf ! 1 = 0" "ded_buff_num t' = tx_conf ! 0" "fifo_q_num t' = tx_conf ! 1"
    using assms(1) by (auto simp: ttcan_mesg_ram_config_def Let_def split: if_splits)
  note l = layout_contiguous [OF assms(2) c]
  have e: "uint (off (mram_layout arr MRAM_TMC)) + uint (num (mram_layout arr MRAM_TMC)) * 8
      = int (section_end t' MRAM_TMC)"
    by (simp add: section_end_def mram_off_def mram_num_def c elem_size_def)
  have s: "uint (off (mram_layout arr MRAM_SIDF)) = int (mram_off t' MRAM_SIDF)"
    by (simp add: mram_off_def c)
  have le: "mram_off t' MRAM_SIDF \<le> section_end t' MRAM_TMC"
    using l unfolding section_end_def by linarith
  define gap where "gap = section_end t' MRAM_TMC - mram_off t' MRAM_SIDF"
  have "gap < 65536" using l assms(2) unfolding gap_def by linarith
  then have "take_bit 32 (int gap) = int gap" by (intro take_bit_int_eq_self) auto
  then have "uint (word_of_int (int gap) :: u32) = int gap" by (simp only: unsigned_of_int) simp
  moreover have "uint (off (mram_layout arr MRAM_TMC)) + uint (num (mram_layout arr MRAM_TMC)) * 8
      - uint (off (mram_layout arr MRAM_SIDF)) = int gap"
    unfolding e s gap_def using le by simp
  ultimately have "int gap < int (unat (mram_size t))" using size by simp
  then have "gap < unat (mram_size t)" by (simp only: of_nat_less_iff)
  then have room: "section_end t' MRAM_TMC < mram_off t' MRAM_SIDF + unat (mram_size t)"
    unfolding gap_def using le by linarith
  have "unat (tx_conf ! 0 + tx_conf ! 1) \<le> take_bit 32 (unat (num (mram_layout arr MRAM_TXB)))"
    using tx(1) by (simp add: word_less_nat_alt unsigned_ucast_eq)
  also have "\<dots> \<le> unat (num (mram_layout arr MRAM_TXB))" by (rule take_bit_nat_less_eq_self)
  finally have "unat (ded_buff_num t') + unat (fifo_q_num t') \<le> mram_num t' MRAM_TXB"
    using tx(2-4) by (auto simp: mram_num_def c)
  with l room show ?thesis by simp
qed

theorem mram_config_layout_witness:
  "\<exists>t'. ttcan_mesg_ram_config demo_can [0, 16, 16, 16, 0, 0, 8, 8, 0] [4, 0, 0, 64] [64, 64, 64] = (0, t')
    \<and> section_end t' MRAM_TMC < 4096"
proof -
  have ok: "fst (ttcan_mesg_ram_config demo_can [0, 16, 16, 16, 0, 0, 8, 8, 0] [4, 0, 0, 64] [64, 64, 64]) = 0"
    by (simp add: ttcan_mesg_ram_config_def demo_can_def mram_layout_def next_off_def Let_def)
  then obtain t' where t': "ttcan_mesg_ram_config demo_can [0, 16, 16, 16, 0, 0, 8, 8, 0] [4, 0, 0, 64] [64, 64, 64]
      = (0, t')" by (metis prod.collapse)
  have "layout_total [0, 16, 16, 16, 0, 0, 8, 8, 0] < 65536" by (simp add: layout_total_def)
  from mram_config_layout [OF t' this] have "section_end t' MRAM_TMC < mram_off t' MRAM_SIDF + 4096"
    by (simp add: demo_can_def)
  moreover have "mram_off t' MRAM_SIDF = 0"
    using t' by (auto simp: ttcan_mesg_ram_config_def mram_off_def mram_layout_def Let_def split: if_splits)
  ultimately show ?thesis using t' by simp
qed

text \<open>
  Above 64 KiB the offsets wrap around: 911 elements of the first receive FIFO take 65592 bytes, but
  the next section starts at the offset 56, and the configuration is accepted for a RAM of 4096 bytes.
\<close>

lemma mram_config_wraps:
  "fst (ttcan_mesg_ram_config demo_can [0, 0, 0, 911, 0, 0, 0, 8, 0] [4, 0, 0, 64] [64, 64, 64]) = 0"
  "unat (off (mram_layout [0, 0, 0, 911, 0, 0, 0, 8, 0] MRAM_RXF1)) = 56"
  by (simp_all add: ttcan_mesg_ram_config_def demo_can_def mram_layout_def next_off_def Let_def)

text \<open>
  The trigger memory is not restored either: both words of the element \<open>j\<close> are read from the byte
  \<open>j\<close> of the shadow copy.
\<close>

lemma prog_trig_read:
  "readl (prog_trig_from sh base i n m) (base + 8 * j) =
     (if i \<le> j \<and> j < i + n then readl sh j else readl m (base + 8 * j))"
  "readl (prog_trig_from sh base i n m) (base + 8 * j + 4) =
     (if i \<le> j \<and> j < i + n then readl sh j else readl m (base + 8 * j + 4))"
proof -
  have w: "readl (writel v (base + 8 * i + 4) (writel u (base + 8 * i) m)) (base + 8 * j)
      = (if i = j then u else readl m (base + 8 * j))"
    "readl (writel v (base + 8 * i + 4) (writel u (base + 8 * i) m)) (base + 8 * j + 4)
      = (if i = j then v else readl m (base + 8 * j + 4))" for u v i m
    by (rule linorder_cases [of i j]; simp add: mem_simps)+
  show "readl (prog_trig_from sh base i n m) (base + 8 * j) =
     (if i \<le> j \<and> j < i + n then readl sh j else readl m (base + 8 * j))"
    by (induction n arbitrary: i m) (auto simp: w)
  show "readl (prog_trig_from sh base i n m) (base + 8 * j + 4) =
     (if i \<le> j \<and> j < i + n then readl sh j else readl m (base + 8 * j + 4))"
    by (induction n arbitrary: i m) (auto simp: w)
qed

end
