(* ===== verification/Mttcan_Ctrl.thy ===== *)
theory Mttcan_Ctrl
  imports Mttcan_Ram "HOL-Library.State_Monad"
begin

text \<open>
  The MTTCAN controller: its registers and the operations that configure it
  (\<open>hal/m_ttcan.c\<close>, \<open>hal/m_ttcan_intr.c\<close>, \<open>hal/m_ttcan_tt.c\<close>).

  The device is not part of the source: it is the parameter \<open>can_env\<close>. A read or a write of a register
  first lets the device do what it likes with its registers and the message RAM (\<open>run_hw\<close>); \<open>write_hw\<close>
  is the effect of a write. Addresses that are no registers can hold what the device knows besides. The
  operations thread the controller structure through the state monad, as the source threads the pointer
  \<open>ttcan\<close>. Delays are part of the next access; printing is left out.
\<close>

subsection \<open>Registers\<close>

abbreviation (input) ADR_MTTCAN_DBTP :: nat where "ADR_MTTCAN_DBTP \<equiv> 0x00C"
abbreviation (input) ADR_MTTCAN_TEST :: nat where "ADR_MTTCAN_TEST \<equiv> 0x010"
abbreviation (input) ADR_MTTCAN_CCCR :: nat where "ADR_MTTCAN_CCCR \<equiv> 0x018"
abbreviation (input) ADR_MTTCAN_NBTP :: nat where "ADR_MTTCAN_NBTP \<equiv> 0x01C"
abbreviation (input) ADR_MTTCAN_TSCC :: nat where "ADR_MTTCAN_TSCC \<equiv> 0x020"
abbreviation (input) ADR_MTTCAN_PSR :: nat where "ADR_MTTCAN_PSR \<equiv> 0x044"
abbreviation (input) ADR_MTTCAN_IR :: nat where "ADR_MTTCAN_IR \<equiv> 0x050"
abbreviation (input) ADR_MTTCAN_IE :: nat where "ADR_MTTCAN_IE \<equiv> 0x054"
abbreviation (input) ADR_MTTCAN_ILE :: nat where "ADR_MTTCAN_ILE \<equiv> 0x05C"
abbreviation (input) ADR_MTTCAN_GFC :: nat where "ADR_MTTCAN_GFC \<equiv> 0x080"
abbreviation (input) ADR_MTTCAN_SIDFC :: nat where "ADR_MTTCAN_SIDFC \<equiv> 0x084"
abbreviation (input) ADR_MTTCAN_XIDFC :: nat where "ADR_MTTCAN_XIDFC \<equiv> 0x088"
abbreviation (input) ADR_MTTCAN_XIDAM :: nat where "ADR_MTTCAN_XIDAM \<equiv> 0x090"
abbreviation (input) ADR_MTTCAN_RXF0C :: nat where "ADR_MTTCAN_RXF0C \<equiv> 0x0A0"
abbreviation (input) ADR_MTTCAN_RXBC :: nat where "ADR_MTTCAN_RXBC \<equiv> 0x0AC"
abbreviation (input) ADR_MTTCAN_RXF1C :: nat where "ADR_MTTCAN_RXF1C \<equiv> 0x0B0"
abbreviation (input) ADR_MTTCAN_RXESC :: nat where "ADR_MTTCAN_RXESC \<equiv> 0x0BC"
abbreviation (input) ADR_MTTCAN_TXBC :: nat where "ADR_MTTCAN_TXBC \<equiv> 0x0C0"
abbreviation (input) ADR_MTTCAN_TXESC :: nat where "ADR_MTTCAN_TXESC \<equiv> 0x0C8"
abbreviation (input) ADR_MTTCAN_TXBTIE :: nat where "ADR_MTTCAN_TXBTIE \<equiv> 0x0E0"
abbreviation (input) ADR_MTTCAN_TXBCIE :: nat where "ADR_MTTCAN_TXBCIE \<equiv> 0x0E4"
abbreviation (input) ADR_MTTCAN_TXEFC :: nat where "ADR_MTTCAN_TXEFC \<equiv> 0x0F0"
abbreviation (input) ADR_MTTCAN_TTTMC :: nat where "ADR_MTTCAN_TTTMC \<equiv> 0x100"
abbreviation (input) ADR_MTTCAN_TTRMC :: nat where "ADR_MTTCAN_TTRMC \<equiv> 0x104"
abbreviation (input) ADR_MTTCAN_TTOCF :: nat where "ADR_MTTCAN_TTOCF \<equiv> 0x108"
abbreviation (input) ADR_MTTCAN_TTMLM :: nat where "ADR_MTTCAN_TTMLM \<equiv> 0x10C"
abbreviation (input) ADR_MTTCAN_TURCF :: nat where "ADR_MTTCAN_TURCF \<equiv> 0x110"
abbreviation (input) ADR_MTTCAN_TTIR :: nat where "ADR_MTTCAN_TTIR \<equiv> 0x120"
abbreviation (input) ADR_MTTCAN_TTIE :: nat where "ADR_MTTCAN_TTIE \<equiv> 0x124"
abbreviation (input) ADDR_M_TTCAN_CNTRL_REG :: nat where "ADDR_M_TTCAN_CNTRL_REG \<equiv> 0x14"
abbreviation (input) ADDR_M_TTCAN_TIME_STAMP :: nat where "ADDR_M_TTCAN_TIME_STAMP \<equiv> 0x30"

text \<open>The masks that compare a register with what was written to it.\<close>

abbreviation (input) MTTCAN_DBTP_MSK :: u32 where "MTTCAN_DBTP_MSK \<equiv> 0x009F1FFF"
abbreviation (input) MTTCAN_TEST_MSK :: u32 where "MTTCAN_TEST_MSK \<equiv> 0xFFFF8000"
abbreviation (input) MTTCAN_CCCR_MSK :: u32 where "MTTCAN_CCCR_MSK \<equiv> 0x0000F3FF"
abbreviation (input) MTTCAN_NBTP_MSK :: u32 where "MTTCAN_NBTP_MSK \<equiv> 0x03FF3FFF"
abbreviation (input) MTTCAN_GFC_MSK :: u32 where "MTTCAN_GFC_MSK \<equiv> 0x0000003F"
abbreviation (input) MTTCAN_XIDAM_MSK :: u32 where "MTTCAN_XIDAM_MSK \<equiv> 0x1FFFFFFF"
abbreviation (input) MTTCAN_TXBC_MSK :: u32 where "MTTCAN_TXBC_MSK \<equiv> 0x7F3FFFFC"
abbreviation (input) MTTCAN_TXESC_MSK :: u32 where "MTTCAN_TXESC_MSK \<equiv> 0x00000007"
abbreviation (input) MTTCAN_TTRMC_MSK :: u32 where "MTTCAN_TTRMC_MSK \<equiv> 0xDFFFFFFF"

text \<open>The bits of \<open>CCCR\<close> and the loop-back bit of \<open>TEST\<close>.\<close>

abbreviation (input) INIT :: nat where "INIT \<equiv> 0"
abbreviation (input) CCE :: nat where "CCE \<equiv> 1"
abbreviation (input) CSA :: nat where "CSA \<equiv> 3"
abbreviation (input) CSR :: nat where "CSR \<equiv> 4"
abbreviation (input) MON :: nat where "MON \<equiv> 5"
abbreviation (input) DAR :: nat where "DAR \<equiv> 6"
abbreviation (input) TEST :: nat where "TEST \<equiv> 7"
abbreviation (input) FDOE :: nat where "FDOE \<equiv> 8"
abbreviation (input) BRSE :: nat where "BRSE \<equiv> 9"
abbreviation (input) NISO :: nat where "NISO \<equiv> 15"
abbreviation (input) LBCK :: nat where "LBCK \<equiv> 4"

abbreviation (input) MTTCAN_INIT_TIMEOUT :: nat where "MTTCAN_INIT_TIMEOUT \<equiv> 1000"

type_synonym hw = "(nat \<Rightarrow> u32) \<times> mem"
type_synonym 'a hal = "(ttcan_controller, 'a) state"

record can_env =
  run_hw :: "hw \<Rightarrow> hw"
  write_hw :: "nat \<Rightarrow> u32 \<Rightarrow> hw \<Rightarrow> hw"
  lib :: can_lib
  atomic_alloc :: "ttcan_controller \<Rightarrow> bool"
  prod_cfg_by_name :: "string \<Rightarrow> (nat \<times> u32 \<times> u32) list option"

abbreviation "ret \<equiv> State_Monad.return"
abbreviation "gets f \<equiv> State (\<lambda>t. (f t, t))"
abbreviation "modify f \<equiv> State (\<lambda>t. ((), f t))"

definition with_hw :: "(hw \<Rightarrow> hw) \<Rightarrow> ttcan_controller \<Rightarrow> ttcan_controller" where
  "with_hw f t = (case f (regs t, mram t) of (r, m) \<Rightarrow> t\<lparr>regs := r, mram := m\<rparr>)"

definition ttcan_read32 :: "can_env \<Rightarrow> nat \<Rightarrow> u32 hal" where
  "ttcan_read32 E reg = State (\<lambda>t. let t = with_hw (run_hw E) t in (regs t reg, t))"

definition ttcan_write32 :: "can_env \<Rightarrow> nat \<Rightarrow> u32 \<Rightarrow> unit hal" where
  "ttcan_write32 E reg val = State (\<lambda>t. ((), with_hw (\<lambda>h. write_hw E reg val (run_hw E h)) t))"

definition ttcan_xread32 :: "nat \<Rightarrow> u32 hal" where
  "ttcan_xread32 reg = gets (\<lambda>t. xregs t reg)"

definition ttcan_xwrite32 :: "nat \<Rightarrow> u32 \<Rightarrow> unit hal" where
  "ttcan_xwrite32 reg val = modify (\<lambda>t. t\<lparr>xregs := (xregs t)(reg := val)\<rparr>)"

definition ttcan_protected :: "u32 \<Rightarrow> int" where
  "ttcan_protected cccr_reg = (if cccr_reg AND 3 \<noteq> 3 then - EPERM else 0)"

definition ttcan_write32_check :: "can_env \<Rightarrow> nat \<Rightarrow> u32 \<Rightarrow> u32 \<Rightarrow> int hal" where
  "ttcan_write32_check E reg val msk = do {
     ttcan_write32 E reg val;
     ret_val \<leftarrow> ttcan_read32 E reg;
     ret (if ret_val AND msk = val AND msk then 0 else - EIO)
   }"

definition ttcan_set_ok :: "unit hal" where
  "ttcan_set_ok = do {
     val \<leftarrow> ttcan_xread32 ADDR_M_TTCAN_CNTRL_REG;
     ttcan_xwrite32 ADDR_M_TTCAN_CNTRL_REG (val OR flag True 3)
   }"

subsection \<open>Modes\<close>

text \<open>
  The loop that five operations share: read the register, decrease \<open>timeout\<close>, and go on while the
  condition holds and \<open>timeout\<close> is not zero. The results are the final \<open>timeout\<close> and the last value.
\<close>

primrec poll :: "can_env \<Rightarrow> nat \<Rightarrow> (u32 \<Rightarrow> bool) \<Rightarrow> nat \<Rightarrow> (nat \<times> u32) hal" where
  "poll E reg again 0 = ret (0, 0)"
| "poll E reg again (Suc timeout) = do {
     v \<leftarrow> ttcan_read32 E reg;
     if again v \<and> timeout \<noteq> 0 then poll E reg again timeout else ret (timeout, v)
   }"

definition ttcan_set_init :: "can_env \<Rightarrow> int hal" where
  "ttcan_set_init E = do {
     cccr_reg \<leftarrow> ttcan_read32 E ADR_MTTCAN_CCCR;
     if \<not> bit cccr_reg INIT then do {
       ttcan_write32 E ADR_MTTCAN_CCCR (cccr_reg OR 1);
       (timeout, _) \<leftarrow> poll E ADR_MTTCAN_CCCR (\<lambda>v. \<not> bit v INIT) MTTCAN_INIT_TIMEOUT;
       ret (if timeout = 0 then - ETIMEDOUT else 0)
     } else ret 0
   }"

definition ttcan_reset_init :: "can_env \<Rightarrow> int hal" where
  "ttcan_reset_init E = do {
     cccr_reg \<leftarrow> ttcan_read32 E ADR_MTTCAN_CCCR;
     if bit cccr_reg INIT then do {
       ttcan_write32 E ADR_MTTCAN_CCCR (cccr_reg AND NOT 1);
       (timeout, _) \<leftarrow> poll E ADR_MTTCAN_CCCR (\<lambda>v. bit v INIT) MTTCAN_INIT_TIMEOUT;
       ret (if timeout = 0 then - ETIMEDOUT else 0)
     } else ret 0
   }"

definition ttcan_set_config_change_enable :: "can_env \<Rightarrow> int hal" where
  "ttcan_set_config_change_enable E = do {
     r \<leftarrow> ttcan_set_init E;
     if r \<noteq> 0 then ret (- ETIMEDOUT)
     else do {
       cccr_reg \<leftarrow> ttcan_read32 E ADR_MTTCAN_CCCR;
       ttcan_write32 E ADR_MTTCAN_CCCR (cccr_reg OR flag True CCE);
       (timeout, _) \<leftarrow> poll E ADR_MTTCAN_CCCR (\<lambda>v. \<not> bit v CCE) MTTCAN_INIT_TIMEOUT;
       ret (if timeout = 0 then - ETIMEDOUT else 0)
     }
   }"

definition ttcan_set_power :: "can_env \<Rightarrow> int \<Rightarrow> int hal" where
  "ttcan_set_power E value = do {
     cccr_reg \<leftarrow> ttcan_read32 E ADR_MTTCAN_CCCR;
     ttcan_write32 E ADR_MTTCAN_CCCR
       ((cccr_reg AND NOT (flag True CSR)) OR field 1 CSR (NOT (word_of_int value)));
     (timeout, _) \<leftarrow> poll E ADR_MTTCAN_CCCR
       (\<lambda>v. drop_bit CSA (v AND flag True CSA) = word_of_int value) MTTCAN_INIT_TIMEOUT;
     ret (if timeout = 0 then - ETIMEDOUT else 0)
   }"

definition ttcan_reset_config_change_enable :: "can_env \<Rightarrow> unit hal" where
  "ttcan_reset_config_change_enable E = do { _ \<leftarrow> ttcan_reset_init E; ret () }"

text \<open>The value with one bit set or cleared.\<close>

definition put_bit :: "bool \<Rightarrow> nat \<Rightarrow> u32 \<Rightarrow> u32" where
  "put_bit b n v = (if b then v OR flag True n else v AND NOT (flag True n))"

definition ttcan_disable_auto_retransmission :: "can_env \<Rightarrow> bool \<Rightarrow> unit hal" where
  "ttcan_disable_auto_retransmission E enable = do {
     cccr_reg \<leftarrow> ttcan_read32 E ADR_MTTCAN_CCCR;
     _ \<leftarrow> ttcan_write32_check E ADR_MTTCAN_CCCR (put_bit enable DAR cccr_reg) MTTCAN_CCCR_MSK;
     ret ()
   }"

definition ttcan_set_loopback :: "can_env \<Rightarrow> int hal" where
  "ttcan_set_loopback E = do {
     cccr_reg \<leftarrow> ttcan_read32 E ADR_MTTCAN_CCCR;
     test_reg \<leftarrow> ttcan_read32 E ADR_MTTCAN_TEST;
     if ttcan_protected cccr_reg \<noteq> 0 then ret (- EPERM)
     else do {
       ttcan_write32 E ADR_MTTCAN_CCCR (cccr_reg OR flag True TEST);
       (timeout, _) \<leftarrow> poll E ADR_MTTCAN_CCCR (\<lambda>v. \<not> bit v TEST) MTTCAN_INIT_TIMEOUT;
       if timeout = 0 then ret (- ETIMEDOUT)
       else ttcan_write32_check E ADR_MTTCAN_TEST (test_reg OR flag True LBCK) MTTCAN_TEST_MSK
     }
   }"

definition ttcan_set_bus_monitoring_mode :: "can_env \<Rightarrow> bool \<Rightarrow> int hal" where
  "ttcan_set_bus_monitoring_mode E enable = do {
     cccr_reg \<leftarrow> ttcan_read32 E ADR_MTTCAN_CCCR;
     if ttcan_protected cccr_reg \<noteq> 0 then ret (- EPERM)
     else ttcan_write32_check E ADR_MTTCAN_CCCR (put_bit enable MON cccr_reg) MTTCAN_CCCR_MSK
   }"

text \<open>\<open>normal_mode_end\<close> is the code after the treatment of the loop-back bit.\<close>

definition normal_mode_end :: "can_env \<Rightarrow> u32 \<Rightarrow> int hal" where
  "normal_mode_end E cccr_reg =
     ttcan_write32_check E ADR_MTTCAN_CCCR
       ((cccr_reg AND NOT (flag True MON)) AND NOT (flag True TEST)) MTTCAN_CCCR_MSK"

definition ttcan_set_normal_mode :: "can_env \<Rightarrow> int hal" where
  "ttcan_set_normal_mode E = do {
     cccr_reg \<leftarrow> ttcan_read32 E ADR_MTTCAN_CCCR;
     test_reg \<leftarrow> ttcan_read32 E ADR_MTTCAN_TEST;
     if ttcan_protected cccr_reg \<noteq> 0 then ret (- EPERM)
     else if bit test_reg LBCK then do {
       let test_reg = test_reg AND NOT (flag True LBCK);
       (timeout, cccr_reg) \<leftarrow>
         (if \<not> bit cccr_reg TEST then do {
            ttcan_write32 E ADR_MTTCAN_CCCR (cccr_reg OR flag True TEST);
            poll E ADR_MTTCAN_CCCR (\<lambda>v. \<not> bit v TEST) MTTCAN_INIT_TIMEOUT
          } else ret (1, cccr_reg));
       if timeout = 0 then ret (- ETIMEDOUT)
       else do {
         _ \<leftarrow> ttcan_write32_check E ADR_MTTCAN_TEST test_reg MTTCAN_TEST_MSK;
         normal_mode_end E cccr_reg
       }
     } else normal_mode_end E cccr_reg
   }"

subsection \<open>Bit timing\<close>

definition nbtp_of :: "ttcan_bittiming \<Rightarrow> u32" where
  "nbtp_of b = field 7 0 (phase_seg2 b - 1) OR field 8 8 (phase_seg1 b + prop_seg b - 1)
     OR field 7 25 (sjw b - 1) OR field 9 16 (brp b - 1)"

definition dbtp_of :: "ttcan_bittiming \<Rightarrow> u32" where
  "dbtp_of b = field 4 4 (phase_seg2 b - 1) OR field 5 8 (phase_seg1 b + prop_seg b - 1)
     OR field 4 0 (sjw b - 1) OR field 5 16 (brp b - 1) OR field 1 23 (bt_tdc b)"

primrec write_prods :: "can_env \<Rightarrow> (nat \<times> u32 \<times> u32) list \<Rightarrow> unit hal" where
  "write_prods E [] = ret ()"
| "write_prods E (p # ps) = (case p of (reg_offset, reg_mask, reg_value) \<Rightarrow> do {
     rval \<leftarrow> ttcan_read32 E reg_offset;
     ttcan_write32 E reg_offset ((rval AND NOT reg_mask) OR reg_value);
     write_prods E ps
   })"

definition tegra_mttcan_write_prod_settings :: "can_env \<Rightarrow> string \<Rightarrow> unit hal" where
  "tegra_mttcan_write_prod_settings E prod_name =
     (case prod_cfg_by_name E prod_name of None \<Rightarrow> ret () | Some ps \<Rightarrow> write_prods E ps)"

definition tegra_mttcan_config_prod_settings :: "can_env \<Rightarrow> unit hal" where
  "tegra_mttcan_config_prod_settings E = do {
     rate \<leftarrow> gets (\<lambda>t. bitrate (bt_data t));
     tegra_mttcan_write_prod_settings E
       (if rate = 5000000 then ''prod_c_can_5m'' else if rate = 8333333 then ''prod_c_can_8m''
        else ''prod_c_can_2m_1m'')
   }"

text \<open>The FD bits of \<open>CCCR\<close> for the flags of the configuration.\<close>

definition cccr_fd :: "u32 \<Rightarrow> u32 \<Rightarrow> u32" where
  "cccr_fd fl cccr = put_bit (bit fl 4) NISO (put_bit (bit fl CAN_BRS_FLAG) BRSE
     (put_bit (bit fl CAN_FD_FLAG) FDOE cccr))"

definition ttcan_set_bitrate :: "can_env \<Rightarrow> int hal" where
  "ttcan_set_bitrate E = do {
     nbtp_reg \<leftarrow> gets (\<lambda>t. nbtp_of (bt_nominal t));
     r \<leftarrow> ttcan_write32_check E ADR_MTTCAN_NBTP nbtp_reg MTTCAN_NBTP_MSK;
     if r \<noteq> 0 then ret r
     else do {
       fl \<leftarrow> gets fd_flags;
       if bit fl CAN_FD_FLAG then do {
         modify (\<lambda>t. t\<lparr>bt_data := (bt_data t)\<lparr>bt_tdc := tdc t\<rparr>\<rparr>);
         dbtp_reg \<leftarrow> gets (\<lambda>t. dbtp_of (bt_data t));
         r \<leftarrow> ttcan_write32_check E ADR_MTTCAN_DBTP dbtp_reg MTTCAN_DBTP_MSK;
         if r \<noteq> 0 then ret r
         else do {
           prods \<leftarrow> gets has_prod_list;
           (if prods then tegra_mttcan_config_prod_settings E else ret ());
           temp_reg \<leftarrow> ttcan_read32 E ADR_MTTCAN_CCCR;
           let cccr_reg = cccr_fd fl temp_reg;
           if temp_reg \<noteq> cccr_reg
           then ttcan_write32_check E ADR_MTTCAN_CCCR cccr_reg MTTCAN_CCCR_MSK
           else ret 0
         }
       } else ret r
     }
   }"

subsection \<open>Buffers and filter lists\<close>

text \<open>
  \<open>1 << n\<close> for an \<open>int\<close>: undefined (\<open>None\<close>) when \<open>n\<close> is 32 or more. An operation whose result is an
  option ends there when it is \<open>None\<close>.
\<close>

definition shl_one :: "u32 \<Rightarrow> u32 option" where
  "shl_one n = (if n < 32 then Some (push_bit (unat n) 1) else None)"

definition rel_addr :: "ttcan_controller \<Rightarrow> ttcan_mram_item \<Rightarrow> u32" where
  "rel_addr t item = drop_bit 2 (ucast (off (mram_cfg t item)))"

definition elems :: "ttcan_controller \<Rightarrow> ttcan_mram_item \<Rightarrow> u32" where
  "elems t item = ucast (num (mram_cfg t item))"

definition txbc_of :: "ttcan_controller \<Rightarrow> u32" where
  "txbc_of t = put_bit (bit (tx_flags t) 0) 30
     (field 14 2 (rel_addr t MRAM_TXB) OR field 6 16 (ded_buff_num t) OR field 6 24 (fifo_q_num t))"

definition ttcan_set_tx_buffer_addr :: "can_env \<Rightarrow> int option hal" where
  "ttcan_set_tx_buffer_addr E = do {
     txbc_reg \<leftarrow> gets txbc_of;
     r \<leftarrow> ttcan_write32_check E ADR_MTTCAN_TXBC txbc_reg MTTCAN_TXBC_MSK;
     if r \<noteq> 0 then ret (Some r)
     else do {
       dfs \<leftarrow> gets tx_dfs;
       r \<leftarrow> ttcan_write32_check E ADR_MTTCAN_TXESC (field 3 0 dfs) MTTCAN_TXESC_MSK;
       if r \<noteq> 0 then ret (Some r)
       else do {
         n \<leftarrow> gets (\<lambda>t. ded_buff_num t + fifo_q_num t);
         case shl_one n of None \<Rightarrow> ret None
         | Some v \<Rightarrow> do {
             ttcan_write32 E ADR_MTTCAN_TXBTIE (v - 1);
             ttcan_write32 E ADR_MTTCAN_TXBCIE (v - 1);
             ret (Some r)
           }
       }
     }
   }"

definition ttcan_set_rx_buffers_elements :: "can_env \<Rightarrow> unit hal" where
  "ttcan_set_rx_buffers_elements E = do {
     rxq0 \<leftarrow> gets (\<lambda>t. elems t MRAM_RXF0);
     rxq1 \<leftarrow> gets (\<lambda>t. elems t MRAM_RXF1);
     rxb \<leftarrow> gets (\<lambda>t. rel_addr t MRAM_RXB);
     ttcan_write32 E ADR_MTTCAN_RXBC (field 14 2 rxb);
     rxf0 \<leftarrow> gets (\<lambda>t. rel_addr t MRAM_RXF0);
     ttcan_write32 E ADR_MTTCAN_RXF0C (field 7 24 (rxq0 div 2) OR field 7 16 rxq0 OR field 14 2 rxf0);
     rxf1 \<leftarrow> gets (\<lambda>t. rel_addr t MRAM_RXF1);
     ttcan_write32 E ADR_MTTCAN_RXF1C (field 7 24 (rxq1 div 2) OR field 7 16 rxq1 OR field 14 2 rxf1);
     rxesc_reg \<leftarrow> gets (\<lambda>t. field 3 8 (get_dfs (rxb_dsize t)) OR field 3 0 (get_dfs (rxq0_dsize t))
       OR field 3 4 (get_dfs (rxq1_dsize t)));
     ttcan_write32 E ADR_MTTCAN_RXESC rxesc_reg;
     modify (\<lambda>t. t\<lparr>rx_buffer_size := ucast (8 + rxb_dsize t), rx_fifo0_size := ucast (8 + rxq0_dsize t),
       rx_fifo1_size := ucast (8 + rxq1_dsize t)\<rparr>)
   }"

definition ttcan_set_gfc :: "can_env \<Rightarrow> u32 \<Rightarrow> int hal" where
  "ttcan_set_gfc E regval = ttcan_write32_check E ADR_MTTCAN_GFC regval MTTCAN_GFC_MSK"

definition ttcan_set_xidam :: "can_env \<Rightarrow> u32 \<Rightarrow> int hal" where
  "ttcan_set_xidam E regval = ttcan_write32_check E ADR_MTTCAN_XIDAM regval MTTCAN_XIDAM_MSK"

definition ttcan_set_ttrmc :: "can_env \<Rightarrow> u32 \<Rightarrow> int hal" where
  "ttcan_set_ttrmc E regval = ttcan_write32_check E ADR_MTTCAN_TTRMC regval MTTCAN_TTRMC_MSK"

definition ttcan_set_std_id_filter_addr :: "can_env \<Rightarrow> unit hal" where
  "ttcan_set_std_id_filter_addr E = do {
     v \<leftarrow> gets (\<lambda>t. field 14 2 (rel_addr t MRAM_SIDF) OR field 8 16 (min (elems t MRAM_SIDF) 128));
     ttcan_write32 E ADR_MTTCAN_SIDFC v
   }"

definition ttcan_set_xtd_id_filter_addr :: "can_env \<Rightarrow> unit hal" where
  "ttcan_set_xtd_id_filter_addr E = do {
     v \<leftarrow> gets (\<lambda>t. field 14 2 (rel_addr t MRAM_XIDF) OR field 7 16 (min (elems t MRAM_XIDF) 64));
     ttcan_write32 E ADR_MTTCAN_XIDFC v
   }"

definition ttcan_set_timestamp_offset_sel :: "unit hal" where
  "ttcan_set_timestamp_offset_sel = do {
     val \<leftarrow> ttcan_xread32 ADDR_M_TTCAN_TIME_STAMP;
     ttcan_xwrite32 ADDR_M_TTCAN_TIME_STAMP (val OR 4)
   }"

datatype ttcan_timestamp_source = TS_DISABLE | TS_INTERNAL | TS_EXTERNAL | TS_DISABLE2

definition ts_code :: "ttcan_timestamp_source \<Rightarrow> u32" where
  "ts_code s = (case s of TS_DISABLE \<Rightarrow> 0 | TS_INTERNAL \<Rightarrow> 1 | TS_EXTERNAL \<Rightarrow> 2 | TS_DISABLE2 \<Rightarrow> 3)"

definition ttcan_set_time_stamp_conf :: "can_env \<Rightarrow> u16 \<Rightarrow> ttcan_timestamp_source \<Rightarrow> unit hal" where
  "ttcan_set_time_stamp_conf E timer_prescalar timer_type = do {
     tscc \<leftarrow> (if timer_type = TS_EXTERNAL then do {
         ttcan_set_timestamp_offset_sel;
         ret (field 2 0 (ts_code timer_type))
       } else do {
         let p = min timer_prescalar 15;
         modify (\<lambda>t. t\<lparr>ts_prescalar := ucast p + 1\<rparr>);
         ret (field 4 16 (ucast p) OR field 2 0 (ts_code timer_type))
       });
     ttcan_write32 E ADR_MTTCAN_TSCC tscc
   }"

definition ttcan_set_txevt_fifo_conf :: "can_env \<Rightarrow> unit hal" where
  "ttcan_set_txevt_fifo_conf E = do {
     evf_size \<leftarrow> gets (\<lambda>t. elems t MRAM_TXE);
     a \<leftarrow> gets (\<lambda>t. rel_addr t MRAM_TXE);
     ttcan_write32 E ADR_MTTCAN_TXEFC (field 6 24 (evf_size div 2) OR field 6 16 evf_size OR field 14 2 a);
     modify (\<lambda>t. t\<lparr>evt_q_num := evf_size\<rparr>)
   }"

definition ttcan_set_xtd_mask_add :: "can_env \<Rightarrow> int \<Rightarrow> unit hal" where
  "ttcan_set_xtd_mask_add E extid_mask = ttcan_write32 E ADR_MTTCAN_XIDAM (mask 29 AND 0x1FFFFFFF)"

definition ttcan_controller_init ::
  "ttcan_controller option \<Rightarrow> u32 \<Rightarrow> u32 \<Rightarrow> int \<times> ttcan_controller option" where
  "ttcan_controller_init ttcan irq_flag tt_irq_flag =
     (case ttcan of None \<Rightarrow> (- EINVAL, None)
      | Some t \<Rightarrow> (0, Some (t\<lparr>intr_enable_reg := irq_flag, intr_tt_enable_reg := tt_irq_flag\<rparr>)))"

subsection \<open>Interrupt registers\<close>

definition ttcan_clear_intr :: "can_env \<Rightarrow> unit hal" where
  "ttcan_clear_intr E = ttcan_write32 E ADR_MTTCAN_IR 0xFFFFFFFF"

definition ttcan_clear_tt_intr :: "can_env \<Rightarrow> unit hal" where
  "ttcan_clear_tt_intr E = ttcan_write32 E ADR_MTTCAN_TTIR 0xFFFFFFFF"

definition ttcan_ir_write :: "can_env \<Rightarrow> u32 \<Rightarrow> unit hal" where
  "ttcan_ir_write E v = ttcan_write32 E ADR_MTTCAN_IR v"

definition ttcan_ttir_write :: "can_env \<Rightarrow> u32 \<Rightarrow> unit hal" where
  "ttcan_ttir_write E v = ttcan_write32 E ADR_MTTCAN_TTIR v"

definition ttcan_ier_write :: "can_env \<Rightarrow> u32 \<Rightarrow> unit hal" where
  "ttcan_ier_write E v = ttcan_write32 E ADR_MTTCAN_IE v"

definition ttcan_ttier_write :: "can_env \<Rightarrow> u32 \<Rightarrow> unit hal" where
  "ttcan_ttier_write E v = ttcan_write32 E ADR_MTTCAN_TTIE v"

definition ttcan_set_intrpts :: "can_env \<Rightarrow> bool \<Rightarrow> unit hal" where
  "ttcan_set_intrpts E enable =
     (if enable then do {
        ie \<leftarrow> gets intr_enable_reg;
        ttcan_write32 E ADR_MTTCAN_IE ie;
        ttie \<leftarrow> gets intr_tt_enable_reg;
        ttcan_write32 E ADR_MTTCAN_TTIE ttie;
        ttcan_write32 E ADR_MTTCAN_ILE 1
      } else do {
        ttcan_write32 E ADR_MTTCAN_IE 0;
        ttcan_write32 E ADR_MTTCAN_TTIE 0;
        ttcan_write32 E ADR_MTTCAN_ILE 0
      })"

subsection \<open>Time-triggered operation\<close>

definition ttcan_set_ref_mesg :: "can_env \<Rightarrow> u32 \<Rightarrow> u32 \<Rightarrow> u32 \<Rightarrow> unit hal" where
  "ttcan_set_ref_mesg E ident rmps xtd =
     (let rid = (if xtd \<noteq> 0 then ident AND CAN_EXT_ID_MASK else push_bit 18 (ident AND CAN_STD_ID_MASK))
      in ttcan_write32 E ADR_MTTCAN_TTRMC (field 1 30 xtd OR field 1 31 rmps OR field 29 0 rid))"

definition ttcan_set_tt_config ::
  "can_env \<Rightarrow> u32 \<Rightarrow> u32 \<Rightarrow> u32 \<Rightarrow> u32 \<Rightarrow> u32 \<Rightarrow> u32 \<Rightarrow> u32 \<Rightarrow> u32 \<Rightarrow> u32 \<Rightarrow> u32 \<Rightarrow> unit hal" where
  "ttcan_set_tt_config E evtp ecc egtf awl eecs irto ldsdl tm gen om =
     ttcan_write32 E ADR_MTTCAN_TTOCF (field 1 26 evtp OR field 1 25 ecc OR field 1 24 egtf
       OR field 8 16 awl OR field 1 15 eecs OR field 7 8 irto OR field 3 5 ldsdl OR field 1 4 tm
       OR field 1 3 gen OR field 2 0 om)"

definition validate_matrix_cyc_cnt :: "u32 \<Rightarrow> bool" where
  "validate_matrix_cyc_cnt cyc_num = (if cyc_num \<noteq> 0 \<and> (cyc_num + 1) AND cyc_num \<noteq> 0 then False else True)"

definition ttcan_set_matrix_limits :: "can_env \<Rightarrow> u32 \<Rightarrow> u32 \<Rightarrow> u32 \<Rightarrow> u32 \<Rightarrow> int hal" where
  "ttcan_set_matrix_limits E entt txew css ccm =
     (if \<not> validate_matrix_cyc_cnt ccm \<or> txew > 15 \<or> css > 2 \<or> entt > 4095 then ret (- 1)
      else do {
        ttcan_write32 E ADR_MTTCAN_TTMLM (field 12 16 entt OR field 4 8 txew OR field 2 6 css OR field 6 0 ccm);
        ret 0
      })"

text \<open>The waiting loop of the next operation, which tests before it reads.\<close>

primrec tur_wait :: "can_env \<Rightarrow> nat \<Rightarrow> u32 \<Rightarrow> (nat \<times> u32) hal" where
  "tur_wait E 0 turcf = ret (0, turcf)"
| "tur_wait E (Suc timeout) turcf =
     (if bit turcf 31 then do { turcf \<leftarrow> ttcan_read32 E ADR_MTTCAN_TURCF; tur_wait E timeout turcf }
      else ret (Suc timeout, turcf))"

definition ttcan_set_tur_config :: "can_env \<Rightarrow> u16 \<Rightarrow> u16 \<Rightarrow> bool \<Rightarrow> int hal" where
  "ttcan_set_tur_config E denominator numerator local_timing_enable = do {
     turcf \<leftarrow> ttcan_read32 E ADR_MTTCAN_TURCF;
     if denominator = 0 \<and> local_timing_enable then ret (- 1)
     else do {
       turcf \<leftarrow> (if bit turcf 31 then do {
           let turcf = turcf AND NOT (flag True 31);
           ttcan_write32 E ADR_MTTCAN_TURCF turcf;
           ret turcf
         } else ret turcf);
       if \<not> local_timing_enable then ret 0
       else do {
         (timeout, turcf) \<leftarrow> (if bit turcf 31 then tur_wait E 1000 turcf else ret (1000, turcf));
         if timeout = 0 then ret (- 1)
         else do {
           ttcan_write32 E ADR_MTTCAN_TURCF
             (field 16 0 (ucast numerator) OR field 14 16 (ucast denominator) OR flag True 31);
           ret 0
         }
       }
     }
   }"

definition ttcan_set_trigger_mem_conf :: "can_env \<Rightarrow> unit hal" where
  "ttcan_set_trigger_mem_conf E = do {
     n \<leftarrow> gets (\<lambda>t. min (ucast (num (mram_cfg t MRAM_TMC)) :: u8) 64);
     a \<leftarrow> gets (\<lambda>t. rel_addr t MRAM_TMC);
     ttcan_write32 E ADR_MTTCAN_TTTMC (field 7 16 (ucast n) OR field 14 2 a)
   }"

subsection \<open>Lemmas\<close>

named_theorems hal_simps \<open>running the operations on a controller\<close>

lemma with_hw_simps [simp]:
  "regs (with_hw f t) = fst (f (regs t, mram t))"
  "mram (with_hw f t) = snd (f (regs t, mram t))"
  "with_hw g (with_hw f t) = with_hw (g \<circ> f) t"
  by (simp_all add: with_hw_def split: prod.split)

lemma run_read32 [hal_simps]:
  "run_state (ttcan_read32 E reg) t = (fst (run_hw E (regs t, mram t)) reg, with_hw (run_hw E) t)"
  by (simp add: ttcan_read32_def)

lemma run_write32 [hal_simps]:
  "run_state (ttcan_write32 E reg v) t = ((), with_hw (write_hw E reg v \<circ> run_hw E) t)"
  by (simp add: ttcan_write32_def comp_def)

text \<open>What the \<open>k\<close>-th read of a register gives when nothing is written in between.\<close>

definition value_at :: "can_env \<Rightarrow> nat \<Rightarrow> ttcan_controller \<Rightarrow> nat \<Rightarrow> u32" where
  "value_at E reg t k = fst ((run_hw E ^^ k) (regs t, mram t)) reg"

lemma value_at_with_hw: "value_at E reg (with_hw (run_hw E) t) k = value_at E reg t (Suc k)"
  by (simp add: value_at_def funpow_swap1)

text \<open>
  The polling loop ends at the first value that satisfies the condition if that is not the last one,
  and reports a timeout otherwise.
\<close>

lemma run_poll_Suc:
  "\<exists>k \<le> Suc n. run_state (poll E reg again (Suc n)) t = ((Suc n - k, value_at E reg t k), with_hw (run_hw E ^^ k) t)
     \<and> 0 < k \<and> (\<forall>j. 0 < j \<and> j < k \<longrightarrow> again (value_at E reg t j)) \<and> (k \<noteq> Suc n \<longrightarrow> \<not> again (value_at E reg t k))"
proof (induction n arbitrary: t)
  case 0
  show ?case by (rule exI [of _ 1]) (auto simp: hal_simps value_at_def)
next
  case (Suc n)
  let ?v = "value_at E reg t 1" and ?t = "with_hw (run_hw E) t"
  have read: "run_state (ttcan_read32 E reg) t = (?v, ?t)" by (simp add: hal_simps value_at_def)
  show ?case
  proof (cases "again ?v")
    case False
    then show ?thesis using read by (intro exI [of _ 1]) auto
  next
    case True
    from Suc.IH [of ?t] obtain k where k: "k \<le> Suc n" "0 < k"
      "run_state (poll E reg again (Suc n)) ?t = ((Suc n - k, value_at E reg ?t k), with_hw (run_hw E ^^ k) ?t)"
      "\<forall>j. 0 < j \<and> j < k \<longrightarrow> again (value_at E reg ?t j)" "k \<noteq> Suc n \<longrightarrow> \<not> again (value_at E reg ?t k)" by blast
    have "again (value_at E reg t j)" if "0 < j" "j < Suc k" for j
    proof (cases "j = 1")
      case False
      with that have "0 < j - 1" "j - 1 < k" "j = Suc (j - 1)" by auto
      with k(4) show ?thesis by (metis value_at_with_hw)
    qed (use True in simp)
    with k read True show ?thesis
      by (intro exI [of _ "Suc k"]) (auto simp: value_at_with_hw funpow_Suc_right comp_def simp del: poll.simps(2) funpow.simps
           simp add: poll.simps(2) [of E reg again "Suc n"])
  qed
qed

lemma run_poll:
  assumes "0 < n"
  shows "\<exists>k \<le> n. run_state (poll E reg again n) t = ((n - k, value_at E reg t k), with_hw (run_hw E ^^ k) t)
     \<and> 0 < k \<and> (\<forall>j. 0 < j \<and> j < k \<longrightarrow> again (value_at E reg t j)) \<and> (k \<noteq> n \<longrightarrow> \<not> again (value_at E reg t k))"
proof -
  obtain m where "n = Suc m" using assms by (cases n) auto
  then show ?thesis using run_poll_Suc [of m E reg again t] by blast
qed

text \<open>An operation that changes nothing but the registers and the message RAM.\<close>

definition same_driver :: "ttcan_controller \<Rightarrow> ttcan_controller \<Rightarrow> bool" where
  "same_driver t t' \<longleftrightarrow> (\<exists>r m. t' = t\<lparr>regs := r, mram := m\<rparr>)"

abbreviation hw_only :: "'a hal \<Rightarrow> bool" where "hw_only \<equiv> state_io_rel same_driver"

named_theorems hw_intros \<open>operations that change only the device\<close>

lemma same_driver_refl [simp]: "same_driver t t"
  unfolding same_driver_def by (intro exI [of _ "regs t"] exI [of _ "mram t"]) simp

lemma same_driver_trans: "same_driver t u \<Longrightarrow> same_driver u v \<Longrightarrow> same_driver t v"
  unfolding same_driver_def by clarsimp blast

lemma same_driver_with_hw [simp]: "same_driver t (with_hw f t)"
  by (auto simp: same_driver_def with_hw_def split: prod.split)

lemma hw_only_bind [hw_intros]:
  "hw_only m \<Longrightarrow> (\<And>x. hw_only (f x)) \<Longrightarrow> hw_only (m \<bind> f)"
  by (rule state_io_relI) (auto split: prod.splits intro: same_driver_trans)

lemma hw_only_if [hw_intros]: "hw_only m \<Longrightarrow> hw_only n \<Longrightarrow> hw_only (if b then m else n)"
  by simp

lemma hw_only_prod [hw_intros]: "(\<And>x y. hw_only (f x y)) \<Longrightarrow> hw_only (case p of (x, y) \<Rightarrow> f x y)"
  by (cases p) simp

lemma hw_only_let [hw_intros]: "hw_only (f x) \<Longrightarrow> hw_only (let y = x in f y)"
  by simp

lemma hw_only_basic [hw_intros]:
  "hw_only (ret x)" "hw_only (gets g)" "hw_only (ttcan_read32 E reg)" "hw_only (ttcan_write32 E reg v)"
  by (auto simp: hal_simps)

lemma hw_only_poll [hw_intros]: "hw_only (poll E reg again n)"
  by (induction n) (simp_all add: hw_intros)

lemma hw_only_write32_check [hw_intros]: "hw_only (ttcan_write32_check E reg v k)"
  unfolding ttcan_write32_check_def by (intro hw_intros)

lemma hw_only_set_init [hw_intros]: "hw_only (ttcan_set_init E)"
  unfolding ttcan_set_init_def by (intro hw_intros)

lemma hw_only_modes [hw_intros]:
  "hw_only (ttcan_reset_init E)" "hw_only (ttcan_set_config_change_enable E)"
  "hw_only (ttcan_set_power E v)" "hw_only (ttcan_disable_auto_retransmission E b)"
  "hw_only (ttcan_set_loopback E)" "hw_only (ttcan_set_bus_monitoring_mode E b)" "hw_only (ttcan_set_normal_mode E)"
  unfolding ttcan_reset_init_def ttcan_set_config_change_enable_def ttcan_set_power_def
    ttcan_disable_auto_retransmission_def ttcan_set_loopback_def ttcan_set_bus_monitoring_mode_def
    ttcan_set_normal_mode_def normal_mode_end_def
  by (intro hw_intros)+

text \<open>
  Entering the initialisation mode reports success exactly when the bit is seen at the first read or
  at one of the first 999 reads after it was requested: a bit that appears at the thousandth read is a timeout.
\<close>

theorem can_set_init_result:
  "fst (run_state (ttcan_set_init E) t) =
     (let cccr = value_at E ADR_MTTCAN_CCCR t 1;
          t1 = snd (run_state (ttcan_write32 E ADR_MTTCAN_CCCR (cccr OR 1)) (snd (run_state (ttcan_read32 E ADR_MTTCAN_CCCR) t)))
      in if bit cccr INIT \<or> (\<exists>k > 0. k < 1000 \<and> bit (value_at E ADR_MTTCAN_CCCR t1 k) INIT) then 0 else - ETIMEDOUT)"
proof -
  let ?c = "value_at E ADR_MTTCAN_CCCR t 1" and ?t0 = "snd (run_state (ttcan_read32 E ADR_MTTCAN_CCCR) t)"
  define t1 where "t1 = snd (run_state (ttcan_write32 E ADR_MTTCAN_CCCR (?c OR 1)) ?t0)"
  have r: "run_state (ttcan_read32 E ADR_MTTCAN_CCCR) t = (?c, ?t0)" by (simp add: hal_simps value_at_def)
  have w: "run_state (ttcan_write32 E ADR_MTTCAN_CCCR (?c OR 1)) ?t0 = ((), t1)" by (simp add: t1_def hal_simps)
  have "(0 :: nat) < 1000" by simp
  from run_poll [OF this, of E ADR_MTTCAN_CCCR "\<lambda>v. \<not> bit v INIT" t1]
  obtain k where k: "k \<le> 1000" "0 < k"
    "run_state (poll E ADR_MTTCAN_CCCR (\<lambda>v. \<not> bit v INIT) 1000) t1
      = ((1000 - k, value_at E ADR_MTTCAN_CCCR t1 k), with_hw (run_hw E ^^ k) t1)"
    "\<forall>j. 0 < j \<and> j < k \<longrightarrow> \<not> bit (value_at E ADR_MTTCAN_CCCR t1 j) INIT"
    "k \<noteq> 1000 \<longrightarrow> bit (value_at E ADR_MTTCAN_CCCR t1 k) INIT"
    by blast
  have seen: "(\<exists>k > 0. k < 1000 \<and> bit (value_at E ADR_MTTCAN_CCCR t1 k) INIT) \<longleftrightarrow> k \<noteq> 1000"
  proof (cases "k = 1000")
    case True
    then show ?thesis using k(4) by blast
  next
    case False
    with k(1,2,5) show ?thesis by (intro iffI exI [of _ k]) auto
  qed
  have "fst (run_state (ttcan_set_init E) t) = (if bit ?c INIT \<or> k \<noteq> 1000 then 0 else - ETIMEDOUT)"
    using k(1,3) r w by (auto simp: ttcan_set_init_def split: prod.split)
  then show ?thesis unfolding Let_def t1_def [symmetric] seen .
qed

text \<open>
  Opening the configuration registers returns 0 or a timeout and changes nothing of the controller
  structure but the device; after 0 the device has granted the access.
\<close>

theorem can_config_enabled:
  assumes "run_state (ttcan_set_config_change_enable E) t = (r, t')"
  shows "r \<in> {0, - ETIMEDOUT} \<and> (r = 0 \<longrightarrow> bit (regs t' ADR_MTTCAN_CCCR) CCE)
    \<and> t' = t\<lparr>regs := regs t', mram := mram t'\<rparr>"
proof -
  have "same_driver t t'" using hw_only_modes(2) assms by blast
  then have same: "t' = t\<lparr>regs := regs t', mram := mram t'\<rparr>" by (auto simp: same_driver_def)
  obtain r1 t1 where init: "run_state (ttcan_set_init E) t = (r1, t1)" by fastforce
  show ?thesis
  proof (cases "r1 = 0")
    case False
    with assms init have "r = - ETIMEDOUT" by (auto simp: ttcan_set_config_change_enable_def)
    with same show ?thesis by simp
  next
    case True
    define c where "c = value_at E ADR_MTTCAN_CCCR t1 1"
    define t2 where "t2 = with_hw (run_hw E) t1"
    define t3 where "t3 = snd (run_state (ttcan_write32 E ADR_MTTCAN_CCCR (c OR flag True CCE)) t2)"
    have r: "run_state (ttcan_read32 E ADR_MTTCAN_CCCR) t1 = (c, t2)" by (simp add: hal_simps value_at_def c_def t2_def)
    have w: "run_state (ttcan_write32 E ADR_MTTCAN_CCCR (c OR flag True CCE)) t2 = ((), t3)" by (simp add: t3_def hal_simps)
    have "(0 :: nat) < 1000" by simp
    from run_poll [OF this, of E ADR_MTTCAN_CCCR "\<lambda>v. \<not> bit v CCE" t3]
    obtain k where k: "k \<le> 1000" "run_state (poll E ADR_MTTCAN_CCCR (\<lambda>v. \<not> bit v CCE) 1000) t3
        = ((1000 - k, value_at E ADR_MTTCAN_CCCR t3 k), with_hw (run_hw E ^^ k) t3)"
      "k \<noteq> 1000 \<longrightarrow> bit (value_at E ADR_MTTCAN_CCCR t3 k) CCE" by blast
    have "r = (if k = 1000 then - ETIMEDOUT else 0)" "t' = with_hw (run_hw E ^^ k) t3"
      using assms init True r w k(1,2) by (auto simp: ttcan_set_config_change_enable_def)
    with k(3) same show ?thesis by (auto simp: value_at_def)
  qed
qed

text \<open>
  The wait for the lock of the local time register is dead code: setting the ratio
  behaves, on every device, like the same code without the loop.
\<close>

theorem tur_wait_never_runs:
  "ttcan_set_tur_config E denominator numerator local_timing_enable = do {
     turcf \<leftarrow> ttcan_read32 E ADR_MTTCAN_TURCF;
     if denominator = 0 \<and> local_timing_enable then ret (- 1)
     else do {
       (if bit turcf 31 then ttcan_write32 E ADR_MTTCAN_TURCF (turcf AND NOT (flag True 31)) else ret ());
       if \<not> local_timing_enable then ret 0
       else do {
         ttcan_write32 E ADR_MTTCAN_TURCF
           (field 16 0 (ucast numerator) OR field 14 16 (ucast denominator) OR flag True 31);
         ret 0
       }
     }
   }"
proof -
  have b: "\<not> bit (v AND NOT (flag True 31)) 31" for v :: u32
    by (simp add: flag_def bit_simps)
  show ?thesis
    by (rule state_ext) (simp add: ttcan_set_tur_config_def b Let_def split: prod.split)
qed

text \<open>C4. The number of basic cycles that is accepted is a power of two less one.\<close>

theorem matrix_cycles_accepted: "validate_matrix_cyc_cnt c \<longleftrightarrow> (\<exists>k \<le> 32. c = mask k)"
proof
  assume ok: "validate_matrix_cyc_cnt c"
  show "\<exists>k \<le> 32. c = mask k"
  proof (cases "\<forall>i < 32. bit c i")
    case True
    then have "c = mask 32" by (intro bit_word_eqI) (simp add: bit_simps)
    then show ?thesis by blast
  next
    case False
    define k where "k = (LEAST i. \<not> bit c i)"
    obtain i where i: "i < 32" "\<not> bit c i" using False by blast
    have k: "\<not> bit c k" "k < 32"
      unfolding k_def using i by (rule_tac [1] LeastI) (use i in \<open>auto intro: Least_le le_less_trans\<close>)
    have low: "bit c j" if "j < k" for j
      using not_less_Least that by (auto simp: k_def)
    define d where "d = c AND NOT (mask k)"
    have bit_d: "bit d n \<longleftrightarrow> k < n \<and> bit c n" for n
      using k by (cases "n = k") (auto simp: d_def bit_simps dest: bit_imp_le_length)
    have "c = d OR mask k" using low by (intro bit_word_eqI) (auto simp: d_def bit_simps)
    also have "\<dots> = d + mask k" by (rule disjunctive_add [symmetric]) (auto simp: bit_d bit_simps)
    finally have "c + 1 = d + push_bit k 1" by (simp add: mask_eq_exp_minus_1 push_bit_eq_mult)
    also have "\<dots> = d OR push_bit k 1" by (rule disjunctive_add) (auto simp: bit_d bit_simps)
    finally have s: "c + 1 = d OR push_bit k 1" .
    have "d = 0"
    proof (cases "c = 0")
      case False
      with ok have "(c + 1) AND c = 0" by (auto simp: validate_matrix_cyc_cnt_def split: if_splits)
      then have "\<not> (bit (c + 1) n \<and> bit c n)" for n by (metis bit_and_iff bit_0_eq bot_apply bot_bool_def)
      then show ?thesis using bit_d by (intro bit_word_eqI) (auto simp: s bit_simps)
    qed (simp add: d_def)
    with \<open>c = d OR mask k\<close> k(2) show ?thesis by (intro exI [of _ k]) simp
  qed
next
  assume "\<exists>k \<le> 32. c = mask k"
  then obtain k where "c = mask k" by blast
  then have "c + 1 = push_bit k 1" by (simp add: mask_eq_exp_minus_1 push_bit_eq_mult)
  moreover have "push_bit k 1 AND (mask k :: u32) = 0" by (rule bit_word_eqI) (auto simp: bit_simps)
  ultimately show "validate_matrix_cyc_cnt c" using \<open>c = mask k\<close> by (simp add: validate_matrix_cyc_cnt_def)
qed

text \<open>The limits announced to the CAN core (\<open>native/m_ttcan_linux.c\<close>).\<close>

record can_bittiming_const =
  tseg1_min :: u32
  tseg1_max :: u32
  tseg2_min :: u32
  tseg2_max :: u32
  sjw_max :: u32
  brp_min :: u32
  brp_max :: u32

definition mttcan_normal_bittiming_const :: can_bittiming_const where
  "mttcan_normal_bittiming_const = \<lparr>tseg1_min = 2, tseg1_max = 255, tseg2_min = 0, tseg2_max = 127,
     sjw_max = 127, brp_min = 1, brp_max = 511\<rparr>"

definition mttcan_data_bittiming_const :: can_bittiming_const where
  "mttcan_data_bittiming_const = \<lparr>tseg1_min = 1, tseg1_max = 31, tseg2_min = 0, tseg2_max = 15,
     sjw_max = 15, brp_min = 1, brp_max = 15\<rparr>"

text \<open>A timing within these limits, and the four numbers that the two timing registers hold, less one.\<close>

definition within_limits :: "can_bittiming_const \<Rightarrow> ttcan_bittiming \<Rightarrow> bool" where
  "within_limits c b \<longleftrightarrow> tseg1_min c \<le> prop_seg b + phase_seg1 b \<and> prop_seg b + phase_seg1 b \<le> tseg1_max c
     \<and> tseg2_min c \<le> phase_seg2 b \<and> phase_seg2 b \<le> tseg2_max c \<and> sjw b \<le> sjw_max c
     \<and> brp_min c \<le> brp b \<and> brp b \<le> brp_max c"

definition timing :: "ttcan_bittiming \<Rightarrow> u32 \<times> u32 \<times> u32 \<times> u32" where
  "timing b = (prop_seg b + phase_seg1 b, phase_seg2 b, sjw b, brp b)"

definition nbtp_timing :: "u32 \<Rightarrow> u32 \<times> u32 \<times> u32 \<times> u32" where
  "nbtp_timing r = (take_bit 8 (drop_bit 8 r) + 1, take_bit 7 r + 1, take_bit 7 (drop_bit 25 r) + 1,
     take_bit 9 (drop_bit 16 r) + 1)"

definition dbtp_timing :: "u32 \<Rightarrow> u32 \<times> u32 \<times> u32 \<times> u32" where
  "dbtp_timing r = (take_bit 5 (drop_bit 8 r) + 1, take_bit 4 (drop_bit 4 r) + 1, take_bit 4 r + 1,
     take_bit 5 (drop_bit 16 r) + 1)"

lemma take_bit_pred: "0 < x \<Longrightarrow> x \<le> push_bit n 1 \<Longrightarrow> n < 32 \<Longrightarrow> take_bit n (x - 1) + 1 = (x :: u32)"
proof -
  assume x: "0 < x" "x \<le> push_bit n 1" "n < 32"
  then have "unat x \<le> unat (push_bit n 1 :: u32)" by (simp only: word_le_nat_alt)
  also have "\<dots> = take_bit 32 (2 ^ n)" by (simp only: unsigned_push_bit_eq) simp
  also have "\<dots> = 2 ^ n" by (rule take_bit_nat_eq_self) (use x(3) power_strict_increasing [of n 32 "2 :: nat"] in simp)
  finally have "unat x \<le> 2 ^ n" .
  moreover have "unat (x - 1) = unat x - 1" using x(1) by (simp add: unat_minus_one)
  moreover have "0 < unat x" using x(1) by (simp only: unat_gt_0)
  ultimately have "unat (x - 1) < 2 ^ n" by linarith
  then have "unat (take_bit n (x - 1)) = unat (x - 1)"
    by (simp only: unsigned_take_bit_eq take_bit_nat_eq_self)
  then have "take_bit n (x - 1) = x - 1" by (simp only: word_unat_eq_iff)
  then show ?thesis by simp
qed

lemma nbtp_timing_of:
  "nbtp_timing (nbtp_of b) = (take_bit 8 (phase_seg1 b + prop_seg b - 1) + 1, take_bit 7 (phase_seg2 b - 1) + 1,
     take_bit 7 (sjw b - 1) + 1, take_bit 9 (brp b - 1) + 1)"
  unfolding nbtp_timing_def prod.inject
  by (intro conjI; rule arg_cong [where f = "\<lambda>x. x + 1"]; rule bit_word_eqI) (auto simp: nbtp_of_def field_def bit_simps)

lemma dbtp_timing_of:
  "dbtp_timing (dbtp_of b) = (take_bit 5 (phase_seg1 b + prop_seg b - 1) + 1, take_bit 4 (phase_seg2 b - 1) + 1,
     take_bit 4 (sjw b - 1) + 1, take_bit 5 (brp b - 1) + 1)"
  unfolding dbtp_timing_def prod.inject
  by (intro conjI; rule arg_cong [where f = "\<lambda>x. x + 1"]; rule bit_word_eqI) (auto simp: dbtp_of_def field_def bit_simps)

text \<open>A device whose registers hold what was written to them.\<close>

definition plain_device :: "can_env \<Rightarrow> bool" where
  "plain_device E \<longleftrightarrow> run_hw E = (\<lambda>h. h) \<and> write_hw E = (\<lambda>reg v (r, m). (r(reg := v), m))"

lemma run_plain:
  assumes "plain_device E"
  shows "run_state (ttcan_read32 E reg) t = (regs t reg, t)"
    "run_state (ttcan_write32 E reg v) t = ((), t\<lparr>regs := (regs t)(reg := v)\<rparr>)"
    "run_state (ttcan_write32_check E reg v k) t = (0, t\<lparr>regs := (regs t)(reg := v)\<rparr>)"
  using assms by (simp_all add: plain_device_def hal_simps with_hw_def ttcan_write32_check_def)

lemma nominal_exact:
  assumes "within_limits mttcan_normal_bittiming_const b" "0 < phase_seg2 b" "0 < sjw b"
  shows "nbtp_timing (nbtp_of b) = timing b"
proof -
  have l: "2 \<le> prop_seg b + phase_seg1 b" "prop_seg b + phase_seg1 b \<le> 255" "phase_seg2 b \<le> 127" "sjw b \<le> 127"
    "1 \<le> brp b" "brp b \<le> 511"
    using assms(1) by (simp_all add: within_limits_def mttcan_normal_bittiming_const_def)
  have "0 < prop_seg b + phase_seg1 b" by (rule less_le_trans [OF _ l(1)]) simp
  moreover have "0 < brp b" by (rule less_le_trans [OF _ l(5)]) simp
  moreover have "prop_seg b + phase_seg1 b \<le> push_bit 8 1" by (rule order_trans [OF l(2)]) simp
  moreover have "phase_seg2 b \<le> push_bit 7 1" by (rule order_trans [OF l(3)]) simp
  moreover have "sjw b \<le> push_bit 7 1" by (rule order_trans [OF l(4)]) simp
  moreover have "brp b \<le> push_bit 9 1" by (rule order_trans [OF l(6)]) simp
  ultimately show ?thesis using assms(2,3)
    by (simp only: nbtp_timing_of timing_def add.commute [of "phase_seg1 b"] take_bit_pred)
qed

lemma data_exact:
  assumes "within_limits mttcan_data_bittiming_const b" "0 < phase_seg2 b" "0 < sjw b"
  shows "dbtp_timing (dbtp_of b) = timing b"
proof -
  have l: "1 \<le> prop_seg b + phase_seg1 b" "prop_seg b + phase_seg1 b \<le> 31" "phase_seg2 b \<le> 15" "sjw b \<le> 15"
    "1 \<le> brp b" "brp b \<le> 15"
    using assms(1) by (simp_all add: within_limits_def mttcan_data_bittiming_const_def)
  have "0 < prop_seg b + phase_seg1 b" by (rule less_le_trans [OF _ l(1)]) simp
  moreover have "0 < brp b" by (rule less_le_trans [OF _ l(5)]) simp
  moreover have "prop_seg b + phase_seg1 b \<le> push_bit 5 1" by (rule order_trans [OF l(2)]) simp
  moreover have "phase_seg2 b \<le> push_bit 4 1" by (rule order_trans [OF l(3)]) simp
  moreover have "sjw b \<le> push_bit 4 1" by (rule order_trans [OF l(4)]) simp
  moreover have "brp b \<le> push_bit 5 1" by (rule order_trans [OF l(6)]) simp
  ultimately show ?thesis using assms(2,3)
    by (simp only: dbtp_timing_of timing_def add.commute [of "phase_seg1 b"] take_bit_pred)
qed

lemma bit_put_bit: "n < 32 \<Longrightarrow> bit (put_bit b n v) m \<longleftrightarrow> (if m = n then b else bit v m)"
  by (auto simp: put_bit_def bit_flag bit_or_iff bit_and_iff bit_not_iff dest: bit_imp_le_length)

text \<open>
  A second phase segment of length 0, which the limits of the driver allow, is programmed as 128.
\<close>

lemma nominal_zero_segment:
  "phase_seg2 b = 0 \<Longrightarrow> fst (snd (nbtp_timing (nbtp_of b))) = 128"
  by (simp add: nbtp_timing_of take_bit_minus_one_eq_mask mask_eq_exp_minus_1)

text \<open>
  C39. On a device that keeps what is written, a bit rate within the limits that the driver announces, whose
  second segments and jump widths are not 0, is programmed without error. The nominal timing register holds exactly
  the timing asked for. With the FD flag, so does the data timing register, and the FD bits of the control register are those of the
  configuration; without it, every other register, the FD bits included, stays as it was. The controller has no list of
  settings for the chip (\<open>prod_list\<close>): these are written over the data timing register.
\<close>

theorem can_bit_timing_programmed:
  assumes "plain_device E" "\<not> has_prod_list t"
    "within_limits mttcan_normal_bittiming_const (bt_nominal t)" "0 < phase_seg2 (bt_nominal t)" "0 < sjw (bt_nominal t)"
    "bit (fd_flags t) CAN_FD_FLAG \<Longrightarrow> within_limits mttcan_data_bittiming_const (bt_data t) \<and> 0 < phase_seg2 (bt_data t) \<and> 0 < sjw (bt_data t)"
    "run_state (ttcan_set_bitrate E) t = (r, t')"
  shows "r = 0 \<and> nbtp_timing (regs t' ADR_MTTCAN_NBTP) = timing (bt_nominal t)
    \<and> (if bit (fd_flags t) CAN_FD_FLAG
       then dbtp_timing (regs t' ADR_MTTCAN_DBTP) = timing (bt_data t)
         \<and> (\<forall>n. bit (regs t' ADR_MTTCAN_CCCR) n = (if n = FDOE then True else if n = BRSE then bit (fd_flags t) CAN_BRS_FLAG
               else if n = NISO then bit (fd_flags t) 4 else bit (regs t ADR_MTTCAN_CCCR) n))
       else \<forall>reg. reg \<noteq> ADR_MTTCAN_NBTP \<longrightarrow> regs t' reg = regs t reg)"
proof (cases "bit (fd_flags t) CAN_FD_FLAG")
  case True
  define d where "d = (bt_data t)\<lparr>bt_tdc := tdc t\<rparr>"
  have d: "within_limits mttcan_data_bittiming_const d" "0 < phase_seg2 d" "0 < sjw d" "timing d = timing (bt_data t)"
    using assms(6) [OF True] by (simp_all add: d_def within_limits_def timing_def)
  let ?c = "regs t ADR_MTTCAN_CCCR" and ?fl = "fd_flags t"
  let ?regs = "(regs t)(ADR_MTTCAN_NBTP := nbtp_of (bt_nominal t), ADR_MTTCAN_DBTP := dbtp_of d)"
  have "r = 0 \<and> regs t' = (if ?c \<noteq> cccr_fd ?fl ?c then ?regs(ADR_MTTCAN_CCCR := cccr_fd ?fl ?c) else ?regs)"
    using assms(2,7) True by (auto simp: ttcan_set_bitrate_def run_plain [OF assms(1)] d_def split: if_splits)
  moreover have "regs t' ADR_MTTCAN_CCCR = cccr_fd ?fl ?c" using calculation by auto
  moreover have "bit (cccr_fd ?fl ?c) n = (if n = FDOE then True else if n = BRSE then bit ?fl CAN_BRS_FLAG
      else if n = NISO then bit ?fl 4 else bit ?c n)" for n
    using True by (simp add: cccr_fd_def bit_put_bit)
  ultimately show ?thesis
    using nominal_exact [OF assms(3-5)] data_exact [OF d(1-3)] d(4) True by auto
next
  case False
  then have "r = 0" "regs t' = (regs t)(ADR_MTTCAN_NBTP := nbtp_of (bt_nominal t))"
    using assms(7) by (auto simp: ttcan_set_bitrate_def run_plain [OF assms(1)] split: if_splits)
  with False show ?thesis using nominal_exact [OF assms(3-5)] by simp
qed

text \<open>A poll that succeeds at the first read.\<close>

lemma run_poll_hit:
  assumes "1 < n" "\<not> again (value_at E reg t 1)"
  shows "run_state (poll E reg again n) t = ((n - 1, value_at E reg t 1), with_hw (run_hw E) t)"
proof -
  obtain m where "n = Suc m" using assms by (cases n) auto
  then show ?thesis using assms by (simp add: hal_simps value_at_def)
qed

definition plain_env :: can_env where
  "plain_env = \<lparr>run_hw = (\<lambda>h. h), write_hw = (\<lambda>reg v (r, m). (r(reg := v), m)), lib = linux_tables,
     atomic_alloc = (\<lambda>_. True), prod_cfg_by_name = (\<lambda>_. None)\<rparr>"

lemma plain_env: "plain_device plain_env"
  by (simp add: plain_device_def plain_env_def)

lemma run_plain_poll:
  assumes "plain_device E" "1 < n" "\<not> again (regs t reg)"
  shows "run_state (poll E reg again n) t = ((n - 1, regs t reg), t)"
proof -
  have "value_at E reg t 1 = regs t reg" "with_hw (run_hw E) t = t"
    using assms(1) by (simp_all add: value_at_def plain_device_def with_hw_def)
  then show ?thesis using run_poll_hit [OF assms(2), of again E reg t] assms(3) by simp
qed

theorem can_config_enabled_witness:
  "\<exists>t'. run_state (ttcan_set_config_change_enable plain_env) demo_can = (0, t') \<and> bit (regs t' ADR_MTTCAN_CCCR) CCE"
proof -
  obtain r t' where run: "run_state (ttcan_set_config_change_enable plain_env) demo_can = (r, t')" by fastforce
  then have "r = 0"
    by (auto simp: ttcan_set_config_change_enable_def ttcan_set_init_def run_plain [OF plain_env]
      run_plain_poll [OF plain_env] bit_or_iff bit_flag demo_can_def)
  with can_config_enabled [OF run] run show ?thesis by auto
qed

theorem can_bit_timing_programmed_witness:
  "\<exists>t'. run_state (ttcan_set_bitrate plain_env) (demo_can\<lparr>fd_flags := 5\<rparr>) = (0, t')
    \<and> nbtp_timing (regs t' ADR_MTTCAN_NBTP) = (13, 2, 1, 5)"
proof -
  let ?t = "demo_can\<lparr>fd_flags := 5\<rparr>"
  obtain r t' where run: "run_state (ttcan_set_bitrate plain_env) ?t = (r, t')" by fastforce
  have t: "\<not> has_prod_list ?t" "bit (fd_flags ?t) CAN_FD_FLAG" "bt_nominal ?t = demo_timing" "bt_data ?t = demo_timing"
    by (simp_all add: demo_can_def bit_numeral_rec)
  have l: "within_limits mttcan_normal_bittiming_const demo_timing" "within_limits mttcan_data_bittiming_const demo_timing"
    "0 < phase_seg2 demo_timing" "0 < sjw demo_timing" "timing demo_timing = (13, 2, 1, 5)"
    by (simp_all add: within_limits_def mttcan_normal_bittiming_const_def mttcan_data_bittiming_const_def
      demo_timing_def timing_def)
  from can_bit_timing_programmed [OF plain_env t(1), unfolded t(3,4), OF l(1,3,4) _ run] run l(2-5) t(2)
  show ?thesis by auto
qed

text \<open>
  The mask that checks the test register leaves out the loop-back bit: on a device that ignores
  writes to this register, setting the loop-back mode reports success.
\<close>

definition no_loopback_env :: can_env where
  "no_loopback_env = plain_env\<lparr>write_hw := (\<lambda>reg v (r, m). (if reg = ADR_MTTCAN_TEST then r else r(reg := v), m))\<rparr>"

lemma loopback_not_checked:
  "\<exists>t'. run_state (ttcan_set_loopback no_loopback_env) (demo_can\<lparr>regs := (\<lambda>_. 3)\<rparr>) = (0, t')
     \<and> \<not> bit (regs t' ADR_MTTCAN_TEST) LBCK"
proof -
  let ?t = "demo_can\<lparr>regs := (\<lambda>_. 3)\<rparr>"
  have rw: "run_state (ttcan_read32 no_loopback_env reg) t = (regs t reg, t)"
    "run_state (ttcan_write32 no_loopback_env reg v) t
      = ((), t\<lparr>regs := (if reg = ADR_MTTCAN_TEST then regs t else (regs t)(reg := v))\<rparr>)" for t reg v
    by (simp_all add: no_loopback_env_def plain_env_def hal_simps with_hw_def)
  have "run_state (poll no_loopback_env ADR_MTTCAN_CCCR (\<lambda>v. \<not> bit v TEST) 1000)
      (?t\<lparr>regs := (regs ?t)(ADR_MTTCAN_CCCR := 3 OR flag True TEST)\<rparr>)
    = ((999, 3 OR flag True TEST), ?t\<lparr>regs := (regs ?t)(ADR_MTTCAN_CCCR := 3 OR flag True TEST)\<rparr>)"
    by (subst run_poll_hit)
       (simp_all add: value_at_def no_loopback_env_def plain_env_def bit_or_iff bit_flag with_hw_def)
  then show ?thesis
    by (simp add: ttcan_set_loopback_def ttcan_write32_check_def rw ttcan_protected_def flag_def bit_numeral_rec)
qed

end
