(* ===== verification/Mttcan_Queue.thy ===== *)
theory Mttcan_Queue
  imports Mttcan_Ctrl
begin

text \<open>
  The MTTCAN controller: the lists of received frames and transmit events (\<open>hal/m_ttcan_list.c\<close>), the
  reception from the buffers and FIFOs of the message RAM and the transmission
  (\<open>hal/m_ttcan.c\<close>).

  A list is a list of elements, oldest first. \<open>atomic_alloc\<close> tells whether the allocation of an
  element succeeds. \<open>None\<close> is undefined behaviour: a shift by 32 or more, an index outside an array.
\<close>

subsection \<open>Lists\<close>

datatype ttcan_rx_type = BUFFER | FIFO_0 | FIFO_1 | TX_EVT

definition rx_type_code :: "ttcan_rx_type \<Rightarrow> u16" where
  "rx_type_code rxtype = (case rxtype of BUFFER \<Rightarrow> 1 | FIFO_0 \<Rightarrow> 2 | FIFO_1 \<Rightarrow> 4 | TX_EVT \<Rightarrow> 8)"

abbreviation (input) TTCAN_MAX_LIST_MEMBERS :: int where "TTCAN_MAX_LIST_MEMBERS \<equiv> 128"

definition is_msg_list_full :: "ttcan_controller \<Rightarrow> ttcan_rx_type \<Rightarrow> u16" where
  "is_msg_list_full t rxtype = list_status t AND rx_type_code rxtype AND 0xFF"

text \<open>The argument \<open>rx_q\<close>: which of the three lists it points to.\<close>

datatype rx_list = RX_Q0 | RX_Q1 | RX_B

definition list_add_tail :: "rx_list \<Rightarrow> ttcanfd_frame \<Rightarrow> ttcan_controller \<Rightarrow> ttcan_controller" where
  "list_add_tail q f t = (case q of
      RX_Q0 \<Rightarrow> t\<lparr>rx_q0 := rx_q0 t @ [f]\<rparr> | RX_Q1 \<Rightarrow> t\<lparr>rx_q1 := rx_q1 t @ [f]\<rparr> | RX_B \<Rightarrow> t\<lparr>rx_b := rx_b t @ [f]\<rparr>)"

definition status_if :: "bool \<Rightarrow> ttcan_rx_type \<Rightarrow> ttcan_controller \<Rightarrow> ttcan_controller" where
  "status_if full rxtype t = (if full then t\<lparr>list_status := list_status t OR rx_type_code rxtype\<rparr> else t)"

definition count_msg :: "ttcan_rx_type \<Rightarrow> ttcan_controller \<Rightarrow> ttcan_controller" where
  "count_msg rxtype t = (case rxtype of
      BUFFER \<Rightarrow> status_if (rxb_mem t + 1 \<ge> TTCAN_MAX_LIST_MEMBERS) BUFFER (t\<lparr>rxb_mem := rxb_mem t + 1\<rparr>)
    | FIFO_0 \<Rightarrow> status_if (rxq0_mem t + 1 \<ge> TTCAN_MAX_LIST_MEMBERS) FIFO_0 (t\<lparr>rxq0_mem := rxq0_mem t + 1\<rparr>)
    | FIFO_1 \<Rightarrow> status_if (rxq1_mem t + 1 \<ge> TTCAN_MAX_LIST_MEMBERS) FIFO_1 (t\<lparr>rxq1_mem := rxq1_mem t + 1\<rparr>)
    | TX_EVT \<Rightarrow> t)"

definition add_msg_controller_list :: "can_env \<Rightarrow> ttcanfd_frame \<Rightarrow> rx_list \<Rightarrow> ttcan_rx_type \<Rightarrow> int hal" where
  "add_msg_controller_list E ttcanfd rx_q rxtype = do {
     allocated \<leftarrow> gets (atomic_alloc E);
     if \<not> allocated then ret (- ENOMEM)
     else do {
       full \<leftarrow> gets (\<lambda>t. is_msg_list_full t rxtype);
       if full \<noteq> 0 then ret (- ENOMEM)
       else do {
         modify (list_add_tail rx_q ttcanfd);
         modify (count_msg rxtype);
         ret 0
       }
     }
   }"

definition add_event_controller_list :: "can_env \<Rightarrow> u32 \<times> u32 \<Rightarrow> int hal" where
  "add_event_controller_list E txevt = do {
     allocated \<leftarrow> gets (atomic_alloc E);
     if \<not> allocated then ret (- ENOMEM)
     else do {
       full \<leftarrow> gets (\<lambda>t. is_msg_list_full t TX_EVT);
       if full \<noteq> 0 then ret (- 1)
       else do {
         modify (\<lambda>t. t\<lparr>tx_evt := tx_evt t @ [txevt]\<rparr>);
         modify (\<lambda>t. status_if (evt_mem t + 1 \<ge> TTCAN_MAX_LIST_MEMBERS) TX_EVT (t\<lparr>evt_mem := evt_mem t + 1\<rparr>));
         ret 0
       }
     }
   }"

subsection \<open>Reception\<close>

abbreviation (input) ADR_MTTCAN_HPMS :: nat where "ADR_MTTCAN_HPMS \<equiv> 0x094"
abbreviation (input) ADR_MTTCAN_NDAT1 :: nat where "ADR_MTTCAN_NDAT1 \<equiv> 0x098"
abbreviation (input) ADR_MTTCAN_NDAT2 :: nat where "ADR_MTTCAN_NDAT2 \<equiv> 0x09C"
abbreviation (input) ADR_MTTCAN_TXFQS :: nat where "ADR_MTTCAN_TXFQS \<equiv> 0x0C4"
abbreviation (input) ADR_MTTCAN_TXBRP :: nat where "ADR_MTTCAN_TXBRP \<equiv> 0x0CC"
abbreviation (input) ADR_MTTCAN_TXBAR :: nat where "ADR_MTTCAN_TXBAR \<equiv> 0x0D0"
abbreviation (input) ADR_MTTCAN_TXBCR :: nat where "ADR_MTTCAN_TXBCR \<equiv> 0x0D4"
abbreviation (input) ADR_MTTCAN_TXBTO :: nat where "ADR_MTTCAN_TXBTO \<equiv> 0x0D8"
abbreviation (input) ADR_MTTCAN_TXBCF :: nat where "ADR_MTTCAN_TXBCF \<equiv> 0x0DC"
abbreviation (input) ADR_MTTCAN_TXEFS :: nat where "ADR_MTTCAN_TXEFS \<equiv> 0x0F4"
abbreviation (input) ADR_MTTCAN_TXEFA :: nat where "ADR_MTTCAN_TXEFA \<equiv> 0x0F8"

text \<open>The library function \<open>ffs\<close>: one more than the position of the lowest bit, 0 if there is none.\<close>

definition ffs :: "u32 \<Rightarrow> nat" where
  "ffs v = (case find (bit v) [0..<32] of None \<Rightarrow> 0 | Some i \<Rightarrow> Suc i)"

definition zero_frame :: ttcanfd_frame where
  "zero_frame = \<lparr>can_id = 0, d_len = 0, flags = 0, data = replicate MAX_RX_ENTRIES 0, tstamp = 0\<rparr>"

definition elem_addr :: "ttcan_controller \<Rightarrow> ttcan_mram_item \<Rightarrow> u16 \<Rightarrow> u32 \<Rightarrow> u32" where
  "elem_addr t item elem_bytes idx = ucast (off (mram_cfg t item)) + idx * ucast elem_bytes"

definition read_elem :: "can_env \<Rightarrow> u32 \<Rightarrow> ttcanfd_frame \<Rightarrow> ttcanfd_frame option hal" where
  "read_elem E read_addr f = gets (\<lambda>t.
     case ttcan_read_rx_msg_ram (lib E) (mram t) (unat read_addr) (Some f) of Some (_, f') \<Rightarrow> f' | None \<Rightarrow> None)"

definition process_rx_mesg :: "can_env \<Rightarrow> u32 \<Rightarrow> int option hal" where
  "process_rx_mesg E addr = do {
     f \<leftarrow> read_elem E addr zero_frame;
     case f of None \<Rightarrow> ret None
     | Some f \<Rightarrow> do { r \<leftarrow> add_msg_controller_list E f RX_B BUFFER; ret (Some r) }
   }"

text \<open>
  One of the two halves of a turn of the loop over the new-data flags: the buffer of the lowest flag
  of one register. The result \<open>Some False\<close> means that the loop returns.
\<close>

definition rx_buffer_half :: "can_env \<Rightarrow> nat \<Rightarrow> u32 \<Rightarrow> u32 \<Rightarrow> bool option hal" where
  "rx_buffer_half E reg ndat bit_set =
     (if ndat = 0 then ret (Some True)
      else do {
        read_addr \<leftarrow> gets (\<lambda>t. elem_addr t MRAM_RXB (rx_buffer_size t) bit_set);
        r \<leftarrow> process_rx_mesg E read_addr;
        case r of None \<Rightarrow> ret None
        | Some r \<Rightarrow>
          if r \<noteq> 0 then ret (Some False)
          else case shl_one bit_set of None \<Rightarrow> ret None
            | Some b \<Rightarrow> do { ttcan_write32 E reg b; ret (Some True) }
      })"

text \<open>
  The loop of \<open>ttcan_read_rx_buffer\<close>; every turn clears a flag, so 64 turns are enough. A turn that finds one of
  the registers empty shifts by \<open>ffs(0) - 1\<close>, that is by \<open>2 ^ 32 - 1\<close>.
\<close>

primrec rx_buffer_loop :: "can_env \<Rightarrow> nat \<Rightarrow> u32 \<Rightarrow> u32 \<Rightarrow> int \<Rightarrow> int option hal" where
  "rx_buffer_loop E 0 ndat1 ndat2 msgs_read = ret (Some msgs_read)"
| "rx_buffer_loop E (Suc fuel) ndat1 ndat2 msgs_read =
     (if ndat1 = 0 \<and> ndat2 = 0 then ret (Some msgs_read)
      else let bit_set1 = word_of_nat (ffs ndat1) - 1; bit_set2 = word_of_nat (ffs ndat2) - 1 in do {
        go1 \<leftarrow> rx_buffer_half E ADR_MTTCAN_NDAT1 ndat1 bit_set1;
        case go1 of None \<Rightarrow> ret None
        | Some False \<Rightarrow> ret (Some msgs_read)
        | Some True \<Rightarrow> do {
            let n1 = msgs_read + (if ndat1 \<noteq> 0 then 1 else 0);
            go2 \<leftarrow> rx_buffer_half E ADR_MTTCAN_NDAT2 ndat2 bit_set2;
            case go2 of None \<Rightarrow> ret None
            | Some False \<Rightarrow> ret (Some n1)
            | Some True \<Rightarrow>
              (case (shl_one bit_set1, shl_one bit_set2) of
                 (Some b1, Some b2) \<Rightarrow>
                   rx_buffer_loop E fuel (ndat1 AND NOT b1) (ndat2 AND NOT b2)
                     (n1 + (if ndat2 \<noteq> 0 then 1 else 0))
               | _ \<Rightarrow> ret None)
          }
      })"

definition ttcan_read_rx_buffer :: "can_env \<Rightarrow> int option hal" where
  "ttcan_read_rx_buffer E = do {
     ndat1 \<leftarrow> ttcan_read32 E ADR_MTTCAN_NDAT1;
     ndat2 \<leftarrow> ttcan_read32 E ADR_MTTCAN_NDAT2;
     rx_buffer_loop E 64 ndat1 ndat2 0
   }"

primrec txevt_loop :: "can_env \<Rightarrow> nat \<Rightarrow> u32 \<Rightarrow> int \<Rightarrow> int hal" where
  "txevt_loop E 0 txefs msgs_read = ret msgs_read"
| "txevt_loop E (Suc q_read) txefs msgs_read =
     (if take_bit 6 txefs = 0 then ret msgs_read
      else do {
        let get_idx = take_bit 5 (drop_bit 8 txefs);
        txevt \<leftarrow> gets (\<lambda>t. the (snd (ttcan_read_txevt_ram (mram t) (unat (elem_addr t MRAM_TXE 8 get_idx)) (Some (0, 0)))));
        r \<leftarrow> add_event_controller_list E txevt;
        if r < 0 then ret msgs_read
        else do {
          ttcan_write32 E ADR_MTTCAN_TXEFA get_idx;
          txefs \<leftarrow> ttcan_read32 E ADR_MTTCAN_TXEFS;
          txevt_loop E q_read txefs (msgs_read + 1)
        }
      })"

definition ttcan_read_txevt_fifo :: "can_env \<Rightarrow> int hal" where
  "ttcan_read_txevt_fifo E = do {
     txefs \<leftarrow> ttcan_read32 E ADR_MTTCAN_TXEFS;
     if take_bit 6 txefs = 0 then ret 0
     else do {
       q_read \<leftarrow> gets (\<lambda>t. unat (evt_q_num t));
       txevt_loop E q_read txefs 0
     }
   }"

text \<open>The receive FIFOs. The code of the second repeats that of the first with other registers.\<close>

datatype rx_fifo = F0 | F1

definition fifo_status :: "rx_fifo \<Rightarrow> nat" where "fifo_status q = (case q of F0 \<Rightarrow> 0x0A4 | F1 \<Rightarrow> 0x0B4)"
definition fifo_ack :: "rx_fifo \<Rightarrow> nat" where "fifo_ack q = (case q of F0 \<Rightarrow> 0x0A8 | F1 \<Rightarrow> 0x0B8)"
definition fifo_item :: "rx_fifo \<Rightarrow> ttcan_mram_item" where "fifo_item q = (case q of F0 \<Rightarrow> MRAM_RXF0 | F1 \<Rightarrow> MRAM_RXF1)"

definition fifo_elem_size :: "rx_fifo \<Rightarrow> ttcan_controller \<Rightarrow> u16" where
  "fifo_elem_size q t = (case q of F0 \<Rightarrow> rx_fifo0_size t | F1 \<Rightarrow> rx_fifo1_size t)"

definition fifo_bmsk :: "rx_fifo \<Rightarrow> ttcan_controller \<Rightarrow> u64" where
  "fifo_bmsk q t = (case q of F0 \<Rightarrow> rxq0_bmsk t | F1 \<Rightarrow> rxq1_bmsk t)"

definition set_fifo_bmsk :: "rx_fifo \<Rightarrow> u64 \<Rightarrow> ttcan_controller \<Rightarrow> ttcan_controller" where
  "set_fifo_bmsk q b t = (case q of F0 \<Rightarrow> t\<lparr>rxq0_bmsk := b\<rparr> | F1 \<Rightarrow> t\<lparr>rxq1_bmsk := b\<rparr>)"

definition fifo_add :: "can_env \<Rightarrow> rx_fifo \<Rightarrow> ttcanfd_frame \<Rightarrow> int hal" where
  "fifo_add E q f = (case q of F0 \<Rightarrow> add_msg_controller_list E f RX_Q0 FIFO_0
     | F1 \<Rightarrow> add_msg_controller_list E f RX_Q1 FIFO_1)"

text \<open>
  The mask of a get index is an \<open>int\<close>, which the comparison with the 64-bit mask sign-extends; the
  inverted mask is a 32-bit number, which is zero-extended. The frame \<open>f\<close> is the one local buffer of the loop.
\<close>

primrec fifo_loop :: "can_env \<Rightarrow> rx_fifo \<Rightarrow> nat \<Rightarrow> u32 \<Rightarrow> ttcanfd_frame \<Rightarrow> int \<Rightarrow> int option hal" where
  "fifo_loop E q 0 status f msgs_read = ret (Some msgs_read)"
| "fifo_loop E q (Suc q_read) status f msgs_read =
     (if take_bit 7 status = 0 then ret (Some msgs_read)
      else let get_idx = take_bit 6 (drop_bit 8 status) in do {
        bmsk \<leftarrow> gets (fifo_bmsk q);
        case shl_one get_idx of None \<Rightarrow> ret None
        | Some b \<Rightarrow>
          if bmsk AND scast b \<noteq> 0 then do {
            ttcan_write32 E (fifo_ack q) get_idx;
            modify (set_fifo_bmsk q (bmsk AND ucast (NOT b)));
            status \<leftarrow> ttcan_read32 E (fifo_status q);
            fifo_loop E q q_read status f msgs_read
          } else do {
            read_addr \<leftarrow> gets (\<lambda>t. elem_addr t (fifo_item q) (fifo_elem_size q t) get_idx);
            f' \<leftarrow> read_elem E read_addr f;
            case f' of None \<Rightarrow> ret None
            | Some f' \<Rightarrow> do {
                r \<leftarrow> fifo_add E q f';
                if r < 0 then ret (Some msgs_read)
                else do {
                  ttcan_write32 E (fifo_ack q) get_idx;
                  status \<leftarrow> ttcan_read32 E (fifo_status q);
                  fifo_loop E q q_read status f' (msgs_read + 1)
                }
              }
          }
      })"

definition read_rx_fifo_n :: "can_env \<Rightarrow> rx_fifo \<Rightarrow> int option hal" where
  "read_rx_fifo_n E q = do {
     status \<leftarrow> ttcan_read32 E (fifo_status q);
     if take_bit 7 status = 0 then ret (Some 0)
     else do {
       q_read \<leftarrow> gets (\<lambda>t. mram_num t (fifo_item q));
       fifo_loop E q q_read status zero_frame 0
     }
   }"

definition ttcan_read_rx_fifo0 :: "can_env \<Rightarrow> int option hal" where
  "ttcan_read_rx_fifo0 E = read_rx_fifo_n E F0"

definition ttcan_read_rx_fifo1 :: "can_env \<Rightarrow> int option hal" where
  "ttcan_read_rx_fifo1 E = read_rx_fifo_n E F1"

definition ttcan_read_rx_fifo :: "can_env \<Rightarrow> int option hal" where
  "ttcan_read_rx_fifo E = do {
     msgs_read \<leftarrow> ttcan_read_rx_fifo0 E;
     n \<leftarrow> gets (\<lambda>t. mram_num t MRAM_RXF1);
     case msgs_read of None \<Rightarrow> ret None
     | Some k \<Rightarrow>
       if n \<noteq> 0 then do {
         r \<leftarrow> ttcan_read_rx_fifo1 E;
         ret (map_option (\<lambda>l. k + l) r)
       } else ret (Some k)
   }"

text \<open>The high-priority message: the result is the frame that was read, if there is one.\<close>

definition ttcan_read_hp_mesgs :: "can_env \<Rightarrow> ttcanfd_frame \<Rightarrow> ttcanfd_frame option option hal" where
  "ttcan_read_hp_mesgs E f = do {
     hpms \<leftarrow> ttcan_read32 E ADR_MTTCAN_HPMS;
     let buf_idx = take_bit 6 hpms;
     let msi = take_bit 2 (drop_bit 6 hpms);
     if msi = 2 \<or> msi = 3 then do {
       let q = (if msi = 2 then F0 else F1);
       read_addr \<leftarrow> gets (\<lambda>t. elem_addr t (fifo_item q) (fifo_elem_size q t) buf_idx);
       f \<leftarrow> read_elem E read_addr f;
       case (f, shl_one buf_idx) of
         (Some f, Some b) \<Rightarrow> do {
           modify (\<lambda>t. set_fifo_bmsk q (fifo_bmsk q t OR scast b) t);
           ret (Some (Some f))
         }
       | _ \<Rightarrow> ret None
     } else ret (Some None)
   }"

subsection \<open>Transmission\<close>

definition ttcan_tx_req_pending :: "can_env \<Rightarrow> int hal" where
  "ttcan_tx_req_pending E = do {
     txbrp_reg \<leftarrow> ttcan_read32 E ADR_MTTCAN_TXBRP;
     ret (if txbrp_reg \<noteq> 0 then 1 else 0)
   }"

definition ttcan_tx_buff_req_pending :: "can_env \<Rightarrow> u8 \<Rightarrow> int option hal" where
  "ttcan_tx_buff_req_pending E index =
     (case shl_one (ucast index) of None \<Rightarrow> ret None
      | Some msk \<Rightarrow> do {
          txbrp_reg \<leftarrow> ttcan_read32 E ADR_MTTCAN_TXBRP;
          ret (Some (if txbrp_reg AND msk \<noteq> 0 then 1 else 0))
        })"

definition ttcan_tx_buffers_full :: "can_env \<Rightarrow> bool option hal" where
  "ttcan_tx_buffers_full E = do {
     ded \<leftarrow> gets ded_buff_num;
     case shl_one ded of None \<Rightarrow> ret None
     | Some b \<Rightarrow> do {
         fifo_q \<leftarrow> gets fifo_q_num;
         txfqs_full \<leftarrow> (if fifo_q \<noteq> 0 then do {
             r \<leftarrow> ttcan_read32 E ADR_MTTCAN_TXFQS;
             ret (bit r 21)
           } else ret True);
         txbrp \<leftarrow> ttcan_read32 E ADR_MTTCAN_TXBRP;
         ret (Some (txbrp AND (b - 1) = b - 1 \<and> txfqs_full))
       }
   }"

definition ttcan_tx_ded_msg_write :: "can_env \<Rightarrow> ttcanfd_frame \<Rightarrow> u8 \<Rightarrow> unit option hal" where
  "ttcan_tx_ded_msg_write E f index = do {
     t \<leftarrow> gets (\<lambda>t. t);
     case ttcan_write_tx_msg_ram (lib E) t (unat (elem_addr t MRAM_TXB (tx_buffer_size t) (ucast index))) f index of
       None \<Rightarrow> ret None
     | Some (_, t') \<Rightarrow>
       if unat index < 32 then do {
         modify (\<lambda>_. t'\<lparr>tx_buf_dlc := (tx_buf_dlc t')(unat index := d_len f)\<rparr>);
         ret (Some ())
       } else ret None
   }"

definition ttcan_tx_trigger_msg_transmit :: "can_env \<Rightarrow> u8 \<Rightarrow> unit option hal" where
  "ttcan_tx_trigger_msg_transmit E index =
     (case shl_one (ucast index) of None \<Rightarrow> ret None
      | Some b \<Rightarrow> do { ttcan_write32 E ADR_MTTCAN_TXBAR b; ret (Some ()) })"

definition ttcan_tx_msg_buffer_write :: "can_env \<Rightarrow> ttcanfd_frame \<Rightarrow> int option hal" where
  "ttcan_tx_msg_buffer_write E f = do {
     txbrp \<leftarrow> ttcan_read32 E ADR_MTTCAN_TXBRP;
     tx_obj \<leftarrow> gets tx_object;
     ded \<leftarrow> gets ded_buff_num;
     case shl_one ded of None \<Rightarrow> ret None
     | Some b \<Rightarrow> do {
         let txbrp_free = (NOT txbrp AND ucast (NOT tx_obj)) AND (b - 1);
         let msg_no = int (ffs txbrp_free) - 1;
         if msg_no < 0 then ret (Some (- ENOMEM))
         else do {
           w \<leftarrow> ttcan_tx_ded_msg_write E f (word_of_int msg_no);
           ret (map_option (\<lambda>_. msg_no) w)
         }
       }
   }"

definition ttcan_tx_fifo_queue_msg :: "can_env \<Rightarrow> ttcanfd_frame \<Rightarrow> int option hal" where
  "ttcan_tx_fifo_queue_msg E f = do {
     txfqs_reg \<leftarrow> ttcan_read32 E ADR_MTTCAN_TXFQS;
     if bit txfqs_reg 21 then ret (Some (- ENOMEM))
     else do {
       let put_idx = take_bit 5 (drop_bit 16 txfqs_reg);
       tx_obj \<leftarrow> gets tx_object;
       case shl_one put_idx of None \<Rightarrow> ret None
       | Some b \<Rightarrow>
         if tx_obj AND scast b \<noteq> 0 then ret (Some (- ENOMEM))
         else do {
           w \<leftarrow> ttcan_tx_ded_msg_write E f (ucast put_idx);
           ret (map_option (\<lambda>_. uint put_idx) w)
         }
     }
   }"

definition ttcan_tx_fifo_full :: "can_env \<Rightarrow> int hal" where
  "ttcan_tx_fifo_full E = do {
     txfqs_reg \<leftarrow> ttcan_read32 E ADR_MTTCAN_TXFQS;
     ret (if bit txfqs_reg 21 then 1 else 0)
   }"

definition ttcan_read_tx_complete_reg :: "can_env \<Rightarrow> u32 hal" where
  "ttcan_read_tx_complete_reg E = ttcan_read32 E ADR_MTTCAN_TXBTO"

definition ttcan_set_tx_cancel_request :: "can_env \<Rightarrow> u32 \<Rightarrow> unit hal" where
  "ttcan_set_tx_cancel_request E txbcr = ttcan_write32 E ADR_MTTCAN_TXBCR txbcr"

definition ttcan_read_tx_cancelled_reg :: "can_env \<Rightarrow> u32 hal" where
  "ttcan_read_tx_cancelled_reg E = ttcan_read32 E ADR_MTTCAN_TXBCF"

definition ttcan_read_psr :: "can_env \<Rightarrow> u32 hal" where
  "ttcan_read_psr E = ttcan_read32 E ADR_MTTCAN_PSR"

subsection \<open>Lemmas\<close>

lemma ffs_zero [simp]: "ffs 0 = 0"
proof -
  have "find (bit (0 :: u32)) [0..<32] = None" by (simp add: find_None_iff)
  then show ?thesis unfolding ffs_def by (simp only: option.case)
qed

lemma ffs_lowest:
  assumes "v \<noteq> 0"
  obtains i where "ffs v = Suc i" "i < 32" "bit v i" "\<And>j. j < i \<Longrightarrow> \<not> bit v j"
proof -
  obtain n where "bit v n" using assms by (metis bit_eqI bit_0_eq bot_apply bot_bool_def)
  moreover from this have "n < 32" using bit_imp_le_length by fastforce
  ultimately have "find (bit v) [0..<32] \<noteq> None" by (auto simp: find_None_iff)
  then obtain i where f: "find (bit v) [0..<32] = Some i" by blast
  then obtain k where k: "k < 32" "bit v ([0..<32] ! k)" "i = [0..<32] ! k" "\<forall>j < k. \<not> bit v ([0..<32] ! j)"
    by (auto simp: find_Some_iff)
  have nth: "[0..<32] ! j = j" if "j < 32" for j using nth_upt [of 0 j 32] that by simp
  show ?thesis
  proof (rule that [of k])
    show "ffs v = Suc k" using f k(1,3) nth by (simp add: ffs_def)
    show "\<not> bit v j" if "j < k" for j using k(1,4) nth that by auto
  qed (use k nth in auto)
qed

lemma ffs_eq_0_iff [simp]: "ffs v = 0 \<longleftrightarrow> v = 0"
  by (metis ffs_lowest ffs_zero nat.distinct(1))

lemma ffs_least: "v \<noteq> 0 \<Longrightarrow> ffs v = Suc (LEAST i. bit v i)"
  by (metis (mono_tags, lifting) Least_equality ffs_lowest leI)

lemma shl_one_Some: "shl_one n = Some b \<longleftrightarrow> n < 32 \<and> b = push_bit (unat n) 1"
  by (auto simp: shl_one_def)

text \<open>A frame whose data fit; the transmit elements are at most 32.\<close>

definition sendable :: "ttcanfd_frame \<Rightarrow> bool" where
  "sendable f \<longleftrightarrow> length (data f) = MAX_RX_ENTRIES \<and> unat (d_len f) \<le> MAX_RX_ENTRIES"

text \<open>The buffers that the driver may use: not pending, not reserved, and configured as dedicated buffers.\<close>

definition free_buffers :: "ttcan_controller \<Rightarrow> u32 \<Rightarrow> nat set" where
  "free_buffers t txbrp = {i. i < unat (ded_buff_num t) \<and> \<not> bit txbrp i \<and> \<not> bit (tx_object t) i}"

lemma bit_free_mask:
  assumes "ded_buff_num t < 32"
  shows "bit ((NOT txbrp AND ucast (NOT (tx_object t))) AND (push_bit (unat (ded_buff_num t)) 1 - 1) :: u32) i
    \<longleftrightarrow> i \<in> free_buffers t txbrp"
proof -
  have d: "unat (ded_buff_num t) < 32" using assms by (simp add: word_less_nat_alt)
  have "push_bit n (1 :: u32) - 1 = mask n" for n by (simp add: mask_eq_exp_minus_1 push_bit_eq_mult)
  then show ?thesis using d by (auto simp: free_buffers_def bit_simps)
qed

lemma run_tx_ded:
  assumes "sendable f" "unat index < 32"
  shows "\<exists>t'. run_state (ttcan_tx_ded_msg_write E f index) t = (Some (), t')
    \<and> same_driver (t\<lparr>tx_buf_dlc := (tx_buf_dlc t)(unat index := d_len f)\<rparr>) t'
    \<and> (let a = unat (elem_addr t MRAM_TXB (tx_buffer_size t) (ucast index)) in
        readl (mram t') a = tx_t0 f \<and> readl (mram t') (a + 4) = tx_t1 (lib E) (evt_q_num t \<noteq> 0) f index
        \<and> load (a + 8) (unat (d_len f)) (mram t') = take (unat (d_len f)) (data f)
        \<and> (\<forall>x. x < a \<or> a + 8 + 4 * ((unat (d_len f) + 3) div 4) \<le> x \<longrightarrow> mram t' x = mram t x))
    \<and> regs t' = regs t"
proof -
  let ?a = "unat (elem_addr t MRAM_TXB (tx_buffer_size t) (ucast index))"
  obtain m where m: "ttcan_write_tx_msg_ram (lib E) t ?a f index
      = Some (4 * ((unat (d_len f) + 3) div 4), t\<lparr>mram := m\<rparr>)"
    "readl m ?a = tx_t0 f" "readl m (?a + 4) = tx_t1 (lib E) (evt_q_num t \<noteq> 0) f index"
    "load (?a + 8) (unat (d_len f)) m = take (unat (d_len f)) (data f)"
    "\<forall>x. x < ?a \<or> ?a + 8 + 4 * ((unat (d_len f) + 3) div 4) \<le> x \<longrightarrow> m x = mram t x"
    using write_frame [of f "lib E" t ?a index] assms(1) unfolding sendable_def by blast
  let ?t = "t\<lparr>mram := m, tx_buf_dlc := (tx_buf_dlc t)(unat index := d_len f)\<rparr>"
  have "run_state (ttcan_tx_ded_msg_write E f index) t = (Some (), ?t)"
    using m(1) assms(2) by (simp add: ttcan_tx_ded_msg_write_def)
  moreover have "same_driver (t\<lparr>tx_buf_dlc := (tx_buf_dlc t)(unat index := d_len f)\<rparr>) ?t"
    unfolding same_driver_def by (intro exI [of _ "regs t"] exI [of _ m]) simp
  ultimately show ?thesis using m(2-5) by (intro exI [of _ ?t]) (simp add: Let_def)
qed

text \<open>
  C19. A frame goes to the lowest dedicated buffer that is neither pending in the device nor reserved by the
  driver, with its identifier, its length and its data; without such a buffer nothing is written and the result is
  \<open>- ENOMEM\<close>. No other byte of the message RAM changes.
\<close>

theorem can_tx_buffer_choice:
  assumes "sendable f" "ded_buff_num t < 32" "run_state (ttcan_tx_msg_buffer_write E f) t = (r, t')"
  shows "let free = free_buffers t (value_at E ADR_MTTCAN_TXBRP t 1); t1 = with_hw (run_hw E) t; n = Least (\<lambda>i. i \<in> free);
       a = unat (elem_addr t MRAM_TXB (tx_buffer_size t) (word_of_nat n))
     in if free = {} then r = Some (- ENOMEM) \<and> t' = t1
        else r = Some (int n) \<and> n \<in> free \<and> tx_object t' = tx_object t
          \<and> readl (mram t') a = tx_t0 f \<and> readl (mram t') (a + 4) = tx_t1 (lib E) (evt_q_num t \<noteq> 0) f (word_of_nat n)
          \<and> load (a + 8) (unat (d_len f)) (mram t') = take (unat (d_len f)) (data f)
          \<and> (\<forall>x. x < a \<or> a + 8 + 4 * ((unat (d_len f) + 3) div 4) \<le> x \<longrightarrow> mram t' x = mram t1 x)"
proof -
  define brp where "brp = value_at E ADR_MTTCAN_TXBRP t 1"
  define t1 where "t1 = with_hw (run_hw E) t"
  define free where "free = free_buffers t brp"
  define fw where "fw = (NOT brp AND ucast (NOT (tx_object t))) AND (push_bit (unat (ded_buff_num t)) 1 - 1)"
  have read: "run_state (ttcan_read32 E ADR_MTTCAN_TXBRP) t = (brp, t1)"
    by (simp add: hal_simps brp_def t1_def value_at_def)
  have sw: "tx_object t1 = tx_object t" "ded_buff_num t1 = ded_buff_num t" "mram_cfg t1 = mram_cfg t"
    "tx_buffer_size t1 = tx_buffer_size t" "evt_q_num t1 = evt_q_num t"
    by (simp_all add: t1_def with_hw_def split: prod.split)
  have bits: "bit fw i \<longleftrightarrow> i \<in> free" for i
    unfolding fw_def free_def by (rule bit_free_mask [OF assms(2)])
  have run: "(r, t') = (let msg_no = int (ffs fw) - 1 in if msg_no < 0 then (Some (- ENOMEM), t1)
      else case run_state (ttcan_tx_ded_msg_write E f (word_of_int msg_no)) t1 of (w, t2) \<Rightarrow> (map_option (\<lambda>_. msg_no) w, t2))"
    using assms(2,3) read sw
    by (auto simp: ttcan_tx_msg_buffer_write_def shl_one_def fw_def Let_def split: if_splits prod.splits)
  show ?thesis
  proof (cases "fw = 0")
    case True
    then have "free = {}" using bits by (metis bit_0_eq bot_apply bot_bool_def equals0I)
    with run True show ?thesis by (simp add: Let_def free_def brp_def t1_def)
  next
    case False
    define n where "n = (LEAST i. i \<in> free)"
    have ffs: "ffs fw = Suc n" using ffs_least [OF False] bits by (simp add: n_def)
    obtain i where "i \<in> free" using False bits by (metis bit_eqI bit_0_eq bot_apply bot_bool_def)
    then have n: "n \<in> free" unfolding n_def by (rule LeastI)
    have "unat (ded_buff_num t) < 32" using assms(2) by (simp add: word_less_nat_alt)
    with n have n32: "n < 32" by (simp add: free_def free_buffers_def)
    have idx: "word_of_int (int (ffs fw) - 1) = (word_of_nat n :: u8)" using ffs by simp
    have un: "unat (word_of_nat n :: u8) = n" using n32 by (simp add: unsigned_of_nat take_bit_nat_eq_self)
    have uc: "(ucast (word_of_nat n :: u8) :: u32) = word_of_nat n"
      using n32 by (simp add: word_unat_eq_iff unsigned_ucast_eq unsigned_of_nat take_bit_nat_eq_self)
    from run_tx_ded [OF assms(1), of "word_of_nat n" E t1] n32 un obtain t2 where
      t2: "run_state (ttcan_tx_ded_msg_write E f (word_of_nat n)) t1 = (Some (), t2)"
      "same_driver (t1\<lparr>tx_buf_dlc := (tx_buf_dlc t1)(n := d_len f)\<rparr>) t2"
      "let a = unat (elem_addr t1 MRAM_TXB (tx_buffer_size t1) (word_of_nat n)) in
        readl (mram t2) a = tx_t0 f \<and> readl (mram t2) (a + 4) = tx_t1 (lib E) (evt_q_num t1 \<noteq> 0) f (word_of_nat n)
        \<and> load (a + 8) (unat (d_len f)) (mram t2) = take (unat (d_len f)) (data f)
        \<and> (\<forall>x. x < a \<or> a + 8 + 4 * ((unat (d_len f) + 3) div 4) \<le> x \<longrightarrow> mram t2 x = mram t1 x)"
      unfolding uc by metis
    have "r = Some (int n)" "t' = t2" using run idx ffs t2(1) by (simp_all add: Let_def)
    moreover have "tx_object t2 = tx_object t" using t2(2) sw(1) by (auto simp: same_driver_def)
    moreover have "elem_addr t1 MRAM_TXB (tx_buffer_size t1) (word_of_nat n) = elem_addr t MRAM_TXB (tx_buffer_size t) (word_of_nat n)"
      using sw by (simp add: elem_addr_def)
    ultimately show ?thesis using t2(3) n sw(5)
      unfolding Let_def brp_def [symmetric] free_def [symmetric] n_def [symmetric] t1_def [symmetric] by auto
  qed
qed

text \<open>Buffers 0 and 2 of four are reserved: the frame goes to buffer 1.\<close>

lemma demo_sendable: "sendable demo_frame"
  by (simp add: sendable_def demo_frame_def)

theorem can_tx_buffer_choice_witness:
  "\<exists>t'. run_state (ttcan_tx_msg_buffer_write plain_env demo_frame) (demo_can\<lparr>tx_object := 5\<rparr>) = (Some 1, t')"
proof -
  let ?t = "demo_can\<lparr>tx_object := 5\<rparr>"
  obtain r t' where run: "run_state (ttcan_tx_msg_buffer_write plain_env demo_frame) ?t = (r, t')" by fastforce
  have v: "value_at plain_env ADR_MTTCAN_TXBRP ?t 1 = 0" by (simp add: value_at_def plain_env_def demo_can_def)
  have b: "bit (5 :: u64) 0" "\<not> bit (5 :: u64) 1" "bit (5 :: u64) 2" "\<not> bit (5 :: u64) 3"
    by (simp_all add: bit_numeral_rec)
  have small: "x < 4 \<longleftrightarrow> x = 0 \<or> x = 1 \<or> x = 2 \<or> x = 3" for x :: nat by arith
  have "x \<in> free_buffers ?t 0 \<longleftrightarrow> x \<in> {1, 3}" for x
    using b by (auto simp: free_buffers_def demo_can_def small)
  then have free: "free_buffers ?t 0 = {1, 3}" by blast
  have l: "(LEAST i. i \<in> {1, 3 :: nat}) = 1" by (rule Least_equality) auto
  have d: "ded_buff_num ?t < 32" by (simp add: demo_can_def)
  have "r = Some 1"
    using can_tx_buffer_choice [OF demo_sendable d run, unfolded v free Let_def l] by simp
  with run show ?thesis by blast
qed

subsection \<open>The lists\<close>

text \<open>An operation that keeps a property of the state.\<close>

abbreviation keeps :: "('s \<Rightarrow> bool) \<Rightarrow> ('s, 'a) state \<Rightarrow> bool" where
  "keeps P \<equiv> state_io_rel (\<lambda>s s'. P s \<longrightarrow> P s')"

named_theorems keeps_intros \<open>operations that keep a property\<close>

lemma keeps_bind [keeps_intros]: "keeps P m \<Longrightarrow> (\<And>x. keeps P (f x)) \<Longrightarrow> keeps P (m \<bind> f)"
  by (rule state_io_relI) (auto split: prod.splits)

lemma keeps_basic [keeps_intros]: "keeps P (ret x)" "keeps P (State (\<lambda>s. (f s, s)))"
  by auto

lemma keeps_if [keeps_intros]: "keeps P m \<Longrightarrow> keeps P n \<Longrightarrow> keeps P (if b then m else n)"
  by simp

lemma keeps_let [keeps_intros]: "keeps P (f x) \<Longrightarrow> keeps P (let y = x in f y)"
  by simp

lemma keeps_prod [keeps_intros]: "(\<And>x y. keeps P (f x y)) \<Longrightarrow> keeps P (case p of (x, y) \<Rightarrow> f x y)"
  by (cases p) simp

lemma keeps_option [keeps_intros]:
  "keeps P m \<Longrightarrow> (\<And>x. keeps P (f x)) \<Longrightarrow> keeps P (case z of None \<Rightarrow> m | Some x \<Rightarrow> f x)"
  by (cases z) simp_all

lemma keeps_bool [keeps_intros]: "keeps P m \<Longrightarrow> keeps P n \<Longrightarrow> keeps P (case b of True \<Rightarrow> m | False \<Rightarrow> n)"
  by (cases b) simp_all

lemma keeps_modify: "(\<And>s. P s \<Longrightarrow> P (f s)) \<Longrightarrow> keeps P (State (\<lambda>s. ((), f s)))"
  by (rule state_io_relI) auto

text \<open>
  The counter of each list is its length, which is at most 128, and its bit of \<open>list_status\<close> is set when
  the list is full.
\<close>

definition list_counted :: "'a list \<Rightarrow> int \<Rightarrow> bool \<Rightarrow> bool" where
  "list_counted xs n full \<longleftrightarrow> n = int (length xs) \<and> n \<le> TTCAN_MAX_LIST_MEMBERS \<and> (full \<longleftrightarrow> n = TTCAN_MAX_LIST_MEMBERS)"

definition list_ok :: "ttcan_controller \<Rightarrow> bool" where
  "list_ok t \<longleftrightarrow> list_counted (rx_b t) (rxb_mem t) (bit (list_status t) 0)
     \<and> list_counted (rx_q0 t) (rxq0_mem t) (bit (list_status t) 1)
     \<and> list_counted (rx_q1 t) (rxq1_mem t) (bit (list_status t) 2)
     \<and> list_counted (tx_evt t) (evt_mem t) (bit (list_status t) 3)"

lemma list_counted_snoc:
  "list_counted xs n False \<Longrightarrow> list_counted (xs @ [x]) (n + 1) (127 \<le> n)"
  by (auto simp: list_counted_def)

lemma list_counted_Nil: "list_counted [] 0 False"
  by (simp add: list_counted_def)

definition type_bit :: "ttcan_rx_type \<Rightarrow> nat" where
  "type_bit rxtype = (case rxtype of BUFFER \<Rightarrow> 0 | FIFO_0 \<Rightarrow> 1 | FIFO_1 \<Rightarrow> 2 | TX_EVT \<Rightarrow> 3)"

lemma rx_type_code_flag: "rx_type_code rxtype = flag True (type_bit rxtype)"
  by (cases rxtype) (simp_all add: rx_type_code_def type_bit_def flag_def)

lemma is_msg_list_full_iff: "is_msg_list_full t rxtype = 0 \<longleftrightarrow> \<not> bit (list_status t) (type_bit rxtype)"
proof -
  have m: "(0xFF :: u16) = mask 8" by (simp add: mask_eq_exp_minus_1)
  have b: "bit (is_msg_list_full t rxtype) i \<longleftrightarrow> bit (list_status t) i \<and> i = type_bit rxtype" for i
    by (cases rxtype)
       (auto simp: is_msg_list_full_def rx_type_code_flag m bit_flag bit_and_iff bit_mask_iff type_bit_def)
  show ?thesis
  proof
    assume "is_msg_list_full t rxtype = 0"
    with b [of "type_bit rxtype"] show "\<not> bit (list_status t) (type_bit rxtype)" by simp
  next
    assume "\<not> bit (list_status t) (type_bit rxtype)"
    with b show "is_msg_list_full t rxtype = 0" by (intro bit_word_eqI) auto
  qed
qed

lemma bit_status_if:
  "bit (list_status (status_if full rxtype t)) i \<longleftrightarrow> bit (list_status t) i \<or> full \<and> i = type_bit rxtype"
  by (cases rxtype) (auto simp: status_if_def rx_type_code_flag bit_or_iff bit_flag type_bit_def)

lemma status_if_simps [simp]:
  "rx_b (status_if full rxtype t) = rx_b t" "rx_q0 (status_if full rxtype t) = rx_q0 t"
  "rx_q1 (status_if full rxtype t) = rx_q1 t" "tx_evt (status_if full rxtype t) = tx_evt t"
  "rxb_mem (status_if full rxtype t) = rxb_mem t" "rxq0_mem (status_if full rxtype t) = rxq0_mem t"
  "rxq1_mem (status_if full rxtype t) = rxq1_mem t" "evt_mem (status_if full rxtype t) = evt_mem t"
  by (simp_all add: status_if_def)

lemma list_ok_same_driver: "same_driver t t' \<Longrightarrow> list_ok t \<Longrightarrow> list_ok t'"
  by (auto simp: same_driver_def list_ok_def)

lemma keeps_hw_only: "hw_only m \<Longrightarrow> keeps list_ok m"
  by (rule state_io_relI) (blast intro: list_ok_same_driver)

lemma keeps_read_write [keeps_intros]:
  "keeps list_ok (ttcan_read32 E reg)" "keeps list_ok (ttcan_write32 E reg v)"
  by (intro keeps_hw_only hw_intros)+

lemmas keeps_hw [keeps_intros] =
  hw_only_poll [THEN keeps_hw_only] hw_only_write32_check [THEN keeps_hw_only] hw_only_set_init [THEN keeps_hw_only]
  hw_only_modes [THEN keeps_hw_only]

lemma list_ok_add:
  assumes "list_ok t"
  shows "is_msg_list_full t FIFO_0 = 0 \<Longrightarrow> list_ok (count_msg FIFO_0 (list_add_tail RX_Q0 f t))"
    "is_msg_list_full t FIFO_1 = 0 \<Longrightarrow> list_ok (count_msg FIFO_1 (list_add_tail RX_Q1 f t))"
    "is_msg_list_full t BUFFER = 0 \<Longrightarrow> list_ok (count_msg BUFFER (list_add_tail RX_B f t))"
    "is_msg_list_full t TX_EVT = 0 \<Longrightarrow> list_ok (status_if (127 \<le> evt_mem t) TX_EVT
       (t\<lparr>tx_evt := tx_evt t @ [e], evt_mem := evt_mem t + 1\<rparr>))"
  using assms
  by (simp_all add: list_ok_def is_msg_list_full_iff count_msg_def list_add_tail_def bit_status_if type_bit_def
      list_counted_snoc)

lemma keeps_add_msg [keeps_intros]:
  "keeps list_ok (add_msg_controller_list E f RX_Q0 FIFO_0)" "keeps list_ok (add_msg_controller_list E f RX_Q1 FIFO_1)"
  "keeps list_ok (add_msg_controller_list E f RX_B BUFFER)"
  by (rule state_io_relI; auto simp: add_msg_controller_list_def list_ok_add split: if_splits)+

lemma keeps_add_event [keeps_intros]: "keeps list_ok (add_event_controller_list E e)"
  by (rule state_io_relI) (auto simp: add_event_controller_list_def list_ok_add split: if_splits)

lemma keeps_fifo_add [keeps_intros]: "keeps list_ok (fifo_add E q f)"
  by (cases q) (simp_all add: fifo_add_def keeps_add_msg)

lemma keeps_bmsk [keeps_intros]: "keeps list_ok (modify (set_fifo_bmsk q b))"
  "keeps list_ok (modify (\<lambda>t. set_fifo_bmsk q (g t) t))"
  by (rule keeps_modify, cases q, simp_all add: set_fifo_bmsk_def list_ok_def)+

lemma keeps_read_elem [keeps_intros]: "keeps list_ok (read_elem E a f)"
  unfolding read_elem_def by (intro keeps_intros)

lemma keeps_fifo_loop [keeps_intros]: "keeps list_ok (fifo_loop E q n status f k)"
proof (induction n arbitrary: status f k)
  case (Suc n)
  show ?case unfolding fifo_loop.simps by (intro keeps_intros Suc.IH)
qed (simp add: keeps_intros)

lemma keeps_read_fifo [keeps_intros]:
  "keeps list_ok (ttcan_read_rx_fifo0 E)" "keeps list_ok (ttcan_read_rx_fifo1 E)" "keeps list_ok (ttcan_read_rx_fifo E)"
  unfolding ttcan_read_rx_fifo_def ttcan_read_rx_fifo0_def ttcan_read_rx_fifo1_def read_rx_fifo_n_def
  by (intro keeps_intros)+

lemma keeps_read_hp [keeps_intros]: "keeps list_ok (ttcan_read_hp_mesgs E f)"
  unfolding ttcan_read_hp_mesgs_def by (intro keeps_intros)

lemma keeps_process [keeps_intros]: "keeps list_ok (process_rx_mesg E a)"
  unfolding process_rx_mesg_def by (intro keeps_intros)

lemma keeps_half [keeps_intros]: "keeps list_ok (rx_buffer_half E reg nd b)"
  unfolding rx_buffer_half_def by (intro keeps_intros)

lemma keeps_buffer_loop [keeps_intros]: "keeps list_ok (rx_buffer_loop E n nd1 nd2 k)"
proof (induction n arbitrary: nd1 nd2 k)
  case (Suc n)
  show ?case unfolding rx_buffer_loop.simps by (intro keeps_intros Suc.IH)
qed (simp add: keeps_intros)

lemma keeps_read_buffer [keeps_intros]: "keeps list_ok (ttcan_read_rx_buffer E)"
  unfolding ttcan_read_rx_buffer_def by (intro keeps_intros)

lemma keeps_txevt_loop [keeps_intros]: "keeps list_ok (txevt_loop E n v k)"
proof (induction n arbitrary: v k)
  case (Suc n)
  show ?case unfolding txevt_loop.simps by (intro keeps_intros Suc.IH)
qed (simp add: keeps_intros)

lemma keeps_read_txevt [keeps_intros]: "keeps list_ok (ttcan_read_txevt_fifo E)"
  unfolding ttcan_read_txevt_fifo_def by (intro keeps_intros)

end
