(* ===== verification/Mttcan_Net.thy ===== *)
theory Mttcan_Net
  imports Mttcan_Queue
begin

text \<open>
  The MTTCAN network driver (\<open>native/m_ttcan_linux.c\<close>): initialisation, start and stop, the transmit
  path, the reception and the interrupt handling.

  \<open>mttcan_priv\<close> is the private structure of the driver with the fields of the network device it uses.
  The functions of the CAN core and of the network stack are the parameter \<open>can_core\<close>; the socket
  buffers passed to the stack are collected in \<open>received\<close>. An operation of the controller that ends in
  undefined behaviour sets \<open>undefined\<close>, after which the state means nothing. List elements that the
  driver neither frees nor keeps are collected in \<open>leaked\<close>. Printing, LEDs, power references,
  GPIO lines and the cycle counter of the timestamps are left out.
\<close>

subsection \<open>Data\<close>

datatype can_state =
  CAN_STATE_ERROR_ACTIVE | CAN_STATE_ERROR_WARNING | CAN_STATE_ERROR_PASSIVE | CAN_STATE_BUS_OFF
| CAN_STATE_STOPPED | CAN_STATE_SLEEPING

record can_skb =
  skb_frame :: ttcanfd_frame
  skb_is_fd :: bool

text \<open>A socket buffer handed to the stack: a frame, with its time stamp if one was taken, or an error frame.\<close>

datatype rx_skb =
  Rx_Frame (rx_fd: bool) (rx_id: u32) (rx_flags_of: u8) (rx_data: "u8 list") (rx_hwtstamp: "u64 option")
| Rx_Error (err_id: u32) (err_data: "u8 list")

record net_stats =
  tx_packets :: u64
  tx_bytes :: u64
  tx_aborted_errors :: u64
  rx_packets :: u64
  rx_bytes :: u64
  rx_dropped :: u64
  rx_errors :: u64
  rx_over_errors :: u64

record can_device_stats =
  bus_error :: u32
  error_warning :: u32
  error_passive :: u32
  bus_off :: u32
  restarts :: u32

record ctrl_mode =
  mode_loopback :: bool
  mode_listenonly :: bool
  mode_one_shot :: bool
  mode_berr_reporting :: bool
  mode_fd :: bool
  mode_fd_non_iso :: bool

record mttcan_priv =
  ttcan :: ttcan_controller
  undefined_behaviour :: bool
  std_shadow :: "mem option"
  xtd_shadow :: "mem option"
  tmc_shadow :: "mem option"
  use_external_timer :: bool
  polling :: bool
  hwts_rx_en :: bool
  tt_param :: "int \<times> int"
  tt_intrs :: int
  mram_param :: "u32 list"
  tx_conf :: "u32 list"
  rx_conf :: "u32 list"
  xidam_reg :: u32
  irqstatus :: u32
  tt_irqstatus :: u32
  ctrlmode :: ctrl_mode
  can_bittiming :: ttcan_bittiming
  can_data_bittiming :: ttcan_bittiming
  state :: can_state
  restart_ms :: u32
  restart_scheduled :: bool
  can_stats :: can_device_stats
  echo_skb :: "nat \<Rightarrow> can_skb option"
  queue_stopped :: bool
  carrier :: bool
  iff_up :: bool
  running :: bool
  attached :: bool
  napi_scheduled :: bool
  stats :: net_stats
  received :: "rx_skb list"
  leaked :: "ttcanfd_frame list"

type_synonym 'a net = "(mttcan_priv, 'a) state"

record can_core =
  dropped_invalid_skb :: "can_skb \<Rightarrow> bool"
  put_echo :: "can_skb \<Rightarrow> nat \<Rightarrow> (nat \<Rightarrow> can_skb option) \<Rightarrow> (nat \<Rightarrow> can_skb option)"
  get_echo :: "nat \<Rightarrow> (nat \<Rightarrow> can_skb option) \<Rightarrow> u32 \<times> (nat \<Rightarrow> can_skb option)"
  free_echo :: "nat \<Rightarrow> (nat \<Rightarrow> can_skb option) \<Rightarrow> (nat \<Rightarrow> can_skb option)"
  skb_alloc :: "mttcan_priv \<Rightarrow> bool"
  zalloc :: "mttcan_priv \<Rightarrow> bool"
  arch_counter :: "mttcan_priv \<Rightarrow> u64"
  cyc2time :: "mttcan_priv \<Rightarrow> u32 \<Rightarrow> u64"
  open_candev :: "mttcan_priv \<Rightarrow> int"
  request_irq :: "mttcan_priv \<Rightarrow> int"
  flush_echo :: "(nat \<Rightarrow> can_skb option) \<Rightarrow> (nat \<Rightarrow> can_skb option)"

abbreviation "getp f \<equiv> State (\<lambda>p. (f p, p))"
abbreviation "modp f \<equiv> State (\<lambda>p. ((), f p))"

text \<open>An operation of the controller, and one that can be undefined (with a value that stands in then).\<close>

definition on_can :: "'a hal \<Rightarrow> 'a net" where
  "on_can m = State (\<lambda>p. case run_state m (ttcan p) of (x, t) \<Rightarrow> (x, p\<lparr>ttcan := t\<rparr>))"

definition checked :: "'a \<Rightarrow> 'a option hal \<Rightarrow> 'a net" where
  "checked d m = State (\<lambda>p. case run_state m (ttcan p) of
      (None, t) \<Rightarrow> (d, p\<lparr>ttcan := t, undefined_behaviour := True\<rparr>)
    | (Some x, t) \<Rightarrow> (x, p\<lparr>ttcan := t\<rparr>))"

definition undefined_if :: "bool \<Rightarrow> unit net" where
  "undefined_if b = modp (\<lambda>p. if b then p\<lparr>undefined_behaviour := True\<rparr> else p)"

abbreviation "set_stats f \<equiv> modp (\<lambda>p. p\<lparr>stats := f (stats p)\<rparr>)"

subsection \<open>Transmission\<close>

datatype netdev_tx = NETDEV_TX_OK | NETDEV_TX_BUSY

definition set_tx_object :: "(u64 \<Rightarrow> u64) \<Rightarrow> unit net" where
  "set_tx_object f = modp (\<lambda>p. p\<lparr>ttcan := (ttcan p)\<lparr>tx_object := f (tx_object (ttcan p))\<rparr>\<rparr>)"

definition mttcan_start_xmit :: "can_core \<Rightarrow> can_env \<Rightarrow> can_skb \<Rightarrow> netdev_tx net" where
  "mttcan_start_xmit C E skb =
     (if dropped_invalid_skb C skb then ret NETDEV_TX_OK
      else
        let frame = (if skb_is_fd skb
              then (skb_frame skb)\<lparr>flags := flags (skb_frame skb) OR flag True CAN_FD_FLAG\<rparr> else skb_frame skb);
            skb = skb\<lparr>skb_frame := frame\<rparr>
        in do {
          msg_no \<leftarrow> checked (- 1) (ttcan_tx_msg_buffer_write E frame);
          msg_no \<leftarrow> (if msg_no < 0 then checked (- 1) (ttcan_tx_fifo_queue_msg E frame) else ret msg_no);
          if msg_no < 0 then do {
            modp (\<lambda>p. p\<lparr>queue_stopped := True\<rparr>);
            ret NETDEV_TX_BUSY
          } else do {
            modp (\<lambda>p. p\<lparr>echo_skb := put_echo C skb (nat msg_no) (echo_skb p)\<rparr>);
            tt \<leftarrow> getp tt_param;
            (if fst tt = 0 then checked () (ttcan_tx_trigger_msg_transmit E (word_of_int msg_no)) else ret ());
            set_tx_object (\<lambda>v. v OR flag True (nat msg_no));
            modp (\<lambda>p. p\<lparr>ttcan := (ttcan p)\<lparr>tx_obj_cancelled := tx_obj_cancelled (ttcan p) AND NOT (flag True (nat msg_no))\<rparr>\<rparr>);
            ret NETDEV_TX_OK
          }
        })"

definition wake_queue :: "unit net" where
  "wake_queue = modp (\<lambda>p. p\<lparr>queue_stopped := False\<rparr>)"

text \<open>The loop of \<open>mttcan_tx_complete\<close>; every turn clears a bit, so 32 turns are enough.\<close>

primrec complete_loop :: "can_core \<Rightarrow> nat \<Rightarrow> u32 \<Rightarrow> unit net" where
  "complete_loop C 0 completed_tx = ret ()"
| "complete_loop C (Suc fuel) completed_tx =
     (if completed_tx = 0 then ret ()
      else do {
        let msg_no = ffs completed_tx - 1;
        set_tx_object (\<lambda>v. v AND NOT (flag True msg_no));
        n \<leftarrow> getp (\<lambda>p. fst (get_echo C msg_no (echo_skb p)));
        modp (\<lambda>p. p\<lparr>echo_skb := snd (get_echo C msg_no (echo_skb p))\<rparr>);
        set_stats (\<lambda>s. s\<lparr>tx_packets := tx_packets s + 1, tx_bytes := tx_bytes s + ucast n\<rparr>);
        complete_loop C fuel (completed_tx AND NOT (flag True msg_no))
      })"

definition mttcan_tx_complete :: "can_core \<Rightarrow> can_env \<Rightarrow> unit net" where
  "mttcan_tx_complete C E = do {
     completed_tx \<leftarrow> on_can (ttcan_read_tx_complete_reg E);
     tx_obj \<leftarrow> getp (\<lambda>p. tx_object (ttcan p));
     complete_loop C 32 (completed_tx AND ucast tx_obj);
     stopped \<leftarrow> getp queue_stopped;
     if stopped then wake_queue else ret ()
   }"

primrec cancel_loop :: "can_core \<Rightarrow> nat \<Rightarrow> u32 \<Rightarrow> unit net" where
  "cancel_loop C 0 cancelled_msg = ret ()"
| "cancel_loop C (Suc fuel) cancelled_msg =
     (if cancelled_msg = 0 then ret ()
      else do {
        let msg_no = ffs cancelled_msg - 1;
        tx_obj \<leftarrow> getp (\<lambda>p. tx_object (ttcan p));
        if bit tx_obj msg_no then do {
          modp (\<lambda>p. p\<lparr>echo_skb := free_echo C msg_no (echo_skb p)\<rparr>);
          set_tx_object (\<lambda>v. v AND NOT (flag True msg_no));
          set_stats (\<lambda>s. s\<lparr>tx_aborted_errors := tx_aborted_errors s + 1\<rparr>);
          cancel_loop C fuel (cancelled_msg AND NOT (flag True msg_no))
        } else ret ()
      })"

definition mttcan_tx_cancelled :: "can_core \<Rightarrow> can_env \<Rightarrow> unit net" where
  "mttcan_tx_cancelled C E = do {
     cancelled_reg \<leftarrow> on_can (ttcan_read_tx_cancelled_reg E);
     old \<leftarrow> getp (\<lambda>p. tx_obj_cancelled (ttcan p));
     let cancelled_msg = ucast ((old XOR ucast cancelled_reg) AND NOT old);
     modp (\<lambda>p. p\<lparr>ttcan := (ttcan p)\<lparr>tx_obj_cancelled := ucast cancelled_reg\<rparr>\<rparr>);
     stopped \<leftarrow> getp queue_stopped;
     (if cancelled_msg \<noteq> 0 \<and> stopped then wake_queue else ret ());
     cancel_loop C 32 cancelled_msg
   }"

subsection \<open>Reception\<close>

definition mttcan_extend_timestamp :: "u16 \<Rightarrow> u64 \<Rightarrow> nat \<Rightarrow> u64" where
  "mttcan_extend_timestamp captured tsc shift =
     (let aligned_capture = push_bit shift (ucast captured);
          masked_tsc = tsc AND push_bit shift 0xFFFF;
          top_tsc = push_bit (16 + shift) (drop_bit (16 + shift) tsc);
          top_tsc = (if masked_tsc < aligned_capture then top_tsc - push_bit (16 + shift) 1 else top_tsc)
      in top_tsc OR aligned_capture)"

definition mttcan_rx_hwtstamp :: "can_core \<Rightarrow> mttcan_priv \<Rightarrow> ttcanfd_frame \<Rightarrow> u64" where
  "mttcan_rx_hwtstamp C p msg =
     (if use_external_timer p
      then push_bit 5 (mttcan_extend_timestamp (ucast (tstamp msg)) (arch_counter C p) 9)
      else cyc2time C p (tstamp msg))"

definition hwtstamp_of :: "can_core \<Rightarrow> mttcan_priv \<Rightarrow> ttcanfd_frame \<Rightarrow> u64 option" where
  "hwtstamp_of C p msg = (if hwts_rx_en p then Some (mttcan_rx_hwtstamp C p msg) else None)"

definition netif_receive :: "rx_skb \<Rightarrow> unit net" where
  "netif_receive skb = modp (\<lambda>p. p\<lparr>received := received p @ [skb]\<rparr>)"

text \<open>The copy of a classic frame longer than the eight bytes of its buffer is undefined.\<close>

definition mttcan_hpm_do_receive :: "can_core \<Rightarrow> ttcanfd_frame \<Rightarrow> int net" where
  "mttcan_hpm_do_receive C msg = do {
     ok \<leftarrow> getp (skb_alloc C);
     if \<not> ok then do { set_stats (\<lambda>s. s\<lparr>rx_dropped := rx_dropped s + 1\<rparr>); ret 0 }
     else do {
       undefined_if (\<not> bit (flags msg) CAN_FD_FLAG \<and> d_len msg > 8);
       ts \<leftarrow> getp (\<lambda>p. hwtstamp_of C p msg);
       set_stats (\<lambda>s. s\<lparr>rx_bytes := rx_bytes s + ucast (d_len msg)\<rparr>);
       netif_receive (Rx_Frame (bit (flags msg) CAN_FD_FLAG) (can_id msg)
         (if bit (flags msg) CAN_FD_FLAG then flags msg else 0) (take (unat (d_len msg)) (data msg)) ts);
       set_stats (\<lambda>s. s\<lparr>rx_packets := rx_packets s + 1\<rparr>);
       ret 1
     }
   }"

text \<open>
  The loop over the elements taken from a list: \<open>quota\<close> is tested before it is decreased, so a negative one
  is no limit.
\<close>

definition classic_len :: "ttcanfd_frame \<Rightarrow> u8" where
  "classic_len msg = (if d_len msg > 8 then 8 else d_len msg)"

definition rcv_skb :: "can_core \<Rightarrow> mttcan_priv \<Rightarrow> ttcanfd_frame \<Rightarrow> rx_skb" where
  "rcv_skb C p msg =
     (if bit (flags msg) CAN_FD_FLAG
      then Rx_Frame True (can_id msg) (flags msg) (take (unat (d_len msg)) (data msg)) (hwtstamp_of C p msg)
      else Rx_Frame False (can_id msg) 0 (take (unat (classic_len msg)) (data msg)) (hwtstamp_of C p msg))"

primrec rcv_loop :: "can_core \<Rightarrow> ttcanfd_frame list \<Rightarrow> int \<Rightarrow> u32 \<Rightarrow> int \<Rightarrow> int net" where
  "rcv_loop C [] rec_msgs pushed quota = ret (sint (word_of_int rec_msgs - pushed))"
| "rcv_loop C (msg # msgs) rec_msgs pushed quota =
     (if quota = 0 then do {
        modp (\<lambda>p. p\<lparr>leaked := leaked p @ msg # msgs\<rparr>);
        ret (sint (word_of_int rec_msgs - pushed))
      } else do {
        ok \<leftarrow> getp (skb_alloc C);
        if \<not> ok then do {
          set_stats (\<lambda>s. s\<lparr>rx_dropped := rx_dropped s + ucast pushed\<rparr>);
          modp (\<lambda>p. p\<lparr>leaked := leaked p @ msg # msgs\<rparr>);
          ret 0
        } else do {
          skb \<leftarrow> getp (\<lambda>p. rcv_skb C p msg);
          set_stats (\<lambda>s. s\<lparr>rx_bytes := rx_bytes s
            + ucast (if bit (flags msg) CAN_FD_FLAG then d_len msg else classic_len msg)\<rparr>);
          netif_receive skb;
          set_stats (\<lambda>s. s\<lparr>rx_packets := rx_packets s + 1\<rparr>);
          rcv_loop C msgs rec_msgs (pushed - 1) (quota - 1)
        }
      })"

definition list_of :: "rx_list \<Rightarrow> ttcan_controller \<Rightarrow> ttcanfd_frame list" where
  "list_of q t = (case q of RX_Q0 \<Rightarrow> rx_q0 t | RX_Q1 \<Rightarrow> rx_q1 t | RX_B \<Rightarrow> rx_b t)"

definition empty_list :: "rx_list \<Rightarrow> ttcan_controller \<Rightarrow> ttcan_controller" where
  "empty_list q t = (case q of RX_Q0 \<Rightarrow> t\<lparr>rx_q0 := []\<rparr> | RX_Q1 \<Rightarrow> t\<lparr>rx_q1 := []\<rparr> | RX_B \<Rightarrow> t\<lparr>rx_b := []\<rparr>)"

definition clear_type :: "ttcan_rx_type \<Rightarrow> u16 \<Rightarrow> u16" where
  "clear_type rxtype s = s AND NOT (rx_type_code rxtype AND 0xFF)"

definition reset_count :: "ttcan_rx_type \<Rightarrow> ttcan_controller \<Rightarrow> ttcan_controller" where
  "reset_count rxtype t = (case rxtype of
      BUFFER \<Rightarrow> t\<lparr>rxb_mem := 0, list_status := clear_type BUFFER (list_status t)\<rparr>
    | FIFO_0 \<Rightarrow> t\<lparr>rxq0_mem := 0, list_status := clear_type FIFO_0 (list_status t)\<rparr>
    | FIFO_1 \<Rightarrow> t\<lparr>rxq1_mem := 0, list_status := clear_type FIFO_1 (list_status t)\<rparr>
    | TX_EVT \<Rightarrow> t)"

definition mttcan_read_rcv_list :: "can_core \<Rightarrow> rx_list \<Rightarrow> ttcan_rx_type \<Rightarrow> int \<Rightarrow> int \<Rightarrow> int net" where
  "mttcan_read_rcv_list C rcv rx_type rec_msgs quota = do {
     msgs \<leftarrow> getp (\<lambda>p. list_of rcv (ttcan p));
     if msgs = [] then ret 0
     else do {
       modp (\<lambda>p. p\<lparr>ttcan := empty_list rcv (reset_count rx_type (ttcan p))\<rparr>);
       rcv_loop C msgs rec_msgs (word_of_int rec_msgs) quota
     }
   }"

definition mttcan_tx_event :: "unit net" where
  "mttcan_tx_event = modp (\<lambda>p. if tx_evt (ttcan p) = [] then p
     else p\<lparr>ttcan := (ttcan p)\<lparr>evt_mem := 0, list_status := clear_type TX_EVT (list_status (ttcan p)),
       tx_evt := []\<rparr>\<rparr>)"

subsection \<open>Errors\<close>

definition set_can_stats :: "(can_device_stats \<Rightarrow> can_device_stats) \<Rightarrow> unit net" where
  "set_can_stats f = modp (\<lambda>p. p\<lparr>can_stats := f (can_stats p)\<rparr>)"

definition set_state :: "can_state \<Rightarrow> unit net" where
  "set_state s = modp (\<lambda>p. p\<lparr>state := s\<rparr>)"

text \<open>An error frame, which has the error flag and eight bytes of data.\<close>

abbreviation (input) no_data :: "u8 list" where "no_data \<equiv> replicate 8 0"

definition error_frame :: "u32 \<Rightarrow> u8 list \<Rightarrow> rx_skb" where
  "error_frame ident d = Rx_Error (0x20000000 OR ident) d"

definition mttcan_handle_lost_frame :: "can_core \<Rightarrow> can_env \<Rightarrow> bool \<Rightarrow> unit net" where
  "mttcan_handle_lost_frame C E fifo_num = do {
     on_can (ttcan_ir_write E (flag True (if fifo_num then 7 else 3)));
     ok \<leftarrow> getp (skb_alloc C);
     if \<not> ok then ret ()
     else do {
       set_stats (\<lambda>s. s\<lparr>rx_errors := rx_errors s + 1, rx_over_errors := rx_over_errors s + 1\<rparr>);
       netif_receive (error_frame 4 (no_data[1 := 1]))
     }
   }"

definition mttcan_state_change :: "can_core \<Rightarrow> can_env \<Rightarrow> can_state \<Rightarrow> int net" where
  "mttcan_state_change C E error_type = do {
     ok \<leftarrow> getp (skb_alloc C);
     if \<not> ok then ret 0
     else do {
       ecr \<leftarrow> on_can (ttcan_read32 E 0x040);
       let rxerr = take_bit 7 (drop_bit 8 ecr);
       let txerr = take_bit 8 ecr;
       cf \<leftarrow> (case error_type of
           CAN_STATE_ERROR_WARNING \<Rightarrow> do {
             set_can_stats (\<lambda>s. s\<lparr>error_warning := error_warning s + 1\<rparr>);
             set_state CAN_STATE_ERROR_WARNING;
             ret (error_frame 4 (no_data[1 := (if txerr > rxerr then 8 else 4), 6 := ucast txerr, 7 := ucast rxerr]))
           }
         | CAN_STATE_ERROR_PASSIVE \<Rightarrow> do {
             set_can_stats (\<lambda>s. s\<lparr>error_passive := error_passive s + 1\<rparr>);
             set_state CAN_STATE_ERROR_PASSIVE;
             ret (error_frame 4 (no_data[1 := (if bit ecr 15 then 0x10 else 0) OR (if txerr > 127 then 0x20 else 0),
               6 := ucast txerr, 7 := ucast rxerr]))
           }
         | CAN_STATE_BUS_OFF \<Rightarrow> do {
             set_state CAN_STATE_BUS_OFF;
             on_can (ttcan_set_intrpts E False);
             set_can_stats (\<lambda>s. s\<lparr>bus_off := bus_off s + 1\<rparr>);
             set_tx_object (\<lambda>_. 0);
             modp (\<lambda>p. p\<lparr>queue_stopped := True, carrier := False,
               restart_scheduled := (restart_scheduled p \<or> restart_ms p \<noteq> 0)\<rparr>);
             ret (error_frame 0x40 no_data)
           }
         | _ \<Rightarrow> ret (error_frame 0 no_data));
       netif_receive cf;
       set_stats (\<lambda>s. s\<lparr>rx_packets := rx_packets s + 1, rx_bytes := rx_bytes s + 8\<rparr>);
       ret 1
     }
   }"

definition mttcan_handle_bus_err :: "can_core \<Rightarrow> u32 \<Rightarrow> int net" where
  "mttcan_handle_bus_err C lec_type =
     (if lec_type = 0 then ret 0
      else do {
        ok \<leftarrow> getp (skb_alloc C);
        if \<not> ok then ret 0
        else do {
          set_can_stats (\<lambda>s. s\<lparr>bus_error := bus_error s + 1\<rparr>);
          set_stats (\<lambda>s. s\<lparr>rx_errors := rx_errors s + 1\<rparr>);
          netif_receive (error_frame 0x88
            (if lec_type = 1 then no_data[2 := 4] else if lec_type = 2 then no_data[2 := 2]
             else if lec_type = 3 then no_data[3 := 0x19 OR 0x1B] else if lec_type = 4 then no_data[2 := 0x10]
             else if lec_type = 5 then no_data[2 := 8] else if lec_type = 6 then no_data[3 := 8 OR 0x18]
             else no_data));
          set_stats (\<lambda>s. s\<lparr>rx_packets := rx_packets s + 1, rx_bytes := rx_bytes s + 8\<rparr>);
          ret 1
        }
      })"

subsection \<open>Start and stop\<close>

definition mttcan_do_set_bittiming :: "can_env \<Rightarrow> int net" where
  "mttcan_do_set_bittiming E = do {
     modp (\<lambda>p. p\<lparr>ttcan := (ttcan p)
       \<lparr>bt_nominal := (can_bittiming p)\<lparr>bt_tdc := bt_tdc (bt_nominal (ttcan p))\<rparr>,
        bt_data := (can_data_bittiming p)\<lparr>bt_tdc := bt_tdc (bt_data (ttcan p))\<rparr>,
        fd_flags := (if mode_fd (ctrlmode p) then flag True CAN_FD_FLAG OR flag True CAN_BRS_FLAG else 0)
          OR flag (mode_fd_non_iso (ctrlmode p)) 4\<rparr>\<rparr>);
     on_can (ttcan_set_bitrate E)
   }"

definition mttcan_controller_config :: "can_env \<Rightarrow> unit net" where
  "mttcan_controller_config E = do {
     _ \<leftarrow> on_can (ttcan_set_config_change_enable E);
     mode \<leftarrow> getp ctrlmode;
     tt \<leftarrow> getp tt_param;
     on_can (ttcan_disable_auto_retransmission E (mode_one_shot mode \<or> fst tt \<noteq> 0));
     (if mode_loopback mode \<and> mode_listenonly mode then do {
        _ \<leftarrow> on_can (ttcan_set_bus_monitoring_mode E True);
        _ \<leftarrow> on_can (ttcan_set_loopback E);
        ret ()
      } else if mode_loopback mode then do {
        _ \<leftarrow> on_can (ttcan_set_bus_monitoring_mode E False);
        _ \<leftarrow> on_can (ttcan_set_loopback E);
        ret ()
      } else if mode_listenonly mode then do {
        _ \<leftarrow> on_can (ttcan_set_bus_monitoring_mode E True);
        ret ()
      } else do {
        _ \<leftarrow> on_can (ttcan_set_normal_mode E);
        ret ()
      });
     _ \<leftarrow> mttcan_do_set_bittiming E;
     ret ()
   }"

definition state_of_psr :: "u32 \<Rightarrow> can_state" where
  "state_of_psr psr =
     (if bit psr 7 then CAN_STATE_ERROR_ACTIVE else if bit psr 5 then CAN_STATE_ERROR_PASSIVE
      else if bit psr 6 then CAN_STATE_ERROR_WARNING else CAN_STATE_ERROR_ACTIVE)"

definition set_proto_state :: "u32 \<Rightarrow> unit net" where
  "set_proto_state v = modp (\<lambda>p. p\<lparr>ttcan := (ttcan p)\<lparr>proto_state := v\<rparr>\<rparr>)"

text \<open>After a bus-off state the code also calls \<open>ttcan_bus_off_seq\<close>, which only waits and changes nothing of this state.\<close>

definition mttcan_start :: "can_env \<Rightarrow> unit net" where
  "mttcan_start E = do {
     saved \<leftarrow> getp (\<lambda>p. proto_state (ttcan p));
     psr \<leftarrow> (if saved \<noteq> 0 then do { set_proto_state 0; ret saved } else on_can (ttcan_read_psr E));
     set_state (state_of_psr psr);
     mttcan_controller_config E;
     on_can (ttcan_clear_intr E);
     on_can (ttcan_clear_tt_intr E);
     tt \<leftarrow> getp tt_param;
     (if fst tt = 0 then do { _ \<leftarrow> on_can (ttcan_reset_init E); ret () } else ret ());
     on_can (ttcan_set_intrpts E True)
   }"

definition mttcan_stop :: "can_env \<Rightarrow> unit net" where
  "mttcan_stop E = do {
     on_can (ttcan_set_intrpts E False);
     set_state CAN_STATE_STOPPED;
     set_proto_state 0;
     _ \<leftarrow> on_can (ttcan_set_config_change_enable E);
     ret ()
   }"

text \<open>The only mode that is supported is \<open>CAN_MODE_START\<close>; \<open>EOPNOTSUPP\<close> is 95.\<close>

definition mttcan_set_mode :: "can_env \<Rightarrow> bool \<Rightarrow> int net" where
  "mttcan_set_mode E is_start =
     (if is_start then do { mttcan_start E; wake_queue; ret 0 } else ret (- 95))"

definition mttcan_bus_off_restart :: "can_core \<Rightarrow> can_env \<Rightarrow> unit net" where
  "mttcan_bus_off_restart C E = do {
     ok \<leftarrow> getp (skb_alloc C);
     (if ok then do {
        netif_receive (error_frame 0x100 no_data);
        set_stats (\<lambda>s. s\<lparr>rx_packets := rx_packets s + 1, rx_bytes := rx_bytes s + 8\<rparr>)
      } else ret ());
     set_can_stats (\<lambda>s. s\<lparr>restarts := restarts s + 1\<rparr>);
     mttcan_start E;
     modp (\<lambda>p. p\<lparr>queue_stopped := False, carrier := True\<rparr>)
   }"

definition mttcan_open :: "can_core \<Rightarrow> can_env \<Rightarrow> int net" where
  "mttcan_open C E = do {
     err \<leftarrow> on_can (ttcan_set_power E 1);
     if err \<noteq> 0 then ret err
     else do {
       err \<leftarrow> getp (open_candev C);
       if err \<noteq> 0 then ret err
       else do {
         err \<leftarrow> getp (request_irq C);
         if err < 0 then do {
           modp (\<lambda>p. p\<lparr>echo_skb := flush_echo C (echo_skb p)\<rparr>);
           ret err
         } else do {
           mttcan_start E;
           modp (\<lambda>p. p\<lparr>queue_stopped := False\<rparr>);
           ret 0
         }
       }
     }
   }"

definition mttcan_close :: "can_core \<Rightarrow> can_env \<Rightarrow> int net" where
  "mttcan_close C E = do {
     modp (\<lambda>p. p\<lparr>queue_stopped := True\<rparr>);
     mttcan_stop E;
     set_tx_object (\<lambda>_. 0);
     modp (\<lambda>p. p\<lparr>hwts_rx_en := False, echo_skb := flush_echo C (echo_skb p)\<rparr>);
     _ \<leftarrow> on_can (ttcan_set_power E 0);
     ret 0
   }"

subsection \<open>Interrupts\<close>

definition ir_ack :: "can_env \<Rightarrow> u32 \<Rightarrow> unit net" where
  "ir_ack E v = on_can (ttcan_ir_write E v)"

text \<open>The changes of the error state: each is handled under a condition and counts as one frame.\<close>

definition when_net :: "bool \<Rightarrow> int net \<Rightarrow> int net" where
  "when_net b m = (if b then m else ret 0)"

definition ERR_INTR :: u32 where "ERR_INTR = push_bit 17 0x1FF9"

definition poll_errors :: "can_core \<Rightarrow> can_env \<Rightarrow> u32 \<Rightarrow> int net" where
  "poll_errors C E ir = do {
     psr \<leftarrow> getp (\<lambda>p. proto_state (ttcan p));
     ir_ack E (ir AND ERR_INTR);
     w1 \<leftarrow> when_net (bit ir 24 \<and> bit psr 6) (mttcan_state_change C E CAN_STATE_ERROR_WARNING);
     w2 \<leftarrow> when_net (bit ir 23 \<and> bit psr 5) (mttcan_state_change C E CAN_STATE_ERROR_PASSIVE);
     w3 \<leftarrow> when_net (bit ir 25 \<and> bit psr 7) (mttcan_state_change C E CAN_STATE_BUS_OFF);
     (if bit ir 23 \<and> \<not> bit psr 5 \<or> bit ir 24 \<and> \<not> bit psr 6
      then set_state (if bit ir 23 then CAN_STATE_ERROR_WARNING else CAN_STATE_ERROR_ACTIVE)
      else ret ());
     berr \<leftarrow> getp (\<lambda>p. mode_berr_reporting (ctrlmode p));
     w4 \<leftarrow> when_net (berr \<and> (bit ir 28 \<or> bit ir 27))
       (mttcan_handle_bus_err C (if bit ir 27 then take_bit 3 psr else take_bit 3 (drop_bit 8 psr)));
     ret (w1 + w2 + w3 + w4)
   }"

text \<open>The frame read for a high-priority message goes to a buffer that is not initialised.\<close>

definition poll_hp :: "can_core \<Rightarrow> can_env \<Rightarrow> int net" where
  "poll_hp C E = do {
     ir_ack E (flag True 8);
     f \<leftarrow> checked None (ttcan_read_hp_mesgs E zero_frame);
     case f of None \<Rightarrow> ret 0 | Some f \<Rightarrow> mttcan_hpm_do_receive C f
   }"

definition poll_drx :: "can_core \<Rightarrow> can_env \<Rightarrow> int \<Rightarrow> int net" where
  "poll_drx C E quota = do {
     ir_ack E (flag True 19);
     rec_msgs \<leftarrow> checked 0 (ttcan_read_rx_buffer E);
     mttcan_read_rcv_list C RX_B BUFFER rec_msgs quota
   }"

definition poll_lost :: "can_core \<Rightarrow> can_env \<Rightarrow> bool \<Rightarrow> int net" where
  "poll_lost C E fifo_num = do {
     ir_ack E (flag True (if fifo_num then 7 else 3));
     mttcan_handle_lost_frame C E fifo_num;
     ret 1
   }"

definition poll_fifo1 :: "can_core \<Rightarrow> can_env \<Rightarrow> u32 \<Rightarrow> int \<Rightarrow> int net" where
  "poll_fifo1 C E ir quota = do {
     ir_ack E (ir AND 0x70);
     rec_msgs \<leftarrow> checked 0 (ttcan_read_rx_fifo1 E);
     mttcan_read_rcv_list C RX_Q1 FIFO_1 rec_msgs quota
   }"

definition poll_fifo0 :: "can_core \<Rightarrow> can_env \<Rightarrow> u32 \<Rightarrow> int \<Rightarrow> int net" where
  "poll_fifo0 C E ir quota = do {
     ir_ack E (ir AND 7);
     rec_msgs \<leftarrow> checked 0 (ttcan_read_rx_fifo0 E);
     mttcan_read_rcv_list C RX_Q0 FIFO_0 rec_msgs quota
   }"

definition poll_tx :: "can_core \<Rightarrow> can_env \<Rightarrow> u32 \<Rightarrow> unit net" where
  "poll_tx C E ir = do {
     one_shot \<leftarrow> getp (\<lambda>p. mode_one_shot (ctrlmode p));
     (if bit ir 10 \<or> one_shot then do {
        (if bit ir 10 then ir_ack E (flag True 10) else ret ());
        mttcan_tx_cancelled C E
      } else ret ());
     (if bit ir 9 then do { ir_ack E (flag True 9); mttcan_tx_complete C E } else ret ());
     (if bit ir 11 then ir_ack E (flag True 11) else ret ());
     (if ir AND 0xF000 \<noteq> 0 then do {
        (if bit ir 12 \<or> bit ir 13 then do {
           _ \<leftarrow> on_can (ttcan_read_txevt_fifo E);
           mttcan_tx_event
         } else ret ());
        ir_ack E 0xF000
      } else ret ())
   }"

text \<open>The work of one poll, in the order of the source; \<open>w\<close> is \<open>work_done\<close>.\<close>

definition poll_work :: "can_core \<Rightarrow> can_env \<Rightarrow> u32 \<Rightarrow> int \<Rightarrow> int net" where
  "poll_work C E ir quota = do {
     w \<leftarrow> when_net (ir AND ERR_INTR \<noteq> 0) (poll_errors C E ir);
     (if bit ir 18 then ir_ack E (flag True 18) else ret ());
     k \<leftarrow> when_net (bit ir 8) (poll_hp C E);
     let w = w + k;
     k \<leftarrow> when_net (bit ir 19) (poll_drx C E (quota - w));
     let w = w + k;
     k \<leftarrow> when_net (bit ir 7) (poll_lost C E True);
     let w = w + k;
     k \<leftarrow> when_net (bit ir 3) (poll_lost C E False);
     let w = w + k;
     k \<leftarrow> when_net (ir AND 0x70 \<noteq> 0) (poll_fifo1 C E ir (quota - w));
     let w = w + k;
     k \<leftarrow> when_net (ir AND 7 \<noteq> 0) (poll_fifo0 C E ir (quota - w));
     let w = w + k;
     (if bit ir 16 then ir_ack E (flag True 16) else ret ());
     poll_tx C E ir;
     ret w
   }"

definition mttcan_poll_ir :: "can_core \<Rightarrow> can_env \<Rightarrow> int \<Rightarrow> int net" where
  "mttcan_poll_ir C E quota = do {
     ir \<leftarrow> getp irqstatus;
     ttir \<leftarrow> getp tt_irqstatus;
     work_done \<leftarrow> when_net (ir \<noteq> 0) (poll_work C E ir quota);
     (if ttir \<noteq> 0 then do {
        (if ttir AND 0x7B100 \<noteq> 0 then do { _ \<leftarrow> on_can (ttcan_read32 E 0x12C); ret () } else ret ());
        on_can (ttcan_ttir_write E 0xFFFFFFFF)
      } else ret ());
     (if work_done < quota then do {
        modp (\<lambda>p. p\<lparr>napi_scheduled := False\<rparr>);
        s \<leftarrow> getp state;
        (if s \<noteq> CAN_STATE_BUS_OFF then on_can (ttcan_set_intrpts E True) else ret ())
      } else ret ());
     ret work_done
   }"

text \<open>The interrupt handler; the result tells whether the interrupt was handled.\<close>

definition mttcan_isr :: "can_env \<Rightarrow> bool net" where
  "mttcan_isr E = do {
     ir \<leftarrow> on_can (ttcan_read32 E ADR_MTTCAN_IR);
     modp (\<lambda>p. p\<lparr>irqstatus := ir\<rparr>);
     ttir \<leftarrow> on_can (ttcan_read32 E ADR_MTTCAN_TTIR);
     modp (\<lambda>p. p\<lparr>tt_irqstatus := ttir\<rparr>);
     if ir = 0 \<and> ttir = 0 then ret False
     else do {
       (if ir AND ERR_INTR \<noteq> 0 then do {
          psr \<leftarrow> on_can (ttcan_read_psr E);
          set_proto_state psr
        } else ret ());
       tt \<leftarrow> getp tt_param;
       (if snd tt \<noteq> 0 \<and> ttir \<noteq> 0 then do {
          n \<leftarrow> getp tt_intrs;
          modp (\<lambda>p. p\<lparr>tt_intrs := n + 1\<rparr>);
          (if n > snd tt then do { _ \<leftarrow> on_can (ttcan_set_config_change_enable E); ret () } else ret ())
        } else ret ());
       on_can (ttcan_set_intrpts E False);
       modp (\<lambda>p. p\<lparr>napi_scheduled := True\<rparr>);
       ret True
     }
   }"

definition mttcan_work :: "can_env \<Rightarrow> unit net" where
  "mttcan_work E = do {
     ir \<leftarrow> on_can (ttcan_read32 E ADR_MTTCAN_IR);
     ttir \<leftarrow> on_can (ttcan_read32 E ADR_MTTCAN_TTIR);
     modp (\<lambda>p. p\<lparr>irqstatus := ir, tt_irqstatus := ttir\<rparr>);
     (if ir \<noteq> 0 \<or> ttir \<noteq> 0 then do {
        on_can (ttcan_set_intrpts E False);
        modp (\<lambda>p. p\<lparr>napi_scheduled := True\<rparr>)
      } else ret ())
   }"

subsection \<open>Initialisation\<close>

abbreviation (input) DEF_MTTCAN_XIDAM :: u32 where "DEF_MTTCAN_XIDAM \<equiv> 0x1FFFFFFF"

text \<open>Rewriting the configuration registers, which the first initialisation and the resume have in common.\<close>

definition config_registers :: "can_env \<Rightarrow> u32 \<Rightarrow> ttcan_timestamp_source \<Rightarrow> unit net" where
  "config_registers E xidam ts = do {
     _ \<leftarrow> on_can (ttcan_set_xidam E xidam);
     on_can (ttcan_set_rx_buffers_elements E);
     on_can (ttcan_set_std_id_filter_addr E);
     on_can (ttcan_set_xtd_id_filter_addr E);
     on_can (ttcan_set_time_stamp_conf E 9 ts);
     on_can (ttcan_set_txevt_fifo_conf E);
     _ \<leftarrow> checked 0 (ttcan_set_tx_buffer_addr E);
     tt \<leftarrow> getp tt_param;
     if fst tt \<noteq> 0 then do {
       on_can (ttcan_disable_auto_retransmission E True);
       on_can (ttcan_set_trigger_mem_conf E);
       _ \<leftarrow> on_can (ttcan_set_tur_config E 0x0800 0 True);
       ret ()
     } else ret ()
   }"

definition ram_init :: "unit net" where
  "ram_init = checked () (State (\<lambda>t. case ttcan_mesg_ram_init t of None \<Rightarrow> (None, t) | Some t' \<Rightarrow> (Some (), t')))"

definition ttcan_print_version :: "can_env \<Rightarrow> unit hal" where
  "ttcan_print_version E = do { _ \<leftarrow> ttcan_read32 E 0; _ \<leftarrow> ttcan_read32 E 4; ret () }"

definition zero_mem :: mem where "zero_mem = (\<lambda>_. 0)"

text \<open>
  One of the three shadow copies: allocated when the list has elements, and programmed. The result is 0 or
  an error.
\<close>

definition alloc_shadow ::
  "can_core \<Rightarrow> ttcan_mram_item \<Rightarrow> (mem \<Rightarrow> mttcan_priv \<Rightarrow> mttcan_priv) \<Rightarrow> (ttcan_controller \<Rightarrow> mem \<Rightarrow> ttcan_controller)
     \<Rightarrow> int net" where
  "alloc_shadow C item set_shadow prog = do {
     n \<leftarrow> getp (\<lambda>p. mram_num (ttcan p) item);
     if n = 0 then ret 0
     else do {
       ok \<leftarrow> getp (zalloc C);
       if \<not> ok then ret (- ENOMEM)
       else do {
         modp (set_shadow zero_mem);
         modp (\<lambda>p. p\<lparr>ttcan := prog (ttcan p) zero_mem\<rparr>);
         ret 0
       }
     }
   }"

definition mttcan_hw_init :: "can_core \<Rightarrow> can_env \<Rightarrow> int net" where
  "mttcan_hw_init C E = do {
     on_can ttcan_set_ok;
     poll \<leftarrow> getp polling;
     let ie = (if poll then 0 else 0x3BBEF7FF);
     let ttie = (if poll then 0 else 0x50C03);
     modp (\<lambda>p. p\<lparr>ttcan := the (snd (ttcan_controller_init (Some (ttcan p)) ie ttie))\<rparr>);
     err \<leftarrow> State (\<lambda>p. case ttcan_mesg_ram_config (ttcan p) (mram_param p) (tx_conf p) (rx_conf p) of
       (err, t) \<Rightarrow> (err, p\<lparr>ttcan := t\<rparr>));
     if err \<noteq> 0 then ret err
     else do {
       ram_init;
       err \<leftarrow> on_can (ttcan_set_config_change_enable E);
       if err \<noteq> 0 then ret err
       else do {
         modp (\<lambda>p. p\<lparr>xidam_reg := DEF_MTTCAN_XIDAM\<rparr>);
         ext \<leftarrow> getp use_external_timer;
         config_registers E DEF_MTTCAN_XIDAM (if ext then TS_EXTERNAL else TS_INTERNAL);
         err \<leftarrow> alloc_shadow C MRAM_SIDF (\<lambda>m p. p\<lparr>std_shadow := Some m\<rparr>) ttcan_prog_std_id_fltrs;
         if err \<noteq> 0 then ret err
         else do {
           err \<leftarrow> alloc_shadow C MRAM_XIDF (\<lambda>m p. p\<lparr>xtd_shadow := Some m\<rparr>) ttcan_prog_xtd_id_fltrs;
           if err \<noteq> 0 then ret err
           else do {
             err \<leftarrow> alloc_shadow C MRAM_TMC (\<lambda>m p. p\<lparr>tmc_shadow := Some m\<rparr>) ttcan_prog_trigger_mem;
             if err \<noteq> 0 then ret err
             else do { on_can (ttcan_print_version E); ret 0 }
           }
         }
       }
     }
   }"

text \<open>Programming a list from its shadow copy; without one the pointer would be null.\<close>

definition prog_shadow ::
  "ttcan_mram_item \<Rightarrow> (mttcan_priv \<Rightarrow> mem option) \<Rightarrow> (ttcan_controller \<Rightarrow> mem \<Rightarrow> ttcan_controller) \<Rightarrow> unit net" where
  "prog_shadow item shadow prog = modp (\<lambda>p.
     if mram_num (ttcan p) item = 0 then p
     else case shadow p of None \<Rightarrow> p\<lparr>undefined_behaviour := True\<rparr>
       | Some m \<Rightarrow> p\<lparr>ttcan := prog (ttcan p) m\<rparr>)"

definition mttcan_hw_reinit :: "can_env \<Rightarrow> int net" where
  "mttcan_hw_reinit E = do {
     ram_init;
     on_can ttcan_set_ok;
     err \<leftarrow> on_can (ttcan_set_config_change_enable E);
     if err \<noteq> 0 then ret err
     else do {
       xidam \<leftarrow> getp xidam_reg;
       config_registers E xidam TS_INTERNAL;
       prog_shadow MRAM_SIDF std_shadow ttcan_prog_std_id_fltrs;
       prog_shadow MRAM_XIDF xtd_shadow ttcan_prog_xtd_id_fltrs;
       prog_shadow MRAM_TMC tmc_shadow ttcan_prog_trigger_mem;
       ret err
     }
   }"

definition mttcan_hw_deinit :: "can_env \<Rightarrow> unit net" where
  "mttcan_hw_deinit E = do { _ \<leftarrow> on_can (ttcan_set_init E); ret () }"

subsection \<open>Suspend and resume\<close>

text \<open>The loop that waits for the requests; the result is the last \<open>timeout\<close>, which is \<open>- 1\<close> when it ran out.\<close>

primrec flush_wait :: "can_env \<Rightarrow> nat \<Rightarrow> int hal" where
  "flush_wait E 0 = do {
     r \<leftarrow> ttcan_tx_req_pending E;
     ret (if r \<noteq> 0 then - 1 else 0)
   }"
| "flush_wait E (Suc timeout) = do {
     r \<leftarrow> ttcan_tx_req_pending E;
     if r \<noteq> 0 then flush_wait E timeout else ret (int (Suc timeout))
   }"

definition mttcan_suspend :: "can_env \<Rightarrow> int net" where
  "mttcan_suspend E = do {
     modp (\<lambda>p. if running p then p\<lparr>queue_stopped := True, attached := False\<rparr> else p);
     _ \<leftarrow> on_can (flush_wait E 100);
     up \<leftarrow> getp iff_up;
     r \<leftarrow> (if up then do { mttcan_stop E; on_can (ttcan_set_power E 0) } else ret 0);
     if r \<noteq> 0 then ret (- ETIMEDOUT)
     else do { set_state CAN_STATE_SLEEPING; ret 0 }
   }"

definition mttcan_resume :: "can_env \<Rightarrow> int net" where
  "mttcan_resume E = do {
     up \<leftarrow> getp iff_up;
     r \<leftarrow> (if up then on_can (ttcan_set_power E 1) else ret 0);
     if r \<noteq> 0 then ret r
     else do {
       r \<leftarrow> mttcan_hw_reinit E;
       if r \<noteq> 0 then ret r
       else do {
         (if up then mttcan_start E else ret ());
         modp (\<lambda>p. if running p then p\<lparr>attached := True, queue_stopped := False\<rparr> else p);
         ret 0
       }
     }
   }"

subsection \<open>The lists under every operation of the driver\<close>

definition lists_ok :: "mttcan_priv \<Rightarrow> bool" where
  "lists_ok p \<longleftrightarrow> list_ok (ttcan p)"

lemma keeps_on_can [keeps_intros]: "keeps list_ok m \<Longrightarrow> keeps lists_ok (on_can m)"
  by (rule state_io_relI) (auto simp: on_can_def lists_ok_def split: prod.splits)

lemma keeps_checked [keeps_intros]: "keeps list_ok m \<Longrightarrow> keeps lists_ok (checked d m)"
  by (rule state_io_relI) (auto simp: checked_def lists_ok_def split: prod.splits option.splits)

lemma keeps_when [keeps_intros]: "keeps lists_ok m \<Longrightarrow> keeps lists_ok (when_net b m)"
  by (simp add: when_net_def keeps_intros)

text \<open>The changes of the private structure that leave the controller's lists alone.\<close>

lemma keeps_modp: "(\<And>p. ttcan (f p) = ttcan p) \<Longrightarrow> keeps lists_ok (modp f)"
  by (rule keeps_modify) (simp add: lists_ok_def)

lemma keeps_fields [keeps_intros]:
  "keeps lists_ok (set_stats g)" "keeps lists_ok (set_can_stats h)" "keeps lists_ok (set_state s)"
  "keeps lists_ok (set_tx_object k)" "keeps lists_ok (netif_receive skb)" "keeps lists_ok wake_queue"
  "keeps lists_ok (undefined_if b)" "keeps lists_ok (set_proto_state v)"
  unfolding set_can_stats_def set_state_def set_tx_object_def netif_receive_def wake_queue_def undefined_if_def
    set_proto_state_def
  by (rule keeps_modify, simp add: lists_ok_def list_ok_def)+

lemma keeps_fields2 [keeps_intros]:
  "keeps lists_ok (modp (\<lambda>p. p\<lparr>echo_skb := g p\<rparr>))"
  "keeps lists_ok (modp (\<lambda>p. p\<lparr>queue_stopped := b\<rparr>))"
  "keeps lists_ok (modp (\<lambda>p. p\<lparr>leaked := l p\<rparr>))"
  "keeps lists_ok (modp (\<lambda>p. p\<lparr>irqstatus := v\<rparr>))"
  "keeps lists_ok (modp (\<lambda>p. p\<lparr>tt_irqstatus := v\<rparr>))"
  "keeps lists_ok (modp (\<lambda>p. p\<lparr>irqstatus := v, tt_irqstatus := w\<rparr>))"
  "keeps lists_ok (modp (\<lambda>p. p\<lparr>tt_intrs := i\<rparr>))"
  "keeps lists_ok (modp (\<lambda>p. p\<lparr>napi_scheduled := b\<rparr>))"
  "keeps lists_ok (modp (\<lambda>p. p\<lparr>queue_stopped := b, carrier := c\<rparr>))"
  "keeps lists_ok (modp (\<lambda>p. p\<lparr>queue_stopped := b, carrier := c, restart_scheduled := r p\<rparr>))"
  "keeps lists_ok (modp (\<lambda>p. p\<lparr>hwts_rx_en := b, echo_skb := g p\<rparr>))"
  "keeps lists_ok (modp (\<lambda>p. p\<lparr>ttcan := (ttcan p)\<lparr>tx_obj_cancelled := k p\<rparr>\<rparr>))"
  by (rule keeps_modify, simp add: lists_ok_def list_ok_def)+

lemma bit_clear_type: "bit (clear_type rxtype s) i \<longleftrightarrow> bit s i \<and> i \<noteq> type_bit rxtype"
proof -
  have m: "(0xFF :: u16) = mask 8" by (simp add: mask_eq_exp_minus_1)
  show ?thesis
    by (cases rxtype)
       (auto simp: clear_type_def rx_type_code_flag m bit_flag bit_and_iff bit_mask_iff bit_not_iff bit_or_iff type_bit_def
         dest: bit_imp_le_length)
qed

lemma keeps_reset:
  assumes "list_ok t"
  shows "list_ok (empty_list RX_B (reset_count BUFFER t))" "list_ok (empty_list RX_Q0 (reset_count FIFO_0 t))"
    "list_ok (empty_list RX_Q1 (reset_count FIFO_1 t))"
    "list_ok (t\<lparr>evt_mem := 0, list_status := clear_type TX_EVT (list_status t), tx_evt := []\<rparr>)"
  using assms unfolding list_ok_def empty_list_def reset_count_def
  by (simp_all add: bit_clear_type type_bit_def list_counted_Nil)

lemma keeps_rcv_loop [keeps_intros]: "keeps lists_ok (rcv_loop C msgs rec k q)"
proof (induction msgs arbitrary: k q)
  case (Cons msg msgs)
  show ?case unfolding rcv_loop.simps by (intro keeps_intros Cons.IH)
qed (simp add: keeps_intros)

lemma keeps_read_rcv [keeps_intros]:
  "keeps lists_ok (mttcan_read_rcv_list C RX_B BUFFER rec q)" "keeps lists_ok (mttcan_read_rcv_list C RX_Q0 FIFO_0 rec q)"
  "keeps lists_ok (mttcan_read_rcv_list C RX_Q1 FIFO_1 rec q)"
  unfolding mttcan_read_rcv_list_def
  by (intro keeps_intros keeps_modify; simp add: lists_ok_def keeps_reset)+

lemma keeps_tx_event [keeps_intros]: "keeps lists_ok mttcan_tx_event"
proof (rule state_io_relI, rule impI)
  fix a p p' assume "run_state mttcan_tx_event p = (a, p')" "lists_ok p"
  then show "lists_ok p'"
    using keeps_reset(4) [of "ttcan p"] by (auto simp: mttcan_tx_event_def lists_ok_def split: if_splits)
qed

lemma keeps_complete_loop [keeps_intros]: "keeps lists_ok (complete_loop C n v)"
proof (induction n arbitrary: v)
  case (Suc n)
  show ?case unfolding complete_loop.simps by (intro keeps_intros Suc.IH)
qed (simp add: keeps_intros)

lemma keeps_cancel_loop [keeps_intros]: "keeps lists_ok (cancel_loop C n v)"
proof (induction n arbitrary: v)
  case (Suc n)
  show ?case unfolding cancel_loop.simps by (intro keeps_intros Suc.IH)
qed (simp add: keeps_intros)

lemma keeps_tx_done [keeps_intros]: "keeps lists_ok (mttcan_tx_complete C E)" "keeps lists_ok (mttcan_tx_cancelled C E)"
  unfolding mttcan_tx_complete_def mttcan_tx_cancelled_def ttcan_read_tx_complete_reg_def ttcan_read_tx_cancelled_reg_def
  by (intro keeps_intros)+

lemma keeps_set_intrpts [keeps_intros]: "keeps list_ok (ttcan_set_intrpts E b)"
  unfolding ttcan_set_intrpts_def by (intro keeps_intros)

lemma keeps_ack [keeps_intros]: "keeps lists_ok (ir_ack E v)" "keeps list_ok (ttcan_ir_write E v)"
  unfolding ir_ack_def ttcan_ir_write_def by (intro keeps_intros)+

lemma keeps_errors [keeps_intros]:
  "keeps lists_ok (mttcan_handle_lost_frame C E b)" "keeps lists_ok (mttcan_handle_bus_err C l)"
  "keeps lists_ok (mttcan_state_change C E s)"
  unfolding mttcan_handle_lost_frame_def mttcan_handle_bus_err_def
    apply (intro keeps_intros)+
  unfolding mttcan_state_change_def
  by (cases s; simp only: can_state.case; intro keeps_intros)

lemma keeps_poll_work [keeps_intros]: "keeps lists_ok (poll_work C E ir quota)"
  unfolding poll_work_def poll_errors_def poll_hp_def poll_drx_def poll_lost_def poll_fifo0_def poll_fifo1_def poll_tx_def
    mttcan_hpm_do_receive_def
  by (intro keeps_intros)

lemma keeps_interrupts [keeps_intros]:
  "keeps lists_ok (mttcan_poll_ir C E quota)" "keeps lists_ok (mttcan_isr E)" "keeps lists_ok (mttcan_work E)"
  unfolding mttcan_poll_ir_def mttcan_isr_def mttcan_work_def ttcan_ttir_write_def ttcan_read_psr_def
  by (intro keeps_intros)+

lemma keeps_tx_ded [keeps_intros]: "keeps list_ok (ttcan_tx_ded_msg_write E f i)"
proof (rule state_io_relI, rule impI)
  fix r t t' assume run: "run_state (ttcan_tx_ded_msg_write E f i) t = (r, t')" and "list_ok t"
  then show "list_ok t'"
    by (auto simp: ttcan_tx_ded_msg_write_def ttcan_write_tx_msg_ram_def list_ok_def Let_def
      split: option.splits if_splits bind_splits)
qed

lemma keeps_xmit [keeps_intros]: "keeps lists_ok (mttcan_start_xmit C E skb)"
  unfolding mttcan_start_xmit_def ttcan_tx_msg_buffer_write_def ttcan_tx_fifo_queue_msg_def
    ttcan_tx_trigger_msg_transmit_def
  by (intro keeps_intros)

lemma keeps_prods [keeps_intros]: "keeps list_ok (write_prods E ps)"
  by (induction ps) (simp_all add: keeps_intros split: prod.split)

lemma keeps_set_bitrate [keeps_intros]: "keeps list_ok (ttcan_set_bitrate E)"
proof -
  have "keeps list_ok (modify (\<lambda>t. t\<lparr>bt_data := (bt_data t)\<lparr>bt_tdc := tdc t\<rparr>\<rparr>))"
    by (rule keeps_modify) (simp add: list_ok_def)
  then show ?thesis
    unfolding ttcan_set_bitrate_def tegra_mttcan_config_prod_settings_def tegra_mttcan_write_prod_settings_def
    by (intro keeps_intros)
qed

lemma keeps_do_set_bittiming [keeps_intros]: "keeps lists_ok (mttcan_do_set_bittiming E)"
  unfolding mttcan_do_set_bittiming_def
  by (intro keeps_intros keeps_modify; simp add: lists_ok_def list_ok_def)

lemma keeps_start [keeps_intros]: "keeps lists_ok (mttcan_start E)" "keeps lists_ok (mttcan_stop E)"
  "keeps lists_ok (mttcan_set_mode E b)"
  unfolding mttcan_start_def mttcan_stop_def mttcan_set_mode_def mttcan_controller_config_def ttcan_read_psr_def
    ttcan_clear_intr_def ttcan_clear_tt_intr_def
  by (intro keeps_intros)+

lemma keeps_open_close [keeps_intros]: "keeps lists_ok (mttcan_open C E)" "keeps lists_ok (mttcan_close C E)"
  "keeps lists_ok (mttcan_bus_off_restart C E)"
  unfolding mttcan_open_def mttcan_close_def mttcan_bus_off_restart_def
  by (intro keeps_intros)+

text \<open>What the network stack, the interrupts and the power management call, one after the other.\<close>

datatype can_op =
  Op_Xmit can_skb | Op_Isr | Op_Work | Op_Poll int | Op_Restart | Op_Set_Mode bool | Op_Open | Op_Close

definition run_can_op :: "can_core \<Rightarrow> can_env \<Rightarrow> can_op \<Rightarrow> mttcan_priv \<Rightarrow> mttcan_priv" where
  "run_can_op C E c p = (case c of
      Op_Xmit skb \<Rightarrow> snd (run_state (mttcan_start_xmit C E skb) p)
    | Op_Isr \<Rightarrow> snd (run_state (mttcan_isr E) p)
    | Op_Work \<Rightarrow> snd (run_state (mttcan_work E) p)
    | Op_Poll quota \<Rightarrow> snd (run_state (mttcan_poll_ir C E quota) p)
    | Op_Restart \<Rightarrow> snd (run_state (mttcan_bus_off_restart C E) p)
    | Op_Set_Mode b \<Rightarrow> snd (run_state (mttcan_set_mode E b) p)
    | Op_Open \<Rightarrow> snd (run_state (mttcan_open C E) p)
    | Op_Close \<Rightarrow> snd (run_state (mttcan_close C E) p))"

lemma keepsD: "keeps P m \<Longrightarrow> P s \<Longrightarrow> P (snd (run_state m s))"
  unfolding state_io_rel_def by blast

lemma lists_ok_step: "lists_ok p \<Longrightarrow> lists_ok (run_can_op C E c p)"
  unfolding run_can_op_def by (cases c; simp only: can_op.case; elim keepsD [rotated]; intro keeps_intros)

text \<open>
  C17. Whatever the device and the allocations do, after any sequence of operations of the driver the
  counter of each of its four lists is the length of the list, no list has more than 128 elements, and the status
  bit of a list tells whether it is full. The operations are opening and closing, transmission, the interrupt and its work
  item, polling, restarting and setting the mode; suspend, resume and the initialisation at probe are not among them.
\<close>

theorem can_lists_bounded:
  assumes "lists_ok p" "p' = fold (run_can_op C E) ops p"
  shows "lists_ok p' \<and> length (rx_b (ttcan p')) \<le> 128 \<and> length (rx_q0 (ttcan p')) \<le> 128
    \<and> length (rx_q1 (ttcan p')) \<le> 128 \<and> length (tx_evt (ttcan p')) \<le> 128"
proof -
  have "lists_ok (fold (run_can_op C E) ops p)"
    using assms(1) by (induction ops arbitrary: p) (simp_all add: lists_ok_step)
  then have "lists_ok p'" using assms(2) by simp
  then show ?thesis by (simp add: lists_ok_def list_ok_def list_counted_def)
qed

subsection \<open>Accounting of transmitted frames\<close>

text \<open>
  What the driver relies on of the echo slots of the CAN core (\<open>net/can/dev/skb.c\<close> of the kernel). Storing into an empty slot may
  fail (no memory, or a frame that is not to be looped back): the frame is then dropped and the slot stays empty.
  With \<open>st\<close> it always stores.
\<close>

definition echo_slots :: "bool \<Rightarrow> can_core \<Rightarrow> bool" where
  "echo_slots st C \<longleftrightarrow> (\<forall>skb n e. n < 32 \<longrightarrow> e n = None \<longrightarrow>
       put_echo C skb n e = e(n \<mapsto> skb) \<or> \<not> st \<and> put_echo C skb n e = e)
     \<and> (\<forall>n e. n < 32 \<longrightarrow> snd (get_echo C n e) = e(n := None))
     \<and> (\<forall>n e. n < 32 \<longrightarrow> free_echo C n e = e(n := None))"

abbreviation tx_obj :: "mttcan_priv \<Rightarrow> u64" where "tx_obj p \<equiv> tx_object (ttcan p)"

text \<open>The buffers of occupied slots are reserved; with \<open>st\<close> only these are.\<close>

definition tx_ok :: "bool \<Rightarrow> mttcan_priv \<Rightarrow> bool" where
  "tx_ok st p \<longleftrightarrow> (\<forall>n. bit (tx_obj p) n \<longrightarrow> n < 32 \<and> (st \<longrightarrow> echo_skb p n \<noteq> None))
     \<and> (\<forall>n < 32. echo_skb p n \<noteq> None \<longrightarrow> bit (tx_obj p) n)"

text \<open>The frames that were sent, aborted or are still in the device.\<close>

definition outstanding :: "mttcan_priv \<Rightarrow> nat set" where
  "outstanding p = {n. bit (tx_obj p) n}"

definition accounted :: "mttcan_priv \<Rightarrow> u64" where
  "accounted p = tx_packets (stats p) + tx_aborted_errors (stats p) + word_of_nat (card (outstanding p))"

lemma finite_outstanding [simp]: "finite (outstanding p)"
  by (rule finite_subset [of _ "{..<64}"]) (auto simp: outstanding_def dest: bit_imp_le_length)

lemma tx_ded_object:
  "run_state (ttcan_tx_ded_msg_write E f i) t = (r, t') \<Longrightarrow> tx_object t' = tx_object t"
  by (auto simp: ttcan_tx_ded_msg_write_def ttcan_write_tx_msg_ram_def Let_def
      split: option.splits if_splits bind_splits)

lemma with_hw_object [simp]: "tx_object (with_hw f t) = tx_object t" "ded_buff_num (with_hw f t) = ded_buff_num t"
  by (simp_all add: with_hw_def split: prod.split)

lemma tx_buffer_object:
  assumes "run_state (ttcan_tx_msg_buffer_write E f) t = (Some k, t')"
  shows "tx_object t' = tx_object t \<and> (k < 0 \<or> (\<exists>n < 32. k = int n \<and> \<not> bit (tx_object t) n))"
proof -
  define brp where "brp = value_at E ADR_MTTCAN_TXBRP t 1"
  define t1 where "t1 = with_hw (run_hw E) t"
  define fw where "fw = (NOT brp AND ucast (NOT (tx_object t))) AND (push_bit (unat (ded_buff_num t)) 1 - 1)"
  have read: "run_state (ttcan_read32 E ADR_MTTCAN_TXBRP) t = (brp, t1)" "tx_object t1 = tx_object t"
    "ded_buff_num t1 = ded_buff_num t"
    by (simp_all add: hal_simps brp_def t1_def value_at_def)
  have ded: "ded_buff_num t < 32"
  proof (rule ccontr)
    assume "\<not> ded_buff_num t < 32"
    with assms read show False by (simp add: ttcan_tx_msg_buffer_write_def shl_one_def)
  qed
  have run: "(Some k, t') = (let msg_no = int (ffs fw) - 1 in if msg_no < 0 then (Some (- ENOMEM), t1)
      else case run_state (ttcan_tx_ded_msg_write E f (word_of_int msg_no)) t1 of (w, t2) \<Rightarrow> (map_option (\<lambda>_. msg_no) w, t2))"
    using ded assms read
    by (auto simp: ttcan_tx_msg_buffer_write_def shl_one_def fw_def Let_def split: if_splits prod.splits)
  show ?thesis
  proof (cases "fw = 0")
    case True
    with run read(2) show ?thesis by (simp add: Let_def)
  next
    case False
    then obtain i where i: "ffs fw = Suc i" "i < 32" "bit fw i" by (rule ffs_lowest) blast
    from i(3) have "\<not> bit (tx_object t) i"
      unfolding fw_def using bit_free_mask [OF ded] by (simp add: free_buffers_def)
    obtain w t2 where w: "run_state (ttcan_tx_ded_msg_write E f (word_of_nat i)) t1 = (w, t2)" by fastforce
    with run i(1) have "Some k = map_option (\<lambda>_. int i) w" "t' = t2" by (simp_all add: Let_def)
    with \<open>\<not> bit (tx_object t) i\<close> i(2) read(2) tx_ded_object [OF w] show ?thesis by (cases w) auto
  qed
qed

lemma tx_queue_object:
  assumes "run_state (ttcan_tx_fifo_queue_msg E f) t = (Some k, t')"
  shows "tx_object t' = tx_object t \<and> (k < 0 \<or> (\<exists>n < 32. k = int n \<and> \<not> bit (tx_object t) n))"
proof -
  define s where "s = value_at E ADR_MTTCAN_TXFQS t 1"
  define t1 where "t1 = with_hw (run_hw E) t"
  have read: "run_state (ttcan_read32 E ADR_MTTCAN_TXFQS) t = (s, t1)" "tx_object t1 = tx_object t"
    by (simp_all add: hal_simps s_def t1_def value_at_def)
  define idx where "idx = (take_bit 5 (drop_bit 16 s) :: u32)"
  have "unat idx = unat (drop_bit 16 s) mod 32"
    unfolding idx_def by (simp only: unsigned_take_bit_eq) (simp add: take_bit_eq_mod)
  then have idx: "unat idx < 32" by simp
  then have "idx < 32" by (simp add: word_less_nat_alt)
  then have shl: "shl_one idx = Some (push_bit (unat idx) 1)" by (simp add: shl_one_def)
  have b: "bit (scast (push_bit (unat idx) 1 :: u32) :: u64) (unat idx)"
    using idx by (simp add: bit_simps)
  show ?thesis
  proof (cases "bit s 21 \<or> tx_object t AND scast (push_bit (unat idx) 1 :: u32) \<noteq> 0")
    case True
    with assms read shl show ?thesis
      by (auto simp: ttcan_tx_fifo_queue_msg_def Let_def idx_def [symmetric] split: if_splits option.splits)
  next
    case False
    then have free: "\<not> bit (tx_object t) (unat idx)" using b by (metis bit_and_iff bit_0_eq bot_apply bot_bool_def)
    obtain w t2 where w: "run_state (ttcan_tx_ded_msg_write E f (ucast idx)) t1 = (w, t2)" by fastforce
    with False assms read shl have "k = uint idx" "t' = t2"
      by (auto simp: ttcan_tx_fifo_queue_msg_def Let_def idx_def [symmetric] split: if_splits option.splits)
    with free idx read(2) tx_ded_object [OF w] show ?thesis
      by (intro conjI disjI2 exI [of _ "unat idx"]) simp_all
  qed
qed

lemma run_checked:
  "run_state (checked d m) p = (x, p') \<Longrightarrow> \<not> undefined_behaviour p' \<Longrightarrow>
     \<exists>t. run_state m (ttcan p) = (Some x, t) \<and> p' = p\<lparr>ttcan := t\<rparr>"
  by (auto simp: checked_def split: prod.splits option.splits)

lemma trigger_object:
  "run_state (ttcan_tx_trigger_msg_transmit E i) t = (r, t') \<Longrightarrow> tx_object t' = tx_object t"
  by (auto simp: ttcan_tx_trigger_msg_transmit_def hal_simps split: option.splits)

text \<open>What an accepted and a refused frame change.\<close>

lemma xmit_cases:
  assumes "run_state (mttcan_start_xmit C E skb) p = (r, p')" "\<not> undefined_behaviour p'" "\<not> dropped_invalid_skb C skb"
  shows "stats p' = stats p \<and> (r = NETDEV_TX_BUSY \<and> tx_obj p' = tx_obj p \<and> echo_skb p' = echo_skb p
    \<or> r = NETDEV_TX_OK \<and> (\<exists>n < 32. \<exists>skb'. \<not> bit (tx_obj p) n \<and> tx_obj p' = tx_obj p OR flag True n
        \<and> echo_skb p' = put_echo C skb' n (echo_skb p)))"
proof -
  define fr where "fr = (if skb_is_fd skb
    then (skb_frame skb)\<lparr>flags := flags (skb_frame skb) OR flag True CAN_FD_FLAG\<rparr> else skb_frame skb)"
  define skb' where "skb' = skb\<lparr>skb_frame := fr\<rparr>"
  obtain k1 p1 where r1: "run_state (checked (- 1) (ttcan_tx_msg_buffer_write E fr)) p = (k1, p1)" by fastforce
  obtain k2 p2 where r2: "run_state (if k1 < 0 then checked (- 1) (ttcan_tx_fifo_queue_msg E fr) else ret k1) p1
      = (k2, p2)" by fastforce
  define p3 where "p3 = p2\<lparr>echo_skb := put_echo C skb' (nat k2) (echo_skb p2)\<rparr>"
  define p4 where "p4 = snd (run_state (if fst (tt_param p3) = 0
    then checked () (ttcan_tx_trigger_msg_transmit E (word_of_int k2)) else ret ()) p3)"
  have r4: "run_state (if fst (tt_param p3) = 0
    then checked () (ttcan_tx_trigger_msg_transmit E (word_of_int k2)) else ret ()) p3 = ((), p4)"
    unfolding p4_def by (simp only: prod_eq_iff fst_conv snd_conv) simp
  have run: "(r, p') = (if k2 < 0 then (NETDEV_TX_BUSY, p2\<lparr>queue_stopped := True\<rparr>)
      else (NETDEV_TX_OK, p4\<lparr>ttcan := (ttcan p4)\<lparr>tx_object := tx_obj p4 OR flag True (nat k2),
        tx_obj_cancelled := tx_obj_cancelled (ttcan p4) AND NOT (flag True (nat k2))\<rparr>\<rparr>))"
    using assms(1,3) r1 r2 r4
    by (auto simp: mttcan_start_xmit_def Let_def fr_def [symmetric] skb'_def [symmetric] p3_def [symmetric] set_tx_object_def
      split: if_splits)
  have u4: "\<not> undefined_behaviour p2 \<and> (k2 < 0 \<or> \<not> undefined_behaviour p4)"
    using run assms(2) r4 by (auto simp: p3_def checked_def split: if_splits prod.splits option.splits)
  then have "\<not> undefined_behaviour p1" using r2 by (auto simp: checked_def split: if_splits prod.splits option.splits)
  from run_checked [OF r1 this] obtain t1 where
    t1: "run_state (ttcan_tx_msg_buffer_write E fr) (ttcan p) = (Some k1, t1)" "p1 = p\<lparr>ttcan := t1\<rparr>" by blast
  note o1 = tx_buffer_object [OF t1(1)]
  have o2: "tx_obj p2 = tx_obj p \<and> (k2 < 0 \<or> (\<exists>n < 32. k2 = int n \<and> \<not> bit (tx_obj p) n))
    \<and> stats p2 = stats p \<and> echo_skb p2 = echo_skb p"
  proof (cases "k1 < 0")
    case False
    with r2 t1 o1 show ?thesis by auto
  next
    case True
    with r2 u4 obtain t2 where t2: "run_state (ttcan_tx_fifo_queue_msg E fr) t1 = (Some k2, t2)" "p2 = p1\<lparr>ttcan := t2\<rparr>"
      using run_checked [of "- 1"] t1(2) by fastforce
    from tx_queue_object [OF t2(1)] t2(2) t1(2) o1 show ?thesis by auto
  qed
  have o4: "tx_obj p4 = tx_obj p2 \<and> stats p4 = stats p2 \<and> echo_skb p4 = echo_skb p3" if "\<not> k2 < 0"
  proof (cases "fst (tt_param p3) = 0")
    case True
    with r4 u4 that obtain t4 where "run_state (ttcan_tx_trigger_msg_transmit E (word_of_int k2)) (ttcan p3) = (Some (), t4)"
      "p4 = p3\<lparr>ttcan := t4\<rparr>" using run_checked [of "()"] by fastforce
    then show ?thesis using trigger_object by (simp add: p3_def)
  next
    case False
    with r4 have "p4 = p3" by simp
    then show ?thesis by (simp add: p3_def)
  qed
  show ?thesis
  proof (cases "k2 < 0")
    case True
    with run o2 show ?thesis by simp
  next
    case False
    with o2 obtain n where n: "n < 32" "k2 = int n" "\<not> bit (tx_obj p) n" by blast
    with False run o2 o4 show ?thesis by (auto simp: p3_def)
  qed
qed

lemma outstanding_insert: "tx_obj p' = tx_obj p OR flag True n \<Longrightarrow> n < 32 \<Longrightarrow> outstanding p' = insert n (outstanding p)"
  by (auto simp: outstanding_def bit_or_iff bit_flag)

lemma bit_clear_flag: "bit (v AND NOT (flag True n) :: u64) m \<longleftrightarrow> bit v m \<and> m \<noteq> n"
  by (auto simp: bit_and_iff bit_not_iff bit_flag dest: bit_imp_le_length)

lemma outstanding_remove: "tx_obj p' = tx_obj p AND NOT (flag True n) \<Longrightarrow> outstanding p' = outstanding p - {n}"
  by (auto simp: outstanding_def bit_clear_flag)

lemma xmit_accounted:
  assumes "echo_slots st C" "tx_ok st p" "run_state (mttcan_start_xmit C E skb) p = (r, p')" "\<not> undefined_behaviour p'"
    "\<not> dropped_invalid_skb C skb"
  shows "tx_ok st p' \<and> accounted p' = accounted p + (if r = NETDEV_TX_OK then 1 else 0)"
  using xmit_cases [OF assms(3-5)]
proof (elim conjE disjE exE)
  assume h: "stats p' = stats p" "r = NETDEV_TX_BUSY" "tx_obj p' = tx_obj p" "echo_skb p' = echo_skb p"
  then have "outstanding p' = outstanding p" by (simp only: outstanding_def)
  then have "accounted p' = accounted p" using h(1) by (simp only: accounted_def)
  moreover have "tx_ok st p'" using assms(2) unfolding tx_ok_def h(3,4) .
  ultimately show ?thesis using h(2) by simp
next
  fix n skb'
  assume h: "stats p' = stats p" "r = NETDEV_TX_OK" "n < 32" "\<not> bit (tx_obj p) n" "tx_obj p' = tx_obj p OR flag True n"
    "echo_skb p' = put_echo C skb' n (echo_skb p)"
  then have "echo_skb p n = None" using assms(2) by (auto simp: tx_ok_def)
  with assms(1) h(3,6) have e: "echo_skb p' = (echo_skb p)(n \<mapsto> skb') \<or> \<not> st \<and> echo_skb p' = echo_skb p"
    by (simp add: echo_slots_def)
  have "outstanding p' = insert n (outstanding p)" "n \<notin> outstanding p"
    using outstanding_insert h by (auto simp: outstanding_def)
  then have "card (outstanding p') = Suc (card (outstanding p))" by simp
  then have "accounted p' = accounted p + 1" using h(1) by (simp add: accounted_def)
  moreover have "tx_ok st p'" using assms(2) e h(3,5) by (auto simp: tx_ok_def bit_or_iff bit_flag)
  ultimately show ?thesis using h(2) by simp
qed

lemma retire_step:
  assumes "tx_ok st p" "bit (tx_obj p) n" "tx_obj p' = tx_obj p AND NOT (flag True n)" "echo_skb p' = (echo_skb p)(n := None)"
    "tx_packets (stats p') + tx_aborted_errors (stats p') = tx_packets (stats p) + tx_aborted_errors (stats p) + 1"
  shows "tx_ok st p' \<and> accounted p' = accounted p"
proof -
  have "outstanding p' = outstanding p - {n}" "n \<in> outstanding p"
    using outstanding_remove [OF assms(3)] assms(2) by (auto simp: outstanding_def)
  then have c: "card (outstanding p) = Suc (card (outstanding p'))" by (simp only: card.remove finite_outstanding)
  have "accounted p' = accounted p" unfolding accounted_def assms(5) c by (simp only: of_nat_Suc add.assoc)
  moreover have "tx_ok st p'"
    using assms(1) unfolding tx_ok_def assms(3,4) bit_clear_flag by (auto split: if_splits)
  ultimately show ?thesis by simp
qed

lemma complete_loop_accounted:
  assumes "echo_slots st C" "tx_ok st p" "\<And>n. bit v n \<Longrightarrow> bit (tx_obj p) n"
  shows "tx_ok st (snd (run_state (complete_loop C k v) p)) \<and> accounted (snd (run_state (complete_loop C k v) p)) = accounted p"
  using assms(2,3)
proof (induction k arbitrary: v p)
  case (Suc k)
  show ?case
  proof (cases "v = 0")
    case False
    then obtain n where n: "ffs v = Suc n" "n < 32" "bit v n" by (rule ffs_lowest) blast
    define p1 where "p1 = p\<lparr>ttcan := (ttcan p)\<lparr>tx_object := tx_obj p AND NOT (flag True n)\<rparr>,
      echo_skb := snd (get_echo C n (echo_skb p)),
      stats := (stats p)\<lparr>tx_packets := tx_packets (stats p) + 1,
        tx_bytes := tx_bytes (stats p) + ucast (fst (get_echo C n (echo_skb p)))\<rparr>\<rparr>"
    have run: "run_state (complete_loop C (Suc k) v) p = run_state (complete_loop C k (v AND NOT (flag True n))) p1"
      using False n(1) by (simp add: Let_def set_tx_object_def p1_def)
    have "echo_skb p1 = (echo_skb p)(n := None)" using assms(1) n(2) by (simp add: p1_def echo_slots_def)
    moreover have "tx_obj p1 = tx_obj p AND NOT (flag True n)" by (simp add: p1_def)
    moreover have "tx_packets (stats p1) + tx_aborted_errors (stats p1) = tx_packets (stats p) + tx_aborted_errors (stats p) + 1"
      by (simp add: p1_def)
    ultimately have "tx_ok st p1 \<and> accounted p1 = accounted p"
      using retire_step [OF Suc.prems(1) Suc.prems(2) [OF n(3)], of p1] by blast
    moreover have "bit (tx_obj p1) m" if "bit (v AND NOT (flag True n)) m" for m
      using that Suc.prems(2) by (auto simp: p1_def bit_clear_flag bit_and_iff bit_not_iff bit_flag dest: bit_imp_le_length)
    ultimately show ?thesis using Suc.IH [of p1 "v AND NOT (flag True n)"] run by simp
  qed (use Suc.prems in simp)
qed simp

lemma cancel_loop_accounted:
  assumes "echo_slots st C" "tx_ok st p"
  shows "tx_ok st (snd (run_state (cancel_loop C k v) p)) \<and> accounted (snd (run_state (cancel_loop C k v) p)) = accounted p"
  using assms(2)
proof (induction k arbitrary: v p)
  case (Suc k)
  show ?case
  proof (cases "v = 0")
    case False
    then obtain n where n: "ffs v = Suc n" "n < 32" "bit v n" by (rule ffs_lowest) blast
    show ?thesis
    proof (cases "bit (tx_obj p) n")
      case True
      define p1 where "p1 = p\<lparr>echo_skb := free_echo C n (echo_skb p),
        ttcan := (ttcan p)\<lparr>tx_object := tx_obj p AND NOT (flag True n)\<rparr>,
        stats := (stats p)\<lparr>tx_aborted_errors := tx_aborted_errors (stats p) + 1\<rparr>\<rparr>"
      have run: "run_state (cancel_loop C (Suc k) v) p = run_state (cancel_loop C k (v AND NOT (flag True n))) p1"
        using False True n(1) by (simp add: Let_def set_tx_object_def p1_def)
      have "echo_skb p1 = (echo_skb p)(n := None)" using assms(1) n(2) by (simp add: p1_def echo_slots_def)
      moreover have "tx_obj p1 = tx_obj p AND NOT (flag True n)" by (simp add: p1_def)
      moreover have "tx_packets (stats p1) + tx_aborted_errors (stats p1) = tx_packets (stats p) + tx_aborted_errors (stats p) + 1"
        by (simp add: p1_def)
      ultimately have "tx_ok st p1 \<and> accounted p1 = accounted p"
        using retire_step [OF Suc.prems True, of p1] by blast
      then show ?thesis using Suc.IH [of p1 "v AND NOT (flag True n)"] run by simp
    qed (use Suc.prems False n in \<open>simp add: Let_def\<close>)
  qed (use Suc.prems in simp)
qed simp

lemma tx_ok_cong: "tx_obj p' = tx_obj p \<Longrightarrow> echo_skb p' = echo_skb p \<Longrightarrow> tx_ok st p' = tx_ok st p"
  unfolding tx_ok_def by (simp only:)

lemma accounted_cong: "tx_obj p' = tx_obj p \<Longrightarrow> stats p' = stats p \<Longrightarrow> accounted p' = accounted p"
  unfolding accounted_def outstanding_def by (simp only:)

lemma tx_ok_queue [simp]:
  "tx_ok st (p\<lparr>queue_stopped := b\<rparr>) = tx_ok st p" "accounted (p\<lparr>queue_stopped := b\<rparr>) = accounted p"
  by (simp_all add: tx_ok_def accounted_def outstanding_def)

lemma complete_accounted:
  assumes "echo_slots st C" "tx_ok st p"
  shows "tx_ok st (snd (run_state (mttcan_tx_complete C E) p)) \<and> accounted (snd (run_state (mttcan_tx_complete C E) p)) = accounted p"
proof -
  define v where "v = value_at E ADR_MTTCAN_TXBTO (ttcan p) 1"
  define p1 where "p1 = p\<lparr>ttcan := with_hw (run_hw E) (ttcan p)\<rparr>"
  define p2 where "p2 = snd (run_state (complete_loop C 32 (v AND ucast (tx_obj p))) p1)"
  have p1: "tx_obj p1 = tx_obj p" "echo_skb p1 = echo_skb p" "stats p1 = stats p" by (simp_all add: p1_def)
  have "bit (tx_obj p1) n" if "bit (v AND ucast (tx_obj p)) n" for n
    using that p1(1) by (simp add: bit_and_iff bit_ucast_iff)
  then have l: "tx_ok st p2 \<and> accounted p2 = accounted p1"
    unfolding p2_def using complete_loop_accounted [OF assms(1), of p1] assms(2) tx_ok_cong [OF p1(1,2)] by blast
  have "snd (run_state (mttcan_tx_complete C E) p) = (if queue_stopped p2 then p2\<lparr>queue_stopped := False\<rparr> else p2)"
    by (auto simp: mttcan_tx_complete_def ttcan_read_tx_complete_reg_def on_can_def hal_simps wake_queue_def p2_def
      p1_def v_def value_at_def split: prod.split)
  with l show ?thesis unfolding accounted_cong [OF p1(1,3)] by simp
qed

lemma cancelled_accounted:
  assumes "echo_slots st C" "tx_ok st p"
  shows "tx_ok st (snd (run_state (mttcan_tx_cancelled C E) p)) \<and> accounted (snd (run_state (mttcan_tx_cancelled C E) p)) = accounted p"
proof -
  define c where "c = value_at E ADR_MTTCAN_TXBCF (ttcan p) 1"
  define v where "v = (ucast ((tx_obj_cancelled (ttcan p) XOR ucast c) AND NOT (tx_obj_cancelled (ttcan p))) :: u32)"
  define p0 where "p0 = p\<lparr>ttcan := (with_hw (run_hw E) (ttcan p))\<lparr>tx_obj_cancelled := ucast c\<rparr>\<rparr>"
  define p1 where "p1 = (if v \<noteq> 0 \<and> queue_stopped p then p0\<lparr>queue_stopped := False\<rparr> else p0)"
  have p1: "tx_obj p1 = tx_obj p" "echo_skb p1 = echo_skb p" "stats p1 = stats p" by (simp_all add: p1_def p0_def)
  have old: "tx_obj_cancelled (with_hw f t) = tx_obj_cancelled t" for f t
    by (simp add: with_hw_def split: prod.split)
  have "snd (run_state (mttcan_tx_cancelled C E) p) = snd (run_state (cancel_loop C 32 v) p1)"
    by (auto simp: mttcan_tx_cancelled_def ttcan_read_tx_cancelled_reg_def on_can_def hal_simps wake_queue_def
      p1_def p0_def v_def c_def value_at_def old Let_def split: prod.split)
  then show ?thesis
    using cancel_loop_accounted [OF assms(1), of p1 32 v] assms(2) tx_ok_cong [OF p1(1,2)] accounted_cong [OF p1(1,3)]
    by simp
qed

text \<open>The operations on transmitted frames; a step counts the frames that were accepted.\<close>

datatype tx_op = Tx_Xmit can_skb | Tx_Complete | Tx_Cancelled

definition run_tx_op :: "can_core \<Rightarrow> can_env \<Rightarrow> tx_op \<Rightarrow> nat \<times> mttcan_priv \<Rightarrow> nat \<times> mttcan_priv" where
  "run_tx_op C E c s = (case s of (k, p) \<Rightarrow> (case c of
      Tx_Xmit skb \<Rightarrow> (case run_state (mttcan_start_xmit C E skb) p of
        (r, p') \<Rightarrow> (if r = NETDEV_TX_OK \<and> \<not> dropped_invalid_skb C skb then k + 1 else k, p'))
    | Tx_Complete \<Rightarrow> (k, snd (run_state (mttcan_tx_complete C E) p))
    | Tx_Cancelled \<Rightarrow> (k, snd (run_state (mttcan_tx_cancelled C E) p))))"

lemma undefined_mono:
  assumes "undefined_behaviour p"
  shows "undefined_behaviour (snd (run_state (mttcan_start_xmit C E skb) p))"
    "undefined_behaviour (snd (run_state (mttcan_tx_complete C E) p))"
    "undefined_behaviour (snd (run_state (mttcan_tx_cancelled C E) p))"
proof -
  have ch: "keeps undefined_behaviour (checked d m)" for d :: 'x and m :: "'x option hal"
    by (rule state_io_relI) (auto simp: checked_def split: prod.splits option.splits)
  have on: "keeps undefined_behaviour (on_can m)" for m :: "'x hal"
    by (rule state_io_relI) (auto simp: on_can_def split: prod.splits)
  have f: "keeps undefined_behaviour (set_tx_object g)" "keeps undefined_behaviour wake_queue" for g
    unfolding set_tx_object_def wake_queue_def by auto
  have cl: "keeps undefined_behaviour (complete_loop C k v)" for k v
    by (induction k arbitrary: v) (auto intro!: keeps_intros f keeps_modify simp: Let_def)
  have cc: "keeps undefined_behaviour (cancel_loop C k v)" for k v
    by (induction k arbitrary: v) (auto intro!: keeps_intros f keeps_modify simp: Let_def)
  have "keeps undefined_behaviour (mttcan_start_xmit C E skb)"
    unfolding mttcan_start_xmit_def by (intro keeps_intros ch f keeps_modify; simp)
  then show "undefined_behaviour (snd (run_state (mttcan_start_xmit C E skb) p))" using assms by (rule keepsD)
  have "keeps undefined_behaviour (mttcan_tx_complete C E)"
    unfolding mttcan_tx_complete_def by (intro keeps_intros on cl f)
  then show "undefined_behaviour (snd (run_state (mttcan_tx_complete C E) p))" using assms by (rule keepsD)
  have "keeps undefined_behaviour (mttcan_tx_cancelled C E)"
    unfolding mttcan_tx_cancelled_def by (intro keeps_intros on cc f keeps_modify; simp)
  then show "undefined_behaviour (snd (run_state (mttcan_tx_cancelled C E) p))" using assms by (rule keepsD)
qed

lemma run_tx_op_ok:
  assumes "echo_slots st C" "tx_ok st p" "run_tx_op C E c (k, p) = (k', p')" "\<not> undefined_behaviour p'"
  shows "tx_ok st p' \<and> accounted p' + word_of_nat k = accounted p + word_of_nat k' \<and> \<not> undefined_behaviour p"
proof (cases c)
  case (Tx_Xmit skb)
  obtain r q where run: "run_state (mttcan_start_xmit C E skb) p = (r, q)" by fastforce
  with assms(3) Tx_Xmit have q: "p' = q" "k' = (if r = NETDEV_TX_OK \<and> \<not> dropped_invalid_skb C skb then k + 1 else k)"
    by (auto simp: run_tx_op_def)
  have d: "\<not> undefined_behaviour p" using undefined_mono(1) [of p C E skb] run assms(4) q(1) by auto
  show ?thesis
  proof (cases "dropped_invalid_skb C skb")
    case True
    then have "q = p" using run by (simp add: mttcan_start_xmit_def)
    with q True assms(2) d show ?thesis by simp
  next
    case False
    from xmit_accounted [OF assms(1,2) run assms(4) [unfolded q(1)] False] d show ?thesis
      using q False by simp
  qed
next
  case Tx_Complete
  with assms show ?thesis using complete_accounted [OF assms(1,2), of E] undefined_mono(2) [of p C E]
    by (auto simp: run_tx_op_def)
next
  case Tx_Cancelled
  with assms show ?thesis using cancelled_accounted [OF assms(1,2), of E] undefined_mono(3) [of p C E]
    by (auto simp: run_tx_op_def)
qed

lemma undefined_step: "undefined_behaviour p \<Longrightarrow> undefined_behaviour (snd (run_tx_op C E c (k, p)))"
proof (cases c)
  case (Tx_Xmit skb)
  assume "undefined_behaviour p"
  from undefined_mono(1) [OF this, of C E skb] Tx_Xmit show ?thesis by (auto simp: run_tx_op_def split: prod.split)
qed (simp_all add: run_tx_op_def undefined_mono)

lemma undefined_fold: "undefined_behaviour (snd s) \<Longrightarrow> undefined_behaviour (snd (fold (run_tx_op C E) ops s))"
proof (induction ops arbitrary: s)
  case (Cons c ops)
  then show ?case using undefined_step [of "snd s" C E c "fst s"] by simp
qed simp

lemma word_balance:
  fixes a a' a1 k k' k1 :: u64
  assumes "a' + k1 = a1 + k'" "a1 + k = a + k1"
  shows "a' + k = a + k'"
proof -
  have "a' = a1 + k' - k1" using assms(1) by (simp add: eq_diff_eq)
  moreover have "a1 = a + k1 - k" using assms(2) by (simp add: eq_diff_eq)
  ultimately show ?thesis by simp
qed

text \<open>
  C18. The transmit path neither loses nor reuses a frame: in every sequence of transmissions, completions and
  cancellations, on any device, the buffer of every occupied echo slot is reserved, at most the 32 buffers are reserved, and the frames
  accepted are those that are outstanding, counted as sent or counted as aborted (modulo \<open>2 ^ 64\<close>). As long as the CAN core can store
  every frame (\<open>st\<close>), the reserved buffers are exactly those with an occupied slot; \<open>can_put_echo_skb\<close> may fail, its result is
  not looked at (a finding), and then a buffer is reserved without a slot. Runs with undefined behaviour are excluded.
\<close>

theorem can_tx_accounted:
  assumes "echo_slots st C" "tx_ok st p" "fold (run_tx_op C E) ops (0, p) = (accepted, p')" "\<not> undefined_behaviour p'"
  shows "tx_ok st p' \<and> accounted p' = accounted p + word_of_nat accepted"
proof -
  have "tx_ok st p' \<and> accounted p' + word_of_nat k = accounted p + word_of_nat k' \<and> \<not> undefined_behaviour p"
    if "fold (run_tx_op C E) ops (k, p) = (k', p')" "tx_ok st p" for k k' p
    using that assms(4)
  proof (induction ops arbitrary: k p)
    case (Cons c ops)
    obtain k1 p1 where s: "run_tx_op C E c (k, p) = (k1, p1)" by fastforce
    have "\<not> undefined_behaviour p1"
      using undefined_fold [of "(k1, p1)" C E ops] Cons.prems s by auto
    with run_tx_op_ok [OF assms(1) Cons.prems(2) s] have
      one: "tx_ok st p1" "accounted p1 + word_of_nat k = accounted p + word_of_nat k1" "\<not> undefined_behaviour p" by auto
    from Cons.IH [of k1 p1] Cons.prems s one(1) have
      ok: "tx_ok st p'" and acc: "accounted p' + word_of_nat k1 = accounted p1 + word_of_nat k'" by simp_all
    have "accounted p' + word_of_nat k = accounted p + word_of_nat k'"
      by (rule word_balance) (rule acc, rule one(2))
    with ok one(3) show ?case by simp
  qed simp
  from this [of 0 p accepted] assms(2,3) show ?thesis by simp
qed

subsection \<open>Errors and limits\<close>

text \<open>
  Going bus-off forgets the reserved buffers but keeps their socket buffers: after it a buffer looks free
  while its echo slot is occupied, and the frames in flight are neither counted as sent nor as aborted.
\<close>

theorem can_bus_off_keeps_echo:
  assumes "tx_ok True p" "echo_skb p n = Some skb" "n < 32" "skb_alloc C p"
    "run_state (mttcan_state_change C E CAN_STATE_BUS_OFF) p = (k, p')"
  shows "k = 1 \<and> state p' = CAN_STATE_BUS_OFF \<and> tx_obj p' = 0 \<and> echo_skb p' = echo_skb p \<and> \<not> tx_ok True p'
    \<and> accounted p' + word_of_nat (card (outstanding p)) = accounted p \<and> n \<in> outstanding p"
proof -
  have s: "k = 1" "state p' = CAN_STATE_BUS_OFF" "tx_obj p' = 0" "echo_skb p' = echo_skb p"
    "tx_packets (stats p') = tx_packets (stats p)" "tx_aborted_errors (stats p') = tx_aborted_errors (stats p)"
    using assms(4,5)
    by (auto simp: mttcan_state_change_def set_state_def on_can_def set_can_stats_def set_tx_object_def netif_receive_def
      Let_def split: prod.splits)
  have "outstanding p' = {}" using s(3) by (simp add: outstanding_def)
  then have "accounted p' + word_of_nat (card (outstanding p)) = accounted p" using s(5,6) by (simp add: accounted_def)
  moreover have "\<not> tx_ok True p'" using s(3,4) assms(2,3) by (auto simp: tx_ok_def)
  moreover have "n \<in> outstanding p" using assms(1-3) by (simp add: outstanding_def tx_ok_def)
  ultimately show ?thesis using s by simp
qed

text \<open>
  When the error frame cannot be allocated, going bus-off is not handled at all: the poll that sees it leaves the
  state, the transmit queue and the restart work as they were, and enables the interrupts again.
\<close>

theorem can_bus_off_without_memory:
  assumes "irqstatus p = flag True 25" "tt_irqstatus p = 0" "bit (proto_state (ttcan p)) 7"
    "\<And>p. \<not> skb_alloc C p" "\<not> mode_one_shot (ctrlmode p)" "state p \<noteq> CAN_STATE_BUS_OFF"
    "\<not> mode_berr_reporting (ctrlmode p)" "0 < quota" "run_state (mttcan_poll_ir C E quota) p = (w, p')"
  shows "w = 0 \<and> state p' = state p \<and> queue_stopped p' = queue_stopped p \<and> restart_scheduled p' = restart_scheduled p
    \<and> tx_obj p' = tx_obj p
    \<and> (\<exists>t. ttcan p' = snd (run_state (ttcan_set_intrpts E True) t) \<and> tx_object t = tx_obj p)"
proof -
  define ir where "ir = (flag True 25 :: u32)"
  have b: "bit ir i \<longleftrightarrow> i = 25" for i by (simp add: ir_def bit_flag)
  have e: "ir AND ERR_INTR = ir" by (rule bit_word_eqI) (auto simp: b bit_and_iff ERR_INTR_def bit_simps bit_numeral_rec)
  have ne: "ir \<noteq> 0" using b [of 25] by auto
  have z: "ir AND 0xF000 = 0" "ir AND 0x70 = 0" "ir AND 7 = 0"
    by (simp_all add: ir_def flag_def)
  define p1 where "p1 = p\<lparr>ttcan := snd (run_state (ttcan_write32 E ADR_MTTCAN_IR ir) (ttcan p))\<rparr>"
  have ack: "run_state (ir_ack E ir) p = ((), p1)"
    by (simp add: ir_ack_def ttcan_ir_write_def on_can_def hal_simps p1_def)
  have err: "run_state (poll_errors C E ir) p = (0, p1)"
    using assms(3,4,5,7) ack
    by (simp add: poll_errors_def e b when_net_def mttcan_state_change_def p1_def)
  have work: "run_state (poll_work C E ir quota) p = (0, p1)"
    using assms(5) err e ne
    by (simp add: poll_work_def when_net_def b poll_tx_def z p1_def)
  have "(w, p') = (0, p1\<lparr>napi_scheduled := False, ttcan := snd (run_state (ttcan_set_intrpts E True) (ttcan p1))\<rparr>)"
    using assms(1,2,6,8,9) work ne
    by (auto simp: mttcan_poll_ir_def ir_def [symmetric] when_net_def on_can_def p1_def split: prod.splits)
  moreover have "tx_object (snd (run_state (ttcan_set_intrpts E True) t)) = tx_object t" for t
    by (simp add: ttcan_set_intrpts_def hal_simps)
  moreover have "tx_object (ttcan p1) = tx_obj p" by (simp add: p1_def hal_simps)
  ultimately show ?thesis by (auto simp: p1_def)
qed

subsection \<open>Time stamps\<close>

lemma mask16: "(0xFFFF :: u64) = mask 16"
  by (simp add: mask_eq_exp_minus_1)

lemma unat_push_small:
  assumes "unat (x :: u64) < 2 ^ n" "s + n \<le> 64"
  shows "unat (push_bit s x) = 2 ^ s * unat x"
proof -
  have "2 ^ s * unat x < 2 ^ s * 2 ^ n" using assms(1) by simp
  also have "\<dots> \<le> 2 ^ 64" unfolding power_add [symmetric] by (rule power_increasing) (use assms(2) in simp_all)
  finally have "2 ^ s * unat x < 2 ^ 64" .
  then show ?thesis
    by (simp only: unsigned_push_bit_eq) (simp add: push_bit_eq_mult take_bit_nat_eq_self mult.commute)
qed

lemma unat_drop_bit: "unat (drop_bit n (x :: u64)) = unat x div 2 ^ n"
proof -
  have "unat x < 2 ^ LENGTH(64)" by (rule unsigned_less)
  then have "take_bit 64 (unat x) = unat x" by (intro take_bit_nat_eq_self) simp
  then show ?thesis by (simp only: unsigned_drop_bit_eq) (simp add: drop_bit_eq_div)
qed

lemma div_window:
  fixes a b :: nat
  assumes "b \<le> a" "a - b < k"
  shows "a div k = (if a mod k < b mod k then b div k + 1 else b div k)"
proof -
  have k: "0 < k" using assms by linarith
  have e: "a = k * (a div k) + a mod k" "b = k * (b div k) + b mod k" by simp_all
  have r: "a mod k < k" "b mod k < k" using k by simp_all
  have "k * (b div k) < k * (a div k) + k" using e assms(1) r by linarith
  then have "k * (b div k) < k * (a div k + 1)" by (simp add: algebra_simps)
  moreover have "k * (a div k) < k * (b div k) + k + k" using e assms r by linarith
  then have "k * (a div k) < k * (b div k + 2)" by (simp add: algebra_simps)
  ultimately have "b div k < a div k + 1" "a div k < b div k + 2"
    using k by (simp_all only: nat_mult_less_cancel1)
  then have "a div k = b div k \<or> a div k = b div k + 1" by linarith
  then show ?thesis
  proof
    assume "a div k = b div k"
    with e assms(1) show ?thesis by (metis add_le_cancel_left not_less)
  next
    assume q: "a div k = b div k + 1"
    then have "a = k * (b div k) + k + a mod k" using e(1) by (simp add: algebra_simps)
    with e(2) assms have "a mod k < b mod k" by linarith
    with q show ?thesis by simp
  qed
qed

text \<open>The value that is extended, without the shift: the last 16-bit number that is not after the counter.\<close>

lemma extend16:
  fixes A B :: u64
  assumes "B \<le> A" "unat A - unat B < 2 ^ 16"
  shows "(if take_bit 16 A < take_bit 16 B then push_bit 16 (drop_bit 16 A) - push_bit 16 1
     else push_bit 16 (drop_bit 16 A)) OR take_bit 16 B = B"
proof -
  have tb: "unat (take_bit 16 x) = unat x mod 2 ^ 16" for x :: u64
    by (simp only: unsigned_take_bit_eq) (simp only: take_bit_eq_mod)
  have db: "unat (drop_bit 16 x) = unat x div 2 ^ 16" for x :: u64 by (rule unat_drop_bit)
  have le: "unat B \<le> unat A" using assms(1) by (simp only: word_le_nat_alt)
  have sum: "push_bit 16 (drop_bit 16 B) OR take_bit 16 B = B"
    by (rule bit_word_eqI) (auto simp: bit_simps)
  show ?thesis
  proof (cases "take_bit 16 A < take_bit 16 B")
    case True
    then have lt: "unat A mod 2 ^ 16 < unat B mod 2 ^ 16" by (simp only: word_less_nat_alt tb)
    have "unat A div 2 ^ 16 = unat B div 2 ^ 16 + 1"
      using div_window [OF le assms(2)] lt by simp
    then have "unat (drop_bit 16 A) = unat (drop_bit 16 B) + 1" by (simp only: db)
    then have "word_of_nat (unat (drop_bit 16 A)) = (word_of_nat (unat (drop_bit 16 B) + 1) :: u64)" by (simp only:)
    then have "drop_bit 16 A = drop_bit 16 B + 1" by simp
    then have "push_bit 16 (drop_bit 16 A) - push_bit 16 1 = push_bit 16 (drop_bit 16 B)"
      by (simp add: push_bit_eq_mult algebra_simps)
    with True sum show ?thesis by simp
  next
    case False
    then have ge: "unat B mod 2 ^ 16 \<le> unat A mod 2 ^ 16" by (simp only: not_less word_le_nat_alt tb)
    have "unat A div 2 ^ 16 = unat B div 2 ^ 16"
      using div_window [OF le assms(2)] ge by (simp add: not_less)
    then have "drop_bit 16 A = drop_bit 16 B" by (simp only: word_unat_eq_iff db)
    with False sum show ?thesis by simp
  qed
qed

text \<open>
  C40. The extension of a 16-bit capture gives the counter value at the time of the capture, without the bits below the
  shift, when fewer than \<open>2 ^ 16\<close> units of the capture have passed since.
\<close>

theorem can_timestamp_extended:
  assumes "taken \<le> tsc" "unat (drop_bit shift tsc) - unat (drop_bit shift taken) < 2 ^ 16" "shift < 48"
  shows "mttcan_extend_timestamp (ucast (drop_bit shift taken)) tsc shift = push_bit shift (drop_bit shift taken)"
proof -
  let ?A = "drop_bit shift tsc" and ?B = "drop_bit shift taken"
  have t: "tsc AND push_bit shift 0xFFFF = push_bit shift (take_bit 16 ?A)"
    unfolding mask16 by (rule bit_word_eqI) (auto simp: bit_simps)
  have b: "(ucast (ucast ?B :: u16) :: u64) = take_bit 16 ?B"
    by (rule bit_word_eqI) (auto simp: bit_simps)
  have small: "unat (take_bit 16 x) < 2 ^ 16" for x :: u64
    by (simp only: unsigned_take_bit_eq) (simp add: take_bit_eq_mod)
  have cmp: "push_bit shift (take_bit 16 ?A) < push_bit shift (take_bit 16 ?B) \<longleftrightarrow> take_bit 16 ?A < take_bit 16 ?B"
    using assms(3) by (simp add: word_less_nat_alt unat_push_small [OF small])
  have top: "push_bit (16 + shift) (drop_bit (16 + shift) tsc) = push_bit shift (push_bit 16 (drop_bit 16 ?A))"
    by (simp add: push_bit_push_bit drop_bit_drop_bit add.commute)
  have one: "push_bit (16 + shift) (1 :: u64) = push_bit shift (push_bit 16 1)"
    by (simp add: push_bit_eq_mult power_add mult.commute)
  have le: "?B \<le> ?A" using assms(1) by (simp only: word_le_nat_alt unat_drop_bit div_le_mono)
  have sub: "push_bit shift x - push_bit shift y = push_bit shift (x - y)" for x y :: u64
    by (simp add: push_bit_eq_mult algebra_simps)
  have "mttcan_extend_timestamp (ucast ?B) tsc shift =
    push_bit shift ((if take_bit 16 ?A < take_bit 16 ?B then push_bit 16 (drop_bit 16 ?A) - push_bit 16 1
       else push_bit 16 (drop_bit 16 ?A)) OR take_bit 16 ?B)"
    unfolding mttcan_extend_timestamp_def Let_def t b top one cmp sub
    by (simp only: push_bit_or if_distrib [of "\<lambda>x. push_bit shift x"] split: if_split)
  also have "\<dots> = push_bit shift ?B" by (simp only: extend16 [OF le assms(2)])
  finally show ?thesis .
qed


theorem can_timestamp_extended_witness:
  "mttcan_extend_timestamp 0xFFFF 0x2000100 9 = 0x1FFFE00"
proof -
  have "(0x1FFFEAB :: u64) \<le> 0x2000100"
    "unat (drop_bit 9 (0x2000100 :: u64)) - unat (drop_bit 9 (0x1FFFEAB :: u64)) < 2 ^ 16" "(9 :: nat) < 48"
    by simp_all
  from can_timestamp_extended [OF this] show ?thesis by simp
qed

subsection \<open>Handing frames to the stack\<close>

lemma rcv_skb_no_stamp:
  "\<not> hwts_rx_en p \<Longrightarrow> \<not> hwts_rx_en p' \<Longrightarrow> rcv_skb C p msg = rcv_skb C p' msg"
  by (simp add: rcv_skb_def hwtstamp_of_def)

lemma rcv_loop_quota:
  assumes "\<And>p. skb_alloc C p" "\<not> hwts_rx_en p" "0 \<le> quota"
  shows "\<exists>s. run_state (rcv_loop C msgs rec k quota) p =
     (sint (word_of_int rec - (k - word_of_nat (min (nat quota) (length msgs))) :: u32),
      p\<lparr>stats := s, received := received p @ map (rcv_skb C p) (take (nat quota) msgs),
        leaked := leaked p @ drop (nat quota) msgs\<rparr>)"
  using assms(2,3)
proof (induction msgs arbitrary: k quota p)
  case Nil
  then show ?case by (intro exI [of _ "stats p"]) simp
next
  case (Cons msg msgs)
  show ?case
  proof (cases "quota = 0")
    case True
    then show ?thesis by (intro exI [of _ "stats p"]) simp
  next
    case False
    then obtain q where q: "nat quota = Suc q" "nat (quota - 1) = q" "0 \<le> quota - 1"
      using Cons.prems(2) by (cases "nat quota") auto
    define p1 where "p1 = p\<lparr>received := received p @ [rcv_skb C p msg],
      stats := (stats p)\<lparr>rx_bytes := rx_bytes (stats p)
        + ucast (if bit (flags msg) CAN_FD_FLAG then d_len msg else classic_len msg), rx_packets := rx_packets (stats p) + 1\<rparr>\<rparr>"
    have run: "run_state (rcv_loop C (msg # msgs) rec k quota) p = run_state (rcv_loop C msgs rec (k - 1) (quota - 1)) p1"
      using False assms(1) by (simp add: netif_receive_def p1_def)
    have "\<not> hwts_rx_en p1" using Cons.prems(1) by (simp add: p1_def)
    from Cons.IH [OF this q(3), of "k - 1"] obtain s where
      s: "run_state (rcv_loop C msgs rec (k - 1) (quota - 1)) p1 =
        (sint (word_of_int rec - (k - 1 - word_of_nat (min q (length msgs))) :: u32),
         p1\<lparr>stats := s, received := received p1 @ map (rcv_skb C p1) (take q msgs), leaked := leaked p1 @ drop q msgs\<rparr>)"
      unfolding q(2) by blast
    have "map (rcv_skb C p1) (take q msgs) = map (rcv_skb C p) (take q msgs)"
      using rcv_skb_no_stamp [of p1 p] Cons.prems(1) by (simp add: p1_def)
    then show ?thesis using run s q(1) by (intro exI [of _ s]) (simp add: p1_def algebra_simps)
  qed
qed

text \<open>
  Of the frames in a list, the first \<open>quota\<close> are handed to the stack, in order; the list is emptied,
  and the other frames are lost: they stay on a local list that nobody frees or delivers.
\<close>

theorem can_rcv_list_quota:
  assumes "\<And>p. skb_alloc C p" "\<not> hwts_rx_en p" "0 \<le> quota" "rx_q0 (ttcan p) = msgs" "length msgs < 2 ^ 31"
    "run_state (mttcan_read_rcv_list C RX_Q0 FIFO_0 (int (length msgs)) quota) p = (w, p')"
  shows "received p' = received p @ map (rcv_skb C p) (take (nat quota) msgs) \<and> rx_q0 (ttcan p') = []
    \<and> leaked p' = leaked p @ drop (nat quota) msgs \<and> w = int (min (nat quota) (length msgs))"
proof (cases "msgs = []")
  case True
  with assms show ?thesis by (simp add: mttcan_read_rcv_list_def list_of_def)
next
  case False
  define p1 where "p1 = p\<lparr>ttcan := empty_list RX_Q0 (reset_count FIFO_0 (ttcan p))\<rparr>"
  define n where "n = min (nat quota) (length msgs)"
  have h: "\<not> hwts_rx_en p1" using assms(2) by (simp add: p1_def)
  obtain s where s: "run_state (rcv_loop C msgs (int (length msgs)) (word_of_int (int (length msgs))) quota) p1 =
     (sint (word_of_nat n :: u32),
      p1\<lparr>stats := s, received := received p1 @ map (rcv_skb C p1) (take (nat quota) msgs),
        leaked := leaked p1 @ drop (nat quota) msgs\<rparr>)"
    using rcv_loop_quota [OF assms(1) h assms(3), of msgs "int (length msgs)" "word_of_int (int (length msgs))"]
    by (auto simp: n_def)
  have run: "(w, p') = run_state (rcv_loop C msgs (int (length msgs)) (word_of_int (int (length msgs))) quota) p1"
    using assms(4,6) False by (simp add: mttcan_read_rcv_list_def list_of_def p1_def)
  have "rx_q0 (ttcan p1) = []" by (simp add: p1_def empty_list_def)
  moreover have "map (rcv_skb C p1) (take (nat quota) msgs) = map (rcv_skb C p) (take (nat quota) msgs)"
    using rcv_skb_no_stamp [OF h assms(2)] by simp
  moreover have "sint (word_of_nat n :: u32) = int n"
  proof -
    have "n < 2 ^ 31" using assms(5) by (simp add: n_def)
    then have "unat (ucast (word_of_nat n :: u64) :: u32) = n \<and> unat (word_of_nat n :: u64) = n"
      by (simp add: unsigned_ucast_eq unsigned_of_nat take_bit_nat_eq_self)
    with int_of_size_small [of "word_of_nat n"] \<open>n < 2 ^ 31\<close> show ?thesis
      by (simp add: int_of_size_def word_unat_eq_iff unsigned_of_nat take_bit_nat_eq_self)
  qed
  ultimately show ?thesis using run s by (simp add: p1_def n_def)
qed

text \<open>The cancellations reported by the device that are new to the driver.\<close>

definition fresh_cancels :: "can_env \<Rightarrow> mttcan_priv \<Rightarrow> u32" where
  "fresh_cancels E p = value_at E ADR_MTTCAN_TXBCF (ttcan p) 1 AND NOT (ucast (tx_obj_cancelled (ttcan p)))"

lemma run_cancelled:
  assumes "\<not> queue_stopped p"
  shows "run_state (mttcan_tx_cancelled C E) p = run_state (cancel_loop C 32 (fresh_cancels E p))
    (p\<lparr>ttcan := (with_hw (run_hw E) (ttcan p))\<lparr>tx_obj_cancelled := ucast (value_at E ADR_MTTCAN_TXBCF (ttcan p) 1)\<rparr>\<rparr>)"
proof -
  have old: "tx_obj_cancelled (with_hw f t) = tx_obj_cancelled t" for f t
    by (simp add: with_hw_def split: prod.split)
  have "ucast ((o1 XOR ucast c) AND NOT o1) = c AND NOT (ucast o1)" for o1 :: u64 and c :: u32
    by (rule bit_word_eqI) (auto simp: bit_simps)
  with assms show ?thesis
    by (simp add: mttcan_tx_cancelled_def ttcan_read_tx_cancelled_reg_def on_can_def hal_simps Let_def old
      fresh_cancels_def value_at_def)
qed

text \<open>
  A new cancellation of a buffer that is not reserved ends the handling of all higher buffers, and the
  driver takes note of the whole register: as long as the device reports the same value, their buffers stay
  reserved however often the handler runs.
\<close>

theorem can_cancel_stops_early:
  assumes "plain_device E" "\<not> queue_stopped p" "fresh_cancels E p \<noteq> 0"
    "\<not> bit (tx_obj p) (LEAST i. bit (fresh_cancels E p) i)"
    "p' = ((\<lambda>p. snd (run_state (mttcan_tx_cancelled C E) p)) ^^ k) p"
  shows "tx_obj p' = tx_obj p \<and> echo_skb p' = echo_skb p"
proof -
  let ?h = "\<lambda>p. snd (run_state (mttcan_tx_cancelled C E) p)"
  let ?c = "regs (ttcan p) ADR_MTTCAN_TXBCF"
  define p1 where "p1 = p\<lparr>ttcan := (ttcan p)\<lparr>tx_obj_cancelled := ucast ?c\<rparr>\<rparr>"
  have hw: "with_hw (run_hw E) t = t" "value_at E reg t 1 = regs t reg" for t reg
    using assms(1) by (simp_all add: plain_device_def with_hw_def value_at_def)
  have "ffs (fresh_cancels E p) = Suc (LEAST i. bit (fresh_cancels E p) i)" using assms(3) by (rule ffs_least)
  then have "run_state (cancel_loop C 32 (fresh_cancels E p)) p1 = ((), p1)"
    using assms(3,4) by (simp add: p1_def Let_def numeral_eq_Suc)
  then have first: "?h p = p1" using run_cancelled [OF assms(2), of C E] hw by (simp add: p1_def)
  have "fresh_cancels E p1 = 0"
    unfolding fresh_cancels_def hw(2) by (rule bit_word_eqI) (auto simp: p1_def bit_simps)
  then have "?h p1 = p1"
    using run_cancelled [of p1 C E] hw assms(2) by (simp add: p1_def numeral_eq_Suc)
  then have "(?h ^^ j) p1 = p1" for j by (induction j) simp_all
  then have "p' = p \<or> p' = p1" using assms(5) first by (cases k) (simp_all add: funpow_Suc_right del: funpow.simps)
  then show ?thesis by (auto simp: p1_def)
qed

text \<open>
  A high-priority classic frame whose length code stands for more than eight bytes overruns the socket buffer: the
  check that the other receive path has is missing.
\<close>

lemma hpm_overrun:
  assumes "\<not> bit (flags msg) CAN_FD_FLAG" "d_len msg > 8" "skb_alloc C p"
  shows "undefined_behaviour (snd (run_state (mttcan_hpm_do_receive C msg) p))"
  using assms by (simp add: mttcan_hpm_do_receive_def undefined_if_def netif_receive_def)

subsection \<open>Witnesses\<close>

definition demo_core :: can_core where
  "demo_core = \<lparr>dropped_invalid_skb = (\<lambda>_. False), put_echo = (\<lambda>skb n e. if e n = None then e(n \<mapsto> skb) else e),
     get_echo = (\<lambda>n e. (case e n of None \<Rightarrow> 0 | Some s \<Rightarrow> ucast (d_len (skb_frame s)), e(n := None))),
     free_echo = (\<lambda>n e. e(n := None)), skb_alloc = (\<lambda>_. True), zalloc = (\<lambda>_. True), arch_counter = (\<lambda>_. 0),
     cyc2time = (\<lambda>_ v. ucast v), open_candev = (\<lambda>_. 0), request_irq = (\<lambda>_. 0), flush_echo = (\<lambda>_ _. None)\<rparr>"

definition zero_stats :: net_stats where
  "zero_stats = \<lparr>tx_packets = 0, tx_bytes = 0, tx_aborted_errors = 0, rx_packets = 0, rx_bytes = 0, rx_dropped = 0,
     rx_errors = 0, rx_over_errors = 0\<rparr>"

definition demo_priv :: mttcan_priv where
  "demo_priv = \<lparr>ttcan = demo_can, undefined_behaviour = False, std_shadow = None, xtd_shadow = None, tmc_shadow = None,
     use_external_timer = False, polling = False, hwts_rx_en = False, tt_param = (0, 0), tt_intrs = 0,
     mram_param = [0, 16, 16, 16, 0, 0, 8, 8, 0], tx_conf = [4, 0, 0, 64], rx_conf = [64, 64, 64], xidam_reg = 0,
     irqstatus = 0, tt_irqstatus = 0,
     ctrlmode = \<lparr>mode_loopback = False, mode_listenonly = False, mode_one_shot = False, mode_berr_reporting = False,
       mode_fd = False, mode_fd_non_iso = False\<rparr>,
     can_bittiming = demo_timing, can_data_bittiming = demo_timing, state = CAN_STATE_ERROR_ACTIVE, restart_ms = 100,
     restart_scheduled = False,
     can_stats = \<lparr>bus_error = 0, error_warning = 0, error_passive = 0, bus_off = 0, restarts = 0\<rparr>,
     echo_skb = (\<lambda>_. None), queue_stopped = False, carrier = True, iff_up = True, running = True, attached = True,
     napi_scheduled = False, stats = zero_stats, received = [], leaked = []\<rparr>"

definition demo_skb :: can_skb where
  "demo_skb = \<lparr>skb_frame = demo_frame, skb_is_fd = True\<rparr>"

lemma demo_echo_slots: "echo_slots True demo_core"
  by (simp add: echo_slots_def demo_core_def)

lemma demo_tx_ok: "tx_ok True demo_priv"
  by (simp add: tx_ok_def demo_priv_def demo_can_def)

theorem can_lists_bounded_witness:
  "lists_ok (fold (run_can_op demo_core plain_env) [Op_Open, Op_Xmit demo_skb, Op_Isr, Op_Poll 64] demo_priv)"
proof -
  have "lists_ok demo_priv" by (simp add: lists_ok_def list_ok_def list_counted_def demo_priv_def demo_can_def)
  from can_lists_bounded [OF this refl] show ?thesis by blast
qed

text \<open>A transmission of the demo frame, and the state after it.\<close>

lemma demo_xmit:
  assumes "run_state (mttcan_start_xmit demo_core plain_env demo_skb) demo_priv = (r, p')"
  shows "r = NETDEV_TX_OK \<and> \<not> undefined_behaviour p'"
proof -
  define fr where "fr = demo_frame\<lparr>flags := flags demo_frame OR flag True CAN_FD_FLAG\<rparr>"
  have fr: "sendable fr" by (simp add: sendable_def fr_def demo_frame_def)
  have "[0..<32] = 0 # [1..<32]" by (simp add: upt_rec)
  then have ffs: "ffs 0xF = 1" by (simp add: ffs_def)
  have "unat (0 :: u8) < 32" by simp
  from run_tx_ded [OF fr this, of plain_env demo_can] obtain t where
    t: "run_state (ttcan_tx_ded_msg_write plain_env fr 0) demo_can = (Some (), t)" by blast
  have ones: "(ucast (- 1 :: u64) :: u32) = - 1" by (rule bit_word_eqI) (simp add: bit_simps)
  have run: "run_state (ttcan_tx_msg_buffer_write plain_env fr) demo_can = (Some 0, t)"
    using t ffs ones
    by (simp add: ttcan_tx_msg_buffer_write_def run_plain [OF plain_env] shl_one_def demo_can_def [THEN arg_cong, of tx_object]
      demo_can_def [THEN arg_cong, of ded_buff_num] demo_can_def [THEN arg_cong, of regs] Let_def)
  from run assms show ?thesis
    by (auto simp: mttcan_start_xmit_def demo_core_def demo_skb_def demo_priv_def fr_def [symmetric] checked_def Let_def
      ttcan_tx_trigger_msg_transmit_def shl_one_def set_tx_object_def hal_simps)
qed

text \<open>The demo device with one frame reserved, and the state after it.\<close>

lemma demo_xmit_state:
  obtains p' where "run_state (mttcan_start_xmit demo_core plain_env demo_skb) demo_priv = (NETDEV_TX_OK, p')"
    "\<not> undefined_behaviour p'" "tx_ok True p'" "outstanding p' \<noteq> {}"
proof -
  obtain r p' where run: "run_state (mttcan_start_xmit demo_core plain_env demo_skb) demo_priv = (r, p')" by fastforce
  from demo_xmit [OF run] have r: "r = NETDEV_TX_OK" "\<not> undefined_behaviour p'" by simp_all
  have d: "\<not> dropped_invalid_skb demo_core demo_skb" by (simp add: demo_core_def)
  from xmit_accounted [OF demo_echo_slots demo_tx_ok run r(2) d] have "tx_ok True p'" by simp
  moreover from xmit_cases [OF run r(2) d] r(1) have "outstanding p' \<noteq> {}"
    by (auto simp: outstanding_def bit_or_iff bit_flag)
  ultimately show ?thesis using that run r by blast
qed

theorem can_tx_accounted_witness:
  "\<exists>p'. fold (run_tx_op demo_core plain_env) [Tx_Xmit demo_skb] (0, demo_priv) = (1, p') \<and> accounted p' = 1"
proof -
  obtain p' where p': "run_state (mttcan_start_xmit demo_core plain_env demo_skb) demo_priv = (NETDEV_TX_OK, p')"
    "\<not> undefined_behaviour p'" by (rule demo_xmit_state)
  then have run: "fold (run_tx_op demo_core plain_env) [Tx_Xmit demo_skb] (0, demo_priv) = (1, p')"
    by (simp add: run_tx_op_def demo_core_def)
  have "accounted demo_priv = 0" by (simp add: accounted_def outstanding_def demo_priv_def demo_can_def zero_stats_def)
  with can_tx_accounted [OF demo_echo_slots demo_tx_ok run p'(2)] run show ?thesis by auto
qed

theorem can_bus_off_keeps_echo_witness:
  "\<exists>p p'. tx_ok True p \<and> run_state (mttcan_state_change demo_core plain_env CAN_STATE_BUS_OFF) p = (1, p') \<and> \<not> tx_ok True p'"
proof -
  obtain p where p: "tx_ok True p" "outstanding p \<noteq> {}" by (rule demo_xmit_state) blast
  then obtain n skb where n: "n < 32" "echo_skb p n = Some skb" by (auto simp: outstanding_def tx_ok_def)
  obtain k p' where run: "run_state (mttcan_state_change demo_core plain_env CAN_STATE_BUS_OFF) p = (k, p')" by fastforce
  have "skb_alloc demo_core p" by (simp add: demo_core_def)
  from can_bus_off_keeps_echo [OF p(1) n(2,1) this run] run p(1) show ?thesis by blast
qed

theorem can_bus_off_without_memory_witness:
  "\<exists>w p'. run_state (mttcan_poll_ir (demo_core\<lparr>skb_alloc := (\<lambda>_. False)\<rparr>) plain_env 64)
       (demo_priv\<lparr>irqstatus := flag True 25, ttcan := demo_can\<lparr>proto_state := flag True 7\<rparr>\<rparr>) = (w, p')
     \<and> state p' = CAN_STATE_ERROR_ACTIVE \<and> \<not> restart_scheduled p'"
proof -
  let ?C = "demo_core\<lparr>skb_alloc := (\<lambda>_. False)\<rparr>"
    and ?p = "demo_priv\<lparr>irqstatus := flag True 25, ttcan := demo_can\<lparr>proto_state := flag True 7\<rparr>\<rparr>"
  obtain w p' where run: "run_state (mttcan_poll_ir ?C plain_env 64) ?p = (w, p')" by fastforce
  have "irqstatus ?p = flag True 25" "tt_irqstatus ?p = 0" "bit (proto_state (ttcan ?p)) 7" "\<not> skb_alloc ?C q"
    "\<not> mode_one_shot (ctrlmode ?p)" "state ?p \<noteq> CAN_STATE_BUS_OFF" "\<not> mode_berr_reporting (ctrlmode ?p)" "(0 :: int) < 64"
    for q by (simp_all add: demo_priv_def bit_flag)
  from can_bus_off_without_memory [OF this run] run show ?thesis by (auto simp: demo_priv_def)
qed

theorem can_cancel_stops_early_witness:
  "\<exists>p p'. p' = ((\<lambda>p. snd (run_state (mttcan_tx_cancelled demo_core plain_env) p)) ^^ 2) p
     \<and> bit (regs (ttcan p) ADR_MTTCAN_TXBCF) 3 \<and> bit (tx_obj p) 3 \<and> bit (tx_obj p') 3"
proof -
  define p where "p = demo_priv\<lparr>ttcan := demo_can\<lparr>regs := (\<lambda>_. 9), tx_object := 8\<rparr>\<rparr>"
  define p' where "p' = ((\<lambda>p. snd (run_state (mttcan_tx_cancelled demo_core plain_env) p)) ^^ 2) p"
  have c: "fresh_cancels plain_env p = 9"
    by (simp add: fresh_cancels_def value_at_def plain_env_def p_def demo_can_def)
  have b: "bit (9 :: u32) 0" "bit (9 :: u32) 3" "\<not> bit (8 :: u64) 0" "bit (8 :: u64) 3"
    by (simp_all add: bit_numeral_rec)
  then have l: "(LEAST i. bit (9 :: u32) i) = 0" by (intro Least_equality) auto
  have "\<not> queue_stopped p" "fresh_cancels plain_env p \<noteq> 0" "\<not> bit (tx_obj p) (LEAST i. bit (fresh_cancels plain_env p) i)"
    using b by (simp_all only: c l) (simp_all add: p_def demo_priv_def)
  from can_cancel_stops_early [OF plain_env this p'_def] b have "bit (regs (ttcan p) ADR_MTTCAN_TXBCF) 3 \<and> bit (tx_obj p) 3 \<and> bit (tx_obj p') 3"
    by (simp add: p_def)
  with p'_def show ?thesis by blast
qed

theorem can_rcv_list_quota_witness:
  "\<exists>w p'. run_state (mttcan_read_rcv_list demo_core RX_Q0 FIFO_0 2 1)
       (demo_priv\<lparr>ttcan := demo_can\<lparr>rx_q0 := [demo_frame, demo_frame]\<rparr>\<rparr>) = (w, p') \<and> w = 1 \<and> leaked p' = [demo_frame]"
proof -
  let ?p = "demo_priv\<lparr>ttcan := demo_can\<lparr>rx_q0 := [demo_frame, demo_frame]\<rparr>\<rparr>"
  obtain w p' where run: "run_state (mttcan_read_rcv_list demo_core RX_Q0 FIFO_0 2 1) ?p = (w, p')" by fastforce
  have h: "skb_alloc demo_core q" "\<not> hwts_rx_en ?p" "(0 :: int) \<le> 1" "rx_q0 (ttcan ?p) = [demo_frame, demo_frame]"
    "length [demo_frame, demo_frame] < 2 ^ 31" for q
    by (simp_all add: demo_core_def demo_priv_def)
  have "run_state (mttcan_read_rcv_list demo_core RX_Q0 FIFO_0 (int (length [demo_frame, demo_frame])) 1) ?p = (w, p')"
    using run by simp
  from can_rcv_list_quota [OF h this] run show ?thesis by (auto simp: demo_priv_def)
qed

end
