(* ===== verification/Pva_Sha256.thy ===== *)
theory Pva_Sha256
  imports Prelude
begin

text \<open>
  The SHA-256 of the programmable vision accelerator (\<open>pva_sha256.c\<close>), and the standard it implements as a separate
  definition: \<open>sha256_ref\<close> pads a message, cuts it into blocks and processes them. A pointer to bytes is the list of the bytes
  behind it; reading behind its end, or storing behind the 64 bytes of the local buffer, has no result (\<open>None\<close>).
\<close>

subsection \<open>The program\<close>

definition ROTRIGHT :: "u32 \<Rightarrow> nat \<Rightarrow> u32" where
  "ROTRIGHT a b = drop_bit b a OR push_bit (32 - b) a"

definition CH :: "u32 \<Rightarrow> u32 \<Rightarrow> u32 \<Rightarrow> u32" where
  "CH x y z = (x AND y) XOR (NOT x AND z)"

definition MAJ :: "u32 \<Rightarrow> u32 \<Rightarrow> u32 \<Rightarrow> u32" where
  "MAJ x y z = (x AND y) XOR (x AND z) XOR (y AND z)"

definition SHA_EP0 :: "u32 \<Rightarrow> u32" where "SHA_EP0 x = ROTRIGHT x 2 XOR ROTRIGHT x 13 XOR ROTRIGHT x 22"
definition SHA_EP1 :: "u32 \<Rightarrow> u32" where "SHA_EP1 x = ROTRIGHT x 6 XOR ROTRIGHT x 11 XOR ROTRIGHT x 25"
definition SIG0 :: "u32 \<Rightarrow> u32" where "SIG0 x = ROTRIGHT x 7 XOR ROTRIGHT x 18 XOR drop_bit 3 x"
definition SIG1 :: "u32 \<Rightarrow> u32" where "SIG1 x = ROTRIGHT x 17 XOR ROTRIGHT x 19 XOR drop_bit 10 x"

definition SWAP32 :: "u32 \<Rightarrow> u32" where
  "SWAP32 x = push_bit 24 x OR (push_bit 8 x AND 0xff0000) OR (drop_bit 8 x AND 0xff00) OR drop_bit 24 x"

definition sha256_k :: "u32 list" where
  "sha256_k = concat [
     [0x428a2f98, 0x71374491, 0xb5c0fbcf, 0xe9b5dba5], [0x3956c25b, 0x59f111f1, 0x923f82a4, 0xab1c5ed5],
     [0xd807aa98, 0x12835b01, 0x243185be, 0x550c7dc3], [0x72be5d74, 0x80deb1fe, 0x9bdc06a7, 0xc19bf174],
     [0xe49b69c1, 0xefbe4786, 0x0fc19dc6, 0x240ca1cc], [0x2de92c6f, 0x4a7484aa, 0x5cb0a9dc, 0x76f988da],
     [0x983e5152, 0xa831c66d, 0xb00327c8, 0xbf597fc7], [0xc6e00bf3, 0xd5a79147, 0x06ca6351, 0x14292967],
     [0x27b70a85, 0x2e1b2138, 0x4d2c6dfc, 0x53380d13], [0x650a7354, 0x766a0abb, 0x81c2c92e, 0x92722c85],
     [0xa2bfe8a1, 0xa81a664b, 0xc24b8b70, 0xc76c51a3], [0xd192e819, 0xd6990624, 0xf40e3585, 0x106aa070],
     [0x19a4c116, 0x1e376c08, 0x2748774c, 0x34b0bcb5], [0x391c0cb3, 0x4ed8aa4a, 0x5b9cca4f, 0x682e6ff3],
     [0x748f82ee, 0x78a5636f, 0x84c87814, 0x8cc70208], [0x90befffa, 0xa4506ceb, 0xbef9a3f7, 0xc67178f2]]"

text \<open>\<open>bitlen_low\<close> is the lower half of \<open>bitlen\<close>.\<close>

record sha256_ctx_s =
  bitlen :: u64
  sha_state :: "u32 list"

text \<open>The word \<open>i\<close> of bytes in memory, on a little-endian machine.\<close>

definition le_word :: "u8 list \<Rightarrow> nat \<Rightarrow> u32" where
  "le_word bs i = ucast (bs ! (4 * i)) OR push_bit 8 (ucast (bs ! (4 * i + 1)))
     OR push_bit 16 (ucast (bs ! (4 * i + 2))) OR push_bit 24 (ucast (bs ! (4 * i + 3)))"

definition le_bytes :: "u32 \<Rightarrow> u8 list" where
  "le_bytes v = [ucast v, ucast (drop_bit 8 v), ucast (drop_bit 16 v), ucast (drop_bit 24 v)]"

text \<open>The array \<open>m\<close>: its first 16 elements, and the loop that fills the rest.\<close>

definition message_block :: "u8 list \<Rightarrow> u32 list" where
  "message_block data = map (\<lambda>i. SWAP32 (le_word data i)) [0..<16]"

definition message_step :: "nat \<Rightarrow> u32 list \<Rightarrow> u32 list" where
  "message_step i m = m @ [SIG1 (m ! (14 + i)) + m ! (9 + i) + SIG0 (m ! (1 + i)) + m ! i]"

type_synonym sha_vars = "u32 \<times> u32 \<times> u32 \<times> u32 \<times> u32 \<times> u32 \<times> u32 \<times> u32"

definition round_step :: "u32 list \<Rightarrow> nat \<Rightarrow> sha_vars \<Rightarrow> sha_vars" where
  "round_step m i = (\<lambda>(a, b, c, d, e, f, g, h).
     let t1 = h + SHA_EP1 e + CH e f g + sha256_k ! i + m ! i; t2 = SHA_EP0 a + MAJ a b c
     in (t1 + t2, a, b, c, d + t1, e, f, g))"

definition sha256_transform :: "u8 list \<Rightarrow> sha256_ctx_s \<Rightarrow> sha256_ctx_s option" where
  "sha256_transform data ctx =
     (if length data < 64 then None
      else
        let m = fold message_step [0..<48] (message_block data);
            st = sha_state ctx;
            (a, b, c, d, e, f, g, h) = fold (round_step m) [0..<64]
              (st ! 0, st ! 1, st ! 2, st ! 3, st ! 4, st ! 5, st ! 6, st ! 7)
        in Some (ctx\<lparr>sha_state := [st ! 0 + a, st ! 1 + b, st ! 2 + c, st ! 3 + d, st ! 4 + e, st ! 5 + f, st ! 6 + g, st ! 7 + h]\<rparr>))"

definition sha256_init :: sha256_ctx_s where
  "sha256_init = \<lparr>bitlen = 0, sha_state = [0x6a09e667, 0xbb67ae85, 0x3c6ef372, 0xa54ff53a, 0x510e527f, 0x9b05688c, 0x1f83d9ab, 0x5be0cd19]\<rparr>"

text \<open>The loop counts with 32 bits: for a longer message it does not end.\<close>

partial_function (option) update_loop :: "u8 list \<Rightarrow> u64 \<Rightarrow> u32 \<Rightarrow> sha256_ctx_s \<Rightarrow> sha256_ctx_s option" where
  "update_loop data len i ctx =
     (if ucast i < len
      then Option.bind (sha256_transform (drop (unat i) data) (ctx\<lparr>bitlen := bitlen ctx AND 0xffffffff\<rparr>))
             (\<lambda>ctx. update_loop data len (i + 64) (ctx\<lparr>bitlen := bitlen ctx + 512\<rparr>))
      else Some ctx)"

definition pva_sha256_update :: "u8 list \<Rightarrow> u64 \<Rightarrow> sha256_ctx_s \<Rightarrow> sha256_ctx_s option" where
  "pva_sha256_update data len ctx = update_loop data len 0 ctx"

definition sha256_copy :: "sha256_ctx_s \<Rightarrow> sha256_ctx_s" where
  "sha256_copy ctx = ctx"

text \<open>\<open>junk\<close> is what the local buffer holds before. The result is the array \<open>out\<close>.\<close>

definition sha256_finalize :: "u8 list \<Rightarrow> u8 list \<Rightarrow> u64 \<Rightarrow> sha256_ctx_s \<Rightarrow> (u32 list \<times> sha256_ctx_s) option" where
  "sha256_finalize junk input input_size ctx =
     (let input_size = input_size AND 0xffffffff; n = unat input_size;
          ctx = ctx\<lparr>bitlen := (bitlen ctx AND 0xffffffff) + input_size * 8\<rparr>
      in if n > length input \<or> n \<ge> 64 then None
         else do {
           let data = take n input @ 0x80 # drop (n + 1) junk;
           (data, ctx) \<leftarrow>
             (if n < 56 then Some (take (n + 1) data @ replicate (55 - n) 0 @ drop 56 data, ctx)
              else do {
                let data = (if n + 1 < 64 then take (n + 1) data @ replicate (63 - n) 0 else data);
                ctx \<leftarrow> sha256_transform data ctx;
                Some (replicate 56 0 @ drop 56 data, ctx)
              });
           let t = (ucast (bitlen ctx) :: u32);
           ctx \<leftarrow> sha256_transform (take 56 data @ le_bytes 0 @ le_bytes (SWAP32 t)) ctx;
           Some (map SWAP32 (sha_state ctx), ctx)
         })"

subsection \<open>The standard\<close>

text \<open>FIPS 180-4, sections 5.1.1, 5.2.1 and 6.2, on bytes; the length in bits that ends the padded message is an argument.\<close>

definition be_word :: "u8 list \<Rightarrow> u32" where
  "be_word bs = foldl (\<lambda>w b. push_bit 8 w OR ucast b) 0 bs"

definition be_bytes :: "u32 \<Rightarrow> u8 list" where
  "be_bytes w = map (\<lambda>i. ucast (drop_bit (24 - 8 * i) w)) [0..<4]"

definition pad :: "u64 \<Rightarrow> u8 list \<Rightarrow> u8 list" where
  "pad l msg = msg @ 0x80 # replicate (nat ((55 - int (length msg)) mod 64)) 0 @ map (\<lambda>i. ucast (drop_bit (56 - 8 * i) l)) [0..<8]"

fun groups :: "nat \<Rightarrow> 'a list \<Rightarrow> 'a list list" where
  "groups n xs = (if n = 0 \<or> length xs < n then [] else take n xs # groups n (drop n xs))"

declare groups.simps [simp del]

fun schedule :: "u32 list \<Rightarrow> nat \<Rightarrow> u32" where
  "schedule block t =
     (if t < 16 then block ! t
      else SIG1 (schedule block (t - 2)) + schedule block (t - 7) + SIG0 (schedule block (t - 15)) + schedule block (t - 16))"

declare schedule.simps [simp del]

fun round256 :: "u32 list \<Rightarrow> u32 \<times> u32 \<Rightarrow> u32 list" where
  "round256 [a, b, c, d, e, f, g, h] (k, w) =
     (let t1 = h + SHA_EP1 e + CH e f g + k + w; t2 = SHA_EP0 a + MAJ a b c
      in [t1 + t2, a, b, c, d + t1, e, f, g])"
| "round256 v kw = v"

definition compress :: "u32 list \<Rightarrow> u8 list \<Rightarrow> u32 list" where
  "compress hash block =
     map2 (+) hash (foldl round256 hash (zip sha256_k (map (schedule (map be_word (groups 4 block))) [0..<64])))"

definition hash_with_length :: "u64 \<Rightarrow> u8 list \<Rightarrow> u8 list" where
  "hash_with_length l msg = concat (map be_bytes (foldl compress (sha_state sha256_init) (groups 64 (pad l msg))))"

definition sha256_ref :: "u8 list \<Rightarrow> u8 list" where
  "sha256_ref msg = hash_with_length (8 * of_nat (length msg)) msg"

subsection \<open>Lemmas: groups and byte order\<close>

lemma groups_eq: "0 < n \<Longrightarrow> groups n xs = map (\<lambda>i. take n (drop (n * i) xs)) [0..<length xs div n]"
proof (induction n xs rule: groups.induct)
  case (1 n xs)
  show ?case
  proof (cases "length xs < n")
    case True
    then show ?thesis by (simp add: groups.simps [of n xs])
  next
    case False
    then have d: "length xs div n = Suc ((length xs - n) div n)" using 1(2) by (simp add: le_div_geq)
    have "groups n (drop n xs) = map (\<lambda>i. take n (drop (n * i) (drop n xs))) [0..<(length xs - n) div n]"
      using 1 False by simp
    also have "\<dots> = map (\<lambda>i. take n (drop (n * i) xs)) (map Suc [0..<(length xs - n) div n])"
      by (simp add: comp_def add.commute)
    finally show ?thesis using False 1(2)
      by (simp add: groups.simps [of n xs] d upt_conv_Cons map_Suc_upt del: upt_Suc)
  qed
qed

lemma groups_append:
  assumes "0 < n" "length xs mod n = 0"
  shows "groups n (xs @ ys) = groups n xs @ groups n ys"
  using assms
proof (induction n xs rule: groups.induct)
  case (1 n xs)
  show ?case
  proof (cases "xs = []")
    case True
    then show ?thesis using 1(2) by (simp add: groups.simps [of n "[]"])
  next
    case False
    then have "n \<le> length xs" using 1(3) by (metis length_0_conv mod_less not_less)
    moreover from this have "length (drop n xs) mod n = 0" using 1(3) by (simp add: mod_if)
    ultimately show ?thesis using 1 by (simp add: groups.simps [of n "xs @ ys"] groups.simps [of n xs])
  qed
qed

lemma groups_one: "length xs = n \<Longrightarrow> 0 < n \<Longrightarrow> groups n xs = [xs]"
  by (simp add: groups.simps [of n xs] groups.simps [of n "[]"])

lemma four_bytes:
  assumes "n < 32"
  shows "n < 8 \<or> 8 \<le> n \<and> n < 16 \<or> 16 \<le> n \<and> n < 24 \<or> 24 \<le> n \<and> n < (32::nat)"
  using assms by auto

lemma swap_le: "SWAP32 (ucast a OR push_bit 8 (ucast b) OR push_bit 16 (ucast c) OR push_bit 24 (ucast d)) = be_word [a, b, c, d]"
  for a b c d :: u8
proof -
  have m: "(0xff0000 :: u32) = push_bit 16 (mask 8)" "(0xff00 :: u32) = push_bit 8 (mask 8)"
    by (simp_all add: mask_eq_exp_minus_1)
  show ?thesis
    unfolding SWAP32_def be_word_def m
  proof (rule bit_word_eqI)
    fix n assume "n < LENGTH(32)"
    then have "n < 8 \<or> 8 \<le> n \<and> n < 16 \<or> 16 \<le> n \<and> n < 24 \<or> 24 \<le> n \<and> n < 32" using four_bytes by simp
    then show "bit (push_bit 24 (ucast a OR push_bit 8 (ucast b) OR push_bit 16 (ucast c) OR push_bit 24 (ucast d))
        OR (push_bit 8 (ucast a OR push_bit 8 (ucast b) OR push_bit 16 (ucast c) OR push_bit 24 (ucast d)) AND push_bit 16 (mask 8))
        OR (drop_bit 8 (ucast a OR push_bit 8 (ucast b) OR push_bit 16 (ucast c) OR push_bit 24 (ucast d)) AND push_bit 8 (mask 8))
        OR drop_bit 24 (ucast a OR push_bit 8 (ucast b) OR push_bit 16 (ucast c) OR push_bit 24 (ucast d) :: u32)) n
      = bit (foldl (\<lambda>w b. push_bit 8 w OR ucast b) 0 [a, b, c, d] :: u32) n"
      by (elim disjE) (auto simp: bit_simps dest: bit_imp_le_length)
  qed
qed

lemma le_swap: "le_bytes (SWAP32 v) = be_bytes v"
proof -
  have m: "(0xff0000 :: u32) = push_bit 16 (mask 8)" "(0xff00 :: u32) = push_bit 8 (mask 8)"
    by (simp_all add: mask_eq_exp_minus_1)
  have "bit (ucast (drop_bit k (SWAP32 v)) :: u8) n = bit (ucast (drop_bit (24 - k) v) :: u8) n"
    if "k \<in> {0, 8, 16, 24}" "n < 8" for k n
    unfolding SWAP32_def m using that by (auto simp: bit_simps dest: bit_imp_le_length)
  then have "ucast (drop_bit k (SWAP32 v)) = (ucast (drop_bit (24 - k) v) :: u8)" if "k \<in> {0, 8, 16, 24}" for k
    using that by (intro bit_word_eqI) simp
  from this [of 0] this [of 8] this [of 16] this [of 24] show ?thesis
    by (simp add: le_bytes_def be_bytes_def upt_rec)
qed

lemma message_block_eq:
  assumes "64 \<le> length data"
  shows "message_block data = map be_word (groups 4 (take 64 data))"
proof -
  have "SWAP32 (le_word data i) = be_word (take 4 (drop (4 * i) (take 64 data)))" if "i < 16" for i
  proof -
    have "take 4 (drop (4 * i) (take 64 data)) = [data ! (4 * i), data ! (4 * i + 1), data ! (4 * i + 2), data ! (4 * i + 3)]"
      using that assms by (intro nth_equalityI) (auto simp: nth_Cons' less_Suc_eq numeral_eq_Suc)
    then show ?thesis by (simp add: le_word_def swap_le)
  qed
  moreover have "length (take 64 data) div 4 = 16" using assms by simp
  ultimately show ?thesis by (simp add: message_block_def groups_eq cong: map_cong)
qed

subsection \<open>Lemmas: schedule and rounds\<close>

lemma message_steps:
  assumes "length block = 16"
  shows "fold message_step [0..<j] block = map (schedule block) [0..<16 + j]"
proof (induction j)
  case 0
  have "map (schedule block) [0..<16] = map ((!) block) [0..<16]" by (simp add: schedule.simps)
  also have "\<dots> = block" using assms by (metis map_nth)
  finally show ?case by simp
next
  case (Suc j)
  have "schedule block (16 + j) = SIG1 (schedule block (14 + j)) + schedule block (9 + j) + SIG0 (schedule block (1 + j)) + schedule block j"
    by (subst schedule.simps) (simp add: add.commute)
  moreover have "[0..<16 + Suc j] = [0..<16 + j] @ [16 + j]" by (simp only: add_Suc_right upt_Suc_append le_add2 zero_le)
  moreover have "[0..<Suc j] = [0..<j] @ [j]" by simp
  ultimately show ?case using Suc.IH
    by (simp only: fold_append map_append list.map fold_simps comp_apply message_step_def) (simp add: nth_append del: One_nat_def)
qed

fun vars :: "sha_vars \<Rightarrow> u32 list" where
  "vars (a, b, c, d, e, f, g, h) = [a, b, c, d, e, f, g, h]"

lemma round_steps: "foldl round256 (vars v) (map (\<lambda>i. (sha256_k ! i, m ! i)) is) = vars (fold (round_step m) is v)"
proof (induction "is" arbitrary: v)
  case (Cons i "is")
  have "round256 (vars v) (sha256_k ! i, m ! i) = vars (round_step m i v)"
    by (cases v rule: vars.cases) (simp add: round_step_def Let_def)
  then show ?case using Cons.IH by simp
qed simp

lemma transform_eq:
  assumes "64 \<le> length data" "length (sha_state ctx) = 8"
  shows "sha256_transform data ctx = Some (ctx\<lparr>sha_state := compress (sha_state ctx) (take 64 data)\<rparr>)"
proof -
  define st where "st = sha_state ctx"
  define block where "block = map be_word (groups 4 (take 64 data))"
  define m where "m = map (schedule block) [0..<64]"
  have "length block = 16" using assms(1) by (simp add: block_def groups_eq)
  then have "fold message_step [0..<48] block = map (schedule block) [0..<16 + 48]" by (rule message_steps)
  then have m: "fold message_step [0..<48] (message_block data) = m"
    using assms(1) by (simp add: message_block_eq block_def m_def)
  obtain a b c d e f g h where st8: "st = [a, b, c, d, e, f, g, h]"
    using assms(2) by (auto simp: st_def length_Suc_conv numeral_eq_Suc)
  have k: "length sha256_k = 64" by (simp add: sha256_k_def)
  have z: "zip sha256_k m = map (\<lambda>i. (sha256_k ! i, m ! i)) [0..<64]"
    using k by (intro nth_equalityI) (simp_all add: m_def)
  obtain a' b' c' d' e' f' g' h' where r: "fold (round_step m) [0..<64] (a, b, c, d, e, f, g, h) = (a', b', c', d', e', f', g', h')"
    by (rule vars.cases)
  have "foldl round256 st (zip sha256_k m) = [a', b', c', d', e', f', g', h']"
    using round_steps [of "(a, b, c, d, e, f, g, h)" m "[0..<64]"] unfolding z r by (simp add: st8)
  then have "compress st (take 64 data) = [a + a', b + b', c + c', d + d', e + e', f + f', g + g', h + h']"
    unfolding compress_def m_def block_def by (simp add: st8)
  then show ?thesis using assms(1) r
    by (simp add: sha256_transform_def m st_def [symmetric] st8 Let_def)
qed

lemma length_compress: "length h = 8 \<Longrightarrow> length (compress h block) = 8"
proof -
  have "length (round256 v x) = length v" if "length v = 8" for v x
    using that by (cases x; cases "(v, x)" rule: round256.cases) (auto simp: Let_def)
  then have "length (foldl round256 v xs) = 8" if "length v = 8" for v xs
    using that by (induction xs arbitrary: v) auto
  then show "length h = 8 \<Longrightarrow> ?thesis" by (simp add: compress_def)
qed

subsection \<open>Lemmas: update and finalisation\<close>

lemma length_foldl_compress: "length h = 8 \<Longrightarrow> length (foldl compress h bs) = 8"
  by (induction bs arbitrary: h) (simp_all add: length_compress)

lemma low_half: "ucast (x AND 0xffffffff :: u64) = (ucast x :: u32)"
proof -
  have m: "(0xffffffff :: u64) = mask 32" by (simp add: mask_eq_exp_minus_1)
  show ?thesis unfolding m by (rule bit_word_eqI) (simp add: bit_simps)
qed

lemma low_add: "ucast (x + y :: u64) = (ucast x + ucast y :: u32)"
proof -
  have m: "of_nat (n mod 2 ^ 64) = (of_nat n :: u32)" for n :: nat
    by (simp add: word_of_nat_eq_iff take_bit_eq_mod mod_mod_cancel del: of_nat_mod)
  have c: "ucast z = (of_nat (unat z) :: u32)" for z :: u64 by simp
  have "unat (x + y) = (unat x + unat y) mod 2 ^ 64" by (simp add: unat_word_ariths)
  then show ?thesis unfolding c by (simp only: m of_nat_add)
qed

lemma update_loop_eq:
  assumes "64 * k \<le> length data" "64 * k < 2 ^ 32" "j \<le> k" "length (sha_state ctx) = 8"
  shows "\<exists>ctx'. update_loop data (of_nat (64 * k)) (of_nat (64 * j)) ctx = Some ctx'
    \<and> sha_state ctx' = foldl compress (sha_state ctx) (groups 64 (take (64 * (k - j)) (drop (64 * j) data)))
    \<and> (ucast (bitlen ctx') :: u32) = ucast (bitlen ctx) + of_nat (512 * (k - j))"
  using assms(3,4)
proof (induction "k - j" arbitrary: j ctx)
  case 0
  then have "j = k" by simp
  then show ?case using assms(1,2) unat_ucast_u64 [of "of_nat (64 * k)"]
    by (subst update_loop.simps)
      (simp add: groups.simps [of 64 "[]"] word_less_nat_alt unat_of_nat take_bit_nat_eq_self del: of_nat_mult)
next
  case (Suc n)
  then have j: "j < k" by simp
  have u: "unat (of_nat (64 * j) :: u32) = 64 * j" using assms(2) j by (simp add: unat_of_nat take_bit_nat_eq_self del: of_nat_mult)
  have "unat (of_nat (64 * k) :: u64) = 64 * k" using assms(2) by (simp add: unat_of_nat take_bit_nat_eq_self del: of_nat_mult)
  then have lt: "ucast (of_nat (64 * j) :: u32) < (of_nat (64 * k) :: u64)"
    using j u by (simp add: word_less_nat_alt unat_ucast_u64 del: of_nat_mult)
  let ?d = "drop (64 * j) data"
  have len: "64 \<le> length ?d" using assms(1) j by simp
  define c1 where "c1 = ctx\<lparr>sha_state := compress (sha_state ctx) (take 64 ?d), bitlen := (bitlen ctx AND 0xffffffff) + 512\<rparr>"
  have t: "sha256_transform ?d (ctx\<lparr>bitlen := bitlen ctx AND 0xffffffff\<rparr>)
      = Some (ctx\<lparr>bitlen := bitlen ctx AND 0xffffffff, sha_state := compress (sha_state ctx) (take 64 ?d)\<rparr>)"
    using transform_eq [OF len, of "ctx\<lparr>bitlen := bitlen ctx AND 0xffffffff\<rparr>"] Suc.prems by simp
  have nxt: "of_nat (64 * j) + 64 = (of_nat (64 * Suc j) :: u32)" by simp
  have step: "update_loop data (of_nat (64 * k)) (of_nat (64 * j)) ctx = update_loop data (of_nat (64 * k)) (of_nat (64 * Suc j)) c1"
    by (subst update_loop.simps) (simp only: lt if_True u t Option.bind.bind_lunit nxt, simp add: c1_def)
  have "length (sha_state c1) = 8" using Suc.prems by (simp add: c1_def length_compress)
  moreover have n: "n = k - Suc j" using Suc.hyps(2) by simp
  ultimately obtain ctx' where ctx': "update_loop data (of_nat (64 * k)) (of_nat (64 * Suc j)) c1 = Some ctx'"
    "sha_state ctx' = foldl compress (sha_state c1) (groups 64 (take (64 * (k - Suc j)) (drop (64 * Suc j) data)))"
    "(ucast (bitlen ctx') :: u32) = ucast (bitlen c1) + of_nat (512 * (k - Suc j))"
    using Suc.hyps(1) [OF _ Suc_leI [OF j]] n by blast
  have kj: "64 * (k - j) = 64 + 64 * (k - Suc j)" using j by simp
  have "groups 64 (take (64 * (k - j)) ?d) = take 64 ?d # groups 64 (take (64 * (k - Suc j)) (drop (64 * Suc j) data))"
    unfolding kj using len by (subst groups.simps) (simp add: drop_take add.commute)
  moreover have "(ucast (bitlen c1) :: u32) = ucast (bitlen ctx) + 512" by (simp add: c1_def low_add low_half)
  moreover have "k - j = Suc (k - Suc j)" using j by simp
  ultimately show ?case using step ctx' by (simp add: c1_def algebra_simps)
qed

lemma update_eq:
  assumes "n mod 64 = 0" "n \<le> length data" "n < 2 ^ 32" "length (sha_state ctx) = 8"
  shows "\<exists>ctx'. pva_sha256_update data (of_nat n) ctx = Some ctx'
    \<and> sha_state ctx' = foldl compress (sha_state ctx) (groups 64 (take n data))
    \<and> (ucast (bitlen ctx') :: u32) = ucast (bitlen ctx) + of_nat (8 * n)"
proof -
  obtain k where k: "n = 64 * k" using assms(1) by (metis mod_0_imp_dvd dvdE)
  then show ?thesis using update_loop_eq [of k data 0 ctx] assms(2-)
    by (simp add: pva_sha256_update_def mult.assoc [symmetric] del: of_nat_mult)
qed

lemma length_bytes: "be_bytes (ucast l) = map (\<lambda>i. ucast (drop_bit (24 - 8 * i) (l AND 0xffffffff :: u64))) [0..<4]"
proof -
  have m: "(0xffffffff :: u64) = mask 32" by (simp add: mask_eq_exp_minus_1)
  have "(ucast (drop_bit j (ucast l :: u32)) :: u8) = ucast (drop_bit j (l AND 0xffffffff))" if "j \<le> 24" for j
    unfolding m using that by (intro bit_word_eqI) (auto simp: bit_simps dest: bit_imp_le_length)
  then show ?thesis by (simp add: be_bytes_def)
qed

lemma replicate_4: "replicate 4 x = [x, x, x, x]"
  by (simp add: numeral_eq_Suc)

lemma pad_eq:
  assumes "n = length tail" "length tail < 64"
  shows "pad (l AND 0xffffffff) tail = tail @ 0x80 # replicate (if n < 56 then 55 - n else 119 - n) 0 @ replicate 4 0 @ be_bytes (ucast l)"
proof -
  have m: "(0xffffffff :: u64) = mask 32" by (simp add: mask_eq_exp_minus_1)
  have r: "nat ((55 - int n) mod 64) = (if n < 56 then 55 - n else 119 - n)"
  proof (cases "n < 56")
    case False
    have "(55 - int n) mod 64 = (55 - int n + 64) mod 64" by (rule mod_add_self2 [symmetric])
    also have "55 - int n + 64 = 119 - int n" by simp
    also have "(119 - int n) mod 64 = 119 - int n" using False assms by (intro mod_pos_pos_trivial) auto
    finally show ?thesis using False assms by (simp add: nat_diff_distrib)
  qed (auto simp: nat_diff_distrib)
  have u: "[0..<8] = [0, 1, 2, 3, 4, 5, 6, 7 :: nat]" "[0..<4] = [0, 1, 2, 3 :: nat]" by (simp_all add: upt_rec)
  have z: "(ucast (drop_bit j (l AND 0xffffffff)) :: u8) = 0" if "32 \<le> j" for j
    unfolding m using that by (intro bit_word_eqI) (auto simp: bit_simps)
  have "map (\<lambda>i. ucast (drop_bit (56 - 8 * i) (l AND 0xffffffff)) :: u8) [0..<8] = replicate 4 0 @ be_bytes (ucast l)"
    unfolding length_bytes by (simp only: u list.map) (simp add: z replicate_4)
  then show ?thesis using r assms(1) by (simp add: pad_def)
qed

lemma finalize_eq:
  assumes n: "length tail < 64" "length junk = 64" and st: "length (sha_state ctx) = 8"
    and l: "ucast (bitlen ctx) + of_nat (8 * length tail) = (ucast l :: u32)"
  shows "\<exists>ctx' out. sha256_finalize junk tail (of_nat (length tail)) ctx = Some (out, ctx')
    \<and> concat (map le_bytes out) = concat (map be_bytes (foldl compress (sha_state ctx) (groups 64 (pad (l AND 0xffffffff) tail))))"
proof -
  let ?n = "length tail"
  have m: "(of_nat ?n :: u64) AND 0xffffffff = of_nat ?n"
  proof -
    have k: "(0xffffffff :: u64) = mask 32" by (simp add: mask_eq_exp_minus_1)
    have "take_bit 32 ?n = ?n" using n(1) by (simp add: take_bit_nat_eq_self)
    then show ?thesis unfolding k by (simp add: take_bit_eq_mask [symmetric] take_bit_of_nat)
  qed
  have u: "unat (of_nat ?n :: u64) = ?n" using n(1) by (simp add: unat_of_nat take_bit_nat_eq_self)
  define c1 where "c1 = ctx\<lparr>bitlen := (bitlen ctx AND 0xffffffff) + of_nat ?n * 8\<rparr>"
  have "ucast (of_nat ?n * 8 :: u64) = (of_nat (8 * ?n) :: u32)"
  proof -
    have "(of_nat ?n * 8 :: u64) = of_nat (8 * ?n)" by simp
    moreover have "unat (of_nat (8 * ?n) :: u64) = 8 * ?n" using n(1) by (simp add: unat_of_nat take_bit_nat_eq_self del: of_nat_mult)
    ultimately show ?thesis by (simp only: unsigned_of_nat) (simp add: unsigned_of_nat)
  qed
  then have t: "ucast (bitlen c1) = (ucast l :: u32)" using l by (simp add: c1_def low_add low_half)
  have c1: "length (sha_state c1) = 8" "sha_state c1 = sha_state ctx" using st by (simp_all add: c1_def)
  let ?e = "replicate 4 0 @ be_bytes (ucast l)"
  have e: "length ?e = 8" "le_bytes 0 @ le_bytes (SWAP32 (ucast l)) = ?e"
    by (simp_all add: be_bytes_def le_swap) (simp add: le_bytes_def replicate_4)
  define data where "data = tail @ 0x80 # drop (?n + 1) junk"
  have ok: "(length tail < ?n \<or> 64 \<le> ?n) = False" "take ?n tail = tail" using n(1) by simp_all
  have data: "length data = 64" "take (?n + 1) data = tail @ [0x80]" using n by (simp_all add: data_def)
  show ?thesis
  proof (cases "?n < 56")
    case True
    let ?b = "tail @ 0x80 # replicate (55 - ?n) 0 @ ?e"
    have b: "length ?b = 64" "take 64 ?b = ?b" using True e(1) by simp_all
    have p: "take 56 (take (?n + 1) data @ replicate (55 - ?n) 0 @ drop 56 data) = tail @ 0x80 # replicate (55 - ?n) 0"
      using True data Suc_diff_le [of ?n 55] by simp
    have f: "sha256_finalize junk tail (of_nat ?n) ctx = do {
        ctx \<leftarrow> sha256_transform ?b c1; Some (map SWAP32 (sha_state ctx), ctx)}"
      unfolding sha256_finalize_def Let_def m u c1_def [symmetric] ok if_False data_def [symmetric]
      by (simp only: if_P [OF True] Option.bind.bind_lunit prod.case p t e(2) append.assoc append_Cons)
    have "groups 64 (pad (l AND 0xffffffff) tail) = [?b]"
      using True b(1) by (simp add: pad_eq groups_one)
    then show ?thesis
      using f transform_eq [of ?b c1] b c1 by (simp add: comp_def le_swap)
  next
    case False
    let ?b1 = "tail @ 0x80 # replicate (63 - ?n) 0" and ?b2 = "replicate 56 0 @ ?e"
    have b: "length ?b1 = 64" "length ?b2 = 64" "take 64 ?b1 = ?b1" "take 64 ?b2 = ?b2" using False n e(1) by simp_all
    have d: "(if ?n + 1 < 64 then take (?n + 1) data @ replicate (63 - ?n) 0 else data) = ?b1"
    proof (cases "?n + 1 < 64")
      case no: False
      then have n63: "?n = 63" using n(1) by simp
      then have "drop (?n + 1) junk = []" using n(2) by simp
      then show ?thesis using n63 no by (simp add: data_def)
    qed (use data in simp)
    define c2 where "c2 = c1\<lparr>sha_state := compress (sha_state ctx) ?b1\<rparr>"
    have tr: "sha256_transform ?b1 c1 = Some c2" using transform_eq [of ?b1 c1] b c1 by (simp add: c2_def)
    have g: "take 56 (replicate 56 0 @ drop 56 ?b1) = replicate 56 (0 :: u8)" by simp
    have t2: "ucast (bitlen c2) = (ucast l :: u32)" using t by (simp add: c2_def)
    have f: "sha256_finalize junk tail (of_nat ?n) ctx = do {
        ctx \<leftarrow> sha256_transform ?b2 c2; Some (map SWAP32 (sha_state ctx), ctx)}"
      unfolding sha256_finalize_def Let_def m u c1_def [symmetric] ok if_False data_def [symmetric] d
      by (simp only: if_not_P [OF False] Option.bind.bind_lunit prod.case tr g t2 e(2))
    have c2: "length (sha_state c2) = 8" using c1 by (simp add: c2_def length_compress)
    have "pad (l AND 0xffffffff) tail = ?b1 @ ?b2"
    proof -
      have "replicate (119 - ?n) (0::u8) = replicate (63 - ?n) 0 @ replicate 56 0"
        using False n(1) by (simp add: replicate_add [symmetric])
      then show ?thesis using False n(1) by (simp add: pad_eq)
    qed
    then have "groups 64 (pad (l AND 0xffffffff) tail) = [?b1, ?b2]"
      using groups_append [of 64 ?b1 ?b2] groups_one [OF b(1)] groups_one [OF b(2)] b(1) by simp
    then show ?thesis
      using f transform_eq [of ?b2 c2] b c2 by (simp add: comp_def le_swap c2_def)
  qed
qed


text \<open>A message that comes in pieces, each but the last of whole blocks.\<close>

fun sha_updates :: "u8 list list \<Rightarrow> sha256_ctx_s \<Rightarrow> sha256_ctx_s option" where
  "sha_updates [] ctx = Some ctx"
| "sha_updates (c # cs) ctx = Option.bind (pva_sha256_update c (of_nat (length c)) ctx) (sha_updates cs)"

lemma low_of_nat: "ucast (of_nat n :: u64) = (of_nat n :: u32)"
  by (simp only: unsigned_of_nat) (simp add: word_of_nat_eq_iff)

lemma length_concat_mod:
  fixes cs :: "'a list list"
  assumes "\<forall>c \<in> set cs. length c mod n = 0"
  shows "length (concat cs) mod n = 0"
  using assms by (induction cs) auto

lemma updates_eq:
  assumes "\<forall>c \<in> set cs. length c mod 64 = 0 \<and> length c < 2 ^ 32" "length (sha_state ctx) = 8"
  shows "\<exists>ctx'. sha_updates cs ctx = Some ctx' \<and> sha_state ctx' = foldl compress (sha_state ctx) (groups 64 (concat cs))
    \<and> (ucast (bitlen ctx') :: u32) = ucast (bitlen ctx) + of_nat (8 * length (concat cs))"
  using assms
proof (induction cs arbitrary: ctx)
  case Nil
  then show ?case by (simp add: groups.simps [of 64 "[]"])
next
  case (Cons c cs)
  then obtain c1 where c1: "pva_sha256_update c (of_nat (length c)) ctx = Some c1"
    "sha_state c1 = foldl compress (sha_state ctx) (groups 64 c)"
    "(ucast (bitlen c1) :: u32) = ucast (bitlen ctx) + of_nat (8 * length c)"
    using update_eq [of "length c" c ctx] by auto
  moreover have "length (sha_state c1) = 8" using c1(2) Cons.prems(2) by (simp add: length_foldl_compress)
  ultimately obtain c2 where c2: "sha_updates cs c1 = Some c2"
    "sha_state c2 = foldl compress (sha_state c1) (groups 64 (concat cs))"
    "(ucast (bitlen c2) :: u32) = ucast (bitlen c1) + of_nat (8 * length (concat cs))"
    using Cons by (metis list.set_intros(2))
  have "groups 64 (c @ concat cs) = groups 64 c @ groups 64 (concat cs)" using Cons.prems(1) by (intro groups_append) simp_all
  then show ?case using c1 c2 by (simp add: distrib_left add.assoc)
qed

lemma finalize_digest:
  assumes ctx: "sha_state ctx = foldl compress (sha_state sha256_init) (groups 64 pre)"
      "(ucast (bitlen ctx) :: u32) = of_nat (8 * length pre)"
    and m: "length pre mod 64 = 0" and t: "length tail < 64" "length junk = 64"
  shows "\<exists>out ctx'. sha256_finalize junk tail (of_nat (length tail)) ctx = Some (out, ctx')
    \<and> concat (map le_bytes out) = hash_with_length (of_nat (8 * length (pre @ tail)) AND 0xffffffff) (pre @ tail)"
proof -
  let ?l = "of_nat (8 * length (pre @ tail)) :: u64"
  have len: "length (sha_state ctx) = 8" unfolding ctx(1) by (rule length_foldl_compress) (simp add: sha256_init_def)
  have "ucast (bitlen ctx) + of_nat (8 * length tail) = (ucast ?l :: u32)"
    unfolding ctx(2) low_of_nat by (simp add: distrib_left)
  from finalize_eq [OF t len this] obtain out ctx' where
    out: "sha256_finalize junk tail (of_nat (length tail)) ctx = Some (out, ctx')"
    "concat (map le_bytes out) = concat (map be_bytes (foldl compress (sha_state ctx) (groups 64 (pad (?l AND 0xffffffff) tail))))"
    by blast
  obtain q where "length pre = 64 * q" using m by (metis mod_0_imp_dvd dvdE)
  then have "int (length (pre @ tail)) mod 64 = int (length tail) mod 64" by simp
  then have "(55 - int (length (pre @ tail))) mod 64 = (55 - int (length tail)) mod 64" by (metis mod_diff_right_eq)
  then have "pad x (pre @ tail) = pre @ pad x tail" for x by (simp only: pad_def append.assoc)
  then have "groups 64 (pad x (pre @ tail)) = groups 64 pre @ groups 64 (pad x tail)" for x
    using m by (simp only: groups_append zero_less_numeral)
  then show ?thesis using out
    by (simp only: hash_with_length_def foldl_append ctx(1) [symmetric]) blast
qed

lemma length_fits:
  assumes "n < 2 ^ 29"
  shows "of_nat (8 * n) AND 0xffffffff = (8 * of_nat n :: u64)"
proof -
  have k: "(0xffffffff :: u64) = mask 32" by (simp add: mask_eq_exp_minus_1)
  have "take_bit 32 (8 * n) = 8 * n" using assms by (intro take_bit_nat_eq_self) simp
  then have "of_nat (8 * n) AND mask 32 = (of_nat (8 * n) :: u64)"
    by (simp only: take_bit_eq_mask [symmetric] take_bit_of_nat)
  then show ?thesis unfolding k by simp
qed

text \<open>The digest of a message of any length is that of the standard with the length in bits modulo \<open>2\<^sup>3\<^sup>2\<close>.\<close>

lemma sha256_of_pieces:
  assumes "\<forall>c \<in> set cs. length c mod 64 = 0 \<and> length c < 2 ^ 32" "length tail < 64" "length junk = 64"
  shows "\<exists>ctx out ctx'. sha_updates cs sha256_init = Some ctx
    \<and> sha256_finalize junk tail (of_nat (length tail)) ctx = Some (out, ctx')
    \<and> concat (map le_bytes out)
        = hash_with_length (of_nat (8 * length (concat cs @ tail)) AND 0xffffffff) (concat cs @ tail)"
proof -
  obtain ctx where ctx: "sha_updates cs sha256_init = Some ctx"
    "sha_state ctx = foldl compress (sha_state sha256_init) (groups 64 (concat cs))"
    "(ucast (bitlen ctx) :: u32) = of_nat (8 * length (concat cs))"
    using updates_eq [OF assms(1), of sha256_init] by (auto simp: sha256_init_def)
  have "length (concat cs) mod 64 = 0" using assms(1) length_concat_mod by blast
  from finalize_digest [OF ctx(2,3) this assms(2,3)] show ?thesis using ctx(1) by blast
qed

text \<open>
  C21. The SHA-256 of the driver is the one of the standard: for a message of less than \<open>2\<^sup>2\<^sup>9\<close> bytes, however it is cut
  into pieces of whole blocks and a rest, and whatever the local buffer held before, the update of each piece and the
  finalisation return, and the bytes of the result are the digest of the whole message.
\<close>

theorem pva_sha256_is_standard:
  assumes "\<forall>c \<in> set cs. length c mod 64 = 0" "length tail < 64" "length junk = 64" "length (concat cs @ tail) < 2 ^ 29"
  shows "\<exists>ctx out ctx'. sha_updates cs sha256_init = Some ctx
    \<and> sha256_finalize junk tail (of_nat (length tail)) ctx = Some (out, ctx')
    \<and> concat (map le_bytes out) = sha256_ref (concat cs @ tail)"
proof -
  let ?n = "length (concat cs @ tail)"
  have "length c \<le> length (concat cs)" if "c \<in> set cs" for c
    using that member_le_sum_list [of "length c" "map length cs"] by (simp add: length_concat)
  then have "\<forall>c \<in> set cs. length c mod 64 = 0 \<and> length c < 2 ^ 32"
    using assms(1,4) le_less_trans by fastforce
  moreover have "of_nat (8 * ?n) AND 0xffffffff = (8 * of_nat ?n :: u64)" using assms(4) by (rule length_fits)
  ultimately show ?thesis
    using sha256_of_pieces [of cs tail junk] assms(2,3) by (simp only: sha256_ref_def)
qed

subsection \<open>A published digest\<close>

text \<open>The words of the computation are reduced at every step.\<close>

lemma wrap32: "(x :: u32) AND 0xffffffff = x"
proof -
  have "take_bit 32 x = x" by (rule bit_word_eqI) (simp add: bit_simps)
  then show ?thesis by (simp add: take_bit_eq_mask mask_eq_exp_minus_1)
qed

definition next_vars :: "u32 \<Rightarrow> u32 \<Rightarrow> sha_vars \<Rightarrow> sha_vars" where
  "next_vars t1 t2 = (\<lambda>(a, b, c, d, e, f, g, h). (t1 + t2, a, b, c, d + t1, e, f, g))"

lemma next_vars_eval:
  "next_vars t1 t2 (a, b, c, d, e, f, g, h) = ((t1 + t2) AND 0xffffffff, a, b, c, (d + t1) AND 0xffffffff, e, f, g)"
  by (simp only: next_vars_def wrap32 prod.case)

lemma round_step_eval:
  "round_step m i (a, b, c, d, e, f, g, h) = next_vars ((h + SHA_EP1 e + CH e f g + sha256_k ! i + m ! i) AND 0xffffffff)
     ((SHA_EP0 a + MAJ a b c) AND 0xffffffff) (a, b, c, d, e, f, g, h)"
  by (simp only: wrap32) (simp add: round_step_def next_vars_def Let_def)

lemma message_step_eval:
  "message_step i m = m @ [(SIG1 (m ! (14 + i)) + m ! (9 + i) + SIG0 (m ! (1 + i)) + m ! i) AND 0xffffffff]"
  by (simp only: wrap32 message_step_def)

lemma rotright_eval: "ROTRIGHT a b = drop_bit b a OR (push_bit (32 - b) a AND 0xffffffff)"
  by (simp only: wrap32 ROTRIGHT_def)

lemma be_bytes_eval:
  "be_bytes w = [ucast (drop_bit 24 w AND 0xff), ucast (drop_bit 16 w AND 0xff), ucast (drop_bit 8 w AND 0xff), ucast (w AND 0xff)]"
proof -
  have m: "(0xff :: u32) = mask 8" by (simp add: mask_eq_exp_minus_1)
  have "ucast (v AND 0xff) = (ucast v :: u8)" for v :: u32
    unfolding m by (rule bit_word_eqI) (simp add: bit_simps)
  then show ?thesis by (simp add: be_bytes_def upt_rec)
qed

lemmas sha_eval = rotright_eval SHA_EP0_def SHA_EP1_def CH_def MAJ_def SIG0_def SIG1_def sha256_k_def round_step_eval
  next_vars_eval message_step_eval upt_rec nth_Cons_numeral

lemma abc_schedule:
  "fold message_step [0..<48] [0x61626380, 0, 0, 0, 0, 0, 0, 0, 0, 0, 0, 0, 0, 0, 0, 24] = [0x61626380, 0x0, 0x0, 0x0, 0x0, 0x0, 0x0, 0x0, 0x0, 0x0, 0x0, 0x0, 0x0, 0x0, 0x0, 0x18, 0x61626380, 0xf0000, 0x7da86405, 0x600003c6, 0x3e9d7b78, 0x183fc00, 0x12dcbfdb, 0xe2e2c38e, 0xc8215c1a, 0xb73679a2, 0xe5bc3909, 0x32663c5b, 0x9d209d67, 0xec8726cb, 0x702138a4, 0xd3b7973b, 0x93f5997f, 0x3b68ba73, 0xaff4ffc1, 0xf10a5c62, 0xa8b3996, 0x72af830a, 0x9409e33e, 0x24641522, 0x9f47bf94, 0xf0a64f5a, 0x3e246a79, 0x27333ba3, 0xc4763f2, 0x840abf27, 0x7a290d5d, 0x65c43da, 0xfb3e89cb, 0xcc7617db, 0xb9e66c34, 0xa9993667, 0x84badedd, 0xc21462bc, 0x1487472c, 0xb20f7a99, 0xef57b9cd, 0xebe6b238, 0x9fe3095e, 0x78bc8d4b, 0xa43fcf15, 0x668b2ff8, 0xeeaba2cc, 0x12b1edeb]"
  by (simp add: sha_eval)

lemma abc_rounds: "fold (round_step [0x61626380, 0x0, 0x0, 0x0, 0x0, 0x0, 0x0, 0x0, 0x0, 0x0, 0x0, 0x0, 0x0, 0x0, 0x0, 0x18, 0x61626380, 0xf0000, 0x7da86405, 0x600003c6, 0x3e9d7b78, 0x183fc00, 0x12dcbfdb, 0xe2e2c38e, 0xc8215c1a, 0xb73679a2, 0xe5bc3909, 0x32663c5b, 0x9d209d67, 0xec8726cb, 0x702138a4, 0xd3b7973b, 0x93f5997f, 0x3b68ba73, 0xaff4ffc1, 0xf10a5c62, 0xa8b3996, 0x72af830a, 0x9409e33e, 0x24641522, 0x9f47bf94, 0xf0a64f5a, 0x3e246a79, 0x27333ba3, 0xc4763f2, 0x840abf27, 0x7a290d5d, 0x65c43da, 0xfb3e89cb, 0xcc7617db, 0xb9e66c34, 0xa9993667, 0x84badedd, 0xc21462bc, 0x1487472c, 0xb20f7a99, 0xef57b9cd, 0xebe6b238, 0x9fe3095e, 0x78bc8d4b, 0xa43fcf15, 0x668b2ff8, 0xeeaba2cc, 0x12b1edeb]) [0..<64]
    (0x6a09e667, 0xbb67ae85, 0x3c6ef372, 0xa54ff53a, 0x510e527f, 0x9b05688c, 0x1f83d9ab, 0x5be0cd19) =
    (0x506e3058, 0xd39a2165, 0x4d24d6c, 0xb85e2ce9, 0x5ef50f24, 0xfb121210, 0x948d25b6, 0x961f4894)"
  by (simp add: sha_eval)

definition abc_block :: "u8 list" where
  "abc_block = [0x61, 0x62, 0x63, 0x80] @ replicate 59 0 @ [24]"

lemma abc_message: "message_block abc_block = [0x61626380, 0, 0, 0, 0, 0, 0, 0, 0, 0, 0, 0, 0, 0, 0, 24]"
proof -
  have z: "replicate 59 0 = [0, 0, 0, 0, 0, 0, 0, 0, 0, 0, 0, 0, 0, 0, 0, 0, 0, 0, 0, 0, 0, 0, 0, 0, 0, 0, 0, 0, 0, 0, 0, 0, 0, 0, 0, 0, 0, 0, 0, 0, 0, 0, 0, 0, 0, 0, 0, 0, 0, 0, 0, 0, 0, 0, 0, 0, 0, 0, 0 :: u8]" by (simp add: numeral_eq_Suc)
  show ?thesis by (simp add: message_block_def upt_rec le_word_def abc_block_def z SWAP32_def)
qed

lemma abc_transform: "sha256_transform abc_block (sha256_init\<lparr>bitlen := b\<rparr>) = Some \<lparr>bitlen = b, sha_state =
    [0xba7816bf, 0x8f01cfea, 0x414140de, 0x5dae2223, 0xb00361a3, 0x96177a9c, 0xb410ff61, 0xf20015ad]\<rparr>"
proof -
  have "length abc_block = 64" by (simp add: abc_block_def)
  then show ?thesis
    by (simp add: sha256_transform_def Let_def sha256_init_def abc_message abc_schedule abc_rounds)
qed

lemma abc_finalize: "\<exists>ctx. sha256_finalize (replicate 64 0) [0x61, 0x62, 0x63] 3 sha256_init = Some (map SWAP32
    [0xba7816bf, 0x8f01cfea, 0x414140de, 0x5dae2223, 0xb00361a3, 0x96177a9c, 0xb410ff61, 0xf20015ad], ctx)"
proof -
  have b: "take 56 (take 4 (take 3 [0x61, 0x62, 0x63] @ 0x80 # drop 4 (replicate 64 0)) @ replicate 52 0 @ xs) @ le_bytes 0 @ le_bytes (SWAP32 24) = abc_block" for xs
  proof -
    have "le_bytes (SWAP32 24) = [0, 0, 0, 24]" unfolding le_swap by (simp add: be_bytes_eval)
    moreover have "replicate 59 0 = (replicate 52 0 @ replicate 4 0 @ replicate 3 0 :: u8 list)" by (simp add: replicate_add [symmetric])
    ultimately show ?thesis by (simp add: le_bytes_def abc_block_def replicate_4) (simp add: numeral_eq_Suc)
  qed
  have zero: "(bitlen sha256_init AND 0xffffffff) + 24 = 24" by (simp add: sha256_init_def)
  show ?thesis
    using abc_transform [of 24] b zero by (simp add: sha256_finalize_def Let_def)
qed

theorem pva_sha256_is_standard_witness:
  "sha256_ref [0x61, 0x62, 0x63] = [0xba, 0x78, 0x16, 0xbf, 0x8f, 0x1, 0xcf, 0xea, 0x41, 0x41, 0x40, 0xde, 0x5d, 0xae, 0x22, 0x23, 0xb0, 0x3, 0x61, 0xa3, 0x96, 0x17, 0x7a, 0x9c, 0xb4, 0x10, 0xff, 0x61, 0xf2, 0x0, 0x15, 0xad]"
  using pva_sha256_is_standard [of "[]" "[0x61, 0x62, 0x63]" "replicate 64 0"] abc_finalize
  by (auto simp: le_swap be_bytes_eval)

end
