(* ===== verification/Pva_Auth.thy ===== *)
theory Pva_Auth
  imports Pva_Sha256
begin

text \<open>
  The authentication of executables of the programmable vision accelerator (\<open>pva_vpu_app_auth.c\<close> and its callers in
  \<open>pva_ioctl.c\<close>): parsing of the list of allowed executables, and the search in it by CRC-32 and SHA-256.
  A pointer to bytes is the list of the bytes behind it, an array the list of its elements; reading outside has no result
  (\<open>None\<close>), nor has a loop that does not end. \<open>kzalloc_ok n\<close> tells whether an allocation of \<open>n\<close> bytes succeeds.
  Addresses have 64 bits.
\<close>

abbreviation (input) EACCES :: int where "EACCES \<equiv> 13"
abbreviation (input) ENOENT :: int where "ENOENT \<equiv> 2"
abbreviation (input) ERANGE :: int where "ERANGE \<equiv> 34"
abbreviation (input) UINT_MAX :: "'a :: len word" where "UINT_MAX \<equiv> 0xffffffff"

subsection \<open>Data\<close>

record vpu_hash_vector_s =
  vh_count :: u32
  vh_index :: u32
  crc32_hash :: u32

record vpu_hash_key_pair_s =
  num_keys :: u32
  psha_key :: "u8 list list"
  num_hashes :: u32
  pvpu_hash_vector :: "vpu_hash_vector_s list"

record pva_vpu_auth_s =
  vpu_hash_keys :: "vpu_hash_key_pair_s option"
  pva_auth_enable :: bool
  pva_auth_allow_list_parsed :: bool

record pva_buff_s =
  buff :: "u8 list"
  buf_pos :: u32
  buf_size :: u32

subsection \<open>Parsing\<close>

definition read_buff :: "u32 \<Rightarrow> pva_buff_s \<Rightarrow> (int \<times> u8 list \<times> pva_buff_s) option" where
  "read_buff sz src =
     (let pos = buf_pos src + sz
      in if pos > buf_size src then Some (- 1, [], src)
         else if unat (buf_pos src) + unat sz > length (buff src) then None
         else Some (sint sz, take (unat sz) (drop (unat (buf_pos src)) (buff src)), src\<lparr>buf_pos := pos\<rparr>))"

definition pva_auth_allow_list_destroy :: "pva_vpu_auth_s \<Rightarrow> pva_vpu_auth_s" where
  "pva_auth_allow_list_destroy auth = auth\<lparr>vpu_hash_keys := None\<rparr>"

definition hash_vector_of :: "u8 list \<Rightarrow> vpu_hash_vector_s" where
  "hash_vector_of bs = \<lparr>vh_count = le_word bs 0, vh_index = le_word bs 1, crc32_hash = le_word bs 2\<rparr>"

definition pva_auth_allow_list_parse_pva_buff ::
  "(nat \<Rightarrow> bool) \<Rightarrow> pva_buff_s \<Rightarrow> pva_vpu_auth_s \<Rightarrow> (int \<times> pva_vpu_auth_s) option" where
  "pva_auth_allow_list_parse_pva_buff kzalloc_ok src auth =
     (let auth = pva_auth_allow_list_destroy auth
      in if \<not> kzalloc_ok 32 then Some (- ENOMEM, auth)
         else do {
           (n, bs, src) \<leftarrow> read_buff 4 src;
           if n \<noteq> 4 then Some (- EINVAL, auth)
           else let keys = le_word bs 0; vkey_size = (32 * ucast keys :: u64)
           in if \<not> kzalloc_ok (unat vkey_size) then Some (- ENOMEM, auth)
           else do {
             (n, key_bytes, src) \<leftarrow> read_buff (ucast vkey_size) src;
             if n \<noteq> sint vkey_size then Some (- EINVAL, auth)
             else do {
               (n, bs, src) \<leftarrow> read_buff 4 src;
               if n \<noteq> 4 then Some (- EINVAL, auth)
               else let hashes = le_word bs 0; vhash_size = (12 * ucast hashes :: u64)
               in if \<not> kzalloc_ok (unat vhash_size) then Some (- ENOMEM, auth)
               else do {
                 (n, hash_bytes, src) \<leftarrow> read_buff (ucast vhash_size) src;
                 if n \<noteq> sint vhash_size then Some (- EINVAL, auth)
                 else Some (0, auth\<lparr>
                   vpu_hash_keys := Some \<lparr>num_keys = keys, psha_key = groups 32 key_bytes, num_hashes = hashes,
                     pvpu_hash_vector = map hash_vector_of (groups 12 hash_bytes)\<rparr>,
                   pva_auth_enable := True, pva_auth_allow_list_parsed := True\<rparr>)
               }
             }
           }
         })"

definition pva_auth_allow_list_parse_buf ::
  "(nat \<Rightarrow> bool) \<Rightarrow> u8 list \<Rightarrow> u32 \<Rightarrow> pva_vpu_auth_s \<Rightarrow> (int \<times> pva_vpu_auth_s) option" where
  "pva_auth_allow_list_parse_buf kzalloc_ok buffer len auth =
     pva_auth_allow_list_parse_pva_buff kzalloc_ok \<lparr>buff = buffer, buf_pos = 0, buf_size = len\<rparr> auth"

text \<open>The list from the file system, if the firmware loader finds it.\<close>

definition pva_auth_allow_list_parse ::
  "(nat \<Rightarrow> bool) \<Rightarrow> u8 list option \<Rightarrow> pva_vpu_auth_s \<Rightarrow> (int \<times> pva_vpu_auth_s) option" where
  "pva_auth_allow_list_parse kzalloc_ok firmware auth =
     (case firmware of None \<Rightarrow> Some (- ENOENT, auth)
      | Some bs \<Rightarrow> pva_auth_allow_list_parse_pva_buff kzalloc_ok \<lparr>buff = bs, buf_pos = 0, buf_size = of_nat (length bs)\<rparr> auth)"

subsection \<open>Keys and hashes\<close>

definition is_key_match :: "u8 list \<Rightarrow> u8 list \<Rightarrow> u64 \<Rightarrow> u8 list \<Rightarrow> int option" where
  "is_key_match junk data sz key =
     (let off = (sz div 64) * 64
      in do {
        ctx1 \<leftarrow> (if off > 0 then pva_sha256_update data off sha256_init else Some sha256_init);
        let ctx2 = sha256_copy ctx1;
        (calc_key, ctx2) \<leftarrow> sha256_finalize junk (drop (unat off) data) (sz mod 64) ctx2;
        Some (if take 32 key = concat (map le_bytes calc_key) then 0 else - EACCES)
      })"

text \<open>The loop over the keys of an entry: the next index, the number of turns left, the last result.\<close>

fun match_keys :: "u8 list \<Rightarrow> u8 list list \<Rightarrow> u8 list \<Rightarrow> u64 \<Rightarrow> nat \<Rightarrow> nat \<Rightarrow> int \<Rightarrow> int option" where
  "match_keys junk keys data sz i 0 err = Some err"
| "match_keys junk keys data sz i (Suc k) err =
     (if i \<ge> length keys then None
      else Option.bind (is_key_match junk data sz (keys ! i))
        (\<lambda>err. if err = 0 then Some 0 else match_keys junk keys data sz (Suc i) k err))"

definition check_all_keys_for_match :: "u8 list \<Rightarrow> u8 list list \<Rightarrow> u8 list \<Rightarrow> u64 \<Rightarrow> vpu_hash_vector_s \<Rightarrow> int option" where
  "check_all_keys_for_match junk keys data sz match_hash =
     (if vh_index match_hash > UINT_MAX - vh_count match_hash then Some (- ERANGE)
      else match_keys junk keys data sz (unat (vh_index match_hash)) (unat (vh_count match_hash)) 0)"

definition compare_hash_value :: "u32 \<Rightarrow> u32 \<Rightarrow> int" where
  "compare_hash_value key base = (if key < base then - 1 else if key > base then 1 else 0)"

definition crc_bit :: "u32 \<Rightarrow> u32" where
  "crc_bit crc = (if crc AND 1 = 1 then drop_bit 1 crc XOR 0xedb88320 else drop_bit 1 crc)"

definition crc_byte :: "u8 \<Rightarrow> u32 \<Rightarrow> u32" where
  "crc_byte b crc = (crc_bit ^^ 8) (crc XOR ucast b)"

definition pva_crc32 :: "u32 \<Rightarrow> u8 list \<Rightarrow> u64 \<Rightarrow> u32 option" where
  "pva_crc32 crc buf len =
     (if unat len > length buf then None else Some (NOT (fold crc_byte (take (unat len) buf) (NOT crc))))"

text \<open>
  The binary search, on indices: \<open>compare\<close> of an index outside the array has no result. \<open>mid * size\<close> must fit 32 bits.
  When \<open>high\<close> has become less than \<open>low\<close> the difference wraps around.
\<close>

partial_function (option) search_loop :: "(nat \<Rightarrow> int option) \<Rightarrow> u64 \<Rightarrow> u64 \<Rightarrow> u64 \<Rightarrow> nat option option" where
  "search_loop compare sz low high =
     (let mid = low + (high - low) div 2
      in if mid > UINT_MAX div sz then Some None
         else Option.bind (compare (unat mid)) (\<lambda>r.
           if r < 0 then (if mid = 0 then Some None else search_loop compare sz low (mid - 1))
           else if r > 0 then (if mid + 1 < mid \<or> mid + 1 > high then Some None else search_loop compare sz (mid + 1) high)
           else Some (Some (unat mid))))"

definition binary_search :: "(nat \<Rightarrow> int option) \<Rightarrow> u64 \<Rightarrow> u64 \<Rightarrow> nat option option" where
  "binary_search compare num_elems sz =
     (if num_elems = 0 \<or> sz = 0 then Some None else search_loop compare sz 0 (num_elems - 1))"

definition compare_in :: "u32 \<Rightarrow> vpu_hash_vector_s list \<Rightarrow> nat \<Rightarrow> int option" where
  "compare_in key tbl i = (if i < length tbl then Some (compare_hash_value key (crc32_hash (tbl ! i))) else None)"

definition pva_vpu_check_sha256_key :: "u8 list \<Rightarrow> vpu_hash_key_pair_s \<Rightarrow> u8 list \<Rightarrow> u64 \<Rightarrow> int option" where
  "pva_vpu_check_sha256_key junk keys data sz = do {
     crc \<leftarrow> pva_crc32 0 data sz;
     found \<leftarrow> binary_search (compare_in crc (pvpu_hash_vector keys)) (ucast (num_hashes keys)) 12;
     case found of None \<Rightarrow> Some (- EACCES)
     | Some i \<Rightarrow> check_all_keys_for_match junk (psha_key keys) data sz (pvpu_hash_vector keys ! i)
   }"

subsection \<open>Authentication\<close>

text \<open>\<open>sys\<close> is the list that is part of the driver, with its length, for the system's list.\<close>

definition pva_authenticate_vpu_app ::
  "(nat \<Rightarrow> bool) \<Rightarrow> u8 list \<Rightarrow> (u8 list \<times> u32) \<Rightarrow> u8 list option \<Rightarrow> u8 list \<Rightarrow> u32 \<Rightarrow> bool \<Rightarrow> pva_vpu_auth_s
    \<Rightarrow> (int \<times> pva_vpu_auth_s) option" where
  "pva_authenticate_vpu_app kzalloc_ok junk sys firmware data sz is_sys auth =
     (if \<not> pva_auth_enable auth then Some (0, auth)
      else do {
        (err, auth) \<leftarrow> (if \<not> pva_auth_allow_list_parsed auth
          then (if is_sys then pva_auth_allow_list_parse_buf kzalloc_ok (fst sys) (snd sys) auth
                else pva_auth_allow_list_parse kzalloc_ok firmware auth)
          else Some (0, auth));
        if err \<noteq> 0 then Some (err, auth)
        else do {
          keys \<leftarrow> vpu_hash_keys auth;
          err \<leftarrow> pva_vpu_check_sha256_key junk keys data (ucast sz);
          Some (err, auth)
        }
      })"

text \<open>
  Whether an executable of \<open>data_size\<close> bytes is let through, and as a system executable: the user's list is tried first.
  The size is cut to 32 bits.
\<close>

definition authenticate_exec ::
  "(nat \<Rightarrow> bool) \<Rightarrow> u8 list \<Rightarrow> (u8 list \<times> u32) \<Rightarrow> u8 list option \<Rightarrow> u8 list \<Rightarrow> u64 \<Rightarrow> pva_vpu_auth_s \<times> pva_vpu_auth_s
    \<Rightarrow> (int \<times> bool \<times> pva_vpu_auth_s \<times> pva_vpu_auth_s) option" where
  "authenticate_exec kzalloc_ok junk sys firmware data data_size auths = do {
     (err, usr) \<leftarrow> pva_authenticate_vpu_app kzalloc_ok junk sys firmware data (ucast data_size) False (fst auths);
     if err \<noteq> 0 then do {
       (err, sy) \<leftarrow> pva_authenticate_vpu_app kzalloc_ok junk sys firmware data (ucast data_size) True (snd auths);
       Some (err, err = 0, usr, sy)
     } else Some (0, False, usr, snd auths)
   }"

definition set_authentication :: "u64 \<Rightarrow> pva_vpu_auth_s \<Rightarrow> pva_vpu_auth_s" where
  "set_authentication v auth =
     (let auth = auth\<lparr>pva_auth_enable := (v = 1)\<rparr>
      in if pva_auth_enable auth then auth\<lparr>pva_auth_allow_list_parsed := False\<rparr> else auth)"

subsection \<open>Lemmas: the binary search\<close>

lemma compare_hash_value_simps:
  "compare_hash_value k b < 0 \<longleftrightarrow> k < b" "compare_hash_value k b > 0 \<longleftrightarrow> b < k" "compare_hash_value k b = 0 \<longleftrightarrow> k = b"
  by (auto simp: compare_hash_value_def)

text \<open>Once \<open>high\<close> is less than \<open>low\<close> the middle is far beyond the bound, and the search ends.\<close>

lemma search_ends:
  assumes "l \<le> 2 ^ 32" "sz = 12"
  shows "search_loop compare sz (of_nat l) (of_nat l - 1) = Some None"
proof -
  have h: "((of_nat l - 1) - of_nat l :: u64) = - 1" by simp
  have "(- 1 :: u64) div 2 = 0x7fffffffffffffff" by simp
  then have "unat (of_nat l + (- 1) div 2 :: u64) = l + 0x7fffffffffffffff"
    using assms(1) by (simp add: unat_word_ariths unat_of_nat take_bit_nat_eq_self)
  then have "(of_nat l + (- 1) div 2 :: u64) > UINT_MAX div sz"
    using assms(2) by (simp add: word_less_nat_alt unat_div_distrib)
  then show ?thesis by (subst search_loop.simps) (simp add: h Let_def)
qed

lemma sorted_less: "sorted (map f xs) \<Longrightarrow> i \<le> j \<Longrightarrow> j < length xs \<Longrightarrow> f (xs ! i) \<le> f (xs ! j)"
  using sorted_nth_mono [of "map f xs" i j] by simp

definition search_result :: "u32 \<Rightarrow> vpu_hash_vector_s list \<Rightarrow> nat option \<Rightarrow> bool" where
  "search_result key tbl r = (case r of None \<Rightarrow> key \<notin> crc32_hash ` set tbl
     | Some i \<Rightarrow> i < length tbl \<and> crc32_hash (tbl ! i) = key)"

lemma search_none:
  assumes "\<forall>i < length tbl. i < m \<longrightarrow> crc32_hash (tbl ! i) < key" "\<forall>i < length tbl. m \<le> i \<longrightarrow> key < crc32_hash (tbl ! i)"
  shows "search_result key tbl None"
  using assms by (fastforce simp: search_result_def in_set_conv_nth)

lemma search_loop_correct:
  assumes "sorted (map crc32_hash tbl)" "length tbl \<le> 357913942" "l \<le> h" "h < length tbl"
    and "\<forall>i < length tbl. i < l \<longrightarrow> crc32_hash (tbl ! i) < key" "\<forall>i < length tbl. h < i \<longrightarrow> key < crc32_hash (tbl ! i)"
  shows "\<exists>r. search_loop (compare_in key tbl) 12 (of_nat l) (of_nat h) = Some r \<and> search_result key tbl r"
  using assms(3-)
proof (induction "h - l" arbitrary: l h rule: less_induct)
  case less
  define m where "m = l + (h - l) div 2"
  have m: "l \<le> m" "m \<le> h" "m < length tbl" using less.prems by (simp_all add: m_def)
  have lh: "l < 2 ^ 32" "h < 2 ^ 32" using less.prems assms(2) by simp_all
  have mid: "(of_nat l + (of_nat h - of_nat l) div 2 :: u64) = of_nat m"
  proof -
    have "(of_nat h - of_nat l :: u64) = of_nat (h - l)" using less.prems(1) by simp
    moreover have "(of_nat (h - l) div 2 :: u64) = of_nat ((h - l) div 2)"
      using lh by (simp add: word_unat_eq_iff unat_div_distrib unat_of_nat take_bit_nat_eq_self)
    ultimately show ?thesis by (simp add: m_def)
  qed
  have um: "unat (of_nat m :: u64) = m" using m(2) lh by (simp add: unat_of_nat take_bit_nat_eq_self)
  have "m \<le> 357913941" using m(3) assms(2) by simp
  then have small: "\<not> (of_nat m :: u64) > UINT_MAX div 12" by (simp add: word_less_nat_alt um)
  let ?r = "compare_hash_value key (crc32_hash (tbl ! m))"
  have cmp: "compare_in key tbl m = Some ?r" using m(3) by (simp add: compare_in_def)
  have step: "search_loop (compare_in key tbl) 12 (of_nat l) (of_nat h) =
      (if ?r < 0 then (if (of_nat m :: u64) = 0 then Some None else search_loop (compare_in key tbl) 12 (of_nat l) (of_nat m - 1))
       else if ?r > 0 then (if of_nat m + 1 < (of_nat m :: u64) \<or> of_nat m + 1 > (of_nat h :: u64) then Some None
         else search_loop (compare_in key tbl) 12 (of_nat m + 1) (of_nat h))
       else Some (Some m))"
    by (subst search_loop.simps) (simp only: Let_def mid small if_False um cmp Option.bind.bind_lunit)
  consider (less) "?r < 0" | (greater) "?r > 0" | (equal) "?r = 0" by linarith
  then show ?case
  proof cases
    case less
    then have k: "key < crc32_hash (tbl ! m)" by (simp add: compare_hash_value_simps)
    have right: "\<forall>i < length tbl. m \<le> i \<longrightarrow> key < crc32_hash (tbl ! i)"
      using sorted_less [OF assms(1)] k less_le_trans by blast
    show ?thesis
    proof (cases "m = l")
      case True
      then have "search_result key tbl None" using search_none [of tbl m key] right less.prems(3) by simp
      moreover have "search_loop (compare_in key tbl) 12 (of_nat l) (of_nat m - 1) = Some None"
        unfolding True by (rule search_ends) (use lh in simp_all)
      ultimately show ?thesis using step less by auto
    next
      case False
      then have "m - 1 - l < h - l" "l \<le> m - 1" "m - 1 < length tbl" using m by simp_all
      moreover have "\<forall>i < length tbl. m - 1 < i \<longrightarrow> key < crc32_hash (tbl ! i)" using right by simp
      ultimately obtain r where "search_loop (compare_in key tbl) 12 (of_nat l) (of_nat (m - 1)) = Some r" "search_result key tbl r"
        using less.hyps less.prems(3) by blast
      moreover have "(of_nat (m - 1) :: u64) = of_nat m - 1" "(of_nat m :: u64) \<noteq> 0"
        using False m(1) um by (auto simp: word_unat_eq_iff)
      ultimately show ?thesis using step less by auto
    qed
  next
    case greater
    then have k: "crc32_hash (tbl ! m) < key" by (simp add: compare_hash_value_simps)
    have left: "\<forall>i < length tbl. i < Suc m \<longrightarrow> crc32_hash (tbl ! i) < key"
      using sorted_less [OF assms(1)] k m(3) le_less_trans by (metis less_Suc_eq_le)
    have s: "(of_nat m + 1 :: u64) = of_nat (Suc m)" by simp
    have us: "unat (of_nat (Suc m) :: u64) = Suc m" "unat (of_nat h :: u64) = h"
      using m(2) lh by (simp_all add: unat_of_nat take_bit_nat_eq_self del: of_nat_Suc)
    have c: "\<not> of_nat m + 1 < (of_nat m :: u64)" "of_nat m + 1 > (of_nat h :: u64) \<longleftrightarrow> h < Suc m"
      unfolding s by (simp_all only: word_less_nat_alt us um)
    show ?thesis
    proof (cases "m = h")
      case True
      then have "search_result key tbl None" using search_none [of tbl "Suc h" key] left less.prems(4) by simp
      then show ?thesis using step greater c True by auto
    next
      case False
      then have "h - Suc m < h - l" "Suc m \<le> h" using m by simp_all
      then obtain r where "search_loop (compare_in key tbl) 12 (of_nat (Suc m)) (of_nat h) = Some r" "search_result key tbl r"
        using less.hyps left less.prems(2,4) by blast
      then show ?thesis using step greater c False \<open>Suc m \<le> h\<close> by (auto simp: s)
    qed
  next
    case equal
    then show ?thesis using step m(3) by (simp add: compare_hash_value_simps search_result_def)
  qed
qed

lemma binary_search_ok:
  assumes "sorted (map crc32_hash tbl)" "length tbl \<le> 357913942"
  shows "\<exists>r. binary_search (compare_in key tbl) (of_nat (length tbl)) 12 = Some r \<and> search_result key tbl r"
proof (cases "tbl = []")
  case False
  then have n: "0 < length tbl" by simp
  have "(of_nat (length tbl) :: u64) \<noteq> 0"
    using n assms(2) by (simp add: word_unat_eq_iff unat_of_nat take_bit_nat_eq_self)
  moreover have "(of_nat (length tbl) - 1 :: u64) = of_nat (length tbl - 1)" using n by (cases "length tbl") simp_all
  moreover have "\<forall>i < length tbl. length tbl - 1 < i \<longrightarrow> key < crc32_hash (tbl ! i)" by auto
  then obtain r where "search_loop (compare_in key tbl) 12 (of_nat 0) (of_nat (length tbl - 1)) = Some r" "search_result key tbl r"
    using search_loop_correct [OF assms, of 0 "length tbl - 1" key] n by auto
  ultimately show ?thesis by (simp add: binary_search_def)
qed (simp add: binary_search_def search_result_def)

text \<open>
  C25. The binary search ends, reads the array only inside, and finds an entry with the key exactly when there is one, in every
  sorted array of up to 357913942 entries (of those behind, the product of index and size would not fit 32 bits).
\<close>

theorem pva_binary_search_correct:
  assumes "sorted (map crc32_hash tbl)" "length tbl \<le> 357913942"
  shows "\<exists>r. binary_search (compare_in key tbl) (of_nat (length tbl)) 12 = Some r
    \<and> (case r of None \<Rightarrow> key \<notin> crc32_hash ` set tbl | Some i \<Rightarrow> i < length tbl \<and> crc32_hash (tbl ! i) = key)"
  using binary_search_ok [OF assms, of key] by (simp only: search_result_def)

theorem pva_binary_search_correct_witness:
  "binary_search (compare_in 7 (map (\<lambda>c. \<lparr>vh_count = 1, vh_index = 0, crc32_hash = c\<rparr>) [3, 7, 9])) 3 12 = Some (Some 1)"
proof -
  let ?tbl = "map (\<lambda>c. \<lparr>vh_count = 1, vh_index = 0, crc32_hash = c\<rparr>) [3, 7, 9 :: u32]"
  have sorted: "sorted (map crc32_hash ?tbl)" by simp
  obtain r where r: "binary_search (compare_in 7 ?tbl) (of_nat (length ?tbl)) 12 = Some r"
    "case r of None \<Rightarrow> 7 \<notin> crc32_hash ` set ?tbl | Some i \<Rightarrow> i < length ?tbl \<and> crc32_hash (?tbl ! i) = 7"
    using pva_binary_search_correct [OF sorted, of 7] by (auto simp del: list.map)
  then obtain i where i: "r = Some i" "i < 3" "crc32_hash (?tbl ! i) = 7" by (cases r) auto
  moreover have "i = 0 \<or> i = 1 \<or> i = 2" using i(2) by arith
  ultimately have "i = 1" by auto
  then show ?thesis using r(1) i(1) by simp
qed

subsection \<open>Lemmas: keys\<close>

lemma is_key_match_eq:
  assumes n: "length data < 2 ^ 29" and junk: "length junk = 64"
  shows "is_key_match junk data (of_nat (length data)) key = Some (if take 32 key = sha256_ref data then 0 else - EACCES)"
proof -
  let ?n = "length data"
  define off where "off = 64 * (?n div 64)"
  have un: "unat (of_nat ?n :: u64) = ?n" using n by (simp add: unat_of_nat take_bit_nat_eq_self)
  have off: "off \<le> ?n" "off mod 64 = 0" "off < 2 ^ 32" using n by (simp_all add: off_def)
  have tail: "length (drop off data) = ?n mod 64" by (simp add: off_def minus_mult_div_eq_mod)
  have "?n div 64 < 2 ^ 64" using n by simp
  then have "of_nat ?n div 64 = (of_nat (?n div 64) :: u64)"
    by (simp add: word_unat_eq_iff unat_div_distrib un) (simp add: unat_of_nat take_bit_nat_eq_self)
  then have o64: "of_nat ?n div 64 * 64 = (of_nat off :: u64)" by (simp add: off_def)
  have uo: "unat (of_nat off :: u64) = off" using off(3) by (simp add: unat_of_nat take_bit_nat_eq_self)
  have md: "of_nat ?n mod 64 = (of_nat (length (drop off data)) :: u64)"
    unfolding tail by (simp add: word_unat_eq_iff unat_mod_distrib un) (simp add: unat_of_nat take_bit_nat_eq_self)
  obtain ctx where ctx: "(if 0 < (of_nat off :: u64) then pva_sha256_update data (of_nat off) sha256_init else Some sha256_init) = Some ctx"
    "sha_state ctx = foldl compress (sha_state sha256_init) (groups 64 (take off data))"
    "(ucast (bitlen ctx) :: u32) = of_nat (8 * length (take off data))"
  proof (cases "off = 0")
    case True
    then show ?thesis using that [of sha256_init] by (simp add: groups.simps [of 64 "[]"] sha256_init_def)
  next
    case False
    then have "0 < (of_nat off :: u64)" by (simp add: word_less_nat_alt uo)
    then show ?thesis using that update_eq [OF off(2,1,3), of sha256_init] off(1) by (auto simp: sha256_init_def)
  qed
  have l: "length (take off data) mod 64 = 0" "length (drop off data) < 64" using off by (simp_all only: tail) simp_all
  obtain out ctx' where out: "sha256_finalize junk (drop off data) (of_nat (length (drop off data))) ctx = Some (out, ctx')"
    "concat (map le_bytes out) = sha256_ref data"
    using finalize_digest [OF ctx(2,3) l junk] length_fits [OF n]
    by (auto simp only: append_take_drop_id sha256_ref_def)
  show ?thesis
    unfolding is_key_match_def Let_def o64 uo md sha256_copy_def
    by (simp only: ctx(1) Option.bind.bind_lunit out prod.case)
qed

lemma match_keys_eq:
  assumes "length data < 2 ^ 29" "length junk = 64" "i + k \<le> length keys"
  shows "match_keys junk keys data (of_nat (length data)) i k err =
    Some (if k = 0 then err else if \<exists>key \<in> set (take k (drop i keys)). take 32 key = sha256_ref data then 0 else - EACCES)"
  using assms(3)
proof (induction k arbitrary: i err)
  case (Suc k)
  have d: "drop i keys = keys ! i # drop (Suc i) keys" using Suc.prems by (simp add: Cons_nth_drop_Suc)
  show ?case using Suc is_key_match_eq [OF assms(1,2)] by (simp add: d)
qed simp

text \<open>A list of allowed executables that is in order: sorted by hash, each hash once, its keys inside the list.\<close>

definition allow_list_ok :: "vpu_hash_key_pair_s \<Rightarrow> bool" where
  "allow_list_ok keys \<longleftrightarrow> sorted_wrt (<) (map crc32_hash (pvpu_hash_vector keys))
     \<and> unat (num_hashes keys) = length (pvpu_hash_vector keys) \<and> length (pvpu_hash_vector keys) \<le> 357913942
     \<and> (\<forall>key \<in> set (psha_key keys). length key = 32)
     \<and> (\<forall>h \<in> set (pvpu_hash_vector keys). unat (vh_index h) + unat (vh_count h) \<le> length (psha_key keys)
          \<and> length (psha_key keys) < 2 ^ 32)"

text \<open>The keys that the list has for an executable.\<close>

definition keys_of :: "vpu_hash_key_pair_s \<Rightarrow> vpu_hash_vector_s \<Rightarrow> u8 list list" where
  "keys_of keys h = take (unat (vh_count h)) (drop (unat (vh_index h)) (psha_key keys))"

definition crc_of :: "u8 list \<Rightarrow> u32" where
  "crc_of data = NOT (fold crc_byte data (- 1))"

lemma crc_of_eq: "length data < 2 ^ 64 \<Longrightarrow> pva_crc32 0 data (of_nat (length data)) = Some (crc_of data)"
  by (simp add: pva_crc32_def crc_of_def unat_of_nat take_bit_nat_eq_self)

lemma check_all_keys_eq:
  assumes "length data < 2 ^ 29" "length junk = 64" "allow_list_ok keys" "h \<in> set (pvpu_hash_vector keys)"
  shows "check_all_keys_for_match junk (psha_key keys) data (of_nat (length data)) h
    = Some (if vh_count h = 0 \<or> sha256_ref data \<in> set (keys_of keys h) then 0 else - EACCES)"
proof -
  have b: "unat (vh_index h) + unat (vh_count h) \<le> length (psha_key keys)" "length (psha_key keys) < 2 ^ 32"
    and l: "\<And>key. key \<in> set (psha_key keys) \<Longrightarrow> length key = 32"
    using assms(3,4) by (auto simp: allow_list_ok_def)
  have "unat (vh_index h) \<le> unat (UINT_MAX - vh_count h)"
  proof -
    have "vh_count h \<le> UINT_MAX" using unat_less_size [of "vh_count h"] by (simp add: word_le_nat_alt)
    then have "unat (UINT_MAX - vh_count h) = unat (UINT_MAX :: u32) - unat (vh_count h)" by (rule unat_sub)
    then show ?thesis using b by simp
  qed
  then have "\<not> vh_index h > UINT_MAX - vh_count h" by (simp add: word_less_nat_alt)
  moreover have "take 32 key = key" if "key \<in> set (keys_of keys h)" for key
  proof -
    have "key \<in> set (psha_key keys)" using that unfolding keys_of_def by (rule in_set_dropD [OF in_set_takeD])
    from l [OF this] show ?thesis by simp
  qed
  then have "(\<exists>key \<in> set (keys_of keys h). take 32 key = sha256_ref data) \<longleftrightarrow> sha256_ref data \<in> set (keys_of keys h)"
    by metis
  moreover have "unat (vh_count h) = 0 \<longleftrightarrow> vh_count h = 0" by (metis unsigned_0 unsigned_word_eqI)
  ultimately show ?thesis
    unfolding check_all_keys_for_match_def match_keys_eq [OF assms(1,2) b(1)] keys_of_def by simp
qed

definition listed :: "vpu_hash_key_pair_s \<Rightarrow> u8 list \<Rightarrow> bool" where
  "listed keys data \<longleftrightarrow> (\<exists>h \<in> set (pvpu_hash_vector keys). crc32_hash h = crc_of data
     \<and> (vh_count h = 0 \<or> sha256_ref data \<in> set (keys_of keys h)))"

lemma check_eq:
  assumes "length data < 2 ^ 29" "length junk = 64" "allow_list_ok keys"
  shows "pva_vpu_check_sha256_key junk keys data (of_nat (length data)) = Some (if listed keys data then 0 else - EACCES)"
proof -
  let ?tbl = "pvpu_hash_vector keys"
  have ok: "sorted_wrt (<) (map crc32_hash ?tbl)" "unat (num_hashes keys) = length ?tbl" "length ?tbl \<le> 357913942"
    using assms(3) by (simp_all add: allow_list_ok_def)
  have "sorted (map crc32_hash ?tbl)" using ok(1) strict_sorted_imp_sorted by blast
  from binary_search_ok [OF this ok(3)] obtain r where
    r: "binary_search (compare_in (crc_of data) ?tbl) (of_nat (length ?tbl)) 12 = Some r" "search_result (crc_of data) ?tbl r" by blast
  have n: "ucast (num_hashes keys) = (of_nat (length ?tbl) :: u64)" by (simp add: ok(2) [symmetric])
  have c: "pva_vpu_check_sha256_key junk keys data (of_nat (length data)) = (case r of None \<Rightarrow> Some (- EACCES)
      | Some i \<Rightarrow> check_all_keys_for_match junk (psha_key keys) data (of_nat (length data)) (?tbl ! i))"
    using assms(1) by (simp add: pva_vpu_check_sha256_key_def crc_of_eq n r(1))
  show ?thesis
  proof (cases r)
    case None
    then have "crc_of data \<notin> crc32_hash ` set ?tbl" using r(2) by (simp add: search_result_def)
    then have "\<not> (\<exists>h \<in> set ?tbl. crc32_hash h = crc_of data \<and> (vh_count h = 0 \<or> sha256_ref data \<in> set (keys_of keys h)))"
      by (metis imageI)
    then show ?thesis using c None by (simp add: listed_def)
  next
    case (Some i)
    then have i: "i < length ?tbl" "crc32_hash (?tbl ! i) = crc_of data" using r(2) by (simp_all add: search_result_def)
    have u: "h = ?tbl ! i" if "h \<in> set ?tbl" "crc32_hash h = crc_of data" for h
    proof -
      have "distinct (map crc32_hash ?tbl)" using ok(1) strict_sorted_iff by blast
      then show ?thesis using that i by (metis distinct_map inj_onD nth_mem)
    qed
    have "(\<exists>h \<in> set ?tbl. crc32_hash h = crc_of data \<and> (vh_count h = 0 \<or> sha256_ref data \<in> set (keys_of keys h)))
        \<longleftrightarrow> vh_count (?tbl ! i) = 0 \<or> sha256_ref data \<in> set (keys_of keys (?tbl ! i))"
      using u i nth_mem by blast
    then show ?thesis
      using c Some check_all_keys_eq [OF assms nth_mem [OF i(1)]] by (simp add: listed_def)
  qed
qed

text \<open>
  C22. The check of an executable against a list that is in order returns, and lets the executable pass exactly when
  the list has an entry for its CRC-32 whose keys contain its SHA-256, or an entry for its CRC-32 without any key.
\<close>

theorem pva_check_accepts_listed:
  assumes "length data < 2 ^ 29" "length junk = 64" "allow_list_ok keys"
  shows "\<exists>err. pva_vpu_check_sha256_key junk keys data (of_nat (length data)) = Some err
    \<and> (err = 0 \<longleftrightarrow> (\<exists>h \<in> set (pvpu_hash_vector keys). crc32_hash h = crc_of data
          \<and> (vh_count h = 0 \<or> sha256_ref data \<in> set (take (unat (vh_count h)) (drop (unat (vh_index h)) (psha_key keys))))))
    \<and> err \<in> {0, - EACCES}"
  using check_eq [OF assms] by (simp add: listed_def keys_of_def)

subsection \<open>Lemmas: parsing\<close>

text \<open>A buffer whose size is that of its bytes, read up to \<open>p\<close>.\<close>

definition reading :: "u8 list \<Rightarrow> nat \<Rightarrow> pva_buff_s \<Rightarrow> bool" where
  "reading bs p src \<longleftrightarrow> src = \<lparr>buff = bs, buf_pos = of_nat p, buf_size = of_nat (length bs)\<rparr> \<and> p \<le> length bs \<and> length bs < 2 ^ 31"

lemma read_buff_eq:
  assumes "reading bs p src" "n < 2 ^ 30"
  shows "read_buff (of_nat n) src = (if p + n \<le> length bs
    then Some (int n, take n (drop p bs), src\<lparr>buf_pos := of_nat (p + n)\<rparr>) else Some (- 1, [], src))"
    and "p + n \<le> length bs \<Longrightarrow> reading bs (p + n) (src\<lparr>buf_pos := of_nat (p + n)\<rparr>)"
proof -
  have u: "unat (of_nat p :: u32) = p" "unat (of_nat n :: u32) = n" "unat (of_nat (p + n) :: u32) = p + n"
      "unat (of_nat (length bs) :: u32) = length bs"
    using assms by (auto simp: reading_def unat_of_nat take_bit_nat_eq_self simp del: of_nat_add)
  have "sint (of_nat n :: u32) = int n"
  proof -
    have "sint (of_nat n :: u32) = signed_take_bit 31 (int n)" by (simp add: signed_of_nat)
    also have "\<dots> = int n" using assms(2) by (intro signed_take_bit_int_eq_self) auto
    finally show ?thesis .
  qed
  then show "read_buff (of_nat n) src = (if p + n \<le> length bs
    then Some (int n, take n (drop p bs), src\<lparr>buf_pos := of_nat (p + n)\<rparr>) else Some (- 1, [], src))"
    using assms(1) u by (auto simp: read_buff_def reading_def Let_def word_less_nat_alt simp flip: of_nat_add)
  show "p + n \<le> length bs \<Longrightarrow> reading bs (p + n) (src\<lparr>buf_pos := of_nat (p + n)\<rparr>)"
    using assms(1) by (auto simp: reading_def)
qed

text \<open>The number that a list begins with, and where its parts are.\<close>

definition first_word :: "u8 list \<Rightarrow> nat \<Rightarrow> nat" where
  "first_word bs p = unat (le_word (take 4 (drop p bs)) 0)"

definition parsed_list :: "u8 list \<Rightarrow> vpu_hash_key_pair_s" where
  "parsed_list bs = (let k = first_word bs 0; h = first_word bs (4 + 32 * k) in
     \<lparr>num_keys = of_nat k, psha_key = groups 32 (take (32 * k) (drop 4 bs)), num_hashes = of_nat h,
      pvpu_hash_vector = map hash_vector_of (groups 12 (take (12 * h) (drop (8 + 32 * k) bs)))\<rparr>)"

lemma sint_small: "m < 2 ^ 30 \<Longrightarrow> sint (of_nat m :: u64) = int m"
proof -
  assume m: "m < 2 ^ 30"
  have "sint (of_nat m :: u64) = signed_take_bit 63 (int m)" by (simp add: signed_of_nat)
  also have "\<dots> = int m" using m by (intro signed_take_bit_int_eq_self) auto
  finally show ?thesis .
qed

lemma size_product:
  assumes "n = 32 \<or> n = (12 :: nat)"
  shows "unat (of_nat n * ucast (w :: u32) :: u64) = n * unat w"
    "n * unat w < 2 ^ 30 \<Longrightarrow> ucast (of_nat n * ucast w :: u64) = (of_nat (n * unat w) :: u32)"
    "n * unat w < 2 ^ 30 \<Longrightarrow> sint (of_nat n * ucast w :: u64) = int (n * unat w)"
proof -
  have e: "of_nat n * ucast w = (of_nat (n * unat w) :: u64)" by simp
  have "unat w < 4294967296" by (rule unat_less_size)
  then have l: "n * unat w < 2 ^ 64" using assms by auto
  show u: "unat (of_nat n * ucast w :: u64) = n * unat w"
    unfolding e using l by (simp add: unat_of_nat take_bit_nat_eq_self del: of_nat_mult)
  show "ucast (of_nat n * ucast w :: u64) = (of_nat (n * unat w) :: u32)" unfolding e by (rule low_of_nat)
  show "n * unat w < 2 ^ 30 \<Longrightarrow> sint (of_nat n * ucast w :: u64) = int (n * unat w)" unfolding e by (rule sint_small)
qed

text \<open>All outcomes of the parser, for an allocator that refuses a gibibyte.\<close>

lemma parse_eq:
  assumes b: "length bs < 2 ^ 31" and z: "\<And>n. kzalloc_ok n \<Longrightarrow> n < 2 ^ 30"
  defines "k \<equiv> first_word bs 0" and "h \<equiv> first_word bs (4 + 32 * first_word bs 0)"
  shows "pva_auth_allow_list_parse_buf kzalloc_ok bs (of_nat (length bs)) auth = Some (
    if \<not> kzalloc_ok 32 then (- ENOMEM, auth\<lparr>vpu_hash_keys := None\<rparr>)
    else if length bs < 4 then (- EINVAL, auth\<lparr>vpu_hash_keys := None\<rparr>)
    else if \<not> kzalloc_ok (32 * k) then (- ENOMEM, auth\<lparr>vpu_hash_keys := None\<rparr>)
    else if length bs < 8 + 32 * k then (- EINVAL, auth\<lparr>vpu_hash_keys := None\<rparr>)
    else if \<not> kzalloc_ok (12 * h) then (- ENOMEM, auth\<lparr>vpu_hash_keys := None\<rparr>)
    else if length bs < 8 + 32 * k + 12 * h then (- EINVAL, auth\<lparr>vpu_hash_keys := None\<rparr>)
    else (0, auth\<lparr>vpu_hash_keys := Some (parsed_list bs), pva_auth_enable := True, pva_auth_allow_list_parsed := True\<rparr>))"
proof -
  let ?s0 = "\<lparr>buff = bs, buf_pos = 0, buf_size = of_nat (length bs)\<rparr>"
  have r0: "reading bs 0 ?s0" using b by (simp add: reading_def)
  define K where "K = le_word (take 4 bs) 0"
  define H where "H = le_word (take 4 (drop (4 + 32 * k) bs)) 0"
  have kh: "k = unat K" "h = unat H" by (simp_all add: k_def h_def K_def H_def first_word_def)
  define s1 where "s1 = ?s0\<lparr>buf_pos := of_nat (0 + 4)\<rparr>"
  define s2 where "s2 = s1\<lparr>buf_pos := of_nat (4 + 32 * k)\<rparr>"
  define s3 where "s3 = s2\<lparr>buf_pos := of_nat (4 + 32 * k + 4)\<rparr>"
  define s4 where "s4 = s3\<lparr>buf_pos := of_nat (4 + 32 * k + 4 + 12 * h)\<rparr>"
  have R1: "read_buff 4 ?s0 = (if 4 \<le> length bs then Some (4, take 4 bs, s1) else Some (- 1, [], ?s0))"
    using read_buff_eq(1) [OF r0, of 4] by (simp add: s1_def)
  have r1: "reading bs 4 s1" if "4 \<le> length bs" using read_buff_eq(2) [OF r0, of 4] that by (simp add: s1_def)
  have z2: "32 * k < 2 ^ 30" if "kzalloc_ok (32 * k)" using z that by blast
  have z3: "12 * h < 2 ^ 30" if "kzalloc_ok (12 * h)" using z that by blast
  have k: "unat (32 * ucast K :: u64) = 32 * k"
    "32 * k < 2 ^ 30 \<Longrightarrow> ucast (32 * ucast K :: u64) = (of_nat (32 * k) :: u32)" "32 * k < 2 ^ 30 \<Longrightarrow> sint (32 * ucast K :: u64) = int (32 * k)"
    using size_product [of 32 K] by (simp_all only: kh(1) of_nat_numeral simp_thms)
  have h: "unat (12 * ucast H :: u64) = 12 * h"
    "12 * h < 2 ^ 30 \<Longrightarrow> ucast (12 * ucast H :: u64) = (of_nat (12 * h) :: u32)" "12 * h < 2 ^ 30 \<Longrightarrow> sint (12 * ucast H :: u64) = int (12 * h)"
    using size_product [of 12 H] by (simp_all only: kh(2) of_nat_numeral simp_thms)
  have R2: "read_buff (ucast (32 * ucast K :: u64)) s1 = (if 4 + 32 * k \<le> length bs then Some (int (32 * k), take (32 * k) (drop 4 bs), s2)
      else Some (- 1, [], s1))" if "4 \<le> length bs" "kzalloc_ok (32 * k)"
    unfolding k(2) [OF z2 [OF that(2)]] s2_def by (rule read_buff_eq(1) [OF r1 [OF that(1)] z2 [OF that(2)]])
  have r2: "reading bs (4 + 32 * k) s2" if "4 + 32 * k \<le> length bs" "kzalloc_ok (32 * k)"
    unfolding s2_def by (rule read_buff_eq(2) [OF r1 z2]) (use that in simp_all)
  have R3: "read_buff 4 s2 = (if 4 + 32 * k + 4 \<le> length bs then Some (4, take 4 (drop (4 + 32 * k) bs), s3) else Some (- 1, [], s2))"
    if "4 + 32 * k \<le> length bs" "kzalloc_ok (32 * k)"
    using read_buff_eq(1) [OF r2 [OF that], of 4] by (simp add: s3_def)
  have r3: "reading bs (4 + 32 * k + 4) s3" if "4 + 32 * k + 4 \<le> length bs" "kzalloc_ok (32 * k)"
    unfolding s3_def by (rule read_buff_eq(2) [OF r2]) (use that in simp_all)
  have R4: "read_buff (ucast (12 * ucast H :: u64)) s3 = (if 4 + 32 * k + 4 + 12 * h \<le> length bs
      then Some (int (12 * h), take (12 * h) (drop (4 + 32 * k + 4) bs), s4) else Some (- 1, [], s3))"
    if "4 + 32 * k + 4 \<le> length bs" "kzalloc_ok (32 * k)" "kzalloc_ok (12 * h)"
    unfolding h(2) [OF z3 [OF that(3)]] s4_def by (rule read_buff_eq(1) [OF r3 [OF that(1,2)] z3 [OF that(3)]])
  let ?d = "auth\<lparr>vpu_hash_keys := None\<rparr>"
  note def = pva_auth_allow_list_parse_buf_def pva_auth_allow_list_parse_pva_buff_def pva_auth_allow_list_destroy_def Let_def
  note keys = K_def [symmetric] H_def [symmetric] k(1) h(1)
  consider (a) "\<not> kzalloc_ok 32" | (b) "kzalloc_ok 32" "length bs < 4" | (c) "kzalloc_ok 32" "4 \<le> length bs" "\<not> kzalloc_ok (32 * k)"
    | (d) "kzalloc_ok 32" "4 \<le> length bs" "kzalloc_ok (32 * k)" "length bs < 4 + 32 * k"
    | (e) "kzalloc_ok 32" "4 + 32 * k \<le> length bs" "kzalloc_ok (32 * k)" "length bs < 4 + 32 * k + 4"
    | (f) "kzalloc_ok 32" "4 + 32 * k + 4 \<le> length bs" "kzalloc_ok (32 * k)"
    by linarith
  then show ?thesis
  proof cases
    case a
    then show ?thesis by (simp add: def)
  next
    case b
    then show ?thesis by (simp add: def R1)
  next
    case c
    then show ?thesis by (simp add: def R1 keys)
  next
    case d
    then show ?thesis using k(3) [OF z2] by (simp add: def R1 keys R2)
  next
    case e
    then show ?thesis using k(3) [OF z2] by (simp add: def R1 keys R2 R3)
  next
    case f
    note pre = f
    have p: "parsed_list bs = \<lparr>num_keys = K, psha_key = groups 32 (take (32 * k) (drop 4 bs)), num_hashes = H,
        pvpu_hash_vector = map hash_vector_of (groups 12 (take (12 * h) (drop (4 + 32 * k + 4) bs)))\<rparr>"
    proof -
      have "of_nat k = K" "of_nat h = H" "4 + 32 * k + 4 = 8 + 32 * k" by (simp_all add: kh)
      then show ?thesis
        by (simp only: parsed_list_def Let_def k_def [symmetric] h_def [folded k_def, symmetric])
    qed
    show ?thesis
    proof (cases "kzalloc_ok (12 * h) \<and> 4 + 32 * k + 4 + 12 * h \<le> length bs")
      case True
      then show ?thesis using f k(3) [OF z2] h(3) [OF z3] by (simp add: def R1 keys R2 R3 R4 p)
    next
      case False
      then show ?thesis using f k(3) [OF z2] h(3) [OF z3]
        by (cases "kzalloc_ok (12 * h)") (simp_all add: def R1 keys R2 R3 R4)
    qed
  qed
qed

lemma length_groups: "0 < n \<Longrightarrow> length (groups n xs) = length xs div n"
  by (simp add: groups_eq)

lemma length_group: "x \<in> set (groups n xs) \<Longrightarrow> length x = n"
proof (induction n xs rule: groups.induct)
  case (1 n xs)
  show ?case
  proof (cases "n = 0 \<or> length xs < n")
    case False
    then have "x = take n xs \<or> x \<in> set (groups n (drop n xs))"
      using 1(2) by (subst (asm) groups.simps) simp
    then show ?thesis using 1(1) False by auto
  qed (use 1(2) in \<open>simp add: groups.simps [of n xs]\<close>)
qed

text \<open>
  C24. The parser is safe against any list: it returns, never reads behind the end of the buffer, and either succeeds with
  arrays of the lengths that the list announces, or fails with no list in place. (An allocation of a gibibyte fails.)
\<close>

theorem pva_parse_total:
  assumes "length bs < 2 ^ 31" "\<And>n. kzalloc_ok n \<Longrightarrow> n < 2 ^ 30"
  shows "\<exists>err auth'. pva_auth_allow_list_parse_buf kzalloc_ok bs (of_nat (length bs)) auth = Some (err, auth')
    \<and> (case vpu_hash_keys auth' of
         None \<Rightarrow> err = - EINVAL \<or> err = - ENOMEM
       | Some keys \<Rightarrow> err = 0 \<and> pva_auth_enable auth' \<and> pva_auth_allow_list_parsed auth'
           \<and> length (psha_key keys) = unat (num_keys keys) \<and> (\<forall>key \<in> set (psha_key keys). length key = 32)
           \<and> length (pvpu_hash_vector keys) = unat (num_hashes keys))"
proof -
  define k where "k = first_word bs 0"
  define h where "h = first_word bs (4 + 32 * k)"
  have ok: "length (psha_key (parsed_list bs)) = unat (num_keys (parsed_list bs))
      \<and> (\<forall>key \<in> set (psha_key (parsed_list bs)). length key = 32)
      \<and> length (pvpu_hash_vector (parsed_list bs)) = unat (num_hashes (parsed_list bs))" if "8 + 32 * k + 12 * h \<le> length bs"
  proof -
    have "k < 2 ^ 32" "h < 2 ^ 32" using assms(1) that by simp_all
    then have u: "unat (of_nat k :: u32) = k" "unat (of_nat h :: u32) = h" by (simp_all add: unat_of_nat take_bit_nat_eq_self)
    have l: "length (take (32 * k) (drop 4 bs)) div 32 = k" "length (take (12 * h) (drop (8 + 32 * k) bs)) div 12 = h"
      "length (take (32 * k) (drop 4 bs)) = 32 * k" using that by simp_all
    show ?thesis
      unfolding parsed_list_def Let_def k_def [symmetric] h_def [symmetric] using u l
      by (auto simp: length_groups dest: length_group simp del: length_take length_drop)
  qed
  have "pva_auth_allow_list_parse_buf kzalloc_ok bs (of_nat (length bs)) auth = Some (
    if \<not> kzalloc_ok 32 then (- ENOMEM, auth\<lparr>vpu_hash_keys := None\<rparr>)
    else if length bs < 4 then (- EINVAL, auth\<lparr>vpu_hash_keys := None\<rparr>)
    else if \<not> kzalloc_ok (32 * k) then (- ENOMEM, auth\<lparr>vpu_hash_keys := None\<rparr>)
    else if length bs < 8 + 32 * k then (- EINVAL, auth\<lparr>vpu_hash_keys := None\<rparr>)
    else if \<not> kzalloc_ok (12 * h) then (- ENOMEM, auth\<lparr>vpu_hash_keys := None\<rparr>)
    else if length bs < 8 + 32 * k + 12 * h then (- EINVAL, auth\<lparr>vpu_hash_keys := None\<rparr>)
    else (0, auth\<lparr>vpu_hash_keys := Some (parsed_list bs), pva_auth_enable := True, pva_auth_allow_list_parsed := True\<rparr>))"
    unfolding k_def h_def by (rule parse_eq [OF assms])
  then show ?thesis using ok by (auto split: if_splits)
qed

text \<open>The bytes of a list.\<close>

definition list_bytes :: "vpu_hash_key_pair_s \<Rightarrow> u8 list" where
  "list_bytes keys = le_bytes (num_keys keys) @ concat (psha_key keys) @ le_bytes (num_hashes keys)
     @ concat (map (\<lambda>h. le_bytes (vh_count h) @ le_bytes (vh_index h) @ le_bytes (crc32_hash h)) (pvpu_hash_vector keys))"

lemma le_word_bytes: "le_word (le_bytes v @ bs) 0 = v"
  using word_of_bytes [of v] by (simp add: le_word_def le_bytes_def numeral_eq_Suc)

lemma groups_concat:
  fixes xs :: "'a list list"
  assumes "0 < n" "\<forall>x \<in> set xs. length x = n"
  shows "groups n (concat xs) = xs"
  using assms(2)
proof (induction xs)
  case Nil
  then show ?case using assms(1) by (simp add: groups.simps [of n "[]"])
next
  case (Cons x xs)
  then show ?case using groups_append [of n x "concat xs"] groups_one [of x n] assms(1) by simp
qed

lemma length_concat_eq: "\<forall>x \<in> set xs. length x = n \<Longrightarrow> length (concat xs) = n * length xs"
  by (induction xs) auto

text \<open>
  Round trip: the bytes of a list whose numbers are right are parsed to the same list, provided memory is available.
  The order is that of the code, the number of keys and the keys first; the comment of the header gives another one.
\<close>

theorem pva_parse_list_bytes:
  assumes "unat (num_keys keys) = length (psha_key keys)" "\<forall>key \<in> set (psha_key keys). length key = 32"
    and "unat (num_hashes keys) = length (pvpu_hash_vector keys)" "length (list_bytes keys) < 2 ^ 29"
  shows "pva_auth_allow_list_parse_buf (\<lambda>n. n < 2 ^ 30) (list_bytes keys) (of_nat (length (list_bytes keys))) auth
    = Some (0, auth\<lparr>vpu_hash_keys := Some keys, pva_auth_enable := True, pva_auth_allow_list_parsed := True\<rparr>)"
proof -
  let ?ks = "concat (psha_key keys)" and ?v = "pvpu_hash_vector keys"
  let ?e = "\<lambda>h. le_bytes (vh_count h) @ le_bytes (vh_index h) @ le_bytes (crc32_hash h)"
  let ?hs = "concat (map ?e ?v)"
  let ?b = "list_bytes keys"
  have b: "?b = le_bytes (num_keys keys) @ ?ks @ le_bytes (num_hashes keys) @ ?hs" by (simp add: list_bytes_def)
  have l4: "length (le_bytes x) = 4" for x by (simp add: le_bytes_def)
  have lk: "length ?ks = 32 * unat (num_keys keys)" using length_concat_eq [OF assms(2)] assms(1) by simp
  have lh: "length ?hs = 12 * unat (num_hashes keys)" using length_concat_eq [of "map ?e ?v" 12] assms(3) by (simp add: l4)
  have k: "first_word ?b 0 = unat (num_keys keys)" unfolding b by (simp add: first_word_def l4 le_word_bytes [of _ "[]", simplified])
  have d: "drop (4 + 32 * unat (num_keys keys)) ?b = le_bytes (num_hashes keys) @ ?hs" "take (32 * unat (num_keys keys)) (drop 4 ?b) = ?ks"
    "drop (8 + 32 * unat (num_keys keys)) ?b = ?hs"
    unfolding b by (simp_all add: l4 lk)
  have h: "first_word ?b (4 + 32 * unat (num_keys keys)) = unat (num_hashes keys)"
    unfolding first_word_def d(1) by (simp add: l4 le_word_bytes [of _ "[]", simplified])
  have e: "hash_vector_of (?e h) = h" for h
  proof -
    have "le_word (?e h) 0 = vh_count h" by (rule le_word_bytes)
    moreover have "le_word (?e h) 1 = le_word (le_bytes (vh_index h) @ le_bytes (crc32_hash h)) 0"
      "le_word (?e h) 2 = le_word (le_bytes (crc32_hash h) @ []) 0"
      by (simp_all add: le_word_def le_bytes_def numeral_eq_Suc)
    ultimately show ?thesis
      by (simp add: hash_vector_of_def le_word_bytes le_word_bytes [of _ "[]", simplified] del: One_nat_def)
  qed
  have p: "parsed_list ?b = keys"
  proof -
    have "groups 32 ?ks = psha_key keys" using assms(2) by (intro groups_concat) simp_all
    moreover have "groups 12 ?hs = map ?e ?v" by (intro groups_concat) (simp_all add: l4)
    moreover have "map (hash_vector_of \<circ> ?e) ?v = ?v" using e by (simp add: comp_def)
    ultimately show ?thesis
      by (simp add: parsed_list_def k h d Let_def lk lh)
  qed
  have len: "length ?b = 8 + 32 * unat (num_keys keys) + 12 * unat (num_hashes keys)" unfolding b by (simp add: l4 lk lh)
  have "length ?b < 2 ^ 31" using assms(4) by simp
  from parse_eq [OF this, of "\<lambda>n. n < 2 ^ 30" auth] show ?thesis
    using len assms(4) by (simp add: k h p)
qed

text \<open>
  C23. With both lists enabled, parsed and in order, an executable is let through exactly when one of them lists it, and as a system
  executable exactly when only the system's list does; the lists are not changed.
\<close>

theorem pva_exec_authenticated:
  assumes "length data < 2 ^ 29" "length junk = 64" "allow_list_ok ku" "allow_list_ok ks"
    and "usr = \<lparr>vpu_hash_keys = Some ku, pva_auth_enable = True, pva_auth_allow_list_parsed = True\<rparr>"
    and "sy = \<lparr>vpu_hash_keys = Some ks, pva_auth_enable = True, pva_auth_allow_list_parsed = True\<rparr>"
  shows "authenticate_exec kzalloc_ok junk sys firmware data (of_nat (length data)) (usr, sy)
    = Some (if listed ku data \<or> listed ks data then 0 else - EACCES, listed ks data \<and> \<not> listed ku data, usr, sy)"
proof -
  have "ucast (ucast (of_nat (length data) :: u64) :: u32) = (of_nat (length data) :: u64)"
  proof -
    have "unat (of_nat (length data) :: u32) = length data" using assms(1) by (simp add: unat_of_nat take_bit_nat_eq_self)
    moreover have "unat (of_nat (length data) :: u64) = length data" using assms(1) by (simp add: unat_of_nat take_bit_nat_eq_self)
    ultimately show ?thesis by (simp add: low_of_nat word_unat_eq_iff unat_ucast_u64)
  qed
  then show ?thesis
    using check_eq [OF assms(1,2,3)] check_eq [OF assms(1,2,4)] assms(5,6)
    by (simp add: authenticate_exec_def pva_authenticate_vpu_app_def)
qed

subsection \<open>Witnesses\<close>

lemma length_sha256_ref: "length (sha256_ref data) = 32"
proof -
  have "length (foldl compress (sha_state sha256_init) bs) = 8" for bs
    by (rule length_foldl_compress) (simp add: sha256_init_def)
  then show ?thesis
    using length_concat_eq [of "map be_bytes (foldl compress (sha_state sha256_init) bs)" 4 for bs]
    by (simp add: sha256_ref_def hash_with_length_def be_bytes_def)
qed

text \<open>A list for the executable \<open>data\<close>, with one key or with none.\<close>

definition demo_list :: "u8 list \<Rightarrow> u32 \<Rightarrow> vpu_hash_key_pair_s" where
  "demo_list data n = \<lparr>num_keys = 1, psha_key = [sha256_ref data], num_hashes = 1,
     pvpu_hash_vector = [\<lparr>vh_count = n, vh_index = 0, crc32_hash = crc_of data\<rparr>]\<rparr>"

lemma demo_list_ok: "n \<le> 1 \<Longrightarrow> allow_list_ok (demo_list data n)"
  by (auto simp: allow_list_ok_def demo_list_def length_sha256_ref word_le_nat_alt)

lemma demo_listed: "listed (demo_list data 1) data"
  by (simp add: listed_def demo_list_def keys_of_def)

theorem pva_check_accepts_listed_witness:
  "pva_vpu_check_sha256_key (replicate 64 0) (demo_list [1, 2, 3] 1) [1, 2, 3] 3 = Some 0"
  using pva_check_accepts_listed [OF _ _ demo_list_ok, of "[1, 2, 3]" "replicate 64 0" 1 "[1, 2, 3]"]
  by (auto simp: demo_list_def)

theorem pva_parse_total_witness:
  "\<exists>err auth'. pva_auth_allow_list_parse_buf (\<lambda>n. n < 2 ^ 30) [1, 0, 0, 0, 9] 5
      \<lparr>vpu_hash_keys = Some (demo_list [] 1), pva_auth_enable = True, pva_auth_allow_list_parsed = False\<rparr> = Some (err, auth')
    \<and> (vpu_hash_keys auth' = None \<longrightarrow> err = - EINVAL \<or> err = - ENOMEM)"
  using pva_parse_total [of "[1, 0, 0, 0, 9]" "\<lambda>n. n < 2 ^ 30"
    "\<lparr>vpu_hash_keys = Some (demo_list [] 1), pva_auth_enable = True, pva_auth_allow_list_parsed = False\<rparr>"] by auto

theorem pva_parse_list_bytes_witness:
  "pva_auth_allow_list_parse_buf (\<lambda>n. n < 2 ^ 30) (list_bytes (demo_list [1, 2, 3] 1)) 52
      \<lparr>vpu_hash_keys = None, pva_auth_enable = True, pva_auth_allow_list_parsed = False\<rparr>
    = Some (0, \<lparr>vpu_hash_keys = Some (demo_list [1, 2, 3] 1), pva_auth_enable = True, pva_auth_allow_list_parsed = True\<rparr>)"
proof -
  have l: "length (list_bytes (demo_list [1, 2, 3] 1)) = 52"
    by (simp add: list_bytes_def demo_list_def length_sha256_ref le_bytes_def)
  then show ?thesis
    using pva_parse_list_bytes [of "demo_list [1, 2, 3] 1" "\<lparr>vpu_hash_keys = None, pva_auth_enable = True, pva_auth_allow_list_parsed = False\<rparr>"]
    by (simp add: demo_list_def length_sha256_ref)
qed

theorem pva_exec_authenticated_witness:
  "authenticate_exec (\<lambda>_. True) (replicate 64 0) ([], 0) None [1, 2, 3] 3
      (\<lparr>vpu_hash_keys = Some (demo_list [4] 0), pva_auth_enable = True, pva_auth_allow_list_parsed = True\<rparr>,
       \<lparr>vpu_hash_keys = Some (demo_list [1, 2, 3] 1), pva_auth_enable = True, pva_auth_allow_list_parsed = True\<rparr>)
    = Some (0, \<not> listed (demo_list [4] 0) [1, 2, 3],
       \<lparr>vpu_hash_keys = Some (demo_list [4] 0), pva_auth_enable = True, pva_auth_allow_list_parsed = True\<rparr>,
       \<lparr>vpu_hash_keys = Some (demo_list [1, 2, 3] 1), pva_auth_enable = True, pva_auth_allow_list_parsed = True\<rparr>)"
  using pva_exec_authenticated [OF _ _ demo_list_ok demo_list_ok refl refl, of "[1, 2, 3]" "replicate 64 0" 0 1] demo_listed
  by auto

end
