(* ===== verification/Tsec_Queue.thy ===== *)
theory Tsec_Queue
  imports Prelude
begin

text \<open>
  The layout of the two queues that the driver of the security engine and its firmware share: packets
  one after another, each padded to a multiple of four bytes, and a header of unit REWIND where the
  producer went back to the start. What a reader and a writer that keep to this layout do to the
  list of packets in the queue.
\<close>

type_synonym flcn_packet = "u8 list"

abbreviation unitId :: "flcn_packet \<Rightarrow> u8" where "unitId c \<equiv> c ! 0"
abbreviation hdr_size :: "flcn_packet \<Rightarrow> u8" where "hdr_size c \<equiv> c ! 1"
abbreviation (input) RM_GSP_UNIT_REWIND :: u8 where "RM_GSP_UNIT_REWIND \<equiv> 0"

text \<open>\<open>ALIGN(size, 4)\<close> of a byte is an \<open>int\<close>: 253 gives 256.\<close>

definition align4 :: "u8 \<Rightarrow> nat" where
  "align4 s = (unat s + 3) div 4 * 4"

lemma unat_u8: "unat (s :: u8) < 256"
proof -
  have "unat s < 2 ^ LENGTH(8)" by (rule unsigned_less)
  then show ?thesis by simp
qed

lemma align4_bounds: "unat s \<le> align4 s" "align4 s \<le> 256" "align4 s < unat s + 4" "align4 s mod 4 = 0"
  using unat_u8 [of s] by (auto simp: align4_def)

definition packet :: "flcn_packet \<Rightarrow> bool" where
  "packet c \<longleftrightarrow> 4 \<le> length c \<and> length c = unat (hdr_size c) \<and> unitId c \<noteq> RM_GSP_UNIT_REWIND"

text \<open>\<open>seg b t cs h\<close>: the packets \<open>cs\<close> fill the bytes \<open>b\<close> from \<open>t\<close> to \<open>h\<close>.\<close>

fun seg :: "(nat \<Rightarrow> u8) \<Rightarrow> nat \<Rightarrow> flcn_packet list \<Rightarrow> nat \<Rightarrow> bool" where
  "seg b t [] h \<longleftrightarrow> t = h"
| "seg b t (c # cs) h \<longleftrightarrow> packet c \<and> map b [t..<t + length c] = c \<and> seg b (t + align4 (hdr_size c)) cs h"

lemma seg_append: "seg b t (xs @ ys) h \<longleftrightarrow> (\<exists>m. seg b t xs m \<and> seg b m ys h)"
  by (induction xs arbitrary: t) auto

lemma seg_le: "seg b t cs h \<Longrightarrow> t \<le> h"
proof (induction cs arbitrary: t)
  case (Cons c cs)
  then show ?case by (auto dest!: Cons.IH)
qed simp

lemma seg_pos: "seg b t (c # cs) h \<Longrightarrow> t + 4 \<le> t + align4 (hdr_size c) \<and> t + align4 (hdr_size c) \<le> h"
  using align4_bounds(1) [of "hdr_size c"] by (auto dest: seg_le simp: packet_def)

lemma seg_mod: "seg b t cs h \<Longrightarrow> (h - t) mod 4 = 0"
proof (induction cs arbitrary: t)
  case (Cons c cs)
  from seg_pos [OF Cons.prems] have "h - t = (h - (t + align4 (hdr_size c))) + align4 (hdr_size c)" by simp
  moreover from Cons have "(h - (t + align4 (hdr_size c))) mod 4 = 0" by simp
  ultimately show ?case using align4_bounds(4) [of "hdr_size c"] by (metis mod_add_eq add.right_neutral mod_0)
qed simp

lemma seg_frame:
  assumes "seg b t cs h" "\<And>x. t \<le> x \<Longrightarrow> x < h \<Longrightarrow> b' x = b x"
  shows "seg b' t cs h"
  using assms
proof (induction cs arbitrary: t)
  case (Cons c cs)
  note p = seg_pos [OF Cons.prems(1)]
  have "length c \<le> align4 (hdr_size c)" using Cons.prems(1) align4_bounds(1) by (simp add: packet_def)
  then have "map b' [t..<t + length c] = map b [t..<t + length c]"
    using p by (auto intro!: Cons.prems(2))
  with Cons.prems(1) have "map b' [t..<t + length c] = c" by simp
  moreover have "seg b' (t + align4 (hdr_size c)) cs h"
    using Cons.prems p by (intro Cons.IH) auto
  ultimately show ?case using Cons.prems(1) by simp
qed simp

lemma seg_head_bytes:
  assumes "seg b t (c # cs) h"
  shows "b t = unitId c" "b (t + 1) = hdr_size c" "b t \<noteq> 0" "4 \<le> unat (hdr_size c)"
proof -
  have m: "map b [t..<t + length c] = c" and l: "4 \<le> length c" "length c = unat (hdr_size c)" "c ! 0 \<noteq> 0"
    using assms by (auto simp: packet_def)
  have "map b [t..<t + length c] ! 0 = b t" "map b [t..<t + length c] ! 1 = b (t + 1)"
    using l by (simp_all add: nth_append)
  with m l show "b t = unitId c" "b (t + 1) = hdr_size c" "b t \<noteq> 0" "4 \<le> unat (hdr_size c)" by auto
qed

text \<open>
  The queue of \<open>len\<close> bytes from \<open>st\<close> on, read at \<open>t\<close> and written at \<open>h\<close>, holds the packets \<open>cs\<close>:
  from \<open>t\<close> to \<open>h\<close>, or from \<open>t\<close> to a REWIND header and from the start to \<open>h\<close>.
\<close>

definition wrapped :: "(nat \<Rightarrow> u8) \<Rightarrow> nat \<Rightarrow> nat \<Rightarrow> nat \<Rightarrow> nat \<Rightarrow> flcn_packet list \<Rightarrow> bool" where
  "wrapped b st len t h cs \<longleftrightarrow> (\<exists>xs ys r. cs = xs @ ys \<and> seg b t xs r \<and> r + 4 \<le> st + len \<and> b r = 0 \<and> b (r + 1) = 4 \<and> seg b st ys h)"

definition holds_packets :: "(nat \<Rightarrow> u8) \<Rightarrow> nat \<Rightarrow> nat \<Rightarrow> nat \<Rightarrow> nat \<Rightarrow> flcn_packet list \<Rightarrow> bool" where
  "holds_packets b st len t h cs \<longleftrightarrow> st \<le> t \<and> st \<le> h \<and> h < st + len \<and> (h - st) mod 4 = 0
     \<and> (if t \<le> h then seg b t cs h else wrapped b st len t h cs)"

definition room :: "nat \<Rightarrow> nat \<Rightarrow> nat \<Rightarrow> nat \<Rightarrow> nat \<Rightarrow> bool" where
  "room st len t h n \<longleftrightarrow> (if t \<le> h then h + n < st + len else h + n < t)"

lemma wrapped_tail: "wrapped b st len t h cs \<Longrightarrow> t < st + len"
  by (auto simp: wrapped_def dest!: seg_le)

text \<open>The step of a reader that keeps to the layout.\<close>

definition pop :: "(nat \<Rightarrow> u8) \<Rightarrow> nat \<Rightarrow> nat \<Rightarrow> nat \<Rightarrow> nat \<Rightarrow> bool" where
  "pop b st h t t' \<longleftrightarrow> t \<noteq> h \<and> t' = (if b t = 0 then st else t + align4 (b (t + 1)))"

lemma pop_holds:
  assumes q: "holds_packets b st len t h cs" and p: "pop b st h t t'"
  shows "holds_packets b st len t' h (if b t = 0 then cs else tl cs) \<and> (t \<le> h \<longrightarrow> t' \<le> h) \<and> (h < t \<longrightarrow> t' \<le> h \<or> t \<le> t')
    \<and> (b t \<noteq> 0 \<longrightarrow> cs \<noteq> [])"
proof (cases "t \<le> h")
  case True
  with q have s: "seg b t cs h" by (simp add: holds_packets_def)
  from p have "t \<noteq> h" by (simp add: pop_def)
  with s obtain c ds where cs: "cs = c # ds" by (cases cs) auto
  note hb = seg_head_bytes [OF s [unfolded cs]]
  from p hb have t': "t' = t + align4 (hdr_size c)" by (simp add: pop_def)
  from s cs t' have "seg b t' ds h" by simp
  with True q cs hb t' show ?thesis by (auto simp: holds_packets_def dest: seg_le)
next
  case False
  with q obtain xs ys r where w: "cs = xs @ ys" "seg b t xs r" "r + 4 \<le> st + len" "b r = 0" "b (r + 1) = 4" "seg b st ys h"
    by (auto simp: holds_packets_def wrapped_def)
  show ?thesis
  proof (cases xs)
    case Nil
    with w p q show ?thesis by (auto simp: pop_def holds_packets_def dest: seg_le)
  next
    case (Cons c ds)
    note hb = seg_head_bytes [OF w(2) [unfolded Cons]]
    from p hb have t': "t' = t + align4 (hdr_size c)" by (simp add: pop_def)
    from w(2) Cons t' have s: "seg b t' ds r" by simp
    with w have "wrapped b st len t' h (ds @ ys)" by (auto simp: wrapped_def)
    moreover from False t' have "\<not> t' \<le> h" by simp
    ultimately show ?thesis using False q hb Cons w(1) t' by (auto simp: holds_packets_def)
  qed
qed

lemma pops_hold:
  assumes "(pop b st h)\<^sup>*\<^sup>* t t'" "holds_packets b st len t h cs" "room st len t h n"
  shows "\<exists>k. holds_packets b st len t' h (drop k cs) \<and> room st len t' h n"
  using assms
proof (induction rule: rtranclp_induct)
  case base
  then show ?case by (intro exI [of _ 0]) simp
next
  case (step t1 t2)
  then obtain k where k: "holds_packets b st len t1 h (drop k cs)" "room st len t1 h n" by blast
  note s = pop_holds [OF k(1) step.hyps(2)]
  have "t1 < st + len" if "h < t1" using k(1) that by (auto simp: holds_packets_def dest: wrapped_tail)
  with s k(2) have "room st len t2 h n" by (auto simp: room_def split: if_splits)
  moreover have "\<exists>j. (if b t1 = 0 then drop k cs else tl (drop k cs)) = drop j cs"
    by (cases "b t1 = 0") (auto simp: tl_drop drop_Suc [symmetric])
  ultimately show ?case using s by metis
qed

lemma pops_straight:
  assumes "(pop b st h)\<^sup>*\<^sup>* t t'" "holds_packets b st len t h cs" "t \<le> h"
  shows "t \<le> t' \<and> t' \<le> h"
  using assms
proof (induction rule: rtranclp_induct)
  case (step t1 t2)
  have "room st len t h 0" using step.prems by (auto simp: room_def holds_packets_def)
  from pops_hold [OF step.hyps(1) step.prems(1) this] obtain ds where d: "holds_packets b st len t1 h ds" by blast
  have i: "t \<le> t1" "t1 \<le> h" using step by auto
  with d step.hyps(2) obtain e es where e: "seg b t1 (e # es) h"
    by (cases ds) (auto simp: holds_packets_def pop_def)
  from seg_pos [OF e] seg_head_bytes [OF e] step.hyps(2) i show ?case by (auto simp: pop_def)
qed simp

text \<open>What the writer does: a packet written in the room after \<open>h\<close> and then announced, and a rewind.\<close>

lemma holds_frame:
  assumes q: "holds_packets b st len t h cs" and r: "room st len t h n"
    and f: "\<And>x. st \<le> x \<Longrightarrow> x < st + len \<Longrightarrow> x < h \<or> h + n \<le> x \<Longrightarrow> b' x = b x"
  shows "holds_packets b' st len t h cs"
proof (cases "t \<le> h")
  case True
  have "seg b t cs h" using True q by (simp add: holds_packets_def)
  then have "seg b' t cs h" by (rule seg_frame) (use q f True in \<open>auto simp: holds_packets_def\<close>)
  with True q show ?thesis by (simp add: holds_packets_def)
next
  case False
  with q obtain xs ys z where w: "cs = xs @ ys" "seg b t xs z" "z + 4 \<le> st + len" "b z = 0" "b (z + 1) = 4" "seg b st ys h"
    by (auto simp: holds_packets_def wrapped_def)
  have rm: "h + n < t" "st \<le> h" using r False q by (auto simp: room_def holds_packets_def)
  have hl: "h < st + len" using q by (simp add: holds_packets_def)
  have "seg b' t xs z" by (rule seg_frame [OF w(2)], rule f) (use w(3) rm in auto)
  moreover have "seg b' st ys h" by (rule seg_frame [OF w(6)], rule f) (use hl in auto)
  moreover have "b' z = b z" "b' (z + 1) = b (z + 1)" by (rule f; use w(3) seg_le [OF w(2)] rm in auto)+
  ultimately have "wrapped b' st len t h cs" using w by (auto simp: wrapped_def)
  with False q show ?thesis by (simp add: holds_packets_def)
qed

lemma holds_push:
  assumes q: "holds_packets b st len t h cs" and r: "room st len t h (align4 (hdr_size c))"
    and c: "packet c" "map b [h..<h + length c] = c"
  shows "holds_packets b st len t (h + align4 (hdr_size c)) (cs @ [c])"
proof -
  let ?n = "align4 (hdr_size c)"
  have one: "seg b h [c] (h + ?n)" using c by simp
  have m: "(h + ?n - st) mod 4 = 0"
  proof -
    have "h + ?n - st = (h - st) + ?n" using q by (simp add: holds_packets_def)
    then show ?thesis using q align4_bounds(4) [of "hdr_size c"]
      by (metis holds_packets_def mod_add_eq add.right_neutral mod_0)
  qed
  show ?thesis
  proof (cases "t \<le> h")
    case True
    then have "seg b t cs h" using q by (simp add: holds_packets_def)
    with one have "seg b t (cs @ [c]) (h + ?n)" by (auto simp: seg_append)
    with True q r m show ?thesis by (auto simp: holds_packets_def room_def)
  next
    case False
    with q obtain xs ys z where w: "cs = xs @ ys" "seg b t xs z" "z + 4 \<le> st + len" "b z = 0" "b (z + 1) = 4" "seg b st ys h"
      by (auto simp: holds_packets_def wrapped_def)
    from w(6) one have "seg b st (ys @ [c]) (h + ?n)" by (auto simp: seg_append)
    with w have "wrapped b st len t (h + ?n) (cs @ [c])" by (auto simp: wrapped_def)
    moreover have "h + ?n < t" "t < st + len"
      using r False q by (auto simp: room_def holds_packets_def dest: wrapped_tail)
    ultimately show ?thesis using q m by (simp add: holds_packets_def)
  qed
qed

lemma holds_rewind:
  assumes q: "holds_packets b st len t h cs" and th: "st < t" "t \<le> h" and z: "b h = 0" "b (h + 1) = 4" "h + 4 \<le> st + len"
  shows "holds_packets b st len t st cs"
proof -
  have "seg b t cs h" using q th by (simp add: holds_packets_def)
  moreover have "seg b st [] st" by simp
  ultimately have "wrapped b st len t st cs" unfolding wrapped_def using z by (metis append_Nil2)
  with th q show ?thesis by (auto simp: holds_packets_def)
qed

text \<open>A REWIND header fits wherever the writer can stand.\<close>

lemma holds_header_fits:
  assumes "holds_packets b st len t h cs" "len mod 4 = 0"
  shows "h + 4 \<le> st + len"
proof -
  obtain k where k: "h = st + k" "k mod 4 = 0" "k < len"
    using assms(1) by (auto simp: holds_packets_def intro: that [of "h - st"])
  with assms(2) have "4 dvd len - k" by (auto intro: dvd_diff_nat)
  then show ?thesis using k by (auto dest: dvd_imp_le)
qed

end
