(* ===== verification/Tsec_Comms.thy ===== *)
theory Tsec_Comms
  imports Tsec_Queue
begin

text \<open>
  Communication with the security engine, \<open>drivers/video/tegra/tsec/tsec_comms/tsec_comms.c\<close> with
  the structures of \<open>tsec_comms_cmds.h\<close>, the registers of \<open>tsec_comms_regs.h\<close> and the interrupt
  threads of \<open>tsec_boot.c\<close>: a command queue and a message queue in a memory carveout shared with the
  firmware, each with a head and a tail register, the callback table, the shutdown and reboot of the
  engine, and the pages of the carveout.

  The firmware runs beside the driver: \<open>fw\<close> is what it does to the registers and the shared memory
  before each register access and during each delay. A run that blocks for ever is \<open>None\<close>; an access
  outside a buffer, or a length that wraps, sets the flag \<open>undef\<close>, after which the state means nothing.
\<close>

section \<open>Model\<close>

abbreviation (input) ENODEV :: int where "ENODEV \<equiv> 19"
abbreviation (input) EOPNOTSUPP :: int where "EOPNOTSUPP \<equiv> 95"

abbreviation (input) TSEC_QUEUE_POLL_COUNT :: nat where "TSEC_QUEUE_POLL_COUNT \<equiv> 2000"
abbreviation (input) TSEC_BOOT_POLL_COUNT :: nat where "TSEC_BOOT_POLL_COUNT \<equiv> 2000"
abbreviation (input) TSEC_CMD_QUEUE_PORT :: u32 where "TSEC_CMD_QUEUE_PORT \<equiv> 0"
abbreviation (input) TSEC_MSG_QUEUE_PORT :: u32 where "TSEC_MSG_QUEUE_PORT \<equiv> 0"
abbreviation (input) TSEC_QUEUE_OFFSET_MAGIC :: u32 where "TSEC_QUEUE_OFFSET_MAGIC \<equiv> 0x01000000"
abbreviation (input) TSEC_MAX_MSG_SIZE :: nat where "TSEC_MAX_MSG_SIZE \<equiv> 128"
abbreviation (input) TSEC_BOOT_FLAG_MAGIC :: u32 where "TSEC_BOOT_FLAG_MAGIC \<equiv> 0xA5A5A5A5"
abbreviation (input) RM_FLCN_QUEUE_HDR_SIZE :: nat where "RM_FLCN_QUEUE_HDR_SIZE \<equiv> 4"
abbreviation (input) RM_GSP_UNIT_INIT :: u8 where "RM_GSP_UNIT_INIT \<equiv> 2"
abbreviation (input) RM_GSP_UNIT_HDCP22WIRED :: u8 where "RM_GSP_UNIT_HDCP22WIRED \<equiv> 6"
abbreviation (input) RM_GSP_UNIT_END :: u8 where "RM_GSP_UNIT_END \<equiv> 0x11"
abbreviation (input) RM_FLCN_HDCP22_CMD_ID_GET_CONTEXT :: u8 where "RM_FLCN_HDCP22_CMD_ID_GET_CONTEXT \<equiv> 8"
abbreviation (input) RM_FLCN_HDCP22_MSG_ID_GET_CONTEXT :: u8 where "RM_FLCN_HDCP22_MSG_ID_GET_CONTEXT \<equiv> 8"
abbreviation (input) CMDQ_SIZE :: u32 where "CMDQ_SIZE \<equiv> 0x80"

definition tsec_cmdq_head_r :: "u32 \<Rightarrow> u32" where "tsec_cmdq_head_r r = 0x1c00 + r * 8"
definition tsec_cmdq_tail_r :: "u32 \<Rightarrow> u32" where "tsec_cmdq_tail_r r = 0x1c04 + r * 8"
definition tsec_msgq_head_r :: "u32 \<Rightarrow> u32" where "tsec_msgq_head_r r = 0x1c80 + r * 8"
definition tsec_msgq_tail_r :: "u32 \<Rightarrow> u32" where "tsec_msgq_tail_r r = 0x1c84 + r * 8"

datatype tsec_state = TSEC_STATE_BOOTED | TSEC_STATE_SHUTDOWN | TSEC_STATE_BOOTED_WITH_CONTEXT

text \<open>The callbacks of clients are numbered; the driver has one of its own.\<close>

datatype callback_func = Client nat | Signal_shutdown_done

record callback_t =
  cb_func :: "callback_func option"
  cb_ctx :: nat

datatype tsec_event =
    Called callback_func nat flcn_packet
  | Ext_shutdown nat
  | Power_on
  | Power_off

record tsec_hw =
  regs :: "u32 \<Rightarrow> u32"
  gscco :: mem

record tsec =
  hw :: tsec_hw
  clock :: nat
  events :: "tsec_event list"
  work_pending :: bool
  undef :: bool
  ipc_gscco_base :: u64
  ipc_gscco_size :: u64
  ipc_gscco_page_base :: u64
  ipc_gscco_page_size :: u64
  ipc_gscco_page_count :: u64
  ipc_gscco_free_page_mask :: u64
  tsec_context_va :: u64
  tsec_context_gscco_offset :: u32
  tsec_state :: tsec_state
  init_msg_rcvd :: bool
  init_tsec_msg :: flcn_packet
  comms_initialised :: bool
  ext_fw_shutdown_cb :: "nat option"
  callbacks :: "nat \<Rightarrow> callback_t"
  shutdown_sema :: nat
  msgq_start :: u32
  cmdq_start :: u32

text \<open>
  Around the driver: the firmware, the interrupts it raises and the signals that reach a waiting
  caller, by the time at which they happen, the results of the external shutdown callbacks, and what
  an uninitialised buffer on the stack holds.
\<close>

record tsec_plat =
  fw :: "nat \<Rightarrow> tsec_hw \<Rightarrow> tsec_hw"
  irq_at :: "nat \<Rightarrow> bool"
  signal_at :: "nat \<Rightarrow> bool"
  ext_shutdown :: "nat \<Rightarrow> nat \<Rightarrow> int"
  stack_bytes :: flcn_packet

definition tick :: "tsec_plat \<Rightarrow> tsec \<Rightarrow> tsec" where
  "tick p w = w\<lparr>hw := fw p (clock w) (hw w), clock := Suc (clock w)\<rparr>"

definition tsec_plat_reg_read :: "tsec_plat \<Rightarrow> u32 \<Rightarrow> tsec \<Rightarrow> u32 \<times> tsec" where
  "tsec_plat_reg_read p r w = (let w = tick p w in (regs (hw w) r, w))"

definition tsec_plat_reg_write :: "tsec_plat \<Rightarrow> u32 \<Rightarrow> u32 \<Rightarrow> tsec \<Rightarrow> tsec" where
  "tsec_plat_reg_write p r v w =
     (let w = tick p w in w\<lparr>hw := (hw w)\<lparr>regs := (regs (hw w))(r := v)\<rparr>\<rparr>)"

definition tsec_plat_udelay :: "tsec_plat \<Rightarrow> tsec \<Rightarrow> tsec" where
  "tsec_plat_udelay p w = tick p w"

definition log_event :: "tsec_event \<Rightarrow> tsec \<Rightarrow> tsec" where
  "log_event e w = w\<lparr>events := events w @ [e]\<rparr>"

subsection \<open>Callbacks\<close>

definition signal_shutdown_done :: "tsec \<Rightarrow> tsec" where
  "signal_shutdown_done w = w\<lparr>shutdown_sema := Suc (shutdown_sema w)\<rparr>"

definition call_cb :: "callback_func \<Rightarrow> nat \<Rightarrow> flcn_packet \<Rightarrow> tsec \<Rightarrow> tsec" where
  "call_cb f ctx msg w =
     (let w = log_event (Called f ctx msg) w
      in case f of Client _ \<Rightarrow> w | Signal_shutdown_done \<Rightarrow> signal_shutdown_done w)"

definition call_opt :: "callback_t \<Rightarrow> flcn_packet \<Rightarrow> tsec \<Rightarrow> tsec" where
  "call_opt c msg w = (case cb_func c of None \<Rightarrow> w | Some f \<Rightarrow> call_cb f (cb_ctx c) msg w)"

definition no_cb :: callback_t where "no_cb = \<lparr>cb_func = None, cb_ctx = 0\<rparr>"

definition set_cb :: "u8 \<Rightarrow> callback_t \<Rightarrow> tsec \<Rightarrow> tsec" where
  "set_cb u c w = w\<lparr>callbacks := (callbacks w)(unat u := c)\<rparr>"

definition get_cb :: "u8 \<Rightarrow> tsec \<Rightarrow> callback_t" where
  "get_cb u w = callbacks w (unat u)"

subsection \<open>The shared memory\<close>

definition ipc_txfr :: "u32 \<Rightarrow> u8 list option \<Rightarrow> u32 \<Rightarrow> bool \<Rightarrow> tsec \<Rightarrow> int \<times> u8 list option \<times> tsec" where
  "ipc_txfr offset buff sz read_msg w =
     (if offset < TSEC_QUEUE_OFFSET_MAGIC then (- EINVAL, buff, w)
      else let offset = offset - TSEC_QUEUE_OFFSET_MAGIC
      in if ipc_gscco_base w = 0 \<or> ipc_gscco_size w = 0 then (- EINVAL, buff, w)
         else case buff of
           None \<Rightarrow> (- EINVAL, buff, w)
         | Some b \<Rightarrow>
             if sz = 0 then (- EINVAL, buff, w)
             else if ipc_gscco_size w < ucast offset \<or> ipc_gscco_size w < ucast (offset + sz)
             then (- EINVAL, buff, w)
             else let gscCo = unat (ipc_gscco_base w + ucast offset);
                      w = w\<lparr>undef := undef w \<or> length b < unat sz\<rparr>
               in if read_msg
                  then (0, Some (load gscCo (unat sz) (gscco (hw w)) @ drop (unat sz) b), w)
                  else (0, buff, w\<lparr>hw := (hw w)\<lparr>gscco := store gscCo (take (unat sz) b) (gscco (hw w))\<rparr>\<rparr>))"

definition ipc_write :: "u32 \<Rightarrow> u8 list \<Rightarrow> u32 \<Rightarrow> tsec \<Rightarrow> int \<times> tsec" where
  "ipc_write head src n w = (case ipc_txfr head (Some src) n False w of (r, _, w) \<Rightarrow> (r, w))"

definition ipc_read :: "u32 \<Rightarrow> u8 list \<Rightarrow> u32 \<Rightarrow> tsec \<Rightarrow> int \<times> u8 list \<times> tsec" where
  "ipc_read tail dst n w = (case ipc_txfr tail (Some dst) n True w of (r, b, w) \<Rightarrow> (r, the b, w))"

text \<open>
  The first words of the carveout are the structure \<open>TSEC_BOOT_INFO\<close>: boot flag, boot with context
  flag, offset of the context.
\<close>

definition tsec_get_boot_flag :: "tsec \<Rightarrow> u32" where
  "tsec_get_boot_flag w =
     (if ipc_gscco_base w = 0 \<or> ipc_gscco_size w = 0 then 0 else readl (gscco (hw w)) (unat (ipc_gscco_base w)))"

definition boot_info_write :: "nat \<Rightarrow> u32 \<Rightarrow> tsec \<Rightarrow> tsec" where
  "boot_info_write field v w =
     w\<lparr>hw := (hw w)\<lparr>gscco := writel v (unat (ipc_gscco_base w) + 4 * field) (gscco (hw w))\<rparr>\<rparr>"

definition tsec_reset_boot_flag :: "tsec \<Rightarrow> tsec" where
  "tsec_reset_boot_flag w =
     (if ipc_gscco_base w = 0 \<or> ipc_gscco_size w = 0 then w else boot_info_write 0 0 w)"

definition tsec_comms_poweron_with_context :: "tsec \<Rightarrow> tsec" where
  "tsec_comms_poweron_with_context w =
     (let w = boot_info_write 1 1 w;
          w = boot_info_write 2 (tsec_context_gscco_offset w) w;
          w = w\<lparr>tsec_state := TSEC_STATE_BOOTED_WITH_CONTEXT\<rparr>
      in log_event Power_on w)"

definition tsec_comms_poweron_with_context_done :: "tsec \<Rightarrow> tsec" where
  "tsec_comms_poweron_with_context_done w = boot_info_write 2 0 (boot_info_write 1 0 w)"

definition tsec_comms_process_getctxt_msg :: "tsec \<Rightarrow> tsec" where
  "tsec_comms_process_getctxt_msg w = log_event Power_off (w\<lparr>tsec_state := TSEC_STATE_SHUTDOWN\<rparr>)"

subsection \<open>Pages of the carveout\<close>

text \<open>The offset is written through a pointer that may be null; \<open>off\<close> is what it points to.\<close>

definition tsec_comms_get_gscco_page :: "u32 \<Rightarrow> u32 option \<Rightarrow> tsec \<Rightarrow> u64 \<times> u32 option" where
  "tsec_comms_get_gscco_page page_number off w =
     (if \<not> comms_initialised w then (0, off)
      else if ipc_gscco_page_base w = 0 \<or> ipc_gscco_page_count w \<le> ucast page_number then (0, off)
      else (ipc_gscco_page_base w + ucast page_number * ipc_gscco_page_size w,
            map_option (\<lambda>_. ucast ((ipc_gscco_page_base w - ipc_gscco_base w)
              + ucast page_number * ipc_gscco_page_size w)) off))"

text \<open>The search for a free page ends because the mask is not zero; 64 steps are enough.\<close>

fun find_page :: "nat \<Rightarrow> u64 \<Rightarrow> u64 \<Rightarrow> u32 \<Rightarrow> u64 \<times> u32" where
  "find_page 0 free m page_number = (m, page_number)"
| "find_page (Suc n) free m page_number =
     (if free AND m = 0 then find_page n free (push_bit 1 m) (page_number + 1) else (m, page_number))"

definition tsec_comms_alloc_mem_from_gscco :: "u32 \<Rightarrow> u32 option \<Rightarrow> tsec \<Rightarrow> u64 \<times> u32 option \<times> tsec" where
  "tsec_comms_alloc_mem_from_gscco size_in_bytes off w =
     (if \<not> comms_initialised w then (0, off, w)
      else if ipc_gscco_page_size w < ucast size_in_bytes then (0, off, w)
      else if ipc_gscco_free_page_mask w = 0 then (0, off, w)
      else let (m, page_number) = find_page 64 (ipc_gscco_free_page_mask w) 1 0;
               (page_va, off) = tsec_comms_get_gscco_page page_number off w;
               w = (if page_va \<noteq> 0 then w\<lparr>ipc_gscco_free_page_mask := ipc_gscco_free_page_mask w AND NOT m\<rparr>
                    else w)
           in (page_va, off, w))"

text \<open>
  The page number is computed before the test that the library is initialised, with a page size of
  zero until then: a division by zero. A shift by 64 or more is undefined too.
\<close>

definition tsec_comms_free_gscco_mem :: "u64 \<Rightarrow> tsec \<Rightarrow> tsec" where
  "tsec_comms_free_gscco_mem page_addr w =
     (let start = ipc_gscco_page_base w;
          stop = ipc_gscco_page_base w + ipc_gscco_page_count w * ipc_gscco_page_size w;
          page_number = (page_addr - start) div ipc_gscco_page_size w;
          w = w\<lparr>undef := undef w \<or> ipc_gscco_page_size w = 0\<rparr>
      in if \<not> comms_initialised w then w
         else if start \<le> page_addr \<and> page_addr < stop \<and> page_addr mod ipc_gscco_page_size w = 0
         then w\<lparr>ipc_gscco_free_page_mask := ipc_gscco_free_page_mask w OR push_bit (unat page_number) 1,
                undef := undef w \<or> 64 \<le> unat page_number\<rparr>
         else w)"

definition tsec_comms_alloc_ctxt_memory :: "tsec \<Rightarrow> tsec" where
  "tsec_comms_alloc_ctxt_memory w =
     (let (va, off, w) = tsec_comms_alloc_mem_from_gscco (ucast (ipc_gscco_page_size w))
                           (Some (tsec_context_gscco_offset w)) w
      in w\<lparr>tsec_context_va := va, tsec_context_gscco_offset := the off\<rparr>)"

definition tsec_comms_initialize :: "u64 \<Rightarrow> u64 \<Rightarrow> tsec \<Rightarrow> tsec" where
  "tsec_comms_initialize ipc_co_va ipc_co_va_size w =
     (if comms_initialised w then w
      else let w = w\<lparr>ipc_gscco_base := ipc_co_va, ipc_gscco_size := ipc_co_va_size,
                     ipc_gscco_page_size := 64 * 1024\<rparr>;
               w = w\<lparr>ipc_gscco_page_count :=
                       (if ipc_gscco_page_size w < ipc_gscco_size w
                        then (ipc_gscco_size w - ipc_gscco_page_size w) div ipc_gscco_page_size w else 0)\<rparr>;
               w = w\<lparr>ipc_gscco_page_base :=
                       (if ipc_gscco_page_count w \<noteq> 0 then ipc_gscco_base w + ipc_gscco_page_size w else 0),
                     ipc_gscco_free_page_mask := NOT 0\<rparr>;
               w = tsec_comms_alloc_ctxt_memory w
           in w\<lparr>shutdown_sema := 0, tsec_state := TSEC_STATE_BOOTED, comms_initialised := True\<rparr>)"

subsection \<open>Commands\<close>

text \<open>A command is a pointer, which may be null, to a buffer.\<close>

definition validate_cmd :: "flcn_packet option \<Rightarrow> int" where
  "validate_cmd cmd =
     (case cmd of None \<Rightarrow> - EINVAL
      | Some c \<Rightarrow> if unat (hdr_size c) < RM_FLCN_QUEUE_HDR_SIZE \<or> RM_GSP_UNIT_END \<le> unitId c
                  then - EINVAL else 0)"

fun poll_start :: "tsec_plat \<Rightarrow> u32 \<Rightarrow> nat \<Rightarrow> u32 \<Rightarrow> tsec \<Rightarrow> u32 \<times> tsec" where
  "poll_start p r 0 start w = (start, w)"
| "poll_start p r (Suc n) start w =
     (if start \<noteq> 0 then (start, w)
      else let (start, w) = tsec_plat_reg_read p r w
           in poll_start p r n start (if start = 0 then tsec_plat_udelay p w else w))"

datatype space = Enqueue | Rewind | Wraps

partial_function (option) check_space :: "tsec_plat \<Rightarrow> u32 \<Rightarrow> u32 \<Rightarrow> tsec \<Rightarrow> (space \<times> tsec) option" where
  "check_space p head n w =
     (let (tail, w) = tsec_plat_reg_read p (tsec_cmdq_tail_r TSEC_CMD_QUEUE_PORT) w
      in if - 1 - head < n then Some (Wraps, w)
         else if head < tail then
           (if head + n < tail then Some (Enqueue, w) else check_space p head n (tsec_plat_udelay p w))
         else if head + n < cmdq_start w + CMDQ_SIZE then Some (Enqueue, w)
         else if cmdq_start w + n < tail then Some (Rewind, w)
         else check_space p head n (tsec_plat_udelay p w))"

definition rewind_hdr :: flcn_packet where "rewind_hdr = [RM_GSP_UNIT_REWIND, 4, 0, 0]"

definition send_rewind :: "tsec_plat \<Rightarrow> u32 \<Rightarrow> tsec \<Rightarrow> int \<times> u32 \<times> tsec" where
  "send_rewind p head w =
     (let (r, w) = ipc_write head rewind_hdr 4 w
      in if r \<noteq> 0 then (- EINVAL, head, w)
         else (0, cmdq_start w, tsec_plat_reg_write p (tsec_cmdq_head_r TSEC_CMD_QUEUE_PORT) (cmdq_start w) w))"

definition enqueue_cmd :: "tsec_plat \<Rightarrow> flcn_packet \<Rightarrow> u32 \<Rightarrow> u32 \<Rightarrow> callback_t \<Rightarrow> tsec \<Rightarrow> int \<times> tsec" where
  "enqueue_cmd p c n head cb w =
     (let w = set_cb (unitId c) cb w;
          (r, w) = ipc_write head c (ucast (hdr_size c)) w
      in if r \<noteq> 0 then (- EINVAL, set_cb (unitId c) no_cb w)
         else (0, tsec_plat_reg_write p (tsec_cmdq_head_r TSEC_CMD_QUEUE_PORT) (head + n) w))"

definition place_cmd :: "tsec_plat \<Rightarrow> flcn_packet \<Rightarrow> u32 \<Rightarrow> u32 \<Rightarrow> callback_t \<Rightarrow> space \<Rightarrow> tsec \<Rightarrow> int \<times> tsec" where
  "place_cmd p c n head cb sp w =
     (case sp of
        Wraps \<Rightarrow> (- EINVAL, w)
      | Enqueue \<Rightarrow> enqueue_cmd p c n head cb w
      | Rewind \<Rightarrow> (case send_rewind p head w of
          (r, head, w) \<Rightarrow> if r \<noteq> 0 then (r, w) else enqueue_cmd p c n head cb w))"

definition queue_cmd :: "tsec_plat \<Rightarrow> flcn_packet \<Rightarrow> callback_t \<Rightarrow> tsec \<Rightarrow> (int \<times> tsec) option" where
  "queue_cmd p c cb w =
     (if cb_func (get_cb (unitId c) w) \<noteq> None then Some (- EINVAL, w)
      else let n = of_nat (align4 (hdr_size c));
               (head, w) = tsec_plat_reg_read p (tsec_cmdq_head_r TSEC_CMD_QUEUE_PORT) w
      in do {
        (sp, w) \<leftarrow> check_space p head n w;
        Some (place_cmd p c n head cb sp w)
      })"

text \<open>An engine that was shut down is booted again, after the external firmware has been stopped.\<close>

definition reboot :: "tsec_plat \<Rightarrow> tsec \<Rightarrow> int \<times> tsec" where
  "reboot p w =
     (let (status, w) = (case ext_fw_shutdown_cb w of None \<Rightarrow> (0, w)
                          | Some f \<Rightarrow> (ext_shutdown p f (clock w), log_event (Ext_shutdown f) w))
      in if status \<noteq> 0 then (status, w)
         else (0, (tsec_comms_poweron_with_context w)\<lparr>cmdq_start := 0\<rparr>))"

definition tsec_comms_send_cmd ::
  "tsec_plat \<Rightarrow> flcn_packet option \<Rightarrow> u32 \<Rightarrow> callback_t \<Rightarrow> tsec \<Rightarrow> (int \<times> tsec) option" where
  "tsec_comms_send_cmd p cmd queue_id cb w =
     (if \<not> comms_initialised w then Some (- EOPNOTSUPP, w)
      else if \<not> init_msg_rcvd w then Some (- ENODEV, w)
      else if queue_id \<noteq> TSEC_CMD_QUEUE_PORT then Some (- EINVAL, w)
      else let (status, w) = (if tsec_state w = TSEC_STATE_SHUTDOWN then reboot p w else (0, w))
      in if status \<noteq> 0 then Some (status, w)
         else let (start, w) = poll_start p (tsec_cmdq_tail_r TSEC_CMD_QUEUE_PORT) TSEC_QUEUE_POLL_COUNT (cmdq_start w) w;
                  w = w\<lparr>cmdq_start := start\<rparr>
         in if start = 0 then Some (- ENODEV, w)
            else if validate_cmd cmd \<noteq> 0 then Some (- EINVAL, w)
            else queue_cmd p (the cmd) cb w)"

subsection \<open>Messages\<close>

fun poll_msgq :: "tsec_plat \<Rightarrow> nat \<Rightarrow> u32 \<Rightarrow> u32 \<Rightarrow> tsec \<Rightarrow> u32 \<times> u32 \<times> tsec" where
  "poll_msgq p 0 tail head w = (tail, head, w)"
| "poll_msgq p (Suc n) tail head w =
     (let (tail, w) = tsec_plat_reg_read p (tsec_msgq_tail_r TSEC_MSG_QUEUE_PORT) w;
          (head, w) = tsec_plat_reg_read p (tsec_msgq_head_r TSEC_MSG_QUEUE_PORT) w
      in if tail \<noteq> head then (tail, head, w)
         else poll_msgq p n tail head (tsec_plat_udelay p w))"

fun poll_boot_flag :: "tsec_plat \<Rightarrow> nat \<Rightarrow> tsec \<Rightarrow> bool \<times> tsec" where
  "poll_boot_flag p 0 w = (False, w)"
| "poll_boot_flag p (Suc n) w =
     (if tsec_get_boot_flag w = TSEC_BOOT_FLAG_MAGIC then (True, w)
      else poll_boot_flag p n (tsec_plat_udelay p w))"

text \<open>
  The header is copied to the stack buffer, then as much body as the header says; neither result is
  looked at.
\<close>

definition read_msg :: "u32 \<Rightarrow> flcn_packet \<Rightarrow> tsec \<Rightarrow> flcn_packet \<times> tsec" where
  "read_msg tail msg w =
     (let (_, msg, w) = ipc_read tail msg 4 w
      in if unat (hdr_size msg) > RM_FLCN_QUEUE_HDR_SIZE
         then let (_, body, w) = ipc_read (tail + 4) (drop 4 msg) (ucast (hdr_size msg) - 4) w
              in (take 4 msg @ body, w)
         else (msg, w))"

text \<open>
  The INIT message is cached and announced, the first time through its callback; \<open>c\<close> is the pair of
  callback variables of \<open>tsec_comms_drain_msg\<close>, which no message resets.
\<close>

definition handle_init :: "tsec_plat \<Rightarrow> bool \<Rightarrow> flcn_packet \<Rightarrow> callback_t \<Rightarrow> tsec \<Rightarrow> callback_t \<times> tsec" where
  "handle_init p invoke_cb msg c w =
     (if msg ! 5 < 2 then (c, w)
      else let (booted, w) = poll_boot_flag p TSEC_BOOT_POLL_COUNT w
      in if \<not> booted then (c, w)
         else let w = tsec_reset_boot_flag w;
                  n = unat (hdr_size msg);
                  w = w\<lparr>undef := undef w \<or> n < RM_FLCN_QUEUE_HDR_SIZE \<or> TSEC_MAX_MSG_SIZE < n,
                        init_tsec_msg := take n msg @ drop n (init_tsec_msg w),
                        init_msg_rcvd := True\<rparr>;
                  (c, w) = (if invoke_cb \<and> tsec_state w = TSEC_STATE_BOOTED
                            then (get_cb RM_GSP_UNIT_INIT w, set_cb RM_GSP_UNIT_INIT no_cb w) else (c, w));
                  w = (if invoke_cb then call_opt c msg w else w);
                  w = (if tsec_state w = TSEC_STATE_BOOTED_WITH_CONTEXT
                       then tsec_comms_poweron_with_context_done w else w)
              in (c, w))"

definition handle_unit :: "bool \<Rightarrow> flcn_packet \<Rightarrow> callback_t \<Rightarrow> tsec \<Rightarrow> bool \<times> callback_t \<times> tsec" where
  "handle_unit invoke_cb msg c w =
     (let shutdown = (unitId msg = RM_GSP_UNIT_HDCP22WIRED \<and> msg ! 4 = RM_FLCN_HDCP22_MSG_ID_GET_CONTEXT)
      in if invoke_cb
         then let c = get_cb (unitId msg) w; w = set_cb (unitId msg) no_cb w
              in (shutdown, c, if shutdown then w else call_opt c msg w)
         else (shutdown, c, w))"

definition handle_msg :: "tsec_plat \<Rightarrow> bool \<Rightarrow> flcn_packet \<Rightarrow> callback_t \<Rightarrow> tsec \<Rightarrow> bool \<times> callback_t \<times> tsec" where
  "handle_msg p invoke_cb msg c w =
     (if unitId msg = RM_GSP_UNIT_INIT then (False, handle_init p invoke_cb msg c w)
      else if unitId msg < RM_GSP_UNIT_END then handle_unit invoke_cb msg c w
      else (False, c, w))"

partial_function (option) drain_loop ::
  "tsec_plat \<Rightarrow> bool \<Rightarrow> u32 \<Rightarrow> u32 \<Rightarrow> flcn_packet \<Rightarrow> callback_t \<Rightarrow> tsec \<Rightarrow> tsec option" where
  "drain_loop p invoke_cb tail head msg c w =
     (if tail = head then Some w
      else let (msg, w) = read_msg tail msg w
      in if unitId msg = RM_GSP_UNIT_REWIND
         then let tail = msgq_start w;
                  w = tsec_plat_reg_write p (tsec_msgq_tail_r TSEC_MSG_QUEUE_PORT) tail w;
                  (head, w) = tsec_plat_reg_read p (tsec_msgq_head_r TSEC_MSG_QUEUE_PORT) w
              in drain_loop p invoke_cb tail head msg c w
         else let (shutdown, c, w) = handle_msg p invoke_cb msg c w;
                  tail = tail + of_nat (align4 (hdr_size msg));
                  (head, w) = tsec_plat_reg_read p (tsec_msgq_head_r TSEC_MSG_QUEUE_PORT) w;
                  w = tsec_plat_reg_write p (tsec_msgq_tail_r TSEC_MSG_QUEUE_PORT) tail w
              in if shutdown then Some (call_opt c msg (tsec_comms_process_getctxt_msg w))
                 else drain_loop p invoke_cb tail head msg c w)"

definition tsec_comms_drain_msg :: "tsec_plat \<Rightarrow> bool \<Rightarrow> tsec \<Rightarrow> tsec option" where
  "tsec_comms_drain_msg p invoke_cb w =
     (if \<not> comms_initialised w then Some w
      else let start = (if tsec_state w = TSEC_STATE_BOOTED_WITH_CONTEXT then 0 else msgq_start w);
               (start, w) = poll_start p (tsec_msgq_tail_r TSEC_MSG_QUEUE_PORT) TSEC_QUEUE_POLL_COUNT start w;
               w = w\<lparr>msgq_start := start\<rparr>;
               (tail, head, w) = poll_msgq p TSEC_QUEUE_POLL_COUNT 0 0 w
           in if head = 0 \<or> tail = 0 \<or> tail = head then Some w
              else drain_loop p invoke_cb tail head (stack_bytes p) no_cb w)"

text \<open>
  The interrupt of the engine: the top half acknowledges it and, for SWGEN0, masks it and wakes a
  thread that drains the messages and unmasks it; SWGEN1 is masked for good.
\<close>

abbreviation (input) tsec_thi_int_status_r :: u32 where "tsec_thi_int_status_r \<equiv> 0x78"
abbreviation (input) tsec_irqsclr_r :: u32 where "tsec_irqsclr_r \<equiv> 0x1004"
abbreviation (input) tsec_irqstat_r :: u32 where "tsec_irqstat_r \<equiv> 0x1008"
abbreviation (input) tsec_riscv_irqmset_r :: u32 where "tsec_riscv_irqmset_r \<equiv> 0x2520"
abbreviation (input) tsec_riscv_irqmclr_r :: u32 where "tsec_riscv_irqmclr_r \<equiv> 0x2524"
abbreviation (input) swgen0 :: u32 where "swgen0 \<equiv> 0x40"
abbreviation (input) swgen1 :: u32 where "swgen1 \<equiv> 0x80"

definition tsec_irq_top_half :: "tsec_plat \<Rightarrow> tsec \<Rightarrow> bool \<times> tsec" where
  "tsec_irq_top_half p w =
     (let (irq_status, w) = tsec_plat_reg_read p tsec_irqstat_r w;
          w = tsec_plat_reg_write p tsec_thi_int_status_r 1 w;
          wake = (irq_status AND swgen0 \<noteq> 0);
          w = (if wake then tsec_plat_reg_write p tsec_riscv_irqmclr_r swgen0
                              (tsec_plat_reg_write p tsec_irqsclr_r swgen0 w) else w);
          w = (if irq_status AND swgen1 \<noteq> 0 then tsec_plat_reg_write p tsec_riscv_irqmclr_r swgen1 w else w)
      in (wake, w))"

definition tsec_irq_bottom_half :: "tsec_plat \<Rightarrow> tsec \<Rightarrow> tsec option" where
  "tsec_irq_bottom_half p w =
     map_option (tsec_plat_reg_write p tsec_riscv_irqmset_r swgen0) (tsec_comms_drain_msg p True w)"

definition tsec_irq :: "tsec_plat \<Rightarrow> tsec \<Rightarrow> tsec option" where
  "tsec_irq p w = (let (wake, w) = tsec_irq_top_half p w in if wake then tsec_irq_bottom_half p w else Some w)"

subsection \<open>Shutdown and the callback of the INIT message\<close>

definition is_cmd_pending :: "tsec \<Rightarrow> bool" where
  "is_cmd_pending w = list_ex (\<lambda>u. cb_func (callbacks w u) \<noteq> None) [0..<unat RM_GSP_UNIT_END]"

definition le32 :: "u32 \<Rightarrow> u8 list" where
  "le32 v = [ucast v, ucast (drop_bit 8 v), ucast (drop_bit 16 v), ucast (drop_bit 24 v)]"

text \<open>
  The fields \<open>ctrlFlags\<close>, \<open>seqNumId\<close> and \<open>reserved\<close> of the structure on the stack are never set.
\<close>

definition getctxt_cmd :: "tsec_plat \<Rightarrow> tsec \<Rightarrow> flcn_packet" where
  "getctxt_cmd p w =
     [RM_GSP_UNIT_HDCP22WIRED, 20, stack_bytes p ! 2, stack_bytes p ! 3,
      RM_FLCN_HDCP22_CMD_ID_GET_CONTEXT, stack_bytes p ! 5, stack_bytes p ! 6, stack_bytes p ! 7]
     @ le32 (tsec_context_gscco_offset w) @ le32 0 @ le32 (ucast (ipc_gscco_page_size w))"

definition tsec_comms_send_getctxt_cmd :: "tsec_plat \<Rightarrow> callback_t \<Rightarrow> tsec \<Rightarrow> (int \<times> tsec) option" where
  "tsec_comms_send_getctxt_cmd p cb w = tsec_comms_send_cmd p (Some (getctxt_cmd p w)) 0 cb w"

text \<open>\<open>down_interruptible\<close>: sleep until the semaphore is up or a signal arrives; interrupts are served.\<close>

partial_function (option) down_shutdown_sema :: "tsec_plat \<Rightarrow> tsec \<Rightarrow> (bool \<times> tsec) option" where
  "down_shutdown_sema p w =
     (if shutdown_sema w \<noteq> 0 then Some (False, w\<lparr>shutdown_sema := shutdown_sema w - 1\<rparr>)
      else if signal_at p (clock w) then Some (True, tick p w)
      else if irq_at p (clock w) then Option.bind (tsec_irq p (tick p w)) (down_shutdown_sema p)
      else down_shutdown_sema p (tick p w))"

definition tsec_comms_shutdown :: "tsec_plat \<Rightarrow> tsec \<Rightarrow> (int \<times> tsec) option" where
  "tsec_comms_shutdown p w =
     (if \<not> comms_initialised w then Some (- EOPNOTSUPP, w)
      else if is_cmd_pending w then Some (- EINVAL, w)
      else do {
        (status, w) \<leftarrow> tsec_comms_send_getctxt_cmd p \<lparr>cb_func = Some Signal_shutdown_done, cb_ctx = 0\<rparr> w;
        (interrupted, w) \<leftarrow> down_shutdown_sema p w;
        Some (if interrupted then - EINTR else status, w)
      })"

definition tsec_comms_register_shutdown_callback :: "nat option \<Rightarrow> tsec \<Rightarrow> tsec" where
  "tsec_comms_register_shutdown_callback func w =
     (if \<not> comms_initialised w then w else w\<lparr>ext_fw_shutdown_cb := func\<rparr>)"

definition invoke_init_cb :: "tsec \<Rightarrow> tsec" where
  "invoke_init_cb w =
     (let c = get_cb RM_GSP_UNIT_INIT w
      in call_opt c (init_tsec_msg w) (set_cb RM_GSP_UNIT_INIT no_cb w))"

text \<open>A work item that is queued already is not queued twice; \<open>invoke_init_cb\<close> is the only callback queued.\<close>

definition tsec_plat_queue_work :: "tsec \<Rightarrow> tsec" where
  "tsec_plat_queue_work w = w\<lparr>work_pending := True\<rparr>"

definition tsec_plat_work_handler :: "tsec \<Rightarrow> tsec" where
  "tsec_plat_work_handler w = (if work_pending w then invoke_init_cb (w\<lparr>work_pending := False\<rparr>) else w)"

definition tsec_comms_set_init_cb :: "tsec_plat \<Rightarrow> callback_t \<Rightarrow> tsec \<Rightarrow> (int \<times> tsec) option" where
  "tsec_comms_set_init_cb p c w =
     (if \<not> comms_initialised w then Some (- EOPNOTSUPP, w)
      else if cb_func (get_cb RM_GSP_UNIT_INIT w) \<noteq> None then Some (- EINVAL, w)
      else if cb_func c = None then Some (- EINVAL, w)
      else let w = set_cb RM_GSP_UNIT_INIT c w
      in if init_msg_rcvd w then Some (0, tsec_plat_queue_work w)
         else if tsec_get_boot_flag w = TSEC_BOOT_FLAG_MAGIC then do {
           w \<leftarrow> tsec_comms_drain_msg p False w;
           Some (0, tsec_plat_queue_work w)
         }
         else Some (0, w))"

definition tsec_comms_clear_init_cb :: "tsec \<Rightarrow> tsec" where
  "tsec_comms_clear_init_cb w = (if \<not> comms_initialised w then w else set_cb RM_GSP_UNIT_INIT no_cb w)"

section \<open>Shared lemmas\<close>

lemma regs_distinct [simp]:
  "tsec_cmdq_head_r 0 = 0x1c00" "tsec_cmdq_tail_r 0 = 0x1c04"
  "tsec_msgq_head_r 0 = 0x1c80" "tsec_msgq_tail_r 0 = 0x1c84"
  by (simp_all add: tsec_cmdq_head_r_def tsec_cmdq_tail_r_def tsec_msgq_head_r_def tsec_msgq_tail_r_def)

text \<open>What the firmware leaves alone, and what no operation of the firmware can change.\<close>

lemma tick_simps [simp]:
  "hw (tick p w) = fw p (clock w) (hw w)" "clock (tick p w) = Suc (clock w)" "events (tick p w) = events w"
  "work_pending (tick p w) = work_pending w" "undef (tick p w) = undef w"
  "ipc_gscco_base (tick p w) = ipc_gscco_base w" "ipc_gscco_size (tick p w) = ipc_gscco_size w"
  "ipc_gscco_page_base (tick p w) = ipc_gscco_page_base w" "ipc_gscco_page_size (tick p w) = ipc_gscco_page_size w"
  "ipc_gscco_page_count (tick p w) = ipc_gscco_page_count w"
  "ipc_gscco_free_page_mask (tick p w) = ipc_gscco_free_page_mask w"
  "tsec_context_va (tick p w) = tsec_context_va w"
  "tsec_context_gscco_offset (tick p w) = tsec_context_gscco_offset w"
  "tsec_state (tick p w) = tsec_state w" "init_msg_rcvd (tick p w) = init_msg_rcvd w"
  "init_tsec_msg (tick p w) = init_tsec_msg w" "comms_initialised (tick p w) = comms_initialised w"
  "ext_fw_shutdown_cb (tick p w) = ext_fw_shutdown_cb w" "callbacks (tick p w) = callbacks w"
  "shutdown_sema (tick p w) = shutdown_sema w" "msgq_start (tick p w) = msgq_start w"
  "cmdq_start (tick p w) = cmdq_start w"
  by (simp_all add: tick_def)

text \<open>A carveout of 128 KiB for the examples: the command queue at 0x100, the message queue at 0x200.\<close>

definition sample_hw :: "u32 \<Rightarrow> u32 \<Rightarrow> tsec_hw" where
  "sample_hw c m = \<lparr>regs = (\<lambda>_. 0)(0x1c00 := c, 0x1c04 := c, 0x1c80 := m, 0x1c84 := 0x1000200),
     gscco = store 0x80000200 [5, 4, 0, 0] (\<lambda>_. 0)\<rparr>"

definition sample_cbs :: "nat \<Rightarrow> callback_t" where
  "sample_cbs = (\<lambda>_. no_cb)(5 := \<lparr>cb_func = Some (Client 7), cb_ctx = 1\<rparr>)"

definition sample_tsec :: "tsec_hw \<Rightarrow> tsec" where
  "sample_tsec h = \<lparr>hw = h, clock = 0, events = [], work_pending = False, undef = False,
     ipc_gscco_base = 0x80000000, ipc_gscco_size = 0x20000, ipc_gscco_page_base = 0x80010000,
     ipc_gscco_page_size = 0x10000, ipc_gscco_page_count = 1, ipc_gscco_free_page_mask = - 1,
     tsec_context_va = 0, tsec_context_gscco_offset = 0, tsec_state = TSEC_STATE_BOOTED,
     init_msg_rcvd = True, init_tsec_msg = replicate 128 0, comms_initialised = True,
     ext_fw_shutdown_cb = None, callbacks = sample_cbs, shutdown_sema = 0,
     msgq_start = 0x1000200, cmdq_start = 0x1000100\<rparr>"

definition sample_plat :: "(nat \<Rightarrow> tsec_hw \<Rightarrow> tsec_hw) \<Rightarrow> tsec_plat" where
  "sample_plat f = \<lparr>fw = f, irq_at = (\<lambda>_. False), signal_at = (\<lambda>_. False), ext_shutdown = (\<lambda>_ _. 0),
     stack_bytes = replicate 128 0\<rparr>"

lemmas sample_defs = sample_hw_def sample_tsec_def sample_plat_def

end
