(* ===== verification/Tsec_Command.thy ===== *)
theory Tsec_Command
  imports Tsec_Comms
begin

text \<open>
  The command queue of the security engine: when \<open>tsec_comms_send_cmd\<close> finds room, and that it then
  appends exactly the command to the commands the firmware still has to read, while the firmware reads.
\<close>

subsection \<open>Room in the command queue\<close>

definition idle_on :: "tsec_plat \<Rightarrow> u32 \<Rightarrow> bool" where
  "idle_on p r \<longleftrightarrow> (\<forall>k h. regs (fw p k h) r = regs h r)"

definition no_room :: "u32 \<Rightarrow> u32 \<Rightarrow> u32 \<Rightarrow> u32 \<Rightarrow> bool" where
  "no_room start tail head n \<longleftrightarrow> \<not> - 1 - head < n \<and>
     (if head < tail then \<not> head + n < tail else \<not> head + n < start + CMDQ_SIZE \<and> \<not> start + n < tail)"

lemma check_space_stuck:
  assumes "check_space p head n w = Some y" "idle_on p (tsec_cmdq_tail_r 0)"
  shows "\<not> no_room (cmdq_start w) (regs (hw w) (tsec_cmdq_tail_r 0)) head n"
proof -
  let ?P = "\<lambda>p head n w. idle_on p (tsec_cmdq_tail_r 0) \<longrightarrow>
    \<not> no_room (cmdq_start w) (regs (hw w) (tsec_cmdq_tail_r 0)) head n"
  have "?P p head n w"
  proof (rule check_space.raw_induct [OF _ assms(1), where P = "\<lambda>p head n w y. ?P p head n w"], intro impI)
    fix f :: "tsec_plat \<Rightarrow> u32 \<Rightarrow> u32 \<Rightarrow> tsec \<Rightarrow> (space \<times> tsec) option" and p head n w y
    assume IH: "\<And>p head n w y. f p head n w = Some y \<Longrightarrow> ?P p head n w"
      and run: "(let (tail, w) = tsec_plat_reg_read p (tsec_cmdq_tail_r 0) w
        in if - 1 - head < n then Some (Wraps, w)
           else if head < tail then if head + n < tail then Some (Enqueue, w) else f p head n (tsec_plat_udelay p w)
           else if head + n < cmdq_start w + 128 then Some (Enqueue, w)
           else if cmdq_start w + n < tail then Some (Rewind, w)
           else f p head n (tsec_plat_udelay p w)) = Some y"
      and i: "idle_on p (tsec_cmdq_tail_r 0)"
    from i have "regs (hw (tsec_plat_udelay p (tick p w))) 0x1c04 = regs (hw w) 0x1c04"
      "regs (fw p (clock w) (hw w)) 0x1c04 = regs (hw w) 0x1c04"
      "cmdq_start (tsec_plat_udelay p (tick p w)) = cmdq_start w"
      by (simp_all add: idle_on_def tsec_plat_udelay_def)
    with IH [of p head n "tsec_plat_udelay p (tick p w)"] i run
    show "\<not> no_room (cmdq_start w) (regs (hw w) (tsec_cmdq_tail_r 0)) head n"
      by (auto simp: Let_def tsec_plat_reg_read_def no_room_def split: if_splits)
  qed
  with assms(2) show ?thesis by blast
qed

lemma check_space_room:
  assumes "idle_on p (tsec_cmdq_tail_r 0)" "\<not> no_room (cmdq_start w) (regs (hw w) (tsec_cmdq_tail_r 0)) head n"
  shows "check_space p head n w \<noteq> None"
proof -
  have "regs (fw p (clock w) (hw w)) 0x1c04 = regs (hw w) 0x1c04" using assms(1) by (simp add: idle_on_def)
  with assms(2) show ?thesis unfolding check_space.simps [of p head n w]
    by (cases "head < regs (hw w) 0x1c04") (auto simp: Let_def tsec_plat_reg_read_def no_room_def)
qed

lemma unat_add32: "unat (a :: u32) + unat b < 4294967296 \<Longrightarrow> unat (a + b) = unat a + unat b"
  by (simp add: unat_word_ariths)

lemma unat_rest32: "unat (- 1 - (h :: u32)) = 4294967295 - unat h"
proof -
  have m: "unat (- 1 :: u32) = 4294967295" by (simp add: unsigned_minus_1_eq_mask mask_eq_exp_minus_1)
  then show ?thesis using unat_less_size [of h] by (simp add: unat_sub_if' m)
qed

lemma unat_align4: "unat (of_nat (align4 s) :: u32) = align4 s"
  using align4_bounds(2) [of s] by (simp add: unat_of_nat)

lemma no_room_nat:
  assumes "unat start + 512 < 4294967296" "unat head \<le> unat start + 128" "unat n \<le> 256"
  shows "no_room start tail head n \<longleftrightarrow>
    (if unat head < unat tail then \<not> unat head + unat n < unat tail
     else \<not> unat head + unat n < unat start + 128 \<and> \<not> unat start + unat n < unat tail)"
proof -
  have "unat (head + n) = unat head + unat n" "unat (start + n) = unat start + unat n"
    "unat (start + 0x80) = unat start + 128"
    using assms by (simp_all add: unat_add32)
  moreover have "\<not> 4294967295 - unat head < unat n" using assms by simp
  ultimately show ?thesis by (simp add: no_room_def word_less_nat_alt unat_rest32)
qed

definition ready :: "tsec \<Rightarrow> bool" where
  "ready w \<longleftrightarrow> comms_initialised w \<and> init_msg_rcvd w \<and> tsec_state w \<noteq> TSEC_STATE_SHUTDOWN \<and> cmdq_start w \<noteq> 0"

lemma poll_start_done: "start \<noteq> 0 \<Longrightarrow> poll_start p r n start w = (start, w)"
  by (cases n) simp_all

lemma send_ready:
  "ready w \<Longrightarrow> tsec_comms_send_cmd p cmd queue_id cb w =
     (if queue_id \<noteq> 0 then Some (- EINVAL, w) else if validate_cmd cmd \<noteq> 0 then Some (- EINVAL, w)
      else queue_cmd p (the cmd) cb w)"
  by (simp add: ready_def tsec_comms_send_cmd_def poll_start_done)

lemma queue_cmd_returns:
  assumes "cb_func (get_cb (unitId c) w) = None"
  shows "queue_cmd p c cb w \<noteq> None \<longleftrightarrow>
    check_space p (regs (hw (tick p w)) 0x1c00) (of_nat (align4 (hdr_size c))) (tick p w) \<noteq> None"
  using assms by (auto simp: queue_cmd_def tsec_plat_reg_read_def Let_def bind_eq_None_conv
    split: Option.bind_split prod.splits space.splits)

lemma send_empty_returns:
  assumes "ready w" "idle_on p (tsec_cmdq_head_r 0)" "idle_on p (tsec_cmdq_tail_r 0)"
    "validate_cmd (Some c) = 0" "cb_func (get_cb (unitId c) w) = None"
    "unat (cmdq_start w) + 512 < 2 ^ 32" "d \<le> 124"
    "regs (hw w) (tsec_cmdq_head_r 0) = cmdq_start w + of_nat d"
    "regs (hw w) (tsec_cmdq_tail_r 0) = cmdq_start w + of_nat d"
  shows "tsec_comms_send_cmd p (Some c) 0 cb w \<noteq> None \<longleftrightarrow>
    d + align4 (hdr_size c) < 128 \<or> align4 (hdr_size c) < d"
proof -
  let ?w = "tick p w" and ?n = "of_nat (align4 (hdr_size c)) :: u32"
  have i: "regs (hw ?w) 0x1c00 = cmdq_start w + of_nat d" "regs (hw ?w) (tsec_cmdq_tail_r 0) = cmdq_start w + of_nat d"
    using assms(2,3,8,9) by (simp_all add: idle_on_def)
  have d: "unat (of_nat d :: u32) = d" using assms(7) by (simp add: unat_of_nat)
  have h: "unat (cmdq_start w + of_nat d) = unat (cmdq_start w) + d"
    using assms(6,7) d by (simp add: unat_add32)
  have "tsec_comms_send_cmd p (Some c) 0 cb w \<noteq> None \<longleftrightarrow> queue_cmd p c cb w \<noteq> None"
    using assms(1,4) by (simp add: send_ready)
  also have "\<dots> \<longleftrightarrow> check_space p (regs (hw ?w) 0x1c00) ?n ?w \<noteq> None"
    by (rule queue_cmd_returns [OF assms(5)])
  also have "\<dots> \<longleftrightarrow> \<not> no_room (cmdq_start ?w) (regs (hw ?w) (tsec_cmdq_tail_r 0)) (regs (hw ?w) 0x1c00) ?n"
    using check_space_stuck [OF _ assms(3)] check_space_room [OF assms(3)] by blast
  also have "\<dots> \<longleftrightarrow> d + align4 (hdr_size c) < 128 \<or> align4 (hdr_size c) < d"
    unfolding i using align4_bounds(2) [of "hdr_size c"] assms(6,7)
    by (subst no_room_nat) (auto simp: h unat_align4)
  finally show ?thesis .
qed

subsection \<open>The command queue\<close>

text \<open>
  The byte of the carveout at a position of a queue, and the registers of the command queue as numbers.
  The firmware that keeps to the protocol moves the tail over whole packets and writes neither the
  head nor the queue.
\<close>

definition qbyte :: "u64 \<Rightarrow> tsec_hw \<Rightarrow> nat \<Rightarrow> u8" where
  "qbyte base h x = gscco h (unat base + (x - 0x1000000))"

abbreviation cmdq_head :: "tsec_hw \<Rightarrow> nat" where "cmdq_head h \<equiv> unat (regs h (tsec_cmdq_head_r 0))"
abbreviation cmdq_tail :: "tsec_hw \<Rightarrow> nat" where "cmdq_tail h \<equiv> unat (regs h (tsec_cmdq_tail_r 0))"

definition fw_pops :: "tsec_plat \<Rightarrow> u64 \<Rightarrow> u32 \<Rightarrow> bool" where
  "fw_pops p base start \<longleftrightarrow> (\<forall>k h. regs (fw p k h) (tsec_cmdq_head_r 0) = regs h (tsec_cmdq_head_r 0)
     \<and> (\<forall>x. unat start \<le> x \<and> x < unat start + 128 \<longrightarrow> qbyte base (fw p k h) x = qbyte base h x)
     \<and> (pop (qbyte base h) (unat start) (cmdq_head h))\<^sup>*\<^sup>* (cmdq_tail h) (cmdq_tail (fw p k h)))"

definition cmdq_fits :: "tsec \<Rightarrow> bool" where
  "cmdq_fits w \<longleftrightarrow> ipc_gscco_base w \<noteq> 0 \<and> 0x1000000 \<le> unat (cmdq_start w)
     \<and> unat (cmdq_start w) - 0x1000000 + 128 \<le> unat (ipc_gscco_size w) \<and> unat (ipc_gscco_size w) < 2 ^ 31
     \<and> unat (ipc_gscco_base w) + unat (ipc_gscco_size w) < 2 ^ 64"

definition cmdq_holds :: "tsec \<Rightarrow> flcn_packet list \<Rightarrow> bool" where
  "cmdq_holds w cs \<longleftrightarrow> cmdq_fits w \<and>
     holds_packets (qbyte (ipc_gscco_base w) (hw w)) (unat (cmdq_start w)) 128 (cmdq_tail (hw w)) (cmdq_head (hw w)) cs"

definition cmdq_room :: "tsec \<Rightarrow> nat \<Rightarrow> bool" where
  "cmdq_room w n \<longleftrightarrow> room (unat (cmdq_start w)) 128 (cmdq_tail (hw w)) (cmdq_head (hw w)) n"

text \<open>Sending changes the registers, the shared memory, the time and the callbacks.\<close>

definition only_queue :: "tsec \<Rightarrow> tsec \<Rightarrow> bool" where
  "only_queue w w' \<longleftrightarrow> w' = w\<lparr>hw := hw w', clock := clock w', callbacks := callbacks w'\<rparr>"

lemma only_queue_refl [simp]: "only_queue w w"
  by (simp add: only_queue_def)

lemma only_queue_trans: "only_queue u v \<Longrightarrow> only_queue v w \<Longrightarrow> only_queue u w"
  by (cases u; cases v; cases w) (simp add: only_queue_def)

lemma only_queue_fields:
  assumes "only_queue w w'"
  shows "comms_initialised w' = comms_initialised w" "init_msg_rcvd w' = init_msg_rcvd w"
    "tsec_state w' = tsec_state w" "cmdq_start w' = cmdq_start w" "ipc_gscco_base w' = ipc_gscco_base w"
    "ipc_gscco_size w' = ipc_gscco_size w" "undef w' = undef w" "events w' = events w"
  using assms by (cases w; cases w'; simp add: only_queue_def)+

lemma only_queue_tick [simp]: "only_queue w (tick p w)"
  by (simp add: only_queue_def tick_def)

lemma cmdq_fits_cong: "only_queue w w' \<Longrightarrow> cmdq_fits w' = cmdq_fits w"
  by (simp add: cmdq_fits_def only_queue_fields)

lemma cmdq_fits_nat:
  assumes "cmdq_fits w"
  shows "unat (cmdq_start w) + 512 < 2 ^ 32" "16777216 \<le> unat (cmdq_start w)"
  using assms by (auto simp: cmdq_fits_def)

lemma tick_cmdq:
  assumes q: "cmdq_holds w cs" and r: "cmdq_room w n"
    and fw: "fw_pops p (ipc_gscco_base w) (cmdq_start w)"
  shows "\<exists>k. cmdq_holds (tick p w) (drop k cs) \<and> cmdq_room (tick p w) n"
    "regs (hw (tick p w)) (tsec_cmdq_head_r 0) = regs (hw w) (tsec_cmdq_head_r 0)"
proof -
  let ?b = "qbyte (ipc_gscco_base w) (hw w)" and ?h' = "fw p (clock w) (hw w)"
  from fw have f: "regs ?h' (tsec_cmdq_head_r 0) = regs (hw w) (tsec_cmdq_head_r 0)"
    "\<And>x. unat (cmdq_start w) \<le> x \<Longrightarrow> x < unat (cmdq_start w) + 128 \<Longrightarrow> qbyte (ipc_gscco_base w) ?h' x = ?b x"
    "(pop ?b (unat (cmdq_start w)) (cmdq_head (hw w)))\<^sup>*\<^sup>* (cmdq_tail (hw w)) (cmdq_tail ?h')"
    unfolding fw_pops_def by blast+
  show "regs (hw (tick p w)) (tsec_cmdq_head_r 0) = regs (hw w) (tsec_cmdq_head_r 0)" using f(1) by simp
  from pops_hold [OF f(3)] q r obtain k where
    k: "holds_packets ?b (unat (cmdq_start w)) 128 (cmdq_tail ?h') (cmdq_head (hw w)) (drop k cs)"
       "room (unat (cmdq_start w)) 128 (cmdq_tail ?h') (cmdq_head (hw w)) n"
    unfolding cmdq_holds_def cmdq_room_def by blast
  from holds_frame [OF k, of "qbyte (ipc_gscco_base w) ?h'"] f(2)
  have "holds_packets (qbyte (ipc_gscco_base w) ?h') (unat (cmdq_start w)) 128 (cmdq_tail ?h') (cmdq_head (hw w)) (drop k cs)"
    by blast
  with k(2) q f(1) show "\<exists>k. cmdq_holds (tick p w) (drop k cs) \<and> cmdq_room (tick p w) n"
    by (auto simp: cmdq_holds_def cmdq_room_def cmdq_fits_def)
qed

lemma cmdq_room_0: "cmdq_holds w cs \<Longrightarrow> cmdq_room w 0"
  by (auto simp: cmdq_holds_def cmdq_room_def holds_packets_def room_def)

text \<open>What the search for room finds, when it ends.\<close>

definition space_found :: "space \<Rightarrow> tsec \<Rightarrow> nat \<Rightarrow> bool" where
  "space_found sp w n \<longleftrightarrow> (case sp of Enqueue \<Rightarrow> cmdq_room w n
     | Rewind \<Rightarrow> cmdq_tail (hw w) \<le> cmdq_head (hw w) \<and> unat (cmdq_start w) + n < cmdq_tail (hw w)
     | Wraps \<Rightarrow> False)"

lemma space_test:
  assumes "cmdq_holds w cs" "unat n \<le> 256" "head = regs (hw w) 0x1c00" "tail = regs (hw w) 0x1c04"
  shows "\<not> - 1 - head < n"
    "head < tail \<Longrightarrow> head + n < tail \<Longrightarrow> space_found Enqueue w (unat n)"
    "\<not> head < tail \<Longrightarrow> head + n < cmdq_start w + 0x80 \<Longrightarrow> space_found Enqueue w (unat n)"
    "\<not> head < tail \<Longrightarrow> cmdq_start w + n < tail \<Longrightarrow> space_found Rewind w (unat n)"
proof -
  have fits: "unat (cmdq_start w) + 512 < 4294967296" using assms(1) cmdq_fits_nat by (auto simp: cmdq_holds_def)
  have h: "unat (cmdq_start w) \<le> unat head" "unat head < unat (cmdq_start w) + 128"
    using assms(1,3) by (auto simp: cmdq_holds_def holds_packets_def)
  have u: "unat (head + n) = unat head + unat n" "unat (cmdq_start w + n) = unat (cmdq_start w) + unat n"
    "unat (cmdq_start w + 0x80) = unat (cmdq_start w) + 128"
    using fits h assms(2) by (simp_all add: unat_add32)
  show "\<not> - 1 - head < n" using fits h assms(2) by (simp add: word_less_nat_alt unat_rest32)
  show "head < tail \<Longrightarrow> head + n < tail \<Longrightarrow> space_found Enqueue w (unat n)"
    "\<not> head < tail \<Longrightarrow> head + n < cmdq_start w + 0x80 \<Longrightarrow> space_found Enqueue w (unat n)"
    "\<not> head < tail \<Longrightarrow> cmdq_start w + n < tail \<Longrightarrow> space_found Rewind w (unat n)"
    using u assms(3,4) by (simp_all add: space_found_def cmdq_room_def room_def word_less_nat_alt)
qed

lemma check_space_holds:
  assumes "check_space p head n w = Some y" "cmdq_holds w cs" "fw_pops p (ipc_gscco_base w) (cmdq_start w)"
    "unat n \<le> 256" "head = regs (hw w) 0x1c00"
  shows "\<exists>k. cmdq_holds (snd y) (drop k cs) \<and> only_queue w (snd y) \<and> space_found (fst y) (snd y) (unat n)
    \<and> callbacks (snd y) = callbacks w \<and> regs (hw (snd y)) 0x1c00 = head"
proof -
  let ?Q = "\<lambda>w0 cs head n w y. \<exists>k. cmdq_holds (snd y) (drop k cs) \<and> only_queue w (snd y)
    \<and> space_found (fst y) (snd y) (unat n) \<and> callbacks (snd y) = callbacks w \<and> regs (hw (snd y)) 0x1c00 = head"
  let ?P = "\<lambda>p head n w y. \<forall>cs. cmdq_holds w cs \<longrightarrow> fw_pops p (ipc_gscco_base w) (cmdq_start w) \<longrightarrow>
    unat n \<le> 256 \<longrightarrow> head = regs (hw w) 0x1c00 \<longrightarrow> ?Q w cs head n w y"
  have "?P p head n w y"
  proof (rule check_space.raw_induct [OF _ assms(1), where P = ?P], intro allI impI)
    fix f :: "tsec_plat \<Rightarrow> u32 \<Rightarrow> u32 \<Rightarrow> tsec \<Rightarrow> (space \<times> tsec) option" and p head n w y cs
    assume IH: "\<And>p head n w y. f p head n w = Some y \<Longrightarrow> ?P p head n w y"
      and run: "(let (tail, w) = tsec_plat_reg_read p (tsec_cmdq_tail_r 0) w
        in if - 1 - head < n then Some (Wraps, w)
           else if head < tail then if head + n < tail then Some (Enqueue, w) else f p head n (tsec_plat_udelay p w)
           else if head + n < cmdq_start w + 128 then Some (Enqueue, w)
           else if cmdq_start w + n < tail then Some (Rewind, w)
           else f p head n (tsec_plat_udelay p w)) = Some y"
      and q: "cmdq_holds w cs" and fw: "fw_pops p (ipc_gscco_base w) (cmdq_start w)"
      and n: "unat n \<le> 256" and h: "head = regs (hw w) 0x1c00"
    let ?w = "tick p w"
    note t1 = tick_cmdq [OF q cmdq_room_0 [OF q] fw]
    obtain k where k: "cmdq_holds ?w (drop k cs)" using t1(1) by blast
    have h1: "head = regs (hw ?w) 0x1c00" using t1(2) h by simp
    have fw1: "fw_pops p (ipc_gscco_base ?w) (cmdq_start ?w)" using fw by simp
    note t2 = tick_cmdq [OF k cmdq_room_0 [OF k] fw1]
    obtain j where j: "cmdq_holds (tick p ?w) (drop j (drop k cs))" using t2(1) by blast
    note st = space_test [OF k n h1 refl]
    show "?Q w cs head n w y"
    proof (cases "f p head n (tsec_plat_udelay p ?w) = Some y")
      case True
      have "head = regs (hw (tick p ?w)) 0x1c00" using t2(2) h1 by simp
      with IH [OF True] j fw1 n obtain i where
        "cmdq_holds (snd y) (drop i (drop j (drop k cs)))" "only_queue (tick p ?w) (snd y)"
        "space_found (fst y) (snd y) (unat n)" "callbacks (snd y) = callbacks w" "regs (hw (snd y)) 0x1c00 = head"
        by (auto simp: tsec_plat_udelay_def)
      then show ?thesis
        by (metis drop_drop only_queue_tick only_queue_trans)
    next
      case False
      with run st have "snd y = ?w" "space_found (fst y) ?w (unat n)"
        by (auto simp: Let_def tsec_plat_reg_read_def split: if_splits)
      with k h1 show ?thesis by (auto intro!: exI [of _ k])
    qed
  qed
  with assms(2-5) show ?thesis by blast
qed

lemma unat_ucast_u8: "unat (ucast (x :: u8) :: u32) = unat x"
proof -
  have "unat (ucast x :: u32) = take_bit 32 (unat x)" by (simp only: unsigned_ucast_eq) simp
  also have "\<dots> = unat x" by (rule take_bit_nat_eq_self) (use unat_u8 [of x] in simp)
  finally show ?thesis .
qed

text \<open>An access of \<open>n\<close> bytes at a position of a queue that lies inside the carveout.\<close>

definition in_carveout :: "tsec \<Rightarrow> u32 \<Rightarrow> nat \<Rightarrow> bool" where
  "in_carveout w t n \<longleftrightarrow> ipc_gscco_base w \<noteq> 0 \<and> unat (ipc_gscco_size w) < 2 ^ 31
     \<and> unat (ipc_gscco_base w) + unat (ipc_gscco_size w) < 2 ^ 64
     \<and> 0x1000000 \<le> unat t \<and> unat t - 0x1000000 + n \<le> unat (ipc_gscco_size w)"

lemma ipc_txfr_ok:
  assumes "in_carveout w t (unat n)" "n \<noteq> 0"
  shows "ipc_txfr t (Some b) n r w = (let w = w\<lparr>undef := undef w \<or> length b < unat n\<rparr>
    in if r then (0, Some (map (qbyte (ipc_gscco_base w) (hw w)) [unat t..<unat t + unat n] @ drop (unat n) b), w)
       else (0, Some b, w\<lparr>hw := (hw w)\<lparr>gscco :=
         store (unat (ipc_gscco_base w) + (unat t - 0x1000000)) (take (unat n) b) (gscco (hw w))\<rparr>\<rparr>))"
proof -
  let ?o = "t - 0x1000000"
  have f: "unat (ipc_gscco_size w) < 2147483648" "16777216 \<le> unat t" "ipc_gscco_base w \<noteq> 0"
    "unat (ipc_gscco_base w) + unat (ipc_gscco_size w) < 18446744073709551616"
    "unat t - 16777216 + unat n \<le> unat (ipc_gscco_size w)"
    using assms(1) by (auto simp: in_carveout_def)
  have o: "unat ?o = unat t - 16777216" using f(2) by (simp add: unat_sub_if' word_le_nat_alt)
  have l: "\<not> t < 0x1000000" using f(2) by (simp add: word_less_nat_alt)
  have e: "unat ?o + unat n \<le> unat (ipc_gscco_size w)" using o f(5) by simp
  have s: "unat (?o + n) = unat ?o + unat n" using e f(1) by (intro unat_add32) linarith
  have g1: "\<not> ipc_gscco_size w < ucast ?o" using e by (simp add: word_less_nat_alt unat_ucast_u64 del: unat_sub_if')
  have g2: "\<not> ipc_gscco_size w < ucast (?o + n)" using e s by (simp add: word_less_nat_alt unat_ucast_u64)
  have z: "ipc_gscco_size w \<noteq> 0"
  proof
    assume "ipc_gscco_size w = 0"
    with e assms(2) show False by (simp add: unat_eq_0)
  qed
  have a: "unat (ipc_gscco_base w + ucast ?o) = unat (ipc_gscco_base w) + unat ?o"
    using e f(4) by (simp add: unat_word_ariths unat_ucast_u64)
  have "load (unat (ipc_gscco_base w) + (unat t - 16777216)) (unat n) (gscco (hw w))
      = map (qbyte (ipc_gscco_base w) (hw w)) [unat t..<unat t + unat n]"
    using f(2) by (auto simp: load_def qbyte_def add.assoc intro!: nth_equalityI)
  then show ?thesis
    using l g1 g2 z a o f(3) assms(2) by (simp add: ipc_txfr_def Let_def)
qed

lemma cmdq_in_carveout:
  "cmdq_fits w \<Longrightarrow> unat (cmdq_start w) \<le> unat t \<Longrightarrow> unat t + n \<le> unat (cmdq_start w) + 128 \<Longrightarrow> in_carveout w t n"
  by (auto simp: cmdq_fits_def in_carveout_def)

lemma ipc_write_ok:
  assumes "cmdq_fits w" "unat (cmdq_start w) \<le> unat head" "unat head + unat n \<le> unat (cmdq_start w) + 128"
    "n \<noteq> 0" "unat n \<le> length b"
  shows "ipc_write head b n w = (0, w\<lparr>hw := (hw w)\<lparr>gscco :=
    store (unat (ipc_gscco_base w) + (unat head - 0x1000000)) (take (unat n) b) (gscco (hw w))\<rparr>\<rparr>)"
  using ipc_txfr_ok [OF cmdq_in_carveout [OF assms(1-3)] assms(4)] assms(5)
  by (simp add: ipc_write_def)

text \<open>A packet written in the room behind the head, and announced by the head register.\<close>

lemma qbyte_store:
  assumes "0x1000000 \<le> a" "0x1000000 \<le> x"
  shows "qbyte base (h\<lparr>gscco := store (unat base + (a - 0x1000000)) bs (gscco h)\<rparr>) x =
    (if a \<le> x \<and> x < a + length bs then bs ! (x - a) else qbyte base h x)"
proof -
  have "unat base + (a - 0x1000000) \<le> unat base + (x - 0x1000000) \<longleftrightarrow> a \<le> x" using assms by auto
  moreover have "unat base + (x - 0x1000000) < unat base + (a - 0x1000000) + length bs \<longleftrightarrow> x < a + length bs"
    using assms by auto
  moreover have "unat base + (x - 0x1000000) - (unat base + (a - 0x1000000)) = x - a" using assms by auto
  ultimately show ?thesis by (simp add: qbyte_def store_apply)
qed

abbreviation put_packet :: "u32 \<Rightarrow> u8 list \<Rightarrow> tsec \<Rightarrow> tsec" where
  "put_packet head bs w \<equiv> w\<lparr>hw := (hw w)\<lparr>gscco :=
     store (unat (ipc_gscco_base w) + (unat head - 0x1000000)) bs (gscco (hw w))\<rparr>\<rparr>"

lemma cmdq_fits_simps [simp]:
  "cmdq_fits (set_cb u c w) = cmdq_fits w" "cmdq_fits (w\<lparr>hw := h\<rparr>) = cmdq_fits w"
  "cmdq_fits (tick p w) = cmdq_fits w"
  by (simp_all add: cmdq_fits_def set_cb_def)

lemma put_packet_holds:
  assumes q: "cmdq_holds w cs" and r: "cmdq_room w n" and h: "head = regs (hw w) 0x1c00"
    and bs: "length bs \<le> n \<or> cmdq_tail (hw w) \<le> cmdq_head (hw w)"
  shows "cmdq_holds (put_packet head bs w) cs" "cmdq_room (put_packet head bs w) n"
    "map (qbyte (ipc_gscco_base w) (hw (put_packet head bs w))) [unat head..<unat head + length bs] = bs"
proof -
  let ?w = "put_packet head bs w"
  let ?b = "qbyte (ipc_gscco_base w) (hw w)" and ?b' = "qbyte (ipc_gscco_base w) (hw ?w)"
  have st: "16777216 \<le> unat (cmdq_start w)" using q cmdq_fits_nat(2) by (auto simp: cmdq_holds_def)
  have hs: "unat (cmdq_start w) \<le> unat head" using q h by (auto simp: cmdq_holds_def holds_packets_def)
  have b': "?b' x = (if unat head \<le> x \<and> x < unat head + length bs then bs ! (x - unat head) else ?b x)"
    if "unat (cmdq_start w) \<le> x" for x
    using qbyte_store [of "unat head" x, where base = "ipc_gscco_base w" and h = "hw w" and bs = bs] st hs that by simp
  have "holds_packets ?b' (unat (cmdq_start w)) 128 (cmdq_tail (hw w)) (cmdq_head (hw w)) cs"
  proof (cases "cmdq_tail (hw w) \<le> cmdq_head (hw w)")
    case True
    have s: "seg ?b (cmdq_tail (hw w)) cs (cmdq_head (hw w))"
      using q True by (simp add: cmdq_holds_def holds_packets_def)
    have "seg ?b' (cmdq_tail (hw w)) cs (cmdq_head (hw w))"
      by (rule seg_frame [OF s]) (use q h b' in \<open>auto simp: cmdq_holds_def holds_packets_def\<close>)
    with True q show ?thesis by (simp add: cmdq_holds_def holds_packets_def)
  next
    case False
    have q': "holds_packets ?b (unat (cmdq_start w)) 128 (cmdq_tail (hw w)) (cmdq_head (hw w)) cs"
      using q by (simp add: cmdq_holds_def)
    show ?thesis
      by (rule holds_frame [OF q' r [unfolded cmdq_room_def]]) (use False bs h b' in auto)
  qed
  with q show "cmdq_holds ?w cs" by (simp add: cmdq_holds_def)
  show "cmdq_room ?w n" using r by (simp add: cmdq_room_def)
  show "map ?b' [unat head..<unat head + length bs] = bs"
    using b' hs by (auto intro: nth_equalityI)
qed

lemma write_head:
  "regs (hw (tsec_plat_reg_write p 0x1c00 v w)) 0x1c04 = regs (hw (tick p w)) 0x1c04"
  "regs (hw (tsec_plat_reg_write p 0x1c00 v w)) 0x1c00 = v"
  "qbyte base (hw (tsec_plat_reg_write p 0x1c00 v w)) = qbyte base (hw (tick p w))"
  "callbacks (tsec_plat_reg_write p 0x1c00 v w) = callbacks w"
  "only_queue w (tsec_plat_reg_write p 0x1c00 v w)"
  by (auto simp: tsec_plat_reg_write_def Let_def qbyte_def fun_eq_iff only_queue_def tick_def)

lemma static_simps [simp]:
  "cmdq_start (set_cb u c w) = cmdq_start w" "ipc_gscco_base (set_cb u c w) = ipc_gscco_base w"
  "hw (set_cb u c w) = hw w" "clock (set_cb u c w) = clock w"
  "cmdq_start (tsec_plat_reg_write p r v w) = cmdq_start w"
  "ipc_gscco_base (tsec_plat_reg_write p r v w) = ipc_gscco_base w"
  "cmdq_fits (tsec_plat_reg_write p r v w) = cmdq_fits w"
  by (simp_all add: set_cb_def tsec_plat_reg_write_def Let_def cmdq_fits_def)

lemma enqueue_holds:
  assumes q: "cmdq_holds w cs" and r: "cmdq_room w (align4 (hdr_size c))"
    and fw: "fw_pops p (ipc_gscco_base w) (cmdq_start w)"
    and h: "head = regs (hw w) 0x1c00"
    and c: "4 \<le> unat (hdr_size c)" "unat (hdr_size c) \<le> length c" "unitId c \<noteq> RM_GSP_UNIT_REWIND"
  shows "\<exists>k w'. enqueue_cmd p c (of_nat (align4 (hdr_size c))) head cb w = (0, w')
    \<and> cmdq_holds w' (drop k cs @ [take (unat (hdr_size c)) c])
    \<and> only_queue w w' \<and> callbacks w' = (callbacks w)(unat (unitId c) := cb)"
proof -
  let ?n = "align4 (hdr_size c)" and ?d = "take (unat (hdr_size c)) c"
  let ?w1 = "set_cb (unitId c) cb w"
  let ?w2 = "put_packet head ?d ?w1"
  let ?w3 = "tsec_plat_reg_write p 0x1c00 (head + of_nat ?n) ?w2"
  have d: "hdr_size ?d = hdr_size c" "unitId ?d = unitId c" "length ?d = unat (hdr_size c)"
    using c by (auto simp: min_def)
  have fits: "cmdq_fits w" using q by (simp add: cmdq_holds_def)
  have q1: "cmdq_holds ?w1 cs" "cmdq_room ?w1 ?n" "head = regs (hw ?w1) 0x1c00"
    using q r h by (simp_all add: cmdq_holds_def cmdq_room_def)
  have hl: "unat (cmdq_start w) \<le> unat head" "unat head + ?n \<le> unat (cmdq_start w) + 128"
    using q r h wrapped_tail
    by (auto simp: cmdq_holds_def cmdq_room_def holds_packets_def room_def split: if_splits
          dest!: wrapped_tail intro: order_trans)
  have wr: "ipc_write head c (ucast (hdr_size c)) ?w1 = (0, ?w2)"
  proof -
    have u: "unat (ucast (hdr_size c) :: u32) = unat (hdr_size c)"
      by (rule unat_ucast_u8)
    have "ucast (hdr_size c) \<noteq> (0 :: u32)" using u c(1) by auto
    moreover have "cmdq_start ?w1 = cmdq_start w" by (simp add: set_cb_def)
    moreover have "unat head + unat (hdr_size c) \<le> unat (cmdq_start w) + 128"
      using hl(2) align4_bounds(1) [of "hdr_size c"] by linarith
    ultimately show ?thesis
      using ipc_write_ok [of ?w1 head "ucast (hdr_size c)" c, unfolded cmdq_fits_simps u, OF fits] hl(1) c(2)
      by simp
  qed
  have "length ?d \<le> ?n" using d align4_bounds(1) by simp
  note p2 = put_packet_holds [OF q1(1,2,3), of ?d, OF disjI1, OF this]
  have fw2: "fw_pops p (ipc_gscco_base ?w2) (cmdq_start ?w2)" using fw by (simp add: set_cb_def)
  note t = tick_cmdq [OF p2(1,2) fw2]
  obtain k where k: "cmdq_holds (tick p ?w2) (drop k cs)" "cmdq_room (tick p ?w2) ?n" using t(1) by blast
  have h3: "regs (hw (tick p ?w2)) 0x1c00 = head" using t(2) q1(3) by (simp add: set_cb_def)
  have bytes: "map (qbyte (ipc_gscco_base w) (hw (tick p ?w2))) [unat head..<unat head + length ?d] = ?d"
  proof -
    have "qbyte (ipc_gscco_base w) (hw (tick p ?w2)) x = qbyte (ipc_gscco_base w) (hw ?w2) x"
      if "unat head \<le> x" "x < unat head + length ?d" for x
      using fw2 that hl d align4_bounds(1) [of "hdr_size c"] unfolding fw_pops_def by (simp add: set_cb_def)
    then have "map (qbyte (ipc_gscco_base w) (hw (tick p ?w2))) [unat head..<unat head + length ?d]
      = map (qbyte (ipc_gscco_base w) (hw ?w2)) [unat head..<unat head + length ?d]" by simp
    with p2(3) show ?thesis by (simp add: set_cb_def)
  qed
  have pk: "packet ?d" using d c by (simp add: packet_def)
  have hn: "unat (head + of_nat ?n) = unat head + ?n"
    using hl cmdq_fits_nat(1) [OF fits] by (simp add: unat_add32 unat_align4)
  have k1: "holds_packets (qbyte (ipc_gscco_base w) (hw (tick p ?w2))) (unat (cmdq_start w)) 128
    (cmdq_tail (hw (tick p ?w2))) (unat head) (drop k cs)"
    "room (unat (cmdq_start w)) 128 (cmdq_tail (hw (tick p ?w2))) (unat head) (align4 (hdr_size ?d))"
    using k h3 d(1) by (simp_all add: cmdq_holds_def cmdq_room_def set_cb_def)
  from holds_push [OF k1 pk bytes] fits have q3: "cmdq_holds ?w3 (drop k cs @ [?d])"
    unfolding cmdq_holds_def by (simp add: write_head hn [simplified] d(1) [simplified])
  show ?thesis
  proof (intro exI conjI)
    show "enqueue_cmd p c (of_nat ?n) head cb w = (0, ?w3)"
      using wr by (simp add: enqueue_cmd_def Let_def)
    show "cmdq_holds ?w3 (drop k cs @ [?d])" by (rule q3)
    have "only_queue w ?w2" by (simp add: only_queue_def set_cb_def)
    then show "only_queue w ?w3" using write_head(5) only_queue_trans by blast
    show "callbacks ?w3 = (callbacks w)(unat (unitId c) := cb)" by (simp add: write_head(4) set_cb_def)
  qed
qed

text \<open>A REWIND header behind the head, and the head back at the start.\<close>

lemma rewind_holds:
  assumes q: "cmdq_holds w cs" and fw: "fw_pops p (ipc_gscco_base w) (cmdq_start w)"
    and h: "head = regs (hw w) 0x1c00"
    and t: "cmdq_tail (hw w) \<le> cmdq_head (hw w)" "unat (cmdq_start w) + n < cmdq_tail (hw w)"
  shows "\<exists>k w'. send_rewind p head w = (0, cmdq_start w, w') \<and> cmdq_holds w' (drop k cs) \<and> cmdq_room w' n
    \<and> only_queue w w' \<and> callbacks w' = callbacks w \<and> regs (hw w') 0x1c00 = cmdq_start w"
proof -
  let ?w2 = "put_packet head rewind_hdr w"
  let ?w3 = "tsec_plat_reg_write p 0x1c00 (cmdq_start w) ?w2"
  have fits: "cmdq_fits w" using q by (simp add: cmdq_holds_def)
  have q': "holds_packets (qbyte (ipc_gscco_base w) (hw w)) (unat (cmdq_start w)) 128
    (cmdq_tail (hw w)) (cmdq_head (hw w)) cs"
    using q by (simp add: cmdq_holds_def)
  have hl: "unat (cmdq_start w) \<le> unat head" "unat head + 4 \<le> unat (cmdq_start w) + 128"
    using holds_header_fits [OF q'] q' h by (auto simp: holds_packets_def)
  have wr: "ipc_write head rewind_hdr 4 w = (0, ?w2)"
    using ipc_write_ok [OF fits hl(1), of 4 rewind_hdr] hl(2) by (simp add: rewind_hdr_def)
  note p2 = put_packet_holds [OF q cmdq_room_0 [OF q] h disjI2 [OF t(1)], of rewind_hdr]
  have fw2: "fw_pops p (ipc_gscco_base ?w2) (cmdq_start ?w2)" using fw by simp
  note t2 = tick_cmdq [OF p2(1) cmdq_room_0 [OF p2(1)] fw2]
  obtain k where k: "cmdq_holds (tick p ?w2) (drop k cs)" using t2(1) by blast
  have h2: "regs (hw (tick p ?w2)) 0x1c00 = head" using t2(2) h by simp
  have tl: "cmdq_tail (hw w) \<le> cmdq_tail (hw (tick p ?w2))" "cmdq_tail (hw (tick p ?w2)) \<le> unat head"
  proof -
    have "(pop (qbyte (ipc_gscco_base w) (hw ?w2)) (unat (cmdq_start w)) (cmdq_head (hw w)))\<^sup>*\<^sup>*
        (cmdq_tail (hw w)) (cmdq_tail (hw (tick p ?w2)))"
    proof -
      have "(pop (qbyte (ipc_gscco_base w) (hw ?w2)) (unat (cmdq_start w)) (cmdq_head (hw ?w2)))\<^sup>*\<^sup>*
          (cmdq_tail (hw ?w2)) (cmdq_tail (fw p (clock ?w2) (hw ?w2)))"
        using fw unfolding fw_pops_def by blast
      then show ?thesis by simp
    qed
    from pops_straight [OF this, of 128 cs] p2(1) t(1) h
    show "cmdq_tail (hw w) \<le> cmdq_tail (hw (tick p ?w2))" "cmdq_tail (hw (tick p ?w2)) \<le> unat head"
      by (auto simp: cmdq_holds_def)
  qed
  have z: "qbyte (ipc_gscco_base w) (hw (tick p ?w2)) (unat head) = 0"
    "qbyte (ipc_gscco_base w) (hw (tick p ?w2)) (unat head + 1) = 4"
  proof -
    have f: "qbyte (ipc_gscco_base w) (hw (tick p ?w2)) x = qbyte (ipc_gscco_base w) (hw ?w2) x"
      if "unat head \<le> x" "x < unat head + 4" for x
      using fw hl that unfolding fw_pops_def by simp
    have len: "length rewind_hdr = 4" by (simp add: rewind_hdr_def)
    have "map (qbyte (ipc_gscco_base w) (hw ?w2)) [unat head..<unat head + 4] = rewind_hdr"
      using p2(3) unfolding len .
    from arg_cong [OF this, of "\<lambda>l. l ! 0"] arg_cong [OF this, of "\<lambda>l. l ! 1"]
    show "qbyte (ipc_gscco_base w) (hw (tick p ?w2)) (unat head) = 0"
      "qbyte (ipc_gscco_base w) (hw (tick p ?w2)) (unat head + 1) = 4"
      using f [of "unat head"] f [of "unat head + 1"] by (simp_all add: rewind_hdr_def)
  qed
  have k': "holds_packets (qbyte (ipc_gscco_base w) (hw (tick p ?w2))) (unat (cmdq_start w)) 128
    (cmdq_tail (hw (tick p ?w2))) (unat head) (drop k cs)"
    using k h2 by (simp add: cmdq_holds_def)
  have "unat (cmdq_start w) < cmdq_tail (hw (tick p ?w2))" using t(2) tl(1) by linarith
  from holds_rewind [OF k' this tl(2) z hl(2)] fits have q3: "cmdq_holds ?w3 (drop k cs)"
    unfolding cmdq_holds_def by (simp add: write_head)
  have r3: "cmdq_room ?w3 n" using t(2) tl(1) by (simp add: cmdq_room_def room_def write_head)
  show ?thesis
  proof (intro exI conjI)
    show "send_rewind p head w = (0, cmdq_start w, ?w3)"
      using wr by (simp add: send_rewind_def)
    have "only_queue w ?w2" by (simp add: only_queue_def)
    then show "only_queue w ?w3" using write_head(5) only_queue_trans by blast
  qed (use q3 r3 in \<open>simp_all add: write_head\<close>)
qed

lemma queue_cmd_holds:
  assumes q: "cmdq_holds w cs" and fw: "fw_pops p (ipc_gscco_base w) (cmdq_start w)"
    and c: "4 \<le> unat (hdr_size c)" "unat (hdr_size c) \<le> length c" "unitId c \<noteq> RM_GSP_UNIT_REWIND"
    and cb: "cb_func (get_cb (unitId c) w) = None"
    and run: "queue_cmd p c cb w = Some (r, w')"
  shows "r = 0 \<and> (\<exists>k. cmdq_holds w' (drop k cs @ [take (unat (hdr_size c)) c]))
    \<and> only_queue w w' \<and> callbacks w' = (callbacks w)(unat (unitId c) := cb)"
proof -
  let ?n = "align4 (hdr_size c)" and ?w = "tick p w"
  let ?head = "regs (hw ?w) 0x1c00"
  note t = tick_cmdq [OF q cmdq_room_0 [OF q] fw]
  obtain k where k: "cmdq_holds ?w (drop k cs)" using t(1) by blast
  from run cb obtain sp v where v: "check_space p ?head (of_nat ?n) ?w = Some (sp, v)"
    and rest: "place_cmd p c (of_nat ?n) ?head cb sp v = (r, w')"
    by (auto simp: queue_cmd_def Let_def tsec_plat_reg_read_def bind_eq_Some_conv
      simp del: tick_simps One_nat_def)
  have fwt: "fw_pops p (ipc_gscco_base ?w) (cmdq_start ?w)" using fw by simp
  have "unat (of_nat ?n :: u32) \<le> 256" using align4_bounds(2) [of "hdr_size c"] by (simp add: unat_align4)
  from check_space_holds [OF v k fwt this refl] obtain j where
    j: "cmdq_holds v (drop j (drop k cs))" "only_queue ?w v" "space_found sp v ?n" "callbacks v = callbacks w"
       "regs (hw v) 0x1c00 = ?head"
    by (auto simp: unat_align4)
  have fwv: "fw_pops p (ipc_gscco_base v) (cmdq_start v)" using fwt only_queue_fields [OF j(2)] by simp
  have ov: "only_queue w v" using j(2) only_queue_tick only_queue_trans by blast
  show ?thesis
  proof (cases sp)
    case Wraps
    with j(3) show ?thesis by (simp add: space_found_def)
  next
    case Enqueue
    then have "cmdq_room v ?n" using j(3) by (simp add: space_found_def)
    from enqueue_holds [OF j(1) this fwv j(5) [symmetric] c, of cb] rest Enqueue j(4) ov show ?thesis
      by (auto simp: place_cmd_def drop_drop intro: only_queue_trans)
  next
    case Rewind
    then have s: "cmdq_tail (hw v) \<le> cmdq_head (hw v)" "unat (cmdq_start v) + ?n < cmdq_tail (hw v)"
      using j(3) by (simp_all add: space_found_def)
    from rewind_holds [OF j(1) fwv j(5) [symmetric] s] obtain i u where
      u: "send_rewind p ?head v = (0, cmdq_start v, u)" "cmdq_holds u (drop i (drop j (drop k cs)))" "cmdq_room u ?n"
         "only_queue v u" "callbacks u = callbacks v" "regs (hw u) 0x1c00 = cmdq_start v"
      by blast
    have fwu: "fw_pops p (ipc_gscco_base u) (cmdq_start u)" using fwv only_queue_fields [OF u(4)] by simp
    from enqueue_holds [OF u(2,3) fwu u(6) [symmetric] c, of cb] rest Rewind u(1,4,5) j(4) ov show ?thesis
      by (auto simp: place_cmd_def drop_drop intro: only_queue_trans)
  qed
qed

lemma send_holds:
  assumes "ready w" "cmdq_holds w cs" "fw_pops p (ipc_gscco_base w) (cmdq_start w)"
    "unat (hdr_size c) \<le> length c" "unitId c \<noteq> RM_GSP_UNIT_REWIND"
    "tsec_comms_send_cmd p (Some c) queue_id cb w = Some (r, w')"
  shows "if queue_id = 0 \<and> validate_cmd (Some c) = 0 \<and> cb_func (get_cb (unitId c) w) = None
    then r = 0 \<and> (\<exists>k. cmdq_holds w' (drop k cs @ [take (unat (hdr_size c)) c]))
      \<and> only_queue w w' \<and> callbacks w' = (callbacks w)(unat (unitId c) := cb)
    else r = - EINVAL \<and> w' = w"
proof (cases "queue_id = 0 \<and> validate_cmd (Some c) = 0 \<and> cb_func (get_cb (unitId c) w) = None")
  case True
  then have "4 \<le> unat (hdr_size c)" by (auto simp: validate_cmd_def split: if_splits)
  moreover have "queue_cmd p c cb w = Some (r, w')" using assms(1,6) True by (simp add: send_ready)
  ultimately show ?thesis using queue_cmd_holds [OF assms(2,3) _ assms(4,5), of cb r w'] True by simp
next
  case False
  then show ?thesis using assms(1,6) by (auto simp: send_ready queue_cmd_def split: if_splits)
qed

section \<open>Theorems\<close>

text \<open>A firmware that reads the command queue whenever there is something in it.\<close>

definition fw_reads :: "u64 \<Rightarrow> u32 \<Rightarrow> nat \<Rightarrow> tsec_hw \<Rightarrow> tsec_hw" where
  "fw_reads base start k h =
     (let t = regs h (tsec_cmdq_tail_r 0); b = qbyte base h
      in if t = regs h (tsec_cmdq_head_r 0) \<or> 0x80000000 \<le> t then h
         else h\<lparr>regs := (regs h)(tsec_cmdq_tail_r 0 :=
           (if b (unat t) = 0 then start else t + of_nat (align4 (b (unat t + 1)))))\<rparr>)"

lemma fw_reads_pops: "fw_pops (sample_plat (fw_reads base start)) base start"
proof -
  have "(pop (qbyte base h) (unat start) (cmdq_head h))\<^sup>*\<^sup>* (cmdq_tail h) (cmdq_tail (fw_reads base start k h))" for k h
  proof (cases "regs h 0x1c04 = regs h 0x1c00 \<or> 0x80000000 \<le> regs h 0x1c04")
    case True
    then show ?thesis by (simp add: fw_reads_def Let_def)
  next
    case False
    let ?b = "qbyte base h" and ?t = "regs h 0x1c04"
    have t: "unat ?t < 2147483648" "unat ?t \<noteq> unat (regs h 0x1c00)"
      using False by (simp_all add: word_le_nat_alt word_unat_eq_iff)
    have "unat (?t + of_nat (align4 (?b (unat ?t + 1)))) = unat ?t + align4 (?b (unat ?t + 1))"
      using t(1) align4_bounds(2) [of "?b (unat ?t + 1)"] by (simp add: unat_add32 unat_align4)
    then have "pop ?b (unat start) (cmdq_head h) (cmdq_tail h) (cmdq_tail (fw_reads base start k h))"
      using False t(2) by (simp add: fw_reads_def Let_def pop_def)
    then show ?thesis by (rule r_into_rtranclp)
  qed
  then show ?thesis
    by (auto simp: fw_pops_def sample_plat_def fw_reads_def Let_def qbyte_def)
qed

text \<open>
  C29. While the firmware reads the command queue by its protocol, a command that is sent is appended,
  whole and behind all that is still to be read, and its callback registered; a command that is refused
  changes nothing. It is refused exactly if the library is not initialised (-EOPNOTSUPP), the firmware has not sent its first
  message (-ENODEV), or the queue number or the header is wrong or the unit has a command outstanding (-EINVAL). This is for an engine
  that is not shut down, for then it is booted first, and whose queue has been located; the packet has the size that its header
  says, and is no REWIND, which is accepted but read as a header of the queue (a finding).
\<close>

theorem tsec_send_appends:
  assumes "tsec_state w \<noteq> TSEC_STATE_SHUTDOWN" "cmdq_start w \<noteq> 0" "cmdq_holds w cs" "fw_pops p (ipc_gscco_base w) (cmdq_start w)"
    "unat (hdr_size c) \<le> length c" "unitId c \<noteq> RM_GSP_UNIT_REWIND"
    "tsec_comms_send_cmd p (Some c) queue_id cb w = Some (r, w')"
  shows "if comms_initialised w \<and> init_msg_rcvd w \<and> queue_id = 0 \<and> validate_cmd (Some c) = 0 \<and> cb_func (get_cb (unitId c) w) = None
    then r = 0 \<and> (\<exists>k. cmdq_holds w' (drop k cs @ [take (unat (hdr_size c)) c]))
      \<and> only_queue w w' \<and> callbacks w' = (callbacks w)(unat (unitId c) := cb)
    else w' = w \<and> r = (if \<not> comms_initialised w then - EOPNOTSUPP else if \<not> init_msg_rcvd w then - ENODEV else - EINVAL)"
proof (cases "comms_initialised w \<and> init_msg_rcvd w")
  case True
  then have "ready w" using assms(1,2) by (simp add: ready_def)
  from send_holds [OF this assms(3-7)] True show ?thesis by (auto split: if_splits)
next
  case False
  with assms(7) show ?thesis by (auto simp: tsec_comms_send_cmd_def split: if_splits)
qed

theorem tsec_send_appends_witness:
  "\<exists>k w'. tsec_comms_send_cmd (sample_plat (fw_reads 0x80000000 0x1000100)) (Some [3, 6, 0, 0, 9, 9]) 0
      \<lparr>cb_func = None, cb_ctx = 0\<rparr> (sample_tsec (sample_hw 0x1000110 0x1000204)) = Some (0, w')
    \<and> cmdq_holds w' (drop k [] @ [[3, 6, 0, 0, 9, 9]])"
proof -
  let ?p = "sample_plat (fw_reads 0x80000000 0x1000100)"
  let ?w = "sample_tsec (sample_hw 0x1000110 0x1000204)"
  let ?c = "[3, 6, 0, 0, 9, 9] :: u8 list"
  have r: "ready ?w" by (simp add: ready_def sample_tsec_def)
  have q: "cmdq_holds ?w []"
    by (simp add: cmdq_holds_def cmdq_fits_def holds_packets_def sample_defs)
  have fw: "fw_pops ?p (ipc_gscco_base ?w) (cmdq_start ?w)" using fw_reads_pops by (simp add: sample_tsec_def)
  have ok: "validate_cmd (Some ?c) = 0" "cb_func (get_cb (unitId ?c) ?w) = None"
    by (simp_all add: validate_cmd_def get_cb_def sample_tsec_def sample_cbs_def no_cb_def)
  have a: "align4 6 = 8" by (simp add: align4_def)
  have "tsec_comms_send_cmd ?p (Some ?c) 0 \<lparr>cb_func = None, cb_ctx = 0\<rparr> ?w \<noteq> None"
    using r ok by (simp add: send_ready queue_cmd_def tsec_plat_reg_read_def Let_def a)
      (simp add: check_space.simps tsec_plat_reg_read_def Let_def sample_defs fw_reads_def)
  then obtain rr w' where s: "tsec_comms_send_cmd ?p (Some ?c) 0 \<lparr>cb_func = None, cb_ctx = 0\<rparr> ?w = Some (rr, w')"
    by auto
  have st: "tsec_state ?w \<noteq> TSEC_STATE_SHUTDOWN" "cmdq_start ?w \<noteq> 0" "comms_initialised ?w" "init_msg_rcvd ?w"
    using r by (simp_all add: ready_def)
  from tsec_send_appends [OF st(1,2) q fw _ _ s] ok s st(3,4) show ?thesis by auto
qed

text \<open>
  C32. In an empty queue that the firmware leaves alone, \<open>d\<close> bytes from its start, a valid command is
  answered exactly if its padded size \<open>n\<close> satisfies \<open>d + n < 128\<close> or \<open>n < d\<close>; otherwise
  the driver polls for ever. Up to 60 bytes every command is answered; one of 64 bytes is not at \<open>d = 64\<close>.
\<close>

theorem tsec_send_empty_queue:
  assumes "ready w" "idle_on p (tsec_cmdq_head_r 0)" "idle_on p (tsec_cmdq_tail_r 0)"
    "validate_cmd (Some c) = 0" "cb_func (get_cb (unitId c) w) = None"
    "unat (cmdq_start w) + 512 < 2 ^ 32" "d \<le> 124"
    "regs (hw w) (tsec_cmdq_head_r 0) = cmdq_start w + of_nat d"
    "regs (hw w) (tsec_cmdq_tail_r 0) = cmdq_start w + of_nat d"
  shows "tsec_comms_send_cmd p (Some c) 0 cb w \<noteq> None \<longleftrightarrow>
    d + align4 (hdr_size c) < 128 \<or> align4 (hdr_size c) < d"
  by (rule send_empty_returns [OF assms])

theorem tsec_send_empty_queue_witness:
  "tsec_comms_send_cmd (sample_plat (\<lambda>_ h. h)) (Some (3 # 64 # replicate 62 0)) 0 no_cb
     (sample_tsec (sample_hw 0x1000140 0x1000204)) = None
   \<and> tsec_comms_send_cmd (sample_plat (\<lambda>_ h. h)) (Some (3 # 60 # replicate 58 0)) 0 no_cb
     (sample_tsec (sample_hw 0x1000140 0x1000204)) \<noteq> None"
proof -
  let ?w = "sample_tsec (sample_hw 0x1000140 0x1000204)"
  have r: "ready ?w" by (simp add: ready_def sample_tsec_def)
  have i: "idle_on (sample_plat (\<lambda>_ h. h)) a" for a by (simp add: idle_on_def sample_plat_def)
  have v: "validate_cmd (Some (3 # s # xs)) = 0" "cb_func (get_cb (unitId (3 # s # xs)) ?w) = None"
    if "4 \<le> unat s" for s xs
    using that by (simp_all add: validate_cmd_def get_cb_def sample_tsec_def sample_cbs_def no_cb_def)
  have st: "unat (cmdq_start ?w) + 512 < 2 ^ 32" "regs (hw ?w) (tsec_cmdq_head_r 0) = cmdq_start ?w + of_nat 64"
    "regs (hw ?w) (tsec_cmdq_tail_r 0) = cmdq_start ?w + of_nat 64"
    by (simp_all add: sample_defs)
  have "align4 64 = 64" "align4 60 = 60" by (simp_all add: align4_def)
  with tsec_send_empty_queue [OF r i i v(1) v(2) st(1) _ st(2,3), of 64 "replicate 62 0" no_cb]
    tsec_send_empty_queue [OF r i i v(1) v(2) st(1) _ st(2,3), of 60 "replicate 58 0" no_cb]
  show ?thesis by (simp del: not_None_eq split_paired_All split_paired_Ex)
qed

end
