(* ===== verification/Tsec_Message.thy ===== *)
theory Tsec_Message
  imports Tsec_Command
begin

text \<open>
  The message queue of the security engine: \<open>tsec_comms_drain_msg\<close> hands every message once to the
  callback of its unit, and when it does not come to an end.
\<close>

subsection \<open>Messages\<close>

definition idle :: "tsec_plat \<Rightarrow> bool" where "idle p \<longleftrightarrow> (\<forall>k h. fw p k h = h)"

lemma idle_fw: "idle p \<Longrightarrow> fw p k h = h"
  by (simp add: idle_def)

lemma ipc_read_any: obtains r bs u where "ipc_read t b n w = (r, bs, w\<lparr>undef := u\<rparr>)"
proof -
  have "\<exists>u. snd (snd (ipc_read t b n w)) = w\<lparr>undef := u\<rparr>"
    by (auto simp: ipc_read_def ipc_txfr_def Let_def intro: exI [of _ "undef w"])
  then show thesis using that by (metis prod.collapse)
qed

lemma ipc_read_ok:
  assumes "in_carveout w t (unat n)" "n \<noteq> 0"
  shows "ipc_read t b n w = (0, map (qbyte (ipc_gscco_base w) (hw w)) [unat t..<unat t + unat n] @ drop (unat n) b,
    w\<lparr>undef := undef w \<or> length b < unat n\<rparr>)"
  using ipc_txfr_ok [OF assms] by (simp add: ipc_read_def Let_def)

lemma read_msg_header:
  assumes "in_carveout w t 4" "4 \<le> length msg"
  obtains u buf where "read_msg t msg w = (buf, w\<lparr>undef := u\<rparr>)"
    "unitId buf = qbyte (ipc_gscco_base w) (hw w) (unat t)" "hdr_size buf = qbyte (ipc_gscco_base w) (hw w) (unat t + 1)"
    "4 \<le> length buf"
proof -
  let ?q = "qbyte (ipc_gscco_base w) (hw w)"
  let ?m = "map ?q [unat t..<unat t + 4] @ drop 4 msg"
  have h: "ipc_read t msg 4 w = (0, ?m, w\<lparr>undef := undef w \<or> length msg < 4\<rparr>)"
    using ipc_read_ok [of w t 4 msg] assms by simp
  have l: "4 \<le> length ?m" "unitId ?m = ?q (unat t)" "hdr_size ?m = ?q (unat t + 1)"
    by (simp_all add: nth_append)
  obtain r bs u where b: "ipc_read (t + 4) (drop 4 ?m) (ucast (hdr_size ?m) - 4)
      (w\<lparr>undef := undef w \<or> length msg < 4\<rparr>) = (r, bs, w\<lparr>undef := u\<rparr>)"
    by (rule ipc_read_any [of "t + 4" "drop 4 ?m" "ucast (hdr_size ?m) - 4"
        "w\<lparr>undef := undef w \<or> length msg < 4\<rparr>"]) auto
  show thesis
  proof (cases "unat (hdr_size ?m) > 4")
    case True
    then have "read_msg t msg w = (take 4 ?m @ bs, w\<lparr>undef := u\<rparr>)"
      using h b by (simp add: read_msg_def del: One_nat_def)
    moreover have "(take 4 ?m @ bs) ! 0 = ?m ! 0" "(take 4 ?m @ bs) ! 1 = ?m ! 1"
      using l(1) by (simp_all add: nth_append)
    ultimately show thesis using that l by simp
  next
    case False
    then have "read_msg t msg w = (?m, w\<lparr>undef := undef w \<or> length msg < 4\<rparr>)"
      using h by (simp add: read_msg_def del: One_nat_def)
    with that l show thesis by blast
  qed
qed

lemma poll_start_read:
  assumes "regs (hw (tick p w)) r \<noteq> 0" "0 < n"
  shows "poll_start p r n 0 w = (regs (hw (tick p w)) r, tick p w)"
  using assms by (cases n) (simp_all add: tsec_plat_reg_read_def poll_start_done Let_def)

lemma poll_msgq_read:
  assumes "regs (hw (tick p w)) 0x1c84 \<noteq> regs (hw (tick p (tick p w))) 0x1c80" "0 < n"
  shows "poll_msgq p n t h w = (regs (hw (tick p w)) 0x1c84, regs (hw (tick p (tick p w))) 0x1c80, tick p (tick p w))"
  using assms by (cases n) (simp_all add: tsec_plat_reg_read_def Let_def)

text \<open>
  The driver takes the start of the message queue from the tail register; it does so again at every
  call once the engine was booted with a context, and then a REWIND header at the tail leads back to
  itself.
\<close>

definition at_rewind :: "u32 \<Rightarrow> u32 \<Rightarrow> tsec \<Rightarrow> bool" where
  "at_rewind t h w \<longleftrightarrow> msgq_start w = t \<and> t \<noteq> h \<and> regs (hw w) 0x1c80 = h \<and> in_carveout w t 4
     \<and> qbyte (ipc_gscco_base w) (hw w) (unat t) = 0"

lemma in_carveout_cong:
  "ipc_gscco_base w' = ipc_gscco_base w \<Longrightarrow> ipc_gscco_size w' = ipc_gscco_size w \<Longrightarrow>
   in_carveout w' t n = in_carveout w t n"
  by (simp only: in_carveout_def)

lemma qbyte_cong: "gscco h' = gscco h \<Longrightarrow> qbyte base h' = qbyte base h"
  by (simp add: qbyte_def fun_eq_iff)

lemma at_rewind_cong:
  "at_rewind t h w \<Longrightarrow> msgq_start w' = t \<Longrightarrow> regs (hw w') 0x1c80 = h \<Longrightarrow> ipc_gscco_base w' = ipc_gscco_base w \<Longrightarrow>
   ipc_gscco_size w' = ipc_gscco_size w \<Longrightarrow> gscco (hw w') = gscco (hw w) \<Longrightarrow> at_rewind t h w'"
  using in_carveout_cong [of w' w] qbyte_cong [of "hw w'" "hw w"] by (simp add: at_rewind_def)

lemma drain_loop_stuck:
  assumes "drain_loop p icb t h msg c w = Some y" "idle p" "at_rewind t h w" "4 \<le> length msg"
  shows False
proof -
  let ?P = "\<lambda>p t h msg w. idle p \<longrightarrow> at_rewind t h w \<longrightarrow> \<not> 4 \<le> length msg"
  have "?P p t h msg w"
  proof (rule drain_loop.raw_induct [OF _ assms(1), where P = "\<lambda>p icb t h msg c w y. ?P p t h msg w"], goal_cases)
    case (1 f p icb t h msg c w y)
    note IH = 1(1) and run = 1(2)
    show ?case
    proof (intro impI notI)
      assume i: "idle p" and a: "at_rewind t h w" and l: "4 \<le> length msg"
      then have a': "in_carveout w t 4" "qbyte (ipc_gscco_base w) (hw w) (unat t) = 0" "t \<noteq> h" "msgq_start w = t"
        "regs (hw w) 0x1c80 = h"
        by (auto simp: at_rewind_def)
      obtain u buf where r: "read_msg t msg w = (buf, w\<lparr>undef := u\<rparr>)" "unitId buf = 0" "4 \<le> length buf"
        by (rule read_msg_header [OF a'(1) l]) (use a'(2) in auto)
      let ?w = "tick p (tsec_plat_reg_write p 0x1c84 t (w\<lparr>undef := u\<rparr>))"
      have h: "hw (tsec_plat_reg_write p 0x1c84 t (w\<lparr>undef := u\<rparr>)) = (hw w)\<lparr>regs := (regs (hw w))(0x1c84 := t)\<rparr>"
        using i by (simp add: tsec_plat_reg_write_def idle_def Let_def)
      from run r a' have "f p icb t (regs (hw ?w) 0x1c80) buf c ?w = Some y"
        by (simp add: tsec_plat_reg_read_def Let_def del: tick_simps)
      moreover have "regs (hw ?w) 0x1c80 = h" using i a'(5) by (simp add: idle_fw h)
      moreover have "at_rewind t h ?w"
        by (rule at_rewind_cong [OF a])
           (use a' i in \<open>simp_all add: tsec_plat_reg_write_def Let_def idle_fw\<close>)
      ultimately show False using IH i r(3) by blast
    qed
  qed
  with assms(2-4) show False by blast
qed

lemma drain_after_reboot_stuck:
  assumes "comms_initialised w" "tsec_state w = TSEC_STATE_BOOTED_WITH_CONTEXT" "idle p" "4 \<le> length (stack_bytes p)"
    "t = regs (hw w) (tsec_msgq_tail_r 0)" "h = regs (hw w) (tsec_msgq_head_r 0)" "t \<noteq> h" "h \<noteq> 0"
    "in_carveout w t 4" "qbyte (ipc_gscco_base w) (hw w) (unat t) = RM_GSP_UNIT_REWIND"
  shows "tsec_comms_drain_msg p icb w = None"
proof -
  have t0: "t \<noteq> 0" using assms(9) by (auto simp: in_carveout_def)
  have ps: "poll_start p 0x1c84 2000 0 w = (t, tick p w)"
    using poll_start_read [of p w "0x1c84" 2000] t0 assms(3,5) by (simp add: idle_fw)
  let ?w = "(tick p w)\<lparr>msgq_start := t\<rparr>"
  have pm: "poll_msgq p 2000 0 0 ?w = (t, h, tick p (tick p ?w))"
    using poll_msgq_read [of p ?w 2000] assms(3,5-7) by (simp add: idle_def)
  have "at_rewind t h (tick p (tick p ?w))"
    using assms(3,6,7,9,10) in_carveout_cong [of "tick p (tick p ?w)" w] by (simp add: at_rewind_def idle_fw)
  then have "drain_loop p icb t h (stack_bytes p) no_cb (tick p (tick p ?w)) = None"
    using drain_loop_stuck assms(3,4) by (metis option.exhaust)
  then show ?thesis
    using assms(1,2,7,8) t0 ps pm by (simp add: tsec_comms_drain_msg_def)
qed

text \<open>
  Draining a queue of plain messages: what each finds registered for its unit is called once with it,
  and no longer registered.
\<close>

definition plain_msg :: "flcn_packet \<Rightarrow> bool" where
  "plain_msg m \<longleftrightarrow> packet m \<and> length m \<le> TSEC_MAX_MSG_SIZE \<and> unitId m \<noteq> RM_GSP_UNIT_INIT
     \<and> (unitId m = RM_GSP_UNIT_HDCP22WIRED \<longrightarrow> 5 \<le> length m \<and> m ! 4 \<noteq> RM_FLCN_HDCP22_MSG_ID_GET_CONTEXT)"

definition take_cb :: "flcn_packet \<Rightarrow> (nat \<Rightarrow> callback_t) \<Rightarrow> nat \<Rightarrow> callback_t" where
  "take_cb m cbs = (if unitId m < RM_GSP_UNIT_END then cbs(unat (unitId m) := no_cb) else cbs)"

definition answer :: "(nat \<Rightarrow> callback_t) \<Rightarrow> flcn_packet \<Rightarrow> (callback_func \<times> nat \<times> flcn_packet) list" where
  "answer cbs m = (let c = cbs (unat (unitId m))
     in if unitId m < RM_GSP_UNIT_END then (case cb_func c of None \<Rightarrow> [] | Some f \<Rightarrow> [(f, cb_ctx c, m)]) else [])"

fun answers :: "(nat \<Rightarrow> callback_t) \<Rightarrow> flcn_packet list \<Rightarrow> (callback_func \<times> nat \<times> flcn_packet) list" where
  "answers cbs [] = []"
| "answers cbs (m # ms) = answer cbs m @ answers (take_cb m cbs) ms"

definition called :: "tsec_event \<Rightarrow> (callback_func \<times> nat \<times> flcn_packet) option" where
  "called e = (case e of Called f ctx buf \<Rightarrow> Some (f, ctx, take (unat (hdr_size buf)) buf) | _ \<Rightarrow> None)"

definition drained :: "tsec \<Rightarrow> flcn_packet list \<Rightarrow> tsec \<Rightarrow> bool" where
  "drained w ms w' \<longleftrightarrow> comms_initialised w' = comms_initialised w \<and> ipc_gscco_base w' = ipc_gscco_base w
     \<and> ipc_gscco_size w' = ipc_gscco_size w \<and> msgq_start w' = msgq_start w \<and> tsec_state w' = tsec_state w
     \<and> undef w' = undef w \<and> gscco (hw w') = gscco (hw w)
     \<and> (\<forall>r. r \<noteq> tsec_msgq_tail_r 0 \<longrightarrow> regs (hw w') r = regs (hw w) r)
     \<and> callbacks w' = fold take_cb ms (callbacks w)
     \<and> (\<exists>evs. events w' = events w @ evs \<and> map called evs = map Some (answers (callbacks w) ms))"

lemma answers_append: "answers cbs (xs @ ys) = answers cbs xs @ answers (fold take_cb xs cbs) ys"
  by (induction xs arbitrary: cbs) simp_all

lemma drained_trans: "drained u xs v \<Longrightarrow> drained v ys w \<Longrightarrow> drained u (xs @ ys) w"
  unfolding drained_def by (auto simp: answers_append)

lemma read_msg_packet:
  assumes "packet m" "map (qbyte (ipc_gscco_base w) (hw w)) [unat t..<unat t + length m] = m"
    "in_carveout w t (length m)" "length m \<le> length buf"
  shows "read_msg t buf w = (m @ drop (length m) buf, w)"
proof -
  let ?q = "qbyte (ipc_gscco_base w) (hw w)"
  let ?n = "length m"
  have m: "4 \<le> ?n" "?n = unat (hdr_size m)" using assms(1) by (auto simp: packet_def)
  have c4: "in_carveout w t 4" using assms(3) m by (auto simp: in_carveout_def)
  have hd: "map ?q [unat t..<unat t + 4] = take 4 m"
    using arg_cong [OF assms(2), of "take 4"] m(1) by (simp add: take_map min_def)
  have uw: "w\<lparr>undef := undef w\<rparr> = w" by simp
  have h: "ipc_read t buf 4 w = (0, take 4 m @ drop 4 buf, w)"
    using ipc_read_ok [of w t 4 buf] c4 m assms(4) hd uw by simp
  have s: "hdr_size (take 4 m @ drop 4 buf) = hdr_size m" using m by (simp add: nth_append)
  show ?thesis
  proof (cases "?n = 4")
    case True
    with h s m(2) show ?thesis by (simp add: read_msg_def del: One_nat_def)
  next
    case False
    have lt: "4 < unat (hdr_size m)" using False m by simp
    have t4: "unat (t + 4) = unat t + 4"
      using assms(3) m by (auto simp: in_carveout_def unat_add32)
    have n4: "unat (ucast (hdr_size m) - 4 :: u32) = ?n - 4"
      using m by (simp add: unat_sub word_le_nat_alt unat_ucast_u8)
    have c: "in_carveout w (t + 4) (?n - 4)" using assms(3) m t4 by (auto simp: in_carveout_def)
    have nz: "(ucast (hdr_size m) - 4 :: u32) \<noteq> 0" using n4 False m by (metis diff_is_0_eq le_antisym unat_0)
    have mn: "min ?n 4 = 4" using m(1) by simp
    have nl: "\<not> length buf - 4 < ?n - 4" using assms(4) by simp
    have tl: "map ?q [unat t + 4..<unat t + ?n] = drop 4 m"
      using arg_cong [OF assms(2), of "drop 4"] by (simp add: drop_map)
    have "ipc_read (t + 4) (drop 4 (take 4 m @ drop 4 buf)) (ucast (hdr_size m) - 4) w
        = (0, drop 4 m @ drop ?n buf, w)"
      using ipc_read_ok [OF c [folded n4] nz, of "drop 4 buf"] n4 t4 m(1) mn tl nl uw by simp
    then show ?thesis using h s lt mn by (simp add: read_msg_def del: One_nat_def)
  qed
qed

lemma call_cb_fields [simp]:
  "hw (call_cb f ctx b w) = hw w" "callbacks (call_cb f ctx b w) = callbacks w"
  "events (call_cb f ctx b w) = events w @ [Called f ctx b]" "undef (call_cb f ctx b w) = undef w"
  "comms_initialised (call_cb f ctx b w) = comms_initialised w" "ipc_gscco_base (call_cb f ctx b w) = ipc_gscco_base w"
  "ipc_gscco_size (call_cb f ctx b w) = ipc_gscco_size w" "msgq_start (call_cb f ctx b w) = msgq_start w"
  "tsec_state (call_cb f ctx b w) = tsec_state w"
  by (cases f; simp add: call_cb_def log_event_def signal_shutdown_done_def Let_def)+

text \<open>
  The variable with the callback is not reset between messages: an INIT message after a reboot goes to
  the callback of the message before it.
\<close>

lemma init_calls_stale_callback:
  assumes "2 \<le> msg ! 5" "tsec_get_boot_flag w = TSEC_BOOT_FLAG_MAGIC"
    "tsec_state w = TSEC_STATE_BOOTED_WITH_CONTEXT" "cb_func c = Some f"
  shows "events (snd (handle_init p True msg c w)) = events w @ [Called f (cb_ctx c) msg]"
proof -
  have p: "poll_boot_flag p 2000 w = (True, w)"
    using assms(2) by (simp add: numeral_eq_Suc)
  have "\<not> msg ! 5 < 2" using assms(1) by (simp add: not_less)
  then show ?thesis
    using p assms(3,4) by (simp add: handle_init_def Let_def call_opt_def tsec_reset_boot_flag_def boot_info_write_def
      tsec_comms_poweron_with_context_done_def)
qed

lemma handle_plain:
  assumes "plain_msg m"
  shows "\<exists>c' w'. handle_msg p True (m @ rest) c w = (False, c', w') \<and> drained w [m] w' \<and> hw w' = hw w"
proof -
  have m: "4 \<le> length m" "length m = unat (hdr_size m)" "unitId m \<noteq> 2"
    and h: "unitId m = 6 \<Longrightarrow> 5 \<le> length m \<and> m ! 4 \<noteq> 8"
    using assms by (auto simp: plain_msg_def packet_def)
  let ?b = "m @ rest"
  have b: "unitId ?b = unitId m" "hdr_size ?b = hdr_size m" "take (unat (hdr_size m)) ?b = m"
    using m by (simp_all add: nth_append)
  have s: "\<not> (unitId ?b = 6 \<and> ?b ! 4 = 8)" using h b(1) by (auto simp: nth_append)
  show ?thesis
  proof (cases "unitId m < 0x11")
    case True
    then have r: "handle_msg p True ?b c w
        = (False, get_cb (unitId m) w, call_opt (get_cb (unitId m) w) ?b (set_cb (unitId m) no_cb w))"
      using m b s by (auto simp: handle_msg_def handle_unit_def Let_def)
    show ?thesis
    proof (cases "cb_func (get_cb (unitId m) w)")
      case None
      with True r show ?thesis
        by (simp add: drained_def call_opt_def set_cb_def take_cb_def answer_def get_cb_def)
    next
      case (Some f)
      with True r b show ?thesis
        by (simp add: drained_def call_opt_def set_cb_def take_cb_def answer_def get_cb_def called_def)
    qed
  next
    case False
    then have "handle_msg p True ?b c w = (False, c, w)" using m b by (simp add: handle_msg_def)
    then show ?thesis using False by (simp add: drained_def take_cb_def answer_def)
  qed
qed

lemma read_msg_rewind:
  assumes "in_carveout w t 4" "qbyte (ipc_gscco_base w) (hw w) (unat t) = 0"
    "qbyte (ipc_gscco_base w) (hw w) (unat t + 1) = 4" "4 \<le> length buf"
  shows "\<exists>b. read_msg t buf w = (b, w) \<and> unitId b = 0 \<and> length b = length buf"
proof -
  let ?q = "qbyte (ipc_gscco_base w) (hw w)"
  let ?b = "map ?q [unat t..<unat t + 4] @ drop 4 buf"
  have "w\<lparr>undef := undef w\<rparr> = w" by simp
  then have r: "ipc_read t buf 4 w = (0, ?b, w)"
    using ipc_read_ok [of w t 4 buf] assms(1,4) by simp
  have b: "unitId ?b = 0" "hdr_size ?b = 4" using assms(2,3) by (simp_all add: nth_append)
  have "read_msg t buf w = (?b, w)" using r b(2) by (simp add: read_msg_def del: One_nat_def)
  then show ?thesis using b(1) assms(4) by auto
qed

lemma drain_one:
  assumes i: "idle p" and m: "plain_msg m"
    and b: "map (qbyte (ipc_gscco_base w) (hw w)) [unat t..<unat t + length m] = m"
    and c: "in_carveout w t (length m)" and l: "length buf = TSEC_MAX_MSG_SIZE"
    and h: "regs (hw w) (tsec_msgq_head_r 0) = h" "t \<noteq> h"
  shows "\<exists>buf' c' w'. drain_loop p True t h buf c w = drain_loop p True (t + of_nat (align4 (hdr_size m))) h buf' c' w'
    \<and> length buf' = TSEC_MAX_MSG_SIZE \<and> drained w [m] w'
    \<and> regs (hw w') (tsec_msgq_tail_r 0) = t + of_nat (align4 (hdr_size m))"
proof -
  let ?b = "m @ drop (length m) buf" and ?t = "t + of_nat (align4 (hdr_size m))"
  have pk: "packet m" "length m \<le> length buf" using m l by (auto simp: plain_msg_def)
  note r = read_msg_packet [OF pk(1) b c pk(2)]
  have u: "unitId ?b = unitId m" "hdr_size ?b = hdr_size m" "unitId m \<noteq> 0"
    using pk(1) by (auto simp: packet_def nth_append)
  obtain c' w' where hm: "handle_msg p True ?b c w = (False, c', w')" "drained w [m] w'" "hw w' = hw w"
    using handle_plain [OF m] by blast
  let ?w = "tsec_plat_reg_write p 0x1c84 ?t (tick p w')"
  have "drain_loop p True t h buf c w = drain_loop p True ?t h ?b c' ?w"
    using h r u hm i by (subst drain_loop.simps) (simp add: tsec_plat_reg_read_def Let_def idle_fw del: One_nat_def)
  moreover have "length ?b = 128" using pk l by simp
  moreover have "drained w [m] ?w"
    using hm(2) i by (simp add: drained_def tsec_plat_reg_write_def Let_def idle_fw)
  moreover have "regs (hw ?w) 0x1c84 = ?t" by (simp add: tsec_plat_reg_write_def Let_def)
  ultimately show ?thesis unfolding regs_distinct by blast
qed

text \<open>Positions from \<open>t\<close> on that are not the head.\<close>

lemma drain_seg:
  assumes "idle p" "seg (qbyte (ipc_gscco_base w) (hw w)) (unat t) ms (unat r)" "\<forall>m\<in>set ms. plain_msg m"
    "in_carveout w t (unat r - unat t)" "length buf = TSEC_MAX_MSG_SIZE" "regs (hw w) (tsec_msgq_head_r 0) = h"
    "unat h < unat t \<or> unat r \<le> unat h"
  shows "\<exists>buf' c' w'. drain_loop p True t h buf c w = drain_loop p True r h buf' c' w'
    \<and> length buf' = TSEC_MAX_MSG_SIZE \<and> drained w ms w' \<and> (ms \<noteq> [] \<longrightarrow> regs (hw w') (tsec_msgq_tail_r 0) = r)
    \<and> (ms = [] \<longrightarrow> w' = w)"
  using assms(2-7)
proof (induction ms arbitrary: t buf c w)
  case Nil
  then have "t = r" by (simp add: word_unat_eq_iff)
  with Nil show ?case by (auto simp: drained_def)
next
  case (Cons m ms)
  let ?a = "align4 (hdr_size m)" and ?t = "t + of_nat (align4 (hdr_size m))"
  note sp = seg_pos [OF Cons.prems(1)]
  have m: "packet m" "map (qbyte (ipc_gscco_base w) (hw w)) [unat t..<unat t + length m] = m"
    "seg (qbyte (ipc_gscco_base w) (hw w)) (unat t + ?a) ms (unat r)" "plain_msg m" "\<forall>m\<in>set ms. plain_msg m"
    using Cons.prems(1,2) by auto
  have la: "length m \<le> ?a" using m(1) align4_bounds(1) by (simp add: packet_def)
  have ut: "unat ?t = unat t + ?a"
    using sp unat_less_size [of r] by (subst unat_add32) (auto simp: unat_align4)
  have c: "in_carveout w t (length m)" using Cons.prems(3) la sp by (auto simp: in_carveout_def)
  have ne: "t \<noteq> h" using Cons.prems(6) sp by auto
  obtain buf1 c1 w1 where
    1: "drain_loop p True t h buf c w = drain_loop p True ?t h buf1 c1 w1" "length buf1 = 128"
       "drained w [m] w1" "regs (hw w1) 0x1c84 = ?t"
    using drain_one [OF assms(1) m(4,2) c Cons.prems(4,5) ne, of c] by auto
  have d: "ipc_gscco_base w1 = ipc_gscco_base w" "ipc_gscco_size w1 = ipc_gscco_size w" "gscco (hw w1) = gscco (hw w)"
    "regs (hw w1) 0x1c80 = regs (hw w) 0x1c80"
    using 1(3) by (simp_all add: drained_def)
  have "in_carveout w1 ?t (unat r - unat ?t)"
    using Cons.prems(3) ut sp by (simp add: in_carveout_cong [OF d(1,2)]) (auto simp: in_carveout_def)
  moreover have "seg (qbyte (ipc_gscco_base w1) (hw w1)) (unat ?t) ms (unat r)"
    using m(3) by (simp only: d ut qbyte_cong [OF d(3)])
  moreover have "unat h < unat ?t \<or> unat r \<le> unat h" using Cons.prems(6) sp ut by auto
  ultimately obtain buf2 c2 w2 where
    2: "drain_loop p True ?t h buf1 c1 w1 = drain_loop p True r h buf2 c2 w2" "length buf2 = 128"
       "drained w1 ms w2" "ms \<noteq> [] \<longrightarrow> regs (hw w2) 0x1c84 = r" "ms = [] \<longrightarrow> w2 = w1"
    using Cons.IH [of w1 ?t buf1 c1] m(5) 1(2) d(4) Cons.prems(5) by auto
  have "drained w (m # ms) w2" using drained_trans [OF 1(3) 2(3)] by simp
  moreover have "regs (hw w2) 0x1c84 = r"
  proof (cases "ms = []")
    case True
    with m(3) ut have "?t = r" by (simp add: word_unat_eq_iff)
    with True 2(5) 1(4) show ?thesis by simp
  qed (use 2(4) in simp)
  ultimately show ?case using 1(1) 2(1,2) by (intro exI [of _ buf2] exI [of _ c2] exI [of _ w2]) simp
qed

text \<open>The message queue: \<open>len\<close> bytes from the position that the driver took for its start.\<close>

definition msgq_holds :: "tsec \<Rightarrow> nat \<Rightarrow> flcn_packet list \<Rightarrow> bool" where
  "msgq_holds w len ms \<longleftrightarrow> in_carveout w (msgq_start w) len
     \<and> holds_packets (qbyte (ipc_gscco_base w) (hw w)) (unat (msgq_start w)) len
         (unat (regs (hw w) (tsec_msgq_tail_r 0))) (unat (regs (hw w) (tsec_msgq_head_r 0))) ms"

lemma drain_loop_delivers:
  assumes i: "idle p" and q: "msgq_holds w len ms" "len mod 4 = 0" and pm: "\<forall>m\<in>set ms. plain_msg m"
    and l: "length buf = TSEC_MAX_MSG_SIZE"
    and t: "regs (hw w) (tsec_msgq_tail_r 0) = t" and h: "regs (hw w) (tsec_msgq_head_r 0) = h"
  shows "\<exists>w'. drain_loop p True t h buf c w = Some w' \<and> drained w ms w' \<and> regs (hw w') (tsec_msgq_tail_r 0) = h"
proof -
  let ?q = "qbyte (ipc_gscco_base w) (hw w)" and ?st = "unat (msgq_start w)"
  have q': "holds_packets ?q ?st len (unat t) (unat h) ms" and cv: "in_carveout w (msgq_start w) len"
    using q(1) t h by (auto simp: msgq_holds_def)
  have st: "?st \<le> unat t" "?st \<le> unat h" "unat h < ?st + len" using q' by (auto simp: holds_packets_def)
  have carve: "in_carveout w a n" if "?st \<le> unat a" "unat a + n \<le> ?st + len" for a n
    using cv that by (auto simp: in_carveout_def)
  have fin: "drain_loop p True h h b c w = Some w" for b c w by (subst drain_loop.simps) simp
  show ?thesis
  proof (cases "unat t \<le> unat h")
    case True
    then have s: "seg ?q (unat t) ms (unat h)" using q' by (simp add: holds_packets_def)
    have "in_carveout w t (unat h - unat t)" by (rule carve) (use st True in auto)
    from drain_seg [OF i s pm this l h] obtain b' c' w' where
      d: "drain_loop p True t h buf c w = drain_loop p True h h b' c' w'" "drained w ms w'"
         "ms \<noteq> [] \<longrightarrow> regs (hw w') (tsec_msgq_tail_r 0) = h" "ms = [] \<longrightarrow> w' = w"
      by blast
    have "t = h" if "ms = []" using s that by (simp add: word_unat_eq_iff)
    with d t have "regs (hw w') (tsec_msgq_tail_r 0) = h" by (cases "ms = []") auto
    with d(1,2) fin show ?thesis by auto
  next
    case False
    with q' obtain xs ys z where w: "ms = xs @ ys" "seg ?q (unat t) xs z" "z + 4 \<le> ?st + len" "?q z = 0" "?q (z + 1) = 4" "seg ?q ?st ys (unat h)"
      by (auto simp: holds_packets_def wrapped_def)
    define r :: u32 where "r = of_nat z"
    have "z < 4294967296" using w(3) cv by (auto simp: in_carveout_def)
    then have ur: "unat r = z" by (simp add: r_def unat_of_nat)
    have tz: "unat t \<le> z" using seg_le [OF w(2)] .
    have "in_carveout w t (unat r - unat t)" by (rule carve) (use st tz w(3) ur in auto)
    from drain_seg [OF i w(2) [folded ur] _ this l h, where c = c] pm w(1) False obtain b1 c1 w1 where
      1: "drain_loop p True t h buf c w = drain_loop p True r h b1 c1 w1" "length b1 = 128" "drained w xs w1"
      by auto
    have f1: "ipc_gscco_base w1 = ipc_gscco_base w" "ipc_gscco_size w1 = ipc_gscco_size w"
      "gscco (hw w1) = gscco (hw w)" "msgq_start w1 = msgq_start w" "regs (hw w1) 0x1c80 = h"
      using 1(3) h by (simp_all add: drained_def)
    have "in_carveout w1 r 4"
      using carve [of r 4] st tz w(3) ur by (simp add: in_carveout_cong [OF f1(1,2)])
    moreover have "qbyte (ipc_gscco_base w1) (hw w1) (unat r) = 0"
      "qbyte (ipc_gscco_base w1) (hw w1) (unat r + 1) = 4"
      unfolding ur f1(1) qbyte_cong [OF f1(3)] by (rule w(4), rule w(5))
    ultimately obtain b2 where b2: "read_msg r b1 w1 = (b2, w1)" "unitId b2 = 0" "length b2 = 128"
      using read_msg_rewind [of w1 r b1] 1(2) by auto
    let ?s = "msgq_start w"
    let ?w2 = "tick p (tsec_plat_reg_write p 0x1c84 ?s w1)"
    have rh: "r \<noteq> h" using ur tz False by auto
    have f2: "drained w xs ?w2" "regs (hw ?w2) 0x1c80 = h" "regs (hw ?w2) 0x1c84 = ?s"
      using 1(3) f1(5) i by (simp_all add: drained_def tsec_plat_reg_write_def Let_def idle_fw)
    have 2: "drain_loop p True r h b1 c1 w1 = drain_loop p True ?s h b2 c1 ?w2"
      using rh b2(1,2) f1(4) f2(2) by (subst drain_loop.simps) (simp add: tsec_plat_reg_read_def Let_def del: tick_simps)
    have f3: "ipc_gscco_base ?w2 = ipc_gscco_base w" "ipc_gscco_size ?w2 = ipc_gscco_size w"
      "gscco (hw ?w2) = gscco (hw w)"
      using f2(1) by (simp_all add: drained_def)
    have s3: "seg (qbyte (ipc_gscco_base ?w2) (hw ?w2)) (unat ?s) ys (unat h)"
      using w(6) by (simp only: f3 qbyte_cong [OF f3(3)])
    have c3: "in_carveout ?w2 ?s (unat h - unat ?s)"
      unfolding in_carveout_cong [OF f3(1,2)] by (rule carve) (use st in auto)
    from drain_seg [OF i s3 _ c3 b2(3), of h c1] pm w(1) f2(2) obtain b4 c4 w4 where
      4: "drain_loop p True ?s h b2 c1 ?w2 = drain_loop p True h h b4 c4 w4" "drained ?w2 ys w4"
         "ys \<noteq> [] \<longrightarrow> regs (hw w4) 0x1c84 = h" "ys = [] \<longrightarrow> w4 = ?w2"
      by auto
    have "regs (hw w4) 0x1c84 = h"
    proof (cases "ys = []")
      case True
      with w(6) have "?s = h" by (simp add: word_unat_eq_iff)
      with True 4(4) f2(3) show ?thesis by simp
    qed (use 4(3) in simp)
    moreover have "drained w ms w4" using drained_trans [OF f2(1) 4(2)] w(1) by simp
    ultimately show ?thesis using 1(1) 2 4(1) fin by auto
  qed
qed

lemma poll_msgq_idle:
  "idle p \<Longrightarrow> 0 < n \<Longrightarrow> \<exists>w'. poll_msgq p n t h w = (regs (hw w) 0x1c84, regs (hw w) 0x1c80, w')
    \<and> hw w' = hw w \<and> drained w [] w'"
proof (induction n arbitrary: t h w)
  case (Suc n)
  let ?v = "tick p (tick p w)"
  have v: "hw ?v = hw w" "drained w [] ?v" "hw (tick p ?v) = hw w" "drained w [] (tick p ?v)"
    using Suc.prems(1) by (simp_all add: idle_fw drained_def)
  show ?case
  proof (cases "regs (hw w) 0x1c84 \<noteq> regs (hw w) 0x1c80 \<or> n = 0")
    case True
    have h1: "hw (tick p w) = hw w" using Suc.prems(1) by (simp add: idle_fw)
    have "poll_msgq p (Suc n) t h w = (regs (hw w) 0x1c84, regs (hw w) 0x1c80,
        if regs (hw w) 0x1c84 \<noteq> regs (hw w) 0x1c80 then ?v else tick p ?v)"
      using True v(1) h1 by (auto simp: tsec_plat_reg_read_def tsec_plat_udelay_def Let_def simp del: tick_simps)
    with v show ?thesis by auto
  next
    case False
    with Suc.IH [OF Suc.prems(1), of "regs (hw w) 0x1c84" "regs (hw w) 0x1c80" "tick p ?v"] obtain w' where
      a: "poll_msgq p n (regs (hw w) 0x1c84) (regs (hw w) 0x1c80) (tick p ?v) = (regs (hw w) 0x1c84, regs (hw w) 0x1c80, w')"
      "hw w' = hw w" "drained (tick p ?v) [] w'"
      using v(3) by auto
    have "drained w [] w'" using drained_trans [OF v(4) a(3)] by simp
    with a show ?thesis using False Suc.prems(1)
      by (simp add: tsec_plat_reg_read_def tsec_plat_udelay_def Let_def idle_fw)
  qed
qed simp

lemma drain_delivers:
  assumes i: "idle p" and c: "comms_initialised w" "tsec_state w = TSEC_STATE_BOOTED"
    and q: "msgq_holds w len ms" "len mod 4 = 0" and pm: "\<forall>m\<in>set ms. plain_msg m"
    and l: "length (stack_bytes p) = TSEC_MAX_MSG_SIZE"
  shows "\<exists>w'. tsec_comms_drain_msg p True w = Some w' \<and> drained w ms w' \<and> msgq_holds w' len []"
proof -
  let ?t = "regs (hw w) 0x1c84" and ?h = "regs (hw w) 0x1c80"
  have q': "holds_packets (qbyte (ipc_gscco_base w) (hw w)) (unat (msgq_start w)) len (unat ?t) (unat ?h) ms"
    and cv: "in_carveout w (msgq_start w) len"
    using q(1) by (auto simp: msgq_holds_def)
  have ge: "16777216 \<le> unat (msgq_start w)" "unat (msgq_start w) \<le> unat ?t" "unat (msgq_start w) \<le> unat ?h"
    using cv q' by (auto simp: in_carveout_def holds_packets_def)
  then have nz: "msgq_start w \<noteq> 0" "?t \<noteq> 0" "?h \<noteq> 0" by auto
  obtain v where v: "poll_msgq p 2000 0 0 w = (?t, ?h, v)" "hw v = hw w" "drained w [] v"
    using poll_msgq_idle [OF i, of 2000 0 0 w] by auto
  have uw: "w\<lparr>msgq_start := msgq_start w\<rparr> = w" by simp
  have f: "ipc_gscco_base v = ipc_gscco_base w" "ipc_gscco_size v = ipc_gscco_size w" "msgq_start v = msgq_start w"
    using v(3) by (simp_all add: drained_def)
  have qv: "msgq_holds v len ms"
    using q(1) unfolding msgq_holds_def in_carveout_cong [OF f(1,2)] v(2) f .
  have run: "tsec_comms_drain_msg p True w = (if ?t = ?h then Some v else drain_loop p True ?t ?h (stack_bytes p) no_cb v)"
    using c nz v(1) uw by (simp add: tsec_comms_drain_msg_def poll_start_done)
  have "\<exists>w'. drain_loop p True ?t ?h (stack_bytes p) no_cb v = Some w' \<and> drained v ms w' \<and> regs (hw w') 0x1c84 = ?h"
    using drain_loop_delivers [OF i qv q(2) pm l, of ?t ?h no_cb] v(2) by simp
  moreover have "drain_loop p True ?t ?h (stack_bytes p) no_cb v = Some v" if "?t = ?h"
    using that by (subst drain_loop.simps) simp
  ultimately have "tsec_comms_drain_msg p True w = drain_loop p True ?t ?h (stack_bytes p) no_cb v"
    using run by (cases "?t = ?h") simp_all
  with \<open>\<exists>w'. _\<close> obtain w' where
    w': "tsec_comms_drain_msg p True w = Some w'" "drained v ms w'" "regs (hw w') 0x1c84 = ?h"
    by auto
  have d: "drained w ms w'" using drained_trans [OF v(3) w'(2)] by simp
  then have f': "ipc_gscco_base w' = ipc_gscco_base w" "ipc_gscco_size w' = ipc_gscco_size w"
    "msgq_start w' = msgq_start w" "regs (hw w') 0x1c80 = ?h"
    by (simp_all add: drained_def)
  have "msgq_holds w' len []"
    using cv q' w'(3) unfolding msgq_holds_def in_carveout_cong [OF f'(1,2)]
    by (simp add: f' holds_packets_def)
  with w'(1) d show ?thesis by blast
qed

lemma bottom_half_delivers:
  assumes "idle p" "comms_initialised w" "tsec_state w = TSEC_STATE_BOOTED" "msgq_holds w len ms" "len mod 4 = 0"
    "\<forall>m\<in>set ms. plain_msg m" "length (stack_bytes p) = TSEC_MAX_MSG_SIZE"
  shows "\<exists>w'. tsec_irq_bottom_half p w = Some w' \<and> msgq_holds w' len [] \<and> undef w' = undef w
    \<and> regs (hw w') 0x2520 = 0x40 \<and> callbacks w' = fold take_cb ms (callbacks w)
    \<and> (\<exists>evs. events w' = events w @ evs \<and> map called evs = map Some (answers (callbacks w) ms))"
proof -
  obtain v where v: "tsec_comms_drain_msg p True w = Some v" "drained w ms v" "msgq_holds v len []"
    using drain_delivers [OF assms] by blast
  let ?w = "tsec_plat_reg_write p 0x2520 0x40 v"
  have f: "ipc_gscco_base ?w = ipc_gscco_base v" "ipc_gscco_size ?w = ipc_gscco_size v" "msgq_start ?w = msgq_start v"
    "gscco (hw ?w) = gscco (hw v)" "regs (hw ?w) 0x1c80 = regs (hw v) 0x1c80" "regs (hw ?w) 0x1c84 = regs (hw v) 0x1c84"
    "regs (hw ?w) 0x2520 = 0x40" "undef ?w = undef v" "callbacks ?w = callbacks v" "events ?w = events v"
    using assms(1) by (simp_all add: tsec_plat_reg_write_def Let_def idle_fw)
  have "msgq_holds ?w len []"
    using v(3) unfolding msgq_holds_def in_carveout_cong [OF f(1,2)] by (simp add: f qbyte_cong [OF f(4)])
  with v(1,2) f show ?thesis by (auto simp: tsec_irq_bottom_half_def drained_def)
qed

section \<open>Theorems\<close>

text \<open>
  C30. While the firmware is idle, the interrupt thread empties a message queue of plain messages,
  wrapped around or not: every message goes once, whole and in order, to the callback registered for its
  unit, which is then no longer registered, and nothing else is called; the interrupt is unmasked at the end.
  This is for an initialised library in the state BOOTED: after a boot with a context the start of the queue is taken from the
  tail again, and a call may then not end (see the property on REWIND headers). The size of the queue is a multiple of 4. A plain
  message has the size that its header says, which fits the buffer on the stack, and is neither the first message of the firmware
  nor its answer to the command that asks for the context, which are handled apart.
\<close>

theorem tsec_drain_delivers:
  assumes "idle p" "comms_initialised w" "tsec_state w = TSEC_STATE_BOOTED" "msgq_holds w len ms" "len mod 4 = 0"
    "\<forall>m\<in>set ms. plain_msg m" "length (stack_bytes p) = TSEC_MAX_MSG_SIZE"
  shows "\<exists>w'. tsec_irq_bottom_half p w = Some w' \<and> msgq_holds w' len [] \<and> undef w' = undef w
    \<and> regs (hw w') 0x2520 = 0x40 \<and> callbacks w' = fold take_cb ms (callbacks w)
    \<and> (\<exists>evs. events w' = events w @ evs \<and> map called evs = map Some (answers (callbacks w) ms))"
  by (rule bottom_half_delivers [OF assms])

theorem tsec_drain_delivers_witness:
  "\<exists>w'. tsec_irq_bottom_half (sample_plat (\<lambda>_ h. h)) (sample_tsec (sample_hw 0x1000100 0x1000204)) = Some w'
    \<and> msgq_holds w' 256 [] \<and> (\<exists>evs. events w' = evs \<and> map called evs = [Some (Client 7, 1, [5, 4, 0, 0])])"
proof -
  let ?w = "sample_tsec (sample_hw 0x1000100 0x1000204)"
  have i: "idle (sample_plat (\<lambda>_ h. h))" by (simp add: idle_def sample_plat_def)
  have f: "comms_initialised ?w" "tsec_state ?w = TSEC_STATE_BOOTED" "events ?w = []" "callbacks ?w = sample_cbs"
    by (simp_all add: sample_tsec_def)
  have pk: "packet [5, 4, 0, 0]" by (simp add: packet_def)
  have "map (qbyte (ipc_gscco_base ?w) (hw ?w)) [16777728..<16777728 + 4] = [5, 4, 0, 0]"
    by (simp add: sample_defs qbyte_def)
  moreover have "align4 4 = 4" by (simp add: align4_def)
  ultimately have "seg (qbyte (ipc_gscco_base ?w) (hw ?w)) 16777728 [[5, 4, 0, 0]] 16777732"
    using pk by simp
  then have q: "msgq_holds ?w 256 [[5, 4, 0, 0]]"
    by (simp add: msgq_holds_def holds_packets_def in_carveout_def) (simp add: sample_defs)
  have pm: "\<forall>m\<in>set [[5, 4, 0, 0]]. plain_msg m" using pk by (simp add: plain_msg_def)
  have "answers sample_cbs [[5, 4, 0, 0]] = [(Client 7, 1, [5, 4, 0, 0])]"
    by (simp add: answer_def sample_cbs_def)
  with tsec_drain_delivers [OF i f(1,2) q _ pm] f(3,4) show ?thesis
    by (auto simp: sample_plat_def)
qed

text \<open>
  C34. Once the engine was booted with a context, the driver takes the tail for the start of the
  message queue at every call; if a REWIND header is there, the call does not end, whatever messages
  wait at the true start.
\<close>

theorem tsec_drain_rewind_endless:
  assumes "comms_initialised w" "tsec_state w = TSEC_STATE_BOOTED_WITH_CONTEXT" "idle p" "4 \<le> length (stack_bytes p)"
    "t = regs (hw w) (tsec_msgq_tail_r 0)" "h = regs (hw w) (tsec_msgq_head_r 0)" "t \<noteq> h" "h \<noteq> 0"
    "in_carveout w t 4" "qbyte (ipc_gscco_base w) (hw w) (unat t) = RM_GSP_UNIT_REWIND"
  shows "tsec_comms_drain_msg p icb w = None"
  by (rule drain_after_reboot_stuck [OF assms])

theorem tsec_drain_rewind_endless_witness:
  "tsec_comms_drain_msg (sample_plat (\<lambda>_ h. h)) True
     ((sample_tsec ((sample_hw 0x1000100 0x1000300)\<lparr>gscco := \<lambda>_. 0\<rparr>))\<lparr>tsec_state := TSEC_STATE_BOOTED_WITH_CONTEXT\<rparr>) = None"
  by (rule tsec_drain_rewind_endless [OF _ _ _ _ refl refl])
     (simp_all add: sample_defs idle_def in_carveout_def qbyte_def)

end
