(* ===== verification/Tsec_Pages.thy ===== *)
theory Tsec_Pages
  imports Tsec_Comms Chunks
begin

text \<open>
  The pages of the carveout of the security engine, as an allocator of address ranges, and what its
  initialisation does to them.
\<close>

subsection \<open>Pages of the carveout\<close>

lemma and_push_bit: "(a :: u64) AND push_bit k 1 = 0 \<longleftrightarrow> \<not> bit a k"
  by (simp add: push_bit_eq_mult and_exp_eq_0_iff_not_bit)

lemma find_page_found:
  assumes "bit free j" "k \<le> j" "j < 64" "\<And>i. k \<le> i \<Longrightarrow> i < j \<Longrightarrow> \<not> bit free i" "n = 64 - k"
  shows "find_page n free (push_bit k 1) (of_nat k) = (push_bit j 1, of_nat j)"
  using assms(2-5)
proof (induction n arbitrary: k)
  case 0
  then show ?case by simp
next
  case (Suc n)
  show ?case
  proof (cases "k = j")
    case True
    with assms(1) have "\<not> free AND push_bit k 1 = 0" by (simp add: and_push_bit del: push_bit_of_1)
    with True show ?thesis by simp
  next
    case False
    then have "\<not> bit free k" using Suc.prems by simp
    then have z: "free AND push_bit k 1 = 0" by (simp add: and_push_bit del: push_bit_of_1)
    have s: "push_bit 1 (push_bit k 1) = (push_bit (Suc k) 1 :: u64)" "of_nat k + 1 = (of_nat (Suc k) :: u32)"
      by (simp_all add: add.commute)
    have "find_page n free (push_bit (Suc k) 1) (of_nat (Suc k)) = (push_bit j 1, of_nat j)"
      by (rule Suc.IH) (use Suc.prems False in auto)
    then show ?thesis unfolding find_page.simps s if_P [OF z] .
  qed
qed

lemma find_page_first:
  assumes "free \<noteq> 0"
  obtains j where "j < 64" "bit free j" "\<forall>i<j. \<not> bit free i" "find_page 64 free 1 0 = (push_bit j 1, of_nat j)"
proof -
  from assms have ex: "\<exists>i. bit free i" by (auto simp: bit_eq_iff)
  define j where "j = (LEAST i. bit free i)"
  have b: "bit free j" unfolding j_def using ex by (rule LeastI_ex)
  have l: "\<forall>i<j. \<not> bit free i" unfolding j_def using not_less_Least by blast
  have "j < 64" using bit_imp_le_length [OF b] by simp
  with find_page_found [of free j 0 64] b l show ?thesis by (intro that) auto
qed

definition npages :: "tsec \<Rightarrow> nat" where "npages w = min 64 (unat (ipc_gscco_page_count w))"

definition page_chunk :: "tsec \<Rightarrow> nat \<Rightarrow> chunk" where
  "page_chunk w i = (let va = ipc_gscco_page_base w + of_nat i * ipc_gscco_page_size w
     in \<lparr>ch_id = unat va, ch_addr = va, ch_size = ipc_gscco_page_size w\<rparr>)"

definition free_pages :: "tsec \<Rightarrow> chunk list" where
  "free_pages w = map (page_chunk w) (filter (bit (ipc_gscco_free_page_mask w)) [0..<npages w])"

definition pages_inv :: "nat \<Rightarrow> nat \<Rightarrow> tsec \<Rightarrow> bool" where
  "pages_inv base len w \<longleftrightarrow> comms_initialised w \<and> ipc_gscco_page_size w = 0x10000 \<and> ipc_gscco_page_base w \<noteq> 0
     \<and> ipc_gscco_page_base w = ipc_gscco_base w + 0x10000 \<and> base = unat (ipc_gscco_page_base w) \<and> len = 65536 * npages w \<and> base + len < 2 ^ 64"

lemma page_chunk_at:
  assumes "pages_inv base len w" "i < npages w"
  shows "lo (page_chunk w i) = base + 65536 * i" "hi (page_chunk w i) = base + 65536 * i + 65536"
    "ch_id (page_chunk w i) = base + 65536 * i"
proof -
  let ?b = "ipc_gscco_page_base w"
  have p: "base = unat ?b" "base + 65536 * npages w < 18446744073709551616" "ipc_gscco_page_size w = 0x10000"
    using assms(1) by (auto simp: pages_inv_def)
  have i: "i < 64" using assms(2) by (simp add: npages_def)
  have "unat (of_nat i * 0x10000 :: u64) = 65536 * i" using i by (simp add: unat_word_ariths unat_of_nat)
  moreover from this p assms(2) have "unat (?b + of_nat i * 0x10000) = unat ?b + 65536 * i"
    by (simp add: unat_word_ariths)
  ultimately show "lo (page_chunk w i) = base + 65536 * i" "hi (page_chunk w i) = base + 65536 * i + 65536"
    "ch_id (page_chunk w i) = base + 65536 * i"
    using p by (simp_all add: page_chunk_def lo_def hi_def Let_def)
qed

lemma cover_pages:
  assumes "pages_inv base len w" "n \<le> npages w"
  shows "cover (map (page_chunk w) [0..<n]) x = of_bool (base \<le> x \<and> x < base + 65536 * n)"
  using assms(2)
proof (induction n)
  case (Suc n)
  then have "n < npages w" by simp
  note page_chunk_at [OF assms(1) this]
  with Suc show ?case by (auto simp: covers_def)
qed simp

lemma cover_partition: "cover (map f (filter P xs)) x + cover (map f (filter (\<lambda>i. \<not> P i) xs)) x = cover (map f xs) x"
  by (induction xs) auto

lemma alloc_result:
  assumes "comms_initialised w" "tsec_comms_alloc_mem_from_gscco n off w = (va, off', w')" "va \<noteq> 0"
  obtains j where "j < npages w" "bit (ipc_gscco_free_page_mask w) j"
    "va = ipc_gscco_page_base w + of_nat j * ipc_gscco_page_size w"
    "off' = map_option (\<lambda>_. ucast (ipc_gscco_page_base w - ipc_gscco_base w + of_nat j * ipc_gscco_page_size w)) off"
    "w' = w\<lparr>ipc_gscco_free_page_mask := ipc_gscco_free_page_mask w AND NOT (push_bit j 1)\<rparr>"
proof -
  from assms have nz: "ipc_gscco_free_page_mask w \<noteq> 0"
    by (auto simp: tsec_comms_alloc_mem_from_gscco_def split: if_splits)
  obtain j where j: "j < 64" "bit (ipc_gscco_free_page_mask w) j"
      "find_page 64 (ipc_gscco_free_page_mask w) 1 0 = (push_bit j 1, of_nat j)"
    by (rule find_page_first [OF nz])
  have u: "(ucast (of_nat j :: u32) :: u64) = of_nat j" using j(1) by (simp add: unsigned_of_nat take_bit_nat_eq_self)
  have n: "unat (of_nat j :: u64) = j" using j(1) by (simp add: unat_of_nat)
  from assms j(3) u nz show thesis
    by (intro that [of j])
       (auto simp: tsec_comms_alloc_mem_from_gscco_def tsec_comms_get_gscco_page_def npages_def j n word_le_nat_alt
          split: if_splits prod.splits)
qed

lemma pages_inv_mask: "pages_inv base len (w\<lparr>ipc_gscco_free_page_mask := m, undef := u\<rparr>) = pages_inv base len w"
  "pages_inv base len (w\<lparr>ipc_gscco_free_page_mask := m\<rparr>) = pages_inv base len w"
  "pages_inv base len (w\<lparr>undef := u\<rparr>) = pages_inv base len w"
  by (simp_all add: pages_inv_def npages_def)

text \<open>
  The driver with the pages that its clients have: what an allocation returned, until a client gives this address
  back. This record is kept apart from the mask of the driver, which it is compared with. Clients may also release addresses
  that they do not have.
\<close>

record page_use =
  pool :: tsec
  given :: "chunk list"

definition client_alloc :: "u32 \<Rightarrow> page_use \<Rightarrow> (nat \<times> page_use) option" where
  "client_alloc n u = (case tsec_comms_alloc_mem_from_gscco n (Some 0) (pool u) of
     (va, _, w) \<Rightarrow> if va = 0 then None
       else Some (unat va, \<lparr>pool = w, given = \<lparr>ch_id = unat va, ch_addr = va, ch_size = 0x10000\<rparr> # given u\<rparr>))"

definition client_free :: "nat \<Rightarrow> page_use \<Rightarrow> page_use option" where
  "client_free h u = Some \<lparr>pool = tsec_comms_free_gscco_mem (of_nat h) (pool u),
     given = list_del (unat (of_nat h :: u64)) (given u)\<rparr>"

definition use_inv :: "nat \<Rightarrow> nat \<Rightarrow> page_use \<Rightarrow> bool" where
  "use_inv base len u \<longleftrightarrow> pages_inv base len (pool u) \<and> base mod 65536 = 0
     \<and> base + 65536 * unat (ipc_gscco_page_count (pool u)) < 2 ^ 64
     \<and> (\<exists>js. given u = map (page_chunk (pool u)) js \<and> distinct js
          \<and> (\<forall>j. j \<in> set js \<longleftrightarrow> j < npages (pool u) \<and> \<not> bit (ipc_gscco_free_page_mask (pool u)) j))"

lemma page_chunk_mask: "page_chunk (w\<lparr>ipc_gscco_free_page_mask := m\<rparr>) = page_chunk w"
  "npages (w\<lparr>ipc_gscco_free_page_mask := m\<rparr>) = npages w"
  "page_chunk (w\<lparr>undef := d\<rparr>) = page_chunk w" "npages (w\<lparr>undef := d\<rparr>) = npages w"
  by (simp_all add: page_chunk_def npages_def fun_eq_iff)

lemma bit_page: "j < 64 \<Longrightarrow> bit (m OR push_bit j 1 :: u64) x \<longleftrightarrow> bit m x \<or> x = j"
  "j < 64 \<Longrightarrow> bit (m AND NOT (push_bit j 1) :: u64) x \<longleftrightarrow> bit m x \<and> x \<noteq> j"
  using bit_imp_le_length [of m x] by (auto simp: bit_simps)

lemma client_alloc_inv:
  assumes "use_inv base len u" "client_alloc n u = Some (h, t)"
  shows "use_inv base len t"
proof -
  from assms(2) obtain va off' w where r: "tsec_comms_alloc_mem_from_gscco n (Some 0) (pool u) = (va, off', w)" "va \<noteq> 0"
    "t = \<lparr>pool = w, given = \<lparr>ch_id = unat va, ch_addr = va, ch_size = 0x10000\<rparr> # given u\<rparr>"
    by (auto simp: client_alloc_def split: prod.splits if_splits)
  have i: "pages_inv base len (pool u)" using assms(1) by (simp add: use_inv_def)
  then have "comms_initialised (pool u)" by (simp add: pages_inv_def)
  then obtain j where j: "j < npages (pool u)" "bit (ipc_gscco_free_page_mask (pool u)) j"
    "va = ipc_gscco_page_base (pool u) + of_nat j * ipc_gscco_page_size (pool u)"
    "w = pool u\<lparr>ipc_gscco_free_page_mask := ipc_gscco_free_page_mask (pool u) AND NOT (push_bit j 1)\<rparr>"
    by (rule alloc_result [OF _ r(1,2)])
  obtain js where js: "given u = map (page_chunk (pool u)) js" "distinct js"
    "\<forall>k. k \<in> set js \<longleftrightarrow> k < npages (pool u) \<and> \<not> bit (ipc_gscco_free_page_mask (pool u)) k"
    using assms(1) by (auto simp: use_inv_def)
  have "page_chunk (pool u) j = \<lparr>ch_id = unat va, ch_addr = va, ch_size = 0x10000\<rparr>"
    using i j(3) by (simp add: page_chunk_def pages_inv_def Let_def)
  moreover have "j < 64" using j(1) by (simp add: npages_def)
  ultimately show ?thesis
    using assms(1) js j(1,2) unfolding r(3) j(4) use_inv_def
    by (intro conjI exI [of _ "j # js"]) (auto simp: page_chunk_mask pages_inv_mask bit_page simp del: push_bit_of_1)
qed

text \<open>The driver takes an address for that of a page exactly if it is one.\<close>

lemma page_of_address:
  assumes "pages_inv base len w" "base mod 65536 = 0" "base + 65536 * unat (ipc_gscco_page_count w) < 2 ^ 64"
  shows "(ipc_gscco_page_base w \<le> a \<and> a < ipc_gscco_page_base w + ipc_gscco_page_count w * 0x10000 \<and> a mod 0x10000 = 0)
      \<longleftrightarrow> (\<exists>k < unat (ipc_gscco_page_count w). unat a = base + 65536 * k)" (is "?in \<longleftrightarrow> ?page")
    "unat a = base + 65536 * k \<Longrightarrow> unat ((a - ipc_gscco_page_base w) div 0x10000) = k"
proof -
  have b: "unat (ipc_gscco_page_base w) = base" using assms(1) by (simp add: pages_inv_def)
  have m: "a mod 0x10000 = 0 \<longleftrightarrow> unat a mod 65536 = 0"
    by (simp add: word_unat_eq_iff unat_mod_distrib)
  have c: "unat (ipc_gscco_page_count w * 0x10000) = 65536 * unat (ipc_gscco_page_count w)"
    using assms(3) by (simp add: unat_word_ariths)
  have stop: "unat (ipc_gscco_page_base w + ipc_gscco_page_count w * 0x10000) = base + 65536 * unat (ipc_gscco_page_count w)"
    using assms(3) b c by (simp add: unat_word_ariths)
  have "?in \<longleftrightarrow> base \<le> unat a \<and> unat a < base + 65536 * unat (ipc_gscco_page_count w) \<and> unat a mod 65536 = 0"
    unfolding m by (simp add: word_le_nat_alt word_less_nat_alt b stop)
  also have "\<dots> \<longleftrightarrow> ?page"
  proof
    assume h: "base \<le> unat a \<and> unat a < base + 65536 * unat (ipc_gscco_page_count w) \<and> unat a mod 65536 = 0"
    with assms(2) have "65536 dvd unat a - base" by (simp add: dvd_diff_nat mod_0_imp_dvd)
    then obtain k where "unat a - base = 65536 * k" by blast
    with h have "k < unat (ipc_gscco_page_count w) \<and> unat a = base + 65536 * k" by linarith
    then show ?page by blast
  next
    assume ?page
    then obtain k where k: "k < unat (ipc_gscco_page_count w)" "unat a = base + 65536 * k" by blast
    have "(base + 65536 * k) mod 65536 = 0" using assms(2) by (metis mod_mult_self2)
    with k show "base \<le> unat a \<and> unat a < base + 65536 * unat (ipc_gscco_page_count w) \<and> unat a mod 65536 = 0" by simp
  qed
  finally show "?in \<longleftrightarrow> ?page" .
  show "unat ((a - ipc_gscco_page_base w) div 0x10000) = k" if "unat a = base + 65536 * k"
    using that b by (simp add: unat_div_distrib unat_sub word_le_nat_alt)
qed

lemma list_del_pages:
  assumes "pages_inv base len w" "\<forall>j \<in> set js. j < npages w"
  shows "list_del h (map (page_chunk w) js) = map (page_chunk w) (filter (\<lambda>j. base + 65536 * j \<noteq> h) js)"
  using assms(2) by (induction js) (simp_all add: page_chunk_at(3) [OF assms(1)])

lemma client_free_inv:
  assumes "use_inv base len u" "client_free h u = Some t"
  shows "use_inv base len t"
proof -
  define w where "w = pool u"
  define a where "a = (of_nat h :: u64)"
  define k where "k = unat ((a - ipc_gscco_page_base w) div 0x10000)"
  have i: "pages_inv base len w" "base mod 65536 = 0" "base + 65536 * unat (ipc_gscco_page_count w) < 2 ^ 64"
    using assms(1) by (simp_all add: use_inv_def w_def)
  have f: "comms_initialised w" "ipc_gscco_page_size w = 0x10000" using i(1) by (simp_all add: pages_inv_def)
  obtain js where js: "given u = map (page_chunk w) js" "distinct js"
    "\<forall>j. j \<in> set js \<longleftrightarrow> j < npages w \<and> \<not> bit (ipc_gscco_free_page_mask w) j"
    using assms(1) by (auto simp: use_inv_def w_def)
  define js' where "js' = filter (\<lambda>j. base + 65536 * j \<noteq> unat a) js"
  have "given t = map (page_chunk w) js'"
    using assms(2) js list_del_pages [OF i(1), of js] by (auto simp: client_free_def a_def js'_def)
  moreover have "distinct js'" using js(2) by (simp add: js'_def)
  moreover have p: "page_chunk (pool t) = page_chunk w" "npages (pool t) = npages w" "pages_inv base len (pool t)"
    "ipc_gscco_page_count (pool t) = ipc_gscco_page_count w"
    using assms(2) i(1) by (auto simp: client_free_def tsec_comms_free_gscco_mem_def Let_def w_def pages_inv_mask page_chunk_def
        npages_def fun_eq_iff)
  moreover have "j \<in> set js' \<longleftrightarrow> j < npages w \<and> \<not> bit (ipc_gscco_free_page_mask (pool t)) j" for j
  proof (cases "\<exists>k < unat (ipc_gscco_page_count w). unat a = base + 65536 * k")
    case True
    then obtain k' where "unat a = base + 65536 * k'" by blast
    moreover from page_of_address(2) [OF i this] have "k = k'" by (simp add: k_def)
    ultimately have ak: "unat a = base + 65536 * k" by simp
    have mask: "ipc_gscco_free_page_mask (pool t) = ipc_gscco_free_page_mask w OR push_bit k 1"
      using assms(2) f True page_of_address(1) [OF i, of a]
      unfolding client_free_def tsec_comms_free_gscco_mem_def Let_def w_def a_def k_def by auto
    have "bit (ipc_gscco_free_page_mask (pool t)) j \<longleftrightarrow> bit (ipc_gscco_free_page_mask w) j \<or> j = k" if "j < 64"
      unfolding mask using that by (auto simp: bit_simps)
    then show ?thesis using js(3) ak by (auto simp: js'_def npages_def)
  next
    case False
    then have "ipc_gscco_free_page_mask (pool t) = ipc_gscco_free_page_mask w"
      using assms(2) f page_of_address(1) [OF i, of a]
      unfolding client_free_def tsec_comms_free_gscco_mem_def Let_def w_def a_def by (auto split: if_splits)
    moreover have "j < npages w \<Longrightarrow> base + 65536 * j \<noteq> unat a" using False by (auto simp: npages_def)
    ultimately show ?thesis using js(3) by (auto simp: js'_def)
  qed
  ultimately show ?thesis using i by (auto simp: use_inv_def)
qed

text \<open>
  The free pages are those of the mask of the driver, the held ones those that the clients have: the interpretation says that
  they divide the carveout at all times.
\<close>

interpretation pages: nonempty_allocator use_inv given "\<lambda>u. free_pages (pool u)" client_alloc client_free
proof
  fix base len :: nat and u
  assume inv: "use_inv base len u"
  then have i: "pages_inv base len (pool u)" by (simp add: use_inv_def)
  obtain js where js: "given u = map (page_chunk (pool u)) js" "distinct js"
    "\<forall>j. j \<in> set js \<longleftrightarrow> j < npages (pool u) \<and> \<not> bit (ipc_gscco_free_page_mask (pool u)) j"
    using inv by (auto simp: use_inv_def)
  let ?held = "filter (\<lambda>i. \<not> bit (ipc_gscco_free_page_mask (pool u)) i) [0..<npages (pool u)]"
  have "mset js = mset ?held" using js(2,3) by (intro set_eq_iff_mset_eq_distinct [THEN iffD1]) auto
  then have "mset (given u) = mset (map (page_chunk (pool u)) ?held)" unfolding js(1) by simp
  then have "cover (given u) x = cover (map (page_chunk (pool u)) ?held) x" for x by (rule cover_mset)
  then have "cover (free_pages (pool u)) x + cover (given u) x = of_bool (base \<le> x \<and> x < base + len)" for x
    using cover_pages [OF i order_refl, of x] i by (simp add: free_pages_def cover_partition pages_inv_def)
  with i show "divided base len (free_pages (pool u)) (given u)" by (auto simp: divided_def pages_inv_def)
  show "lo c < hi c" if "c \<in> set (given u)" for c
    using that page_chunk_at [OF i] js by auto
  have "inj_on (ch_id \<circ> page_chunk (pool u)) {0..<npages (pool u)}"
    by (rule inj_onI) (use page_chunk_at(3) [OF i] in auto)
  then show "distinct (map ch_id (given u))"
    using js by (auto simp: distinct_map intro: inj_on_subset)
qed (rule client_alloc_inv client_free_inv; assumption)+

text \<open>What an allocation gives after any use: a page apart from every page that a client has, or none when all are taken.\<close>

lemma alloc_exclusive:
  assumes "use_inv base len u" "tsec_comms_alloc_mem_from_gscco n off (pool u) = (va, off', w')"
  shows "if va = 0 then 0x10000 < n \<or> length (given u) = npages (pool u)
    else base \<le> unat va \<and> unat va + 65536 \<le> base + len \<and> off' = map_option (\<lambda>_. ucast (va - ipc_gscco_base (pool u))) off
      \<and> (\<forall>c\<in>set (given u). hi c \<le> unat va \<or> unat va + 65536 \<le> lo c)"
proof -
  let ?w = "pool u"
  have i: "pages_inv base len ?w" using assms(1) by (simp add: use_inv_def)
  then have ci: "comms_initialised ?w" "ipc_gscco_page_size ?w = 0x10000" "ipc_gscco_page_base ?w \<noteq> 0" "len = 65536 * npages ?w"
    unfolding pages_inv_def by blast+
  obtain js where js: "given u = map (page_chunk ?w) js" "distinct js"
    "\<forall>j. j \<in> set js \<longleftrightarrow> j < npages ?w \<and> \<not> bit (ipc_gscco_free_page_mask ?w) j"
    using assms(1) by (auto simp: use_inv_def)
  show ?thesis
  proof (cases "va = 0")
    case True
    have "length (given u) = npages ?w" if "\<not> 0x10000 < n"
    proof -
      have none: "\<not> bit (ipc_gscco_free_page_mask ?w) j" if j: "j < npages ?w" for j
      proof
        assume b: "bit (ipc_gscco_free_page_mask ?w) j"
        then have "ipc_gscco_free_page_mask ?w \<noteq> 0" by auto
        from find_page_first [OF this] obtain i where f: "i < 64" "bit (ipc_gscco_free_page_mask ?w) i"
          "\<forall>k<i. \<not> bit (ipc_gscco_free_page_mask ?w) k" "find_page 64 (ipc_gscco_free_page_mask ?w) 1 0 = (push_bit i 1, of_nat i)"
          by blast
        have "i \<le> j" using f(3) b by (meson not_le)
        with j have ij: "i < npages ?w" by simp
        have u: "(ucast (of_nat i :: u32) :: u64) = of_nat i" using f(1) by (simp add: unsigned_of_nat take_bit_nat_eq_self)
        have "\<not> ipc_gscco_page_count ?w \<le> of_nat i"
          using ij f(1) by (simp add: npages_def word_le_nat_alt unat_of_nat)
        moreover have "unat n < 4294967296" using unsigned_less [of n, where ?'a = nat] by simp
        then have "\<not> (0x10000 :: u64) < ucast n" using \<open>\<not> 0x10000 < n\<close>
          by (simp add: word_less_nat_alt unsigned_ucast_eq take_bit_nat_eq_self)
        ultimately have "va = ipc_gscco_page_base ?w + of_nat i * 0x10000"
          using assms(2) f(4) ci \<open>ipc_gscco_free_page_mask ?w \<noteq> 0\<close> u
          by (auto simp: tsec_comms_alloc_mem_from_gscco_def tsec_comms_get_gscco_page_def split: if_splits)
        then have "unat va = base + 65536 * i"
          using page_chunk_at(3) [OF i ij] ci by (simp add: page_chunk_def Let_def)
        moreover have "base = unat (ipc_gscco_page_base ?w)" using i by (simp add: pages_inv_def)
        then have "0 < base" using ci(3) by (simp add: unat_gt_0)
        ultimately show False using True by simp
      qed
      then have "set js = {0..<npages ?w}" using js(3) by auto
      with js(1,2) show ?thesis by (metis card_atLeastLessThan diff_zero distinct_card length_map)
    qed
    with True show ?thesis by auto
  next
    case False
    from alloc_result [OF ci(1) assms(2) False] obtain j where
      j: "j < npages ?w" "bit (ipc_gscco_free_page_mask ?w) j"
        "va = ipc_gscco_page_base ?w + of_nat j * ipc_gscco_page_size ?w"
        "off' = map_option (\<lambda>_. ucast (ipc_gscco_page_base ?w - ipc_gscco_base ?w + of_nat j * ipc_gscco_page_size ?w)) off"
      by blast
    have va: "unat va = base + 65536 * j" using page_chunk_at(3) [OF i j(1)] j(3) by (simp add: page_chunk_def Let_def)
    have apart: "hi c \<le> unat va \<or> unat va + 65536 \<le> lo c" if c: "c \<in> set (given u)" for c
    proof -
      obtain x where x: "x < npages ?w" "\<not> bit (ipc_gscco_free_page_mask ?w) x" "c = page_chunk ?w x"
        using c js by auto
      with j(2) have "x < j \<or> j < x" by (metis nat_neq_iff)
      then show ?thesis using page_chunk_at [OF i x(1)] x(3) va by auto
    qed
    have "ipc_gscco_page_base ?w - ipc_gscco_base ?w + of_nat j * ipc_gscco_page_size ?w = va - ipc_gscco_base ?w"
      by (simp add: j(3) algebra_simps)
    with False va ci(4) j(1,4) apart show ?thesis by auto
  qed
qed

text \<open>In a carveout that is not aligned to 64 KiB no page is ever given back.\<close>

lemma unaligned_never_released:
  assumes "pages_inv base len w" "base mod 65536 \<noteq> 0" "j < npages w"
  shows "tsec_comms_free_gscco_mem (ch_addr (page_chunk w j)) w = w\<lparr>undef := undef w\<rparr>"
proof -
  have f: "ipc_gscco_page_size w = 0x10000" using assms(1) by (simp add: pages_inv_def)
  have "unat (ch_addr (page_chunk w j)) = base + 65536 * j" using page_chunk_at(1) [OF assms(1,3)] by (simp add: lo_def)
  then have "unat (ch_addr (page_chunk w j)) mod 65536 \<noteq> 0" using assms(2) by (metis mod_mult_self2)
  then have "ch_addr (page_chunk w j) mod 0x10000 \<noteq> 0"
    by (simp add: word_unat_eq_iff unat_mod_distrib)
  with f show ?thesis by (simp add: tsec_comms_free_gscco_mem_def Let_def)
qed

subsection \<open>Initialisation\<close>

lemma initialize_without_context:
  assumes "\<not> comms_initialised w"
  shows "tsec_context_va (tsec_comms_initialize va sz w) = 0"
    "tsec_context_gscco_offset (tsec_comms_initialize va sz w) = tsec_context_gscco_offset w"
    "ipc_gscco_free_page_mask (tsec_comms_initialize va sz w) = - 1"
    "comms_initialised (tsec_comms_initialize va sz w)"
  using assms by (simp_all add: tsec_comms_initialize_def tsec_comms_alloc_ctxt_memory_def
      tsec_comms_alloc_mem_from_gscco_def Let_def)

lemma initialize_pages:
  assumes "\<not> comms_initialised w" "unat va + unat sz < 2 ^ 64" "131072 \<le> unat sz"
  shows "pages_inv (unat va + 65536) (65536 * npages (tsec_comms_initialize va sz w)) (tsec_comms_initialize va sz w)"
    "npages (tsec_comms_initialize va sz w) = min 64 ((unat sz - 65536) div 65536)"
    "unat (ipc_gscco_page_count (tsec_comms_initialize va sz w)) = (unat sz - 65536) div 65536"
    "ipc_gscco_free_page_mask (tsec_comms_initialize va sz w) = - 1"
    "65536 * npages (tsec_comms_initialize va sz w) + 65536 \<le> unat sz"
    "ipc_gscco_base (tsec_comms_initialize va sz w) = va"
proof -
  let ?i = "tsec_comms_initialize va sz w"
  let ?n = "(sz - 0x10000) div 0x10000"
  have lt: "0x10000 < sz" using assms(3) by (simp add: word_less_nat_alt)
  have n: "unat ?n = (unat sz - 65536) div 65536"
    using assms(3) by (simp add: unat_div_distrib unat_sub word_le_nat_alt)
  have "0 < unat ?n" using assms(3) by (simp add: n)
  then have n0: "?n \<noteq> 0" by (metis less_irrefl unat_0)
  have f: "ipc_gscco_page_count ?i = ?n" "ipc_gscco_page_base ?i = va + 0x10000" "ipc_gscco_page_size ?i = 0x10000"
    "ipc_gscco_free_page_mask ?i = - 1" "comms_initialised ?i" "ipc_gscco_base ?i = va"
    using assms(1) lt n0 by (simp_all add: tsec_comms_initialize_def tsec_comms_alloc_ctxt_memory_def
      tsec_comms_alloc_mem_from_gscco_def Let_def)
  show "ipc_gscco_base ?i = va" by (rule f(6))
  have b: "unat (va + 0x10000) = unat va + 65536" using assms(2,3) by (simp add: unat_word_ariths)
  have "npages ?i \<le> (unat sz - 65536) div 65536" unfolding npages_def f(1) n by simp
  then show l: "65536 * npages ?i + 65536 \<le> unat sz" using assms(3) by linarith
  have "va + 0x10000 \<noteq> 0" using b by (metis add_is_0 unat_0 zero_neq_numeral)
  with f b l assms(2) show "pages_inv (unat va + 65536) (65536 * npages ?i) ?i"
    by (simp add: pages_inv_def)
  show "npages ?i = min 64 ((unat sz - 65536) div 65536)" "unat (ipc_gscco_page_count ?i) = (unat sz - 65536) div 65536"
    "ipc_gscco_free_page_mask ?i = - 1"
    unfolding npages_def f(1,4) n by simp_all
qed

lemma initialize_use:
  assumes "\<not> comms_initialised w" "unat va + unat sz < 2 ^ 64" "131072 \<le> unat sz" "unat va mod 65536 = 0"
  shows "use_inv (unat va + 65536) (65536 * npages (tsec_comms_initialize va sz w)) \<lparr>pool = tsec_comms_initialize va sz w, given = []\<rparr>"
proof -
  note i = initialize_pages [OF assms(1-3)]
  have "65536 * ((unat sz - 65536) div 65536) \<le> unat sz - 65536" by (rule times_div_less_eq_dividend)
  then have "unat va + 65536 + 65536 * ((unat sz - 65536) div 65536) < 2 ^ 64" using assms(2,3) by linarith
  moreover have "(unat va + 65536) mod 65536 = 0" using assms(4) by (metis mod_add_self2)
  moreover have "bit (- 1 :: u64) j" if "j < npages (tsec_comms_initialize va sz w)" for j
    using that unfolding i(2) by (simp add: bit_simps)
  ultimately show ?thesis using i(1,3,4) by (auto simp: use_inv_def)
qed

section \<open>Theorems\<close>

lemma initialized_exclusive:
  assumes "\<not> comms_initialised w0" "unat co + unat sz < 2 ^ 64" "131072 \<le> unat sz" "unat co mod 65536 = 0"
    "u = alloc_run client_alloc client_free ops \<lparr>pool = tsec_comms_initialize co sz w0, given = []\<rparr>"
    "tsec_comms_alloc_mem_from_gscco n off (pool u) = (va, off', w')"
  shows "(\<forall>c\<in>set (given u). \<forall>d\<in>set (given u). ch_id c \<noteq> ch_id d \<longrightarrow> hi c \<le> lo d \<or> hi d \<le> lo c)
    \<and> (if va = 0 then 0x10000 < n \<or> length (given u) = min 64 ((unat sz - 65536) div 65536)
       else unat co + 65536 \<le> unat va \<and> unat va + 65536 \<le> unat co + unat sz \<and> off' = map_option (\<lambda>_. ucast (va - co)) off
         \<and> (\<forall>c\<in>set (given u). hi c \<le> unat va \<or> unat va + 65536 \<le> lo c))"
proof -
  let ?i = "tsec_comms_initialize co sz w0"
  note i = initialize_pages [OF assms(1-3)]
  note start = initialize_use [OF assms(1-4)]
  have inv: "use_inv (unat co + 65536) (65536 * npages ?i) u"
    unfolding assms(5) by (rule pages.run_inv [OF start])
  have apart: "\<forall>c\<in>set (given u). \<forall>d\<in>set (given u). ch_id c \<noteq> ch_id d \<longrightarrow> hi c \<le> lo d \<or> hi d \<le> lo c"
    unfolding assms(5) using pages.run_held_apart [OF start] by blast
  have b: "unat (ipc_gscco_page_base (pool u)) = unat co + 65536" "ipc_gscco_page_base (pool u) = ipc_gscco_base (pool u) + 0x10000"
    "npages (pool u) = npages ?i"
    using inv by (simp_all add: use_inv_def pages_inv_def)
  have "unat (co + 0x10000) = unat co + 65536" using assms(2,3) by (simp add: unat_word_ariths)
  with b have "co + 0x10000 = ipc_gscco_base (pool u) + 0x10000" by (metis word_unat_eq_iff)
  then have "ipc_gscco_base (pool u) = co" by simp
  moreover have "unat va + 65536 \<le> unat co + 65536 + 65536 * npages ?i \<Longrightarrow> unat va + 65536 \<le> unat co + unat sz"
    using i(5) by linarith
  ultimately show ?thesis using alloc_exclusive [OF inv assms(6)] apart unfolding b(3) i(2) by (auto split: if_splits)
qed

text \<open>
  C31. After the initialisation with a carveout of at least 128 KiB that is aligned to 64 KiB, and any sequence of allocations by clients and
  releases of any addresses, the pages that clients were given and have not released lie apart from each other. A page allocated next lies
  inside the carveout and behind its first page, apart from all these, and the offset returned is that of its address. None is
  allocated only if the size is more than a page, or the clients have all pages (at most 64). In a carveout that is not aligned no
  page is ever given back (a finding); the release of an address behind the 64th page shifts by 64 or more, which is taken to have no effect.
\<close>

theorem tsec_pages_exclusive:
  assumes "\<not> comms_initialised w0" "unat co + unat sz < 2 ^ 64" "131072 \<le> unat sz" "unat co mod 65536 = 0"
    "u = alloc_run client_alloc client_free ops \<lparr>pool = tsec_comms_initialize co sz w0, given = []\<rparr>"
    "tsec_comms_alloc_mem_from_gscco n off (pool u) = (va, off', w')"
  shows "(\<forall>c\<in>set (given u). \<forall>d\<in>set (given u). ch_id c \<noteq> ch_id d \<longrightarrow> hi c \<le> lo d \<or> hi d \<le> lo c)
    \<and> (if va = 0 then 0x10000 < n \<or> length (given u) = min 64 ((unat sz - 65536) div 65536)
       else unat co + 65536 \<le> unat va \<and> unat va + 65536 \<le> unat co + unat sz \<and> off' = map_option (\<lambda>_. ucast (va - co)) off
         \<and> (\<forall>c\<in>set (given u). hi c \<le> unat va \<or> unat va + 65536 \<le> lo c))"
  by (rule initialized_exclusive [OF assms])

theorem tsec_pages_exclusive_witness:
  "\<exists>va off' w' (u :: page_use). tsec_comms_alloc_mem_from_gscco 4096 (Some 0) (pool u) = (va, off', w')
     \<and> map ch_id (given u) = [0x80020000] \<and> va = 0x80010000 \<and> off' = Some (ucast (va - 0x80000000))"
proof -
  let ?u = "(sample_tsec (sample_hw 0 0))\<lparr>comms_initialised := False\<rparr>"
  let ?v = "tsec_comms_initialize 0x80000000 0x40000 ?u"
  let ?ops = "[Reserve 100, Reserve 200, Release 0x80010000]"
  define u where "u = alloc_run client_alloc client_free ?ops \<lparr>pool = ?v, given = []\<rparr>"
  have ni: "\<not> comms_initialised ?u" by (simp add: sample_tsec_def)
  have f: "find_page 64 (- 1) 1 0 = (1, 0)" "find_page 64 (- 2) 1 0 = (2, 1)" "find_page 64 (- 3) 1 0 = (1, 0)"
    by (simp_all add: numeral_eq_Suc)
  have w1: "comms_initialised ?v" "ipc_gscco_page_count ?v = 3" "ipc_gscco_page_base ?v = 0x80010000"
    "ipc_gscco_page_size ?v = 0x10000" "ipc_gscco_free_page_mask ?v = - 1" "ipc_gscco_base ?v = 0x80000000"
    using ni by (simp_all add: tsec_comms_initialize_def tsec_comms_alloc_ctxt_memory_def
      tsec_comms_alloc_mem_from_gscco_def Let_def)
  have lt: "\<not> (3 :: u64) \<le> 1" by (simp add: word_le_nat_alt)
  have "u = \<lparr>pool = ?v\<lparr>ipc_gscco_free_page_mask := - 3, undef := undef ?v\<rparr>, given = [\<lparr>ch_id = 0x80020000, ch_addr = 0x80020000, ch_size = 0x10000\<rparr>]\<rparr>"
    using w1 lt by (simp add: u_def client_alloc_def client_free_def tsec_comms_alloc_mem_from_gscco_def tsec_comms_get_gscco_page_def f
      tsec_comms_free_gscco_mem_def Let_def list_del_def)
  then have g: "map ch_id (given u) = [0x80020000]" and p: "pool u = ?v\<lparr>ipc_gscco_free_page_mask := - 3, undef := undef ?v\<rparr>"
    by simp_all
  obtain va off' w' where a: "tsec_comms_alloc_mem_from_gscco 4096 (Some 0) (pool u) = (va, off', w')"
    by (metis prod.collapse)
  then have "va = 0x80010000"
    using w1 unfolding p
    by (simp add: tsec_comms_alloc_mem_from_gscco_def tsec_comms_get_gscco_page_def f)
  moreover have "off' = Some (ucast (va - 0x80000000))"
    using tsec_pages_exclusive [OF ni _ _ _ u_def a] \<open>va = 0x80010000\<close> by simp
  ultimately show ?thesis using a g
    by (intro exI [of _ va] exI [of _ off'] exI [of _ w'] exI [of _ u] conjI)
qed

text \<open>
  C33. The initialisation asks for the page of the context before it marks the library as initialised, so it
  gets none: the engine is then told to save its context at offset 0 of the carveout, where the boot flag
  and the queues are, and to boot from there.
\<close>

theorem tsec_context_not_allocated:
  assumes "\<not> comms_initialised w" "tsec_context_gscco_offset w = 0" "w' = tsec_comms_initialize va sz w"
  shows "comms_initialised w' \<and> tsec_context_va w' = 0 \<and> ipc_gscco_free_page_mask w' = - 1
    \<and> take 8 (drop 8 (getctxt_cmd p w')) = le32 0 @ le32 0
    \<and> readl (gscco (hw (tsec_comms_poweron_with_context w'))) (unat (ipc_gscco_base w') + 8) = 0"
  using initialize_without_context [OF assms(1), of va sz] assms(2,3)
  by (simp add: getctxt_cmd_def le32_def tsec_comms_poweron_with_context_def log_event_def boot_info_write_def Let_def
      mem_simps)

theorem tsec_context_not_allocated_witness:
  "tsec_context_va (tsec_comms_initialize 0x80000000 0x40000
     ((sample_tsec (sample_hw 0 0))\<lparr>comms_initialised := False\<rparr>)) = 0"
  using tsec_context_not_allocated [OF _ _ refl, of "(sample_tsec (sample_hw 0 0))\<lparr>comms_initialised := False\<rparr>"]
  by (simp add: sample_tsec_def)

end
