(* ===== verification/Host1x_Stream.thy ===== *)
theory Host1x_Stream
  imports Prelude
begin

text \<open>
  What the host1x hardware does with a stream of command words, as the drivers decode it for debug output
  (\<open>show_channel_command\<close> in \<open>gpu/host1x/hw/debug_hw.c\<close>): a list of register writes and class changes, and for
  each word the register it goes to. Both firewalls (\<open>Drm_Firewall\<close>, \<open>Host1x_Job\<close>) are compared with it.
  Commands that continue elsewhere (RESTART, GATHER and their wide forms), or change the stream, have no meaning here.
\<close>

abbreviation (input) HOST1X_OPCODE_SETCLASS :: u32 where "HOST1X_OPCODE_SETCLASS \<equiv> 0x00"
abbreviation (input) HOST1X_OPCODE_INCR :: u32 where "HOST1X_OPCODE_INCR \<equiv> 0x01"
abbreviation (input) HOST1X_OPCODE_NONINCR :: u32 where "HOST1X_OPCODE_NONINCR \<equiv> 0x02"
abbreviation (input) HOST1X_OPCODE_MASK :: u32 where "HOST1X_OPCODE_MASK \<equiv> 0x03"
abbreviation (input) HOST1X_OPCODE_IMM :: u32 where "HOST1X_OPCODE_IMM \<equiv> 0x04"
abbreviation (input) HOST1X_OPCODE_SETPYLD :: u32 where "HOST1X_OPCODE_SETPYLD \<equiv> 0x09"
abbreviation (input) HOST1X_OPCODE_INCR_W :: u32 where "HOST1X_OPCODE_INCR_W \<equiv> 0x0a"
abbreviation (input) HOST1X_OPCODE_NONINCR_W :: u32 where "HOST1X_OPCODE_NONINCR_W \<equiv> 0x0b"
abbreviation (input) HOST1X_OPCODE_EXTEND :: u32 where "HOST1X_OPCODE_EXTEND \<equiv> 0x0e"

subsection \<open>What the hardware does with a stream\<close>

datatype host1x_action = Set_class u32 | Reg_write u32 u32 u32 | Imm_write u32 u32 u32 | Set_payload u32 | Extend u32

definition seq_offsets :: "u32 \<Rightarrow> nat \<Rightarrow> bool \<Rightarrow> u32 list" where
  "seq_offsets offset n incr = map (\<lambda>i. if incr then offset + of_nat i else offset) [0..<n]"

definition mask_offsets :: "u32 \<Rightarrow> u32 \<Rightarrow> u32 list" where
  "mask_offsets offset msk = map (\<lambda>b. offset + of_nat b) (filter (bit msk) [0..<16])"

text \<open>
  A command word: what it does at once, class and payload afterwards, and the registers to which the words
  that follow go.
\<close>

definition host1x_opcode :: "u32 \<Rightarrow> u32 option \<Rightarrow> u32
    \<Rightarrow> (host1x_action list \<times> u32 \<times> u32 option \<times> u32 list) option" where
  "host1x_opcode c p w =
     (let opcode = drop_bit 28 w; offset = drop_bit 16 w AND 0xfff in
      if opcode = HOST1X_OPCODE_SETCLASS then
        let c' = drop_bit 6 w AND 0x3ff in Some ([Set_class c'], c', p, mask_offsets offset (w AND 0x3f))
      else if opcode = HOST1X_OPCODE_INCR then Some ([], c, p, seq_offsets offset (unat (w AND 0xffff)) True)
      else if opcode = HOST1X_OPCODE_NONINCR then Some ([], c, p, seq_offsets offset (unat (w AND 0xffff)) False)
      else if opcode = HOST1X_OPCODE_MASK then Some ([], c, p, mask_offsets offset (w AND 0xffff))
      else if opcode = HOST1X_OPCODE_IMM then Some ([Imm_write c offset (w AND 0xffff)], c, p, [])
      else if opcode = HOST1X_OPCODE_SETPYLD then Some ([Set_payload (w AND 0xffff)], c, Some (w AND 0xffff), [])
      else if opcode = HOST1X_OPCODE_INCR_W \<or> opcode = HOST1X_OPCODE_NONINCR_W then
        map_option (\<lambda>n. ([], c, p, seq_offsets (w AND 0x3fffff) (unat n) (opcode = HOST1X_OPCODE_INCR_W))) p
      else if opcode = HOST1X_OPCODE_EXTEND then Some ([Extend (w AND 0xfffffff)], c, p, [])
      else None)"

fun host1x_stream :: "u32 \<Rightarrow> u32 option \<Rightarrow> u32 list \<Rightarrow> host1x_action list option" where
  "host1x_stream c p [] = Some []"
| "host1x_stream c p (w # ws) =
     (case host1x_opcode c p w of
        None \<Rightarrow> None
      | Some (acts, c', p', offs) \<Rightarrow>
          if length ws < length offs then None
          else map_option (\<lambda>rest. acts @ map2 (Reg_write c') offs ws @ rest)
                 (host1x_stream c' p' (drop (length offs) ws)))"

text \<open>The register, with its class, that each word of a stream goes to; none for a command word.\<close>

fun host1x_labels :: "u32 \<Rightarrow> u32 option \<Rightarrow> u32 list \<Rightarrow> (u32 \<times> u32) option list option" where
  "host1x_labels c p [] = Some []"
| "host1x_labels c p (w # ws) =
     (case host1x_opcode c p w of
        None \<Rightarrow> None
      | Some (acts, c', p', offs) \<Rightarrow>
          if length ws < length offs then None
          else map_option (\<lambda>rest. None # map (\<lambda>r. Some (c', r)) offs @ rest)
                 (host1x_labels c' p' (drop (length offs) ws)))"

definition last_class :: "u32 \<Rightarrow> host1x_action list \<Rightarrow> u32" where
  "last_class c acts = foldl (\<lambda>c a. case a of Set_class c' \<Rightarrow> c' | _ \<Rightarrow> c) c acts"

lemma seq_offsets_simps:
  "seq_offsets offset 0 incr = []"
  "seq_offsets offset (Suc n) incr = offset # seq_offsets (if incr then offset + 1 else offset) n incr"
proof -
  have "seq_offsets offset (Suc n) incr
      = (if incr then offset + of_nat 0 else offset) # map (\<lambda>i. if incr then offset + of_nat i else offset) (map Suc [0..<n])"
    by (simp add: seq_offsets_def upt_conv_Cons map_Suc_upt del: upt_Suc)
  then show "seq_offsets offset (Suc n) incr = offset # seq_offsets (if incr then offset + 1 else offset) n incr"
    by (cases incr) (simp_all add: seq_offsets_def ac_simps)
qed (simp add: seq_offsets_def)

lemma opcode_field: "drop_bit 28 (w AND 0xf0000000) = drop_bit 28 (w :: u32)"
proof -
  have "drop_bit 28 (w AND 0xf0000000) = drop_bit 28 w AND mask 4"
    by (simp add: mask_eq_exp_minus_1 drop_bit_and)
  also have "\<dots> = take_bit 4 (drop_bit 28 w)" by (simp only: take_bit_eq_mask)
  also have "\<dots> = drop_bit 28 (take_bit 32 w)" by (simp add: drop_bit_take_bit)
  also have "take_bit 32 w = w" by (rule take_bit_word_eq_self) simp
  finally show ?thesis .
qed

lemma last_class_append: "last_class c (xs @ ys) = last_class (last_class c xs) ys"
  by (simp add: last_class_def)

lemma last_class_writes: "last_class c (map2 (Reg_write d) offs ws) = c"
  by (induction offs arbitrary: ws) (auto simp: last_class_def zip_Cons1 split: list.splits)

lemma host1x_opcode_class: "host1x_opcode c p w = Some (acts, c', p', offs) \<Longrightarrow> last_class c acts = c'"
  by (auto simp: host1x_opcode_def Let_def last_class_def split: if_splits)

lemma host1x_labels_stream: "host1x_labels c p ws = None \<longleftrightarrow> host1x_stream c p ws = None"
  by (induction c p ws rule: host1x_stream.induct) (auto split: option.splits if_splits)

lemma host1x_labels_Some: "host1x_stream c p ws = Some acts \<Longrightarrow> \<exists>ls. host1x_labels c p ws = Some ls"
  using host1x_labels_stream [of c p ws] by auto

lemma host1x_labels_length: "host1x_labels c p ws = Some ls \<Longrightarrow> length ls = length ws"
proof (induction c p ws arbitrary: ls rule: host1x_labels.induct)
  case (2 c p w ws)
  then obtain as c' p' offs rest where o: "host1x_opcode c p w = Some (as, c', p', offs)" "length offs \<le> length ws"
    "host1x_labels c' p' (drop (length offs) ws) = Some rest" "ls = None # map (\<lambda>r. Some (c', r)) offs @ rest"
    by (auto split: option.splits if_splits)
  have "length rest = length ws - length offs" using 2(1) [OF o(1) refl refl refl _ o(3)] o(2) by simp
  with o show ?case by simp
qed simp

text \<open>A stream does the same, up to the values written, when its command words are the same.\<close>

fun without_value :: "host1x_action \<Rightarrow> host1x_action" where
  "without_value (Reg_write c r v) = Reg_write c r 0"
| "without_value a = a"

lemma last_class_without_value: "last_class c (map without_value acts) = last_class c acts"
proof (induction acts arbitrary: c)
  case (Cons a acts)
  then show ?case by (cases a) (simp_all add: last_class_def)
qed simp

lemma writes_without_value:
  "length vs = length ws \<Longrightarrow> map without_value (map2 (Reg_write c) offs vs) = map without_value (map2 (Reg_write c) offs ws)"
proof (induction offs arbitrary: vs ws)
  case (Cons r offs)
  show ?case
  proof (cases vs)
    case Nil
    with Cons.prems show ?thesis by simp
  next
    case v: (Cons x xs)
    with Cons.prems obtain y ys where w: "ws = y # ys" "length xs = length ys" by (cases ws) auto
    from Cons.IH [OF w(2)] v w(1) show ?thesis by (simp del: map_map)
  qed
qed simp

lemma host1x_stream_patch:
  "host1x_stream c p ws = Some acts \<Longrightarrow> length ws' = length ws \<Longrightarrow>
   (\<And>k. k < length ws \<Longrightarrow> the (host1x_labels c p ws) ! k = None \<Longrightarrow> ws' ! k = ws ! k) \<Longrightarrow>
   \<exists>acts'. host1x_stream c p ws' = Some acts' \<and> map without_value acts' = map without_value acts
     \<and> host1x_labels c p ws' = host1x_labels c p ws"
proof (induction c p ws arbitrary: ws' acts rule: host1x_stream.induct)
  case (2 c p w ws)
  from 2(2) obtain as c' p' offs rest where o: "host1x_opcode c p w = Some (as, c', p', offs)"
    and l: "length offs \<le> length ws" and r: "host1x_stream c' p' (drop (length offs) ws) = Some rest"
    and acts: "acts = as @ map2 (Reg_write c') offs ws @ rest"
    by (auto split: option.splits if_splits)
  from host1x_labels_Some [OF r] obtain ls where ls: "host1x_labels c' p' (drop (length offs) ws) = Some ls" by blast
  have lab: "the (host1x_labels c p (w # ws)) = None # map (\<lambda>r. Some (c', r)) offs @ ls" using o l ls by simp
  from 2(3) obtain v vs where v: "ws' = v # vs" "length vs = length ws" by (cases ws') auto
  have vw: "v = w" using 2(4) [of 0] v lab by simp
  have same: "drop (length offs) vs ! k = drop (length offs) ws ! k"
    if "k < length (drop (length offs) ws)" "the (host1x_labels c' p' (drop (length offs) ws)) ! k = None" for k
    using 2(4) [of "Suc (length offs + k)"] that v lab ls by (simp add: nth_append)
  have len: "length (drop (length offs) vs) = length (drop (length offs) ws)" using v by simp
  from 2(1) [OF o refl refl refl _ r len] l same obtain rest' where IH: "host1x_stream c' p' (drop (length offs) vs) = Some rest'"
    "map without_value rest' = map without_value rest"
    "host1x_labels c' p' (drop (length offs) vs) = host1x_labels c' p' (drop (length offs) ws)" by auto
  have "map without_value (as @ map2 (Reg_write c') offs vs @ rest') = map without_value acts"
    unfolding acts map_append IH(2) writes_without_value [OF v(2)] ..
  with v vw o l IH(1,3) ls show ?case by simp
qed simp

end
