(* ===== verification/Drm_Firewall.thy ===== *)
theory Drm_Firewall
  imports Host1x_Stream
begin

text \<open>
  The firewall of the Tegra DRM driver (\<open>gpu/drm/tegra/firewall.c\<close>), which reads the command stream of a
  job before the hardware does, and the tables of address registers of the 2D engine (\<open>gpu/drm/tegra/gr2d.c\<close>).
  The firewall accepts a stream exactly when each of these is permitted.

  An access behind the end of the data is \<open>None\<close>.
\<close>

subsection \<open>Clients and mappings\<close>

record tegra_drm_mapping =
  iova :: u64
  iova_end :: u64

record tegra_drm_client =
  base_class :: u32
  is_addr_reg :: "(u32 \<Rightarrow> u32 \<Rightarrow> bool) option"
  is_valid_class :: "(u32 \<Rightarrow> bool) option"

definition HOST1X_CLASS_HOST1X :: u32 where "HOST1X_CLASS_HOST1X = 0x1"
definition HOST1X_CLASS_GR2D :: u32 where "HOST1X_CLASS_GR2D = 0x51"
definition HOST1X_CLASS_GR2D_SB :: u32 where "HOST1X_CLASS_GR2D_SB = 0x52"
definition GR2D_NUM_REGS :: u32 where "GR2D_NUM_REGS = 0x4d"

definition gr2d_addr_regs :: "u32 list" where
  "gr2d_addr_regs = [0x1a, 0x1b, 0x26, 0x2b, 0x2c, 0x2d, 0x31, 0x32, 0x47, 0x48, 0x49, 0x4a, 0x4b, 0x4c]"

definition gr2d_is_addr_reg :: "u32 \<Rightarrow> u32 \<Rightarrow> bool" where
  "gr2d_is_addr_reg class offset =
     (if class = HOST1X_CLASS_HOST1X then offset = 0x2b
      else if class = HOST1X_CLASS_GR2D \<or> class = HOST1X_CLASS_GR2D_SB
      then offset < GR2D_NUM_REGS \<and> offset \<in> set gr2d_addr_regs
      else False)"

definition gr2d_is_valid_class :: "u32 \<Rightarrow> bool" where
  "gr2d_is_valid_class class \<longleftrightarrow> class = HOST1X_CLASS_GR2D \<or> class = HOST1X_CLASS_GR2D_SB"

definition HOST1X_CLASS_GR3D :: u32 where "HOST1X_CLASS_GR3D = 0x60"
definition GR3D_NUM_REGS :: u32 where "GR3D_NUM_REGS = 0xe88"

definition gr3d_addr_regs :: "u32 list" where
  "gr3d_addr_regs = map (\<lambda>x. 0x100 + of_nat x * 2) [0..<16] @ [0x121, 0x415, 0x417, 0x419]
     @ map (\<lambda>x. 0x710 + of_nat x) [0..<16] @ [0x904] @ map (\<lambda>x. 0xe00 + of_nat x) [0..<16] @ [0xe2a]
     @ map (\<lambda>x. 0xe30 + of_nat x) [0..<16] @ map (\<lambda>x. 0xe50 + of_nat x) [0..<16]
     @ map (\<lambda>x. 0xe60 + of_nat x) [0..<16]"

definition gr3d_is_addr_reg :: "u32 \<Rightarrow> u32 \<Rightarrow> bool" where
  "gr3d_is_addr_reg class offset =
     (if class = HOST1X_CLASS_HOST1X then offset = 0x2b
      else if class = HOST1X_CLASS_GR3D then offset < GR3D_NUM_REGS \<and> offset \<in> set gr3d_addr_regs
      else False)"

definition gr3d_client :: tegra_drm_client where
  "gr3d_client = \<lparr>base_class = HOST1X_CLASS_GR3D, is_addr_reg = Some gr3d_is_addr_reg, is_valid_class = None\<rparr>"

definition gr2d_client :: tegra_drm_client where
  "gr2d_client = \<lparr>base_class = HOST1X_CLASS_GR2D, is_addr_reg = Some gr2d_is_addr_reg,
     is_valid_class = Some gr2d_is_valid_class\<rparr>"

subsection \<open>The firewall\<close>

record tegra_drm_firewall =
  fw_pos :: u32
  fw_end :: u32
  fw_class :: u32

type_synonym fw_status = "(int \<times> tegra_drm_firewall) option"

definition fw_next :: "u32 list \<Rightarrow> tegra_drm_firewall \<Rightarrow> ((int + u32) \<times> tegra_drm_firewall) option" where
  "fw_next data fw =
     (if fw_pos fw = fw_end fw then Some (Inl (- EINVAL), fw)
      else if length data \<le> unat (fw_pos fw) then None
      else Some (Inr (data ! unat (fw_pos fw)), fw\<lparr>fw_pos := fw_pos fw + 1\<rparr>))"

definition fw_check_addr_valid :: "tegra_drm_mapping list \<Rightarrow> u32 \<Rightarrow> bool" where
  "fw_check_addr_valid ms offset = list_ex (\<lambda>m. iova m \<le> ucast offset \<and> ucast offset \<le> iova_end m) ms"

definition fw_check_reg :: "tegra_drm_client \<Rightarrow> tegra_drm_mapping list \<Rightarrow> u32 list \<Rightarrow> u32
    \<Rightarrow> tegra_drm_firewall \<Rightarrow> fw_status" where
  "fw_check_reg client ms data offset fw = do {
     (r, fw) \<leftarrow> fw_next data fw;
     case r of
       Inl err \<Rightarrow> Some (err, fw)
     | Inr word \<Rightarrow>
         (case is_addr_reg client of
            None \<Rightarrow> Some (0, fw)
          | Some addr_reg \<Rightarrow>
              if \<not> addr_reg (fw_class fw) offset then Some (0, fw)
              else if \<not> fw_check_addr_valid ms word then Some (- EINVAL, fw)
              else Some (0, fw))
   }"

fun fw_check_regs_seq :: "tegra_drm_client \<Rightarrow> tegra_drm_mapping list \<Rightarrow> u32 list \<Rightarrow> u32 \<Rightarrow> nat \<Rightarrow> bool
    \<Rightarrow> tegra_drm_firewall \<Rightarrow> fw_status" where
  "fw_check_regs_seq client ms data offset 0 incr fw = Some (0, fw)"
| "fw_check_regs_seq client ms data offset (Suc n) incr fw = do {
     (err, fw) \<leftarrow> fw_check_reg client ms data offset fw;
     if err \<noteq> 0 then Some (- EINVAL, fw)
     else fw_check_regs_seq client ms data (if incr then offset + 1 else offset) n incr fw
   }"

fun for_each_set_bit :: "tegra_drm_client \<Rightarrow> tegra_drm_mapping list \<Rightarrow> u32 list \<Rightarrow> u32 \<Rightarrow> u16 \<Rightarrow> nat list
    \<Rightarrow> tegra_drm_firewall \<Rightarrow> fw_status" where
  "for_each_set_bit client ms data offset bmask [] fw = Some (0, fw)"
| "for_each_set_bit client ms data offset bmask (b # bs) fw =
     (if \<not> bit bmask b then for_each_set_bit client ms data offset bmask bs fw
      else do {
        (err, fw) \<leftarrow> fw_check_reg client ms data (offset + of_nat b) fw;
        if err \<noteq> 0 then Some (- EINVAL, fw)
        else for_each_set_bit client ms data offset bmask bs fw
      })"

definition fw_check_regs_mask :: "tegra_drm_client \<Rightarrow> tegra_drm_mapping list \<Rightarrow> u32 list \<Rightarrow> u32 \<Rightarrow> u16
    \<Rightarrow> tegra_drm_firewall \<Rightarrow> fw_status" where
  "fw_check_regs_mask client ms data offset msk fw = for_each_set_bit client ms data offset msk [0..<16] fw"

definition fw_check_regs_imm :: "tegra_drm_client \<Rightarrow> u32 \<Rightarrow> tegra_drm_firewall \<Rightarrow> int" where
  "fw_check_regs_imm client offset fw =
     (case is_addr_reg client of
        None \<Rightarrow> 0
      | Some addr_reg \<Rightarrow> if addr_reg (fw_class fw) offset then - EINVAL else 0)"

definition fw_check_class :: "tegra_drm_client \<Rightarrow> u32 \<Rightarrow> int" where
  "fw_check_class client class =
     (case is_valid_class client of
        None \<Rightarrow> if class = base_class client then 0 else - EINVAL
      | Some valid \<Rightarrow> if \<not> valid class then - EINVAL else 0)"

text \<open>
  One turn of the loop: the error, the firewall, the class of the job and the payload (\<open>None\<close>: not yet
  valid). The printed warnings are left out.
\<close>

definition fw_command :: "tegra_drm_client \<Rightarrow> tegra_drm_mapping list \<Rightarrow> u32 list \<Rightarrow> u32
    \<Rightarrow> tegra_drm_firewall \<Rightarrow> u32 \<Rightarrow> u32 option \<Rightarrow> (int \<times> tegra_drm_firewall \<times> u32 \<times> u32 option) option" where
  "fw_command client ms data word fw job_class payload =
     (let opcode = drop_bit 28 (word AND 0xf0000000) in
      if opcode = HOST1X_OPCODE_SETCLASS then
        let offset = drop_bit 16 word AND 0xfff; msk = word AND 0x3f; class = drop_bit 6 word AND 0x3ff;
            err = fw_check_class client class; fw = fw\<lparr>fw_class := class\<rparr>
        in if err \<noteq> 0 then Some (err, fw, class, payload)
           else do {
             (err, fw) \<leftarrow> fw_check_regs_mask client ms data offset (ucast msk) fw;
             Some (err, fw, class, payload)
           }
      else if opcode = HOST1X_OPCODE_INCR then
        let offset = drop_bit 16 word AND 0xfff; count = word AND 0xffff
        in do {
          (err, fw) \<leftarrow> fw_check_regs_seq client ms data offset (unat count) True fw;
          Some (err, fw, job_class, payload)
        }
      else if opcode = HOST1X_OPCODE_NONINCR then
        let offset = drop_bit 16 word AND 0xfff; count = word AND 0xffff
        in do {
          (err, fw) \<leftarrow> fw_check_regs_seq client ms data offset (unat count) False fw;
          Some (err, fw, job_class, payload)
        }
      else if opcode = HOST1X_OPCODE_MASK then
        let offset = drop_bit 16 word AND 0xfff; msk = word AND 0xffff
        in do {
          (err, fw) \<leftarrow> fw_check_regs_mask client ms data offset (ucast msk) fw;
          Some (err, fw, job_class, payload)
        }
      else if opcode = HOST1X_OPCODE_IMM then
        let offset = drop_bit 16 word AND 0xfff
        in Some (fw_check_regs_imm client offset fw, fw, job_class, payload)
      else if opcode = HOST1X_OPCODE_SETPYLD then Some (0, fw, job_class, Some (word AND 0xffff))
      else if opcode = HOST1X_OPCODE_INCR_W \<or> opcode = HOST1X_OPCODE_NONINCR_W then
        (case payload of
           None \<Rightarrow> Some (- EINVAL, fw, job_class, payload)
         | Some n \<Rightarrow>
             let offset = word AND 0x3fffff
             in do {
               (err, fw) \<leftarrow> fw_check_regs_seq client ms data offset (unat n) (opcode = HOST1X_OPCODE_INCR_W) fw;
               Some (err, fw, job_class, payload)
             })
      else Some (- EINVAL, fw, job_class, payload))"

text \<open>Every turn takes a word, and nothing reads past the end; so the loop ends.\<close>

definition fw_left :: "tegra_drm_firewall \<Rightarrow> nat" where
  "fw_left fw = unat (fw_end fw - fw_pos fw)"

lemma fw_left_step: "fw_pos fw \<noteq> fw_end fw \<Longrightarrow> fw_left (fw\<lparr>fw_pos := fw_pos fw + 1\<rparr>) < fw_left fw"
proof -
  assume "fw_pos fw \<noteq> fw_end fw"
  then have "fw_end fw - fw_pos fw \<noteq> 0" by simp
  then have "unat (fw_end fw - fw_pos fw - 1) < unat (fw_end fw - fw_pos fw)"
    by (simp add: unat_minus_one unat_gt_0)
  then show ?thesis by (simp add: fw_left_def diff_diff_eq)
qed

lemma fw_next_left:
  "fw_next data fw = Some (r, fw') \<Longrightarrow> fw_left fw' \<le> fw_left fw \<and> (\<forall>w. r = Inr w \<longrightarrow> fw_left fw' < fw_left fw)"
  using fw_left_step [of fw] by (auto simp: fw_next_def split: if_splits)

lemma fw_check_reg_left: "fw_check_reg client ms data offset fw = Some (err, fw') \<Longrightarrow> fw_left fw' \<le> fw_left fw"
  unfolding fw_check_reg_def
  by (cases "fw_next data fw"; clarsimp split: sum.splits option.splits if_splits; auto dest: fw_next_left)

lemma fw_check_regs_seq_left:
  "fw_check_regs_seq client ms data offset n incr fw = Some (err, fw') \<Longrightarrow> fw_left fw' \<le> fw_left fw"
proof (induction n arbitrary: offset fw)
  case (Suc n)
  then show ?case
    by (cases incr) (auto simp: bind_eq_Some_conv split: if_splits dest!: fw_check_reg_left Suc.IH intro: order_trans)
qed simp

lemma for_each_set_bit_left:
  "for_each_set_bit client ms data offset msk bs fw = Some (err, fw') \<Longrightarrow> fw_left fw' \<le> fw_left fw"
proof (induction bs arbitrary: fw)
  case (Cons b bs)
  then show ?case
    by (auto simp: bind_eq_Some_conv split: if_splits dest!: fw_check_reg_left Cons.IH intro: order_trans)
qed simp

lemma fw_left_class [simp]: "fw_left (fw_class_update f fw) = fw_left fw"
  by (simp add: fw_left_def)

lemma fw_command_left:
  "fw_command client ms data word fw job_class payload = Some (err, fw', c, p) \<Longrightarrow> fw_left fw' \<le> fw_left fw"
  by (auto simp: fw_command_def Let_def bind_eq_Some_conv fw_check_regs_mask_def
      split: if_splits option.splits dest!: fw_check_regs_seq_left for_each_set_bit_left)

function fw_loop :: "tegra_drm_client \<Rightarrow> tegra_drm_mapping list \<Rightarrow> u32 list
    \<Rightarrow> tegra_drm_firewall \<Rightarrow> u32 \<Rightarrow> u32 option \<Rightarrow> (int \<times> u32) option" where
  "fw_loop client ms data fw job_class payload =
     (if fw_pos fw = fw_end fw then Some (0, job_class)
      else case fw_next data fw of
        None \<Rightarrow> None
      | Some (Inl err, _) \<Rightarrow> Some (err, job_class)
      | Some (Inr word, fw1) \<Rightarrow>
          (case fw_command client ms data word fw1 job_class payload of
             None \<Rightarrow> None
           | Some (err, fw2, job_class', payload') \<Rightarrow>
               if err \<noteq> 0 then Some (err, job_class')
               else fw_loop client ms data fw2 job_class' payload'))"
  by auto
termination
  by (relation "measure (\<lambda>(client, ms, data, fw, job_class, payload). fw_left fw)")
    (auto dest!: fw_next_left fw_command_left)

declare fw_loop.simps [simp del]

definition tegra_drm_fw_validate :: "tegra_drm_client \<Rightarrow> u32 list \<Rightarrow> u32 \<Rightarrow> u32 \<Rightarrow> tegra_drm_mapping list
    \<Rightarrow> u32 \<Rightarrow> (int \<times> u32) option" where
  "tegra_drm_fw_validate client data start words ms job_class =
     fw_loop client ms data \<lparr>fw_pos = start, fw_end = start + words, fw_class = job_class\<rparr> job_class None"

subsection \<open>What is permitted\<close>

text \<open>What a client may do: its classes, and addresses only inside the mappings of the job.\<close>

fun permitted :: "tegra_drm_client \<Rightarrow> tegra_drm_mapping list \<Rightarrow> host1x_action \<Rightarrow> bool" where
  "permitted client ms (Set_class c) \<longleftrightarrow>
     (case is_valid_class client of None \<Rightarrow> c = base_class client | Some valid \<Rightarrow> valid c)"
| "permitted client ms (Reg_write c offset v) \<longleftrightarrow>
     (case is_addr_reg client of None \<Rightarrow> True
      | Some addr_reg \<Rightarrow> addr_reg c offset \<longrightarrow> (\<exists>m \<in> set ms. iova m \<le> ucast v \<and> ucast v \<le> iova_end m))"
| "permitted client ms (Imm_write c offset v) \<longleftrightarrow>
     (case is_addr_reg client of None \<Rightarrow> True | Some addr_reg \<Rightarrow> \<not> addr_reg c offset)"
| "permitted client ms (Set_payload n) \<longleftrightarrow> True"
| "permitted client ms (Extend w) \<longleftrightarrow> False"

subsection \<open>Reading the words\<close>

definition fw_rest :: "u32 list \<Rightarrow> tegra_drm_firewall \<Rightarrow> u32 list" where
  "fw_rest data fw = take (unat (fw_end fw) - unat (fw_pos fw)) (drop (unat (fw_pos fw)) data)"

definition fw_inside :: "u32 list \<Rightarrow> tegra_drm_firewall \<Rightarrow> bool" where
  "fw_inside data fw \<longleftrightarrow> unat (fw_pos fw) \<le> unat (fw_end fw) \<and> unat (fw_end fw) \<le> length data"

lemma fw_rest_class [simp]: "fw_rest data (fw\<lparr>fw_class := c\<rparr>) = fw_rest data fw"
  "fw_inside data (fw\<lparr>fw_class := c\<rparr>) = fw_inside data fw"
  by (simp_all add: fw_rest_def fw_inside_def)

lemma fw_rest_Nil: "fw_inside data fw \<Longrightarrow> fw_rest data fw = [] \<longleftrightarrow> fw_pos fw = fw_end fw"
  by (auto simp: fw_rest_def fw_inside_def word_unat_eq_iff)

lemma fw_rest_Cons:
  assumes "fw_inside data fw" "fw_rest data fw = w # ws"
  shows "fw_next data fw = Some (Inr w, fw\<lparr>fw_pos := fw_pos fw + 1\<rparr>)"
    "fw_inside data (fw\<lparr>fw_pos := fw_pos fw + 1\<rparr>)" "fw_rest data (fw\<lparr>fw_pos := fw_pos fw + 1\<rparr>) = ws"
proof -
  have ne: "fw_pos fw \<noteq> fw_end fw" using assms fw_rest_Nil [OF assms(1)] by auto
  with assms(1) have lt: "unat (fw_pos fw) < unat (fw_end fw)"
    by (metis fw_inside_def le_neq_implies_less word_unat_eq_iff)
  then have s: "unat (fw_pos fw + 1) = Suc (unat (fw_pos fw))"
    using unat_less_size [of "fw_end fw"] by (simp add: unat_word_ariths)
  have l: "unat (fw_pos fw) < length data" using lt assms(1) by (simp add: fw_inside_def)
  have d: "drop (unat (fw_pos fw)) data = data ! unat (fw_pos fw) # drop (Suc (unat (fw_pos fw))) data"
    by (rule Cons_nth_drop_Suc [OF l, symmetric])
  have e: "unat (fw_end fw) - unat (fw_pos fw) = Suc (unat (fw_end fw) - Suc (unat (fw_pos fw)))" using lt by simp
  have w: "w = data ! unat (fw_pos fw)" "ws = take (unat (fw_end fw) - Suc (unat (fw_pos fw))) (drop (Suc (unat (fw_pos fw))) data)"
    using assms(2) unfolding fw_rest_def d e by simp_all
  show "fw_next data fw = Some (Inr w, fw\<lparr>fw_pos := fw_pos fw + 1\<rparr>)" using ne l w by (simp add: fw_next_def)
  show "fw_inside data (fw\<lparr>fw_pos := fw_pos fw + 1\<rparr>)" using assms(1) lt s by (simp add: fw_inside_def)
  show "fw_rest data (fw\<lparr>fw_pos := fw_pos fw + 1\<rparr>) = ws" using w s by (simp add: fw_rest_def)
qed

text \<open>\<open>fw_reading\<close>: a check of the next words, which go to the registers \<open>offs\<close>, has the result \<open>r\<close>.\<close>

definition fw_reading :: "tegra_drm_client \<Rightarrow> tegra_drm_mapping list \<Rightarrow> u32 list \<Rightarrow> u32 list \<Rightarrow> tegra_drm_firewall \<Rightarrow> fw_status \<Rightarrow> bool" where
  "fw_reading client ms data offs fw r \<longleftrightarrow>
     (if length offs \<le> length (fw_rest data fw)
         \<and> list_all (permitted client ms) (map2 (Reg_write (fw_class fw)) offs (fw_rest data fw))
      then \<exists>fw'. r = Some (0, fw') \<and> fw_inside data fw' \<and> fw_rest data fw' = drop (length offs) (fw_rest data fw)
        \<and> fw_class fw' = fw_class fw
      else \<exists>fw'. r = Some (- EINVAL, fw'))"

lemma fw_reading_Nil: "fw_inside data fw \<Longrightarrow> fw_reading client ms data [] fw (Some (0, fw))"
  by (simp add: fw_reading_def)

lemma fw_reading_Cons:
  assumes i: "fw_inside data fw"
    and K: "\<And>fw'. fw_inside data fw' \<Longrightarrow> fw_reading client ms data offs fw' (K fw')"
  shows "fw_reading client ms data (offset # offs) fw (do {
     (err, fw) \<leftarrow> fw_check_reg client ms data offset fw;
     if err \<noteq> 0 then Some (- EINVAL, fw) else K fw })"
proof (cases "fw_rest data fw")
  case Nil
  then have "fw_next data fw = Some (Inl (- EINVAL), fw)" using fw_rest_Nil [OF i] by (simp add: fw_next_def)
  with Nil show ?thesis by (simp add: fw_reading_def fw_check_reg_def)
next
  case (Cons w ws)
  note n = fw_rest_Cons [OF i Cons]
  let ?p = "permitted client ms (Reg_write (fw_class fw) offset w)"
  have c: "fw_check_reg client ms data offset fw = Some (if ?p then 0 else - EINVAL, fw\<lparr>fw_pos := fw_pos fw + 1\<rparr>)"
    using n(1) by (auto simp: fw_check_reg_def fw_check_addr_valid_def list_ex_iff split: option.splits)
  show ?thesis
  proof (cases ?p)
    case True
    from K [OF n(2)] n(3) have k: "if length offs \<le> length ws \<and> list_all (permitted client ms) (map2 (Reg_write (fw_class fw)) offs ws)
      then \<exists>fw'. K (fw\<lparr>fw_pos := fw_pos fw + 1\<rparr>) = Some (0, fw') \<and> fw_inside data fw'
        \<and> fw_rest data fw' = drop (length offs) ws \<and> fw_class fw' = fw_class fw
      else \<exists>fw'. K (fw\<lparr>fw_pos := fw_pos fw + 1\<rparr>) = Some (- EINVAL, fw')"
      by (simp add: fw_reading_def cong: if_cong)
    with c True Cons show ?thesis by (simp add: fw_reading_def split: if_splits del: permitted.simps)
  next
    case False
    with c Cons show ?thesis by (simp add: fw_reading_def)
  qed
qed

lemma regs_seq_reads:
  "fw_inside data fw \<Longrightarrow>
   fw_reading client ms data (seq_offsets offset n incr) fw (fw_check_regs_seq client ms data offset n incr fw)"
proof (induction n arbitrary: offset fw)
  case 0
  then show ?case by (simp add: seq_offsets_simps fw_reading_Nil)
next
  case (Suc n)
  show ?case unfolding seq_offsets_simps fw_check_regs_seq.simps
    by (rule fw_reading_Cons [OF Suc.prems]) (rule Suc.IH)
qed

lemma set_bits_reads:
  "fw_inside data fw \<Longrightarrow>
   fw_reading client ms data (map (\<lambda>b. offset + of_nat b) (filter (bit msk) bs)) fw
     (for_each_set_bit client ms data offset msk bs fw)"
proof (induction bs arbitrary: fw)
  case Nil
  then show ?case by (simp add: fw_reading_Nil)
next
  case (Cons b bs)
  show ?case
  proof (cases "bit msk b")
    case True
    have "fw_reading client ms data ((offset + of_nat b) # map (\<lambda>b. offset + of_nat b) (filter (bit msk) bs)) fw
        (do { (err, fw) \<leftarrow> fw_check_reg client ms data (offset + of_nat b) fw;
              if err \<noteq> 0 then Some (- EINVAL, fw) else for_each_set_bit client ms data offset msk bs fw })"
      by (rule fw_reading_Cons [OF Cons.prems]) (rule Cons.IH)
    with True show ?thesis by simp
  next
    case False
    with Cons show ?thesis by simp
  qed
qed

lemma regs_mask_reads:
  assumes "fw_inside data fw"
  shows "fw_reading client ms data (mask_offsets offset msk) fw (fw_check_regs_mask client ms data offset (ucast msk) fw)"
proof -
  have "filter (bit (ucast msk :: u16)) [0..<16] = filter (bit msk) [0..<16]"
    by (rule filter_cong) (auto simp: bit_simps)
  then show ?thesis using set_bits_reads [OF assms, of client ms offset "ucast msk" "[0..<16]"]
    by (simp add: mask_offsets_def fw_check_regs_mask_def)
qed

subsection \<open>The firewall accepts what is permitted\<close>

text \<open>
  \<open>fw_turn\<close>: a turn of the loop has the result \<open>r\<close>, where the command does \<open>acts\<close> at once, changes the class to
  \<open>c\<close> and the payload to \<open>p\<close>, and the words that follow go to the registers \<open>offs\<close>.
\<close>

definition fw_turn :: "tegra_drm_client \<Rightarrow> tegra_drm_mapping list \<Rightarrow> u32 list \<Rightarrow> tegra_drm_firewall
    \<Rightarrow> (host1x_action list \<times> u32 \<times> u32 option \<times> u32 list) option
    \<Rightarrow> (int \<times> tegra_drm_firewall \<times> u32 \<times> u32 option) option \<Rightarrow> bool" where
  "fw_turn client ms data fw cmd r \<longleftrightarrow>
     (case cmd of
        None \<Rightarrow> \<exists>x. r = Some (- EINVAL, x)
      | Some (acts, c, p, offs) \<Rightarrow>
          if list_all (permitted client ms) acts \<and> length offs \<le> length (fw_rest data fw)
             \<and> list_all (permitted client ms) (map2 (Reg_write c) offs (fw_rest data fw))
          then \<exists>fw'. r = Some (0, fw', c, p) \<and> fw_inside data fw'
            \<and> fw_rest data fw' = drop (length offs) (fw_rest data fw) \<and> fw_class fw' = c
          else \<exists>x. r = Some (- EINVAL, x))"

lemma fw_turn_reads:
  assumes "fw_reading client ms data offs fw r" "fw_class fw = c"
  shows "fw_turn client ms data fw (Some ([], c, p, offs)) (do { (err, fw) \<leftarrow> r; Some (err, fw, c, p) })"
proof (cases "length offs \<le> length (fw_rest data fw) \<and> list_all (permitted client ms) (map2 (Reg_write (fw_class fw)) offs (fw_rest data fw))")
  case True
  with assms show ?thesis by (auto simp: fw_turn_def fw_reading_def)
next
  case False
  with assms show ?thesis by (auto simp: fw_turn_def fw_reading_def split: if_splits)
qed

lemma fw_turn_class:
  assumes "fw_turn client ms data (fw\<lparr>fw_class := c\<rparr>) (Some ([], c, p, offs)) r" "permitted client ms (Set_class c)"
  shows "fw_turn client ms data fw (Some ([Set_class c], c, p, offs)) r"
  using assms by (simp add: fw_turn_def cong: if_cong)

lemma fw_check_class_permitted:
  "fw_check_class client c = (if permitted client ms (Set_class c) then 0 else - EINVAL)"
  by (auto simp: fw_check_class_def split: option.splits)

lemma fw_check_imm_permitted:
  "fw_check_regs_imm client offset fw = (if permitted client ms (Imm_write (fw_class fw) offset v) then 0 else - EINVAL)"
  by (auto simp: fw_check_regs_imm_def split: option.splits)

lemma fw_command_turn:
  assumes i: "fw_inside data fw"
  shows "fw_turn client ms data fw (host1x_opcode (fw_class fw) p w) (fw_command client ms data w fw (fw_class fw) p)"
proof -
  define opcode where "opcode = drop_bit 28 w"
  let ?c = "drop_bit 6 w AND 0x3ff :: u32" and ?offset = "drop_bit 16 w AND 0xfff :: u32"
  have ci: "fw_inside data (fw\<lparr>fw_class := ?c\<rparr>)" using i by simp
  note seq = fw_turn_reads [OF regs_seq_reads [OF i, of client ms] refl]
  note msk = fw_turn_reads [OF regs_mask_reads [OF i, of client ms] refl]
  note cmsk = fw_turn_reads [OF regs_mask_reads [OF ci, of client ms], where c = ?c, simplified]
  note defs = fw_command_def host1x_opcode_def opcode_field Let_def opcode_def [symmetric]
  consider "opcode = 0" | "opcode = 1" | "opcode = 2" | "opcode = 3" | "opcode = 4" | "opcode = 9"
    | "opcode = 10" | "opcode = 11" | "opcode = 14"
    | "opcode \<noteq> 0" "opcode \<noteq> 1" "opcode \<noteq> 2" "opcode \<noteq> 3" "opcode \<noteq> 4" "opcode \<noteq> 9" "opcode \<noteq> 10" "opcode \<noteq> 11" "opcode \<noteq> 14"
    by metis
  then show ?thesis
  proof cases
    case 1
    show ?thesis
    proof (cases "permitted client ms (Set_class ?c)")
      case True
      have "fw_turn client ms data fw (Some ([Set_class ?c], ?c, p, mask_offsets ?offset (w AND 0x3f)))
          (do { (err, fw) \<leftarrow> fw_check_regs_mask client ms data ?offset (ucast (w AND 0x3f)) (fw\<lparr>fw_class := ?c\<rparr>);
                Some (err, fw, ?c, p) })"
        by (rule fw_turn_class [OF cmsk True])
      with True 1 show ?thesis
        unfolding defs fw_check_class_permitted [of client _ ms] by simp
    next
      case False
      then show ?thesis
        using 1 unfolding defs fw_check_class_permitted [of client _ ms] by (auto simp: fw_turn_def)
    qed
  next
    case 2
    then show ?thesis unfolding defs using seq by simp
  next
    case 3
    then show ?thesis unfolding defs using seq by simp
  next
    case 4
    then show ?thesis unfolding defs using msk by simp
  next
    case 5
    then show ?thesis unfolding defs fw_check_imm_permitted [of client _ fw ms "w AND 0xffff"]
      using i by (simp add: fw_turn_def del: permitted.simps)
  next
    case 6
    then show ?thesis unfolding defs using i by (simp add: fw_turn_def)
  next
    case 7
    show ?thesis
    proof (cases p)
      case None
      with 7 show ?thesis unfolding defs by (simp add: fw_turn_def)
    next
      case (Some n)
      with 7 show ?thesis unfolding defs using seq [of p "w AND 0x3fffff" "unat n" True] by simp
    qed
  next
    case 8
    show ?thesis
    proof (cases p)
      case None
      with 8 show ?thesis unfolding defs by (simp add: fw_turn_def)
    next
      case (Some n)
      with 8 show ?thesis unfolding defs using seq [of p "w AND 0x3fffff" "unat n" False] by simp
    qed
  next
    case 9
    then show ?thesis unfolding defs by (simp add: fw_turn_def)
  next
    case 10
    then show ?thesis unfolding defs by (simp add: fw_turn_def)
  qed
qed

lemma fw_loop_accepts:
  "fw_inside data fw \<Longrightarrow>
   \<exists>err c. fw_loop client ms data fw (fw_class fw) p = Some (err, c) \<and>
     (case host1x_stream (fw_class fw) p (fw_rest data fw) of
        None \<Rightarrow> err = - EINVAL
      | Some acts \<Rightarrow> if list_all (permitted client ms) acts then err = 0 \<and> c = last_class (fw_class fw) acts
          else err = - EINVAL)"
proof (induction "length (fw_rest data fw)" arbitrary: fw p rule: less_induct)
  case less
  show ?case
  proof (cases "fw_rest data fw")
    case Nil
    with fw_rest_Nil [OF less.prems] show ?thesis by (simp add: fw_loop.simps [of client ms data fw] last_class_def)
  next
    case (Cons w ws)
    define fw1 where "fw1 = fw\<lparr>fw_pos := fw_pos fw + 1\<rparr>"
    note n = fw_rest_Cons [OF less.prems Cons, folded fw1_def]
    have ne: "fw_pos fw \<noteq> fw_end fw" using fw_rest_Nil [OF less.prems] Cons by auto
    have c1: "fw_class fw1 = fw_class fw" by (simp add: fw1_def)
    note t = fw_command_turn [OF n(2), of client ms p w, unfolded c1]
    have l: "fw_loop client ms data fw (fw_class fw) p =
        (case fw_command client ms data w fw1 (fw_class fw) p of None \<Rightarrow> None
         | Some (err, fw2, job_class', payload') \<Rightarrow> if err \<noteq> 0 then Some (err, job_class')
             else fw_loop client ms data fw2 job_class' payload')"
      by (subst fw_loop.simps) (simp add: ne n(1))
    show ?thesis
    proof (cases "host1x_opcode (fw_class fw) p w")
      case None
      with t obtain x where "fw_command client ms data w fw1 (fw_class fw) p = Some (- EINVAL, x)"
        by (auto simp: fw_turn_def)
      with l None Cons show ?thesis by (cases x) simp
    next
      case (Some a)
      obtain acts c' p' offs where a: "a = (acts, c', p', offs)" by (cases a)
      let ?ok = "list_all (permitted client ms) acts \<and> length offs \<le> length ws
         \<and> list_all (permitted client ms) (map2 (Reg_write c') offs ws)"
      show ?thesis
      proof (cases ?ok)
        case True
        with t Some a n(3) obtain fw2 where f2: "fw_command client ms data w fw1 (fw_class fw) p = Some (0, fw2, c', p')"
          "fw_inside data fw2" "fw_rest data fw2 = drop (length offs) ws" "fw_class fw2 = c'"
          by (auto simp: fw_turn_def)
        have "length (fw_rest data fw2) < length (fw_rest data fw)" using f2(3) Cons by simp
        note IH = less.hyps [OF this f2(2), of p', unfolded f2(3,4)]
        have lc: "last_class (fw_class fw) (acts @ map2 (Reg_write c') offs ws @ rest) = last_class c' rest" for rest
          using host1x_opcode_class [OF Some [unfolded a]] by (simp add: last_class_append last_class_writes)
        from IH obtain err c where e: "fw_loop client ms data fw2 c' p' = Some (err, c)"
          "case host1x_stream c' p' (drop (length offs) ws) of None \<Rightarrow> err = - EINVAL
           | Some acts \<Rightarrow> if list_all (permitted client ms) acts then err = 0 \<and> c = last_class c' acts else err = - EINVAL"
          by blast
        from l f2(1) e(1) have "fw_loop client ms data fw (fw_class fw) p = Some (err, c)" by simp
        with e(2) True Some a Cons lc show ?thesis
          by (cases "host1x_stream c' p' (drop (length offs) ws)") auto
      next
        case False
        with t Some a n(3) obtain x where x: "fw_command client ms data w fw1 (fw_class fw) p = Some (- EINVAL, x)"
          by (auto simp: fw_turn_def split: if_splits)
        obtain c where l': "fw_loop client ms data fw (fw_class fw) p = Some (- EINVAL, c)"
          using l x by (cases x) simp
        have "case host1x_stream (fw_class fw) p (w # ws) of None \<Rightarrow> True
          | Some as \<Rightarrow> \<not> list_all (permitted client ms) as"
          using False Some a by (auto split: option.splits)
        with l' Cons show ?thesis by (cases "host1x_stream (fw_class fw) p (w # ws)") auto
      qed
    qed
  qed
qed

text \<open>The result of the firewall, for a part of the data that is inside it.\<close>

lemma fw_validate_result:
  assumes "unat start + unat words \<le> length data" "length data < 2 ^ 32"
  shows "\<exists>err c. tegra_drm_fw_validate client data start words ms class = Some (err, c) \<and>
     (case host1x_stream class None (take (unat words) (drop (unat start) data)) of
        None \<Rightarrow> err = - EINVAL
      | Some acts \<Rightarrow> if list_all (permitted client ms) acts then err = 0 \<and> c = last_class class acts
          else err = - EINVAL)"
proof -
  let ?fw = "\<lparr>fw_pos = start, fw_end = start + words, fw_class = class\<rparr>"
  have e: "unat (start + words) = unat start + unat words"
    using assms by (simp add: unat_word_ariths)
  then have i: "fw_inside data ?fw" and r: "fw_rest data ?fw = take (unat words) (drop (unat start) data)"
    using assms by (simp_all add: fw_inside_def fw_rest_def)
  from fw_loop_accepts [OF i, of client ms None, unfolded r tegra_drm_firewall.select_convs] show ?thesis
    by (simp only: tegra_drm_fw_validate_def)
qed

lemma fw_accepts_iff:
  assumes "unat start + unat words \<le> length data" "length data < 2 ^ 32"
  shows "(tegra_drm_fw_validate client data start words ms class = Some (0, c) \<longleftrightarrow>
      (\<exists>acts. host1x_stream class None (take (unat words) (drop (unat start) data)) = Some acts
        \<and> list_all (permitted client ms) acts \<and> c = last_class class acts))
    \<and> (\<exists>c. tegra_drm_fw_validate client data start words ms class \<in> {Some (0, c), Some (- EINVAL, c)})"
  using fw_validate_result [OF assms, of client ms "class"] by (auto split: option.splits if_splits)

text \<open>The end of a mapping is inclusive: the address behind its last byte is accepted too.\<close>

lemma fw_accepts_end_of_mapping:
  "fw_check_addr_valid [\<lparr>iova = 0x1000, iova_end = 0x1000 + 0x1000\<rparr>] 0x2000"
  by (simp add: fw_check_addr_valid_def)

text \<open>
  C11. The firewall always returns, never reads outside the gather, and accepts a gather exactly when the
  hardware can decode all of it (no incomplete and no forbidden command), every class it selects belongs to
  the client, and every address it writes to an address register lies in a mapping of the job. It then hands on
  the class that the stream ends in.
\<close>

theorem drm_firewall_exact:
  assumes "unat start + unat words \<le> length data" "length data < 2 ^ 32"
  shows "(tegra_drm_fw_validate client data start words ms class = Some (0, c) \<longleftrightarrow>
      (\<exists>acts. host1x_stream class None (take (unat words) (drop (unat start) data)) = Some acts
        \<and> list_all (permitted client ms) acts \<and> c = last_class class acts))
    \<and> (\<exists>c. tegra_drm_fw_validate client data start words ms class \<in> {Some (0, c), Some (- EINVAL, c)})"
  by (rule fw_accepts_iff [OF assms])

theorem drm_firewall_exact_witness:
  "tegra_drm_fw_validate gr2d_client [7, 0x101a0001, 0x1800, 0x00001480] 1 3 [\<lparr>iova = 0x1000, iova_end = 0x2000\<rparr>] 0x51 = Some (0, 0x52)
   \<and> tegra_drm_fw_validate gr2d_client [7, 0x101a0001, 0x2800, 0x00001480] 1 3 [\<lparr>iova = 0x1000, iova_end = 0x2000\<rparr>] 0x51 \<noteq> Some (0, 0x52)"
proof -
  note simps = host1x_opcode_def seq_offsets_def mask_offsets_def gr2d_client_def gr2d_is_addr_reg_def gr2d_addr_regs_def
    gr2d_is_valid_class_def HOST1X_CLASS_GR2D_def HOST1X_CLASS_GR2D_SB_def HOST1X_CLASS_HOST1X_def GR2D_NUM_REGS_def last_class_def
  have "tegra_drm_fw_validate gr2d_client [7, 0x101a0001, 0x1800, 0x00001480] 1 3 [\<lparr>iova = 0x1000, iova_end = 0x2000\<rparr>] 0x51 = Some (0, 0x52)"
    by (subst drm_firewall_exact [THEN conjunct1]) (simp_all add: simps)
  moreover have "tegra_drm_fw_validate gr2d_client [7, 0x101a0001, 0x2800, 0x00001480] 1 3 [\<lparr>iova = 0x1000, iova_end = 0x2000\<rparr>] 0x51 \<noteq> Some (0, 0x52)"
    by (subst drm_firewall_exact [THEN conjunct1]) (simp_all add: simps)
  ultimately show ?thesis by blast
qed

end
