(* ===== verification/Host1x_Job.thy ===== *)
theory Host1x_Job
  imports Host1x_Stream
begin

text \<open>
  The jobs of host1x (\<open>gpu/host1x/job.c\<close>): allocation, commands, pinning of the buffers, the firewall over the copied
  gathers, and the patching of relocations.

  Buffer objects are numbers; \<open>host1x_world\<close> counts their references and holds their contents as words. What mapping a buffer,
  allocating addresses and allocating memory give is in \<open>pin_env\<close>, by the number of the relocation or command. The arrays
  behind a job have the sizes that \<open>host1x_job_alloc\<close> gives them; an access outside of an array, of a
  buffer or of the copied gathers, and a word that is not aligned, is \<open>None\<close>.
\<close>

subsection \<open>Jobs\<close>

record host1x_job_gather =
  g_words :: u32
  g_base :: u64
  g_bo :: nat
  g_offset :: u32
  g_handled :: bool

record host1x_job_wait =
  w_id :: u32
  w_threshold :: u32
  w_next_class :: u32
  w_relative :: bool

record host1x_job_reg_write =
  rw_reg :: u32
  rw_value :: u32

datatype host1x_job_cmd =
    CMD_GATHER host1x_job_gather
  | CMD_WAIT host1x_job_wait
  | CMD_REG_WRITE host1x_job_reg_write

record host1x_reloc =
  cmdbuf_bo :: nat
  cmdbuf_offset :: u64
  target_bo :: nat
  target_offset :: u64
  reloc_shift :: u64
  reloc_flags :: u64

record host1x_bo_mapping =
  map_bo :: nat
  map_phys :: u64
  map_size :: u64
  map_chunks :: u32

record host1x_job =
  job_cmds :: "host1x_job_cmd list"
  max_cmds :: nat
  job_relocs :: "host1x_reloc list"
  max_relocs :: nat
  job_unpins :: "host1x_bo_mapping list"
  addr_phys :: "u64 list"
  enable_firewall :: bool
  job_class :: u32
  job_is_addr_reg :: "(u32 \<Rightarrow> u32 \<Rightarrow> bool) option"
  job_is_valid_class :: "(u32 \<Rightarrow> bool) option"
  job_syncpt :: "u32 option"
  job_syncpt_incrs :: u32
  job_secondary_syncpt :: "u32 option"
  gather_copy :: u64
  gather_copy_mapped :: "u32 list"
  gather_copy_size :: nat

record host1x_world =
  bo_refs :: "nat \<Rightarrow> int"
  bo_data :: "nat \<Rightarrow> u32 list"
  live_maps :: int
  live_iovas :: int
  live_copies :: int

text \<open>\<open>config\<close>: CONFIG_TEGRA_HOST1X_FIREWALL; \<open>mem\<close>: whether there is memory. The check of the total against
  \<open>ULONG_MAX\<close> cannot fail for 64-bit longs.\<close>

definition host1x_job_alloc :: "bool \<Rightarrow> bool \<Rightarrow> u32 \<Rightarrow> u32 \<Rightarrow> bool \<Rightarrow> host1x_job option" where
  "host1x_job_alloc config mem num_cmdbufs num_relocs skip_firewall =
     (let fw = config \<and> \<not> skip_firewall;
          num_unpins = unat (if fw then num_relocs else num_relocs + num_cmdbufs)
      in if \<not> mem then None
         else Some \<lparr>job_cmds = [], max_cmds = unat num_cmdbufs, job_relocs = [], max_relocs = unat num_relocs,
           job_unpins = [], addr_phys = replicate num_unpins 0, enable_firewall = fw, job_class = 0,
           job_is_addr_reg = None, job_is_valid_class = None, job_syncpt = None, job_syncpt_incrs = 0,
           job_secondary_syncpt = None, gather_copy = 0, gather_copy_mapped = [], gather_copy_size = 0\<rparr>)"

definition job_add :: "host1x_job_cmd \<Rightarrow> host1x_job \<Rightarrow> host1x_job option" where
  "job_add cmd job =
     (if length (job_cmds job) < max_cmds job then Some (job\<lparr>job_cmds := job_cmds job @ [cmd]\<rparr>) else None)"

definition host1x_job_add_gather :: "host1x_job \<Rightarrow> nat \<Rightarrow> u32 \<Rightarrow> u32 \<Rightarrow> host1x_job option" where
  "host1x_job_add_gather job bo words offset =
     job_add (CMD_GATHER \<lparr>g_words = words, g_base = 0, g_bo = bo, g_offset = offset, g_handled = False\<rparr>) job"

definition host1x_job_add_wait :: "host1x_job \<Rightarrow> u32 \<Rightarrow> u32 \<Rightarrow> bool \<Rightarrow> u32 \<Rightarrow> host1x_job option" where
  "host1x_job_add_wait job idn thresh relative next_class =
     job_add (CMD_WAIT \<lparr>w_id = idn, w_threshold = thresh, w_next_class = next_class, w_relative = relative\<rparr>) job"

definition host1x_job_add_reg_write :: "host1x_job \<Rightarrow> u32 \<Rightarrow> u32 \<Rightarrow> host1x_job option" where
  "host1x_job_add_reg_write job reg val = job_add (CMD_REG_WRITE \<lparr>rw_reg = reg, rw_value = val\<rparr>) job"

subsection \<open>Pinning\<close>

text \<open>What mapping the buffer of a relocation or a gather gives; what the IOMMU of host1x gives for a gather.\<close>

record pin_env =
  bo_pin_reloc :: "nat \<Rightarrow> int + host1x_bo_mapping"
  bo_pin_gather :: "nat \<Rightarrow> int + host1x_bo_mapping"
  host_domain :: bool
  alloc_iova :: "nat \<Rightarrow> (u64 \<times> u64) option"
  iommu_map_ok :: "nat \<Rightarrow> bool"
  dma_alloc_wc :: "u64 option"
  bo_mmap_ok :: "nat \<Rightarrow> bool"

abbreviation (input) HOST1X_RELOC_READ :: u64 where "HOST1X_RELOC_READ \<equiv> 1"
abbreviation (input) HOST1X_RELOC_WRITE :: u64 where "HOST1X_RELOC_WRITE \<equiv> 2"

definition bo_get :: "nat \<Rightarrow> host1x_world \<Rightarrow> host1x_world" where
  "bo_get b w = w\<lparr>bo_refs := (bo_refs w)(b := bo_refs w b + 1)\<rparr>"

definition bo_put :: "nat \<Rightarrow> host1x_world \<Rightarrow> host1x_world" where
  "bo_put b w = w\<lparr>bo_refs := (bo_refs w)(b := bo_refs w b - 1)\<rparr>"

definition unpin_one :: "bool \<Rightarrow> host1x_bo_mapping \<Rightarrow> host1x_job \<Rightarrow> host1x_world \<Rightarrow> host1x_world" where
  "unpin_one domain m job w =
     (let w = (if \<not> enable_firewall job \<and> map_size m \<noteq> 0 \<and> domain then w\<lparr>live_iovas := live_iovas w - 1\<rparr> else w);
          w = w\<lparr>live_maps := live_maps w - 1\<rparr>
      in bo_put (map_bo m) w)"

definition host1x_job_unpin :: "bool \<Rightarrow> host1x_job \<Rightarrow> host1x_world \<Rightarrow> host1x_job \<times> host1x_world" where
  "host1x_job_unpin domain job w =
     (let w = foldl (\<lambda>w m. unpin_one domain m job w) w (job_unpins job);
          job = job\<lparr>job_unpins := []\<rparr>
      in (job, if gather_copy_size job \<noteq> 0 then w\<lparr>live_copies := live_copies w - 1\<rparr> else w))"

definition job_pinned :: "host1x_bo_mapping \<Rightarrow> host1x_job \<Rightarrow> host1x_job option" where
  "job_pinned m job =
     (let n = length (job_unpins job)
      in if n < length (addr_phys job)
         then Some (job\<lparr>addr_phys := (addr_phys job)[n := map_phys m], job_unpins := job_unpins job @ [m]\<rparr>)
         else None)"

definition pin_reloc :: "pin_env \<Rightarrow> nat \<Rightarrow> host1x_reloc \<Rightarrow> host1x_job \<times> host1x_world
    \<Rightarrow> (int \<times> host1x_job \<times> host1x_world) option" where
  "pin_reloc env i reloc = (\<lambda>(job, w).
     (let w = bo_get (target_bo reloc) w;
          fl = reloc_flags reloc AND (HOST1X_RELOC_READ OR HOST1X_RELOC_WRITE)
      in if fl = 0 then Some (- EINVAL, job, w)
         else case bo_pin_reloc env i of
           Inl err \<Rightarrow> Some (err, job, w)
         | Inr m \<Rightarrow>
             let w = w\<lparr>live_maps := live_maps w + 1\<rparr>
             in if 1 < map_chunks m then Some (- EINVAL, job, w)
                else map_option (\<lambda>job. (0, job, w)) (job_pinned (m\<lparr>map_bo := target_bo reloc\<rparr>) job)))"

text \<open>The mapping of a gather by its engine; behind an IOMMU of host1x at an address of its own.\<close>

definition pin_gather :: "pin_env \<Rightarrow> nat \<Rightarrow> host1x_job_gather \<Rightarrow> host1x_job \<times> host1x_world
    \<Rightarrow> (int \<times> host1x_job \<times> host1x_world) option" where
  "pin_gather env i g = (\<lambda>(job, w).
     (let w = bo_get (g_bo g) w
      in case bo_pin_gather env i of
           Inl err \<Rightarrow> Some (err, job, w)
         | Inr m \<Rightarrow>
             let m = m\<lparr>map_bo := g_bo g\<rparr>;
                 w = w\<lparr>live_maps := live_maps w + 1\<rparr>;
                 fin = (\<lambda>m w. do {
                   job \<leftarrow> job_pinned m job;
                   if max_relocs job + i < length (addr_phys job)
                   then Some (0, job\<lparr>addr_phys := (addr_phys job)[max_relocs job + i := map_phys m]\<rparr>, w)
                   else None
                 })
             in if \<not> host_domain env then fin m w
                else case alloc_iova env i of
                  None \<Rightarrow> Some (- ENOMEM, job, bo_put (g_bo g) w)
                | Some (iova, sz) \<Rightarrow>
                    if \<not> iommu_map_ok env i then Some (- EINVAL, job, bo_put (g_bo g) w)
                    else fin (m\<lparr>map_phys := iova, map_size := sz\<rparr>) (w\<lparr>live_iovas := live_iovas w + 1\<rparr>)))"

fun pin_relocs :: "pin_env \<Rightarrow> nat \<Rightarrow> host1x_reloc list \<Rightarrow> host1x_job \<times> host1x_world
    \<Rightarrow> (int \<times> host1x_job \<times> host1x_world) option" where
  "pin_relocs env i [] s = Some (0, s)"
| "pin_relocs env i (r # rs) s = do {
     (err, s) \<leftarrow> pin_reloc env i r s;
     if err \<noteq> 0 then Some (err, s) else pin_relocs env (i + 1) rs s
   }"

fun pin_gathers :: "pin_env \<Rightarrow> nat \<Rightarrow> host1x_job_cmd list \<Rightarrow> host1x_job \<times> host1x_world
    \<Rightarrow> (int \<times> host1x_job \<times> host1x_world) option" where
  "pin_gathers env i [] s = Some (0, s)"
| "pin_gathers env i (CMD_GATHER g # cs) s = do {
     (err, s) \<leftarrow> pin_gather env i g s;
     if err \<noteq> 0 then Some (err, s) else pin_gathers env (i + 1) cs s
   }"
| "pin_gathers env i (_ # cs) s = pin_gathers env (i + 1) cs s"

definition pin_job :: "pin_env \<Rightarrow> host1x_job \<Rightarrow> host1x_world \<Rightarrow> (int \<times> host1x_job \<times> host1x_world) option" where
  "pin_job env job w = do {
     (err, job, w) \<leftarrow> pin_relocs env 0 (job_relocs job) (job\<lparr>job_unpins := []\<rparr>, w);
     if err \<noteq> 0 then Some (err, host1x_job_unpin (host_domain env) job w)
     else if enable_firewall job then Some (0, job, w)
     else do {
       (err, job, w) \<leftarrow> pin_gathers env 0 (job_cmds job) (job, w);
       if err \<noteq> 0 then Some (err, host1x_job_unpin (host_domain env) job w) else Some (0, job, w)
     }
   }"

subsection \<open>The firewall\<close>

record host1x_firewall =
  hf_relocs :: "host1x_reloc list"
  hf_cmdbuf :: nat
  hf_offset :: u32
  hf_words :: u32
  hf_class :: u32
  hf_reg :: u32
  hf_mask :: u32
  hf_count :: u32

definition check_reloc :: "host1x_reloc \<Rightarrow> nat \<Rightarrow> u32 \<Rightarrow> bool" where
  "check_reloc reloc cmdbuf offset =
     (let offset = offset * 4
      in if cmdbuf_bo reloc \<noteq> cmdbuf \<or> cmdbuf_offset reloc \<noteq> ucast offset then False
         else if reloc_shift reloc \<noteq> 0 then False else True)"

definition check_register :: "host1x_job \<Rightarrow> u32 \<Rightarrow> host1x_firewall \<Rightarrow> int \<times> host1x_firewall" where
  "check_register job offset fw =
     (case job_is_addr_reg job of
        None \<Rightarrow> (0, fw)
      | Some addr_reg \<Rightarrow>
          if addr_reg (hf_class fw) offset then
            (case hf_relocs fw of
               [] \<Rightarrow> (- EINVAL, fw)
             | r # rs \<Rightarrow> if \<not> check_reloc r (hf_cmdbuf fw) (hf_offset fw) then (- EINVAL, fw)
                 else (0, fw\<lparr>hf_relocs := rs\<rparr>))
          else (0, fw))"

definition check_class :: "host1x_job \<Rightarrow> u32 \<Rightarrow> host1x_firewall \<Rightarrow> int" where
  "check_class job class fw =
     (case job_is_valid_class job of
        None \<Rightarrow> if hf_class fw \<noteq> class then - EINVAL else 0
      | Some valid \<Rightarrow> if \<not> valid (hf_class fw) then - EINVAL else 0)"

definition hf_advance :: "host1x_firewall \<Rightarrow> host1x_firewall" where
  "hf_advance fw = fw\<lparr>hf_words := hf_words fw - 1, hf_offset := hf_offset fw + 1\<rparr>"

lemma drop_bit_1_less: "(m :: u32) \<noteq> 0 \<Longrightarrow> unat (drop_bit 1 m) < unat m"
proof -
  assume "m \<noteq> 0"
  then have "0 < unat m" by (simp add: unat_gt_0)
  moreover have "unat (drop_bit 1 m) = unat m div 2" by (simp only: unat_drop_bit_eq) (simp add: drop_bit_Suc)
  ultimately show ?thesis by simp
qed

function check_mask_loop :: "host1x_job \<Rightarrow> u32 \<Rightarrow> u32 \<Rightarrow> host1x_firewall \<Rightarrow> int \<times> host1x_firewall" where
  "check_mask_loop job msk reg fw =
     (if msk = 0 then (0, fw)
      else if hf_words fw = 0 then (- EINVAL, fw)
      else if msk AND 1 \<noteq> 0 then
        (case check_register job reg fw of (ret, fw) \<Rightarrow>
           if ret < 0 then (ret, fw)
           else check_mask_loop job (drop_bit 1 msk) (reg + 1) (hf_advance fw))
      else check_mask_loop job (drop_bit 1 msk) (reg + 1) fw)"
  by auto
termination
  by (relation "measure (\<lambda>(job, msk, reg, fw). unat msk)") (simp_all add: drop_bit_1_less [simplified])

declare check_mask_loop.simps [simp del]

definition check_mask :: "host1x_job \<Rightarrow> host1x_firewall \<Rightarrow> int \<times> host1x_firewall" where
  "check_mask job fw = check_mask_loop job (hf_mask fw) (hf_reg fw) fw"

fun check_incr_loop :: "host1x_job \<Rightarrow> nat \<Rightarrow> u32 \<Rightarrow> host1x_firewall \<Rightarrow> int \<times> host1x_firewall" where
  "check_incr_loop job 0 reg fw = (0, fw)"
| "check_incr_loop job (Suc n) reg fw =
     (if hf_words fw = 0 then (- EINVAL, fw)
      else case check_register job reg fw of (ret, fw) \<Rightarrow>
        if ret < 0 then (ret, fw) else check_incr_loop job n (reg + 1) (hf_advance fw))"

definition check_incr :: "host1x_job \<Rightarrow> host1x_firewall \<Rightarrow> int \<times> host1x_firewall" where
  "check_incr job fw = check_incr_loop job (unat (hf_count fw)) (hf_reg fw) fw"

fun check_nonincr_loop :: "host1x_job \<Rightarrow> nat \<Rightarrow> host1x_firewall \<Rightarrow> int \<times> host1x_firewall" where
  "check_nonincr_loop job 0 fw = (0, fw)"
| "check_nonincr_loop job (Suc n) fw =
     (if hf_words fw = 0 then (- EINVAL, fw)
      else case check_register job (hf_reg fw) fw of (ret, fw) \<Rightarrow>
        if ret < 0 then (ret, fw) else check_nonincr_loop job n (hf_advance fw))"

definition check_nonincr :: "host1x_job \<Rightarrow> host1x_firewall \<Rightarrow> int \<times> host1x_firewall" where
  "check_nonincr job fw = check_nonincr_loop job (unat (hf_count fw)) fw"

text \<open>One command word; the loop over the words of a gather.\<close>

definition validate_command :: "host1x_job \<Rightarrow> u32 \<Rightarrow> u32 \<Rightarrow> host1x_firewall \<Rightarrow> int \<times> host1x_firewall" where
  "validate_command job job_cls word fw =
     (let opcode = drop_bit 28 (word AND 0xf0000000);
          fw = hf_advance (fw\<lparr>hf_mask := 0, hf_reg := 0, hf_count := 0\<rparr>)
      in if opcode = 0 then
           let fw = fw\<lparr>hf_class := drop_bit 6 word AND 0x3ff, hf_mask := word AND 0x3f, hf_reg := drop_bit 16 word AND 0xfff\<rparr>;
               err = check_class job job_cls fw
           in if err \<noteq> 0 then (err, fw) else check_mask job fw
         else if opcode = 1 then
           check_incr job (fw\<lparr>hf_reg := drop_bit 16 word AND 0xfff, hf_count := word AND 0xffff\<rparr>)
         else if opcode = 2 then
           check_nonincr job (fw\<lparr>hf_reg := drop_bit 16 word AND 0xfff, hf_count := word AND 0xffff\<rparr>)
         else if opcode = 3 then
           check_mask job (fw\<lparr>hf_mask := word AND 0xffff, hf_reg := drop_bit 16 word AND 0xfff\<rparr>)
         else if opcode = 4 \<or> opcode = 14 then (0, fw)
         else (- EINVAL, fw))"

lemma hf_advance_words: "hf_words fw \<noteq> 0 \<Longrightarrow> unat (hf_words (hf_advance fw)) < unat (hf_words fw)"
  by (simp add: hf_advance_def unat_minus_one unat_gt_0)

lemma check_register_words: "check_register job reg fw = (err, fw') \<Longrightarrow> hf_words fw' = hf_words fw"
  by (auto simp: check_register_def split: option.splits if_splits list.splits)

lemma check_mask_words: "check_mask_loop job msk reg fw = (err, fw') \<Longrightarrow> unat (hf_words fw') \<le> unat (hf_words fw)"
proof (induction job msk reg fw rule: check_mask_loop.induct)
  case (1 job msk reg fw)
  show ?case
  proof (cases "msk = 0 \<or> hf_words fw = 0")
    case True
    with 1(3) show ?thesis by (auto simp: check_mask_loop.simps [of job msk reg fw] split: if_splits)
  next
    case False
    obtain r f where r: "check_register job reg fw = (r, f)" by (cases "check_register job reg fw")
    note rw = check_register_words [OF r]
    have l: "unat (hf_words (hf_advance f)) \<le> unat (hf_words fw)" using hf_advance_words [of f] False rw by simp
    show ?thesis
    proof (cases "msk AND 1 = 0")
      case True
      with False 1(3) 1(2) show ?thesis by (simp add: check_mask_loop.simps [of job msk reg fw])
    next
      case b: False
      show ?thesis
      proof (cases "r < 0")
        case True
        with False b r rw 1(3) show ?thesis by (simp add: check_mask_loop.simps [of job msk reg fw])
      next
        case nr: False
        have "check_mask_loop job (drop_bit 1 msk) (reg + 1) (hf_advance f) = (err, fw')"
          using 1(3) False b nr r by (simp add: check_mask_loop.simps [of job msk reg fw])
        from 1(1) [OF _ _ _ r [symmetric] nr this] False b l show ?thesis by simp
      qed
    qed
  qed
qed

lemma check_incr_words: "check_incr_loop job n reg fw = (err, fw') \<Longrightarrow> unat (hf_words fw') \<le> unat (hf_words fw)"
proof (induction n arbitrary: reg fw)
  case (Suc n)
  obtain r f where r: "check_register job reg fw = (r, f)" by (cases "check_register job reg fw")
  with Suc.prems check_register_words [OF r] hf_advance_words [of f] show ?case
    by (auto split: if_splits dest!: Suc.IH)
qed simp

lemma check_nonincr_words: "check_nonincr_loop job n fw = (err, fw') \<Longrightarrow> unat (hf_words fw') \<le> unat (hf_words fw)"
proof (induction n arbitrary: fw)
  case (Suc n)
  obtain r f where r: "check_register job (hf_reg fw) fw = (r, f)" by (cases "check_register job (hf_reg fw) fw")
  with Suc.prems check_register_words [OF r] hf_advance_words [of f] show ?case
    by (auto split: if_splits dest!: Suc.IH)
qed simp

lemma validate_command_words:
  assumes "validate_command job c word fw = (err, fw')" "hf_words fw \<noteq> 0"
  shows "unat (hf_words fw') < unat (hf_words fw)"
proof -
  have "unat (hf_words fw') \<le> unat (hf_words (hf_advance fw))"
    using assms(1)
    by (auto simp: validate_command_def Let_def check_mask_def check_incr_def check_nonincr_def hf_advance_def
        split: if_splits dest!: check_mask_words check_incr_words check_nonincr_words)
  with hf_advance_words [OF assms(2)] show ?thesis by simp
qed

function validate_loop :: "host1x_job \<Rightarrow> u32 list \<Rightarrow> u32 \<Rightarrow> host1x_firewall \<Rightarrow> (int \<times> host1x_firewall) option" where
  "validate_loop job cmdbuf_base job_cls fw =
     (if hf_words fw = 0 then Some (0, fw)
      else if length cmdbuf_base \<le> unat (hf_offset fw) then None
      else case validate_command job job_cls (cmdbuf_base ! unat (hf_offset fw)) fw of (err, fw) \<Rightarrow>
        if err \<noteq> 0 then Some (err, fw) else validate_loop job cmdbuf_base job_cls fw)"
  by auto
termination
  by (relation "measure (\<lambda>(job, b, c, fw). unat (hf_words fw))") (auto dest: validate_command_words [OF sym])

declare validate_loop.simps [simp del]

definition validate :: "host1x_job \<Rightarrow> host1x_job_gather \<Rightarrow> host1x_firewall \<Rightarrow> (int \<times> host1x_firewall) option" where
  "validate job g fw =
     validate_loop job (drop (unat (g_offset g) div 4) (gather_copy_mapped job)) (hf_class fw)
       (fw\<lparr>hf_words := g_words g, hf_cmdbuf := g_bo g, hf_offset := 0\<rparr>)"

subsection \<open>The copies of the gathers\<close>

definition gathers_size :: "host1x_job_cmd list \<Rightarrow> nat" where
  "gathers_size cs = sum_list (map (\<lambda>c. case c of CMD_GATHER g \<Rightarrow> unat (g_words g) * 4 | _ \<Rightarrow> 0) cs)"

definition words_at :: "u32 list \<Rightarrow> nat \<Rightarrow> nat \<Rightarrow> u32 list option" where
  "words_at ws off n =
     (if off mod 4 = 0 \<and> off div 4 + n \<le> length ws then Some (take n (drop (off div 4) ws)) else None)"

definition put_words :: "nat \<Rightarrow> u32 list \<Rightarrow> u32 list \<Rightarrow> u32 list option" where
  "put_words off vs ws =
     (if off mod 4 = 0 \<and> off div 4 + length vs \<le> length ws
      then Some (take (off div 4) ws @ vs @ drop (off div 4 + length vs) ws) else None)"

text \<open>The loop over the commands from number \<open>i\<close> on; \<open>off\<close> is the place of the next copy.\<close>

fun copy_gathers_loop :: "pin_env \<Rightarrow> host1x_world \<Rightarrow> nat \<Rightarrow> host1x_job_cmd list \<Rightarrow> nat \<Rightarrow> host1x_firewall \<Rightarrow> host1x_job
    \<Rightarrow> (int \<times> host1x_firewall \<times> host1x_job) option" where
  "copy_gathers_loop env w i [] off fw job = Some (0, fw, job)"
| "copy_gathers_loop env w i (CMD_GATHER g # cs) off fw job = do {
     vs \<leftarrow> (if bo_mmap_ok env (g_bo g) then Some () else None) \<bind> (\<lambda>_. words_at (bo_data w (g_bo g)) (unat (g_offset g)) (unat (g_words g)));
     copy \<leftarrow> put_words off vs (gather_copy_mapped job);
     let g = g\<lparr>g_base := gather_copy job, g_offset := of_nat off\<rparr>;
     let job = job\<lparr>gather_copy_mapped := copy, job_cmds := (job_cmds job)[i := CMD_GATHER g]\<rparr>;
     (err, fw) \<leftarrow> validate job g fw;
     if err \<noteq> 0 then Some (- EINVAL, fw, job)
     else copy_gathers_loop env w (i + 1) cs (off + unat (g_words g) * 4) fw job
   }"
| "copy_gathers_loop env w i (_ # cs) off fw job = copy_gathers_loop env w (i + 1) cs off fw job"

definition copy_gathers :: "pin_env \<Rightarrow> host1x_job \<Rightarrow> host1x_world \<Rightarrow> (int \<times> host1x_job \<times> host1x_world) option" where
  "copy_gathers env job w =
     (let sz = gathers_size (job_cmds job);
          fw = \<lparr>hf_relocs = job_relocs job, hf_cmdbuf = 0, hf_offset = 0, hf_words = 0, hf_class = job_class job,
            hf_reg = 0, hf_mask = 0, hf_count = 0\<rparr>
      in case dma_alloc_wc env of
           None \<Rightarrow> Some (- ENOMEM, job, w)
         | Some dma \<Rightarrow>
             let job = job\<lparr>gather_copy := dma, gather_copy_mapped := replicate (sz div 4) 0, gather_copy_size := sz\<rparr>;
                 w = w\<lparr>live_copies := live_copies w + 1\<rparr>
             in do {
               (err, fw, job) \<leftarrow> copy_gathers_loop env w 0 (job_cmds job) 0 fw job;
               if err \<noteq> 0 then Some (err, job, w)
               else if hf_relocs fw \<noteq> [] then Some (- EINVAL, job, w) else Some (0, job, w)
             })"

subsection \<open>Patching and the whole of pinning\<close>

fun do_relocs_loop :: "pin_env \<Rightarrow> host1x_job_gather \<Rightarrow> nat \<Rightarrow> host1x_reloc list \<Rightarrow> host1x_job \<Rightarrow> host1x_world
    \<Rightarrow> (int \<times> host1x_job \<times> host1x_world) option" where
  "do_relocs_loop env g i [] job w = Some (0, job, w)"
| "do_relocs_loop env g i (r # rs) job w =
     (if 64 \<le> unat (reloc_shift r) \<or> length (addr_phys job) \<le> i then None
      else
        let reloc_addr = ucast (drop_bit (unat (reloc_shift r)) (addr_phys job ! i + target_offset r)) :: u32
        in if g_bo g \<noteq> cmdbuf_bo r then do_relocs_loop env g (i + 1) rs job w
           else if enable_firewall job then do {
             copy \<leftarrow> put_words ((unat (cmdbuf_offset r) div 4 + unat (g_offset g) div 4) * 4) [reloc_addr] (gather_copy_mapped job);
             do_relocs_loop env g (i + 1) rs (job\<lparr>gather_copy_mapped := copy\<rparr>) w
           }
           else if \<not> bo_mmap_ok env (g_bo g) then Some (- ENOMEM, job, w)
           else do {
             d \<leftarrow> put_words (unat (cmdbuf_offset r)) [reloc_addr] (bo_data w (g_bo g));
             do_relocs_loop env g (i + 1) rs job (w\<lparr>bo_data := (bo_data w)(g_bo g := d)\<rparr>)
           })"

definition do_relocs :: "pin_env \<Rightarrow> host1x_job_gather \<Rightarrow> host1x_job \<Rightarrow> host1x_world
    \<Rightarrow> (int \<times> host1x_job \<times> host1x_world) option" where
  "do_relocs env g job w = do_relocs_loop env g 0 (job_relocs job) job w"

definition mark_handled :: "nat \<Rightarrow> u64 \<Rightarrow> host1x_job_cmd \<Rightarrow> host1x_job_cmd" where
  "mark_handled bo base c =
     (case c of CMD_GATHER h \<Rightarrow> if g_bo h = bo then CMD_GATHER (h\<lparr>g_handled := True, g_base := base\<rparr>) else c | _ \<Rightarrow> c)"

text \<open>The loop over the commands, given by their numbers.\<close>

fun patch_gathers :: "pin_env \<Rightarrow> nat list \<Rightarrow> host1x_job \<Rightarrow> host1x_world
    \<Rightarrow> (int \<times> host1x_job \<times> host1x_world) option" where
  "patch_gathers env [] job w = Some (0, job, w)"
| "patch_gathers env (i # is) job w =
     (case job_cmds job ! i of
        CMD_GATHER g \<Rightarrow>
          if g_handled g then patch_gathers env is job w
          else if \<not> enable_firewall job \<and> length (addr_phys job) \<le> max_relocs job + i then None
          else
            let g = (if enable_firewall job then g else g\<lparr>g_base := addr_phys job ! (max_relocs job + i)\<rparr>);
                cs = (job_cmds job)[i := CMD_GATHER g];
                job = job\<lparr>job_cmds := take (i + 1) cs @ map (mark_handled (g_bo g) (g_base g)) (drop (i + 1) cs)\<rparr>
            in do {
              (err, job, w) \<leftarrow> do_relocs env g job w;
              if err \<noteq> 0 then Some (err, job, w) else patch_gathers env is job w
            }
      | _ \<Rightarrow> patch_gathers env is job w)"

definition host1x_job_pin :: "pin_env \<Rightarrow> host1x_job \<Rightarrow> host1x_world \<Rightarrow> (int \<times> host1x_job \<times> host1x_world) option" where
  "host1x_job_pin env job w = do {
     (err, job, w) \<leftarrow> pin_job env job w;
     (err, job, w) \<leftarrow> (if err \<noteq> 0 then Some (err, job, w)
       else do {
         (err, job, w) \<leftarrow> (if enable_firewall job then copy_gathers env job w else Some (0, job, w));
         if err \<noteq> 0 then Some (err, job, w) else patch_gathers env [0..<length (job_cmds job)] job w
       });
     if err \<noteq> 0 then Some (err, host1x_job_unpin (host_domain env) job w) else Some (0, job, w)
   }"

subsection \<open>What the firewall accepts\<close>

definition job_addr_reg :: "host1x_job \<Rightarrow> u32 \<Rightarrow> u32 \<Rightarrow> bool" where
  "job_addr_reg job c r = (case job_is_addr_reg job of None \<Rightarrow> False | Some addr_reg \<Rightarrow> addr_reg c r)"

fun job_permits :: "host1x_job \<Rightarrow> u32 \<Rightarrow> host1x_action \<Rightarrow> bool" where
  "job_permits job c0 (Set_class c) \<longleftrightarrow> (case job_is_valid_class job of None \<Rightarrow> c = c0 | Some valid \<Rightarrow> valid c)"
| "job_permits job c0 (Set_payload n) \<longleftrightarrow> False"
| "job_permits job c0 _ \<longleftrightarrow> True"

text \<open>The words for address registers, from place \<open>pos\<close> of a gather of \<open>bo\<close> on, take one relocation each.\<close>

fun match_relocs :: "host1x_job \<Rightarrow> nat \<Rightarrow> nat \<Rightarrow> (u32 \<times> u32) option list \<Rightarrow> host1x_reloc list \<Rightarrow> host1x_reloc list option" where
  "match_relocs job bo pos [] rs = Some rs"
| "match_relocs job bo pos (None # ls) rs = match_relocs job bo (pos + 1) ls rs"
| "match_relocs job bo pos (Some (c, r) # ls) rs =
     (if job_addr_reg job c r then
        (case rs of [] \<Rightarrow> None
         | x # xs \<Rightarrow> if check_reloc x bo (of_nat pos) then match_relocs job bo (pos + 1) ls xs else None)
      else match_relocs job bo (pos + 1) ls rs)"

lemma match_relocs_append:
  "match_relocs job bo pos (xs @ ys) rs = match_relocs job bo pos xs rs \<bind> match_relocs job bo (pos + length xs) ys"
  by (induction job bo pos xs rs rule: match_relocs.induct) (auto split: list.splits)

definition hf_inside :: "host1x_firewall \<Rightarrow> bool" where
  "hf_inside fw \<longleftrightarrow> unat (hf_offset fw) + unat (hf_words fw) < 2 ^ 32"

definition job_reads :: "host1x_job \<Rightarrow> u32 list \<Rightarrow> host1x_firewall \<Rightarrow> int \<times> host1x_firewall \<Rightarrow> bool" where
  "job_reads job offs fw res \<longleftrightarrow>
     (if unat (hf_words fw) < length offs then fst res = - EINVAL
      else case match_relocs job (hf_cmdbuf fw) (unat (hf_offset fw)) (map (\<lambda>r. Some (hf_class fw, r)) offs) (hf_relocs fw) of
        None \<Rightarrow> fst res = - EINVAL
      | Some rs \<Rightarrow> fst res = 0 \<and> hf_relocs (snd res) = rs
          \<and> unat (hf_words (snd res)) = unat (hf_words fw) - length offs
          \<and> unat (hf_offset (snd res)) = unat (hf_offset fw) + length offs
          \<and> hf_class (snd res) = hf_class fw \<and> hf_cmdbuf (snd res) = hf_cmdbuf fw)"

lemma job_reads_Nil: "job_reads job [] fw (0, fw)"
  by (simp add: job_reads_def)

lemma check_register_match:
  "check_register job r fw =
     (case match_relocs job (hf_cmdbuf fw) (unat (hf_offset fw)) [Some (hf_class fw, r)] (hf_relocs fw) of
        None \<Rightarrow> (- EINVAL, fw) | Some rs \<Rightarrow> (0, fw\<lparr>hf_relocs := rs\<rparr>))"
  by (auto simp: check_register_def job_addr_reg_def split: option.splits list.splits)

lemma hf_inside_step:
  assumes "hf_inside fw" "hf_words fw \<noteq> 0"
  shows "unat (hf_words (hf_advance fw)) = unat (hf_words fw) - 1"
    "unat (hf_offset (hf_advance fw)) = unat (hf_offset fw) + 1" "hf_inside (hf_advance fw)"
proof -
  have "0 < unat (hf_words fw)" using assms(2) by (simp add: unat_gt_0)
  then show w: "unat (hf_words (hf_advance fw)) = unat (hf_words fw) - 1"
    and o: "unat (hf_offset (hf_advance fw)) = unat (hf_offset fw) + 1"
    using assms by (simp_all add: hf_advance_def unat_minus_one hf_inside_def unat_word_ariths)
  from \<open>0 < _\<close> assms(1) show "hf_inside (hf_advance fw)" unfolding hf_inside_def w o by simp
qed

lemma hf_advance_sel [simp]:
  "hf_relocs (hf_advance fw) = hf_relocs fw" "hf_class (hf_advance fw) = hf_class fw" "hf_cmdbuf (hf_advance fw) = hf_cmdbuf fw"
  "hf_reg (hf_advance fw) = hf_reg fw" "hf_advance (fw\<lparr>hf_relocs := rs\<rparr>) = (hf_advance fw)\<lparr>hf_relocs := rs\<rparr>"
  by (simp_all add: hf_advance_def)

lemma job_reads_Cons:
  assumes i: "hf_inside fw"
    and K: "\<And>fw'. hf_inside fw' \<Longrightarrow> hf_reg fw' = hf_reg fw \<Longrightarrow> job_reads job offs fw' (K fw')"
  shows "job_reads job (r # offs) fw
    (if hf_words fw = 0 then (- EINVAL, fw)
     else case check_register job r fw of (ret, fw) \<Rightarrow> if ret < 0 then (ret, fw) else K (hf_advance fw))"
proof (cases "hf_words fw = 0")
  case True
  then show ?thesis by (simp add: job_reads_def)
next
  case False
  note s = hf_inside_step [OF i False]
  have p: "0 < unat (hf_words fw)" using False by (simp add: unat_gt_0)
  let ?m = "match_relocs job (hf_cmdbuf fw) (unat (hf_offset fw)) [Some (hf_class fw, r)] (hf_relocs fw)"
  have split: "match_relocs job (hf_cmdbuf fw) (unat (hf_offset fw)) (map (\<lambda>r. Some (hf_class fw, r)) (r # offs)) (hf_relocs fw)
      = ?m \<bind> match_relocs job (hf_cmdbuf fw) (unat (hf_offset fw) + 1) (map (\<lambda>r. Some (hf_class fw, r)) offs)"
    using match_relocs_append [of job "hf_cmdbuf fw" "unat (hf_offset fw)" "[Some (hf_class fw, r)]" "map (\<lambda>r. Some (hf_class fw, r)) offs"]
    by simp
  show ?thesis
  proof (cases ?m)
    case None
    with False split p show ?thesis by (simp add: job_reads_def check_register_match)
  next
    case (Some rs)
    let ?fw = "(hf_advance fw)\<lparr>hf_relocs := rs\<rparr>"
    have "hf_inside ?fw" using s(3) by (simp add: hf_inside_def)
    from K [OF this] have k: "job_reads job offs ?fw (K ?fw)" by simp
    have e: "(if hf_words fw = 0 then (- EINVAL, fw)
     else case check_register job r fw of (ret, fw) \<Rightarrow> if ret < 0 then (ret, fw) else K (hf_advance fw)) = K ?fw"
      using False Some by (simp add: check_register_match)
    show ?thesis unfolding e
      using k p unfolding job_reads_def split Some
      by (auto simp: s split: option.splits)
  qed
qed

lemma incr_reads: "hf_inside fw \<Longrightarrow> job_reads job (seq_offsets reg n True) fw (check_incr_loop job n reg fw)"
proof (induction n arbitrary: reg fw)
  case 0
  then show ?case by (simp add: seq_offsets_simps job_reads_Nil)
next
  case (Suc n)
  show ?case unfolding seq_offsets_simps check_incr_loop.simps if_True
    by (rule job_reads_Cons [OF Suc.prems]) (rule Suc.IH)
qed

lemma nonincr_reads: "hf_inside fw \<Longrightarrow> job_reads job (seq_offsets (hf_reg fw) n False) fw (check_nonincr_loop job n fw)"
proof (induction n arbitrary: fw)
  case 0
  then show ?case by (simp add: seq_offsets_simps job_reads_Nil)
next
  case (Suc n)
  show ?case unfolding seq_offsets_simps check_nonincr_loop.simps if_False
  proof (rule job_reads_Cons [OF Suc.prems])
    fix fw' assume "hf_inside fw'" "hf_reg fw' = hf_reg fw"
    with Suc.IH [of fw'] show "job_reads job (seq_offsets (hf_reg fw) n False) fw' (check_nonincr_loop job n fw')" by simp
  qed
qed

text \<open>The bits of a mask, from the lowest on.\<close>

definition mask_regs :: "nat \<Rightarrow> u32 \<Rightarrow> u32 \<Rightarrow> u32 list" where
  "mask_regs n msk reg = map (\<lambda>b. reg + of_nat b) (filter (bit msk) [0..<n])"

lemma mask_regs_Suc:
  "mask_regs (Suc n) msk reg = (if odd msk then [reg] else []) @ mask_regs n (drop_bit 1 msk) (reg + 1)"
proof -
  have "filter (bit msk) [0..<Suc n] = (if odd msk then [0] else []) @ map Suc (filter (bit (drop_bit 1 msk)) [0..<n])"
    by (simp add: upt_conv_Cons map_Suc_upt [symmetric] filter_map comp_def bit_drop_bit_eq bit_0 del: upt_Suc map_Suc_upt)
  then show ?thesis by (simp add: mask_regs_def ac_simps)
qed

lemma mask_reads:
  "hf_inside fw \<Longrightarrow> take_bit n msk = msk \<Longrightarrow> job_reads job (mask_regs n msk reg) fw (check_mask_loop job msk reg fw)"
proof (induction n arbitrary: msk reg fw)
  case 0
  then show ?case by (simp add: check_mask_loop.simps [of job 0] mask_regs_def job_reads_Nil)
next
  case (Suc n)
  have t: "take_bit n (drop_bit 1 msk) = drop_bit 1 msk"
    using Suc.prems(2) by (metis drop_bit_take_bit diff_Suc_1 One_nat_def)
  note IH = Suc.IH [OF _ t]
  show ?case
  proof (cases "msk = 0")
    case True
    then show ?thesis by (simp add: check_mask_loop.simps [of job 0] mask_regs_def job_reads_Nil)
  next
    case nz: False
    show ?thesis
    proof (cases "odd msk")
      case True
      then have b: "msk AND 1 \<noteq> 0" by (simp add: and_one_eq mod_2_eq_odd)
      have e: "check_mask_loop job msk reg fw = (if hf_words fw = 0 then (- EINVAL, fw)
          else case check_register job reg fw of (ret, fw) \<Rightarrow> if ret < 0 then (ret, fw)
            else check_mask_loop job (drop_bit 1 msk) (reg + 1) (hf_advance fw))"
        by (simp add: check_mask_loop.simps [of job msk reg fw] nz b)
      have "job_reads job (reg # mask_regs n (drop_bit 1 msk) (reg + 1)) fw (check_mask_loop job msk reg fw)"
        unfolding e by (rule job_reads_Cons [OF Suc.prems(1)]) (rule IH)
      with True show ?thesis by (simp add: mask_regs_Suc)
    next
      case False
      then have b: "msk AND 1 = 0" by (simp add: and_one_eq mod_2_eq_odd)
      have m: "mask_regs (Suc n) msk reg = mask_regs n (drop_bit 1 msk) (reg + 1)" using False by (simp add: mask_regs_Suc)
      show ?thesis
      proof (cases "hf_words fw = 0")
        case True
        from nz obtain k where k: "bit msk k" by (auto simp: bit_eq_iff)
        with Suc.prems(2) have "k < Suc n" by (metis bit_take_bit_iff)
        with k have "filter (bit msk) [0..<Suc n] \<noteq> []" by (auto simp: filter_empty_conv simp del: upt_Suc)
        then have "0 < length (mask_regs (Suc n) msk reg)" by (simp add: mask_regs_def del: upt_Suc)
        with True nz show ?thesis by (simp add: check_mask_loop.simps [of job msk reg fw] job_reads_def)
      next
        case wz: False
        then have "check_mask_loop job msk reg fw = check_mask_loop job (drop_bit 1 msk) (reg + 1) fw"
          by (subst check_mask_loop.simps) (simp add: nz b)
        with IH [OF Suc.prems(1)] m show ?thesis by simp
      qed
    qed
  qed
qed

definition job_turn :: "host1x_job \<Rightarrow> u32 \<Rightarrow> host1x_firewall
    \<Rightarrow> (host1x_action list \<times> u32 \<times> u32 option \<times> u32 list) option \<Rightarrow> int \<times> host1x_firewall \<Rightarrow> bool" where
  "job_turn job c0 fw cmd res \<longleftrightarrow>
     (case cmd of
        None \<Rightarrow> fst res = - EINVAL
      | Some (acts, c, p, offs) \<Rightarrow>
          if list_all (job_permits job c0) acts \<and> p = None then job_reads job offs (fw\<lparr>hf_class := c\<rparr>) res
          else fst res = - EINVAL)"

lemma job_reads_cong:
  "job_reads job offs fw res \<Longrightarrow> hf_relocs fw' = hf_relocs fw \<Longrightarrow> hf_words fw' = hf_words fw \<Longrightarrow>
   hf_offset fw' = hf_offset fw \<Longrightarrow> hf_class fw' = hf_class fw \<Longrightarrow> hf_cmdbuf fw' = hf_cmdbuf fw \<Longrightarrow> job_reads job offs fw' res"
  by (simp add: job_reads_def cong: if_cong option.case_cong)

lemma check_class_permits:
  "check_class job c0 fw = (if job_permits job c0 (Set_class (hf_class fw)) then 0 else - EINVAL)"
  by (auto simp: check_class_def split: option.splits)

lemma mask_offsets_regs: "mask_offsets offset msk = mask_regs 16 msk offset"
  by (simp add: mask_offsets_def mask_regs_def)

lemma take_bit_mask_field:
  "take_bit 16 (w AND 0xffff) = (w AND 0xffff :: u32)" "take_bit 16 (w AND 0x3f) = (w AND 0x3f :: u32)"
  by (simp_all add: take_bit_eq_mask mask_eq_exp_minus_1 ac_simps)

lemma validate_command_turn:
  assumes i: "hf_inside fw" and w: "hf_words fw \<noteq> 0"
  shows "job_turn job c0 (hf_advance fw) (host1x_opcode (hf_class fw) None word) (validate_command job c0 word fw)"
proof -
  define opcode where "opcode = drop_bit 28 word"
  note s = hf_inside_step [OF i w]
  note defs = validate_command_def host1x_opcode_def opcode_field Let_def opcode_def [symmetric]
  have i': "hf_inside ((hf_advance fw)\<lparr>hf_class := c, hf_mask := m, hf_reg := r, hf_count := k\<rparr>)" for c m r k
    using s(3) by (simp add: hf_inside_def)
  have eqs: "hf_advance (fw\<lparr>hf_mask := 0, hf_reg := 0, hf_count := 0\<rparr>)
      = (hf_advance fw)\<lparr>hf_class := hf_class fw, hf_mask := 0, hf_reg := 0, hf_count := 0\<rparr>"
    by (simp add: hf_advance_def)
  consider "opcode = 0" | "opcode = 1" | "opcode = 2" | "opcode = 3" | "opcode = 4" | "opcode = 9"
    | "opcode = 10" | "opcode = 11" | "opcode = 14"
    | "opcode \<noteq> 0" "opcode \<noteq> 1" "opcode \<noteq> 2" "opcode \<noteq> 3" "opcode \<noteq> 4" "opcode \<noteq> 9" "opcode \<noteq> 10" "opcode \<noteq> 11"
      "opcode \<noteq> 14"
    by metis
  then show ?thesis
  proof cases
    case 1
    let ?c = "drop_bit 6 word AND 0x3ff :: u32" and ?r = "drop_bit 16 word AND 0xfff :: u32"
    let ?fw = "(hf_advance fw)\<lparr>hf_class := ?c, hf_mask := word AND 0x3f, hf_reg := ?r, hf_count := 0\<rparr>"
    have e: "validate_command job c0 word fw = (if job_permits job c0 (Set_class ?c) then check_mask job ?fw else (- EINVAL, ?fw))"
      unfolding defs eqs check_class_permits
      using 1 by (simp; intro impI arg_cong [where f = "check_mask job"]; simp)
    have "job_reads job (mask_offsets ?r (word AND 0x3f)) ?fw (check_mask job ?fw)"
      unfolding check_mask_def mask_offsets_regs
      by simp (rule mask_reads [OF i' take_bit_mask_field(2)])
    then have "job_reads job (mask_offsets ?r (word AND 0x3f)) ((hf_advance fw)\<lparr>hf_class := ?c\<rparr>) (check_mask job ?fw)"
      by (rule job_reads_cong) simp_all
    with 1 show ?thesis unfolding e host1x_opcode_def Let_def opcode_def [symmetric]
      by (simp add: job_turn_def del: job_permits.simps(1)) 
  next
    case 2
    let ?r = "drop_bit 16 word AND 0xfff :: u32"
    let ?fw = "(hf_advance fw)\<lparr>hf_class := hf_class fw, hf_mask := 0, hf_reg := ?r, hf_count := word AND 0xffff\<rparr>"
    have e: "validate_command job c0 word fw = check_incr job ?fw" unfolding defs eqs using 2 by simp
    have "job_reads job (seq_offsets ?r (unat (word AND 0xffff)) True) ?fw (check_incr job ?fw)"
      unfolding check_incr_def using incr_reads [OF i', of job ?r "unat (word AND 0xffff)"] by simp
    then have "job_reads job (seq_offsets ?r (unat (word AND 0xffff)) True) ((hf_advance fw)\<lparr>hf_class := hf_class fw\<rparr>) (check_incr job ?fw)"
      by (rule job_reads_cong) simp_all
    with 2 show ?thesis unfolding e host1x_opcode_def Let_def opcode_def [symmetric] by (simp add: job_turn_def)
  next
    case 3
    let ?r = "drop_bit 16 word AND 0xfff :: u32"
    let ?fw = "(hf_advance fw)\<lparr>hf_class := hf_class fw, hf_mask := 0, hf_reg := ?r, hf_count := word AND 0xffff\<rparr>"
    have i1: "hf_inside ?fw" by (rule i')
    have e: "validate_command job c0 word fw = check_nonincr job ?fw" unfolding defs eqs using 3 by simp
    have "job_reads job (seq_offsets ?r (unat (word AND 0xffff)) False) ?fw (check_nonincr job ?fw)"
      unfolding check_nonincr_def using nonincr_reads [OF i1, of job "unat (word AND 0xffff)"] by simp
    then have "job_reads job (seq_offsets ?r (unat (word AND 0xffff)) False) ((hf_advance fw)\<lparr>hf_class := hf_class fw\<rparr>) (check_nonincr job ?fw)"
      by (rule job_reads_cong) simp_all
    with 3 show ?thesis unfolding e host1x_opcode_def Let_def opcode_def [symmetric] by (simp add: job_turn_def)
  next
    case 4
    let ?r = "drop_bit 16 word AND 0xfff :: u32"
    let ?fw = "(hf_advance fw)\<lparr>hf_class := hf_class fw, hf_mask := word AND 0xffff, hf_reg := ?r, hf_count := 0\<rparr>"
    have e: "validate_command job c0 word fw = check_mask job ?fw"
      unfolding defs eqs using 4 by (simp; intro arg_cong [where f = "check_mask job"]; simp)
    have "job_reads job (mask_offsets ?r (word AND 0xffff)) ?fw (check_mask job ?fw)"
      unfolding check_mask_def mask_offsets_regs
      by simp (rule mask_reads [OF i' take_bit_mask_field(1)])
    then have "job_reads job (mask_offsets ?r (word AND 0xffff)) ((hf_advance fw)\<lparr>hf_class := hf_class fw\<rparr>) (check_mask job ?fw)"
      by (rule job_reads_cong) simp_all
    with 4 show ?thesis unfolding e host1x_opcode_def Let_def opcode_def [symmetric] by (simp add: job_turn_def)
  next
    case 5
    then show ?thesis unfolding defs eqs by (simp add: job_turn_def job_reads_def)
  next
    case 6
    then show ?thesis unfolding defs by (simp add: job_turn_def)
  next
    case 7
    then show ?thesis unfolding defs by (simp add: job_turn_def)
  next
    case 8
    then show ?thesis unfolding defs by (simp add: job_turn_def)
  next
    case 9
    then show ?thesis unfolding defs eqs by (simp add: job_turn_def job_reads_def)
  next
    case 10
    then show ?thesis unfolding defs by (simp add: job_turn_def)
  qed
qed

lemma permitted_payload:
  "host1x_opcode c None w = Some (acts, c', p', offs) \<Longrightarrow> list_all (job_permits job c0) acts \<Longrightarrow> p' = None"
  by (auto simp: host1x_opcode_def Let_def split: if_splits)

lemma writes_permitted: "list_all (job_permits job c0) (map2 (Reg_write c) offs ws)"
  by (auto simp: list_all_iff)

text \<open>The loop of the firewall over the words \<open>ws\<close> that are left of a gather.\<close>

definition loop_result :: "host1x_job \<Rightarrow> u32 \<Rightarrow> u32 list \<Rightarrow> host1x_firewall \<Rightarrow> int \<times> host1x_firewall \<Rightarrow> bool" where
  "loop_result job c0 ws fw res \<longleftrightarrow>
     (case host1x_stream (hf_class fw) None ws of
        None \<Rightarrow> fst res = - EINVAL
      | Some acts \<Rightarrow>
          if list_all (job_permits job c0) acts then
            (case match_relocs job (hf_cmdbuf fw) (unat (hf_offset fw)) (the (host1x_labels (hf_class fw) None ws)) (hf_relocs fw) of
               None \<Rightarrow> fst res = - EINVAL
             | Some rs \<Rightarrow> fst res = 0 \<and> hf_relocs (snd res) = rs \<and> hf_class (snd res) = last_class (hf_class fw) acts)
          else fst res = - EINVAL)"

lemma validate_loop_result:
  "hf_inside fw \<Longrightarrow> unat (hf_offset fw) + unat (hf_words fw) \<le> length base \<Longrightarrow>
   \<exists>res. validate_loop job base c0 fw = Some res
     \<and> loop_result job c0 (take (unat (hf_words fw)) (drop (unat (hf_offset fw)) base)) fw res"
proof (induction "unat (hf_words fw)" arbitrary: fw rule: less_induct)
  case less
  show ?case
  proof (cases "hf_words fw = 0")
    case True
    then show ?thesis by (simp add: validate_loop.simps [of job base c0 fw] loop_result_def last_class_def)
  next
    case False
    let ?o = "unat (hf_offset fw)" and ?n = "unat (hf_words fw)"
    define w where "w = base ! ?o"
    define ws where "ws = take (?n - 1) (drop (?o + 1) base)"
    have p: "0 < ?n" using False by (simp add: unat_gt_0)
    then have o: "?o < length base" using less.prems(2) by simp
    have d: "take ?n (drop ?o base) = w # ws"
      using p o by (simp add: w_def ws_def take_Cons' Cons_nth_drop_Suc [symmetric])
    have lw: "length ws = ?n - 1" using less.prems(2) p by (simp add: ws_def)
    note s = hf_inside_step [OF less.prems(1) False]
    obtain err f where v: "validate_command job c0 w fw = (err, f)" by (cases "validate_command job c0 w fw")
    note t = validate_command_turn [OF less.prems(1) False, of job c0 w, unfolded v]
    have l: "validate_loop job base c0 fw = (if err \<noteq> 0 then Some (err, f) else validate_loop job base c0 f)"
      using False o v by (subst validate_loop.simps) (simp add: w_def)
    show ?thesis
    proof (cases "host1x_opcode (hf_class fw) None w")
      case None
      with t have "err = - EINVAL" by (simp add: job_turn_def)
      with l None show ?thesis unfolding d by (simp add: loop_result_def)
    next
      case (Some a)
      obtain acts c p' offs where a: "a = (acts, c, p', offs)" by (cases a)
      note cl = host1x_opcode_class [OF Some [unfolded a]]
      let ?str = "host1x_stream c p' (drop (length offs) ws)" and ?lab = "host1x_labels c p' (drop (length offs) ws)"
      let ?m = "match_relocs job (hf_cmdbuf fw) (?o + 1) (map (\<lambda>r. Some (c, r)) offs) (hf_relocs fw)"
      have str: "host1x_stream (hf_class fw) None (w # ws) = (if length ws < length offs then None
          else map_option (\<lambda>rest. acts @ map2 (Reg_write c) offs ws @ rest) ?str)"
        using Some a by simp
      have lab: "length offs \<le> length ws \<Longrightarrow> ?str = Some x \<Longrightarrow> match_relocs job (hf_cmdbuf fw) ?o
          (the (host1x_labels (hf_class fw) None (w # ws))) (hf_relocs fw)
          = ?m \<bind> match_relocs job (hf_cmdbuf fw) (?o + 1 + length offs) (the ?lab)" for x
        using Some a host1x_labels_Some [of c p' "drop (length offs) ws" x] by (auto simp: match_relocs_append)
      show ?thesis
      proof (cases "list_all (job_permits job c0) acts")
        case False
        with t Some a have "err = - EINVAL" by (simp add: job_turn_def)
        with l False str show ?thesis unfolding d by (auto simp: loop_result_def split: option.splits)
      next
        case acts: True
        have p': "p' = None" by (rule permitted_payload [OF Some [unfolded a] acts])
        have r: "job_reads job offs ((hf_advance fw)\<lparr>hf_class := c\<rparr>) (err, f)"
          using t Some a acts p' by (simp add: job_turn_def)
        show ?thesis
        proof (cases "length ws < length offs")
          case True
          then have "?n - 1 < length offs" using lw by simp
          with r s(1) have "err = - EINVAL" by (simp add: job_reads_def)
          with l True str show ?thesis unfolding d by (simp add: loop_result_def)
        next
          case len: False
          then have len': "\<not> ?n - 1 < length offs" using lw by simp
          show ?thesis
          proof (cases ?m)
            case None
            with r s len' have e: "err = - EINVAL" by (simp add: job_reads_def)
            have "loop_result job c0 (w # ws) fw (err, f)"
            proof (cases ?str)
              case n: None
              with str e show ?thesis by (simp add: loop_result_def)
            next
              case sm: (Some x)
              from lab [OF _ sm] len None str sm e show ?thesis by (simp add: loop_result_def)
            qed
            with l e show ?thesis unfolding d by simp
          next
            case m: (Some rs)
            with r s len' have f: "err = 0" "hf_relocs f = rs" "unat (hf_words f) = ?n - 1 - length offs"
              "unat (hf_offset f) = ?o + 1 + length offs" "hf_class f = c" "hf_cmdbuf f = hf_cmdbuf fw"
              by (simp_all add: job_reads_def)
            have i: "hf_inside f" "unat (hf_offset f) + unat (hf_words f) \<le> length base" "unat (hf_words f) < ?n"
              using f len' less.prems p by (simp_all add: hf_inside_def)
            have dr: "take (unat (hf_words f)) (drop (unat (hf_offset f)) base) = drop (length offs) ws"
              using f by (simp add: ws_def drop_take ac_simps)
            from less.hyps [OF i(3,1,2)] obtain res where res: "validate_loop job base c0 f = Some res"
              "loop_result job c0 (drop (length offs) ws) f res" unfolding dr by blast
            have "loop_result job c0 (w # ws) fw res"
            proof (cases ?str)
              case n: None
              with str res(2) f p' show ?thesis by (simp add: loop_result_def)
            next
              case sm: (Some x)
              have lc: "last_class (hf_class fw) (acts @ map2 (Reg_write c) offs ws @ x) = last_class c x"
                using cl by (simp add: last_class_append last_class_writes)
              have ok: "list_all (job_permits job c0) (acts @ map2 (Reg_write c) offs ws @ x) = list_all (job_permits job c0) x"
                using acts by (simp add: writes_permitted)
              show ?thesis
                using res(2) str len sm f p' m lab [OF _ sm]
                unfolding loop_result_def by (simp add: lc ok cong: if_cong option.case_cong del: list_all_append)
            qed
            with l f(1) res(1) show ?thesis unfolding d by simp
          qed
        qed
      qed
    qed
  qed
qed

end
