(* ===== verification/Host1x_Pin.thy ===== *)
theory Host1x_Pin
  imports Host1x_Job
begin

text \<open>
  Pinning and unpinning of a job (\<open>pin_job\<close>, \<open>host1x_job_unpin\<close> of \<open>gpu/host1x/job.c\<close>): what they do to references,
  mappings and I/O addresses, and which address each gather gets.
\<close>

text \<open>An error of \<open>host1x_bo_pin\<close> is not 0; an allocation of I/O addresses is not empty.\<close>

definition pin_errors :: "pin_env \<Rightarrow> bool" where
  "pin_errors env \<longleftrightarrow> (\<forall>i. bo_pin_reloc env i \<noteq> Inl 0 \<and> bo_pin_gather env i \<noteq> Inl 0)"

definition iova_sizes :: "pin_env \<Rightarrow> bool" where
  "iova_sizes env \<longleftrightarrow> (\<forall>i a s. alloc_iova env i = Some (a, s) \<longrightarrow> s \<noteq> 0)"

definition refs_of :: "host1x_bo_mapping list \<Rightarrow> nat \<Rightarrow> int" where
  "refs_of ms b = int (length (filter (\<lambda>m. map_bo m = b) ms))"

definition sized :: "host1x_bo_mapping list \<Rightarrow> int" where
  "sized ms = int (length (filter (\<lambda>m. map_size m \<noteq> 0) ms))"

lemma refs_of_simps [simp]:
  "refs_of [] b = 0" "refs_of (m # ms) b = (if map_bo m = b then 1 else 0) + refs_of ms b" "refs_of (xs @ ys) b = refs_of xs b + refs_of ys b"
  by (simp_all add: refs_of_def)

lemma sized_simps [simp]:
  "sized [] = 0" "sized (m # ms) = (if map_size m \<noteq> 0 then 1 else 0) + sized ms" "sized (xs @ ys) = sized xs + sized ys"
  by (simp_all add: sized_def)

text \<open>\<open>pinned_by ms n w w'\<close>: \<open>w'\<close> is \<open>w\<close> with the mappings \<open>ms\<close> and \<open>n\<close> allocations of I/O addresses more.\<close>

definition pinned_by :: "host1x_bo_mapping list \<Rightarrow> int \<Rightarrow> host1x_world \<Rightarrow> host1x_world \<Rightarrow> bool" where
  "pinned_by ms n w w' \<longleftrightarrow> bo_refs w' = (\<lambda>b. bo_refs w b + refs_of ms b) \<and> bo_data w' = bo_data w
     \<and> live_maps w' = live_maps w + int (length ms) \<and> live_iovas w' = live_iovas w + n \<and> live_copies w' = live_copies w"

lemma pinned_by_Nil: "pinned_by [] 0 w w"
  by (simp add: pinned_by_def)

lemma pinned_by_trans: "pinned_by ms n w w1 \<Longrightarrow> pinned_by ms' n' w1 w2 \<Longrightarrow> pinned_by (ms @ ms') (n + n') w w2"
  by (simp add: pinned_by_def fun_eq_iff)

lemma unpin_all:
  "foldl (\<lambda>w m. unpin_one domain m job w) w ms
   = w\<lparr>bo_refs := \<lambda>b. bo_refs w b - refs_of ms b, live_maps := live_maps w - int (length ms),
       live_iovas := live_iovas w - (if \<not> enable_firewall job \<and> domain then sized ms else 0)\<rparr>"
proof (induction ms arbitrary: w)
  case (Cons m ms)
  show ?case unfolding foldl.simps Cons
    by (auto simp: unpin_one_def bo_put_def Let_def fun_eq_iff)
qed simp

lemma pin_reloc_pinned:
  assumes "pin_errors env" "pin_reloc env i r (job, w) = Some (0, s)"
  shows "\<exists>m w1. s = (job\<lparr>addr_phys := (addr_phys job)[length (job_unpins job) := map_phys m], job_unpins := job_unpins job @ [m]\<rparr>, w1)
    \<and> map_bo m = target_bo r \<and> length (job_unpins job) < length (addr_phys job) \<and> pinned_by [m] 0 w w1"
proof (cases "bo_pin_reloc env i")
  case (Inl e)
  with assms show ?thesis by (auto simp: pin_errors_def pin_reloc_def Let_def split: if_splits)
next
  case (Inr m)
  let ?m = "m\<lparr>map_bo := target_bo r\<rparr>"
  show ?thesis
    using Inr assms(2)
    by (intro exI [of _ ?m]) (auto simp: pin_reloc_def Let_def job_pinned_def pinned_by_def bo_get_def fun_eq_iff split: if_splits)
qed

lemma pin_gather_pinned:
  assumes "pin_errors env" "iova_sizes env" "pin_gather env i g (job, w) = Some (0, s)"
  shows "\<exists>m w1. s = (job\<lparr>addr_phys := (addr_phys job)[length (job_unpins job) := map_phys m, max_relocs job + i := map_phys m],
        job_unpins := job_unpins job @ [m]\<rparr>, w1)
    \<and> map_bo m = g_bo g \<and> length (job_unpins job) < length (addr_phys job) \<and> max_relocs job + i < length (addr_phys job)
    \<and> pinned_by [m] (if host_domain env then 1 else 0) w w1 \<and> (host_domain env \<longrightarrow> map_size m \<noteq> 0)"
proof (cases "bo_pin_gather env i")
  case (Inl e)
  with assms show ?thesis by (auto simp: pin_errors_def pin_gather_def Let_def split: if_splits)
next
  case (Inr m0)
  let ?m = "m0\<lparr>map_bo := g_bo g\<rparr>"
  show ?thesis
  proof (cases "host_domain env")
    case False
    with Inr assms(3) show ?thesis
      by (intro exI [of _ ?m])
        (auto simp: pin_gather_def Let_def job_pinned_def pinned_by_def bo_get_def fun_eq_iff bind_eq_Some_conv split: if_splits)
  next
    case True
    show ?thesis
    proof (cases "alloc_iova env i")
      case None
      with True Inr assms(3) show ?thesis by (simp add: pin_gather_def Let_def)
    next
      case (Some a)
      obtain p z where a: "a = (p, z)" by (cases a)
      have "z \<noteq> 0" using assms(2) Some a by (auto simp: iova_sizes_def)
      with True Inr Some a assms(3) show ?thesis
        by (intro exI [of _ "?m\<lparr>map_phys := p, map_size := z\<rparr>"])
          (auto simp: pin_gather_def Let_def job_pinned_def pinned_by_def bo_get_def fun_eq_iff bind_eq_Some_conv split: if_splits)
    qed
  qed
qed

lemma pin_relocs_result:
  "pin_errors env \<Longrightarrow> pin_relocs env i rs (job, w) = Some (0, job', w') \<Longrightarrow>
   \<exists>ms A. job' = job\<lparr>job_unpins := job_unpins job @ ms, addr_phys := A\<rparr> \<and> length ms = length rs \<and> length A = length (addr_phys job)
     \<and> (\<forall>j < length (job_unpins job). A ! j = addr_phys job ! j)
     \<and> (\<forall>n < length rs. A ! (length (job_unpins job) + n) = map_phys (ms ! n) \<and> map_bo (ms ! n) = target_bo (rs ! n))
     \<and> pinned_by ms 0 w w'"
proof (induction rs arbitrary: i job w)
  case Nil
  then show ?case by (intro exI [of _ "[]"] exI [of _ "addr_phys job"]) (simp add: pinned_by_Nil)
next
  case (Cons r rs)
  let ?l = "length (job_unpins job)"
  from Cons.prems(2) obtain s1 where s1: "pin_reloc env i r (job, w) = Some (0, s1)" "pin_relocs env (i + 1) rs s1 = Some (0, job', w')"
    by (auto simp: bind_eq_Some_conv split: if_splits)
  from pin_reloc_pinned [OF Cons.prems(1) s1(1)] s1(2) obtain m w1 where m: "map_bo m = target_bo r" "?l < length (addr_phys job)"
    and l: "pin_relocs env (i + 1) rs (job\<lparr>addr_phys := (addr_phys job)[?l := map_phys m], job_unpins := job_unpins job @ [m]\<rparr>, w1)
      = Some (0, job', w')" and w1: "pinned_by [m] 0 w w1"
    by blast
  let ?job = "job\<lparr>addr_phys := (addr_phys job)[?l := map_phys m], job_unpins := job_unpins job @ [m]\<rparr>"
  from Cons.IH [OF Cons.prems(1) l] obtain ms A where IH: "job' = ?job\<lparr>job_unpins := job_unpins ?job @ ms, addr_phys := A\<rparr>" "length ms = length rs"
    "length A = length (addr_phys ?job)"
    "\<forall>j < length (job_unpins ?job). A ! j = addr_phys ?job ! j"
    "\<forall>n < length rs. A ! (length (job_unpins ?job) + n) = map_phys (ms ! n) \<and> map_bo (ms ! n) = target_bo (rs ! n)" "pinned_by ms 0 w1 w'" by blast
  have a: "\<forall>j < ?l. A ! j = addr_phys job ! j" using IH(4) by auto
  have b: "A ! ?l = map_phys m" using IH(4) m(2) by simp
  have c: "A ! (?l + n) = map_phys ((m # ms) ! n) \<and> map_bo ((m # ms) ! n) = target_bo ((r # rs) ! n)" if "n < length (r # rs)" for n
    using IH(5) b m(1) that by (cases n) simp_all
  have d: "pinned_by (m # ms) 0 w w'" using pinned_by_trans [OF w1 IH(6)] by simp
  show ?case using IH(1,2,3) a c d by (intro exI [of _ "m # ms"] exI [of _ A]) simp
qed

text \<open>The references that pinning the gathers of any job takes.\<close>

lemma pin_gathers_balance:
  "pin_errors env \<Longrightarrow> iova_sizes env \<Longrightarrow> pin_gathers env i cs (job, w) = Some (0, job', w') \<Longrightarrow>
   \<exists>ms A. job' = job\<lparr>job_unpins := job_unpins job @ ms, addr_phys := A\<rparr>
     \<and> pinned_by ms (if host_domain env then int (length ms) else 0) w w' \<and> (host_domain env \<longrightarrow> sized ms = int (length ms))"
proof (induction cs arbitrary: i job w)
  case Nil
  then show ?case by (intro exI [of _ "[]"] exI [of _ "addr_phys job"]) (simp add: pinned_by_Nil)
next
  case (Cons c cs)
  show ?case
  proof (cases "\<exists>g. c = CMD_GATHER g")
    case False
    with Cons.prems(3) have "pin_gathers env (i + 1) cs (job, w) = Some (0, job', w')" by (cases c) auto
    from Cons.IH [OF Cons.prems(1,2) this] show ?thesis .
  next
    case True
    then obtain g where g: "c = CMD_GATHER g" ..
    from Cons.prems(3) obtain s1 where s1: "pin_gather env i g (job, w) = Some (0, s1)" "pin_gathers env (i + 1) cs s1 = Some (0, job', w')"
      by (auto simp: g bind_eq_Some_conv split: if_splits)
    from pin_gather_pinned [OF Cons.prems(1,2) s1(1)] obtain m w1 where
      m0: "s1 = (job\<lparr>addr_phys := (addr_phys job)[length (job_unpins job) := map_phys m, max_relocs job + i := map_phys m],
        job_unpins := job_unpins job @ [m]\<rparr>, w1)"
        "pinned_by [m] (if host_domain env then 1 else 0) w w1" "host_domain env \<longrightarrow> map_size m \<noteq> 0" by blast
    define A0 where "A0 = (addr_phys job)[length (job_unpins job) := map_phys m, max_relocs job + i := map_phys m]"
    have m: "s1 = (job\<lparr>job_unpins := job_unpins job @ [m], addr_phys := A0\<rparr>, w1)"
      "pinned_by [m] (if host_domain env then 1 else 0) w w1" "host_domain env \<longrightarrow> map_size m \<noteq> 0"
      using m0 by (simp_all add: A0_def)
    from Cons.IH [OF Cons.prems(1,2) s1(2) [unfolded m(1)]] obtain ms A where
      IH: "job' = job\<lparr>job_unpins := job_unpins job @ m # ms, addr_phys := A\<rparr>"
        "pinned_by ms (if host_domain env then int (length ms) else 0) w1 w'" "host_domain env \<longrightarrow> sized ms = int (length ms)" by auto
    from pinned_by_trans [OF m(2) IH(2)] have "pinned_by (m # ms) (if host_domain env then int (length (m # ms)) else 0) w w'"
      by (cases "host_domain env") simp_all
    with IH m(3) show ?thesis by (intro exI [of _ "m # ms"] exI [of _ A]) auto
  qed
qed

text \<open>
  A job of gathers only gets, for each gather, the address of the mapping pinned for it: the slot of the gather in \<open>gather_addr_phys\<close>
  is the slot of its mapping.
\<close>

lemma pin_gathers_addresses:
  "pin_errors env \<Longrightarrow> iova_sizes env \<Longrightarrow> pin_gathers env i (map CMD_GATHER gs) (job, w) = Some (0, job', w') \<Longrightarrow>
   length (job_unpins job) = max_relocs job + i \<Longrightarrow>
   \<exists>ms A. job' = job\<lparr>job_unpins := job_unpins job @ ms, addr_phys := A\<rparr> \<and> length ms = length gs \<and> length A = length (addr_phys job)
     \<and> (\<forall>j < max_relocs job + i. A ! j = addr_phys job ! j)
     \<and> (\<forall>n < length gs. max_relocs job + i + n < length A \<and> A ! (max_relocs job + i + n) = map_phys (ms ! n) \<and> map_bo (ms ! n) = g_bo (gs ! n))"
proof (induction gs arbitrary: i job w)
  case Nil
  then show ?case by (intro exI [of _ "[]"] exI [of _ "addr_phys job"]) simp
next
  case (Cons g gs)
  let ?l = "max_relocs job + i"
  from Cons.prems(3) obtain s1 where s1: "pin_gather env i g (job, w) = Some (0, s1)"
    "pin_gathers env (i + 1) (map CMD_GATHER gs) s1 = Some (0, job', w')"
    by (auto simp: bind_eq_Some_conv split: if_splits)
  from pin_gather_pinned [OF Cons.prems(1,2) s1(1)] obtain m w1 where
    m: "s1 = (job\<lparr>addr_phys := (addr_phys job)[length (job_unpins job) := map_phys m, max_relocs job + i := map_phys m],
        job_unpins := job_unpins job @ [m]\<rparr>, w1)" "map_bo m = g_bo g" "?l < length (addr_phys job)" by blast
  define job1 where "job1 = job\<lparr>addr_phys := (addr_phys job)[?l := map_phys m], job_unpins := job_unpins job @ [m]\<rparr>"
  have s: "s1 = (job1, w1)" using m(1) Cons.prems(4) by (simp add: job1_def)
  have l1: "length (job_unpins job1) = max_relocs job1 + (i + 1)" using Cons.prems(4) by (simp add: job1_def)
  from Cons.IH [OF Cons.prems(1,2) s1(2) [unfolded s] l1] obtain ms A where
    IH: "job' = job1\<lparr>job_unpins := job_unpins job1 @ ms, addr_phys := A\<rparr>" "length ms = length gs" "length A = length (addr_phys job1)"
      "\<forall>j < ?l + 1. A ! j = addr_phys job1 ! j"
      "\<forall>n < length gs. ?l + 1 + n < length A \<and> A ! (?l + 1 + n) = map_phys (ms ! n) \<and> map_bo (ms ! n) = g_bo (gs ! n)"
    by (auto simp: job1_def)
  have la: "length A = length (addr_phys job)" using IH(3) by (simp add: job1_def)
  have a: "\<forall>j < ?l. A ! j = addr_phys job ! j" using IH(4) by (simp add: job1_def)
  have b: "A ! ?l = map_phys m" using IH(4) m(3) by (simp add: job1_def)
  have c: "?l + n < length A \<and> A ! (?l + n) = map_phys ((m # ms) ! n) \<and> map_bo ((m # ms) ! n) = g_bo ((g # gs) ! n)" if "n < length (g # gs)" for n
  proof (cases n)
    case 0
    then show ?thesis using b m(2,3) la by simp
  next
    case (Suc k)
    then show ?thesis using IH(5) that by simp
  qed
  show ?case using IH(1,2) la a c by (intro exI [of _ "m # ms"] exI [of _ A]) (simp add: job1_def)
qed

text \<open>Patching and copying change neither references nor mappings.\<close>

definition pins_kept :: "host1x_job \<Rightarrow> host1x_world \<Rightarrow> host1x_job \<Rightarrow> host1x_world \<Rightarrow> bool" where
  "pins_kept job w job' w' \<longleftrightarrow> job_unpins job' = job_unpins job \<and> addr_phys job' = addr_phys job \<and> enable_firewall job' = enable_firewall job
     \<and> gather_copy_size job' = gather_copy_size job \<and> max_relocs job' = max_relocs job
     \<and> bo_refs w' = bo_refs w \<and> live_maps w' = live_maps w \<and> live_iovas w' = live_iovas w \<and> live_copies w' = live_copies w"

lemma pins_kept_refl: "pins_kept job w job w"
  by (simp add: pins_kept_def)

lemma pins_kept_trans: "pins_kept job w job1 w1 \<Longrightarrow> pins_kept job1 w1 job2 w2 \<Longrightarrow> pins_kept job w job2 w2"
  by (simp add: pins_kept_def)

lemma do_relocs_loop_kept:
  "do_relocs_loop env g i rs job w = Some (e, job', w') \<Longrightarrow> pins_kept job w job' w' \<and> job_cmds job' = job_cmds job"
proof (induction rs arbitrary: i job w)
  case Nil
  then show ?case by (simp add: pins_kept_refl)
next
  case (Cons r rs)
  have k: "pins_kept job w (job\<lparr>gather_copy_mapped := M\<rparr>) w" "pins_kept job w job (w\<lparr>bo_data := D\<rparr>)" for M D
    by (simp_all add: pins_kept_def)
  from Cons.prems show ?case
    by (auto simp: bind_eq_Some_conv Let_def pins_kept_refl split: if_splits dest!: Cons.IH intro: pins_kept_trans [OF k(1)] pins_kept_trans [OF k(2)])
qed

lemma patch_gathers_kept:
  "patch_gathers env is job w = Some (e, job', w') \<Longrightarrow> pins_kept job w job' w'"
proof (induction "is" arbitrary: job w)
  case Nil
  then show ?case by (simp add: pins_kept_refl)
next
  case (Cons i "is")
  show ?case
  proof (cases "\<exists>g. job_cmds job ! i = CMD_GATHER g \<and> \<not> g_handled g")
    case False
    with Cons.prems have "patch_gathers env is job w = Some (e, job', w')" by (auto split: host1x_job_cmd.splits)
    with Cons.IH show ?thesis .
  next
    case True
    then obtain g where g: "job_cmds job ! i = CMD_GATHER g" "\<not> g_handled g" by blast
    have k: "pins_kept job w (job\<lparr>job_cmds := cs\<rparr>) w" for cs by (simp add: pins_kept_def)
    from Cons.prems g show ?thesis
      by (auto simp: bind_eq_Some_conv Let_def do_relocs_def split: if_splits dest!: do_relocs_loop_kept Cons.IH
          intro: pins_kept_trans [OF k] pins_kept_trans)
  qed
qed

lemma copy_gathers_loop_kept:
  "copy_gathers_loop env w i cs off fw job = Some (e, fw', job') \<Longrightarrow> pins_kept job w job' w"
proof (induction cs arbitrary: i off fw job)
  case Nil
  then show ?case by (simp add: pins_kept_refl)
next
  case (Cons c cs)
  have k: "pins_kept job w (job\<lparr>gather_copy_mapped := M, job_cmds := cs\<rparr>) w" for M cs by (simp add: pins_kept_def)
  show ?case
  proof (cases c)
    case (CMD_GATHER g)
    with Cons.prems show ?thesis
      by (auto simp: bind_eq_Some_conv Let_def k split: if_splits dest!: Cons.IH intro: pins_kept_trans [OF k])
  qed (use Cons in auto)
qed

lemma pin_job_success:
  assumes "pin_job env job w = Some (0, job', w')" "pin_errors env" "iova_sizes env"
  shows "\<exists>ms ns A. job' = job\<lparr>job_unpins := ms @ ns, addr_phys := A\<rparr> \<and> length ms = length (job_relocs job)
    \<and> pinned_by (ms @ ns) (if host_domain env then int (length ns) else 0) w w'
    \<and> (host_domain env \<longrightarrow> sized ns = int (length ns)) \<and> (enable_firewall job \<longrightarrow> ns = [])"
proof -
  from assms(1) obtain e job0 w0 where r: "pin_relocs env 0 (job_relocs job) (job\<lparr>job_unpins := []\<rparr>, w) = Some (e, job0, w0)"
    by (auto simp: pin_job_def bind_eq_Some_conv)
  with assms(1) have e: "e = 0" by (auto simp: pin_job_def split: if_splits)
  from pin_relocs_result [OF assms(2) r [unfolded e]] obtain ms A where
    j0: "job0 = job\<lparr>job_unpins := ms, addr_phys := A\<rparr>" "length ms = length (job_relocs job)" "pinned_by ms 0 w w0" by auto
  show ?thesis
  proof (cases "enable_firewall job")
    case True
    then have "job' = job0" "w' = w0" using assms(1) r e j0(1) by (simp_all add: pin_job_def)
    with j0 True show ?thesis by (intro exI [of _ ms] exI [of _ "[]"] exI [of _ A]) simp
  next
    case False
    then have "pin_gathers env 0 (job_cmds job0) (job0, w0) = Some (0, job', w')"
      using assms(1) r e j0(1) by (auto simp: pin_job_def bind_eq_Some_conv split: if_splits)
    from pin_gathers_balance [OF assms(2,3) this] obtain ns B where
      ns: "job' = job0\<lparr>job_unpins := job_unpins job0 @ ns, addr_phys := B\<rparr>"
        "pinned_by ns (if host_domain env then int (length ns) else 0) w0 w'" "host_domain env \<longrightarrow> sized ns = int (length ns)" by blast
    from pinned_by_trans [OF j0(3) ns(2)] ns j0 False show ?thesis
      by (intro exI [of _ ms] exI [of _ ns] exI [of _ B]) simp
  qed
qed

lemma pin_unpin_balance:
  assumes pin: "host1x_job_pin env job w = Some (0, job', w')" and errs: "pin_errors env" "iova_sizes env"
    and fresh: "gather_copy_size job = 0" and sz: "enable_firewall job \<Longrightarrow> gathers_size (job_cmds job) \<noteq> 0"
    and un: "host1x_job_unpin (host_domain env) job' w' = (job2, w2)"
  shows "bo_refs w2 = bo_refs w \<and> live_maps w2 = live_maps w \<and> live_copies w2 = live_copies w
    \<and> live_iovas w2 = live_iovas w
        - (if \<not> enable_firewall job \<and> host_domain env then sized (take (length (job_relocs job)) (job_unpins job')) else 0)"
proof -
  from pin obtain job1 w1 where p: "pin_job env job w = Some (0, job1, w1)"
    by (auto simp: host1x_job_pin_def bind_eq_Some_conv split: if_splits)
  from pin_job_success [OF p errs] obtain ms ns A where
    j1: "job1 = job\<lparr>job_unpins := ms @ ns, addr_phys := A\<rparr>" "length ms = length (job_relocs job)"
    "pinned_by (ms @ ns) (if host_domain env then int (length ns) else 0) w w1"
    "host_domain env \<longrightarrow> sized ns = int (length ns)" "enable_firewall job \<longrightarrow> ns = []" by blast
  define n where "n = (if enable_firewall job then 1 else 0 :: int)"
  have k: "job_unpins job' = ms @ ns \<and> enable_firewall job' = enable_firewall job \<and> bo_refs w' = bo_refs w1 \<and> live_maps w' = live_maps w1
      \<and> live_iovas w' = live_iovas w1 \<and> live_copies w' = live_copies w1 + n
      \<and> (gather_copy_size job' \<noteq> 0 \<longleftrightarrow> enable_firewall job)"
  proof (cases "enable_firewall job")
    case False
    with pin p j1(1) have "patch_gathers env [0..<length (job_cmds job1)] job1 w1 = Some (0, job', w')"
      by (auto simp: host1x_job_pin_def bind_eq_Some_conv split: if_splits)
    from patch_gathers_kept [OF this] j1(1) False fresh show ?thesis by (simp add: pins_kept_def n_def)
  next
    case True
    with pin p j1(1) obtain jc wc where c: "copy_gathers env job1 w1 = Some (0, jc, wc)"
      "patch_gathers env [0..<length (job_cmds jc)] jc wc = Some (0, job', w')"
      by (auto simp: host1x_job_pin_def bind_eq_Some_conv split: if_splits)
    then obtain dma fw' where l: "copy_gathers_loop env (w1\<lparr>live_copies := live_copies w1 + 1\<rparr>) 0 (job_cmds job1) 0
        \<lparr>hf_relocs = job_relocs job1, hf_cmdbuf = 0, hf_offset = 0, hf_words = 0, hf_class = job_class job1, hf_reg = 0, hf_mask = 0, hf_count = 0\<rparr>
        (job1\<lparr>gather_copy := dma, gather_copy_mapped := replicate (gathers_size (job_cmds job1) div 4) 0,
          gather_copy_size := gathers_size (job_cmds job1)\<rparr>) = Some (0, fw', jc)" "wc = w1\<lparr>live_copies := live_copies w1 + 1\<rparr>"
      by (auto simp: copy_gathers_def Let_def bind_eq_Some_conv split: option.splits if_splits)
    from copy_gathers_loop_kept [OF l(1)] patch_gathers_kept [OF c(2)] l(2) j1(1) True sz show ?thesis
      by (simp add: pins_kept_def n_def)
  qed
  show ?thesis
    using un k j1 unfolding host1x_job_unpin_def unpin_all Let_def
    by (auto simp: pinned_by_def n_def fun_eq_iff split: if_splits)
qed

subsection \<open>The addresses of the gathers\<close>

text \<open>The gathers \<open>gs'\<close> of a job being patched, compared with its gathers \<open>gs\<close>; those before \<open>i\<close> are done.\<close>

definition addressed :: "host1x_job \<Rightarrow> host1x_job_gather list \<Rightarrow> nat \<Rightarrow> bool" where
  "addressed job gs i \<longleftrightarrow> (\<exists>gs'. job_cmds job = map CMD_GATHER gs' \<and> map g_bo gs' = map g_bo gs \<and> map g_offset gs' = map g_offset gs
     \<and> map g_words gs' = map g_words gs
     \<and> (\<forall>j < length gs. j < i \<or> g_handled (gs' ! j) \<longrightarrow>
         (\<exists>n < length gs. g_bo (gs ! n) = g_bo (gs ! j) \<and> g_base (gs' ! j) = addr_phys job ! (max_relocs job + n))))"

lemma addressed_cong:
  "job_cmds job' = job_cmds job \<Longrightarrow> addr_phys job' = addr_phys job \<Longrightarrow> max_relocs job' = max_relocs job \<Longrightarrow>
   addressed job' gs i = addressed job gs i"
  by (simp add: addressed_def)

lemma addressed_step:
  assumes a: "addressed job gs i" and i: "i < length gs" and cg: "job_cmds job ! i = CMD_GATHER g"
  shows "g_handled g \<Longrightarrow> addressed job gs (Suc i)"
    "\<not> g_handled g \<Longrightarrow> b = addr_phys job ! (max_relocs job + i) \<Longrightarrow>
      addressed (job\<lparr>job_cmds := take (Suc i) ((job_cmds job)[i := CMD_GATHER (g\<lparr>g_base := b\<rparr>)])
        @ map (mark_handled (g_bo g) b) (drop (Suc i) ((job_cmds job)[i := CMD_GATHER (g\<lparr>g_base := b\<rparr>)]))\<rparr>) gs (Suc i)"
proof -
  from a obtain gs' where gs': "job_cmds job = map CMD_GATHER gs'" "map g_bo gs' = map g_bo gs" "map g_offset gs' = map g_offset gs"
    "map g_words gs' = map g_words gs" "\<forall>j < length gs. j < i \<or> g_handled (gs' ! j) \<longrightarrow>
         (\<exists>n < length gs. g_bo (gs ! n) = g_bo (gs ! j) \<and> g_base (gs' ! j) = addr_phys job ! (max_relocs job + n))"
    by (auto simp: addressed_def)
  have len: "length gs' = length gs" using gs'(2) by (metis length_map)
  have g: "gs' ! i = g" using cg gs'(1) i len by simp
  show "addressed job gs (Suc i)" if "g_handled g"
    unfolding addressed_def
    using gs' g that by (intro exI [of _ gs']) (auto simp: less_Suc_eq)
  show "addressed (job\<lparr>job_cmds := take (Suc i) ((job_cmds job)[i := CMD_GATHER (g\<lparr>g_base := b\<rparr>)])
        @ map (mark_handled (g_bo g) b) (drop (Suc i) ((job_cmds job)[i := CMD_GATHER (g\<lparr>g_base := b\<rparr>)]))\<rparr>) gs (Suc i)"
    if nh: "\<not> g_handled g" and b: "b = addr_phys job ! (max_relocs job + i)"
  proof -
    define mk :: "host1x_job_gather \<Rightarrow> host1x_job_gather" where "mk h = (if g_bo h = g_bo g then h\<lparr>g_handled := True, g_base := b\<rparr> else h)" for h
    define hs where "hs = take (Suc i) (gs'[i := g\<lparr>g_base := b\<rparr>]) @ map mk (drop (Suc i) gs')"
    have cs: "take (Suc i) ((job_cmds job)[i := CMD_GATHER (g\<lparr>g_base := b\<rparr>)])
        @ map (mark_handled (g_bo g) b) (drop (Suc i) ((job_cmds job)[i := CMD_GATHER (g\<lparr>g_base := b\<rparr>)])) = map CMD_GATHER hs"
      by (simp add: gs'(1) hs_def map_update [symmetric] take_map drop_map mk_def mark_handled_def comp_def)
    have lh: "length hs = length gs" using i len by (simp add: hs_def)
    have nth: "hs ! j = (if j < i then gs' ! j else if j = i then g\<lparr>g_base := b\<rparr> else mk (gs' ! j))" if "j < length gs" for j
      using that len i by (auto simp: hs_def nth_append min_def)
    have bo: "g_bo (hs ! j) = g_bo (gs ! j)" "g_offset (hs ! j) = g_offset (gs ! j)" "g_words (hs ! j) = g_words (gs ! j)"
      if "j < length gs" for j
    proof -
      have "g_bo (gs' ! j) = g_bo (gs ! j)" "g_offset (gs' ! j) = g_offset (gs ! j)" "g_words (gs' ! j) = g_words (gs ! j)"
        using gs'(2,3,4) that len by (metis nth_map)+
      then show "g_bo (hs ! j) = g_bo (gs ! j)" "g_offset (hs ! j) = g_offset (gs ! j)" "g_words (hs ! j) = g_words (gs ! j)"
        using nth [OF that] g by (auto simp: mk_def)
    qed
    have same: "map g_bo hs = map g_bo gs" "map g_offset hs = map g_offset gs" "map g_words hs = map g_words gs"
      by (intro nth_equalityI; simp add: lh bo)+
    have ok: "\<exists>n < length gs. g_bo (gs ! n) = g_bo (gs ! j) \<and> g_base (hs ! j) = addr_phys job ! (max_relocs job + n)"
      if j: "j < length gs" "j < Suc i \<or> g_handled (hs ! j)" for j
    proof (cases "g_base (hs ! j) = b \<and> g_bo (hs ! j) = g_bo g")
      case True
      have "g_bo (gs ! i) = g_bo g" using gs'(2) g i len by (metis nth_map)
      with True b bo(1) [OF j(1)] i show ?thesis by (intro exI [of _ i]) simp
    next
      case False
      with nth [OF j(1)] j have "hs ! j = gs' ! j" "j < i \<or> g_handled (gs' ! j)"
        by (auto simp: mk_def split: if_splits)
      with gs'(5) j(1) show ?thesis by metis
    qed
    show ?thesis unfolding addressed_def cs using same ok lh by (intro exI [of _ hs]) auto
  qed
qed

lemma patch_gathers_addresses:
  "patch_gathers env [i..<length gs] job w = Some (0, job', w') \<Longrightarrow> \<not> enable_firewall job \<Longrightarrow> addressed job gs i \<Longrightarrow>
   i \<le> length gs \<Longrightarrow> addressed job' gs (length gs)"
proof (induction "length gs - i" arbitrary: i job w)
  case 0
  then show ?case by simp
next
  case (Suc n)
  then have i: "i < length gs" by simp
  then have up: "[i..<length gs] = i # [Suc i..<length gs]" by (rule upt_conv_Cons)
  have n: "n = length gs - Suc i" using Suc.hyps(2) by simp
  from Suc.prems(3) obtain gs' where "job_cmds job = map CMD_GATHER gs'" "map g_bo gs' = map g_bo gs" by (auto simp: addressed_def)
  then obtain g where g: "job_cmds job ! i = CMD_GATHER g" using i by (metis length_map nth_map)
  note st = addressed_step [OF Suc.prems(3) i g]
  show ?case
  proof (cases "g_handled g")
    case True
    with Suc.prems(1) g have "patch_gathers env [Suc i..<length gs] job w = Some (0, job', w')" unfolding up by simp
    from Suc.hyps(1) [OF n this Suc.prems(2) st(1) [OF True]] i show ?thesis by simp
  next
    case False
    define b where "b = addr_phys job ! (max_relocs job + i)"
    define job1 where "job1 = job\<lparr>job_cmds := take (Suc i) ((job_cmds job)[i := CMD_GATHER (g\<lparr>g_base := b\<rparr>)])
        @ map (mark_handled (g_bo g) b) (drop (Suc i) ((job_cmds job)[i := CMD_GATHER (g\<lparr>g_base := b\<rparr>)]))\<rparr>"
    from Suc.prems(1,2) g False obtain job2 w2 where d: "do_relocs env (g\<lparr>g_base := b\<rparr>) job1 w = Some (0, job2, w2)"
      and r: "patch_gathers env [Suc i..<length gs] job2 w2 = Some (0, job', w')"
      unfolding up by (auto simp: Let_def bind_eq_Some_conv job1_def b_def split: if_splits)
    from do_relocs_loop_kept [OF d [unfolded do_relocs_def]] have k: "pins_kept job1 w job2 w2" "job_cmds job2 = job_cmds job1" by simp_all
    have "addressed job1 gs (Suc i)" unfolding job1_def by (rule st(2) [OF False b_def])
    then have "addressed job2 gs (Suc i)" using k by (simp add: addressed_cong [of job2 job1] pins_kept_def)
    moreover have "\<not> enable_firewall job2" using k(1) Suc.prems(2) by (simp add: pins_kept_def job1_def)
    ultimately show ?thesis using Suc.hyps(1) [OF n r] i by simp
  qed
qed

lemma pinned_gather_addresses:
  assumes pin: "host1x_job_pin env job w = Some (0, job', w')" and errs: "pin_errors env" "iova_sizes env"
    and nofw: "\<not> enable_firewall job" and g: "job_cmds job = map CMD_GATHER gs" and nh: "\<forall>g \<in> set gs. \<not> g_handled g"
    and full: "length (job_relocs job) = max_relocs job"
  shows "\<exists>gs'. job_cmds job' = map CMD_GATHER gs' \<and> length gs' = length gs
    \<and> (\<forall>j < length gs. g_bo (gs' ! j) = g_bo (gs ! j) \<and> g_offset (gs' ! j) = g_offset (gs ! j) \<and> g_words (gs' ! j) = g_words (gs ! j)
        \<and> (\<exists>m \<in> set (job_unpins job'). map_bo m = g_bo (gs ! j) \<and> g_base (gs' ! j) = map_phys m))"
proof -
  from pin obtain job1 w1 where p: "pin_job env job w = Some (0, job1, w1)"
    by (auto simp: host1x_job_pin_def bind_eq_Some_conv split: if_splits)
  then obtain e job0 w0 where r: "pin_relocs env 0 (job_relocs job) (job\<lparr>job_unpins := []\<rparr>, w) = Some (e, job0, w0)"
    by (auto simp: pin_job_def bind_eq_Some_conv)
  with p have e: "e = 0" by (auto simp: pin_job_def split: if_splits)
  from pin_relocs_result [OF errs(1) r [unfolded e]] obtain ms A where
    j0: "job0 = job\<lparr>job_unpins := ms, addr_phys := A\<rparr>" "length ms = length (job_relocs job)" by auto
  have pg: "pin_gathers env 0 (map CMD_GATHER gs) (job0, w0) = Some (0, job1, w1)"
    using p r e j0(1) nofw g by (auto simp: pin_job_def bind_eq_Some_conv split: if_splits)
  have l0: "length (job_unpins job0) = max_relocs job0 + 0" using j0 full by simp
  from pin_gathers_addresses [OF errs pg l0] obtain ns B where
    j1: "job1 = job0\<lparr>job_unpins := job_unpins job0 @ ns, addr_phys := B\<rparr>" "length ns = length gs"
      "\<forall>n < length gs. B ! (max_relocs job0 + n) = map_phys (ns ! n) \<and> map_bo (ns ! n) = g_bo (gs ! n)" by auto
  have nofw1: "\<not> enable_firewall job1" "job_cmds job1 = map CMD_GATHER gs" using nofw g j0(1) j1(1) by simp_all
  with pin p have pt: "patch_gathers env [0..<length gs] job1 w1 = Some (0, job', w')"
    by (auto simp: host1x_job_pin_def bind_eq_Some_conv split: if_splits)
  have "addressed job1 gs 0" unfolding addressed_def using nofw1(2) nh by (intro exI [of _ gs]) simp
  from patch_gathers_addresses [OF pt nofw1(1) this] have ad: "addressed job' gs (length gs)" by simp
  have k: "job_unpins job' = ms @ ns" "addr_phys job' = B" "max_relocs job' = max_relocs job"
    using patch_gathers_kept [OF pt] j1(1) j0(1) by (simp_all add: pins_kept_def)
  from ad obtain gs' where gs': "job_cmds job' = map CMD_GATHER gs'" "map g_bo gs' = map g_bo gs" "map g_offset gs' = map g_offset gs"
    "map g_words gs' = map g_words gs" "\<forall>j < length gs. \<exists>n < length gs. g_bo (gs ! n) = g_bo (gs ! j) \<and> g_base (gs' ! j) = B ! (max_relocs job + n)"
    unfolding addressed_def k by auto
  have len: "length gs' = length gs" using gs'(2) by (metis length_map)
  have "\<exists>m \<in> set (job_unpins job'). map_bo m = g_bo (gs ! j) \<and> g_base (gs' ! j) = map_phys m" if j: "j < length gs" for j
  proof -
    from gs'(5) j obtain n where n: "n < length gs" "g_bo (gs ! n) = g_bo (gs ! j)" "g_base (gs' ! j) = B ! (max_relocs job + n)" by blast
    with j1(2,3) j0(1) k(1) show ?thesis by (intro bexI [of _ "ns ! n"]) auto
  qed
  moreover have "g_bo (gs' ! j) = g_bo (gs ! j) \<and> g_offset (gs' ! j) = g_offset (gs ! j) \<and> g_words (gs' ! j) = g_words (gs ! j)"
    if "j < length gs" for j
    using gs'(2,3,4) len that by (metis nth_map)
  ultimately show ?thesis using gs'(1) len by blast
qed

subsection \<open>Examples\<close>

definition job_of :: "bool \<Rightarrow> host1x_job_cmd list \<Rightarrow> host1x_reloc list \<Rightarrow> host1x_job" where
  "job_of fw cs rs = \<lparr>job_cmds = cs, max_cmds = length cs, job_relocs = rs, max_relocs = length rs, job_unpins = [],
     addr_phys = replicate (length rs + (if fw then 0 else length cs)) 0, enable_firewall = fw, job_class = 0x51,
     job_is_addr_reg = Some (\<lambda>c r. r = 0x1a), job_is_valid_class = Some (\<lambda>c. c = 0x51), job_syncpt = None, job_syncpt_incrs = 0,
     job_secondary_syncpt = None, gather_copy = 0, gather_copy_mapped = [], gather_copy_size = 0\<rparr>"

definition gather_of :: "nat \<Rightarrow> u32 \<Rightarrow> u32 \<Rightarrow> host1x_job_gather" where
  "gather_of bo n off = \<lparr>g_words = n, g_base = 0, g_bo = bo, g_offset = off, g_handled = False\<rparr>"

definition reloc_of :: "nat \<Rightarrow> u64 \<Rightarrow> nat \<Rightarrow> u64 \<Rightarrow> host1x_reloc" where
  "reloc_of bo off t toff = \<lparr>cmdbuf_bo = bo, cmdbuf_offset = off, target_bo = t, target_offset = toff, reloc_shift = 0, reloc_flags = 3\<rparr>"

definition simple_env :: pin_env where
  "simple_env = \<lparr>bo_pin_reloc = \<lambda>i. Inr \<lparr>map_bo = 0, map_phys = 0x80000000, map_size = 4096, map_chunks = 1\<rparr>,
     bo_pin_gather = \<lambda>i. Inr \<lparr>map_bo = 0, map_phys = 0x1000 * of_nat i, map_size = 4096, map_chunks = 1\<rparr>, host_domain = False,
     alloc_iova = \<lambda>i. None, iommu_map_ok = \<lambda>i. True, dma_alloc_wc = Some 0x90000000, bo_mmap_ok = \<lambda>b. True\<rparr>"

definition world_of :: "(nat \<Rightarrow> u32 list) \<Rightarrow> host1x_world" where
  "world_of d = \<lparr>bo_refs = \<lambda>b. 1, bo_data = d, live_maps = 0, live_iovas = 0, live_copies = 0\<rparr>"

lemmas pin_eval = host1x_job_pin_def pin_job_def pin_reloc_def Let_def job_pinned_def copy_gathers_def gathers_size_def
  words_at_def put_words_def validate_def validate_loop.simps validate_command_def check_incr_def check_register_def check_reloc_def
  hf_advance_def do_relocs_def mark_handled_def bo_get_def job_of_def gather_of_def reloc_of_def simple_env_def world_of_def

text \<open>A wait before the gathers shifts the slots: the first of two gathers gets the address of the second.\<close>

lemma wait_shifts_addresses:
  "map_option (\<lambda>(err, job, w). (err, map (\<lambda>c. case c of CMD_GATHER g \<Rightarrow> Some (g_bo g, g_base g) | _ \<Rightarrow> None) (job_cmds job)))
     (host1x_job_pin simple_env (job_of False [CMD_WAIT \<lparr>w_id = 0, w_threshold = 0, w_next_class = 0x51, w_relative = False\<rparr>,
       CMD_GATHER (gather_of 3 2 0), CMD_GATHER (gather_of 4 2 0)] []) (world_of (\<lambda>b. [0, 0])))
   = Some (0, [None, Some (3, 0x2000), Some (4, 0x2000)])"
  by (simp add: pin_eval pin_gather_def upt_rec)

text \<open>A buffer that cannot be mapped keeps the reference taken for it.\<close>

lemma failed_pin_keeps_reference:
  "map_option (\<lambda>(err, job, w). (err, bo_refs w 7))
     (host1x_job_pin (simple_env\<lparr>bo_pin_reloc := \<lambda>i. Inl (- ENOMEM)\<rparr>) (job_of False [] [reloc_of 0 4 7 0x10]) (world_of (\<lambda>b. [0, 0])))
   = Some (- ENOMEM, 2)"
  by (simp add: pin_eval host1x_job_unpin_def)

text \<open>
  C16. Unpinning a job takes back what pinning it took: every reference to a buffer, every mapping, and the copies of
  the gathers. Of the I/O addresses of host1x it takes back more: behind an IOMMU it also frees one for each relocation, though pinning allocated
  them for gathers only.
\<close>

theorem host1x_pin_balance:
  assumes "host1x_job_pin env job w = Some (0, job', w')" and "pin_errors env" "iova_sizes env"
    and "gather_copy_size job = 0" and "enable_firewall job \<Longrightarrow> gathers_size (job_cmds job) \<noteq> 0"
    and "host1x_job_unpin (host_domain env) job' w' = (job2, w2)"
  shows "bo_refs w2 = bo_refs w \<and> live_maps w2 = live_maps w \<and> live_copies w2 = live_copies w
    \<and> live_iovas w2 = live_iovas w
        - (if \<not> enable_firewall job \<and> host_domain env then sized (take (length (job_relocs job)) (job_unpins job')) else 0)"
  by (rule pin_unpin_balance [OF assms])

theorem host1x_pin_balance_witness:
  "\<exists>job' w' job2 w2. host1x_job_pin (simple_env\<lparr>host_domain := True, alloc_iova := \<lambda>i. Some (0xa0000000, 4096)\<rparr>)
       (job_of False [CMD_GATHER (gather_of 0 2 0)] [reloc_of 0 4 7 0x10]) (world_of (\<lambda>b. [0, 0])) = Some (0, job', w')
     \<and> host1x_job_unpin True job' w' = (job2, w2) \<and> bo_refs w2 = (\<lambda>b. 1) \<and> live_maps w2 = 0 \<and> live_iovas w2 = - 1"
proof -
  let ?env = "simple_env\<lparr>host_domain := True, alloc_iova := \<lambda>i. Some (0xa0000000, 4096)\<rparr>"
  let ?job = "job_of False [CMD_GATHER (gather_of 0 2 0)] [reloc_of 0 4 7 0x10]"
  have "\<exists>job' w'. host1x_job_pin ?env ?job (world_of (\<lambda>b. [0, 0])) = Some (0, job', w') \<and> sized (take 1 (job_unpins job')) = 1"
    by (simp add: pin_eval pin_gather_def upt_rec)
  then obtain job' w' where p: "host1x_job_pin ?env ?job (world_of (\<lambda>b. [0, 0])) = Some (0, job', w')"
    "sized (take 1 (job_unpins job')) = 1" by blast
  obtain job2 w2 where u: "host1x_job_unpin (host_domain ?env) job' w' = (job2, w2)" by (cases "host1x_job_unpin (host_domain ?env) job' w'")
  have e: "pin_errors ?env" "iova_sizes ?env" by (simp_all add: pin_errors_def iova_sizes_def simple_env_def)
  from host1x_pin_balance [OF p(1) e _ _ u] p u show ?thesis
    by (auto simp: job_of_def world_of_def)
qed

end
