(* ===== verification/Host1x_Gathers.thy ===== *)
theory Host1x_Gathers
  imports Host1x_Pin
begin

text \<open>
  What the firewall of host1x and the patching of relocations together guarantee for the copies of the gathers that
  the hardware reads (\<open>copy_gathers\<close>, \<open>do_relocs\<close> and \<open>host1x_job_pin\<close> of \<open>gpu/host1x/job.c\<close>), and for which jobs they do not.
\<close>

subsection \<open>The copied gathers of a job\<close>

text \<open>
  The firewall runs only for jobs whose commands are gathers (\<open>tegra_drm_submit\<close> is its one caller). \<open>accepted\<close>: the gathers
  \<open>gs\<close> with the words \<open>wss\<close> pass the firewall one after another and leave the relocations \<open>rs'\<close>.
\<close>

fun accepted :: "host1x_job \<Rightarrow> u32 \<Rightarrow> host1x_job_gather list \<Rightarrow> u32 list list \<Rightarrow> host1x_reloc list \<Rightarrow> host1x_reloc list \<Rightarrow> bool" where
  "accepted job c (g # gs) (ws # wss) rs rs' \<longleftrightarrow>
     (case host1x_stream c None ws of
        None \<Rightarrow> False
      | Some acts \<Rightarrow> list_all (job_permits job c) acts \<and>
          (case match_relocs job (g_bo g) 0 (the (host1x_labels c None ws)) rs of
             None \<Rightarrow> False
           | Some rs1 \<Rightarrow> accepted job (last_class c acts) gs wss rs1 rs'))"
| "accepted job c gs wss rs rs' \<longleftrightarrow> gs = [] \<and> wss = [] \<and> rs' = rs"

fun placed :: "u64 \<Rightarrow> nat \<Rightarrow> host1x_job_gather list \<Rightarrow> host1x_job_gather list" where
  "placed b k [] = []"
| "placed b k (g # gs) = g\<lparr>g_base := b, g_offset := of_nat (4 * k)\<rparr> # placed b (k + unat (g_words g)) gs"

lemma job_fields_only [simp]:
  "job_addr_reg (job_cmds_update f job) = job_addr_reg job"
  "job_addr_reg (gather_copy_mapped_update f' job) = job_addr_reg job"
  "job_permits (job_cmds_update f job) c0 = job_permits job c0"
  "job_permits (gather_copy_mapped_update f' job) c0 = job_permits job c0"
proof -
  show "job_permits (job_cmds_update f job) c0 = job_permits job c0"
    by (rule ext, case_tac x) auto
  show "job_permits (gather_copy_mapped_update f' job) c0 = job_permits job c0"
    by (rule ext, case_tac x) auto
qed (auto simp: job_addr_reg_def fun_eq_iff)

lemma match_relocs_cong:
  "job_addr_reg job' = job_addr_reg job \<Longrightarrow> match_relocs job' bo pos ls rs = match_relocs job bo pos ls rs"
  by (induction job bo pos ls rs rule: match_relocs.induct) (auto split: list.splits)

lemma match_relocs_fun: "job_addr_reg job' = job_addr_reg job \<Longrightarrow> match_relocs job' = match_relocs job"
  by (intro ext, rule match_relocs_cong)

lemma accepted_cong:
  assumes "job_addr_reg job' = job_addr_reg job" "job_permits job' = job_permits job"
  shows "accepted job' c gs wss rs rs' = accepted job c gs wss rs rs'"
proof (induction gs arbitrary: c wss rs)
  case Nil
  then show ?case by simp
next
  case (Cons g gs)
  then show ?case
    by (cases wss) (simp_all add: assms(2) match_relocs_fun [OF assms(1)] cong: option.case_cong)
qed

lemma loop_result_cong:
  "job_addr_reg job' = job_addr_reg job \<Longrightarrow> job_permits job' = job_permits job \<Longrightarrow>
   loop_result job' c ws fw r = loop_result job c ws fw r"
  by (simp add: loop_result_def match_relocs_fun [of job' job] cong: option.case_cong if_cong)

lemma put_words_at:
  "length vs \<le> length rest \<Longrightarrow> put_words (4 * length xs) vs (xs @ rest) = Some (xs @ vs @ drop (length vs) rest)"
  by (simp add: put_words_def)

lemma words_at_length: "words_at ws off n = Some vs \<Longrightarrow> length vs = n"
  by (auto simp: words_at_def split: if_splits)

lemma validate_result:
  assumes "unat (g_offset g) div 4 = length xs" "gather_copy_mapped job = xs @ ws @ rest" "length ws = unat (g_words g)"
  shows "\<exists>res. validate job g fw = Some res
    \<and> loop_result job (hf_class fw) ws (fw\<lparr>hf_words := g_words g, hf_cmdbuf := g_bo g, hf_offset := 0\<rparr>) res"
proof -
  let ?fw = "fw\<lparr>hf_words := g_words g, hf_cmdbuf := g_bo g, hf_offset := 0\<rparr>"
  have i: "hf_inside ?fw" using unat_less_size [of "g_words g"] by (simp add: hf_inside_def)
  have l: "unat (hf_offset ?fw) + unat (hf_words ?fw) \<le> length (ws @ rest)" using assms by simp
  from validate_loop_result [OF i l, of job "hf_class fw"] show ?thesis
    using assms by (simp add: validate_def)
qed

lemma copy_loop_spec:
  "copy_gathers_loop env w i (map CMD_GATHER gs) off fw job = Some (0, fw', job') \<Longrightarrow>
   job_cmds job = pre @ map CMD_GATHER gs \<Longrightarrow> length pre = i \<Longrightarrow>
   gather_copy_mapped job = xs @ rest \<Longrightarrow> off = 4 * length xs \<Longrightarrow> 4 * length (xs @ rest) < 2 ^ 32 \<Longrightarrow>
   \<exists>wss rest'. length wss = length gs \<and> (\<forall>m < length gs. length (wss ! m) = unat (g_words (gs ! m)))
     \<and> (\<forall>m < length gs. words_at (bo_data w (g_bo (gs ! m))) (unat (g_offset (gs ! m))) (unat (g_words (gs ! m))) = Some (wss ! m))
     \<and> job' = job\<lparr>gather_copy_mapped := xs @ concat wss @ rest', job_cmds := pre @ map CMD_GATHER (placed (gather_copy job) (length xs) gs)\<rparr>
     \<and> length (concat wss @ rest') = length rest
     \<and> accepted job (hf_class fw) gs wss (hf_relocs fw) (hf_relocs fw')"
proof (induction gs arbitrary: i off fw job pre xs rest)
  case Nil
  then show ?case by (intro exI [of _ "[]"] exI [of _ rest]) simp
next
  case (Cons g gs)
  define n where "n = unat (g_words g)"
  define g1 where "g1 = g\<lparr>g_base := gather_copy job, g_offset := of_nat off\<rparr>"
  from Cons.prems(1) obtain vs copy where
    v: "words_at (bo_data w (g_bo g)) (unat (g_offset g)) n = Some vs" and cp: "put_words off vs (gather_copy_mapped job) = Some copy"
    by (auto simp: bind_eq_Some_conv n_def split: if_splits)
  note lv = words_at_length [OF v]
  have fit: "length vs \<le> length rest" using cp Cons.prems(4,5) by (auto simp: put_words_def split: if_splits)
  have c: "copy = xs @ vs @ drop n rest"
    using cp put_words_at [OF fit, of xs] Cons.prems(4,5) lv by simp
  define job1 where "job1 = job\<lparr>gather_copy_mapped := copy, job_cmds := (job_cmds job)[i := CMD_GATHER g1]\<rparr>"
  have ou: "unat (of_nat off :: u32) = off"
  proof -
    have "off < 2 ^ 32" using Cons.prems(5,6) by simp
    then show ?thesis by (simp add: unat_of_nat)
  qed
  have "g_offset g1 = of_nat off" by (simp add: g1_def)
  then have go: "unat (g_offset g1) div 4 = length xs" using ou Cons.prems(5) by (simp only: nonzero_mult_div_cancel_left)
  have vr: "\<exists>res. validate job1 g1 fw = Some res
      \<and> loop_result job1 (hf_class fw) vs (fw\<lparr>hf_words := g_words g1, hf_cmdbuf := g_bo g1, hf_offset := 0\<rparr>) res"
    by (rule validate_result [OF go]) (use c lv in \<open>simp_all add: g1_def job1_def n_def\<close>)
  then obtain err f where vf: "validate job1 g1 fw = Some (err, f)"
    "loop_result job1 (hf_class fw) vs (fw\<lparr>hf_words := g_words g, hf_cmdbuf := g_bo g, hf_offset := 0\<rparr>) (err, f)"
    by (auto simp: g1_def)
  have e0: "err = 0" and rec: "copy_gathers_loop env w (i + 1) (map CMD_GATHER gs) (off + n * 4) f job1 = Some (0, fw', job')"
    using Cons.prems(1) v cp vf(1) by (auto simp: n_def g1_def job1_def bind_eq_Some_conv Let_def split: if_splits)
  have j1: "job_cmds job1 = (pre @ [CMD_GATHER g1]) @ map CMD_GATHER gs"
    using Cons.prems(2,3) by (simp add: job1_def list_update_append)
  have l1: "length (pre @ [CMD_GATHER g1]) = i + 1" using Cons.prems(3) by simp
  have m1: "gather_copy_mapped job1 = (xs @ vs) @ drop n rest" using c by (simp add: job1_def)
  have o1: "off + n * 4 = 4 * length (xs @ vs)" using Cons.prems(5) lv by simp
  have b1: "4 * length ((xs @ vs) @ drop n rest) < 2 ^ 32" using Cons.prems(6) fit lv by simp
  have same: "job_addr_reg job1 = job_addr_reg job" "job_permits job1 = job_permits job"
    by (simp_all add: job1_def fun_eq_iff)
  from Cons.IH [OF rec j1 l1 m1 o1 b1] obtain wss rest' where IH: "length wss = length gs"
    "\<forall>m < length gs. length (wss ! m) = unat (g_words (gs ! m))"
    "\<forall>m < length gs. words_at (bo_data w (g_bo (gs ! m))) (unat (g_offset (gs ! m))) (unat (g_words (gs ! m))) = Some (wss ! m)"
    "job' = job1\<lparr>gather_copy_mapped := (xs @ vs) @ concat wss @ rest',
       job_cmds := (pre @ [CMD_GATHER g1]) @ map CMD_GATHER (placed (gather_copy job1) (length (xs @ vs)) gs)\<rparr>"
    "length (concat wss @ rest') = length (drop n rest)"
    "accepted job1 (hf_class f) gs wss (hf_relocs f) (hf_relocs fw')" by blast
  have acc: "accepted job (hf_class fw) (g # gs) (vs # wss) (hf_relocs fw) (hf_relocs fw')"
    using vf(2) e0 IH(6) unfolding loop_result_cong [OF same] accepted_cong [OF same]
    by (auto simp: loop_result_def split: option.splits if_splits)
  have cmds: "CMD_GATHER g1 # map CMD_GATHER (placed (gather_copy job) (length xs + n) gs)
      = map CMD_GATHER (placed (gather_copy job) (length xs) (g # gs))"
    using Cons.prems(5) by (simp add: g1_def n_def)
  have gc: "gather_copy job1 = gather_copy job" by (simp add: job1_def)
  have jj: "job' = job\<lparr>gather_copy_mapped := xs @ concat (vs # wss) @ rest', job_cmds := pre @ map CMD_GATHER (placed (gather_copy job) (length xs) (g # gs))\<rparr>"
    unfolding cmds [symmetric] using IH(4) lv by (simp add: job1_def)
  show ?case
    by (rule exI [of _ "vs # wss"], rule exI [of _ rest'])
      (use IH(1,2,3,5) v lv fit acc jj in \<open>auto simp: n_def nth_Cons less_Suc_eq_0_disj simp del: accepted.simps split: nat.splits\<close>)
qed

subsection \<open>Relocations and the places they patch\<close>

text \<open>The places of the words for address registers.\<close>

fun addr_positions :: "host1x_job \<Rightarrow> nat \<Rightarrow> (u32 \<times> u32) option list \<Rightarrow> nat list" where
  "addr_positions job pos [] = []"
| "addr_positions job pos (None # ls) = addr_positions job (pos + 1) ls"
| "addr_positions job pos (Some (c, r) # ls) =
     (if job_addr_reg job c r then [pos] else []) @ addr_positions job (pos + 1) ls"

definition addr_label :: "host1x_job \<Rightarrow> (u32 \<times> u32) option \<Rightarrow> bool" where
  "addr_label job l = (case l of None \<Rightarrow> False | Some (c, r) \<Rightarrow> job_addr_reg job c r)"

lemma index_Cons:
  "(\<exists>i. k = pos + i \<and> i < length (a # ls) \<and> P ((a # ls) ! i)) \<longleftrightarrow>
   k = pos \<and> P a \<or> (\<exists>i. k = pos + 1 + i \<and> i < length ls \<and> P (ls ! i))" (is "?l \<longleftrightarrow> ?r")
proof
  assume ?l
  then obtain i where i: "k = pos + i" "i < length (a # ls)" "P ((a # ls) ! i)" by blast
  then show ?r by (cases i) auto
next
  assume ?r
  then show ?l
  proof
    assume "k = pos \<and> P a"
    then show ?l by (intro exI [of _ 0]) simp
  next
    assume "\<exists>i. k = pos + 1 + i \<and> i < length ls \<and> P (ls ! i)"
    then obtain i where "k = pos + 1 + i" "i < length ls" "P (ls ! i)" by blast
    then show ?l by (intro exI [of _ "Suc i"]) simp
  qed
qed

lemma addr_positions_iff:
  "k \<in> set (addr_positions job pos ls) \<longleftrightarrow> (\<exists>i. k = pos + i \<and> i < length ls \<and> addr_label job (ls ! i))"
proof (induction ls arbitrary: pos)
  case (Cons l ls)
  show ?case unfolding index_Cons Cons.IH [symmetric]
    by (cases l) (auto simp: addr_label_def)
qed simp

lemma match_relocs_used:
  "match_relocs job bo pos ls rs = Some rs' \<Longrightarrow>
   \<exists>used. rs = used @ rs' \<and> list_all2 (\<lambda>x k. check_reloc x bo (of_nat k)) used (addr_positions job pos ls)"
proof (induction job bo pos ls rs rule: match_relocs.induct)
  case (3 job bo pos c r ls rs)
  show ?case
  proof (cases "job_addr_reg job c r")
    case True
    with 3 obtain x xs where x: "rs = x # xs" "check_reloc x bo (of_nat pos)" "match_relocs job bo (pos + 1) ls xs = Some rs'"
      by (auto split: list.splits if_splits)
    from 3(1) [OF True x(1,2,3)] obtain used where u: "xs = used @ rs'"
      "list_all2 (\<lambda>x k. check_reloc x bo (of_nat k)) used (addr_positions job (pos + 1) ls)" by blast
    with x True show ?thesis by (intro exI [of _ "x # used"]) simp
  next
    case False
    with 3 show ?thesis by auto
  qed
qed auto

lemma check_reloc_place:
  assumes "check_reloc x bo (of_nat k)" "4 * k < 2 ^ 32"
  shows "cmdbuf_bo x = bo \<and> reloc_shift x = 0 \<and> unat (cmdbuf_offset x) div 4 = k"
proof -
  have "unat (of_nat k * 4 :: u32) = 4 * k"
  proof -
    have "of_nat k * 4 = (of_nat (4 * k) :: u32)" by simp
    then show ?thesis using assms(2) by (simp only: unat_of_nat) simp
  qed
  then have "unat (ucast (of_nat k * 4 :: u32) :: u64) = 4 * k" by (simp only: unat_ucast_u64)
  then show ?thesis using assms(1) by (auto simp: check_reloc_def Let_def split: if_splits)
qed

text \<open>What \<open>do_relocs\<close> does to the copies: the relocations of one buffer, in order.\<close>

definition reloc_value :: "host1x_job \<Rightarrow> nat \<Rightarrow> host1x_reloc \<Rightarrow> u32" where
  "reloc_value job i r = ucast (drop_bit (unat (reloc_shift r)) (addr_phys job ! i + target_offset r))"

definition reloc_place :: "host1x_job_gather \<Rightarrow> host1x_reloc \<Rightarrow> nat" where
  "reloc_place g r = unat (cmdbuf_offset r) div 4 + unat (g_offset g) div 4"

fun hits :: "host1x_job \<Rightarrow> host1x_job_gather \<Rightarrow> nat \<Rightarrow> host1x_reloc list \<Rightarrow> nat \<Rightarrow> u32 list" where
  "hits job g i [] x = []"
| "hits job g i (r # rs) x =
     (if cmdbuf_bo r = g_bo g \<and> reloc_place g r = x then [reloc_value job i r] else []) @ hits job g (i + 1) rs x"

lemma hits_iff:
  "v \<in> set (hits job g i rs x) \<longleftrightarrow>
   (\<exists>n < length rs. cmdbuf_bo (rs ! n) = g_bo g \<and> reloc_place g (rs ! n) = x \<and> v = reloc_value job (i + n) (rs ! n))"
proof (induction rs arbitrary: i)
  case (Cons r rs)
  show ?case unfolding hits.simps
    by (auto simp: Cons.IH less_Suc_eq_0_disj)
qed simp

lemma put_word: "put_words (k * 4) [v] M = (if k < length M then Some (M[k := v]) else None)"
  by (auto simp: put_words_def upd_conv_take_nth_drop)

lemma do_relocs_loop_copies:
  "do_relocs_loop env g i rs job w = Some (0, job', w') \<Longrightarrow> enable_firewall job \<Longrightarrow>
   \<exists>M. job' = job\<lparr>gather_copy_mapped := M\<rparr> \<and> w' = w \<and> length M = length (gather_copy_mapped job)
     \<and> (\<forall>x < length M. M ! x = last (gather_copy_mapped job ! x # hits job g i rs x))"
proof (induction rs arbitrary: i job)
  case Nil
  then show ?case by (intro exI [of _ "gather_copy_mapped job"]) simp
next
  case (Cons r rs)
  let ?M0 = "gather_copy_mapped job"
  have g1: "reloc_value (job\<lparr>gather_copy_mapped := M\<rparr>) = reloc_value job" for M by (simp add: reloc_value_def fun_eq_iff)
  have hj: "hits (job\<lparr>gather_copy_mapped := M\<rparr>) g k rs = hits job g k rs" for M k
    by (intro ext, induction rs arbitrary: k) (simp_all add: g1)
  show ?case
  proof (cases "g_bo g = cmdbuf_bo r")
    case False
    with Cons.prems have "do_relocs_loop env g (i + 1) rs job w = Some (0, job', w')" by (simp split: if_splits)
    from Cons.IH [OF this Cons.prems(2)] False show ?thesis by simp
  next
    case True
    let ?k = "reloc_place g r" and ?v = "reloc_value job i r"
    from True Cons.prems have k: "?k < length ?M0"
      and l: "do_relocs_loop env g (i + 1) rs (job\<lparr>gather_copy_mapped := ?M0[?k := ?v]\<rparr>) w = Some (0, job', w')"
      by (auto simp: put_word [of "a + b" for a b, unfolded add_mult_distrib] reloc_place_def reloc_value_def bind_eq_Some_conv split: if_splits)
    let ?job = "job\<lparr>gather_copy_mapped := ?M0[?k := ?v]\<rparr>"
    have "enable_firewall ?job" using Cons.prems(2) by simp
    from Cons.IH [OF l this] obtain M where M1: "job' = ?job\<lparr>gather_copy_mapped := M\<rparr>" "w' = w"
      "length M = length (gather_copy_mapped ?job)" "\<forall>x < length M. M ! x = last (gather_copy_mapped ?job ! x # hits ?job g (i + 1) rs x)"
      by blast
    have M: "job' = job\<lparr>gather_copy_mapped := M\<rparr>" "w' = w" "length M = length ?M0" using M1(1-3) by simp_all
    have M4: "\<forall>x < length M. M ! x = last (?M0[?k := ?v] ! x # hits job g (i + 1) rs x)"
      using M1(4) unfolding hj by simp
    have "M ! x = last (?M0 ! x # hits job g i (r # rs) x)" if "x < length M" for x
    proof -
      have e: "M ! x = last (?M0[?k := ?v] ! x # hits job g (i + 1) rs x)" using M4 that by blast
      show ?thesis
      proof (cases "x = ?k")
        case True
        then show ?thesis unfolding e using k \<open>g_bo g = cmdbuf_bo r\<close> by simp
      next
        case False
        then show ?thesis unfolding e by simp
      qed
    qed
    with M show ?thesis by (intro exI [of _ M]) simp
  qed
qed

lemma mark_handled_other: "\<forall>g \<in> set gs. g_bo g \<noteq> b \<Longrightarrow> map (mark_handled b base) (map CMD_GATHER gs) = map CMD_GATHER gs"
  by (simp add: mark_handled_def)

lemma patched_cmds_same:
  assumes "distinct (map g_bo gs)" "i < length gs"
  shows "take (Suc i) (map CMD_GATHER gs) @ map (mark_handled (g_bo (gs ! i)) base) (drop (Suc i) (map CMD_GATHER gs))
    = map CMD_GATHER gs"
proof -
  have "\<forall>g \<in> set (drop (Suc i) gs). g_bo g \<noteq> g_bo (gs ! i)"
    using assms by (auto simp: in_set_conv_nth distinct_conv_nth)
  from mark_handled_other [OF this]
  show ?thesis by (simp only: drop_map take_map map_append [symmetric] append_take_drop_id)
qed

lemma patch_gathers_copies:
  assumes "enable_firewall job" "job_cmds job = map CMD_GATHER gs" "distinct (map g_bo gs)" "\<forall>g \<in> set gs. \<not> g_handled g"
    "set is \<subseteq> {..<length gs}" "patch_gathers env is job w = Some (0, job', w')"
  shows "\<exists>M. job' = job\<lparr>gather_copy_mapped := M\<rparr> \<and> w' = w \<and> length M = length (gather_copy_mapped job)
     \<and> (\<forall>x < length M. M ! x = foldl (\<lambda>v i. last (v # hits job (gs ! i) 0 (job_relocs job) x)) (gather_copy_mapped job ! x) is)"
  using assms
proof (induction "is" arbitrary: job)
  case Nil
  then show ?case by (intro exI [of _ "gather_copy_mapped job"]) simp
next
  case (Cons i "is")
  have i: "i < length gs" using Cons.prems(5) by simp
  let ?g = "gs ! i"
  have nh: "\<not> g_handled ?g" using Cons.prems(4) i by simp
  have up: "(map CMD_GATHER gs)[i := CMD_GATHER ?g] = map CMD_GATHER gs" using i by (simp flip: map_update)
  have same: "job\<lparr>job_cmds := map CMD_GATHER gs\<rparr> = job" using Cons.prems(2) by simp
  from Cons.prems(6) obtain job1 w1 where d: "do_relocs env ?g job w = Some (0, job1, w1)"
    and r: "patch_gathers env is job1 w1 = Some (0, job', w')"
    unfolding patch_gathers.simps Cons.prems(2)
    using i nh Cons.prems(1) by (auto simp: up patched_cmds_same [OF Cons.prems(3) i] same Let_def bind_eq_Some_conv split: if_splits)
  from do_relocs_loop_copies [OF d [unfolded do_relocs_def] Cons.prems(1)] obtain M1 where
    M1: "job1 = job\<lparr>gather_copy_mapped := M1\<rparr>" "w1 = w" "length M1 = length (gather_copy_mapped job)"
      "\<forall>x < length M1. M1 ! x = last (gather_copy_mapped job ! x # hits job ?g 0 (job_relocs job) x)" by blast
  have g1: "reloc_value (job\<lparr>gather_copy_mapped := M\<rparr>) = reloc_value job" for M by (simp add: reloc_value_def fun_eq_iff)
  have hj: "hits (job\<lparr>gather_copy_mapped := M\<rparr>) g k rs = hits job g k rs" for M g k rs
    by (intro ext, induction rs arbitrary: k) (simp_all add: g1)
  have p1: "enable_firewall job1" "job_cmds job1 = map CMD_GATHER gs" using Cons.prems(1,2) M1(1) by simp_all
  have p5: "set is \<subseteq> {..<length gs}" using Cons.prems(5) by simp
  from Cons.IH [OF p1 Cons.prems(3,4) p5 r [unfolded M1(2)]] obtain M where
    M: "job' = job1\<lparr>gather_copy_mapped := M\<rparr>" "w' = w" "length M = length (gather_copy_mapped job1)"
      "\<forall>x < length M. M ! x = foldl (\<lambda>v i. last (v # hits job1 (gs ! i) 0 (job_relocs job1) x)) (gather_copy_mapped job1 ! x) is"
    by blast
  have "M ! x = foldl (\<lambda>v i. last (v # hits job (gs ! i) 0 (job_relocs job) x)) (gather_copy_mapped job ! x) (i # is)"
    if "x < length M" for x
  proof -
    have "M ! x = foldl (\<lambda>v i. last (v # hits job (gs ! i) 0 (job_relocs job) x)) (M1 ! x) is"
      using M(4) that unfolding M1(1) hj by simp
    also have "M1 ! x = last (gather_copy_mapped job ! x # hits job ?g 0 (job_relocs job) x)"
      using M1(1,4) M(3) that by simp
    finally show ?thesis by simp
  qed
  with M(1,2,3) M1(1,3) show ?case by (intro exI [of _ M]) simp
qed

lemma foldl_single_hit:
  "m \<in> set is \<Longrightarrow> distinct is \<Longrightarrow> (\<And>i. i \<in> set is \<Longrightarrow> i \<noteq> m \<Longrightarrow> h i = []) \<Longrightarrow>
   foldl (\<lambda>v i. last (v # h i)) v is = last (v # h m)"
proof (induction "is" arbitrary: v)
  case (Cons i "is")
  have rest: "foldl (\<lambda>v i. last (v # h i)) v js = v" if "\<And>i. i \<in> set js \<Longrightarrow> h i = []" for js v
    using that by (induction js arbitrary: v) auto
  show ?case
  proof (cases "i = m")
    case True
    have "\<And>j. j \<in> set is \<Longrightarrow> h j = []" using Cons.prems True by auto
    with True rest show ?thesis by simp
  next
    case False
    with Cons.prems have "m \<in> set is" "h i = []" by auto
    with Cons.IH [OF this(1)] Cons.prems show ?thesis by simp
  qed
qed simp

subsection \<open>The streams of a job\<close>

fun job_stream :: "u32 \<Rightarrow> u32 list list \<Rightarrow> (host1x_action list \<times> (u32 \<times> u32) option list list) option" where
  "job_stream c [] = Some ([], [])"
| "job_stream c (ws # wss) =
     (case host1x_stream c None ws of
        None \<Rightarrow> None
      | Some acts \<Rightarrow> map_option (\<lambda>(rest, lss). (acts @ rest, the (host1x_labels c None ws) # lss))
          (job_stream (last_class c acts) wss))"

definition gather_words :: "host1x_job \<Rightarrow> host1x_job_gather \<Rightarrow> u32 list" where
  "gather_words job g = take (unat (g_words g)) (drop (unat (g_offset g) div 4) (gather_copy_mapped job))"

lemma permits_last_class:
  "list_all (job_permits job c) acts \<Longrightarrow> job_is_valid_class job = None \<Longrightarrow> last_class c acts = c"
proof (induction acts)
  case (Cons a acts)
  then show ?case by (cases a) (auto simp: last_class_def)
qed (simp add: last_class_def)

lemma permits_class_any: "job_is_valid_class job \<noteq> None \<Longrightarrow> job_permits job c = job_permits job c'"
  by (rule ext, case_tac x) auto

lemma accepted_used:
  "accepted job c gs wss rs rs' \<Longrightarrow> length wss = length gs \<and>
   (\<exists>useds acts lss. rs = concat useds @ rs' \<and> length useds = length gs \<and> job_stream c wss = Some (acts, lss)
     \<and> list_all (job_permits job c) acts \<and> length lss = length gs
     \<and> (\<forall>m < length gs. list_all2 (\<lambda>x k. check_reloc x (g_bo (gs ! m)) (of_nat k)) (useds ! m) (addr_positions job 0 (lss ! m))))"
proof (induction job c gs wss rs rs' rule: accepted.induct)
  case (1 job c g gs ws wss rs rs')
  from 1(2) obtain acts rs1 where a: "host1x_stream c None ws = Some acts" "list_all (job_permits job c) acts"
    "match_relocs job (g_bo g) 0 (the (host1x_labels c None ws)) rs = Some rs1" "accepted job (last_class c acts) gs wss rs1 rs'"
    by (auto split: option.splits)
  from match_relocs_used [OF a(3)] obtain used where u: "rs = used @ rs1"
    "list_all2 (\<lambda>x k. check_reloc x (g_bo g) (of_nat k)) used (addr_positions job 0 (the (host1x_labels c None ws)))" by blast
  from 1(1) [OF a(1,3,4)] obtain useds acts' lss where IH: "length wss = length gs" "rs1 = concat useds @ rs'"
    "length useds = length gs" "job_stream (last_class c acts) wss = Some (acts', lss)"
    "list_all (job_permits job (last_class c acts)) acts'" "length lss = length gs"
    "\<forall>m < length gs. list_all2 (\<lambda>x k. check_reloc x (g_bo (gs ! m)) (of_nat k)) (useds ! m) (addr_positions job 0 (lss ! m))"
    by blast
  have "job_permits job (last_class c acts) = job_permits job c"
    using permits_last_class [OF a(2)] permits_class_any [of job] by (cases "job_is_valid_class job") auto
  with a IH u show ?case
    by (intro conjI exI [of _ "used # useds"] exI [of _ "acts @ acts'"] exI [of _ "the (host1x_labels c None ws) # lss"])
      (auto simp: nth_Cons split: nat.splits)
qed auto

subsection \<open>The firewall is sound for gathers of different buffers\<close>

lemma length_placed [simp]: "length (placed b k gs) = length gs"
  by (induction b k gs rule: placed.induct) auto

lemma placed_nth:
  "length wss = length gs \<Longrightarrow> (\<forall>m < length gs. length (wss ! m) = unat (g_words (gs ! m))) \<Longrightarrow> m < length gs \<Longrightarrow>
   placed b k gs ! m = (gs ! m)\<lparr>g_base := b, g_offset := of_nat (4 * (k + length (concat (take m wss))))\<rparr>"
proof (induction gs arbitrary: k wss m)
  case (Cons g gs)
  then obtain ws wss' where w: "wss = ws # wss'" by (cases wss) auto
  have l: "length ws = unat (g_words g)" using Cons.prems(2) w by auto
  have l': "\<forall>m < length gs. length (wss' ! m) = unat (g_words (gs ! m))" using Cons.prems(2) w by auto
  show ?case
  proof (cases m)
    case 0
    then show ?thesis by simp
  next
    case (Suc m')
    with Cons.IH [of wss' m' "k + unat (g_words g)"] Cons.prems w l l' show ?thesis by (simp add: ac_simps)
  qed
qed simp

lemma placed_bos [simp]: "map g_bo (placed b k gs) = map g_bo gs"
  by (induction b k gs rule: placed.induct) auto

lemma placed_handled: "\<forall>g \<in> set gs. \<not> g_handled g \<Longrightarrow> \<forall>g \<in> set (placed b k gs). \<not> g_handled g"
  by (induction b k gs rule: placed.induct) auto

lemma concat_segment:
  assumes "m < length wss"
  shows "length (concat (take m wss)) + length (wss ! m) \<le> length (concat wss)"
    "drop (length (concat (take m wss))) (concat wss) = wss ! m @ concat (drop (Suc m) wss)"
proof -
  have "concat wss = concat (take m wss) @ wss ! m @ concat (drop (Suc m) wss)"
    using id_take_nth_drop [OF assms] by (metis concat.simps(2) concat_append)
  then show "length (concat (take m wss)) + length (wss ! m) \<le> length (concat wss)"
    "drop (length (concat (take m wss))) (concat wss) = wss ! m @ concat (drop (Suc m) wss)" by simp_all
qed

lemma concat_take_mono: "i \<le> j \<Longrightarrow> length (concat (take i wss)) \<le> length (concat (take j wss))"
proof -
  assume "i \<le> j"
  then have "take j wss = take i wss @ take (j - i) (drop i wss)" by (simp add: take_add [symmetric])
  then show ?thesis by simp
qed

lemma concat_segments_disjoint:
  assumes "i < length wss" "j < length wss" "a < length (wss ! i)" "b < length (wss ! j)"
    "length (concat (take i wss)) + a = length (concat (take j wss)) + b"
  shows "i = j \<and> a = b"
proof -
  have s: "length (concat (take (Suc i) wss)) = length (concat (take i wss)) + length (wss ! i)" if "i < length wss" for i
    using that by (simp add: take_Suc_conv_app_nth)
  have "\<not> i < j" using concat_take_mono [of "Suc i" j wss] s [OF assms(1)] assms by auto
  moreover have "\<not> j < i" using concat_take_mono [of "Suc j" i wss] s [OF assms(2)] assms by auto
  ultimately have "i = j" by simp
  with assms(5) show ?thesis by simp
qed

lemma gathers_size_map: "gathers_size (map CMD_GATHER gs) = 4 * sum_list (map (\<lambda>g. unat (g_words g)) gs)"
  by (induction gs) (simp_all add: gathers_size_def)

lemma length_concat_words:
  "length wss = length gs \<Longrightarrow> \<forall>m < length gs. length (wss ! m) = unat (g_words (gs ! m)) \<Longrightarrow>
   length (concat wss) = sum_list (map (\<lambda>g. unat (g_words g)) gs)"
proof -
  assume "length wss = length gs" "\<forall>m < length gs. length (wss ! m) = unat (g_words (gs ! m))"
  then have "map length wss = map (\<lambda>g. unat (g_words g)) gs" by (intro nth_equalityI) auto
  then show ?thesis by (simp add: length_concat)
qed

lemma job_fields_only2 [simp]:
  "job_addr_reg (gather_copy_update f1 job) = job_addr_reg job" "job_permits (gather_copy_update f1 job) c = job_permits job c"
  "job_addr_reg (gather_copy_size_update f2 job) = job_addr_reg job" "job_permits (gather_copy_size_update f2 job) c = job_permits job c"
  "job_addr_reg (job_unpins_update f3 job) = job_addr_reg job" "job_permits (job_unpins_update f3 job) c = job_permits job c"
  "job_addr_reg (addr_phys_update f4 job) = job_addr_reg job" "job_permits (addr_phys_update f4 job) c = job_permits job c"
  by (simp_all add: job_addr_reg_def fun_eq_iff) (rule allI, case_tac x; simp)+

lemma copy_gathers_result:
  assumes c: "copy_gathers env job w = Some (0, job', w')" and g: "job_cmds job = map CMD_GATHER gs"
    and sz: "gathers_size (job_cmds job) < 2 ^ 32"
  shows "\<exists>dma wss. length wss = length gs \<and> (\<forall>m < length gs. length (wss ! m) = unat (g_words (gs ! m)))
    \<and> (\<forall>m < length gs. words_at (bo_data w (g_bo (gs ! m))) (unat (g_offset (gs ! m))) (unat (g_words (gs ! m))) = Some (wss ! m))
    \<and> job' = job\<lparr>gather_copy := dma, gather_copy_mapped := concat wss, gather_copy_size := gathers_size (job_cmds job),
        job_cmds := map CMD_GATHER (placed dma 0 gs)\<rparr>
    \<and> accepted job (job_class job) gs wss (job_relocs job) []"
proof -
  let ?n = "gathers_size (job_cmds job)"
  let ?fw = "\<lparr>hf_relocs = job_relocs job, hf_cmdbuf = 0, hf_offset = 0, hf_words = 0, hf_class = job_class job,
            hf_reg = 0, hf_mask = 0, hf_count = 0\<rparr>"
  from c obtain dma where d: "dma_alloc_wc env = Some dma" by (auto simp: copy_gathers_def Let_def split: option.splits)
  define job1 where "job1 = job\<lparr>gather_copy := dma, gather_copy_mapped := replicate (?n div 4) 0, gather_copy_size := ?n\<rparr>"
  define w1 where "w1 = w\<lparr>live_copies := live_copies w + 1\<rparr>"
  from c d obtain fw' where l: "copy_gathers_loop env w1 0 (map CMD_GATHER gs) 0 ?fw job1 = Some (0, fw', job')" "hf_relocs fw' = []"
    by (auto simp: copy_gathers_def Let_def job1_def w1_def g bind_eq_Some_conv split: if_splits)
  have n4: "?n = 4 * sum_list (map (\<lambda>g. unat (g_words g)) gs)" unfolding g by (rule gathers_size_map)
  have j: "job_cmds job1 = [] @ map CMD_GATHER gs" by (simp add: job1_def g)
  have m: "gather_copy_mapped job1 = [] @ replicate (?n div 4) 0" by (simp add: job1_def)
  have b: "4 * length ([] @ replicate (?n div 4) (0 :: u32)) < 2 ^ 32" using sz by simp
  from copy_loop_spec [OF l(1) j list.size(3) m _ b] obtain wss rest' where
    r: "length wss = length gs" "\<forall>m < length gs. length (wss ! m) = unat (g_words (gs ! m))"
    "\<forall>m < length gs. words_at (bo_data w1 (g_bo (gs ! m))) (unat (g_offset (gs ! m))) (unat (g_words (gs ! m))) = Some (wss ! m)"
    "job' = job1\<lparr>gather_copy_mapped := [] @ concat wss @ rest', job_cmds := [] @ map CMD_GATHER (placed (gather_copy job1) (length ([] :: u32 list)) gs)\<rparr>"
    "length (concat wss @ rest') = length (replicate (?n div 4) (0 :: u32))"
    "accepted job1 (hf_class ?fw) gs wss (hf_relocs ?fw) (hf_relocs fw')" by auto
  have "rest' = []" using r(5) n4 length_concat_words [OF r(1,2)] by simp
  moreover have "accepted job (job_class job) gs wss (job_relocs job) []"
    using r(6) l(2) accepted_cong [of job1 job] by (simp add: job1_def fun_eq_iff)
  ultimately show ?thesis using r(1-4)
    by (intro exI [of _ dma] exI [of _ wss]) (simp add: job1_def w1_def)
qed

lemma job_pin_phases:
  assumes pin: "host1x_job_pin env job w = Some (0, job', w')" and errs: "pin_errors env" and fw: "enable_firewall job"
  shows "\<exists>ms A w1 job2 w2. length ms = length (job_relocs job)
    \<and> (\<forall>n < length (job_relocs job). A ! n = map_phys (ms ! n) \<and> map_bo (ms ! n) = target_bo (job_relocs job ! n))
    \<and> copy_gathers env (job\<lparr>job_unpins := ms, addr_phys := A\<rparr>) w1 = Some (0, job2, w2)
    \<and> patch_gathers env [0..<length (job_cmds job2)] job2 w2 = Some (0, job', w')"
proof -
  from pin obtain job1 w1 where p: "pin_job env job w = Some (0, job1, w1)"
    by (auto simp: host1x_job_pin_def bind_eq_Some_conv split: if_splits)
  then obtain e job0 w0 where r: "pin_relocs env 0 (job_relocs job) (job\<lparr>job_unpins := []\<rparr>, w) = Some (e, job0, w0)"
    by (auto simp: pin_job_def bind_eq_Some_conv)
  with p have e: "e = 0" by (auto simp: pin_job_def split: if_splits)
  from pin_relocs_result [OF errs r [unfolded e]] obtain ms A where
    j0: "job0 = job\<lparr>job_unpins := ms, addr_phys := A\<rparr>" "length ms = length (job_relocs job)"
    "\<forall>n < length (job_relocs job). A ! n = map_phys (ms ! n) \<and> map_bo (ms ! n) = target_bo (job_relocs job ! n)"
    by auto
  have "job1 = job0" "w1 = w0" using p r e fw j0(1) by (simp_all add: pin_job_def)
  with j0(1) p fw pin obtain job2 w2 where "copy_gathers env job0 w0 = Some (0, job2, w2)"
    "patch_gathers env [0..<length (job_cmds job2)] job2 w2 = Some (0, job', w')"
    by (auto simp: host1x_job_pin_def bind_eq_Some_conv split: if_splits)
  with j0 show ?thesis by blast
qed

text \<open>The relocations of a job whose gathers pass the firewall are the words for address registers, gather by gather.\<close>

definition relocs_fit :: "host1x_job \<Rightarrow> host1x_job_gather list \<Rightarrow> (u32 \<times> u32) option list list \<Rightarrow> host1x_reloc list \<Rightarrow> bool" where
  "relocs_fit job gs lss rs \<longleftrightarrow> length lss = length gs \<and> (\<forall>m < length gs. 4 * length (lss ! m) < 2 ^ 32)
     \<and> (\<exists>useds. rs = concat useds \<and> length useds = length gs
       \<and> (\<forall>m < length gs. list_all2 (\<lambda>x k. check_reloc x (g_bo (gs ! m)) (of_nat k)) (useds ! m) (addr_positions job 0 (lss ! m))))"

lemma list_all2_elems:
  "list_all2 P xs ys \<Longrightarrow> (\<forall>x \<in> set xs. \<exists>y \<in> set ys. P x y) \<and> (\<forall>y \<in> set ys. \<exists>x \<in> set xs. P x y)"
  by (induction rule: list_all2_induct) auto

lemma addr_positions_0: "k \<in> set (addr_positions job 0 ls) \<longleftrightarrow> k < length ls \<and> addr_label job (ls ! k)"
  by (auto simp: addr_positions_iff)

lemma relocs_fit_place:
  assumes "relocs_fit job gs lss rs" "distinct (map g_bo gs)" "n < length rs" "j < length gs" "cmdbuf_bo (rs ! n) = g_bo (gs ! j)"
  shows "reloc_shift (rs ! n) = 0 \<and> unat (cmdbuf_offset (rs ! n)) div 4 < length (lss ! j)
    \<and> addr_label job (lss ! j ! (unat (cmdbuf_offset (rs ! n)) div 4))"
proof -
  from assms(1) obtain useds where u: "rs = concat useds" "length useds = length gs"
    "\<forall>m < length gs. list_all2 (\<lambda>x k. check_reloc x (g_bo (gs ! m)) (of_nat k)) (useds ! m) (addr_positions job 0 (lss ! m))"
    "\<forall>m < length gs. 4 * length (lss ! m) < 2 ^ 32"
    by (auto simp: relocs_fit_def)
  have "rs ! n \<in> set (concat useds)" using assms(3) u(1) by (metis nth_mem)
  then obtain us where us: "us \<in> set useds" "rs ! n \<in> set us" by auto
  then obtain m where m: "m < length gs" "rs ! n \<in> set (useds ! m)" using u(2) by (metis in_set_conv_nth)
  then obtain k where k: "k \<in> set (addr_positions job 0 (lss ! m))" "check_reloc (rs ! n) (g_bo (gs ! m)) (of_nat k)"
    using u(3) list_all2_elems by blast
  have kl: "k < length (lss ! m)" "addr_label job (lss ! m ! k)" using k(1) by (simp_all add: addr_positions_0)
  with u(4) m(1) have "4 * k < 2 ^ 32" by fastforce
  note p = check_reloc_place [OF k(2) this]
  with assms(5) have "g_bo (gs ! j) = g_bo (gs ! m)" by simp
  then have "j = m" using assms(2,4) m(1) by (auto simp: distinct_conv_nth)
  with p kl show ?thesis by simp
qed

lemma relocs_fit_exists:
  assumes "relocs_fit job gs lss rs" "j < length gs" "k < length (lss ! j)" "addr_label job (lss ! j ! k)"
  shows "\<exists>n < length rs. cmdbuf_bo (rs ! n) = g_bo (gs ! j) \<and> unat (cmdbuf_offset (rs ! n)) div 4 = k"
proof -
  from assms(1) obtain useds where u: "rs = concat useds" "length useds = length gs"
    "\<forall>m < length gs. list_all2 (\<lambda>x k. check_reloc x (g_bo (gs ! m)) (of_nat k)) (useds ! m) (addr_positions job 0 (lss ! m))"
    "\<forall>m < length gs. 4 * length (lss ! m) < 2 ^ 32"
    by (auto simp: relocs_fit_def)
  have "k \<in> set (addr_positions job 0 (lss ! j))" using assms(3,4) by (simp add: addr_positions_0)
  then obtain x where x: "x \<in> set (useds ! j)" "check_reloc x (g_bo (gs ! j)) (of_nat k)"
    using u(3) assms(2) list_all2_elems by blast
  have "x \<in> set rs" using x(1) u(1,2) assms(2) by auto
  then obtain n where "n < length rs" "rs ! n = x" by (auto simp: in_set_conv_nth)
  moreover have "4 * k < 2 ^ 32" using u(4) assms(2,3) by fastforce
  ultimately show ?thesis using check_reloc_place [OF x(2)] by blast
qed

text \<open>A word of a patched copy: the word of the gather, or the address of a relocation.\<close>

lemma patched_word:
  assumes fit: "relocs_fit job gs lss rs" and dist: "distinct (map g_bo gs)"
    and wss: "length wss = length gs" "\<forall>m < length gs. length (wss ! m) = unat (g_words (gs ! m)) \<and> length (lss ! m) = length (wss ! m)"
    and small: "4 * length (concat wss) < 2 ^ 32"
    and gs': "gs' = placed dma 0 gs" and m: "m < length gs" "k < length (wss ! m)"
  shows "foldl (\<lambda>v i. last (v # hits job2 (gs' ! i) 0 rs (length (concat (take m wss)) + k))) v [0..<length gs]
      = (if addr_label job (lss ! m ! k) then last (hits job2 (gs' ! m) 0 rs (length (concat (take m wss)) + k)) else v)"
    "addr_label job (lss ! m ! k) \<Longrightarrow> \<exists>n < length rs. reloc_shift (rs ! n) = 0
      \<and> last (hits job2 (gs' ! m) 0 rs (length (concat (take m wss)) + k)) = reloc_value job2 n (rs ! n)"
proof -
  let ?x = "length (concat (take m wss)) + k"
  have wl: "\<forall>m < length gs. length (wss ! m) = unat (g_words (gs ! m))" using wss(2) by simp
  have off: "g_bo (gs' ! j) = g_bo (gs ! j) \<and> unat (g_offset (gs' ! j)) div 4 = length (concat (take j wss))" if "j < length gs" for j
  proof -
    let ?p = "length (concat (take j wss))"
    have "?p \<le> length (concat wss)" using concat_take_mono [of j "length wss" wss] that wss(1) by simp
    then have "4 * ?p < 2 ^ 32" using small by simp
    then have "unat (of_nat (4 * ?p) :: u32) = 4 * ?p" by (simp only: unat_of_nat) simp
    then show ?thesis using placed_nth [OF wss(1) wl that, of dma 0] gs' by simp
  qed
  have hit: "v \<in> set (hits job2 (gs' ! j) 0 rs ?x) \<longleftrightarrow> (\<exists>n < length rs. cmdbuf_bo (rs ! n) = g_bo (gs ! j)
      \<and> unat (cmdbuf_offset (rs ! n)) div 4 + length (concat (take j wss)) = ?x \<and> v = reloc_value job2 n (rs ! n))"
    if "j < length gs" for j v
    using off [OF that] by (simp add: hits_iff reloc_place_def)
  have mine: "j = m \<and> addr_label job (lss ! m ! k) \<and> reloc_shift (rs ! n) = 0"
    if j: "j < length gs" and n: "n < length rs" "cmdbuf_bo (rs ! n) = g_bo (gs ! j)"
      "unat (cmdbuf_offset (rs ! n)) div 4 + length (concat (take j wss)) = ?x" for j n
  proof -
    let ?k = "unat (cmdbuf_offset (rs ! n)) div 4"
    note p = relocs_fit_place [OF fit dist n(1) j n(2)]
    have "?k < length (wss ! j)" using p wss(2) j by simp
    from concat_segments_disjoint [OF _ _ this m(2)] j m(1) wss(1) n(3) have "j = m" "?k = k" by (simp_all add: ac_simps)
    with p show ?thesis by simp
  qed
  have others: "hits job2 (gs' ! j) 0 rs ?x = []" if "j \<in> set [0..<length gs]" "j \<noteq> m" for j
  proof -
    have "\<not> (\<exists>v. v \<in> set (hits job2 (gs' ! j) 0 rs ?x))" using that hit [of j] mine [of j] by auto
    then show ?thesis by (metis list.set_intros(1) neq_Nil_conv)
  qed
  have f: "foldl (\<lambda>v i. last (v # hits job2 (gs' ! i) 0 rs ?x)) v [0..<length gs] = last (v # hits job2 (gs' ! m) 0 rs ?x)"
    by (rule foldl_single_hit) (use m(1) others in auto)
  have ne: "hits job2 (gs' ! m) 0 rs ?x \<noteq> [] \<longleftrightarrow> addr_label job (lss ! m ! k)"
  proof
    assume "hits job2 (gs' ! m) 0 rs ?x \<noteq> []"
    then obtain v where "v \<in> set (hits job2 (gs' ! m) 0 rs ?x)" by (metis list.set_intros(1) neq_Nil_conv)
    with hit [OF m(1)] mine [OF m(1)] show "addr_label job (lss ! m ! k)" by blast
  next
    assume a: "addr_label job (lss ! m ! k)"
    have "k < length (lss ! m)" using wss(2) m by simp
    from relocs_fit_exists [OF fit m(1) this a] obtain n where "n < length rs" "cmdbuf_bo (rs ! n) = g_bo (gs ! m)"
      "unat (cmdbuf_offset (rs ! n)) div 4 = k" by blast
    then have "reloc_value job2 n (rs ! n) \<in> set (hits job2 (gs' ! m) 0 rs ?x)"
      unfolding hit [OF m(1)] by (intro exI [of _ n]) simp
    then show "hits job2 (gs' ! m) 0 rs ?x \<noteq> []" by auto
  qed
  show "foldl (\<lambda>v i. last (v # hits job2 (gs' ! i) 0 rs ?x)) v [0..<length gs]
      = (if addr_label job (lss ! m ! k) then last (hits job2 (gs' ! m) 0 rs ?x) else v)"
    unfolding f using ne by auto
  show "\<exists>n < length rs. reloc_shift (rs ! n) = 0 \<and> last (hits job2 (gs' ! m) 0 rs ?x) = reloc_value job2 n (rs ! n)"
    if "addr_label job (lss ! m ! k)"
  proof -
    have "last (hits job2 (gs' ! m) 0 rs ?x) \<in> set (hits job2 (gs' ! m) 0 rs ?x)" using ne that by (intro last_in_set) simp
    with hit [OF m(1)] mine [OF m(1)] show ?thesis by blast
  qed
qed

lemma job_stream_lengths:
  "job_stream c wss = Some (acts, lss) \<Longrightarrow> length lss = length wss \<and> (\<forall>m < length wss. length (lss ! m) = length (wss ! m))"
proof (induction wss arbitrary: c acts lss)
  case (Cons ws wss)
  then obtain as rest ls where a: "host1x_stream c None ws = Some as" "job_stream (last_class c as) wss = Some (rest, ls)"
    "lss = the (host1x_labels c None ws) # ls" by (auto split: option.splits)
  from host1x_labels_Some [OF a(1)] host1x_labels_length [of c None ws]
  have "length (the (host1x_labels c None ws)) = length ws" by auto
  with Cons.IH [OF a(2)] a(3) show ?case by (auto simp: nth_Cons split: nat.splits)
qed simp

lemma job_stream_patch:
  "job_stream c wss = Some (acts, lss) \<Longrightarrow> length wss' = length wss \<Longrightarrow>
   (\<forall>m < length wss. length (wss' ! m) = length (wss ! m) \<and> (\<forall>k < length (wss ! m). lss ! m ! k = None \<longrightarrow> wss' ! m ! k = wss ! m ! k)) \<Longrightarrow>
   \<exists>acts'. job_stream c wss' = Some (acts', lss) \<and> map without_value acts' = map without_value acts"
proof (induction wss arbitrary: c acts lss wss')
  case (Cons ws wss)
  then obtain as rest ls where a: "host1x_stream c None ws = Some as" "job_stream (last_class c as) wss = Some (rest, ls)"
    "lss = the (host1x_labels c None ws) # ls" "acts = as @ rest" by (auto split: option.splits)
  from Cons.prems(2) obtain vs vss where v: "wss' = vs # vss" "length vss = length wss" by (cases wss') auto
  have p0: "length vs = length ws" "\<And>k. k < length ws \<Longrightarrow> the (host1x_labels c None ws) ! k = None \<Longrightarrow> vs ! k = ws ! k"
    using Cons.prems(3) [rule_format, of 0] v a(3) by auto
  have pS: "\<forall>m < length wss. length (vss ! m) = length (wss ! m) \<and> (\<forall>k < length (wss ! m). ls ! m ! k = None \<longrightarrow> vss ! m ! k = wss ! m ! k)"
    using Cons.prems(3) v a(3) by (metis Suc_less_eq length_Cons nth_Cons_Suc)
  from host1x_stream_patch [OF a(1) p0] obtain as' where as': "host1x_stream c None vs = Some as'"
    "map without_value as' = map without_value as" "host1x_labels c None vs = host1x_labels c None ws" by blast
  have "last_class c as' = last_class c as" using as'(2) last_class_without_value by metis
  with Cons.IH [OF a(2) v(2) pS] as' a v show ?case by auto
qed simp

lemma permits_without_value: "list_all (job_permits job c) (map without_value acts) = list_all (job_permits job c) acts"
proof (induction acts)
  case (Cons a acts)
  then show ?case by (cases a) simp_all
qed simp

lemma firewall_sound:
  assumes pin: "host1x_job_pin env job w = Some (0, job', w')" and errs: "pin_errors env" and fw: "enable_firewall job"
    and g: "job_cmds job = map CMD_GATHER gs" and dist: "distinct (map g_bo gs)" and nh: "\<forall>g \<in> set gs. \<not> g_handled g"
    and sz: "gathers_size (job_cmds job) < 2 ^ 32"
  shows "\<exists>gs' acts lss. job_cmds job' = map CMD_GATHER gs' \<and> length gs' = length gs
    \<and> job_stream (job_class job) (map (gather_words job') gs') = Some (acts, lss)
    \<and> list_all (job_permits job (job_class job)) acts
    \<and> (\<forall>m < length gs. \<forall>k < length (lss ! m). addr_label job (lss ! m ! k) \<longrightarrow>
        (\<exists>n < length (job_relocs job). map_bo (job_unpins job' ! n) = target_bo (job_relocs job ! n)
          \<and> gather_words job' (gs' ! m) ! k = ucast (map_phys (job_unpins job' ! n) + target_offset (job_relocs job ! n))))"
proof -
  let ?rs = "job_relocs job"
  from job_pin_phases [OF pin errs fw] obtain ms A w1 job2 w2 where
    ms: "length ms = length ?rs" "\<forall>n < length ?rs. A ! n = map_phys (ms ! n) \<and> map_bo (ms ! n) = target_bo (?rs ! n)"
    and c: "copy_gathers env (job\<lparr>job_unpins := ms, addr_phys := A\<rparr>) w1 = Some (0, job2, w2)"
    and p: "patch_gathers env [0..<length (job_cmds job2)] job2 w2 = Some (0, job', w')" by blast
  have g1: "job_cmds (job\<lparr>job_unpins := ms, addr_phys := A\<rparr>) = map CMD_GATHER gs"
    "gathers_size (job_cmds (job\<lparr>job_unpins := ms, addr_phys := A\<rparr>)) < 2 ^ 32" using g sz by simp_all
  from copy_gathers_result [OF c g1] obtain dma wss where
    wss: "length wss = length gs" "\<forall>m < length gs. length (wss ! m) = unat (g_words (gs ! m))"
    and j2: "job2 = job\<lparr>job_unpins := ms, addr_phys := A, gather_copy := dma, gather_copy_mapped := concat wss,
      gather_copy_size := gathers_size (job_cmds job), job_cmds := map CMD_GATHER (placed dma 0 gs)\<rparr>"
    and acc: "accepted (job\<lparr>job_unpins := ms, addr_phys := A\<rparr>) (job_class job) gs wss ?rs []"
    by auto
  have acc': "accepted job (job_class job) gs wss ?rs []"
    using acc accepted_cong [of "job\<lparr>job_unpins := ms, addr_phys := A\<rparr>" job] by (simp add: fun_eq_iff)
  from accepted_used [OF acc'] obtain useds acts lss where u: "?rs = concat useds" "length useds = length gs"
    "job_stream (job_class job) wss = Some (acts, lss)" "list_all (job_permits job (job_class job)) acts" "length lss = length gs"
    "\<forall>m < length gs. list_all2 (\<lambda>x k. check_reloc x (g_bo (gs ! m)) (of_nat k)) (useds ! m) (addr_positions job 0 (lss ! m))"
    by auto
  define gs' where "gs' = placed dma 0 gs"
  have l2: "length (job_cmds job2) = length gs" by (simp add: j2)
  have p': "enable_firewall job2" "job_cmds job2 = map CMD_GATHER gs'" "distinct (map g_bo gs')" "\<forall>g \<in> set gs'. \<not> g_handled g"
    "set [0..<length gs] \<subseteq> {..<length gs'}"
    using fw dist placed_handled [OF nh] by (auto simp: j2 gs'_def)
  from patch_gathers_copies [OF p' p [unfolded l2]] obtain M where
    M: "job' = job2\<lparr>gather_copy_mapped := M\<rparr>" "length M = length (concat wss)"
    "\<forall>x < length M. M ! x = foldl (\<lambda>v i. last (v # hits job2 (gs' ! i) 0 ?rs x)) (concat wss ! x) [0..<length gs]"
    by (auto simp: j2)
  have lens: "\<forall>m < length gs. length (wss ! m) = unat (g_words (gs ! m)) \<and> length (lss ! m) = length (wss ! m)"
    using wss job_stream_lengths [OF u(3)] by simp
  have tot: "4 * length (concat wss) < 2 ^ 32"
    using sz unfolding g gathers_size_map length_concat_words [OF wss] by simp
  have "4 * length (lss ! m) < 2 ^ 32" if "m < length gs" for m
    using concat_segment(1) [of m wss] tot lens that wss(1) by auto
  then have fit: "relocs_fit job gs lss ?rs" unfolding relocs_fit_def using u by blast
  note pw = patched_word [OF fit dist wss(1) lens tot gs'_def]
  have place: "gather_words job' (gs' ! m) = take (length (wss ! m)) (drop (length (concat (take m wss))) M)"
    if m: "m < length gs" for m
  proof -
    let ?p = "length (concat (take m wss))"
    have "?p \<le> length (concat wss)" using concat_take_mono [of m "length wss" wss] m wss(1) by simp
    then have "4 * ?p < 2 ^ 32" using tot by simp
    then have "unat (of_nat (4 * ?p) :: u32) = 4 * ?p" by (simp only: unat_of_nat) simp
    then show ?thesis
      using placed_nth [OF wss m, of dma 0] wss m M(1) by (simp add: gather_words_def gs'_def)
  qed
  have len: "length (gather_words job' (gs' ! m)) = length (wss ! m)" if m: "m < length gs" for m
    using place [OF m] concat_segment(1) [of m wss] m wss(1) M(2) by simp
  have word: "gather_words job' (gs' ! m) ! k
      = (if addr_label job (lss ! m ! k) then last (hits job2 (gs' ! m) 0 ?rs (length (concat (take m wss)) + k)) else wss ! m ! k)"
    if m: "m < length gs" and k: "k < length (wss ! m)" for m k
  proof -
    let ?x = "length (concat (take m wss)) + k"
    have mw: "m < length wss" using m wss(1) by simp
    have x: "?x < length M" using concat_segment(1) [OF mw] k M(2) by simp
    have "gather_words job' (gs' ! m) ! k = M ! ?x" using place [OF m] k x by simp
    also have "\<dots> = (if addr_label job (lss ! m ! k) then last (hits job2 (gs' ! m) 0 ?rs ?x) else concat wss ! ?x)"
      using M(3) x pw(1) [OF m k] by simp
    also have "concat wss ! ?x = drop (length (concat (take m wss))) (concat wss) ! k" using x M(2) by simp
    also have "\<dots> = wss ! m ! k" using concat_segment(2) [OF mw] k by (simp add: nth_append)
    finally show ?thesis .
  qed
  have lg: "length gs' = length gs" by (simp add: gs'_def)
  have "\<forall>m < length wss. length (map (gather_words job') gs' ! m) = length (wss ! m)
      \<and> (\<forall>k < length (wss ! m). lss ! m ! k = None \<longrightarrow> map (gather_words job') gs' ! m ! k = wss ! m ! k)"
  proof (intro allI impI conjI)
    fix m assume m: "m < length wss"
    then have nth: "map (gather_words job') gs' ! m = gather_words job' (gs' ! m)" using wss(1) lg by simp
    show "length (map (gather_words job') gs' ! m) = length (wss ! m)" unfolding nth using len m wss(1) by simp
    fix k assume k: "k < length (wss ! m)" "lss ! m ! k = None"
    show "map (gather_words job') gs' ! m ! k = wss ! m ! k"
      unfolding nth using word [of m k] m wss(1) k by (simp add: addr_label_def)
  qed
  from job_stream_patch [OF u(3) _ this] lg wss(1) obtain acts' where
    acts': "job_stream (job_class job) (map (gather_words job') gs') = Some (acts', lss)" "map without_value acts' = map without_value acts"
    by auto
  have ok: "list_all (job_permits job (job_class job)) acts'"
    using u(4) acts'(2) permits_without_value [of job "job_class job" acts] permits_without_value [of job "job_class job" acts'] by simp
  have j': "job_cmds job' = map CMD_GATHER gs'" "job_unpins job' = ms" by (simp_all add: M(1) j2 gs'_def)
  have addr: "\<exists>n < length ?rs. map_bo (job_unpins job' ! n) = target_bo (?rs ! n)
      \<and> gather_words job' (gs' ! m) ! k = ucast (map_phys (job_unpins job' ! n) + target_offset (?rs ! n))"
    if m: "m < length gs" and k: "k < length (lss ! m)" and a: "addr_label job (lss ! m ! k)" for m k
  proof -
    have kw: "k < length (wss ! m)" using k lens m by simp
    from pw(2) [OF m kw a, of job2] obtain n where n: "n < length ?rs" "reloc_shift (?rs ! n) = 0"
      "last (hits job2 (gs' ! m) 0 ?rs (length (concat (take m wss)) + k)) = reloc_value job2 n (?rs ! n)" by blast
    have "gather_words job' (gs' ! m) ! k = ucast (A ! n + target_offset (?rs ! n))"
      using word [OF m kw] a n(2,3) by (simp add: reloc_value_def j2)
    with n(1) ms(2) j'(2) show ?thesis by auto
  qed
  show ?thesis
    using j'(1) lg acts'(1) ok addr by blast
qed

subsection \<open>The guarantees\<close>

definition two_relocs :: "host1x_reloc list" where
  "two_relocs = [reloc_of 0 4 7 0x10, reloc_of 0 4 7 0x20]"

text \<open>Two gathers of one buffer, each with one relocation, as the firewall demands.\<close>

lemma second_gather_keeps_address:
  "map_option (\<lambda>(err, job, w). (err, gather_copy_mapped job))
     (host1x_job_pin simple_env (job_of True [CMD_GATHER (gather_of 0 2 0), CMD_GATHER (gather_of 0 2 8)] two_relocs)
       (world_of (\<lambda>b. [0x101a0001, 0, 0x101a0001, 0xdeadbeef])))
   = Some (0, [0x101a0001, 0x80000020, 0x101a0001, 0xdeadbeef])"
  by (simp add: pin_eval two_relocs_def upt_rec)

text \<open>
  C14. When pinning a job with the firewall succeeds, the hardware can decode the copies of the gathers that it reads, they select only classes
  of the client, and every data word (a word behind a command, not part of it) that goes to an address register is the address of a
  pinned target of a relocation. Nothing is said of the values inside the commands IMM and EXTEND: the firewall does not look at them,
  so a value of 16 bits can still be written to an address register (a finding). The job consists of gathers only, no waits, which are in different
  buffers, have not been handled before and have less than 4 GB together; a function that fails to pin returns an error other than 0.
\<close>

theorem host1x_firewall_sound:
  assumes "host1x_job_pin env job w = Some (0, job', w')" and "pin_errors env" and "enable_firewall job"
    and "job_cmds job = map CMD_GATHER gs" and "distinct (map g_bo gs)" and "\<forall>g \<in> set gs. \<not> g_handled g"
    and "gathers_size (job_cmds job) < 2 ^ 32"
  shows "\<exists>gs' acts lss. job_cmds job' = map CMD_GATHER gs' \<and> length gs' = length gs
    \<and> job_stream (job_class job) (map (gather_words job') gs') = Some (acts, lss)
    \<and> list_all (job_permits job (job_class job)) acts
    \<and> (\<forall>m < length gs. \<forall>k < length (lss ! m). addr_label job (lss ! m ! k) \<longrightarrow>
        (\<exists>n < length (job_relocs job). map_bo (job_unpins job' ! n) = target_bo (job_relocs job ! n)
          \<and> gather_words job' (gs' ! m) ! k = ucast (map_phys (job_unpins job' ! n) + target_offset (job_relocs job ! n))))"
  by (rule firewall_sound [OF assms])

theorem host1x_firewall_sound_witness:
  "\<exists>job' w' gs' acts lss. host1x_job_pin simple_env (job_of True [CMD_GATHER (gather_of 0 2 0)] [reloc_of 0 4 7 0x10])
       (world_of (\<lambda>b. [0x101a0001, 0])) = Some (0, job', w')
     \<and> job_cmds job' = map CMD_GATHER gs' \<and> job_stream 0x51 (map (gather_words job') gs') = Some (acts, lss)"
proof -
  let ?job = "job_of True [CMD_GATHER (gather_of 0 2 0)] [reloc_of 0 4 7 0x10]"
  have "\<exists>job' w'. host1x_job_pin simple_env ?job (world_of (\<lambda>b. [0x101a0001, 0])) = Some (0, job', w')"
    by (simp add: pin_eval upt_rec)
  then obtain job' w' where p: "host1x_job_pin simple_env ?job (world_of (\<lambda>b. [0x101a0001, 0])) = Some (0, job', w')" by blast
  have "pin_errors simple_env" by (simp add: pin_errors_def simple_env_def)
  from host1x_firewall_sound [OF p this, of "[gather_of 0 2 0]"] p show ?thesis
    by (auto simp: job_of_def gather_of_def gathers_size_def)
qed

end
