(* ===== verification/Host1x_Intr.thy ===== *)
theory Host1x_Intr
  imports Prelude "HOL-Library.Multiset"
begin

text \<open>
  The interrupts of syncpoints (\<open>gpu/host1x/intr.c\<close>, \<open>gpu/host1x/hw/intr_hw.c\<close>): each syncpoint has a list of fences that wait for a
  value of its counter; the hardware raises an interrupt at the value of the first.

  A syncpoint is the part of \<open>struct host1x_syncpt\<close> that is used here, with its registers: the counter, the threshold,
  and its bits in the registers that enable the interrupt and show its status. The spin lock of a list makes each
  operation one step; the handler reads the counter just before it takes the lock, which is part of its step here. The call
  that signals a fence is left out: the fences to signal are a result.
\<close>

subsection \<open>Fences and syncpoints\<close>

record host1x_fence_entry =
  fence_no :: nat
  threshold :: u32

record intr_syncpt =
  counter :: u32
  min_val :: u32
  fences :: "host1x_fence_entry list"
  int_thresh :: u32
  int_enabled :: bool
  int_status :: bool

text \<open>The search from the end of the list, which is given reversed.\<close>

fun add_fence_reverse :: "host1x_fence_entry \<Rightarrow> host1x_fence_entry list \<Rightarrow> host1x_fence_entry list" where
  "add_fence_reverse fence [] = [fence]"
| "add_fence_reverse fence (f # fs) =
     (if sint (threshold f - threshold fence) \<le> 0 then fence # f # fs else f # add_fence_reverse fence fs)"

definition host1x_intr_add_fence_to_list :: "host1x_fence_entry \<Rightarrow> host1x_fence_entry list \<Rightarrow> host1x_fence_entry list" where
  "host1x_intr_add_fence_to_list fence fs = rev (add_fence_reverse fence (rev fs))"

definition host1x_intr_set_syncpt_threshold :: "u32 \<Rightarrow> intr_syncpt \<Rightarrow> intr_syncpt" where
  "host1x_intr_set_syncpt_threshold t sp = sp\<lparr>int_thresh := t\<rparr>"

definition host1x_intr_enable_syncpt_intr :: "intr_syncpt \<Rightarrow> intr_syncpt" where
  "host1x_intr_enable_syncpt_intr sp = sp\<lparr>int_enabled := True\<rparr>"

definition host1x_intr_disable_syncpt_intr :: "intr_syncpt \<Rightarrow> intr_syncpt" where
  "host1x_intr_disable_syncpt_intr sp = sp\<lparr>int_enabled := False, int_status := False\<rparr>"

definition host1x_intr_update_hw_state :: "intr_syncpt \<Rightarrow> intr_syncpt" where
  "host1x_intr_update_hw_state sp =
     (case fences sp of
        f # _ \<Rightarrow> host1x_intr_enable_syncpt_intr (host1x_intr_set_syncpt_threshold (threshold f) sp)
      | [] \<Rightarrow> host1x_intr_disable_syncpt_intr sp)"

definition host1x_intr_add_fence_locked :: "host1x_fence_entry \<Rightarrow> intr_syncpt \<Rightarrow> intr_syncpt" where
  "host1x_intr_add_fence_locked fence sp =
     host1x_intr_update_hw_state (sp\<lparr>fences := host1x_intr_add_fence_to_list fence (fences sp)\<rparr>)"

text \<open>A fence that is on no list has an empty list node. Fences have different numbers.\<close>

definition host1x_intr_remove_fence :: "nat \<Rightarrow> intr_syncpt \<Rightarrow> bool \<times> intr_syncpt" where
  "host1x_intr_remove_fence n sp =
     (if n \<notin> fence_no ` set (fences sp) then (False, sp)
      else (True, host1x_intr_update_hw_state (sp\<lparr>fences := filter (\<lambda>f. fence_no f \<noteq> n) (fences sp)\<rparr>)))"

text \<open>The new value of the shadow is the value read.\<close>

definition intr_syncpt_load :: "intr_syncpt \<Rightarrow> u32 \<times> intr_syncpt" where
  "intr_syncpt_load sp = (counter sp, sp\<lparr>min_val := counter sp\<rparr>)"

text \<open>The fences to signal, and the rest of the list.\<close>

fun take_expired :: "u32 \<Rightarrow> host1x_fence_entry list \<Rightarrow> host1x_fence_entry list \<times> host1x_fence_entry list" where
  "take_expired v [] = ([], [])"
| "take_expired v (f # fs) =
     (if (v - threshold f) AND 0x80000000 \<noteq> 0 then ([], f # fs)
      else case take_expired v fs of (expired, rest) \<Rightarrow> (f # expired, rest))"

definition host1x_intr_handle_interrupt :: "intr_syncpt \<Rightarrow> host1x_fence_entry list \<times> intr_syncpt" where
  "host1x_intr_handle_interrupt sp =
     (case intr_syncpt_load sp of (v, sp) \<Rightarrow>
        case take_expired v (fences sp) of (expired, rest) \<Rightarrow>
          (expired, host1x_intr_update_hw_state (sp\<lparr>fences := rest\<rparr>)))"

subsection \<open>The interrupt handler\<close>

text \<open>The fences signalled so far and the syncpoints, 32 in each group of the status registers.\<close>

type_synonym intr_host = "host1x_fence_entry list \<times> intr_syncpt list"

definition group_ids :: "nat \<Rightarrow> intr_syncpt list \<Rightarrow> nat list" where
  "group_ids i sps = filter (\<lambda>n. n < length sps \<and> int_status (sps ! n)) [32 * i..<32 * i + 32]"

fun handle_ids :: "nat list \<Rightarrow> intr_host \<Rightarrow> intr_host" where
  "handle_ids [] h = h"
| "handle_ids (n # ns) (signalled, sps) =
     (case host1x_intr_handle_interrupt (sps ! n) of (expired, sp) \<Rightarrow> handle_ids ns (signalled @ expired, sps[n := sp]))"

definition isr_group :: "nat \<Rightarrow> intr_host \<Rightarrow> intr_host" where
  "isr_group i = (\<lambda>(signalled, sps).
     let ids = group_ids i sps;
         sps = fold (\<lambda>n sps. sps[n := host1x_intr_disable_syncpt_intr (sps ! n)]) ids sps
     in handle_ids ids (signalled, sps))"

text \<open>The line \<open>offset\<close> of \<open>irqs\<close> handles the groups \<open>offset\<close>, \<open>offset + irqs\<close> and so on. There is at least one line.\<close>

function isr_loop :: "nat \<Rightarrow> nat \<Rightarrow> intr_host \<Rightarrow> intr_host" where
  "isr_loop irqs i h = (if irqs \<noteq> 0 \<and> i < (length (snd h) + 31) div 32 then isr_loop irqs (i + irqs) (isr_group i h) else h)"
  by auto

lemma handle_ids_length: "length (snd (handle_ids ns h)) = length (snd h)"
  by (induction ns h rule: handle_ids.induct) (auto split: prod.splits)

lemma length_fold_disable: "length (fold (\<lambda>n sps. sps[n := g (sps ! n)]) ids sps) = length sps"
  by (induction ids arbitrary: sps) auto

lemma isr_group_length [simp]: "length (snd (isr_group i h)) = length (snd h)"
  by (cases h) (simp add: isr_group_def Let_def handle_ids_length length_fold_disable)

termination isr_loop
  by (relation "measure (\<lambda>(irqs, i, h). (length (snd h) + 31) div 32 - i)") auto

declare isr_loop.simps [simp del]

definition syncpt_thresh_isr :: "nat \<Rightarrow> nat \<Rightarrow> intr_host \<Rightarrow> intr_host" where
  "syncpt_thresh_isr irqs offset h = isr_loop irqs offset h"

text \<open>The line that the interrupts of a syncpoint go to (Tegra234).\<close>

definition syncpt_intr_dest :: "nat \<Rightarrow> nat \<Rightarrow> nat" where
  "syncpt_intr_dest irqs n = (n div 32) mod irqs"

subsection \<open>Distances on the counter\<close>

text \<open>How many increments are left until the fence expires; fences are \<open>near\<close> when this fits well into 32 bits.\<close>

definition due :: "u32 \<Rightarrow> host1x_fence_entry \<Rightarrow> int" where
  "due v f = sint (threshold f - v)"

definition near :: "u32 \<Rightarrow> host1x_fence_entry \<Rightarrow> bool" where
  "near v f \<longleftrightarrow> - (2 ^ 30) < due v f \<and> due v f < 2 ^ 30"

lemma sint_small_delta: "- (2 ^ 31) \<le> k \<Longrightarrow> k < 2 ^ 31 \<Longrightarrow> sint (word_of_int k :: u32) = k"
  by (simp add: signed_of_int signed_take_bit_int_eq_self)

lemma sint_diff:
  assumes "- (2 ^ 31) \<le> sint (x :: u32) - sint y" "sint x - sint y < 2 ^ 31"
  shows "sint (x - y) = sint x - sint y"
proof -
  have "x - y = word_of_int (sint x - sint y)" by simp
  then show ?thesis using sint_small_delta [OF assms] by simp
qed

lemma due_diff: "near v f \<Longrightarrow> near v g \<Longrightarrow> sint (threshold f - threshold g) = due v f - due v g"
  using sint_diff [of "threshold f - v" "threshold g - v"] by (simp add: near_def due_def)

lemma due_neg: "near v f \<Longrightarrow> sint (v - threshold f) = - due v f"
  using sint_diff [of 0 "threshold f - v"] by (simp add: near_def due_def)

lemma sign_bit: "(x :: u32) AND 0x80000000 \<noteq> 0 \<longleftrightarrow> sint x < 0"
proof -
  have "x AND 0x80000000 \<noteq> 0 \<longleftrightarrow> bit x 31"
    using bit_iff_and_push_bit_not_eq_0 [of x 31] by simp
  then show ?thesis using bit_last_iff [of x] by simp
qed

lemma expired_iff: "near v f \<Longrightarrow> (v - threshold f) AND 0x80000000 \<noteq> 0 \<longleftrightarrow> 0 < due v f"
  by (simp only: sign_bit due_neg) simp

subsection \<open>Lists in order\<close>

definition in_order :: "u32 \<Rightarrow> host1x_fence_entry list \<Rightarrow> bool" where
  "in_order v fs \<longleftrightarrow> sorted (map (due v) fs) \<and> (\<forall>f \<in> set fs. near v f)"

lemma in_order_Nil [simp]: "in_order v []"
  by (simp add: in_order_def)

lemma in_order_Cons: "in_order v (f # fs) \<longleftrightarrow> near v f \<and> (\<forall>g \<in> set fs. due v f \<le> due v g) \<and> in_order v fs"
  by (auto simp: in_order_def)

lemma in_order_append:
  "in_order v (xs @ ys) \<longleftrightarrow> in_order v xs \<and> in_order v ys \<and> (\<forall>x \<in> set xs. \<forall>y \<in> set ys. due v x \<le> due v y)"
  by (auto simp: in_order_def sorted_append)

lemma in_order_filter: "in_order v fs \<Longrightarrow> in_order v (filter P fs)"
  by (auto simp: in_order_def sorted_filter)

lemma add_fence_reverse_mset: "mset (add_fence_reverse f fs) = add_mset f (mset fs)"
  by (induction fs) auto

lemma add_fence_reverse_order:
  "near v f \<Longrightarrow> in_order v (rev fs) \<Longrightarrow> in_order v (rev (add_fence_reverse f fs))"
proof (induction fs)
  case Nil
  then show ?case by (simp add: in_order_Cons)
next
  case (Cons g fs)
  have g: "near v g" "in_order v (rev fs)" "\<forall>x \<in> set fs. due v x \<le> due v g"
    using Cons.prems(2) by (auto simp: in_order_append in_order_Cons)
  have s: "set (add_fence_reverse f fs) = insert f (set fs)"
    using add_fence_reverse_mset [of f fs] by (metis set_mset_add_mset_insert set_mset_mset)
  show ?case
  proof (cases "due v g \<le> due v f")
    case True
    with g Cons.prems(1) show ?thesis by (auto simp: due_diff in_order_append in_order_Cons)
  next
    case False
    with g Cons s show ?thesis by (auto simp: due_diff in_order_append in_order_Cons)
  qed
qed

lemma add_fence_order: "near v f \<Longrightarrow> in_order v fs \<Longrightarrow> in_order v (host1x_intr_add_fence_to_list f fs)"
  using add_fence_reverse_order [of v f "rev fs"] by (simp add: host1x_intr_add_fence_to_list_def)

lemma add_fence_mset: "mset (host1x_intr_add_fence_to_list f fs) = add_mset f (mset fs)"
  by (simp add: host1x_intr_add_fence_to_list_def add_fence_reverse_mset)

lemma add_fence_set: "set (host1x_intr_add_fence_to_list f fs) = insert f (set fs)"
  using add_fence_mset [of f fs] by (metis set_mset_add_mset_insert set_mset_mset)

text \<open>The head of a list in order is what the handler needs: it takes the fences that are due, and no other.\<close>

lemma take_expired_due:
  "in_order v fs \<Longrightarrow> take_expired v fs = (filter (\<lambda>f. due v f \<le> 0) fs, filter (\<lambda>f. 0 < due v f) fs)"
proof (induction fs)
  case (Cons f fs)
  show ?case
  proof (cases "0 < due v f")
    case True
    with Cons.prems have "\<forall>g \<in> set fs. 0 < due v g" by (force simp: in_order_Cons)
    then have "filter (\<lambda>g. due v g \<le> 0) fs = []" "filter (\<lambda>g. 0 < due v g) fs = fs" by (auto simp: filter_empty_conv not_le)
    with True Cons.prems show ?thesis by (simp add: expired_iff in_order_Cons)
  next
    case False
    with Cons show ?thesis by (simp add: expired_iff in_order_Cons)
  qed
qed simp

text \<open>The counter goes on; the order does not depend on its value.\<close>

lemma in_order_step:
  assumes "in_order v fs" "\<forall>f \<in> set fs. near v' f"
  shows "in_order v' fs"
proof -
  have ord: "sorted_wrt (\<lambda>f g. due v f \<le> due v g) fs" "\<forall>f \<in> set fs. near v f"
    using assms(1) unfolding in_order_def sorted_map by blast+
  have "due v' f \<le> due v' g" if "f \<in> set fs" "g \<in> set fs" "due v f \<le> due v g" for f g
  proof -
    have "due v f - due v g = due v' f - due v' g"
      using due_diff [of v f g] due_diff [of v' f g] that(1,2) ord(2) assms(2) by simp
    with that(3) show ?thesis by linarith
  qed
  from sorted_wrt_mono_rel [OF this ord(1)] assms(2) show ?thesis by (simp only: in_order_def sorted_map)
qed

subsection \<open>What the hardware is told\<close>

definition armed :: "intr_syncpt \<Rightarrow> bool" where
  "armed sp \<longleftrightarrow> (case fences sp of [] \<Rightarrow> \<not> int_enabled sp \<and> \<not> int_status sp | f # _ \<Rightarrow> int_enabled sp \<and> int_thresh sp = threshold f)"

text \<open>The condition on which the hardware raises the interrupt.\<close>

definition triggered :: "intr_syncpt \<Rightarrow> bool" where
  "triggered sp \<longleftrightarrow> int_enabled sp \<and> 0 \<le> sint (counter sp - int_thresh sp)"

lemma update_hw_state_simps [simp]:
  "fences (host1x_intr_update_hw_state sp) = fences sp" "counter (host1x_intr_update_hw_state sp) = counter sp"
  "armed (host1x_intr_update_hw_state sp)"
  by (auto simp: host1x_intr_update_hw_state_def armed_def host1x_intr_enable_syncpt_intr_def host1x_intr_disable_syncpt_intr_def
      host1x_intr_set_syncpt_threshold_def split: list.splits)

lemma armed_other: "armed (sp\<lparr>counter := v\<rparr>) = armed sp"
  by (cases "fences sp") (simp_all add: armed_def)

lemma armed_triggered:
  assumes "armed sp" "in_order (counter sp) (fences sp)" "f \<in> set (fences sp)" "due (counter sp) f \<le> 0"
  shows "triggered sp"
proof (cases "fences sp")
  case Nil
  with assms(3) show ?thesis by simp
next
  case (Cons g gs)
  with assms(2-4) have "due (counter sp) g \<le> 0" "near (counter sp) g" by (force simp: in_order_Cons)+
  with assms(1) Cons show ?thesis by (simp add: triggered_def armed_def due_neg)
qed

lemma handle_interrupt_result:
  assumes "in_order (counter sp) (fences sp)"
  shows "fst (host1x_intr_handle_interrupt sp) = filter (\<lambda>f. due (counter sp) f \<le> 0) (fences sp)"
    "fences (snd (host1x_intr_handle_interrupt sp)) = filter (\<lambda>f. 0 < due (counter sp) f) (fences sp)"
    "counter (snd (host1x_intr_handle_interrupt sp)) = counter sp" "armed (snd (host1x_intr_handle_interrupt sp))"
  using take_expired_due [OF assms] by (simp_all add: host1x_intr_handle_interrupt_def intr_syncpt_load_def)

subsection \<open>The handler over all syncpoints\<close>

lemma handle_ids_result:
  "distinct ns \<Longrightarrow> \<forall>n \<in> set ns. n < length sps \<Longrightarrow>
   handle_ids ns (sg, sps) = (sg @ concat (map (\<lambda>n. fst (host1x_intr_handle_interrupt (sps ! n))) ns),
     map (\<lambda>n. if n \<in> set ns then snd (host1x_intr_handle_interrupt (sps ! n)) else sps ! n) [0..<length sps])"
proof (induction ns arbitrary: sg sps)
  case Nil
  then show ?case by (simp add: map_nth)
next
  case (Cons n ns)
  obtain ex sp where h: "host1x_intr_handle_interrupt (sps ! n) = (ex, sp)" by fastforce
  have m1: "map (\<lambda>k. fst (host1x_intr_handle_interrupt (sps[n := sp] ! k))) ns = map (\<lambda>k. fst (host1x_intr_handle_interrupt (sps ! k))) ns"
    using Cons.prems(1) by (intro map_cong refl) (metis distinct.simps(2) nth_list_update_neq)
  have m2: "map (\<lambda>k. if k \<in> set ns then snd (host1x_intr_handle_interrupt (sps[n := sp] ! k)) else sps[n := sp] ! k) [0..<length sps]
    = map (\<lambda>k. if k \<in> set (n # ns) then snd (host1x_intr_handle_interrupt (sps ! k)) else sps ! k) [0..<length sps]"
    using Cons.prems h by (intro map_cong) (auto simp: nth_list_update)
  have m3: "handle_ids ns (sg @ ex, sps[n := sp])
     = (sg @ ex @ concat (map (\<lambda>k. fst (host1x_intr_handle_interrupt (sps[n := sp] ! k))) ns),
       map (\<lambda>k. if k \<in> set ns then snd (host1x_intr_handle_interrupt (sps[n := sp] ! k)) else sps[n := sp] ! k) [0..<length sps])"
    using Cons.IH [of "sps[n := sp]" "sg @ ex"] Cons.prems by simp
  show ?case unfolding handle_ids.simps h prod.case m3 m1 m2 by (simp add: h)
qed

lemma fold_disable_nth:
  "distinct ns \<Longrightarrow> \<forall>n \<in> set ns. n < length sps \<Longrightarrow>
   fold (\<lambda>n sps. sps[n := g (sps ! n)]) ns sps = map (\<lambda>n. if n \<in> set ns then g (sps ! n) else sps ! n) [0..<length sps]"
proof (induction ns arbitrary: sps)
  case Nil
  then show ?case by (simp add: map_nth)
next
  case (Cons n ns)
  have "fold (\<lambda>n sps. sps[n := g (sps ! n)]) ns (sps[n := g (sps ! n)])
    = map (\<lambda>k. if k \<in> set ns then g (sps[n := g (sps ! n)] ! k) else sps[n := g (sps ! n)] ! k) [0..<length sps]"
    using Cons.IH [of "sps[n := g (sps ! n)]"] Cons.prems by simp
  also have "\<dots> = map (\<lambda>k. if k \<in> set (n # ns) then g (sps ! k) else sps ! k) [0..<length sps]"
    using Cons.prems by (intro map_cong) (auto simp: nth_list_update)
  finally show ?case by simp
qed

text \<open>One syncpoint whose interrupt is pending, as the handler leaves it.\<close>

definition served :: "intr_syncpt \<Rightarrow> host1x_fence_entry list \<times> intr_syncpt" where
  "served sp = host1x_intr_handle_interrupt (host1x_intr_disable_syncpt_intr sp)"

lemma group_ids_props: "distinct (group_ids i sps)" "n \<in> set (group_ids i sps) \<longleftrightarrow> n div 32 = i \<and> n < length sps \<and> int_status (sps ! n)"
  by (auto simp: group_ids_def)

lemma isr_group_result:
  "isr_group i (sg, sps) = (sg @ concat (map (\<lambda>n. fst (served (sps ! n))) (group_ids i sps)),
     map (\<lambda>n. if n div 32 = i \<and> int_status (sps ! n) then snd (served (sps ! n)) else sps ! n) [0..<length sps])"
proof -
  let ?ids = "group_ids i sps"
  let ?dis = "map (\<lambda>n. if n \<in> set ?ids then host1x_intr_disable_syncpt_intr (sps ! n) else sps ! n) [0..<length sps]"
  have ids: "distinct ?ids" "\<forall>n \<in> set ?ids. n < length sps" by (auto simp: group_ids_props)
  have f: "fold (\<lambda>n sps. sps[n := host1x_intr_disable_syncpt_intr (sps ! n)]) ?ids sps = ?dis"
    by (rule fold_disable_nth [OF ids])
  have h: "handle_ids ?ids (sg, ?dis) = (sg @ concat (map (\<lambda>n. fst (host1x_intr_handle_interrupt (?dis ! n))) ?ids),
     map (\<lambda>n. if n \<in> set ?ids then snd (host1x_intr_handle_interrupt (?dis ! n)) else ?dis ! n) [0..<length ?dis])"
    using ids by (intro handle_ids_result) auto
  have a: "map (\<lambda>n. fst (host1x_intr_handle_interrupt (?dis ! n))) ?ids = map (\<lambda>n. fst (served (sps ! n))) ?ids"
    using ids by (intro map_cong) (auto simp: served_def)
  have b: "map (\<lambda>n. if n \<in> set ?ids then snd (host1x_intr_handle_interrupt (?dis ! n)) else ?dis ! n) [0..<length ?dis]
    = map (\<lambda>n. if n div 32 = i \<and> int_status (sps ! n) then snd (served (sps ! n)) else sps ! n) [0..<length sps]"
    by (rule map_cong) (auto simp: served_def group_ids_props)
  show ?thesis by (simp only: isr_group_def prod.case Let_def f h a b)
qed

lemma served_status: "\<not> int_status (snd (served sp))"
  by (simp add: served_def host1x_intr_handle_interrupt_def intr_syncpt_load_def host1x_intr_update_hw_state_def
      host1x_intr_disable_syncpt_intr_def host1x_intr_enable_syncpt_intr_def host1x_intr_set_syncpt_threshold_def
      split: list.splits prod.splits)

text \<open>The groups that a line visits from \<open>i\<close> on.\<close>

definition on_line :: "nat \<Rightarrow> nat \<Rightarrow> nat \<Rightarrow> bool" where
  "on_line irqs i n \<longleftrightarrow> i \<le> n div 32 \<and> (n div 32 - i) mod irqs = 0"

lemma isr_loop_result:
  "irqs \<noteq> 0 \<Longrightarrow> snd (isr_loop irqs i (sg, sps))
     = map (\<lambda>n. if on_line irqs i n \<and> int_status (sps ! n) then snd (served (sps ! n)) else sps ! n) [0..<length sps]
   \<and> set (fst (isr_loop irqs i (sg, sps)))
     = set sg \<union> (\<Union>n \<in> {n. n < length sps \<and> on_line irqs i n \<and> int_status (sps ! n)}. set (fst (served (sps ! n))))"
proof (induction "(length sps + 31) div 32 - i" arbitrary: i sg sps rule: less_induct)
  case less
  show ?case
  proof (cases "i < (length sps + 31) div 32")
    case False
    then have o: "\<not> on_line irqs i n" if "n < length sps" for n
      using that by (auto simp: on_line_def)
    then have m: "map (\<lambda>n. if on_line irqs i n \<and> int_status (sps ! n) then snd (served (sps ! n)) else sps ! n) [0..<length sps] = sps"
      by (auto intro!: nth_equalityI)
    have e: "{n. n < length sps \<and> on_line irqs i n \<and> int_status (sps ! n)} = {}" using o by blast
    have u: "isr_loop irqs i (sg, sps) = (sg, sps)" using False by (subst isr_loop.simps) simp
    show ?thesis unfolding u m e by simp
  next
    case True
    define sps1 where "sps1 = map (\<lambda>n. if n div 32 = i \<and> int_status (sps ! n) then snd (served (sps ! n)) else sps ! n) [0..<length sps]"
    define sg1 where "sg1 = sg @ concat (map (\<lambda>n. fst (served (sps ! n))) (group_ids i sps))"
    have g: "isr_group i (sg, sps) = (sg1, sps1)" by (simp add: isr_group_result sps1_def sg1_def)
    have len: "length sps1 = length sps" by (simp add: sps1_def)
    have nth: "sps1 ! n = (if n div 32 = i \<and> int_status (sps ! n) then snd (served (sps ! n)) else sps ! n)" if "n < length sps" for n
      using that by (simp add: sps1_def)
    have u: "isr_loop irqs i (sg, sps) = isr_loop irqs (i + irqs) (sg1, sps1)"
      using True less.prems g by (subst isr_loop.simps) simp
    have line: "on_line irqs i n \<longleftrightarrow> n div 32 = i \<or> on_line irqs (i + irqs) n" "on_line irqs (i + irqs) n \<Longrightarrow> n div 32 \<noteq> i" for n
    proof -
      show "on_line irqs (i + irqs) n \<Longrightarrow> n div 32 \<noteq> i" using less.prems by (auto simp: on_line_def)
      show "on_line irqs i n \<longleftrightarrow> n div 32 = i \<or> on_line irqs (i + irqs) n"
      proof (cases "i + irqs \<le> n div 32")
        case True
        then have "n div 32 - i = (n div 32 - (i + irqs)) + irqs" by simp
        then have "(n div 32 - i) mod irqs = (n div 32 - (i + irqs)) mod irqs" by (metis mod_add_self2)
        with True less.prems show ?thesis by (auto simp: on_line_def)
      next
        case False
        then have "i \<le> n div 32 \<Longrightarrow> irqs dvd n div 32 - i \<Longrightarrow> n div 32 = i"
          using dvd_imp_le [of irqs "n div 32 - i"] by linarith
        with False show ?thesis by (auto simp: on_line_def)
      qed
    qed
    have "(length sps1 + 31) div 32 - (i + irqs) < (length sps + 31) div 32 - i" using True less.prems len by simp
    note IH = less.hyps [OF this less.prems, of sg1]
    have "(if on_line irqs (i + irqs) n \<and> int_status (sps1 ! n) then snd (served (sps1 ! n)) else sps1 ! n)
        = (if on_line irqs i n \<and> int_status (sps ! n) then snd (served (sps ! n)) else sps ! n)" if "n < length sps" for n
      using line [of n] nth [OF that] by (auto simp: served_status)
    then have a: "map (\<lambda>n. if on_line irqs (i + irqs) n \<and> int_status (sps1 ! n) then snd (served (sps1 ! n)) else sps1 ! n) [0..<length sps1]
        = map (\<lambda>n. if on_line irqs i n \<and> int_status (sps ! n) then snd (served (sps ! n)) else sps ! n) [0..<length sps]"
      unfolding len by (intro map_cong) auto
    have b: "set sg1 = set sg \<union> (\<Union>n \<in> {n. n < length sps \<and> n div 32 = i \<and> int_status (sps ! n)}. set (fst (served (sps ! n))))"
      by (auto simp: sg1_def group_ids_props)
    have c: "{n. n < length sps1 \<and> on_line irqs (i + irqs) n \<and> int_status (sps1 ! n)}
        = {n. n < length sps \<and> on_line irqs (i + irqs) n \<and> int_status (sps ! n)}"
      using line(2) nth len by auto
    have d: "served (sps1 ! n) = served (sps ! n)" if "n \<in> {n. n < length sps \<and> on_line irqs (i + irqs) n \<and> int_status (sps ! n)}" for n
      using that line(2) nth by auto
    have e: "(\<Union>n \<in> {n. n < length sps1 \<and> on_line irqs (i + irqs) n \<and> int_status (sps1 ! n)}. set (fst (served (sps1 ! n))))
      = (\<Union>n \<in> {n. n < length sps \<and> on_line irqs (i + irqs) n \<and> int_status (sps ! n)}. set (fst (served (sps ! n))))"
      unfolding c using d by simp
    have f: "{n. n < length sps \<and> on_line irqs i n \<and> int_status (sps ! n)}
      = {n. n < length sps \<and> n div 32 = i \<and> int_status (sps ! n)} \<union> {n. n < length sps \<and> on_line irqs (i + irqs) n \<and> int_status (sps ! n)}"
      using line(1) by auto
    from IH show ?thesis unfolding u a b e f by (auto simp: Un_assoc)
  qed
qed

lemma on_line_dest: "offset < irqs \<Longrightarrow> on_line irqs offset n \<longleftrightarrow> syncpt_intr_dest irqs n = offset"
proof
  assume "offset < irqs" "on_line irqs offset n"
  then have "offset \<le> n div 32" "(n div 32 - offset) mod irqs = 0" by (simp_all add: on_line_def)
  then obtain k where "n div 32 = offset + irqs * k" by (metis le_add_diff_inverse mod_0_imp_dvd dvdE)
  with \<open>offset < irqs\<close> show "syncpt_intr_dest irqs n = offset" by (simp add: syncpt_intr_dest_def)
next
  assume "offset < irqs" and d: "syncpt_intr_dest irqs n = offset"
  have "n div 32 - (n div 32) mod irqs = irqs * (n div 32 div irqs)" by (metis minus_mod_eq_mult_div)
  with d show "on_line irqs offset n" by (auto simp: on_line_def syncpt_intr_dest_def)
qed

subsection \<open>The life of the fences of a syncpoint\<close>

text \<open>
  A syncpoint with what happened so far: the fences added, removed and signalled, these with the value of the counter then. The
  operations of the driver, the counter going on, and the hardware raising the interrupt come in any order; fences stay
  near the counter.
\<close>

record fence_history =
  point :: intr_syncpt
  added :: "host1x_fence_entry list"
  removed :: "host1x_fence_entry list"
  signalled :: "(u32 \<times> host1x_fence_entry) list"

inductive fence_step :: "fence_history \<Rightarrow> fence_history \<Rightarrow> bool" where
  Add: "near (counter (point s)) f \<Longrightarrow> fence_no f \<notin> fence_no ` set (added s) \<Longrightarrow>
    fence_step s (s\<lparr>point := host1x_intr_add_fence_locked f (point s), added := f # added s\<rparr>)"
| Remove: "f \<in> set (added s) \<Longrightarrow> host1x_intr_remove_fence (fence_no f) (point s) = (r, sp) \<Longrightarrow>
    fence_step s (s\<lparr>point := sp, removed := (if r then [f] else []) @ removed s\<rparr>)"
| Count: "\<forall>f \<in> set (fences (point s)). near (counter (point s) + n) f \<Longrightarrow>
    fence_step s (s\<lparr>point := (point s)\<lparr>counter := counter (point s) + n\<rparr>\<rparr>)"
| Raise: "triggered (point s) \<Longrightarrow> fence_step s (s\<lparr>point := (point s)\<lparr>int_status := True\<rparr>\<rparr>)"
| Interrupt: "syncpt_thresh_isr 1 0 ([], [point s]) = (fs, [sp]) \<Longrightarrow>
    fence_step s (s\<lparr>point := sp, signalled := map (Pair (counter (point s))) fs @ signalled s\<rparr>)"

definition fresh_history :: "u32 \<Rightarrow> fence_history" where
  "fresh_history v = \<lparr>point = \<lparr>counter = v, min_val = v, fences = [], int_thresh = 0, int_enabled = False, int_status = False\<rparr>,
     added = [], removed = [], signalled = []\<rparr>"

definition fences_accounted :: "fence_history \<Rightarrow> bool" where
  "fences_accounted s \<longleftrightarrow> in_order (counter (point s)) (fences (point s)) \<and> armed (point s)
     \<and> distinct (map fence_no (added s))
     \<and> mset (added s) = mset (fences (point s)) + mset (removed s) + mset (map snd (signalled s))
     \<and> (\<forall>(v, f) \<in> set (signalled s). due v f \<le> 0)"

lemma isr_one [unfolded One_nat_def]: "syncpt_thresh_isr 1 0 ([], [sp]) = (if int_status sp then (fst (served sp), [snd (served sp)]) else ([], [sp]))"
proof -
  have "isr_loop 1 0 ([], [sp]) = isr_loop 1 1 (isr_group 0 ([], [sp]))" by (subst isr_loop.simps) simp
  also have "\<dots> = isr_group 0 ([], [sp])" by (subst isr_loop.simps) simp
  finally have "isr_loop 1 0 ([], [sp]) = isr_group 0 ([], [sp])" .
  moreover have "group_ids 0 [sp] = (if int_status sp then [0] else [])"
    by (auto simp: group_ids_def upt_conv_Cons filter_empty_conv)
  ultimately show ?thesis by (simp add: syncpt_thresh_isr_def isr_group_result)
qed

lemma served_result:
  assumes "in_order (counter sp) (fences sp)"
  shows "fst (served sp) = filter (\<lambda>f. due (counter sp) f \<le> 0) (fences sp)"
    "fences (snd (served sp)) = filter (\<lambda>f. 0 < due (counter sp) f) (fences sp)"
    "counter (snd (served sp)) = counter sp" "armed (snd (served sp))"
  using handle_interrupt_result [of "host1x_intr_disable_syncpt_intr sp"] assms
  by (simp_all add: served_def host1x_intr_disable_syncpt_intr_def)

lemma remove_fence_mset:
  assumes "distinct (map fence_no fs)" "f \<in> set fs"
  shows "add_mset f (mset (filter (\<lambda>g. fence_no g \<noteq> fence_no f) fs)) = mset fs"
proof -
  have "filter (\<lambda>g. \<not> fence_no g \<noteq> fence_no f) fs = [f]" using assms
  proof (induction fs)
    case (Cons g fs)
    show ?case
    proof (cases "g = f")
      case True
      with Cons.prems(1) have "fence_no f \<notin> fence_no ` set fs" by simp
      then have "\<forall>h \<in> set fs. fence_no h \<noteq> fence_no f" by (metis imageI)
      with True show ?thesis by (simp add: filter_empty_conv)
    next
      case False
      with Cons.prems(2) have "f \<in> set fs" by simp
      with Cons.prems(1) have "fence_no g \<noteq> fence_no f" by force
      with Cons \<open>f \<in> set fs\<close> show ?thesis by simp
    qed
  qed simp
  then have A: "mset (filter (\<lambda>g. \<not> fence_no g \<noteq> fence_no f) fs) = {#f#}" by simp
  have B: "mset fs = mset (filter (\<lambda>g. fence_no g \<noteq> fence_no f) fs) + mset (filter (\<lambda>g. \<not> fence_no g \<noteq> fence_no f) fs)"
    unfolding mset_filter by (rule multiset_partition)
  show ?thesis by (subst B) (simp only: A, simp)
qed

lemma accounted_step: "fence_step s s' \<Longrightarrow> fences_accounted s \<Longrightarrow> fences_accounted s'"
proof (induction rule: fence_step.induct)
  case (Add s f)
  then show ?case
    by (auto simp: fences_accounted_def host1x_intr_add_fence_locked_def add_fence_order add_fence_mset)
next
  case (Remove f s r sp)
  show ?case
  proof (cases "fence_no f \<in> fence_no ` set (fences (point s))")
    case False
    with Remove show ?thesis by (auto simp: fences_accounted_def host1x_intr_remove_fence_def)
  next
    case True
    have m: "mset (added s) = mset (fences (point s)) + mset (removed s) + mset (map snd (signalled s))"
      and dist: "distinct (map fence_no (added s))" using Remove.prems by (auto simp: fences_accounted_def)
    have m': "mset (added s) = mset (fences (point s) @ removed s @ map snd (signalled s))" using m by simp
    note sub = mset_eq_setD [OF m']
    have "mset (map fence_no (added s)) = mset (map fence_no (fences (point s) @ removed s @ map snd (signalled s)))"
      by (simp only: mset_map m')
    from mset_eq_imp_distinct_iff [OF this(1)] dist have d: "distinct (map fence_no (fences (point s)))" by simp
    have "set (fences (point s)) \<subseteq> set (added s)" using sub by simp
    with True Remove.hyps(1) dist have fin: "f \<in> set (fences (point s))"
      by (auto simp: distinct_map inj_on_def)
    have "r = True" "sp = host1x_intr_update_hw_state ((point s)\<lparr>fences := filter (\<lambda>g. fence_no g \<noteq> fence_no f) (fences (point s))\<rparr>)"
      using Remove.hyps(2) True by (auto simp: host1x_intr_remove_fence_def)
    moreover have "mset (added s) = mset (filter (\<lambda>g. fence_no g \<noteq> fence_no f) (fences (point s))) + mset (f # removed s) + mset (map snd (signalled s))"
      by (subst m, subst remove_fence_mset [OF d fin, symmetric]) simp
    moreover have "in_order (counter (point s)) (filter (\<lambda>g. fence_no g \<noteq> fence_no f) (fences (point s)))"
      using Remove.prems by (simp add: fences_accounted_def in_order_filter)
    ultimately show ?thesis using Remove.prems by (simp add: fences_accounted_def del: mset_filter)
  qed
next
  case (Count s n)
  then have "in_order (counter (point s)) (fences (point s))" by (simp add: fences_accounted_def)
  from in_order_step [OF this Count.hyps] have "in_order (counter (point s) + n) (fences (point s))" .
  with Count.prems show ?case by (simp add: fences_accounted_def armed_other)
next
  case (Raise s)
  then have "armed ((point s)\<lparr>int_status := True\<rparr>)"
    by (cases "fences (point s)") (simp_all add: fences_accounted_def armed_def triggered_def)
  with Raise.prems show ?case by (simp add: fences_accounted_def)
next
  case (Interrupt s fs sp)
  show ?case
  proof (cases "int_status (point s)")
    case False
    with Interrupt show ?thesis by (auto simp: isr_one)
  next
    case True
    have ord: "in_order (counter (point s)) (fences (point s))" using Interrupt.prems by (simp add: fences_accounted_def)
    note r = served_result [OF ord]
    have e: "fs = filter (\<lambda>f. due (counter (point s)) f \<le> 0) (fences (point s))" "sp = snd (served (point s))"
      using Interrupt.hyps True r by (auto simp: isr_one)
    have m: "mset (fences (point s)) = mset (fences sp) + mset fs"
      unfolding e r mset_filter not_less [symmetric] by (rule multiset_partition)
    have "mset (added s) = mset (fences sp) + mset (removed s) + mset (map snd (map (Pair (counter (point s))) fs @ signalled s))"
      using Interrupt.prems m by (simp add: fences_accounted_def comp_def)
    moreover have "in_order (counter sp) (fences sp)" "armed sp" using r ord by (simp_all add: e in_order_filter)
    moreover have "\<forall>(v, f) \<in> set (map (Pair (counter (point s))) fs @ signalled s). due v f \<le> 0"
      using Interrupt.prems by (auto simp: fences_accounted_def e)
    ultimately show ?thesis using Interrupt.prems by (simp add: fences_accounted_def)
  qed
qed

lemma accounted_reachable: "fence_step\<^sup>*\<^sup>* (fresh_history v) s \<Longrightarrow> fences_accounted s"
proof (induction rule: rtranclp_induct)
  case base
  show ?case by (simp add: fences_accounted_def fresh_history_def armed_def)
next
  case (step s s')
  then show ?case using accounted_step by blast
qed

lemma due_fence_triggers:
  assumes "fence_step\<^sup>*\<^sup>* (fresh_history v) s" "f \<in> set (fences (point s))" "due (counter (point s)) f \<le> 0"
  shows "triggered (point s)"
  using accounted_reachable [OF assms(1)] assms(2,3) by (auto simp: fences_accounted_def intro: armed_triggered)

lemma interrupt_serves_due:
  assumes "fence_step\<^sup>*\<^sup>* (fresh_history v) s" "int_status (point s)" "syncpt_thresh_isr 1 0 ([], [point s]) = (fs, [sp])"
  shows "fs = filter (\<lambda>f. due (counter (point s)) f \<le> 0) (fences (point s)) \<and> (\<forall>f \<in> set (fences sp). 0 < due (counter sp) f)"
  using accounted_reachable [OF assms(1)] assms(2,3) served_result [of "point s"] by (auto simp: fences_accounted_def isr_one)

lemma fences_history_sound:
  assumes "fence_step\<^sup>*\<^sup>* (fresh_history v) s"
  shows "mset (added s) = mset (fences (point s)) + mset (removed s) + mset (map snd (signalled s)) \<and> distinct (added s)
    \<and> (\<forall>(c, f) \<in> set (signalled s). due c f \<le> 0)
    \<and> (\<forall>f \<in> set (fences (point s)). due (counter (point s)) f \<le> 0 \<longrightarrow> triggered (point s))
    \<and> (int_status (point s) \<longrightarrow> (\<exists>fs sp. syncpt_thresh_isr 1 0 ([], [point s]) = (fs, [sp])
        \<and> fs = filter (\<lambda>f. due (counter (point s)) f \<le> 0) (fences (point s)) \<and> sorted (map (due (counter (point s))) fs)
        \<and> (\<forall>f \<in> set (fences sp). 0 < due (counter sp) f)))"
proof (intro conjI)
  note acc = accounted_reachable [OF assms, unfolded fences_accounted_def]
  show "mset (added s) = mset (fences (point s)) + mset (removed s) + mset (map snd (signalled s))"
    "\<forall>(c, f) \<in> set (signalled s). due c f \<le> 0" using acc by blast+
  show "distinct (added s)" using acc by (simp add: distinct_map)
  show "\<forall>f \<in> set (fences (point s)). due (counter (point s)) f \<le> 0 \<longrightarrow> triggered (point s)"
    using due_fence_triggers [OF assms] by blast
  show "int_status (point s) \<longrightarrow> (\<exists>fs sp. syncpt_thresh_isr 1 0 ([], [point s]) = (fs, [sp])
        \<and> fs = filter (\<lambda>f. due (counter (point s)) f \<le> 0) (fences (point s)) \<and> sorted (map (due (counter (point s))) fs)
        \<and> (\<forall>f \<in> set (fences sp). 0 < due (counter sp) f))"
  proof
    assume st: "int_status (point s)"
    obtain fs sp where r: "syncpt_thresh_isr 1 0 ([], [point s]) = (fs, [sp])" using st by (auto simp: isr_one)
    note d = interrupt_serves_due [OF assms st r]
    have "sorted (map (due (counter (point s))) fs)" using acc d in_order_filter by (simp add: in_order_def sorted_filter)
    with r d show "\<exists>fs sp. syncpt_thresh_isr 1 0 ([], [point s]) = (fs, [sp])
        \<and> fs = filter (\<lambda>f. due (counter (point s)) f \<le> 0) (fences (point s)) \<and> sorted (map (due (counter (point s))) fs)
        \<and> (\<forall>f \<in> set (fences sp). 0 < due (counter sp) f)" by blast
  qed
qed

text \<open>
  C15. Through any sequence of adding and removing fences of one syncpoint, counting, and interrupts, every fence added is pending, removed or
  signalled, and exactly one of these; it is signalled only when the counter has reached its threshold, wrap-around
  included; while a pending fence is due the hardware is set to raise the interrupt, and the handler then
  signals exactly the fences that are due, in the order of their thresholds. A fence is added once, and the thresholds of
  a fence when it is added, and of the pending fences when the counter goes on, are less than 2^30 increments from the counter.
\<close>

theorem host1x_fences_signalled:
  assumes "fence_step\<^sup>*\<^sup>* (fresh_history v) s"
  shows "mset (added s) = mset (fences (point s)) + mset (removed s) + mset (map snd (signalled s)) \<and> distinct (added s)
    \<and> (\<forall>(c, f) \<in> set (signalled s). due c f \<le> 0)
    \<and> (\<forall>f \<in> set (fences (point s)). due (counter (point s)) f \<le> 0 \<longrightarrow> triggered (point s))
    \<and> (int_status (point s) \<longrightarrow> (\<exists>fs sp. syncpt_thresh_isr 1 0 ([], [point s]) = (fs, [sp])
        \<and> fs = filter (\<lambda>f. due (counter (point s)) f \<le> 0) (fences (point s)) \<and> sorted (map (due (counter (point s))) fs)
        \<and> (\<forall>f \<in> set (fences sp). 0 < due (counter sp) f)))"
  by (rule fences_history_sound [OF assms])

theorem host1x_fences_signalled_witness:
  "\<exists>s fs sp. fence_step\<^sup>*\<^sup>* (fresh_history 0xfffffff0) s \<and> map fence_no (fences (point s)) = [2, 1] \<and> counter (point s) = 1
     \<and> syncpt_thresh_isr 1 0 ([], [point s]) = (fs, [sp]) \<and> map fence_no fs = [2]"
proof -
  let ?f1 = "\<lparr>fence_no = 1, threshold = 5\<rparr>" and ?f2 = "\<lparr>fence_no = 2, threshold = 0xffffffff\<rparr>"
  define s0 where "s0 = fresh_history 0xfffffff0"
  define s1 where "s1 = s0\<lparr>point := host1x_intr_add_fence_locked ?f1 (point s0), added := ?f1 # added s0\<rparr>"
  define s2 where "s2 = s1\<lparr>point := host1x_intr_add_fence_locked ?f2 (point s1), added := ?f2 # added s1\<rparr>"
  define s3 where "s3 = s2\<lparr>point := (point s2)\<lparr>counter := counter (point s2) + 0x11\<rparr>\<rparr>"
  define s4 where "s4 = s3\<lparr>point := (point s3)\<lparr>int_status := True\<rparr>\<rparr>"
  note ev = fresh_history_def host1x_intr_add_fence_locked_def host1x_intr_update_hw_state_def host1x_intr_add_fence_to_list_def
    host1x_intr_enable_syncpt_intr_def host1x_intr_set_syncpt_threshold_def
  have e: "point s2 = \<lparr>counter = 0xfffffff0, min_val = 0xfffffff0, fences = [?f2, ?f1], int_thresh = 0xffffffff, int_enabled = True, int_status = False\<rparr>"
    by (simp add: s2_def s1_def s0_def ev)
  have "fence_step s0 s1" unfolding s1_def by (rule Add) (simp_all add: s0_def fresh_history_def near_def due_def)
  moreover have "fence_step s1 s2" unfolding s2_def by (rule Add) (simp_all add: s1_def s0_def ev near_def due_def)
  moreover have "fence_step s2 s3" unfolding s3_def by (rule Count) (simp add: e near_def due_def)
  moreover have "fence_step s3 s4" unfolding s4_def by (rule Raise) (simp add: s3_def e triggered_def)
  ultimately have r: "fence_step\<^sup>*\<^sup>* (fresh_history 0xfffffff0) s4" unfolding s0_def by (meson rtranclp.rtrancl_into_rtrancl rtranclp.rtrancl_refl)
  have p: "int_status (point s4)" "fences (point s4) = [?f2, ?f1]" "counter (point s4) = 1" by (simp_all add: s4_def s3_def e)
  from host1x_fences_signalled [OF r] p(1) obtain fs sp where i: "syncpt_thresh_isr 1 0 ([], [point s4]) = (fs, [sp])"
    "fs = filter (\<lambda>f. due (counter (point s4)) f \<le> 0) (fences (point s4))" by blast
  then have "map fence_no fs = [2]" by (simp add: p due_def)
  with r i p show ?thesis by (intro exI [of _ s4] exI [of _ fs] exI [of _ sp]) simp
qed

text \<open>With one handler for each line, every syncpoint is served by the line its interrupts go to, and by no other.\<close>

lemma isr_serves_line:
  assumes "offset < irqs" "syncpt_thresh_isr irqs offset (sg, sps) = (sg', sps')"
  shows "sps' = map (\<lambda>n. if syncpt_intr_dest irqs n = offset \<and> int_status (sps ! n) then snd (served (sps ! n)) else sps ! n) [0..<length sps]"
    "set sg' = set sg \<union> (\<Union>n \<in> {n. n < length sps \<and> syncpt_intr_dest irqs n = offset \<and> int_status (sps ! n)}. set (fst (served (sps ! n))))"
  using isr_loop_result [of irqs offset sg sps] assms by (simp_all add: syncpt_thresh_isr_def on_line_dest)

end
