(* ===== verification/Drm_Submit.thy ===== *)
theory Drm_Submit
  imports Drm_Firewall Host1x_Job
begin


text \<open>
  Submission of a job through the DRM driver (\<open>gpu/drm/tegra/submit.c\<close>): the copy of the command stream, the mappings
  that the job uses and the addresses patched into the stream, the commands of the job, and the way through the ioctl with
  its error paths.

  \<open>drm_world\<close> counts what the driver holds: references, memory, mappings for DMA. What user memory contains, what
  allocations and other parts of the kernel answer is the record \<open>submit_env\<close>. \<open>None\<close> is a shift by the width of the address or more,
  an error pointer that is used as a fence, or an access outside of an array.
\<close>

subsection \<open>Arguments, context and resources\<close>

record drm_tegra_submit_buf =
  buf_mapping :: u32
  buf_flags :: u32
  buf_target_offset :: u64
  gather_offset_words :: u32
  buf_shift :: u32

abbreviation (input) DRM_TEGRA_SUBMIT_RELOC_SECTOR_LAYOUT :: u32 where "DRM_TEGRA_SUBMIT_RELOC_SECTOR_LAYOUT \<equiv> 1"
abbreviation (input) DRM_TEGRA_SUBMIT_SECONDARY_SYNCPT :: u32 where "DRM_TEGRA_SUBMIT_SECONDARY_SYNCPT \<equiv> 1"
abbreviation (input) DRM_TEGRA_SUBMIT_CMD_GATHER_UPTR :: u32 where "DRM_TEGRA_SUBMIT_CMD_GATHER_UPTR \<equiv> 0"
abbreviation (input) DRM_TEGRA_SUBMIT_CMD_WAIT_SYNCPT :: u32 where "DRM_TEGRA_SUBMIT_CMD_WAIT_SYNCPT \<equiv> 1"
abbreviation (input) DRM_TEGRA_SUBMIT_CMD_WAIT_SYNCPT_RELATIVE :: u32 where "DRM_TEGRA_SUBMIT_CMD_WAIT_SYNCPT_RELATIVE \<equiv> 2"

text \<open>The words of the union: a gather has its number of words first, a wait the syncpoint and the value.\<close>

record drm_tegra_submit_cmd =
  cmd_type :: u32
  cmd_flags :: u32
  cmd_word0 :: u32
  cmd_word1 :: u32
  cmd_word2 :: u32
  cmd_word3 :: u32

record drm_tegra_channel_submit =
  sub_context :: u32
  num_bufs :: u32
  num_cmds :: u32
  gather_data_words :: u32
  syncobj_in :: u32
  syncobj_out :: u32
  syncpt_id :: u32
  syncpt_flags :: u32
  syncpt_increments :: u32
  sub_flags :: u32
  secondary_syncpt_id :: u32

text \<open>A mapping is a number; \<open>mapping_of\<close> gives its contents. \<open>ctx_memory\<close>: the context has a memory context.\<close>

record tegra_drm_context =
  ctx_client :: tegra_drm_client
  ctx_mappings :: "u32 \<Rightarrow> nat option"
  ctx_memory :: bool

record drm_world =
  map_refs :: "nat \<Rightarrow> int"
  sp_refs :: "u32 \<Rightarrow> int"
  syncobj_refs :: "u32 \<Rightarrow> int"
  memctx_refs :: int
  pm_usage :: int
  heap :: int
  dma_live :: int
  fences_live :: int
  fpriv_locked :: bool
  hx :: host1x_world

record submit_env =
  mapping_of :: "nat \<Rightarrow> tegra_drm_mapping"
  contexts :: "u32 \<Rightarrow> tegra_drm_context option"
  syncpoints :: "u32 \<Rightarrow> bool"
  stack_junk :: int
  find_fence :: int
  fence_wait :: int
  find_syncobj :: "u32 \<Rightarrow> bool"
  mem_bo :: bool
  dma_gather :: bool
  user_gather :: "u32 list option"
  mem_job_data :: bool
  config_tracing :: bool
  has_job_timestamping :: "(int \<times> bool) option"
  dma_timestamps :: "u64 option"
  mem_bufs :: bool
  user_bufs :: "drm_tegra_submit_buf list option"
  mem_mappings :: bool
  mem_cmds :: bool
  user_cmds :: "drm_tegra_submit_cmd list option"
  mem_job :: bool
  job_pin_env :: pin_env
  get_streamid_offset :: "int option"
  can_use_memory_ctx :: "(int \<times> bool) option"
  pm_enabled :: bool
  pm_resume :: int
  job_submit :: int
  fence_created :: "int option"
  gather_id :: nat

text \<open>The job data (\<open>struct tegra_drm_submit_data\<close>); \<open>None\<close> is a null pointer.\<close>

record tegra_drm_submit_data =
  used_mappings :: "(nat \<times> u32) list option"
  timestamps :: "u64 option"

definition mapping_get :: "nat \<Rightarrow> drm_world \<Rightarrow> drm_world" where
  "mapping_get m w = w\<lparr>map_refs := (map_refs w)(m := map_refs w m + 1)\<rparr>"

definition tegra_drm_mapping_put :: "nat \<Rightarrow> drm_world \<Rightarrow> drm_world" where
  "tegra_drm_mapping_put m w = w\<lparr>map_refs := (map_refs w)(m := map_refs w m - 1)\<rparr>"

definition tegra_drm_mapping_get :: "tegra_drm_context \<Rightarrow> u32 \<Rightarrow> drm_world \<Rightarrow> nat option \<times> drm_world" where
  "tegra_drm_mapping_get ctx idn w =
     (case ctx_mappings ctx idn of None \<Rightarrow> (None, w) | Some m \<Rightarrow> (Some m, mapping_get m w))"

definition on_hx :: "(host1x_world \<Rightarrow> host1x_world) \<Rightarrow> drm_world \<Rightarrow> drm_world" where
  "on_hx f w = w\<lparr>hx := f (hx w)\<rparr>"

text \<open>The gather buffer is freed with its last reference.\<close>

definition gather_bo_put :: "submit_env \<Rightarrow> drm_world \<Rightarrow> drm_world" where
  "gather_bo_put env w =
     (let w = on_hx (bo_put (gather_id env)) w
      in if bo_refs (hx w) (gather_id env) = 0 then w\<lparr>heap := heap w - 1, dma_live := dma_live w - 1\<rparr> else w)"

text \<open>
  A copy of a user array of \<open>count\<close> elements of \<open>sz\<close> bytes: an error, or the elements and the world with the copy
  on the heap.
\<close>

definition alloc_copy_user_array :: "bool \<Rightarrow> 'a list option \<Rightarrow> u32 \<Rightarrow> nat \<Rightarrow> drm_world \<Rightarrow> (int + 'a list) \<times> drm_world" where
  "alloc_copy_user_array mem user count sz w =
     (if unat count * sz > 0x4000 then (Inl (- E2BIG), w)
      else if \<not> mem then (Inl (- ENOMEM), w)
      else case user of
        None \<Rightarrow> (Inl (- EFAULT), w)
      | Some xs \<Rightarrow> (Inr xs, w\<lparr>heap := heap w + 1\<rparr>))"

definition kfree :: "drm_world \<Rightarrow> drm_world" where
  "kfree w = w\<lparr>heap := heap w - 1\<rparr>"

definition submit_copy_gather_data :: "submit_env \<Rightarrow> drm_tegra_channel_submit \<Rightarrow> drm_world \<Rightarrow> int \<times> drm_world" where
  "submit_copy_gather_data env args w =
     (if gather_data_words args = 0 then (- EINVAL, w)
      else if \<not> mem_bo env then (- ENOMEM, w)
      else if \<not> dma_gather env then (- ENOMEM, w)
      else case user_gather env of
        None \<Rightarrow> (- EFAULT, w)
      | Some ws \<Rightarrow> (0, w\<lparr>heap := heap w + 1, dma_live := dma_live w + 1,
            hx := (hx w)\<lparr>bo_refs := (bo_refs (hx w))(gather_id env := 1), bo_data := (bo_data (hx w))(gather_id env := ws)\<rparr>\<rparr>))"

subsection \<open>Mappings and relocations\<close>

text \<open>\<open>CONFIG_ARCH_DMA_ADDR_T_64BIT\<close> is set on the 64-bit machines that the driver runs on.\<close>

definition submit_write_reloc :: "u32 list \<Rightarrow> drm_tegra_submit_buf \<Rightarrow> tegra_drm_mapping \<Rightarrow> (int \<times> u32 list) option" where
  "submit_write_reloc data buf m =
     (let iova = iova m + buf_target_offset buf;
          iova = (if buf_flags buf AND DRM_TEGRA_SUBMIT_RELOC_SECTOR_LAYOUT \<noteq> 0 then iova OR push_bit 39 1 else iova)
      in if 64 \<le> unat (buf_shift buf) then None
         else if length data \<le> unat (gather_offset_words buf) then Some (- EINVAL, data)
         else Some (0, data[unat (gather_offset_words buf) := ucast (drop_bit (unat (buf_shift buf)) iova)]))"

fun drop_refs :: "(nat \<times> u32) list \<Rightarrow> drm_world \<Rightarrow> drm_world" where
  "drop_refs [] w = w"
| "drop_refs ((m, fl) # ms) w = tegra_drm_mapping_put m (drop_refs ms w)"

text \<open>The loop over the buffers: the mappings taken so far, in order, and the stream.\<close>

fun process_bufs_loop :: "submit_env \<Rightarrow> tegra_drm_context \<Rightarrow> drm_tegra_submit_buf list \<Rightarrow> (nat \<times> u32) list \<Rightarrow> u32 list \<Rightarrow> drm_world
    \<Rightarrow> (int \<times> (nat \<times> u32) list \<times> u32 list \<times> drm_world) option" where
  "process_bufs_loop env ctx [] taken data w = Some (0, taken, data, w)"
| "process_bufs_loop env ctx (buf # bufs) taken data w =
     (if buf_flags buf AND NOT DRM_TEGRA_SUBMIT_RELOC_SECTOR_LAYOUT \<noteq> 0 then Some (- EINVAL, taken, data, w)
      else case tegra_drm_mapping_get ctx (buf_mapping buf) w of
        (None, w) \<Rightarrow> Some (- EINVAL, taken, data, w)
      | (Some m, w) \<Rightarrow> do {
          (err, data) \<leftarrow> submit_write_reloc data buf (mapping_of env m);
          if err \<noteq> 0 then Some (err, taken, data, tegra_drm_mapping_put m w)
          else process_bufs_loop env ctx bufs (taken @ [(m, buf_flags buf)]) data w
        })"

definition submit_process_bufs :: "submit_env \<Rightarrow> tegra_drm_context \<Rightarrow> drm_tegra_channel_submit \<Rightarrow> tegra_drm_submit_data
    \<Rightarrow> drm_world \<Rightarrow> (int \<times> tegra_drm_submit_data \<times> drm_world) option" where
  "submit_process_bufs env ctx args jd w =
     (case alloc_copy_user_array (mem_bufs env) (user_bufs env) (num_bufs args) 24 w of
        (Inl err, w) \<Rightarrow> Some (err, jd, w)
      | (Inr bufs, w) \<Rightarrow>
          if \<not> mem_mappings env then Some (- ENOMEM, jd, kfree w)
          else do {
            let w = w\<lparr>heap := heap w + 1\<rparr>;
            (err, taken, data, w) \<leftarrow> process_bufs_loop env ctx bufs [] (bo_data (hx w) (gather_id env)) w;
            let w = on_hx (\<lambda>h. h\<lparr>bo_data := (bo_data h)(gather_id env := data)\<rparr>) w;
            if err \<noteq> 0 then Some (err, jd\<lparr>used_mappings := None\<rparr>, kfree (kfree (drop_refs taken w)))
            else Some (0, jd\<lparr>used_mappings := Some taken\<rparr>, kfree w)
          })"

subsection \<open>The commands of the job\<close>

definition sp_get :: "u32 \<Rightarrow> drm_world \<Rightarrow> drm_world" where
  "sp_get i w = w\<lparr>sp_refs := (sp_refs w)(i := sp_refs w i + 1)\<rparr>"

definition sp_put :: "u32 option \<Rightarrow> drm_world \<Rightarrow> drm_world" where
  "sp_put i w = (case i of None \<Rightarrow> w | Some i \<Rightarrow> w\<lparr>sp_refs := (sp_refs w)(i := sp_refs w i - 1)\<rparr>)"

definition submit_get_syncpt :: "submit_env \<Rightarrow> drm_tegra_channel_submit \<Rightarrow> host1x_job \<Rightarrow> drm_world \<Rightarrow> int \<times> host1x_job \<times> drm_world" where
  "submit_get_syncpt env args job w =
     (if syncpt_flags args \<noteq> 0 then (- EINVAL, job, w)
      else if \<not> syncpoints env (syncpt_id args) then (- EINVAL, job, w)
      else
        let job = job\<lparr>job_syncpt := Some (syncpt_id args), job_syncpt_incrs := syncpt_increments args\<rparr>;
            w = sp_get (syncpt_id args) w
        in if sub_flags args AND DRM_TEGRA_SUBMIT_SECONDARY_SYNCPT = 0 then (0, job, w)
           else if \<not> syncpoints env (secondary_syncpt_id args) then (- EINVAL, job, w)
           else (0, job\<lparr>job_secondary_syncpt := Some (secondary_syncpt_id args)\<rparr>, sp_get (secondary_syncpt_id args) w))"

text \<open>The error, the job, the place of the next gather and the class.\<close>

definition submit_job_add_gather :: "tegra_drm_client \<Rightarrow> u32 list \<Rightarrow> nat \<Rightarrow> tegra_drm_mapping list \<Rightarrow> drm_tegra_submit_cmd
    \<Rightarrow> host1x_job \<Rightarrow> u32 \<Rightarrow> u32 \<Rightarrow> (int \<times> host1x_job \<times> u32 \<times> u32) option" where
  "submit_job_add_gather client data bo ms cmd job offset class =
     (if cmd_word1 cmd \<noteq> 0 \<or> cmd_word2 cmd \<noteq> 0 \<or> cmd_word3 cmd \<noteq> 0 then Some (- EINVAL, job, offset, class)
      else if cmd_word0 cmd > 16383 then Some (- EINVAL, job, offset, class)
      else if unat offset + unat (cmd_word0 cmd) \<ge> 2 ^ 32 then Some (- EINVAL, job, offset, class)
      else
        let next_offset = offset + cmd_word0 cmd
        in if unat next_offset > length data then Some (- EINVAL, job, offset, class)
           else do {
             (err, class) \<leftarrow> tegra_drm_fw_validate client data offset (cmd_word0 cmd) ms class;
             if err \<noteq> 0 then Some (- EINVAL, job, offset, class)
             else do {
               job \<leftarrow> host1x_job_add_gather job bo (cmd_word0 cmd) (offset * 4);
               Some (0, job, next_offset, class)
             }
           })"

abbreviation (input) FALCON_UCLASS_METHOD_OFFSET :: u32 where "FALCON_UCLASS_METHOD_OFFSET \<equiv> 0x40"
abbreviation (input) FALCON_UCLASS_METHOD_DATA :: u32 where "FALCON_UCLASS_METHOD_DATA \<equiv> 0x44"
abbreviation (input) FALCON_METHOD_TSP :: u32 where "FALCON_METHOD_TSP \<equiv> 0xc8"

fun create_job_loop :: "drm_tegra_channel_submit \<Rightarrow> tegra_drm_client \<Rightarrow> u32 list \<Rightarrow> nat \<Rightarrow> tegra_drm_mapping list \<Rightarrow> u64 option
    \<Rightarrow> drm_tegra_submit_cmd list \<Rightarrow> bool \<Rightarrow> host1x_job \<Rightarrow> u32 \<Rightarrow> u32 \<Rightarrow> (int \<times> host1x_job \<times> u32) option" where
  "create_job_loop args client data bo ms ts [] first_gather job offset class = Some (0, job, offset)"
| "create_job_loop args client data bo ms ts (cmd # cmds) first_gather job offset class =
     (if cmd_flags cmd \<noteq> 0 then Some (- EINVAL, job, offset)
      else if cmd_type cmd = DRM_TEGRA_SUBMIT_CMD_GATHER_UPTR then do {
        (first_gather, job) \<leftarrow> (case ts of
            Some ts_iova \<Rightarrow>
              if first_gather then do {
                job \<leftarrow> host1x_job_add_reg_write job FALCON_UCLASS_METHOD_OFFSET FALCON_METHOD_TSP;
                job \<leftarrow> host1x_job_add_reg_write job FALCON_UCLASS_METHOD_DATA (ucast (drop_bit 8 ts_iova));
                Some (False, job)
              }
              else Some (first_gather, job)
          | None \<Rightarrow> Some (first_gather, job));
        (err, job, offset, class) \<leftarrow> submit_job_add_gather client data bo ms cmd job offset class;
        if err \<noteq> 0 then Some (err, job, offset)
        else create_job_loop args client data bo ms ts cmds first_gather job offset class
      }
      else if cmd_type cmd = DRM_TEGRA_SUBMIT_CMD_WAIT_SYNCPT then
        (if cmd_word2 cmd \<noteq> 0 \<or> cmd_word3 cmd \<noteq> 0 then Some (- EINVAL, job, offset)
         else do {
           job \<leftarrow> host1x_job_add_wait job (cmd_word0 cmd) (cmd_word1 cmd) False class;
           create_job_loop args client data bo ms ts cmds first_gather job offset class
         })
      else if cmd_type cmd = DRM_TEGRA_SUBMIT_CMD_WAIT_SYNCPT_RELATIVE then
        (if cmd_word2 cmd \<noteq> 0 \<or> cmd_word3 cmd \<noteq> 0 then Some (- EINVAL, job, offset)
         else if cmd_word0 cmd \<noteq> syncpt_id args then Some (- EINVAL, job, offset)
         else do {
           job \<leftarrow> host1x_job_add_wait job (cmd_word0 cmd) (cmd_word1 cmd) True class;
           create_job_loop args client data bo ms ts cmds first_gather job offset class
         })
      else Some (- EINVAL, job, offset))"

text \<open>
  \<open>job_free\<close>: what the last reference to a job takes with it. \<open>released\<close> says that \<open>job->release\<close> is set, \<open>memctx\<close> that the
  job has a memory context. The fence of a job belongs to the channel.
\<close>

definition release_job :: "submit_env \<Rightarrow> bool \<Rightarrow> tegra_drm_submit_data \<Rightarrow> drm_world \<Rightarrow> drm_world" where
  "release_job env memctx jd w =
     (let w = (if memctx then w\<lparr>memctx_refs := memctx_refs w - 1\<rparr> else w);
          w = (if config_tracing env \<and> timestamps jd \<noteq> None then w\<lparr>dma_live := dma_live w - 1\<rparr> else w);
          w = (case used_mappings jd of None \<Rightarrow> w | Some ms \<Rightarrow> kfree (drop_refs ms w));
          w = kfree w
      in if pm_enabled env then w\<lparr>pm_usage := pm_usage w - 1\<rparr> else w)"

definition job_free :: "submit_env \<Rightarrow> host1x_job \<Rightarrow> bool \<Rightarrow> tegra_drm_submit_data option \<Rightarrow> drm_world \<Rightarrow> drm_world" where
  "job_free env job memctx released w =
     (let w = (case released of None \<Rightarrow> w | Some jd \<Rightarrow> release_job env memctx jd w)
      in kfree (sp_put (job_secondary_syncpt job) (sp_put (job_syncpt job) w)))"

definition submit_create_job :: "submit_env \<Rightarrow> tegra_drm_context \<Rightarrow> drm_tegra_channel_submit \<Rightarrow> tegra_drm_submit_data
    \<Rightarrow> drm_tegra_submit_cmd list \<Rightarrow> drm_world \<Rightarrow> ((int + host1x_job) \<times> drm_world) option" where
  "submit_create_job env ctx args jd cmds w =
     (let class = base_class (ctx_client ctx);
          ms = map (\<lambda>(m, fl). mapping_of env m) (the (used_mappings jd))
      in if timestamps jd \<noteq> None \<and> unat (num_cmds args) + 2 \<ge> 2 ^ 32 then Some (Inl (- EINVAL), w)
         else
           let needed_cmds = (if timestamps jd \<noteq> None then num_cmds args + 2 else num_cmds args)
           in case host1x_job_alloc False (mem_job env) needed_cmds 0 True of
             None \<Rightarrow> Some (Inl (- ENOMEM), w)
           | Some job \<Rightarrow>
               (case submit_get_syncpt env args job (w\<lparr>heap := heap w + 1\<rparr>) of (err, job, w) \<Rightarrow>
                  if err < 0 then Some (Inl err, job_free env job False None w)
                  else do {
                    let job = job\<lparr>job_class := class\<rparr>;
                    (err, job, gather_offset) \<leftarrow> create_job_loop args (ctx_client ctx) (bo_data (hx w) (gather_id env)) (gather_id env)
                      ms (timestamps jd) cmds True job 0 class;
                    if err \<noteq> 0 then Some (Inl err, job_free env job False None w)
                    else if gather_offset = 0 then Some (Inl (- EINVAL), job_free env job False None w)
                    else Some (Inr job, w)
                  }))"

definition submit_init_profiling :: "submit_env \<Rightarrow> tegra_drm_submit_data \<Rightarrow> drm_world \<Rightarrow> int \<times> tegra_drm_submit_data \<times> drm_world" where
  "submit_init_profiling env jd w =
     (case has_job_timestamping env of
        None \<Rightarrow> (0, jd, w)
      | Some (err, has) \<Rightarrow>
          if err \<noteq> 0 then (err, jd, w)
          else if \<not> has then (0, jd, w)
          else case dma_timestamps env of
            None \<Rightarrow> (- ENOMEM, jd, w)
          | Some a \<Rightarrow> (0, jd\<lparr>timestamps := Some a\<rparr>, w\<lparr>dma_live := dma_live w + 1\<rparr>))"

subsection \<open>The ioctl\<close>

text \<open>The job that was handed to the channel, with its memory context and its data.\<close>

type_synonym submitted = "(host1x_job \<times> bool \<times> tegra_drm_submit_data) option"
type_synonym submit_exit = "int \<times> submitted \<times> drm_world"

text \<open>The labels at the end of the function, the last first.\<close>

definition exit_unlock :: "u32 option \<Rightarrow> int \<Rightarrow> submitted \<Rightarrow> drm_world \<Rightarrow> submit_exit" where
  "exit_unlock so err sub w =
     (let w = (case so of None \<Rightarrow> w | Some i \<Rightarrow> w\<lparr>syncobj_refs := (syncobj_refs w)(i := syncobj_refs w i - 1)\<rparr>)
      in (err, sub, w\<lparr>fpriv_locked := False\<rparr>))"

definition exit_put_bo :: "submit_env \<Rightarrow> u32 option \<Rightarrow> int \<Rightarrow> submitted \<Rightarrow> drm_world \<Rightarrow> submit_exit" where
  "exit_put_bo env so err sub w = exit_unlock so err sub (gather_bo_put env w)"

definition exit_free_job_data :: "submit_env \<Rightarrow> u32 option \<Rightarrow> tegra_drm_submit_data option \<Rightarrow> int \<Rightarrow> submitted \<Rightarrow> drm_world \<Rightarrow> submit_exit" where
  "exit_free_job_data env so jd err sub w =
     (case jd of
        None \<Rightarrow> exit_put_bo env so err sub w
      | Some jd \<Rightarrow>
          let w = (if timestamps jd \<noteq> None then w\<lparr>dma_live := dma_live w - 1\<rparr> else w);
              w = (case used_mappings jd of None \<Rightarrow> w | Some ms \<Rightarrow> kfree (drop_refs ms w))
          in exit_put_bo env so err sub (kfree w))"

definition exit_free_cmds :: "submit_env \<Rightarrow> u32 option \<Rightarrow> tegra_drm_submit_data option \<Rightarrow> int \<Rightarrow> submitted \<Rightarrow> drm_world \<Rightarrow> submit_exit" where
  "exit_free_cmds env so jd err sub w = exit_free_job_data env so jd err sub (kfree w)"

definition exit_put_job :: "submit_env \<Rightarrow> u32 option \<Rightarrow> tegra_drm_submit_data option \<Rightarrow> host1x_job \<Rightarrow> bool
    \<Rightarrow> tegra_drm_submit_data option \<Rightarrow> int \<Rightarrow> drm_world \<Rightarrow> submit_exit" where
  "exit_put_job env so jd job memctx released err w = exit_free_cmds env so jd err None (job_free env job memctx released w)"

definition exit_unpin_job :: "submit_env \<Rightarrow> u32 option \<Rightarrow> tegra_drm_submit_data option \<Rightarrow> host1x_job \<Rightarrow> bool
    \<Rightarrow> tegra_drm_submit_data option \<Rightarrow> int \<Rightarrow> drm_world \<Rightarrow> submit_exit" where
  "exit_unpin_job env so jd job memctx released err w =
     (case host1x_job_unpin (host_domain (job_pin_env env)) job (hx w) of (job, h) \<Rightarrow>
        exit_put_job env so jd job memctx released err (w\<lparr>hx := h\<rparr>))"

definition exit_put_memory_context :: "submit_env \<Rightarrow> u32 option \<Rightarrow> tegra_drm_submit_data option \<Rightarrow> host1x_job \<Rightarrow> bool \<Rightarrow> int \<Rightarrow> drm_world \<Rightarrow> submit_exit" where
  "exit_put_memory_context env so jd job memctx err w =
     exit_unpin_job env so jd job memctx None err (if memctx then w\<lparr>memctx_refs := memctx_refs w - 1\<rparr> else w)"

text \<open>From the powered engine on: the job owns its data, is handed to the channel, and its fence to user space.\<close>

definition submit_job :: "submit_env \<Rightarrow> u32 option \<Rightarrow> tegra_drm_submit_data \<Rightarrow> host1x_job \<Rightarrow> bool \<Rightarrow> drm_world \<Rightarrow> submit_exit option" where
  "submit_job env so jd job memctx w =
     (if job_submit env \<noteq> 0 then Some (exit_unpin_job env so None job memctx (Some jd) (job_submit env) w)
      else do {
        w \<leftarrow> (case so of
            None \<Rightarrow> Some w
          | Some i \<Rightarrow> if fence_created env \<noteq> None then None else Some (w\<lparr>fences_live := fences_live w + 1\<rparr>));
        Some (exit_free_cmds env so None 0 (Some (job, memctx, jd)) w)
      })"

definition submit_power_up :: "submit_env \<Rightarrow> u32 option \<Rightarrow> tegra_drm_submit_data \<Rightarrow> host1x_job \<Rightarrow> bool \<Rightarrow> drm_world \<Rightarrow> submit_exit option" where
  "submit_power_up env so jd job memctx w =
     (if pm_enabled env then
        if pm_resume env < 0 then Some (exit_put_memory_context env so (Some jd) job memctx (pm_resume env) w)
        else submit_job env so jd job memctx (w\<lparr>pm_usage := pm_usage w + 1\<rparr>)
      else submit_job env so jd job memctx w)"

definition submit_memory_context :: "submit_env \<Rightarrow> tegra_drm_context \<Rightarrow> u32 option \<Rightarrow> tegra_drm_submit_data \<Rightarrow> host1x_job \<Rightarrow> drm_world \<Rightarrow> submit_exit option" where
  "submit_memory_context env ctx so jd job w =
     (case (ctx_memory ctx, can_use_memory_ctx env) of
        (True, Some (err, supported)) \<Rightarrow>
          if err \<noteq> 0 then Some (exit_unpin_job env so (Some jd) job False None err w)
          else if supported then submit_power_up env so jd job True (w\<lparr>memctx_refs := memctx_refs w + 1\<rparr>)
          else submit_power_up env so jd job False w
      | _ \<Rightarrow> submit_power_up env so jd job False w)"

definition submit_pin :: "submit_env \<Rightarrow> tegra_drm_context \<Rightarrow> u32 option \<Rightarrow> tegra_drm_submit_data \<Rightarrow> host1x_job \<Rightarrow> drm_world \<Rightarrow> submit_exit option" where
  "submit_pin env ctx so jd job w = do {
     (err, job, h) \<leftarrow> host1x_job_pin (job_pin_env env) job (hx w);
     let w = w\<lparr>hx := h\<rparr>;
     if err \<noteq> 0 then Some (exit_put_job env so (Some jd) job False None err w)
     else case get_streamid_offset env of
       Some err \<Rightarrow>
         if err \<noteq> 0 then Some (exit_unpin_job env so (Some jd) job False None err w) else submit_memory_context env ctx so jd job w
     | None \<Rightarrow> submit_memory_context env ctx so jd job w
   }"

definition submit_cmds :: "submit_env \<Rightarrow> tegra_drm_context \<Rightarrow> drm_tegra_channel_submit \<Rightarrow> u32 option \<Rightarrow> tegra_drm_submit_data \<Rightarrow> drm_world \<Rightarrow> submit_exit option" where
  "submit_cmds env ctx args so jd w =
     (case alloc_copy_user_array (mem_cmds env) (user_cmds env) (num_cmds args) 24 w of
        (Inl err, w) \<Rightarrow> Some (exit_free_job_data env so (Some jd) err None w)
      | (Inr cmds, w) \<Rightarrow> do {
          (r, w) \<leftarrow> submit_create_job env ctx args jd cmds w;
          case r of
            Inl err \<Rightarrow> Some (exit_free_cmds env so (Some jd) err None w)
          | Inr job \<Rightarrow> submit_pin env ctx so jd job w
        })"

definition submit_bufs :: "submit_env \<Rightarrow> tegra_drm_context \<Rightarrow> drm_tegra_channel_submit \<Rightarrow> u32 option \<Rightarrow> drm_world \<Rightarrow> submit_exit option" where
  "submit_bufs env ctx args so w =
     (if \<not> mem_job_data env then Some (exit_put_bo env so (- ENOMEM) None w)
      else
        let w = w\<lparr>heap := heap w + 1\<rparr>; jd = \<lparr>used_mappings = None, timestamps = None\<rparr>
        in case (if config_tracing env then submit_init_profiling env jd w else (0, jd, w)) of (err, jd, w) \<Rightarrow>
          if err \<noteq> 0 then Some (exit_free_job_data env so (Some jd) err None w)
          else do {
            (err, jd, w) \<leftarrow> submit_process_bufs env ctx args jd w;
            if err \<noteq> 0 then Some (exit_free_job_data env so (Some jd) err None w)
            else submit_cmds env ctx args so jd w
          })"

definition submit_syncobjs :: "submit_env \<Rightarrow> tegra_drm_context \<Rightarrow> drm_tegra_channel_submit \<Rightarrow> drm_world \<Rightarrow> submit_exit option" where
  "submit_syncobjs env ctx args w =
     (if syncobj_in args \<noteq> 0 \<and> find_fence env \<noteq> 0 then Some (exit_unlock None (find_fence env) None w)
      else if syncobj_in args \<noteq> 0 \<and> fence_wait env \<noteq> 0 then Some (exit_unlock None (fence_wait env) None w)
      else if syncobj_out args \<noteq> 0 \<and> \<not> find_syncobj env (syncobj_out args) then Some (exit_unlock None (- ENOENT) None w)
      else
        let so = (if syncobj_out args \<noteq> 0 then Some (syncobj_out args) else None);
            w = (case so of None \<Rightarrow> w | Some i \<Rightarrow> w\<lparr>syncobj_refs := (syncobj_refs w)(i := syncobj_refs w i + 1)\<rparr>)
        in case submit_copy_gather_data env args w of (err, w) \<Rightarrow>
          if err \<noteq> 0 then Some (exit_unlock so err None w) else submit_bufs env ctx args so w)"

definition tegra_drm_ioctl_channel_submit :: "submit_env \<Rightarrow> drm_tegra_channel_submit \<Rightarrow> drm_world \<Rightarrow> submit_exit option" where
  "tegra_drm_ioctl_channel_submit env args w =
     (let w = w\<lparr>fpriv_locked := True\<rparr>
      in case contexts env (sub_context args) of
           None \<Rightarrow> Some (- EINVAL, None, w\<lparr>fpriv_locked := False\<rparr>)
         | Some ctx \<Rightarrow>
             if sub_flags args AND NOT DRM_TEGRA_SUBMIT_SECONDARY_SYNCPT \<noteq> 0 then Some (exit_unlock None (stack_junk env) None w)
             else submit_syncobjs env ctx args w)"

end
