(* ===== verification/Drm_Created.thy ===== *)
theory Drm_Created
  imports Drm_Submit
begin

text \<open>
  What a job holds that \<open>submit_create_job\<close> (\<open>gpu/drm/tegra/submit.c\<close>) accepts. \<open>stream_end\<close> reads the commands of a job
  as host1x does: one after the other, each gather in the class that the one before it left.
\<close>

fun stream_end :: "tegra_drm_client \<Rightarrow> tegra_drm_mapping list \<Rightarrow> u32 list \<Rightarrow> nat \<Rightarrow> u64 option \<Rightarrow> nat \<Rightarrow> u32 \<Rightarrow> host1x_job_cmd list \<Rightarrow> nat option" where
  "stream_end client ms data bo ts n c [] = Some n"
| "stream_end client ms data bo ts n c (CMD_GATHER g # cs) =
     (if g_bo g = bo \<and> \<not> g_handled g \<and> unat (g_offset g) = 4 * n \<and> unat (g_words g) \<le> 16383 \<and> n + unat (g_words g) \<le> length data then
        (case host1x_stream c None (take (unat (g_words g)) (drop n data)) of
           None \<Rightarrow> None
         | Some acts \<Rightarrow>
             if list_all (permitted client ms) acts then stream_end client ms data bo ts (n + unat (g_words g)) (last_class c acts) cs
             else None)
      else None)"
| "stream_end client ms data bo ts n c (CMD_WAIT x # cs) =
     (if w_next_class x = c then stream_end client ms data bo ts n c cs else None)"
| "stream_end client ms data bo ts n c (CMD_REG_WRITE r # cs) =
     (case ts of
        None \<Rightarrow> None
      | Some a \<Rightarrow>
          if (rw_reg r, rw_value r) \<in> {(FALCON_UCLASS_METHOD_OFFSET, FALCON_METHOD_TSP), (FALCON_UCLASS_METHOD_DATA, ucast (drop_bit 8 a))}
          then stream_end client ms data bo ts n c cs else None)"

text \<open>
  \<open>loop_sound\<close>: the loop over the user's commands returns, adds only commands to the job, and they are sound if it
  accepts them.
\<close>

definition loop_sound :: "tegra_drm_client \<Rightarrow> tegra_drm_mapping list \<Rightarrow> u32 list \<Rightarrow> nat \<Rightarrow> u64 option \<Rightarrow> host1x_job \<Rightarrow> nat \<Rightarrow> u32
    \<Rightarrow> (int \<times> host1x_job \<times> u32) option \<Rightarrow> bool" where
  "loop_sound client ms data bo ts job n c r \<longleftrightarrow>
     (\<exists>err cs off. r = Some (err, job\<lparr>job_cmds := job_cmds job @ cs\<rparr>, off) \<and> length (job_cmds job @ cs) \<le> max_cmds job
        \<and> (err = 0 \<and> stream_end client ms data bo ts n c cs = Some (unat off) \<or> err = - EINVAL))"

lemma loop_sound_error: "length (job_cmds job) \<le> max_cmds job \<Longrightarrow> loop_sound client ms data bo ts job n c (Some (- EINVAL, job, off))"
  unfolding loop_sound_def by (intro exI [of _ "- EINVAL"] exI [of _ "[]"] exI [of _ off]) simp

lemma loop_sound_if:
  "loop_sound client ms data bo ts job n c x \<Longrightarrow> loop_sound client ms data bo ts job n c y \<Longrightarrow>
   loop_sound client ms data bo ts job n c (if b then x else y)"
  by simp

lemma loop_sound_add:
  assumes "loop_sound client ms data bo ts (job\<lparr>job_cmds := job_cmds job @ cs\<rparr>) n' c' r"
    and "\<And>ds. stream_end client ms data bo ts n c (cs @ ds) = stream_end client ms data bo ts n' c' ds"
  shows "loop_sound client ms data bo ts job n c r"
proof -
  from assms(1) obtain err ds off where r: "r = Some (err, job\<lparr>job_cmds := job_cmds job @ cs @ ds\<rparr>, off)"
    "length (job_cmds job @ cs @ ds) \<le> max_cmds job" "err = 0 \<and> stream_end client ms data bo ts n' c' ds = Some (unat off) \<or> err = - EINVAL"
    by (auto simp: loop_sound_def)
  with assms(2) show ?thesis
    unfolding loop_sound_def by (intro exI [of _ err] exI [of _ "cs @ ds"] exI [of _ off]) simp
qed

lemma job_add_room: "length (job_cmds job) < max_cmds job \<Longrightarrow> job_add cmd job = Some (job\<lparr>job_cmds := job_cmds job @ [cmd]\<rparr>)"
  by (simp add: job_add_def)

lemma add_gather_sound:
  assumes data: "length data < 2 ^ 30" and off: "unat offset \<le> length data" and room: "length (job_cmds job) < max_cmds job"
  shows "(\<exists>g c'. submit_job_add_gather client data bo ms cmd job offset c
       = Some (0, job\<lparr>job_cmds := job_cmds job @ [CMD_GATHER g]\<rparr>, offset + g_words g, c')
       \<and> unat (offset + g_words g) = unat offset + unat (g_words g) \<and> unat (offset + g_words g) \<le> length data
       \<and> (\<forall>ts ds. stream_end client ms data bo ts (unat offset) c (CMD_GATHER g # ds)
           = stream_end client ms data bo ts (unat (offset + g_words g)) c' ds))
    \<or> (\<exists>c'. submit_job_add_gather client data bo ms cmd job offset c = Some (- EINVAL, job, offset, c'))"
proof (cases "cmd_word1 cmd \<noteq> 0 \<or> cmd_word2 cmd \<noteq> 0 \<or> cmd_word3 cmd \<noteq> 0 \<or> cmd_word0 cmd > 16383
    \<or> unat offset + unat (cmd_word0 cmd) \<ge> 2 ^ 32 \<or> unat (offset + cmd_word0 cmd) > length data")
  case True
  then show ?thesis by (auto simp: submit_job_add_gather_def Let_def)
next
  case False
  let ?n = "cmd_word0 cmd" and ?g = "\<lparr>g_words = cmd_word0 cmd, g_base = 0, g_bo = bo, g_offset = offset * 4, g_handled = False\<rparr>"
  have small: "unat ?n \<le> 16383" using False by (simp add: word_le_nat_alt not_less)
  have e: "unat (offset + ?n) = unat offset + unat ?n" using False by (simp add: unat_word_ariths)
  have inside: "unat offset + unat ?n \<le> length data" using False e by simp
  have o4: "unat (offset * 4) = 4 * unat offset" using off data by (simp add: unat_word_ariths)
  obtain err c' where v: "tegra_drm_fw_validate client data offset ?n ms c = Some (err, c')"
    "case host1x_stream c None (take (unat ?n) (drop (unat offset) data)) of
        None \<Rightarrow> err = - EINVAL
      | Some acts \<Rightarrow> if list_all (permitted client ms) acts then err = 0 \<and> c' = last_class c acts else err = - EINVAL"
    using fw_validate_result [OF inside, of client ms c] data by auto
  show ?thesis
  proof (cases "err = 0")
    case True
    with v(2) obtain acts where a: "host1x_stream c None (take (unat ?n) (drop (unat offset) data)) = Some acts"
      "list_all (permitted client ms) acts" "c' = last_class c acts" by (auto split: option.splits if_splits)
    have "submit_job_add_gather client data bo ms cmd job offset c
       = Some (0, job\<lparr>job_cmds := job_cmds job @ [CMD_GATHER ?g]\<rparr>, offset + ?n, c')"
      using False v(1) True room by (simp add: submit_job_add_gather_def Let_def host1x_job_add_gather_def job_add_room)
    then show ?thesis using e inside small o4 a by (intro disjI1 exI [of _ ?g] exI [of _ c']) simp
  next
    case err: False
    with False v(1) show ?thesis by (auto simp: submit_job_add_gather_def Let_def)
  qed
qed

text \<open>Each turn of the loop, as a sound prefix of the rest.\<close>

lemma create_job_loop_sound:
  assumes data: "length data < 2 ^ 30"
  shows "unat offset \<le> length data \<Longrightarrow>
   length (job_cmds job) + length cmds + (if first \<and> ts \<noteq> None then 2 else 0) \<le> max_cmds job \<Longrightarrow>
   loop_sound client ms data bo ts job (unat offset) c (create_job_loop args client data bo ms ts cmds first job offset c)"
proof (induction cmds arbitrary: first job offset c)
  case Nil
  then show ?case unfolding loop_sound_def by (intro exI [of _ 0] exI [of _ "[]"] exI [of _ offset]) simp
next
  case (Cons cmd cmds)
  have room: "length (job_cmds job) < max_cmds job" using Cons.prems(2) by simp
  have bad: "loop_sound client ms data bo ts job (unat offset) c (Some (- EINVAL, job, offset))"
    using room by (intro loop_sound_error) simp
  have wait: "loop_sound client ms data bo ts job (unat offset) c
      (do { job \<leftarrow> host1x_job_add_wait job (cmd_word0 cmd) (cmd_word1 cmd) rel c;
            create_job_loop args client data bo ms ts cmds first job offset c })" for rel
  proof -
    let ?cmd = "CMD_WAIT \<lparr>w_id = cmd_word0 cmd, w_threshold = cmd_word1 cmd, w_next_class = c, w_relative = rel\<rparr>"
    have "loop_sound client ms data bo ts (job\<lparr>job_cmds := job_cmds job @ [?cmd]\<rparr>) (unat offset) c
        (create_job_loop args client data bo ms ts cmds first (job\<lparr>job_cmds := job_cmds job @ [?cmd]\<rparr>) offset c)"
      using Cons.prems by (intro Cons.IH) auto
    from loop_sound_add [OF this] show ?thesis by (simp add: host1x_job_add_wait_def job_add_room [OF room])
  qed
  have gather: "loop_sound client ms data bo ts j (unat offset) c
      (do { (err, job, offset, class) \<leftarrow> submit_job_add_gather client data bo ms cmd j offset c;
            if err \<noteq> 0 then Some (err, job, offset)
            else create_job_loop args client data bo ms ts cmds f job offset class })"
    if j: "length (job_cmds j) + Suc (length cmds) + (if f \<and> ts \<noteq> None then 2 else 0) \<le> max_cmds j" for j f
  proof -
    have r: "length (job_cmds j) < max_cmds j" using j by simp
    from add_gather_sound [OF data Cons.prems(1) r] consider
      (ok) g c' where "submit_job_add_gather client data bo ms cmd j offset c
           = Some (0, j\<lparr>job_cmds := job_cmds j @ [CMD_GATHER g]\<rparr>, offset + g_words g, c')"
         "unat (offset + g_words g) \<le> length data"
         "\<forall>ts ds. stream_end client ms data bo ts (unat offset) c (CMD_GATHER g # ds)
           = stream_end client ms data bo ts (unat (offset + g_words g)) c' ds"
    | (err) c' where "submit_job_add_gather client data bo ms cmd j offset c = Some (- EINVAL, j, offset, c')" by blast
    then show ?thesis
    proof cases
      case ok
      have "loop_sound client ms data bo ts (j\<lparr>job_cmds := job_cmds j @ [CMD_GATHER g]\<rparr>) (unat (offset + g_words g)) c'
        (create_job_loop args client data bo ms ts cmds f (j\<lparr>job_cmds := job_cmds j @ [CMD_GATHER g]\<rparr>) (offset + g_words g) c')"
        using ok(2) j by (intro Cons.IH) auto
      from loop_sound_add [OF this] ok(1,3) show ?thesis by simp
    next
      case err
      with loop_sound_error [of j] r show ?thesis by simp
    qed
  qed
  have stamped: "loop_sound client ms data bo ts job (unat offset) c
      (do { (f, job) \<leftarrow> do { job \<leftarrow> host1x_job_add_reg_write job FALCON_UCLASS_METHOD_OFFSET FALCON_METHOD_TSP;
                             job \<leftarrow> host1x_job_add_reg_write job FALCON_UCLASS_METHOD_DATA (ucast (drop_bit 8 a));
                             Some (False, job) };
            (err, job, offset, class) \<leftarrow> submit_job_add_gather client data bo ms cmd job offset c;
            if err \<noteq> 0 then Some (err, job, offset)
            else create_job_loop args client data bo ms ts cmds f job offset class })"
    if "first" "ts = Some a" for a
  proof -
    let ?r1 = "CMD_REG_WRITE \<lparr>rw_reg = FALCON_UCLASS_METHOD_OFFSET, rw_value = FALCON_METHOD_TSP\<rparr>"
    let ?r2 = "CMD_REG_WRITE \<lparr>rw_reg = FALCON_UCLASS_METHOD_DATA, rw_value = ucast (drop_bit 8 a)\<rparr>"
    have n: "length (job_cmds job) + 3 + length cmds \<le> max_cmds job" using Cons.prems(2) that by simp
    have "length (job_cmds (job\<lparr>job_cmds := job_cmds job @ [?r1, ?r2]\<rparr>)) + Suc (length cmds) + (if False \<and> ts \<noteq> None then 2 else 0)
        \<le> max_cmds (job\<lparr>job_cmds := job_cmds job @ [?r1, ?r2]\<rparr>)" using n by simp
    from loop_sound_add [OF gather [OF this], of "unat offset" c] n that show ?thesis
      by (simp add: host1x_job_add_reg_write_def job_add_def)
  qed
  have sz: "length (job_cmds job) + Suc (length cmds) + (if first \<and> ts \<noteq> None then 2 else 0) \<le> max_cmds job" using Cons.prems(2) by simp
  have branch: "loop_sound client ms data bo ts job (unat offset) c
      (do { (first_gather, job) \<leftarrow> (case ts of
              Some ts_iova \<Rightarrow>
                if first then do {
                  job \<leftarrow> host1x_job_add_reg_write job FALCON_UCLASS_METHOD_OFFSET FALCON_METHOD_TSP;
                  job \<leftarrow> host1x_job_add_reg_write job FALCON_UCLASS_METHOD_DATA (ucast (drop_bit 8 ts_iova));
                  Some (False, job)
                }
                else Some (first, job)
            | None \<Rightarrow> Some (first, job));
            (err, job, offset, class) \<leftarrow> submit_job_add_gather client data bo ms cmd job offset c;
            if err \<noteq> 0 then Some (err, job, offset)
            else create_job_loop args client data bo ms ts cmds first_gather job offset class })"
  proof (cases "first \<and> ts \<noteq> None")
    case True
    with stamped show ?thesis by auto
  next
    case False
    then have "(case ts of
              Some ts_iova \<Rightarrow>
                if first then do {
                  job \<leftarrow> host1x_job_add_reg_write job FALCON_UCLASS_METHOD_OFFSET FALCON_METHOD_TSP;
                  job \<leftarrow> host1x_job_add_reg_write job FALCON_UCLASS_METHOD_DATA (ucast (drop_bit 8 ts_iova));
                  Some (False, job)
                }
                else Some (first, job)
            | None \<Rightarrow> Some (first, job)) = Some (first, job)" by (auto split: option.splits)
    with gather [OF sz] show ?thesis by simp
  qed
  show ?case
    unfolding create_job_loop.simps by (intro loop_sound_if bad wait branch)
qed

text \<open>
  \<open>job_sound\<close>: the commands read to their end, which is behind the start; no relocations and no second firewall; the references
  that the job has.
\<close>

definition job_sound :: "submit_env \<Rightarrow> tegra_drm_context \<Rightarrow> drm_tegra_channel_submit \<Rightarrow> tegra_drm_submit_data \<Rightarrow> u32 list \<Rightarrow> host1x_job \<Rightarrow> bool" where
  "job_sound env ctx args jd data job \<longleftrightarrow>
     (\<exists>n > 0. stream_end (ctx_client ctx) (map (\<lambda>(m, fl). mapping_of env m) (the (used_mappings jd))) data (gather_id env) (timestamps jd)
        0 (base_class (ctx_client ctx)) (job_cmds job) = Some n)
     \<and> length (job_cmds job) \<le> max_cmds job \<and> length (addr_phys job) = max_cmds job
     \<and> job_relocs job = [] \<and> max_relocs job = 0 \<and> \<not> enable_firewall job \<and> job_unpins job = [] \<and> gather_copy_size job = 0
     \<and> job_class job = base_class (ctx_client ctx) \<and> job_syncpt job = Some (syncpt_id args) \<and> job_syncpt_incrs job = syncpt_increments args
     \<and> syncpoints env (syncpt_id args)
     \<and> job_secondary_syncpt job = (if sub_flags args AND DRM_TEGRA_SUBMIT_SECONDARY_SYNCPT = 0 then None else Some (secondary_syncpt_id args))"

definition job_refs :: "host1x_job \<Rightarrow> drm_world \<Rightarrow> drm_world" where
  "job_refs job w = (case job_secondary_syncpt job of None \<Rightarrow> id | Some i \<Rightarrow> sp_get i)
     ((case job_syncpt job of None \<Rightarrow> id | Some i \<Rightarrow> sp_get i) (w\<lparr>heap := heap w + 1\<rparr>))"

lemma sp_put_get [simp]: "sp_put (Some i) (sp_get i w) = w"
  by (simp add: sp_put_def sp_get_def)

lemma job_free_refs: "job_free env job memctx None (job_refs job w) = w"
  by (auto simp: job_free_def job_refs_def kfree_def sp_put_def sp_get_def fun_eq_iff split: option.splits)

lemma job_refs_hx [simp]: "hx (job_refs job w) = hx w"
  by (simp add: job_refs_def sp_get_def split: option.splits)

lemma job_refs_cong:
  "job_syncpt job' = job_syncpt job \<Longrightarrow> job_secondary_syncpt job' = job_secondary_syncpt job \<Longrightarrow> job_refs job' w = job_refs job w"
  by (simp add: job_refs_def)

lemma get_syncpt_result:
  assumes "job_syncpt job = None" "job_secondary_syncpt job = None"
  shows "\<exists>err job'. submit_get_syncpt env args job (w\<lparr>heap := heap w + 1\<rparr>) = (err, job', job_refs job' w)
    \<and> (err = - EINVAL \<or> err = 0 \<and> syncpoints env (syncpt_id args) \<and>
        job' = job\<lparr>job_syncpt := Some (syncpt_id args), job_syncpt_incrs := syncpt_increments args,
          job_secondary_syncpt := if sub_flags args AND DRM_TEGRA_SUBMIT_SECONDARY_SYNCPT = 0 then None else Some (secondary_syncpt_id args)\<rparr>)"
  using assms by (cases job) (simp add: submit_get_syncpt_def Let_def job_refs_def)

lemma create_job_result:
  assumes data: "length (bo_data (hx w) (gather_id env)) < 2 ^ 30" and cmds: "length cmds = unat (num_cmds args)"
  shows "(\<exists>job. submit_create_job env ctx args jd cmds w = Some (Inr job, job_refs job w)
      \<and> job_sound env ctx args jd (bo_data (hx w) (gather_id env)) job)
    \<or> submit_create_job env ctx args jd cmds w \<in> {Some (Inl (- EINVAL), w), Some (Inl (- ENOMEM), w)}"
proof (cases "timestamps jd \<noteq> None \<and> unat (num_cmds args) + 2 \<ge> 2 ^ 32 \<or> \<not> mem_job env")
  case True
  then show ?thesis by (auto simp: submit_create_job_def Let_def host1x_job_alloc_def)
next
  case False
  let ?data = "bo_data (hx w) (gather_id env)" and ?c = "base_class (ctx_client ctx)"
  let ?ms = "map (\<lambda>(m, fl). mapping_of env m) (the (used_mappings jd))"
  let ?n = "if timestamps jd \<noteq> None then num_cmds args + 2 else num_cmds args"
  have fits: "(timestamps jd \<noteq> None \<and> unat (num_cmds args) + 2 \<ge> 2 ^ 32) = False" using False by blast
  have n: "unat ?n = unat (num_cmds args) + (if timestamps jd \<noteq> None then 2 else 0)"
    using False unat_less_size [of "num_cmds args"] by (auto simp: unat_word_ariths not_le)
  obtain job0 where al: "host1x_job_alloc False (mem_job env) ?n 0 True = Some job0"
    and j0: "job_syncpt job0 = None" "job_secondary_syncpt job0 = None" "job_cmds job0 = []" "max_cmds job0 = unat ?n"
      "job_relocs job0 = []" "max_relocs job0 = 0" "length (addr_phys job0) = unat ?n" "\<not> enable_firewall job0" "job_unpins job0 = []" "gather_copy_size job0 = 0"
    using False by (auto simp: host1x_job_alloc_def)
  obtain err job1 where g: "submit_get_syncpt env args job0 (w\<lparr>heap := heap w + 1\<rparr>) = (err, job1, job_refs job1 w)"
    "err = - EINVAL \<or> err = 0 \<and> syncpoints env (syncpt_id args) \<and>
        job1 = job0\<lparr>job_syncpt := Some (syncpt_id args), job_syncpt_incrs := syncpt_increments args,
          job_secondary_syncpt := if sub_flags args AND DRM_TEGRA_SUBMIT_SECONDARY_SYNCPT = 0 then None else Some (secondary_syncpt_id args)\<rparr>"
    using get_syncpt_result [OF j0(1,2), of env args w] by blast
  show ?thesis
  proof (cases "err = 0")
    case err: False
    with g have "err = - EINVAL" by simp
    then show ?thesis unfolding submit_create_job_def Let_def fits if_False al option.case g(1) prod.case by (simp add: job_free_refs)
  next
    case True
    define job where "job = job1\<lparr>job_class := ?c\<rparr>"
    have j1: "job1 = job0\<lparr>job_syncpt := Some (syncpt_id args), job_syncpt_incrs := syncpt_increments args,
          job_secondary_syncpt := if sub_flags args AND DRM_TEGRA_SUBMIT_SECONDARY_SYNCPT = 0 then None else Some (secondary_syncpt_id args)\<rparr>"
      "syncpoints env (syncpt_id args)"
      using g(2) True by auto
    have room: "length (job_cmds job) + length cmds + (if True \<and> timestamps jd \<noteq> None then 2 else 0) \<le> max_cmds job"
      using cmds n j0 by (simp add: job_def j1(1))
    have "unat (0 :: u32) \<le> length ?data" by simp
    from create_job_loop_sound [OF data this room, of "ctx_client ctx" ?ms "gather_id env" ?c args]
    obtain e cs off where l: "create_job_loop args (ctx_client ctx) ?data (gather_id env) ?ms (timestamps jd) cmds True job 0 ?c
        = Some (e, job\<lparr>job_cmds := cs\<rparr>, off)" "length cs \<le> max_cmds job"
      "e = 0 \<and> stream_end (ctx_client ctx) ?ms ?data (gather_id env) (timestamps jd) 0 ?c cs = Some (unat off) \<or> e = - EINVAL"
      using j0 j1(1) by (auto simp: loop_sound_def job_def)
    have r: "job_refs job1 w = job_refs (job\<lparr>job_cmds := cs\<rparr>) w" by (rule job_refs_cong) (simp_all add: job_def)
    have c: "submit_create_job env ctx args jd cmds w
      = (if e \<noteq> 0 then Some (Inl e, w) else if off = 0 then Some (Inl (- EINVAL), w)
         else Some (Inr (job\<lparr>job_cmds := cs\<rparr>), job_refs (job\<lparr>job_cmds := cs\<rparr>) w))"
      unfolding submit_create_job_def Let_def fits if_False al option.case g(1) prod.case
      using True l(1) r by (simp add: job_def [symmetric] job_free_refs)
    show ?thesis
    proof (cases "e = 0 \<and> off \<noteq> 0")
      case True
      with l(3) have "stream_end (ctx_client ctx) ?ms ?data (gather_id env) (timestamps jd) 0 ?c cs = Some (unat off)" "0 < unat off"
        by (auto simp: unat_gt_0)
      then have "job_sound env ctx args jd ?data (job\<lparr>job_cmds := cs\<rparr>)"
        using l(2) j0 j1 n by (auto simp: job_sound_def job_def)
      with c True show ?thesis by simp
    next
      case False
      with c l(3) show ?thesis by auto
    qed
  qed
qed

end
