(* ===== verification/Drm_Balance.thy ===== *)
theory Drm_Balance
  imports Drm_Created Host1x_Pin "HOL-Library.Multiset"
begin

text \<open>
  What the submission of a job (\<open>gpu/drm/tegra/submit.c\<close>) holds when it returns: on every way out, exactly what belongs to the
  submitted job. \<open>holds M w w'\<close>: the world \<open>w'\<close> is \<open>w\<close> with the resources \<open>M\<close> taken.
\<close>

datatype resource = Mapping nat | Syncpoint u32 | Syncobj u32 | Memory_context | Power | Heap | Dma | Fence

definition holds :: "resource multiset \<Rightarrow> drm_world \<Rightarrow> drm_world \<Rightarrow> bool" where
  "holds M w w' \<longleftrightarrow> map_refs w' = (\<lambda>m. map_refs w m + int (count M (Mapping m)))
     \<and> sp_refs w' = (\<lambda>i. sp_refs w i + int (count M (Syncpoint i)))
     \<and> syncobj_refs w' = (\<lambda>i. syncobj_refs w i + int (count M (Syncobj i)))
     \<and> memctx_refs w' = memctx_refs w + int (count M Memory_context) \<and> pm_usage w' = pm_usage w + int (count M Power)
     \<and> heap w' = heap w + int (count M Heap) \<and> dma_live w' = dma_live w + int (count M Dma)
     \<and> fences_live w' = fences_live w + int (count M Fence)"

lemma holds_refl: "holds {#} w w"
  by (simp add: holds_def)

lemma holds_other [simp]: "holds M w (w'\<lparr>hx := h\<rparr>) = holds M w w'" "holds M w (w'\<lparr>fpriv_locked := b\<rparr>) = holds M w w'"
  "holds M (w\<lparr>fpriv_locked := b\<rparr>) w' = holds M w w'"
  by (simp_all add: holds_def)

text \<open>Taking and giving back one resource.\<close>

lemma holds_take:
  "holds M w w' \<Longrightarrow> holds (add_mset (Mapping m) M) w (mapping_get m w')"
  "holds M w w' \<Longrightarrow> holds (add_mset (Syncpoint i) M) w (sp_get i w')"
  "holds M w w' \<Longrightarrow> holds (add_mset (Syncobj i) M) w (w'\<lparr>syncobj_refs := (syncobj_refs w')(i := syncobj_refs w' i + 1)\<rparr>)"
  "holds M w w' \<Longrightarrow> holds (add_mset Memory_context M) w (w'\<lparr>memctx_refs := memctx_refs w' + 1\<rparr>)"
  "holds M w w' \<Longrightarrow> holds (add_mset Power M) w (w'\<lparr>pm_usage := pm_usage w' + 1\<rparr>)"
  "holds M w w' \<Longrightarrow> holds (add_mset Heap M) w (w'\<lparr>heap := heap w' + 1\<rparr>)"
  "holds M w w' \<Longrightarrow> holds (add_mset Dma M) w (w'\<lparr>dma_live := dma_live w' + 1\<rparr>)"
  "holds M w w' \<Longrightarrow> holds (add_mset Fence M) w (w'\<lparr>fences_live := fences_live w' + 1\<rparr>)"
  by (simp_all add: holds_def mapping_get_def sp_get_def fun_eq_iff)

lemma holds_give:
  "holds (add_mset (Mapping m) M) w w' \<Longrightarrow> holds M w (tegra_drm_mapping_put m w')"
  "holds (add_mset (Syncpoint i) M) w w' \<Longrightarrow> holds M w (sp_put (Some i) w')"
  "holds (add_mset (Syncobj i) M) w w' \<Longrightarrow> holds M w (w'\<lparr>syncobj_refs := (syncobj_refs w')(i := syncobj_refs w' i - 1)\<rparr>)"
  "holds (add_mset Memory_context M) w w' \<Longrightarrow> holds M w (w'\<lparr>memctx_refs := memctx_refs w' - 1\<rparr>)"
  "holds (add_mset Power M) w w' \<Longrightarrow> holds M w (w'\<lparr>pm_usage := pm_usage w' - 1\<rparr>)"
  "holds (add_mset Heap M) w w' \<Longrightarrow> holds M w (kfree w')"
  "holds (add_mset Dma M) w w' \<Longrightarrow> holds M w (w'\<lparr>dma_live := dma_live w' - 1\<rparr>)"
  by (simp_all add: holds_def tegra_drm_mapping_put_def sp_put_def kfree_def fun_eq_iff)

text \<open>The resources of the parts of a submission.\<close>

definition maps_res :: "(nat \<times> u32) list \<Rightarrow> resource multiset" where
  "maps_res ms = mset (map (\<lambda>(m, fl). Mapping m) ms)"

definition data_res :: "tegra_drm_submit_data \<Rightarrow> resource multiset" where
  "data_res jd = add_mset Heap ((if timestamps jd \<noteq> None then {#Dma#} else {#})
     + (case used_mappings jd of None \<Rightarrow> {#} | Some ms \<Rightarrow> add_mset Heap (maps_res ms)))"

definition sp_res :: "u32 option \<Rightarrow> resource multiset" where
  "sp_res i = (case i of None \<Rightarrow> {#} | Some i \<Rightarrow> {#Syncpoint i#})"

definition job_res :: "host1x_job \<Rightarrow> resource multiset" where
  "job_res job = add_mset Heap (sp_res (job_syncpt job) + sp_res (job_secondary_syncpt job))"

definition so_res :: "u32 option \<Rightarrow> resource multiset" where
  "so_res so = (case so of None \<Rightarrow> {#} | Some i \<Rightarrow> {#Syncobj i#})"

definition on :: "bool \<Rightarrow> resource \<Rightarrow> resource multiset" where
  "on b r = (if b then {#r#} else {#})"

lemma holds_give_on:
  "holds (on b Memory_context + M) w w' \<Longrightarrow> holds M w (if b then w'\<lparr>memctx_refs := memctx_refs w' - 1\<rparr> else w')"
  "holds (on b Power + M) w w' \<Longrightarrow> holds M w (if b then w'\<lparr>pm_usage := pm_usage w' - 1\<rparr> else w')"
  "holds (on b Dma + M) w w' \<Longrightarrow> holds M w (if b then w'\<lparr>dma_live := dma_live w' - 1\<rparr> else w')"
  by (cases b; simp add: on_def holds_give)+

abbreviation bo_res :: "resource multiset" where
  "bo_res \<equiv> {#Heap, Dma#}"

lemma holds_add: "holds M w w' \<Longrightarrow> holds {#r#} w' w'' \<Longrightarrow> holds (add_mset r M) w w''"
  by (auto simp: holds_def fun_eq_iff)

lemma holds_drop_refs: "holds (maps_res ms + M) w w' \<Longrightarrow> holds M w (drop_refs ms w')"
proof (induction ms arbitrary: M)
  case Nil
  then show ?case by (simp add: maps_res_def)
next
  case (Cons x ms)
  obtain m fl where x: "x = (m, fl)" by (cases x)
  have "holds (maps_res ms + add_mset (Mapping m) M) w w'" using Cons.prems by (simp add: maps_res_def x)
  from holds_give(1) [OF Cons.IH [OF this]] show ?case by (simp add: x)
qed

lemma holds_give_maps:
  "holds ((case um of None \<Rightarrow> {#} | Some ms \<Rightarrow> add_mset Heap (maps_res ms)) + M) w w' \<Longrightarrow>
   holds M w (case um of None \<Rightarrow> w' | Some ms \<Rightarrow> kfree (drop_refs ms w'))"
  by (cases um) (simp_all add: holds_give holds_drop_refs)

lemma holds_sp_put: "holds (sp_res i + M) w w' \<Longrightarrow> holds M w (sp_put i w')"
  by (cases i) (simp_all add: sp_res_def holds_give, simp add: sp_put_def)

lemma holds_job_refs: "holds M w w' \<Longrightarrow> holds (job_res job + M) w (job_refs job w')"
  by (auto simp: job_res_def sp_res_def job_refs_def holds_def sp_get_def fun_eq_iff split: option.splits)

lemma hx_simps [simp]: "hx (drop_refs ms w) = hx w" "hx (kfree w) = hx w" "hx (sp_put i w) = hx w" "hx (sp_get j w) = hx w"
  "hx (tegra_drm_mapping_put m w) = hx w" "hx (mapping_get m w) = hx w" "hx (release_job env memctx jd w) = hx w"
  "hx (job_free env job memctx released w) = hx w"
proof -
  show d: "hx (drop_refs ms w) = hx w" for ms w
    by (induction ms arbitrary: w) (auto simp: tegra_drm_mapping_put_def)
  show k: "hx (kfree w) = hx w" "hx (sp_put i w) = hx w" "hx (sp_get j w) = hx w"
    "hx (tegra_drm_mapping_put m w) = hx w" "hx (mapping_get m w) = hx w" for w i j m
    by (auto simp: kfree_def sp_put_def sp_get_def tegra_drm_mapping_put_def mapping_get_def split: option.splits)
  show r: "hx (release_job env memctx jd w) = hx w" for w jd
    by (simp add: release_job_def Let_def k d split: option.splits)
  show "hx (job_free env job memctx released w) = hx w"
    by (cases released) (simp_all add: job_free_def Let_def k r)
qed

lemma holds_release_job:
  assumes "holds (data_res jd + on memctx Memory_context + on (pm_enabled env) Power + M) w w'" "timestamps jd \<noteq> None \<Longrightarrow> config_tracing env"
  shows "holds M w (release_job env memctx jd w')"
proof -
  define u where "u = (case used_mappings jd of None \<Rightarrow> {#} | Some ms \<Rightarrow> add_mset Heap (maps_res ms))"
  define t where "t = on (timestamps jd \<noteq> None) Dma"
  define p where "p = on (pm_enabled env) Power"
  define w1 where "w1 = (if memctx then w'\<lparr>memctx_refs := memctx_refs w' - 1\<rparr> else w')"
  define w2 where "w2 = (if config_tracing env \<and> timestamps jd \<noteq> None then w1\<lparr>dma_live := dma_live w1 - 1\<rparr> else w1)"
  define w3 where "w3 = (case used_mappings jd of None \<Rightarrow> w2 | Some ms \<Rightarrow> kfree (drop_refs ms w2))"
  have "holds (on memctx Memory_context + (add_mset Heap (t + u) + p + M)) w w'"
    using assms(1) by (simp add: data_res_def u_def t_def p_def on_def ac_simps)
  then have "holds (add_mset Heap (t + u) + p + M) w w1" unfolding w1_def by (rule holds_give_on)
  then have "holds (t + (u + (add_mset Heap p + M))) w w1" by (simp add: ac_simps)
  then have "holds (u + (add_mset Heap p + M)) w (if timestamps jd \<noteq> None then w1\<lparr>dma_live := dma_live w1 - 1\<rparr> else w1)"
    unfolding t_def by (rule holds_give_on)
  then have "holds (u + (add_mset Heap p + M)) w w2" 
    using assms(2) by (cases "timestamps jd") (auto simp: w2_def)
  then have "holds (add_mset Heap p + M) w w3" unfolding w3_def u_def by (rule holds_give_maps)
  then have "holds (p + M) w (kfree w3)" by (intro holds_give) simp
  then have "holds M w (if pm_enabled env then (kfree w3)\<lparr>pm_usage := pm_usage (kfree w3) - 1\<rparr> else kfree w3)"
    unfolding p_def by (rule holds_give_on)
  then show ?thesis unfolding release_job_def Let_def w1_def [symmetric] w2_def [symmetric] w3_def [symmetric] .
qed

text \<open>The data of a job that was handed over.\<close>

definition released_res :: "submit_env \<Rightarrow> bool \<Rightarrow> tegra_drm_submit_data option \<Rightarrow> resource multiset" where
  "released_res env memctx released =
     (case released of None \<Rightarrow> {#} | Some jd \<Rightarrow> data_res jd + on memctx Memory_context + on (pm_enabled env) Power)"

definition traced :: "submit_env \<Rightarrow> tegra_drm_submit_data \<Rightarrow> bool" where
  "traced env jd \<longleftrightarrow> (timestamps jd \<noteq> None \<longrightarrow> config_tracing env)"

lemma holds_job_free:
  assumes "holds (job_res job + released_res env memctx released + M) w w'" "pred_option (traced env) released"
  shows "holds M w (job_free env job memctx released w')"
proof -
  define w1 where "w1 = (case released of None \<Rightarrow> w' | Some jd \<Rightarrow> release_job env memctx jd w')"
  have "holds (job_res job + M) w w1"
  proof (cases released)
    case None
    with assms(1) show ?thesis by (simp add: w1_def released_res_def)
  next
    case (Some jd)
    have "holds (data_res jd + on memctx Memory_context + on (pm_enabled env) Power + (job_res job + M)) w w'"
      using assms(1) by (simp add: Some released_res_def ac_simps)
    with assms(2) Some show ?thesis unfolding w1_def by (auto intro!: holds_release_job simp: traced_def)
  qed
  then have "holds (sp_res (job_syncpt job) + (sp_res (job_secondary_syncpt job) + add_mset Heap M)) w w1"
    by (simp add: job_res_def ac_simps)
  then have "holds M w (kfree (sp_put (job_secondary_syncpt job) (sp_put (job_syncpt job) w1)))"
    by (intro holds_give holds_sp_put)
  then show ?thesis by (simp add: job_free_def w1_def Let_def)
qed

subsection \<open>The ways out\<close>

text \<open>\<open>closes env w M r\<close>: the exit \<open>r\<close> has unlocked, and holds \<open>M\<close> and the gather buffer if that has references left.\<close>

definition closes :: "submit_env \<Rightarrow> drm_world \<Rightarrow> resource multiset \<Rightarrow> submit_exit \<Rightarrow> bool" where
  "closes env w M r \<longleftrightarrow> (case r of (err, sub, w') \<Rightarrow> \<not> fpriv_locked w'
     \<and> holds (M + (if bo_refs (hx w') (gather_id env) = 0 then {#} else bo_res)) w w')"

lemma closes_unlock:
  assumes "holds (so_res so + M + (if bo_refs (hx w') (gather_id env) = 0 then {#} else bo_res)) w w'"
  shows "closes env w M (exit_unlock so err sub w')"
  using assms
  by (auto simp: closes_def exit_unlock_def Let_def so_res_def split: option.splits intro: holds_give)

lemma closes_put_bo:
  assumes "holds (so_res so + M + bo_res) w w'"
  shows "closes env w M (exit_put_bo env so err sub w')"
proof -
  let ?w = "gather_bo_put env w'"
  have h: "holds (so_res so + M + bo_res) w (on_hx f w')" for f using assms by (simp add: on_hx_def)
  have "holds (so_res so + M) w (w''\<lparr>heap := heap w'' - 1, dma_live := dma_live w'' - 1\<rparr>)" if "holds (so_res so + M + bo_res) w w''" for w''
    using that by (simp add: holds_def)
  with h have "holds (so_res so + M + (if bo_refs (hx ?w) (gather_id env) = 0 then {#} else bo_res)) w ?w"
    by (simp add: gather_bo_put_def Let_def del: add_mset_add_single)
  then show ?thesis unfolding exit_put_bo_def by (rule closes_unlock)
qed

lemma closes_free_job_data:
  assumes "holds (so_res so + M + bo_res + (case jd of None \<Rightarrow> {#} | Some jd \<Rightarrow> data_res jd)) w w'"
  shows "closes env w M (exit_free_job_data env so jd err sub w')"
proof (cases jd)
  case None
  with assms show ?thesis by (simp add: exit_free_job_data_def closes_put_bo)
next
  case (Some d)
  define u where "u = (case used_mappings d of None \<Rightarrow> {#} | Some ms \<Rightarrow> add_mset Heap (maps_res ms))"
  define w1 where "w1 = (if timestamps d \<noteq> None then w'\<lparr>dma_live := dma_live w' - 1\<rparr> else w')"
  define w2 where "w2 = (case used_mappings d of None \<Rightarrow> w1 | Some ms \<Rightarrow> kfree (drop_refs ms w1))"
  have "holds (on (timestamps d \<noteq> None) Dma + (u + add_mset Heap (so_res so + M + bo_res))) w w'"
    using assms by (simp add: Some data_res_def u_def on_def ac_simps)
  then have "holds (u + add_mset Heap (so_res so + M + bo_res)) w w1" unfolding w1_def by (rule holds_give_on)
  then have "holds (add_mset Heap (so_res so + M + bo_res)) w w2" unfolding w2_def u_def by (rule holds_give_maps)
  then have "holds (so_res so + M + bo_res) w (kfree w2)" by (rule holds_give)
  then have "closes env w M (exit_put_bo env so err sub (kfree w2))" by (rule closes_put_bo)
  then show ?thesis unfolding exit_free_job_data_def Some Let_def option.case w1_def [symmetric] w2_def [symmetric] .
qed

lemma closes_free_cmds:
  assumes "holds (so_res so + M + bo_res + (case jd of None \<Rightarrow> {#} | Some jd \<Rightarrow> data_res jd) + {#Heap#}) w w'"
  shows "closes env w M (exit_free_cmds env so jd err sub w')"
  unfolding exit_free_cmds_def using assms by (intro closes_free_job_data holds_give) simp

lemma closes_put_job:
  assumes "holds (so_res so + M + bo_res + (case jd of None \<Rightarrow> {#} | Some jd \<Rightarrow> data_res jd) + {#Heap#}
      + job_res job + released_res env memctx released) w w'" "pred_option (traced env) released"
  shows "closes env w M (exit_put_job env so jd job memctx released err w')"
  unfolding exit_put_job_def
proof (rule closes_free_cmds, rule holds_job_free)
  show "holds (job_res job + released_res env memctx released
      + (so_res so + M + bo_res + (case jd of None \<Rightarrow> {#} | Some jd \<Rightarrow> data_res jd) + {#Heap#})) w w'"
    using assms(1) by (simp add: ac_simps)
qed (rule assms(2))

lemma job_unpin_job: "host1x_job_unpin d job h = (job', h') \<Longrightarrow> job' = job\<lparr>job_unpins := []\<rparr>"
  by (auto simp: host1x_job_unpin_def Let_def)

lemma closes_unpin_job:
  assumes "holds (so_res so + M + bo_res + (case jd of None \<Rightarrow> {#} | Some jd \<Rightarrow> data_res jd) + {#Heap#}
      + job_res job + released_res env memctx released) w w'" "pred_option (traced env) released"
  shows "closes env w M (exit_unpin_job env so jd job memctx released err w')"
  unfolding exit_unpin_job_def using assms
  by (auto split: prod.splits dest!: job_unpin_job intro!: closes_put_job simp: job_res_def)

subsection \<open>The way in\<close>

lemma copy_user_array_result:
  assumes "alloc_copy_user_array mem user n sz w = (r, w')"
  shows "case r of Inl err \<Rightarrow> w' = w \<and> err \<noteq> 0 | Inr xs \<Rightarrow> w' = w\<lparr>heap := heap w + 1\<rparr> \<and> user = Some xs"
  using assms by (auto simp: alloc_copy_user_array_def split: if_splits option.splits)

lemma mapping_put_get [simp]: "tegra_drm_mapping_put m (mapping_get m w) = w"
  by (simp add: tegra_drm_mapping_put_def mapping_get_def)

lemma process_bufs_loop_holds:
  "process_bufs_loop env ctx bufs taken data w1 = Some (err, taken', data', w2) \<Longrightarrow> holds (maps_res taken + M) w w1 \<Longrightarrow>
   holds (maps_res taken' + M) w w2 \<and> hx w2 = hx w1 \<and> length data' = length data"
proof (induction bufs arbitrary: taken data w1)
  case (Cons buf bufs)
  show ?case
  proof (cases "ctx_mappings ctx (buf_mapping buf)")
    case None
    with Cons.prems show ?thesis by (auto simp: tegra_drm_mapping_get_def split: if_splits)
  next
    case (Some m)
    show ?thesis
    proof (cases "submit_write_reloc data buf (mapping_of env m)")
      case None
      with Some Cons.prems show ?thesis by (auto simp: tegra_drm_mapping_get_def split: if_splits)
    next
      case r: (Some p)
      obtain e data1 where p: "p = (e, data1)" by (cases p)
      have l: "length data1 = length data" using r by (auto simp: p submit_write_reloc_def Let_def split: if_splits)
      have "holds (maps_res (taken @ [(m, buf_flags buf)]) + M) w (mapping_get m w1)"
        using holds_take(1) [OF Cons.prems(2), of m] by (simp add: maps_res_def)
      with Cons.IH [of "taken @ [(m, buf_flags buf)]" data1 "mapping_get m w1"] Cons.prems Some r p l show ?thesis
        by (auto simp: tegra_drm_mapping_get_def split: if_splits)
    qed
  qed
qed simp

lemma process_bufs_holds:
  assumes "submit_process_bufs env ctx args jd w1 = Some (err, jd', w2)" "used_mappings jd = None" "holds (data_res jd + M) w w1"
  shows "holds (data_res jd' + M) w w2 \<and> timestamps jd' = timestamps jd \<and> (err = 0 \<longrightarrow> used_mappings jd' \<noteq> None)
    \<and> bo_refs (hx w2) = bo_refs (hx w1) \<and> length (bo_data (hx w2) (gather_id env)) = length (bo_data (hx w1) (gather_id env))"
proof -
  obtain r wa where a: "alloc_copy_user_array (mem_bufs env) (user_bufs env) (num_bufs args) 24 w1 = (r, wa)" by fastforce
  note ar = copy_user_array_result [OF a]
  show ?thesis
  proof (cases r)
    case (Inl e)
    with a ar assms show ?thesis by (auto simp: submit_process_bufs_def)
  next
    case (Inr bufs)
    then have wa: "wa = w1\<lparr>heap := heap w1 + 1\<rparr>" using ar by simp
    then have k: "kfree wa = w1" by (simp add: kfree_def)
    show ?thesis
    proof (cases "mem_mappings env")
      case False
      with a Inr k assms show ?thesis by (auto simp: submit_process_bufs_def)
    next
      case True
      let ?wb = "wa\<lparr>heap := heap wa + 1\<rparr>"
      obtain e taken data wc where l: "process_bufs_loop env ctx bufs [] (bo_data (hx ?wb) (gather_id env)) ?wb = Some (e, taken, data, wc)"
        and res: "(err, jd', w2) = (let w = on_hx (\<lambda>h. h\<lparr>bo_data := (bo_data h)(gather_id env := data)\<rparr>) wc in
            if e \<noteq> 0 then (e, jd\<lparr>used_mappings := None\<rparr>, kfree (kfree (drop_refs taken w)))
            else (0, jd\<lparr>used_mappings := Some taken\<rparr>, kfree w))"
        using assms(1) a Inr True by (auto simp: submit_process_bufs_def Let_def bind_eq_Some_conv split: if_splits)
      have "holds (maps_res [] + (add_mset Heap (add_mset Heap (data_res jd + M)))) w ?wb"
        using holds_take(6) [OF holds_take(6) [OF assms(3)]] by (simp add: wa maps_res_def)
      from process_bufs_loop_holds [OF l this] have
        lc: "holds (maps_res taken + add_mset Heap (add_mset Heap (data_res jd + M))) w wc" "hx wc = hx w1" "length data = length (bo_data (hx w1) (gather_id env))"
        by (simp_all add: wa)
      let ?wd = "on_hx (\<lambda>h. h\<lparr>bo_data := (bo_data h)(gather_id env := data)\<rparr>) wc"
      have d: "holds (maps_res taken + add_mset Heap (add_mset Heap (data_res jd + M))) w ?wd" using lc(1) by (simp add: on_hx_def)
      have hd: "bo_refs (hx ?wd) = bo_refs (hx w1)" "length (bo_data (hx ?wd) (gather_id env)) = length (bo_data (hx w1) (gather_id env))"
        using lc by (simp_all add: on_hx_def)
      show ?thesis
      proof (cases "e = 0")
        case True
        have "holds (add_mset Heap (add_mset Heap (maps_res taken) + (data_res jd + M))) w ?wd" using d by simp
        then have "holds (add_mset Heap (maps_res taken) + (data_res jd + M)) w (kfree ?wd)" by (rule holds_give)
        then show ?thesis using res True hd assms(2) by (simp add: Let_def data_res_def ac_simps)
      next
        case False
        have "holds (data_res jd + M) w (kfree (kfree (drop_refs taken ?wd)))"
          by (intro holds_give holds_drop_refs d)
        then show ?thesis using res False hd assms(2) by (simp add: Let_def data_res_def)
      qed
    qed
  qed
qed

lemma process_bufs_live:
  assumes "submit_process_bufs env ctx args jd w1 = Some (err, jd', w2)"
  shows "live_maps (hx w2) = live_maps (hx w1) \<and> live_iovas (hx w2) = live_iovas (hx w1) \<and> live_copies (hx w2) = live_copies (hx w1)"
proof -
  obtain r wa where a: "alloc_copy_user_array (mem_bufs env) (user_bufs env) (num_bufs args) 24 w1 = (r, wa)" by fastforce
  show ?thesis
  proof (cases r)
    case (Inl e)
    with a copy_user_array_result [OF a] assms show ?thesis by (auto simp: submit_process_bufs_def)
  next
    case (Inr bufs)
    with copy_user_array_result [OF a] have wa: "hx wa = hx w1" by simp
    have "hx wc = hx (wa\<lparr>heap := heap wa + 1\<rparr>)"
      if "process_bufs_loop env ctx bufs [] (bo_data (hx wa) (gather_id env)) (wa\<lparr>heap := heap wa + 1\<rparr>) = Some (e, t, d, wc)" for e t d wc
      using process_bufs_loop_holds [OF that, of "{#}" "wa\<lparr>heap := heap wa + 1\<rparr>"] by (simp add: maps_res_def holds_refl)
    with a Inr wa assms show ?thesis
      by (auto simp: submit_process_bufs_def Let_def bind_eq_Some_conv on_hx_def split: if_splits)
  qed
qed

lemma process_bufs_loop_total:
  "\<forall>b \<in> set bufs. buf_shift b < 64 \<Longrightarrow> \<exists>r. process_bufs_loop env ctx bufs taken data w = Some r"
proof (induction bufs arbitrary: taken data w)
  case (Cons b bufs)
  then have "\<not> 64 \<le> unat (buf_shift b)" by (simp add: word_less_nat_alt)
  then have wr: "\<exists>e d. submit_write_reloc data b m = Some (e, d)" for m by (simp add: submit_write_reloc_def Let_def)
  show ?case
  proof (cases "ctx_mappings ctx (buf_mapping b)")
    case None
    then show ?thesis by (simp add: tegra_drm_mapping_get_def)
  next
    case (Some m)
    from wr [of "mapping_of env m"] obtain e d where "submit_write_reloc data b (mapping_of env m) = Some (e, d)" by blast
    with Some Cons show ?thesis by (simp add: tegra_drm_mapping_get_def)
  qed
qed simp

lemma process_bufs_total:
  assumes "\<forall>bufs. user_bufs env = Some bufs \<longrightarrow> (\<forall>b \<in> set bufs. buf_shift b < 64)"
  shows "\<exists>r. submit_process_bufs env ctx args jd w = Some r"
proof -
  obtain r wa where a: "alloc_copy_user_array (mem_bufs env) (user_bufs env) (num_bufs args) 24 w = (r, wa)" by fastforce
  show ?thesis
  proof (cases r)
    case (Inl e)
    with a show ?thesis by (simp add: submit_process_bufs_def)
  next
    case (Inr bufs)
    then have "\<forall>b \<in> set bufs. buf_shift b < 64" using copy_user_array_result [OF a] assms by auto
    from process_bufs_loop_total [OF this] obtain e t d wc where
      "process_bufs_loop env ctx bufs [] (bo_data (hx wa) (gather_id env)) (wa\<lparr>heap := heap wa + 1\<rparr>) = Some (e, t, d, wc)"
      by (metis prod_cases4)
    with a Inr show ?thesis by (simp add: submit_process_bufs_def Let_def)
  qed
qed

subsection \<open>Pinning a job without relocations\<close>

definition plain_job :: "host1x_job \<Rightarrow> bool" where
  "plain_job job \<longleftrightarrow> job_relocs job = [] \<and> max_relocs job = 0 \<and> \<not> enable_firewall job \<and> job_unpins job = []
     \<and> gather_copy_size job = 0 \<and> length (job_cmds job) \<le> length (addr_phys job)"

definition repinned :: "host1x_job \<Rightarrow> host1x_job \<Rightarrow> bool" where
  "repinned job job' \<longleftrightarrow> job' = job\<lparr>job_unpins := job_unpins job', addr_phys := addr_phys job'\<rparr> \<and> length (addr_phys job') = length (addr_phys job)"

lemma repinned_trans: "repinned job job1 \<Longrightarrow> repinned job1 job2 \<Longrightarrow> repinned job job2"
  by (cases job; cases job1; cases job2) (simp add: repinned_def)

lemma repinned_refl: "repinned job job"
  by (simp add: repinned_def)

lemma repinned_keeps:
  "repinned job job' \<Longrightarrow> max_relocs job' = max_relocs job \<and> job_relocs job' = job_relocs job \<and> enable_firewall job' = enable_firewall job
     \<and> job_cmds job' = job_cmds job \<and> gather_copy_size job' = gather_copy_size job \<and> job_syncpt job' = job_syncpt job
     \<and> job_secondary_syncpt job' = job_secondary_syncpt job \<and> length (addr_phys job') = length (addr_phys job)"
  by (cases job; cases job') (simp add: repinned_def)

lemma pin_gather_total:
  assumes "max_relocs job = 0" "length (job_unpins job) \<le> i" "i < length (addr_phys job)"
  shows "\<exists>e job1 h1. pin_gather env i g (job, h) = Some (e, job1, h1) \<and> repinned job job1 \<and> length (job_unpins job1) \<le> Suc i"
  using assms
  by (cases "bo_pin_gather env i"; cases "alloc_iova env i") (auto simp: pin_gather_def Let_def job_pinned_def repinned_def)

lemma pin_gathers_total:
  "max_relocs job = 0 \<Longrightarrow> length (job_unpins job) \<le> i \<Longrightarrow> i + length cs \<le> length (addr_phys job) \<Longrightarrow>
   \<exists>e job1 h1. pin_gathers env i cs (job, h) = Some (e, job1, h1) \<and> repinned job job1"
proof (induction cs arbitrary: i job h)
  case Nil
  show ?case by (simp add: repinned_refl)
next
  case (Cons c cs)
  show ?case
  proof (cases "\<exists>g. c = CMD_GATHER g")
    case False
    with Cons show ?thesis by (cases c) auto
  next
    case True
    then obtain g where g: "c = CMD_GATHER g" ..
    have "i < length (addr_phys job)" using Cons.prems by simp
    from pin_gather_total [OF Cons.prems(1,2) this] obtain e job1 h1 where
      p: "pin_gather env i g (job, h) = Some (e, job1, h1)" "repinned job job1" "length (job_unpins job1) \<le> Suc i" by blast
    have "max_relocs job1 = max_relocs job" using repinned_keeps [OF p(2)] by simp
    then have "\<exists>e job2 h2. pin_gathers env (Suc i) cs (job1, h1) = Some (e, job2, h2) \<and> repinned job1 job2"
      using Cons.prems p(2,3) by (intro Cons.IH) (auto simp: repinned_def)
    then show ?thesis using p g repinned_trans [OF p(2)] by (cases "e = 0") auto
  qed
qed

lemma patch_gathers_total:
  "job_relocs job = [] \<Longrightarrow> \<not> enable_firewall job \<Longrightarrow> \<forall>i \<in> set is. max_relocs job + i < length (addr_phys job) \<Longrightarrow>
   \<exists>cs. patch_gathers env is job h = Some (0, job\<lparr>job_cmds := cs\<rparr>, h)"
proof (induction "is" arbitrary: job)
  case Nil
  show ?case by (intro exI [of _ "job_cmds job"]) simp
next
  case (Cons i "is")
  show ?case
  proof (cases "\<exists>g. job_cmds job ! i = CMD_GATHER g \<and> \<not> g_handled g")
    case False
    with Cons show ?thesis by (auto split: host1x_job_cmd.splits)
  next
    case True
    then obtain g where g: "job_cmds job ! i = CMD_GATHER g" "\<not> g_handled g" by blast
    have "\<exists>cs'. patch_gathers env is (job\<lparr>job_cmds := cs\<rparr>) h = Some (0, (job\<lparr>job_cmds := cs\<rparr>)\<lparr>job_cmds := cs'\<rparr>, h)" for cs
      using Cons.prems by (intro Cons.IH) auto
    with Cons.prems g show ?thesis by (simp add: Let_def do_relocs_def)
  qed
qed

lemma pin_plain:
  assumes "plain_job job"
  shows "\<exists>e job' h'. host1x_job_pin env job h = Some (e, job', h') \<and> job_syncpt job' = job_syncpt job
    \<and> job_secondary_syncpt job' = job_secondary_syncpt job"
proof -
  have un: "job_syncpt (fst (host1x_job_unpin d j k)) = job_syncpt j" "job_secondary_syncpt (fst (host1x_job_unpin d j k)) = job_secondary_syncpt j" for d j k
    by (simp_all add: host1x_job_unpin_def Let_def)
  let ?job = "job\<lparr>job_unpins := []\<rparr>"
  have "\<exists>e job1 h1. pin_gathers env 0 (job_cmds ?job) (?job, h) = Some (e, job1, h1) \<and> repinned ?job job1"
    using assms by (intro pin_gathers_total) (simp_all add: plain_job_def)
  then obtain e job1 h1 where p: "pin_gathers env 0 (job_cmds ?job) (?job, h) = Some (e, job1, h1)" "repinned ?job job1" by blast
  note k = repinned_keeps [OF p(2)]
  have pj: "pin_job env job h = (if e \<noteq> 0 then Some (e, host1x_job_unpin (host_domain env) job1 h1) else Some (0, job1, h1))"
    using assms p(1) by (simp add: pin_job_def plain_job_def)
  obtain j2 h2 where u: "host1x_job_unpin (host_domain env) job1 h1 = (j2, h2)" by fastforce
  obtain j3 h3 where u3: "host1x_job_unpin (host_domain env) j2 h2 = (j3, h3)" by fastforce
  have s: "job_syncpt j3 = job_syncpt job" "job_secondary_syncpt j3 = job_secondary_syncpt job"
    using un [of "host_domain env" job1 h1] un [of "host_domain env" j2 h2] k by (simp_all add: u u3)
  show ?thesis
  proof (cases "e = 0")
    case False
    with pj u u3 s show ?thesis by (simp add: host1x_job_pin_def)
  next
    case True
    have "\<exists>cs. patch_gathers env [0..<length (job_cmds job1)] job1 h1 = Some (0, job1\<lparr>job_cmds := cs\<rparr>, h1)"
      using k assms by (intro patch_gathers_total) (auto simp: plain_job_def)
    with True pj k assms show ?thesis by (auto simp: host1x_job_pin_def plain_job_def)
  qed
qed

subsection \<open>The whole ioctl\<close>

definition submitted_res :: "submit_env \<Rightarrow> u32 option \<Rightarrow> submitted \<Rightarrow> resource multiset" where
  "submitted_res env so sub =
     (case sub of None \<Rightarrow> {#} | Some (job, memctx, jd) \<Rightarrow> job_res job + released_res env memctx (Some jd) + on (so \<noteq> None) Fence)"

text \<open>
  \<open>fresh_bo\<close>: host1x's part of the world when the gather buffer has one reference. \<open>pinned_since env w job h\<close>: \<open>h\<close> is
  host1x's part of the world after pinning \<open>job\<close>, in a submission that began in \<open>w\<close>.
\<close>

definition fresh_bo :: "submit_env \<Rightarrow> drm_world \<Rightarrow> host1x_world \<Rightarrow> bool" where
  "fresh_bo env w h \<longleftrightarrow> bo_refs h = (bo_refs (hx w))(gather_id env := 1) \<and> live_maps h = live_maps (hx w)
     \<and> live_iovas h = live_iovas (hx w) \<and> live_copies h = live_copies (hx w)"

definition pinned_since :: "submit_env \<Rightarrow> drm_world \<Rightarrow> host1x_job \<Rightarrow> host1x_world \<Rightarrow> bool" where
  "pinned_since env w job h \<longleftrightarrow>
     (\<exists>job0 h0. plain_job job0 \<and> fresh_bo env w h0 \<and> host1x_job_pin (job_pin_env env) job0 h0 = Some (0, job, h))"

text \<open>
  \<open>settles\<close>: the rest of the ioctl returns, its exit holds what the submitted job holds, and a submitted job is
  pinned.
\<close>

definition settles :: "submit_env \<Rightarrow> drm_world \<Rightarrow> u32 option \<Rightarrow> submit_exit option \<Rightarrow> bool" where
  "settles env w so r \<longleftrightarrow> (\<exists>err sub w'. r = Some (err, sub, w') \<and> closes env w (submitted_res env so sub) (err, sub, w')
     \<and> (\<forall>job memctx jd. sub = Some (job, memctx, jd) \<longrightarrow> err = 0 \<and> traced env jd
         \<and> (\<exists>h. pinned_since env w job h \<and> hx w' = bo_put (gather_id env) h)))"

lemma settles_closes:
  assumes "closes env w {#} r" "fst (snd r) = None"
  shows "settles env w so (Some r)"
  using assms by (cases r) (simp add: settles_def submitted_res_def)

lemma exit_sub [simp]:
  "fst (snd (exit_unlock so err sub w)) = sub" "fst (exit_unlock so err sub w) = err"
  "fst (snd (exit_put_bo env so err sub w)) = sub" "fst (exit_put_bo env so err sub w) = err"
  "fst (snd (exit_free_job_data env so jd err sub w)) = sub" "fst (exit_free_job_data env so jd err sub w) = err"
  "fst (snd (exit_free_cmds env so jd err sub w)) = sub" "fst (exit_free_cmds env so jd err sub w) = err"
  "fst (snd (exit_put_job env so jd job memctx released err w)) = None"
  "fst (snd (exit_unpin_job env so jd job memctx released err w)) = None"
  by (simp_all add: exit_unlock_def Let_def exit_put_bo_def exit_free_job_data_def exit_free_cmds_def exit_put_job_def exit_unpin_job_def
      split: option.splits prod.splits)

lemma exit_free_cmds_end:
  "\<exists>w'. exit_free_cmds env so None err sub w = (err, sub, w') \<and> hx w' = bo_put (gather_id env) (hx w)"
  by (simp add: exit_free_cmds_def exit_free_job_data_def exit_put_bo_def exit_unlock_def Let_def gather_bo_put_def on_hx_def split: option.splits)

definition entered :: "u32 option \<Rightarrow> tegra_drm_submit_data \<Rightarrow> host1x_job \<Rightarrow> resource multiset" where
  "entered so jd job = so_res so + bo_res + data_res jd + {#Heap#} + job_res job"

lemma submit_job_settles:
  assumes "holds (entered so jd job + on memctx Memory_context + on (pm_enabled env) Power) w w1" "traced env jd"
    and "so \<noteq> None \<Longrightarrow> fence_created env = None"
    and "pinned_since env w job (hx w1)"
  shows "settles env w so (submit_job env so jd job memctx w1)"
proof (cases "job_submit env = 0")
  case False
  have "holds (so_res so + {#} + bo_res + (case None of None \<Rightarrow> {#} | Some jd \<Rightarrow> data_res jd) + {#Heap#}
      + job_res job + released_res env memctx (Some jd)) w w1"
    using assms(1) by (simp add: entered_def released_res_def ac_simps)
  from closes_unpin_job [OF this] assms(2) False show ?thesis by (simp add: submit_job_def settles_closes)
next
  case True
  define w2 where "w2 = (if so = None then w1 else w1\<lparr>fences_live := fences_live w1 + 1\<rparr>)"
  have "holds (entered so jd job + on memctx Memory_context + on (pm_enabled env) Power + on (so \<noteq> None) Fence) w w2"
    using assms(1) holds_take(8) [OF assms(1)] by (cases so) (simp_all add: w2_def on_def [of _ Fence])
  then have "holds (so_res so + submitted_res env so (Some (job, memctx, jd)) + bo_res + (case None of None \<Rightarrow> {#} | Some jd \<Rightarrow> data_res jd) + {#Heap#}) w w2"
    by (simp add: entered_def submitted_res_def released_res_def ac_simps)
  from closes_free_cmds [OF this, of env 0 "Some (job, memctx, jd)"]
  have c: "closes env w (submitted_res env so (Some (job, memctx, jd))) (exit_free_cmds env so None 0 (Some (job, memctx, jd)) w2)" .
  have "submit_job env so jd job memctx w1 = Some (exit_free_cmds env so None 0 (Some (job, memctx, jd)) w2)"
    using True assms(3) by (cases so) (simp_all add: submit_job_def w2_def)
  moreover obtain w' where "exit_free_cmds env so None 0 (Some (job, memctx, jd)) w2 = (0, Some (job, memctx, jd), w')"
    "hx w' = bo_put (gather_id env) (hx w2)" using exit_free_cmds_end by blast
  moreover have "hx w2 = hx w1" by (simp add: w2_def)
  ultimately show ?thesis using c assms(2,4) by (auto simp: settles_def)
qed

lemma submit_power_up_settles:
  assumes "holds (entered so jd job + on memctx Memory_context) w w1" "traced env jd" "so \<noteq> None \<Longrightarrow> fence_created env = None"
    and "pinned_since env w job (hx w1)"
  shows "settles env w so (submit_power_up env so jd job memctx w1)"
proof (cases "pm_enabled env \<and> pm_resume env < 0")
  case True
  have "holds (on memctx Memory_context + entered so jd job) w w1" using assms(1) by (simp add: ac_simps)
  from holds_give_on(1) [OF this] have
    "holds (so_res so + {#} + bo_res + (case Some jd of None \<Rightarrow> {#} | Some jd \<Rightarrow> data_res jd) + {#Heap#} + job_res job + released_res env memctx None)
      w (if memctx then w1\<lparr>memctx_refs := memctx_refs w1 - 1\<rparr> else w1)"
    by (simp add: entered_def released_res_def ac_simps)
  from closes_unpin_job [OF this] True show ?thesis
    by (simp add: submit_power_up_def exit_put_memory_context_def settles_closes)
next
  case False
  show ?thesis
  proof (cases "pm_enabled env")
    case True
    with False have "submit_power_up env so jd job memctx w1 = submit_job env so jd job memctx (w1\<lparr>pm_usage := pm_usage w1 + 1\<rparr>)"
      by (simp add: submit_power_up_def)
    with holds_take(5) [OF assms(1)] True assms(2-4) show ?thesis
      by (simp only:) (intro submit_job_settles; simp add: on_def)
  next
    case False
    with assms show ?thesis by (simp add: submit_power_up_def) (intro submit_job_settles; simp add: on_def)
  qed
qed

lemma submit_memory_context_settles:
  assumes "holds (entered so jd job) w w1" "traced env jd" "so \<noteq> None \<Longrightarrow> fence_created env = None"
    and "pinned_since env w job (hx w1)"
  shows "settles env w so (submit_memory_context env ctx so jd job w1)"
proof -
  have none: "holds (entered so jd job + on False Memory_context) w w1" using assms(1) by (simp add: on_def)
  have some: "holds (entered so jd job + on True Memory_context) w (w1\<lparr>memctx_refs := memctx_refs w1 + 1\<rparr>)"
    using holds_take(4) [OF assms(1)] by (simp add: on_def)
  have "holds (so_res so + {#} + bo_res + (case Some jd of None \<Rightarrow> {#} | Some jd \<Rightarrow> data_res jd) + {#Heap#} + job_res job + released_res env False None) w w1"
    using assms(1) by (simp add: entered_def released_res_def)
  from closes_unpin_job [OF this] have "settles env w so (Some (exit_unpin_job env so (Some jd) job False None e w1))" for e
    by (simp add: settles_closes)
  with submit_power_up_settles [OF none assms(2-4)] submit_power_up_settles [OF some assms(2,3)] assms(4) show ?thesis
    by (cases "ctx_memory ctx"; cases "can_use_memory_ctx env") (auto simp: submit_memory_context_def)
qed

lemma job_res_cong: "job_syncpt job' = job_syncpt job \<Longrightarrow> job_secondary_syncpt job' = job_secondary_syncpt job \<Longrightarrow> job_res job' = job_res job"
  by (simp add: job_res_def)

lemma submit_pin_settles:
  assumes "holds (entered so jd job) w w1" "traced env jd" "so \<noteq> None \<Longrightarrow> fence_created env = None" "plain_job job"
    and "fresh_bo env w (hx w1)"
  shows "settles env w so (submit_pin env ctx so jd job w1)"
proof -
  from pin_plain [OF assms(4)] obtain e job' h where p: "host1x_job_pin (job_pin_env env) job (hx w1) = Some (e, job', h)"
    "job_syncpt job' = job_syncpt job" "job_secondary_syncpt job' = job_secondary_syncpt job" by blast
  have "holds (entered so jd job') w (w1\<lparr>hx := h\<rparr>)"
    using assms(1) by (simp add: entered_def job_res_cong [OF p(2,3)])
  moreover from this have "holds (so_res so + {#} + bo_res + (case Some jd of None \<Rightarrow> {#} | Some jd \<Rightarrow> data_res jd) + {#Heap#} + job_res job'
      + released_res env False None) w (w1\<lparr>hx := h\<rparr>)"
    by (simp add: entered_def released_res_def)
  moreover have "e = 0 \<Longrightarrow> pinned_since env w job' h"
    using p(1) assms(4,5) by (auto simp: pinned_since_def)
  ultimately show ?thesis
    using submit_memory_context_settles [of so jd job' w "w1\<lparr>hx := h\<rparr>" env ctx] assms(2,3)
      closes_put_job [of so "{#}" "Some jd" job' env False None w "w1\<lparr>hx := h\<rparr>" e]
      closes_unpin_job [of so "{#}" "Some jd" job' env False None w "w1\<lparr>hx := h\<rparr>"]
    by (cases "get_streamid_offset env") (auto simp: submit_pin_def p(1) settles_closes Let_def)
qed

text \<open>What the user's arrays contain: as many elements as the arguments say, shifts of less than 64 bits.\<close>

definition user_arrays :: "submit_env \<Rightarrow> drm_tegra_channel_submit \<Rightarrow> bool" where
  "user_arrays env args \<longleftrightarrow> (\<forall>ws. user_gather env = Some ws \<longrightarrow> length ws = unat (gather_data_words args))
     \<and> gather_data_words args < 2 ^ 30
     \<and> (\<forall>bufs. user_bufs env = Some bufs \<longrightarrow> length bufs = unat (num_bufs args) \<and> (\<forall>b \<in> set bufs. buf_shift b < 64))
     \<and> (\<forall>cmds. user_cmds env = Some cmds \<longrightarrow> length cmds = unat (num_cmds args))"

lemma submit_cmds_settles:
  assumes "holds (so_res so + bo_res + data_res jd) w w1" "traced env jd" "so \<noteq> None \<Longrightarrow> fence_created env = None"
    and "length (bo_data (hx w1) (gather_id env)) < 2 ^ 30" "user_arrays env args" "fresh_bo env w (hx w1)"
  shows "settles env w so (submit_cmds env ctx args so jd w1)"
proof -
  obtain r wa where a: "alloc_copy_user_array (mem_cmds env) (user_cmds env) (num_cmds args) 24 w1 = (r, wa)" by fastforce
  note ar = copy_user_array_result [OF a]
  show ?thesis
  proof (cases r)
    case (Inl e)
    with ar have "wa = w1" by simp
    with a Inl closes_free_job_data [of so "{#}" "Some jd" w w1 env e None] assms(1) show ?thesis
      by (simp add: submit_cmds_def settles_closes)
  next
    case (Inr cmds)
    have wa: "holds (so_res so + bo_res + data_res jd + {#Heap#}) w wa" "hx wa = hx w1"
      using ar Inr holds_take(6) [OF assms(1)] by simp_all
    have len: "length cmds = unat (num_cmds args)" using ar Inr assms(5) by (simp add: user_arrays_def)
    have bad: "settles env w so (Some (exit_free_cmds env so (Some jd) e None wa))" for e
      using closes_free_cmds [of so "{#}" "Some jd" w wa env e None] wa(1) by (simp add: settles_closes)
    have "length (bo_data (hx wa) (gather_id env)) < 2 ^ 30" using assms(4) wa(2) by simp
    from create_job_result [OF this len, of ctx jd] consider
      (ok) job where "submit_create_job env ctx args jd cmds wa = Some (Inr job, job_refs job wa)" "job_sound env ctx args jd (bo_data (hx wa) (gather_id env)) job"
    | (err) e where "submit_create_job env ctx args jd cmds wa = Some (Inl e, wa)" by blast
    then show ?thesis
    proof cases
      case ok
      have "plain_job job" using ok(2) by (simp add: job_sound_def plain_job_def)
      moreover have "holds (entered so jd job) w (job_refs job wa)"
        using holds_job_refs [OF wa(1)] by (simp add: entered_def ac_simps)
      ultimately have "settles env w so (submit_pin env ctx so jd job (job_refs job wa))"
        using assms(2,3,6) wa(2) by (intro submit_pin_settles) simp_all
      with a Inr ok(1) show ?thesis by (simp add: submit_cmds_def)
    next
      case err
      with a Inr bad show ?thesis by (simp add: submit_cmds_def)
    qed
  qed
qed

lemma submit_bufs_settles:
  assumes "holds (so_res so + bo_res) w w1" "so \<noteq> None \<Longrightarrow> fence_created env = None"
    and "length (bo_data (hx w1) (gather_id env)) < 2 ^ 30" "user_arrays env args" "fresh_bo env w (hx w1)"
  shows "settles env w so (submit_bufs env ctx args so w1)"
proof (cases "mem_job_data env")
  case False
  with closes_put_bo [of so "{#}" w w1 env "- ENOMEM" None] assms(1) show ?thesis
    by (simp add: submit_bufs_def settles_closes)
next
  case True
  let ?w = "w1\<lparr>heap := heap w1 + 1\<rparr>" and ?jd = "\<lparr>used_mappings = None, timestamps = None\<rparr>"
  have start: "holds (so_res so + bo_res + data_res ?jd) w ?w"
    using holds_take(6) [OF assms(1)] by (simp add: data_res_def)
  obtain err jd w2 where i: "(if config_tracing env then submit_init_profiling env ?jd ?w else (0, ?jd, ?w)) = (err, jd, w2)"
    using prod_cases3 by blast
  have p: "holds (so_res so + bo_res + data_res jd) w w2 \<and> used_mappings jd = None \<and> traced env jd \<and> hx w2 = hx w1"
  proof (cases "config_tracing env \<and> jd \<noteq> ?jd")
    case False
    with i start show ?thesis
      by (auto simp: submit_init_profiling_def traced_def split: if_splits option.splits)
  next
    case True
    then obtain a where "jd = ?jd\<lparr>timestamps := Some a\<rparr>" "w2 = ?w\<lparr>dma_live := dma_live ?w + 1\<rparr>"
      using i by (auto simp: submit_init_profiling_def split: if_splits option.splits)
    with True holds_take(7) [OF start] show ?thesis by (simp add: data_res_def traced_def add_mset_commute)
  qed
  have bad: "settles env w so (Some (exit_free_job_data env so (Some jd) e None wa))" if "holds (so_res so + bo_res + data_res jd) w wa" for e jd wa
    using closes_free_job_data [of so "{#}" "Some jd" w wa env e None] that by (simp add: settles_closes)
  show ?thesis
  proof (cases "err = 0")
    case False
    with i p bad \<open>mem_job_data env\<close> show ?thesis by (simp add: submit_bufs_def)
  next
    case ok: True
    have "\<exists>r. submit_process_bufs env ctx args jd w2 = Some r"
      by (rule process_bufs_total) (use assms(4) in \<open>simp add: user_arrays_def\<close>)
    then obtain e jd2 w3 where b: "submit_process_bufs env ctx args jd w2 = Some (e, jd2, w3)" by auto
    have "holds (data_res jd + (so_res so + bo_res)) w w2" using p by (simp add: ac_simps)
    from process_bufs_holds [OF b _ this] p have
      h: "holds (so_res so + bo_res + data_res jd2) w w3" "timestamps jd2 = timestamps jd" "bo_refs (hx w3) = bo_refs (hx w1)"
        "length (bo_data (hx w3) (gather_id env)) = length (bo_data (hx w1) (gather_id env))" by (simp_all add: ac_simps)
    have l: "live_maps (hx w3) = live_maps (hx w1)" "live_iovas (hx w3) = live_iovas (hx w1)" "live_copies (hx w3) = live_copies (hx w1)"
      using process_bufs_live [OF b] p by simp_all
    have "settles env w so (submit_cmds env ctx args so jd2 w3)"
      using h p l assms by (intro submit_cmds_settles) (simp_all add: traced_def fresh_bo_def)
    with i ok b bad [OF h(1)] \<open>mem_job_data env\<close> show ?thesis by (simp add: submit_bufs_def)
  qed
qed

lemma submit_syncobjs_settles:
  assumes "\<not> (bo_refs (hx w) (gather_id env) \<noteq> 0)" "user_arrays env args" "syncobj_out args \<noteq> 0 \<Longrightarrow> fence_created env = None"
  shows "settles env w (if syncobj_out args \<noteq> 0 then Some (syncobj_out args) else None) (submit_syncobjs env ctx args (w\<lparr>fpriv_locked := True\<rparr>))"
proof -
  let ?w = "w\<lparr>fpriv_locked := True\<rparr>" and ?so = "if syncobj_out args \<noteq> 0 then Some (syncobj_out args) else None"
  define w1 where "w1 = (case ?so of None \<Rightarrow> ?w | Some i \<Rightarrow> ?w\<lparr>syncobj_refs := (syncobj_refs ?w)(i := syncobj_refs ?w i + 1)\<rparr>)"
  have early: "settles env w so' (Some (exit_unlock None e None ?w))" for so' e
    using closes_unlock [of None "{#}" ?w env w e None] assms(1) by (simp add: settles_closes so_res_def holds_refl)
  have h1: "holds (so_res ?so) w w1" "hx w1 = hx w"
    using holds_take(3) [of "{#}" w ?w "syncobj_out args"] by (auto simp: w1_def so_res_def holds_refl)
  obtain err w2 where c: "submit_copy_gather_data env args w1 = (err, w2)" by fastforce
  show ?thesis
  proof (cases "err = 0")
    case False
    with c have "w2 = w1" by (auto simp: submit_copy_gather_data_def split: if_splits option.splits)
    with False c early closes_unlock [of ?so "{#}" w1 env w err None] h1 assms(1) show ?thesis
      by (simp add: submit_syncobjs_def Let_def w1_def [symmetric] settles_closes)
  next
    case True
    with c obtain ws where ws: "user_gather env = Some ws" and w2: "w2 = w1\<lparr>heap := heap w1 + 1, dma_live := dma_live w1 + 1,
        hx := (hx w1)\<lparr>bo_refs := (bo_refs (hx w1))(gather_id env := 1), bo_data := (bo_data (hx w1))(gather_id env := ws)\<rparr>\<rparr>"
      by (auto simp: submit_copy_gather_data_def split: if_splits option.splits)
    have l: "length ws < 2 ^ 30" using ws assms(2) by (simp add: user_arrays_def word_less_nat_alt)
    have "holds (so_res ?so + bo_res) w w2"
      using holds_take(7) [OF holds_take(6) [OF h1(1)]] by (simp add: w2 add_mset_commute)
    moreover have "fresh_bo env w (hx w2)" using h1(2) by (simp add: fresh_bo_def w2)
    ultimately have "settles env w ?so (submit_bufs env ctx args ?so w2)"
      using assms(2,3) l by (intro submit_bufs_settles) (simp_all add: w2 split: if_splits)
    with True c early show ?thesis
      by (simp add: submit_syncobjs_def Let_def w1_def [symmetric])
  qed
qed

lemma ioctl_settles:
  assumes "bo_refs (hx w) (gather_id env) = 0" "user_arrays env args" "syncobj_out args \<noteq> 0 \<Longrightarrow> fence_created env = None"
  shows "settles env w (if syncobj_out args \<noteq> 0 then Some (syncobj_out args) else None) (tegra_drm_ioctl_channel_submit env args w)"
proof -
  let ?w = "w\<lparr>fpriv_locked := True\<rparr>"
  have "settles env w so (Some (exit_unlock None e None ?w))" for so e
    using closes_unlock [of None "{#}" ?w env w e None] assms(1) by (simp add: settles_closes so_res_def holds_refl)
  moreover have "settles env w so (Some (- EINVAL, None, ?w\<lparr>fpriv_locked := False\<rparr>))" for so
    using assms(1) by (simp add: settles_def closes_def submitted_res_def holds_refl)
  ultimately show ?thesis
    using submit_syncobjs_settles [of w env args] assms
    by (auto simp: tegra_drm_ioctl_channel_submit_def Let_def split: option.splits)
qed

subsection \<open>The end of a job\<close>

text \<open>
  What \<open>update_cdma_locked\<close> (\<open>gpu/host1x/cdma.c\<close>) does with a job whose syncpoint has been reached: unpin it, and put the reference
  of the queue.
\<close>

definition retire_job :: "submit_env \<Rightarrow> host1x_job \<Rightarrow> bool \<Rightarrow> tegra_drm_submit_data \<Rightarrow> drm_world \<Rightarrow> drm_world" where
  "retire_job env job memctx jd w =
     (case host1x_job_unpin (host_domain (job_pin_env env)) job (hx w) of (job, h) \<Rightarrow>
        let freed = (bo_refs h (gather_id env) = 0 \<and> bo_refs (hx w) (gather_id env) \<noteq> 0);
            w = w\<lparr>hx := h\<rparr>;
            w = (if freed then w\<lparr>heap := heap w - 1, dma_live := dma_live w - 1\<rparr> else w)
        in job_free env job memctx (Some jd) w)"

lemma unpin_bo_put:
  "host1x_job_unpin d job h = (job', h') \<Longrightarrow> host1x_job_unpin d job (bo_put b h) = (job', bo_put b h')"
  by (auto simp: host1x_job_unpin_def unpin_all Let_def bo_put_def fun_eq_iff)

lemma retire_pinned:
  assumes p: "pinned_since env w job h" and e: "pin_errors (job_pin_env env)" "iova_sizes (job_pin_env env)"
    and z: "bo_refs (hx w) (gather_id env) = 0"
  shows "\<exists>job' h'. host1x_job_unpin (host_domain (job_pin_env env)) job (bo_put (gather_id env) h) = (job', h')
    \<and> bo_refs h' = bo_refs (hx w) \<and> live_maps h' = live_maps (hx w) \<and> live_iovas h' = live_iovas (hx w) \<and> live_copies h' = live_copies (hx w)"
proof -
  from p obtain job0 h0 where j: "plain_job job0" "fresh_bo env w h0" "host1x_job_pin (job_pin_env env) job0 h0 = Some (0, job, h)"
    by (auto simp: pinned_since_def)
  obtain job' h' where u: "host1x_job_unpin (host_domain (job_pin_env env)) job h = (job', h')" by fastforce
  have "bo_refs h' = bo_refs h0 \<and> live_maps h' = live_maps h0 \<and> live_copies h' = live_copies h0
    \<and> live_iovas h' = live_iovas h0 - (if \<not> enable_firewall job0 \<and> host_domain (job_pin_env env) then sized (take (length (job_relocs job0)) (job_unpins job)) else 0)"
    using j by (intro pin_unpin_balance [OF j(3) e _ _ u]) (auto simp: plain_job_def)
  with j(1,2) z have "bo_refs (bo_put (gather_id env) h') = bo_refs (hx w)" "live_maps h' = live_maps (hx w)"
    "live_iovas h' = live_iovas (hx w)" "live_copies h' = live_copies (hx w)"
    by (auto simp: plain_job_def fresh_bo_def bo_put_def)
  with unpin_bo_put [OF u] show ?thesis by (simp add: bo_put_def)
qed

lemma retire_holds:
  assumes c: "closes env w (submitted_res env so (Some (job, memctx, jd))) (err, Some (job, memctx, jd), w')"
    and p: "pinned_since env w job h" "hx w' = bo_put (gather_id env) h" and tr: "traced env jd"
    and e: "pin_errors (job_pin_env env)" "iova_sizes (job_pin_env env)" and z: "bo_refs (hx w) (gather_id env) = 0"
  shows "holds (on (so \<noteq> None) Fence) w (retire_job env job memctx jd w')"
    "bo_refs (hx (retire_job env job memctx jd w')) = bo_refs (hx w) \<and> live_maps (hx (retire_job env job memctx jd w')) = live_maps (hx w)
     \<and> live_iovas (hx (retire_job env job memctx jd w')) = live_iovas (hx w) \<and> live_copies (hx (retire_job env job memctx jd w')) = live_copies (hx w)"
proof -
  from retire_pinned [OF p(1) e z] p(2) obtain job' h' where u: "host1x_job_unpin (host_domain (job_pin_env env)) job (hx w') = (job', h')"
    and h: "bo_refs h' = bo_refs (hx w)" "live_maps h' = live_maps (hx w)" "live_iovas h' = live_iovas (hx w)" "live_copies h' = live_copies (hx w)"
    by auto
  define w1 where "w1 = (if bo_refs (hx w') (gather_id env) \<noteq> 0 then w'\<lparr>hx := h', heap := heap w' - 1, dma_live := dma_live w' - 1\<rparr> else w'\<lparr>hx := h'\<rparr>)"
  have r: "retire_job env job memctx jd w' = job_free env job' memctx (Some jd) w1"
    using h(1) z by (simp add: retire_job_def u Let_def w1_def)
  have j: "job_res job' = job_res job" using job_unpin_job [OF u] by (simp add: job_res_def)
  have "holds (submitted_res env so (Some (job, memctx, jd))) w w1"
  proof (cases "bo_refs (hx w') (gather_id env) = 0")
    case True
    with c show ?thesis by (simp add: closes_def w1_def)
  next
    case False
    with c have "holds (submitted_res env so (Some (job, memctx, jd)) + bo_res) w w'" by (simp add: closes_def)
    with False show ?thesis by (simp add: holds_def w1_def)
  qed
  then have "holds (job_res job' + released_res env memctx (Some jd) + on (so \<noteq> None) Fence) w w1"
    by (simp add: submitted_res_def j)
  then show "holds (on (so \<noteq> None) Fence) w (retire_job env job memctx jd w')"
    unfolding r using tr by (intro holds_job_free) simp_all
  show "bo_refs (hx (retire_job env job memctx jd w')) = bo_refs (hx w) \<and> live_maps (hx (retire_job env job memctx jd w')) = live_maps (hx w)
     \<and> live_iovas (hx (retire_job env job memctx jd w')) = live_iovas (hx w) \<and> live_copies (hx (retire_job env job memctx jd w')) = live_copies (hx w)"
    using h by (simp add: r w1_def)
qed

text \<open>The whole way of a submission: what is left at its end, whether a job was submitted or not.\<close>

definition submission_clean :: "submit_env \<Rightarrow> drm_tegra_channel_submit \<Rightarrow> drm_world \<Rightarrow> submit_exit \<Rightarrow> bool" where
  "submission_clean env args w r \<longleftrightarrow> (case r of
     (err, None, w') \<Rightarrow> \<not> fpriv_locked w' \<and> holds (if bo_refs (hx w') (gather_id env) = 0 then {#} else bo_res) w w'
   | (err, Some (job, memctx, jd), w') \<Rightarrow> err = 0 \<and> \<not> fpriv_locked w'
       \<and> (let w'' = retire_job env job memctx jd w'
          in holds (on (syncobj_out args \<noteq> 0) Fence) w w'' \<and> bo_refs (hx w'') = bo_refs (hx w) \<and> live_maps (hx w'') = live_maps (hx w)
            \<and> live_iovas (hx w'') = live_iovas (hx w) \<and> live_copies (hx w'') = live_copies (hx w)))"

lemma submission_is_clean:
  assumes "bo_refs (hx w) (gather_id env) = 0" "user_arrays env args" "syncobj_out args \<noteq> 0 \<Longrightarrow> fence_created env = None"
    and "pin_errors (job_pin_env env)" "iova_sizes (job_pin_env env)"
  shows "\<exists>r. tegra_drm_ioctl_channel_submit env args w = Some r \<and> submission_clean env args w r"
proof -
  let ?so = "if syncobj_out args \<noteq> 0 then Some (syncobj_out args) else None"
  from ioctl_settles [OF assms(1-3)] obtain err sub w' where
    r: "tegra_drm_ioctl_channel_submit env args w = Some (err, sub, w')" "closes env w (submitted_res env ?so sub) (err, sub, w')"
      "\<forall>job memctx jd. sub = Some (job, memctx, jd) \<longrightarrow> err = 0 \<and> traced env jd \<and> (\<exists>h. pinned_since env w job h \<and> hx w' = bo_put (gather_id env) h)"
    unfolding settles_def by blast
  show ?thesis
  proof (cases sub)
    case None
    with r show ?thesis by (simp add: submission_clean_def closes_def submitted_res_def)
  next
    case (Some s)
    obtain job memctx jd where s: "sub = Some (job, memctx, jd)" using Some by (cases s) auto
    with r(3) obtain h where h: "err = 0" "traced env jd" "pinned_since env w job h" "hx w' = bo_put (gather_id env) h" by blast
    note rh = retire_holds [OF r(2) [unfolded s] h(3,4,2) assms(4,5,1)]
    have "on (?so \<noteq> None) Fence = on (syncobj_out args \<noteq> 0) Fence" by simp
    with rh r(1,2) h(1) s show ?thesis by (simp add: submission_clean_def Let_def closes_def)
  qed
qed

end
