(* ===== verification/Drm_Submitted.thy ===== *)
theory Drm_Submitted
  imports Drm_Balance
begin

text \<open>
  The properties of job submission (\<open>gpu/drm/tegra/submit.c\<close>), and a submission to the 2D engine: a gather that writes a patched
  address and leaves the engine in its other class, then a wait.
\<close>

definition example_context :: tegra_drm_context where
  "example_context = \<lparr>ctx_client = gr2d_client, ctx_mappings = [5 \<mapsto> 0], ctx_memory = True\<rparr>"

definition example_cmds :: "drm_tegra_submit_cmd list" where
  "example_cmds = [\<lparr>cmd_type = 0, cmd_flags = 0, cmd_word0 = 3, cmd_word1 = 0, cmd_word2 = 0, cmd_word3 = 0\<rparr>,
     \<lparr>cmd_type = 1, cmd_flags = 0, cmd_word0 = 7, cmd_word1 = 9, cmd_word2 = 0, cmd_word3 = 0\<rparr>]"

definition example_submit :: drm_tegra_channel_submit where
  "example_submit = \<lparr>sub_context = 1, num_bufs = 1, num_cmds = 2, gather_data_words = 3, syncobj_in = 0, syncobj_out = 4,
     syncpt_id = 7, syncpt_flags = 0, syncpt_increments = 1, sub_flags = 0, secondary_syncpt_id = 0\<rparr>"

definition example_env :: submit_env where
  "example_env = \<lparr>mapping_of = (\<lambda>_. \<lparr>iova = 0x1000, iova_end = 0x2000\<rparr>), contexts = [1 \<mapsto> example_context],
     syncpoints = (\<lambda>i. i = 7), stack_junk = 1, find_fence = 0, fence_wait = 0, find_syncobj = (\<lambda>i. i = 4), mem_bo = True,
     dma_gather = True, user_gather = Some [0x101a0001, 0, 0x1480], mem_job_data = True, config_tracing = True,
     has_job_timestamping = Some (0, True), dma_timestamps = Some 0x300, mem_bufs = True,
     user_bufs = Some [\<lparr>buf_mapping = 5, buf_flags = 0, buf_target_offset = 0x800, gather_offset_words = 1, buf_shift = 0\<rparr>],
     mem_mappings = True, mem_cmds = True, user_cmds = Some example_cmds, mem_job = True,
     job_pin_env = \<lparr>bo_pin_reloc = (\<lambda>_. Inl (- 22)), bo_pin_gather = (\<lambda>_. Inr \<lparr>map_bo = 9, map_phys = 0x7000, map_size = 12, map_chunks = 1\<rparr>),
       host_domain = True, alloc_iova = (\<lambda>_. Some (0x9000, 4096)), iommu_map_ok = (\<lambda>_. True), dma_alloc_wc = None, bo_mmap_ok = (\<lambda>_. True)\<rparr>,
     get_streamid_offset = Some 0, can_use_memory_ctx = Some (0, True), pm_enabled = True, pm_resume = 0, job_submit = 0,
     fence_created = None, gather_id = 9\<rparr>"

definition example_world :: drm_world where
  "example_world = \<lparr>map_refs = (\<lambda>_. 1), sp_refs = (\<lambda>_. 1), syncobj_refs = (\<lambda>_. 1), memctx_refs = 1, pm_usage = 0, heap = 0,
     dma_live = 0, fences_live = 0, fpriv_locked = False,
     hx = \<lparr>bo_refs = (\<lambda>_. 0), bo_data = (\<lambda>_. []), live_maps = 0, live_iovas = 0, live_copies = 0\<rparr>\<rparr>"

lemma example_permitted:
  "tegra_drm_fw_validate gr2d_client [0x101a0001, 0x1800, 0x1480] 0 3 [\<lparr>iova = 0x1000, iova_end = 0x2000\<rparr>] 0x51 = Some (0, 0x52)"
  by (subst fw_accepts_iff [THEN conjunct1])
    (simp_all add: host1x_opcode_def seq_offsets_def mask_offsets_def gr2d_client_def gr2d_is_addr_reg_def gr2d_addr_regs_def
      gr2d_is_valid_class_def HOST1X_CLASS_GR2D_def HOST1X_CLASS_GR2D_SB_def HOST1X_CLASS_HOST1X_def GR2D_NUM_REGS_def last_class_def)

lemmas submit_eval = tegra_drm_ioctl_channel_submit_def submit_syncobjs_def submit_copy_gather_data_def submit_bufs_def submit_init_profiling_def
  submit_process_bufs_def alloc_copy_user_array_def tegra_drm_mapping_get_def mapping_get_def submit_write_reloc_def on_hx_def kfree_def
  submit_cmds_def submit_create_job_def host1x_job_alloc_def submit_get_syncpt_def sp_get_def submit_job_add_gather_def
  host1x_job_add_gather_def host1x_job_add_wait_def host1x_job_add_reg_write_def job_add_def
  submit_pin_def host1x_job_pin_def pin_job_def pin_gather_def job_pinned_def bo_get_def do_relocs_def mark_handled_def
  submit_memory_context_def submit_power_up_def submit_job_def exit_free_cmds_def exit_free_job_data_def exit_put_bo_def
  gather_bo_put_def bo_put_def exit_unlock_def

lemma gr2d_base [simp]: "base_class gr2d_client = 0x51"
  by (simp add: gr2d_client_def HOST1X_CLASS_GR2D_def)


subsection \<open>Errors that the ioctl returns\<close>

text \<open>Invalid flags: the variable for the error was never set.\<close>

lemma invalid_flags_return_junk:
  assumes "contexts env (sub_context args) = Some ctx" "sub_flags args = 2"
  shows "tegra_drm_ioctl_channel_submit env args w = Some (stack_junk env, None, w\<lparr>fpriv_locked := False\<rparr>)"
  using assms by (simp add: tegra_drm_ioctl_channel_submit_def exit_unlock_def)

text \<open>A wait that was successful after some time gives the time that is left, and the submission stops with it.\<close>

lemma waited_fence_stops_submission:
  assumes "contexts env (sub_context args) = Some ctx" "sub_flags args = 0" "syncobj_in args \<noteq> 0" "find_fence env = 0" "0 < fence_wait env"
  shows "tegra_drm_ioctl_channel_submit env args w = Some (fence_wait env, None, w\<lparr>fpriv_locked := False\<rparr>)"
  using assms by (simp add: tegra_drm_ioctl_channel_submit_def submit_syncobjs_def exit_unlock_def)

text \<open>A shift of the width of the address or more has no defined result; the user chooses it.\<close>

lemma reloc_shift_undefined: "64 \<le> unat (buf_shift buf) \<Longrightarrow> submit_write_reloc data buf m = None"
  by (simp add: submit_write_reloc_def Let_def)

text \<open>
  C12. The driver either rejects the commands of the user, and then has given back all it took, or makes a job whose commands are
  sound: its gathers lie one behind the other in the copied data from its start, none has more than 16383 words, each decodes from the class
  that the one before left and only does what the firewall permits, every wait restores the class of the place where it
  stands, and the only other register writes are those for the timestamps. The array of commands is never overrun, and no
  access is outside of the data.
\<close>

theorem drm_created_job_sound:
  assumes "length (bo_data (hx w) (gather_id env)) < 2 ^ 30" "length cmds = unat (num_cmds args)"
  shows "(\<exists>job. submit_create_job env ctx args jd cmds w = Some (Inr job, job_refs job w)
      \<and> job_sound env ctx args jd (bo_data (hx w) (gather_id env)) job)
    \<or> submit_create_job env ctx args jd cmds w \<in> {Some (Inl (- EINVAL), w), Some (Inl (- ENOMEM), w)}"
  by (rule create_job_result [OF assms])

theorem drm_created_job_sound_witness:
  "\<exists>job. submit_create_job example_env example_context example_submit \<lparr>used_mappings = Some [(0, 0)], timestamps = Some 0x300\<rparr> example_cmds
       (example_world\<lparr>hx := world_of (\<lambda>_. [0x101a0001, 0x1800, 0x1480])\<rparr>) = Some (Inr job, job_refs job (example_world\<lparr>hx := world_of (\<lambda>_. [0x101a0001, 0x1800, 0x1480])\<rparr>))
     \<and> job_sound example_env example_context example_submit \<lparr>used_mappings = Some [(0, 0)], timestamps = Some 0x300\<rparr> [0x101a0001, 0x1800, 0x1480] job"
proof -
  let ?w = "example_world\<lparr>hx := world_of (\<lambda>_. [0x101a0001, 0x1800, 0x1480])\<rparr>"
  let ?jd = "\<lparr>used_mappings = Some [(0, 0)], timestamps = Some 0x300\<rparr>"
  have "\<exists>job w. submit_create_job example_env example_context example_submit ?jd example_cmds ?w = Some (Inr job, w)"
    by (simp add: submit_eval Let_def example_env_def example_submit_def example_world_def example_context_def example_cmds_def world_of_def
        example_permitted)
  moreover have "length (bo_data (hx ?w) (gather_id example_env)) < 2 ^ 30" "length example_cmds = unat (num_cmds example_submit)"
    by (simp_all add: world_of_def example_cmds_def example_submit_def)
  ultimately show ?thesis
    using drm_created_job_sound [of ?w example_env example_cmds example_submit example_context ?jd] by (auto simp: world_of_def)
qed



end
