(* ===== verification/Spec2Isabelle.thy ===== *)
theory Spec2Isabelle
  imports Ivc_Setup Mem_Manager Iova_Mngr Msgq Dce_Client Mttcan_Net Pva_Auth Tsec_Message Tsec_Pages
    Drm_Firewall Host1x_Gathers Host1x_Intr Drm_Submitted
begin

text \<open>
  A verification of parts of the NVIDIA out-of-tree kernel modules. The repository is a collection of
  drivers; most of them are register tables and glue to kernel frameworks. Modelled are subsystems
  whose logic is their own. All paths are below \<open>src/drivers\<close>.

  \<^bold>\<open>Inter-VM communication\<close> (\<open>platform/tegra/tegra-ivc.c\<close>). Two queues of fixed-size frames in memory that two
  processors share. The writer of a queue owns its \<open>w_count\<close> and its position, the reader \<open>r_count\<close> and its
  position; a handshake of three states resets both ends.

    \<^item> \<open>Ivc\<close>: the endpoint (\<open>struct ivc\<close>) with its copy of the shared memory, and reading, writing, peeking and
      advancing. What the peer does to the memory it owns is an \<open>observer\<close>, applied at each point at which the code
      reads the memory anew. The lemmas show that no operation of an endpoint leaves its own frames or reaches a
      \<open>BUG()\<close>, whatever the peer writes.
    \<^item> \<open>Ivc_Link\<close>: two endpoints whose queues are the same memory. One direction is a bounded queue
      (the locale \<open>bounded_fifo\<close> of the prelude), through the wrap-around of the 32-bit counters.
    \<^item> \<open>Ivc_Protocol\<close>: \<open>tegra_ivc_channel_notified\<close> and \<open>tegra_ivc_channel_reset\<close> against the table in the source's
      comment; the reachable states of the pair of endpoints; the handshake ends.
    \<^item> \<open>Ivc_Setup\<close>: the checks of the parameters, the DMA mappings, initialisation and resynchronisation.

  \<^bold>\<open>Allocators.\<close> \<open>Chunks\<close> holds what the two share: lists of chunks, their order and the bytes they cover.

    \<^item> \<open>Mem_Manager\<close>: \<open>platform/tegra/nvadsp/mem_manager.c\<close>; a first list of allocated and a second of free chunks.
    \<^item> \<open>Iova_Mngr\<close>: \<open>misc/nvscic2c-pcie/iova-mngr.c\<close>; blocks of I/O virtual addresses.

  Both, and the pages of the security engine below, provide the locale \<open>range_allocator\<close>. Its invariant says that the region is
  divided without gap or overlap; it holds after any sequence of requests and releases. \<open>nonempty_allocator\<close> extends it for those that
  hand out no empty chunk, which the memory manager does when asked for 0 bytes. An allocation that can fail is an argument of the
  operation (\<open>None\<close>: no memory).

  \<^bold>\<open>Message queue of the audio DSP.\<close> \<open>Msgq\<close>: \<open>platform/tegra/nvadsp/msgq.c\<close>, a circular buffer of words with messages of
  varying length. It provides the locale \<open>bounded_fifo\<close> too: the abstraction is the list of the messages queued. Indices and sizes are \<open>int\<close> reduced to 32 bits
  as the code does.

  \<^bold>\<open>Display controller engine\<close> (\<open>platform/tegra/dce\<close>).

    \<^item> \<open>Dce_Fsm\<close>: the state machine (\<open>dce-fsm.c\<close>), the wait conditions (\<open>dce-worker.c\<close>) and the shared semaphores
      (\<open>dce-hsp-ss.c\<close>); reachability of the machine is an inductive relation.
    \<^item> \<open>Dce_Mailbox\<close>: the mailbox registers (\<open>dce-hsp-smb.c\<close>) and the interfaces on them (\<open>dce-mailbox.c\<close>), with the
      interrupt handler.
    \<^item> \<open>Dce_Boot\<close>: boot commands and boot flow (\<open>dce-bootstrap.c\<close>), administration messages (\<open>dce-admin.c\<close>) and power
      management (\<open>dce-pm.c\<close>).
    \<^item> \<open>Dce_Region\<close>: the power of two of the size of the region of the channels (\<open>dce-util-common.c\<close>).
    \<^item> \<open>Dce_Ipc\<close>: the channels, with their signals, messages and waits (\<open>dce-ipc.c\<close>, \<open>dce-ipc-signal.c\<close>).
    \<^item> \<open>Dce_Channels\<close>: the lemmas on them: the layout of the region, the set-up, sending.
    \<^item> \<open>Dce_Client\<close>: the clients of the channels (\<open>dce-client-ipc.c\<close>): handles, registration, calls and events.

  The queues of the channels are the kernel's \<open>struct tegra_ivc\<close>, which is not part of the repository; its operations
  are the record \<open>ivc_api\<close>, on which the definitions of \<open>Dce_Ipc\<close> depend. Of its initialisation the theorem on the layout of the
  region assumes what the kernel's check of the parameters accepts (\<open>ivc_init_documented\<close>).

  The firmware and other contexts are fields of the record \<open>dce_world\<close>: what they do to the state during a wait. The
  theorems on whole commands assume a firmware that answers, and the witnesses give one; it notes the commands it receives
  in \<open>fw_log\<close>, which is no state of the driver. The functions of the channels that \<open>dce-admin.c\<close> and \<open>dce-bootstrap.c\<close> call are fields too,
  which may not return: \<open>Dce_Boot\<close> is below \<open>Dce_Ipc\<close>, which models them on a larger state. So what is said of the administration
  sequence depends on these functions returning, which they do not when the firmware is silent.

  \<^bold>\<open>CAN controller\<close> (\<open>net/can/mttcan\<close>).

    \<^item> \<open>Mttcan_Ram\<close>: the controller structure (\<open>include/m_ttcan.h\<close>) and the message RAM (\<open>hal/m_ttcan_ram.c\<close>).
    \<^item> \<open>Mttcan_Ctrl\<close>: the registers and the configuration (\<open>hal/m_ttcan.c\<close>, \<open>hal/m_ttcan_intr.c\<close>, \<open>hal/m_ttcan_tt.c\<close>).
    \<^item> \<open>Mttcan_Queue\<close>: the lists of received frames (\<open>hal/m_ttcan_list.c\<close>), reception and transmission
      (\<open>hal/m_ttcan.c\<close>).
    \<^item> \<open>Mttcan_Net\<close>: the network driver (\<open>native/m_ttcan_linux.c\<close>).

  Operations are programs of the state monad over the controller structure, and over the driver's private structure.
  The device is the record \<open>can_env\<close>: before each access it may change its registers and the message RAM in any way.
  The kernel's CAN layer is the record \<open>can_core\<close>. The theorems that say what a register holds after an
  operation assume a device that keeps what is written (\<open>plain_device\<close>); those on lists, buffers and echo slots hold for
  every device.

  \<^bold>\<open>Authentication of vision accelerator executables\<close> (\<open>video/tegra/host/pva\<close>).

    \<^item> \<open>Pva_Sha256\<close>: \<open>pva_sha256.c\<close>, and the standard as a definition of its own, with the proof that they agree and the
      published digest of a message.
    \<^item> \<open>Pva_Auth\<close>: the list of allowed executables, its parser and the search in it (\<open>pva_vpu_app_auth.c\<close>), and its
      use when an executable is registered (\<open>pva_ioctl.c\<close>). Memory is a predicate that says which allocations succeed.

  \<^bold>\<open>Communication with the security engine\<close> (\<open>video/tegra/tsec/tsec_comms\<close>).

    \<^item> \<open>Tsec_Queue\<close>: the layout of a queue of packets in the shared carveout, with the packets it holds, and what a reader
      and a writer that keep to it do to them.
    \<^item> \<open>Tsec_Comms\<close>: \<open>tsec_comms.c\<close>, and the interrupt and the work item of \<open>tsec_boot.c\<close>. The static variables are the record
      \<open>tsec\<close>; the firmware acts on registers and carveout (\<open>fw\<close> of the record \<open>tsec_plat\<close>) at every register access and delay.
    \<^item> \<open>Tsec_Command\<close>, \<open>Tsec_Message\<close>: sending, while the firmware reads, and draining. The hypothesis \<open>fw_pops\<close> is the protocol of the
      reader that the driver itself follows for the messages; \<open>idle\<close> is a firmware that does nothing meanwhile.
    \<^item> \<open>Tsec_Pages\<close>: the pages of the carveout, a third \<open>range_allocator\<close>, and the initialisation. What clients were given is
      recorded beside the mask of the driver (\<open>page_use\<close>), so that the two can be compared.

  \<^bold>\<open>Graphics jobs\<close> (\<open>gpu/drm/tegra\<close>, \<open>gpu/host1x\<close>). A job is a list of gathers: streams of command words that the host1x
  hardware decodes into register writes. Two firewalls read them before the hardware does.

    \<^item> \<open>Host1x_Stream\<close>: what the hardware does with a stream.
    \<^item> \<open>Drm_Firewall\<close>: the firewall of the DRM driver (\<open>drm/tegra/firewall.c\<close>), which accepts addresses inside the
      mappings of a job; it accepts exactly what is permitted.
    \<^item> \<open>Host1x_Job\<close>: jobs, pinning of buffers, the older firewall, which demands a relocation for every address, and the
      patching of relocations (\<open>host1x/job.c\<close>). What mapping and allocating give is in \<open>pin_env\<close>.
    \<^item> \<open>Host1x_Pin\<close>: references, mappings and addresses over pinning and unpinning.
    \<^item> \<open>Host1x_Gathers\<close>: for gathers of different buffers the older firewall and the patching together are sound, except for
      immediate writes, which this firewall does not look at; for two gathers of one buffer they are not.
    \<^item> \<open>Host1x_Intr\<close>: the lists of fences that wait for a syncpoint, what the hardware is told of them, and the interrupt
      handler (\<open>host1x/intr.c\<close>, \<open>host1x/hw/intr_hw.c\<close>); a history of each fence shows that none is lost or signalled early.
    \<^item> \<open>Drm_Submit\<close>: submission of a job through the DRM driver (\<open>drm/tegra/submit.c\<close>), each label at the end of the ioctl
      a definition. User memory, allocations and the other parts of the kernel are in \<open>submit_env\<close>; \<open>drm_world\<close> counts what is held.
    \<^item> \<open>Drm_Created\<close>: a job that is made has sound commands. \<open>Drm_Balance\<close>: what each exit holds, as a multiset of resources.
      \<open>Drm_Submitted\<close>: the properties, and an example.

  \<open>Prelude\<close> holds the machine words, error numbers, byte memories and lemmas that the theories share.

  \<^bold>\<open>Bounds and fuel.\<close> Loops whose number of turns the code bounds are recursions on that bound: 1000 polls of a control
  register, 64 elements of a FIFO, 32 transmit events, the tries of a suspend. A loop over the bits of a word takes one
  turn per bit, and 32 turns (64 for the two new-data registers) are enough because each clears a bit; the search for a
  free page stops within the 64 bits of the mask because one is set. The loop over the
  words of the message RAM does not end when its size is not a multiple of four: the model then has no result. The
  handshake needs the number of notifications that its theorem states. The loops of DCE that wait for the firmware or
  walk over linked signals, and those of the security engine that wait for room or drain messages, have no bound in the code: they are partial functions, and not ending is \<open>None\<close>.

  \<^bold>\<open>Undefined behaviour\<close> and \<open>BUG()\<close> are \<open>None\<close> (or the flags \<open>undefined_behaviour\<close> of the CAN driver and \<open>undef\<close> of the security
  engine, which a run sets and goes on): an access outside
  an array, a shift by the width or more, a null pointer.

  \<^bold>\<open>Not modelled.\<close> Locks, barriers and cache maintenance are not steps of their own: an operation runs under its lock
  without interleaving, except where the model has an observer or a device. Printing, probing, device-tree parsing, clocks
  and debug interfaces are left out. The boot and administration theories of DCE use the
  channels through fields of \<open>dce_world\<close>; its address translation is left out. Of the CAN driver, the time base behind the time stamps
  and the sysfs files are left out. The callbacks of the clients of the security engine are recorded as events; what they call
  back into the driver is not modelled, and loading its firmware is left out. The remaining drivers are vendored code, register tables and kernel glue.
\<close>

end
